(* ===== verification/GGML_Prelude.thy ===== *)
theory GGML_Prelude
  imports Main "HOL-Library.Word" "HOL-Library.Monad_Syntax" "HOL-Library.Signed_Division"
begin

text \<open>
  Shared vocabulary of the development: the C integer types of the tensor library as seen on
  an LP64 target, their arithmetic with the wrap-around written out, the \<open>option\<close> monad in
  which a failed \<^verbatim>\<open>GGML_ASSERT\<close> or a \<^verbatim>\<open>GGML_ABORT\<close> is \<open>None\<close>, the rounding macro
  \<^verbatim>\<open>GGML_PAD\<close>, and the list and arithmetic facts that the components share.
\<close>

unbundle bit_operations_syntax

section \<open>Integer types\<close>

text \<open>
  A \<^verbatim>\<open>size_t\<close> is a natural number below \<open>2 ^ 64\<close>; a value may leave that range only by
  an arithmetic operation, so each operation below reduces its result. An \<^verbatim>\<open>int64_t\<close> is an
  integer in \<open>[-2^63, 2^63)\<close>. Pointers are addresses, \<open>0\<close> is \<^verbatim>\<open>NULL\<close>.
\<close>

type_synonym size_t = nat
type_synonym int64_t = int
type_synonym int32_t = int
type_synonym ptr = nat

named_theorems size_simps "evaluation of size_t and int64_t arithmetic when nothing wraps"

definition wrap64 :: "nat \<Rightarrow> size_t" where
  "wrap64 n = n mod 2 ^ 64"

abbreviation (input) SIZE_MAX :: size_t where
  "SIZE_MAX \<equiv> 18446744073709551615"

abbreviation (input) INT64_MIN :: int64_t where
  "INT64_MIN \<equiv> - 9223372036854775808"

definition sz_add :: "size_t \<Rightarrow> size_t \<Rightarrow> size_t" where
  "sz_add a b = wrap64 (a + b)"

definition sz_sub :: "size_t \<Rightarrow> size_t \<Rightarrow> size_t" where
  "sz_sub a b = wrap64 (a + 2 ^ 64 - b)"

definition sz_mul :: "size_t \<Rightarrow> size_t \<Rightarrow> size_t" where
  "sz_mul a b = wrap64 (a * b)"

text \<open>Conversions between the signed and the unsigned 64-bit type.\<close>

definition sz_of_int :: "int64_t \<Rightarrow> size_t" where
  "sz_of_int i = nat (i mod 2 ^ 64)"

definition i64 :: "int \<Rightarrow> int64_t" where
  "i64 x = (x + 2 ^ 63) mod 2 ^ 64 - 2 ^ 63"

definition i64_of_sz :: "size_t \<Rightarrow> int64_t" where
  "i64_of_sz n = i64 (int n)"

lemma wrap64_id [simp, size_simps]: "n \<le> SIZE_MAX \<Longrightarrow> wrap64 n = n"
  by (simp add: wrap64_def)

lemma wrap64_le [simp]: "wrap64 n \<le> SIZE_MAX"
  by (simp add: wrap64_def)

lemma sz_add_le [simp]: "sz_add a b \<le> SIZE_MAX"
  and sz_sub_le [simp]: "sz_sub a b \<le> SIZE_MAX"
  and sz_mul_le [simp]: "sz_mul a b \<le> SIZE_MAX"
  by (simp_all add: sz_add_def sz_sub_def sz_mul_def)

lemma sz_add_id [size_simps]: "a + b \<le> SIZE_MAX \<Longrightarrow> sz_add a b = a + b"
  by (simp add: sz_add_def)

lemma sz_mul_id [size_simps]: "a * b \<le> SIZE_MAX \<Longrightarrow> sz_mul a b = a * b"
  by (simp add: sz_mul_def)

lemma sz_sub_id [size_simps]:
  assumes "b \<le> a" "a \<le> SIZE_MAX" shows "sz_sub a b = a - b"
proof -
  have "sz_sub a b = (a - b + 2 ^ 64) mod 2 ^ 64"
    using assms by (simp add: sz_sub_def wrap64_def)
  also have "\<dots> = (a - b) mod 2 ^ 64" by (rule mod_add_self2)
  finally show ?thesis using assms by simp
qed

lemma sz_sub_wrap [size_simps]: "a < b \<Longrightarrow> b \<le> SIZE_MAX \<Longrightarrow> sz_sub a b = a + 18446744073709551616 - b"
  by (simp add: sz_sub_def)

lemma sz_of_int_id [size_simps]: "0 \<le> i \<Longrightarrow> i < 2 ^ 64 \<Longrightarrow> sz_of_int i = nat i"
  by (simp add: sz_of_int_def)

lemma i64_id [size_simps]: "- (2 ^ 63) \<le> x \<Longrightarrow> x < 2 ^ 63 \<Longrightarrow> i64 x = x"
  by (simp add: i64_def)

lemma i64_pos: "0 \<le> x \<Longrightarrow> x < 2 ^ 63 \<Longrightarrow> i64 x = x"
  by (simp add: i64_id)

lemma i64_range: "- (2 ^ 63) \<le> i64 x" "i64 x < 2 ^ 63"
  by (simp_all add: i64_def pos_mod_bound [of "2 ^ 64", THEN order_less_le_trans])

lemma i64_of_sz_id [size_simps]: "n < 2 ^ 63 \<Longrightarrow> i64_of_sz n = int n"
  by (simp add: i64_of_sz_def i64_def)

lemma i64_of_sz_neg [size_simps]:
  assumes "9223372036854775808 \<le> n" "n \<le> SIZE_MAX"
  shows "i64_of_sz n = int n - 18446744073709551616"
proof -
  have "(int n + 2 ^ 63) mod 2 ^ 64 = (int n + 2 ^ 63 - 2 ^ 64) mod 2 ^ 64"
    by (rule minus_mod_self2 [symmetric])
  also have "\<dots> = int n + 2 ^ 63 - 2 ^ 64"
    using assms by (intro mod_pos_pos_trivial) simp_all
  finally show ?thesis by (simp add: i64_of_sz_def i64_def)
qed

lemma sdiv_pos: "0 \<le> a \<Longrightarrow> 0 < b \<Longrightarrow> (a::int) sdiv b = a div b"
  by (cases "a = 0") (simp_all add: signed_divide_int_def)

lemma nat_int_pred [simp]: "nat (int n - 1) = n - 1"
  by (cases n) simp_all

section \<open>Assertions\<close>

text \<open>
  \<^verbatim>\<open>GGML_ASSERT\<close> aborts the process in every build. A computation that may abort has an
  \<open>option\<close> type; \<open>None\<close> is the abort.
\<close>

definition ggml_assert :: "bool \<Rightarrow> unit option" where
  "ggml_assert b = (if b then Some () else None)"

lemma ggml_assert_simps [simp]:
  "ggml_assert True = Some ()" "ggml_assert False = None"
  "ggml_assert b = Some u \<longleftrightarrow> b" "ggml_assert b = None \<longleftrightarrow> \<not> b"
  by (simp_all add: ggml_assert_def)

lemma bind_ggml_assert [simp]:
  "Option.bind (ggml_assert b) f = (if b then f () else None)"
  by (simp add: ggml_assert_def)

lemma if_None_eq_Some: "((if b then x else None) = Some y) = (b \<and> x = Some y)"
  by simp

text \<open>Taking a successful run of a \<open>do\<close> block apart, one statement at a time.\<close>

lemmas run_simps = bind_eq_Some_conv if_None_eq_Some Let_def

lemmas bind_splits = Option.bind_split Option.bind_split_asm

section \<open>Padding\<close>

text \<open>\<^verbatim>\<open>GGML_PAD(x, n) = (((x) + (n) - 1) & ~((n) - 1))\<close> on \<^verbatim>\<open>size_t\<close>.\<close>

definition GGML_PAD :: "size_t \<Rightarrow> size_t \<Rightarrow> size_t" where
  "GGML_PAD x n = unat ((word_of_nat x + word_of_nat n - 1 :: 64 word) AND NOT (word_of_nat n - 1))"

lemma and_not_mask_word: "(w::64 word) AND NOT (mask k) = w - take_bit k w"
proof -
  have "(w AND NOT (mask k)) + take_bit k w = (w AND NOT (mask k)) OR take_bit k w"
    by (rule disjunctive_add_eq_or) (auto simp: bit_eq_iff bit_simps)
  also have "\<dots> = w" by (auto simp: bit_eq_iff bit_simps)
  finally show ?thesis by (simp add: eq_diff_eq)
qed

lemma GGML_PAD_eq:
  assumes n: "n = 2 ^ k" and k: "k < 64" and x: "x + n \<le> 2 ^ 64"
  shows "GGML_PAD x n = (x + n - 1) div n * n"
proof -
  let ?w = "word_of_nat (x + n - 1) :: 64 word"
  have n1: "1 \<le> n" using n by simp
  have w: "word_of_nat x + word_of_nat n - 1 = ?w"
    using n1 by (simp add: of_nat_diff)
  have m: "word_of_nat n - 1 = (mask k :: 64 word)"
    using n by (simp add: mask_eq_exp_minus_1)
  have u: "unat ?w = x + n - 1"
    using x n1 by (simp only: unat_of_nat) (simp add: take_bit_nat_eq_self)
  have "GGML_PAD x n = unat (?w - take_bit k ?w)"
    unfolding GGML_PAD_def w m by (simp only: and_not_mask_word)
  also have "\<dots> = unat ?w - unat (take_bit k ?w)"
    by (rule unat_sub) (simp add: word_le_nat_alt unsigned_take_bit_eq take_bit_nat_less_eq_self)
  also have "\<dots> = (x + n - 1) - (x + n - 1) mod n"
    by (simp only: unsigned_take_bit_eq u) (simp only: take_bit_eq_mod n)
  finally show ?thesis by (simp add: minus_mod_eq_div_mult)
qed

lemma div_mult_round_up:
  fixes x n :: nat assumes "0 < n"
  shows "x \<le> (x + n - 1) div n * n" "(x + n - 1) div n * n < x + n" "n dvd (x + n - 1) div n * n"
proof -
  have e: "(x + n - 1) div n * n + (x + n - 1) mod n = x + n - 1" by simp
  have "(x + n - 1) mod n < n" using assms by simp
  then show "x \<le> (x + n - 1) div n * n" using e assms by linarith
  show "(x + n - 1) div n * n < x + n" using e assms by linarith
qed simp

lemma GGML_PAD_bounds:
  assumes "n = 2 ^ k" "k < 64" "x + n \<le> 2 ^ 64"
  shows "x \<le> GGML_PAD x n" "GGML_PAD x n < x + n" "n dvd GGML_PAD x n"
proof -
  have "0 < n" using assms(1) by simp
  then show "x \<le> GGML_PAD x n" "GGML_PAD x n < x + n" "n dvd GGML_PAD x n"
    unfolding GGML_PAD_eq [OF assms] by (rule div_mult_round_up)+
qed

lemma GGML_PAD_dvd_id:
  assumes "n = 2 ^ k" "k < 64" "x + n \<le> 2 ^ 64" "n dvd x"
  shows "GGML_PAD x n = x"
proof -
  obtain q where x: "x = n * q" using assms(4) by blast
  have "0 < n" using assms(1) by simp
  then have "(n * q + n - 1) div n = q"
    by (intro div_nat_eqI) (auto simp: algebra_simps)
  then show ?thesis using GGML_PAD_eq [OF assms(1-3)] by (simp add: x)
qed

text \<open>The test \<^verbatim>\<open>n && !(n & (n - 1))\<close> accepts exactly the powers of two.\<close>

definition is_pow2 :: "size_t \<Rightarrow> bool" where
  "is_pow2 n \<longleftrightarrow> n \<noteq> 0 \<and> n AND (n - 1) = 0"

lemma is_pow2_ex: "is_pow2 n \<Longrightarrow> \<exists>k. n = 2 ^ k"
proof (induction n rule: less_induct)
  case (less n)
  show ?case
  proof (cases "even n")
    case True
    then obtain m where m: "n = 2 * m" by blast
    then have m0: "m \<noteq> 0" using less.prems by (auto simp: is_pow2_def)
    have "n - 1 = 1 + 2 * (m - 1)" using m m0 by simp
    then have "n AND (n - 1) = 2 * (m AND (m - 1))"
      by (simp add: m and_rec [of "2 * m"])
    then have "is_pow2 m" using less.prems m0 by (simp add: is_pow2_def)
    then obtain k where "m = 2 ^ k" using less.IH [of m] m m0 by auto
    then have "n = 2 ^ Suc k" using m by simp
    then show ?thesis by blast
  next
    case False
    then obtain m where m: "n = 2 * m + 1" using oddE by blast
    have "n AND (n - 1) = 2 * m" by (simp add: m and_rec [of "Suc (2 * m)"])
    then have "n = 2 ^ 0" using less.prems m by (simp add: is_pow2_def)
    then show ?thesis by blast
  qed
qed

lemma is_pow2_exD:
  assumes "is_pow2 n" "n \<le> SIZE_MAX" obtains k where "n = 2 ^ k" "k < 64"
proof -
  obtain k where k: "n = 2 ^ k" using is_pow2_ex [OF assms(1)] by blast
  have "(2::nat) ^ k < 2 ^ 64" using assms(2) unfolding k by simp
  then have "k < 64" by (rule power_less_imp_less_exp [rotated]) simp
  with k that show thesis by blast
qed

lemma GGML_PAD_16:
  assumes "x \<le> SIZE_MAX - 15"
  shows "x \<le> GGML_PAD x 16" "GGML_PAD x 16 < x + 16" "16 dvd GGML_PAD x 16"
  using GGML_PAD_bounds [of 16 4 x] assms by auto

lemma GGML_PAD_le: "GGML_PAD x n \<le> SIZE_MAX"
proof -
  have "unat w < 2 ^ 64" for w :: "64 word" by (rule order_less_le_trans [OF unsigned_less]) simp
  then show ?thesis unfolding GGML_PAD_def by (simp add: less_Suc_eq_le [symmetric])
qed

end
