(* ===== verification/GGML_Alloc_Spec.thy ===== *)
theory GGML_Alloc_Spec
  imports GGML_Prelude
begin

text \<open>
  The contract between a range allocator and its client. An allocator has a state, hands out
  addresses for requested sizes and takes them back; \<open>avail\<close> is the set of cells it could still
  hand out and \<open>block\<close> the cells an address and a size stand for. The client keeps a list of the
  blocks it holds. Whatever sequence of requests and returns it makes, the blocks it holds never
  overlap each other and never overlap what is still available.
\<close>

section \<open>A client\<close>

datatype client_op = Request size_t | Return nat

text \<open>
  \<open>run_client alloc free ops (s, live)\<close> performs the operations in order; \<open>Return i\<close> gives the
  \<open>i\<close>th block held back. \<open>None\<close> is a failed operation or an index that is out of range.
\<close>

fun run_client ::
  "('s \<Rightarrow> size_t \<Rightarrow> ('s \<times> 'a) option) \<Rightarrow> ('s \<Rightarrow> 'a \<Rightarrow> size_t \<Rightarrow> 's option) \<Rightarrow> client_op list
   \<Rightarrow> 's \<times> ('a \<times> size_t) list \<Rightarrow> ('s \<times> ('a \<times> size_t) list) option" where
  "run_client alloc free [] (s, live) = Some (s, live)"
| "run_client alloc free (Request n # ops) (s, live) =
     (case alloc s n of None \<Rightarrow> None
      | Some (s', a) \<Rightarrow> run_client alloc free ops (s', (a, n) # live))"
| "run_client alloc free (Return i # ops) (s, live) =
     (if i < length live then
        case free s (fst (live ! i)) (snd (live ! i)) of None \<Rightarrow> None
        | Some s' \<Rightarrow> run_client alloc free ops (s', take i live @ drop (Suc i) live)
      else None)"

fun requests_ok :: "(size_t \<Rightarrow> bool) \<Rightarrow> client_op list \<Rightarrow> bool" where
  "requests_ok ok [] = True"
| "requests_ok ok (Request n # ops) = (ok n \<and> requests_ok ok ops)"
| "requests_ok ok (Return i # ops) = requests_ok ok ops"

text \<open>Pairwise disjointness of a list of sets, by position.\<close>

fun disjoint_list :: "'b set list \<Rightarrow> bool" where
  "disjoint_list [] = True"
| "disjoint_list (B # Bs) = ((\<forall>C \<in> set Bs. B \<inter> C = {}) \<and> disjoint_list Bs)"

lemma disjoint_list_append:
  "disjoint_list (As @ Bs) \<longleftrightarrow> disjoint_list As \<and> disjoint_list Bs \<and> (\<forall>A \<in> set As. \<forall>B \<in> set Bs. A \<inter> B = {})"
  by (induction As) auto

lemma disjoint_list_nth:
  "disjoint_list Bs \<Longrightarrow> i < length Bs \<Longrightarrow> j < length Bs \<Longrightarrow> i \<noteq> j \<Longrightarrow> Bs ! i \<inter> Bs ! j = {}"
proof (induction Bs arbitrary: i j)
  case Nil
  then show ?case by simp
next
  case (Cons B Bs)
  then show ?case by (cases i; cases j) (auto simp: Int_commute)
qed

section \<open>The contract\<close>

locale range_allocator =
  fixes alloc :: "'s \<Rightarrow> size_t \<Rightarrow> ('s \<times> 'a) option"
    and free :: "'s \<Rightarrow> 'a \<Rightarrow> size_t \<Rightarrow> 's option"
    and invar :: "'s \<Rightarrow> bool"
    and ok :: "size_t \<Rightarrow> bool"
    and avail :: "'s \<Rightarrow> 'b set"
    and block :: "'a \<Rightarrow> size_t \<Rightarrow> 'b set"
    and valid :: "'s \<Rightarrow> 'a \<Rightarrow> size_t \<Rightarrow> bool"
  assumes alloc_invar: "invar s \<Longrightarrow> ok n \<Longrightarrow> alloc s n = Some (s', a) \<Longrightarrow> invar s'"
    and alloc_block: "invar s \<Longrightarrow> ok n \<Longrightarrow> alloc s n = Some (s', a) \<Longrightarrow> block a n \<subseteq> avail s"
    and alloc_avail: "invar s \<Longrightarrow> ok n \<Longrightarrow> alloc s n = Some (s', a) \<Longrightarrow> avail s' \<subseteq> avail s - block a n"
    and alloc_valid: "invar s \<Longrightarrow> ok n \<Longrightarrow> alloc s n = Some (s', a) \<Longrightarrow> valid s' a n"
    and alloc_keeps: "invar s \<Longrightarrow> ok n \<Longrightarrow> alloc s n = Some (s', a) \<Longrightarrow> valid s b m \<Longrightarrow> valid s' b m"
    and free_invar: "invar s \<Longrightarrow> valid s a n \<Longrightarrow> block a n \<inter> avail s = {} \<Longrightarrow> free s a n = Some s' \<Longrightarrow> invar s'"
    and free_avail: "invar s \<Longrightarrow> valid s a n \<Longrightarrow> block a n \<inter> avail s = {} \<Longrightarrow> free s a n = Some s'
      \<Longrightarrow> avail s' = avail s \<union> block a n"
    and free_keeps: "invar s \<Longrightarrow> valid s a n \<Longrightarrow> block a n \<inter> avail s = {} \<Longrightarrow> free s a n = Some s'
      \<Longrightarrow> valid s b m \<Longrightarrow> valid s' b m"
begin

abbreviation blocks :: "('a \<times> size_t) list \<Rightarrow> 'b set list" where
  "blocks live \<equiv> map (\<lambda>p. block (fst p) (snd p)) live"

definition client_inv :: "'s \<Rightarrow> ('a \<times> size_t) list \<Rightarrow> bool" where
  "client_inv s live \<longleftrightarrow> invar s \<and> disjoint_list (blocks live)
     \<and> (\<forall>p \<in> set live. ok (snd p) \<and> valid s (fst p) (snd p) \<and> block (fst p) (snd p) \<inter> avail s = {})"

lemma client_invD:
  assumes "client_inv s live" "(a, n) \<in> set live"
  shows "ok n" "valid s a n" "block a n \<inter> avail s = {}"
  using assms unfolding client_inv_def by (metis fst_conv snd_conv)+

lemma client_request:
  assumes "client_inv s live" "ok n" "alloc s n = Some (s', a)"
  shows "client_inv s' ((a, n) # live)"
proof -
  have i: "invar s" and d: "disjoint_list (blocks live)" using assms(1) by (simp_all add: client_inv_def)
  note facts = alloc_block [OF i assms(2,3)] alloc_avail [OF i assms(2,3)]
  have "block a n \<inter> block b m = {} \<and> ok m \<and> valid s' b m \<and> block b m \<inter> avail s' = {}"
    if "(b, m) \<in> set live" for b m
    using client_invD [OF assms(1) that] facts alloc_keeps [OF i assms(2,3)] by blast
  then have "\<forall>p \<in> set live. block a n \<inter> block (fst p) (snd p) = {}
      \<and> ok (snd p) \<and> valid s' (fst p) (snd p) \<and> block (fst p) (snd p) \<inter> avail s' = {}"
    by (metis prod.collapse)
  moreover have "block a n \<inter> avail s' = {}" using facts by blast
  ultimately show ?thesis
    using d assms(2) alloc_invar [OF i assms(2,3)] alloc_valid [OF i assms(2,3)]
    by (simp add: client_inv_def)
qed

lemma client_return:
  assumes "client_inv s (L @ (a, n) # R)" "free s a n = Some s'"
  shows "client_inv s' (L @ R)"
proof -
  have m: "(a, n) \<in> set (L @ (a, n) # R)" by simp
  have i: "invar s" "valid s a n" "block a n \<inter> avail s = {}"
    and d: "disjoint_list (blocks (L @ (a, n) # R))"
    using assms(1) client_invD [OF assms(1) m] by (simp_all add: client_inv_def)
  have "block (fst p) (snd p) \<inter> block a n = {}" if "p \<in> set (L @ R)" for p
    using d that by (auto simp: disjoint_list_append)
  then have "ok (snd p) \<and> valid s' (fst p) (snd p) \<and> block (fst p) (snd p) \<inter> avail s' = {}"
    if "p \<in> set (L @ R)" for p
    using client_invD [OF assms(1), of "fst p" "snd p"] that free_keeps [OF i assms(2)] free_avail [OF i assms(2)]
    by (simp add: Int_Un_distrib)
  then show ?thesis
    using free_invar [OF i assms(2)] d by (simp add: client_inv_def disjoint_list_append)
qed

lemma run_client_inv:
  assumes "run_client alloc free ops (s, live) = Some (s', live')" "client_inv s live" "requests_ok ok ops"
  shows "client_inv s' live'"
  using assms
proof (induction ops arbitrary: s live)
  case Nil
  then show ?case by simp
next
  case (Cons x ops)
  show ?case
  proof (cases x)
    case (Request n)
    then show ?thesis using Cons client_request by (auto split: option.splits)
  next
    case (Return i)
    then obtain s1 where i: "i < length live" and f: "free s (fst (live ! i)) (snd (live ! i)) = Some s1"
      and r: "run_client alloc free ops (s1, take i live @ drop (Suc i) live) = Some (s', live')"
      using Cons.prems(1) by (auto split: if_splits option.splits)
    have "client_inv s (take i live @ (fst (live ! i), snd (live ! i)) # drop (Suc i) live)"
      using Cons.prems(2) i by (simp flip: id_take_nth_drop)
    then have "client_inv s1 (take i live @ drop (Suc i) live)" using f by (rule client_return)
    then show ?thesis using Cons.IH r Cons.prems(3) Return by simp
  qed
qed

lemma run_client_disjoint:
  assumes "run_client alloc free ops (s, []) = Some (s', live)" "invar s" "requests_ok ok ops"
    and "i < length live" "j < length live" "i \<noteq> j"
  shows "block (fst (live ! i)) (snd (live ! i)) \<inter> block (fst (live ! j)) (snd (live ! j)) = {}"
  using disjoint_list_nth [of "blocks live" i j] run_client_inv [OF assms(1) _ assms(3)] assms(2,4-6)
  by (simp add: client_inv_def)

lemma run_client_live:
  assumes "run_client alloc free ops (s, []) = Some (s', live)" "invar s" "requests_ok ok ops"
    and "(a, n) \<in> set live"
  shows "ok n" "valid s' a n" "block a n \<inter> avail s' = {}"
  using client_invD [OF run_client_inv [OF assms(1) _ assms(3)] assms(4)] assms(2)
  by (simp_all add: client_inv_def)

end

end
