(* ===== verification/GGML_DynAlloc.thy ===== *)
theory GGML_DynAlloc
  imports GGML_Alloc_Spec
begin

text \<open>
  The dynamic tensor allocator of \<^verbatim>\<open>ggml/src/ggml-alloc.c\<close>: per backend buffer, up to
  sixteen chunks, each with an array of free blocks, from which the graph allocator carves and
  to which it returns the ranges of its tensors. The model follows
  \<^verbatim>\<open>ggml_dyn_tallocr_alloc\<close>, \<^verbatim>\<open>ggml_dyn_tallocr_free_bytes\<close> and their helpers statement by
  statement; only the log messages (and \<^verbatim>\<open>max_avail\<close>, which feeds one of them) are left out.
  The lemmas show that a carved range was free, that exactly its bytes leave the free set, that
  returning a range puts exactly its bytes back, and that the block list stays in order.
\<close>

section \<open>Definitions\<close>

definition aligned_offset :: "ptr \<Rightarrow> size_t \<Rightarrow> size_t \<Rightarrow> size_t" where
  "aligned_offset buffer offset alignment =
     (let align = sz_sub alignment (sz_add buffer offset mod alignment) mod alignment
      in sz_add offset align)"

abbreviation (input) MAX_FREE_BLOCKS :: nat where "MAX_FREE_BLOCKS \<equiv> 256"
abbreviation (input) GGML_VBUFFER_MAX_CHUNKS :: nat where "GGML_VBUFFER_MAX_CHUNKS \<equiv> 16"

record buffer_address =
  ba_chunk :: int
  ba_offset :: size_t

definition GGML_BUFFER_ADDRESS_INVALID :: buffer_address where
  "GGML_BUFFER_ADDRESS_INVALID = \<lparr>ba_chunk = -1, ba_offset = SIZE_MAX\<rparr>"

definition ggml_buffer_address_less :: "buffer_address \<Rightarrow> buffer_address \<Rightarrow> bool" where
  "ggml_buffer_address_less a b =
     (if ba_chunk a \<noteq> ba_chunk b then ba_chunk a < ba_chunk b else ba_offset a < ba_offset b)"

record free_block =
  fb_offset :: size_t
  fb_size :: size_t

text \<open>
  \<^verbatim>\<open>free_blocks[0 .. n_free_blocks)\<close> is a list, so \<^verbatim>\<open>n_free_blocks\<close> is its length; in the
  same way \<^verbatim>\<open>chunks[0 .. n_chunks)\<close>.
\<close>

record tallocr_chunk =
  free_blocks :: "free_block list"
  max_size :: size_t

record ggml_dyn_tallocr =
  dt_alignment :: size_t
  dt_max_chunk_size :: size_t
  dt_chunks :: "tallocr_chunk list"

fun insert_pos :: "free_block list \<Rightarrow> size_t \<Rightarrow> nat" where
  "insert_pos [] offset = 0"
| "insert_pos (b # bs) offset = (if fb_offset b < offset then Suc (insert_pos bs offset) else 0)"

definition ggml_dyn_tallocr_insert_block ::
  "tallocr_chunk \<Rightarrow> size_t \<Rightarrow> size_t \<Rightarrow> tallocr_chunk option" where
  "ggml_dyn_tallocr_insert_block chunk offset sz = do {
     ggml_assert (length (free_blocks chunk) < MAX_FREE_BLOCKS);
     let pos = insert_pos (free_blocks chunk) offset;
     Some (chunk\<lparr>free_blocks := take pos (free_blocks chunk)
                   @ \<lparr>fb_offset = offset, fb_size = sz\<rparr> # drop pos (free_blocks chunk)\<rparr>) }"

definition ggml_dyn_tallocr_remove_block :: "tallocr_chunk \<Rightarrow> nat \<Rightarrow> tallocr_chunk" where
  "ggml_dyn_tallocr_remove_block chunk idx =
     chunk\<lparr>free_blocks := take idx (free_blocks chunk) @ drop (Suc idx) (free_blocks chunk)\<rparr>"

definition ggml_dyn_tallocr_new_chunk ::
  "ggml_dyn_tallocr \<Rightarrow> size_t \<Rightarrow> ggml_dyn_tallocr \<times> int" where
  "ggml_dyn_tallocr_new_chunk alloc min_size =
     (if length (dt_chunks alloc) \<ge> GGML_VBUFFER_MAX_CHUNKS then (alloc, -1)
      else
        let sz = (if length (dt_chunks alloc) = GGML_VBUFFER_MAX_CHUNKS - 1 then SIZE_MAX div 2
                    else max min_size (dt_max_chunk_size alloc));
            chunk = \<lparr>free_blocks = [\<lparr>fb_offset = 0, fb_size = sz\<rparr>], max_size = 0\<rparr>
        in (alloc\<lparr>dt_chunks := dt_chunks alloc @ [chunk]\<rparr>, int (length (dt_chunks alloc))))"

text \<open>
  The two searches of \<^verbatim>\<open>ggml_dyn_tallocr_alloc\<close>. The first visits every block of every chunk
  but each chunk's last one; \<^verbatim>\<open>best_fit_size\<close> restarts at \<^verbatim>\<open>SIZE_MAX\<close> in each chunk. The
  second, tried when the first finds nothing, visits the last blocks.
\<close>

fun scan_free_blocks ::
  "size_t \<Rightarrow> int \<Rightarrow> int \<Rightarrow> free_block list \<Rightarrow> int \<times> int \<times> size_t \<Rightarrow> int \<times> int \<times> size_t" where
  "scan_free_blocks sz c i [] best = best"
| "scan_free_blocks sz c i (block # blocks) (best_fit_chunk, best_fit_block, best_fit_size) =
     (if fb_size block \<ge> sz \<and> fb_size block \<le> best_fit_size
      then scan_free_blocks sz c (i + 1) blocks (c, i, fb_size block)
      else scan_free_blocks sz c (i + 1) blocks (best_fit_chunk, best_fit_block, best_fit_size))"

fun scan_chunks :: "size_t \<Rightarrow> int \<Rightarrow> tallocr_chunk list \<Rightarrow> int \<times> int \<Rightarrow> int \<times> int" where
  "scan_chunks sz c [] best = best"
| "scan_chunks sz c (chunk # chunks) (best_fit_chunk, best_fit_block) =
     (case scan_free_blocks sz c 0 (butlast (free_blocks chunk))
             (best_fit_chunk, best_fit_block, SIZE_MAX) of
        (bc, bb, _) \<Rightarrow> scan_chunks sz (c + 1) chunks (bc, bb))"

fun scan_last_blocks ::
  "size_t \<Rightarrow> int \<Rightarrow> tallocr_chunk list \<Rightarrow> int \<times> int \<times> int64_t \<Rightarrow> int \<times> int \<times> int64_t" where
  "scan_last_blocks sz c [] best = best"
| "scan_last_blocks sz c (chunk # chunks) (best_fit_chunk, best_fit_block, best_reuse) =
     (if free_blocks chunk \<noteq> [] then
        let block = last (free_blocks chunk);
            reuse_factor = i64_of_sz (sz_sub (sz_sub (max_size chunk) (fb_offset block)) sz);
            better_reuse = (best_reuse < 0 \<and> reuse_factor > best_reuse);
            better_fit = (reuse_factor \<ge> 0 \<and> reuse_factor < best_reuse)
        in if fb_size block \<ge> sz \<and> (better_reuse \<or> better_fit)
           then scan_last_blocks sz (c + 1) chunks
                  (c, int (length (free_blocks chunk)) - 1, reuse_factor)
           else scan_last_blocks sz (c + 1) chunks (best_fit_chunk, best_fit_block, best_reuse)
      else scan_last_blocks sz (c + 1) chunks (best_fit_chunk, best_fit_block, best_reuse))"

text \<open>The block to carve from, after adding a chunk when no existing block is large enough.\<close>

definition dyn_tallocr_select ::
  "ggml_dyn_tallocr \<Rightarrow> size_t \<Rightarrow> ggml_dyn_tallocr \<times> int \<times> int" where
  "dyn_tallocr_select alloc sz =
     (let (bc, bb) = scan_chunks sz 0 (dt_chunks alloc) (-1, -1);
          (bc, bb) = (if bb = -1
                      then (case scan_last_blocks sz 0 (dt_chunks alloc) (bc, bb, INT64_MIN) of
                              (c, b, _) \<Rightarrow> (c, b))
                      else (bc, bb))
      in if bb = -1
         then (case ggml_dyn_tallocr_new_chunk alloc sz of (alloc', c) \<Rightarrow> (alloc', c, 0))
         else (alloc, bc, bb))"

text \<open>Carving \<open>sz\<close> bytes off the front of block \<open>i\<close> of a chunk.\<close>

definition dyn_tallocr_carve :: "tallocr_chunk \<Rightarrow> nat \<Rightarrow> size_t \<Rightarrow> tallocr_chunk" where
  "dyn_tallocr_carve chunk i sz =
     (let block = free_blocks chunk ! i;
          offset = fb_offset block;
          block = block\<lparr>fb_offset := sz_add (fb_offset block) sz,
                        fb_size := sz_sub (fb_size block) sz\<rparr>;
          chunk = chunk\<lparr>free_blocks := (free_blocks chunk)[i := block]\<rparr>;
          chunk = (if fb_size block = 0 then ggml_dyn_tallocr_remove_block chunk i else chunk)
      in chunk\<lparr>max_size := max (max_size chunk) (sz_add offset sz)\<rparr>)"

definition ggml_dyn_tallocr_alloc ::
  "ggml_dyn_tallocr \<Rightarrow> size_t \<Rightarrow> (ggml_dyn_tallocr \<times> buffer_address) option" where
  "ggml_dyn_tallocr_alloc alloc sz0 =
     (let sz = aligned_offset 0 sz0 (dt_alignment alloc);
          (alloc, bc, bb) = dyn_tallocr_select alloc sz
      in if bc = -1 then None
         else
           let chunk = dt_chunks alloc ! nat bc;
               addr = \<lparr>ba_chunk = bc, ba_offset = fb_offset (free_blocks chunk ! nat bb)\<rparr>
           in Some (alloc\<lparr>dt_chunks := (dt_chunks alloc)[nat bc := dyn_tallocr_carve chunk (nat bb) sz]\<rparr>,
                    addr))"

text \<open>
  Returning a range. \<open>merge_after\<close> is the branch for a range that starts where block \<open>i\<close>
  ends, \<open>merge_before\<close> the one for a range that ends where block \<open>i\<close> starts; the loop tries
  the blocks in order and yields \<open>None\<close> when it falls through.
\<close>

definition merge_after :: "tallocr_chunk \<Rightarrow> nat \<Rightarrow> size_t \<Rightarrow> tallocr_chunk" where
  "merge_after chunk i sz =
     (let bs = free_blocks chunk;
          block = (bs ! i)\<lparr>fb_size := sz_add (fb_size (bs ! i)) sz\<rparr>
      in if Suc i < length bs \<and> sz_add (fb_offset block) (fb_size block) = fb_offset (bs ! Suc i)
         then ggml_dyn_tallocr_remove_block
                (chunk\<lparr>free_blocks := bs[i := block\<lparr>fb_size := sz_add (fb_size block) (fb_size (bs ! Suc i))\<rparr>]\<rparr>)
                (Suc i)
         else chunk\<lparr>free_blocks := bs[i := block]\<rparr>)"

definition merge_before :: "tallocr_chunk \<Rightarrow> nat \<Rightarrow> size_t \<Rightarrow> size_t \<Rightarrow> tallocr_chunk" where
  "merge_before chunk i offset sz =
     (let bs = free_blocks chunk;
          block = (bs ! i)\<lparr>fb_offset := offset, fb_size := sz_add (fb_size (bs ! i)) sz\<rparr>
      in if 0 < i \<and> sz_add (fb_offset (bs ! (i - 1))) (fb_size (bs ! (i - 1))) = fb_offset block
         then ggml_dyn_tallocr_remove_block
                (chunk\<lparr>free_blocks := (bs[i := block])
                   [i - 1 := (bs ! (i - 1))\<lparr>fb_size := sz_add (fb_size (bs ! (i - 1))) (fb_size block)\<rparr>]\<rparr>)
                i
         else chunk\<lparr>free_blocks := bs[i := block]\<rparr>)"

function free_merge_loop ::
  "tallocr_chunk \<Rightarrow> size_t \<Rightarrow> size_t \<Rightarrow> nat \<Rightarrow> tallocr_chunk option" where
  "free_merge_loop chunk offset sz i =
     (if i < length (free_blocks chunk) then
        let block = free_blocks chunk ! i in
        if sz_add (fb_offset block) (fb_size block) = offset then Some (merge_after chunk i sz)
        else if sz_add offset sz = fb_offset block then Some (merge_before chunk i offset sz)
        else free_merge_loop chunk offset sz (Suc i)
      else None)"
  by pat_completeness auto
termination
  by (relation "measure (\<lambda>(chunk, _, _, i). length (free_blocks chunk) - i)") auto

definition free_chunk :: "tallocr_chunk \<Rightarrow> size_t \<Rightarrow> size_t \<Rightarrow> tallocr_chunk option" where
  "free_chunk chunk offset sz =
     (case free_merge_loop chunk offset sz 0 of
        Some chunk' \<Rightarrow> Some chunk'
      | None \<Rightarrow> ggml_dyn_tallocr_insert_block chunk offset sz)"

text \<open>
  The chunk of the address must exist: \<^verbatim>\<open>alloc->chunks[addr.chunk]\<close> is dereferenced, and an
  index outside the array has no defined behaviour, so the model stops there.
\<close>

definition ggml_dyn_tallocr_free_bytes ::
  "ggml_dyn_tallocr \<Rightarrow> buffer_address \<Rightarrow> size_t \<Rightarrow> ggml_dyn_tallocr option" where
  "ggml_dyn_tallocr_free_bytes alloc addr sz0 = do {
     let sz = aligned_offset 0 sz0 (dt_alignment alloc);
     let c = nat (ba_chunk addr);
     ggml_assert (0 \<le> ba_chunk addr \<and> c < length (dt_chunks alloc));
     let chunk = dt_chunks alloc ! c;
     chunk' \<leftarrow> free_chunk chunk (ba_offset addr) sz;
     Some (alloc\<lparr>dt_chunks := (dt_chunks alloc)[c := chunk']\<rparr>) }"

definition ggml_dyn_tallocr_reset :: "ggml_dyn_tallocr \<Rightarrow> ggml_dyn_tallocr" where
  "ggml_dyn_tallocr_reset alloc = alloc\<lparr>dt_chunks := []\<rparr>"

definition ggml_dyn_tallocr_new :: "size_t \<Rightarrow> size_t \<Rightarrow> ggml_dyn_tallocr" where
  "ggml_dyn_tallocr_new alignment max_buffer_size =
     ggml_dyn_tallocr_reset
       \<lparr>dt_alignment = alignment, dt_max_chunk_size = min max_buffer_size (SIZE_MAX div 2), dt_chunks = []\<rparr>"

definition ggml_dyn_tallocr_max_size :: "ggml_dyn_tallocr \<Rightarrow> nat \<Rightarrow> size_t" where
  "ggml_dyn_tallocr_max_size alloc chunk =
     (if chunk < length (dt_chunks alloc) then max_size (dt_chunks alloc ! chunk) else 0)"

declare free_merge_loop.simps [simp del]

section \<open>Alignment\<close>

lemma aligned_offset_eq:
  assumes "0 < al" "base + off + al \<le> SIZE_MAX"
  shows "aligned_offset base off al = off + (al - (base + off) mod al) mod al"
proof -
  have m: "(base + off) mod al < al" using assms(1) by simp
  have "(al - (base + off) mod al) mod al < al" using assms(1) by simp
  then have r: "off + (al - (base + off) mod al) mod al \<le> SIZE_MAX" using assms(2) by linarith
  have s: "sz_sub al ((base + off) mod al) = al - (base + off) mod al"
    using m assms(2) by (intro sz_sub_id) linarith+
  have "sz_add base off = base + off" using assms(2) by (intro sz_add_id) linarith
  then show ?thesis using r by (simp add: aligned_offset_def Let_def s sz_add_id)
qed

lemma aligned_offset_bounds:
  assumes "0 < al" "base + off + al \<le> SIZE_MAX"
  shows "off \<le> aligned_offset base off al" "aligned_offset base off al < off + al"
    and "al dvd base + aligned_offset base off al"
proof -
  note eq = aligned_offset_eq [OF assms]
  show "off \<le> aligned_offset base off al" by (simp add: eq)
  show "aligned_offset base off al < off + al" using assms(1) by (simp add: eq)
  have "(base + off + (al - (base + off) mod al) mod al) mod al = 0"
  proof -
    have "(base + off + (al - (base + off) mod al) mod al) mod al
        = ((base + off) mod al + (al - (base + off) mod al)) mod al"
      by (simp add: mod_add_left_eq mod_add_right_eq)
    also have "\<dots> = al mod al" using assms(1) by (simp add: less_imp_le)
    finally show ?thesis by simp
  qed
  then show "al dvd base + aligned_offset base off al" by (simp add: eq add.assoc mod_eq_0_iff_dvd)
qed

section \<open>Bytes covered by a block list\<close>

text \<open>
  \<open>cover bs x\<close> counts the blocks that contain byte \<open>x\<close>; it is the quantity in which carving
  and merging are exact.
\<close>

definition fb_range :: "free_block \<Rightarrow> nat set" where
  "fb_range b = {fb_offset b ..< fb_offset b + fb_size b}"

definition cover :: "free_block list \<Rightarrow> nat \<Rightarrow> nat" where
  "cover bs x = (\<Sum>b\<leftarrow>bs. of_bool (x \<in> fb_range b))"

definition free_set :: "tallocr_chunk \<Rightarrow> nat set" where
  "free_set ch = (\<Union>b \<in> set (free_blocks ch). fb_range b)"

lemma cover_simps [simp]:
  "cover [] x = 0" "cover (b # bs) x = of_bool (x \<in> fb_range b) + cover bs x"
  "cover (as @ bs) x = cover as x + cover bs x"
  by (simp_all add: cover_def)

lemma cover_pos_iff: "0 < cover bs x \<longleftrightarrow> (\<exists>b \<in> set bs. x \<in> fb_range b)"
  by (induction bs) auto

lemma free_set_cover: "x \<in> free_set ch \<longleftrightarrow> 0 < cover (free_blocks ch) x"
  by (auto simp: free_set_def cover_pos_iff)

lemma cover_split:
  "i < length bs \<Longrightarrow> cover bs x = cover (take i bs) x + of_bool (x \<in> fb_range (bs ! i)) + cover (drop (Suc i) bs) x"
  by (subst (1) id_take_nth_drop [of i bs]) simp_all

lemma cover_update:
  "i < length bs \<Longrightarrow> cover (bs[i := b]) x = cover (take i bs) x + of_bool (x \<in> fb_range b) + cover (drop (Suc i) bs) x"
  by (simp add: upd_conv_take_nth_drop)

text \<open>\<^verbatim>\<open>SIZE_MAX/2\<close>, to which the code clamps the size of a chunk.\<close>

abbreviation (input) HALF_MAX :: size_t where "HALF_MAX \<equiv> 9223372036854775807"

definition blocks_ok :: "size_t \<Rightarrow> free_block list \<Rightarrow> bool" where
  "blocks_ok al bs \<longleftrightarrow>
     (\<forall>b \<in> set bs. fb_offset b + fb_size b \<le> HALF_MAX \<and> al dvd fb_offset b) \<and> (\<forall>x. cover bs x \<le> 1)"

lemma blocks_ok_nth:
  "blocks_ok al bs \<Longrightarrow> i < length bs \<Longrightarrow> fb_offset (bs ! i) + fb_size (bs ! i) \<le> HALF_MAX \<and> al dvd fb_offset (bs ! i)"
  by (auto simp: blocks_ok_def)

lemma blocks_ok_end:
  "blocks_ok al bs \<Longrightarrow> i < length bs \<Longrightarrow> fb_offset (bs ! i) + fb_size (bs ! i) \<le> SIZE_MAX"
  using blocks_ok_nth by fastforce

lemma in_take_drop_D: "b \<in> set (take i bs) \<Longrightarrow> b \<in> set bs" "b \<in> set (drop i bs) \<Longrightarrow> b \<in> set bs"
  by (auto dest: in_set_takeD in_set_dropD)

section \<open>Carving\<close>

lemma carve_blocks:
  assumes "i < length (free_blocks ch)" and "sz \<le> fb_size (free_blocks ch ! i)"
    and "fb_offset (free_blocks ch ! i) + fb_size (free_blocks ch ! i) \<le> SIZE_MAX"
  shows "free_blocks (dyn_tallocr_carve ch i sz) =
    take i (free_blocks ch)
    @ (if fb_size (free_blocks ch ! i) = sz then []
       else [\<lparr>fb_offset = fb_offset (free_blocks ch ! i) + sz, fb_size = fb_size (free_blocks ch ! i) - sz\<rparr>])
    @ drop (Suc i) (free_blocks ch)"
proof -
  let ?b = "free_blocks ch ! i"
  have a: "sz_add (fb_offset ?b) sz = fb_offset ?b + sz" and s: "sz_sub (fb_size ?b) sz = fb_size ?b - sz"
    using assms by (auto simp: size_simps)
  have e: "(?b\<lparr>fb_offset := fb_offset ?b + sz, fb_size := fb_size ?b - sz\<rparr>)
     = \<lparr>fb_offset = fb_offset ?b + sz, fb_size = fb_size ?b - sz\<rparr>"
    by (cases ?b) simp
  have z: "fb_size ?b - sz = 0 \<longleftrightarrow> fb_size ?b = sz" using assms(2) by auto
  show ?thesis
    using assms(1,2)
    by (auto simp: dyn_tallocr_carve_def Let_def ggml_dyn_tallocr_remove_block_def a s e z upd_conv_take_nth_drop)
qed

lemma carve_cover:
  assumes "i < length (free_blocks ch)" and "sz \<le> fb_size (free_blocks ch ! i)"
    and "fb_offset (free_blocks ch ! i) + fb_size (free_blocks ch ! i) \<le> SIZE_MAX"
  shows "cover (free_blocks (dyn_tallocr_carve ch i sz)) x
           + of_bool (x \<in> {fb_offset (free_blocks ch ! i) ..< fb_offset (free_blocks ch ! i) + sz})
         = cover (free_blocks ch) x"
  using assms(2) unfolding carve_blocks [OF assms] cover_split [OF assms(1)]
  by (auto simp: fb_range_def)

lemma carve_ok:
  assumes "blocks_ok al (free_blocks ch)" "i < length (free_blocks ch)"
    and "sz \<le> fb_size (free_blocks ch ! i)" "al dvd sz"
  shows "blocks_ok al (free_blocks (dyn_tallocr_carve ch i sz))"
proof -
  note b = blocks_ok_nth [OF assms(1,2)]
  note e = blocks_ok_end [OF assms(1,2)]
  have c: "cover (free_blocks (dyn_tallocr_carve ch i sz)) x \<le> 1" for x
  proof -
    have "cover (free_blocks ch) x \<le> 1" using assms(1) by (simp add: blocks_ok_def)
    then show ?thesis using carve_cover [OF assms(2,3) e, of x] by linarith
  qed
  have "\<forall>b \<in> set (free_blocks (dyn_tallocr_carve ch i sz)). fb_offset b + fb_size b \<le> HALF_MAX \<and> al dvd fb_offset b"
    using assms b by (auto simp: blocks_ok_def carve_blocks [OF assms(2,3) e] dest!: in_take_drop_D)
  with c show ?thesis by (simp add: blocks_ok_def)
qed

lemma carve_max_size:
  assumes "i < length (free_blocks ch)" and "sz \<le> fb_size (free_blocks ch ! i)"
    and "fb_offset (free_blocks ch ! i) + fb_size (free_blocks ch ! i) \<le> SIZE_MAX"
  shows "max_size (dyn_tallocr_carve ch i sz) = max (max_size ch) (fb_offset (free_blocks ch ! i) + sz)"
  using assms by (simp add: dyn_tallocr_carve_def Let_def ggml_dyn_tallocr_remove_block_def size_simps)


section \<open>Returning\<close>

lemma fb_set_size: "b\<lparr>fb_size := n\<rparr> = \<lparr>fb_offset = fb_offset b, fb_size = n\<rparr>"
  and fb_set_both: "b\<lparr>fb_offset := k, fb_size := n\<rparr> = \<lparr>fb_offset = k, fb_size = n\<rparr>"
  by (cases b; simp)+

lemma merge_after_blocks:
  assumes "blocks_ok al (free_blocks ch)" "i < length (free_blocks ch)"
    and "fb_offset (free_blocks ch ! i) + fb_size (free_blocks ch ! i) = off" "off + sz \<le> HALF_MAX"
  shows "free_blocks (merge_after ch i sz) =
    take i (free_blocks ch) @
    (if Suc i < length (free_blocks ch) \<and> off + sz = fb_offset (free_blocks ch ! Suc i)
     then \<lparr>fb_offset = fb_offset (free_blocks ch ! i),
           fb_size = fb_size (free_blocks ch ! i) + sz + fb_size (free_blocks ch ! Suc i)\<rparr>
          # drop (Suc (Suc i)) (free_blocks ch)
     else \<lparr>fb_offset = fb_offset (free_blocks ch ! i), fb_size = fb_size (free_blocks ch ! i) + sz\<rparr>
          # drop (Suc i) (free_blocks ch))"
proof -
  let ?bs = "free_blocks ch"
  have a: "sz_add (fb_size (?bs ! i)) sz = fb_size (?bs ! i) + sz"
    and c: "sz_add (fb_offset (?bs ! i)) (fb_size (?bs ! i) + sz) = off + sz"
    using assms(3,4) by (simp_all add: size_simps)
  have n: "sz_add (fb_size (?bs ! i) + sz) (fb_size (?bs ! Suc i)) = fb_size (?bs ! i) + sz + fb_size (?bs ! Suc i)"
    if "Suc i < length ?bs" "off + sz = fb_offset (?bs ! Suc i)"
    using blocks_ok_nth [OF assms(1) that(1)] that(2) assms(3) by (simp add: size_simps)
  show ?thesis
    using assms(2)
    by (auto simp: merge_after_def Let_def a c n fb_set_size ggml_dyn_tallocr_remove_block_def
        upd_conv_take_nth_drop min_def)
qed

lemma merge_before_blocks:
  assumes "blocks_ok al (free_blocks ch)" "i < length (free_blocks ch)"
    and "off + sz = fb_offset (free_blocks ch ! i)"
  shows "free_blocks (merge_before ch i off sz) =
    (if 0 < i \<and> fb_offset (free_blocks ch ! (i - 1)) + fb_size (free_blocks ch ! (i - 1)) = off
     then take (i - 1) (free_blocks ch) @
          \<lparr>fb_offset = fb_offset (free_blocks ch ! (i - 1)),
           fb_size = fb_size (free_blocks ch ! (i - 1)) + (fb_size (free_blocks ch ! i) + sz)\<rparr> # drop (Suc i) (free_blocks ch)
     else take i (free_blocks ch) @ \<lparr>fb_offset = off, fb_size = fb_size (free_blocks ch ! i) + sz\<rparr>
          # drop (Suc i) (free_blocks ch))"
proof -
  let ?bs = "free_blocks ch"
  have a: "sz_add (fb_size (?bs ! i)) sz = fb_size (?bs ! i) + sz"
    using blocks_ok_nth [OF assms(1,2)] assms(3) by (simp add: size_simps)
  have p: "sz_add (fb_offset (?bs ! (i - 1))) (fb_size (?bs ! (i - 1))) = fb_offset (?bs ! (i - 1)) + fb_size (?bs ! (i - 1))"
    using blocks_ok_end [OF assms(1), of "i - 1"] assms(2) by (simp add: size_simps)
  have n: "sz_add (fb_size (?bs ! (i - 1))) (fb_size (?bs ! i) + sz) = fb_size (?bs ! (i - 1)) + (fb_size (?bs ! i) + sz)"
    if "fb_offset (?bs ! (i - 1)) + fb_size (?bs ! (i - 1)) = off"
    using blocks_ok_nth [OF assms(1,2)] that assms(3) by (simp add: size_simps)
  show ?thesis
  proof (cases i)
    case 0
    then show ?thesis using assms(2) a
      by (simp add: merge_before_def Let_def fb_set_both upd_conv_take_nth_drop)
  next
    case (Suc j)
    then show ?thesis using assms(2) a p n
      by (auto simp: merge_before_def Let_def fb_set_size fb_set_both
          ggml_dyn_tallocr_remove_block_def upd_conv_take_nth_drop min_def)
  qed
qed

lemma cover_split2:
  assumes "Suc i < length bs"
  shows "cover bs x = cover (take i bs) x + of_bool (x \<in> fb_range (bs ! i))
    + of_bool (x \<in> fb_range (bs ! Suc i)) + cover (drop (Suc (Suc i)) bs) x"
proof -
  have "drop (Suc i) bs = bs ! Suc i # drop (Suc (Suc i)) bs"
    using assms by (simp add: Cons_nth_drop_Suc)
  then show ?thesis using cover_split [of i bs x] assms by simp
qed

lemma merge_after_cover:
  assumes "blocks_ok al (free_blocks ch)" "i < length (free_blocks ch)"
    and "fb_offset (free_blocks ch ! i) + fb_size (free_blocks ch ! i) = off" "off + sz \<le> HALF_MAX"
  shows "cover (free_blocks (merge_after ch i sz)) x = cover (free_blocks ch) x + of_bool (x \<in> {off ..< off + sz})"
proof (cases "Suc i < length (free_blocks ch) \<and> off + sz = fb_offset (free_blocks ch ! Suc i)")
  case True
  then show ?thesis using assms(3)
    unfolding merge_after_blocks [OF assms] cover_split2 [OF True [THEN conjunct1]]
    by (auto simp: fb_range_def)
next
  case False
  then show ?thesis using assms(3)
    unfolding merge_after_blocks [OF assms] cover_split [OF assms(2)]
    by (auto simp: fb_range_def)
qed

lemma merge_before_cover:
  assumes "blocks_ok al (free_blocks ch)" "i < length (free_blocks ch)"
    and "off + sz = fb_offset (free_blocks ch ! i)"
  shows "cover (free_blocks (merge_before ch i off sz)) x = cover (free_blocks ch) x + of_bool (x \<in> {off ..< off + sz})"
proof (cases "0 < i \<and> fb_offset (free_blocks ch ! (i - 1)) + fb_size (free_blocks ch ! (i - 1)) = off")
  case True
  then obtain j where j: "i = Suc j" by (cases i) auto
  then have "Suc j < length (free_blocks ch)" using assms(2) by simp
  then show ?thesis using assms(3) True
    unfolding merge_before_blocks [OF assms] cover_split2 [OF \<open>Suc j < length (free_blocks ch)\<close>]
    by (auto simp: fb_range_def j)
next
  case False
  then show ?thesis using assms(3)
    unfolding merge_before_blocks [OF assms] cover_split [OF assms(2)]
    by (auto simp: fb_range_def)
qed

lemma merge_max_size [simp]:
  "max_size (merge_after ch i sz) = max_size ch" "max_size (merge_before ch i off sz) = max_size ch"
  by (simp_all add: merge_after_def merge_before_def Let_def ggml_dyn_tallocr_remove_block_def)

lemma free_merge_loop_Some:
  assumes "free_merge_loop ch off sz i = Some ch'"
  obtains j where "i \<le> j" "j < length (free_blocks ch)"
      "\<forall>k. i \<le> k \<and> k < j \<longrightarrow> sz_add (fb_offset (free_blocks ch ! k)) (fb_size (free_blocks ch ! k)) \<noteq> off"
      "sz_add (fb_offset (free_blocks ch ! j)) (fb_size (free_blocks ch ! j)) = off" "ch' = merge_after ch j sz"
  | j where "i \<le> j" "j < length (free_blocks ch)"
      "\<forall>k. i \<le> k \<and> k < j \<longrightarrow> sz_add (fb_offset (free_blocks ch ! k)) (fb_size (free_blocks ch ! k)) \<noteq> off"
      "sz_add (fb_offset (free_blocks ch ! j)) (fb_size (free_blocks ch ! j)) \<noteq> off"
      "sz_add off sz = fb_offset (free_blocks ch ! j)" "ch' = merge_before ch j off sz"
  using assms
proof (induction ch off sz i arbitrary: thesis rule: free_merge_loop.induct)
  case (1 ch off sz i)
  let ?b = "free_blocks ch ! i"
  have split: "i \<le> k \<longleftrightarrow> k = i \<or> Suc i \<le> k" for k by auto
  consider (here) "i < length (free_blocks ch)" "sz_add (fb_offset ?b) (fb_size ?b) = off" "ch' = merge_after ch i sz"
    | (there) "i < length (free_blocks ch)" "sz_add (fb_offset ?b) (fb_size ?b) \<noteq> off"
        "sz_add off sz = fb_offset ?b" "ch' = merge_before ch i off sz"
    | (rec) "i < length (free_blocks ch)" "sz_add (fb_offset ?b) (fb_size ?b) \<noteq> off"
        "sz_add off sz \<noteq> fb_offset ?b" "free_merge_loop ch off sz (Suc i) = Some ch'"
    using 1(4) unfolding free_merge_loop.simps [of ch off sz i] by (auto simp: Let_def split: if_splits)
  then show ?case
  proof cases
    case here
    then show ?thesis by (intro 1(2) [of i]) auto
  next
    case there
    then show ?thesis by (intro 1(3) [of i]) auto
  next
    case rec
    note after = 1(2) and before = 1(3)
    show ?thesis
    proof (rule 1(1) [OF rec(1) refl rec(2,3) _ _ rec(4)], goal_cases)
      case (1 j)
      then show ?case using rec(2) by (intro after [of j]) (auto simp: split)
    next
      case (2 j)
      then show ?case using rec(2) by (intro before [of j]) (auto simp: split)
    qed
  qed
qed

lemma free_merge_loop_None:
  "free_merge_loop ch off sz i = None \<Longrightarrow> i \<le> k \<Longrightarrow> k < length (free_blocks ch)
   \<Longrightarrow> sz_add (fb_offset (free_blocks ch ! k)) (fb_size (free_blocks ch ! k)) \<noteq> off
     \<and> sz_add off sz \<noteq> fb_offset (free_blocks ch ! k)"
proof (induction ch off sz i rule: free_merge_loop.induct)
  case (1 ch off sz i)
  show ?case
  proof (cases "k = i")
    case True
    then show ?thesis using 1(2,4) unfolding free_merge_loop.simps [of ch off sz i]
      by (auto simp: Let_def split: if_splits)
  next
    case False
    then have "i < length (free_blocks ch)" "Suc i \<le> k" using 1(3,4) by auto
    then show ?thesis using 1(1,2,4) unfolding free_merge_loop.simps [of ch off sz i]
      by (auto simp: Let_def split: if_splits)
  qed
qed

lemma insert_block_Some:
  assumes "ggml_dyn_tallocr_insert_block ch off sz = Some ch'"
  shows "free_blocks ch' = take (insert_pos (free_blocks ch) off) (free_blocks ch)
      @ \<lparr>fb_offset = off, fb_size = sz\<rparr> # drop (insert_pos (free_blocks ch) off) (free_blocks ch)"
    and "max_size ch' = max_size ch" and "length (free_blocks ch) < MAX_FREE_BLOCKS"
  using assms by (auto simp: ggml_dyn_tallocr_insert_block_def Let_def split: if_splits)

lemma insert_block_cover:
  assumes "ggml_dyn_tallocr_insert_block ch off sz = Some ch'"
  shows "cover (free_blocks ch') x = cover (free_blocks ch) x + of_bool (x \<in> {off ..< off + sz})"
proof -
  have "cover (free_blocks ch) x = cover (take p (free_blocks ch)) x + cover (drop p (free_blocks ch)) x" for p
    by (metis append_take_drop_id cover_simps(3))
  then show ?thesis by (auto simp: insert_block_Some(1) [OF assms] fb_range_def)
qed

lemma free_chunk_cases:
  assumes "free_chunk ch off sz = Some ch'" "blocks_ok al (free_blocks ch)" "off + sz \<le> HALF_MAX"
  obtains (after) j where "j < length (free_blocks ch)"
      "fb_offset (free_blocks ch ! j) + fb_size (free_blocks ch ! j) = off" "ch' = merge_after ch j sz"
  | (before) j where "j < length (free_blocks ch)"
      "\<forall>k \<le> j. fb_offset (free_blocks ch ! k) + fb_size (free_blocks ch ! k) \<noteq> off"
      "off + sz = fb_offset (free_blocks ch ! j)" "ch' = merge_before ch j off sz"
  | (ins) "\<forall>k < length (free_blocks ch). fb_offset (free_blocks ch ! k) + fb_size (free_blocks ch ! k) \<noteq> off
        \<and> off + sz \<noteq> fb_offset (free_blocks ch ! k)"
      "ggml_dyn_tallocr_insert_block ch off sz = Some ch'"
proof -
  have e: "sz_add (fb_offset (free_blocks ch ! j)) (fb_size (free_blocks ch ! j))
      = fb_offset (free_blocks ch ! j) + fb_size (free_blocks ch ! j)" if "j < length (free_blocks ch)" for j
    using blocks_ok_end [OF assms(2) that] by (simp add: sz_add_id)
  have o: "sz_add off sz = off + sz" using assms(3) by (simp add: sz_add_id)
  show thesis
  proof (cases "free_merge_loop ch off sz 0")
    case None
    then show thesis using assms(1) free_merge_loop_None [OF None] e o
      by (intro ins) (simp_all add: free_chunk_def)
  next
    case (Some c)
    then have "free_merge_loop ch off sz 0 = Some ch'" using assms(1) by (simp add: free_chunk_def)
    then show thesis
    proof (cases rule: free_merge_loop_Some)
      case (1 j)
      then show thesis using e after by simp
    next
      case (2 j)
      have "fb_offset (free_blocks ch ! k) + fb_size (free_blocks ch ! k) \<noteq> off" if "k \<le> j" for k
        using 2(2,3,4) that e [of k] by (cases "k = j") auto
      then show thesis using 2 e o before by simp
    qed
  qed
qed

lemma free_chunk_cover:
  assumes "free_chunk ch off sz = Some ch'" "blocks_ok al (free_blocks ch)" "off + sz \<le> HALF_MAX"
  shows "cover (free_blocks ch') x = cover (free_blocks ch) x + of_bool (x \<in> {off ..< off + sz})"
  using assms
proof (cases rule: free_chunk_cases)
  case (after j)
  then show ?thesis using merge_after_cover [OF assms(2) after(1,2) assms(3)] by simp
next
  case (before j)
  then show ?thesis using merge_before_cover [OF assms(2) before(1,3)] by simp
next
  case ins
  then show ?thesis using insert_block_cover by blast
qed

lemma free_chunk_max_size:
  assumes "free_chunk ch off sz = Some ch'" "blocks_ok al (free_blocks ch)" "off + sz \<le> HALF_MAX"
  shows "max_size ch' = max_size ch"
  using assms by (cases rule: free_chunk_cases) (auto simp: insert_block_Some)

lemma free_chunk_ok:
  assumes "free_chunk ch off sz = Some ch'" "blocks_ok al (free_blocks ch)" "off + sz \<le> HALF_MAX"
    and "al dvd off" "\<And>x. off \<le> x \<Longrightarrow> x < off + sz \<Longrightarrow> cover (free_blocks ch) x = 0"
  shows "blocks_ok al (free_blocks ch')"
proof -
  have c: "cover (free_blocks ch') x \<le> 1" for x
    using free_chunk_cover [OF assms(1-3), of x] assms(2,5) by (auto simp: blocks_ok_def)
  note b = blocks_ok_nth [OF assms(2)]
  have m: "fb_offset b + fb_size b \<le> HALF_MAX \<and> al dvd fb_offset b" if "b \<in> set (free_blocks ch)" for b
    using assms(2) that by (auto simp: blocks_ok_def)
  from assms(1-3) have "\<forall>b \<in> set (free_blocks ch'). fb_offset b + fb_size b \<le> HALF_MAX \<and> al dvd fb_offset b"
  proof (cases rule: free_chunk_cases)
    case (after j)
    then show ?thesis
      using b [of j] b [of "Suc j"] assms(3)
      by (auto simp: merge_after_blocks [OF assms(2) after(1,2) assms(3)]
          dest: in_take_drop_D [THEN m] split: if_splits)
  next
    case (before j)
    then show ?thesis
      using b [of j] b [of "j - 1"] assms(4)
      by (auto simp: merge_before_blocks [OF assms(2) before(1,3)]
          dest: in_take_drop_D [THEN m] split: if_splits)
  next
    case ins
    then show ?thesis using assms(3,4)
      by (auto simp: insert_block_Some dest: in_take_drop_D [THEN m])
  qed
  with c show ?thesis by (simp add: blocks_ok_def)
qed

section \<open>The searches\<close>

text \<open>\<open>fits sz chs (c, b)\<close>: block \<open>b\<close> of chunk \<open>c\<close> exists and is large enough.\<close>

definition fits :: "size_t \<Rightarrow> tallocr_chunk list \<Rightarrow> int \<Rightarrow> int \<Rightarrow> bool" where
  "fits sz chs bc bb \<longleftrightarrow> 0 \<le> bc \<and> nat bc < length chs \<and> 0 \<le> bb \<and>
     nat bb < length (free_blocks (chs ! nat bc)) \<and> sz \<le> fb_size (free_blocks (chs ! nat bc) ! nat bb)"

lemma scan_free_blocks_fits:
  assumes "scan_free_blocks sz (int c) (int i) bs (bc, bb, s) = (bc', bb', s')"
    and "bb = -1 \<or> fits sz chs bc bb" and "c < length chs"
    and "i + length bs \<le> length (free_blocks (chs ! c))"
    and "\<And>k. k < length bs \<Longrightarrow> free_blocks (chs ! c) ! (i + k) = bs ! k"
  shows "bb' = -1 \<or> fits sz chs bc' bb'"
  using assms
proof (induction bs arbitrary: i bc bb s)
  case Nil
  then show ?case by simp
next
  case (Cons b bs)
  have s: "int i + 1 = int (Suc i)" by simp
  have nth: "free_blocks (chs ! c) ! (Suc i + k) = bs ! k" if "k < length bs" for k
    using Cons.prems(5) [of "Suc k"] that by simp
  have here: "fits sz chs (int c) (int i)" if "sz \<le> fb_size b"
    using Cons.prems(3,4) Cons.prems(5) [of 0] that by (simp add: fits_def)
  show ?case
  proof (cases "sz \<le> fb_size b \<and> fb_size b \<le> s")
    case True
    then show ?thesis
      using Cons.prems(1) unfolding scan_free_blocks.simps s
      by (intro Cons.IH [of "Suc i" "int c" "int i" "fb_size b"])
        (use Cons.prems(3,4) nth here in auto)
  next
    case False
    then show ?thesis
      using Cons.prems(1) unfolding scan_free_blocks.simps s
      by (intro Cons.IH [of "Suc i" bc bb s]) (use Cons.prems(2,3,4) nth in auto)
  qed
qed

lemma scan_chunks_fits:
  assumes "scan_chunks sz (int (length pre)) chs (bc, bb) = (bc', bb')"
    and "bb = -1 \<or> fits sz (pre @ chs) bc bb"
  shows "bb' = -1 \<or> fits sz (pre @ chs) bc' bb'"
  using assms
proof (induction chs arbitrary: pre bc bb)
  case Nil
  then show ?case by simp
next
  case (Cons ch chs)
  obtain c1 b1 s1 where r: "scan_free_blocks sz (int (length pre)) (int 0) (butlast (free_blocks ch)) (bc, bb, SIZE_MAX) = (c1, b1, s1)"
    by (metis prod_cases3)
  have "b1 = -1 \<or> fits sz (pre @ ch # chs) c1 b1"
    using Cons.prems(2)
    by (rule scan_free_blocks_fits [OF r]) (auto simp: nth_butlast)
  moreover have "scan_chunks sz (int (length (pre @ [ch]))) chs (c1, b1) = (bc', bb')"
    using Cons.prems(1) r by (simp add: add.commute)
  ultimately show ?case using Cons.IH [of "pre @ [ch]" c1 b1] by simp
qed

lemma scan_last_blocks_fits:
  assumes "scan_last_blocks sz (int (length pre)) chs (bc, bb, r) = (bc', bb', r')"
    and "bb = -1 \<or> fits sz (pre @ chs) bc bb"
  shows "bb' = -1 \<or> fits sz (pre @ chs) bc' bb'"
  using assms
proof (induction chs arbitrary: pre bc bb r)
  case Nil
  then show ?case by simp
next
  case (Cons ch chs)
  obtain c1 b1 r1 where n: "scan_last_blocks sz (int (length (pre @ [ch]))) chs (c1, b1, r1) = (bc', bb', r')"
    and "(c1 = bc \<and> b1 = bb) \<or> (free_blocks ch \<noteq> [] \<and> sz \<le> fb_size (last (free_blocks ch))
        \<and> c1 = int (length pre) \<and> b1 = int (length (free_blocks ch)) - 1)"
    using Cons.prems(1) by (auto simp: Let_def add.commute split: if_splits)
  then have "b1 = -1 \<or> fits sz ((pre @ [ch]) @ chs) c1 b1"
    using Cons.prems(2) by (auto simp: fits_def last_conv_nth)
  then show ?case using Cons.IH [OF n] by simp
qed

lemma select_fits:
  assumes "dyn_tallocr_select a sz = (a', bc, bb)"
  obtains (old) "a' = a" "fits sz (dt_chunks a) bc bb"
  | (new) "a' = fst (ggml_dyn_tallocr_new_chunk a sz)" "bc = snd (ggml_dyn_tallocr_new_chunk a sz)" "bb = 0"
proof -
  obtain c1 b1 where s1: "scan_chunks sz 0 (dt_chunks a) (-1, -1) = (c1, b1)" by fastforce
  obtain c2 b2 r2 where s2: "scan_last_blocks sz 0 (dt_chunks a) (c1, b1, INT64_MIN) = (c2, b2, r2)"
    by (metis prod_cases3)
  have f1: "b1 = -1 \<or> fits sz (dt_chunks a) c1 b1"
    using scan_chunks_fits [of sz "[]" "dt_chunks a"] s1 by simp
  then have f2: "b2 = -1 \<or> fits sz (dt_chunks a) c2 b2"
    using scan_last_blocks_fits [of sz "[]" "dt_chunks a" c1 b1] s2 by simp
  show thesis
    using assms s1 s2 f1 f2 old new
    by (auto simp: dyn_tallocr_select_def Let_def split: if_splits prod.splits)
qed

section \<open>Allocation and return on a whole allocator\<close>

text \<open>
  The invariant. \<open>dyn_avail\<close> is the set of free (chunk, byte) pairs, in which a chunk that does
  not exist yet is wholly free; \<open>dyn_range\<close> is the range an address stands for.
\<close>

definition dyn_inv :: "ggml_dyn_tallocr \<Rightarrow> bool" where
  "dyn_inv a \<longleftrightarrow> is_pow2 (dt_alignment a) \<and> dt_max_chunk_size a \<le> HALF_MAX
     \<and> length (dt_chunks a) \<le> GGML_VBUFFER_MAX_CHUNKS
     \<and> (\<forall>ch \<in> set (dt_chunks a). blocks_ok (dt_alignment a) (free_blocks ch) \<and> max_size ch \<le> HALF_MAX)"

definition dyn_request_ok :: "ggml_dyn_tallocr \<Rightarrow> size_t \<Rightarrow> bool" where
  "dyn_request_ok a n \<longleftrightarrow> n + dt_alignment a \<le> HALF_MAX"

definition dyn_asize :: "ggml_dyn_tallocr \<Rightarrow> size_t \<Rightarrow> size_t" where
  "dyn_asize a n = aligned_offset 0 n (dt_alignment a)"

definition dyn_avail :: "ggml_dyn_tallocr \<Rightarrow> (nat \<times> nat) set" where
  "dyn_avail a = {(c, x). c < length (dt_chunks a) \<longrightarrow> x \<in> free_set (dt_chunks a ! c)}"

definition dyn_range :: "ggml_dyn_tallocr \<Rightarrow> buffer_address \<Rightarrow> size_t \<Rightarrow> (nat \<times> nat) set" where
  "dyn_range a addr n = {nat (ba_chunk addr)} \<times> {ba_offset addr ..< ba_offset addr + dyn_asize a n}"

text \<open>An address the allocator has handed out: its chunk exists and has grown past the range.\<close>

definition dyn_addr_ok :: "ggml_dyn_tallocr \<Rightarrow> buffer_address \<Rightarrow> size_t \<Rightarrow> bool" where
  "dyn_addr_ok a addr n \<longleftrightarrow> 0 \<le> ba_chunk addr \<and> nat (ba_chunk addr) < length (dt_chunks a)
     \<and> dt_alignment a dvd ba_offset addr
     \<and> ba_offset addr + dyn_asize a n \<le> max_size (dt_chunks a ! nat (ba_chunk addr))
     \<and> ba_offset addr + dyn_asize a n \<le> HALF_MAX"

lemma dyn_asize_props:
  assumes "dyn_inv a" "dyn_request_ok a n"
  shows "n \<le> dyn_asize a n" "dyn_asize a n \<le> HALF_MAX" "dt_alignment a dvd dyn_asize a n"
    and "dyn_asize a n < n + dt_alignment a"
proof -
  have al: "0 < dt_alignment a" using assms(1) by (auto simp: dyn_inv_def is_pow2_def)
  have le: "0 + n + dt_alignment a \<le> SIZE_MAX" using assms(2) by (simp add: dyn_request_ok_def)
  note b = aligned_offset_bounds [OF al le]
  show "n \<le> dyn_asize a n" "dt_alignment a dvd dyn_asize a n" "dyn_asize a n < n + dt_alignment a"
    using b by (simp_all add: dyn_asize_def)
  then show "dyn_asize a n \<le> HALF_MAX" using assms(2) by (simp add: dyn_request_ok_def)
qed

lemma new_chunk_cases:
  assumes "dyn_inv a" "sz \<le> HALF_MAX" "snd (ggml_dyn_tallocr_new_chunk a sz) \<noteq> -1"
  obtains cap where "sz \<le> cap" "cap \<le> HALF_MAX" "length (dt_chunks a) < GGML_VBUFFER_MAX_CHUNKS"
    "snd (ggml_dyn_tallocr_new_chunk a sz) = int (length (dt_chunks a))"
    "fst (ggml_dyn_tallocr_new_chunk a sz) = a\<lparr>dt_chunks := dt_chunks a
       @ [\<lparr>free_blocks = [\<lparr>fb_offset = 0, fb_size = cap\<rparr>], max_size = 0\<rparr>]\<rparr>"
proof (rule that)
  let ?cap = "if length (dt_chunks a) = GGML_VBUFFER_MAX_CHUNKS - 1 then SIZE_MAX div 2
    else max sz (dt_max_chunk_size a)"
  show "sz \<le> ?cap" "?cap \<le> HALF_MAX" using assms(1,2) by (auto simp: dyn_inv_def)
  show "length (dt_chunks a) < GGML_VBUFFER_MAX_CHUNKS"
    using assms(3) by (auto simp: ggml_dyn_tallocr_new_chunk_def split: if_splits)
  then show "snd (ggml_dyn_tallocr_new_chunk a sz) = int (length (dt_chunks a))"
    "fst (ggml_dyn_tallocr_new_chunk a sz) = a\<lparr>dt_chunks := dt_chunks a
       @ [\<lparr>free_blocks = [\<lparr>fb_offset = 0, fb_size = ?cap\<rparr>], max_size = 0\<rparr>]\<rparr>"
    by (simp_all add: ggml_dyn_tallocr_new_chunk_def Let_def)
qed

lemma select_old_or_new:
  assumes "dyn_inv a" "sz \<le> HALF_MAX" "dyn_tallocr_select a sz = (a', bc, bb)" "bc \<noteq> -1"
  shows "dyn_inv a'" "dt_alignment a' = dt_alignment a" "fits sz (dt_chunks a') bc bb"
    and "dyn_avail a' \<subseteq> dyn_avail a"
    and "\<exists>tl. dt_chunks a' = dt_chunks a @ tl"
proof -
  have "dyn_inv a' \<and> dt_alignment a' = dt_alignment a \<and> fits sz (dt_chunks a') bc bb
    \<and> dyn_avail a' \<subseteq> dyn_avail a \<and> (\<exists>tl. dt_chunks a' = dt_chunks a @ tl)"
    using assms(3)
  proof (cases rule: select_fits)
    case old
    then show ?thesis using assms(1) by simp
  next
    case new
    then have "snd (ggml_dyn_tallocr_new_chunk a sz) \<noteq> -1" using assms(4) by simp
    then obtain cap where "sz \<le> cap" "cap \<le> HALF_MAX" "length (dt_chunks a) < GGML_VBUFFER_MAX_CHUNKS"
      "bc = int (length (dt_chunks a))"
      "a' = a\<lparr>dt_chunks := dt_chunks a @ [\<lparr>free_blocks = [\<lparr>fb_offset = 0, fb_size = cap\<rparr>], max_size = 0\<rparr>]\<rparr>"
      using new_chunk_cases [OF assms(1,2)] new by metis
    then show ?thesis using assms(1) new(3)
      by (auto simp: dyn_inv_def blocks_ok_def fits_def dyn_avail_def nth_append split: if_splits)
  qed
  then show "dyn_inv a'" "dt_alignment a' = dt_alignment a" "fits sz (dt_chunks a') bc bb"
    "dyn_avail a' \<subseteq> dyn_avail a" "\<exists>tl. dt_chunks a' = dt_chunks a @ tl" by blast+
qed

lemma carve_free_set:
  assumes "blocks_ok al (free_blocks ch)" "i < length (free_blocks ch)" "sz \<le> fb_size (free_blocks ch ! i)"
  shows "{fb_offset (free_blocks ch ! i) ..< fb_offset (free_blocks ch ! i) + sz} \<subseteq> free_set ch"
    and "free_set (dyn_tallocr_carve ch i sz)
      = free_set ch - {fb_offset (free_blocks ch ! i) ..< fb_offset (free_blocks ch ! i) + sz}"
proof -
  note e = blocks_ok_end [OF assms(1,2)]
  note c = carve_cover [OF assms(2,3) e]
  have le: "cover (free_blocks ch) x \<le> 1" for x using assms(1) by (simp add: blocks_ok_def)
  show "{fb_offset (free_blocks ch ! i) ..< fb_offset (free_blocks ch ! i) + sz} \<subseteq> free_set ch"
  proof
    fix x assume "x \<in> {fb_offset (free_blocks ch ! i) ..< fb_offset (free_blocks ch ! i) + sz}"
    then show "x \<in> free_set ch" using c [of x] by (simp add: free_set_cover)
  qed
  show "free_set (dyn_tallocr_carve ch i sz)
      = free_set ch - {fb_offset (free_blocks ch ! i) ..< fb_offset (free_blocks ch ! i) + sz}"
  proof (intro set_eqI)
    fix x show "x \<in> free_set (dyn_tallocr_carve ch i sz) \<longleftrightarrow>
        x \<in> free_set ch - {fb_offset (free_blocks ch ! i) ..< fb_offset (free_blocks ch ! i) + sz}"
      using c [of x] le [of x] by (auto simp: free_set_cover split: if_splits)
  qed
qed

lemma dyn_alloc_unfold:
  assumes "ggml_dyn_tallocr_alloc a n = Some (a', addr)"
  obtains a1 bc bb where "dyn_tallocr_select a (dyn_asize a n) = (a1, bc, bb)" "bc \<noteq> -1"
    "addr = \<lparr>ba_chunk = bc, ba_offset = fb_offset (free_blocks (dt_chunks a1 ! nat bc) ! nat bb)\<rparr>"
    "a' = a1\<lparr>dt_chunks := (dt_chunks a1)
            [nat bc := dyn_tallocr_carve (dt_chunks a1 ! nat bc) (nat bb) (dyn_asize a n)]\<rparr>"
proof -
  obtain a1 bc bb where sel: "dyn_tallocr_select a (dyn_asize a n) = (a1, bc, bb)" by (metis prod_cases3)
  have "(if bc = -1 then None else Some (a1\<lparr>dt_chunks := (dt_chunks a1)
            [nat bc := dyn_tallocr_carve (dt_chunks a1 ! nat bc) (nat bb) (dyn_asize a n)]\<rparr>,
          \<lparr>ba_chunk = bc, ba_offset = fb_offset (free_blocks (dt_chunks a1 ! nat bc) ! nat bb)\<rparr>)) = Some (a', addr)"
    using assms by (simp only: ggml_dyn_tallocr_alloc_def Let_def dyn_asize_def [symmetric] sel prod.case)
  then show thesis by (cases "bc = -1") (use that [OF sel] in auto)
qed

lemma dyn_avail_update:
  assumes "c < length chs" "free_set ch' = free_set (chs ! c) - R"
  shows "dyn_avail (a\<lparr>dt_chunks := chs[c := ch']\<rparr>) = dyn_avail (a\<lparr>dt_chunks := chs\<rparr>) - {c} \<times> R"
proof (intro set_eqI)
  fix p :: "nat \<times> nat"
  obtain k x where "p = (k, x)" by fastforce
  then show "p \<in> dyn_avail (a\<lparr>dt_chunks := chs[c := ch']\<rparr>) \<longleftrightarrow> p \<in> dyn_avail (a\<lparr>dt_chunks := chs\<rparr>) - {c} \<times> R"
    using assms by (cases "k = c") (simp_all add: dyn_avail_def)
qed

lemma dyn_alloc_correct:
  assumes "dyn_inv a" "dyn_request_ok a n" "ggml_dyn_tallocr_alloc a n = Some (a', addr)"
  shows "dyn_inv a'" "dt_alignment a' = dt_alignment a" "dyn_addr_ok a' addr n"
    and "dyn_range a addr n \<subseteq> dyn_avail a" "dyn_avail a' \<subseteq> dyn_avail a - dyn_range a addr n"
proof -
  obtain a1 bc bb where sel: "dyn_tallocr_select a (dyn_asize a n) = (a1, bc, bb)" "bc \<noteq> -1"
    and addr: "addr = \<lparr>ba_chunk = bc, ba_offset = fb_offset (free_blocks (dt_chunks a1 ! nat bc) ! nat bb)\<rparr>"
    and a': "a' = a1\<lparr>dt_chunks := (dt_chunks a1)
            [nat bc := dyn_tallocr_carve (dt_chunks a1 ! nat bc) (nat bb) (dyn_asize a n)]\<rparr>"
    using assms(3) by (rule dyn_alloc_unfold)
  let ?sz = "dyn_asize a n" and ?ch = "dt_chunks a1 ! nat bc"
  let ?b = "free_blocks ?ch ! nat bb"
  note sz = dyn_asize_props [OF assms(1,2)]
  note s = select_old_or_new [OF assms(1) sz(2) sel]
  have f: "0 \<le> bc" "nat bc < length (dt_chunks a1)" "nat bb < length (free_blocks ?ch)" "?sz \<le> fb_size ?b"
    using s(3) by (auto simp: fits_def)
  have ok: "blocks_ok (dt_alignment a) (free_blocks ?ch)"
    using s(1,2) f(2) by (auto simp: dyn_inv_def)
  note cr = carve_free_set [OF ok f(3,4)]
  show al: "dt_alignment a' = dt_alignment a" using s(2) a' by simp
  have as: "dyn_asize a' n = ?sz" using al by (simp add: dyn_asize_def)
  note mx = carve_max_size [OF f(3,4) blocks_ok_end [OF ok f(3)]]
  have "max_size ?ch \<le> HALF_MAX" using s(1) f(2) by (simp add: dyn_inv_def)
  then have "max_size (dyn_tallocr_carve ?ch (nat bb) ?sz) \<le> HALF_MAX"
    using mx blocks_ok_nth [OF ok f(3)] f(4) by simp
  then show "dyn_inv a'"
    using s(1,2) carve_ok [OF ok f(3,4) sz(3)]
    by (auto simp: dyn_inv_def a' dest!: set_update_subset_insert [THEN subsetD])
  have "max_size (dt_chunks a' ! nat bc) = max (max_size ?ch) (fb_offset ?b + ?sz)"
    using mx f(2) by (simp add: a')
  then show "dyn_addr_ok a' addr n"
    using f blocks_ok_nth [OF ok f(3)] unfolding dyn_addr_ok_def as al by (auto simp: addr a')
  have r: "dyn_range a addr n = {nat bc} \<times> {fb_offset ?b ..< fb_offset ?b + ?sz}"
    by (simp add: dyn_range_def addr)
  have "dyn_range a addr n \<subseteq> dyn_avail a1"
    using cr(1) f(2) by (auto simp: r dyn_avail_def)
  then show "dyn_range a addr n \<subseteq> dyn_avail a" using s(4) by blast
  have "dyn_avail a' = dyn_avail a1 - dyn_range a addr n"
    using dyn_avail_update [OF f(2) cr(2), of a1] by (simp add: a' r)
  then show "dyn_avail a' \<subseteq> dyn_avail a - dyn_range a addr n" using s(4) by blast
qed

text \<open>Earlier addresses stay valid: chunks are only appended and their high-water marks only grow.\<close>

lemma dyn_alloc_keeps_addr:
  assumes "dyn_inv a" "dyn_request_ok a n" "ggml_dyn_tallocr_alloc a n = Some (a', addr)"
    and "dyn_addr_ok a b m"
  shows "dyn_addr_ok a' b m"
proof -
  obtain a1 bc bb where sel: "dyn_tallocr_select a (dyn_asize a n) = (a1, bc, bb)" "bc \<noteq> -1"
    and a': "a' = a1\<lparr>dt_chunks := (dt_chunks a1)
            [nat bc := dyn_tallocr_carve (dt_chunks a1 ! nat bc) (nat bb) (dyn_asize a n)]\<rparr>"
    using assms(3) by (rule dyn_alloc_unfold)
  note s = select_old_or_new [OF assms(1) dyn_asize_props(2) [OF assms(1,2)] sel]
  obtain tl where tl: "dt_chunks a1 = dt_chunks a @ tl" using s(5) by blast
  have "max_size ch \<le> max_size (dyn_tallocr_carve ch i sz)" for ch i sz
    by (simp add: dyn_tallocr_carve_def Let_def ggml_dyn_tallocr_remove_block_def)
  then show ?thesis
    using assms(4) s(2) unfolding a' dyn_addr_ok_def
    by (auto simp: dyn_asize_def tl nth_append nth_list_update intro: order_trans)
qed

lemma dyn_free_unfold:
  assumes "ggml_dyn_tallocr_free_bytes a addr n = Some a'"
  obtains ch' where "0 \<le> ba_chunk addr" "nat (ba_chunk addr) < length (dt_chunks a)"
    "free_chunk (dt_chunks a ! nat (ba_chunk addr)) (ba_offset addr) (dyn_asize a n) = Some ch'"
    "a' = a\<lparr>dt_chunks := (dt_chunks a)[nat (ba_chunk addr) := ch']\<rparr>"
  using assms
  by (auto simp: ggml_dyn_tallocr_free_bytes_def dyn_asize_def Let_def bind_eq_Some_conv split: if_splits)

lemma dyn_free_correct:
  assumes "dyn_inv a" "dyn_addr_ok a addr n" "dyn_range a addr n \<inter> dyn_avail a = {}"
    and "ggml_dyn_tallocr_free_bytes a addr n = Some a'"
  shows "dyn_inv a'" "dt_alignment a' = dt_alignment a" "dyn_avail a' = dyn_avail a \<union> dyn_range a addr n"
    and "dyn_addr_ok a b m \<Longrightarrow> dyn_addr_ok a' b m"
proof -
  let ?c = "nat (ba_chunk addr)" and ?off = "ba_offset addr" and ?sz = "dyn_asize a n"
  let ?ch = "dt_chunks a ! ?c"
  obtain ch' where c: "?c < length (dt_chunks a)" and fc: "free_chunk ?ch ?off ?sz = Some ch'"
    and a': "a' = a\<lparr>dt_chunks := (dt_chunks a)[?c := ch']\<rparr>"
    using assms(4) by (rule dyn_free_unfold)
  have ok: "blocks_ok (dt_alignment a) (free_blocks ?ch)" using assms(1) c by (auto simp: dyn_inv_def)
  have addr: "dt_alignment a dvd ?off" "?off + ?sz \<le> HALF_MAX" using assms(2) by (auto simp: dyn_addr_ok_def)
  note cov = free_chunk_cover [OF fc ok addr(2)]
  have "cover (free_blocks ?ch) x = 0" if "?off \<le> x" "x < ?off + ?sz" for x
  proof -
    have "(?c, x) \<notin> dyn_avail a" using assms(3) that unfolding dyn_range_def by fastforce
    then show ?thesis using c free_set_cover [of x ?ch] by (simp add: dyn_avail_def)
  qed
  then have "blocks_ok (dt_alignment a) (free_blocks ch')" by (rule free_chunk_ok [OF fc ok addr(2,1)])
  then show "dyn_inv a'" using assms(1) free_chunk_max_size [OF fc ok addr(2)] c
    by (auto simp: dyn_inv_def a' dest!: set_update_subset_insert [THEN subsetD])
  show "dt_alignment a' = dt_alignment a" by (simp add: a')
  have "free_set ch' = free_set ?ch \<union> {?off ..< ?off + ?sz}"
    by (auto simp: set_eq_iff free_set_cover cov)
  then show "dyn_avail a' = dyn_avail a \<union> dyn_range a addr n"
    using c by (auto simp: dyn_avail_def dyn_range_def a' nth_list_update split: if_splits)
  show "dyn_addr_ok a' b m" if "dyn_addr_ok a b m"
    using that free_chunk_max_size [OF fc ok addr(2)]
    by (cases "nat (ba_chunk b) = nat (ba_chunk addr)") (auto simp: dyn_addr_ok_def dyn_asize_def a')
qed

section \<open>The allocator satisfies the range allocator contract\<close>

lemmas dyn_eval = ggml_dyn_tallocr_new_def ggml_dyn_tallocr_reset_def ggml_dyn_tallocr_alloc_def
  dyn_tallocr_select_def aligned_offset_def Let_def size_simps
  ggml_dyn_tallocr_new_chunk_def dyn_tallocr_carve_def ggml_dyn_tallocr_free_bytes_def free_chunk_def
  free_merge_loop.simps ggml_dyn_tallocr_insert_block_def ggml_dyn_tallocr_remove_block_def

interpretation dyn_alloc: range_allocator
  ggml_dyn_tallocr_alloc ggml_dyn_tallocr_free_bytes
  "\<lambda>a. dyn_inv a \<and> dt_alignment a = al" "\<lambda>n. n + al \<le> HALF_MAX" dyn_avail
  "\<lambda>addr n. {nat (ba_chunk addr)} \<times> {ba_offset addr ..< ba_offset addr + aligned_offset 0 n al}"
  dyn_addr_ok
  for al
proof (unfold_locales, goal_cases)
  case (1 s n s' a)
  then show ?case using dyn_alloc_correct(1,2) [of s n s' a] by (simp add: dyn_request_ok_def)
next
  case (2 s n s' a)
  then show ?case using dyn_alloc_correct(4) [of s n s' a]
    by (simp add: dyn_request_ok_def dyn_range_def dyn_asize_def)
next
  case (3 s n s' a)
  then show ?case using dyn_alloc_correct(5) [of s n s' a]
    by (simp add: dyn_request_ok_def dyn_range_def dyn_asize_def)
next
  case (4 s n s' a)
  then show ?case using dyn_alloc_correct(3) [of s n s' a] by (simp add: dyn_request_ok_def)
next
  case (5 s n s' a b m)
  then show ?case using dyn_alloc_keeps_addr [of s n s' a b m] by (simp add: dyn_request_ok_def)
next
  case (6 s a n s')
  then show ?case using dyn_free_correct(1,2) [of s a n s'] by (simp add: dyn_range_def dyn_asize_def)
next
  case (7 s a n s')
  then show ?case using dyn_free_correct(3) [of s a n s'] by (simp add: dyn_range_def dyn_asize_def)
next
  case (8 s a n s' b m)
  then show ?case using dyn_free_correct(4) [of s a n s' b m] by (simp add: dyn_range_def dyn_asize_def)
qed

lemma dyn_new_inv: "is_pow2 al \<Longrightarrow> dyn_inv (ggml_dyn_tallocr_new al m)"
  by (simp add: ggml_dyn_tallocr_new_def ggml_dyn_tallocr_reset_def dyn_inv_def)

lemma dyn_new_alignment [simp]: "dt_alignment (ggml_dyn_tallocr_new al m) = al"
  by (simp add: ggml_dyn_tallocr_new_def ggml_dyn_tallocr_reset_def)

lemma dyn_run_alignment:
  assumes "run_client ggml_dyn_tallocr_alloc ggml_dyn_tallocr_free_bytes ops (ggml_dyn_tallocr_new al m, []) = Some (a, live)"
    "is_pow2 al" "requests_ok (\<lambda>n. n + al \<le> HALF_MAX) ops"
  shows "dyn_inv a" "dt_alignment a = al"
proof -
  have "dyn_alloc.client_inv al a live"
    using dyn_alloc.run_client_inv [of ops "ggml_dyn_tallocr_new al m" "[]" a live al] assms
    by (simp add: dyn_alloc.client_inv_def dyn_new_inv)
  then show "dyn_inv a" "dt_alignment a = al" by (simp_all add: dyn_alloc.client_inv_def)
qed

text \<open>
  C1: start from a new allocator and let a client request and return ranges in any order. Two
  live ranges (rounded up to the alignment) never overlap, no live byte is offered as free, each
  live offset is a multiple of the alignment and each range lies below the chunk's recorded
  \<^verbatim>\<open>max_size\<close>, which is the size the buffer is later allocated with.
\<close>

theorem dyn_tallocr_no_overlap:
  assumes "run_client ggml_dyn_tallocr_alloc ggml_dyn_tallocr_free_bytes ops
      (ggml_dyn_tallocr_new al m, []) = Some (a, live)"
    and "is_pow2 al" and "requests_ok (\<lambda>n. n + al \<le> HALF_MAX) ops"
    and "i < length live" "j < length live" "i \<noteq> j"
  shows "dyn_range a (fst (live ! i)) (snd (live ! i)) \<inter> dyn_range a (fst (live ! j)) (snd (live ! j)) = {}
    \<and> dyn_range a (fst (live ! i)) (snd (live ! i)) \<inter> dyn_avail a = {}
    \<and> al dvd ba_offset (fst (live ! i))
    \<and> ba_offset (fst (live ! i)) + snd (live ! i)
        \<le> ggml_dyn_tallocr_max_size a (nat (ba_chunk (fst (live ! i))))"
proof -
  note run = dyn_run_alignment [OF assms(1-3)]
  have inv: "dyn_inv (ggml_dyn_tallocr_new al m) \<and> dt_alignment (ggml_dyn_tallocr_new al m) = al"
    using assms(2) by (simp add: dyn_new_inv)
  have mem: "(fst (live ! i), snd (live ! i)) \<in> set live" using assms(4) by simp
  note r = dyn_alloc.run_client_disjoint [OF assms(1) inv assms(3-6)]
    and l = dyn_alloc.run_client_live [OF assms(1) inv assms(3) mem]
  have "snd (live ! i) \<le> dyn_asize a (snd (live ! i))"
    using dyn_asize_props(1) [OF run(1)] l(1) run(2) by (simp add: dyn_request_ok_def)
  then show ?thesis
    using r l(2,3) run(2)
    by (simp add: dyn_range_def dyn_asize_def dyn_addr_ok_def ggml_dyn_tallocr_max_size_def)
qed

theorem dyn_tallocr_no_overlap_witness:
  "\<exists>a live. run_client ggml_dyn_tallocr_alloc ggml_dyn_tallocr_free_bytes
      [Request 100, Request 64, Request 200, Return 1, Request 40] (ggml_dyn_tallocr_new 32 4096, []) = Some (a, live)
    \<and> live = [(\<lparr>ba_chunk = 0, ba_offset = 128\<rparr>, 40), (\<lparr>ba_chunk = 0, ba_offset = 192\<rparr>, 200), (\<lparr>ba_chunk = 0, ba_offset = 0\<rparr>, 100)]
    \<and> dyn_range a (fst (live ! 0)) (snd (live ! 0)) \<inter> dyn_range a (fst (live ! 1)) (snd (live ! 1)) = {}"
proof -
  let ?ops = "[Request 100, Request 64, Request 200, Return 1, Request 40]"
  let ?live = "[(\<lparr>ba_chunk = 0, ba_offset = 128\<rparr>, 40), (\<lparr>ba_chunk = 0, ba_offset = 192\<rparr>, 200), (\<lparr>ba_chunk = 0, ba_offset = 0\<rparr>, 100)]"
  obtain a where r: "run_client ggml_dyn_tallocr_alloc ggml_dyn_tallocr_free_bytes ?ops
      (ggml_dyn_tallocr_new 32 4096, []) = Some (a, ?live)" by (simp add: dyn_eval)
  show ?thesis
    using dyn_tallocr_no_overlap [OF r, of 0 1] r by (simp add: is_pow2_def)
qed
end
