(* ===== verification/GGML_DynAlloc_Order.thy ===== *)
theory GGML_DynAlloc_Order
  imports GGML_DynAlloc
begin

text \<open>
  What the searches and the merging of the dynamic allocator achieve. The first part shows that
  an allocation fails only when all sixteen chunks exist and none of their free blocks is large
  enough, and which block the search takes. The second part shows that, while no empty range is
  returned, the free blocks of a chunk are non-empty, sorted by address and never adjacent, so
  the list of a chunk is as short as its free set allows.
\<close>

section \<open>Completeness of the search\<close>

lemma scan_free_blocks_none:
  assumes "scan_free_blocks sz c i bs (bc, bb, s) = (bc', -1, s')" "0 \<le> i"
  shows "bb = -1 \<and> (\<forall>b \<in> set bs. sz \<le> fb_size b \<longrightarrow> s < fb_size b)"
  using assms
proof (induction bs arbitrary: i bc bb s)
  case (Cons b bs)
  show ?case
  proof (cases "sz \<le> fb_size b \<and> fb_size b \<le> s")
    case True
    then show ?thesis using Cons.IH [of "i + 1" c i "fb_size b"] Cons.prems by simp
  next
    case False
    then show ?thesis using Cons.IH [of "i + 1" bc bb s] Cons.prems by auto
  qed
qed simp

lemma scan_chunks_none:
  assumes "scan_chunks sz c chs (bc, bb) = (bc', -1)"
    and "\<forall>ch \<in> set chs. \<forall>b \<in> set (free_blocks ch). fb_size b \<le> SIZE_MAX"
  shows "bb = -1 \<and> (\<forall>ch \<in> set chs. \<forall>b \<in> set (butlast (free_blocks ch)). fb_size b < sz)"
  using assms
proof (induction chs arbitrary: c bc bb)
  case (Cons ch chs)
  obtain c1 b1 s1 where r: "scan_free_blocks sz c 0 (butlast (free_blocks ch)) (bc, bb, SIZE_MAX) = (c1, b1, s1)"
    by (metis prod_cases3)
  then have n: "b1 = -1" "\<forall>ch \<in> set chs. \<forall>b \<in> set (butlast (free_blocks ch)). fb_size b < sz"
    using Cons.IH [of "c + 1" c1 b1] Cons.prems by simp_all
  have "bb = -1 \<and> (\<forall>b \<in> set (butlast (free_blocks ch)). sz \<le> fb_size b \<longrightarrow> SIZE_MAX < fb_size b)"
    using scan_free_blocks_none [of sz c 0 "butlast (free_blocks ch)" bc bb SIZE_MAX c1 s1] r n(1) by simp
  then show ?case using n(2) Cons.prems(2) by (fastforce dest: in_set_butlastD)
qed simp

text \<open>
  The signed distance \<^verbatim>\<open>reuse_factor\<close> never reaches \<^verbatim>\<open>INT64_MIN\<close>, so the first last block that
  fits is always taken.
\<close>

lemma reuse_factor_bounds:
  assumes "m \<le> HALF_MAX" "off + sz \<le> HALF_MAX"
  shows "i64_of_sz (sz_sub (sz_sub m off) sz) = int m - int off - int sz"
    "i64_of_sz (sz_sub (sz_sub m off) sz) > INT64_MIN"
proof -
  show eq: "i64_of_sz (sz_sub (sz_sub m off) sz) = int m - int off - int sz"
  proof (cases "off + sz \<le> m")
    case True
    then show ?thesis using assms by (simp add: size_simps)
  next
    case F: False
    show ?thesis
    proof (cases "off \<le> m")
      case True
      then have "sz_sub m off = m - off" "m - off < sz" using F assms by (simp_all add: size_simps)
      then show ?thesis using assms True by (simp add: sz_sub_wrap i64_of_sz_neg of_nat_diff)
    next
      case False
      then have "sz_sub m off = m + 18446744073709551616 - off" using assms by (simp add: sz_sub_wrap)
      then show ?thesis using assms False by (simp add: sz_sub_id i64_of_sz_neg of_nat_diff)
    qed
  qed
  show "i64_of_sz (sz_sub (sz_sub m off) sz) > INT64_MIN" unfolding eq using assms by linarith
qed

lemma scan_last_blocks_none:
  assumes "scan_last_blocks sz c chs (bc, bb, r) = (bc', -1, r')" "0 \<le> c"
    and "\<forall>ch \<in> set chs. max_size ch \<le> HALF_MAX \<and> (\<forall>b \<in> set (free_blocks ch). fb_offset b + fb_size b \<le> HALF_MAX)"
  shows "bb = -1 \<and> (r = INT64_MIN \<longrightarrow> (\<forall>ch \<in> set chs. free_blocks ch \<noteq> [] \<longrightarrow> fb_size (last (free_blocks ch)) < sz))"
  using assms
proof (induction chs arbitrary: c bc bb r)
  case (Cons ch chs)
  let ?b = "last (free_blocks ch)"
  let ?rf = "i64_of_sz (sz_sub (sz_sub (max_size ch) (fb_offset ?b)) sz)"
  have p: "free_blocks ch \<noteq> [] \<Longrightarrow> sz \<le> fb_size ?b \<Longrightarrow> ?rf > INT64_MIN"
    using Cons.prems(3) by (intro reuse_factor_bounds(2)) (auto dest!: last_in_set intro: order_trans [rotated])
  let ?take = "free_blocks ch \<noteq> [] \<and> sz \<le> fb_size ?b \<and> (r < 0 \<and> ?rf > r \<or> ?rf \<ge> 0 \<and> ?rf < r)"
  show ?case
  proof (cases ?take)
    case True
    then have "scan_last_blocks sz (c + 1) chs (c, int (length (free_blocks ch)) - 1, ?rf) = (bc', -1, r')"
      using Cons.prems(1) by (auto simp: Let_def split: if_splits)
    then show ?thesis
      using Cons.IH [of "c + 1" c "int (length (free_blocks ch)) - 1" ?rf] Cons.prems(2,3) True by simp
  next
    case False
    then have "scan_last_blocks sz (c + 1) chs (bc, bb, r) = (bc', -1, r')"
      using Cons.prems(1) by (auto simp: Let_def split: if_splits)
    then show ?thesis
      using Cons.IH [of "c + 1" bc bb r] Cons.prems(2,3) False p
      by (auto simp: not_le [symmetric] simp del: not_le)
  qed
qed simp

lemma last_or_butlast: "x \<in> set xs \<longleftrightarrow> xs \<noteq> [] \<and> (x \<in> set (butlast xs) \<or> x = last xs)"
  by (cases xs rule: rev_cases) auto

lemma dyn_inv_blockD:
  assumes "dyn_inv a" "ch \<in> set (dt_chunks a)"
  shows "max_size ch \<le> HALF_MAX" "b \<in> set (free_blocks ch) \<Longrightarrow> fb_offset b + fb_size b \<le> HALF_MAX"
  using assms by (auto simp: dyn_inv_def blocks_ok_def)

lemma dyn_half_less: "HALF_MAX < SIZE_MAX" by simp

text \<open>A new chunk is added exactly when no free block of any chunk is large enough.\<close>

lemma select_none:
  assumes "dyn_inv a" "dyn_tallocr_select a sz = (a', bc, bb)"
  shows "(if \<forall>ch \<in> set (dt_chunks a). \<forall>b \<in> set (free_blocks ch). fb_size b < sz
          then a' = fst (ggml_dyn_tallocr_new_chunk a sz) \<and> bc = snd (ggml_dyn_tallocr_new_chunk a sz) \<and> bb = 0
          else a' = a \<and> fits sz (dt_chunks a) bc bb)"
proof -
  obtain c1 b1 where s1: "scan_chunks sz 0 (dt_chunks a) (-1, -1) = (c1, b1)" by fastforce
  obtain c2 b2 r2 where s2: "scan_last_blocks sz 0 (dt_chunks a) (c1, b1, INT64_MIN) = (c2, b2, r2)"
    by (metis prod_cases3)
  have f1: "b1 = -1 \<or> fits sz (dt_chunks a) c1 b1"
    using scan_chunks_fits [of sz "[]" "dt_chunks a"] s1 by simp
  then have f2: "b2 = -1 \<or> fits sz (dt_chunks a) c2 b2"
    using scan_last_blocks_fits [of sz "[]" "dt_chunks a" c1 b1] s2 by simp
  note D = dyn_inv_blockD [OF assms(1)]
  have le: "\<forall>ch \<in> set (dt_chunks a). \<forall>b \<in> set (free_blocks ch). fb_size b \<le> SIZE_MAX"
    using D(2) by (meson add_leD2 le_trans less_imp_le [OF dyn_half_less])
  have n: "\<forall>ch \<in> set (dt_chunks a). \<forall>b \<in> set (free_blocks ch). fb_size b < sz" if "b1 = -1" "b2 = -1"
  proof (intro ballI)
    fix ch b assume ch: "ch \<in> set (dt_chunks a)" "b \<in> set (free_blocks ch)"
    have "\<forall>ch \<in> set (dt_chunks a). \<forall>b \<in> set (butlast (free_blocks ch)). fb_size b < sz"
      using scan_chunks_none [of sz 0 "dt_chunks a" "-1" "-1" c1] s1 that(1) le by simp
    moreover have "\<forall>ch \<in> set (dt_chunks a). free_blocks ch \<noteq> [] \<longrightarrow> fb_size (last (free_blocks ch)) < sz"
      using scan_last_blocks_none [of sz 0 "dt_chunks a" c1 b1 INT64_MIN c2 r2] s2 that(2) D by simp
    ultimately show "fb_size b < sz" using ch last_or_butlast [of b "free_blocks ch"] by auto
  qed
  have nf: "\<not> fits sz (dt_chunks a) x y" if "\<forall>ch \<in> set (dt_chunks a). \<forall>b \<in> set (free_blocks ch). fb_size b < sz" for x y
  proof
    assume f: "fits sz (dt_chunks a) x y"
    then have "dt_chunks a ! nat x \<in> set (dt_chunks a)"
      "free_blocks (dt_chunks a ! nat x) ! nat y \<in> set (free_blocks (dt_chunks a ! nat x))"
      by (simp_all add: fits_def)
    with that have "fb_size (free_blocks (dt_chunks a ! nat x) ! nat y) < sz" by blast
    with f show False by (simp add: fits_def)
  qed
  have "bb = 0 \<and> a' = fst (ggml_dyn_tallocr_new_chunk a sz) \<and> bc = snd (ggml_dyn_tallocr_new_chunk a sz) \<and> b1 = -1 \<and> b2 = -1
     \<or> a' = a \<and> fits sz (dt_chunks a) bc bb"
    using assms(2) s1 s2 f1 f2
    by (auto simp: dyn_tallocr_select_def Let_def split: if_splits prod.splits)
  then show ?thesis using n nf by auto
qed

lemma dyn_alloc_None:
  assumes "dyn_inv a"
  shows "ggml_dyn_tallocr_alloc a n = None \<longleftrightarrow> length (dt_chunks a) = GGML_VBUFFER_MAX_CHUNKS
    \<and> (\<forall>ch \<in> set (dt_chunks a). \<forall>b \<in> set (free_blocks ch). fb_size b < dyn_asize a n)"
proof -
  obtain a1 bc bb where sel: "dyn_tallocr_select a (dyn_asize a n) = (a1, bc, bb)" by (metis prod_cases3)
  have "ggml_dyn_tallocr_alloc a n = None \<longleftrightarrow> bc = -1"
    by (simp add: ggml_dyn_tallocr_alloc_def Let_def dyn_asize_def [symmetric] sel)
  moreover have "snd (ggml_dyn_tallocr_new_chunk a sz) = -1 \<longleftrightarrow> length (dt_chunks a) = GGML_VBUFFER_MAX_CHUNKS" for sz
    using assms by (auto simp: ggml_dyn_tallocr_new_chunk_def dyn_inv_def Let_def)
  ultimately show ?thesis using select_none [OF assms sel] by (auto simp: fits_def split: if_splits)
qed

text \<open>Within a chunk the first search takes the tightest of the non-last blocks.\<close>

lemma scan_free_blocks_best:
  assumes "scan_free_blocks sz c i bs (bc, bb, s) = (bc', bb', s')"
  shows "s' \<le> s" "\<forall>b \<in> set bs. sz \<le> fb_size b \<longrightarrow> s' \<le> fb_size b"
    and "bb' \<noteq> bb \<or> bc' \<noteq> bc \<or> s' \<noteq> s \<Longrightarrow> bc' = c \<and> i \<le> bb' \<and> bb' < i + int (length bs) \<and> fb_size (bs ! nat (bb' - i)) = s'"
proof -
  have "s' \<le> s \<and> (\<forall>b \<in> set bs. sz \<le> fb_size b \<longrightarrow> s' \<le> fb_size b)
    \<and> (bc' = bc \<and> bb' = bb \<and> s' = s \<or> bc' = c \<and> i \<le> bb' \<and> bb' < i + int (length bs) \<and> fb_size (bs ! nat (bb' - i)) = s')"
    using assms
  proof (induction bs arbitrary: i bc bb s)
    case (Cons b bs)
    have e: "nat (bb' - i) = Suc (nat (bb' - (i + 1)))" if "i + 1 \<le> bb'" using that by simp
    show ?case
    proof (cases "sz \<le> fb_size b \<and> fb_size b \<le> s")
      case True
      then have "scan_free_blocks sz c (i + 1) bs (c, i, fb_size b) = (bc', bb', s')" using Cons.prems by simp
      from Cons.IH [OF this] show ?thesis using True e by (auto simp: not_less_eq_eq)
    next
      case False
      then have "scan_free_blocks sz c (i + 1) bs (bc, bb, s) = (bc', bb', s')" using Cons.prems by auto
      from Cons.IH [OF this] show ?thesis using False e by (auto simp: not_less_eq_eq)
    qed
  qed simp
  then show "s' \<le> s" "\<forall>b \<in> set bs. sz \<le> fb_size b \<longrightarrow> s' \<le> fb_size b"
    "bb' \<noteq> bb \<or> bc' \<noteq> bc \<or> s' \<noteq> s \<Longrightarrow> bc' = c \<and> i \<le> bb' \<and> bb' < i + int (length bs) \<and> fb_size (bs ! nat (bb' - i)) = s'"
    by auto
qed


text \<open>
  Across chunks the last chunk with a fitting non-last block wins, since each chunk restarts the
  comparison.
\<close>

definition inner_fit :: "size_t \<Rightarrow> tallocr_chunk \<Rightarrow> bool" where
  "inner_fit sz ch \<longleftrightarrow> (\<exists>b \<in> set (butlast (free_blocks ch)). sz \<le> fb_size b)"

definition inner_best :: "size_t \<Rightarrow> tallocr_chunk \<Rightarrow> int \<Rightarrow> bool" where
  "inner_best sz ch bb \<longleftrightarrow> 0 \<le> bb \<and> nat bb < length (butlast (free_blocks ch))
     \<and> (\<forall>b \<in> set (butlast (free_blocks ch)). sz \<le> fb_size b \<longrightarrow> fb_size (butlast (free_blocks ch) ! nat bb) \<le> fb_size b)"

lemma scan_inner:
  assumes "scan_free_blocks sz c 0 (butlast (free_blocks ch)) (bc, bb, SIZE_MAX) = (bc', bb', s')"
    and "\<forall>b \<in> set (free_blocks ch). fb_size b < SIZE_MAX"
  shows "if inner_fit sz ch then bc' = c \<and> inner_best sz ch bb' else bc' = bc \<and> bb' = bb"
proof (cases "inner_fit sz ch")
  case True
  then obtain b where b: "b \<in> set (butlast (free_blocks ch))" "sz \<le> fb_size b" by (auto simp: inner_fit_def)
  then have "s' \<noteq> SIZE_MAX" using scan_free_blocks_best(2) [OF assms(1)] assms(2) in_set_butlastD
    by (metis leD)
  then show ?thesis using True scan_free_blocks_best(2,3) [OF assms(1)] by (auto simp: inner_best_def)
next
  case False
  have "scan_free_blocks sz c i bs (bc, bb, s) = (bc, bb, s)" if "\<forall>b \<in> set bs. \<not> sz \<le> fb_size b" for i bs s
    using that by (induction bs arbitrary: i) auto
  then show ?thesis using False assms(1) by (auto simp: inner_fit_def)
qed

lemma scan_chunks_last:
  assumes "scan_chunks sz (int (length pre)) chs (bc, bb) = (bc', bb')"
    and "\<forall>ch \<in> set chs. \<forall>b \<in> set (free_blocks ch). fb_size b < SIZE_MAX"
    and "0 \<le> bc \<longrightarrow> nat bc < length pre \<and> inner_best sz (pre ! nat bc) bb \<and> (\<forall>k. nat bc < k \<and> k < length pre \<longrightarrow> \<not> inner_fit sz (pre ! k))"
    and "0 \<le> bc'"
  shows "nat bc' < length (pre @ chs) \<and> inner_best sz ((pre @ chs) ! nat bc') bb'
    \<and> (\<forall>k. nat bc' < k \<and> k < length (pre @ chs) \<longrightarrow> \<not> inner_fit sz ((pre @ chs) ! k))"
  using assms
proof (induction chs arbitrary: pre bc bb)
  case (Cons ch chs)
  obtain c1 b1 s1 where r: "scan_free_blocks sz (int (length pre)) 0 (butlast (free_blocks ch)) (bc, bb, SIZE_MAX) = (c1, b1, s1)"
    by (metis prod_cases3)
  note i = scan_inner [OF r]
  have n: "scan_chunks sz (int (length (pre @ [ch]))) chs (c1, b1) = (bc', bb')"
    using Cons.prems(1) r by (simp add: add.commute)
  have "0 \<le> c1 \<longrightarrow> nat c1 < length (pre @ [ch]) \<and> inner_best sz ((pre @ [ch]) ! nat c1) b1
      \<and> (\<forall>k. nat c1 < k \<and> k < length (pre @ [ch]) \<longrightarrow> \<not> inner_fit sz ((pre @ [ch]) ! k))"
    using i Cons.prems(2,3) by (cases "inner_fit sz ch") (auto simp: nth_append less_Suc_eq)
  then show ?case using Cons.IH [OF n _ _ Cons.prems(4)] Cons.prems(2) by simp
qed simp

lemma select_inner:
  assumes "dyn_inv a" "dyn_tallocr_select a sz = (a', bc, bb)" "\<exists>ch \<in> set (dt_chunks a). inner_fit sz ch"
  shows "a' = a \<and> 0 \<le> bc \<and> nat bc < length (dt_chunks a) \<and> inner_best sz (dt_chunks a ! nat bc) bb
    \<and> (\<forall>k. nat bc < k \<and> k < length (dt_chunks a) \<longrightarrow> \<not> inner_fit sz (dt_chunks a ! k))"
proof -
  obtain c1 b1 where s1: "scan_chunks sz 0 (dt_chunks a) (-1, -1) = (c1, b1)" by fastforce
  have lt: "\<forall>ch \<in> set (dt_chunks a). \<forall>b \<in> set (free_blocks ch). fb_size b < SIZE_MAX"
    using dyn_inv_blockD(2) [OF assms(1)] by (meson add_leD2 dyn_half_less le_less_trans)
  then have "b1 \<noteq> -1"
    using scan_chunks_none [of sz 0 "dt_chunks a" "-1" "-1" c1] s1 assms(3) by (force simp: inner_fit_def)
  moreover then have "0 \<le> c1" using scan_chunks_fits [of sz "[]" "dt_chunks a" "-1" "-1" c1 b1] s1 by (simp add: fits_def)
  ultimately show ?thesis
    using scan_chunks_last [of sz "[]" "dt_chunks a" "-1" "-1" c1 b1] s1 lt assms(2)
    by (simp add: dyn_tallocr_select_def split: prod.splits)
qed

section \<open>The free list is sorted and coalesced\<close>

text \<open>\<open>gap\<close> separates two blocks that lie in order with at least one byte between them.\<close>

definition gap :: "free_block \<Rightarrow> free_block \<Rightarrow> bool" where
  "gap b c \<longleftrightarrow> fb_offset b + fb_size b < fb_offset c"

definition coalesced :: "free_block list \<Rightarrow> bool" where
  "coalesced bs \<longleftrightarrow> (\<forall>b \<in> set bs. 0 < fb_size b) \<and> sorted_wrt gap bs"

lemma coalesced_append:
  "coalesced (xs @ ys) \<longleftrightarrow> coalesced xs \<and> coalesced ys \<and> (\<forall>x \<in> set xs. \<forall>y \<in> set ys. gap x y)"
  and coalesced_Cons: "coalesced (y # ys) \<longleftrightarrow> 0 < fb_size y \<and> (\<forall>z \<in> set ys. gap y z) \<and> coalesced ys"
  and coalesced_Nil [simp]: "coalesced []"
  by (auto simp: coalesced_def sorted_wrt_append)

lemma coalesced_at:
  assumes "coalesced bs" "i < length bs"
  shows "coalesced (take i bs)" "coalesced (drop (Suc i) bs)" "0 < fb_size (bs ! i)"
    "x \<in> set (take i bs) \<Longrightarrow> gap x (bs ! i)" "y \<in> set (drop (Suc i) bs) \<Longrightarrow> gap (bs ! i) y"
    "x \<in> set (take i bs) \<Longrightarrow> y \<in> set (drop (Suc i) bs) \<Longrightarrow> gap x y"
  using assms(1) id_take_nth_drop [OF assms(2)]
  by (metis coalesced_append coalesced_Cons list.set_intros)+

lemma coalesced_drop_Suc:
  assumes "coalesced bs" "Suc i < length bs" "y \<in> set (drop (Suc i) bs)"
  shows "y = bs ! Suc i \<or> gap (bs ! Suc i) y"
  using assms coalesced_at(5) [OF assms(1,2)] by (metis Cons_nth_drop_Suc set_ConsD)

lemma coalesced_dropD: "coalesced bs \<Longrightarrow> coalesced (drop i bs)"
  and coalesced_takeD: "coalesced bs \<Longrightarrow> coalesced (take i bs)"
  by (metis append_take_drop_id coalesced_append)+

lemma carve_coalesced:
  assumes "coalesced (free_blocks ch)" "blocks_ok al (free_blocks ch)" "i < length (free_blocks ch)"
    and "sz \<le> fb_size (free_blocks ch ! i)"
  shows "coalesced (free_blocks (dyn_tallocr_carve ch i sz))"
  using coalesced_at [OF assms(1,3)] assms(4)
  unfolding carve_blocks [OF assms(3,4) blocks_ok_end [OF assms(2,3)]]
  by (auto simp: coalesced_append coalesced_Cons) (fastforce simp: gap_def)+

text \<open>A block that is disjoint from a range and does not touch it lies strictly to one side.\<close>

lemma beside:
  assumes "\<And>x. off \<le> x \<Longrightarrow> x < off + sz \<Longrightarrow> cover bs x = 0" "b \<in> set bs" "0 < sz" "0 < fb_size b"
  shows "fb_offset b + fb_size b \<le> off \<or> off + sz \<le> fb_offset b"
proof (rule ccontr)
  assume "\<not> ?thesis"
  then have "max off (fb_offset b) \<in> fb_range b" "off \<le> max off (fb_offset b)" "max off (fb_offset b) < off + sz"
    using assms(3,4) by (auto simp: fb_range_def)
  then show False using assms(1) [of "max off (fb_offset b)"] assms(2) cover_pos_iff by (metis less_numeral_extra(3))
qed

lemma insert_pos_split:
  assumes "sorted_wrt gap bs"
  shows "b \<in> set (take (insert_pos bs off) bs) \<Longrightarrow> fb_offset b < off"
    and "b \<in> set (drop (insert_pos bs off) bs) \<Longrightarrow> off \<le> fb_offset b"
  using assms by (induction bs) (auto simp: gap_def not_less split: if_splits dest!: bspec)

lemma free_chunk_coalesced:
  assumes "free_chunk ch off sz = Some ch'" "blocks_ok al (free_blocks ch)" "off + sz \<le> HALF_MAX" "0 < sz"
    and "coalesced (free_blocks ch)" "\<And>x. off \<le> x \<Longrightarrow> x < off + sz \<Longrightarrow> cover (free_blocks ch) x = 0"
  shows "coalesced (free_blocks ch')"
proof -
  let ?bs = "free_blocks ch"
  have pos: "0 < fb_size b" if "b \<in> set ?bs" for b using assms(5) that by (simp add: coalesced_def)
  have side: "fb_offset b + fb_size b \<le> off \<or> off + sz \<le> fb_offset b" if "b \<in> set ?bs" for b
    using beside [OF assms(6) that assms(4) pos [OF that]] .
  from assms(1-3) show ?thesis
  proof (cases rule: free_chunk_cases)
    case (after j)
    note at = coalesced_at [OF assms(5) after(1)]
    have r: "off + sz \<le> fb_offset y" if "y \<in> set (drop (Suc j) ?bs)" for y
      using side [of y] at(5) [OF that] after(2) in_set_dropD [OF that] pos [of y] by (auto simp: gap_def)
    show ?thesis
    proof (cases "Suc j < length ?bs \<and> off + sz = fb_offset (?bs ! Suc j)")
      case True
      have d: "drop (Suc j) ?bs = ?bs ! Suc j # drop (Suc (Suc j)) ?bs" using True by (simp add: Cons_nth_drop_Suc)
      show ?thesis
        using at True after(2) coalesced_at(2,5) [OF assms(5), of "Suc j"] unfolding after(3) merge_after_blocks [OF assms(2) after(1,2) assms(3)] d
        by (auto simp: coalesced_append coalesced_Cons gap_def)
    next
      case False
      have "off + sz < fb_offset y" if y: "y \<in> set (drop (Suc j) ?bs)" for y
      proof -
        have s: "Suc j < length ?bs" using y by (cases "Suc j < length ?bs") auto
        then have "off + sz < fb_offset (?bs ! Suc j)"
          using r [of "?bs ! Suc j"] False by (metis Cons_nth_drop_Suc le_neq_implies_less list.set_intros(1))
        then show ?thesis using coalesced_drop_Suc [OF assms(5) s y] by (auto simp: gap_def)
      qed
      then show ?thesis
        using at False after(2) unfolding after(3) merge_after_blocks [OF assms(2) after(1,2) assms(3)]
        by (auto simp: coalesced_append coalesced_Cons gap_def add.assoc)
    qed
  next
    case (before j)
    note at = coalesced_at [OF assms(5) before(1)]
    have l: "fb_offset x + fb_size x < off" if x: "x \<in> set (take j ?bs)" for x
    proof -
      obtain k where k: "k < j" "x = ?bs ! k" using x before(1) by (auto simp: in_set_conv_nth)
      then have "fb_offset x + fb_size x \<noteq> off" using before(2) by simp
      then show ?thesis using side [of x] at(4) [OF x] before(3) in_set_takeD [OF x] pos [of x] by (auto simp: gap_def)
    qed
    have "\<not> (0 < j \<and> fb_offset (?bs ! (j - 1)) + fb_size (?bs ! (j - 1)) = off)" using before(1,2) by auto
    moreover have "off + (fb_size (?bs ! j) + sz) < fb_offset z" if "z \<in> set (drop (Suc j) ?bs)" for z
      using at(5) [OF that] before(3) by (simp add: gap_def)
    ultimately show ?thesis
      using at l unfolding before(4) merge_before_blocks [OF assms(2) before(1,3)]
      by (auto simp: coalesced_append coalesced_Cons gap_def)
  next
    case ins
    let ?p = "insert_pos ?bs off"
    have srt: "sorted_wrt gap ?bs" using assms(5) by (simp add: coalesced_def)
    have ne: "fb_offset b + fb_size b \<noteq> off \<and> off + sz \<noteq> fb_offset b" if "b \<in> set ?bs" for b
      using ins(1) that by (auto simp: in_set_conv_nth)
    have l: "fb_offset x + fb_size x < off" if "x \<in> set (take ?p ?bs)" for x
      using insert_pos_split(1) [OF srt that] side [of x] ne [of x] in_set_takeD [OF that] by auto
    have r: "off + sz < fb_offset y" if "y \<in> set (drop ?p ?bs)" for y
      using insert_pos_split(2) [OF srt that] side [of y] ne [of y] in_set_dropD [OF that] pos [of y] by auto
    show ?thesis
      using l r assms(4) coalesced_dropD [OF assms(5), of ?p] coalesced_takeD [OF assms(5), of ?p]
      unfolding insert_block_Some(1) [OF ins(2)]
      by (auto simp: coalesced_append coalesced_Cons gap_def) (meson less_trans l r le_add1 le_less_trans)
  qed
qed

section \<open>Sorted lists for a whole allocator\<close>

definition dyn_sorted :: "ggml_dyn_tallocr \<Rightarrow> bool" where
  "dyn_sorted a \<longleftrightarrow> (\<forall>ch \<in> set (dt_chunks a). coalesced (free_blocks ch))"

lemma select_sorted:
  assumes "dyn_inv a" "sz \<le> HALF_MAX" "0 < sz" "dyn_tallocr_select a sz = (a', bc, bb)" "bc \<noteq> -1" "dyn_sorted a"
  shows "dyn_sorted a'"
  using assms(4)
proof (cases rule: select_fits)
  case old
  then show ?thesis using assms(6) by simp
next
  case new
  then have "snd (ggml_dyn_tallocr_new_chunk a sz) \<noteq> -1" using assms(5) by simp
  then obtain cap where "sz \<le> cap"
    "a' = a\<lparr>dt_chunks := dt_chunks a @ [\<lparr>free_blocks = [\<lparr>fb_offset = 0, fb_size = cap\<rparr>], max_size = 0\<rparr>]\<rparr>"
    using new_chunk_cases [OF assms(1,2)] new by metis
  then show ?thesis using assms(3,6) by (auto simp: dyn_sorted_def coalesced_Cons)
qed

lemma dyn_alloc_sorted:
  assumes "dyn_inv a" "dyn_request_ok a n" "0 < n" "ggml_dyn_tallocr_alloc a n = Some (a', addr)" "dyn_sorted a"
  shows "dyn_sorted a'"
proof -
  obtain a1 bc bb where sel: "dyn_tallocr_select a (dyn_asize a n) = (a1, bc, bb)" "bc \<noteq> -1"
    and a': "a' = a1\<lparr>dt_chunks := (dt_chunks a1)
            [nat bc := dyn_tallocr_carve (dt_chunks a1 ! nat bc) (nat bb) (dyn_asize a n)]\<rparr>"
    using assms(4) by (rule dyn_alloc_unfold)
  note sz = dyn_asize_props [OF assms(1,2)]
  note s = select_old_or_new [OF assms(1) sz(2) sel]
  have srt: "dyn_sorted a1" using select_sorted [OF assms(1) sz(2) _ sel assms(5)] sz(1) assms(3) by simp
  let ?ch = "dt_chunks a1 ! nat bc"
  have f: "nat bc < length (dt_chunks a1)" "nat bb < length (free_blocks ?ch)" "dyn_asize a n \<le> fb_size (free_blocks ?ch ! nat bb)"
    using s(3) by (auto simp: fits_def)
  have "blocks_ok (dt_alignment a) (free_blocks ?ch)" "coalesced (free_blocks ?ch)"
    using s(1,2) srt f(1) by (auto simp: dyn_inv_def dyn_sorted_def)
  then have "coalesced (free_blocks (dyn_tallocr_carve ?ch (nat bb) (dyn_asize a n)))"
    using carve_coalesced f(2,3) by blast
  then show ?thesis using srt by (auto simp: dyn_sorted_def a' dest!: set_update_subset_insert [THEN subsetD])
qed

lemma dyn_free_sorted:
  assumes "dyn_inv a" "dyn_addr_ok a addr n" "dyn_range a addr n \<inter> dyn_avail a = {}" "0 < dyn_asize a n"
    and "ggml_dyn_tallocr_free_bytes a addr n = Some a'" "dyn_sorted a"
  shows "dyn_sorted a'"
proof -
  let ?c = "nat (ba_chunk addr)"
  obtain ch' where c: "?c < length (dt_chunks a)"
    and fc: "free_chunk (dt_chunks a ! ?c) (ba_offset addr) (dyn_asize a n) = Some ch'"
    and a': "a' = a\<lparr>dt_chunks := (dt_chunks a)[?c := ch']\<rparr>"
    using assms(5) by (rule dyn_free_unfold)
  have ok: "blocks_ok (dt_alignment a) (free_blocks (dt_chunks a ! ?c))" "coalesced (free_blocks (dt_chunks a ! ?c))"
    using assms(1,6) c by (auto simp: dyn_inv_def dyn_sorted_def)
  have "cover (free_blocks (dt_chunks a ! ?c)) x = 0" if "ba_offset addr \<le> x" "x < ba_offset addr + dyn_asize a n" for x
  proof -
    have "(?c, x) \<notin> dyn_avail a" using assms(3) that unfolding dyn_range_def by fastforce
    then show ?thesis using c free_set_cover [of x "dt_chunks a ! ?c"] by (simp add: dyn_avail_def)
  qed
  moreover have "ba_offset addr + dyn_asize a n \<le> HALF_MAX" using assms(2) by (simp add: dyn_addr_ok_def)
  ultimately have "coalesced (free_blocks ch')" using free_chunk_coalesced [OF fc ok(1) _ assms(4) ok(2)] by blast
  then show ?thesis using assms(6) by (auto simp: dyn_sorted_def a' dest!: set_update_subset_insert [THEN subsetD])
qed

interpretation dyn_order: range_allocator
  ggml_dyn_tallocr_alloc ggml_dyn_tallocr_free_bytes
  "\<lambda>a. dyn_inv a \<and> dyn_sorted a \<and> dt_alignment a = al" "\<lambda>n. 0 < n \<and> n + al \<le> HALF_MAX" dyn_avail
  "\<lambda>addr n. {nat (ba_chunk addr)} \<times> {ba_offset addr ..< ba_offset addr + aligned_offset 0 n al}"
  "\<lambda>a addr n. dyn_addr_ok a addr n \<and> 0 < dyn_asize a n"
  for al
proof (unfold_locales, goal_cases)
  case (1 s n s' a)
  then show ?case using dyn_alloc_correct(1,2) [of s n s' a] dyn_alloc_sorted [of s n s' a] by (simp add: dyn_request_ok_def)
next
  case (2 s n s' a)
  then show ?case using dyn_alloc_correct(4) [of s n s' a]
    by (simp add: dyn_request_ok_def dyn_range_def dyn_asize_def)
next
  case (3 s n s' a)
  then show ?case using dyn_alloc_correct(5) [of s n s' a]
    by (simp add: dyn_request_ok_def dyn_range_def dyn_asize_def)
next
  case (4 s n s' a)
  then show ?case using dyn_alloc_correct(2,3) [of s n s' a] dyn_asize_props(1) [of s n]
    by (simp add: dyn_request_ok_def dyn_asize_def)
next
  case (5 s n s' a b m)
  then show ?case using dyn_alloc_correct(2) [of s n s' a] dyn_alloc_keeps_addr [of s n s' a b m]
    by (simp add: dyn_request_ok_def dyn_asize_def)
next
  case (6 s a n s')
  then show ?case using dyn_free_correct(1,2) [of s a n s'] dyn_free_sorted [of s a n s']
    by (simp add: dyn_range_def dyn_asize_def)
next
  case (7 s a n s')
  then show ?case using dyn_free_correct(3) [of s a n s'] by (simp add: dyn_range_def dyn_asize_def)
next
  case (8 s a n s' b m)
  then show ?case using dyn_free_correct(2,4) [of s a n s'] by (simp add: dyn_range_def dyn_asize_def)
qed

lemma dyn_new_sorted [simp]: "dyn_sorted (ggml_dyn_tallocr_new al m)"
  by (simp add: dyn_sorted_def ggml_dyn_tallocr_new_def ggml_dyn_tallocr_reset_def)

section \<open>Properties\<close>



text \<open>
  C32: an allocation from a reachable allocator fails exactly when all sixteen chunks are in use
  and every free block of every chunk is smaller than the aligned request; in particular a
  request that some existing block can hold never fails.
\<close>

theorem dyn_tallocr_alloc_fails_iff:
  assumes "run_client ggml_dyn_tallocr_alloc ggml_dyn_tallocr_free_bytes ops
      (ggml_dyn_tallocr_new al m, []) = Some (a, live)"
    and "is_pow2 al" and "requests_ok (\<lambda>n. n + al \<le> HALF_MAX) ops"
  shows "ggml_dyn_tallocr_alloc a n = None \<longleftrightarrow>
    length (dt_chunks a) = GGML_VBUFFER_MAX_CHUNKS
    \<and> list_all (\<lambda>ch. list_all (\<lambda>b. fb_size b < aligned_offset 0 n al) (free_blocks ch)) (dt_chunks a)"
  using dyn_alloc_None [OF dyn_run_alignment(1) [OF assms]] dyn_run_alignment(2) [OF assms]
  by (simp add: dyn_asize_def list_all_iff)

theorem dyn_tallocr_alloc_fails_iff_witness:
  "\<exists>a live. run_client ggml_dyn_tallocr_alloc ggml_dyn_tallocr_free_bytes
      [Request 100, Request 5000] (ggml_dyn_tallocr_new 32 4096, []) = Some (a, live)
    \<and> length (dt_chunks a) = 2 \<and> ggml_dyn_tallocr_alloc a 10000 \<noteq> None"
proof -
  let ?ops = "[Request 100, Request 5000]"
  obtain a live where r: "run_client ggml_dyn_tallocr_alloc ggml_dyn_tallocr_free_bytes ?ops
      (ggml_dyn_tallocr_new 32 4096, []) = Some (a, live)"
    and c: "length (dt_chunks a) = 2" by (simp add: dyn_eval)
  show ?thesis
    using dyn_tallocr_alloc_fails_iff [OF r, of 10000] r c by (simp add: is_pow2_def)
qed

text \<open>
  C33: when some block other than a chunk's last one can hold the request, the allocation is
  carved from such a block; the block is a tightest fit within its chunk, and no later chunk has
  a fitting non-last block.
\<close>

theorem dyn_tallocr_best_fit_in_chunk:
  assumes "run_client ggml_dyn_tallocr_alloc ggml_dyn_tallocr_free_bytes ops
      (ggml_dyn_tallocr_new al m, []) = Some (a, live)"
    and "is_pow2 al" and "requests_ok (\<lambda>n. n + al \<le> HALF_MAX) ops"
    and "ggml_dyn_tallocr_alloc a n = Some (a', addr)"
    and "ch \<in> set (dt_chunks a)" "b \<in> set (butlast (free_blocks ch))" "aligned_offset 0 n al \<le> fb_size b"
  shows "\<exists>c i. ba_chunk addr = int c \<and> c < length (dt_chunks a)
    \<and> i < length (butlast (free_blocks (dt_chunks a ! c)))
    \<and> ba_offset addr = fb_offset (free_blocks (dt_chunks a ! c) ! i)
    \<and> (\<forall>b' \<in> set (butlast (free_blocks (dt_chunks a ! c))). aligned_offset 0 n al \<le> fb_size b'
          \<longrightarrow> fb_size (free_blocks (dt_chunks a ! c) ! i) \<le> fb_size b')
    \<and> (\<forall>k. c < k \<and> k < length (dt_chunks a) \<longrightarrow> \<not> inner_fit (aligned_offset 0 n al) (dt_chunks a ! k))"
proof -
  note inv = dyn_run_alignment [OF assms(1-3)]
  obtain a1 bc bb where sel: "dyn_tallocr_select a (dyn_asize a n) = (a1, bc, bb)"
    and addr: "addr = \<lparr>ba_chunk = bc, ba_offset = fb_offset (free_blocks (dt_chunks a1 ! nat bc) ! nat bb)\<rparr>"
    using assms(4) by (rule dyn_alloc_unfold)
  have "\<exists>ch \<in> set (dt_chunks a). inner_fit (dyn_asize a n) ch"
    using assms(5-7) inv(2) by (auto simp: inner_fit_def dyn_asize_def)
  from select_inner [OF inv(1) sel this] show ?thesis
    using addr inv(2) by (intro exI [of _ "nat bc"] exI [of _ "nat bb"])
      (auto simp: inner_best_def dyn_asize_def nth_butlast)
qed

theorem dyn_tallocr_best_fit_in_chunk_witness:
  "\<exists>a live a' addr. run_client ggml_dyn_tallocr_alloc ggml_dyn_tallocr_free_bytes
      [Request 96, Request 32, Request 64, Request 32, Return 3, Return 1] (ggml_dyn_tallocr_new 32 4096, []) = Some (a, live)
    \<and> ggml_dyn_tallocr_alloc a 50 = Some (a', addr) \<and> ba_offset addr = 128 \<and>
    (\<exists>c i. ba_chunk addr = int c \<and> ba_offset addr = fb_offset (free_blocks (dt_chunks a ! c) ! i)
      \<and> {b' \<in> set (butlast (free_blocks (dt_chunks a ! c))). aligned_offset 0 50 32 \<le> fb_size b'}
          \<subseteq> {b'. fb_size (free_blocks (dt_chunks a ! c) ! i) \<le> fb_size b'})"
proof -
  let ?ops = "[Request 96, Request 32, Request 64, Request 32, Return 3, Return 1]"
  obtain a live a' addr where r: "run_client ggml_dyn_tallocr_alloc ggml_dyn_tallocr_free_bytes ?ops
      (ggml_dyn_tallocr_new 32 4096, []) = Some (a, live)"
    and c: "length (dt_chunks a) = 1" "free_blocks (dt_chunks a ! 0)
       = [\<lparr>fb_offset = 0, fb_size = 96\<rparr>, \<lparr>fb_offset = 128, fb_size = 64\<rparr>, \<lparr>fb_offset = 224, fb_size = 3872\<rparr>]"
    and g: "ggml_dyn_tallocr_alloc a 50 = Some (a', addr)" "ba_offset addr = 128" by (simp add: dyn_eval)
  have mem: "dt_chunks a ! 0 \<in> set (dt_chunks a)" using c(1) by simp
  have al: "aligned_offset 0 50 32 = 64" by (simp add: dyn_eval)
  show ?thesis
    using dyn_tallocr_best_fit_in_chunk [OF r _ _ g(1) mem, of "\<lparr>fb_offset = 128, fb_size = 64\<rparr>"] r g c(2) al
    by (simp add: is_pow2_def) blast
qed

text \<open>
  The choice is not the best fit over all chunks, as the comment in the code says: with an
  exact fit of 64 bytes free in the first chunk and 96 bytes free inside the second chunk, a
  request of 64 bytes is carved from the second chunk, because the size to beat is reset for
  each chunk.
\<close>

theorem dyn_tallocr_not_global_best_fit:
  "\<exists>a a' addr. dyn_inv a
    \<and> map free_blocks (dt_chunks a) =
        [[\<lparr>fb_offset = 0, fb_size = 64\<rparr>, \<lparr>fb_offset = 128, fb_size = 128\<rparr>],
         [\<lparr>fb_offset = 0, fb_size = 96\<rparr>, \<lparr>fb_offset = 128, fb_size = 128\<rparr>]]
    \<and> ggml_dyn_tallocr_alloc a 64 = Some (a', addr) \<and> ba_chunk addr = 1 \<and> ba_offset addr = 0"
proof -
  let ?ch = "\<lambda>n. \<lparr>free_blocks = [\<lparr>fb_offset = 0, fb_size = n\<rparr>, \<lparr>fb_offset = 128, fb_size = 128\<rparr>], max_size = 128\<rparr>"
  let ?a = "\<lparr>dt_alignment = 32, dt_max_chunk_size = 256, dt_chunks = [?ch 64, ?ch 96]\<rparr>"
  have "blocks_ok 32 [\<lparr>fb_offset = 0, fb_size = n\<rparr>, \<lparr>fb_offset = 128, fb_size = 128\<rparr>]" if "n \<le> 128" for n
    using that by (auto simp: blocks_ok_def fb_range_def)
  then have inv: "dyn_inv ?a" by (simp add: dyn_inv_def is_pow2_def)
  show ?thesis by (rule exI [of _ ?a]) (simp add: inv, simp add: dyn_eval)
qed

end
