(* ===== verification/GGML_Types.thy ===== *)
theory GGML_Types
  imports GGML_Prelude
begin

text \<open>
  The element types of tensors: the enumeration \<^verbatim>\<open>ggml_type\<close> of \<^verbatim>\<open>ggml/include/ggml.h\<close>, the
  quantized block layouts of \<^verbatim>\<open>ggml/src/ggml-common.h\<close>, the table \<^verbatim>\<open>type_traits\<close> of
  \<^verbatim>\<open>ggml/src/ggml.c\<close> and the accessors on it. The lemmas show that every enumerator has a
  complete table entry, that the reserved slots have none, and that a row of whole blocks has
  the size of its blocks, without wrap-around.
\<close>

section \<open>The type enumeration\<close>

datatype (plugins only: size) ggml_type =
    GGML_TYPE_F32 | GGML_TYPE_F16 | GGML_TYPE_Q4_0 | GGML_TYPE_Q4_1
  | GGML_TYPE_Q5_0 | GGML_TYPE_Q5_1 | GGML_TYPE_Q8_0 | GGML_TYPE_Q8_1
  | GGML_TYPE_Q2_K | GGML_TYPE_Q3_K | GGML_TYPE_Q4_K | GGML_TYPE_Q5_K
  | GGML_TYPE_Q6_K | GGML_TYPE_Q8_K | GGML_TYPE_IQ2_XXS | GGML_TYPE_IQ2_XS
  | GGML_TYPE_IQ3_XXS | GGML_TYPE_IQ1_S | GGML_TYPE_IQ4_NL | GGML_TYPE_IQ3_S
  | GGML_TYPE_IQ2_S | GGML_TYPE_IQ4_XS | GGML_TYPE_I8 | GGML_TYPE_I16
  | GGML_TYPE_I32 | GGML_TYPE_I64 | GGML_TYPE_F64 | GGML_TYPE_IQ1_M
  | GGML_TYPE_BF16 | GGML_TYPE_TQ1_0 | GGML_TYPE_TQ2_0 | GGML_TYPE_MXFP4
  | GGML_TYPE_NVFP4 | GGML_TYPE_Q1_0

fun ggml_type_code :: "ggml_type \<Rightarrow> nat" where
  "ggml_type_code GGML_TYPE_F32 = 0"
| "ggml_type_code GGML_TYPE_F16 = 1"
| "ggml_type_code GGML_TYPE_Q4_0 = 2"
| "ggml_type_code GGML_TYPE_Q4_1 = 3"
| "ggml_type_code GGML_TYPE_Q5_0 = 6"
| "ggml_type_code GGML_TYPE_Q5_1 = 7"
| "ggml_type_code GGML_TYPE_Q8_0 = 8"
| "ggml_type_code GGML_TYPE_Q8_1 = 9"
| "ggml_type_code GGML_TYPE_Q2_K = 10"
| "ggml_type_code GGML_TYPE_Q3_K = 11"
| "ggml_type_code GGML_TYPE_Q4_K = 12"
| "ggml_type_code GGML_TYPE_Q5_K = 13"
| "ggml_type_code GGML_TYPE_Q6_K = 14"
| "ggml_type_code GGML_TYPE_Q8_K = 15"
| "ggml_type_code GGML_TYPE_IQ2_XXS = 16"
| "ggml_type_code GGML_TYPE_IQ2_XS = 17"
| "ggml_type_code GGML_TYPE_IQ3_XXS = 18"
| "ggml_type_code GGML_TYPE_IQ1_S = 19"
| "ggml_type_code GGML_TYPE_IQ4_NL = 20"
| "ggml_type_code GGML_TYPE_IQ3_S = 21"
| "ggml_type_code GGML_TYPE_IQ2_S = 22"
| "ggml_type_code GGML_TYPE_IQ4_XS = 23"
| "ggml_type_code GGML_TYPE_I8 = 24"
| "ggml_type_code GGML_TYPE_I16 = 25"
| "ggml_type_code GGML_TYPE_I32 = 26"
| "ggml_type_code GGML_TYPE_I64 = 27"
| "ggml_type_code GGML_TYPE_F64 = 28"
| "ggml_type_code GGML_TYPE_IQ1_M = 29"
| "ggml_type_code GGML_TYPE_BF16 = 30"
| "ggml_type_code GGML_TYPE_TQ1_0 = 34"
| "ggml_type_code GGML_TYPE_TQ2_0 = 35"
| "ggml_type_code GGML_TYPE_MXFP4 = 39"
| "ggml_type_code GGML_TYPE_NVFP4 = 40"
| "ggml_type_code GGML_TYPE_Q1_0 = 41"

definition GGML_TYPE_COUNT :: nat where "GGML_TYPE_COUNT = 42"

definition ggml_type_all :: "ggml_type list" where
  "ggml_type_all =
    [GGML_TYPE_F32, GGML_TYPE_F16, GGML_TYPE_Q4_0, GGML_TYPE_Q4_1,
    GGML_TYPE_Q5_0, GGML_TYPE_Q5_1, GGML_TYPE_Q8_0, GGML_TYPE_Q8_1,
    GGML_TYPE_Q2_K, GGML_TYPE_Q3_K, GGML_TYPE_Q4_K, GGML_TYPE_Q5_K,
    GGML_TYPE_Q6_K, GGML_TYPE_Q8_K, GGML_TYPE_IQ2_XXS, GGML_TYPE_IQ2_XS,
    GGML_TYPE_IQ3_XXS, GGML_TYPE_IQ1_S, GGML_TYPE_IQ4_NL, GGML_TYPE_IQ3_S,
    GGML_TYPE_IQ2_S, GGML_TYPE_IQ4_XS, GGML_TYPE_I8, GGML_TYPE_I16,
    GGML_TYPE_I32, GGML_TYPE_I64, GGML_TYPE_F64, GGML_TYPE_IQ1_M,
    GGML_TYPE_BF16, GGML_TYPE_TQ1_0, GGML_TYPE_TQ2_0, GGML_TYPE_MXFP4,
    GGML_TYPE_NVFP4, GGML_TYPE_Q1_0]"

text \<open>The enumerator with a given number; the numbers of removed types have none.\<close>

definition ggml_type_of_code :: "nat \<Rightarrow> ggml_type option" where
  "ggml_type_of_code n = find (\<lambda>t. ggml_type_code t = n) ggml_type_all"

text \<open>The order of the enumeration, which \<^verbatim>\<open>type >= 0 && type < GGML_TYPE_COUNT\<close> relies on.\<close>

lemma ggml_type_all_set: "t \<in> set ggml_type_all"
  by (cases t) (simp_all add: ggml_type_all_def)

lemma ggml_type_code_distinct: "distinct (map ggml_type_code ggml_type_all)"
  by (simp add: ggml_type_all_def)

lemma ggml_type_code_inj: "ggml_type_code s = ggml_type_code t \<Longrightarrow> s = t"
  using ggml_type_code_distinct ggml_type_all_set unfolding distinct_map inj_on_def by blast

instantiation ggml_type :: linorder
begin

definition less_eq_ggml_type :: "ggml_type \<Rightarrow> ggml_type \<Rightarrow> bool" where
  "less_eq_ggml_type s t \<longleftrightarrow> ggml_type_code s \<le> ggml_type_code t"

definition less_ggml_type :: "ggml_type \<Rightarrow> ggml_type \<Rightarrow> bool" where
  "less_ggml_type s t \<longleftrightarrow> ggml_type_code s < ggml_type_code t"

instance
  by standard (auto simp: less_eq_ggml_type_def less_ggml_type_def intro: ggml_type_code_inj)

end

instantiation ggml_type :: equal
begin

definition equal_ggml_type :: "ggml_type \<Rightarrow> ggml_type \<Rightarrow> bool" where
  "equal_ggml_type s t \<longleftrightarrow> ggml_type_code s = ggml_type_code t"

instance
  by standard (auto simp: equal_ggml_type_def intro: ggml_type_code_inj)

end

section \<open>Block layouts\<close>

text \<open>
  Block lengths (elements) and the sizes of the block structures, as the sums of their fields;
  a \<^verbatim>\<open>ggml_half\<close> has two bytes and the structures have no padding.
\<close>

abbreviation (input) QK1_0 :: nat where "QK1_0 \<equiv> 128"
abbreviation (input) QK4_0 :: nat where "QK4_0 \<equiv> 32"
abbreviation (input) QK4_1 :: nat where "QK4_1 \<equiv> 32"
abbreviation (input) QK_MXFP4 :: nat where "QK_MXFP4 \<equiv> 32"
abbreviation (input) QK_NVFP4 :: nat where "QK_NVFP4 \<equiv> 64"
abbreviation (input) QK_NVFP4_SUB :: nat where "QK_NVFP4_SUB \<equiv> 16"
abbreviation (input) QK5_0 :: nat where "QK5_0 \<equiv> 32"
abbreviation (input) QK5_1 :: nat where "QK5_1 \<equiv> 32"
abbreviation (input) QK8_0 :: nat where "QK8_0 \<equiv> 32"
abbreviation (input) QK8_1 :: nat where "QK8_1 \<equiv> 32"
abbreviation (input) QK_K :: nat where "QK_K \<equiv> 256"
abbreviation (input) QK4_NL :: nat where "QK4_NL \<equiv> 32"
abbreviation (input) K_SCALE_SIZE :: nat where "K_SCALE_SIZE \<equiv> 12"
abbreviation (input) sizeof_half :: nat where "sizeof_half \<equiv> 2"

definition sizeof_block_q1_0 :: nat where
  "sizeof_block_q1_0 = sizeof_half + (QK1_0 div 8)"

definition sizeof_block_q4_0 :: nat where
  "sizeof_block_q4_0 = sizeof_half + (QK4_0 div 2)"

definition sizeof_block_q4_1 :: nat where
  "sizeof_block_q4_1 = 2 * sizeof_half + (QK4_1 div 2)"

definition sizeof_block_mxfp4 :: nat where
  "sizeof_block_mxfp4 = 1 + (QK_MXFP4 div 2)"

definition sizeof_block_nvfp4 :: nat where
  "sizeof_block_nvfp4 = (QK_NVFP4 div QK_NVFP4_SUB) + (QK_NVFP4 div 2)"

definition sizeof_block_q5_0 :: nat where
  "sizeof_block_q5_0 = sizeof_half + (4) + (QK5_0 div 2)"

definition sizeof_block_q5_1 :: nat where
  "sizeof_block_q5_1 = 2 * sizeof_half + (4) + (QK5_1 div 2)"

definition sizeof_block_q8_0 :: nat where
  "sizeof_block_q8_0 = sizeof_half + (QK8_0)"

definition sizeof_block_q8_1 :: nat where
  "sizeof_block_q8_1 = 2 * sizeof_half + (QK8_1)"

definition sizeof_block_tq1_0 :: nat where
  "sizeof_block_tq1_0 = ((QK_K - 4 * QK_K div 64) div 5) + (QK_K div 64) + sizeof_half"

definition sizeof_block_tq2_0 :: nat where
  "sizeof_block_tq2_0 = (QK_K div 4) + sizeof_half"

definition sizeof_block_q2_K :: nat where
  "sizeof_block_q2_K = (QK_K div 16) + (QK_K div 4) + 2 * sizeof_half"

definition sizeof_block_q3_K :: nat where
  "sizeof_block_q3_K = (QK_K div 8) + (QK_K div 4) + (12) + sizeof_half"

definition sizeof_block_q4_K :: nat where
  "sizeof_block_q4_K = 2 * sizeof_half + (K_SCALE_SIZE) + (QK_K div 2)"

definition sizeof_block_q5_K :: nat where
  "sizeof_block_q5_K = 2 * sizeof_half + (K_SCALE_SIZE) + (QK_K div 8) + (QK_K div 2)"

definition sizeof_block_q6_K :: nat where
  "sizeof_block_q6_K = (QK_K div 2) + (QK_K div 4) + (QK_K div 16) + sizeof_half"

definition sizeof_block_q8_K :: nat where
  "sizeof_block_q8_K = 4 + (QK_K) + (QK_K div 16) * 2"

definition sizeof_block_iq2_xxs :: nat where
  "sizeof_block_iq2_xxs = sizeof_half + (QK_K div 8) * 2"

definition sizeof_block_iq2_xs :: nat where
  "sizeof_block_iq2_xs = sizeof_half + (QK_K div 8) * 2 + (QK_K div 32)"

definition sizeof_block_iq2_s :: nat where
  "sizeof_block_iq2_s = sizeof_half + (QK_K div 4) + (QK_K div 32) + (QK_K div 32)"

definition sizeof_block_iq3_xxs :: nat where
  "sizeof_block_iq3_xxs = sizeof_half + (3*QK_K div 8)"

definition sizeof_block_iq3_s :: nat where
  "sizeof_block_iq3_s = sizeof_half + (QK_K div 4) + (QK_K div 32) + (QK_K div 8) + (QK_K div 64)"

definition sizeof_block_iq1_s :: nat where
  "sizeof_block_iq1_s = sizeof_half + (QK_K div 8) + (QK_K div 32) * 2"

definition sizeof_block_iq1_m :: nat where
  "sizeof_block_iq1_m = (QK_K div 8) + (QK_K div 16) + (QK_K div 32)"

definition sizeof_block_iq4_nl :: nat where
  "sizeof_block_iq4_nl = sizeof_half + (QK4_NL div 2)"

definition sizeof_block_iq4_xs :: nat where
  "sizeof_block_iq4_xs = sizeof_half + 2 + (QK_K div 64) + (QK_K div 2)"

lemmas sizeof_block_defs =
  sizeof_block_q1_0_def sizeof_block_q4_0_def sizeof_block_q4_1_def sizeof_block_mxfp4_def
  sizeof_block_nvfp4_def sizeof_block_q5_0_def sizeof_block_q5_1_def sizeof_block_q8_0_def
  sizeof_block_q8_1_def sizeof_block_tq1_0_def sizeof_block_tq2_0_def sizeof_block_q2_K_def
  sizeof_block_q3_K_def sizeof_block_q4_K_def sizeof_block_q5_K_def sizeof_block_q6_K_def
  sizeof_block_q8_K_def sizeof_block_iq2_xxs_def sizeof_block_iq2_xs_def sizeof_block_iq2_s_def
  sizeof_block_iq3_xxs_def sizeof_block_iq3_s_def sizeof_block_iq1_s_def sizeof_block_iq1_m_def
  sizeof_block_iq4_nl_def sizeof_block_iq4_xs_def

section \<open>Type traits\<close>

text \<open>The conversion functions are kept by name.\<close>

record ggml_type_traits =
  type_name :: string
  blck_size :: nat
  blck_size_interleave :: nat
  type_size :: size_t
  is_quantized :: bool
  to_float :: "string option"
  from_float_ref :: "string option"

fun type_traits :: "ggml_type \<Rightarrow> ggml_type_traits" where
  "type_traits GGML_TYPE_I8 =
    \<lparr>type_name = ''i8'', blck_size = 1, blck_size_interleave = 0,
     type_size = 1, is_quantized = False, to_float = None, from_float_ref = None\<rparr>"
| "type_traits GGML_TYPE_I16 =
    \<lparr>type_name = ''i16'', blck_size = 1, blck_size_interleave = 0,
     type_size = 2, is_quantized = False, to_float = None, from_float_ref = None\<rparr>"
| "type_traits GGML_TYPE_I32 =
    \<lparr>type_name = ''i32'', blck_size = 1, blck_size_interleave = 0,
     type_size = 4, is_quantized = False, to_float = None, from_float_ref = None\<rparr>"
| "type_traits GGML_TYPE_I64 =
    \<lparr>type_name = ''i64'', blck_size = 1, blck_size_interleave = 0,
     type_size = 8, is_quantized = False, to_float = None, from_float_ref = None\<rparr>"
| "type_traits GGML_TYPE_F64 =
    \<lparr>type_name = ''f64'', blck_size = 1, blck_size_interleave = 0,
     type_size = 8, is_quantized = False, to_float = None, from_float_ref = None\<rparr>"
| "type_traits GGML_TYPE_F32 =
    \<lparr>type_name = ''f32'', blck_size = 1, blck_size_interleave = 0,
     type_size = 4, is_quantized = False, to_float = None, from_float_ref = None\<rparr>"
| "type_traits GGML_TYPE_F16 =
    \<lparr>type_name = ''f16'', blck_size = 1, blck_size_interleave = 0,
     type_size = sizeof_half, is_quantized = False, to_float = Some ''ggml_fp16_to_fp32_row'', from_float_ref = Some ''ggml_fp32_to_fp16_row''\<rparr>"
| "type_traits GGML_TYPE_Q1_0 =
    \<lparr>type_name = ''q1_0'', blck_size = QK1_0, blck_size_interleave = 0,
     type_size = sizeof_block_q1_0, is_quantized = True, to_float = Some ''dequantize_row_q1_0'', from_float_ref = Some ''quantize_row_q1_0_ref''\<rparr>"
| "type_traits GGML_TYPE_Q4_0 =
    \<lparr>type_name = ''q4_0'', blck_size = QK4_0, blck_size_interleave = 0,
     type_size = sizeof_block_q4_0, is_quantized = True, to_float = Some ''dequantize_row_q4_0'', from_float_ref = Some ''quantize_row_q4_0_ref''\<rparr>"
| "type_traits GGML_TYPE_Q4_1 =
    \<lparr>type_name = ''q4_1'', blck_size = QK4_1, blck_size_interleave = 0,
     type_size = sizeof_block_q4_1, is_quantized = True, to_float = Some ''dequantize_row_q4_1'', from_float_ref = Some ''quantize_row_q4_1_ref''\<rparr>"
| "type_traits GGML_TYPE_Q5_0 =
    \<lparr>type_name = ''q5_0'', blck_size = QK5_0, blck_size_interleave = 0,
     type_size = sizeof_block_q5_0, is_quantized = True, to_float = Some ''dequantize_row_q5_0'', from_float_ref = Some ''quantize_row_q5_0_ref''\<rparr>"
| "type_traits GGML_TYPE_Q5_1 =
    \<lparr>type_name = ''q5_1'', blck_size = QK5_1, blck_size_interleave = 0,
     type_size = sizeof_block_q5_1, is_quantized = True, to_float = Some ''dequantize_row_q5_1'', from_float_ref = Some ''quantize_row_q5_1_ref''\<rparr>"
| "type_traits GGML_TYPE_Q8_0 =
    \<lparr>type_name = ''q8_0'', blck_size = QK8_0, blck_size_interleave = 0,
     type_size = sizeof_block_q8_0, is_quantized = True, to_float = Some ''dequantize_row_q8_0'', from_float_ref = Some ''quantize_row_q8_0_ref''\<rparr>"
| "type_traits GGML_TYPE_Q8_1 =
    \<lparr>type_name = ''q8_1'', blck_size = QK8_1, blck_size_interleave = 0,
     type_size = sizeof_block_q8_1, is_quantized = True, to_float = None, from_float_ref = Some ''quantize_row_q8_1_ref''\<rparr>"
| "type_traits GGML_TYPE_MXFP4 =
    \<lparr>type_name = ''mxfp4'', blck_size = QK_MXFP4, blck_size_interleave = 0,
     type_size = sizeof_block_mxfp4, is_quantized = True, to_float = Some ''dequantize_row_mxfp4'', from_float_ref = Some ''quantize_row_mxfp4_ref''\<rparr>"
| "type_traits GGML_TYPE_NVFP4 =
    \<lparr>type_name = ''nvfp4'', blck_size = QK_NVFP4, blck_size_interleave = 0,
     type_size = sizeof_block_nvfp4, is_quantized = True, to_float = Some ''dequantize_row_nvfp4'', from_float_ref = Some ''quantize_row_nvfp4_ref''\<rparr>"
| "type_traits GGML_TYPE_Q2_K =
    \<lparr>type_name = ''q2_K'', blck_size = QK_K, blck_size_interleave = 0,
     type_size = sizeof_block_q2_K, is_quantized = True, to_float = Some ''dequantize_row_q2_K'', from_float_ref = Some ''quantize_row_q2_K_ref''\<rparr>"
| "type_traits GGML_TYPE_Q3_K =
    \<lparr>type_name = ''q3_K'', blck_size = QK_K, blck_size_interleave = 0,
     type_size = sizeof_block_q3_K, is_quantized = True, to_float = Some ''dequantize_row_q3_K'', from_float_ref = Some ''quantize_row_q3_K_ref''\<rparr>"
| "type_traits GGML_TYPE_Q4_K =
    \<lparr>type_name = ''q4_K'', blck_size = QK_K, blck_size_interleave = 0,
     type_size = sizeof_block_q4_K, is_quantized = True, to_float = Some ''dequantize_row_q4_K'', from_float_ref = Some ''quantize_row_q4_K_ref''\<rparr>"
| "type_traits GGML_TYPE_Q5_K =
    \<lparr>type_name = ''q5_K'', blck_size = QK_K, blck_size_interleave = 0,
     type_size = sizeof_block_q5_K, is_quantized = True, to_float = Some ''dequantize_row_q5_K'', from_float_ref = Some ''quantize_row_q5_K_ref''\<rparr>"
| "type_traits GGML_TYPE_Q6_K =
    \<lparr>type_name = ''q6_K'', blck_size = QK_K, blck_size_interleave = 0,
     type_size = sizeof_block_q6_K, is_quantized = True, to_float = Some ''dequantize_row_q6_K'', from_float_ref = Some ''quantize_row_q6_K_ref''\<rparr>"
| "type_traits GGML_TYPE_IQ2_XXS =
    \<lparr>type_name = ''iq2_xxs'', blck_size = QK_K, blck_size_interleave = 0,
     type_size = sizeof_block_iq2_xxs, is_quantized = True, to_float = Some ''dequantize_row_iq2_xxs'', from_float_ref = None\<rparr>"
| "type_traits GGML_TYPE_IQ2_XS =
    \<lparr>type_name = ''iq2_xs'', blck_size = QK_K, blck_size_interleave = 0,
     type_size = sizeof_block_iq2_xs, is_quantized = True, to_float = Some ''dequantize_row_iq2_xs'', from_float_ref = None\<rparr>"
| "type_traits GGML_TYPE_IQ3_XXS =
    \<lparr>type_name = ''iq3_xxs'', blck_size = QK_K, blck_size_interleave = 0,
     type_size = sizeof_block_iq3_xxs, is_quantized = True, to_float = Some ''dequantize_row_iq3_xxs'', from_float_ref = Some ''quantize_row_iq3_xxs_ref''\<rparr>"
| "type_traits GGML_TYPE_IQ3_S =
    \<lparr>type_name = ''iq3_s'', blck_size = QK_K, blck_size_interleave = 0,
     type_size = sizeof_block_iq3_s, is_quantized = True, to_float = Some ''dequantize_row_iq3_s'', from_float_ref = Some ''quantize_row_iq3_s_ref''\<rparr>"
| "type_traits GGML_TYPE_IQ2_S =
    \<lparr>type_name = ''iq2_s'', blck_size = QK_K, blck_size_interleave = 0,
     type_size = sizeof_block_iq2_s, is_quantized = True, to_float = Some ''dequantize_row_iq2_s'', from_float_ref = Some ''quantize_row_iq2_s_ref''\<rparr>"
| "type_traits GGML_TYPE_IQ1_S =
    \<lparr>type_name = ''iq1_s'', blck_size = QK_K, blck_size_interleave = 0,
     type_size = sizeof_block_iq1_s, is_quantized = True, to_float = Some ''dequantize_row_iq1_s'', from_float_ref = None\<rparr>"
| "type_traits GGML_TYPE_IQ1_M =
    \<lparr>type_name = ''iq1_m'', blck_size = QK_K, blck_size_interleave = 0,
     type_size = sizeof_block_iq1_m, is_quantized = True, to_float = Some ''dequantize_row_iq1_m'', from_float_ref = None\<rparr>"
| "type_traits GGML_TYPE_IQ4_NL =
    \<lparr>type_name = ''iq4_nl'', blck_size = QK4_NL, blck_size_interleave = 0,
     type_size = sizeof_block_iq4_nl, is_quantized = True, to_float = Some ''dequantize_row_iq4_nl'', from_float_ref = Some ''quantize_row_iq4_nl_ref''\<rparr>"
| "type_traits GGML_TYPE_IQ4_XS =
    \<lparr>type_name = ''iq4_xs'', blck_size = QK_K, blck_size_interleave = 0,
     type_size = sizeof_block_iq4_xs, is_quantized = True, to_float = Some ''dequantize_row_iq4_xs'', from_float_ref = Some ''quantize_row_iq4_xs_ref''\<rparr>"
| "type_traits GGML_TYPE_Q8_K =
    \<lparr>type_name = ''q8_K'', blck_size = QK_K, blck_size_interleave = 0,
     type_size = sizeof_block_q8_K, is_quantized = True, to_float = None, from_float_ref = None\<rparr>"
| "type_traits GGML_TYPE_BF16 =
    \<lparr>type_name = ''bf16'', blck_size = 1, blck_size_interleave = 0,
     type_size = 2, is_quantized = False, to_float = Some ''ggml_bf16_to_fp32_row'', from_float_ref = Some ''ggml_fp32_to_bf16_row_ref''\<rparr>"
| "type_traits GGML_TYPE_TQ1_0 =
    \<lparr>type_name = ''tq1_0'', blck_size = QK_K, blck_size_interleave = 0,
     type_size = sizeof_block_tq1_0, is_quantized = True, to_float = Some ''dequantize_row_tq1_0'', from_float_ref = Some ''quantize_row_tq1_0_ref''\<rparr>"
| "type_traits GGML_TYPE_TQ2_0 =
    \<lparr>type_name = ''tq2_0'', blck_size = QK_K, blck_size_interleave = 0,
     type_size = sizeof_block_tq2_0, is_quantized = True, to_float = Some ''dequantize_row_tq2_0'', from_float_ref = Some ''quantize_row_tq2_0_ref''\<rparr>"

text \<open>The slots of removed types: a name, no block, no size.\<close>

definition removed_type :: "string \<Rightarrow> ggml_type_traits" where
  "removed_type nm = \<lparr>type_name = nm, blck_size = 0, blck_size_interleave = 0, type_size = 0,
     is_quantized = False, to_float = None, from_float_ref = None\<rparr>"

definition removed_type_name :: "nat \<Rightarrow> string option" where
  "removed_type_name n =
    map_of [(4, ''DEPRECATED''),
      (5, ''DEPRECATED''),
      (31, ''TYPE_Q4_0_4_4 REMOVED, use Q4_0 with runtime repacking''),
      (32, ''TYPE_Q4_0_4_8 REMOVED, use Q4_0 with runtime repacking''),
      (33, ''TYPE_Q4_0_8_8 REMOVED, use Q4_0 with runtime repacking''),
      (36, ''TYPE_IQ4_NL_4_4 REMOVED, use IQ4_NL with runtime repacking''),
      (37, ''TYPE_IQ4_NL_4_8 REMOVED, use IQ4_NL with runtime repacking''),
      (38, ''TYPE_IQ4_NL_8_8 REMOVED, use IQ4_NL with runtime repacking'')] n"

text \<open>\<^verbatim>\<open>type_traits[n]\<close> for the number of a type.\<close>

definition type_traits_slot :: "nat \<Rightarrow> ggml_type_traits option" where
  "type_traits_slot n = (case ggml_type_of_code n of
       Some t \<Rightarrow> Some (type_traits t)
     | None \<Rightarrow> map_option removed_type (removed_type_name n))"

definition ggml_get_type_traits :: "ggml_type \<Rightarrow> ggml_type_traits" where
  "ggml_get_type_traits type = type_traits type"

definition ggml_blck_size :: "ggml_type \<Rightarrow> int64_t" where
  "ggml_blck_size type = int (blck_size (type_traits type))"

definition ggml_type_size :: "ggml_type \<Rightarrow> size_t" where
  "ggml_type_size type = type_size (type_traits type)"

definition ggml_row_size :: "ggml_type \<Rightarrow> int64_t \<Rightarrow> size_t" where
  "ggml_row_size type ne =
     sz_mul (ggml_type_size type) (sz_of_int ne) div sz_of_int (ggml_blck_size type)"

definition ggml_type_name :: "ggml_type \<Rightarrow> string" where
  "ggml_type_name type = type_name (type_traits type)"

definition ggml_is_quantized :: "ggml_type \<Rightarrow> bool" where
  "ggml_is_quantized type = is_quantized (type_traits type)"

section \<open>Model file types\<close>

datatype (plugins only: size) ggml_ftype =
    GGML_FTYPE_UNKNOWN | GGML_FTYPE_ALL_F32 | GGML_FTYPE_MOSTLY_F16 | GGML_FTYPE_MOSTLY_Q4_0
  | GGML_FTYPE_MOSTLY_Q4_1 | GGML_FTYPE_MOSTLY_Q4_1_SOME_F16 | GGML_FTYPE_MOSTLY_Q8_0 | GGML_FTYPE_MOSTLY_Q5_0
  | GGML_FTYPE_MOSTLY_Q5_1 | GGML_FTYPE_MOSTLY_Q2_K | GGML_FTYPE_MOSTLY_Q3_K | GGML_FTYPE_MOSTLY_Q4_K
  | GGML_FTYPE_MOSTLY_Q5_K | GGML_FTYPE_MOSTLY_Q6_K | GGML_FTYPE_MOSTLY_IQ2_XXS | GGML_FTYPE_MOSTLY_IQ2_XS
  | GGML_FTYPE_MOSTLY_IQ3_XXS | GGML_FTYPE_MOSTLY_IQ1_S | GGML_FTYPE_MOSTLY_IQ4_NL | GGML_FTYPE_MOSTLY_IQ3_S
  | GGML_FTYPE_MOSTLY_IQ2_S | GGML_FTYPE_MOSTLY_IQ4_XS | GGML_FTYPE_MOSTLY_IQ1_M | GGML_FTYPE_MOSTLY_BF16
  | GGML_FTYPE_MOSTLY_MXFP4 | GGML_FTYPE_MOSTLY_NVFP4 | GGML_FTYPE_MOSTLY_Q1_0

fun ggml_ftype_code :: "ggml_ftype \<Rightarrow> int" where
  "ggml_ftype_code GGML_FTYPE_UNKNOWN = (-1)"
| "ggml_ftype_code GGML_FTYPE_ALL_F32 = 0"
| "ggml_ftype_code GGML_FTYPE_MOSTLY_F16 = 1"
| "ggml_ftype_code GGML_FTYPE_MOSTLY_Q4_0 = 2"
| "ggml_ftype_code GGML_FTYPE_MOSTLY_Q4_1 = 3"
| "ggml_ftype_code GGML_FTYPE_MOSTLY_Q4_1_SOME_F16 = 4"
| "ggml_ftype_code GGML_FTYPE_MOSTLY_Q8_0 = 7"
| "ggml_ftype_code GGML_FTYPE_MOSTLY_Q5_0 = 8"
| "ggml_ftype_code GGML_FTYPE_MOSTLY_Q5_1 = 9"
| "ggml_ftype_code GGML_FTYPE_MOSTLY_Q2_K = 10"
| "ggml_ftype_code GGML_FTYPE_MOSTLY_Q3_K = 11"
| "ggml_ftype_code GGML_FTYPE_MOSTLY_Q4_K = 12"
| "ggml_ftype_code GGML_FTYPE_MOSTLY_Q5_K = 13"
| "ggml_ftype_code GGML_FTYPE_MOSTLY_Q6_K = 14"
| "ggml_ftype_code GGML_FTYPE_MOSTLY_IQ2_XXS = 15"
| "ggml_ftype_code GGML_FTYPE_MOSTLY_IQ2_XS = 16"
| "ggml_ftype_code GGML_FTYPE_MOSTLY_IQ3_XXS = 17"
| "ggml_ftype_code GGML_FTYPE_MOSTLY_IQ1_S = 18"
| "ggml_ftype_code GGML_FTYPE_MOSTLY_IQ4_NL = 19"
| "ggml_ftype_code GGML_FTYPE_MOSTLY_IQ3_S = 20"
| "ggml_ftype_code GGML_FTYPE_MOSTLY_IQ2_S = 21"
| "ggml_ftype_code GGML_FTYPE_MOSTLY_IQ4_XS = 22"
| "ggml_ftype_code GGML_FTYPE_MOSTLY_IQ1_M = 23"
| "ggml_ftype_code GGML_FTYPE_MOSTLY_BF16 = 24"
| "ggml_ftype_code GGML_FTYPE_MOSTLY_MXFP4 = 25"
| "ggml_ftype_code GGML_FTYPE_MOSTLY_NVFP4 = 26"
| "ggml_ftype_code GGML_FTYPE_MOSTLY_Q1_0 = 27"

text \<open>\<open>None\<close> is the failure of \<^verbatim>\<open>GGML_ASSERT(wtype != GGML_TYPE_COUNT)\<close>.\<close>

fun ggml_ftype_to_ggml_type :: "ggml_ftype \<Rightarrow> ggml_type option" where
  "ggml_ftype_to_ggml_type GGML_FTYPE_ALL_F32 = Some GGML_TYPE_F32"
| "ggml_ftype_to_ggml_type GGML_FTYPE_MOSTLY_F16 = Some GGML_TYPE_F16"
| "ggml_ftype_to_ggml_type GGML_FTYPE_MOSTLY_BF16 = Some GGML_TYPE_BF16"
| "ggml_ftype_to_ggml_type GGML_FTYPE_MOSTLY_Q4_0 = Some GGML_TYPE_Q4_0"
| "ggml_ftype_to_ggml_type GGML_FTYPE_MOSTLY_Q4_1 = Some GGML_TYPE_Q4_1"
| "ggml_ftype_to_ggml_type GGML_FTYPE_MOSTLY_Q1_0 = Some GGML_TYPE_Q1_0"
| "ggml_ftype_to_ggml_type GGML_FTYPE_MOSTLY_Q5_0 = Some GGML_TYPE_Q5_0"
| "ggml_ftype_to_ggml_type GGML_FTYPE_MOSTLY_Q5_1 = Some GGML_TYPE_Q5_1"
| "ggml_ftype_to_ggml_type GGML_FTYPE_MOSTLY_Q8_0 = Some GGML_TYPE_Q8_0"
| "ggml_ftype_to_ggml_type GGML_FTYPE_MOSTLY_MXFP4 = Some GGML_TYPE_MXFP4"
| "ggml_ftype_to_ggml_type GGML_FTYPE_MOSTLY_NVFP4 = Some GGML_TYPE_NVFP4"
| "ggml_ftype_to_ggml_type GGML_FTYPE_MOSTLY_Q2_K = Some GGML_TYPE_Q2_K"
| "ggml_ftype_to_ggml_type GGML_FTYPE_MOSTLY_Q3_K = Some GGML_TYPE_Q3_K"
| "ggml_ftype_to_ggml_type GGML_FTYPE_MOSTLY_Q4_K = Some GGML_TYPE_Q4_K"
| "ggml_ftype_to_ggml_type GGML_FTYPE_MOSTLY_Q5_K = Some GGML_TYPE_Q5_K"
| "ggml_ftype_to_ggml_type GGML_FTYPE_MOSTLY_Q6_K = Some GGML_TYPE_Q6_K"
| "ggml_ftype_to_ggml_type GGML_FTYPE_MOSTLY_IQ2_XXS = Some GGML_TYPE_IQ2_XXS"
| "ggml_ftype_to_ggml_type GGML_FTYPE_MOSTLY_IQ2_XS = Some GGML_TYPE_IQ2_XS"
| "ggml_ftype_to_ggml_type GGML_FTYPE_MOSTLY_IQ3_XXS = Some GGML_TYPE_IQ3_XXS"
| "ggml_ftype_to_ggml_type GGML_FTYPE_MOSTLY_IQ1_S = Some GGML_TYPE_IQ1_S"
| "ggml_ftype_to_ggml_type GGML_FTYPE_MOSTLY_IQ1_M = Some GGML_TYPE_IQ1_M"
| "ggml_ftype_to_ggml_type GGML_FTYPE_MOSTLY_IQ4_NL = Some GGML_TYPE_IQ4_NL"
| "ggml_ftype_to_ggml_type GGML_FTYPE_MOSTLY_IQ4_XS = Some GGML_TYPE_IQ4_XS"
| "ggml_ftype_to_ggml_type GGML_FTYPE_MOSTLY_IQ3_S = Some GGML_TYPE_IQ3_S"
| "ggml_ftype_to_ggml_type GGML_FTYPE_MOSTLY_IQ2_S = Some GGML_TYPE_IQ2_S"
| "ggml_ftype_to_ggml_type GGML_FTYPE_UNKNOWN = None"
| "ggml_ftype_to_ggml_type GGML_FTYPE_MOSTLY_Q4_1_SOME_F16 = None"

section \<open>Facts\<close>

lemma ggml_type_of_code_code [simp]: "ggml_type_of_code (ggml_type_code t) = Some t"
  by (cases t) (simp_all add: ggml_type_of_code_def ggml_type_all_def)

lemma ggml_type_code_of_code: "ggml_type_of_code n = Some t \<Longrightarrow> ggml_type_code t = n"
  by (auto simp: ggml_type_of_code_def find_Some_iff)

lemma traits_pos: "0 < blck_size (type_traits t)" "0 < type_size (type_traits t)"
  by (cases t; simp add: sizeof_block_defs)+

lemma traits_le: "blck_size (type_traits t) \<le> 256" "type_size (type_traits t) \<le> 292"
  by (cases t; simp add: sizeof_block_defs)+

lemma ggml_blck_size_bounds: "0 < ggml_blck_size t" "ggml_blck_size t \<le> 256"
  and ggml_type_size_bounds: "0 < ggml_type_size t" "ggml_type_size t \<le> 292"
  using traits_pos [of t] traits_le [of t] by (simp_all add: ggml_blck_size_def ggml_type_size_def)

lemma ggml_row_size_blocks:
  assumes "0 \<le> k" "int (ggml_type_size t) * (k * ggml_blck_size t) < 2 ^ 64"
  shows "ggml_row_size t (k * ggml_blck_size t) = ggml_type_size t * nat k"
proof -
  let ?b = "blck_size (type_traits t)"
  have b: "0 < ?b" "?b \<le> 256" by (rule traits_pos traits_le)+
  obtain n where k: "k = int n" using assms(1) nonneg_int_cases by blast
  have r: "ggml_type_size t * (n * ?b) < 2 ^ 64"
    using assms(2) unfolding ggml_blck_size_def k by (metis of_nat_less_iff of_nat_mult of_nat_numeral of_nat_power)
  have "n * ?b \<le> ggml_type_size t * (n * ?b)" using ggml_type_size_bounds(1) [of t] by simp
  then have "n * ?b < 2 ^ 64" using r by linarith
  then have "sz_of_int (k * ggml_blck_size t) = n * ?b"
    unfolding ggml_blck_size_def k by (simp add: sz_of_int_def flip: of_nat_mult)
  moreover have "sz_of_int (ggml_blck_size t) = ?b" using b(2) by (simp add: ggml_blck_size_def sz_of_int_id)
  moreover have "sz_mul (ggml_type_size t) (n * ?b) = ggml_type_size t * n * ?b"
    using r by (simp add: sz_mul_id mult.assoc)
  ultimately show ?thesis using b(1) by (simp add: ggml_row_size_def k)
qed

section \<open>Properties\<close>

text \<open>
  Every slot below \<^verbatim>\<open>GGML_TYPE_COUNT\<close> of the traits table is either the entry of an
  enumerator, with a positive block length and block size, or one of the reserved slots of a
  removed type, with length and size zero; slots outside have no entry. A type that is not
  quantized has blocks of one element, a quantized one has more.
\<close>

theorem type_traits_complete:
  "(type_traits_slot n \<noteq> None \<longleftrightarrow> n < GGML_TYPE_COUNT)
   \<and> (case ggml_type_of_code n of
        Some t \<Rightarrow> type_traits_slot n = Some (ggml_get_type_traits t) \<and> ggml_type_code t = n
          \<and> 0 < ggml_blck_size t \<and> 0 < ggml_type_size t \<and> (ggml_is_quantized t \<longleftrightarrow> 1 < ggml_blck_size t)
      | None \<Rightarrow> n < GGML_TYPE_COUNT \<longleftrightarrow> n \<in> {4, 5, 31, 32, 33, 36, 37, 38})"
proof (cases "ggml_type_of_code n")
  case None
  then have "n \<notin> set (map ggml_type_code ggml_type_all)"
    by (auto simp: ggml_type_of_code_def find_None_iff)
  then have "n \<in> {..<42} \<longleftrightarrow> n \<in> {4, 5, 31, 32, 33, 36, 37, 38}"
    by (simp add: ggml_type_all_def lessThan_nat_numeral del: lessThan_iff) blast
  then have "n < 42 \<longleftrightarrow> n \<in> {4, 5, 31, 32, 33, 36, 37, 38}" by simp
  with None show ?thesis
    by (auto simp: type_traits_slot_def removed_type_name_def GGML_TYPE_COUNT_def split: if_splits)
next
  case (Some t)
  have q: "is_quantized (type_traits t) \<longleftrightarrow> 1 < blck_size (type_traits t)" by (cases t) simp_all
  have "ggml_type_code t < 42" by (cases t) simp_all
  then show ?thesis
    using Some ggml_type_code_of_code [OF Some] traits_pos [of t] q
    by (auto simp: type_traits_slot_def ggml_get_type_traits_def ggml_blck_size_def ggml_type_size_def
        ggml_is_quantized_def GGML_TYPE_COUNT_def)
qed

text \<open>
  The size of a row of \<open>k\<close> whole blocks is \<open>k\<close> times the block size; nothing wraps as long
  as the product of the type size and the number of elements, which the code computes first, is
  below \<open>2 ^ 64\<close>.
\<close>

theorem ggml_row_size_whole_blocks:
  assumes "0 \<le> k" "int (ggml_type_size t) * (k * ggml_blck_size t) < 2 ^ 64"
  shows "ggml_row_size t (k * ggml_blck_size t) = ggml_type_size t * nat k"
  using assms by (rule ggml_row_size_blocks)

theorem ggml_row_size_whole_blocks_witness:
  "ggml_row_size GGML_TYPE_Q4_K (16 * ggml_blck_size GGML_TYPE_Q4_K) = 144 * 16"
  using ggml_row_size_whole_blocks [of 16 GGML_TYPE_Q4_K]
  by (simp add: ggml_blck_size_def ggml_type_size_def sizeof_block_defs)

end
