(* ===== verification/GGML_Op.thy ===== *)
theory GGML_Op
  imports GGML_Prelude
begin

text \<open>
  The operation enumerations of \<^verbatim>\<open>ggml/include/ggml.h\<close> and their name tables in
  \<^verbatim>\<open>ggml/src/ggml.c\<close>. Each enumeration is a \<open>datatype\<close> with the source's enumerators in order;
  the number of an enumerator is its position. The lemmas show that the numbers and the names
  identify the operation.
\<close>

section \<open>Tensor operations\<close>

datatype (plugins only: size) ggml_op =
    GGML_OP_NONE | GGML_OP_DUP | GGML_OP_ADD | GGML_OP_ADD_ID
  | GGML_OP_ADD1 | GGML_OP_ACC | GGML_OP_SUB | GGML_OP_MUL
  | GGML_OP_DIV | GGML_OP_SQR | GGML_OP_SQRT | GGML_OP_LOG
  | GGML_OP_SIN | GGML_OP_COS | GGML_OP_SUM | GGML_OP_SUM_ROWS
  | GGML_OP_CUMSUM | GGML_OP_MEAN | GGML_OP_ARGMAX | GGML_OP_COUNT_EQUAL
  | GGML_OP_REPEAT | GGML_OP_REPEAT_BACK | GGML_OP_CONCAT | GGML_OP_SILU_BACK
  | GGML_OP_NORM | GGML_OP_RMS_NORM | GGML_OP_RMS_NORM_BACK | GGML_OP_GROUP_NORM
  | GGML_OP_L2_NORM | GGML_OP_MUL_MAT | GGML_OP_MUL_MAT_ID | GGML_OP_OUT_PROD
  | GGML_OP_SCALE | GGML_OP_SET | GGML_OP_CPY | GGML_OP_CONT
  | GGML_OP_RESHAPE | GGML_OP_VIEW | GGML_OP_PERMUTE | GGML_OP_TRANSPOSE
  | GGML_OP_GET_ROWS | GGML_OP_GET_ROWS_BACK | GGML_OP_SET_ROWS | GGML_OP_DIAG
  | GGML_OP_DIAG_MASK_INF | GGML_OP_DIAG_MASK_ZERO | GGML_OP_SOFT_MAX | GGML_OP_SOFT_MAX_BACK
  | GGML_OP_ROPE | GGML_OP_ROPE_BACK | GGML_OP_CLAMP | GGML_OP_CONV_TRANSPOSE_1D
  | GGML_OP_IM2COL | GGML_OP_IM2COL_BACK | GGML_OP_IM2COL_3D | GGML_OP_CONV_2D
  | GGML_OP_CONV_3D | GGML_OP_CONV_2D_DW | GGML_OP_CONV_TRANSPOSE_2D | GGML_OP_POOL_1D
  | GGML_OP_POOL_2D | GGML_OP_POOL_2D_BACK | GGML_OP_UPSCALE | GGML_OP_PAD
  | GGML_OP_PAD_REFLECT_1D | GGML_OP_ROLL | GGML_OP_ARANGE | GGML_OP_TIMESTEP_EMBEDDING
  | GGML_OP_ARGSORT | GGML_OP_TOP_K | GGML_OP_LEAKY_RELU | GGML_OP_TRI
  | GGML_OP_FILL | GGML_OP_FLASH_ATTN_EXT | GGML_OP_FLASH_ATTN_BACK | GGML_OP_SSM_CONV
  | GGML_OP_SSM_SCAN | GGML_OP_WIN_PART | GGML_OP_WIN_UNPART | GGML_OP_GET_REL_POS
  | GGML_OP_ADD_REL_POS | GGML_OP_RWKV_WKV6 | GGML_OP_GATED_LINEAR_ATTN | GGML_OP_RWKV_WKV7
  | GGML_OP_SOLVE_TRI | GGML_OP_GATED_DELTA_NET | GGML_OP_UNARY | GGML_OP_MAP_CUSTOM1
  | GGML_OP_MAP_CUSTOM2 | GGML_OP_MAP_CUSTOM3 | GGML_OP_CUSTOM | GGML_OP_CROSS_ENTROPY_LOSS
  | GGML_OP_CROSS_ENTROPY_LOSS_BACK | GGML_OP_OPT_STEP_ADAMW | GGML_OP_OPT_STEP_SGD | GGML_OP_GLU

fun ggml_op_code :: "ggml_op \<Rightarrow> nat" where
  "ggml_op_code GGML_OP_NONE = 0"
| "ggml_op_code GGML_OP_DUP = 1"
| "ggml_op_code GGML_OP_ADD = 2"
| "ggml_op_code GGML_OP_ADD_ID = 3"
| "ggml_op_code GGML_OP_ADD1 = 4"
| "ggml_op_code GGML_OP_ACC = 5"
| "ggml_op_code GGML_OP_SUB = 6"
| "ggml_op_code GGML_OP_MUL = 7"
| "ggml_op_code GGML_OP_DIV = 8"
| "ggml_op_code GGML_OP_SQR = 9"
| "ggml_op_code GGML_OP_SQRT = 10"
| "ggml_op_code GGML_OP_LOG = 11"
| "ggml_op_code GGML_OP_SIN = 12"
| "ggml_op_code GGML_OP_COS = 13"
| "ggml_op_code GGML_OP_SUM = 14"
| "ggml_op_code GGML_OP_SUM_ROWS = 15"
| "ggml_op_code GGML_OP_CUMSUM = 16"
| "ggml_op_code GGML_OP_MEAN = 17"
| "ggml_op_code GGML_OP_ARGMAX = 18"
| "ggml_op_code GGML_OP_COUNT_EQUAL = 19"
| "ggml_op_code GGML_OP_REPEAT = 20"
| "ggml_op_code GGML_OP_REPEAT_BACK = 21"
| "ggml_op_code GGML_OP_CONCAT = 22"
| "ggml_op_code GGML_OP_SILU_BACK = 23"
| "ggml_op_code GGML_OP_NORM = 24"
| "ggml_op_code GGML_OP_RMS_NORM = 25"
| "ggml_op_code GGML_OP_RMS_NORM_BACK = 26"
| "ggml_op_code GGML_OP_GROUP_NORM = 27"
| "ggml_op_code GGML_OP_L2_NORM = 28"
| "ggml_op_code GGML_OP_MUL_MAT = 29"
| "ggml_op_code GGML_OP_MUL_MAT_ID = 30"
| "ggml_op_code GGML_OP_OUT_PROD = 31"
| "ggml_op_code GGML_OP_SCALE = 32"
| "ggml_op_code GGML_OP_SET = 33"
| "ggml_op_code GGML_OP_CPY = 34"
| "ggml_op_code GGML_OP_CONT = 35"
| "ggml_op_code GGML_OP_RESHAPE = 36"
| "ggml_op_code GGML_OP_VIEW = 37"
| "ggml_op_code GGML_OP_PERMUTE = 38"
| "ggml_op_code GGML_OP_TRANSPOSE = 39"
| "ggml_op_code GGML_OP_GET_ROWS = 40"
| "ggml_op_code GGML_OP_GET_ROWS_BACK = 41"
| "ggml_op_code GGML_OP_SET_ROWS = 42"
| "ggml_op_code GGML_OP_DIAG = 43"
| "ggml_op_code GGML_OP_DIAG_MASK_INF = 44"
| "ggml_op_code GGML_OP_DIAG_MASK_ZERO = 45"
| "ggml_op_code GGML_OP_SOFT_MAX = 46"
| "ggml_op_code GGML_OP_SOFT_MAX_BACK = 47"
| "ggml_op_code GGML_OP_ROPE = 48"
| "ggml_op_code GGML_OP_ROPE_BACK = 49"
| "ggml_op_code GGML_OP_CLAMP = 50"
| "ggml_op_code GGML_OP_CONV_TRANSPOSE_1D = 51"
| "ggml_op_code GGML_OP_IM2COL = 52"
| "ggml_op_code GGML_OP_IM2COL_BACK = 53"
| "ggml_op_code GGML_OP_IM2COL_3D = 54"
| "ggml_op_code GGML_OP_CONV_2D = 55"
| "ggml_op_code GGML_OP_CONV_3D = 56"
| "ggml_op_code GGML_OP_CONV_2D_DW = 57"
| "ggml_op_code GGML_OP_CONV_TRANSPOSE_2D = 58"
| "ggml_op_code GGML_OP_POOL_1D = 59"
| "ggml_op_code GGML_OP_POOL_2D = 60"
| "ggml_op_code GGML_OP_POOL_2D_BACK = 61"
| "ggml_op_code GGML_OP_UPSCALE = 62"
| "ggml_op_code GGML_OP_PAD = 63"
| "ggml_op_code GGML_OP_PAD_REFLECT_1D = 64"
| "ggml_op_code GGML_OP_ROLL = 65"
| "ggml_op_code GGML_OP_ARANGE = 66"
| "ggml_op_code GGML_OP_TIMESTEP_EMBEDDING = 67"
| "ggml_op_code GGML_OP_ARGSORT = 68"
| "ggml_op_code GGML_OP_TOP_K = 69"
| "ggml_op_code GGML_OP_LEAKY_RELU = 70"
| "ggml_op_code GGML_OP_TRI = 71"
| "ggml_op_code GGML_OP_FILL = 72"
| "ggml_op_code GGML_OP_FLASH_ATTN_EXT = 73"
| "ggml_op_code GGML_OP_FLASH_ATTN_BACK = 74"
| "ggml_op_code GGML_OP_SSM_CONV = 75"
| "ggml_op_code GGML_OP_SSM_SCAN = 76"
| "ggml_op_code GGML_OP_WIN_PART = 77"
| "ggml_op_code GGML_OP_WIN_UNPART = 78"
| "ggml_op_code GGML_OP_GET_REL_POS = 79"
| "ggml_op_code GGML_OP_ADD_REL_POS = 80"
| "ggml_op_code GGML_OP_RWKV_WKV6 = 81"
| "ggml_op_code GGML_OP_GATED_LINEAR_ATTN = 82"
| "ggml_op_code GGML_OP_RWKV_WKV7 = 83"
| "ggml_op_code GGML_OP_SOLVE_TRI = 84"
| "ggml_op_code GGML_OP_GATED_DELTA_NET = 85"
| "ggml_op_code GGML_OP_UNARY = 86"
| "ggml_op_code GGML_OP_MAP_CUSTOM1 = 87"
| "ggml_op_code GGML_OP_MAP_CUSTOM2 = 88"
| "ggml_op_code GGML_OP_MAP_CUSTOM3 = 89"
| "ggml_op_code GGML_OP_CUSTOM = 90"
| "ggml_op_code GGML_OP_CROSS_ENTROPY_LOSS = 91"
| "ggml_op_code GGML_OP_CROSS_ENTROPY_LOSS_BACK = 92"
| "ggml_op_code GGML_OP_OPT_STEP_ADAMW = 93"
| "ggml_op_code GGML_OP_OPT_STEP_SGD = 94"
| "ggml_op_code GGML_OP_GLU = 95"

definition ggml_op_all :: "ggml_op list" where
  "ggml_op_all =
    [GGML_OP_NONE, GGML_OP_DUP, GGML_OP_ADD, GGML_OP_ADD_ID,
    GGML_OP_ADD1, GGML_OP_ACC, GGML_OP_SUB, GGML_OP_MUL,
    GGML_OP_DIV, GGML_OP_SQR, GGML_OP_SQRT, GGML_OP_LOG,
    GGML_OP_SIN, GGML_OP_COS, GGML_OP_SUM, GGML_OP_SUM_ROWS,
    GGML_OP_CUMSUM, GGML_OP_MEAN, GGML_OP_ARGMAX, GGML_OP_COUNT_EQUAL,
    GGML_OP_REPEAT, GGML_OP_REPEAT_BACK, GGML_OP_CONCAT, GGML_OP_SILU_BACK,
    GGML_OP_NORM, GGML_OP_RMS_NORM, GGML_OP_RMS_NORM_BACK, GGML_OP_GROUP_NORM,
    GGML_OP_L2_NORM, GGML_OP_MUL_MAT, GGML_OP_MUL_MAT_ID, GGML_OP_OUT_PROD,
    GGML_OP_SCALE, GGML_OP_SET, GGML_OP_CPY, GGML_OP_CONT,
    GGML_OP_RESHAPE, GGML_OP_VIEW, GGML_OP_PERMUTE, GGML_OP_TRANSPOSE,
    GGML_OP_GET_ROWS, GGML_OP_GET_ROWS_BACK, GGML_OP_SET_ROWS, GGML_OP_DIAG,
    GGML_OP_DIAG_MASK_INF, GGML_OP_DIAG_MASK_ZERO, GGML_OP_SOFT_MAX, GGML_OP_SOFT_MAX_BACK,
    GGML_OP_ROPE, GGML_OP_ROPE_BACK, GGML_OP_CLAMP, GGML_OP_CONV_TRANSPOSE_1D,
    GGML_OP_IM2COL, GGML_OP_IM2COL_BACK, GGML_OP_IM2COL_3D, GGML_OP_CONV_2D,
    GGML_OP_CONV_3D, GGML_OP_CONV_2D_DW, GGML_OP_CONV_TRANSPOSE_2D, GGML_OP_POOL_1D,
    GGML_OP_POOL_2D, GGML_OP_POOL_2D_BACK, GGML_OP_UPSCALE, GGML_OP_PAD,
    GGML_OP_PAD_REFLECT_1D, GGML_OP_ROLL, GGML_OP_ARANGE, GGML_OP_TIMESTEP_EMBEDDING,
    GGML_OP_ARGSORT, GGML_OP_TOP_K, GGML_OP_LEAKY_RELU, GGML_OP_TRI,
    GGML_OP_FILL, GGML_OP_FLASH_ATTN_EXT, GGML_OP_FLASH_ATTN_BACK, GGML_OP_SSM_CONV,
    GGML_OP_SSM_SCAN, GGML_OP_WIN_PART, GGML_OP_WIN_UNPART, GGML_OP_GET_REL_POS,
    GGML_OP_ADD_REL_POS, GGML_OP_RWKV_WKV6, GGML_OP_GATED_LINEAR_ATTN, GGML_OP_RWKV_WKV7,
    GGML_OP_SOLVE_TRI, GGML_OP_GATED_DELTA_NET, GGML_OP_UNARY, GGML_OP_MAP_CUSTOM1,
    GGML_OP_MAP_CUSTOM2, GGML_OP_MAP_CUSTOM3, GGML_OP_CUSTOM, GGML_OP_CROSS_ENTROPY_LOSS,
    GGML_OP_CROSS_ENTROPY_LOSS_BACK, GGML_OP_OPT_STEP_ADAMW, GGML_OP_OPT_STEP_SGD, GGML_OP_GLU]"

definition GGML_OP_COUNT :: nat where "GGML_OP_COUNT = 96"

definition GGML_OP_NAME :: "string list" where
  "GGML_OP_NAME =
    [''NONE'', ''DUP'', ''ADD'', ''ADD_ID'', ''ADD1'', ''ACC'',
    ''SUB'', ''MUL'', ''DIV'', ''SQR'', ''SQRT'', ''LOG'',
    ''SIN'', ''COS'', ''SUM'', ''SUM_ROWS'', ''CUMSUM'', ''MEAN'',
    ''ARGMAX'', ''COUNT_EQUAL'', ''REPEAT'', ''REPEAT_BACK'', ''CONCAT'', ''SILU_BACK'',
    ''NORM'', ''RMS_NORM'', ''RMS_NORM_BACK'', ''GROUP_NORM'', ''L2_NORM'', ''MUL_MAT'',
    ''MUL_MAT_ID'', ''OUT_PROD'', ''SCALE'', ''SET'', ''CPY'', ''CONT'',
    ''RESHAPE'', ''VIEW'', ''PERMUTE'', ''TRANSPOSE'', ''GET_ROWS'', ''GET_ROWS_BACK'',
    ''SET_ROWS'', ''DIAG'', ''DIAG_MASK_INF'', ''DIAG_MASK_ZERO'', ''SOFT_MAX'', ''SOFT_MAX_BACK'',
    ''ROPE'', ''ROPE_BACK'', ''CLAMP'', ''CONV_TRANSPOSE_1D'', ''IM2COL'', ''IM2COL_BACK'',
    ''IM2COL_3D'', ''CONV_2D'', ''CONV_3D'', ''CONV_2D_DW'', ''CONV_TRANSPOSE_2D'', ''POOL_1D'',
    ''POOL_2D'', ''POOL_2D_BACK'', ''UPSCALE'', ''PAD'', ''PAD_REFLECT_1D'', ''ROLL'',
    ''ARANGE'', ''TIMESTEP_EMBEDDING'', ''ARGSORT'', ''TOP_K'', ''LEAKY_RELU'', ''TRI'',
    ''FILL'', ''FLASH_ATTN_EXT'', ''FLASH_ATTN_BACK'', ''SSM_CONV'', ''SSM_SCAN'', ''WIN_PART'',
    ''WIN_UNPART'', ''GET_REL_POS'', ''ADD_REL_POS'', ''RWKV_WKV6'', ''GATED_LINEAR_ATTN'', ''RWKV_WKV7'',
    ''SOLVE_TRI'', ''GATED_DELTA_NET'', ''UNARY'', ''MAP_CUSTOM1'', ''MAP_CUSTOM2'', ''MAP_CUSTOM3'',
    ''CUSTOM'', ''CROSS_ENTROPY_LOSS'', ''CROSS_ENTROPY_LOSS_BACK'', ''OPT_STEP_ADAMW'', ''OPT_STEP_SGD'', ''GLU'']"

definition ggml_op_name :: "ggml_op \<Rightarrow> string" where
  "ggml_op_name op = GGML_OP_NAME ! ggml_op_code op"

section \<open>Unary and gated operations\<close>

datatype (plugins only: size) ggml_unary_op =
    GGML_UNARY_OP_ABS | GGML_UNARY_OP_SGN | GGML_UNARY_OP_NEG | GGML_UNARY_OP_STEP
  | GGML_UNARY_OP_TANH | GGML_UNARY_OP_ELU | GGML_UNARY_OP_RELU | GGML_UNARY_OP_SIGMOID
  | GGML_UNARY_OP_GELU | GGML_UNARY_OP_GELU_QUICK | GGML_UNARY_OP_SILU | GGML_UNARY_OP_HARDSWISH
  | GGML_UNARY_OP_HARDSIGMOID | GGML_UNARY_OP_EXP | GGML_UNARY_OP_EXPM1 | GGML_UNARY_OP_SOFTPLUS
  | GGML_UNARY_OP_GELU_ERF | GGML_UNARY_OP_XIELU | GGML_UNARY_OP_FLOOR | GGML_UNARY_OP_CEIL
  | GGML_UNARY_OP_ROUND | GGML_UNARY_OP_TRUNC

fun ggml_unary_op_code :: "ggml_unary_op \<Rightarrow> nat" where
  "ggml_unary_op_code GGML_UNARY_OP_ABS = 0"
| "ggml_unary_op_code GGML_UNARY_OP_SGN = 1"
| "ggml_unary_op_code GGML_UNARY_OP_NEG = 2"
| "ggml_unary_op_code GGML_UNARY_OP_STEP = 3"
| "ggml_unary_op_code GGML_UNARY_OP_TANH = 4"
| "ggml_unary_op_code GGML_UNARY_OP_ELU = 5"
| "ggml_unary_op_code GGML_UNARY_OP_RELU = 6"
| "ggml_unary_op_code GGML_UNARY_OP_SIGMOID = 7"
| "ggml_unary_op_code GGML_UNARY_OP_GELU = 8"
| "ggml_unary_op_code GGML_UNARY_OP_GELU_QUICK = 9"
| "ggml_unary_op_code GGML_UNARY_OP_SILU = 10"
| "ggml_unary_op_code GGML_UNARY_OP_HARDSWISH = 11"
| "ggml_unary_op_code GGML_UNARY_OP_HARDSIGMOID = 12"
| "ggml_unary_op_code GGML_UNARY_OP_EXP = 13"
| "ggml_unary_op_code GGML_UNARY_OP_EXPM1 = 14"
| "ggml_unary_op_code GGML_UNARY_OP_SOFTPLUS = 15"
| "ggml_unary_op_code GGML_UNARY_OP_GELU_ERF = 16"
| "ggml_unary_op_code GGML_UNARY_OP_XIELU = 17"
| "ggml_unary_op_code GGML_UNARY_OP_FLOOR = 18"
| "ggml_unary_op_code GGML_UNARY_OP_CEIL = 19"
| "ggml_unary_op_code GGML_UNARY_OP_ROUND = 20"
| "ggml_unary_op_code GGML_UNARY_OP_TRUNC = 21"

definition ggml_unary_op_all :: "ggml_unary_op list" where
  "ggml_unary_op_all =
    [GGML_UNARY_OP_ABS, GGML_UNARY_OP_SGN, GGML_UNARY_OP_NEG, GGML_UNARY_OP_STEP,
    GGML_UNARY_OP_TANH, GGML_UNARY_OP_ELU, GGML_UNARY_OP_RELU, GGML_UNARY_OP_SIGMOID,
    GGML_UNARY_OP_GELU, GGML_UNARY_OP_GELU_QUICK, GGML_UNARY_OP_SILU, GGML_UNARY_OP_HARDSWISH,
    GGML_UNARY_OP_HARDSIGMOID, GGML_UNARY_OP_EXP, GGML_UNARY_OP_EXPM1, GGML_UNARY_OP_SOFTPLUS,
    GGML_UNARY_OP_GELU_ERF, GGML_UNARY_OP_XIELU, GGML_UNARY_OP_FLOOR, GGML_UNARY_OP_CEIL,
    GGML_UNARY_OP_ROUND, GGML_UNARY_OP_TRUNC]"

definition GGML_UNARY_OP_NAME :: "string list" where
  "GGML_UNARY_OP_NAME =
    [''ABS'', ''SGN'', ''NEG'', ''STEP'', ''TANH'', ''ELU'',
    ''RELU'', ''SIGMOID'', ''GELU'', ''GELU_QUICK'', ''SILU'', ''HARDSWISH'',
    ''HARDSIGMOID'', ''EXP'', ''EXPM1'', ''SOFTPLUS'', ''GELU_ERF'', ''XIELU'',
    ''FLOOR'', ''CEIL'', ''ROUND'', ''TRUNC'']"

definition ggml_unary_op_name :: "ggml_unary_op \<Rightarrow> string" where
  "ggml_unary_op_name op = GGML_UNARY_OP_NAME ! ggml_unary_op_code op"

datatype (plugins only: size) ggml_glu_op =
    GGML_GLU_OP_REGLU | GGML_GLU_OP_GEGLU | GGML_GLU_OP_SWIGLU | GGML_GLU_OP_SWIGLU_OAI
  | GGML_GLU_OP_GEGLU_ERF | GGML_GLU_OP_GEGLU_QUICK

fun ggml_glu_op_code :: "ggml_glu_op \<Rightarrow> nat" where
  "ggml_glu_op_code GGML_GLU_OP_REGLU = 0"
| "ggml_glu_op_code GGML_GLU_OP_GEGLU = 1"
| "ggml_glu_op_code GGML_GLU_OP_SWIGLU = 2"
| "ggml_glu_op_code GGML_GLU_OP_SWIGLU_OAI = 3"
| "ggml_glu_op_code GGML_GLU_OP_GEGLU_ERF = 4"
| "ggml_glu_op_code GGML_GLU_OP_GEGLU_QUICK = 5"

definition ggml_glu_op_all :: "ggml_glu_op list" where
  "ggml_glu_op_all =
    [GGML_GLU_OP_REGLU, GGML_GLU_OP_GEGLU, GGML_GLU_OP_SWIGLU, GGML_GLU_OP_SWIGLU_OAI,
    GGML_GLU_OP_GEGLU_ERF, GGML_GLU_OP_GEGLU_QUICK]"

definition GGML_GLU_OP_NAME :: "string list" where
  "GGML_GLU_OP_NAME =
    [''REGLU'', ''GEGLU'', ''SWIGLU'', ''SWIGLU_OAI'', ''GEGLU_ERF'', ''GEGLU_QUICK'']"

definition ggml_glu_op_name :: "ggml_glu_op \<Rightarrow> string" where
  "ggml_glu_op_name op = GGML_GLU_OP_NAME ! ggml_glu_op_code op"

text \<open>The enumerator with a given number, for the numbers kept in \<^verbatim>\<open>op_params\<close>.\<close>

definition ggml_unary_op_of_code :: "int \<Rightarrow> ggml_unary_op option" where
  "ggml_unary_op_of_code n =
     (if 0 \<le> n \<and> nat n < length ggml_unary_op_all then Some (ggml_unary_op_all ! nat n) else None)"

definition ggml_glu_op_of_code :: "int \<Rightarrow> ggml_glu_op option" where
  "ggml_glu_op_of_code n =
     (if 0 \<le> n \<and> nat n < length ggml_glu_op_all then Some (ggml_glu_op_all ! nat n) else None)"

section \<open>Numbers identify operations\<close>

lemma ggml_op_code_all: "map ggml_op_code ggml_op_all = [0..<96]"
  by (simp add: ggml_op_all_def upt_conv_Cons)

lemma ggml_op_all_nth: "ggml_op_all ! ggml_op_code op = op"
  by (cases op) (simp_all add: ggml_op_all_def)

lemma ggml_op_code_inj: "ggml_op_code a = ggml_op_code b \<Longrightarrow> a = b"
  by (metis ggml_op_all_nth)

lemma ggml_op_code_less: "ggml_op_code op < 96"
  by (cases op) simp_all

lemma ggml_unary_op_of_code_code [simp]: "ggml_unary_op_of_code (int (ggml_unary_op_code op)) = Some op"
  by (cases op) (simp_all add: ggml_unary_op_of_code_def ggml_unary_op_all_def)

lemma ggml_glu_op_of_code_code [simp]: "ggml_glu_op_of_code (int (ggml_glu_op_code op)) = Some op"
  by (cases op) (simp_all add: ggml_glu_op_of_code_def ggml_glu_op_all_def)

instantiation ggml_op :: equal
begin

definition equal_ggml_op :: "ggml_op \<Rightarrow> ggml_op \<Rightarrow> bool" where
  "equal_ggml_op a b \<longleftrightarrow> ggml_op_code a = ggml_op_code b"

instance
  by standard (auto simp: equal_ggml_op_def intro: ggml_op_code_inj)

end

lemma op_names_distinct: "distinct GGML_OP_NAME"
  by (simp add: GGML_OP_NAME_def)

lemma op_names_length: "length GGML_OP_NAME = 96"
  by (simp add: GGML_OP_NAME_def)

section \<open>Properties\<close>

text \<open>
  The name table has an entry for every operation and the name determines the operation, so
  printing an operation loses nothing.
\<close>

theorem ggml_op_name_identifies:
  "length GGML_OP_NAME = GGML_OP_COUNT \<and> ggml_op_code a < GGML_OP_COUNT
   \<and> (ggml_op_name a = ggml_op_name b \<longleftrightarrow> a = b)"
  using op_names_distinct ggml_op_code_less [of a] ggml_op_code_less [of b] ggml_op_code_inj [of a b]
  by (auto simp: ggml_op_name_def GGML_OP_COUNT_def op_names_length nth_eq_iff_index_eq)

end
