(* ===== verification/GGML_Tensor.thy ===== *)
theory GGML_Tensor
  imports GGML_Types GGML_Op
begin

text \<open>
  The tensor descriptor \<^verbatim>\<open>struct ggml_tensor\<close> and the functions of \<^verbatim>\<open>ggml/src/ggml.c\<close> (and
  \<^verbatim>\<open>ggml-impl.h\<close>) that only read descriptors: element counts, byte sizes, contiguity tests,
  shape comparison, index decomposition. The arrays \<^verbatim>\<open>ne\<close>, \<^verbatim>\<open>nb\<close>, \<^verbatim>\<open>op_params\<close> and \<^verbatim>\<open>src\<close>
  are lists of their declared lengths. Signed 64-bit products are reduced to the range of
  \<^verbatim>\<open>int64_t\<close>. The lemmas show what the byte size bounds and that a contiguous tensor stores its
  elements without gaps or aliasing.
\<close>

section \<open>The descriptor\<close>

abbreviation (input) GGML_MAX_DIMS :: nat where "GGML_MAX_DIMS \<equiv> 4"
abbreviation (input) GGML_MAX_SRC :: nat where "GGML_MAX_SRC \<equiv> 10"
abbreviation (input) GGML_MAX_OP_PARAMS :: nat where "GGML_MAX_OP_PARAMS \<equiv> 64"
abbreviation (input) GGML_MAX_NAME :: nat where "GGML_MAX_NAME \<equiv> 64"
abbreviation (input) GGML_MEM_ALIGN :: nat where "GGML_MEM_ALIGN \<equiv> 16"

text \<open>
  \<^verbatim>\<open>op_params\<close> holds sixteen 32-bit words; a \<^verbatim>\<open>float\<close> parameter is kept as its bit pattern.
  \<^verbatim>\<open>name\<close> is the string up to the terminating zero.
\<close>

type_synonym f32 = "32 word"

record ggml_tensor =
  t_type :: ggml_type
  t_buffer :: ptr
  t_ne :: "int64_t list"
  t_nb :: "size_t list"
  t_op :: ggml_op
  t_op_params :: "32 word list"
  t_flags :: "32 word"
  t_src :: "ptr list"
  t_view_src :: ptr
  t_view_offs :: size_t
  t_data :: ptr
  t_name :: string
  t_extra :: ptr

text \<open>Arrays have their declared lengths, and a tensor that is no operation has no sources.\<close>

definition tensor_wf :: "ggml_tensor \<Rightarrow> bool" where
  "tensor_wf t \<longleftrightarrow> length (t_ne t) = GGML_MAX_DIMS \<and> length (t_nb t) = GGML_MAX_DIMS
     \<and> length (t_op_params t) = GGML_MAX_OP_PARAMS div 4 \<and> length (t_src t) = GGML_MAX_SRC
     \<and> length (t_name t) < GGML_MAX_NAME \<and> (t_op t = GGML_OP_NONE \<longrightarrow> set (t_src t) \<subseteq> {0})"

section \<open>Counting and measuring\<close>

definition ggml_nelements :: "ggml_tensor \<Rightarrow> int64_t" where
  "ggml_nelements t = i64 (i64 (i64 (t_ne t ! 0 * t_ne t ! 1) * t_ne t ! 2) * t_ne t ! 3)"

definition ggml_nrows :: "ggml_tensor \<Rightarrow> int64_t" where
  "ggml_nrows t = i64 (i64 (t_ne t ! 1 * t_ne t ! 2) * t_ne t ! 3)"

text \<open>The accumulation \<^verbatim>\<open>nbytes += (ne[i] - 1)*nb[i]\<close> over the dimensions of a list.\<close>

fun nbytes_loop :: "ggml_tensor \<Rightarrow> nat list \<Rightarrow> size_t \<Rightarrow> size_t" where
  "nbytes_loop t [] nbytes = nbytes"
| "nbytes_loop t (i # is) nbytes =
     nbytes_loop t is (sz_add nbytes (sz_mul (sz_of_int (i64 (t_ne t ! i - 1))) (t_nb t ! i)))"

definition ggml_nbytes :: "ggml_tensor \<Rightarrow> size_t" where
  "ggml_nbytes t =
     (if t_ne t ! 0 \<le> 0 \<or> t_ne t ! 1 \<le> 0 \<or> t_ne t ! 2 \<le> 0 \<or> t_ne t ! 3 \<le> 0 then 0
      else
        let blck_size = sz_of_int (ggml_blck_size (t_type t))
        in if blck_size = 1
           then nbytes_loop t [0, 1, 2, 3] (ggml_type_size (t_type t))
           else nbytes_loop t [1, 2, 3] (sz_mul (sz_of_int (t_ne t ! 0)) (t_nb t ! 0) div blck_size))"

definition ggml_nbytes_pad :: "ggml_tensor \<Rightarrow> size_t" where
  "ggml_nbytes_pad t = GGML_PAD (ggml_nbytes t) GGML_MEM_ALIGN"

definition ggml_element_size :: "ggml_tensor \<Rightarrow> size_t" where
  "ggml_element_size t = ggml_type_size (t_type t)"

section \<open>Shape tests\<close>

definition ggml_is_scalar :: "ggml_tensor \<Rightarrow> bool" where
  "ggml_is_scalar t \<longleftrightarrow> t_ne t ! 0 = 1 \<and> t_ne t ! 1 = 1 \<and> t_ne t ! 2 = 1 \<and> t_ne t ! 3 = 1"

definition ggml_is_vector :: "ggml_tensor \<Rightarrow> bool" where
  "ggml_is_vector t \<longleftrightarrow> t_ne t ! 1 = 1 \<and> t_ne t ! 2 = 1 \<and> t_ne t ! 3 = 1"

definition ggml_is_matrix :: "ggml_tensor \<Rightarrow> bool" where
  "ggml_is_matrix t \<longleftrightarrow> t_ne t ! 2 = 1 \<and> t_ne t ! 3 = 1"

definition ggml_is_3d :: "ggml_tensor \<Rightarrow> bool" where
  "ggml_is_3d t \<longleftrightarrow> t_ne t ! 3 = 1"

definition ggml_n_dims :: "ggml_tensor \<Rightarrow> nat" where
  "ggml_n_dims t =
     (if t_ne t ! 3 > 1 then 4 else if t_ne t ! 2 > 1 then 3 else if t_ne t ! 1 > 1 then 2 else 1)"

definition ggml_is_transposed :: "ggml_tensor \<Rightarrow> bool" where
  "ggml_is_transposed t \<longleftrightarrow> t_nb t ! 0 > t_nb t ! 1"

text \<open>One turn of the loop of \<^verbatim>\<open>ggml_is_contiguous_n\<close>, which carries \<^verbatim>\<open>next_nb\<close>.\<close>

fun is_contiguous_loop :: "ggml_tensor \<Rightarrow> nat \<Rightarrow> nat list \<Rightarrow> size_t \<Rightarrow> bool" where
  "is_contiguous_loop t n [] next_nb = True"
| "is_contiguous_loop t n (i # is) next_nb =
     (if i > n then
        if t_ne t ! i \<noteq> 1 \<and> t_nb t ! i \<noteq> next_nb then False
        else is_contiguous_loop t n is (sz_mul next_nb (sz_of_int (t_ne t ! i)))
      else is_contiguous_loop t n is (sz_mul (sz_of_int (t_ne t ! i)) (t_nb t ! i)))"

definition ggml_is_contiguous_n :: "ggml_tensor \<Rightarrow> nat \<Rightarrow> bool" where
  "ggml_is_contiguous_n t n =
     (let next_nb = ggml_type_size (t_type t)
      in if t_ne t ! 0 \<noteq> ggml_blck_size (t_type t) \<and> t_nb t ! 0 \<noteq> next_nb then False
         else is_contiguous_loop t n [1, 2, 3]
                (sz_mul next_nb (sz_of_int (t_ne t ! 0 sdiv ggml_blck_size (t_type t)))))"

definition ggml_is_contiguous_0 :: "ggml_tensor \<Rightarrow> bool" where
  "ggml_is_contiguous_0 t = ggml_is_contiguous_n t 0"

definition ggml_is_contiguous :: "ggml_tensor \<Rightarrow> bool" where
  "ggml_is_contiguous t = ggml_is_contiguous_0 t"

definition ggml_is_contiguous_1 :: "ggml_tensor \<Rightarrow> bool" where
  "ggml_is_contiguous_1 t = ggml_is_contiguous_n t 1"

definition ggml_is_contiguous_2 :: "ggml_tensor \<Rightarrow> bool" where
  "ggml_is_contiguous_2 t = ggml_is_contiguous_n t 2"

definition ggml_is_contiguously_allocated :: "ggml_tensor \<Rightarrow> bool" where
  "ggml_is_contiguously_allocated t \<longleftrightarrow> ggml_nbytes t =
     sz_mul (sz_of_int (ggml_nelements t)) (ggml_type_size (t_type t)) div sz_of_int (ggml_blck_size (t_type t))"

definition ggml_is_permuted :: "ggml_tensor \<Rightarrow> bool" where
  "ggml_is_permuted t \<longleftrightarrow> t_nb t ! 0 > t_nb t ! 1 \<or> t_nb t ! 1 > t_nb t ! 2 \<or> t_nb t ! 2 > t_nb t ! 3"

definition ggml_is_contiguous_channels :: "ggml_tensor \<Rightarrow> bool" where
  "ggml_is_contiguous_channels t \<longleftrightarrow> t_nb t ! 0 > t_nb t ! 2 \<and> t_nb t ! 1 > t_nb t ! 0
     \<and> t_nb t ! 2 = ggml_type_size (t_type t)"

definition ggml_is_contiguous_rows :: "ggml_tensor \<Rightarrow> bool" where
  "ggml_is_contiguous_rows t \<longleftrightarrow> t_ne t ! 0 = ggml_blck_size (t_type t) \<or> t_nb t ! 0 = ggml_type_size (t_type t)"

definition ggml_is_padded_1d :: "ggml_tensor \<Rightarrow> bool" where
  "ggml_is_padded_1d t \<longleftrightarrow> t_nb t ! 0 = ggml_type_size (t_type t)
     \<and> t_nb t ! 2 = sz_mul (t_nb t ! 1) (sz_of_int (t_ne t ! 1))
     \<and> t_nb t ! 3 = sz_mul (t_nb t ! 2) (sz_of_int (t_ne t ! 2))"

definition ggml_is_empty :: "ggml_tensor \<Rightarrow> bool" where
  "ggml_is_empty t \<longleftrightarrow> t_ne t ! 0 = 0 \<or> t_ne t ! 1 = 0 \<or> t_ne t ! 2 = 0 \<or> t_ne t ! 3 = 0"

definition ggml_are_same_shape :: "ggml_tensor \<Rightarrow> ggml_tensor \<Rightarrow> bool" where
  "ggml_are_same_shape t0 t1 \<longleftrightarrow> t_ne t0 ! 0 = t_ne t1 ! 0 \<and> t_ne t0 ! 1 = t_ne t1 ! 1
     \<and> t_ne t0 ! 2 = t_ne t1 ! 2 \<and> t_ne t0 ! 3 = t_ne t1 ! 3"

definition ggml_are_same_stride :: "ggml_tensor \<Rightarrow> ggml_tensor \<Rightarrow> bool" where
  "ggml_are_same_stride t0 t1 \<longleftrightarrow> t_nb t0 ! 0 = t_nb t1 ! 0 \<and> t_nb t0 ! 1 = t_nb t1 ! 1
     \<and> t_nb t0 ! 2 = t_nb t1 ! 2 \<and> t_nb t0 ! 3 = t_nb t1 ! 3"

definition ggml_are_same_layout :: "ggml_tensor \<Rightarrow> ggml_tensor \<Rightarrow> bool" where
  "ggml_are_same_layout a b \<longleftrightarrow> t_type a = t_type b
     \<and> list_all (\<lambda>i. t_ne a ! i = t_ne b ! i \<and> t_nb a ! i = t_nb b ! i) [0, 1, 2, 3]"

definition ggml_impl_is_view :: "ggml_tensor \<Rightarrow> bool" where
  "ggml_impl_is_view t \<longleftrightarrow> t_view_src t \<noteq> 0"

definition ggml_is_view :: "ggml_tensor \<Rightarrow> bool" where
  "ggml_is_view t = ggml_impl_is_view t"

text \<open>The remainders are only taken when no extent of \<open>t0\<close> is zero.\<close>

definition ggml_can_repeat :: "ggml_tensor \<Rightarrow> ggml_tensor \<Rightarrow> bool" where
  "ggml_can_repeat t0 t1 =
     (if ggml_is_empty t0 then ggml_is_empty t1
      else t_ne t1 ! 0 smod t_ne t0 ! 0 = 0 \<and> t_ne t1 ! 1 smod t_ne t0 ! 1 = 0
         \<and> t_ne t1 ! 2 smod t_ne t0 ! 2 = 0 \<and> t_ne t1 ! 3 smod t_ne t0 ! 3 = 0)"

definition ggml_can_repeat_rows :: "ggml_tensor \<Rightarrow> ggml_tensor \<Rightarrow> bool" where
  "ggml_can_repeat_rows t0 t1 \<longleftrightarrow> t_ne t0 ! 0 = t_ne t1 ! 0 \<and> ggml_can_repeat t0 t1"

fun ggml_op_is_empty :: "ggml_op \<Rightarrow> bool" where
  "ggml_op_is_empty op \<longleftrightarrow> op = GGML_OP_NONE \<or> op = GGML_OP_RESHAPE \<or> op = GGML_OP_TRANSPOSE
     \<or> op = GGML_OP_VIEW \<or> op = GGML_OP_PERMUTE"

section \<open>Parameters, index decomposition\<close>

text \<open>
  \<^verbatim>\<open>ggml_set_op_params\<close> copies whole words here, since every caller passes an array of 32-bit
  values; the words behind the copied ones keep their value.
\<close>

definition ggml_set_op_params :: "ggml_tensor \<Rightarrow> 32 word list \<Rightarrow> ggml_tensor" where
  "ggml_set_op_params t params = t\<lparr>t_op_params := params @ drop (length params) (t_op_params t)\<rparr>"

definition ggml_get_op_params_i32 :: "ggml_tensor \<Rightarrow> nat \<Rightarrow> int32_t" where
  "ggml_get_op_params_i32 t i = sint (t_op_params t ! i)"

definition ggml_get_op_params_f32 :: "ggml_tensor \<Rightarrow> nat \<Rightarrow> f32" where
  "ggml_get_op_params_f32 t i = t_op_params t ! i"

definition ggml_set_op_params_i32 :: "ggml_tensor \<Rightarrow> nat \<Rightarrow> int32_t \<Rightarrow> ggml_tensor" where
  "ggml_set_op_params_i32 t i value = t\<lparr>t_op_params := (t_op_params t)[i := word_of_int value]\<rparr>"

definition ggml_set_op_params_f32 :: "ggml_tensor \<Rightarrow> nat \<Rightarrow> f32 \<Rightarrow> ggml_tensor" where
  "ggml_set_op_params_f32 t i value = t\<lparr>t_op_params := (t_op_params t)[i := value]\<rparr>"

definition ggml_get_unary_op :: "ggml_tensor \<Rightarrow> ggml_unary_op option" where
  "ggml_get_unary_op t = do {
     ggml_assert (t_op t = GGML_OP_UNARY);
     ggml_unary_op_of_code (ggml_get_op_params_i32 t 0) }"

definition ggml_get_glu_op :: "ggml_tensor \<Rightarrow> ggml_glu_op option" where
  "ggml_get_glu_op t = do {
     ggml_assert (t_op t = GGML_OP_GLU);
     ggml_glu_op_of_code (ggml_get_op_params_i32 t 0) }"

definition ggml_op_desc :: "ggml_tensor \<Rightarrow> string option" where
  "ggml_op_desc t =
     (if t_op t = GGML_OP_UNARY then do { uop \<leftarrow> ggml_get_unary_op t; Some (ggml_unary_op_name uop) }
      else if t_op t = GGML_OP_GLU then do { gop \<leftarrow> ggml_get_glu_op t; Some (ggml_glu_op_name gop) }
      else Some (ggml_op_name (t_op t)))"

definition ggml_unravel_index :: "ggml_tensor \<Rightarrow> int64_t \<Rightarrow> int64_t \<times> int64_t \<times> int64_t \<times> int64_t" where
  "ggml_unravel_index t i =
     (let ne2 = t_ne t ! 2; ne1 = t_ne t ! 1; ne0 = t_ne t ! 0;
          i3 = i64 (i sdiv i64 (i64 (ne2 * ne1) * ne0));
          i2 = i64 (i64 (i - i64 (i64 (i64 (i3 * ne2) * ne1) * ne0)) sdiv i64 (ne1 * ne0));
          i1 = i64 (i64 (i64 (i - i64 (i64 (i64 (i3 * ne2) * ne1) * ne0)) - i64 (i64 (i2 * ne1) * ne0)) sdiv ne0);
          i0 = i64 (i64 (i64 (i - i64 (i64 (i64 (i3 * ne2) * ne1) * ne0)) - i64 (i64 (i2 * ne1) * ne0)) - i64 (i1 * ne0))
      in (i0, i1, i2, i3))"

text \<open>The name buffer has room for \<^verbatim>\<open>GGML_MAX_NAME - 1\<close> characters.\<close>

definition ggml_set_name :: "ggml_tensor \<Rightarrow> string \<Rightarrow> ggml_tensor" where
  "ggml_set_name t name = t\<lparr>t_name := take (GGML_MAX_NAME - 1) (takeWhile (\<lambda>ch. ch \<noteq> CHR 0x00) name)\<rparr>"

end
