(* ===== verification/GGML_Layout.thy ===== *)
theory GGML_Layout
  imports GGML_Tensor
begin

text \<open>
  What the sizes and strides of a tensor descriptor mean: every element lies within
  \<^verbatim>\<open>ggml_nbytes\<close> of the data pointer, a tensor that \<^verbatim>\<open>ggml_is_contiguous\<close> accepts stores its
  elements without gaps and without aliasing, and \<^verbatim>\<open>ggml_unravel_index\<close> inverts the linear
  index. The lemmas carry explicit bounds under which the 64-bit arithmetic does not wrap.
\<close>

section \<open>Byte size\<close>

text \<open>
  \<open>dims_pos\<close>: all extents are positive and the rows consist of whole blocks. \<open>dim t 0\<close> counts the
  blocks of a row, \<open>dim t k\<close> the extent of dimension \<open>k\<close>. \<open>tensor_span\<close> is the end of the last
  block in natural numbers.
\<close>

definition dims_pos :: "ggml_tensor \<Rightarrow> bool" where
  "dims_pos t \<longleftrightarrow> (\<forall>k < 4. 0 < t_ne t ! k \<and> t_ne t ! k < 2 ^ 63) \<and> ggml_blck_size (t_type t) dvd t_ne t ! 0"

definition dim :: "ggml_tensor \<Rightarrow> nat \<Rightarrow> nat" where
  "dim t k = (if k = 0 then nat (t_ne t ! 0) div blck_size (type_traits (t_type t)) else nat (t_ne t ! k))"

definition elem_offset :: "ggml_tensor \<Rightarrow> nat \<Rightarrow> nat \<Rightarrow> nat \<Rightarrow> nat \<Rightarrow> nat" where
  "elem_offset t j i1 i2 i3 = j * t_nb t ! 0 + i1 * t_nb t ! 1 + i2 * t_nb t ! 2 + i3 * t_nb t ! 3"

definition tensor_span :: "ggml_tensor \<Rightarrow> nat" where
  "tensor_span t = elem_offset t (dim t 0 - 1) (dim t 1 - 1) (dim t 2 - 1) (dim t 3 - 1) + ggml_type_size (t_type t)"

lemma all_less_4: "(\<forall>k < (4::nat). P k) \<longleftrightarrow> P 0 \<and> P 1 \<and> P 2 \<and> P 3"
  by (auto simp: numeral_eq_Suc less_Suc_eq)

lemma dims_posD:
  assumes "dims_pos t"
  shows "0 < t_ne t ! 0" "0 < t_ne t ! 1" "0 < t_ne t ! 2" "0 < t_ne t ! 3"
    "t_ne t ! 0 < 2 ^ 63" "t_ne t ! 1 < 2 ^ 63" "t_ne t ! 2 < 2 ^ 63" "t_ne t ! 3 < 2 ^ 63"
  using assms by (simp_all add: dims_pos_def all_less_4)

lemma dim_0:
  assumes "dims_pos t"
  shows "nat (t_ne t ! 0) = dim t 0 * blck_size (type_traits (t_type t))" "0 < dim t 0"
    and "t_ne t ! 0 sdiv ggml_blck_size (t_type t) = int (dim t 0)"
proof -
  let ?b = "blck_size (type_traits (t_type t))"
  have b: "0 < ?b" by (rule traits_pos)
  have p: "0 < t_ne t ! 0" using dims_posD [OF assms] by simp
  have "int ?b dvd t_ne t ! 0" using assms by (simp add: dims_pos_def ggml_blck_size_def)
  then have d: "?b dvd nat (t_ne t ! 0)" using p by (metis int_dvd_int_iff less_imp_le nat_0_le)
  then show e: "nat (t_ne t ! 0) = dim t 0 * ?b" by (simp add: dim_def)
  then show "0 < dim t 0" using p by (metis gr0I mult_is_0 zero_less_nat_eq less_irrefl)
  show "t_ne t ! 0 sdiv ggml_blck_size (t_type t) = int (dim t 0)"
    using p b by (simp add: sdiv_pos ggml_blck_size_def dim_def zdiv_int)
qed

lemma dim_pos:
  assumes "dims_pos t" shows "0 < dim t 0" "0 < dim t 1" "0 < dim t 2" "0 < dim t 3"
  using dims_posD [OF assms] dim_0 [OF assms] by (simp_all add: dim_def)

lemma step_eq:
  assumes "0 < n" "n < 2 ^ 63" "(nat n - 1) * b \<le> SIZE_MAX"
  shows "sz_mul (sz_of_int (i64 (n - 1))) b = (nat n - 1) * b"
proof -
  have "i64 (n - 1) = n - 1" using assms by (simp add: i64_id)
  then have "sz_of_int (i64 (n - 1)) = nat n - 1" using assms by (simp add: sz_of_int_id nat_diff_distrib)
  then show ?thesis using assms(3) by (simp add: sz_mul_id)
qed

lemma nbytes_eq_span:
  assumes "dims_pos t" "tensor_span t \<le> SIZE_MAX"
    and "ggml_blck_size (t_type t) = 1 \<or> t_nb t ! 0 = ggml_type_size (t_type t) \<and> nat (t_ne t ! 0) * ggml_type_size (t_type t) \<le> SIZE_MAX"
  shows "ggml_nbytes t = tensor_span t"
proof -
  note p = dims_posD [OF assms(1)]
  let ?b = "blck_size (type_traits (t_type t))"
  define o0 where "o0 = (dim t 0 - 1) * t_nb t ! 0"
  define o1 where "o1 = (dim t 1 - 1) * t_nb t ! 1"
  define o2 where "o2 = (dim t 2 - 1) * t_nb t ! 2"
  define o3 where "o3 = (dim t 3 - 1) * t_nb t ! 3"
  have sp: "tensor_span t = o0 + o1 + o2 + o3 + ggml_type_size (t_type t)"
    by (simp add: tensor_span_def elem_offset_def o0_def o1_def o2_def o3_def)
  have s: "sz_mul (sz_of_int (i64 (t_ne t ! 1 - 1))) (t_nb t ! 1) = o1"
    "sz_mul (sz_of_int (i64 (t_ne t ! 2 - 1))) (t_nb t ! 2) = o2"
    "sz_mul (sz_of_int (i64 (t_ne t ! 3 - 1))) (t_nb t ! 3) = o3"
    using p assms(2) unfolding sp o1_def o2_def o3_def dim_def by (simp_all add: step_eq)
  have bs: "sz_of_int (ggml_blck_size (t_type t)) = ?b"
    using traits_le(1) [of "t_type t"] by (simp add: ggml_blck_size_def sz_of_int_id)
  show ?thesis
  proof (cases "?b = 1")
    case True
    then have "dim t 0 = nat (t_ne t ! 0)" by (simp add: dim_def)
    then have "sz_mul (sz_of_int (i64 (t_ne t ! 0 - 1))) (t_nb t ! 0) = o0"
      using p assms(2) unfolding sp o0_def by (simp add: step_eq)
    then show ?thesis
      using True p s bs assms(2) unfolding sp by (simp add: ggml_nbytes_def Let_def sz_add_id)
  next
    case False
    then have nb: "t_nb t ! 0 = ggml_type_size (t_type t)" "nat (t_ne t ! 0) * ggml_type_size (t_type t) \<le> SIZE_MAX"
      using assms(3) by (auto simp: ggml_blck_size_def)
    have ne: "sz_of_int (t_ne t ! 0) = nat (t_ne t ! 0)" using p by (simp add: sz_of_int_id)
    have "nat (t_ne t ! 0) * t_nb t ! 0 div ?b = dim t 0 * ggml_type_size (t_type t)"
      using dim_0(1) [OF assms(1)] traits_pos(1) [of "t_type t"] nb(1) by (simp add: mult.assoc mult.commute mult.left_commute)
    also have "\<dots> = o0 + ggml_type_size (t_type t)"
      using dim_0(2) [OF assms(1)] nb(1) by (cases "dim t 0") (simp_all add: o0_def)
    finally have "sz_mul (sz_of_int (t_ne t ! 0)) (t_nb t ! 0) div ?b = o0 + ggml_type_size (t_type t)"
      using nb ne by (simp add: sz_mul_id)
    then show ?thesis
      using False p s bs assms(2) unfolding sp by (simp add: ggml_nbytes_def Let_def sz_add_id add.commute add.left_commute)
  qed
qed

lemma elem_in_span:
  assumes "j < dim t 0" "i1 < dim t 1" "i2 < dim t 2" "i3 < dim t 3"
  shows "elem_offset t j i1 i2 i3 + ggml_type_size (t_type t) \<le> tensor_span t"
  unfolding tensor_span_def elem_offset_def
  using assms by (intro add_mono mult_right_mono) auto

section \<open>Contiguous tensors\<close>

text \<open>The number of bytes of the packed tensor, which the code's running product \<^verbatim>\<open>next_nb\<close> reaches.\<close>

definition packed_size :: "ggml_tensor \<Rightarrow> nat" where
  "packed_size t = ggml_type_size (t_type t) * dim t 0 * dim t 1 * dim t 2 * dim t 3"

definition linear_index :: "ggml_tensor \<Rightarrow> nat \<Rightarrow> nat \<Rightarrow> nat \<Rightarrow> nat \<Rightarrow> nat" where
  "linear_index t j i1 i2 i3 = j + dim t 0 * (i1 + dim t 1 * (i2 + dim t 2 * i3))"

lemma packed_prefixes:
  assumes "dims_pos t" "packed_size t \<le> SIZE_MAX"
  shows "ggml_type_size (t_type t) * dim t 0 * dim t 1 * dim t 2 \<le> SIZE_MAX"
    "ggml_type_size (t_type t) * dim t 0 * dim t 1 \<le> SIZE_MAX" "ggml_type_size (t_type t) * dim t 0 \<le> SIZE_MAX"
proof -
  note p = dim_pos [OF assms(1)]
  have m: "a * n \<le> SIZE_MAX \<Longrightarrow> 0 < n \<Longrightarrow> a \<le> SIZE_MAX" for a n :: nat
    by (metis One_nat_def Suc_leI le_trans mult.right_neutral mult_le_mono2)
  show 1: "ggml_type_size (t_type t) * dim t 0 * dim t 1 * dim t 2 \<le> SIZE_MAX"
    using m [OF _ p(4)] assms(2) by (simp add: packed_size_def)
  then show 2: "ggml_type_size (t_type t) * dim t 0 * dim t 1 \<le> SIZE_MAX" using m p(3) by blast
  then show "ggml_type_size (t_type t) * dim t 0 \<le> SIZE_MAX" using m p(2) by blast
qed

lemma is_contiguous_iff:
  assumes "dims_pos t" "packed_size t \<le> SIZE_MAX"
  shows "ggml_is_contiguous t \<longleftrightarrow>
    (t_ne t ! 0 = ggml_blck_size (t_type t) \<or> t_nb t ! 0 = ggml_type_size (t_type t))
    \<and> (dim t 1 = 1 \<or> t_nb t ! 1 = ggml_type_size (t_type t) * dim t 0)
    \<and> (dim t 2 = 1 \<or> t_nb t ! 2 = ggml_type_size (t_type t) * dim t 0 * dim t 1)
    \<and> (dim t 3 = 1 \<or> t_nb t ! 3 = ggml_type_size (t_type t) * dim t 0 * dim t 1 * dim t 2)"
proof -
  note p = dims_posD [OF assms(1)] and d0 = dim_0(3) [OF assms(1)] and m = packed_prefixes [OF assms]
  have c: "sz_of_int (t_ne t ! 1) = dim t 1" "sz_of_int (t_ne t ! 2) = dim t 2"
    "t_ne t ! 1 = 1 \<longleftrightarrow> dim t 1 = 1" "t_ne t ! 2 = 1 \<longleftrightarrow> dim t 2 = 1" "t_ne t ! 3 = 1 \<longleftrightarrow> dim t 3 = 1"
    using p by (auto simp: sz_of_int_id dim_def)
  have "dim t 0 \<le> nat (t_ne t ! 0)" by (simp add: dim_def)
  then have s0: "sz_of_int (int (dim t 0)) = dim t 0" using p(1,5) by (simp add: sz_of_int_id)
  have e: "sz_mul (ggml_type_size (t_type t)) (dim t 0) = ggml_type_size (t_type t) * dim t 0"
    "sz_mul (ggml_type_size (t_type t) * dim t 0) (dim t 1) = ggml_type_size (t_type t) * dim t 0 * dim t 1"
    "sz_mul (ggml_type_size (t_type t) * dim t 0 * dim t 1) (dim t 2)
       = ggml_type_size (t_type t) * dim t 0 * dim t 1 * dim t 2"
    using m by (simp_all add: sz_mul_id)
  show ?thesis
    unfolding ggml_is_contiguous_def ggml_is_contiguous_0_def ggml_is_contiguous_n_def Let_def d0 s0
      is_contiguous_loop.simps c e by (simp del: One_nat_def)
qed

lemma one_block: "dims_pos t \<Longrightarrow> t_ne t ! 0 = ggml_blck_size (t_type t) \<Longrightarrow> dim t 0 = 1"
  using traits_pos(1) [of "t_type t"] by (simp add: dim_def ggml_blck_size_def)

lemma contiguous_offset:
  assumes "dims_pos t" "packed_size t \<le> SIZE_MAX" "ggml_is_contiguous t"
    and "j < dim t 0" "i1 < dim t 1" "i2 < dim t 2" "i3 < dim t 3"
  shows "elem_offset t j i1 i2 i3 = ggml_type_size (t_type t) * linear_index t j i1 i2 i3"
proof -
  note c = assms(3) [unfolded is_contiguous_iff [OF assms(1,2)]]
  have a: "j * t_nb t ! 0 = j * ggml_type_size (t_type t)" using c assms(4) one_block [OF assms(1)] by auto
  have b: "i1 * t_nb t ! 1 = i1 * (ggml_type_size (t_type t) * dim t 0)" using c assms(5) by auto
  have d: "i2 * t_nb t ! 2 = i2 * (ggml_type_size (t_type t) * dim t 0 * dim t 1)" using c assms(6) by auto
  have e: "i3 * t_nb t ! 3 = i3 * (ggml_type_size (t_type t) * dim t 0 * dim t 1 * dim t 2)" using c assms(7) by auto
  show ?thesis unfolding elem_offset_def a b d e linear_index_def by (simp only: algebra_simps)
qed

lemma radix_inj:
  fixes i k :: nat
  assumes "i < n" "k < n" "i + n * a = k + n * b" shows "i = k \<and> a = b"
proof -
  have "(i + n * a) mod n = (k + n * b) mod n" using assms(3) by simp
  then have "i = k" using assms(1,2) by simp
  then show ?thesis using assms by simp
qed

lemma linear_index_inj:
  assumes "linear_index t j i1 i2 i3 = linear_index t k l1 l2 l3"
    and "j < dim t 0" "i1 < dim t 1" "i2 < dim t 2" "k < dim t 0" "l1 < dim t 1" "l2 < dim t 2"
  shows "j = k \<and> i1 = l1 \<and> i2 = l2 \<and> i3 = l3"
proof -
  have "j = k \<and> i1 + dim t 1 * (i2 + dim t 2 * i3) = l1 + dim t 1 * (l2 + dim t 2 * l3)"
    using assms(1) unfolding linear_index_def by (rule radix_inj [OF assms(2,5)])
  moreover then have "i1 = l1 \<and> i2 + dim t 2 * i3 = l2 + dim t 2 * l3" using radix_inj [OF assms(3,6)] by blast
  moreover then have "i2 = l2 \<and> i3 = l3" using radix_inj [OF assms(4,7)] by blast
  ultimately show ?thesis by blast
qed

lemma radix_less:
  fixes i n a m :: nat
  assumes "i < n" "a < m" shows "i + n * a < n * m"
proof -
  have "i + n * a < n * Suc a" using assms(1) by simp
  also have "\<dots> \<le> n * m" using assms(2) by (intro mult_le_mono2) simp
  finally show ?thesis .
qed

lemma radix_unique:
  fixes z s x :: nat
  assumes "s * x \<le> z" "z < s * x + s" shows "z div s = x"
  using assms by (intro div_nat_eqI) simp_all

section \<open>Index decomposition\<close>

lemma int_div_less:
  fixes i k n :: int
  assumes "0 < k" "i < k * n" shows "i div k < n"
proof (rule ccontr)
  assume "\<not> i div k < n"
  then have "k * n \<le> k * (i div k)" using assms(1) by (intro mult_left_mono) simp_all
  then show False using assms mult_div_mod_eq [of k i] pos_mod_sign [OF assms(1), of i] by linarith
qed

lemma mult_less_imp_less:
  fixes a b k :: int
  assumes "a * b < k" "0 < b" "0 \<le> a" shows "a < k"
proof -
  have "a * 1 \<le> a * b" using assms(2,3) by (intro mult_left_mono) simp_all
  then show ?thesis using assms(1) by linarith
qed

lemma unravel_arith:
  fixes i n0 n1 n2 :: int
  assumes "0 < n0" "0 < n1" "0 < n2"
  shows "(i - i div (n2 * n1 * n0) * n2 * n1 * n0) div (n1 * n0) = i div n0 div n1 mod n2"
    "(i - i div (n2 * n1 * n0) * n2 * n1 * n0 - (i div n0 div n1 mod n2) * n1 * n0) div n0 = i div n0 mod n1"
    "i - i div (n2 * n1 * n0) * n2 * n1 * n0 - (i div n0 div n1 mod n2) * n1 * n0 - (i div n0 mod n1) * n0 = i mod n0"
    "i div (n2 * n1 * n0) = i div n0 div n1 div n2"
proof -
  let ?a = "i div n0" let ?b = "?a div n1" let ?c = "?b div n2"
  show d: "i div (n2 * n1 * n0) = ?c"
    using assms by (simp add: zdiv_zmult2_eq mult.commute [of _ n0] mult.commute [of n2] mult.assoc)
  have e0: "i = ?a * n0 + i mod n0" and e1: "?a = ?b * n1 + ?a mod n1" and e2: "?b = ?c * n2 + ?b mod n2" by simp_all
  have r: "i - ?c * n2 * n1 * n0 = ((?b mod n2) * n1 + ?a mod n1) * n0 + i mod n0"
  proof -
    have x: "((c * n2 + x) * n1 + y) * n0 + z - c * n2 * n1 * n0 = (x * n1 + y) * n0 + z" for c x y z
      by (simp add: algebra_simps)
    have "i = ((?c * n2 + ?b mod n2) * n1 + ?a mod n1) * n0 + i mod n0" using e0 e1 e2 by metis
    then have "i - ?c * n2 * n1 * n0 = ((?c * n2 + ?b mod n2) * n1 + ?a mod n1) * n0 + i mod n0 - ?c * n2 * n1 * n0"
      by (rule arg_cong [of _ _ "\<lambda>u. u - ?c * n2 * n1 * n0"])
    then show ?thesis by (simp only: x)
  qed
  have m0: "0 \<le> i mod n0" "i mod n0 < n0" and m1: "0 \<le> ?a mod n1" "?a mod n1 < n1" using assms by simp_all
  have q0: "(((?b mod n2) * n1 + ?a mod n1) * n0 + i mod n0) div n0 = (?b mod n2) * n1 + ?a mod n1"
    using assms m0 by simp
  show "(i - i div (n2 * n1 * n0) * n2 * n1 * n0) div (n1 * n0) = ?b mod n2"
  proof -
    have "(i - ?c * n2 * n1 * n0) div (n1 * n0) = (i - ?c * n2 * n1 * n0) div n0 div n1"
      using assms by (simp add: zdiv_zmult2_eq mult.commute [of n1 n0])
    also have "\<dots> = ?b mod n2" unfolding r q0 using assms m1 by simp
    finally show ?thesis by (simp add: d)
  qed
  have r2: "i - ?c * n2 * n1 * n0 - (?b mod n2) * n1 * n0 = (?a mod n1) * n0 + i mod n0"
    using r by (simp add: algebra_simps)
  show "(i - i div (n2 * n1 * n0) * n2 * n1 * n0 - (?b mod n2) * n1 * n0) div n0 = ?a mod n1"
    unfolding d r2 using assms m0 by simp
  show "i - i div (n2 * n1 * n0) * n2 * n1 * n0 - (?b mod n2) * n1 * n0 - (?a mod n1) * n0 = i mod n0"
    unfolding d r2 by simp
qed

lemma unravel_eq:
  assumes "0 < t_ne t ! 0" "0 < t_ne t ! 1" "0 < t_ne t ! 2"
    and "t_ne t ! 2 * t_ne t ! 1 * t_ne t ! 0 < 2 ^ 63" "0 \<le> i" "i < 2 ^ 63"
  shows "ggml_unravel_index t i =
    (i mod t_ne t ! 0, i div t_ne t ! 0 mod t_ne t ! 1, i div t_ne t ! 0 div t_ne t ! 1 mod t_ne t ! 2,
     i div t_ne t ! 0 div t_ne t ! 1 div t_ne t ! 2)"
proof -
  define n0 where "n0 = t_ne t ! 0"
  define n1 where "n1 = t_ne t ! 1"
  define n2 where "n2 = t_ne t ! 2"
  have n: "0 < n0" "0 < n1" "0 < n2" "n2 * n1 * n0 < 2 ^ 63" using assms by (simp_all add: n0_def n1_def n2_def)
  have id: "i64 x = x" if "0 \<le> x" "x < 2 ^ 63" for x using that by (simp add: i64_id)
  note lt = mult_less_imp_less
  have b1: "n2 * n1 < 2 ^ 63" using lt [OF n(4)] n by simp
  have b2: "n1 * n0 < 2 ^ 63" using lt [of "n1 * n0" n2] n by (simp add: mult.commute mult.left_commute)
  define c where "c = i div (n2 * n1 * n0)"
  have N: "0 < n2 * n1 * n0" using n by simp
  have c0: "0 \<le> c" using N assms(5) by (simp add: c_def pos_imp_zdiv_nonneg_iff)
  have cle: "c * n2 * n1 * n0 \<le> i"
    using minus_mod_eq_div_mult [of i "n2 * n1 * n0"] pos_mod_sign [OF N, of i] unfolding c_def mult.assoc by linarith
  have c1: "c * n2 * n1 * n0 < 2 ^ 63" using cle assms(6) by linarith
  have c2: "c * n2 * n1 < 2 ^ 63" using lt [OF c1] n c0 by simp
  have c3: "c * n2 < 2 ^ 63" using lt [OF c2] n c0 by simp
  have c4: "c < 2 ^ 63" using lt [OF c3] n c0 by simp
  have nn: "0 \<le> c * n2 * n1 * n0" using c0 n by (intro mult_nonneg_nonneg) simp_all
  define r where "r = i - c * n2 * n1 * n0"
  have r0: "0 \<le> r" "r < 2 ^ 63" using cle nn assms(6) by (simp_all add: r_def)
  note u = unravel_arith [OF n(1-3), of i, folded c_def, folded r_def]
  define i2 where "i2 = i div n0 div n1 mod n2"
  define i1 where "i1 = i div n0 mod n1"
  have i2: "r div (n1 * n0) = i2" using u(1) by (simp add: i2_def)
  have P: "0 < n1 * n0" using n by simp
  have i20: "0 \<le> i2" using n by (simp add: i2_def)
  have i21: "i2 * n1 * n0 \<le> r"
    using minus_mod_eq_div_mult [of r "n1 * n0"] pos_mod_sign [OF P, of r] unfolding i2 mult.assoc by linarith
  have j1: "i2 * n1 * n0 < 2 ^ 63" using i21 r0 by linarith
  have j2: "i2 * n1 < 2 ^ 63" using lt [OF j1] n i20 by simp
  have j3: "i2 < 2 ^ 63" using lt [OF j2] n i20 by simp
  have nn2: "0 \<le> i2 * n1 * n0" using i20 n by (intro mult_nonneg_nonneg) simp_all
  define q where "q = r - i2 * n1 * n0"
  have q0: "0 \<le> q" "q < 2 ^ 63" using i21 r0 nn2 by (simp_all add: q_def)
  have i1: "q div n0 = i1" using u(2) by (simp add: q_def i1_def i2_def)
  have i10: "0 \<le> i1" using n by (simp add: i1_def)
  have i11: "i1 * n0 \<le> q" using minus_mod_eq_div_mult [of q n0] pos_mod_sign [OF n(1), of q] unfolding i1 by linarith
  have k1: "i1 * n0 < 2 ^ 63" using i11 q0 by linarith
  have k2: "i1 < 2 ^ 63" using lt [OF k1] n i10 by simp
  have i0: "q - i1 * n0 = i mod n0" using u(3) by (simp add: q_def i1_def i2_def)
  have nn3: "0 \<le> i1 * n0" using i10 n by (intro mult_nonneg_nonneg) simp_all
  have i00: "i mod n0 < 2 ^ 63" "0 \<le> i mod n0" using n i0 q0 nn3 by simp_all
  show ?thesis
    unfolding ggml_unravel_index_def Let_def n0_def [symmetric] n1_def [symmetric] n2_def [symmetric]
    using n b1 b2 c0 c1 c2 c3 c4 r0 i20 j1 j2 j3 q0 i10 k1 k2 i00 assms(5,6)
    by (simp add: id sdiv_pos c_def [symmetric] r_def [symmetric] i2 q_def [symmetric] i1 i0)
      (simp add: i1_def i2_def u(4))
qed

section \<open>Properties\<close>

text \<open>
  C27: \<^verbatim>\<open>ggml_nbytes\<close> bounds the tensor: for positive extents and whole blocks, and when neither
  the span nor the product \<^verbatim>\<open>ne[0]*nb[0]\<close> exceeds 64 bits, every block of the tensor ends at or
  before \<^verbatim>\<open>data + ggml_nbytes\<close>, and the last block ends exactly there. The strides are arbitrary, except
  that for a type with blocks of several elements the first stride is the size of a block.
\<close>

theorem ggml_nbytes_bounds_elements:
  assumes "dims_pos t" "tensor_span t \<le> SIZE_MAX"
    and "ggml_blck_size (t_type t) = 1
      \<or> t_nb t ! 0 = ggml_type_size (t_type t) \<and> nat (t_ne t ! 0) * ggml_type_size (t_type t) \<le> SIZE_MAX"
    and "j < dim t 0" "i1 < dim t 1" "i2 < dim t 2" "i3 < dim t 3"
  shows "elem_offset t j i1 i2 i3 + ggml_type_size (t_type t) \<le> ggml_nbytes t
    \<and> elem_offset t (dim t 0 - 1) (dim t 1 - 1) (dim t 2 - 1) (dim t 3 - 1) + ggml_type_size (t_type t) = ggml_nbytes t"
  using elem_in_span [OF assms(4-7)] nbytes_eq_span [OF assms(1-3)] by (simp add: tensor_span_def)

text \<open>A 64 x 3 x 2 tensor of 4-bit blocks, packed, and a padded 5 x 4 tensor of floats.\<close>

definition sample_q4 :: ggml_tensor where
  "sample_q4 = \<lparr>t_type = GGML_TYPE_Q4_0, t_buffer = 0, t_ne = [64, 3, 2, 1], t_nb = [18, 36, 108, 216],
     t_op = GGML_OP_NONE, t_op_params = replicate 16 0, t_flags = 0, t_src = replicate 10 0, t_view_src = 0,
     t_view_offs = 0, t_data = 4096, t_name = ''w'', t_extra = 0\<rparr>"

definition sample_f32 :: ggml_tensor where
  "sample_f32 = sample_q4\<lparr>t_type := GGML_TYPE_F32, t_ne := [5, 4, 1, 1], t_nb := [4, 32, 128, 128]\<rparr>"

lemmas sample_eval = sample_q4_def sample_f32_def dims_pos_def all_less_4 dim_def tensor_span_def elem_offset_def
  packed_size_def ggml_blck_size_def ggml_type_size_def sizeof_block_defs

theorem ggml_nbytes_bounds_elements_witness:
  "elem_offset sample_f32 4 2 0 0 + ggml_type_size (t_type sample_f32) \<le> ggml_nbytes sample_f32
   \<and> ggml_nbytes sample_f32 = 116"
  using ggml_nbytes_bounds_elements [of sample_f32 4 2 0 0] by (simp add: sample_eval)

text \<open>
  C28: in a tensor that \<^verbatim>\<open>ggml_is_contiguous\<close> accepts, the block with coordinates
  \<open>(j, i1, i2, i3)\<close> lies at its linear index times the block size, so blocks with different
  coordinates never share a byte and the tensor fills \<open>packed_size\<close> bytes.
\<close>

theorem ggml_is_contiguous_no_alias:
  assumes "dims_pos t" "packed_size t \<le> SIZE_MAX" "ggml_is_contiguous t"
    and "j < dim t 0" "i1 < dim t 1" "i2 < dim t 2" "i3 < dim t 3"
    and "k < dim t 0" "l1 < dim t 1" "l2 < dim t 2" "l3 < dim t 3"
  shows "elem_offset t j i1 i2 i3 = ggml_type_size (t_type t) * linear_index t j i1 i2 i3
    \<and> elem_offset t j i1 i2 i3 + ggml_type_size (t_type t) \<le> packed_size t
    \<and> ({elem_offset t j i1 i2 i3 ..< elem_offset t j i1 i2 i3 + ggml_type_size (t_type t)}
        \<inter> {elem_offset t k l1 l2 l3 ..< elem_offset t k l1 l2 l3 + ggml_type_size (t_type t)} \<noteq> {}
      \<longrightarrow> (j, i1, i2, i3) = (k, l1, l2, l3))"
proof -
  let ?s = "ggml_type_size (t_type t)" and ?x = "linear_index t j i1 i2 i3" and ?y = "linear_index t k l1 l2 l3"
  note o1 = contiguous_offset [OF assms(1-7)] and o2 = contiguous_offset [OF assms(1-3,8-11)]
  have "linear_index t j i1 i2 i3 < dim t 0 * (dim t 1 * (dim t 2 * dim t 3))"
    unfolding linear_index_def using assms(4-7) by (intro radix_less)
  then have "?s * Suc ?x \<le> ?s * (dim t 0 * (dim t 1 * (dim t 2 * dim t 3)))" by (intro mult_le_mono2) simp
  then have b: "elem_offset t j i1 i2 i3 + ?s \<le> packed_size t" by (simp add: o1 packed_size_def mult.assoc add.commute)
  have "?x = ?y" if "z \<in> {?s * ?x ..< ?s * ?x + ?s} \<inter> {?s * ?y ..< ?s * ?y + ?s}" for z
    using that radix_unique [of ?s ?x z] radix_unique [of ?s ?y z] by auto
  then have "(j, i1, i2, i3) = (k, l1, l2, l3)"
    if "{?s * ?x ..< ?s * ?x + ?s} \<inter> {?s * ?y ..< ?s * ?y + ?s} \<noteq> {}"
    using that linear_index_inj [of t j i1 i2 i3 k l1 l2 l3] assms(4-10) by blast
  with o1 o2 b show ?thesis by simp
qed

theorem ggml_is_contiguous_no_alias_witness:
  "ggml_is_contiguous sample_q4 \<and> elem_offset sample_q4 1 2 1 0 = 18 * linear_index sample_q4 1 2 1 0"
proof -
  have c: "ggml_is_contiguous sample_q4"
    by (subst is_contiguous_iff) (simp_all add: sample_eval)
  show ?thesis
    using ggml_is_contiguous_no_alias [of sample_q4 1 2 1 0 0 0 0 0] c by (simp add: sample_eval)
qed

text \<open>
  \<^verbatim>\<open>ggml_unravel_index\<close> returns the coordinates of a linear index: each coordinate is within
  its extent and they recombine to the index, for every index below the number of elements (the
  product of the extents fits an \<^verbatim>\<open>int64_t\<close>).
\<close>

theorem ggml_unravel_index_correct:
  assumes "0 < t_ne t ! 0" "0 < t_ne t ! 1" "0 < t_ne t ! 2" "0 < t_ne t ! 3"
    and "t_ne t ! 0 * t_ne t ! 1 * t_ne t ! 2 * t_ne t ! 3 < 2 ^ 63"
    and "0 \<le> i" "i < ggml_nelements t"
  shows "case ggml_unravel_index t i of (i0, i1, i2, i3) \<Rightarrow>
    0 \<le> i0 \<and> i0 < t_ne t ! 0 \<and> 0 \<le> i1 \<and> i1 < t_ne t ! 1 \<and> 0 \<le> i2 \<and> i2 < t_ne t ! 2
    \<and> 0 \<le> i3 \<and> i3 < t_ne t ! 3
    \<and> i = i0 + t_ne t ! 0 * (i1 + t_ne t ! 1 * (i2 + t_ne t ! 2 * i3))"
proof -
  define n0 where "n0 = t_ne t ! 0"
  define n1 where "n1 = t_ne t ! 1"
  define n2 where "n2 = t_ne t ! 2"
  define n3 where "n3 = t_ne t ! 3"
  have n: "0 < n0" "0 < n1" "0 < n2" "0 < n3" "n0 * n1 * n2 * n3 < 2 ^ 63"
    using assms(1-5) by (simp_all add: n0_def n1_def n2_def n3_def)
  have b: "n0 * n1 * n2 < 2 ^ 63" using mult_less_imp_less [OF n(5)] n by simp
  have c: "n0 * n1 < 2 ^ 63" using mult_less_imp_less [OF b] n by simp
  have "ggml_nelements t = n0 * n1 * n2 * n3"
    unfolding ggml_nelements_def n0_def [symmetric] n1_def [symmetric] n2_def [symmetric] n3_def [symmetric]
    using n b c i64_pos [of "n0 * n1"] i64_pos [of "n0 * n1 * n2"] i64_pos [of "n0 * n1 * n2 * n3"] by simp
  then have i: "i < n0 * n1 * n2 * n3" "i < 2 ^ 63" using assms(7) n(5) by linarith+
  have u: "ggml_unravel_index t i = (i mod n0, i div n0 mod n1, i div n0 div n1 mod n2, i div n0 div n1 div n2)"
    unfolding n0_def n1_def n2_def using assms(1-3,6) i(2) b
    by (intro unravel_eq) (simp_all add: n0_def n1_def n2_def mult.commute mult.left_commute)
  have "i div (n0 * n1 * n2) < n3" using n i(1) by (intro int_div_less) simp_all
  then have "i div n0 div n1 div n2 < n3" using n by (simp add: zdiv_zmult2_eq)
  moreover have "0 \<le> i div n0 div n1 div n2" using n assms(6) by (simp add: pos_imp_zdiv_nonneg_iff)
  moreover have "i = i mod n0 + n0 * (i div n0 mod n1 + n1 * (i div n0 div n1 mod n2 + n2 * (i div n0 div n1 div n2)))"
    by (simp only: mod_mult_div_eq)
  ultimately show ?thesis using n unfolding u n0_def n1_def n2_def n3_def by simp
qed

theorem ggml_unravel_index_correct_witness:
  "case ggml_unravel_index sample_f32 13 of (i0, i1, i2, i3) \<Rightarrow> 13 = i0 + 5 * (i1 + 4 * (i2 + 1 * i3)) \<and> i0 < 5"
  using ggml_unravel_index_correct [of sample_f32 13] by (simp add: sample_eval ggml_nelements_def i64_def split: prod.splits)

end
