(* ===== verification/GGML_Context.thy ===== *)
theory GGML_Context
  imports GGML_Layout GGML_Alloc_Spec
begin

text \<open>
  The context of \<^verbatim>\<open>ggml/src/ggml.c\<close>: a memory pool in which objects (tensor descriptors with
  their data, graphs, work buffers) are placed one behind the other, linked through
  \<^verbatim>\<open>struct ggml_object\<close> headers. The state of the model is the context, the object headers and
  the tensor descriptors by address; descriptors of other contexts live in the same map. Data
  bytes are not part of the state: nothing in these functions reads them. A read through a
  pointer with no object behind it stops the model (\<open>None\<close>), like a failed assertion.
\<close>

section \<open>State\<close>

datatype ggml_object_type =
  GGML_OBJECT_TYPE_TENSOR | GGML_OBJECT_TYPE_GRAPH | GGML_OBJECT_TYPE_WORK_BUFFER

record ggml_object =
  o_offs :: size_t
  o_size :: size_t
  o_next :: ptr
  o_type :: ggml_object_type

record ggml_context =
  c_mem_size :: size_t
  c_mem_buffer :: ptr
  c_mem_buffer_owned :: bool
  c_no_alloc :: bool
  c_n_objects :: int
  c_objects_begin :: ptr
  c_objects_end :: ptr

record ggml_init_params =
  ip_mem_size :: size_t
  ip_mem_buffer :: ptr
  ip_no_alloc :: bool

record ggml_state =
  st_ctx :: ggml_context
  st_objects :: "ptr \<rightharpoonup> ggml_object"
  st_tensors :: "ptr \<rightharpoonup> ggml_tensor"

abbreviation (input) GGML_OBJECT_SIZE :: size_t where "GGML_OBJECT_SIZE \<equiv> 32"
abbreviation (input) GGML_TENSOR_SIZE :: size_t where "GGML_TENSOR_SIZE \<equiv> 336"

definition ggml_tensor_overhead :: size_t where
  "ggml_tensor_overhead = GGML_OBJECT_SIZE + GGML_TENSOR_SIZE"

section \<open>Life cycle\<close>

text \<open>
  \<open>posix_memalign\<close> is the system's allocator: alignment and size to an address, \<open>0\<close> on failure.
\<close>

definition ggml_aligned_malloc :: "(size_t \<Rightarrow> size_t \<Rightarrow> ptr) \<Rightarrow> size_t \<Rightarrow> ptr" where
  "ggml_aligned_malloc posix_memalign sz = (if sz = 0 then 0 else posix_memalign 64 sz)"

text \<open>
  Whatever was stored in the memory of a pool is dead once the pool is handed to a new context
  or reset.
\<close>

definition forget_pool :: "ggml_context \<Rightarrow> (ptr \<rightharpoonup> 'a) \<Rightarrow> (ptr \<rightharpoonup> 'a)" where
  "forget_pool c m = m |` {p. p < c_mem_buffer c \<or> c_mem_buffer c + c_mem_size c \<le> p}"

definition ggml_init ::
  "(size_t \<Rightarrow> size_t \<Rightarrow> ptr) \<Rightarrow> ggml_state \<Rightarrow> ggml_init_params \<Rightarrow> ggml_state option" where
  "ggml_init posix_memalign s params0 = do {
     let params = (if ip_mem_size params0 = 0 then params0\<lparr>ip_mem_size := GGML_MEM_ALIGN\<rparr> else params0);
     let mem_size = (if ip_mem_buffer params \<noteq> 0 then ip_mem_size params
                     else GGML_PAD (ip_mem_size params) GGML_MEM_ALIGN);
     let ctx = \<lparr>c_mem_size = mem_size,
                c_mem_buffer = (if ip_mem_buffer params \<noteq> 0 then ip_mem_buffer params
                                else ggml_aligned_malloc posix_memalign mem_size),
                c_mem_buffer_owned = (ip_mem_buffer params = 0),
                c_no_alloc = ip_no_alloc params,
                c_n_objects = 0, c_objects_begin = 0, c_objects_end = 0\<rparr>;
     ggml_assert (c_mem_buffer ctx \<noteq> 0);
     ggml_assert (c_mem_buffer ctx mod GGML_MEM_ALIGN = 0);
     Some (s\<lparr>st_ctx := ctx, st_objects := forget_pool ctx (st_objects s),
             st_tensors := forget_pool ctx (st_tensors s)\<rparr>) }"

definition ggml_reset :: "ggml_state \<Rightarrow> ggml_state" where
  "ggml_reset s =
     (let ctx = st_ctx s
      in s\<lparr>st_ctx := ctx\<lparr>c_n_objects := 0, c_objects_begin := 0, c_objects_end := 0\<rparr>,
           st_objects := forget_pool ctx (st_objects s), st_tensors := forget_pool ctx (st_tensors s)\<rparr>)"

definition ggml_used_mem :: "ggml_state \<Rightarrow> size_t option" where
  "ggml_used_mem s =
     (if c_objects_end (st_ctx s) = 0 then Some 0
      else do { ob \<leftarrow> st_objects s (c_objects_end (st_ctx s)); Some (sz_add (o_offs ob) (o_size ob)) })"

definition ggml_get_no_alloc :: "ggml_state \<Rightarrow> bool" where
  "ggml_get_no_alloc s = c_no_alloc (st_ctx s)"

definition ggml_set_no_alloc :: "ggml_state \<Rightarrow> bool \<Rightarrow> ggml_state" where
  "ggml_set_no_alloc s no_alloc = s\<lparr>st_ctx := (st_ctx s)\<lparr>c_no_alloc := no_alloc\<rparr>\<rparr>"

definition ggml_get_mem_buffer :: "ggml_state \<Rightarrow> ptr" where
  "ggml_get_mem_buffer s = c_mem_buffer (st_ctx s)"

definition ggml_get_mem_size :: "ggml_state \<Rightarrow> size_t" where
  "ggml_get_mem_size s = c_mem_size (st_ctx s)"

section \<open>Objects\<close>

text \<open>
  The result is the address of the header, \<open>0\<close> when the pool is too small; \<open>None\<close> is a failed
  assertion. The build is one with \<^verbatim>\<open>NDEBUG\<close>.
\<close>

definition ggml_new_object ::
  "ggml_state \<Rightarrow> ggml_object_type \<Rightarrow> size_t \<Rightarrow> (ptr \<times> ggml_state) option" where
  "ggml_new_object s type sz = do {
     let ctx = st_ctx s;
     let obj_cur = c_objects_end ctx;
     (cur_offs, cur_size) \<leftarrow> (if obj_cur = 0 then Some (0, 0)
        else do { ob \<leftarrow> st_objects s obj_cur; Some (o_offs ob, o_size ob) });
     let cur_end = sz_add cur_offs cur_size;
     ggml_assert (sz \<le> SIZE_MAX - (GGML_MEM_ALIGN - 1));
     let size_needed = GGML_PAD sz GGML_MEM_ALIGN;
     let mem_buffer = c_mem_buffer ctx;
     let obj_new = sz_add mem_buffer cur_end;
     if cur_end > sz_sub SIZE_MAX size_needed then Some (0, s)
     else if sz_add cur_end size_needed > SIZE_MAX - GGML_OBJECT_SIZE then Some (0, s)
     else if sz_add (sz_add cur_end size_needed) GGML_OBJECT_SIZE > c_mem_size ctx then Some (0, s)
     else do {
       let ob = \<lparr>o_offs = sz_add cur_end GGML_OBJECT_SIZE, o_size = size_needed, o_next = 0, o_type = type\<rparr>;
       ggml_assert (sz_add mem_buffer (o_offs ob) mod GGML_MEM_ALIGN = 0);
       let objects = (st_objects s)(obj_new \<mapsto> ob);
       let objects = (if obj_cur \<noteq> 0
                      then objects(obj_cur := map_option (\<lambda>ob. ob\<lparr>o_next := obj_new\<rparr>) (objects obj_cur))
                      else objects);
       let ctx = (if obj_cur \<noteq> 0 then ctx else ctx\<lparr>c_objects_begin := obj_new\<rparr>);
       Some (obj_new, s\<lparr>st_objects := objects, st_ctx := ctx\<lparr>c_objects_end := obj_new\<rparr>\<rparr>) } }"

definition ggml_new_buffer :: "ggml_state \<Rightarrow> size_t \<Rightarrow> (ptr \<times> ggml_state) option" where
  "ggml_new_buffer s nbytes = do {
     (obj, s) \<leftarrow> ggml_new_object s GGML_OBJECT_TYPE_WORK_BUFFER nbytes;
     ob \<leftarrow> st_objects s obj;
     Some (sz_add (c_mem_buffer (st_ctx s)) (o_offs ob), s) }"

section \<open>Tensors\<close>

text \<open>\<open>deref s p\<close> reads the descriptor at \<open>p\<close>; \<open>upd s p f\<close> assigns to its fields.\<close>

definition deref :: "ggml_state \<Rightarrow> ptr \<Rightarrow> ggml_tensor option" where
  "deref s p = st_tensors s p"

definition upd :: "ggml_state \<Rightarrow> ptr \<Rightarrow> (ggml_tensor \<Rightarrow> ggml_tensor) \<Rightarrow> ggml_state" where
  "upd s p f = s\<lparr>st_tensors := (st_tensors s)(p := map_option f (st_tensors s p))\<rparr>"

fun data_size_loop :: "int64_t list \<Rightarrow> size_t \<Rightarrow> size_t" where
  "data_size_loop [] data_size = data_size"
| "data_size_loop (n # ns) data_size = data_size_loop ns (sz_mul data_size (sz_of_int n))"

definition new_tensor_nb :: "ggml_type \<Rightarrow> int64_t list \<Rightarrow> size_t list" where
  "new_tensor_nb type ne =
     (let nb0 = ggml_type_size type;
          nb1 = sz_mul nb0 (sz_of_int (ne ! 0 sdiv ggml_blck_size type));
          nb2 = sz_mul nb1 (sz_of_int (ne ! 1));
          nb3 = sz_mul nb2 (sz_of_int (ne ! 2))
      in [nb0, nb1, nb2, nb3])"

text \<open>The base tensor and absolute offset of a view: a view of a view refers to the base.\<close>

definition new_tensor_view_base :: "ggml_state \<Rightarrow> ptr \<Rightarrow> size_t \<Rightarrow> (ptr \<times> size_t) option" where
  "new_tensor_view_base s view_src view_offs =
     (if view_src \<noteq> 0 then do {
        v \<leftarrow> deref s view_src;
        Some (if t_view_src v \<noteq> 0 then (t_view_src v, sz_add view_offs (t_view_offs v))
              else (view_src, view_offs)) }
      else Some (view_src, view_offs))"

text \<open>The data pointer a view inherits, after the check that the view fits its base.\<close>

definition new_tensor_view_data :: "ggml_state \<Rightarrow> size_t \<Rightarrow> ptr \<Rightarrow> size_t \<Rightarrow> ptr option" where
  "new_tensor_view_data s data_size view_src view_offs =
     (if view_src = 0 then Some 0
      else do {
        v \<leftarrow> deref s view_src;
        ggml_assert (data_size = 0 \<or> sz_add data_size view_offs \<le> ggml_nbytes v);
        Some (if t_data v \<noteq> 0 then sz_add (t_data v) view_offs else 0) })"

text \<open>The initial value of a descriptor; \<^verbatim>\<open>ne\<close> is already padded with ones.\<close>

definition new_tensor_desc :: "ggml_type \<Rightarrow> int64_t list \<Rightarrow> ptr \<Rightarrow> size_t \<Rightarrow> ptr \<Rightarrow> ggml_tensor" where
  "new_tensor_desc type ne view_src view_offs data =
     \<lparr>t_type = type, t_buffer = 0, t_ne = ne, t_nb = new_tensor_nb type ne, t_op = GGML_OP_NONE,
      t_op_params = replicate 16 0, t_flags = 0, t_src = replicate GGML_MAX_SRC 0, t_view_src = view_src,
      t_view_offs = view_offs, t_data = data, t_name = '''', t_extra = 0\<rparr>"

definition pad_dims :: "int64_t list \<Rightarrow> int64_t list" where
  "pad_dims ne = ne @ replicate (GGML_MAX_DIMS - length ne) 1"

definition request_bytes :: "ggml_type \<Rightarrow> int64_t list \<Rightarrow> size_t" where
  "request_bytes type dims = data_size_loop (tl dims) (ggml_row_size type (dims ! 0))"

definition ggml_new_tensor_impl ::
  "ggml_state \<Rightarrow> ggml_type \<Rightarrow> int \<Rightarrow> int64_t list \<Rightarrow> ptr \<Rightarrow> size_t \<Rightarrow> (ptr \<times> ggml_state) option" where
  "ggml_new_tensor_impl s type n_dims ne view_src0 view_offs0 = do {
     ggml_assert (n_dims \<ge> 1 \<and> n_dims \<le> int GGML_MAX_DIMS);
     (view_src, view_offs) \<leftarrow> new_tensor_view_base s view_src0 view_offs0;
     let dims = take (nat n_dims) ne;
     let data_size = request_bytes type dims;
     data \<leftarrow> new_tensor_view_data s data_size view_src view_offs;
     let obj_alloc_size = (if view_src = 0 \<and> \<not> c_no_alloc (st_ctx s) then data_size else 0);
     ggml_assert (GGML_TENSOR_SIZE \<le> sz_sub SIZE_MAX obj_alloc_size);
     (obj_new, s) \<leftarrow> ggml_new_object s GGML_OBJECT_TYPE_TENSOR (sz_add GGML_TENSOR_SIZE obj_alloc_size);
     ggml_assert (obj_new \<noteq> 0);
     ob \<leftarrow> st_objects s obj_new;
     let result = sz_add (c_mem_buffer (st_ctx s)) (o_offs ob);
     let t = new_tensor_desc type (pad_dims dims) view_src view_offs
               (if obj_alloc_size > 0 then sz_add result GGML_TENSOR_SIZE else data);
     Some (result, s\<lparr>st_tensors := (st_tensors s)(result \<mapsto> t),
                     st_ctx := (st_ctx s)\<lparr>c_n_objects := c_n_objects (st_ctx s) + 1\<rparr>\<rparr>) }"

definition ggml_new_tensor ::
  "ggml_state \<Rightarrow> ggml_type \<Rightarrow> int \<Rightarrow> int64_t list \<Rightarrow> (ptr \<times> ggml_state) option" where
  "ggml_new_tensor s type n_dims ne = ggml_new_tensor_impl s type n_dims ne 0 0"

definition ggml_new_tensor_1d :: "ggml_state \<Rightarrow> ggml_type \<Rightarrow> int64_t \<Rightarrow> (ptr \<times> ggml_state) option" where
  "ggml_new_tensor_1d s type ne0 = ggml_new_tensor s type 1 [ne0]"

definition ggml_new_tensor_2d ::
  "ggml_state \<Rightarrow> ggml_type \<Rightarrow> int64_t \<Rightarrow> int64_t \<Rightarrow> (ptr \<times> ggml_state) option" where
  "ggml_new_tensor_2d s type ne0 ne1 = ggml_new_tensor s type 2 [ne0, ne1]"

definition ggml_new_tensor_3d ::
  "ggml_state \<Rightarrow> ggml_type \<Rightarrow> int64_t \<Rightarrow> int64_t \<Rightarrow> int64_t \<Rightarrow> (ptr \<times> ggml_state) option" where
  "ggml_new_tensor_3d s type ne0 ne1 ne2 = ggml_new_tensor s type 3 [ne0, ne1, ne2]"

definition ggml_new_tensor_4d ::
  "ggml_state \<Rightarrow> ggml_type \<Rightarrow> int64_t \<Rightarrow> int64_t \<Rightarrow> int64_t \<Rightarrow> int64_t \<Rightarrow> (ptr \<times> ggml_state) option" where
  "ggml_new_tensor_4d s type ne0 ne1 ne2 ne3 = ggml_new_tensor s type 4 [ne0, ne1, ne2, ne3]"

definition ggml_dup_tensor :: "ggml_state \<Rightarrow> ptr \<Rightarrow> (ptr \<times> ggml_state) option" where
  "ggml_dup_tensor s src = do {
     t \<leftarrow> deref s src;
     ggml_new_tensor s (t_type t) (int GGML_MAX_DIMS) (t_ne t) }"

text \<open>\<^verbatim>\<open>ggml_format_name\<close> with the formatted text as its argument: the buffer holds 63 characters.\<close>

definition ggml_format_name :: "ggml_state \<Rightarrow> ptr \<Rightarrow> string \<Rightarrow> ggml_state" where
  "ggml_format_name s p text = upd s p (\<lambda>t. t\<lparr>t_name := take (GGML_MAX_NAME - 1) text\<rparr>)"

definition ggml_view_tensor :: "ggml_state \<Rightarrow> ptr \<Rightarrow> (ptr \<times> ggml_state) option" where
  "ggml_view_tensor s src = do {
     t \<leftarrow> deref s src;
     (result, s) \<leftarrow> ggml_new_tensor_impl s (t_type t) (int GGML_MAX_DIMS) (t_ne t) src 0;
     let s = ggml_format_name s result (t_name t @ '' (view)'');
     Some (result, upd s result (\<lambda>r. r\<lparr>t_nb := t_nb t\<rparr>)) }"

section \<open>Iteration over the objects of a context\<close>

text \<open>The loops follow \<^verbatim>\<open>next\<close> until they meet a tensor (that satisfies a test).\<close>

partial_function (option) find_object ::
  "ggml_state \<Rightarrow> (ggml_tensor \<Rightarrow> bool) \<Rightarrow> ptr \<Rightarrow> ptr option" where
  "find_object s P obj =
     (if obj = 0 then Some 0
      else do {
        ob \<leftarrow> st_objects s obj;
        if o_type ob = GGML_OBJECT_TYPE_TENSOR then do {
          let cur = sz_add (c_mem_buffer (st_ctx s)) (o_offs ob);
          t \<leftarrow> deref s cur;
          if P t then Some cur else find_object s P (o_next ob) }
        else find_object s P (o_next ob) })"

definition ggml_get_first_tensor :: "ggml_state \<Rightarrow> ptr option" where
  "ggml_get_first_tensor s = find_object s (\<lambda>_. True) (c_objects_begin (st_ctx s))"

definition ggml_get_next_tensor :: "ggml_state \<Rightarrow> ptr \<Rightarrow> ptr option" where
  "ggml_get_next_tensor s tensor = do {
     ob \<leftarrow> st_objects s (sz_sub tensor GGML_OBJECT_SIZE);
     find_object s (\<lambda>_. True) (o_next ob) }"

definition ggml_get_tensor :: "ggml_state \<Rightarrow> string \<Rightarrow> ptr option" where
  "ggml_get_tensor s name = find_object s (\<lambda>t. t_name t = name) (c_objects_begin (st_ctx s))"

partial_function (option) max_tensor_size_loop :: "ggml_state \<Rightarrow> size_t \<Rightarrow> ptr \<Rightarrow> size_t option" where
  "max_tensor_size_loop s acc tensor =
     (if tensor = 0 then Some acc
      else do {
        t \<leftarrow> deref s tensor;
        nxt \<leftarrow> ggml_get_next_tensor s tensor;
        max_tensor_size_loop s (max acc (ggml_nbytes t)) nxt })"

definition ggml_get_max_tensor_size :: "ggml_state \<Rightarrow> size_t option" where
  "ggml_get_max_tensor_size s = do {
     first \<leftarrow> ggml_get_first_tensor s;
     max_tensor_size_loop s 0 first }"

section \<open>The chain of objects\<close>

fun obj_chain :: "(ptr \<rightharpoonup> ggml_object) \<Rightarrow> ptr \<Rightarrow> ptr \<Rightarrow> nat \<Rightarrow> ptr list \<Rightarrow> nat \<Rightarrow> bool" where
  "obj_chain m base p pos [] e \<longleftrightarrow> p = 0 \<and> e = pos"
| "obj_chain m base p pos (x # xs) e \<longleftrightarrow> p = x \<and> x = base + pos \<and>
     (\<exists>ob. m x = Some ob \<and> o_offs ob = pos + GGML_OBJECT_SIZE \<and> GGML_MEM_ALIGN dvd o_size ob
        \<and> obj_chain m base (o_next ob) (pos + GGML_OBJECT_SIZE + o_size ob) xs e)"

lemma obj_chain_bounds:
  "obj_chain m base p pos xs e \<Longrightarrow> pos \<le> e \<and> (\<forall>x \<in> set xs. base + pos \<le> x \<and> x + GGML_OBJECT_SIZE \<le> base + e \<and> x \<in> dom m)"
proof (induction m base p pos xs e rule: obj_chain.induct)
  case (2 m base p pos x xs e)
  then obtain ob where "m x = Some ob" "obj_chain m base (o_next ob) (pos + GGML_OBJECT_SIZE + o_size ob) xs e" "x = base + pos"
    by auto
  then show ?case using 2(1) [of ob] by fastforce
qed simp

lemma obj_chain_cong:
  "obj_chain m base p pos xs e \<Longrightarrow> (\<And>x. x \<in> set xs \<Longrightarrow> m' x = m x) \<Longrightarrow> obj_chain m' base p pos xs e"
  by (induction m base p pos xs e rule: obj_chain.induct) auto

lemma obj_chain_aligned:
  "obj_chain m base p pos xs e \<Longrightarrow> GGML_MEM_ALIGN dvd pos \<Longrightarrow> GGML_MEM_ALIGN dvd e"
  by (induction m base p pos xs e rule: obj_chain.induct) (auto simp: dvd_add)

lemma obj_chain_last:
  assumes "obj_chain m base p pos xs e" "xs \<noteq> []"
  shows "\<exists>ob. m (last xs) = Some ob \<and> o_offs ob + o_size ob = e \<and> o_next ob = 0"
  using assms
proof (induction m base p pos xs e rule: obj_chain.induct)
  case (2 m base p pos x xs e)
  then show ?case by (cases xs) auto
qed simp

lemma obj_chain_distinct: "obj_chain m base p pos xs e \<Longrightarrow> distinct xs"
proof (induction m base p pos xs e rule: obj_chain.induct)
  case (2 m base p pos x xs e)
  then obtain ob where "m x = Some ob" "x = base + pos"
    and c: "obj_chain m base (o_next ob) (pos + GGML_OBJECT_SIZE + o_size ob) xs e" by auto
  then show ?case using 2(1) [of ob] obj_chain_bounds [OF c] by force
qed simp

lemma obj_chain_snoc:
  assumes "obj_chain m base p pos xs e" "xs \<noteq> []"
    and "o_offs ob = e + GGML_OBJECT_SIZE" "GGML_MEM_ALIGN dvd o_size ob" "o_next ob = 0"
  shows "obj_chain ((m(base + e \<mapsto> ob))(last xs := map_option (\<lambda>ob. ob\<lparr>o_next := base + e\<rparr>) ((m(base + e \<mapsto> ob)) (last xs))))
    base p pos (xs @ [base + e]) (e + GGML_OBJECT_SIZE + o_size ob)"
  using assms(1,2)
proof (induction xs arbitrary: p pos)
  case (Cons x xs)
  let ?m = "(m(base + e \<mapsto> ob))(last (x # xs) := map_option (\<lambda>ob. ob\<lparr>o_next := base + e\<rparr>) ((m(base + e \<mapsto> ob)) (last (x # xs))))"
  obtain o1 where o1: "m x = Some o1" "x = base + pos" "p = x" "o_offs o1 = pos + GGML_OBJECT_SIZE" "GGML_MEM_ALIGN dvd o_size o1"
    and c: "obj_chain m base (o_next o1) (pos + GGML_OBJECT_SIZE + o_size o1) xs e" using Cons.prems(1) by auto
  have lt: "y < base + e" if "y \<in> set (x # xs)" for y using obj_chain_bounds [OF Cons.prems(1)] that by fastforce
  show ?case
  proof (cases "xs = []")
    case True
    then show ?thesis using o1 c assms(3-5) lt [of x] by auto
  next
    case False
    have "last xs \<noteq> x" using obj_chain_distinct [OF Cons.prems(1)] False last_in_set by fastforce
    then show ?thesis using Cons.IH [OF c False] o1 False lt [of x] by auto
  qed
qed simp

section \<open>The pool invariant\<close>

text \<open>The objects \<open>xs\<close> fill the pool from its start up to offset \<open>e\<close>.\<close>

definition pool_objs :: "ggml_state \<Rightarrow> ptr list \<Rightarrow> nat \<Rightarrow> bool" where
  "pool_objs s xs e \<longleftrightarrow> c_mem_buffer (st_ctx s) \<noteq> 0 \<and> GGML_MEM_ALIGN dvd c_mem_buffer (st_ctx s)
     \<and> c_mem_buffer (st_ctx s) + c_mem_size (st_ctx s) \<le> SIZE_MAX
     \<and> obj_chain (st_objects s) (c_mem_buffer (st_ctx s)) (c_objects_begin (st_ctx s)) 0 xs e
     \<and> e \<le> c_mem_size (st_ctx s) \<and> c_objects_end (st_ctx s) = (if xs = [] then 0 else last xs)"

definition pool_inv :: "ggml_state \<Rightarrow> bool" where
  "pool_inv s \<longleftrightarrow> (\<exists>xs e. pool_objs s xs e)"

text \<open>The state after a successful allocation at offset \<open>e\<close>.\<close>

definition push_object :: "ggml_state \<Rightarrow> nat \<Rightarrow> ggml_object_type \<Rightarrow> size_t \<Rightarrow> ggml_state" where
  "push_object s e type n =
     (let base = c_mem_buffer (st_ctx s); cur = c_objects_end (st_ctx s);
          m = (st_objects s)(base + e \<mapsto> \<lparr>o_offs = e + GGML_OBJECT_SIZE, o_size = n, o_next = 0, o_type = type\<rparr>);
          m' = (if cur \<noteq> 0 then m(cur := map_option (\<lambda>ob. ob\<lparr>o_next := base + e\<rparr>) (m cur)) else m);
          c = (if cur \<noteq> 0 then st_ctx s else (st_ctx s)\<lparr>c_objects_begin := base + e\<rparr>)
      in s\<lparr>st_objects := m', st_ctx := c\<lparr>c_objects_end := base + e\<rparr>\<rparr>)"

lemma push_object_simps [simp]:
  "st_tensors (push_object s e type n) = st_tensors s"
  "c_mem_buffer (st_ctx (push_object s e type n)) = c_mem_buffer (st_ctx s)"
  "c_mem_size (st_ctx (push_object s e type n)) = c_mem_size (st_ctx s)"
  "c_no_alloc (st_ctx (push_object s e type n)) = c_no_alloc (st_ctx s)"
  "c_n_objects (st_ctx (push_object s e type n)) = c_n_objects (st_ctx s)"
  by (simp_all add: push_object_def Let_def)

lemma pool_objs_bounds:
  assumes "pool_objs s xs e" "x \<in> set xs"
  shows "c_mem_buffer (st_ctx s) \<le> x" "x + GGML_OBJECT_SIZE \<le> c_mem_buffer (st_ctx s) + e" "0 < x" "x \<in> dom (st_objects s)"
  using assms obj_chain_bounds [of "st_objects s" "c_mem_buffer (st_ctx s)" "c_objects_begin (st_ctx s)" 0 xs e]
  by (auto simp: pool_objs_def)

lemma pool_objs_end_nonzero: "pool_objs s xs e \<Longrightarrow> xs \<noteq> [] \<Longrightarrow> last xs \<noteq> 0"
  using pool_objs_bounds(3) last_in_set by blast

lemma push_object_pool:
  assumes "pool_objs s xs e" "GGML_MEM_ALIGN dvd n" "e + n + GGML_OBJECT_SIZE \<le> c_mem_size (st_ctx s)"
  shows "pool_objs (push_object s e type n) (xs @ [c_mem_buffer (st_ctx s) + e]) (e + GGML_OBJECT_SIZE + n)"
proof (cases "xs = []")
  case True
  then show ?thesis using assms by (auto simp: pool_objs_def push_object_def Let_def)
next
  case False
  note nz = pool_objs_end_nonzero [OF assms(1) False]
  have c: "obj_chain (st_objects s) (c_mem_buffer (st_ctx s)) (c_objects_begin (st_ctx s)) 0 xs e"
    and l: "c_objects_end (st_ctx s) = last xs" using assms(1) False by (simp_all add: pool_objs_def)
  let ?ob = "\<lparr>o_offs = e + GGML_OBJECT_SIZE, o_size = n, o_next = 0, o_type = type\<rparr>"
  have "obj_chain (st_objects (push_object s e type n)) (c_mem_buffer (st_ctx s)) (c_objects_begin (st_ctx s)) 0
      (xs @ [c_mem_buffer (st_ctx s) + e]) (e + GGML_OBJECT_SIZE + o_size ?ob)"
    using obj_chain_snoc [OF c False, of ?ob] assms(2) nz l by (simp add: push_object_def Let_def)
  then show ?thesis using assms nz l by (simp add: pool_objs_def) (simp add: push_object_def Let_def)
qed

lemma push_object_lookup:
  assumes "pool_objs s xs e"
  shows "st_objects (push_object s e type n) (c_mem_buffer (st_ctx s) + e)
      = Some \<lparr>o_offs = e + GGML_OBJECT_SIZE, o_size = n, o_next = 0, o_type = type\<rparr>"
    and "x \<in> set xs \<Longrightarrow> map_option o_type (st_objects (push_object s e type n) x) = map_option o_type (st_objects s x)"
proof -
  have lt: "y < c_mem_buffer (st_ctx s) + e" if "y \<in> set xs" for y
    using pool_objs_bounds(2) [OF assms that] by simp
  have "c_objects_end (st_ctx s) \<noteq> c_mem_buffer (st_ctx s) + e"
  proof (cases "xs = []")
    case True
    then show ?thesis using assms by (simp add: pool_objs_def)
  next
    case False
    then show ?thesis using assms lt [OF last_in_set [OF False]] by (simp add: pool_objs_def)
  qed
  then show "st_objects (push_object s e type n) (c_mem_buffer (st_ctx s) + e)
      = Some \<lparr>o_offs = e + GGML_OBJECT_SIZE, o_size = n, o_next = 0, o_type = type\<rparr>"
    by (simp add: push_object_def Let_def)
  show "map_option o_type (st_objects (push_object s e type n) x) = map_option o_type (st_objects s x)" if "x \<in> set xs"
    using lt [OF that] by (simp add: push_object_def Let_def option.map_comp comp_def)
qed

text \<open>The three checks of \<^verbatim>\<open>ggml_new_object\<close> amount to one comparison without wrap-around.\<close>

lemma overflow_checks:
  assumes "n \<le> SIZE_MAX" "e \<le> m" "m \<le> SIZE_MAX"
  shows "e > sz_sub SIZE_MAX n \<or> sz_add e n > SIZE_MAX - GGML_OBJECT_SIZE
      \<or> sz_add (sz_add e n) GGML_OBJECT_SIZE > m \<longleftrightarrow> m < e + n + GGML_OBJECT_SIZE"
proof (cases "e + n + GGML_OBJECT_SIZE \<le> SIZE_MAX")
  case True
  then show ?thesis using assms by (auto simp: sz_sub_id sz_add_id)
next
  case False
  show ?thesis
  proof (cases "e + n \<le> SIZE_MAX")
    case True
    then show ?thesis using False assms by (auto simp: sz_sub_id sz_add_id)
  next
    case wrap: False
    then have "e > sz_sub SIZE_MAX n" using assms(1) by (simp add: sz_sub_id)
    then show ?thesis using wrap assms by simp
  qed
qed

lemma new_object_eq:
  assumes "pool_objs s xs e"
  shows "ggml_new_object s type sz =
    (if SIZE_MAX - 15 < sz then None
     else if c_mem_size (st_ctx s) < e + GGML_PAD sz GGML_MEM_ALIGN + GGML_OBJECT_SIZE then Some (0, s)
     else Some (c_mem_buffer (st_ctx s) + e, push_object s e type (GGML_PAD sz GGML_MEM_ALIGN)))"
proof (cases "SIZE_MAX - 15 < sz")
  case True
  then show ?thesis using assms obj_chain_last [of "st_objects s" "c_mem_buffer (st_ctx s)" "c_objects_begin (st_ctx s)" 0 xs e]
    by (auto simp: ggml_new_object_def Let_def pool_objs_def)
next
  case False
  let ?c = "st_ctx s" and ?n = "GGML_PAD sz GGML_MEM_ALIGN"
  have n: "?n \<le> SIZE_MAX" by (rule GGML_PAD_le)
  have p: "GGML_MEM_ALIGN dvd c_mem_buffer ?c" "c_mem_buffer ?c + c_mem_size ?c \<le> SIZE_MAX" "e \<le> c_mem_size ?c"
    and al: "GGML_MEM_ALIGN dvd e"
    using assms obj_chain_aligned by (auto simp: pool_objs_def)
  have "\<exists>a b. (if c_objects_end ?c = 0 then Some (0, 0)
        else do { ob \<leftarrow> st_objects s (c_objects_end ?c); Some (o_offs ob, o_size ob) }) = Some (a, b) \<and> a + b = e"
  proof (cases "xs = []")
    case True
    then show ?thesis using assms by (simp add: pool_objs_def)
  next
    case nonempty: False
    then show ?thesis
      using assms obj_chain_last [of "st_objects s" "c_mem_buffer ?c" "c_objects_begin ?c" 0 xs e]
        pool_objs_end_nonzero [OF assms] by (auto simp: pool_objs_def)
  qed
  then obtain a b where ab: "(if c_objects_end ?c = 0 then Some (0, 0)
        else do { ob \<leftarrow> st_objects s (c_objects_end ?c); Some (o_offs ob, o_size ob) }) = Some (a, b)"
    and "a + b = e" by blast
  then have e: "sz_add a b = e" using p by (simp add: sz_add_id)
  have base: "sz_add (c_mem_buffer ?c) e = c_mem_buffer ?c + e" using p by (simp add: sz_add_id)
  let ?c1 = "e > sz_sub SIZE_MAX ?n" and ?c2 = "sz_add e ?n > SIZE_MAX - GGML_OBJECT_SIZE"
    and ?c3 = "sz_add (sz_add e ?n) GGML_OBJECT_SIZE > c_mem_size ?c"
  have sel: "?c1 \<or> ?c2 \<or> ?c3 \<longleftrightarrow> c_mem_size ?c < e + ?n + GGML_OBJECT_SIZE"
    using n p by (intro overflow_checks) simp_all
  show ?thesis
  proof (cases "c_mem_size ?c < e + ?n + GGML_OBJECT_SIZE")
    case True
    then consider ?c1 | "\<not> ?c1" ?c2 | "\<not> ?c1" "\<not> ?c2" ?c3 using sel by blast
    then show ?thesis using False True unfolding ggml_new_object_def Let_def ab by cases (simp_all add: e base)
  next
    case fits: False
    have o: "sz_add e GGML_OBJECT_SIZE = e + GGML_OBJECT_SIZE" using fits p by (simp add: sz_add_id)
    have "sz_add (c_mem_buffer ?c) (e + GGML_OBJECT_SIZE) = c_mem_buffer ?c + (e + GGML_OBJECT_SIZE)"
      using fits p by (intro sz_add_id) simp
    then have m: "sz_add (c_mem_buffer ?c) (e + GGML_OBJECT_SIZE) mod GGML_MEM_ALIGN = 0"
      using p(1) al by (simp add: mod_eq_0_iff_dvd)
    show ?thesis
      using False fits sel unfolding ggml_new_object_def Let_def ab
      by (simp add: e base o m push_object_def Let_def)
  qed
qed

end
