(* ===== verification/GGML_Heap.thy ===== *)
theory GGML_Heap
  imports GGML_Context
begin

text \<open>
  The invariant of a context and its tensors, and the steps that preserve it. \<open>ctx_inv\<close> says that
  the objects fill the pool without gaps, that the tensors of the pool are exactly the tensor
  objects, that views refer to base tensors and that the source relation is acyclic. A function
  that returns a new tensor is a \<open>grows\<close> step: it adds one descriptor at a fresh address and
  changes nothing else. The constructors of tensors are shown to be such steps, and new tensors
  to be packed.
\<close>

section \<open>Well-formed tensor heaps\<close>

text \<open>
  Every descriptor is well formed, a view refers to a tensor that is not itself a view, and the
  sources of a tensor are tensors of smaller rank, so the source relation has no cycle.
\<close>

definition view_ok :: "(ptr \<rightharpoonup> ggml_tensor) \<Rightarrow> ggml_tensor \<Rightarrow> bool" where
  "view_ok T t \<longleftrightarrow> t_view_src t = 0 \<or> (\<exists>v. T (t_view_src t) = Some v \<and> t_view_src v = 0)"

definition ranked :: "(ptr \<Rightarrow> nat) \<Rightarrow> (ptr \<rightharpoonup> ggml_tensor) \<Rightarrow> bool" where
  "ranked rank T \<longleftrightarrow> (\<forall>p t q. T p = Some t \<and> q \<in> set (t_src t) \<and> q \<noteq> 0 \<longrightarrow> q \<in> dom T \<and> rank q < rank p)"

definition heap_ok :: "(ptr \<rightharpoonup> ggml_tensor) \<Rightarrow> bool" where
  "heap_ok T \<longleftrightarrow> T 0 = None \<and> (\<forall>p t. T p = Some t \<longrightarrow> tensor_wf t \<and> view_ok T t) \<and> (\<exists>rank. ranked rank T)"

lemma view_ok_mono: "view_ok T t \<Longrightarrow> T \<subseteq>\<^sub>m T' \<Longrightarrow> view_ok T' t"
  by (auto simp: view_ok_def map_le_def dom_def)

lemma map_le_fresh: "T r = None \<Longrightarrow> T \<subseteq>\<^sub>m T(r \<mapsto> t)"
  by (auto simp: map_le_def dom_def)

lemma heap_ok_extend:
  assumes "heap_ok T" "T r = None" "r \<noteq> 0" "tensor_wf t" "view_ok T t" "set (t_src t) \<subseteq> insert 0 (dom T)"
  shows "heap_ok (T(r \<mapsto> t))"
proof -
  let ?T = "T(r \<mapsto> t)"
  obtain rank where rank: "ranked rank T" using assms(1) by (auto simp: heap_ok_def)
  let ?rank = "rank(r := Suc (sum_list (map rank (t_src t))))"
  have le: "rank q \<le> sum_list (map rank (t_src t))" if "q \<in> set (t_src t)" for q
    using that by (intro member_le_sum_list) auto
  have "ranked ?rank ?T"
    unfolding ranked_def
  proof (intro allI impI, elim conjE)
    fix p u q assume pu: "?T p = Some u" and q: "q \<in> set (t_src u)" "q \<noteq> 0"
    show "q \<in> dom ?T \<and> ?rank q < ?rank p"
    proof (cases "p = r")
      case True
      then have "q \<in> dom T" using pu q assms(6) by auto
      moreover have "q \<noteq> r" using calculation assms(2) by auto
      ultimately show ?thesis using True pu q le [of q] by auto
    next
      case False
      then have "T p = Some u" using pu by simp
      then have "q \<in> dom T" "rank q < rank p" using rank q by (auto simp: ranked_def)
      then show ?thesis using False assms(2) by auto
    qed
  qed
  moreover have "tensor_wf u \<and> view_ok ?T u" if "?T p = Some u" for p u
  proof (cases "p = r")
    case True
    then show ?thesis using that assms(4) view_ok_mono [OF assms(5) map_le_fresh [of T r t, OF assms(2)]] by auto
  next
    case False
    then have "tensor_wf u \<and> view_ok T u" using that assms(1) by (auto simp: heap_ok_def)
    then show ?thesis using view_ok_mono [OF _ map_le_fresh [of T r t, OF assms(2)]] by blast
  qed
  ultimately show ?thesis using assms(1,3) by (auto simp: heap_ok_def)
qed

section \<open>The context invariant\<close>

definition is_tensor_obj :: "ggml_state \<Rightarrow> ptr \<Rightarrow> bool" where
  "is_tensor_obj s x \<longleftrightarrow> map_option o_type (st_objects s x) = Some GGML_OBJECT_TYPE_TENSOR"

definition in_pool :: "ggml_state \<Rightarrow> ptr \<Rightarrow> bool" where
  "in_pool s p \<longleftrightarrow> c_mem_buffer (st_ctx s) \<le> p \<and> p < c_mem_buffer (st_ctx s) + c_mem_size (st_ctx s)"

definition pool_tensors :: "ggml_state \<Rightarrow> ptr list \<Rightarrow> ptr list" where
  "pool_tensors s xs = map (\<lambda>x. x + GGML_OBJECT_SIZE) (filter (is_tensor_obj s) xs)"

definition ctx_objs :: "ggml_state \<Rightarrow> ptr list \<Rightarrow> nat \<Rightarrow> bool" where
  "ctx_objs s xs e \<longleftrightarrow> pool_objs s xs e \<and> heap_ok (st_tensors s)
     \<and> set (pool_tensors s xs) = {p \<in> dom (st_tensors s). in_pool s p}
     \<and> c_n_objects (st_ctx s) = int (length (pool_tensors s xs))"

definition ctx_inv :: "ggml_state \<Rightarrow> bool" where
  "ctx_inv s \<longleftrightarrow> (\<exists>xs e. ctx_objs s xs e)"

text \<open>
  \<open>grows s r s'\<close>: the step from \<open>s\<close> to \<open>s'\<close> keeps the invariant, adds exactly the tensor \<open>r\<close>,
  whose address was free, and leaves every other descriptor as it was. \<open>extends\<close> is its closure.
\<close>

definition extends :: "ggml_state \<Rightarrow> ggml_state \<Rightarrow> bool" where
  "extends s s' \<longleftrightarrow> ctx_inv s' \<and> st_tensors s \<subseteq>\<^sub>m st_tensors s'
     \<and> c_mem_buffer (st_ctx s') = c_mem_buffer (st_ctx s) \<and> c_mem_size (st_ctx s') = c_mem_size (st_ctx s)
     \<and> c_no_alloc (st_ctx s') = c_no_alloc (st_ctx s)"

definition grows :: "ggml_state \<Rightarrow> ptr \<Rightarrow> ggml_tensor \<Rightarrow> ggml_state \<Rightarrow> bool" where
  "grows s r t s' \<longleftrightarrow> extends s s' \<and> st_tensors s r = None \<and> r \<noteq> 0 \<and> st_tensors s' = (st_tensors s)(r \<mapsto> t)"

lemma extends_trans: "extends s s' \<Longrightarrow> extends s' s'' \<Longrightarrow> extends s s''"
  by (auto simp: extends_def intro: map_le_trans)

lemma extends_refl: "ctx_inv s \<Longrightarrow> extends s s"
  by (simp add: extends_def)

lemma grows_extends: "grows s r t s' \<Longrightarrow> extends s s'"
  by (simp add: grows_def)

lemma extends_inv: "extends s s' \<Longrightarrow> ctx_inv s'"
  by (simp add: extends_def)

lemma extends_deref: "extends s s' \<Longrightarrow> deref s p = Some t \<Longrightarrow> deref s' p = Some t"
  by (auto simp: extends_def deref_def map_le_def dom_def)

lemma is_tensor_obj_push:
  assumes "pool_objs s xs e"
  shows "x \<in> set xs \<Longrightarrow> is_tensor_obj (push_object s e ty n) x \<longleftrightarrow> is_tensor_obj s x"
    "is_tensor_obj (push_object s e ty n) (c_mem_buffer (st_ctx s) + e) \<longleftrightarrow> ty = GGML_OBJECT_TYPE_TENSOR"
  using push_object_lookup [OF assms] by (simp_all add: is_tensor_obj_def)

lemma pool_tensors_push:
  assumes "pool_objs s xs e"
  shows "pool_tensors (push_object s e ty n) (xs @ [c_mem_buffer (st_ctx s) + e])
    = pool_tensors s xs @ (if ty = GGML_OBJECT_TYPE_TENSOR then [c_mem_buffer (st_ctx s) + e + GGML_OBJECT_SIZE] else [])"
proof -
  have "filter (is_tensor_obj (push_object s e ty n)) xs = filter (is_tensor_obj s) xs"
    by (intro filter_cong refl is_tensor_obj_push [OF assms])
  then show ?thesis by (simp add: pool_tensors_def is_tensor_obj_push(2) [OF assms])
qed

lemma pool_tensors_upd [simp]:
  "pool_tensors (s\<lparr>st_tensors := T, st_ctx := c\<rparr>) xs = pool_tensors s xs"
  "pool_tensors (s\<lparr>st_tensors := T\<rparr>) xs = pool_tensors s xs"
  by (simp_all add: pool_tensors_def is_tensor_obj_def cong: filter_cong)

lemma pool_objs_upd [simp]:
  "pool_objs (s\<lparr>st_tensors := T\<rparr>) xs e \<longleftrightarrow> pool_objs s xs e"
  "pool_objs (s\<lparr>st_tensors := T, st_ctx := (st_ctx s)\<lparr>c_n_objects := k\<rparr>\<rparr>) xs e \<longleftrightarrow> pool_objs s xs e"
  by (simp_all add: pool_objs_def)

text \<open>Adding a descriptor right behind a new header.\<close>

lemma push_tensor_grows:
  assumes "ctx_objs s xs e" "GGML_MEM_ALIGN dvd n" "e + n + GGML_OBJECT_SIZE \<le> c_mem_size (st_ctx s)" "0 < n"
    and "tensor_wf t" "view_ok (st_tensors s) t" "set (t_src t) \<subseteq> insert 0 (dom (st_tensors s))"
  defines "r \<equiv> c_mem_buffer (st_ctx s) + e + GGML_OBJECT_SIZE"
    and "s1 \<equiv> push_object s e GGML_OBJECT_TYPE_TENSOR n"
  shows "grows s r t (s1\<lparr>st_tensors := (st_tensors s1)(r \<mapsto> t),
           st_ctx := (st_ctx s1)\<lparr>c_n_objects := c_n_objects (st_ctx s1) + 1\<rparr>\<rparr>)" (is "grows s r t ?s2")
proof -
  let ?x = "c_mem_buffer (st_ctx s) + e"
  have po: "pool_objs s xs e" using assms(1) by (simp add: ctx_objs_def)
  note pp = push_object_pool [OF po assms(2,3), of GGML_OBJECT_TYPE_TENSOR]
  have pt: "pool_tensors ?s2 (xs @ [?x]) = pool_tensors s xs @ [r]"
    using pool_tensors_push [OF po, of GGML_OBJECT_TYPE_TENSOR n] by (simp add: s1_def r_def)
  have inp: "in_pool s r" using assms(3,4) by (simp add: in_pool_def r_def)
  have notin: "r \<notin> set (pool_tensors s xs)"
    using pool_objs_bounds(2) [OF po] by (fastforce simp: pool_tensors_def r_def)
  then have fresh: "st_tensors s r = None" using assms(1) inp by (auto simp: ctx_objs_def)
  have r0: "r \<noteq> 0" by (simp add: r_def)
  have h: "heap_ok ((st_tensors s)(r \<mapsto> t))"
    using assms(1,5-7) fresh r0 by (intro heap_ok_extend) (simp_all add: ctx_objs_def)
  have "ctx_objs ?s2 (xs @ [?x]) (e + GGML_OBJECT_SIZE + n)"
    using pp h assms(1) notin inp unfolding ctx_objs_def pt
    by (auto simp: s1_def in_pool_def)
  then show ?thesis
    using fresh r0 map_le_fresh [of "st_tensors s" r t, OF fresh] by (auto simp: grows_def extends_def ctx_inv_def s1_def)
qed

text \<open>Assigning to the descriptor that was just added.\<close>

lemma grows_upd:
  assumes "ctx_inv s" "grows s r t s'" "tensor_wf (f t)" "view_ok (st_tensors s) (f t)"
    and "set (t_src (f t)) \<subseteq> insert 0 (dom (st_tensors s))"
  shows "grows s r (f t) (upd s' r f)"
proof -
  have g: "st_tensors s' = (st_tensors s)(r \<mapsto> t)" "st_tensors s r = None" "r \<noteq> 0"
    and ex: "extends s s'" using assms(2) by (simp_all add: grows_def)
  have T: "st_tensors (upd s' r f) = (st_tensors s)(r \<mapsto> f t)" using g by (simp add: upd_def)
  have hs: "heap_ok (st_tensors s)" using assms(1) by (auto simp: ctx_inv_def ctx_objs_def)
  have h: "heap_ok ((st_tensors s)(r \<mapsto> f t))" using heap_ok_extend [OF hs g(2,3) assms(3-5)] .
  obtain xs e where "ctx_objs s' xs e" using ex by (auto simp: extends_def ctx_inv_def)
  then have "ctx_objs (upd s' r f) xs e"
    using h T g by (auto simp: ctx_objs_def upd_def in_pool_def)
  then show ?thesis
    using ex g T map_le_fresh [of "st_tensors s" r "f t", OF g(2)] by (auto simp: grows_def extends_def ctx_inv_def upd_def)
qed

section \<open>New tensors\<close>

lemma new_tensor_desc_simps [simp]:
  "t_type (new_tensor_desc type ne vs vo d) = type" "t_buffer (new_tensor_desc type ne vs vo d) = 0"
  "t_ne (new_tensor_desc type ne vs vo d) = ne" "t_nb (new_tensor_desc type ne vs vo d) = new_tensor_nb type ne"
  "t_op (new_tensor_desc type ne vs vo d) = GGML_OP_NONE"
  "t_op_params (new_tensor_desc type ne vs vo d) = replicate 16 0" "t_flags (new_tensor_desc type ne vs vo d) = 0"
  "t_src (new_tensor_desc type ne vs vo d) = replicate GGML_MAX_SRC 0"
  "t_view_src (new_tensor_desc type ne vs vo d) = vs" "t_view_offs (new_tensor_desc type ne vs vo d) = vo"
  "t_data (new_tensor_desc type ne vs vo d) = d" "t_name (new_tensor_desc type ne vs vo d) = ''''"
  by (simp_all add: new_tensor_desc_def)

lemma new_tensor_desc_wf: "length ne = GGML_MAX_DIMS \<Longrightarrow> tensor_wf (new_tensor_desc type ne vs vo d)"
  by (simp add: tensor_wf_def new_tensor_nb_def Let_def)

lemma pad_dims_simps [simp]:
  "pad_dims [a] = [a, 1, 1, 1]" "pad_dims [a, b] = [a, b, 1, 1]" "pad_dims [a, b, c] = [a, b, c, 1]"
  "pad_dims [a, b, c, d] = [a, b, c, d]" "length ne = GGML_MAX_DIMS \<Longrightarrow> pad_dims ne = ne"
  "length ne \<le> GGML_MAX_DIMS \<Longrightarrow> length (pad_dims ne) = GGML_MAX_DIMS"
  by (simp_all add: pad_dims_def numeral_eq_Suc)

lemma set_replicate_subset: "set (replicate n x) \<subseteq> insert x A"
  by (simp add: set_replicate_conv_if)

lemma view_base_ok:
  assumes "heap_ok (st_tensors s)" "new_tensor_view_base s vs vo = Some (vs', vo')"
  shows "vs' = 0 \<or> (\<exists>v. st_tensors s vs' = Some v \<and> t_view_src v = 0)" "vs' = 0 \<longleftrightarrow> vs = 0"
proof -
  have v: "view_ok (st_tensors s) v" if "st_tensors s vs = Some v" for v
    using assms(1) that by (auto simp: heap_ok_def)
  show "vs' = 0 \<or> (\<exists>v. st_tensors s vs' = Some v \<and> t_view_src v = 0)"
    using assms(2) v
    by (auto simp: new_tensor_view_base_def view_ok_def deref_def bind_eq_Some_conv split: if_splits)
  show "vs' = 0 \<longleftrightarrow> vs = 0"
    using assms(2) by (auto simp: new_tensor_view_base_def bind_eq_Some_conv split: if_splits)
qed

text \<open>\<open>alloc_bytes\<close>: the data bytes that are placed in the pool behind the descriptor.\<close>

definition alloc_bytes :: "ggml_state \<Rightarrow> ggml_type \<Rightarrow> int64_t list \<Rightarrow> ptr \<Rightarrow> size_t" where
  "alloc_bytes s type dims vs = (if vs = 0 \<and> \<not> c_no_alloc (st_ctx s) then request_bytes type dims else 0)"

lemma new_tensor_impl_Some:
  assumes "ggml_new_tensor_impl s ty nd ne vs vo = Some (r, s')"
  obtains vs' vo' d s1 x ob where "1 \<le> nd" "nd \<le> int GGML_MAX_DIMS"
    and "new_tensor_view_base s vs vo = Some (vs', vo')"
    and "new_tensor_view_data s (request_bytes ty (take (nat nd) ne)) vs' vo' = Some d"
    and "GGML_TENSOR_SIZE \<le> sz_sub SIZE_MAX (alloc_bytes s ty (take (nat nd) ne) vs')"
    and "ggml_new_object s GGML_OBJECT_TYPE_TENSOR (sz_add GGML_TENSOR_SIZE (alloc_bytes s ty (take (nat nd) ne) vs')) = Some (x, s1)"
    and "x \<noteq> 0" "st_objects s1 x = Some ob" "r = sz_add (c_mem_buffer (st_ctx s1)) (o_offs ob)"
    and "s' = s1\<lparr>st_tensors := (st_tensors s1)(r \<mapsto> new_tensor_desc ty (pad_dims (take (nat nd) ne)) vs' vo'
                (if alloc_bytes s ty (take (nat nd) ne) vs' > 0 then sz_add r GGML_TENSOR_SIZE else d)),
            st_ctx := (st_ctx s1)\<lparr>c_n_objects := c_n_objects (st_ctx s1) + 1\<rparr>\<rparr>"
  using assms unfolding ggml_new_tensor_impl_def Let_def alloc_bytes_def [symmetric]
  by (auto simp: bind_eq_Some_conv if_None_eq_Some)

lemma data_size_loop_le: "x \<le> SIZE_MAX \<Longrightarrow> data_size_loop ns x \<le> SIZE_MAX"
  by (induction ns arbitrary: x) simp_all

lemma ggml_row_size_le: "ggml_row_size ty n \<le> SIZE_MAX"
  unfolding ggml_row_size_def by (rule order_trans [OF div_le_dividend]) simp

lemma request_bytes_le: "request_bytes ty dims \<le> SIZE_MAX"
  by (simp add: request_bytes_def data_size_loop_le ggml_row_size_le)

lemma new_tensor_impl_eq:
  assumes "ctx_objs s xs e" "ggml_new_tensor_impl s ty nd ne vs vo = Some (r, s')" "nat nd \<le> length ne"
  obtains vs' vo' d where "1 \<le> nd" "nd \<le> int GGML_MAX_DIMS"
    and "new_tensor_view_base s vs vo = Some (vs', vo')"
    and "new_tensor_view_data s (request_bytes ty (take (nat nd) ne)) vs' vo' = Some d"
    and "r = c_mem_buffer (st_ctx s) + e + GGML_OBJECT_SIZE"
    and "e + GGML_PAD (GGML_TENSOR_SIZE + alloc_bytes s ty (take (nat nd) ne) vs') GGML_MEM_ALIGN + GGML_OBJECT_SIZE
           \<le> c_mem_size (st_ctx s)"
    and "alloc_bytes s ty (take (nat nd) ne) vs' \<le> SIZE_MAX - 15 - GGML_TENSOR_SIZE"
    and "grows s r (new_tensor_desc ty (pad_dims (take (nat nd) ne)) vs' vo'
                (if alloc_bytes s ty (take (nat nd) ne) vs' > 0 then r + GGML_TENSOR_SIZE else d)) s'"
proof -
  let ?dims = "take (nat nd) ne"
  obtain vs' vo' d s1 x ob where nd: "1 \<le> nd" "nd \<le> int GGML_MAX_DIMS"
    and vb: "new_tensor_view_base s vs vo = Some (vs', vo')"
    and vd: "new_tensor_view_data s (request_bytes ty ?dims) vs' vo' = Some d"
    and le: "GGML_TENSOR_SIZE \<le> sz_sub SIZE_MAX (alloc_bytes s ty ?dims vs')"
    and obj: "ggml_new_object s GGML_OBJECT_TYPE_TENSOR (sz_add GGML_TENSOR_SIZE (alloc_bytes s ty ?dims vs')) = Some (x, s1)"
    and x: "x \<noteq> 0" "st_objects s1 x = Some ob" and r: "r = sz_add (c_mem_buffer (st_ctx s1)) (o_offs ob)"
    and s': "s' = s1\<lparr>st_tensors := (st_tensors s1)(r \<mapsto> new_tensor_desc ty (pad_dims ?dims) vs' vo'
                (if alloc_bytes s ty ?dims vs' > 0 then sz_add r GGML_TENSOR_SIZE else d)),
            st_ctx := (st_ctx s1)\<lparr>c_n_objects := c_n_objects (st_ctx s1) + 1\<rparr>\<rparr>"
    using assms(2) by (rule new_tensor_impl_Some)
  let ?n = "alloc_bytes s ty ?dims vs'"
  have po: "pool_objs s xs e" and h: "heap_ok (st_tensors s)" using assms(1) by (simp_all add: ctx_objs_def)
  have n64: "?n \<le> SIZE_MAX" by (simp add: alloc_bytes_def request_bytes_le)
  have add: "sz_add GGML_TENSOR_SIZE ?n = GGML_TENSOR_SIZE + ?n" using le n64 by (simp add: sz_sub_id sz_add_id)
  let ?m = "GGML_PAD (GGML_TENSOR_SIZE + ?n) GGML_MEM_ALIGN"
  have ok: "GGML_TENSOR_SIZE + ?n \<le> SIZE_MAX - 15" and fit: "e + ?m + GGML_OBJECT_SIZE \<le> c_mem_size (st_ctx s)"
    and xs: "x = c_mem_buffer (st_ctx s) + e" "s1 = push_object s e GGML_OBJECT_TYPE_TENSOR ?m"
    using obj x(1) unfolding new_object_eq [OF po] add by (auto split: if_splits)
  have m: "GGML_MEM_ALIGN dvd ?m" "0 < ?m" using GGML_PAD_16 [OF ok] by linarith+
  have "ob = \<lparr>o_offs = e + GGML_OBJECT_SIZE, o_size = ?m, o_next = 0, o_type = GGML_OBJECT_TYPE_TENSOR\<rparr>"
    using x(2) push_object_lookup(1) [OF po] by (simp add: xs)
  then have ob: "o_offs ob = e + GGML_OBJECT_SIZE" by simp
  have pool: "c_mem_buffer (st_ctx s) + c_mem_size (st_ctx s) \<le> SIZE_MAX" using po by (simp add: pool_objs_def)
  have r': "r = c_mem_buffer (st_ctx s) + e + GGML_OBJECT_SIZE" using r ob fit pool by (simp add: xs sz_add_id)
  have "GGML_TENSOR_SIZE \<le> ?m" using GGML_PAD_16(1) [OF ok] by simp
  then have rd: "sz_add r GGML_TENSOR_SIZE = r + GGML_TENSOR_SIZE" using r' fit pool by (simp add: sz_add_id)
  let ?t = "new_tensor_desc ty (pad_dims ?dims) vs' vo' (if ?n > 0 then r + GGML_TENSOR_SIZE else d)"
  have "nat nd \<le> GGML_MAX_DIMS" using nd(2) by linarith
  then have "length ?dims \<le> GGML_MAX_DIMS" by simp
  then have wf: "tensor_wf ?t" by (intro new_tensor_desc_wf) simp
  have vo: "view_ok (st_tensors s) ?t" using view_base_ok(1) [OF h vb] by (simp add: view_ok_def)
  have src: "set (t_src ?t) \<subseteq> insert 0 (dom (st_tensors s))" by (simp add: set_replicate_subset)
  have "grows s r ?t s'"
    using push_tensor_grows [OF assms(1) m(1) fit m(2) wf vo src, folded r' xs(2)] unfolding s' rd .
  then show thesis using that [OF nd vb vd r' fit] ok by simp
qed

text \<open>The three ways to obtain a result tensor, as \<open>grows\<close> steps.\<close>

lemma ctx_inv_heap: "ctx_inv s \<Longrightarrow> heap_ok (st_tensors s)"
  by (auto simp: ctx_inv_def ctx_objs_def)

lemma deref_wf: "ctx_inv s \<Longrightarrow> deref s p = Some t \<Longrightarrow> tensor_wf t"
  and deref_view_ok: "ctx_inv s \<Longrightarrow> deref s p = Some t \<Longrightarrow> view_ok (st_tensors s) t"
  by (auto dest!: ctx_inv_heap simp: heap_ok_def deref_def)

lemma deref_nonzero: "ctx_inv s \<Longrightarrow> deref s p = Some t \<Longrightarrow> p \<noteq> 0"
  by (drule ctx_inv_heap, rule notI) (simp add: heap_ok_def deref_def)

lemma deref_dom: "deref s p = Some t \<Longrightarrow> p \<in> dom (st_tensors s)"
  by (auto simp: deref_def)

lemma new_tensor_grows:
  assumes "ctx_inv s" "ggml_new_tensor s ty nd ne = Some (r, s')" "nat nd \<le> length ne"
  shows "\<exists>d. grows s r (new_tensor_desc ty (pad_dims (take (nat nd) ne)) 0 0 d) s'"
proof -
  obtain xs e where "ctx_objs s xs e" using assms(1) by (auto simp: ctx_inv_def)
  then show ?thesis
    using assms(2,3) unfolding ggml_new_tensor_def
    by (elim new_tensor_impl_eq) (auto simp: new_tensor_view_base_def)
qed

lemma new_view_grows:
  assumes "ctx_inv s" "ggml_new_tensor_impl s ty nd ne a offs = Some (r, s')" "nat nd \<le> length ne" "deref s a = Some ta"
  shows "\<exists>d. grows s r (new_tensor_desc ty (pad_dims (take (nat nd) ne))
      (if t_view_src ta = 0 then a else t_view_src ta) (if t_view_src ta = 0 then offs else sz_add offs (t_view_offs ta)) d) s'"
proof -
  obtain xs e where "ctx_objs s xs e" using assms(1) by (auto simp: ctx_inv_def)
  moreover have "a \<noteq> 0" using deref_nonzero [OF assms(1,4)] .
  ultimately show ?thesis
    using assms(2-4) by (elim new_tensor_impl_eq) (auto simp: new_tensor_view_base_def split: if_splits)
qed

lemma dup_tensor_grows:
  assumes "ctx_inv s" "ggml_dup_tensor s a = Some (r, s')"
  shows "\<exists>ta d. deref s a = Some ta \<and> grows s r (new_tensor_desc (t_type ta) (t_ne ta) 0 0 d) s'"
proof -
  obtain ta where ta: "deref s a = Some ta" and n: "ggml_new_tensor s (t_type ta) (int GGML_MAX_DIMS) (t_ne ta) = Some (r, s')"
    using assms(2) by (auto simp: ggml_dup_tensor_def run_simps)
  have "length (t_ne ta) = GGML_MAX_DIMS" using deref_wf [OF assms(1) ta] by (simp add: tensor_wf_def)
  then show ?thesis using new_tensor_grows [OF assms(1) n] ta by simp
qed

definition view_desc :: "ptr \<Rightarrow> ggml_tensor \<Rightarrow> ptr \<Rightarrow> ggml_tensor" where
  "view_desc a ta d = (new_tensor_desc (t_type ta) (t_ne ta)
      (if t_view_src ta = 0 then a else t_view_src ta) (if t_view_src ta = 0 then 0 else sz_add 0 (t_view_offs ta)) d)
    \<lparr>t_name := take (GGML_MAX_NAME - 1) (t_name ta @ '' (view)''), t_nb := t_nb ta\<rparr>"

lemma view_desc_simps [simp]:
  "t_type (view_desc a ta d) = t_type ta" "t_ne (view_desc a ta d) = t_ne ta" "t_nb (view_desc a ta d) = t_nb ta"
  "t_op (view_desc a ta d) = GGML_OP_NONE" "t_op_params (view_desc a ta d) = replicate 16 0"
  "t_flags (view_desc a ta d) = 0" "t_src (view_desc a ta d) = replicate GGML_MAX_SRC 0"
  "t_view_src (view_desc a ta d) = (if t_view_src ta = 0 then a else t_view_src ta)" "t_data (view_desc a ta d) = d"
  by (simp_all add: view_desc_def)

lemma upd_upd: "upd (upd s p f) p g = upd s p (\<lambda>t. g (f t))"
  by (cases "st_tensors s p") (simp_all add: upd_def)

lemma view_tensor_grows:
  assumes "ctx_inv s" "ggml_view_tensor s a = Some (r, s')"
  shows "\<exists>ta d. deref s a = Some ta \<and> grows s r (view_desc a ta d) s'"
proof -
  obtain ta s1 where ta: "deref s a = Some ta"
    and n: "ggml_new_tensor_impl s (t_type ta) (int GGML_MAX_DIMS) (t_ne ta) a 0 = Some (r, s1)"
    and s': "s' = upd (ggml_format_name s1 r (t_name ta @ '' (view)'')) r (\<lambda>t. t\<lparr>t_nb := t_nb ta\<rparr>)"
    using assms(2) by (auto simp: ggml_view_tensor_def run_simps)
  note wf = deref_wf [OF assms(1) ta]
  then have l: "nat (int GGML_MAX_DIMS) \<le> length (t_ne ta)" by (simp add: tensor_wf_def)
  let ?vs = "if t_view_src ta = 0 then a else t_view_src ta"
  let ?t = "\<lambda>d. new_tensor_desc (t_type ta) (t_ne ta) ?vs (if t_view_src ta = 0 then 0 else sz_add 0 (t_view_offs ta)) d"
  obtain d where g: "grows s r (?t d) s1"
    using new_view_grows [OF assms(1) n l ta] wf by (auto simp: tensor_wf_def)
  let ?f = "\<lambda>t. t\<lparr>t_name := take (GGML_MAX_NAME - 1) (t_name ta @ '' (view)''), t_nb := t_nb ta\<rparr>"
  have "view_ok (st_tensors s) (?f (?t d))"
    using deref_view_ok [OF assms(1) ta] ta by (auto simp: view_ok_def deref_def)
  moreover have "tensor_wf (?f (?t d))" using wf by (auto simp: tensor_wf_def)
  moreover have "set (t_src (?f (?t d))) \<subseteq> insert 0 (dom (st_tensors s))" by (simp add: set_replicate_subset)
  ultimately have "grows s r (?f (?t d)) (upd s1 r ?f)" using grows_upd [OF assms(1) g, of ?f] by blast
  moreover have "s' = upd s1 r ?f" by (simp add: s' ggml_format_name_def upd_upd)
  ultimately show ?thesis using ta by (auto simp: view_desc_def)
qed

end
