(* ===== verification/GGML_Hash.thy ===== *)
theory GGML_Hash
  imports GGML_Prelude
begin

text \<open>
  The bit set and the pointer hash set of \<^verbatim>\<open>ggml/src/ggml-impl.h\<close>, and \<^verbatim>\<open>ggml_hash_size\<close> and
  the constructors of \<^verbatim>\<open>ggml/src/ggml.c\<close>. The probing loops are partial functions: \<open>None\<close> would
  be a loop that does not end. The lemmas show that they end, that the table represents a set of
  pointers, and that the slot of a key never moves; \<open>pointer_table\<close> is the contract on which the
  graph code relies.
\<close>

section \<open>Bit sets\<close>

type_synonym ggml_bitset_t = "32 word"

definition ggml_bitset_size :: "size_t \<Rightarrow> size_t" where
  "ggml_bitset_size n = drop_bit 5 (sz_add n 31)"

definition ggml_bitset_get :: "ggml_bitset_t list \<Rightarrow> size_t \<Rightarrow> bool" where
  "ggml_bitset_get bitset i \<longleftrightarrow> (bitset ! drop_bit 5 i) AND push_bit (i AND 31) 1 \<noteq> 0"

definition ggml_bitset_set :: "ggml_bitset_t list \<Rightarrow> size_t \<Rightarrow> ggml_bitset_t list" where
  "ggml_bitset_set bitset i =
     bitset[drop_bit 5 i := (bitset ! drop_bit 5 i) OR push_bit (i AND 31) 1]"

definition ggml_bitset_clear :: "ggml_bitset_t list \<Rightarrow> size_t \<Rightarrow> ggml_bitset_t list" where
  "ggml_bitset_clear bitset i =
     bitset[drop_bit 5 i := (bitset ! drop_bit 5 i) AND NOT (push_bit (i AND 31) 1)]"

section \<open>Hash sets\<close>

abbreviation (input) GGML_HASHSET_FULL :: size_t where "GGML_HASHSET_FULL \<equiv> 18446744073709551615"
abbreviation (input) GGML_HASHSET_ALREADY_EXISTS :: size_t where "GGML_HASHSET_ALREADY_EXISTS \<equiv> 18446744073709551614"

record ggml_hash_set =
  hs_size :: size_t
  hs_used :: "ggml_bitset_t list"
  hs_keys :: "ptr list"

text \<open>The primes of \<^verbatim>\<open>ggml_hash_size\<close> and its binary search.\<close>

definition hash_primes :: "size_t list" where
  "hash_primes =
     [2, 3, 5, 11, 17, 37, 67, 131, 257, 521, 1031,
      2053, 4099, 8209, 16411, 32771, 65537, 131101,
      262147, 524309, 1048583, 2097169, 4194319, 8388617,
      16777259, 33554467, 67108879, 134217757, 268435459,
      536870923, 1073741827, 2147483659]"

function hash_size_search :: "size_t \<Rightarrow> nat \<Rightarrow> nat \<Rightarrow> nat" where
  "hash_size_search min_sz l r =
     (if l < r then
        let m = (l + r) div 2 in
        if hash_primes ! m < min_sz then hash_size_search min_sz (m + 1) r else hash_size_search min_sz l m
      else l)"
  by pat_completeness auto
termination
  by (relation "measure (\<lambda>(_, l, r). r - l)") auto

declare hash_size_search.simps [simp del]

definition ggml_hash_size :: "size_t \<Rightarrow> size_t" where
  "ggml_hash_size min_sz =
     (let l = hash_size_search min_sz 0 (length hash_primes)
      in if l < length hash_primes then hash_primes ! l else min_sz OR 1)"

text \<open>\<^verbatim>\<open>GGML_MALLOC\<close> leaves the keys unspecified; a slot's key is only read when its bit is set.\<close>

definition ggml_hash_set_new :: "size_t \<Rightarrow> ggml_hash_set" where
  "ggml_hash_set_new sz0 =
     (let sz = ggml_hash_size sz0
      in \<lparr>hs_size = sz, hs_used = replicate (ggml_bitset_size sz) 0, hs_keys = replicate sz 0\<rparr>)"

definition ggml_hash_set_reset :: "ggml_hash_set \<Rightarrow> ggml_hash_set" where
  "ggml_hash_set_reset hash_set = hash_set\<lparr>hs_used := replicate (ggml_bitset_size (hs_size hash_set)) 0\<rparr>"

definition ggml_hash :: "ptr \<Rightarrow> size_t" where
  "ggml_hash p = drop_bit 4 p"

partial_function (option) hash_find_loop ::
  "ggml_hash_set \<Rightarrow> ptr \<Rightarrow> size_t \<Rightarrow> size_t \<Rightarrow> size_t option" where
  "hash_find_loop hash_set key h i =
     (if ggml_bitset_get (hs_used hash_set) i \<and> hs_keys hash_set ! i \<noteq> key then
        let i = sz_add i 1 mod hs_size hash_set in
        if i = h then Some GGML_HASHSET_FULL else hash_find_loop hash_set key h i
      else Some i)"

definition ggml_hash_find :: "ggml_hash_set \<Rightarrow> ptr \<Rightarrow> size_t option" where
  "ggml_hash_find hash_set key =
     (let h = ggml_hash key mod hs_size hash_set in hash_find_loop hash_set key h h)"

definition ggml_hash_contains :: "ggml_hash_set \<Rightarrow> ptr \<Rightarrow> bool option" where
  "ggml_hash_contains hash_set key = do {
     i \<leftarrow> ggml_hash_find hash_set key;
     Some (i \<noteq> GGML_HASHSET_FULL \<and> ggml_bitset_get (hs_used hash_set) i) }"

text \<open>
  The inner option of the insertion loops is \<open>None\<close> for the final \<^verbatim>\<open>GGML_ABORT\<close>. \<open>dup\<close> is what is
  returned for a key that is already there, given its slot.
\<close>

partial_function (option) hash_insert_loop ::
  "ggml_hash_set \<Rightarrow> ptr \<Rightarrow> (size_t \<Rightarrow> size_t) \<Rightarrow> size_t \<Rightarrow> size_t \<Rightarrow> (size_t \<times> ggml_hash_set) option option" where
  "hash_insert_loop hash_set key dup h i =
     (if \<not> ggml_bitset_get (hs_used hash_set) i then
        Some (Some (i, hash_set\<lparr>hs_used := ggml_bitset_set (hs_used hash_set) i,
                                hs_keys := (hs_keys hash_set)[i := key]\<rparr>))
      else if hs_keys hash_set ! i = key then Some (Some (dup i, hash_set))
      else
        let i = sz_add i 1 mod hs_size hash_set in
        if i \<noteq> h then hash_insert_loop hash_set key dup h i else Some None)"

definition ggml_hash_insert :: "ggml_hash_set \<Rightarrow> ptr \<Rightarrow> (size_t \<times> ggml_hash_set) option" where
  "ggml_hash_insert hash_set key = do {
     let h = ggml_hash key mod hs_size hash_set;
     r \<leftarrow> hash_insert_loop hash_set key (\<lambda>_. GGML_HASHSET_ALREADY_EXISTS) h h;
     r }"

definition ggml_hash_find_or_insert :: "ggml_hash_set \<Rightarrow> ptr \<Rightarrow> (size_t \<times> ggml_hash_set) option" where
  "ggml_hash_find_or_insert hash_set key = do {
     let h = ggml_hash key mod hs_size hash_set;
     r \<leftarrow> hash_insert_loop hash_set key (\<lambda>i. i) h h;
     r }"

section \<open>Bits\<close>

lemma drop_bit_5: "drop_bit 5 (i::nat) = i div 32"
  by (simp add: drop_bit_eq_div)

lemma and_31: "(i::nat) AND 31 = i mod 32"
  using take_bit_eq_mask [of 5 i] by (simp add: take_bit_eq_mod mask_eq_exp_minus_1 and.commute)

lemma bitset_get_bit: "ggml_bitset_get bs i \<longleftrightarrow> bit (bs ! (i div 32)) (i mod 32)"
  by (simp add: ggml_bitset_get_def drop_bit_5 and_31 bit_iff_and_push_bit_not_eq_0)

lemma bitset_size_bounds:
  assumes "n + 31 \<le> SIZE_MAX" "i < n" shows "i div 32 < ggml_bitset_size n"
proof -
  have "(i + 32) div 32 \<le> (n + 31) div 32" using assms(2) by (intro div_le_mono) simp
  then show ?thesis using assms(1) by (simp add: ggml_bitset_size_def drop_bit_5 sz_add_id)
qed

lemma div_mod_32_eq: "(i::nat) div 32 = j div 32 \<and> i mod 32 = j mod 32 \<longleftrightarrow> i = j"
  by (metis div_mult_mod_eq)

lemma bit_pow32: "k < 32 \<Longrightarrow> bit ((2::32 word) ^ m) k \<longleftrightarrow> m = k"
  by (auto simp: bit_exp_iff)

lemma bitset_get_set:
  assumes "i div 32 < length bs"
  shows "ggml_bitset_get (ggml_bitset_set bs i) j \<longleftrightarrow> j = i \<or> ggml_bitset_get bs j"
proof (cases "j div 32 = i div 32")
  case True
  then have "j = i \<longleftrightarrow> j mod 32 = i mod 32" using div_mod_32_eq by blast
  then show ?thesis
    using assms True by (auto simp: bitset_get_bit ggml_bitset_set_def drop_bit_5 and_31 bit_or_iff bit_pow32)
next
  case False
  then show ?thesis by (auto simp: bitset_get_bit ggml_bitset_set_def drop_bit_5)
qed

lemma bitset_get_clear:
  assumes "i div 32 < length bs"
  shows "ggml_bitset_get (ggml_bitset_clear bs i) j \<longleftrightarrow> j \<noteq> i \<and> ggml_bitset_get bs j"
proof (cases "j div 32 = i div 32")
  case True
  then have "j = i \<longleftrightarrow> j mod 32 = i mod 32" using div_mod_32_eq by blast
  then show ?thesis
    using assms True
    by (auto simp: bitset_get_bit ggml_bitset_clear_def drop_bit_5 and_31 bit_and_iff bit_not_iff bit_pow32)
next
  case False
  then show ?thesis by (auto simp: bitset_get_bit ggml_bitset_clear_def drop_bit_5)
qed

lemma bitset_get_zero: "i div 32 < n \<Longrightarrow> \<not> ggml_bitset_get (replicate n 0) i"
  by (simp add: bitset_get_bit)

lemma bitset_set_length [simp]: "length (ggml_bitset_set bs i) = length bs"
  by (simp add: ggml_bitset_set_def)

section \<open>Probing\<close>

text \<open>Slot \<open>k\<close> of the probe sequence of \<open>h\<close>, and the test that ends the search for \<open>key\<close>.\<close>

definition probe :: "ggml_hash_set \<Rightarrow> size_t \<Rightarrow> nat \<Rightarrow> size_t" where
  "probe hs h k = (h + k) mod hs_size hs"

definition stops :: "ggml_hash_set \<Rightarrow> ptr \<Rightarrow> size_t \<Rightarrow> bool" where
  "stops hs key i \<longleftrightarrow> ggml_bitset_get (hs_used hs) i \<longrightarrow> hs_keys hs ! i = key"

lemma probe_step:
  assumes "h < hs_size hs" "k < hs_size hs" "hs_size hs \<le> SIZE_MAX"
  shows "sz_add (probe hs h k) 1 mod hs_size hs = probe hs h (Suc k)"
    and "probe hs h (Suc k) = h \<longleftrightarrow> Suc k = hs_size hs"
proof -
  let ?n = "hs_size hs"
  have "probe hs h k < ?n" using assms(1) by (simp add: probe_def)
  then have "sz_add (probe hs h k) 1 = Suc (probe hs h k)" using assms(3) by (simp add: sz_add_id)
  then show "sz_add (probe hs h k) 1 mod ?n = probe hs h (Suc k)" by (simp add: probe_def mod_Suc_eq)
  show "probe hs h (Suc k) = h \<longleftrightarrow> Suc k = ?n"
  proof
    assume "probe hs h (Suc k) = h"
    then have "(h + Suc k) mod ?n = (h + 0) mod ?n" using assms(1) by (simp add: probe_def)
    then have "?n dvd Suc k" by (simp add: mod_eq_dvd_iff_nat del: add_0_right) 
    then show "Suc k = ?n" using assms(2) by (simp add: dvd_imp_le le_antisym Suc_leI)
  next
    assume "Suc k = ?n"
    then show "probe hs h (Suc k) = h" using assms(1) by (simp add: probe_def del: add_Suc_right)
  qed
qed

lemma hash_find_loop_eq:
  assumes "h < hs_size hs" "hs_size hs \<le> SIZE_MAX" "k < hs_size hs"
  shows "hash_find_loop hs key h (probe hs h k) =
    Some (case find (\<lambda>j. stops hs key (probe hs h j)) [k..<hs_size hs] of
            None \<Rightarrow> GGML_HASHSET_FULL | Some j \<Rightarrow> probe hs h j)"
  using assms(3)
proof (induction "hs_size hs - k" arbitrary: k rule: less_induct)
  case less
  note p = probe_step [OF assms(1) less.prems assms(2)]
  have up: "[k..<hs_size hs] = k # [Suc k..<hs_size hs]" using less.prems by (simp add: upt_conv_Cons)
  show ?case
  proof (cases "stops hs key (probe hs h k)")
    case True
    then show ?thesis unfolding up by (subst hash_find_loop.simps) (auto simp: stops_def)
  next
    case False
    then have u: "ggml_bitset_get (hs_used hs) (probe hs h k) \<and> hs_keys hs ! probe hs h k \<noteq> key" by (simp add: stops_def)
    show ?thesis
    proof (cases "Suc k = hs_size hs")
      case True
      then show ?thesis using False u p unfolding up by (subst hash_find_loop.simps) (simp add: Let_def)
    next
      case ne: False
      then have "Suc k < hs_size hs" using less.prems by simp
      then show ?thesis
        using False u p ne less.hyps [of "Suc k"] less.prems unfolding up
        by (subst hash_find_loop.simps) (simp add: Let_def)
    qed
  qed
qed

lemma hash_insert_loop_eq:
  assumes "h < hs_size hs" "hs_size hs \<le> SIZE_MAX" "k < hs_size hs"
  shows "hash_insert_loop hs key dup h (probe hs h k) =
    Some (case find (\<lambda>j. stops hs key (probe hs h j)) [k..<hs_size hs] of
            None \<Rightarrow> None
          | Some j \<Rightarrow> Some (if ggml_bitset_get (hs_used hs) (probe hs h j) then (dup (probe hs h j), hs)
              else (probe hs h j, hs\<lparr>hs_used := ggml_bitset_set (hs_used hs) (probe hs h j),
                                     hs_keys := (hs_keys hs)[probe hs h j := key]\<rparr>)))"
  using assms(3)
proof (induction "hs_size hs - k" arbitrary: k rule: less_induct)
  case less
  note p = probe_step [OF assms(1) less.prems assms(2)]
  have up: "[k..<hs_size hs] = k # [Suc k..<hs_size hs]" using less.prems by (simp add: upt_conv_Cons)
  show ?case
  proof (cases "stops hs key (probe hs h k)")
    case True
    then show ?thesis unfolding up by (subst hash_insert_loop.simps) (auto simp: stops_def)
  next
    case False
    then have u: "ggml_bitset_get (hs_used hs) (probe hs h k)" "hs_keys hs ! probe hs h k \<noteq> key" by (simp_all add: stops_def)
    show ?thesis
    proof (cases "Suc k = hs_size hs")
      case True
      then show ?thesis using False u p unfolding up by (subst hash_insert_loop.simps) (simp add: Let_def)
    next
      case ne: False
      then have "Suc k < hs_size hs" using less.prems by simp
      then show ?thesis
        using False u p ne less.hyps [of "Suc k"] less.prems unfolding up
        by (subst hash_insert_loop.simps) (simp add: Let_def)
    qed
  qed
qed

section \<open>The table represents a set\<close>

definition used_slot :: "ggml_hash_set \<Rightarrow> nat \<Rightarrow> bool" where
  "used_slot hs i \<longleftrightarrow> i < hs_size hs \<and> ggml_bitset_get (hs_used hs) i"

definition hs_set :: "ggml_hash_set \<Rightarrow> ptr set" where
  "hs_set hs = {hs_keys hs ! i | i. used_slot hs i}"

definition home :: "ggml_hash_set \<Rightarrow> ptr \<Rightarrow> nat" where
  "home hs key = ggml_hash key mod hs_size hs"

text \<open>Every key sits on its own probe sequence, with only used slots before it, and nowhere else.\<close>

definition hs_inv :: "ggml_hash_set \<Rightarrow> bool" where
  "hs_inv hs \<longleftrightarrow> 0 < hs_size hs \<and> hs_size hs + 31 \<le> SIZE_MAX - 1 \<and> length (hs_keys hs) = hs_size hs
     \<and> length (hs_used hs) = ggml_bitset_size (hs_size hs)
     \<and> (\<forall>i. used_slot hs i \<longrightarrow> (\<exists>k < hs_size hs. i = probe hs (home hs (hs_keys hs ! i)) k
          \<and> (\<forall>j < k. used_slot hs (probe hs (home hs (hs_keys hs ! i)) j))))
     \<and> (\<forall>i j. used_slot hs i \<and> used_slot hs j \<and> hs_keys hs ! i = hs_keys hs ! j \<longrightarrow> i = j)"

lemma hs_invD:
  assumes "hs_inv hs"
  shows "0 < hs_size hs" "hs_size hs \<le> SIZE_MAX" "home hs key < hs_size hs" "probe hs h k < hs_size hs"
    and "i < hs_size hs \<Longrightarrow> i div 32 < length (hs_used hs)" "i < hs_size hs \<Longrightarrow> i < length (hs_keys hs)"
    and "i < hs_size hs \<Longrightarrow> i \<noteq> GGML_HASHSET_FULL" "i < hs_size hs \<Longrightarrow> i \<noteq> GGML_HASHSET_ALREADY_EXISTS"
  using assms bitset_size_bounds [of "hs_size hs" i] by (auto simp: hs_inv_def home_def probe_def)

lemma find_upt: "find P [k..<n] = Some j \<longleftrightarrow> k \<le> j \<and> j < n \<and> P j \<and> (\<forall>i. k \<le> i \<and> i < j \<longrightarrow> \<not> P i)"
proof
  assume "find P [k..<n] = Some j"
  then obtain i where i: "i < n - k" "P (k + i)" "j = k + i" "\<forall>m < i. \<not> P (k + m)"
    by (auto simp: find_Some_iff)
  then have "\<not> P m" if "k \<le> m \<and> m < j" for m using that by (metis add_diff_cancel_left' le_Suc_ex nat_add_left_cancel_less)
  then show "k \<le> j \<and> j < n \<and> P j \<and> (\<forall>i. k \<le> i \<and> i < j \<longrightarrow> \<not> P i)" using i by auto
next
  assume a: "k \<le> j \<and> j < n \<and> P j \<and> (\<forall>i. k \<le> i \<and> i < j \<longrightarrow> \<not> P i)"
  then show "find P [k..<n] = Some j"
    unfolding find_Some_iff by (intro exI [of _ "j - k"]) auto
qed

lemma find_upt_None: "find P [k..<n] = None \<longleftrightarrow> (\<forall>i. k \<le> i \<and> i < n \<longrightarrow> \<not> P i)"
  by (auto simp: find_None_iff)

lemma probe_surj:
  assumes "h < hs_size hs" "i < hs_size hs" shows "\<exists>k < hs_size hs. probe hs h k = i"
proof (cases "h \<le> i")
  case True
  then show ?thesis using assms by (intro exI [of _ "i - h"]) (simp add: probe_def)
next
  case False
  then have "h + (i + hs_size hs - h) = i + hs_size hs" using assms by simp
  then show ?thesis using assms False by (intro exI [of _ "i + hs_size hs - h"]) (simp add: probe_def)
qed

text \<open>What the search for \<open>key\<close> returns.\<close>

definition slot_of :: "ggml_hash_set \<Rightarrow> ptr \<Rightarrow> nat option" where
  "slot_of hs key = map_option (probe hs (home hs key))
     (find (\<lambda>j. stops hs key (probe hs (home hs key) j)) [0..<hs_size hs])"

lemma ggml_hash_find_eq:
  assumes "hs_inv hs"
  shows "ggml_hash_find hs key = Some (case slot_of hs key of None \<Rightarrow> GGML_HASHSET_FULL | Some i \<Rightarrow> i)"
proof -
  have "probe hs (home hs key) 0 = home hs key" using hs_invD(3) [OF assms] by (simp add: probe_def)
  then show ?thesis
    using hash_find_loop_eq [of "home hs key" hs 0 key] hs_invD(1-3) [OF assms]
    by (simp add: ggml_hash_find_def Let_def home_def [symmetric] slot_of_def split: option.splits)
qed

lemma hash_insert_eq:
  assumes "hs_inv hs"
  shows "hash_insert_loop hs key dup (home hs key) (home hs key) =
    Some (case slot_of hs key of None \<Rightarrow> None
      | Some i \<Rightarrow> Some (if ggml_bitset_get (hs_used hs) i then (dup i, hs)
          else (i, hs\<lparr>hs_used := ggml_bitset_set (hs_used hs) i, hs_keys := (hs_keys hs)[i := key]\<rparr>)))"
proof -
  have "probe hs (home hs key) 0 = home hs key" using hs_invD(3) [OF assms] by (simp add: probe_def)
  then show ?thesis
    using hash_insert_loop_eq [of "home hs key" hs 0 key dup] hs_invD(1-3) [OF assms]
    by (simp add: slot_of_def split: option.splits)
qed

lemma slot_of_Some:
  assumes "hs_inv hs" "slot_of hs key = Some i"
  shows "i < hs_size hs"
    "ggml_bitset_get (hs_used hs) i \<Longrightarrow> hs_keys hs ! i = key \<and> key \<in> hs_set hs"
    "\<not> ggml_bitset_get (hs_used hs) i \<Longrightarrow> key \<notin> hs_set hs"
    "\<exists>k < hs_size hs. i = probe hs (home hs key) k \<and> (\<forall>j < k. used_slot hs (probe hs (home hs key) j))"
proof -
  obtain k where k: "i = probe hs (home hs key) k" "k < hs_size hs" "stops hs key i"
    and before: "\<And>j. j < k \<Longrightarrow> \<not> stops hs key (probe hs (home hs key) j)"
    using assms(2) by (auto simp: slot_of_def find_upt)
  show i: "i < hs_size hs" using hs_invD(4) [OF assms(1)] k(1) by simp
  show "hs_keys hs ! i = key \<and> key \<in> hs_set hs" if "ggml_bitset_get (hs_used hs) i"
    using that i k(3) by (auto simp: stops_def hs_set_def used_slot_def)
  have b: "used_slot hs (probe hs (home hs key) j)" "hs_keys hs ! probe hs (home hs key) j \<noteq> key" if "j < k" for j
    using before [OF that] hs_invD(4) [OF assms(1)] by (auto simp: stops_def used_slot_def)
  then show "\<exists>k < hs_size hs. i = probe hs (home hs key) k \<and> (\<forall>j < k. used_slot hs (probe hs (home hs key) j))"
    using k by blast
  show "key \<notin> hs_set hs" if free: "\<not> ggml_bitset_get (hs_used hs) i"
  proof
    assume "key \<in> hs_set hs"
    then obtain l where l: "used_slot hs l" "hs_keys hs ! l = key" by (auto simp: hs_set_def)
    then obtain m where m: "l = probe hs (home hs key) m" "m < hs_size hs"
      and all: "\<forall>j < m. used_slot hs (probe hs (home hs key) j)"
      using assms(1) unfolding hs_inv_def by metis
    show False
      using all b [of m] l m k(1) free by (metis linorder_neqE_nat used_slot_def)
  qed
qed

lemma slot_of_None:
  assumes "hs_inv hs" "slot_of hs key = None"
  shows "key \<notin> hs_set hs" "\<forall>i < hs_size hs. used_slot hs i"
proof -
  have n: "\<not> stops hs key (probe hs (home hs key) j)" if "j < hs_size hs" for j
    using assms(2) that by (auto simp: slot_of_def find_upt_None)
  have m: "used_slot hs i \<and> hs_keys hs ! i \<noteq> key" if "i < hs_size hs" for i
    using probe_surj [OF hs_invD(3) [OF assms(1)] that] n that by (metis stops_def used_slot_def)
  then show "\<forall>i < hs_size hs. used_slot hs i" by blast
  show "key \<notin> hs_set hs" using m by (auto simp: hs_set_def used_slot_def)
qed

lemma slot_of_member:
  assumes "hs_inv hs" "used_slot hs i" "hs_keys hs ! i = key" shows "slot_of hs key = Some i"
proof (cases "slot_of hs key")
  case None
  then show ?thesis using slot_of_None [OF assms(1) None] assms(2,3) by (auto simp: hs_set_def)
next
  case (Some j)
  have "key \<in> hs_set hs" using assms(2,3) by (auto simp: hs_set_def)
  then have "used_slot hs j" "hs_keys hs ! j = key" using slot_of_Some [OF assms(1) Some] by (auto simp: used_slot_def)
  then show ?thesis using assms Some unfolding hs_inv_def by metis
qed

text \<open>Storing a new key in the slot its search returned.\<close>

lemma hs_store:
  assumes "hs_inv hs" "slot_of hs key = Some i" "\<not> ggml_bitset_get (hs_used hs) i"
  defines "hs' \<equiv> hs\<lparr>hs_used := ggml_bitset_set (hs_used hs) i, hs_keys := (hs_keys hs)[i := key]\<rparr>"
  shows "hs_inv hs'" "hs_set hs' = insert key (hs_set hs)" "used_slot hs' j \<longleftrightarrow> j = i \<or> used_slot hs j"
    "hs_keys hs' ! i = key" "j \<noteq> i \<Longrightarrow> hs_keys hs' ! j = hs_keys hs ! j"
proof -
  note s = slot_of_Some [OF assms(1,2)] and d = hs_invD [OF assms(1)]
  have sz [simp]: "hs_size hs' = hs_size hs" and p [simp]: "probe hs' = probe hs" "home hs' = home hs"
    by (simp_all add: hs'_def probe_def home_def fun_eq_iff)
  show u: "used_slot hs' j \<longleftrightarrow> j = i \<or> used_slot hs j" for j
    using s(1) d(5) by (auto simp: used_slot_def hs'_def bitset_get_set)
  show ki: "hs_keys hs' ! i = key" using s(1) d(6) by (simp add: hs'_def)
  show kj: "hs_keys hs' ! j = hs_keys hs ! j" if "j \<noteq> i" for j using that by (simp add: hs'_def)
  have ni: "\<not> used_slot hs i" using assms(3) by (simp add: used_slot_def)
  have nk: "hs_keys hs ! j \<noteq> key" if "used_slot hs j" for j using s(3) [OF assms(3)] that by (auto simp: hs_set_def)
  show "hs_set hs' = insert key (hs_set hs)" unfolding hs_set_def u using ki kj ni by auto metis+
  have "(\<exists>k < hs_size hs. l = probe hs (home hs (hs_keys hs' ! l)) k
          \<and> (\<forall>j < k. used_slot hs' (probe hs (home hs (hs_keys hs' ! l)) j)))" if "used_slot hs' l" for l
  proof (cases "l = i")
    case True
    then show ?thesis using s(4) ki u by metis
  next
    case False
    then have "used_slot hs l" using that u by simp
    then show ?thesis using assms(1) False kj u unfolding hs_inv_def by metis
  qed
  moreover have "l = m" if "used_slot hs' l" "used_slot hs' m" "hs_keys hs' ! l = hs_keys hs' ! m" for l m
    using that u ki kj ni nk assms(1) unfolding hs_inv_def by metis
  moreover have "0 < hs_size hs" "hs_size hs + 31 \<le> SIZE_MAX - 1" "length (hs_keys hs') = hs_size hs"
      "length (hs_used hs') = ggml_bitset_size (hs_size hs)"
    using assms(1) by (auto simp: hs_inv_def hs'_def)
  ultimately show "hs_inv hs'" unfolding hs_inv_def sz p by blast
qed

lemma hash_insert_cases:
  assumes "hs_inv hs"
  shows "ggml_hash_insert hs key =
    (if key \<in> hs_set hs then Some (GGML_HASHSET_ALREADY_EXISTS, hs)
     else case slot_of hs key of None \<Rightarrow> None
       | Some i \<Rightarrow> Some (i, hs\<lparr>hs_used := ggml_bitset_set (hs_used hs) i, hs_keys := (hs_keys hs)[i := key]\<rparr>))"
    and "ggml_hash_find_or_insert hs key =
    (case slot_of hs key of None \<Rightarrow> None
       | Some i \<Rightarrow> Some (i, if key \<in> hs_set hs then hs
           else hs\<lparr>hs_used := ggml_bitset_set (hs_used hs) i, hs_keys := (hs_keys hs)[i := key]\<rparr>))"
proof -
  have m: "key \<in> hs_set hs \<longleftrightarrow> ggml_bitset_get (hs_used hs) i" if "slot_of hs key = Some i" for i
    using slot_of_Some [OF assms that] by blast
  have n: "key \<notin> hs_set hs" if "slot_of hs key = None" using slot_of_None [OF assms that] by blast
  show "ggml_hash_insert hs key =
    (if key \<in> hs_set hs then Some (GGML_HASHSET_ALREADY_EXISTS, hs)
     else case slot_of hs key of None \<Rightarrow> None
       | Some i \<Rightarrow> Some (i, hs\<lparr>hs_used := ggml_bitset_set (hs_used hs) i, hs_keys := (hs_keys hs)[i := key]\<rparr>))"
    using m n unfolding ggml_hash_insert_def Let_def home_def [symmetric] hash_insert_eq [OF assms]
    by (auto split: option.splits)
  show "ggml_hash_find_or_insert hs key =
    (case slot_of hs key of None \<Rightarrow> None
       | Some i \<Rightarrow> Some (i, if key \<in> hs_set hs then hs
           else hs\<lparr>hs_used := ggml_bitset_set (hs_used hs) i, hs_keys := (hs_keys hs)[i := key]\<rparr>))"
    using m n unfolding ggml_hash_find_or_insert_def Let_def home_def [symmetric] hash_insert_eq [OF assms]
    by (auto split: option.splits)
qed

lemma hs_set_card:
  assumes "hs_inv hs"
  shows "finite (hs_set hs)" "card (hs_set hs) \<le> hs_size hs"
    "(\<forall>i < hs_size hs. used_slot hs i) \<longleftrightarrow> card (hs_set hs) = hs_size hs"
proof -
  let ?U = "{i. used_slot hs i}"
  have fin: "finite ?U" by (rule finite_subset [of _ "{..<hs_size hs}"]) (auto simp: used_slot_def)
  have img: "hs_set hs = (\<lambda>i. hs_keys hs ! i) ` ?U" by (auto simp: hs_set_def)
  have "inj_on (\<lambda>i. hs_keys hs ! i) ?U" using assms unfolding hs_inv_def inj_on_def by blast
  then have c: "card (hs_set hs) = card ?U" unfolding img by (rule card_image)
  show "finite (hs_set hs)" using fin img by simp
  have sub: "?U \<subseteq> {..<hs_size hs}" by (auto simp: used_slot_def)
  then show "card (hs_set hs) \<le> hs_size hs" using card_mono [OF _ sub] c by simp
  show "(\<forall>i < hs_size hs. used_slot hs i) \<longleftrightarrow> card (hs_set hs) = hs_size hs"
  proof
    assume "\<forall>i < hs_size hs. used_slot hs i"
    then have "?U = {..<hs_size hs}" using sub by auto
    then show "card (hs_set hs) = hs_size hs" using c by simp
  next
    assume "card (hs_set hs) = hs_size hs"
    then have "?U = {..<hs_size hs}" using card_subset_eq [OF _ sub] c by simp
    then show "\<forall>i < hs_size hs. used_slot hs i" by auto
  qed
qed

section \<open>The contract of a pointer table\<close>

text \<open>
  What a client needs from a table of pointers: each member has a slot of its own, adding a
  pointer keeps the slots of the others, and adding fails only when the table is full. A client
  may keep counters in an array indexed by slot; they then behave like a map from pointers.
\<close>

locale pointer_table =
  fixes slot :: "'s \<Rightarrow> ptr \<Rightarrow> nat option"
    and add :: "'s \<Rightarrow> ptr \<Rightarrow> (nat \<times> 's) option"
    and invar :: "'s \<Rightarrow> bool"
    and elems :: "'s \<Rightarrow> ptr set"
    and capacity :: "'s \<Rightarrow> nat"
  assumes slot_member: "invar s \<Longrightarrow> p \<in> elems s \<longleftrightarrow> (\<exists>i. slot s p = Some i)"
    and slot_less: "invar s \<Longrightarrow> slot s p = Some i \<Longrightarrow> i < capacity s"
    and slot_inj: "invar s \<Longrightarrow> slot s p = Some i \<Longrightarrow> slot s q = Some i \<Longrightarrow> p = q"
    and add_invar: "invar s \<Longrightarrow> add s p = Some (i, s') \<Longrightarrow> invar s'"
    and add_elems: "invar s \<Longrightarrow> add s p = Some (i, s') \<Longrightarrow> elems s' = insert p (elems s)"
    and add_capacity: "invar s \<Longrightarrow> add s p = Some (i, s') \<Longrightarrow> capacity s' = capacity s"
    and add_slot: "invar s \<Longrightarrow> add s p = Some (i, s') \<Longrightarrow> slot s' p = Some i"
    and add_other: "invar s \<Longrightarrow> add s p = Some (i, s') \<Longrightarrow> q \<noteq> p \<Longrightarrow> slot s' q = slot s q"
    and add_full: "invar s \<Longrightarrow> add s p = None \<longleftrightarrow> p \<notin> elems s \<and> card (elems s) = capacity s"
begin

definition count :: "'s \<Rightarrow> 'c::zero list \<Rightarrow> ptr \<Rightarrow> 'c" where
  "count s counts p = (case slot s p of None \<Rightarrow> 0 | Some i \<Rightarrow> counts ! i)"

lemma count_update:
  assumes "invar s" "slot s p = Some i" "length counts = capacity s"
  shows "count s (counts[i := c]) q = (if q = p then c else count s counts q)"
proof (cases "slot s q")
  case None
  then show ?thesis using assms(2) by (auto simp: count_def)
next
  case (Some j)
  show ?thesis
  proof (cases "q = p")
    case True
    then show ?thesis using assms slot_less [OF assms(1,2)] by (simp add: count_def)
  next
    case False
    then have "i \<noteq> j" using slot_inj [OF assms(1,2)] Some by blast
    then show ?thesis using Some False by (simp add: count_def)
  qed
qed

lemma count_add:
  assumes "invar s" "add s p = Some (i, s')" "p \<notin> elems s" "length counts = capacity s"
  shows "count s' (counts[i := 0]) q = count s counts q"
proof (cases "q = p")
  case True
  have "slot s p = None" using assms(3) slot_member [OF assms(1), of p] by auto
  then have "count s counts p = 0" by (simp add: count_def)
  moreover have "count s' (counts[i := 0]) p = 0"
    using count_update [OF add_invar [OF assms(1,2)] add_slot [OF assms(1,2)], of counts 0 p]
      add_capacity [OF assms(1,2)] assms(4) by simp
  ultimately show ?thesis using True by simp
next
  case False
  then show ?thesis
    using count_update [OF add_invar [OF assms(1,2)] add_slot [OF assms(1,2)], of counts 0 q]
      add_capacity [OF assms(1,2)] assms(4) add_other [OF assms(1,2) False]
    by (simp add: count_def)
qed

end

definition member_slot :: "ggml_hash_set \<Rightarrow> ptr \<Rightarrow> nat option" where
  "member_slot hs key = (if key \<in> hs_set hs then slot_of hs key else None)"

lemma member_slot_Some:
  assumes "hs_inv hs"
  shows "member_slot hs key = Some i \<longleftrightarrow> used_slot hs i \<and> hs_keys hs ! i = key"
proof
  assume "member_slot hs key = Some i"
  then have "slot_of hs key = Some i" "key \<in> hs_set hs" by (auto simp: member_slot_def split: if_splits)
  then show "used_slot hs i \<and> hs_keys hs ! i = key" using slot_of_Some [OF assms, of key i] by (auto simp: used_slot_def)
next
  assume "used_slot hs i \<and> hs_keys hs ! i = key"
  then show "member_slot hs key = Some i"
    using slot_of_member [OF assms, of i key] by (auto simp: member_slot_def hs_set_def)
qed

lemma find_or_insert_Some:
  assumes "hs_inv hs" "ggml_hash_find_or_insert hs key = Some (i, hs')"
  shows "hs_inv hs'" "hs_set hs' = insert key (hs_set hs)" "hs_size hs' = hs_size hs"
    "used_slot hs' j \<and> hs_keys hs' ! j = q \<longleftrightarrow> (if q = key then j = i else used_slot hs j \<and> hs_keys hs ! j = q)"
proof -
  obtain i0 where s: "slot_of hs key = Some i0" "i = i0"
    and hs': "hs' = (if key \<in> hs_set hs then hs
           else hs\<lparr>hs_used := ggml_bitset_set (hs_used hs) i, hs_keys := (hs_keys hs)[i := key]\<rparr>)"
    using assms(2) unfolding hash_insert_cases(2) [OF assms(1)] by (auto split: option.splits)
  note sl = slot_of_Some [OF assms(1) s(1), folded s(2)]
  have "hs_inv hs' \<and> hs_set hs' = insert key (hs_set hs) \<and> hs_size hs' = hs_size hs
    \<and> (used_slot hs' j \<and> hs_keys hs' ! j = q \<longleftrightarrow> (if q = key then j = i else used_slot hs j \<and> hs_keys hs ! j = q))"
  proof (cases "key \<in> hs_set hs")
    case True
    then have "member_slot hs key = Some i" using s by (simp add: member_slot_def)
    then have "used_slot hs j \<and> hs_keys hs ! j = key \<longleftrightarrow> j = i" for j
      using member_slot_Some [OF assms(1)] by (metis option.inject)
    then show ?thesis using True assms(1) hs' by auto
  next
    case False
    then have free: "\<not> ggml_bitset_get (hs_used hs) i" using sl(2) by blast
    note st = hs_store [OF assms(1) s(1) [folded s(2)] free]
    have eq: "hs' = hs\<lparr>hs_used := ggml_bitset_set (hs_used hs) i, hs_keys := (hs_keys hs)[i := key]\<rparr>"
      using False hs' by simp
    have nk: "\<not> (used_slot hs j \<and> hs_keys hs ! j = key)" using False by (auto simp: hs_set_def)
    have ni: "\<not> used_slot hs i" using free by (simp add: used_slot_def)
    have "used_slot hs' j \<and> hs_keys hs' ! j = q \<longleftrightarrow> (if q = key then j = i else used_slot hs j \<and> hs_keys hs ! j = q)"
    proof (cases "j = i")
      case True
      then show ?thesis using st(3) [of i] st(4) ni unfolding eq by auto
    next
      case ne: False
      then show ?thesis using st(3) [of j] st(5) [OF ne] nk unfolding eq by auto
    qed
    then show ?thesis using st(1,2) eq by simp
  qed
  then show "hs_inv hs'" "hs_set hs' = insert key (hs_set hs)" "hs_size hs' = hs_size hs"
    "used_slot hs' j \<and> hs_keys hs' ! j = q \<longleftrightarrow> (if q = key then j = i else used_slot hs j \<and> hs_keys hs ! j = q)"
    by blast+
qed

interpretation hash: pointer_table member_slot ggml_hash_find_or_insert hs_inv hs_set hs_size
proof (unfold_locales, goal_cases)
  case (1 s p)
  then show ?case using member_slot_Some [OF 1] by (auto simp: hs_set_def)
next
  case (2 s p i)
  then show ?case by (simp add: member_slot_Some used_slot_def)
next
  case (3 s p i q)
  then show ?case by (simp add: member_slot_Some)
next
  case (4 s p i s')
  then show ?case by (rule find_or_insert_Some(1))
next
  case (5 s p i s')
  then show ?case by (rule find_or_insert_Some(2))
next
  case (6 s p i s')
  then show ?case by (rule find_or_insert_Some(3))
next
  case (7 s p i s')
  then show ?case using find_or_insert_Some(4) [OF 7, of i p] by (simp add: member_slot_Some [OF find_or_insert_Some(1) [OF 7]])
next
  case (8 s p i s' q)
  note m = member_slot_Some [OF 8(1)] and m' = member_slot_Some [OF find_or_insert_Some(1) [OF 8(1,2)]]
  have "member_slot s' q = Some j \<longleftrightarrow> member_slot s q = Some j" for j
    using find_or_insert_Some(4) [OF 8(1,2), of j q] 8(3) by (simp add: m m')
  then show ?case by (metis not_None_eq)
next
  case (9 s p)
  show ?case
  proof (cases "slot_of s p")
    case None
    then show ?thesis using slot_of_None [OF 9 None] hs_set_card(3) [OF 9] by (simp add: hash_insert_cases(2) [OF 9])
  next
    case (Some i)
    have "p \<in> hs_set s" if "\<forall>i < hs_size s. used_slot s i" using slot_of_Some [OF 9 Some] that by (auto simp: used_slot_def)
    then show ?thesis using Some hs_set_card(3) [OF 9] by (auto simp: hash_insert_cases(2) [OF 9])
  qed
qed

section \<open>Construction\<close>

lemma hs_inv_empty:
  assumes "0 < n" "n + 31 \<le> SIZE_MAX - 1" "length ks = n"
  defines "hs \<equiv> \<lparr>hs_size = n, hs_used = replicate (ggml_bitset_size n) 0, hs_keys = ks\<rparr>"
  shows "hs_inv hs" "hs_set hs = {}"
proof -
  have "\<not> used_slot hs i" for i
    using bitset_get_zero [OF bitset_size_bounds [of n i]] assms(2) by (auto simp: used_slot_def hs_def)
  then show "hs_inv hs" "hs_set hs = {}" using assms(1-3) by (simp_all add: hs_inv_def hs_set_def hs_def)
qed

lemma hash_set_reset_inv:
  assumes "hs_inv hs"
  shows "hs_inv (ggml_hash_set_reset hs)" "hs_set (ggml_hash_set_reset hs) = {}"
    "hs_size (ggml_hash_set_reset hs) = hs_size hs"
proof -
  have eq: "ggml_hash_set_reset hs =
      \<lparr>hs_size = hs_size hs, hs_used = replicate (ggml_bitset_size (hs_size hs)) 0, hs_keys = hs_keys hs\<rparr>"
    by (simp add: ggml_hash_set_reset_def)
  have "0 < hs_size hs" "hs_size hs + 31 \<le> SIZE_MAX - 1" "length (hs_keys hs) = hs_size hs"
    using assms by (auto simp: hs_inv_def)
  from hs_inv_empty [OF this] show "hs_inv (ggml_hash_set_reset hs)" "hs_set (ggml_hash_set_reset hs) = {}"
    "hs_size (ggml_hash_set_reset hs) = hs_size hs" unfolding eq by simp_all
qed

lemma hash_primes_sorted: "sorted hash_primes"
  by (simp add: hash_primes_def)

lemma hash_size_search_correct:
  assumes "l \<le> r" "r \<le> length hash_primes"
    and "\<And>i. i < l \<Longrightarrow> hash_primes ! i < min_sz" "\<And>i. r \<le> i \<Longrightarrow> i < length hash_primes \<Longrightarrow> min_sz \<le> hash_primes ! i"
  defines "k \<equiv> hash_size_search min_sz l r"
  shows "k \<le> length hash_primes \<and> (\<forall>i < k. hash_primes ! i < min_sz)
    \<and> (k < length hash_primes \<longrightarrow> min_sz \<le> hash_primes ! k)"
  using assms(1-4) unfolding k_def
proof (induction min_sz l r rule: hash_size_search.induct)
  case (1 min_sz l r)
  show ?case
  proof (cases "l < r")
    case False
    then have "hash_size_search min_sz l r = l" by (simp add: hash_size_search.simps [of min_sz l r])
    then show ?thesis using 1(3-6) False by simp
  next
    case True
    define m where "m = (l + r) div 2"
    have m: "l \<le> m" "m < r" using True by (auto simp: m_def)
    show ?thesis
    proof (cases "hash_primes ! m < min_sz")
      case lt: True
      have "hash_primes ! i < min_sz" if "i < m + 1" for i
        using sorted_nth_mono [OF hash_primes_sorted, of i m] that m 1(4) lt by simp
      then show ?thesis
        using 1(1) [OF True m_def lt] m 1(4,6) True lt
        by (simp add: hash_size_search.simps [of min_sz l r] m_def [symmetric] Let_def)
    next
      case ge: False
      have "min_sz \<le> hash_primes ! i" if "m \<le> i" "i < length hash_primes" for i
        using sorted_nth_mono [OF hash_primes_sorted that] ge by simp
      then show ?thesis
        using 1(2) [OF True m_def ge] m 1(4,5) True ge
        by (simp add: hash_size_search.simps [of min_sz l r] m_def [symmetric] Let_def)
    qed
  qed
qed

lemma or_one_bounds: "(n::nat) \<le> n OR 1" "n OR 1 \<le> n + 1" "0 < n OR 1"
proof -
  have "n OR 1 = n + of_bool (even n)"
    unfolding or_rec [of n 1] by (cases "even n") (auto elim!: evenE oddE)
  then show "n \<le> n OR 1" "n OR 1 \<le> n + 1" "0 < n OR 1" by (auto intro: gr0I)
qed

text \<open>
  \<^verbatim>\<open>ggml_hash_size\<close> returns a size of at least \<open>min_sz\<close>: the first entry of its table that is
  large enough, as the binary search promises, and \<^verbatim>\<open>min_sz | 1\<close> only when every entry is too small.
\<close>

theorem ggml_hash_size_correct:
  "min_sz \<le> ggml_hash_size min_sz \<and>
   (if \<exists>p \<in> set hash_primes. min_sz \<le> p
    then ggml_hash_size min_sz \<in> set hash_primes \<and> (\<forall>p \<in> set hash_primes. min_sz \<le> p \<longrightarrow> ggml_hash_size min_sz \<le> p)
    else ggml_hash_size min_sz = min_sz OR 1)"
proof -
  define k where "k = hash_size_search min_sz 0 (length hash_primes)"
  have k: "k \<le> length hash_primes" "\<And>i. i < k \<Longrightarrow> hash_primes ! i < min_sz"
      "k < length hash_primes \<Longrightarrow> min_sz \<le> hash_primes ! k"
    using hash_size_search_correct [of 0 "length hash_primes" min_sz] by (auto simp: k_def)
  have sz: "ggml_hash_size min_sz = (if k < length hash_primes then hash_primes ! k else min_sz OR 1)"
    unfolding ggml_hash_size_def k_def [symmetric] Let_def ..
  show ?thesis
  proof (cases "k < length hash_primes")
    case True
    have "hash_primes ! k \<le> hash_primes ! i" if "i < length hash_primes" "min_sz \<le> hash_primes ! i" for i
      using sorted_nth_mono [OF hash_primes_sorted, of k i] k(2) [of i] that by fastforce
    then have "\<forall>p \<in> set hash_primes. min_sz \<le> p \<longrightarrow> hash_primes ! k \<le> p" by (auto simp: in_set_conv_nth)
    then show ?thesis using True k(3) sz nth_mem [OF True] by auto
  next
    case False
    then have "\<not> (\<exists>p \<in> set hash_primes. min_sz \<le> p)" using k(1,2) by (fastforce simp: in_set_conv_nth)
    then show ?thesis using False sz or_one_bounds(1) by auto
  qed
qed

text \<open>The same facts with the size bounded, for the constructor.\<close>

lemma ggml_hash_size_range:
  "0 < ggml_hash_size n" "n \<le> ggml_hash_size n" "n \<le> 2 ^ 63 \<Longrightarrow> ggml_hash_size n \<le> 2 ^ 63 + 1"
proof -
  define k where "k = hash_size_search n 0 (length hash_primes)"
  have k: "k \<le> length hash_primes" "k < length hash_primes \<Longrightarrow> n \<le> hash_primes ! k"
    using hash_size_search_correct [of 0 "length hash_primes" n] by (auto simp: k_def)
  have "p \<in> set hash_primes \<Longrightarrow> 0 < p \<and> p \<le> 2 ^ 63" for p by (auto simp: hash_primes_def)
  then have "k < length hash_primes \<Longrightarrow> 0 < hash_primes ! k \<and> hash_primes ! k \<le> 2 ^ 63" by simp
  then show "0 < ggml_hash_size n" "n \<le> ggml_hash_size n" "n \<le> 2 ^ 63 \<Longrightarrow> ggml_hash_size n \<le> 2 ^ 63 + 1"
    using or_one_bounds [of n] k unfolding ggml_hash_size_def k_def [symmetric] Let_def by auto
qed

lemma ggml_hash_size_le: "n \<le> 2147483659 \<Longrightarrow> ggml_hash_size n \<le> 2147483659"
proof -
  assume n: "n \<le> 2147483659"
  define k where "k = hash_size_search n 0 (length hash_primes)"
  have k: "k \<le> length hash_primes" "\<And>i. i < k \<Longrightarrow> hash_primes ! i < n"
    using hash_size_search_correct [of 0 "length hash_primes" n] by (auto simp: k_def)
  have "hash_primes ! 31 = 2147483659" "length hash_primes = 32" by (simp_all add: hash_primes_def)
  then have lt: "k < length hash_primes" using k(1) k(2) [of 31] n by (cases "k = 32") auto
  have "\<forall>p \<in> set hash_primes. p \<le> 2147483659" by (simp add: hash_primes_def)
  then have "hash_primes ! k \<le> 2147483659" using nth_mem [OF lt] by blast
  then show ?thesis using lt unfolding ggml_hash_size_def k_def [symmetric] Let_def by simp
qed

lemma hash_set_new_inv:
  assumes "n \<le> 2 ^ 63"
  shows "hs_inv (ggml_hash_set_new n)" "hs_set (ggml_hash_set_new n) = {}" "hs_size (ggml_hash_set_new n) = ggml_hash_size n"
  using hs_inv_empty [of "ggml_hash_size n" "replicate (ggml_hash_size n) 0"] ggml_hash_size_range(1,3) [of n] assms
  by (simp_all add: ggml_hash_set_new_def Let_def)

section \<open>What the operations do\<close>

lemma hash_contains_eq: "hs_inv hs \<Longrightarrow> ggml_hash_contains hs key = Some (key \<in> hs_set hs)"
  using slot_of_Some [of hs key] slot_of_None [of hs key] hs_invD(7) [of hs]
  by (cases "slot_of hs key") (auto simp: ggml_hash_contains_def ggml_hash_find_eq)

lemma hash_insert_fresh:
  assumes "hs_inv hs" "key \<notin> hs_set hs"
  shows "ggml_hash_insert hs key = ggml_hash_find_or_insert hs key"
  using assms(2) by (simp add: hash_insert_cases [OF assms(1)] split: option.splits)

lemma hash_find_member:
  assumes "hs_inv hs" "key \<in> hs_set hs"
  obtains i where "ggml_hash_find hs key = Some i" "member_slot hs key = Some i" "used_slot hs i" "hs_keys hs ! i = key"
    "ggml_hash_find_or_insert hs key = Some (i, hs)"
proof -
  obtain i where i: "member_slot hs key = Some i" using hash.slot_member [OF assms(1)] assms(2) by blast
  then have s: "slot_of hs key = Some i" using assms(2) by (simp add: member_slot_def)
  show thesis
    using that [OF _ i] i s member_slot_Some [OF assms(1)] assms(2)
    by (simp add: ggml_hash_find_eq [OF assms(1)] hash_insert_cases [OF assms(1)])
qed

text \<open>
  C29: Every search of a well-formed table ends. It returns the slot that holds the key if the key is a
  member, and otherwise a free slot or, only when all slots are in use, \<^verbatim>\<open>GGML_HASHSET_FULL\<close>;
  \<^verbatim>\<open>ggml_hash_contains\<close> decides membership.
\<close>

theorem ggml_hash_find_correct:
  assumes "hs_inv hs"
  shows "\<exists>i. ggml_hash_find hs key = Some i \<and>
      (if key \<in> hs_set hs then used_slot hs i \<and> hs_keys hs ! i = key
       else if card (hs_set hs) = hs_size hs then i = GGML_HASHSET_FULL
       else i < hs_size hs \<and> \<not> ggml_bitset_get (hs_used hs) i)
    \<and> ggml_hash_contains hs key = Some (key \<in> hs_set hs)"
proof (cases "slot_of hs key")
  case None
  then show ?thesis
    using slot_of_None [OF assms None] hs_set_card(3) [OF assms]
    by (simp add: ggml_hash_find_eq [OF assms] hash_contains_eq [OF assms])
next
  case (Some i)
  note s = slot_of_Some [OF assms Some]
  have "card (hs_set hs) \<noteq> hs_size hs" if "key \<notin> hs_set hs"
    using s(1,2) that hs_set_card(3) [OF assms] by (auto simp: used_slot_def)
  then show ?thesis
    using s Some by (auto simp: ggml_hash_find_eq [OF assms] hash_contains_eq [OF assms] used_slot_def)
qed

text \<open>
  C30: \<^verbatim>\<open>ggml_hash_insert\<close> reports a key that is already there and leaves the table alone; aborts exactly
  when the key is new and the table full; and otherwise stores the key, keeps the table well formed,
  and moves no other key.
\<close>

theorem ggml_hash_insert_correct:
  assumes "hs_inv hs"
  shows "if key \<in> hs_set hs then ggml_hash_insert hs key = Some (GGML_HASHSET_ALREADY_EXISTS, hs)
    else if card (hs_set hs) = hs_size hs then ggml_hash_insert hs key = None
    else \<exists>i hs'. ggml_hash_insert hs key = Some (i, hs') \<and> hs_inv hs' \<and> hs_set hs' = insert key (hs_set hs)
      \<and> ggml_hash_find hs' key = Some i \<and> (\<forall>q \<in> hs_set hs. ggml_hash_find hs' q = ggml_hash_find hs q)"
proof -
  consider "key \<in> hs_set hs" | "key \<notin> hs_set hs" "card (hs_set hs) = hs_size hs"
    | "key \<notin> hs_set hs" "card (hs_set hs) \<noteq> hs_size hs" by blast
  then show ?thesis
  proof cases
    case 1
    then show ?thesis by (simp add: hash_insert_cases(1) [OF assms])
  next
    case 2
    then show ?thesis using hash.add_full [OF assms, of key] hash_insert_fresh [OF assms] by simp
  next
    case 3
    then obtain i hs' where ins: "ggml_hash_find_or_insert hs key = Some (i, hs')"
      using hash.add_full [OF assms, of key] by (cases "ggml_hash_find_or_insert hs key") auto
    note inv' = hash.add_invar [OF assms ins] and el = hash.add_elems [OF assms ins]
    have key: "ggml_hash_find hs' key = Some i"
      using hash_find_member [OF inv'] el hash.add_slot [OF assms ins] by (metis insertI1 option.inject)
    have "ggml_hash_find hs' q = ggml_hash_find hs q" if "q \<in> hs_set hs" for q
      using hash_find_member [OF assms that] hash_find_member [OF inv', of q] el that
        hash.add_other [OF assms ins, of q] 3(1) by (metis insertI2)
    then show ?thesis using 3 ins inv' el key hash_insert_fresh [OF assms 3(1)] by auto
  qed
qed

text \<open>A table built by successive insertions.\<close>

fun hash_insert_all :: "ggml_hash_set \<Rightarrow> ptr list \<Rightarrow> ggml_hash_set option" where
  "hash_insert_all hs [] = Some hs"
| "hash_insert_all hs (key # ks) = do { (i, hs) \<leftarrow> ggml_hash_find_or_insert hs key; hash_insert_all hs ks }"

lemma hash_insert_all_correct:
  assumes "hs_inv hs" "card (hs_set hs \<union> set ks) \<le> hs_size hs"
  shows "\<exists>hs'. hash_insert_all hs ks = Some hs' \<and> hs_inv hs' \<and> hs_set hs' = hs_set hs \<union> set ks"
  using assms
proof (induction ks arbitrary: hs)
  case (Cons key ks)
  have "card (insert key (hs_set hs)) \<le> hs_size hs"
    by (rule order_trans [OF card_mono Cons.prems(2)]) (auto simp: hs_set_card(1) [OF Cons.prems(1)])
  then have "ggml_hash_find_or_insert hs key \<noteq> None"
    using hash.add_full [OF Cons.prems(1), of key] hs_set_card(1) [OF Cons.prems(1)] by auto
  then obtain i hs' where ins: "ggml_hash_find_or_insert hs key = Some (i, hs')" by auto
  note el = hash.add_elems [OF Cons.prems(1) ins]
  have "card (hs_set hs' \<union> set ks) \<le> hs_size hs'"
    using Cons.prems(2) hash.add_capacity [OF Cons.prems(1) ins] by (simp add: el)
  from Cons.IH [OF hash.add_invar [OF Cons.prems(1) ins] this] show ?case by (simp add: ins el)
qed simp

text \<open>
  C35: A table made by \<^verbatim>\<open>ggml_hash_set_new(n)\<close> accepts any keys, in any order and with repetitions, as
  long as at most \<open>n\<close> of them are different, and then contains exactly them.
\<close>

theorem ggml_hash_set_represents_keys:
  assumes "n \<le> 2 ^ 63" "card (set ks) \<le> n"
  shows "\<exists>hs. hash_insert_all (ggml_hash_set_new n) ks = Some hs
    \<and> (\<forall>key. ggml_hash_contains hs key = Some (key \<in> set ks))"
proof -
  note new = hash_set_new_inv [OF assms(1)]
  have "card (hs_set (ggml_hash_set_new n) \<union> set ks) \<le> hs_size (ggml_hash_set_new n)"
    using assms(2) new ggml_hash_size_range(2) [of n] by simp
  from hash_insert_all_correct [OF new(1) this] show ?thesis using new(2) hash_contains_eq by auto
qed

section \<open>Instances\<close>

definition sample_hs :: ggml_hash_set where
  "sample_hs = \<lparr>hs_size = 5, hs_used = [0], hs_keys = replicate 5 0\<rparr>"

lemma sample_hs_inv: "hs_inv sample_hs" "hs_set sample_hs = {}"
  using hs_inv_empty [of 5 "replicate 5 0"]
  by (simp_all add: sample_hs_def ggml_bitset_size_def drop_bit_5 sz_add_def wrap64_def)

theorem ggml_hash_size_correct_witness: "ggml_hash_size 100 = 131"
proof -
  have "\<exists>p \<in> set hash_primes. 100 \<le> p" by (simp add: hash_primes_def)
  then have "ggml_hash_size 100 \<in> set hash_primes" "100 \<le> ggml_hash_size 100" "ggml_hash_size 100 \<le> 131"
    using ggml_hash_size_correct [of 100] by (auto simp: hash_primes_def)
  then show ?thesis by (auto simp: hash_primes_def)
qed

theorem ggml_hash_find_correct_witness:
  "hs_inv sample_hs \<and> (\<exists>i. ggml_hash_find sample_hs 96 = Some i \<and> i < 5 \<and> ggml_hash_contains sample_hs 96 = Some False)"
  using ggml_hash_find_correct [OF sample_hs_inv(1), of 96] sample_hs_inv
  by (auto simp: sample_hs_def)

theorem ggml_hash_insert_correct_witness:
  "hs_inv sample_hs \<and> (\<exists>i hs'. ggml_hash_insert sample_hs 96 = Some (i, hs') \<and> hs_set hs' = {96} \<and> ggml_hash_find hs' 96 = Some i)"
  using ggml_hash_insert_correct [OF sample_hs_inv(1), of 96] sample_hs_inv by (auto simp: sample_hs_def)

theorem ggml_hash_set_represents_keys_witness:
  "\<exists>hs. hash_insert_all (ggml_hash_set_new 3) [96, 32, 96, 4096] = Some hs
    \<and> ggml_hash_contains hs 32 = Some True \<and> ggml_hash_contains hs 48 = Some False"
proof -
  have "card (set [96, 32, 96, 4096 :: nat]) \<le> 3" by (simp add: card_insert_if)
  then show ?thesis using ggml_hash_set_represents_keys [of 3 "[96, 32, 96, 4096]"] by fastforce
qed

end
