(* ===== verification/GGML_Graph.thy ===== *)
theory GGML_Graph
  imports GGML_Heap GGML_Hash
begin

text \<open>
  Computation graphs: \<^verbatim>\<open>struct ggml_cgraph\<close> and the graph functions of \<^verbatim>\<open>ggml/src/ggml.c\<close>, with
  the fusion tests of \<^verbatim>\<open>ggml-impl.h\<close>. The lists \<open>cg_nodes\<close> and \<open>cg_leafs\<close> are the first
  \<^verbatim>\<open>n_nodes\<close> and \<^verbatim>\<open>n_leafs\<close> entries of the arrays; \<^verbatim>\<open>grads\<close> and \<^verbatim>\<open>grad_accs\<close> are \<open>None\<close> when
  the pointer is \<^verbatim>\<open>NULL\<close>. \<open>cg_arrays\<close> are the addresses and byte sizes of the arrays in the
  object, in the order in which they are laid out. The traversal is a partial function: \<open>None\<close> is
  an abort or a recursion that does not end.
\<close>

section \<open>Types\<close>

datatype ggml_cgraph_eval_order = GGML_CGRAPH_EVAL_ORDER_LEFT_TO_RIGHT | GGML_CGRAPH_EVAL_ORDER_RIGHT_TO_LEFT

record ggml_cgraph =
  cg_size :: int
  cg_nodes :: "ptr list"
  cg_grads :: "ptr list option"
  cg_grad_accs :: "ptr list option"
  cg_leafs :: "ptr list"
  cg_use_counts :: "int32_t list"
  cg_visited :: ggml_hash_set
  cg_order :: ggml_cgraph_eval_order
  cg_uid :: size_t
  cg_arrays :: "(ptr \<times> size_t) list"

abbreviation (input) GGML_TENSOR_FLAG_INPUT :: "32 word" where "GGML_TENSOR_FLAG_INPUT \<equiv> 1"
abbreviation (input) GGML_TENSOR_FLAG_OUTPUT :: "32 word" where "GGML_TENSOR_FLAG_OUTPUT \<equiv> 2"
abbreviation (input) GGML_TENSOR_FLAG_PARAM :: "32 word" where "GGML_TENSOR_FLAG_PARAM \<equiv> 4"
abbreviation (input) GGML_TENSOR_FLAG_LOSS :: "32 word" where "GGML_TENSOR_FLAG_LOSS \<equiv> 8"
abbreviation (input) GGML_TENSOR_FLAG_COMPUTE :: "32 word" where "GGML_TENSOR_FLAG_COMPUTE \<equiv> 16"

definition has_flag :: "ggml_tensor \<Rightarrow> 32 word \<Rightarrow> bool" where
  "has_flag t flag \<longleftrightarrow> t_flags t AND flag \<noteq> 0"

definition set_flag :: "32 word \<Rightarrow> ggml_tensor \<Rightarrow> ggml_tensor" where
  "set_flag flag t = t\<lparr>t_flags := t_flags t OR flag\<rparr>"

definition n_nodes :: "ggml_cgraph \<Rightarrow> int" where
  "n_nodes g = int (length (cg_nodes g))"

definition n_leafs :: "ggml_cgraph \<Rightarrow> int" where
  "n_leafs g = int (length (cg_leafs g))"

definition ggml_set_input :: "ggml_state \<Rightarrow> ptr \<Rightarrow> ggml_state" where
  "ggml_set_input s tensor = upd s tensor (set_flag GGML_TENSOR_FLAG_INPUT)"

definition ggml_set_output :: "ggml_state \<Rightarrow> ptr \<Rightarrow> ggml_state" where
  "ggml_set_output s tensor = upd s tensor (set_flag GGML_TENSOR_FLAG_OUTPUT)"

definition ggml_set_param :: "ggml_state \<Rightarrow> ptr \<Rightarrow> ggml_state option" where
  "ggml_set_param s tensor = do {
     t \<leftarrow> deref s tensor;
     ggml_assert (t_op t = GGML_OP_NONE);
     Some (upd s tensor (set_flag GGML_TENSOR_FLAG_PARAM)) }"

definition ggml_set_loss :: "ggml_state \<Rightarrow> ptr \<Rightarrow> ggml_state option" where
  "ggml_set_loss s tensor = do {
     t \<leftarrow> deref s tensor;
     ggml_assert (ggml_is_scalar t);
     ggml_assert (t_type t = GGML_TYPE_F32);
     Some (upd s tensor (set_flag GGML_TENSOR_FLAG_LOSS)) }"

section \<open>Array accesses and loops\<close>

text \<open>An access outside the array has no defined result.\<close>

definition array_get :: "'a list \<Rightarrow> nat \<Rightarrow> 'a option" where
  "array_get xs i = (if i < length xs then Some (xs ! i) else None)"

definition array_set :: "'a list \<Rightarrow> nat \<Rightarrow> 'a \<Rightarrow> 'a list option" where
  "array_set xs i v = (if i < length xs then Some (xs[i := v]) else None)"

definition node_at :: "ggml_cgraph \<Rightarrow> int \<Rightarrow> ptr option" where
  "node_at g i = (if i < 0 then None else array_get (cg_nodes g) (nat i))"

fun foldM :: "('a \<Rightarrow> 's \<Rightarrow> 's option) \<Rightarrow> 'a list \<Rightarrow> 's \<Rightarrow> 's option" where
  "foldM f [] s = Some s"
| "foldM f (x # xs) s = do { s \<leftarrow> f x s; foldM f xs s }"

lemma foldM_mono [partial_function_mono]:
  assumes "\<And>x s. mono_option (\<lambda>f. B f x s)"
  shows "mono_option (\<lambda>f. foldM (B f) xs s)"
proof (induction xs arbitrary: s)
  case Nil
  show ?case by (simp add: option.const_mono)
next
  case (Cons x xs)
  have "mono_option (\<lambda>f. Option.bind (B f x s) (\<lambda>s'. foldM (B f) xs s'))"
    by (rule bind_mono [OF assms Cons.IH])
  then show ?case by simp
qed

text \<open>The decimal digits that \<^verbatim>\<open>%d\<close> prints.\<close>

fun decimal :: "nat \<Rightarrow> string" where
  "decimal n = (if n < 10 then [char_of (48 + n)] else decimal (n div 10) @ [char_of (48 + n mod 10)])"

declare decimal.simps [simp del]

section \<open>Building the graph\<close>

text \<open>The sources of a tensor in the order in which the graph visits them.\<close>

definition visit_order :: "ggml_cgraph_eval_order \<Rightarrow> nat \<Rightarrow> nat" where
  "visit_order order i =
     (if order = GGML_CGRAPH_EVAL_ORDER_LEFT_TO_RIGHT then i
      else if order = GGML_CGRAPH_EVAL_ORDER_RIGHT_TO_LEFT then GGML_MAX_SRC - 1 - i
      else i)"

definition visit_srcs :: "ggml_cgraph_eval_order \<Rightarrow> ggml_tensor \<Rightarrow> ptr list" where
  "visit_srcs order t = map (\<lambda>i. t_src t ! visit_order order i) [0..<GGML_MAX_SRC]"

text \<open>Marking a tensor as visited, before its sources are.\<close>

definition mark_visited :: "ggml_cgraph \<Rightarrow> size_t \<Rightarrow> ptr \<Rightarrow> ggml_cgraph" where
  "mark_visited g pos node =
     g\<lparr>cg_visited := (cg_visited g)\<lparr>hs_used := ggml_bitset_set (hs_used (cg_visited g)) pos,
                                    hs_keys := (hs_keys (cg_visited g))[pos := node]\<rparr>,
       cg_use_counts := (cg_use_counts g)[pos := 0]\<rparr>"

text \<open>Appending a tensor to the leafs or to the nodes, once its sources have been visited.\<close>

definition add_visited :: "ggml_cgraph \<Rightarrow> ggml_state \<Rightarrow> ptr \<Rightarrow> (ggml_cgraph \<times> ggml_state) option" where
  "add_visited g s node = do {
     t \<leftarrow> deref s node;
     if t_op t = GGML_OP_NONE \<and> \<not> has_flag t GGML_TENSOR_FLAG_PARAM then do {
       ggml_assert (n_leafs g < cg_size g);
       let s = (if length (t_name t) = 0
                then ggml_format_name s node (''leaf_'' @ decimal (length (cg_leafs g))) else s);
       Some (g\<lparr>cg_leafs := cg_leafs g @ [node]\<rparr>, s) }
     else do {
       ggml_assert (n_nodes g < cg_size g);
       let s = (if length (t_name t) = 0
                then ggml_format_name s node (''node_'' @ decimal (length (cg_nodes g))) else s);
       Some (g\<lparr>cg_nodes := cg_nodes g @ [node]\<rparr>, s) } }"

partial_function (option) ggml_visit_parents_graph ::
  "ggml_cgraph \<Rightarrow> ggml_state \<Rightarrow> ptr \<Rightarrow> bool \<Rightarrow> (size_t \<times> ggml_cgraph \<times> ggml_state) option" where
  "ggml_visit_parents_graph g s node compute = do {
     t \<leftarrow> deref s node;
     let s = (if t_op t \<noteq> GGML_OP_NONE \<and> compute then upd s node (set_flag GGML_TENSOR_FLAG_COMPUTE) else s);
     pos \<leftarrow> ggml_hash_find (cg_visited g) node;
     ggml_assert (pos \<noteq> GGML_HASHSET_FULL);
     if ggml_bitset_get (hs_used (cg_visited g)) pos then do {
       (g, s) \<leftarrow> (if compute then
           foldM (\<lambda>src (g, s).
             if src = 0 then Some (g, s)
             else do {
               ts \<leftarrow> deref s src;
               if \<not> has_flag ts GGML_TENSOR_FLAG_COMPUTE then do {
                 (_, g, s) \<leftarrow> ggml_visit_parents_graph g s src True;
                 Some (g, s) }
               else Some (g, s) }) (t_src t) (g, s)
         else Some (g, s));
       Some (pos, g, s) }
     else do {
       let g = mark_visited g pos node;
       (g, s) \<leftarrow> foldM (\<lambda>src (g, s).
           if src = 0 then Some (g, s)
           else do {
             (src_pos, g, s) \<leftarrow> ggml_visit_parents_graph g s src compute;
             n \<leftarrow> array_get (cg_use_counts g) src_pos;
             Some (g\<lparr>cg_use_counts := (cg_use_counts g)[src_pos := n + 1]\<rparr>, s) })
         (visit_srcs (cg_order g) t) (g, s);
       (g, s) \<leftarrow> add_visited g s node;
       Some (pos, g, s) } }"

definition ggml_graph_clear :: "ggml_cgraph \<Rightarrow> ggml_cgraph" where
  "ggml_graph_clear g = g\<lparr>cg_leafs := [], cg_nodes := [], cg_visited := ggml_hash_set_reset (cg_visited g)\<rparr>"

definition ggml_build_forward_impl ::
  "ggml_cgraph \<Rightarrow> ggml_state \<Rightarrow> ptr \<Rightarrow> bool \<Rightarrow> bool \<Rightarrow> (ggml_cgraph \<times> ggml_state) option" where
  "ggml_build_forward_impl g s tensor expand compute = do {
     let g = (if \<not> expand then ggml_graph_clear g else g);
     let n_old = n_nodes g;
     (_, g, s) \<leftarrow> ggml_visit_parents_graph g s tensor compute;
     let n_new = n_nodes g - n_old;
     ggml_assert (n_new > 0 \<longrightarrow> node_at g (n_nodes g - 1) = Some tensor);
     Some (g, s) }"

definition ggml_build_forward_select ::
  "ggml_cgraph \<Rightarrow> ggml_state \<Rightarrow> ptr list \<Rightarrow> int \<Rightarrow> (ptr \<times> ggml_cgraph \<times> ggml_state) option" where
  "ggml_build_forward_select g s tensors idx = do {
     ggml_assert (idx \<ge> 0 \<and> idx < int (length tensors));
     (g, s) \<leftarrow> foldM (\<lambda>i (g, s). ggml_build_forward_impl g s (tensors ! i) True (int i = idx))
                 [0..<length tensors] (g, s);
     Some (tensors ! nat idx, g, s) }"

definition ggml_build_forward_expand :: "ggml_cgraph \<Rightarrow> ggml_state \<Rightarrow> ptr \<Rightarrow> (ggml_cgraph \<times> ggml_state) option" where
  "ggml_build_forward_expand g s tensor = ggml_build_forward_impl g s tensor True True"

section \<open>Graph objects\<close>

text \<open>The address of an array and the position behind it.\<close>

definition incr_ptr_aligned :: "ptr \<Rightarrow> size_t \<Rightarrow> size_t \<Rightarrow> ptr \<times> ptr" where
  "incr_ptr_aligned p sz align = (let ptr = GGML_PAD p align in (ptr, sz_add ptr sz))"

text \<open>Byte sizes and alignments of the arrays of a graph object, in the order of the layout.\<close>

definition graph_arrays :: "size_t \<Rightarrow> bool \<Rightarrow> (size_t \<times> size_t) list" where
  "graph_arrays sz grads =
     (let hash_size = ggml_hash_size (sz_mul sz 2)
      in [(sz_mul sz 8, 8), (sz_mul sz 8, 8), (sz_mul hash_size 4, 4), (sz_mul hash_size 8, 8)]
         @ (if grads then [(sz_mul hash_size 8, 8), (sz_mul hash_size 8, 8)] else [])
         @ [(sz_mul (ggml_bitset_size hash_size) 4, 4)])"

fun place_arrays :: "ptr \<Rightarrow> (size_t \<times> size_t) list \<Rightarrow> (ptr \<times> size_t) list \<times> ptr" where
  "place_arrays p [] = ([], p)"
| "place_arrays p ((sz, align) # rest) =
     (let (ptr, p) = incr_ptr_aligned p sz align; (placed, p) = place_arrays p rest
      in ((ptr, sz) # placed, p))"

abbreviation (input) GGML_CGRAPH_SIZE :: size_t where "GGML_CGRAPH_SIZE \<equiv> 96"
abbreviation (input) GGML_DEFAULT_GRAPH_SIZE :: size_t where "GGML_DEFAULT_GRAPH_SIZE \<equiv> 2048"

definition ggml_graph_nbytes :: "size_t \<Rightarrow> bool \<Rightarrow> size_t" where
  "ggml_graph_nbytes sz grads =
     (let (_, p) = incr_ptr_aligned 0 GGML_CGRAPH_SIZE 1; (_, p) = place_arrays p (graph_arrays sz grads) in p)"

definition ggml_graph_overhead_custom :: "size_t \<Rightarrow> bool \<Rightarrow> size_t" where
  "ggml_graph_overhead_custom sz grads =
     sz_add GGML_OBJECT_SIZE (GGML_PAD (ggml_graph_nbytes sz grads) GGML_MEM_ALIGN)"

definition ggml_graph_overhead :: size_t where
  "ggml_graph_overhead = ggml_graph_overhead_custom GGML_DEFAULT_GRAPH_SIZE False"

text \<open>Conversion of a \<^verbatim>\<open>size_t\<close> to \<^verbatim>\<open>int\<close>.\<close>

definition int_of_sz :: "size_t \<Rightarrow> int" where
  "int_of_sz n = sint (word_of_nat n :: 32 word)"

text \<open>
  The C code clears the bits of the hash set and the gradients; the keys and the use counts, which are
  only read in slots whose bit is set, start at 0 here and uninitialised there. The memory addresses of
  the arrays are those of the layout.
\<close>

definition ggml_new_graph_custom ::
  "ggml_state \<Rightarrow> size_t \<Rightarrow> bool \<Rightarrow> (ptr \<times> ggml_cgraph \<times> ggml_state) option" where
  "ggml_new_graph_custom s sz grads = do {
     let obj_size = ggml_graph_nbytes sz grads;
     (obj, s) \<leftarrow> ggml_new_object s GGML_OBJECT_TYPE_GRAPH obj_size;
     ob \<leftarrow> st_objects s obj;
     let cgraph = sz_add (c_mem_buffer (st_ctx s)) (o_offs ob);
     let hash_size = ggml_hash_size (sz_mul sz 2);
     let (arrays, _) = place_arrays (sz_add cgraph GGML_CGRAPH_SIZE) (graph_arrays sz grads);
     let visited = ggml_hash_set_reset \<lparr>hs_size = hash_size, hs_used = [], hs_keys = replicate hash_size 0\<rparr>;
     Some (cgraph,
       \<lparr>cg_size = int_of_sz sz, cg_nodes = [],
        cg_grads = (if grads then Some (replicate hash_size 0) else None),
        cg_grad_accs = (if grads then Some (replicate hash_size 0) else None),
        cg_leafs = [], cg_use_counts = replicate hash_size 0, cg_visited = visited,
        cg_order = GGML_CGRAPH_EVAL_ORDER_LEFT_TO_RIGHT, cg_uid = 0, cg_arrays = arrays\<rparr>, s) }"

definition ggml_new_graph :: "ggml_state \<Rightarrow> (ptr \<times> ggml_cgraph \<times> ggml_state) option" where
  "ggml_new_graph s = ggml_new_graph_custom s GGML_DEFAULT_GRAPH_SIZE False"

text \<open>The slice shares the arrays of \<open>cgraph0\<close>; it is defined for a range of its nodes.\<close>

definition ggml_graph_view :: "ggml_cgraph \<Rightarrow> int \<Rightarrow> int \<Rightarrow> ggml_cgraph option" where
  "ggml_graph_view cgraph0 i0 i1 =
     (if 0 \<le> i0 \<and> i0 \<le> i1 \<and> i1 \<le> n_nodes cgraph0 then
        Some (cgraph0\<lparr>cg_size := 0, cg_nodes := take (nat (i1 - i0)) (drop (nat i0) (cg_nodes cgraph0)),
                      cg_grads := None, cg_grad_accs := None, cg_leafs := [], cg_uid := 0\<rparr>)
      else None)"

text \<open>
  The loops of \<^verbatim>\<open>ggml_graph_cpy\<close> over the slots and over the nodes. A result of \<^verbatim>\<open>ggml_hash_insert\<close> that is
  no slot (\<^verbatim>\<open>GGML_HASHSET_ALREADY_EXISTS\<close>) is used as an index by the C code; this write outside of the
  array is \<open>None\<close> here, as a failed assertion is.
\<close>

definition cpy_slot :: "ggml_cgraph \<Rightarrow> nat \<Rightarrow> ggml_cgraph \<Rightarrow> ggml_cgraph option" where
  "cpy_slot src i dst =
     (if ggml_bitset_get (hs_used (cg_visited src)) i then do {
        (pos, visited) \<leftarrow> ggml_hash_insert (cg_visited dst) (hs_keys (cg_visited src) ! i);
        counts \<leftarrow> array_set (cg_use_counts dst) pos (cg_use_counts src ! i);
        Some (dst\<lparr>cg_visited := visited, cg_use_counts := counts\<rparr>) }
      else Some dst)"

definition cpy_grad :: "ggml_cgraph \<Rightarrow> ptr list \<Rightarrow> ptr list \<Rightarrow> ptr \<Rightarrow> ggml_cgraph \<Rightarrow> ggml_cgraph option" where
  "cpy_grad src grads grad_accs node dst = do {
     igrad_src \<leftarrow> ggml_hash_find (cg_visited src) node;
     igrad_dst \<leftarrow> ggml_hash_find (cg_visited dst) node;
     ggml_assert (igrad_src \<noteq> GGML_HASHSET_FULL);
     ggml_assert (ggml_bitset_get (hs_used (cg_visited src)) igrad_src);
     ggml_assert (igrad_dst \<noteq> GGML_HASHSET_FULL);
     ggml_assert (ggml_bitset_get (hs_used (cg_visited dst)) igrad_dst);
     dgrads \<leftarrow> cg_grads dst;
     daccs \<leftarrow> cg_grad_accs dst;
     v \<leftarrow> array_get grads igrad_src;
     a \<leftarrow> array_get grad_accs igrad_src;
     dgrads \<leftarrow> array_set dgrads igrad_dst v;
     daccs \<leftarrow> array_set daccs igrad_dst a;
     Some (dst\<lparr>cg_grads := Some dgrads, cg_grad_accs := Some daccs\<rparr>) }"

definition ggml_graph_cpy :: "ggml_cgraph \<Rightarrow> ggml_cgraph \<Rightarrow> ggml_cgraph option" where
  "ggml_graph_cpy src dst = do {
     ggml_assert (cg_size dst \<ge> n_leafs src);
     ggml_assert (cg_size dst \<ge> n_nodes src);
     ggml_assert (hs_size (cg_visited dst) \<ge> hs_size (cg_visited src));
     let dst = dst\<lparr>cg_nodes := cg_nodes src, cg_leafs := cg_leafs src, cg_order := cg_order src\<rparr>;
     dst \<leftarrow> foldM (cpy_slot src) [0..<hs_size (cg_visited src)] dst;
     let zeros = replicate (hs_size (cg_visited dst)) 0;
     let dst = (if cg_grads dst \<noteq> None then dst\<lparr>cg_grads := Some zeros, cg_grad_accs := Some zeros\<rparr> else dst);
     if cg_grads src \<noteq> None then do {
       ggml_assert (cg_grads dst \<noteq> None);
       ggml_assert (cg_grad_accs dst \<noteq> None);
       grads \<leftarrow> cg_grads src;
       grad_accs \<leftarrow> cg_grad_accs src;
       foldM (cpy_grad src grads grad_accs) (cg_nodes src) dst }
     else Some dst }"

definition ggml_graph_dup ::
  "ggml_state \<Rightarrow> ggml_cgraph \<Rightarrow> bool \<Rightarrow> (ptr \<times> ggml_cgraph \<times> ggml_state) option" where
  "ggml_graph_dup s cgraph force_grads = do {
     (p, result, s) \<leftarrow> ggml_new_graph_custom s (sz_of_int (cg_size cgraph)) (cg_grads cgraph \<noteq> None \<or> force_grads);
     result \<leftarrow> ggml_graph_cpy cgraph result;
     Some (p, result, s) }"

section \<open>Access\<close>

definition ggml_graph_size :: "ggml_cgraph \<Rightarrow> int" where
  "ggml_graph_size g = cg_size g"

definition ggml_graph_node :: "ggml_cgraph \<Rightarrow> int \<Rightarrow> ptr option" where
  "ggml_graph_node g i =
     (if i < 0 then do {
        ggml_assert (n_nodes g + i \<ge> 0);
        node_at g (n_nodes g + i) }
      else do {
        ggml_assert (i < n_nodes g);
        node_at g i })"

definition ggml_graph_n_nodes :: "ggml_cgraph \<Rightarrow> int" where
  "ggml_graph_n_nodes g = n_nodes g"

definition ggml_graph_add_node :: "ggml_cgraph \<Rightarrow> ptr \<Rightarrow> ggml_cgraph option" where
  "ggml_graph_add_node g tensor = do {
     ggml_assert (cg_size g > n_nodes g);
     Some (g\<lparr>cg_nodes := cg_nodes g @ [tensor]\<rparr>) }"

fun find_by_name :: "ggml_state \<Rightarrow> ptr list \<Rightarrow> string \<Rightarrow> ptr option option" where
  "find_by_name s [] name = Some None"
| "find_by_name s (p # ps) name = do {
     t \<leftarrow> deref s p;
     if t_name t = name then Some (Some p) else find_by_name s ps name }"

definition ggml_graph_get_tensor :: "ggml_cgraph \<Rightarrow> ggml_state \<Rightarrow> string \<Rightarrow> ptr option" where
  "ggml_graph_get_tensor g s name = do {
     leaf \<leftarrow> find_by_name s (cg_leafs g) name;
     case leaf of
       Some p \<Rightarrow> Some p
     | None \<Rightarrow> do {
         node \<leftarrow> find_by_name s (cg_nodes g) name;
         Some (case node of Some p \<Rightarrow> p | None \<Rightarrow> 0) } }"

text \<open>The entry of a gradient array for a node, \<^verbatim>\<open>NULL\<close> if there is none.\<close>

definition slot_entry :: "ggml_cgraph \<Rightarrow> ptr list option \<Rightarrow> ptr \<Rightarrow> ptr option" where
  "slot_entry g arr node = do {
     igrad \<leftarrow> ggml_hash_find (cg_visited g) node;
     case arr of
       None \<Rightarrow> Some 0
     | Some a \<Rightarrow> if igrad \<noteq> GGML_HASHSET_FULL \<and> ggml_bitset_get (hs_used (cg_visited g)) igrad
                 then array_get a igrad else Some 0 }"

definition ggml_graph_get_grad :: "ggml_cgraph \<Rightarrow> ptr \<Rightarrow> ptr option" where
  "ggml_graph_get_grad g node = slot_entry g (cg_grads g) node"

definition ggml_graph_get_grad_acc :: "ggml_cgraph \<Rightarrow> ptr \<Rightarrow> ptr option" where
  "ggml_graph_get_grad_acc g node = slot_entry g (cg_grad_accs g) node"

section \<open>Fusion tests\<close>

definition ggml_node_get_use_count :: "ggml_cgraph \<Rightarrow> int \<Rightarrow> int32_t option" where
  "ggml_node_get_use_count g node_idx = do {
     node \<leftarrow> node_at g node_idx;
     hash_pos \<leftarrow> ggml_hash_find (cg_visited g) node;
     if hash_pos div 32 < length (hs_used (cg_visited g)) then
       if \<not> ggml_bitset_get (hs_used (cg_visited g)) hash_pos then Some 0
       else array_get (cg_use_counts g) hash_pos
     else None }"

definition ggml_node_has_n_uses :: "ggml_cgraph \<Rightarrow> ggml_state \<Rightarrow> int \<Rightarrow> int32_t \<Rightarrow> bool option" where
  "ggml_node_has_n_uses g s node_idx n_uses = do {
     node \<leftarrow> node_at g node_idx;
     t \<leftarrow> deref s node;
     uses \<leftarrow> ggml_node_get_use_count g node_idx;
     Some (if uses \<noteq> n_uses then False
           else if t_view_src t \<noteq> 0 then False
           else if has_flag t GGML_TENSOR_FLAG_OUTPUT then False
           else True) }"

text \<open>The body of the loop of \<^verbatim>\<open>ggml_can_fuse_ext\<close>: \<open>Some False\<close> leaves it.\<close>

definition can_fuse_at :: "ggml_cgraph \<Rightarrow> ggml_state \<Rightarrow> int list \<Rightarrow> ggml_op list \<Rightarrow> nat \<Rightarrow> bool option" where
  "can_fuse_at g s node_idxs ops i =
     (if node_idxs ! i \<ge> n_nodes g then Some False
      else do {
        node \<leftarrow> node_at g (node_idxs ! i);
        t \<leftarrow> deref s node;
        if t_op t \<noteq> ops ! i then Some False
        else if \<not> has_flag t GGML_TENSOR_FLAG_COMPUTE then Some False
        else do {
          one_use \<leftarrow> (if i < length ops - 1 then ggml_node_has_n_uses g s (node_idxs ! i) 1 else Some True);
          if \<not> one_use then Some False
          else if i > 0 then do {
            prev \<leftarrow> node_at g (node_idxs ! (i - 1));
            tp \<leftarrow> deref s prev;
            if t_src t ! 0 \<noteq> prev \<and> t_src t ! 1 \<noteq> prev then Some False
            else if \<not> ggml_are_same_shape t tp then Some False
            else Some True }
          else Some True } })"

fun can_fuse_loop :: "ggml_cgraph \<Rightarrow> ggml_state \<Rightarrow> int list \<Rightarrow> ggml_op list \<Rightarrow> nat list \<Rightarrow> bool option" where
  "can_fuse_loop g s node_idxs ops [] = Some True"
| "can_fuse_loop g s node_idxs ops (i # is) = do {
     ok \<leftarrow> can_fuse_at g s node_idxs ops i;
     if ok then can_fuse_loop g s node_idxs ops is else Some False }"

definition ggml_can_fuse_ext :: "ggml_cgraph \<Rightarrow> ggml_state \<Rightarrow> int list \<Rightarrow> ggml_op list \<Rightarrow> bool option" where
  "ggml_can_fuse_ext g s node_idxs ops = can_fuse_loop g s node_idxs ops [0..<length ops]"

text \<open>More than 32 operations would overrun the index array.\<close>

definition ggml_can_fuse :: "ggml_cgraph \<Rightarrow> ggml_state \<Rightarrow> int \<Rightarrow> ggml_op list \<Rightarrow> bool option" where
  "ggml_can_fuse g s node_idx ops =
     (if node_idx + int (length ops) > n_nodes g then Some False
      else do {
        ggml_assert (length ops \<le> 32);
        ggml_can_fuse_ext g s (map (\<lambda>i. node_idx + int i) [0..<length ops]) ops })"

end
