(* ===== verification/GGML_Build.thy ===== *)
theory GGML_Build
  imports GGML_Graph
begin

text \<open>
  Correctness of the traversal that builds a graph. \<open>graph_inv\<close> is the invariant of a graph under
  construction: the visited set is the nodes, the leafs and the tensors whose visit is pending;
  nodes stand behind their sources; leafs have none. \<open>visits\<close> says what a visit adds. The
  induction follows the source relation, which has no cycle in a well-formed heap.
\<close>

section \<open>The source relation\<close>

definition srcs :: "(ptr \<rightharpoonup> ggml_tensor) \<Rightarrow> ptr \<Rightarrow> ptr list" where
  "srcs T p = (case T p of None \<Rightarrow> [] | Some t \<Rightarrow> filter (\<lambda>q. q \<noteq> 0) (t_src t))"

definition is_none :: "(ptr \<rightharpoonup> ggml_tensor) \<Rightarrow> ptr \<Rightarrow> bool" where
  "is_none T p \<longleftrightarrow> (\<exists>t. T p = Some t \<and> t_op t = GGML_OP_NONE)"

definition is_leaf :: "(ptr \<rightharpoonup> ggml_tensor) \<Rightarrow> ptr \<Rightarrow> bool" where
  "is_leaf T p \<longleftrightarrow> (\<exists>t. T p = Some t \<and> t_op t = GGML_OP_NONE \<and> \<not> has_flag t GGML_TENSOR_FLAG_PARAM)"

definition computed :: "(ptr \<rightharpoonup> ggml_tensor) \<Rightarrow> ptr \<Rightarrow> bool" where
  "computed T p \<longleftrightarrow> (\<exists>t. T p = Some t \<and> has_flag t GGML_TENSOR_FLAG_COMPUTE)"

definition named :: "(ptr \<rightharpoonup> ggml_tensor) \<Rightarrow> ptr \<Rightarrow> bool" where
  "named T p \<longleftrightarrow> (\<exists>t. T p = Some t \<and> t_name t \<noteq> '''')"

definition edges :: "(ptr \<rightharpoonup> ggml_tensor) \<Rightarrow> (ptr \<times> ptr) set" where
  "edges T = {(p, q). q \<in> set (srcs T p)}"

definition reach :: "(ptr \<rightharpoonup> ggml_tensor) \<Rightarrow> ptr \<Rightarrow> ptr set" where
  "reach T p = {q. (p, q) \<in> (edges T)\<^sup>*}"

lemma set_srcs: "q \<in> set (srcs T p) \<longleftrightarrow> (\<exists>t. T p = Some t \<and> q \<in> set (t_src t) \<and> q \<noteq> 0)"
  by (cases "T p") (auto simp: srcs_def)

lemma reach_self [simp]: "p \<in> reach T p"
  by (simp add: reach_def)

lemma reach_unfold: "reach T p = insert p (\<Union>q \<in> set (srcs T p). reach T q)"
  by (auto simp: reach_def edges_def elim: converse_rtranclE intro: converse_rtrancl_into_rtrancl)

lemma reach_src: "q \<in> set (srcs T p) \<Longrightarrow> reach T q \<subseteq> reach T p"
  using reach_unfold [of T p] by blast

lemma reach_closed:
  assumes "p \<in> V" "reach T p \<inter> P = {}" "\<And>q. q \<in> V \<Longrightarrow> q \<notin> P \<Longrightarrow> set (srcs T q) \<subseteq> V"
  shows "reach T p \<subseteq> V"
proof
  fix q assume "q \<in> reach T p"
  then have "(p, q) \<in> (edges T)\<^sup>*" by (simp add: reach_def)
  then show "q \<in> V"
  proof (induction rule: rtrancl_induct)
    case (step y z)
    then have "y \<in> reach T p" by (simp add: reach_def)
    then show ?case using step assms(2) assms(3) [of y] by (auto simp: edges_def)
  qed (rule assms(1))
qed

lemma heap_ok_srcs:
  assumes "heap_ok T"
  shows "q \<in> set (srcs T p) \<Longrightarrow> q \<in> dom T" "is_none T p \<Longrightarrow> srcs T p = []"
proof -
  show "q \<in> dom T" if "q \<in> set (srcs T p)"
    using assms that unfolding set_srcs heap_ok_def ranked_def by blast
  show "srcs T p = []" if n: "is_none T p"
  proof -
    obtain t where t: "T p = Some t" "t_op t = GGML_OP_NONE" using n by (auto simp: is_none_def)
    then have "set (t_src t) \<subseteq> {0}" using assms by (auto simp: heap_ok_def tensor_wf_def)
    then show ?thesis using t by (auto simp: srcs_def filter_empty_conv)
  qed
qed

lemma heap_ok_rank: "heap_ok T \<Longrightarrow> \<exists>rank. \<forall>p. \<forall>q \<in> set (srcs T p). (rank q :: nat) < rank p"
proof -
  assume "heap_ok T"
  then obtain rank where "ranked rank T" by (auto simp: heap_ok_def)
  then have "\<forall>p. \<forall>q \<in> set (srcs T p). rank q < rank p"
    unfolding Ball_def set_srcs ranked_def by blast
  then show ?thesis by blast
qed

lemma reach_rank:
  assumes "\<forall>p. \<forall>q \<in> set (srcs T p). (rank q :: nat) < rank p" "q \<in> reach T p"
  shows "q = p \<or> rank q < rank p"
proof -
  have "(p, q) \<in> (edges T)\<^sup>*" using assms(2) by (simp add: reach_def)
  then show ?thesis
    by (induction rule: rtrancl_induct) (use assms(1) in \<open>auto simp: edges_def dest: order_less_trans\<close>)
qed

lemma reach_src_no_self:
  assumes "heap_ok T" "q \<in> set (srcs T p)" shows "p \<notin> reach T q"
proof
  assume a: "p \<in> reach T q"
  obtain rank :: "ptr \<Rightarrow> nat" where r: "\<forall>p. \<forall>q \<in> set (srcs T p). rank q < rank p" using heap_ok_rank [OF assms(1)] by blast
  then have "rank q < rank p" using assms(2) by blast
  then show False using reach_rank [OF r a] by auto
qed

lemma reach_dom: "heap_ok T \<Longrightarrow> p \<in> dom T \<Longrightarrow> reach T p \<subseteq> dom T"
  using reach_closed [of p "dom T" T "{}"] heap_ok_srcs(1) by blast

section \<open>What a visit may change in the heap\<close>

text \<open>Only the compute flag, which is only set, and the name, which is only filled in.\<close>

definition touched :: "ggml_tensor \<Rightarrow> ggml_tensor \<Rightarrow> bool" where
  "touched t t' \<longleftrightarrow> t' = t\<lparr>t_flags := t_flags t', t_name := t_name t'\<rparr>
     \<and> (t_flags t' = t_flags t \<or> t_flags t' = t_flags t OR GGML_TENSOR_FLAG_COMPUTE)
     \<and> (t_name t' = t_name t \<or> t_name t = '''' \<and> length (t_name t') < GGML_MAX_NAME)"

definition heap_touched :: "(ptr \<rightharpoonup> ggml_tensor) \<Rightarrow> (ptr \<rightharpoonup> ggml_tensor) \<Rightarrow> bool" where
  "heap_touched T T' \<longleftrightarrow> (\<forall>p. rel_option touched (T p) (T' p))"

lemma touched_refl [simp]: "touched t t"
  by (simp add: touched_def)

lemma touched_trans: "touched t u \<Longrightarrow> touched u v \<Longrightarrow> touched t v"
proof -
  assume tu: "touched t u" and uv: "touched u v"
  have "v = u\<lparr>t_flags := t_flags v, t_name := t_name v\<rparr>" using uv by (simp add: touched_def)
  also have "\<dots> = (t\<lparr>t_flags := t_flags u, t_name := t_name u\<rparr>)\<lparr>t_flags := t_flags v, t_name := t_name v\<rparr>"
    using tu unfolding touched_def by metis
  finally have "v = t\<lparr>t_flags := t_flags v, t_name := t_name v\<rparr>" by simp
  moreover have "(w OR 16) OR 16 = w OR (16 :: 32 word)" for w by (simp add: or.assoc)
  ultimately show "touched t v" using tu uv unfolding touched_def by auto
qed

lemma heap_touched_refl [simp]: "heap_touched T T"
  by (simp add: heap_touched_def option.rel_refl)

lemma heap_touched_trans: "heap_touched T U \<Longrightarrow> heap_touched U V \<Longrightarrow> heap_touched T V"
proof -
  assume a: "heap_touched T U" "heap_touched U V"
  have "rel_option touched (T p) (V p)" for p
  proof -
    have "rel_option touched (T p) (U p)" "rel_option touched (U p) (V p)" using a by (simp_all add: heap_touched_def)
    then show ?thesis by (auto simp: option_rel_Some1 option_rel_Some2 option.rel_sel intro: touched_trans)
  qed
  then show ?thesis by (simp add: heap_touched_def)
qed

lemma heap_touched_cases:
  assumes "heap_touched T T'"
  obtains "T p = None" "T' p = None" | t t' where "T p = Some t" "T' p = Some t'" "touched t t'"
proof -
  have "rel_option touched (T p) (T' p)" using assms by (simp add: heap_touched_def)
  then show thesis using that by (cases "T p"; cases "T' p") auto
qed

lemma touched_fields:
  assumes "touched t t'"
  shows "t_type t' = t_type t" "t_ne t' = t_ne t" "t_nb t' = t_nb t" "t_op t' = t_op t" "t_op_params t' = t_op_params t"
    "t_src t' = t_src t" "t_view_src t' = t_view_src t" "t_view_offs t' = t_view_offs t" "t_data t' = t_data t"
    "t_buffer t' = t_buffer t" "t_extra t' = t_extra t"
proof -
  have eq: "t' = t\<lparr>t_flags := t_flags t', t_name := t_name t'\<rparr>" using assms by (simp add: touched_def)
  show "t_type t' = t_type t" "t_ne t' = t_ne t" "t_nb t' = t_nb t" "t_op t' = t_op t" "t_op_params t' = t_op_params t"
    "t_src t' = t_src t" "t_view_src t' = t_view_src t" "t_view_offs t' = t_view_offs t" "t_data t' = t_data t"
    "t_buffer t' = t_buffer t" "t_extra t' = t_extra t"
    by (subst eq, simp)+
qed

lemma touched_flags:
  assumes "touched t t'"
  shows "has_flag t' GGML_TENSOR_FLAG_PARAM = has_flag t GGML_TENSOR_FLAG_PARAM"
    "has_flag t GGML_TENSOR_FLAG_COMPUTE \<Longrightarrow> has_flag t' GGML_TENSOR_FLAG_COMPUTE" "t_name t \<noteq> '''' \<Longrightarrow> t_name t' \<noteq> ''''"
proof -
  have "(w OR 16) AND 4 = w AND (4 :: 32 word)" "(w OR 16) AND 16 = (16 :: 32 word)" for w
    by (simp_all add: bit.conj_disj_distrib2)
  then show "has_flag t' GGML_TENSOR_FLAG_PARAM = has_flag t GGML_TENSOR_FLAG_PARAM"
    "has_flag t GGML_TENSOR_FLAG_COMPUTE \<Longrightarrow> has_flag t' GGML_TENSOR_FLAG_COMPUTE"
    using assms by (auto simp: touched_def has_flag_def)
  show "t_name t \<noteq> '''' \<Longrightarrow> t_name t' \<noteq> ''''" using assms by (auto simp: touched_def)
qed

lemma heap_touched_static:
  assumes "heap_touched T T'"
  shows "srcs T' = srcs T" "is_none T' = is_none T" "is_leaf T' = is_leaf T" "dom T' = dom T" "reach T' = reach T"
    "computed T p \<Longrightarrow> computed T' p" "named T p \<Longrightarrow> named T' p"
proof -
  show s: "srcs T' = srcs T"
  proof
    fix p show "srcs T' p = srcs T p"
      using assms by (cases rule: heap_touched_cases [of T T' p]) (simp_all add: srcs_def touched_fields)
  qed
  show "is_none T' = is_none T"
  proof
    fix p show "is_none T' p = is_none T p"
      using assms by (cases rule: heap_touched_cases [of T T' p]) (simp_all add: is_none_def touched_fields)
  qed
  show "is_leaf T' = is_leaf T"
  proof
    fix p show "is_leaf T' p = is_leaf T p"
      using assms by (cases rule: heap_touched_cases [of T T' p]) (simp_all add: is_leaf_def touched_fields touched_flags)
  qed
  show "dom T' = dom T"
  proof (rule set_eqI)
    fix p show "p \<in> dom T' \<longleftrightarrow> p \<in> dom T"
      using assms by (cases rule: heap_touched_cases [of T T' p]) auto
  qed
  show "reach T' = reach T" by (simp add: reach_def [abs_def] edges_def s)
  show "computed T p \<Longrightarrow> computed T' p"
    using assms by (cases rule: heap_touched_cases [of T T' p]) (auto simp: computed_def touched_flags)
  show "named T p \<Longrightarrow> named T' p"
    using assms by (cases rule: heap_touched_cases [of T T' p]) (auto simp: named_def touched_flags)
qed

lemma heap_touched_ok:
  assumes "heap_touched T T'" "heap_ok T" shows "heap_ok T'"
proof -
  have d: "dom T' = dom T" by (rule heap_touched_static [OF assms(1)])
  have old: "\<exists>t. T p = Some t \<and> touched t t'" if "T' p = Some t'" for p t'
    using assms(1) that by (cases rule: heap_touched_cases [of T T' p]) auto
  have new: "\<exists>t'. T' p = Some t' \<and> touched t t'" if "T p = Some t" for p t
    using assms(1) that by (cases rule: heap_touched_cases [of T T' p]) auto
  have "T' 0 = None" using d assms(2) by (auto simp: heap_ok_def)
  moreover have "tensor_wf t' \<and> view_ok T' t'" if a: "T' p = Some t'" for p t'
  proof -
    obtain t where t: "T p = Some t" "touched t t'" using old [OF a] by blast
    then have wf: "tensor_wf t" and v: "view_ok T t" using assms(2) by (auto simp: heap_ok_def)
    have "length (t_name t') < GGML_MAX_NAME" using t(2) wf by (auto simp: touched_def tensor_wf_def)
    then have "tensor_wf t'" using wf touched_fields [OF t(2)] by (simp add: tensor_wf_def)
    moreover have "view_ok T' t'"
    proof (cases "t_view_src t = 0")
      case True
      then show ?thesis by (simp add: view_ok_def touched_fields(7) [OF t(2)])
    next
      case False
      then obtain b where b: "T (t_view_src t) = Some b" "t_view_src b = 0" using v by (auto simp: view_ok_def)
      then obtain b' where "T' (t_view_src t) = Some b'" "touched b b'" using new by blast
      then show ?thesis using b touched_fields(7) [of b b'] by (simp add: view_ok_def touched_fields(7) [OF t(2)])
    qed
    ultimately show ?thesis by blast
  qed
  moreover obtain rank where "ranked rank T" using assms(2) by (auto simp: heap_ok_def)
  then have "ranked rank T'" using old touched_fields(6) unfolding ranked_def d by metis
  ultimately show ?thesis by (auto simp: heap_ok_def)
qed

section \<open>The invariant of a graph under construction\<close>

definition finished :: "ggml_cgraph \<Rightarrow> ptr set" where
  "finished g = set (cg_nodes g) \<union> set (cg_leafs g)"

abbreviation seen :: "ggml_cgraph \<Rightarrow> ptr set" where
  "seen g \<equiv> hs_set (cg_visited g)"

definition uses :: "ggml_cgraph \<Rightarrow> ptr \<Rightarrow> int" where
  "uses g = hash.count (cg_visited g) (cg_use_counts g)"

definition topological :: "(ptr \<rightharpoonup> ggml_tensor) \<Rightarrow> ptr list \<Rightarrow> ptr set \<Rightarrow> bool" where
  "topological T nodes L \<longleftrightarrow> (\<forall>i < length nodes. set (srcs T (nodes ! i)) \<subseteq> L \<union> set (take i nodes))"

text \<open>\<open>P\<close> are the tensors that are marked as visited but not yet listed.\<close>

definition graph_inv :: "ptr set \<Rightarrow> (ptr \<rightharpoonup> ggml_tensor) \<Rightarrow> ggml_cgraph \<Rightarrow> bool" where
  "graph_inv P T g \<longleftrightarrow> hs_inv (cg_visited g) \<and> length (cg_use_counts g) = hs_size (cg_visited g)
     \<and> distinct (cg_nodes g @ cg_leafs g) \<and> finished g = seen g - P \<and> P \<subseteq> seen g \<and> seen g \<subseteq> dom T
     \<and> (\<forall>p \<in> set (cg_nodes g). \<not> is_leaf T p) \<and> (\<forall>p \<in> set (cg_leafs g). is_leaf T p)
     \<and> (\<forall>p \<in> finished g. named T p) \<and> topological T (cg_nodes g) (set (cg_leafs g))"

text \<open>Outside \<open>F\<close>, whatever a tensor marked for computation needs is marked too.\<close>

definition flags_closed :: "ptr set \<Rightarrow> (ptr \<rightharpoonup> ggml_tensor) \<Rightarrow> bool" where
  "flags_closed F T \<longleftrightarrow> (\<forall>p. computed T p \<and> p \<notin> F \<longrightarrow> (\<forall>q \<in> set (srcs T p). is_none T q \<or> computed T q))"

text \<open>\<open>V\<close> holds everything that is or will be visited, and the graph has room for it.\<close>

definition room :: "(ptr \<rightharpoonup> ggml_tensor) \<Rightarrow> ptr set \<Rightarrow> ggml_cgraph \<Rightarrow> bool" where
  "room T V g \<longleftrightarrow> finite V \<and> seen g \<subseteq> V \<and> card V \<le> hs_size (cg_visited g)
     \<and> int (card {p \<in> V. is_leaf T p}) \<le> cg_size g \<and> int (card {p \<in> V. \<not> is_leaf T p}) \<le> cg_size g"

definition ready :: "ptr set \<Rightarrow> ptr set \<Rightarrow> ptr set \<Rightarrow> (ptr \<rightharpoonup> ggml_tensor) \<Rightarrow> ggml_cgraph \<Rightarrow> ggml_state \<Rightarrow> bool" where
  "ready P F V T0 g s \<longleftrightarrow> heap_touched T0 (st_tensors s) \<and> graph_inv P (st_tensors s) g
     \<and> flags_closed F (st_tensors s) \<and> room T0 V g"

text \<open>
  \<open>visits\<close>: going from \<open>(g, s)\<close> to \<open>(g', s')\<close> adds what is reachable from \<open>X\<close>, appends to the lists,
  counts the uses by the added tensors (and \<open>D\<close> more), and with \<open>c\<close> marks what is reachable.
\<close>

definition visits ::
  "ptr set \<Rightarrow> ptr set \<Rightarrow> bool \<Rightarrow> (ptr \<rightharpoonup> ggml_tensor) \<Rightarrow> ptr set \<Rightarrow> (ptr \<Rightarrow> int)
   \<Rightarrow> ggml_cgraph \<times> ggml_state \<Rightarrow> ggml_cgraph \<times> ggml_state \<Rightarrow> bool" where
  "visits P F c T0 X D = (\<lambda>(g, s) (g', s').
     (\<exists>T'. s' = s\<lparr>st_tensors := T'\<rparr> \<and> heap_touched (st_tensors s) T' \<and> graph_inv P T' g' \<and> flags_closed F T'
        \<and> (if c then \<forall>q \<in> \<Union> (reach T0 ` X). is_none T0 q \<or> computed T' q else computed T' = computed (st_tensors s)))
     \<and> (\<exists>ns ls u v. g' = g\<lparr>cg_nodes := cg_nodes g @ ns, cg_leafs := cg_leafs g @ ls, cg_use_counts := u, cg_visited := v\<rparr>
          \<and> hs_size v = hs_size (cg_visited g))
     \<and> seen g' = seen g \<union> \<Union> (reach T0 ` X)
     \<and> (\<forall>p \<in> seen g. member_slot (cg_visited g') p = member_slot (cg_visited g) p)
     \<and> (\<forall>p. uses g' p = uses g p + (\<Sum>q \<in> seen g' - seen g. int (count_list (srcs T0 q) p)) + D p))"

lemma visitsI:
  assumes "s' = s\<lparr>st_tensors := T'\<rparr>" "heap_touched (st_tensors s) T'" "graph_inv P T' g'" "flags_closed F T'"
    and "if c then \<forall>q \<in> \<Union> (reach T0 ` X). is_none T0 q \<or> computed T' q else computed T' = computed (st_tensors s)"
    and "\<exists>ns ls u v. g' = g\<lparr>cg_nodes := cg_nodes g @ ns, cg_leafs := cg_leafs g @ ls, cg_use_counts := u, cg_visited := v\<rparr>
          \<and> hs_size v = hs_size (cg_visited g)"
    and "seen g' = seen g \<union> \<Union> (reach T0 ` X)"
    and "\<forall>p \<in> seen g. member_slot (cg_visited g') p = member_slot (cg_visited g) p"
    and "\<forall>p. uses g' p = uses g p + (\<Sum>q \<in> seen g' - seen g. int (count_list (srcs T0 q) p)) + D p"
  shows "visits P F c T0 X D (g, s) (g', s')"
  unfolding visits_def prod.case using assms by (intro conjI exI [of _ T'])

lemma visits_graph:
  assumes "visits P F c T0 X D (g, s) (g', s')"
  shows "\<exists>ns ls u v. g' = g\<lparr>cg_nodes := cg_nodes g @ ns, cg_leafs := cg_leafs g @ ls, cg_use_counts := u, cg_visited := v\<rparr>
          \<and> hs_size v = hs_size (cg_visited g)"
    "seen g' = seen g \<union> \<Union> (reach T0 ` X)"
    "\<forall>p \<in> seen g. member_slot (cg_visited g') p = member_slot (cg_visited g) p"
    "\<forall>p. uses g' p = uses g p + (\<Sum>q \<in> seen g' - seen g. int (count_list (srcs T0 q) p)) + D p"
  using assms unfolding visits_def by auto

lemma visits_refl:
  assumes "ready P F V T0 g s" "\<Union> (reach T0 ` X) \<subseteq> seen g"
    and "c \<Longrightarrow> \<forall>q \<in> \<Union> (reach T0 ` X). is_none T0 q \<or> computed (st_tensors s) q"
  shows "visits P F c T0 X (\<lambda>_. 0) (g, s) (g, s)"
proof -
  have "\<exists>T'. s = s\<lparr>st_tensors := T'\<rparr> \<and> heap_touched (st_tensors s) T' \<and> graph_inv P T' g \<and> flags_closed F T'
      \<and> (if c then \<forall>q \<in> \<Union> (reach T0 ` X). is_none T0 q \<or> computed T' q else computed T' = computed (st_tensors s))"
    using assms(1,3) by (intro exI [of _ "st_tensors s"]) (simp add: ready_def)
  moreover have "\<exists>ns ls u v. g = g\<lparr>cg_nodes := cg_nodes g @ ns, cg_leafs := cg_leafs g @ ls, cg_use_counts := u, cg_visited := v\<rparr>
      \<and> hs_size v = hs_size (cg_visited g)"
    by (rule exI [of _ "[]"], rule exI [of _ "[]"], rule exI [of _ "cg_use_counts g"], rule exI [of _ "cg_visited g"]) simp
  ultimately show ?thesis using assms(2) unfolding visits_def by auto
qed

lemma visits_seen: "visits P F c T0 X D (g, s) (g', s') \<Longrightarrow> seen g' = seen g \<union> \<Union> (reach T0 ` X)"
  by (simp add: visits_def)

lemma visits_touched: "visits P F c T0 X D (g, s) (g', s') \<Longrightarrow> heap_touched (st_tensors s) (st_tensors s')"
  by (auto simp: visits_def)

lemma visits_ready:
  assumes "ready P F V T0 g s" "visits P F c T0 X D (g, s) (g', s')" "\<Union> (reach T0 ` X) \<subseteq> V"
  shows "ready P F V T0 g' s'"
proof -
  have "hs_size (cg_visited g') = hs_size (cg_visited g)" "cg_size g' = cg_size g"
    using assms(2) by (auto simp: visits_def)
  moreover have "seen g' \<subseteq> V" using assms visits_seen [OF assms(2)] by (auto simp: ready_def room_def)
  moreover have "heap_touched T0 (st_tensors s')"
    using assms(1) visits_touched [OF assms(2)] heap_touched_trans by (auto simp: ready_def)
  moreover have "graph_inv P (st_tensors s') g'" "flags_closed F (st_tensors s')"
    using assms(2) by (auto simp: visits_def)
  ultimately show ?thesis using assms(1) by (simp add: ready_def room_def)
qed

lemma visits_trans:
  assumes "visits P F c T0 X D (g, s) (g1, s1)" "visits P F c T0 Y E (g1, s1) (g2, s2)" "finite (seen g2)"
  shows "visits P F c T0 (X \<union> Y) (\<lambda>p. D p + E p) (g, s) (g2, s2)"
proof -
  have seen: "seen g1 = seen g \<union> \<Union> (reach T0 ` X)" "seen g2 = seen g1 \<union> \<Union> (reach T0 ` Y)"
    using assms(1,2) by (simp_all add: visits_def)
  obtain T1 T2 where s1: "s1 = s\<lparr>st_tensors := T1\<rparr>" "heap_touched (st_tensors s) T1"
    and c1: "if c then \<forall>q \<in> \<Union> (reach T0 ` X). is_none T0 q \<or> computed T1 q else computed T1 = computed (st_tensors s)"
    and s2: "s2 = s1\<lparr>st_tensors := T2\<rparr>" "heap_touched T1 T2" "graph_inv P T2 g2" "flags_closed F T2"
    and c2: "if c then \<forall>q \<in> \<Union> (reach T0 ` Y). is_none T0 q \<or> computed T2 q else computed T2 = computed T1"
    using assms(1,2) by (auto simp: visits_def)
  have "if c then \<forall>q \<in> \<Union> (reach T0 ` (X \<union> Y)). is_none T0 q \<or> computed T2 q else computed T2 = computed (st_tensors s)"
    using c1 c2 heap_touched_static(6) [OF s2(2)] by (auto split: if_splits)
  then have 1: "\<exists>T'. s2 = s\<lparr>st_tensors := T'\<rparr> \<and> heap_touched (st_tensors s) T' \<and> graph_inv P T' g2 \<and> flags_closed F T'
      \<and> (if c then \<forall>q \<in> \<Union> (reach T0 ` (X \<union> Y)). is_none T0 q \<or> computed T' q else computed T' = computed (st_tensors s))"
    using s1 s2 heap_touched_trans by (intro exI [of _ T2]) auto
  have 2: "\<exists>ns ls u v. g2 = g\<lparr>cg_nodes := cg_nodes g @ ns, cg_leafs := cg_leafs g @ ls, cg_use_counts := u, cg_visited := v\<rparr>
      \<and> hs_size v = hs_size (cg_visited g)"
  proof -
    obtain ns ls u v where g1: "g1 = g\<lparr>cg_nodes := cg_nodes g @ ns, cg_leafs := cg_leafs g @ ls, cg_use_counts := u, cg_visited := v\<rparr>"
        "hs_size v = hs_size (cg_visited g)"
      using assms(1) unfolding visits_def by auto
    obtain ns' ls' u' v' where g2: "g2 = g1\<lparr>cg_nodes := cg_nodes g1 @ ns', cg_leafs := cg_leafs g1 @ ls', cg_use_counts := u', cg_visited := v'\<rparr>"
        "hs_size v' = hs_size (cg_visited g1)"
      using assms(2) unfolding visits_def by auto
    have "g2 = g\<lparr>cg_nodes := cg_nodes g @ (ns @ ns'), cg_leafs := cg_leafs g @ (ls @ ls'), cg_use_counts := u', cg_visited := v'\<rparr>"
      "hs_size v' = hs_size (cg_visited g)"
      using g1 g2 by simp_all
    then show ?thesis by blast
  qed
  have "(\<Sum>q \<in> seen g2 - seen g. int (count_list (srcs T0 q) p))
      = (\<Sum>q \<in> seen g1 - seen g. int (count_list (srcs T0 q) p)) + (\<Sum>q \<in> seen g2 - seen g1. int (count_list (srcs T0 q) p))" for p
  proof -
    have "seen g2 - seen g = (seen g1 - seen g) \<union> (seen g2 - seen g1)" using seen by auto
    then show ?thesis using assms(3) seen by (subst sum.union_disjoint [symmetric]) (auto intro: finite_subset)
  qed
  then have "\<forall>p. uses g2 p = uses g p + (\<Sum>q \<in> seen g2 - seen g. int (count_list (srcs T0 q) p)) + (D p + E p)"
    using assms(1,2) by (simp add: visits_def)
  moreover have "\<forall>p \<in> seen g. member_slot (cg_visited g2) p = member_slot (cg_visited g) p"
    using assms(1,2) seen by (simp add: visits_def)
  ultimately show ?thesis using 1 2 seen unfolding visits_def by auto
qed

text \<open>A loop of visits.\<close>

lemma foldM_visits:
  assumes "\<And>x g s. x \<in> set xs \<Longrightarrow> ready P F V T0 g s \<Longrightarrow> K g
      \<Longrightarrow> \<exists>g' s'. f x (g, s) = Some (g', s') \<and> K g' \<and> visits P F c T0 (R x) (E x) (g, s) (g', s')"
    and "ready P F V T0 g s" "K g" "\<And>x. x \<in> set xs \<Longrightarrow> \<Union> (reach T0 ` R x) \<subseteq> V"
  shows "\<exists>g' s'. foldM f xs (g, s) = Some (g', s') \<and> K g'
    \<and> visits P F c T0 (\<Union> (R ` set xs)) (\<lambda>p. \<Sum>x \<leftarrow> xs. E x p) (g, s) (g', s')"
  using assms
proof (induction xs arbitrary: g s)
  case Nil
  then show ?case using visits_refl [of P F V T0 g s "{}" c] by simp
next
  case (Cons x xs)
  obtain g1 s1 where 1: "f x (g, s) = Some (g1, s1)" "K g1" "visits P F c T0 (R x) (E x) (g, s) (g1, s1)"
    using Cons.prems(1) [OF list.set_intros(1) Cons.prems(2,3)] by blast
  have rd: "ready P F V T0 g1 s1" using visits_ready [OF Cons.prems(2) 1(3)] Cons.prems(4) by simp
  obtain g2 s2 where 2: "foldM f xs (g1, s1) = Some (g2, s2)" "K g2"
    "visits P F c T0 (\<Union> (R ` set xs)) (\<lambda>p. \<Sum>x \<leftarrow> xs. E x p) (g1, s1) (g2, s2)"
    using Cons.IH [OF Cons.prems(1) [OF list.set_intros(2)] rd 1(2) Cons.prems(4) [OF list.set_intros(2)]] by blast
  have "hs_inv (cg_visited g2)" using 2(3) by (auto simp: visits_def graph_inv_def)
  then have "finite (seen g2)" by (rule hs_set_card)
  from visits_trans [OF 1(3) 2(3) this] 1 2 show ?case by simp
qed

section \<open>The steps of a visit\<close>

lemma upd_touched:
  assumes "st_tensors s p = Some t" "touched t (f t)"
  shows "heap_touched (st_tensors s) (st_tensors (upd s p f))"
proof -
  have "rel_option touched (st_tensors s q) (st_tensors (upd s p f) q)" for q
    using assms by (cases "q = p"; cases "st_tensors s q") (auto simp: upd_def)
  then show ?thesis by (simp add: heap_touched_def)
qed

lemma upd_state: "upd s p f = s\<lparr>st_tensors := st_tensors (upd s p f)\<rparr>"
  by (simp add: upd_def)

lemma graph_inv_touched: "graph_inv P T g \<Longrightarrow> heap_touched T T' \<Longrightarrow> graph_inv P T' g"
  by (simp add: graph_inv_def heap_touched_static topological_def)

lemma set_flag_computed: "has_flag (set_flag GGML_TENSOR_FLAG_COMPUTE t) GGML_TENSOR_FLAG_COMPUTE"
proof -
  have "(w OR 16) AND 16 = (16 :: 32 word)" for w by (simp add: bit.conj_disj_distrib2)
  then show ?thesis by (simp add: has_flag_def set_flag_def)
qed

lemma set_flag_touched: "touched t (set_flag GGML_TENSOR_FLAG_COMPUTE t)"
  by (simp add: touched_def set_flag_def)

text \<open>Marking the tensor for computation.\<close>

lemma flag_step:
  fixes c :: bool
  assumes "st_tensors s node = Some t"
  defines "s1 \<equiv> if t_op t \<noteq> GGML_OP_NONE \<and> c then upd s node (set_flag GGML_TENSOR_FLAG_COMPUTE) else s"
  shows "heap_touched (st_tensors s) (st_tensors s1)" "s1 = s\<lparr>st_tensors := st_tensors s1\<rparr>"
    "\<not> c \<Longrightarrow> s1 = s" "c \<Longrightarrow> is_none (st_tensors s) node \<or> computed (st_tensors s1) node"
    "computed (st_tensors s1) p \<Longrightarrow> p = node \<or> computed (st_tensors s) p"
proof -
  show "heap_touched (st_tensors s) (st_tensors s1)"
    using upd_touched [of s node t "set_flag GGML_TENSOR_FLAG_COMPUTE"] assms(1) set_flag_touched by (simp add: s1_def)
  show "s1 = s\<lparr>st_tensors := st_tensors s1\<rparr>" unfolding s1_def by (cases "t_op t \<noteq> GGML_OP_NONE \<and> c") (simp_all add: upd_def)
  show "\<not> c \<Longrightarrow> s1 = s" by (simp add: s1_def)
  show "c \<Longrightarrow> is_none (st_tensors s) node \<or> computed (st_tensors s1) node"
    using assms(1) set_flag_computed by (auto simp: s1_def upd_def is_none_def computed_def)
  show "p = node \<or> computed (st_tensors s) p" if "computed (st_tensors s1) p"
    using that by (cases "t_op t \<noteq> GGML_OP_NONE \<and> c"; cases "p = node") (simp_all add: s1_def upd_def computed_def)
qed

lemma flags_closed_step:
  assumes "flags_closed F T" "heap_touched T T1" "\<And>p. computed T1 p \<Longrightarrow> p = node \<or> computed T p"
  shows "flags_closed (insert node F) T1"
  unfolding flags_closed_def
proof (intro allI impI ballI)
  fix p q assume p: "computed T1 p \<and> p \<notin> insert node F" and q: "q \<in> set (srcs T1 p)"
  then have "computed T p" using assms(3) by blast
  then have "is_none T q \<or> computed T q"
    using assms(1) p q heap_touched_static(1) [OF assms(2)] by (auto simp: flags_closed_def)
  then show "is_none T1 q \<or> computed T1 q"
    using heap_touched_static(2) [OF assms(2)] heap_touched_static(6) [OF assms(2)] by auto
qed

text \<open>A search that finds a free slot, and the table after the key is stored there.\<close>

lemma hash_find_fresh:
  assumes "hs_inv hs" "key \<notin> hs_set hs" "card (hs_set hs) < hs_size hs"
  obtains i where "ggml_hash_find hs key = Some i" "i \<noteq> GGML_HASHSET_FULL" "\<not> ggml_bitset_get (hs_used hs) i"
    "ggml_hash_find_or_insert hs key
       = Some (i, hs\<lparr>hs_used := ggml_bitset_set (hs_used hs) i, hs_keys := (hs_keys hs)[i := key]\<rparr>)"
proof -
  obtain i where s: "slot_of hs key = Some i"
    using slot_of_None [OF assms(1)] hs_set_card(3) [OF assms(1)] assms(3) by (cases "slot_of hs key") auto
  note sl = slot_of_Some [OF assms(1) s]
  have "i \<noteq> GGML_HASHSET_FULL" using hs_invD(7) [OF assms(1) sl(1)] .
  moreover have "\<not> ggml_bitset_get (hs_used hs) i" using sl(2) assms(2) by blast
  ultimately show thesis
    using that s assms(2) by (simp add: ggml_hash_find_eq [OF assms(1)] hash_insert_cases(2) [OF assms(1)])
qed

lemma mark_step:
  assumes "ready P F V T0 g s" "node \<notin> seen g" "node \<in> V" "node \<in> dom T0"
  obtains pos where "ggml_hash_find (cg_visited g) node = Some pos" "pos \<noteq> GGML_HASHSET_FULL"
    "\<not> ggml_bitset_get (hs_used (cg_visited g)) pos" "ready (insert node P) F V T0 (mark_visited g pos node) s"
    "seen (mark_visited g pos node) = insert node (seen g)" "uses (mark_visited g pos node) = uses g"
    "member_slot (cg_visited (mark_visited g pos node)) node = Some pos"
    "\<forall>p \<in> seen g. member_slot (cg_visited (mark_visited g pos node)) p = member_slot (cg_visited g) p"
proof -
  have T: "dom (st_tensors s) = dom T0" using assms(1) heap_touched_static(4) by (auto simp: ready_def)
  have gi: "graph_inv P (st_tensors s) g" and rm: "room T0 V g" using assms(1) by (auto simp: ready_def)
  then have hi: "hs_inv (cg_visited g)" and len: "length (cg_use_counts g) = hs_size (cg_visited g)" by (auto simp: graph_inv_def)
  have "seen g \<subset> V" using assms(2,3) rm by (auto simp: room_def)
  then have "card (seen g) < card V" using rm by (intro psubset_card_mono) (auto simp: room_def)
  then have "card (seen g) < hs_size (cg_visited g)" using rm by (auto simp: room_def)
  from hash_find_fresh [OF hi assms(2) this] obtain pos where
    pos: "ggml_hash_find (cg_visited g) node = Some pos" "pos \<noteq> GGML_HASHSET_FULL" "\<not> ggml_bitset_get (hs_used (cg_visited g)) pos"
    and ins: "ggml_hash_find_or_insert (cg_visited g) node = Some (pos, cg_visited (mark_visited g pos node))"
    by (auto simp: mark_visited_def)
  let ?g = "mark_visited g pos node"
  have seen: "seen ?g = insert node (seen g)" using hash.add_elems [OF hi ins] .
  have cap: "hs_size (cg_visited ?g) = hs_size (cg_visited g)" using hash.add_capacity [OF hi ins] .
  have uses: "uses ?g = uses g"
  proof
    fix p show "uses ?g p = uses g p"
      using hash.count_add [OF hi ins assms(2) len] by (simp add: uses_def mark_visited_def)
  qed
  have "node \<notin> P" using gi assms(2) by (auto simp: graph_inv_def)
  then have "graph_inv (insert node P) (st_tensors s) ?g"
    using gi hash.add_invar [OF hi ins] cap len assms(2,4) T
    unfolding graph_inv_def seen by (auto simp: mark_visited_def finished_def)
  then have "ready (insert node P) F V T0 ?g s"
    using assms(1,3) seen cap by (simp add: ready_def room_def) (simp add: mark_visited_def)
  moreover have "\<forall>p \<in> seen g. member_slot (cg_visited ?g) p = member_slot (cg_visited g) p"
    using hash.add_other [OF hi ins] assms(2) by metis
  ultimately show thesis using that [OF pos _ seen uses hash.add_slot [OF hi ins]] by blast
qed

text \<open>Listing a tensor whose sources are listed.\<close>

lemma length_less_card:
  assumes "distinct xs" "set xs \<subseteq> A" "x \<in> A" "x \<notin> set xs" "finite A" "int (card A) \<le> n"
  shows "int (length xs) < n"
proof -
  have "card (insert x (set xs)) \<le> card A" using assms by (intro card_mono) auto
  then show ?thesis using assms distinct_card [OF assms(1)] by simp
qed

lemma format_touched:
  assumes "st_tensors s node = Some t" "t_name t = ''''" "str \<noteq> ''''"
  shows "heap_touched (st_tensors s) (st_tensors (ggml_format_name s node str))"
    "named (st_tensors (ggml_format_name s node str)) node"
    "computed (st_tensors (ggml_format_name s node str)) = computed (st_tensors s)"
proof -
  show "heap_touched (st_tensors s) (st_tensors (ggml_format_name s node str))"
    unfolding ggml_format_name_def
    by (rule upd_touched [OF assms(1)]) (use assms(2) in \<open>simp add: touched_def min_def\<close>)
  show "named (st_tensors (ggml_format_name s node str)) node"
    using assms by (cases str) (simp_all add: ggml_format_name_def upd_def named_def)
  show "computed (st_tensors (ggml_format_name s node str)) = computed (st_tensors s)"
  proof
    fix p show "computed (st_tensors (ggml_format_name s node str)) p = computed (st_tensors s) p"
      using assms(1) by (cases "p = node") (simp_all add: ggml_format_name_def upd_def computed_def has_flag_def)
  qed
qed

lemma topological_snoc:
  assumes "topological T nodes L" "set (srcs T node) \<subseteq> L \<union> set nodes"
  shows "topological T (nodes @ [node]) L"
  using assms by (auto simp: topological_def nth_append less_Suc_eq)

lemma topological_mono: "topological T nodes L \<Longrightarrow> L \<subseteq> L' \<Longrightarrow> topological T nodes L'"
  by (auto simp: topological_def)

lemma add_step:
  assumes "ready (insert node P) F V T0 g s" "node \<in> V" "node \<in> dom T0" "node \<notin> P" "node \<in> seen g" "set (srcs T0 node) \<subseteq> finished g"
  obtains T' g' where "add_visited g s node = Some (g', s\<lparr>st_tensors := T'\<rparr>)" "heap_touched (st_tensors s) T'"
    "computed T' = computed (st_tensors s)" "graph_inv P T' g'"
    "g' = (if is_leaf T0 node then g\<lparr>cg_leafs := cg_leafs g @ [node]\<rparr> else g\<lparr>cg_nodes := cg_nodes g @ [node]\<rparr>)"
proof -
  let ?T = "st_tensors s"
  have ht: "heap_touched T0 ?T" and gi: "graph_inv (insert node P) ?T g" and rm: "room T0 V g" using assms(1) by (auto simp: ready_def)
  note st = heap_touched_static [OF ht]
  obtain t where t: "?T node = Some t" using assms(3) st(4) by auto
  have leaf: "t_op t = GGML_OP_NONE \<and> \<not> has_flag t GGML_TENSOR_FLAG_PARAM \<longleftrightarrow> is_leaf T0 node"
    unfolding st(3) [symmetric] using t by (auto simp: is_leaf_def)
  have nf: "node \<notin> finished g" using gi by (auto simp: graph_inv_def)
  have "int (length (cg_leafs g)) < cg_size g" if "is_leaf T0 node"
    by (rule length_less_card [of _ "{p \<in> V. is_leaf T0 p}" node])
      (use gi rm that assms(2) nf st(3) in \<open>auto simp: graph_inv_def room_def finished_def\<close>)
  moreover have "int (length (cg_nodes g)) < cg_size g" if "\<not> is_leaf T0 node"
    by (rule length_less_card [of _ "{p \<in> V. \<not> is_leaf T0 p}" node])
      (use gi rm that assms(2) nf st(3) in \<open>auto simp: graph_inv_def room_def finished_def\<close>)
  moreover define str where "str = (if is_leaf T0 node then ''leaf_'' @ decimal (length (cg_leafs g)) else ''node_'' @ decimal (length (cg_nodes g)))"
  moreover define s' where "s' = (if length (t_name t) = 0 then ggml_format_name s node str else s)"
  moreover define g' where "g' = (if is_leaf T0 node then g\<lparr>cg_leafs := cg_leafs g @ [node]\<rparr> else g\<lparr>cg_nodes := cg_nodes g @ [node]\<rparr>)"
  ultimately have run: "add_visited g s node = Some (g', s')"
    using leaf t by (simp add: add_visited_def deref_def n_leafs_def n_nodes_def)
  have s': "s' = s\<lparr>st_tensors := st_tensors s'\<rparr>" by (simp add: s'_def ggml_format_name_def upd_def)
  have str_ne: "str \<noteq> ''''" by (simp add: str_def)
  have ht': "heap_touched ?T (st_tensors s')" and nm: "named (st_tensors s') node" and cm: "computed (st_tensors s') = computed ?T"
    using format_touched [OF t _ str_ne] t by (auto simp: s'_def named_def)
  note st' = heap_touched_static [OF ht']
  have gi': "graph_inv (insert node P) (st_tensors s') g" using graph_inv_touched [OF gi ht'] .
  have srcs: "set (srcs (st_tensors s') node) \<subseteq> set (cg_leafs g) \<union> set (cg_nodes g)"
    using assms(6) st st' by (auto simp: finished_def)
  have "graph_inv P (st_tensors s') g'"
  proof (cases "is_leaf T0 node")
    case True
    then show ?thesis
      using gi' nm nf assms(4,5) st(3) st'(3) topological_mono [of "st_tensors s'" "cg_nodes g" "set (cg_leafs g)" "insert node (set (cg_leafs g))"]
      by (auto simp: graph_inv_def g'_def finished_def)
  next
    case False
    then show ?thesis
      using gi' nm nf assms(4,5) st(3) st'(3) topological_snoc [OF _ srcs]
      by (auto simp: graph_inv_def g'_def finished_def)
  qed
  then show thesis using that [of g' "st_tensors s'"] run s' ht' cm g'_def by auto
qed

section \<open>A visit is correct\<close>

text \<open>The bodies of the two loops.\<close>

definition revisit_src :: "ptr \<Rightarrow> ggml_cgraph \<times> ggml_state \<Rightarrow> (ggml_cgraph \<times> ggml_state) option" where
  "revisit_src src = (\<lambda>(g, s).
     if src = 0 then Some (g, s)
     else do {
       ts \<leftarrow> deref s src;
       if \<not> has_flag ts GGML_TENSOR_FLAG_COMPUTE then do {
         (_, g, s) \<leftarrow> ggml_visit_parents_graph g s src True;
         Some (g, s) }
       else Some (g, s) })"

definition visit_src :: "bool \<Rightarrow> ptr \<Rightarrow> ggml_cgraph \<times> ggml_state \<Rightarrow> (ggml_cgraph \<times> ggml_state) option" where
  "visit_src compute src = (\<lambda>(g, s).
     if src = 0 then Some (g, s)
     else do {
       (src_pos, g, s) \<leftarrow> ggml_visit_parents_graph g s src compute;
       n \<leftarrow> array_get (cg_use_counts g) src_pos;
       Some (g\<lparr>cg_use_counts := (cg_use_counts g)[src_pos := n + 1]\<rparr>, s) })"

lemma visit_unfold:
  "ggml_visit_parents_graph g s node compute = do {
     t \<leftarrow> deref s node;
     let s = (if t_op t \<noteq> GGML_OP_NONE \<and> compute then upd s node (set_flag GGML_TENSOR_FLAG_COMPUTE) else s);
     pos \<leftarrow> ggml_hash_find (cg_visited g) node;
     ggml_assert (pos \<noteq> GGML_HASHSET_FULL);
     if ggml_bitset_get (hs_used (cg_visited g)) pos then do {
       (g, s) \<leftarrow> (if compute then foldM revisit_src (t_src t) (g, s) else Some (g, s));
       Some (pos, g, s) }
     else do {
       let g = mark_visited g pos node;
       (g, s) \<leftarrow> foldM (visit_src compute) (visit_srcs (cg_order g) t) (g, s);
       (g, s) \<leftarrow> add_visited g s node;
       Some (pos, g, s) } }"
  unfolding revisit_src_def visit_src_def by (subst ggml_visit_parents_graph.simps) (rule refl)

definition visit_ok ::
  "ptr set \<Rightarrow> ptr set \<Rightarrow> bool \<Rightarrow> (ptr \<rightharpoonup> ggml_tensor) \<Rightarrow> ptr \<Rightarrow> ggml_cgraph \<Rightarrow> ggml_state \<Rightarrow> bool" where
  "visit_ok P F c T0 node g s \<longleftrightarrow> (\<exists>pos g' s'. ggml_visit_parents_graph g s node c = Some (pos, g', s')
     \<and> visits P F c T0 {node} (\<lambda>_. 0) (g, s) (g', s') \<and> member_slot (cg_visited g') node = Some pos
     \<and> (node \<notin> seen g \<and> \<not> is_leaf T0 node \<longrightarrow> cg_nodes g' \<noteq> [] \<and> last (cg_nodes g') = node))"

lemma seen_reach:
  assumes "heap_ok T0" "ready P F V T0 g s" "node \<in> seen g" "reach T0 node \<inter> P = {}"
  shows "reach T0 node \<subseteq> seen g"
proof (rule reach_closed [OF assms(3,4)])
  fix q assume q: "q \<in> seen g" "q \<notin> P"
  have ht: "heap_touched T0 (st_tensors s)" and gi: "graph_inv P (st_tensors s) g" using assms(2) by (auto simp: ready_def)
  note st = heap_touched_static [OF ht]
  have "q \<in> set (cg_nodes g) \<or> q \<in> set (cg_leafs g)" using gi q by (auto simp: graph_inv_def finished_def)
  then show "set (srcs T0 q) \<subseteq> seen g"
  proof
    assume "q \<in> set (cg_nodes g)"
    then obtain i where i: "i < length (cg_nodes g)" "q = cg_nodes g ! i" by (auto simp: in_set_conv_nth)
    then have "set (srcs T0 q) \<subseteq> set (cg_leafs g) \<union> set (take i (cg_nodes g))"
      using gi st(1) by (auto simp: graph_inv_def topological_def)
    also have "\<dots> \<subseteq> finished g" using set_take_subset by (fastforce simp: finished_def)
    finally show ?thesis using gi by (auto simp: graph_inv_def)
  next
    assume "q \<in> set (cg_leafs g)"
    then have "is_none T0 q" using gi st(3) by (auto simp: graph_inv_def is_leaf_def is_none_def)
    then show ?thesis using heap_ok_srcs(2) [OF assms(1)] by simp
  qed
qed

lemma computed_reach:
  assumes "heap_ok T0" "heap_touched T0 T" "flags_closed F T" "computed T x" "reach T0 x \<inter> F = {}" "q \<in> reach T0 x"
  shows "is_none T0 q \<or> computed T q"
proof -
  note st = heap_touched_static [OF assms(2)]
  have "(x, q) \<in> (edges T0)\<^sup>*" using assms(6) by (simp add: reach_def)
  then show ?thesis
  proof (induction rule: rtrancl_induct)
    case (step y z)
    then have y: "y \<notin> F" "z \<in> set (srcs T0 y)" using assms(5) by (auto simp: reach_def edges_def)
    then have "computed T y" using step.IH heap_ok_srcs(2) [OF assms(1)] by force
    then show ?case using y assms(3) st by (auto simp: flags_closed_def)
  qed (use assms(4) in simp)
qed

text \<open>The state after the sources of a tensor that was marked for computation have been visited.\<close>

lemma visits_close:
  fixes c :: bool
  assumes "heap_ok T0" "heap_touched T0 (st_tensors s)" "flags_closed F (st_tensors s)" "node \<notin> F" "st_tensors s node = Some t"
  defines "s1 \<equiv> if t_op t \<noteq> GGML_OP_NONE \<and> c then upd s node (set_flag GGML_TENSOR_FLAG_COMPUTE) else s"
  assumes "visits P' (insert node F) c T0 (set (srcs T0 node)) D (g1, s1) (g2, s2)"
  obtains T2 where "s2 = s\<lparr>st_tensors := T2\<rparr>" "heap_touched (st_tensors s) T2" "graph_inv P' T2 g2" "flags_closed F T2"
    "if c then \<forall>q \<in> reach T0 node. is_none T0 q \<or> computed T2 q else computed T2 = computed (st_tensors s)"
proof -
  note fs = flag_step [OF assms(5), of c, folded s1_def] and st = heap_touched_static [OF assms(2)]
  obtain T2 where s2: "s2 = s1\<lparr>st_tensors := T2\<rparr>" "heap_touched (st_tensors s1) T2" "graph_inv P' T2 g2"
      "flags_closed (insert node F) T2"
    and cm: "if c then \<forall>q \<in> \<Union> (reach T0 ` set (srcs T0 node)). is_none T0 q \<or> computed T2 q
      else computed T2 = computed (st_tensors s1)"
    using assms(7) unfolding visits_def by auto
  have ht2: "heap_touched (st_tensors s) T2" using heap_touched_trans [OF fs(1) s2(2)] .
  note st2 = heap_touched_static [OF ht2]
  have s2': "s2 = s\<lparr>st_tensors := T2\<rparr>" using s2(1) by (subst (asm) fs(2)) simp
  have cl: "if c then \<forall>q \<in> reach T0 node. is_none T0 q \<or> computed T2 q else computed T2 = computed (st_tensors s)"
    using cm fs(3,4) st(2) heap_touched_static(6) [OF s2(2), of node] reach_unfold [of T0 node] by (auto split: if_splits)
  have "is_none T2 q \<or> computed T2 q" if "computed T2 node" "q \<in> set (srcs T2 node)" for q
  proof (cases c)
    case True
    then have "is_none T0 q \<or> computed T2 q" using cl that st st2 reach_unfold [of T0 node] by auto
    then show ?thesis using st st2 by auto
  next
    case False
    then have "computed (st_tensors s) node" using that cl by auto
    then have "is_none (st_tensors s) q \<or> computed (st_tensors s) q"
      using assms(3,4) that(2) st2(1) by (simp add: flags_closed_def)
    then show ?thesis using st2(2) st2(6) [of q] by auto
  qed
  then have "flags_closed F T2" using s2(4) unfolding flags_closed_def by blast
  with s2' ht2 s2(3) cl show thesis using that by blast
qed

lemma srcs_touched: "heap_touched T0 T \<Longrightarrow> T p = Some t \<Longrightarrow> srcs T0 p = filter (\<lambda>q. q \<noteq> 0) (t_src t)"
  unfolding heap_touched_static(1) [of T0 T, symmetric] by (simp add: srcs_def)

lemma visited_case:
  assumes "heap_ok T0" "ready P F V T0 g s" "node \<in> seen g" "node \<in> dom T0" "reach T0 node \<subseteq> V" "reach T0 node \<inter> (P \<union> F) = {}"
    and IH: "\<And>x P F g s c. x \<in> set (srcs T0 node) \<Longrightarrow> ready P F V T0 g s \<Longrightarrow> reach T0 x \<inter> (P \<union> F) = {} \<Longrightarrow> visit_ok P F c T0 x g s"
  shows "visit_ok P F c T0 node g s"
proof -
  have ht: "heap_touched T0 (st_tensors s)" and gi: "graph_inv P (st_tensors s) g" and fc: "flags_closed F (st_tensors s)"
    using assms(2) by (auto simp: ready_def)
  then have hi: "hs_inv (cg_visited g)" by (auto simp: graph_inv_def)
  obtain t where t: "st_tensors s node = Some t" using assms(4) heap_touched_static(4) [OF ht] by auto
  have srcs: "srcs T0 node = filter (\<lambda>q. q \<noteq> 0) (t_src t)" using srcs_touched [OF ht t] .
  obtain pos where pos: "ggml_hash_find (cg_visited g) node = Some pos" "member_slot (cg_visited g) node = Some pos" "used_slot (cg_visited g) pos"
    using hash_find_member [OF hi assms(3)] by blast
  then have pos': "pos \<noteq> GGML_HASHSET_FULL" "ggml_bitset_get (hs_used (cg_visited g)) pos"
    using hs_invD(7) [OF hi, of pos] by (auto simp: used_slot_def)
  have rs: "reach T0 node \<subseteq> seen g" using seen_reach [OF assms(1-3)] assms(6) by blast
  have nF: "node \<notin> F" using assms(6) reach_self [of node T0] by blast
  show ?thesis
  proof (cases c)
    case False
    then have "ggml_visit_parents_graph g s node c = Some (pos, g, s)"
      using t pos(1) pos' by (simp add: visit_unfold deref_def)
    moreover have "visits P F c T0 {node} (\<lambda>_. 0) (g, s) (g, s)" using visits_refl [OF assms(2)] rs False by simp
    ultimately show ?thesis using pos assms(3) unfolding visit_ok_def by blast
  next
    case True
    let ?s1 = "if t_op t \<noteq> GGML_OP_NONE \<and> c then upd s node (set_flag GGML_TENSOR_FLAG_COMPUTE) else s"
    note fs = flag_step [OF t, of c]
    let ?F = "insert node F" and ?R = "\<lambda>x. if x = 0 then {} else {x} :: ptr set"
    have rd: "ready P ?F V T0 g ?s1"
      using assms(2) heap_touched_trans [OF ht fs(1)] graph_inv_touched [OF gi fs(1)] flags_closed_step [OF fc fs(1) fs(5)]
      by (auto simp: ready_def)
    have disj: "reach T0 x \<inter> (P \<union> ?F) = {}" "reach T0 x \<subseteq> V" if "x \<in> set (srcs T0 node)" for x
      using reach_src [OF that] reach_src_no_self [OF assms(1) that] assms(5,6) by blast+
    have body: "\<exists>g'' s''. revisit_src x (g', s') = Some (g'', s'') \<and> reach T0 node \<subseteq> seen g''
        \<and> visits P ?F True T0 (?R x) (\<lambda>_. 0) (g', s') (g'', s'')"
      if x: "x \<in> set (t_src t)" and r: "ready P ?F V T0 g' s'" and k: "reach T0 node \<subseteq> seen g'" for x g' s'
    proof (cases "x = 0")
      case True
      then show ?thesis using visits_refl [OF r, of "{}" True] k by (simp add: revisit_src_def)
    next
      case False
      then have x': "x \<in> set (srcs T0 node)" using x srcs by simp
      have ht': "heap_touched T0 (st_tensors s')" and fc': "flags_closed ?F (st_tensors s')" using r by (auto simp: ready_def)
      obtain tx where tx: "st_tensors s' x = Some tx"
        using heap_ok_srcs(1) [OF assms(1) x'] heap_touched_static(4) [OF ht'] by auto
      show ?thesis
      proof (cases "has_flag tx GGML_TENSOR_FLAG_COMPUTE")
        case True
        then have "computed (st_tensors s') x" using tx by (simp add: computed_def)
        then have "\<forall>q \<in> reach T0 x. is_none T0 q \<or> computed (st_tensors s') q"
          using computed_reach [OF assms(1) ht' fc'] disj [OF x'] by blast
        then show ?thesis
          using visits_refl [OF r, of "{x}" True] k reach_src [OF x'] True False tx by (simp add: revisit_src_def deref_def)
      next
        case nf: False
        obtain p g'' s'' where v: "ggml_visit_parents_graph g' s' x True = Some (p, g'', s'')"
            "visits P ?F True T0 {x} (\<lambda>_. 0) (g', s') (g'', s'')"
          using IH [OF x' r disj(1) [OF x'], of True] unfolding visit_ok_def by blast
        then show ?thesis using nf False tx k visits_seen [OF v(2)] by (simp add: revisit_src_def deref_def) blast
      qed
    qed
    have sub: "\<Union> (reach T0 ` ?R x) \<subseteq> V" if "x \<in> set (t_src t)" for x using that disj(2) [of x] srcs by simp
    note loop = foldM_visits [of "t_src t" P ?F V T0 "\<lambda>g. reach T0 node \<subseteq> seen g" revisit_src True ?R "\<lambda>_ _. 0", OF body rd rs sub]
    obtain g' s' where run: "foldM revisit_src (t_src t) (g, ?s1) = Some (g', s')"
      and v: "visits P ?F True T0 (\<Union> (?R ` set (t_src t))) (\<lambda>p. \<Sum>x \<leftarrow> t_src t. 0) (g, ?s1) (g', s')"
      using loop by blast
    have R: "\<Union> (?R ` set (t_src t)) = set (srcs T0 node)" using srcs by auto
    have v': "visits P ?F c T0 (set (srcs T0 node)) (\<lambda>p. 0) (g, ?s1) (g', s')"
    proof -
      have z: "(\<lambda>p :: ptr. \<Sum>x \<leftarrow> t_src t. 0 :: int) = (\<lambda>_. 0)" and c: "c = True" using True by simp_all
      show ?thesis using v unfolding R z by (simp only: c)
    qed
    obtain T2 where T2: "s' = s\<lparr>st_tensors := T2\<rparr>" "heap_touched (st_tensors s) T2" "graph_inv P T2 g'" "flags_closed F T2"
      "if c then \<forall>q \<in> reach T0 node. is_none T0 q \<or> computed T2 q else computed T2 = computed (st_tensors s)"
      by (rule visits_close [OF assms(1) ht fc nF t v'])
    have sub': "\<Union> (reach T0 ` set (srcs T0 node)) \<subseteq> seen g" using rs reach_src by blast
    have "visits P F c T0 {node} (\<lambda>_. 0) (g, s) (g', s')"
    proof (rule visitsI [OF T2(1-4)])
      have eq: "seen g' = seen g" using visits_graph(2) [OF v'] sub' by blast
      then show "seen g' = seen g \<union> \<Union> (reach T0 ` {node})" using rs by auto
      show "\<forall>p. uses g' p = uses g p + (\<Sum>q \<in> seen g' - seen g. int (count_list (srcs T0 q) p)) + 0"
        using visits_graph(4) [OF v'] by simp
    qed (use T2(5) visits_graph(1,3) [OF v'] in \<open>simp_all\<close>)
    moreover have "ggml_visit_parents_graph g s node c = Some (pos, g', s')"
      using t pos(1) pos' run True by (simp add: visit_unfold deref_def)
    moreover have "member_slot (cg_visited g') node = Some pos" using v' assms(3) pos(2) unfolding visits_def by auto
    ultimately show ?thesis using assms(3) unfolding visit_ok_def by blast
  qed
qed

text \<open>Counting one more use of a visited tensor.\<close>

lemma visits_bump:
  assumes "visits P F c T0 {x} (\<lambda>_. 0) (g, s) (g', s')" "member_slot (cg_visited g') x = Some i"
  shows "\<exists>n. array_get (cg_use_counts g') i = Some n
    \<and> visits P F c T0 {x} (\<lambda>p. if p = x then 1 else 0) (g, s) (g'\<lparr>cg_use_counts := (cg_use_counts g')[i := n + 1]\<rparr>, s')"
proof -
  have hi: "hs_inv (cg_visited g')" and len: "length (cg_use_counts g') = hs_size (cg_visited g')"
    using assms(1) by (auto simp: visits_def graph_inv_def)
  have i: "i < length (cg_use_counts g')" using hash.slot_less [OF hi assms(2)] len by simp
  define n where "n = cg_use_counts g' ! i"
  let ?g = "g'\<lparr>cg_use_counts := (cg_use_counts g')[i := n + 1]\<rparr>"
  have n: "n = uses g' x" using assms(2) by (simp add: n_def uses_def hash.count_def)
  have uses: "uses ?g p = uses g' p + (if p = x then 1 else 0)" for p
    using hash.count_update [OF hi assms(2) len, of "n + 1" p] n by (simp add: uses_def)
  have gi: "graph_inv P T' ?g \<longleftrightarrow> graph_inv P T' g'" for T' by (simp add: graph_inv_def finished_def)
  obtain ns ls u v where "g' = g\<lparr>cg_nodes := cg_nodes g @ ns, cg_leafs := cg_leafs g @ ls, cg_use_counts := u, cg_visited := v\<rparr>"
      "hs_size v = hs_size (cg_visited g)" using assms(1) unfolding visits_def by auto
  then have "\<exists>ns ls u v. ?g = g\<lparr>cg_nodes := cg_nodes g @ ns, cg_leafs := cg_leafs g @ ls, cg_use_counts := u, cg_visited := v\<rparr>
      \<and> hs_size v = hs_size (cg_visited g)"
    by (rule_tac exI [of _ ns], rule_tac exI [of _ ls], rule_tac exI [of _ "(cg_use_counts g')[i := n + 1]"], rule_tac exI [of _ v]) simp
  then have "visits P F c T0 {x} (\<lambda>p. if p = x then 1 else 0) (g, s) (?g, s')"
    using assms(1) unfolding visits_def by (simp add: gi uses)
  moreover have "array_get (cg_use_counts g') i = Some n" using i by (simp add: array_get_def n_def)
  ultimately show ?thesis by blast
qed

lemma visit_srcs_cases:
  assumes "length (t_src t) = GGML_MAX_SRC"
  shows "visit_srcs order t = t_src t \<or> visit_srcs order t = rev (t_src t)"
proof (cases order)
  case GGML_CGRAPH_EVAL_ORDER_LEFT_TO_RIGHT
  then have "visit_srcs order t = t_src t"
    using map_nth [of "t_src t"] assms by (simp add: visit_srcs_def visit_order_def)
  then show ?thesis ..
next
  case GGML_CGRAPH_EVAL_ORDER_RIGHT_TO_LEFT
  have "visit_srcs order t = rev (t_src t)"
    using assms GGML_CGRAPH_EVAL_ORDER_RIGHT_TO_LEFT by (intro nth_equalityI) (simp_all add: visit_srcs_def visit_order_def rev_nth)
  then show ?thesis ..
qed

lemma sum_uses: "(\<Sum>x \<leftarrow> xs. if x \<noteq> 0 \<and> p = x then 1 else 0 :: int) = int (count_list (filter (\<lambda>q. q \<noteq> 0) xs) p)"
  by (induction xs) auto

lemma visit_srcs_uses:
  assumes "length (t_src t) = GGML_MAX_SRC"
  shows "set (visit_srcs order t) = set (t_src t)"
    "(\<Sum>x \<leftarrow> visit_srcs order t. if x \<noteq> 0 \<and> p = x then 1 else 0 :: int) = int (count_list (filter (\<lambda>q. q \<noteq> 0) (t_src t)) p)"
  using visit_srcs_cases [OF assms, of order] unfolding sum_uses by (auto simp: rev_filter [symmetric])

lemma fresh_case:
  assumes "heap_ok T0" "ready P F V T0 g s" "node \<notin> seen g" "node \<in> dom T0" "reach T0 node \<subseteq> V" "reach T0 node \<inter> (P \<union> F) = {}"
    and IH: "\<And>x P F g s c. x \<in> set (srcs T0 node) \<Longrightarrow> ready P F V T0 g s \<Longrightarrow> reach T0 x \<inter> (P \<union> F) = {} \<Longrightarrow> visit_ok P F c T0 x g s"
  shows "visit_ok P F c T0 node g s"
proof -
  have ht: "heap_touched T0 (st_tensors s)" and gi: "graph_inv P (st_tensors s) g" and fc: "flags_closed F (st_tensors s)"
    using assms(2) by (auto simp: ready_def)
  obtain t where t: "st_tensors s node = Some t" using assms(4) heap_touched_static(4) [OF ht] by auto
  have srcs: "srcs T0 node = filter (\<lambda>q. q \<noteq> 0) (t_src t)" using srcs_touched [OF ht t] .
  have "tensor_wf t" using heap_touched_ok [OF ht assms(1)] t by (auto simp: heap_ok_def)
  then have len: "length (t_src t) = GGML_MAX_SRC" by (simp add: tensor_wf_def)
  have nV: "node \<in> V" and nPF: "node \<notin> P" "node \<notin> F" using assms(5,6) reach_self [of node T0] by blast+
  let ?s1 = "if t_op t \<noteq> GGML_OP_NONE \<and> c then upd s node (set_flag GGML_TENSOR_FLAG_COMPUTE) else s"
  note fs = flag_step [OF t, of c]
  let ?P = "insert node P" and ?F = "insert node F" and ?R = "\<lambda>x. if x = 0 then {} else {x} :: ptr set"
  let ?E = "\<lambda>x p. if x \<noteq> 0 \<and> p = x then 1 else 0 :: int"
  have rd0: "ready P ?F V T0 g ?s1"
    using assms(2) heap_touched_trans [OF ht fs(1)] graph_inv_touched [OF gi fs(1)] flags_closed_step [OF fc fs(1) fs(5)]
    by (auto simp: ready_def)
  obtain pos where pos: "ggml_hash_find (cg_visited g) node = Some pos" "pos \<noteq> GGML_HASHSET_FULL"
      "\<not> ggml_bitset_get (hs_used (cg_visited g)) pos"
    and rd: "ready ?P ?F V T0 (mark_visited g pos node) ?s1"
    and seen1: "seen (mark_visited g pos node) = insert node (seen g)" and uses1: "uses (mark_visited g pos node) = uses g"
    and slot1: "member_slot (cg_visited (mark_visited g pos node)) node = Some pos"
      "\<forall>p \<in> seen g. member_slot (cg_visited (mark_visited g pos node)) p = member_slot (cg_visited g) p"
    by (rule mark_step [OF rd0 assms(3) nV assms(4)])
  define g1 where "g1 = mark_visited g pos node"
  have disj: "reach T0 x \<inter> (?P \<union> ?F) = {}" "reach T0 x \<subseteq> V" if "x \<in> set (srcs T0 node)" for x
    using reach_src [OF that] reach_src_no_self [OF assms(1) that] assms(5,6) by blast+
  have body: "\<exists>g'' s''. visit_src c x (g', s') = Some (g'', s'') \<and> True \<and> visits ?P ?F c T0 (?R x) (?E x) (g', s') (g'', s'')"
    if x: "x \<in> set (visit_srcs (cg_order g1) t)" and r: "ready ?P ?F V T0 g' s'" for x g' s'
  proof (cases "x = 0")
    case True
    then show ?thesis using visits_refl [OF r, of "{}" c] by (simp add: visit_src_def)
  next
    case False
    then have x': "x \<in> set (srcs T0 node)" using x srcs visit_srcs_uses(1) [OF len] by auto
    obtain p g'' s'' where v: "ggml_visit_parents_graph g' s' x c = Some (p, g'', s'')"
        "visits ?P ?F c T0 {x} (\<lambda>_. 0) (g', s') (g'', s'')" "member_slot (cg_visited g'') x = Some p"
      using IH [OF x' r disj(1) [OF x'], of c] unfolding visit_ok_def by blast
    from visits_bump [OF v(2,3)] obtain n where "array_get (cg_use_counts g'') p = Some n"
      "visits ?P ?F c T0 {x} (\<lambda>p. if p = x then 1 else 0) (g', s') (g''\<lparr>cg_use_counts := (cg_use_counts g'')[p := n + 1]\<rparr>, s'')"
      by blast
    then show ?thesis using v(1) False by (simp add: visit_src_def)
  qed
  have sub: "\<Union> (reach T0 ` ?R x) \<subseteq> V" if "x \<in> set (visit_srcs (cg_order g1) t)" for x
    using that disj(2) [of x] srcs visit_srcs_uses(1) [OF len] by simp
  note loop = foldM_visits [of "visit_srcs (cg_order g1) t" ?P ?F V T0 "\<lambda>_. True" "visit_src c" c ?R ?E, OF body rd [folded g1_def] TrueI sub]
  obtain g2 s2 where run: "foldM (visit_src c) (visit_srcs (cg_order g1) t) (g1, ?s1) = Some (g2, s2)"
    and v: "visits ?P ?F c T0 (\<Union> (?R ` set (visit_srcs (cg_order g1) t))) (\<lambda>p. \<Sum>x \<leftarrow> visit_srcs (cg_order g1) t. ?E x p) (g1, ?s1) (g2, s2)"
    using loop by blast
  have R: "\<Union> (?R ` set (visit_srcs (cg_order g1) t)) = set (srcs T0 node)" using srcs visit_srcs_uses(1) [OF len] by auto
  have v': "visits ?P ?F c T0 (set (srcs T0 node)) (\<lambda>p. int (count_list (srcs T0 node) p)) (g1, ?s1) (g2, s2)"
    using v unfolding R visit_srcs_uses(2) [OF len] srcs .
  have sub': "\<Union> (reach T0 ` set (srcs T0 node)) \<subseteq> V" using disj(2) by blast
  obtain T2 where T2: "s2 = s\<lparr>st_tensors := T2\<rparr>" "heap_touched (st_tensors s) T2" "graph_inv ?P T2 g2" "flags_closed F T2"
    "if c then \<forall>q \<in> reach T0 node. is_none T0 q \<or> computed T2 q else computed T2 = computed (st_tensors s)"
    by (rule visits_close [OF assms(1) ht fc nPF(2) t v'])
  have rd2: "ready ?P F V T0 g2 s2"
    using visits_ready [OF rd [folded g1_def] v' sub'] T2 by (simp add: ready_def)
  have seen2: "seen g2 = seen g \<union> reach T0 node"
    using visits_seen [OF v'] seen1 reach_unfold [of T0 node] by (auto simp: g1_def)
  have fin2: "set (srcs T0 node) \<subseteq> finished g2"
  proof
    fix x assume x: "x \<in> set (srcs T0 node)"
    then have "x \<in> seen g2" "x \<notin> ?P" using seen2 reach_src [OF x] reach_self [of x T0] disj(1) [OF x] by blast+
    then show "x \<in> finished g2" using T2(3) by (auto simp: graph_inv_def)
  qed
  have n2: "node \<in> seen g2" using seen2 by simp
  obtain T3 g3 where T3: "add_visited g2 s2 node = Some (g3, s2\<lparr>st_tensors := T3\<rparr>)" "heap_touched (st_tensors s2) T3"
    "computed T3 = computed (st_tensors s2)" "graph_inv P T3 g3"
    and g3: "g3 = (if is_leaf T0 node then g2\<lparr>cg_leafs := cg_leafs g2 @ [node]\<rparr> else g2\<lparr>cg_nodes := cg_nodes g2 @ [node]\<rparr>)"
    by (rule add_step [OF rd2 nV assms(4) nPF(1) n2 fin2])
  have T3': "heap_touched T2 T3" "computed T3 = computed T2" and s3: "s2\<lparr>st_tensors := T3\<rparr> = s\<lparr>st_tensors := T3\<rparr>"
    using T3(2,3) T2(1) by simp_all
  have g3s: "cg_visited g3 = cg_visited g2" "cg_use_counts g3 = cg_use_counts g2" using g3 by simp_all
  have "visits P F c T0 {node} (\<lambda>_. 0) (g, s) (g3, s\<lparr>st_tensors := T3\<rparr>)"
  proof -
    have 1: "\<exists>T'. s\<lparr>st_tensors := T3\<rparr> = s\<lparr>st_tensors := T'\<rparr> \<and> heap_touched (st_tensors s) T' \<and> graph_inv P T' g3 \<and> flags_closed F T'
        \<and> (if c then \<forall>q \<in> \<Union> (reach T0 ` {node}). is_none T0 q \<or> computed T' q else computed T' = computed (st_tensors s))"
      using heap_touched_trans [OF T2(2) T3'(1)] T3(4) T2(4,5) T3' heap_touched_static [OF T3'(1)]
      by (intro exI [of _ T3]) (simp add: flags_closed_def)
    obtain ns ls u vv where "g2 = g1\<lparr>cg_nodes := cg_nodes g1 @ ns, cg_leafs := cg_leafs g1 @ ls, cg_use_counts := u, cg_visited := vv\<rparr>"
      "hs_size vv = hs_size (cg_visited g1)" using v' unfolding visits_def by auto
    then have g3': "g3 = g\<lparr>cg_nodes := cg_nodes g @ (if is_leaf T0 node then ns else ns @ [node]),
        cg_leafs := cg_leafs g @ (if is_leaf T0 node then ls @ [node] else ls), cg_use_counts := u, cg_visited := vv\<rparr>"
      "hs_size vv = hs_size (cg_visited g)"
      using g3 by (simp_all add: g1_def mark_visited_def)
    have 2: "\<exists>ns ls u v. g3 = g\<lparr>cg_nodes := cg_nodes g @ ns, cg_leafs := cg_leafs g @ ls, cg_use_counts := u, cg_visited := v\<rparr>
        \<and> hs_size v = hs_size (cg_visited g)"
      using g3' by blast
    have 3: "\<forall>p \<in> seen g. member_slot (cg_visited g3) p = member_slot (cg_visited g) p"
      using v' slot1(2) seen1 unfolding visits_def g3s by (simp add: g1_def)
    have fin: "finite (seen g2)" using T2(3) by (auto simp: graph_inv_def hs_set_card(1))
    have d: "seen g3 - seen g = insert node (seen g2 - seen g1)" "node \<notin> seen g2 - seen g1" "finite (seen g2 - seen g1)"
      using seen1 assms(3) n2 fin by (auto simp: g3s g1_def)
    have "uses g2 p = uses g p + (\<Sum>q \<in> seen g2 - seen g1. int (count_list (srcs T0 q) p)) + int (count_list (srcs T0 node) p)" for p
      using v' uses1 unfolding visits_def g1_def by simp
    moreover have "uses g3 = uses g2" by (simp add: uses_def g3s)
    ultimately have "uses g3 p = uses g p + (\<Sum>q \<in> seen g3 - seen g. int (count_list (srcs T0 q) p))" for p
      unfolding d(1) sum.insert [OF d(3,2)] by simp
    then show ?thesis using 1 2 3 seen2 g3s(1) unfolding visits_def by simp
  qed
  moreover have "ggml_visit_parents_graph g s node c = Some (pos, g3, s\<lparr>st_tensors := T3\<rparr>)"
    using t pos run T3(1) s3 unfolding visit_unfold deref_def g1_def by (simp add: Let_def)
  moreover have "member_slot (cg_visited g3) node = Some pos"
    using v' slot1(1) seen1 unfolding visits_def g3s by (simp add: g1_def)
  moreover have "\<not> is_leaf T0 node \<longrightarrow> cg_nodes g3 \<noteq> [] \<and> last (cg_nodes g3) = node" using g3 by simp
  ultimately show ?thesis unfolding visit_ok_def by blast
qed

lemma visit_correct:
  assumes "heap_ok T0"
  shows "ready P F V T0 g s \<Longrightarrow> node \<in> dom T0 \<Longrightarrow> reach T0 node \<subseteq> V \<Longrightarrow> reach T0 node \<inter> (P \<union> F) = {} \<Longrightarrow> visit_ok P F c T0 node g s"
proof -
  obtain rank :: "ptr \<Rightarrow> nat" where rank: "\<forall>p. \<forall>q \<in> set (srcs T0 p). rank q < rank p" using heap_ok_rank [OF assms] by blast
  show "ready P F V T0 g s \<Longrightarrow> node \<in> dom T0 \<Longrightarrow> reach T0 node \<subseteq> V \<Longrightarrow> reach T0 node \<inter> (P \<union> F) = {} \<Longrightarrow> visit_ok P F c T0 node g s"
  proof (induction "rank node" arbitrary: node P F g s c rule: less_induct)
    case less
    have IH: "visit_ok P F c T0 x g s" if "x \<in> set (srcs T0 node)" "ready P F V T0 g s" "reach T0 x \<inter> (P \<union> F) = {}" for x P F g s c
      using less.hyps [of x P F g s c] that rank heap_ok_srcs(1) [OF assms that(1)] reach_src [OF that(1)] less.prems(3) by blast
    show ?case
    proof (cases "node \<in> seen g")
      case True
      from visited_case [OF assms less.prems(1) True less.prems(2-4) IH] show ?thesis .
    next
      case False
      from fresh_case [OF assms less.prems(1) False less.prems(2-4) IH] show ?thesis .
    qed
  qed
qed

section \<open>Building a graph\<close>

text \<open>
  A complete graph: the invariant with nothing pending, and use counts that are the numbers of
  occurrences as a source of a listed tensor.
\<close>

definition graph_ok :: "(ptr \<rightharpoonup> ggml_tensor) \<Rightarrow> ggml_cgraph \<Rightarrow> bool" where
  "graph_ok T g \<longleftrightarrow> graph_inv {} T g \<and> (\<forall>p. uses g p = (\<Sum>q \<in> finished g. int (count_list (srcs T q) p)))"

definition has_room :: "(ptr \<rightharpoonup> ggml_tensor) \<Rightarrow> ptr set \<Rightarrow> ggml_cgraph \<Rightarrow> bool" where
  "has_room T V g \<longleftrightarrow> finite V \<and> card V \<le> hs_size (cg_visited g)
     \<and> int (card {p \<in> V. is_leaf T p}) \<le> cg_size g \<and> int (card {p \<in> V. \<not> is_leaf T p}) \<le> cg_size g"

lemma graph_ok_seen: "graph_ok T g \<Longrightarrow> seen g = finished g"
  by (auto simp: graph_ok_def graph_inv_def)

lemma visits_new:
  assumes "visits P F c T0 X D (g, s) (g', s')" "graph_inv P' T g"
  obtains ns ls where "cg_nodes g' = cg_nodes g @ ns" "cg_leafs g' = cg_leafs g @ ls" "set ns \<subseteq> finished g' - finished g"
proof -
  obtain ns ls where a: "cg_nodes g' = cg_nodes g @ ns" "cg_leafs g' = cg_leafs g @ ls" using assms(1) unfolding visits_def by auto
  have "distinct (cg_nodes g' @ cg_leafs g')" using assms(1) unfolding visits_def by (auto simp: graph_inv_def)
  then have "set ns \<subseteq> finished g' - finished g" unfolding a finished_def by auto
  with a that show thesis by blast
qed

lemma node_at_last: "cg_nodes g \<noteq> [] \<Longrightarrow> node_at g (n_nodes g - 1) = Some (last (cg_nodes g))"
proof -
  assume ne: "cg_nodes g \<noteq> []"
  then have "nat (int (length (cg_nodes g)) - 1) = length (cg_nodes g) - 1" by simp
  then show ?thesis using ne by (simp add: n_nodes_def node_at_def array_get_def last_conv_nth)
qed

lemma build_forward_impl_correct:
  assumes "heap_ok T" "T = st_tensors s" "graph_ok T g" "flags_closed {} T" "tensor \<in> dom T" "has_room T (finished g \<union> reach T tensor) g"
  obtains g' T' where "ggml_build_forward_impl g s tensor True c = Some (g', s\<lparr>st_tensors := T'\<rparr>)"
    "heap_touched T T'" "graph_ok T' g'" "flags_closed {} T'" "finished g' = finished g \<union> reach T tensor"
    "cg_size g' = cg_size g" "hs_size (cg_visited g') = hs_size (cg_visited g)"
    "if c then \<forall>q \<in> reach T tensor. is_none T q \<or> computed T' q else computed T' = computed T"
    "\<exists>ns ls. cg_nodes g' = cg_nodes g @ ns \<and> cg_leafs g' = cg_leafs g @ ls"
proof -
  let ?V = "finished g \<union> reach T tensor"
  have gi: "graph_inv {} T g" using assms(3) by (simp add: graph_ok_def)
  note sf = graph_ok_seen [OF assms(3)]
  have rd: "ready {} {} ?V T g s" using assms sf gi by (auto simp: ready_def room_def has_room_def)
  have "visit_ok {} {} c T tensor g s" using visit_correct [OF assms(1) rd assms(5)] by simp
  then obtain pos g' s' where run: "ggml_visit_parents_graph g s tensor c = Some (pos, g', s')"
    and v: "visits {} {} c T {tensor} (\<lambda>_. 0) (g, s) (g', s')"
    and lst: "tensor \<notin> seen g \<Longrightarrow> \<not> is_leaf T tensor \<Longrightarrow> cg_nodes g' \<noteq> [] \<and> last (cg_nodes g') = tensor"
    unfolding visit_ok_def by blast
  obtain T' where T': "s' = s\<lparr>st_tensors := T'\<rparr>" "heap_touched T T'" "graph_inv {} T' g'" "flags_closed {} T'"
    "if c then \<forall>q \<in> reach T tensor. is_none T q \<or> computed T' q else computed T' = computed T"
    using v assms(2) unfolding visits_def by auto
  note st = heap_touched_static [OF T'(2)]
  have sf': "seen g' = finished g'" using T'(3) by (auto simp: graph_inv_def)
  have fin: "finished g' = finished g \<union> reach T tensor" using visits_seen [OF v] sf sf' by simp
  obtain ns ls where app: "cg_nodes g' = cg_nodes g @ ns" "cg_leafs g' = cg_leafs g @ ls" "set ns \<subseteq> finished g' - finished g"
    by (rule visits_new [OF v gi])
  have "ns = []" if "tensor \<in> seen g"
    using seen_reach [OF assms(1) rd that] fin sf app(3) by (cases ns) auto
  moreover have "ns = []" if "is_leaf T tensor"
  proof -
    have "is_none T tensor" using that by (auto simp: is_leaf_def is_none_def)
    then have "reach T tensor = {tensor}" using reach_unfold [of T tensor] heap_ok_srcs(2) [OF assms(1)] by simp
    then have "set ns \<subseteq> {tensor}" using app(3) fin by auto
    moreover have "tensor \<notin> set ns" using T'(3) that st(3) app(1) by (auto simp: graph_inv_def)
    ultimately show ?thesis by (cases ns) auto
  qed
  ultimately have "n_nodes g' - n_nodes g > 0 \<longrightarrow> node_at g' (n_nodes g' - 1) = Some tensor"
    using lst app(1) node_at_last [of g'] by (cases "tensor \<in> seen g \<or> is_leaf T tensor") (auto simp: n_nodes_def)
  then have impl: "ggml_build_forward_impl g s tensor True c = Some (g', s\<lparr>st_tensors := T'\<rparr>)"
    using run T'(1) by (simp add: ggml_build_forward_impl_def)
  have uses: "uses g' p = (\<Sum>q \<in> finished g'. int (count_list (srcs T' q) p))" for p
  proof -
    have "uses g' p = (\<Sum>q \<in> finished g. int (count_list (srcs T q) p)) + (\<Sum>q \<in> finished g' - finished g. int (count_list (srcs T q) p))"
      using visits_graph(4) [OF v] assms(3) by (simp add: graph_ok_def sf sf')
    also have "\<dots> = (\<Sum>q \<in> finished g'. int (count_list (srcs T q) p))"
      by (subst add.commute, rule sum.subset_diff [symmetric]) (use fin in blast, simp add: finished_def)
    finally show ?thesis using st(1) by simp
  qed
  have "cg_size g' = cg_size g" "hs_size (cg_visited g') = hs_size (cg_visited g)" using visits_graph(1) [OF v] by auto
  then show thesis using that [OF impl T'(2) _ T'(4) fin _ _ T'(5)] uses T'(3) app by (auto simp: graph_ok_def)
qed

text \<open>
  C8: \<^verbatim>\<open>ggml_build_forward_expand\<close> on a complete graph with room for the tensors that the given one
  depends on returns (no assertion fails, in particular the last node added is the given tensor)
  a complete graph: every tensor is listed once, nodes stand behind their sources, leafs are the
  constant tensors, every listed tensor has a name, and the use counts count the occurrences as a
  source. The listed tensors are the old ones and those the given tensor depends on, and all
  operations among the latter are marked for computation; nothing else changes in the heap.
\<close>

theorem ggml_build_forward_expand_correct:
  assumes "heap_ok (st_tensors s)" "graph_ok (st_tensors s) g" "flags_closed {} (st_tensors s)" "tensor \<in> dom (st_tensors s)"
    and "has_room (st_tensors s) (finished g \<union> reach (st_tensors s) tensor) g"
  shows "\<exists>g' T'. ggml_build_forward_expand g s tensor = Some (g', s\<lparr>st_tensors := T'\<rparr>) \<and> heap_touched (st_tensors s) T'
    \<and> graph_ok T' g' \<and> flags_closed {} T' \<and> finished g' = finished g \<union> reach (st_tensors s) tensor
    \<and> (\<forall>q \<in> reach (st_tensors s) tensor. is_none T' q \<or> computed T' q)"
proof -
  obtain g' T' where r: "ggml_build_forward_impl g s tensor True True = Some (g', s\<lparr>st_tensors := T'\<rparr>)"
    "heap_touched (st_tensors s) T'" "graph_ok T' g'" "flags_closed {} T'" "finished g' = finished g \<union> reach (st_tensors s) tensor"
    "if True then \<forall>q \<in> reach (st_tensors s) tensor. is_none (st_tensors s) q \<or> computed T' q else computed T' = computed (st_tensors s)"
    by (rule build_forward_impl_correct [OF assms(1) refl assms(2-5), of True])
  then show ?thesis
    using heap_touched_static(2) [OF r(2)] unfolding ggml_build_forward_expand_def
    by (intro exI [of _ g'] exI [of _ T']) auto
qed

section \<open>Empty graphs and an instance\<close>

lemma empty_graph_ok:
  assumes "hs_inv (cg_visited g)" "seen g = {}" "cg_nodes g = []" "cg_leafs g = []" "length (cg_use_counts g) = hs_size (cg_visited g)"
  shows "graph_ok T g"
proof -
  have "uses g p = 0" for p
    using hash.slot_member [OF assms(1), of p] assms(2) by (cases "member_slot (cg_visited g) p") (auto simp: uses_def hash.count_def)
  then show ?thesis using assms by (simp add: graph_ok_def graph_inv_def finished_def topological_def)
qed

definition sample_leaf :: ggml_tensor where
  "sample_leaf = new_tensor_desc GGML_TYPE_F32 [4, 1, 1, 1] 0 0 0"

definition sample_add :: ggml_tensor where
  "sample_add = sample_leaf\<lparr>t_op := GGML_OP_ADD, t_src := [16, 16, 0, 0, 0, 0, 0, 0, 0, 0]\<rparr>"

definition sample_heap :: "ptr \<rightharpoonup> ggml_tensor" where
  "sample_heap = [16 \<mapsto> sample_leaf, 32 \<mapsto> sample_add]"

definition sample_graph_state :: ggml_state where
  "sample_graph_state = \<lparr>st_ctx = \<lparr>c_mem_size = 0, c_mem_buffer = 0, c_mem_buffer_owned = False, c_no_alloc = True,
     c_n_objects = 0, c_objects_begin = 0, c_objects_end = 0\<rparr>, st_objects = Map.empty, st_tensors = sample_heap\<rparr>"

definition sample_graph :: ggml_cgraph where
  "sample_graph = \<lparr>cg_size = 2, cg_nodes = [], cg_grads = None, cg_grad_accs = None, cg_leafs = [],
     cg_use_counts = replicate 5 0, cg_visited = sample_hs, cg_order = GGML_CGRAPH_EVAL_ORDER_LEFT_TO_RIGHT,
     cg_uid = 0, cg_arrays = []\<rparr>"

lemma sample_heap_ok: "heap_ok sample_heap"
proof -
  have "heap_ok Map.empty" by (simp add: heap_ok_def ranked_def)
  then have "heap_ok [16 \<mapsto> sample_leaf]"
    by (rule heap_ok_extend) (simp_all add: sample_leaf_def new_tensor_desc_wf view_ok_def)
  then have "heap_ok ([16 \<mapsto> sample_leaf](32 \<mapsto> sample_add))"
    by (rule heap_ok_extend)
      (simp_all add: sample_add_def sample_leaf_def view_ok_def tensor_wf_def new_tensor_nb_def Let_def)
  then show ?thesis by (simp add: sample_heap_def fun_upd_twist)
qed

lemma sample_srcs: "srcs sample_heap 32 = [16, 16]" "srcs sample_heap 16 = []"
  by (simp_all add: srcs_def sample_heap_def sample_add_def sample_leaf_def)

lemma sample_reach: "reach sample_heap 16 = {16}" "reach sample_heap 32 = {32, 16}"
proof -
  show 16: "reach sample_heap 16 = {16}" by (subst reach_unfold) (simp add: sample_srcs)
  show "reach sample_heap 32 = {32, 16}" by (subst reach_unfold) (simp add: sample_srcs 16)
qed

lemma sample_graph_facts:
  "graph_ok sample_heap sample_graph" "finished sample_graph = {}" "flags_closed {} sample_heap"
  "has_room sample_heap {32, 16} sample_graph"
proof -
  show "graph_ok sample_heap sample_graph"
    by (rule empty_graph_ok) (simp_all add: sample_graph_def sample_hs_inv, simp add: sample_hs_def)
  show "finished sample_graph = {}" by (simp add: finished_def sample_graph_def)
  have "\<not> computed sample_heap p" for p
    by (simp add: computed_def sample_heap_def sample_add_def sample_leaf_def has_flag_def)
  then show "flags_closed {} sample_heap" by (simp add: flags_closed_def)
  have "{p \<in> {32, 16}. is_leaf sample_heap p} \<subseteq> {16}" "{p \<in> {32, 16}. \<not> is_leaf sample_heap p} \<subseteq> {32}"
    by (auto simp: is_leaf_def sample_heap_def sample_add_def sample_leaf_def has_flag_def)
  then have "card {p \<in> {32, 16}. is_leaf sample_heap p} \<le> 1" "card {p \<in> {32, 16}. \<not> is_leaf sample_heap p} \<le> 1"
    using card_mono [of "{16::ptr}"] card_mono [of "{32::ptr}"] by fastforce+
  then show "has_room sample_heap {32, 16} sample_graph" by (simp add: has_room_def sample_graph_def sample_hs_def)
qed

theorem ggml_build_forward_expand_correct_witness:
  "\<exists>g' T'. ggml_build_forward_expand sample_graph sample_graph_state 32 = Some (g', sample_graph_state\<lparr>st_tensors := T'\<rparr>)
    \<and> graph_ok T' g' \<and> finished g' = {32, 16}"
  using ggml_build_forward_expand_correct [of sample_graph_state sample_graph 32] sample_heap_ok sample_graph_facts sample_reach
  by (auto simp: sample_graph_state_def sample_heap_def)

end
