(* ===== verification/GGML_Fuse.thy ===== *)
theory GGML_Fuse
  imports GGML_Build
begin

text \<open>
  Soundness of the fusion tests. A backend that fuses operations skips the memory of the
  intermediate results; that is only right when nothing else in the graph reads them. The tests
  decide this by comparing use counts. The theorems show that on a complete graph the comparison
  means what it should: the readers of an elided tensor are among the fused operations.
\<close>

section \<open>The test for subgraphs\<close>

fun find_tensor_loop :: "ggml_cgraph \<Rightarrow> int list \<Rightarrow> int \<Rightarrow> ptr \<Rightarrow> int option" where
  "find_tensor_loop g [] i tensor = Some (- 1)"
| "find_tensor_loop g (node_idx # idxs) i tensor =
     (if node_idx \<ge> n_nodes g then Some (- 1)
      else do {
        node \<leftarrow> node_at g node_idx;
        if node = tensor then Some i else find_tensor_loop g idxs (i + 1) tensor })"

definition ggml_node_list_find_tensor :: "ggml_cgraph \<Rightarrow> int list \<Rightarrow> ptr \<Rightarrow> int option" where
  "ggml_node_list_find_tensor g idxs tensor = find_tensor_loop g idxs 0 tensor"

text \<open>How often the nodes with the given indices have \<open>node\<close> as a source.\<close>

fun subgraph_uses :: "ggml_cgraph \<Rightarrow> ggml_state \<Rightarrow> ptr \<Rightarrow> int list \<Rightarrow> int option" where
  "subgraph_uses g s node [] = Some 0"
| "subgraph_uses g s node (j # js) = do {
     other_node \<leftarrow> node_at g j;
     t \<leftarrow> deref s other_node;
     n \<leftarrow> subgraph_uses g s node js;
     Some (int (count_list (t_src t) node) + n) }"

partial_function (option) view_chain_in :: "ggml_cgraph \<Rightarrow> ggml_state \<Rightarrow> int list \<Rightarrow> ptr \<Rightarrow> bool option" where
  "view_chain_in g s node_idxs view_src =
     (if view_src = 0 then Some True
      else do {
        r \<leftarrow> ggml_node_list_find_tensor g node_idxs view_src;
        if r = - 1 then Some False
        else do {
          t \<leftarrow> deref s view_src;
          view_chain_in g s node_idxs (t_view_src t) } })"

text \<open>The body of the loop; \<open>Some False\<close> leaves it.\<close>

definition fuse_subgraph_at ::
  "ggml_cgraph \<Rightarrow> ggml_state \<Rightarrow> int list \<Rightarrow> ggml_op list \<Rightarrow> int list \<Rightarrow> nat \<Rightarrow> bool option" where
  "fuse_subgraph_at g s node_idxs ops outputs i =
     (if node_idxs ! i \<ge> n_nodes g then Some False
      else do {
        node \<leftarrow> node_at g (node_idxs ! i);
        t \<leftarrow> deref s node;
        if t_op t \<noteq> ops ! i then Some False
        else if \<not> has_flag t GGML_TENSOR_FLAG_COMPUTE then Some False
        else do {
          r \<leftarrow> ggml_node_list_find_tensor g outputs node;
          if r \<noteq> - 1 then Some True
          else if has_flag t GGML_TENSOR_FLAG_OUTPUT then Some False
          else do {
            n \<leftarrow> subgraph_uses g s node (drop (i + 1) node_idxs);
            use_count \<leftarrow> ggml_node_get_use_count g (node_idxs ! i);
            if n \<noteq> use_count then Some False
            else view_chain_in g s node_idxs (t_view_src t) } } })"

fun fuse_subgraph_loop ::
  "ggml_cgraph \<Rightarrow> ggml_state \<Rightarrow> int list \<Rightarrow> ggml_op list \<Rightarrow> int list \<Rightarrow> nat list \<Rightarrow> bool option" where
  "fuse_subgraph_loop g s node_idxs ops outputs [] = Some True"
| "fuse_subgraph_loop g s node_idxs ops outputs (i # is) = do {
     ok \<leftarrow> fuse_subgraph_at g s node_idxs ops outputs i;
     if ok then fuse_subgraph_loop g s node_idxs ops outputs is else Some False }"

text \<open>\<^verbatim>\<open>count\<close> is the length of \<^verbatim>\<open>node_idxs\<close>.\<close>

definition ggml_can_fuse_subgraph_ext ::
  "ggml_cgraph \<Rightarrow> ggml_state \<Rightarrow> int list \<Rightarrow> ggml_op list \<Rightarrow> int list \<Rightarrow> bool option" where
  "ggml_can_fuse_subgraph_ext g s node_idxs ops outputs = do {
     ggml_assert (length outputs > 0);
     fuse_subgraph_loop g s node_idxs ops outputs [0..<length node_idxs] }"

definition ggml_can_fuse_subgraph ::
  "ggml_cgraph \<Rightarrow> ggml_state \<Rightarrow> int \<Rightarrow> nat \<Rightarrow> ggml_op list \<Rightarrow> int list \<Rightarrow> bool option" where
  "ggml_can_fuse_subgraph g s node_idx cnt ops outputs = do {
     ggml_assert (cnt < 32);
     if node_idx + int cnt > n_nodes g then Some False
     else ggml_can_fuse_subgraph_ext g s (map (\<lambda>i. node_idx + int i) [0..<cnt]) ops outputs }"

section \<open>Use counts\<close>

lemma node_at_Some: "node_at g i = Some p \<longleftrightarrow> 0 \<le> i \<and> nat i < length (cg_nodes g) \<and> cg_nodes g ! nat i = p"
  by (auto simp: node_at_def array_get_def)

lemma node_at_finished: "node_at g i = Some p \<Longrightarrow> p \<in> finished g"
  by (auto simp: node_at_Some finished_def)

lemma node_at_inj: "graph_ok T g \<Longrightarrow> node_at g i = Some p \<Longrightarrow> node_at g j = Some p \<Longrightarrow> i = j"
  by (auto simp: node_at_Some graph_ok_def graph_inv_def nth_eq_iff_index_eq eq_nat_nat_iff)

lemma use_count_eq:
  assumes "graph_ok T g" "node_at g i = Some node"
  shows "ggml_node_get_use_count g i = Some (\<Sum>q \<in> finished g. int (count_list (srcs T q) node))"
proof -
  have hi: "hs_inv (cg_visited g)" and len: "length (cg_use_counts g) = hs_size (cg_visited g)"
    using assms(1) by (auto simp: graph_ok_def graph_inv_def)
  have "node \<in> seen g" using node_at_finished [OF assms(2)] graph_ok_seen [OF assms(1)] by simp
  then obtain k where k: "ggml_hash_find (cg_visited g) node = Some k" "member_slot (cg_visited g) node = Some k"
    "used_slot (cg_visited g) k" using hash_find_member [OF hi] by blast
  then have "k < hs_size (cg_visited g)" by (simp add: used_slot_def)
  moreover have "uses g node = cg_use_counts g ! k" using k(2) by (simp add: uses_def hash.count_def)
  ultimately show ?thesis
    using k assms hs_invD(5) [OF hi, of k] len
    by (simp add: ggml_node_get_use_count_def used_slot_def array_get_def graph_ok_def)
qed

lemma srcs_at: "T p = Some t \<Longrightarrow> node \<noteq> 0 \<Longrightarrow> count_list (srcs T p) node = count_list (t_src t) node"
proof -
  assume "T p = Some t" "node \<noteq> 0"
  moreover have "count_list (filter (\<lambda>q. q \<noteq> 0) xs) node = count_list xs node" if "node \<noteq> 0" for xs
    using that by (induction xs) auto
  ultimately show ?thesis by (simp add: srcs_def)
qed

lemma heap_ok_deref_nonzero: "heap_ok (st_tensors s) \<Longrightarrow> deref s p = Some t \<Longrightarrow> p \<noteq> 0"
  by (cases "p = 0") (simp_all add: heap_ok_def deref_def)

lemma finite_finished [simp]: "finite (finished g)"
  by (simp add: finished_def)

text \<open>If some readers account for the whole use count, there are no others.\<close>

lemma only_readers:
  assumes "A \<subseteq> finished g" "(\<Sum>q \<in> finished g. int (count_list (srcs T q) node)) \<le> (\<Sum>q \<in> A. int (count_list (srcs T q) node))"
    "q \<in> finished g" "node \<in> set (srcs T q)"
  shows "q \<in> A"
proof (rule ccontr)
  assume q: "q \<notin> A"
  have "finite A" using assms(1) by (rule finite_subset) simp
  then have "(\<Sum>q \<in> A. int (count_list (srcs T q) node)) + int (count_list (srcs T q) node)
      = (\<Sum>q \<in> insert q A. int (count_list (srcs T q) node))" using q by simp
  also have "\<dots> \<le> (\<Sum>q \<in> finished g. int (count_list (srcs T q) node))"
    using assms(1,3) by (intro sum_mono2) auto
  finally have "count_list (srcs T q) node = 0" using assms(2) by simp
  then show False using assms(4) by (simp add: count_list_0_iff)
qed

section \<open>Fusing a chain\<close>

lemma can_fuse_loop_True: "can_fuse_loop g s idxs ops is = Some True \<Longrightarrow> i \<in> set is \<Longrightarrow> can_fuse_at g s idxs ops i = Some True"
  by (induction "is") (auto simp: bind_eq_Some_conv split: if_splits)

lemma can_fuse_at_True:
  assumes "can_fuse_at g s idxs ops i = Some True"
  obtains node t where "node_at g (idxs ! i) = Some node" "deref s node = Some t" "t_op t = ops ! i"
    "i < length ops - 1 \<Longrightarrow> ggml_node_get_use_count g (idxs ! i) = Some 1 \<and> t_view_src t = 0 \<and> \<not> has_flag t GGML_TENSOR_FLAG_OUTPUT"
    "0 < i \<Longrightarrow> \<exists>prev tp. node_at g (idxs ! (i - 1)) = Some prev \<and> deref s prev = Some tp
       \<and> (t_src t ! 0 = prev \<or> t_src t ! 1 = prev) \<and> ggml_are_same_shape t tp"
proof -
  from assms obtain node t one where a: "node_at g (idxs ! i) = Some node" "deref s node = Some t" "t_op t = ops ! i"
    and one: "(if i < length ops - 1 then ggml_node_has_n_uses g s (idxs ! i) 1 else Some True) = Some one" "one"
    and prev: "0 < i \<Longrightarrow> \<exists>prev tp. node_at g (idxs ! (i - 1)) = Some prev \<and> deref s prev = Some tp
       \<and> (t_src t ! 0 = prev \<or> t_src t ! 1 = prev) \<and> ggml_are_same_shape t tp"
    by (auto simp: can_fuse_at_def bind_eq_Some_conv split: if_splits)
  have "ggml_node_get_use_count g (idxs ! i) = Some 1 \<and> t_view_src t = 0 \<and> \<not> has_flag t GGML_TENSOR_FLAG_OUTPUT"
    if "i < length ops - 1"
    using one that a(1,2) by (auto simp: ggml_node_has_n_uses_def bind_eq_Some_conv split: if_splits)
  then show thesis using that [OF a] prev by blast
qed

text \<open>
  C15: If \<^verbatim>\<open>ggml_can_fuse_ext\<close> accepts a sequence of nodes of a complete graph, then each node but the
  last is read by its successor in the sequence, exactly once, and by no other tensor of the graph;
  it is neither a view nor an output, and the two have the same shape.
\<close>

theorem ggml_can_fuse_ext_sound:
  assumes "heap_ok (st_tensors s)" "graph_ok (st_tensors s) g" "ggml_can_fuse_ext g s idxs ops = Some True" "Suc i < length ops"
  shows "\<exists>node succ t ts. node_at g (idxs ! i) = Some node \<and> node_at g (idxs ! Suc i) = Some succ
    \<and> deref s node = Some t \<and> deref s succ = Some ts \<and> count_list (srcs (st_tensors s) succ) node = 1
    \<and> (\<forall>q \<in> finished g. node \<in> set (srcs (st_tensors s) q) \<longrightarrow> q = succ)
    \<and> t_view_src t = 0 \<and> \<not> has_flag t GGML_TENSOR_FLAG_OUTPUT \<and> ggml_are_same_shape ts t"
proof -
  let ?T = "st_tensors s"
  have at: "can_fuse_at g s idxs ops k = Some True" if "k < length ops" for k
    using assms(3) that can_fuse_loop_True [of g s idxs ops "[0..<length ops]" k] by (simp add: ggml_can_fuse_ext_def)
  obtain node t where n: "node_at g (idxs ! i) = Some node" "deref s node = Some t"
      "ggml_node_get_use_count g (idxs ! i) = Some 1" "t_view_src t = 0" "\<not> has_flag t GGML_TENSOR_FLAG_OUTPUT"
    using can_fuse_at_True [OF at [of i]] assms(4) by (metis Suc_lessD Suc_lessE diff_Suc_1)
  obtain succ ts where sc: "node_at g (idxs ! Suc i) = Some succ" "deref s succ = Some ts"
      "t_src ts ! 0 = node \<or> t_src ts ! 1 = node" "ggml_are_same_shape ts t"
    using can_fuse_at_True [OF at [OF assms(4)]] n(1,2) by (metis diff_Suc_1 option.inject zero_less_Suc)
  have wf: "length (t_src ts) = GGML_MAX_SRC" using assms(1) sc(2) by (auto simp: heap_ok_def tensor_wf_def deref_def)
  have n0: "node \<noteq> 0" using heap_ok_deref_nonzero [OF assms(1) n(2)] .
  have sum: "(\<Sum>q \<in> finished g. int (count_list (srcs ?T q) node)) = 1" using use_count_eq [OF assms(2) n(1)] n(3) by simp
  have "node \<in> set (t_src ts)" using sc(3) wf nth_mem [of 0 "t_src ts"] nth_mem [of 1 "t_src ts"] by auto
  then have "count_list (t_src ts) node \<noteq> 0" by (simp add: count_list_0_iff)
  then have pos: "0 < count_list (srcs ?T succ) node"
    using srcs_at [of ?T succ ts node] sc(2) n0 by (simp add: deref_def)
  have sf: "succ \<in> finished g" using node_at_finished [OF sc(1)] .
  then have le: "int (count_list (srcs ?T succ) node) \<le> 1"
    using member_le_sum [of succ "finished g" "\<lambda>q. int (count_list (srcs ?T q) node)"] sum by simp
  then have one: "count_list (srcs ?T succ) node = 1" using pos by simp
  have "q = succ" if "q \<in> finished g" "node \<in> set (srcs ?T q)" for q
    using only_readers [of "{succ}" g ?T node q] sf sum one that by simp
  then show ?thesis using n sc one by blast
qed

section \<open>Fusing a subgraph\<close>

definition nodes_at :: "ggml_cgraph \<Rightarrow> int list \<Rightarrow> ptr set" where
  "nodes_at g js = {p. \<exists>j \<in> set js. node_at g j = Some p}"

lemma subgraph_uses_sum:
  assumes "graph_ok (st_tensors s) g" "node \<noteq> 0"
  shows "subgraph_uses g s node js = Some n \<Longrightarrow> distinct js
    \<Longrightarrow> n = (\<Sum>q \<in> nodes_at g js. int (count_list (srcs (st_tensors s) q) node))"
proof (induction js arbitrary: n)
  case Nil
  then show ?case by (simp add: nodes_at_def)
next
  case (Cons j js)
  then obtain p t m where p: "node_at g j = Some p" "deref s p = Some t" "subgraph_uses g s node js = Some m"
      "n = int (count_list (t_src t) node) + m" by (auto simp: bind_eq_Some_conv)
  have eq: "nodes_at g (j # js) = insert p (nodes_at g js)" using p(1) by (auto simp: nodes_at_def)
  have "p \<notin> nodes_at g js"
  proof
    assume "p \<in> nodes_at g js"
    then obtain k where "k \<in> set js" "node_at g k = Some p" by (auto simp: nodes_at_def)
    then show False using node_at_inj [OF assms(1) p(1), of k] Cons.prems(2) by auto
  qed
  moreover have "nodes_at g js \<subseteq> finished g" using node_at_finished by (auto simp: nodes_at_def)
  then have "finite (nodes_at g js)" by (rule finite_subset) simp
  ultimately show ?case
    using Cons.IH [OF p(3)] Cons.prems(2) p(2,4) srcs_at [of "st_tensors s" p t node] assms(2) by (simp add: eq deref_def)
qed

lemma fuse_subgraph_loop_True:
  "fuse_subgraph_loop g s idxs ops outputs is = Some True \<Longrightarrow> i \<in> set is \<Longrightarrow> fuse_subgraph_at g s idxs ops outputs i = Some True"
  by (induction "is") (auto simp: bind_eq_Some_conv split: if_splits)

lemma fuse_subgraph_at_True:
  assumes "fuse_subgraph_at g s idxs ops outputs i = Some True" "node_at g (idxs ! i) = Some node"
    "ggml_node_list_find_tensor g outputs node = Some (- 1)"
  shows "\<exists>n. subgraph_uses g s node (drop (i + 1) idxs) = Some n \<and> ggml_node_get_use_count g (idxs ! i) = Some n"
    "\<exists>t. deref s node = Some t \<and> \<not> has_flag t GGML_TENSOR_FLAG_OUTPUT"
  using assms by (auto simp: fuse_subgraph_at_def bind_eq_Some_conv split: if_splits)

text \<open>
  C21: If \<^verbatim>\<open>ggml_can_fuse_subgraph\<close> accepts a range of nodes of a complete graph, then each of them that
  is not listed among the outputs is read only by later nodes of the range and is not flagged as
  an output, so it need not be stored.
\<close>

theorem ggml_can_fuse_subgraph_sound:
  assumes "heap_ok (st_tensors s)" "graph_ok (st_tensors s) g" "ggml_can_fuse_subgraph g s node_idx cnt ops outputs = Some True"
    and "i < cnt" "node_at g (node_idx + int i) = Some node" "ggml_node_list_find_tensor g outputs node = Some (- 1)"
  shows "(\<forall>q \<in> finished g. node \<in> set (srcs (st_tensors s) q) \<longrightarrow> (\<exists>j. i < j \<and> j < cnt \<and> node_at g (node_idx + int j) = Some q))
    \<and> (\<exists>t. deref s node = Some t \<and> \<not> has_flag t GGML_TENSOR_FLAG_OUTPUT)"
proof -
  let ?idxs = "map (\<lambda>i. node_idx + int i) [0..<cnt]" and ?T = "st_tensors s"
  let ?js = "drop (i + 1) ?idxs"
  have "fuse_subgraph_loop g s ?idxs ops outputs [0..<cnt] = Some True"
    using assms(3) by (auto simp: ggml_can_fuse_subgraph_def ggml_can_fuse_subgraph_ext_def if_None_eq_Some split: if_splits)
  then have at: "fuse_subgraph_at g s ?idxs ops outputs i = Some True" using fuse_subgraph_loop_True assms(4) by simp
  have idx: "?idxs ! i = node_idx + int i" using assms(4) by simp
  note f = fuse_subgraph_at_True [OF at _ assms(6), unfolded idx, OF assms(5)]
  obtain t where t: "deref s node = Some t" "\<not> has_flag t GGML_TENSOR_FLAG_OUTPUT" using f(2) by blast
  have n0: "node \<noteq> 0" using heap_ok_deref_nonzero [OF assms(1) t(1)] .
  have d: "distinct ?js" by (intro distinct_drop) (simp add: distinct_map inj_on_def)
  obtain n where n: "subgraph_uses g s node ?js = Some n" "ggml_node_get_use_count g (node_idx + int i) = Some n" using f(1) by blast
  have sum: "(\<Sum>q \<in> finished g. int (count_list (srcs ?T q) node)) \<le> (\<Sum>q \<in> nodes_at g ?js. int (count_list (srcs ?T q) node))"
    using subgraph_uses_sum [OF assms(2) n0 n(1) d] use_count_eq [OF assms(2,5)] n(2) by simp
  have "\<exists>j. i < j \<and> j < cnt \<and> node_at g (node_idx + int j) = Some q" if "q \<in> finished g" "node \<in> set (srcs ?T q)" for q
  proof -
    have "nodes_at g ?js \<subseteq> finished g" using node_at_finished by (auto simp: nodes_at_def)
    then have "q \<in> nodes_at g ?js" using only_readers sum that by blast
    then show ?thesis by (auto simp: nodes_at_def drop_map Suc_le_eq)
  qed
  then show ?thesis using t by blast
qed

section \<open>Instances\<close>

text \<open>A graph of two chained operations, built by hand: leaf 16, nodes 32 and 48.\<close>

definition fuse_tensor :: "ggml_op \<Rightarrow> 32 word \<Rightarrow> ptr list \<Rightarrow> ggml_tensor" where
  "fuse_tensor op flags src = sample_leaf\<lparr>t_op := op, t_flags := flags, t_src := src, t_name := ''t''\<rparr>"

definition fuse_heap :: "ptr \<rightharpoonup> ggml_tensor" where
  "fuse_heap = [16 \<mapsto> fuse_tensor GGML_OP_NONE 0 [0, 0, 0, 0, 0, 0, 0, 0, 0, 0],
     32 \<mapsto> fuse_tensor GGML_OP_MUL 16 [16, 16, 0, 0, 0, 0, 0, 0, 0, 0],
     48 \<mapsto> fuse_tensor GGML_OP_ADD 16 [32, 16, 0, 0, 0, 0, 0, 0, 0, 0]]"

definition fuse_state :: ggml_state where
  "fuse_state = sample_graph_state\<lparr>st_tensors := fuse_heap\<rparr>"

definition fuse_hs :: ggml_hash_set where
  "fuse_hs = \<lparr>hs_size = 5, hs_used = [14], hs_keys = [0, 16, 32, 48, 0]\<rparr>"

definition fuse_graph :: ggml_cgraph where
  "fuse_graph = sample_graph\<lparr>cg_nodes := [32, 48], cg_leafs := [16], cg_use_counts := [0, 3, 1, 0, 0], cg_visited := fuse_hs\<rparr>"

lemma fuse_used: "used_slot fuse_hs i \<longleftrightarrow> i = 1 \<or> i = 2 \<or> i = 3"
proof (cases "i < 5")
  case True
  then have "i = 0 \<or> i = 1 \<or> i = 2 \<or> i = 3 \<or> i = 4" by auto
  then show ?thesis by (elim disjE) (simp_all add: used_slot_def fuse_hs_def bitset_get_bit)
next
  case False
  then show ?thesis by (auto simp: used_slot_def fuse_hs_def)
qed

lemma fuse_hs_inv: "hs_inv fuse_hs" "hs_set fuse_hs = {16, 32, 48}"
proof -
  have "\<exists>k < hs_size fuse_hs. i = probe fuse_hs (home fuse_hs (hs_keys fuse_hs ! i)) k
      \<and> (\<forall>j < k. used_slot fuse_hs (probe fuse_hs (home fuse_hs (hs_keys fuse_hs ! i)) j))" if "used_slot fuse_hs i" for i
    using that unfolding fuse_used
    by (intro exI [of _ 0]) (auto simp: fuse_hs_def probe_def home_def ggml_hash_def drop_bit_eq_div)
  moreover have "i = j" if "used_slot fuse_hs i" "used_slot fuse_hs j" "hs_keys fuse_hs ! i = hs_keys fuse_hs ! j" for i j
    using that unfolding fuse_used by (auto simp: fuse_hs_def)
  ultimately show "hs_inv fuse_hs"
    unfolding hs_inv_def by (auto simp: fuse_hs_def ggml_bitset_size_def drop_bit_5 sz_add_def)
  show "hs_set fuse_hs = {16, 32, 48}" unfolding hs_set_def fuse_used
    by (auto simp: fuse_hs_def intro: exI [of _ 1] exI [of _ 2] exI [of _ 3])
qed

lemma fuse_tensor_simps [simp]:
  "t_op (fuse_tensor op fl src) = op" "t_flags (fuse_tensor op fl src) = fl" "t_src (fuse_tensor op fl src) = src"
  "t_name (fuse_tensor op fl src) = ''t''" "t_view_src (fuse_tensor op fl src) = 0" "t_ne (fuse_tensor op fl src) = [4, 1, 1, 1]"
  "tensor_wf (fuse_tensor op fl src) \<longleftrightarrow> length src = GGML_MAX_SRC \<and> (op = GGML_OP_NONE \<longrightarrow> set src \<subseteq> {0})"
  by (simp_all add: fuse_tensor_def sample_leaf_def tensor_wf_def new_tensor_nb_def Let_def)

lemma fuse_heap_ok: "heap_ok fuse_heap"
  unfolding fuse_heap_def
  by (intro heap_ok_extend) (simp_all add: heap_ok_def [of Map.empty] ranked_def view_ok_def)

lemma fuse_srcs: "srcs fuse_heap 16 = []" "srcs fuse_heap 32 = [16, 16]" "srcs fuse_heap 48 = [32, 16]"
  by (simp_all add: srcs_def fuse_heap_def)

lemma fuse_slots:
  "member_slot fuse_hs 16 = Some 1" "member_slot fuse_hs 32 = Some 2" "member_slot fuse_hs 48 = Some 3"
  by (simp_all add: member_slot_Some [OF fuse_hs_inv(1)] fuse_used) (simp_all add: fuse_hs_def)

lemma fuse_graph_ok: "graph_ok fuse_heap fuse_graph"
proof -
  have fin: "finished fuse_graph = {32, 48, 16}" by (auto simp: finished_def fuse_graph_def)
  have leaf: "is_leaf fuse_heap p \<longleftrightarrow> p = 16" if "p \<in> {32, 48, 16}" for p
    using that by (auto simp: is_leaf_def fuse_heap_def has_flag_def)
  have nm: "named fuse_heap p" if "p \<in> {32, 48, 16}" for p
    using that by (auto simp: named_def fuse_heap_def)
  have top: "topological fuse_heap [32, 48] {16}"
    by (auto simp: topological_def less_Suc_eq fuse_srcs)
  have uses: "uses fuse_graph p = (\<Sum>q \<in> finished fuse_graph. int (count_list (srcs fuse_heap q) p))" for p
  proof (cases "p \<in> {16, 32, 48}")
    case True
    then show ?thesis unfolding fin by (auto simp: uses_def hash.count_def fuse_graph_def fuse_slots fuse_srcs)
  next
    case False
    then have "member_slot fuse_hs p = None" using fuse_hs_inv(2) by (simp add: member_slot_def)
    then show ?thesis using False unfolding fin by (auto simp: uses_def hash.count_def fuse_graph_def fuse_srcs)
  qed
  have "graph_inv {} fuse_heap fuse_graph"
    unfolding graph_inv_def fin using fuse_hs_inv leaf nm top
    by (auto simp: fuse_graph_def) (simp_all add: fuse_hs_def fuse_heap_def)
  then show ?thesis using uses by (simp add: graph_ok_def)
qed

lemma fuse_find: "ggml_hash_find fuse_hs 32 = Some 2" "ggml_hash_find fuse_hs 48 = Some 3"
  using hash_find_member [OF fuse_hs_inv(1), of 32] hash_find_member [OF fuse_hs_inv(1), of 48] fuse_hs_inv(2) fuse_slots
  by (metis insertI1 insertI2 option.inject)+

lemma fuse_nodes: "node_at fuse_graph 0 = Some 32" "node_at fuse_graph 1 = Some 48" "n_nodes fuse_graph = 2"
  by (simp_all add: node_at_def array_get_def fuse_graph_def n_nodes_def)

lemma fuse_deref: "deref fuse_state 32 = Some (fuse_tensor GGML_OP_MUL 16 [16, 16, 0, 0, 0, 0, 0, 0, 0, 0])"
  "deref fuse_state 48 = Some (fuse_tensor GGML_OP_ADD 16 [32, 16, 0, 0, 0, 0, 0, 0, 0, 0])"
  "st_tensors fuse_state = fuse_heap"
  by (simp_all add: deref_def fuse_state_def fuse_heap_def)

lemma fuse_use_count: "ggml_node_get_use_count fuse_graph 0 = Some 1"
proof -
  have "finished fuse_graph = {32, 48, 16}" by (auto simp: finished_def fuse_graph_def)
  then show ?thesis by (simp add: use_count_eq [OF fuse_graph_ok fuse_nodes(1)] fuse_srcs)
qed

theorem ggml_can_fuse_ext_sound_witness:
  "ggml_can_fuse_ext fuse_graph fuse_state [0, 1] [GGML_OP_MUL, GGML_OP_ADD] = Some True
   \<and> {q \<in> finished fuse_graph. 32 \<in> set (srcs fuse_heap q)} \<subseteq> {48}"
proof -
  have run: "ggml_can_fuse_ext fuse_graph fuse_state [0, 1] [GGML_OP_MUL, GGML_OP_ADD] = Some True"
    by (simp add: ggml_can_fuse_ext_def can_fuse_at_def ggml_node_has_n_uses_def fuse_nodes fuse_deref fuse_use_count
        has_flag_def ggml_are_same_shape_def)
  then show ?thesis
    using ggml_can_fuse_ext_sound [of fuse_state fuse_graph "[0, 1]" "[GGML_OP_MUL, GGML_OP_ADD]" 0] fuse_heap_ok fuse_graph_ok
    by (auto simp: fuse_deref(3) fuse_nodes)
qed

theorem ggml_can_fuse_subgraph_sound_witness:
  "ggml_can_fuse_subgraph fuse_graph fuse_state 0 2 [GGML_OP_MUL, GGML_OP_ADD] [1] = Some True
   \<and> {q \<in> finished fuse_graph. 32 \<in> set (srcs fuse_heap q)} \<subseteq> {q. \<exists>j. 0 < j \<and> j < 2 \<and> node_at fuse_graph (0 + int j) = Some q}"
proof -
  have find: "ggml_node_list_find_tensor fuse_graph [1] 32 = Some (- 1)" "ggml_node_list_find_tensor fuse_graph [1] 48 = Some 0"
    by (simp_all add: ggml_node_list_find_tensor_def fuse_nodes)
  have run: "ggml_can_fuse_subgraph fuse_graph fuse_state 0 2 [GGML_OP_MUL, GGML_OP_ADD] [1] = Some True"
    by (simp add: ggml_can_fuse_subgraph_def ggml_can_fuse_subgraph_ext_def fuse_subgraph_at_def fuse_nodes fuse_deref fuse_use_count
        has_flag_def find view_chain_in.simps numeral_2_eq_2 [symmetric] upt_rec)
  then show ?thesis
    using ggml_can_fuse_subgraph_sound [of fuse_state fuse_graph 0 2 "[GGML_OP_MUL, GGML_OP_ADD]" "[1]" 0 32] fuse_heap_ok fuse_graph_ok find
    by (auto simp add: fuse_deref(3) fuse_nodes)
qed

end
