(* ===== verification/GGML_Pool.thy ===== *)
theory GGML_Pool
  imports GGML_Heap
begin

text \<open>
  Properties of contexts: the pool is a range allocator (it satisfies the same contract as the
  dynamic allocator, without returns), initialisation establishes the invariant, a new tensor is
  packed and lies in its own part of the pool, and the iteration functions visit the tensors of a
  context in creation order.
\<close>

section \<open>New tensors are packed\<close>

lemma new_nb:
  assumes "dims_pos t" "packed_size t \<le> SIZE_MAX" "t_nb t = new_tensor_nb (t_type t) (t_ne t)"
  shows "t_nb t ! 0 = ggml_type_size (t_type t)" "t_nb t ! 1 = ggml_type_size (t_type t) * dim t 0"
    "t_nb t ! 2 = ggml_type_size (t_type t) * dim t 0 * dim t 1"
    "t_nb t ! 3 = ggml_type_size (t_type t) * dim t 0 * dim t 1 * dim t 2"
proof -
  note p = dims_posD [OF assms(1)] and m = packed_prefixes [OF assms(1,2)]
  have c: "sz_of_int (t_ne t ! 1) = dim t 1" "sz_of_int (t_ne t ! 2) = dim t 2"
    using p by (auto simp: sz_of_int_id dim_def)
  have "dim t 0 \<le> nat (t_ne t ! 0)" by (simp add: dim_def)
  then have s0: "sz_of_int (t_ne t ! 0 sdiv ggml_blck_size (t_type t)) = dim t 0"
    using p(1,5) by (simp add: dim_0(3) [OF assms(1)] sz_of_int_id)
  have e: "sz_mul (ggml_type_size (t_type t)) (dim t 0) = ggml_type_size (t_type t) * dim t 0"
    "sz_mul (ggml_type_size (t_type t) * dim t 0) (dim t 1) = ggml_type_size (t_type t) * dim t 0 * dim t 1"
    "sz_mul (ggml_type_size (t_type t) * dim t 0 * dim t 1) (dim t 2)
       = ggml_type_size (t_type t) * dim t 0 * dim t 1 * dim t 2"
    using m by (simp_all add: sz_mul_id)
  have nb: "t_nb t = [ggml_type_size (t_type t), ggml_type_size (t_type t) * dim t 0,
      ggml_type_size (t_type t) * dim t 0 * dim t 1, ggml_type_size (t_type t) * dim t 0 * dim t 1 * dim t 2]"
    unfolding assms(3) new_tensor_nb_def Let_def s0 c e by (rule refl)
  show "t_nb t ! 0 = ggml_type_size (t_type t)" "t_nb t ! 1 = ggml_type_size (t_type t) * dim t 0"
    "t_nb t ! 2 = ggml_type_size (t_type t) * dim t 0 * dim t 1"
    "t_nb t ! 3 = ggml_type_size (t_type t) * dim t 0 * dim t 1 * dim t 2"
    unfolding nb by simp_all
qed

lemma span_packed:
  fixes s a b c d :: nat
  assumes "0 < a" "0 < b" "0 < c" "0 < d"
  shows "(a - 1) * s + (b - 1) * (s * a) + (c - 1) * (s * a * b) + (d - 1) * (s * a * b * c) + s = s * a * b * c * d"
  using assms by (cases a; cases b; cases c; cases d) (simp_all add: algebra_simps)

lemma packed_props:
  assumes "dims_pos t" "packed_size t \<le> SIZE_MAX" "t_nb t = new_tensor_nb (t_type t) (t_ne t)"
    and "nat (t_ne t ! 0) * ggml_type_size (t_type t) \<le> SIZE_MAX"
  shows "ggml_is_contiguous t" "ggml_nbytes t = packed_size t"
proof -
  note nb = new_nb [OF assms(1-3)]
  show "ggml_is_contiguous t" unfolding is_contiguous_iff [OF assms(1,2)] nb by simp
  have "tensor_span t = packed_size t"
    unfolding tensor_span_def elem_offset_def nb packed_size_def
    using span_packed [OF dim_pos [OF assms(1)], of "ggml_type_size (t_type t)"] by simp
  then show "ggml_nbytes t = packed_size t"
    using nbytes_eq_span [OF assms(1)] assms(2,4) nb(1) by simp
qed

lemma data_size_loop_ones: "x \<le> SIZE_MAX \<Longrightarrow> data_size_loop (ns @ replicate k 1) x = data_size_loop ns x"
proof (induction ns arbitrary: x)
  case Nil
  have "data_size_loop (replicate k 1) x = x"
    using Nil by (induction k) (simp_all add: sz_of_int_def sz_mul_id)
  then show ?case by simp
qed simp

lemma request_bytes_pad:
  "0 < length dims \<Longrightarrow> request_bytes ty (pad_dims dims) = request_bytes ty dims"
  by (cases dims) (simp_all add: request_bytes_def pad_dims_def data_size_loop_ones ggml_row_size_le)

lemma request_bytes_packed:
  assumes "dims_pos t" "packed_size t \<le> SIZE_MAX" "length (t_ne t) = GGML_MAX_DIMS"
    and "nat (t_ne t ! 0) * ggml_type_size (t_type t) \<le> SIZE_MAX"
  shows "request_bytes (t_type t) (t_ne t) = packed_size t"
proof -
  note p = dims_posD [OF assms(1)] and m = packed_prefixes [OF assms(1,2)]
  obtain n0 n1 n2 n3 where ne: "t_ne t = [n0, n1, n2, n3]"
    using assms(3) by (auto simp: numeral_eq_Suc length_Suc_conv)
  have "t_ne t ! 0 = int (dim t 0) * ggml_blck_size (t_type t)"
    using dim_0(1) [OF assms(1)] p(1) by (simp add: ggml_blck_size_def flip: of_nat_mult)
  moreover have "int (ggml_type_size (t_type t)) * t_ne t ! 0 < 2 ^ 64"
  proof -
    have "int (nat (t_ne t ! 0) * ggml_type_size (t_type t)) \<le> int SIZE_MAX" using assms(4) by (simp only: of_nat_le_iff)
    then show ?thesis using p(1) by (simp add: mult.commute)
  qed
  ultimately have r: "ggml_row_size (t_type t) (t_ne t ! 0) = ggml_type_size (t_type t) * dim t 0"
    using ggml_row_size_blocks [of "int (dim t 0)" "t_type t"] by simp
  have d: "sz_of_int n1 = dim t 1" "sz_of_int n2 = dim t 2" "sz_of_int n3 = dim t 3"
    using p by (simp_all add: dim_def ne sz_of_int_id)
  show ?thesis
    using m assms(2) r unfolding request_bytes_def packed_size_def by (simp add: ne d sz_mul_id)
qed

section \<open>The pool as a range allocator\<close>

definition pool_end :: "ggml_state \<Rightarrow> nat" where
  "pool_end s = (if c_objects_end (st_ctx s) = 0 then 0
     else case st_objects s (c_objects_end (st_ctx s)) of Some ob \<Rightarrow> o_offs ob + o_size ob | None \<Rightarrow> 0)"

lemma pool_end_eq: "pool_objs s xs e \<Longrightarrow> pool_end s = e"
  using obj_chain_last [of "st_objects s" "c_mem_buffer (st_ctx s)" "c_objects_begin (st_ctx s)" 0 xs e]
    pool_objs_end_nonzero [of s xs e]
  by (cases "xs = []") (auto simp: pool_end_def pool_objs_def)

text \<open>\<^verbatim>\<open>ggml_new_object\<close> for a client that treats a null result as a failure; nothing is returned to a pool.\<close>

definition pool_request :: "ggml_object_type \<Rightarrow> ggml_state \<Rightarrow> size_t \<Rightarrow> (ggml_state \<times> ptr) option" where
  "pool_request type s n =
     (case ggml_new_object s type n of
        Some (x, s') \<Rightarrow> if x = 0 then None else Some (s', x)
      | None \<Rightarrow> None)"

definition object_cells :: "ptr \<Rightarrow> size_t \<Rightarrow> ptr set" where
  "object_cells x n = {x ..< x + GGML_OBJECT_SIZE + GGML_PAD n GGML_MEM_ALIGN}"

definition pool_avail :: "ggml_state \<Rightarrow> ptr set" where
  "pool_avail s = {c_mem_buffer (st_ctx s) + pool_end s ..< c_mem_buffer (st_ctx s) + c_mem_size (st_ctx s)}"

definition in_pool_range :: "ggml_state \<Rightarrow> ptr \<Rightarrow> size_t \<Rightarrow> bool" where
  "in_pool_range s x n \<longleftrightarrow> c_mem_buffer (st_ctx s) \<le> x \<and> GGML_MEM_ALIGN dvd x
     \<and> x + GGML_OBJECT_SIZE + GGML_PAD n GGML_MEM_ALIGN \<le> c_mem_buffer (st_ctx s) + c_mem_size (st_ctx s)"

lemma pool_request_Some:
  assumes "pool_objs s xs e" "pool_request type s n = Some (s', x)"
  shows "n \<le> SIZE_MAX - 15" "x = c_mem_buffer (st_ctx s) + e"
    "e + GGML_PAD n GGML_MEM_ALIGN + GGML_OBJECT_SIZE \<le> c_mem_size (st_ctx s)"
    "s' = push_object s e type (GGML_PAD n GGML_MEM_ALIGN)"
    "pool_objs s' (xs @ [x]) (e + GGML_OBJECT_SIZE + GGML_PAD n GGML_MEM_ALIGN)"
proof -
  show 1: "n \<le> SIZE_MAX - 15" "x = c_mem_buffer (st_ctx s) + e"
    and 2: "e + GGML_PAD n GGML_MEM_ALIGN + GGML_OBJECT_SIZE \<le> c_mem_size (st_ctx s)"
    and 3: "s' = push_object s e type (GGML_PAD n GGML_MEM_ALIGN)"
    using assms(2) unfolding pool_request_def new_object_eq [OF assms(1)] by (auto split: if_splits)
  show "pool_objs s' (xs @ [x]) (e + GGML_OBJECT_SIZE + GGML_PAD n GGML_MEM_ALIGN)"
    unfolding 3 1(2) by (rule push_object_pool [OF assms(1) GGML_PAD_16(3) [OF 1(1)] 2])
qed

interpretation pool: range_allocator
  "pool_request type" "\<lambda>_ _ _. None" pool_inv "\<lambda>n. n \<le> SIZE_MAX - 15" pool_avail object_cells in_pool_range
  for type
proof (unfold_locales, goal_cases)
  case (1 s n s' a)
  then show ?case using pool_request_Some(5) unfolding pool_inv_def by blast
next
  case (2 s n s' a)
  then obtain xs e where "pool_objs s xs e" by (auto simp: pool_inv_def)
  then show ?case using pool_request_Some [OF _ 2(3)] pool_end_eq by (fastforce simp: object_cells_def pool_avail_def)
next
  case (3 s n s' a)
  then obtain xs e where p: "pool_objs s xs e" by (auto simp: pool_inv_def)
  note r = pool_request_Some [OF p 3(3)]
  show ?case using pool_end_eq [OF p] pool_end_eq [OF r(5)] r(2,4) by (auto simp: object_cells_def pool_avail_def)
next
  case (4 s n s' a)
  then obtain xs e where p: "pool_objs s xs e" by (auto simp: pool_inv_def)
  note r = pool_request_Some [OF p 4(3)]
  have "GGML_MEM_ALIGN dvd e" "GGML_MEM_ALIGN dvd c_mem_buffer (st_ctx s)"
    using p obj_chain_aligned [of "st_objects s"] by (auto simp: pool_objs_def)
  then show ?case using r(2-4) by (simp add: in_pool_range_def)
next
  case (5 s n s' a b m)
  then obtain xs e where p: "pool_objs s xs e" by (auto simp: pool_inv_def)
  show ?case using 5(4) pool_request_Some(4) [OF p 5(3)] by (simp add: in_pool_range_def)
qed simp_all

section \<open>Initialisation\<close>

lemma pool_inv_init:
  assumes "ggml_init memalign s0 params = Some s"
    and "c_mem_buffer (st_ctx s) + c_mem_size (st_ctx s) \<le> SIZE_MAX"
  shows "pool_objs s [] 0"
  using assms by (auto simp: ggml_init_def run_simps pool_objs_def mod_eq_0_iff_dvd)

lemma forget_pool_id:
  assumes "\<And>p. p \<in> dom T \<Longrightarrow> p < c_mem_buffer c \<or> c_mem_buffer c + c_mem_size c \<le> p"
  shows "forget_pool c T = T"
proof
  fix p show "forget_pool c T p = T p"
    using assms [of p] by (cases "T p") (auto simp: forget_pool_def restrict_map_def)
qed

lemma ctx_inv_init:
  assumes "ggml_init memalign s0 params = Some s" "heap_ok (st_tensors s0)"
    and "c_mem_buffer (st_ctx s) + c_mem_size (st_ctx s) \<le> SIZE_MAX"
    and "\<And>p. p \<in> dom (st_tensors s0) \<Longrightarrow> \<not> in_pool s p"
  shows "ctx_inv s" "st_tensors s = st_tensors s0"
proof -
  have f: "st_tensors s = forget_pool (st_ctx s) (st_tensors s0)" and n: "c_n_objects (st_ctx s) = 0"
    using assms(1) by (auto simp: ggml_init_def run_simps)
  show e: "st_tensors s = st_tensors s0"
    using assms(4) unfolding f in_pool_def by (intro forget_pool_id) (meson not_less)
  have "ctx_objs s [] 0"
    using pool_inv_init [OF assms(1,3)] assms(2,4) n unfolding ctx_objs_def e by (auto simp: pool_tensors_def)
  then show "ctx_inv s" by (auto simp: ctx_inv_def)
qed

section \<open>Iteration\<close>

lemma find_object_chain:
  assumes "obj_chain (st_objects s) base p pos xs e" "base = c_mem_buffer (st_ctx s)" "base + e \<le> SIZE_MAX" "0 < base"
    and "\<And>x. x \<in> set xs \<Longrightarrow> is_tensor_obj s x \<Longrightarrow> x + GGML_OBJECT_SIZE \<in> dom (st_tensors s)"
  shows "find_object s P p = Some (case find (\<lambda>q. P (the (st_tensors s q))) (pool_tensors s xs) of None \<Rightarrow> 0 | Some q \<Rightarrow> q)"
  using assms
proof (induction xs arbitrary: p pos)
  case Nil
  then show ?case by (simp add: find_object.simps pool_tensors_def)
next
  case (Cons x xs)
  obtain ob where ob: "st_objects s x = Some ob" "o_offs ob = pos + GGML_OBJECT_SIZE" "p = x" "x = base + pos"
    and c: "obj_chain (st_objects s) base (o_next ob) (pos + GGML_OBJECT_SIZE + o_size ob) xs e"
    using Cons.prems(1) by auto
  have IH: "find_object s P (o_next ob) = Some (case find (\<lambda>q. P (the (st_tensors s q))) (pool_tensors s xs) of None \<Rightarrow> 0 | Some q \<Rightarrow> q)"
    using Cons.IH [OF c Cons.prems(2-4)] Cons.prems(5) by simp
  have "pos + GGML_OBJECT_SIZE + o_size ob \<le> e" using obj_chain_bounds [OF c] by simp
  then have add: "sz_add (c_mem_buffer (st_ctx s)) (o_offs ob) = x + GGML_OBJECT_SIZE"
    using Cons.prems(2,3) ob by (simp add: sz_add_id)
  have x0: "x \<noteq> 0" using ob(4) Cons.prems(4) by simp
  show ?case
  proof (cases "is_tensor_obj s x")
    case True
    then obtain t where t: "st_tensors s (x + GGML_OBJECT_SIZE) = Some t" using Cons.prems(5) [of x] by auto
    have ty: "o_type ob = GGML_OBJECT_TYPE_TENSOR" using True ob(1) by (simp add: is_tensor_obj_def)
    show ?thesis
      unfolding ob(3) find_object.simps [of s P x]
      using True x0 ob(1) ty add t IH by (simp add: deref_def pool_tensors_def)
  next
    case False
    then have ty: "o_type ob \<noteq> GGML_OBJECT_TYPE_TENSOR" using ob(1) by (simp add: is_tensor_obj_def)
    show ?thesis
      unfolding ob(3) find_object.simps [of s P x]
      using False x0 ob(1) ty IH by (simp add: pool_tensors_def)
  qed
qed

lemma obj_chain_split:
  "obj_chain m base p pos (xs @ x # ys) e \<Longrightarrow> \<exists>ob pos'. m x = Some ob \<and> obj_chain m base (o_next ob) pos' ys e"
proof (induction xs arbitrary: p pos)
  case Nil
  then show ?case by auto
next
  case (Cons a xs)
  then show ?case by auto
qed

lemma ctx_objs_chain:
  assumes "ctx_objs s xs e"
  shows "obj_chain (st_objects s) (c_mem_buffer (st_ctx s)) (c_objects_begin (st_ctx s)) 0 xs e"
    "c_mem_buffer (st_ctx s) + e \<le> SIZE_MAX" "0 < c_mem_buffer (st_ctx s)"
    "\<And>x. x \<in> set xs \<Longrightarrow> is_tensor_obj s x \<Longrightarrow> x + GGML_OBJECT_SIZE \<in> dom (st_tensors s)"
  using assms by (auto simp: ctx_objs_def pool_objs_def pool_tensors_def)

lemma first_tensor_eq:
  assumes "ctx_objs s xs e"
  shows "ggml_get_first_tensor s = Some (case pool_tensors s xs of [] \<Rightarrow> 0 | q # _ \<Rightarrow> q)"
  using find_object_chain [OF ctx_objs_chain(1) [OF assms] refl ctx_objs_chain(2-4) [OF assms], of "\<lambda>_. True"]
  unfolding ggml_get_first_tensor_def by (cases "pool_tensors s xs") simp_all

lemma filter_split: "filter P xs = ys @ y # zs \<Longrightarrow> \<exists>us vs. xs = us @ y # vs \<and> filter P vs = zs"
proof (induction xs arbitrary: ys)
  case (Cons x xs)
  show ?case
  proof (cases "P x \<and> ys = []")
    case True
    then have "x # xs = [] @ y # xs \<and> filter P xs = zs" using Cons.prems by simp
    then show ?thesis by blast
  next
    case False
    then obtain us vs where "xs = us @ y # vs \<and> filter P vs = zs"
      using Cons.IH [of ys] Cons.IH [of "tl ys"] Cons.prems by (cases ys) (auto split: if_splits)
    then have "x # xs = (x # us) @ y # vs \<and> filter P vs = zs" by simp
    then show ?thesis by blast
  qed
qed simp

lemma pool_tensors_ge: "q \<in> set (pool_tensors s xs) \<Longrightarrow> GGML_OBJECT_SIZE \<le> q"
  by (auto simp: pool_tensors_def)

lemma next_tensor_eq:
  assumes "ctx_objs s xs e" "pool_tensors s xs = qs @ q # rs"
  shows "ggml_get_next_tensor s q = Some (case rs of [] \<Rightarrow> 0 | r # _ \<Rightarrow> r)"
proof -
  have "filter (is_tensor_obj s) xs = map (\<lambda>q. q - GGML_OBJECT_SIZE) (pool_tensors s xs)"
    by (simp add: pool_tensors_def comp_def)
  then have "filter (is_tensor_obj s) xs = map (\<lambda>q. q - GGML_OBJECT_SIZE) qs @ (q - GGML_OBJECT_SIZE) # map (\<lambda>q. q - GGML_OBJECT_SIZE) rs"
    using assms(2) by simp
  then obtain us vs where us: "xs = us @ (q - GGML_OBJECT_SIZE) # vs" "filter (is_tensor_obj s) vs = map (\<lambda>q. q - GGML_OBJECT_SIZE) rs"
    using filter_split by metis
  have q: "GGML_OBJECT_SIZE \<le> q" "q \<le> SIZE_MAX"
  proof -
    have "q \<in> set (pool_tensors s xs)" using assms(2) by simp
    then obtain x where x: "q = x + GGML_OBJECT_SIZE" "x \<in> set xs" by (auto simp: pool_tensors_def)
    then show "GGML_OBJECT_SIZE \<le> q" "q \<le> SIZE_MAX"
      using obj_chain_bounds [OF ctx_objs_chain(1) [OF assms(1)]] ctx_objs_chain(2) [OF assms(1)] by fastforce+
  qed
  have rs: "pool_tensors s vs = rs"
  proof -
    have "\<forall>r \<in> set rs. GGML_OBJECT_SIZE \<le> r" using assms(2) by (metis UnCI in_set_conv_decomp le_add2 list.set_intros(2) pool_tensors_ge set_append)
    then show ?thesis unfolding pool_tensors_def us(2) by (induction rs) auto
  qed
  obtain ob pos where ob: "st_objects s (q - GGML_OBJECT_SIZE) = Some ob"
    and c: "obj_chain (st_objects s) (c_mem_buffer (st_ctx s)) (o_next ob) pos vs e"
    using obj_chain_split ctx_objs_chain(1) [OF assms(1)] unfolding us(1) by metis
  have "find_object s (\<lambda>_. True) (o_next ob) = Some (case rs of [] \<Rightarrow> 0 | r # _ \<Rightarrow> r)"
    using find_object_chain [OF c refl ctx_objs_chain(2-3) [OF assms(1)], of "\<lambda>_. True"] ctx_objs_chain(4) [OF assms(1)]
    unfolding us(1) rs by (cases rs) simp_all
  then show ?thesis using ob q by (simp add: ggml_get_next_tensor_def sz_sub_id)
qed

text \<open>
  \<open>iterates s ts\<close>: \<^verbatim>\<open>ggml_get_first_tensor\<close> and repeated \<^verbatim>\<open>ggml_get_next_tensor\<close> yield the list \<open>ts\<close>. The
  order is that of the addresses, and a pool only grows upwards.
\<close>

definition iterates :: "ggml_state \<Rightarrow> ptr list \<Rightarrow> bool" where
  "iterates s ts \<longleftrightarrow> ggml_get_first_tensor s = Some (case ts of [] \<Rightarrow> 0 | q # _ \<Rightarrow> q)
    \<and> (\<forall>qs q rs. ts = qs @ q # rs \<longrightarrow> ggml_get_next_tensor s q = Some (case rs of [] \<Rightarrow> 0 | r # _ \<Rightarrow> r))"

lemma iterates_pool: "ctx_objs s xs e \<Longrightarrow> iterates s (pool_tensors s xs)"
  using first_tensor_eq [of s xs e] next_tensor_eq [of s xs e] by (simp add: iterates_def)

lemma obj_chain_sorted: "obj_chain m base p pos xs e \<Longrightarrow> sorted xs"
proof (induction m base p pos xs e rule: obj_chain.induct)
  case (2 m base p pos x xs e)
  then obtain ob where ob: "x = base + pos" "m x = Some ob" "obj_chain m base (o_next ob) (pos + GGML_OBJECT_SIZE + o_size ob) xs e"
    by auto
  have "\<forall>y \<in> set xs. x \<le> y" using obj_chain_bounds [OF ob(3)] ob(1) by fastforce
  then show ?case using 2(1) [OF ob(3)] by auto
qed simp

lemma pool_tensors_sorted:
  assumes "ctx_objs s xs e" shows "sorted (pool_tensors s xs)"
proof -
  have "sorted xs" using obj_chain_sorted ctx_objs_chain(1) [OF assms] by blast
  then have "sorted (filter (is_tensor_obj s) xs)" using sorted_filter [of id] by simp
  then show ?thesis by (simp add: pool_tensors_def sorted_map_same monoI sorted_iff_nth_mono)
qed

lemma pool_tensors_distinct: "ctx_objs s xs e \<Longrightarrow> distinct (pool_tensors s xs)"
  using obj_chain_distinct [of "st_objects s"]
  by (auto simp: pool_tensors_def distinct_map ctx_objs_def pool_objs_def inj_on_def)

lemma new_tensor_last:
  assumes "ctx_objs s xs e" "ggml_new_tensor_impl s ty nd ne vs vo = Some (r, s')" "nat nd \<le> length ne"
    and "ctx_objs s' xs' e'"
  shows "pool_tensors s' xs' = pool_tensors s xs @ [r]"
proof -
  obtain t n where r: "r = c_mem_buffer (st_ctx s) + e + GGML_OBJECT_SIZE" and g: "grows s r t s'"
    and fit: "e + GGML_PAD (GGML_TENSOR_SIZE + n) GGML_MEM_ALIGN + GGML_OBJECT_SIZE \<le> c_mem_size (st_ctx s)"
    and n: "n \<le> SIZE_MAX - 15 - GGML_TENSOR_SIZE"
    using new_tensor_impl_eq [OF assms(1-3)] by metis
  have "GGML_TENSOR_SIZE + n \<le> GGML_PAD (GGML_TENSOR_SIZE + n) GGML_MEM_ALIGN" using GGML_PAD_16(1) n by simp
  then have inp: "in_pool s r" using fit by (simp add: in_pool_def r)
  have lt: "q < r" if q: "q \<in> set (pool_tensors s xs)" for q
  proof -
    obtain x where x: "x \<in> set xs" "q = x + GGML_OBJECT_SIZE" using q by (auto simp: pool_tensors_def)
    moreover have "pool_objs s xs e" using assms(1) by (simp add: ctx_objs_def)
    ultimately show ?thesis using pool_objs_bounds(2) [of s xs e x] by (simp add: r)
  qed
  have "set (pool_tensors s' xs') = {p \<in> dom (st_tensors s'). in_pool s' p}" using assms(4) by (simp add: ctx_objs_def)
  also have "\<dots> = insert r {p \<in> dom (st_tensors s). in_pool s p}"
    using g inp by (auto simp: grows_def extends_def in_pool_def)
  finally have "set (pool_tensors s' xs') = set (pool_tensors s xs @ [r])" using assms(1) by (simp add: ctx_objs_def)
  moreover have "sorted (pool_tensors s xs @ [r])" "distinct (pool_tensors s xs @ [r])"
    using pool_tensors_sorted [OF assms(1)] pool_tensors_distinct [OF assms(1)] lt by (auto simp: sorted_append less_imp_le)
  ultimately show ?thesis
    using sorted_distinct_set_unique pool_tensors_sorted [OF assms(4)] pool_tensors_distinct [OF assms(4)] by blast
qed

section \<open>Properties\<close>

text \<open>
  C12: objects placed in a pool by \<^verbatim>\<open>ggml_new_object\<close>, in any number and of any size, never
  overlap: starting from a freshly initialised context, the memory of two objects (header and
  padded body) is disjoint, lies within the pool and starts at a multiple of the alignment.
\<close>

theorem ggml_pool_no_overlap:
  assumes "ggml_init memalign s0 params = Some s"
    and "c_mem_buffer (st_ctx s) + c_mem_size (st_ctx s) \<le> SIZE_MAX"
    and "run_client (pool_request type) (\<lambda>_ _ _. None) ops (s, []) = Some (s', live)"
    and "requests_ok (\<lambda>n. n \<le> SIZE_MAX - 15) ops"
    and "i < length live" "j < length live" "i \<noteq> j"
  shows "object_cells (fst (live ! i)) (snd (live ! i)) \<inter> object_cells (fst (live ! j)) (snd (live ! j)) = {}
    \<and> in_pool_range s' (fst (live ! i)) (snd (live ! i))"
proof -
  have inv: "pool_inv s" using pool_inv_init [OF assms(1,2)] by (auto simp: pool_inv_def)
  have mem: "(fst (live ! i), snd (live ! i)) \<in> set live" using assms(5) by simp
  show ?thesis
    using pool.run_client_disjoint [OF assms(3) inv assms(4-7)] pool.run_client_live(2) [OF assms(3) inv assms(4) mem]
    by blast
qed

definition sample_memalign :: "size_t \<Rightarrow> size_t \<Rightarrow> ptr" where
  "sample_memalign alignment sz = 65536"

definition sample_state :: ggml_state where
  "sample_state = \<lparr>st_ctx = \<lparr>c_mem_size = 0, c_mem_buffer = 0, c_mem_buffer_owned = False, c_no_alloc = False,
      c_n_objects = 0, c_objects_begin = 0, c_objects_end = 0\<rparr>, st_objects = Map.empty, st_tensors = Map.empty\<rparr>"

definition sample_ctx :: ggml_context where
  "sample_ctx = \<lparr>c_mem_size = 4096, c_mem_buffer = 65536, c_mem_buffer_owned = True, c_no_alloc = False,
      c_n_objects = 0, c_objects_begin = 0, c_objects_end = 0\<rparr>"

lemma GGML_PAD_16_eval: "x \<le> SIZE_MAX - 15 \<Longrightarrow> GGML_PAD x GGML_MEM_ALIGN = (x + 15) div 16 * 16"
  using GGML_PAD_eq [of 16 4 x] by simp

lemma sample_init:
  "ggml_init sample_memalign sample_state \<lparr>ip_mem_size = 4096, ip_mem_buffer = 0, ip_no_alloc = False\<rparr>
   = Some (sample_state\<lparr>st_ctx := sample_ctx\<rparr>)"
  by (simp add: ggml_init_def sample_state_def sample_ctx_def ggml_aligned_malloc_def sample_memalign_def
      GGML_PAD_16_eval forget_pool_def)

lemmas pool_eval = pool_request_def ggml_new_object_def sample_ctx_def sample_state_def GGML_PAD_16_eval size_simps Let_def

theorem ggml_pool_no_overlap_witness:
  "\<exists>s' live. run_client (pool_request GGML_OBJECT_TYPE_WORK_BUFFER) (\<lambda>_ _ _. None) [Request 100, Request 40]
      (sample_state\<lparr>st_ctx := sample_ctx\<rparr>, []) = Some (s', live) \<and> live = [(65680, 40), (65536, 100)]
    \<and> object_cells (fst (live ! 0)) (snd (live ! 0)) \<inter> object_cells (fst (live ! 1)) (snd (live ! 1)) = {}"
proof -
  obtain s' where r: "run_client (pool_request GGML_OBJECT_TYPE_WORK_BUFFER) (\<lambda>_ _ _. None) [Request 100, Request 40]
      (sample_state\<lparr>st_ctx := sample_ctx\<rparr>, []) = Some (s', [(65680, 40), (65536, 100)])"
    by (simp add: pool_eval)
  show ?thesis
    using ggml_pool_no_overlap [OF sample_init _ r, of 0 1] r by (simp add: sample_ctx_def sample_state_def)
qed


abbreviation (input) sample_start :: ggml_state where
  "sample_start \<equiv> sample_state\<lparr>st_ctx := sample_ctx\<rparr>"

lemma sample_ctx_inv: "ctx_inv (sample_state\<lparr>st_ctx := sample_ctx\<rparr>)"
  using ctx_inv_init(1) [OF sample_init]
  by (simp add: heap_ok_def ranked_def in_pool_def) (simp add: sample_ctx_def sample_state_def)

lemma sample_new_tensor:
  "\<exists>s'. ggml_new_tensor (sample_state\<lparr>st_ctx := sample_ctx\<rparr>) GGML_TYPE_F32 2 [8, 3] = Some (65568, s')
     \<and> ctx_inv s' \<and> in_pool s' 65568 \<and> 65568 \<in> dom (st_tensors s')"
proof -
  let ?s = "sample_state\<lparr>st_ctx := sample_ctx\<rparr>"
  obtain s' where n: "ggml_new_tensor ?s GGML_TYPE_F32 2 [8, 3] = Some (65568, s')"
    by (simp add: ggml_new_tensor_def ggml_new_tensor_impl_def new_tensor_view_base_def new_tensor_view_data_def
        request_bytes_def ggml_row_size_def ggml_type_size_def ggml_blck_size_def pool_eval)
  then show ?thesis
    using new_tensor_grows [OF sample_ctx_inv n] by (auto simp: grows_def extends_def in_pool_def sample_ctx_def)
qed


text \<open>
  C34: iterating over a context visits every tensor of the context once, in the order of
  creation, skipping graphs and work buffers: the first call returns the first tensor of the
  pool, the next call on a tensor the one created after it, and null after the last. The order is
  that of the addresses, and every tensor made by \<^verbatim>\<open>ggml_new_tensor_impl\<close> (all builders go through it)
  comes behind the tensors there are, whose order does not change.
\<close>

theorem ggml_tensor_iteration:
  assumes "ctx_inv s"
  shows "\<exists>ts. sorted_wrt (<) ts \<and> set ts = {p \<in> dom (st_tensors s). in_pool s p}
    \<and> c_n_objects (st_ctx s) = int (length ts) \<and> iterates s ts
    \<and> (\<forall>type n_dims ne view_src view_offs r s'.
         ggml_new_tensor_impl s type n_dims ne view_src view_offs = Some (r, s') \<and> nat n_dims \<le> length ne
         \<longrightarrow> iterates s' (ts @ [r]))"
proof -
  obtain xs e where co: "ctx_objs s xs e" using assms by (auto simp: ctx_inv_def)
  have next_one: "iterates s' (pool_tensors s xs @ [r])"
    if n: "ggml_new_tensor_impl s type n_dims ne view_src view_offs = Some (r, s')" "nat n_dims \<le> length ne"
    for type n_dims ne view_src view_offs r s'
  proof -
    have "ctx_inv s'" using new_tensor_impl_eq [OF co n] grows_extends extends_inv by metis
    then obtain xs' e' where c': "ctx_objs s' xs' e'" by (auto simp: ctx_inv_def)
    show ?thesis using iterates_pool [OF c'] new_tensor_last [OF co n c'] by simp
  qed
  have "sorted_wrt (<) (pool_tensors s xs)"
    using pool_tensors_sorted [OF co] pool_tensors_distinct [OF co] by (simp add: strict_sorted_iff)
  then show ?thesis
    using iterates_pool [OF co] next_one co by (intro exI [of _ "pool_tensors s xs"]) (auto simp: ctx_objs_def)
qed

theorem ggml_tensor_iteration_witness:
  "\<exists>s' ts. ggml_new_tensor (sample_state\<lparr>st_ctx := sample_ctx\<rparr>) GGML_TYPE_F32 2 [8, 3] = Some (65568, s')
    \<and> iterates s' [65568] \<and> 65568 \<in> set ts \<and> iterates s' ts"
proof -
  obtain s' where n: "ggml_new_tensor (sample_state\<lparr>st_ctx := sample_ctx\<rparr>) GGML_TYPE_F32 2 [8, 3] = Some (65568, s')"
    and i: "ctx_inv s'" "in_pool s' 65568" "65568 \<in> dom (st_tensors s')" using sample_new_tensor by blast
  obtain ts where "set ts = {p \<in> dom (st_tensors s'). in_pool s' p}" "iterates s' ts"
    using ggml_tensor_iteration [OF i(1)] by blast
  moreover obtain ts0 where t0: "set ts0 = {p \<in> dom (st_tensors (sample_state\<lparr>st_ctx := sample_ctx\<rparr>)). in_pool (sample_state\<lparr>st_ctx := sample_ctx\<rparr>) p}"
      "\<forall>type n_dims ne view_src view_offs r s'.
         ggml_new_tensor_impl (sample_state\<lparr>st_ctx := sample_ctx\<rparr>) type n_dims ne view_src view_offs = Some (r, s') \<and> nat n_dims \<le> length ne
         \<longrightarrow> iterates s' (ts0 @ [r])"
    using ggml_tensor_iteration [OF sample_ctx_inv] by blast
  have "ts0 = []" using t0(1) by (simp add: sample_state_def)
  then have "iterates s' [65568]" using t0(2) n unfolding ggml_new_tensor_def by fastforce
  ultimately show ?thesis using n i by blast
qed

end
