(* ===== verification/GGML_GraphMem.thy ===== *)
theory GGML_GraphMem
  imports GGML_Fuse GGML_Pool
begin

text \<open>
  Graph objects in the memory pool. \<^verbatim>\<open>ggml_graph_nbytes\<close> computes the size of an object by running
  the layout from address 0; \<^verbatim>\<open>ggml_new_graph_custom\<close> runs it again from the object's address. The
  lemmas show that both agree, that the arrays of a graph do not overlap and stay inside the
  object, and that a new graph is a complete graph without tensors.
\<close>

section \<open>The layout\<close>

lemma GGML_PAD_shift:
  assumes "n = 2 ^ k" "k < 64" "n dvd b" "b + x + n \<le> 2 ^ 64"
  shows "GGML_PAD (b + x) n = b + GGML_PAD x n"
proof -
  obtain q where b: "b = n * q" using assms(3) by blast
  have n: "0 < n" using assms(1) by simp
  have e: "b + x + n - 1 = n * q + (x + n - 1)" using n by (simp add: b)
  have d: "(b + x + n - 1) div n = q + (x + n - 1) div n" unfolding e using n by (intro div_mult_self4) simp
  have "x + n \<le> 2 ^ 64" using assms(4) by simp
  from GGML_PAD_eq [OF assms(1,2) this] GGML_PAD_eq [OF assms(1,2,4)] show ?thesis
    unfolding d by (simp add: b add_mult_distrib2 mult.commute)
qed

definition aligns_ok :: "(size_t \<times> size_t) list \<Rightarrow> bool" where
  "aligns_ok arrs \<longleftrightarrow> (\<forall>(sz, align) \<in> set arrs. align = 4 \<or> align = 8)"

definition arrays_bound :: "(size_t \<times> size_t) list \<Rightarrow> nat" where
  "arrays_bound arrs = (\<Sum>(sz, align) \<leftarrow> arrs. sz + align)"

lemma PAD_4_8:
  assumes "al = 4 \<or> al = 8" "p + al \<le> SIZE_MAX"
  shows "p \<le> GGML_PAD p al" "GGML_PAD p al < p + al" "al dvd GGML_PAD p al"
    "8 dvd b \<Longrightarrow> b + p + al \<le> SIZE_MAX \<Longrightarrow> GGML_PAD (b + p) al = b + GGML_PAD p al"
proof -
  obtain k where k: "al = 2 ^ k" "k < 64" "al dvd 8" using assms(1) by (auto intro: that [of 2] that [of 3])
  have "p + al \<le> 2 ^ 64" using assms(2) by simp
  from GGML_PAD_bounds [OF k(1,2) this]
  show "p \<le> GGML_PAD p al" "GGML_PAD p al < p + al" "al dvd GGML_PAD p al" .
  show "GGML_PAD (b + p) al = b + GGML_PAD p al" if "8 dvd b" "b + p + al \<le> SIZE_MAX"
    using GGML_PAD_shift [OF k(1,2) dvd_trans [OF k(3) that(1)]] that(2) by simp
qed

text \<open>The arrays are placed one behind the other, each at a multiple of its alignment.\<close>

lemma place_arrays_ok:
  "aligns_ok arrs \<Longrightarrow> p + arrays_bound arrs \<le> SIZE_MAX \<Longrightarrow> place_arrays p arrs = (xs, e) \<Longrightarrow>
   p \<le> e \<and> e \<le> p + arrays_bound arrs \<and> map snd xs = map fst arrs \<and> sorted_wrt (\<lambda>a b. fst a + snd a \<le> fst b) xs
   \<and> (\<forall>(a, n) \<in> set xs. p \<le> a \<and> a + n \<le> e) \<and> list_all2 (\<lambda>(a, _) (_, al). al dvd a) xs arrs"
proof (induction p arrs arbitrary: xs e rule: place_arrays.induct)
  case (1 p)
  then show ?case by (simp add: arrays_bound_def)
next
  case (2 p sz al rest)
  define a where "a = GGML_PAD p al"
  have al: "al = 4 \<or> al = 8" "aligns_ok rest" using 2(2) by (auto simp: aligns_ok_def)
  have bnd: "p + (sz + al + arrays_bound rest) \<le> SIZE_MAX" using 2(3) by (simp add: arrays_bound_def)
  note pad = PAD_4_8 [OF al(1), of p, folded a_def]
  have a: "p \<le> a" "a < p + al" "al dvd a" using pad bnd by auto
  then have inc: "incr_ptr_aligned p sz al = (a, a + sz)" using bnd by (simp add: incr_ptr_aligned_def Let_def a_def [symmetric] sz_add_id)
  obtain ys where ys: "place_arrays (a + sz) rest = (ys, e)" "xs = (a, sz) # ys"
    using 2(4) by (auto simp: inc split: prod.splits)
  have "a + sz + arrays_bound rest \<le> SIZE_MAX" using a bnd by linarith
  from 2(1) [OF inc [symmetric] refl al(2) this ys(1)] show ?case
    using a by (auto simp: ys(2) arrays_bound_def)
qed

lemma place_arrays_shift:
  "aligns_ok arrs \<Longrightarrow> 8 dvd b \<Longrightarrow> b + p + arrays_bound arrs \<le> SIZE_MAX \<Longrightarrow>
   place_arrays (b + p) arrs = (map (\<lambda>(a, n). (b + a, n)) (fst (place_arrays p arrs)), b + snd (place_arrays p arrs))"
proof (induction p arrs rule: place_arrays.induct)
  case (1 p)
  then show ?case by simp
next
  case (2 p sz al rest)
  define a where "a = GGML_PAD p al"
  have al: "al = 4 \<or> al = 8" "aligns_ok rest" using 2(2) by (auto simp: aligns_ok_def)
  have bnd: "b + p + (sz + al + arrays_bound rest) \<le> SIZE_MAX" using 2(4) by (simp add: arrays_bound_def)
  note pad = PAD_4_8 [OF al(1), of p, folded a_def]
  have a: "a < p + al" "GGML_PAD (b + p) al = b + a" using pad 2(3) bnd by auto
  then have inc: "incr_ptr_aligned p sz al = (a, a + sz)" "incr_ptr_aligned (b + p) sz al = (b + a, b + (a + sz))"
    using bnd by (simp_all add: incr_ptr_aligned_def Let_def a_def [symmetric] sz_add_id)
  have "b + (a + sz) + arrays_bound rest \<le> SIZE_MAX" using a bnd by linarith
  from 2(1) [OF inc(1) [symmetric] refl al(2) 2(3) this] show ?case
    by (simp add: inc split: prod.splits)
qed

lemma graph_arrays_ok: "aligns_ok (graph_arrays sz grads)"
  by (auto simp: aligns_ok_def graph_arrays_def Let_def)

lemma graph_arrays_bound:
  assumes "sz \<le> 2 ^ 30" shows "arrays_bound (graph_arrays sz grads) \<le> 2 ^ 38"
proof -
  define h where "h = ggml_hash_size (sz_mul sz 2)"
  have h: "h \<le> 2147483659" using ggml_hash_size_le [of "sz * 2"] assms by (simp add: h_def sz_mul_id)
  have arr: "graph_arrays sz grads = [(sz_mul sz 8, 8), (sz_mul sz 8, 8), (sz_mul h 4, 4), (sz_mul h 8, 8)]
      @ (if grads then [(sz_mul h 8, 8), (sz_mul h 8, 8)] else []) @ [(sz_mul (ggml_bitset_size h) 4, 4)]"
    by (simp add: graph_arrays_def h_def [symmetric] Let_def)
  have "ggml_bitset_size h \<le> h + 31"
    using h by (simp add: ggml_bitset_size_def drop_bit_5 sz_add_id)
  then show ?thesis
    using h assms unfolding arr by (simp add: arrays_bound_def sz_mul_id)
qed

lemma incr_ptr_first: "incr_ptr_aligned 0 GGML_CGRAPH_SIZE 1 = (0, 96)"
  by (simp add: incr_ptr_aligned_def GGML_PAD_def sz_add_def)

lemma graph_nbytes_eq: "ggml_graph_nbytes sz grads = snd (place_arrays 96 (graph_arrays sz grads))"
  unfolding ggml_graph_nbytes_def incr_ptr_first by (simp add: split_beta)

text \<open>The layout of an object at an aligned address.\<close>

lemma graph_layout:
  assumes "sz \<le> 2 ^ 30" "8 dvd p" "p + 2 ^ 39 \<le> SIZE_MAX"
  obtains xs where "place_arrays (sz_add p GGML_CGRAPH_SIZE) (graph_arrays sz grads) = (xs, p + ggml_graph_nbytes sz grads)"
    "sorted_wrt (\<lambda>a b. fst a + snd a \<le> fst b) xs" "list_all2 (\<lambda>(a, _) (_, al). al dvd a) xs (graph_arrays sz grads)"
    "map snd xs = map fst (graph_arrays sz grads)"
    "\<forall>(a, n) \<in> set xs. p + GGML_CGRAPH_SIZE \<le> a \<and> a + n \<le> p + ggml_graph_nbytes sz grads"
proof -
  let ?A = "graph_arrays sz grads"
  note ok = graph_arrays_ok [of sz grads] and bnd = graph_arrays_bound [OF assms(1), of grads]
  have eq: "sz_add p GGML_CGRAPH_SIZE = p + 96" using assms(3) by (simp add: sz_add_id)
  have bnd': "p + 96 + arrays_bound ?A \<le> SIZE_MAX" using bnd assms(3) by simp
  from place_arrays_shift [OF ok assms(2) bnd']
  have pl: "place_arrays (p + 96) ?A = (map (\<lambda>(a, n). (p + a, n)) (fst (place_arrays 96 ?A)), p + ggml_graph_nbytes sz grads)"
    by (simp add: graph_nbytes_eq)
  from place_arrays_ok [OF ok bnd' pl] show thesis using that pl unfolding eq by simp
qed

lemma graph_nbytes_le: "sz \<le> 2 ^ 30 \<Longrightarrow> ggml_graph_nbytes sz grads \<le> 2 ^ 39"
proof -
  assume sz: "sz \<le> 2 ^ 30"
  obtain xs e where pl: "place_arrays 96 (graph_arrays sz grads) = (xs, e)" by fastforce
  have "96 + arrays_bound (graph_arrays sz grads) \<le> SIZE_MAX" using graph_arrays_bound [OF sz, of grads] by simp
  from place_arrays_ok [OF graph_arrays_ok this pl] show ?thesis
    using graph_arrays_bound [OF sz, of grads] pl by (simp add: graph_nbytes_eq)
qed

section \<open>New graphs\<close>

lemma used_mem_eq: "pool_objs s xs e \<Longrightarrow> ggml_used_mem s = Some e"
proof (cases "xs = []")
  case True
  assume "pool_objs s xs e"
  then show ?thesis using True by (simp add: pool_objs_def ggml_used_mem_def)
next
  case False
  assume po: "pool_objs s xs e"
  then obtain ob where "st_objects s (last xs) = Some ob" "o_offs ob + o_size ob = e"
    using obj_chain_last [of "st_objects s" "c_mem_buffer (st_ctx s)" "c_objects_begin (st_ctx s)" 0 xs e] False
    by (auto simp: pool_objs_def)
  moreover have "e \<le> SIZE_MAX" using po by (auto simp: pool_objs_def)
  ultimately show ?thesis
    using po False pool_objs_end_nonzero [OF po False] by (simp add: ggml_used_mem_def pool_objs_def sz_add_id)
qed

lemma push_graph_inv:
  assumes "ctx_objs s xs e" "GGML_MEM_ALIGN dvd n" "e + n + GGML_OBJECT_SIZE \<le> c_mem_size (st_ctx s)"
  shows "ctx_objs (push_object s e GGML_OBJECT_TYPE_GRAPH n) (xs @ [c_mem_buffer (st_ctx s) + e]) (e + GGML_OBJECT_SIZE + n)"
  using assms push_object_pool [of s xs e n GGML_OBJECT_TYPE_GRAPH] pool_tensors_push [of s xs e GGML_OBJECT_TYPE_GRAPH n]
  by (simp add: ctx_objs_def in_pool_def)

lemma new_hash_ok:
  assumes "sz \<le> 2 ^ 30"
  defines "h \<equiv> ggml_hash_size (sz_mul sz 2)"
  defines "hs \<equiv> ggml_hash_set_reset \<lparr>hs_size = h, hs_used = [], hs_keys = replicate h 0\<rparr>"
  shows "hs_inv hs" "hs_set hs = {}" "hs_size hs = h" "2 * sz \<le> h"
proof -
  have "sz_mul sz 2 = sz * 2" using assms(1) by (simp add: sz_mul_id)
  then have h: "h = ggml_hash_size (sz * 2)" by (simp add: h_def)
  then have "0 < h" "h \<le> 2147483659" "2 * sz \<le> h"
    using ggml_hash_size_range(1,2) [of "sz * 2"] ggml_hash_size_le [of "sz * 2"] assms(1) by simp_all
  then show "hs_inv hs" "hs_set hs = {}" "hs_size hs = h" "2 * sz \<le> h"
    using hs_inv_empty [of h "replicate h 0"] by (simp_all add: hs_def ggml_hash_set_reset_def)
qed

lemma int_of_sz_id: "sz < 2 ^ 31 \<Longrightarrow> int_of_sz sz = int sz"
  by (simp add: int_of_sz_def sint_uint uint_nat unat_of_nat take_bit_nat_eq_self signed_take_bit_int_eq_self)

text \<open>
  C22: If the pool has room for \<^verbatim>\<open>ggml_graph_overhead_custom\<close> more bytes, \<^verbatim>\<open>ggml_new_graph_custom\<close> returns an
  empty complete graph and uses exactly these bytes. Its hash table has room for \<open>size\<close> nodes and
  \<open>size\<close> leafs. The arrays are aligned, lie one behind the other, and end where the object ends:
  the size that \<^verbatim>\<open>ggml_graph_nbytes\<close> computed beforehand is the size of the layout. The tensors of
  the context are not touched.
\<close>

theorem ggml_new_graph_custom_correct:
  assumes "ctx_inv s" "sz \<le> 2 ^ 30" "c_mem_buffer (st_ctx s) + c_mem_size (st_ctx s) + 2 ^ 39 \<le> SIZE_MAX"
    and "ggml_used_mem s = Some u" "u + ggml_graph_overhead_custom sz grads \<le> c_mem_size (st_ctx s)"
  shows "\<exists>p g s'. ggml_new_graph_custom s sz grads = Some (p, g, s') \<and> ctx_inv s' \<and> st_tensors s' = st_tensors s
    \<and> ggml_used_mem s' = Some (u + ggml_graph_overhead_custom sz grads)
    \<and> p = c_mem_buffer (st_ctx s) + u + GGML_OBJECT_SIZE
    \<and> graph_ok (st_tensors s) g \<and> finished g = {} \<and> cg_size g = int sz \<and> 2 * sz \<le> hs_size (cg_visited g)
    \<and> sorted_wrt (\<lambda>a b. fst a + snd a \<le> fst b) (cg_arrays g)
    \<and> map snd (cg_arrays g) = map fst (graph_arrays sz grads)
    \<and> list_all2 (\<lambda>(a, _) (_, al). al dvd a) (cg_arrays g) (graph_arrays sz grads)
    \<and> list_all (\<lambda>(a, n). p + GGML_CGRAPH_SIZE \<le> a \<and> a + n \<le> p + ggml_graph_nbytes sz grads) (cg_arrays g)"
proof -
  obtain xs e where co: "ctx_objs s xs e" using assms(1) by (auto simp: ctx_inv_def)
  then have po: "pool_objs s xs e" by (simp add: ctx_objs_def)
  have u: "e = u" using used_mem_eq [OF po] assms(4) by simp
  let ?nb = "ggml_graph_nbytes sz grads"
  define n where "n = GGML_PAD ?nb GGML_MEM_ALIGN"
  have nb: "?nb \<le> 2 ^ 39" using graph_nbytes_le [OF assms(2)] .
  have n: "?nb \<le> n" "n < ?nb + 16" "GGML_MEM_ALIGN dvd n" using GGML_PAD_16 [of ?nb] nb by (simp_all add: n_def)
  have ov: "ggml_graph_overhead_custom sz grads = GGML_OBJECT_SIZE + n"
    using n nb by (simp add: ggml_graph_overhead_custom_def n_def [symmetric] sz_add_id)
  have fit: "e + n + GGML_OBJECT_SIZE \<le> c_mem_size (st_ctx s)" using assms(5) ov u by simp
  let ?s = "push_object s e GGML_OBJECT_TYPE_GRAPH n"
  let ?p = "c_mem_buffer (st_ctx s) + e + GGML_OBJECT_SIZE"
  have new: "ggml_new_object s GGML_OBJECT_TYPE_GRAPH ?nb = Some (c_mem_buffer (st_ctx s) + e, ?s)"
    using new_object_eq [OF po, of GGML_OBJECT_TYPE_GRAPH ?nb] nb fit by (simp add: n_def [symmetric])
  note lk = push_object_lookup(1) [OF po, of GGML_OBJECT_TYPE_GRAPH n]
  have inv': "ctx_objs ?s (xs @ [c_mem_buffer (st_ctx s) + e]) (e + GGML_OBJECT_SIZE + n)"
    using push_graph_inv [OF co n(3) fit] .
  then have um: "ggml_used_mem ?s = Some (u + (GGML_OBJECT_SIZE + n))"
    using used_mem_eq [of ?s] u by (auto simp: ctx_objs_def add.assoc)
  have "GGML_MEM_ALIGN dvd c_mem_buffer (st_ctx s)" "GGML_MEM_ALIGN dvd e" using po obj_chain_aligned by (auto simp: pool_objs_def)
  then have "16 dvd ?p" by (simp add: dvd_add)
  then have al: "8 dvd ?p" by (rule dvd_trans [rotated]) simp
  have pb: "?p + 2 ^ 39 \<le> SIZE_MAX" using assms(3) fit by simp
  have adr: "sz_add (c_mem_buffer (st_ctx s)) (e + GGML_OBJECT_SIZE) = ?p" using pb by (simp add: sz_add_id)
  obtain as where lay: "place_arrays (sz_add ?p GGML_CGRAPH_SIZE) (graph_arrays sz grads) = (as, ?p + ?nb)"
    "sorted_wrt (\<lambda>a b. fst a + snd a \<le> fst b) as" "list_all2 (\<lambda>(a, _) (_, al). al dvd a) as (graph_arrays sz grads)"
    "map snd as = map fst (graph_arrays sz grads)"
    "\<forall>(a, n) \<in> set as. ?p + GGML_CGRAPH_SIZE \<le> a \<and> a + n \<le> ?p + ?nb"
    by (rule graph_layout [OF assms(2) al pb])
  note nh = new_hash_ok [OF assms(2)]
  define g where "g = \<lparr>cg_size = int_of_sz sz, cg_nodes = [],
        cg_grads = (if grads then Some (replicate (ggml_hash_size (sz_mul sz 2)) 0) else None),
        cg_grad_accs = (if grads then Some (replicate (ggml_hash_size (sz_mul sz 2)) 0) else None),
        cg_leafs = [], cg_use_counts = replicate (ggml_hash_size (sz_mul sz 2)) 0,
        cg_visited = ggml_hash_set_reset \<lparr>hs_size = ggml_hash_size (sz_mul sz 2), hs_used = [], hs_keys = replicate (ggml_hash_size (sz_mul sz 2)) 0\<rparr>,
        cg_order = GGML_CGRAPH_EVAL_ORDER_LEFT_TO_RIGHT, cg_uid = 0, cg_arrays = as\<rparr>"
  have run: "ggml_new_graph_custom s sz grads = Some (?p, g, ?s)"
    unfolding ggml_new_graph_custom_def new Let_def by (simp add: lk adr lay(1) g_def)
  have gok: "graph_ok (st_tensors s) g" by (rule empty_graph_ok) (simp_all add: g_def nh)
  have "ctx_inv ?s" using inv' by (auto simp: ctx_inv_def)
  moreover have "list_all (\<lambda>(a, n). ?p + GGML_CGRAPH_SIZE \<le> a \<and> a + n \<le> ?p + ?nb) (cg_arrays g)"
    using lay(5) by (simp add: list_all_iff g_def)
  moreover have "cg_size g = int sz" using assms(2) by (simp add: g_def int_of_sz_id)
  moreover have "finished g = {}" "2 * sz \<le> hs_size (cg_visited g)" using nh by (simp_all add: g_def finished_def)
  ultimately show ?thesis
    using run um ov u gok lay(2-4) by (intro exI [of _ ?p] exI [of _ g] exI [of _ ?s]) (simp add: g_def)
qed

section \<open>Copying a graph\<close>

text \<open>The slots of the source that the loop has copied so far.\<close>

definition copied :: "ggml_hash_set \<Rightarrow> nat \<Rightarrow> ptr set" where
  "copied hs n = {hs_keys hs ! i | i. i < n \<and> used_slot hs i}"

lemma copied_Suc: "copied hs (Suc n) = (if used_slot hs n then insert (hs_keys hs ! n) (copied hs n) else copied hs n)"
  by (auto simp: copied_def less_Suc_eq)

lemma copied_all: "copied hs (hs_size hs) = hs_set hs"
  by (auto simp: copied_def hs_set_def used_slot_def)

lemma copied_new:
  assumes "hs_inv hs" "used_slot hs n" shows "hs_keys hs ! n \<notin> copied hs n"
proof
  assume "hs_keys hs ! n \<in> copied hs n"
  then obtain i where "i < n" "used_slot hs i" "hs_keys hs ! i = hs_keys hs ! n" by (auto simp: copied_def)
  then show False using assms unfolding hs_inv_def by blast
qed

text \<open>The loop over the slots copies the set and, for its members, the counts.\<close>

definition copy_state :: "ggml_cgraph \<Rightarrow> ggml_cgraph \<Rightarrow> nat \<Rightarrow> ggml_cgraph \<Rightarrow> bool" where
  "copy_state src dst n g \<longleftrightarrow> (\<exists>u v. g = dst\<lparr>cg_visited := v, cg_use_counts := u\<rparr>) \<and> hs_inv (cg_visited g)
     \<and> hs_size (cg_visited g) = hs_size (cg_visited dst) \<and> length (cg_use_counts g) = hs_size (cg_visited dst)
     \<and> seen g = copied (cg_visited src) n \<and> (\<forall>p \<in> seen g. uses g p = uses src p)"

lemma cpy_slot_step:
  assumes "copy_state src dst n g" "hs_inv (cg_visited src)" "n < hs_size (cg_visited src)"
    "hs_size (cg_visited src) \<le> hs_size (cg_visited dst)"
  shows "\<exists>g'. cpy_slot src n g = Some g' \<and> copy_state src dst (Suc n) g'"
proof (cases "used_slot (cg_visited src) n")
  case False
  then have "\<not> ggml_bitset_get (hs_used (cg_visited src)) n" using assms(3) by (simp add: used_slot_def)
  then show ?thesis using assms(1) False by (simp add: cpy_slot_def copy_state_def copied_Suc)
next
  case True
  let ?k = "hs_keys (cg_visited src) ! n"
  have hi: "hs_inv (cg_visited g)" and len: "length (cg_use_counts g) = hs_size (cg_visited g)"
    and seen: "seen g = copied (cg_visited src) n" using assms(1) by (auto simp: copy_state_def)
  have kn: "?k \<notin> seen g" using copied_new [OF assms(2) True] seen by simp
  have "?k \<in> seen src" "seen g \<subseteq> seen src" using True unfolding seen by (auto simp: copied_def hs_set_def)
  then have "seen g \<subset> seen src" using kn by blast
  then have "card (seen g) < card (seen src)" using hs_set_card(1) [OF assms(2)] by (intro psubset_card_mono)
  then have room: "card (seen g) \<noteq> hs_size (cg_visited g)"
    using hs_set_card(2) [OF assms(2)] assms(1,4) by (auto simp: copy_state_def)
  obtain i v where ins: "ggml_hash_find_or_insert (cg_visited g) ?k = Some (i, v)"
    using hash.add_full [OF hi, of ?k] room by (cases "ggml_hash_find_or_insert (cg_visited g) ?k") auto
  have vi: "hs_inv v" and sl: "member_slot v ?k = Some i" and el: "hs_set v = insert ?k (seen g)"
    and cap: "hs_size v = hs_size (cg_visited g)"
    using hash.add_invar [OF hi ins] hash.add_slot [OF hi ins] hash.add_elems [OF hi ins] hash.add_capacity [OF hi ins] by auto
  have i: "i < length (cg_use_counts g)" using hash.slot_less [OF vi sl] cap len by simp
  let ?c = "cg_use_counts src ! n"
  let ?g = "g\<lparr>cg_visited := v, cg_use_counts := (cg_use_counts g)[i := ?c]\<rparr>"
  have "member_slot (cg_visited src) ?k = Some n" using member_slot_Some [OF assms(2)] True by blast
  then have c: "uses src ?k = ?c" by (simp add: uses_def hash.count_def)
  have "uses ?g p = uses src p" if "p \<in> seen ?g" for p
  proof (cases "p = ?k")
    case True
    then show ?thesis using c sl i by (simp add: uses_def hash.count_def)
  next
    case False
    then have "p \<in> seen g" using that el by simp
    moreover have "uses ?g p = uses g p"
    proof -
      have "hash.count v ((cg_use_counts g)[i := ?c]) p = hash.count v (cg_use_counts g) p"
        using hash.count_update [OF vi sl, of "cg_use_counts g" ?c p] len cap False by simp
      then show ?thesis using hash.add_other [OF hi ins False] by (simp add: uses_def hash.count_def)
    qed
    ultimately show ?thesis using assms(1) by (simp add: copy_state_def)
  qed
  moreover obtain u0 v0 where g0: "g = dst\<lparr>cg_visited := v0, cg_use_counts := u0\<rparr>" using assms(1) by (auto simp: copy_state_def)
  then have "?g = dst\<lparr>cg_visited := v, cg_use_counts := (cg_use_counts g)[i := ?c]\<rparr>" by simp
  then have "\<exists>u v. ?g = dst\<lparr>cg_visited := v, cg_use_counts := u\<rparr>" by blast
  ultimately have "copy_state src dst (Suc n) ?g"
    using vi cap len el seen True assms(1) by (simp add: copy_state_def copied_Suc)
  moreover have "cpy_slot src n g = Some ?g"
    using True i hash_insert_fresh [OF hi kn] ins by (simp add: cpy_slot_def used_slot_def array_set_def)
  ultimately show ?thesis by blast
qed

lemma cpy_slots:
  assumes "hs_inv (cg_visited src)" "hs_size (cg_visited src) \<le> hs_size (cg_visited dst)"
  shows "copy_state src dst n g \<Longrightarrow> n + k = hs_size (cg_visited src)
    \<Longrightarrow> \<exists>g'. foldM (cpy_slot src) [n..<hs_size (cg_visited src)] g = Some g' \<and> copy_state src dst (hs_size (cg_visited src)) g'"
proof (induction k arbitrary: n g)
  case 0
  then show ?case by simp
next
  case (Suc k)
  have n: "n < hs_size (cg_visited src)" using Suc.prems(2) by simp
  obtain g1 where g1: "cpy_slot src n g = Some g1" "copy_state src dst (Suc n) g1"
    using cpy_slot_step [OF Suc.prems(1) assms(1) n assms(2)] by blast
  then show ?case using Suc.IH [OF g1(2)] Suc.prems(2) n by (simp add: upt_conv_Cons)
qed

text \<open>The gradients of a node.\<close>

lemma cpy_grad_step:
  assumes "hs_inv (cg_visited src)" "hs_inv (cg_visited g)" "node \<in> seen src" "node \<in> seen g"
    and "length sg = hs_size (cg_visited src)" "length sa = hs_size (cg_visited src)"
    and "cg_grads g = Some dg" "cg_grad_accs g = Some da" "length dg = hs_size (cg_visited g)" "length da = hs_size (cg_visited g)"
  shows "\<exists>i j. member_slot (cg_visited src) node = Some i \<and> member_slot (cg_visited g) node = Some j
    \<and> cpy_grad src sg sa node g = Some (g\<lparr>cg_grads := Some (dg[j := sg ! i]), cg_grad_accs := Some (da[j := sa ! i])\<rparr>)"
proof -
  obtain i where i: "ggml_hash_find (cg_visited src) node = Some i" "member_slot (cg_visited src) node = Some i" "used_slot (cg_visited src) i"
    using hash_find_member [OF assms(1,3)] by blast
  obtain j where j: "ggml_hash_find (cg_visited g) node = Some j" "member_slot (cg_visited g) node = Some j" "used_slot (cg_visited g) j"
    using hash_find_member [OF assms(2,4)] by blast
  have "i \<noteq> GGML_HASHSET_FULL" "j \<noteq> GGML_HASHSET_FULL" "i < hs_size (cg_visited src)" "j < hs_size (cg_visited g)"
    using hs_invD(7) [OF assms(1), of i] hs_invD(7) [OF assms(2), of j] i(3) j(3) by (auto simp: used_slot_def)
  then show ?thesis
    using i j assms(5-10) by (intro exI [of _ i] exI [of _ j]) (simp add: cpy_grad_def used_slot_def array_get_def array_set_def)
qed

definition slot_val :: "ggml_hash_set \<Rightarrow> ptr list \<Rightarrow> ptr \<Rightarrow> ptr" where
  "slot_val hs arr p = (case member_slot hs p of None \<Rightarrow> 0 | Some i \<Rightarrow> arr ! i)"

lemma slot_val_update:
  assumes "hs_inv hs" "member_slot hs p = Some i" "length arr = hs_size hs"
  shows "slot_val hs (arr[i := x]) q = (if q = p then x else slot_val hs arr q)"
proof (cases "q = p")
  case True
  then show ?thesis using assms hash.slot_less [OF assms(1,2)] by (simp add: slot_val_def)
next
  case False
  then have "member_slot hs q \<noteq> Some i" using hash.slot_inj [OF assms(1,2)] by blast
  then show ?thesis using False by (cases "member_slot hs q") (simp_all add: slot_val_def)
qed

lemma slot_entry_eq:
  assumes "hs_inv (cg_visited g)" "p \<in> seen g" "arr \<noteq> None \<Longrightarrow> length (the arr) = hs_size (cg_visited g)"
  shows "slot_entry g arr p = Some (case arr of None \<Rightarrow> 0 | Some a \<Rightarrow> slot_val (cg_visited g) a p)"
proof -
  obtain i where i: "ggml_hash_find (cg_visited g) p = Some i" "member_slot (cg_visited g) p = Some i" "used_slot (cg_visited g) i"
    using hash_find_member [OF assms(1,2)] by blast
  have "i \<noteq> GGML_HASHSET_FULL" using hs_invD(7) [OF assms(1), of i] i(3) by (simp add: used_slot_def)
  then show ?thesis
    using i assms(3) by (cases arr) (simp_all add: slot_entry_def slot_val_def used_slot_def array_get_def)
qed

lemma cpy_grads:
  assumes "hs_inv (cg_visited src)" "length sg = hs_size (cg_visited src)" "length sa = hs_size (cg_visited src)"
  shows "hs_inv (cg_visited g) \<Longrightarrow> set ns \<subseteq> seen src \<inter> seen g \<Longrightarrow> cg_grads g = Some dg \<Longrightarrow> cg_grad_accs g = Some da
    \<Longrightarrow> length dg = hs_size (cg_visited g) \<Longrightarrow> length da = hs_size (cg_visited g)
    \<Longrightarrow> \<exists>dg' da'. foldM (cpy_grad src sg sa) ns g = Some (g\<lparr>cg_grads := Some dg', cg_grad_accs := Some da'\<rparr>)
      \<and> length dg' = hs_size (cg_visited g) \<and> length da' = hs_size (cg_visited g)
      \<and> (\<forall>p. slot_val (cg_visited g) dg' p = (if p \<in> set ns then slot_val (cg_visited src) sg p else slot_val (cg_visited g) dg p))
      \<and> (\<forall>p. slot_val (cg_visited g) da' p = (if p \<in> set ns then slot_val (cg_visited src) sa p else slot_val (cg_visited g) da p))"
proof (induction ns arbitrary: g dg da)
  case Nil
  then show ?case by (intro exI [of _ dg] exI [of _ da]) simp
next
  case (Cons x ns)
  have x: "x \<in> seen src" "x \<in> seen g" using Cons.prems(2) by auto
  obtain i j where ij: "member_slot (cg_visited src) x = Some i" "member_slot (cg_visited g) x = Some j"
    and step: "cpy_grad src sg sa x g = Some (g\<lparr>cg_grads := Some (dg[j := sg ! i]), cg_grad_accs := Some (da[j := sa ! i])\<rparr>)"
    using cpy_grad_step [OF assms(1) Cons.prems(1) x assms(2,3) Cons.prems(3-6)] by blast
  let ?g = "g\<lparr>cg_grads := Some (dg[j := sg ! i]), cg_grad_accs := Some (da[j := sa ! i])\<rparr>"
  obtain dg' da' where IH: "foldM (cpy_grad src sg sa) ns ?g = Some (?g\<lparr>cg_grads := Some dg', cg_grad_accs := Some da'\<rparr>)"
    "length dg' = hs_size (cg_visited g)" "length da' = hs_size (cg_visited g)"
    "\<And>p. slot_val (cg_visited g) dg' p = (if p \<in> set ns then slot_val (cg_visited src) sg p else slot_val (cg_visited g) (dg[j := sg ! i]) p)"
    "\<And>p. slot_val (cg_visited g) da' p = (if p \<in> set ns then slot_val (cg_visited src) sa p else slot_val (cg_visited g) (da[j := sa ! i]) p)"
    using Cons.IH [of ?g "dg[j := sg ! i]" "da[j := sa ! i]"] Cons.prems by auto
  have "slot_val (cg_visited src) sg x = sg ! i" "slot_val (cg_visited src) sa x = sa ! i" using ij by (simp_all add: slot_val_def)
  then show ?case
    using step IH slot_val_update [OF Cons.prems(1) ij(2) Cons.prems(5)] slot_val_update [OF Cons.prems(1) ij(2) Cons.prems(6)]
    by (intro exI [of _ dg'] exI [of _ da']) auto
qed

text \<open>Both gradient arrays exist or neither does, and they have one entry per slot.\<close>

definition grads_ok :: "ggml_cgraph \<Rightarrow> bool" where
  "grads_ok g \<longleftrightarrow> (cg_grads g = None \<longleftrightarrow> cg_grad_accs g = None)
     \<and> (\<forall>a. cg_grads g = Some a \<longrightarrow> length a = hs_size (cg_visited g))
     \<and> (\<forall>a. cg_grad_accs g = Some a \<longrightarrow> length a = hs_size (cg_visited g))"

text \<open>The state of the copy before the gradients.\<close>

lemma cpy_prefix:
  assumes "graph_ok T src" "hs_inv (cg_visited dst)" "seen dst = {}" "length (cg_use_counts dst) = hs_size (cg_visited dst)"
    and "hs_size (cg_visited src) \<le> hs_size (cg_visited dst)"
  defines "d \<equiv> dst\<lparr>cg_nodes := cg_nodes src, cg_leafs := cg_leafs src, cg_order := cg_order src\<rparr>"
  obtains u v where "foldM (cpy_slot src) [0..<hs_size (cg_visited src)] d = Some (d\<lparr>cg_visited := v, cg_use_counts := u\<rparr>)"
    "hs_inv v" "hs_size v = hs_size (cg_visited dst)" "length u = hs_size v" "hs_set v = seen src"
    "hash.count v u = uses src"
proof -
  have si: "hs_inv (cg_visited src)" using assms(1) by (auto simp: graph_ok_def graph_inv_def)
  have "copy_state src d 0 d"
    unfolding copy_state_def
  proof (intro conjI)
    show "\<exists>u v. d = d\<lparr>cg_visited := v, cg_use_counts := u\<rparr>"
      by (rule exI [of _ "cg_use_counts d"], rule exI [of _ "cg_visited d"]) simp
  qed (use assms(2-4) in \<open>simp_all add: d_def copied_def\<close>)
  then obtain g0 where g0: "foldM (cpy_slot src) [0..<hs_size (cg_visited src)] d = Some g0"
      "copy_state src d (hs_size (cg_visited src)) g0"
    using cpy_slots [OF si, of d 0 d] assms(5) by (auto simp: d_def)
  obtain u v where g0': "g0 = d\<lparr>cg_visited := v, cg_use_counts := u\<rparr>" using g0(2) by (auto simp: copy_state_def)
  have v: "hs_inv v" "hs_size v = hs_size (cg_visited dst)" "length u = hs_size v" "hs_set v = seen src"
    using g0(2) g0' by (auto simp: copy_state_def copied_all d_def)
  have "hash.count v u p = uses src p" for p
  proof (cases "p \<in> seen src")
    case True
    then show ?thesis using g0(2) g0' v(4) by (simp add: copy_state_def uses_def)
  next
    case False
    then have "member_slot v p = None" "member_slot (cg_visited src) p = None" using v(4) by (simp_all add: member_slot_def)
    then show ?thesis by (simp add: uses_def hash.count_def)
  qed
  then show thesis using that [of u v] g0(1) g0' v by auto
qed

text \<open>The gradient arrays of the copy hold the values of the source at its nodes.\<close>

lemma cpy_grad_arrays:
  assumes "hs_inv (cg_visited src)" "set (cg_nodes src) \<subseteq> seen src" "grads_ok src" "grads_ok dst"
    and "n_leafs src \<le> cg_size dst" "n_nodes src \<le> cg_size dst" "hs_size (cg_visited src) \<le> hs_size (cg_visited dst)"
    and "cg_grads src = None \<or> cg_grads dst \<noteq> None" "hs_inv v" "hs_size v = hs_size (cg_visited dst)" "hs_set v = seen src"
    and "foldM (cpy_slot src) [0..<hs_size (cg_visited src)]
          (dst\<lparr>cg_nodes := cg_nodes src, cg_leafs := cg_leafs src, cg_order := cg_order src\<rparr>) = Some (dst\<lparr>cg_nodes := cg_nodes src, cg_leafs := cg_leafs src, cg_order := cg_order src, cg_visited := v, cg_use_counts := u\<rparr>)"
  shows "\<exists>gr ac. ggml_graph_cpy src dst = Some ((dst\<lparr>cg_nodes := cg_nodes src, cg_leafs := cg_leafs src, cg_order := cg_order src, cg_visited := v, cg_use_counts := u\<rparr>)\<lparr>cg_grads := gr, cg_grad_accs := ac\<rparr>)
      \<and> (gr \<noteq> None \<longrightarrow> length (the gr) = hs_size v) \<and> (ac \<noteq> None \<longrightarrow> length (the ac) = hs_size v)
      \<and> (\<forall>p \<in> set (cg_nodes src). (case gr of None \<Rightarrow> 0 | Some a \<Rightarrow> slot_val v a p)
            = (case cg_grads src of None \<Rightarrow> 0 | Some a \<Rightarrow> slot_val (cg_visited src) a p)
         \<and> (case ac of None \<Rightarrow> 0 | Some a \<Rightarrow> slot_val v a p)
            = (case cg_grad_accs src of None \<Rightarrow> 0 | Some a \<Rightarrow> slot_val (cg_visited src) a p))"
proof -
  let ?z = "replicate (hs_size v) (0::ptr)"
  let ?g0 = "dst\<lparr>cg_nodes := cg_nodes src, cg_leafs := cg_leafs src, cg_order := cg_order src, cg_visited := v, cg_use_counts := u\<rparr>"
  have sv0: "slot_val v ?z p = 0" if "p \<in> seen src" for p
    using that hash.slot_member [OF assms(9), of p] hash.slot_less [OF assms(9), of p] assms(11) by (auto simp: slot_val_def)
  show ?thesis
  proof (cases "cg_grads src")
    case None
    then have accs: "cg_grad_accs src = None" using assms(3) by (simp add: grads_ok_def)
    have run: "ggml_graph_cpy src dst = Some (if cg_grads dst \<noteq> None then ?g0\<lparr>cg_grads := Some ?z, cg_grad_accs := Some ?z\<rparr> else ?g0)"
      using None assms(5-7,10,12) by (simp add: ggml_graph_cpy_def Let_def)
    show ?thesis
    proof (cases "cg_grads dst")
      case dn: None
      then have "?g0 = ?g0\<lparr>cg_grads := None, cg_grad_accs := None\<rparr>" using assms(4) by (simp add: grads_ok_def)
      then show ?thesis using run dn None accs by (intro exI [of _ None]) simp
    next
      case (Some a)
      then show ?thesis using run None accs sv0 assms(2) by (intro exI [of _ "Some ?z"]) auto
    qed
  next
    case (Some sg)
    then obtain sa where sa: "cg_grad_accs src = Some sa" using assms(3) by (auto simp: grads_ok_def)
    have len: "length sg = hs_size (cg_visited src)" "length sa = hs_size (cg_visited src)" using assms(3) Some sa by (simp_all add: grads_ok_def)
    let ?g1 = "?g0\<lparr>cg_grads := Some ?z, cg_grad_accs := Some ?z\<rparr>"
    obtain dg da where gr: "foldM (cpy_grad src sg sa) (cg_nodes src) ?g1 = Some (?g1\<lparr>cg_grads := Some dg, cg_grad_accs := Some da\<rparr>)"
      "length dg = hs_size v" "length da = hs_size v"
      "\<And>p. p \<in> set (cg_nodes src) \<Longrightarrow> slot_val v dg p = slot_val (cg_visited src) sg p"
      "\<And>p. p \<in> set (cg_nodes src) \<Longrightarrow> slot_val v da p = slot_val (cg_visited src) sa p"
      using cpy_grads [OF assms(1) len, of ?g1 "cg_nodes src" ?z ?z] assms(2,9-11) by auto
    have dgr: "cg_grads dst \<noteq> None" using assms(8) Some by simp
    then have "ggml_graph_cpy src dst = Some (?g1\<lparr>cg_grads := Some dg, cg_grad_accs := Some da\<rparr>)"
      using Some sa assms(5-7,10,12) gr(1) by (simp add: ggml_graph_cpy_def Let_def)
    then show ?thesis using gr Some sa by (intro exI [of _ "Some dg"] exI [of _ "Some da"]) simp
  qed
qed

text \<open>
  C23: \<^verbatim>\<open>ggml_graph_cpy\<close> of a complete graph into a graph that has been cleared and is at least as large
  (and has room for gradients if the source has them) returns a complete graph with the same nodes,
  leafs and order, with the same use count for every tensor and the same gradient and accumulator
  for every node, although the keys may sit in other slots.
\<close>

theorem ggml_graph_cpy_correct:
  assumes "graph_ok T src" "grads_ok src" "grads_ok dst" "n_leafs src \<le> cg_size dst" "n_nodes src \<le> cg_size dst"
    and "hs_inv (cg_visited dst)" "seen dst = {}" "length (cg_use_counts dst) = hs_size (cg_visited dst)"
    and "hs_size (cg_visited src) \<le> hs_size (cg_visited dst)" "cg_grads src = None \<or> cg_grads dst \<noteq> None"
  shows "\<exists>g. ggml_graph_cpy src dst = Some g \<and> graph_ok T g \<and> cg_nodes g = cg_nodes src \<and> cg_leafs g = cg_leafs src
    \<and> cg_order g = cg_order src \<and> cg_size g = cg_size dst \<and> uses g = uses src
    \<and> (\<forall>p \<in> set (cg_nodes src). ggml_graph_get_grad g p = ggml_graph_get_grad src p
         \<and> ggml_graph_get_grad_acc g p = ggml_graph_get_grad_acc src p)"
proof -
  have si: "hs_inv (cg_visited src)" using assms(1) by (auto simp: graph_ok_def graph_inv_def)
  have nodes: "set (cg_nodes src) \<subseteq> seen src" using graph_ok_seen [OF assms(1)] by (auto simp: finished_def)
  let ?d = "dst\<lparr>cg_nodes := cg_nodes src, cg_leafs := cg_leafs src, cg_order := cg_order src\<rparr>"
  obtain u v where loop: "foldM (cpy_slot src) [0..<hs_size (cg_visited src)] ?d = Some (?d\<lparr>cg_visited := v, cg_use_counts := u\<rparr>)"
    and v: "hs_inv v" "hs_size v = hs_size (cg_visited dst)" "length u = hs_size v" "hs_set v = seen src" "hash.count v u = uses src"
    by (rule cpy_prefix [OF assms(1,6-9)])
  let ?g0 = "?d\<lparr>cg_visited := v, cg_use_counts := u\<rparr>"
  from cpy_grad_arrays [OF si nodes assms(2-5,9,10) v(1,2,4) loop]
  obtain gr ac where run: "ggml_graph_cpy src dst = Some (?g0\<lparr>cg_grads := gr, cg_grad_accs := ac\<rparr>)"
    and len: "gr \<noteq> None \<Longrightarrow> length (the gr) = hs_size v" "ac \<noteq> None \<Longrightarrow> length (the ac) = hs_size v"
    and vals: "\<And>p. p \<in> set (cg_nodes src) \<Longrightarrow> (case gr of None \<Rightarrow> 0 | Some a \<Rightarrow> slot_val v a p)
            = (case cg_grads src of None \<Rightarrow> 0 | Some a \<Rightarrow> slot_val (cg_visited src) a p)
         \<and> (case ac of None \<Rightarrow> 0 | Some a \<Rightarrow> slot_val v a p)
            = (case cg_grad_accs src of None \<Rightarrow> 0 | Some a \<Rightarrow> slot_val (cg_visited src) a p)" by blast
  let ?g = "?g0\<lparr>cg_grads := gr, cg_grad_accs := ac\<rparr>"
  have fin: "finished ?g = finished src" by (simp add: finished_def)
  have us: "uses ?g = uses src" using v(5) by (simp add: uses_def)
  have "graph_inv {} T ?g" using assms(1) v unfolding graph_ok_def graph_inv_def fin by simp
  then have gok: "graph_ok T ?g" using assms(1) us fin by (simp add: graph_ok_def)
  have "ggml_graph_get_grad ?g p = ggml_graph_get_grad src p \<and> ggml_graph_get_grad_acc ?g p = ggml_graph_get_grad_acc src p"
    if p: "p \<in> set (cg_nodes src)" for p
  proof -
    have p1: "p \<in> seen src" "p \<in> seen ?g" using p nodes v(4) by auto
    have l: "cg_grads src \<noteq> None \<Longrightarrow> length (the (cg_grads src)) = hs_size (cg_visited src)"
      "cg_grad_accs src \<noteq> None \<Longrightarrow> length (the (cg_grad_accs src)) = hs_size (cg_visited src)"
      using assms(2) by (auto simp: grads_ok_def)
    have vis: "cg_visited ?g = v" by simp
    show ?thesis
      using slot_entry_eq [OF si p1(1) l(1)] slot_entry_eq [OF si p1(1) l(2)] slot_entry_eq [of ?g p gr, unfolded vis] slot_entry_eq [of ?g p ac, unfolded vis]
        v(1) p1(2) len vals [OF p] by (simp add: ggml_graph_get_grad_def ggml_graph_get_grad_acc_def)
  qed
  then show ?thesis using run gok us by (intro exI [of _ ?g]) simp
qed

text \<open>Every slot that the loop has passed held a key that was new to the destination.\<close>

lemma cpy_slot_keep:
  assumes "cpy_slot src i g = Some g'" "hs_inv (cg_visited g)" "length (cg_use_counts g) = hs_size (cg_visited g)"
  shows "hs_inv (cg_visited g') \<and> length (cg_use_counts g') = hs_size (cg_visited g') \<and> seen g \<subseteq> seen g'
      \<and> (used_slot (cg_visited src) i \<longrightarrow> hs_keys (cg_visited src) ! i \<notin> seen g)"
proof (cases "ggml_bitset_get (hs_used (cg_visited src)) i")
  case False
  then show ?thesis using assms by (auto simp: cpy_slot_def used_slot_def)
next
  case True
  let ?k = "hs_keys (cg_visited src) ! i"
  have kn: "?k \<notin> seen g"
  proof
    assume "?k \<in> seen g"
    moreover have "\<not> GGML_HASHSET_ALREADY_EXISTS < length (cg_use_counts g)" using assms(2,3) by (auto simp: hs_inv_def)
    ultimately show False using assms(1) True by (simp add: cpy_slot_def hash_insert_cases(1) [OF assms(2)] array_set_def)
  qed
  then obtain j v where ins: "ggml_hash_find_or_insert (cg_visited g) ?k = Some (j, v)"
    and g': "cg_visited g' = v" "length (cg_use_counts g') = length (cg_use_counts g)"
    using assms(1) True
    by (auto simp: cpy_slot_def hash_insert_fresh [OF assms(2)] bind_eq_Some_conv array_set_def split: if_splits)
  then show ?thesis
    using hash.add_invar [OF assms(2) ins] hash.add_capacity [OF assms(2) ins] hash.add_elems [OF assms(2) ins] assms(3) kn by auto
qed

lemma cpy_slots_fresh:
  "foldM (cpy_slot src) is g = Some g' \<Longrightarrow> hs_inv (cg_visited g) \<Longrightarrow> length (cg_use_counts g) = hs_size (cg_visited g)
   \<Longrightarrow> \<forall>i \<in> set is. used_slot (cg_visited src) i \<longrightarrow> hs_keys (cg_visited src) ! i \<notin> seen g"
proof (induction "is" arbitrary: g)
  case (Cons i "is")
  then obtain g1 where "cpy_slot src i g = Some g1" "foldM (cpy_slot src) is g1 = Some g'" by (auto simp: bind_eq_Some_conv)
  then show ?case using cpy_slot_keep [of src i g g1] Cons.IH [of g1] Cons.prems by auto
qed simp

text \<open>
  Copying into a graph that already holds one of the tensors has no result in the model: for that key
  \<^verbatim>\<open>ggml_hash_insert\<close> returns \<^verbatim>\<open>GGML_HASHSET_ALREADY_EXISTS\<close>, and this value is then used as an index
  into the array of use counts, far outside of it. (The model does not tell this write from a failed
  assertion.)
\<close>

lemma graph_cpy_shared_tensor:
  assumes "hs_inv (cg_visited src)" "hs_inv (cg_visited dst)" "length (cg_use_counts dst) = hs_size (cg_visited dst)"
    and "p \<in> seen src" "p \<in> seen dst"
  shows "ggml_graph_cpy src dst = None"
proof -
  let ?is = "[0..<hs_size (cg_visited src)]"
  obtain i where i: "used_slot (cg_visited src) i" "hs_keys (cg_visited src) ! i \<in> seen dst" using assms(4,5) by (auto simp: hs_set_def)
  then have "i \<in> set ?is" by (simp add: used_slot_def)
  then have "foldM (cpy_slot src) ?is (dst\<lparr>cg_nodes := ns, cg_leafs := ls, cg_order := od\<rparr>) = None" for ns ls od
    using cpy_slots_fresh [of src ?is "dst\<lparr>cg_nodes := ns, cg_leafs := ls, cg_order := od\<rparr>"] i assms(2,3)
    by (cases "foldM (cpy_slot src) ?is (dst\<lparr>cg_nodes := ns, cg_leafs := ls, cg_order := od\<rparr>)") auto
  then show ?thesis by (simp add: ggml_graph_cpy_def Let_def)
qed

section \<open>Instances\<close>

lemma sample_overhead: "ggml_graph_overhead_custom 4 False = 336"
proof -
  have h: "ggml_hash_size 8 = 11"
    by (simp add: ggml_hash_size_def hash_size_search.simps hash_primes_def Let_def)
  have pad: "GGML_PAD 96 8 = 96" "GGML_PAD 128 8 = 128" "GGML_PAD 160 4 = 160" "GGML_PAD 204 8 = 208" "GGML_PAD 296 4 = 296"
    "GGML_PAD 300 16 = 304" by (simp_all add: GGML_PAD_def)
  show ?thesis
    by (simp add: ggml_graph_overhead_custom_def graph_nbytes_eq graph_arrays_def incr_ptr_aligned_def sz_mul_def sz_add_def
        ggml_bitset_size_def drop_bit_5 h pad Let_def)
qed

theorem ggml_new_graph_custom_correct_witness:
  "\<exists>p g s'. ggml_new_graph_custom (sample_state\<lparr>st_ctx := sample_ctx\<rparr>) 4 False = Some (p, g, s')
    \<and> finished g = {} \<and> cg_size g = 4 \<and> ggml_used_mem s' = Some 336"
proof -
  let ?s = "sample_state\<lparr>st_ctx := sample_ctx\<rparr>"
  have u: "ggml_used_mem ?s = Some 0" by (simp add: ggml_used_mem_def sample_ctx_def)
  have m: "c_mem_buffer (st_ctx ?s) + c_mem_size (st_ctx ?s) + 2 ^ 39 \<le> SIZE_MAX"
    "0 + ggml_graph_overhead_custom 4 False \<le> c_mem_size (st_ctx ?s)"
    by (simp_all add: sample_overhead) (simp_all add: sample_ctx_def)
  have "(4::nat) \<le> 2 ^ 30" by simp
  from ggml_new_graph_custom_correct [OF sample_ctx_inv this m(1) u m(2)] show ?thesis
    unfolding sample_overhead by fastforce
qed

lemma sample_grads: "grads_ok fuse_graph" "grads_ok sample_graph"
  by (simp_all add: grads_ok_def fuse_graph_def sample_graph_def)

theorem ggml_graph_cpy_correct_witness:
  "\<exists>g. ggml_graph_cpy fuse_graph sample_graph = Some g \<and> graph_ok fuse_heap g \<and> cg_nodes g = [32, 48] \<and> uses g 16 = 3"
proof -
  have d: "hs_inv (cg_visited sample_graph)" "seen sample_graph = {}" "length (cg_use_counts sample_graph) = hs_size (cg_visited sample_graph)"
    using sample_hs_inv by (simp_all add: sample_graph_def) (simp add: sample_hs_def)
  have "n_leafs fuse_graph \<le> cg_size sample_graph" "n_nodes fuse_graph \<le> cg_size sample_graph"
    "hs_size (cg_visited fuse_graph) \<le> hs_size (cg_visited sample_graph)" "cg_grads fuse_graph = None \<or> cg_grads sample_graph \<noteq> None"
    by (simp_all add: n_leafs_def n_nodes_def fuse_graph_def sample_graph_def fuse_hs_def sample_hs_def)
  from ggml_graph_cpy_correct [OF fuse_graph_ok sample_grads this(1,2) d this(3,4)]
  obtain g where "ggml_graph_cpy fuse_graph sample_graph = Some g" "graph_ok fuse_heap g" "cg_nodes g = cg_nodes fuse_graph" "uses g = uses fuse_graph"
    by blast
  moreover have "uses fuse_graph 16 = 3" by (simp add: uses_def hash.count_def fuse_graph_def fuse_slots)
  ultimately show ?thesis by (simp add: fuse_graph_def)
qed

end
