(* ===== verification/GGML_OpBase.thy ===== *)
theory GGML_OpBase
  imports GGML_Heap
begin

text \<open>
  What the operation builders of \<^verbatim>\<open>ggml/src/ggml.c\<close> share. A builder checks the shapes of its
  arguments, creates a result tensor and records the operation, its parameters and its sources in
  the result; nothing is computed. \<open>op_node\<close> is the contract of such a step: exactly one
  descriptor is added, at a fresh address, with the given operation, type, shape and sources.
  The lemmas show that the ways to create a result establish it and that the assignments to the
  result keep it. The locale \<open>growing_client\<close> is what a client may rely on when every one of its
  steps only adds tensors.
\<close>

section \<open>C arithmetic\<close>

text \<open>Division and remainder stop the program when the divisor is zero.\<close>

definition c_div :: "int64_t \<Rightarrow> int64_t \<Rightarrow> int64_t option" where
  "c_div a b = (if b = 0 then None else Some (i64 (a sdiv b)))"

definition c_mod :: "int64_t \<Rightarrow> int64_t \<Rightarrow> int64_t option" where
  "c_mod a b = (if b = 0 then None else Some (a smod b))"

text \<open>Conversion to the 32-bit \<^verbatim>\<open>int\<close>.\<close>

definition i32 :: "int \<Rightarrow> int32_t" where
  "i32 x = (x + 2 ^ 31) mod 2 ^ 32 - 2 ^ 31"

text \<open>
  A \<^verbatim>\<open>float\<close> is its bit pattern. The tests \<^verbatim>\<open>x > 0\<close> and \<^verbatim>\<open>x > 20\<close> hold for the patterns between
  that of the bound and that of infinity: positive numbers are ordered like their patterns, the
  patterns above infinity are not numbers or carry the sign bit.
\<close>

definition f32_inf :: f32 where "f32_inf = 0x7F800000"

definition f32_pos :: "f32 \<Rightarrow> bool" where
  "f32_pos x \<longleftrightarrow> 0 < x \<and> x \<le> f32_inf"

definition f32_gt_20 :: "f32 \<Rightarrow> bool" where
  "f32_gt_20 x \<longleftrightarrow> 0x41A00000 < x \<and> x \<le> f32_inf"

definition f32_1 :: f32 where "f32_1 = 0x3F800000"

definition f32_10000 :: f32 where "f32_10000 = 0x461C4000"

text \<open>The floating-point operations and library functions the builders call.\<close>

record float_ops =
  fl_of_int :: "int \<Rightarrow> f32"
  fl_to_int :: "f32 \<Rightarrow> int"
  fl_add :: "f32 \<Rightarrow> f32 \<Rightarrow> f32"
  fl_sub :: "f32 \<Rightarrow> f32 \<Rightarrow> f32"
  fl_mul :: "f32 \<Rightarrow> f32 \<Rightarrow> f32"
  fl_div :: "f32 \<Rightarrow> f32 \<Rightarrow> f32"
  fl_gt :: "f32 \<Rightarrow> f32 \<Rightarrow> bool"
  fl_ceilf :: "f32 \<Rightarrow> f32"
  fl_floorf :: "f32 \<Rightarrow> f32"
  fl_expf :: "f32 \<Rightarrow> f32"
  fl_logf :: "f32 \<Rightarrow> f32"

section \<open>Assignments to a result\<close>

text \<open>A builder returns the address of the result; \<open>None\<close> is an abort.\<close>

type_synonym built = "(ptr \<times> ggml_state) option"

text \<open>\<open>set_op s r op [a, b]\<close>: \<^verbatim>\<open>result->op = op; result->src[0] = a; result->src[1] = b\<close>.\<close>

definition set_op :: "ggml_state \<Rightarrow> ptr \<Rightarrow> ggml_op \<Rightarrow> ptr list \<Rightarrow> ggml_state" where
  "set_op s r op srcs = upd s r (\<lambda>t. t\<lparr>t_op := op, t_src := srcs @ drop (length srcs) (t_src t)\<rparr>)"

definition set_params :: "ggml_state \<Rightarrow> ptr \<Rightarrow> 32 word list \<Rightarrow> ggml_state" where
  "set_params s r params = upd s r (\<lambda>t. ggml_set_op_params t params)"

definition set_param_i32 :: "ggml_state \<Rightarrow> ptr \<Rightarrow> nat \<Rightarrow> int32_t \<Rightarrow> ggml_state" where
  "set_param_i32 s r i value = upd s r (\<lambda>t. ggml_set_op_params_i32 t i value)"

definition set_param_f32 :: "ggml_state \<Rightarrow> ptr \<Rightarrow> nat \<Rightarrow> f32 \<Rightarrow> ggml_state" where
  "set_param_f32 s r i value = upd s r (\<lambda>t. ggml_set_op_params_f32 t i value)"

definition set_nb :: "ggml_state \<Rightarrow> ptr \<Rightarrow> size_t list \<Rightarrow> ggml_state" where
  "set_nb s r nb = upd s r (\<lambda>t. t\<lparr>t_nb := nb\<rparr>)"

definition set_ne :: "ggml_state \<Rightarrow> ptr \<Rightarrow> int64_t list \<Rightarrow> ggml_state" where
  "set_ne s r ne = upd s r (\<lambda>t. t\<lparr>t_ne := ne\<rparr>)"

text \<open>The 32-bit words of a pointer-sized parameter, low word first.\<close>

definition words_of_sz :: "size_t \<Rightarrow> 32 word list" where
  "words_of_sz n = [word_of_nat n, word_of_nat (n div 2 ^ 32)]"

text \<open>\<^verbatim>\<open>inplace ? ggml_view_tensor(ctx, a) : ggml_dup_tensor(ctx, a)\<close>\<close>

definition view_or_dup :: "ggml_state \<Rightarrow> ptr \<Rightarrow> bool \<Rightarrow> built" where
  "view_or_dup s a inplace = (if inplace then ggml_view_tensor s a else ggml_dup_tensor s a)"

text \<open>A test of an argument that may be \<^verbatim>\<open>NULL\<close>.\<close>

definition if_given :: "ggml_state \<Rightarrow> ptr \<Rightarrow> (ggml_tensor \<Rightarrow> unit option) \<Rightarrow> unit option" where
  "if_given s p check = (if p = 0 then Some () else do { t \<leftarrow> deref s p; check t })"

section \<open>The contract of a builder\<close>

definition valid_args :: "ggml_state \<Rightarrow> ptr list \<Rightarrow> bool" where
  "valid_args s args \<longleftrightarrow> set args \<subseteq> insert 0 (dom (st_tensors s))"

definition op_node ::
  "ggml_state \<Rightarrow> ptr \<Rightarrow> ggml_state \<Rightarrow> ggml_op \<Rightarrow> ggml_type \<Rightarrow> int64_t list \<Rightarrow> ptr list \<Rightarrow> bool" where
  "op_node s r s' op type ne srcs \<longleftrightarrow> ctx_inv s \<and> (\<exists>t. grows s r t s' \<and> t_op t = op \<and> t_type t = type
     \<and> t_ne t = ne \<and> t_src t = srcs @ replicate (GGML_MAX_SRC - length srcs) 0 \<and> t_flags t = 0)"

named_theorems node_new "creating a result"
named_theorems node_set "assigning to a result"

lemma valid_args_simps [simp]:
  "valid_args s []" "valid_args s (p # ps) \<longleftrightarrow> (p = 0 \<or> p \<in> dom (st_tensors s)) \<and> valid_args s ps"
  by (auto simp: valid_args_def)

lemma valid_args_extends: "extends s s' \<Longrightarrow> valid_args s ps \<Longrightarrow> valid_args s' ps"
  by (auto simp: valid_args_def extends_def map_le_def dom_def)

lemma op_node_extends: "op_node s r s' op ty ne srcs \<Longrightarrow> extends s s'"
  by (auto simp: op_node_def grows_def)

lemma op_node_dom: "op_node s r s' op ty ne srcs \<Longrightarrow> r \<in> dom (st_tensors s')"
  by (auto simp: op_node_def grows_def)

lemma op_node_deref:
  assumes "op_node s r s' op ty ne srcs"
  obtains t where "deref s' r = Some t" "t_op t = op" "t_type t = ty" "t_ne t = ne"
    "t_src t = srcs @ replicate (GGML_MAX_SRC - length srcs) 0"
  using assms by (auto simp: op_node_def grows_def deref_def)

lemma op_node_inv: "op_node s r s' op ty ne srcs \<Longrightarrow> ctx_inv s'"
  using op_node_extends extends_inv by blast

text \<open>\<open>adds s r s'\<close>: what is left of the contract when several nodes are added, the last one at \<open>r\<close>.\<close>

definition adds :: "ggml_state \<Rightarrow> ptr \<Rightarrow> ggml_state \<Rightarrow> bool" where
  "adds s r s' \<longleftrightarrow> extends s s' \<and> st_tensors s r = None \<and> r \<in> dom (st_tensors s')
     \<and> (\<forall>p t. st_tensors s p = None \<and> st_tensors s' p = Some t \<longrightarrow> t_flags t = 0)"

named_theorems node_adds "builders add tensors"

lemma op_node_adds: "op_node s r s' op ty ne srcs \<Longrightarrow> adds s r s'"
  by (auto simp: op_node_def grows_def adds_def split: if_splits)

lemma adds_inv: "adds s r s' \<Longrightarrow> ctx_inv s'"
  by (auto simp: adds_def intro: extends_inv)

lemma adds_trans:
  assumes "adds s x s1" "adds s1 r s'"
  shows "adds s r s'"
proof -
  have ex: "extends s s1" "extends s1 s'" using assms by (simp_all add: adds_def)
  have keep: "st_tensors s' p = Some t" if "st_tensors s1 p = Some t" for p t
    using extends_deref [OF ex(2)] that by (simp add: deref_def)
  have fl: "t_flags t = 0" if n: "st_tensors s p = None" "st_tensors s' p = Some t" for p t
    using assms n keep [of p] by (cases "st_tensors s1 p") (auto simp: adds_def)
  have "st_tensors s r = None"
  proof (cases "st_tensors s r")
    case (Some u)
    then show ?thesis using extends_deref [OF ex(1)] assms(2) by (simp add: adds_def deref_def)
  qed
  then show ?thesis using extends_trans [OF ex] fl assms(2) unfolding adds_def by blast
qed

lemma adds_valid: "adds s r s' \<Longrightarrow> valid_args s ps \<Longrightarrow> valid_args s' (r # ps)"
  by (auto simp: adds_def intro: valid_args_extends)

section \<open>Creating a result\<close>

lemma new_tensor_node:
  assumes "ggml_new_tensor s ty nd ne = Some (r, s')" "ctx_inv s" "nat nd \<le> length ne"
  shows "op_node s r s' GGML_OP_NONE ty (pad_dims (take (nat nd) ne)) []"
proof -
  obtain d where "grows s r (new_tensor_desc ty (pad_dims (take (nat nd) ne)) 0 0 d) s'"
    using new_tensor_grows [OF assms(2,1,3)] by blast
  then show ?thesis using assms(2) unfolding op_node_def by force
qed

lemma new_tensor_4_node [node_new]:
  "ggml_new_tensor s ty 4 ne = Some (r, s') \<Longrightarrow> ctx_inv s \<Longrightarrow> length ne = 4 \<Longrightarrow> op_node s r s' GGML_OP_NONE ty ne []"
  using new_tensor_node [of s ty 4 ne r s'] by simp

lemma new_tensor_nd_node [node_new]:
  "ggml_new_tensor_1d s ty n0 = Some (r, s') \<Longrightarrow> ctx_inv s \<Longrightarrow> op_node s r s' GGML_OP_NONE ty [n0, 1, 1, 1] []"
  "ggml_new_tensor_2d s ty n0 n1 = Some (r, s') \<Longrightarrow> ctx_inv s \<Longrightarrow> op_node s r s' GGML_OP_NONE ty [n0, n1, 1, 1] []"
  "ggml_new_tensor_3d s ty n0 n1 n2 = Some (r, s') \<Longrightarrow> ctx_inv s \<Longrightarrow> op_node s r s' GGML_OP_NONE ty [n0, n1, n2, 1] []"
  "ggml_new_tensor_4d s ty n0 n1 n2 n3 = Some (r, s') \<Longrightarrow> ctx_inv s \<Longrightarrow> op_node s r s' GGML_OP_NONE ty [n0, n1, n2, n3] []"
  using new_tensor_node [of s ty 1 "[n0]"] new_tensor_node [of s ty 2 "[n0, n1]"]
    new_tensor_node [of s ty 3 "[n0, n1, n2]"] new_tensor_node [of s ty 4 "[n0, n1, n2, n3]"]
  by (simp_all add: ggml_new_tensor_1d_def ggml_new_tensor_2d_def ggml_new_tensor_3d_def ggml_new_tensor_4d_def
      take_Suc_Cons numeral_eq_Suc)

lemma dup_node [node_new]:
  assumes "ggml_dup_tensor s a = Some (r, s')" "ctx_inv s" "deref s a = Some ta" "t_type ta = ty" "t_ne ta = ne"
  shows "op_node s r s' GGML_OP_NONE ty ne []"
proof -
  obtain d where "grows s r (new_tensor_desc (t_type ta) (t_ne ta) 0 0 d) s'"
    using dup_tensor_grows [OF assms(2,1)] assms(3) by auto
  then show ?thesis using assms(2,4,5) unfolding op_node_def by force
qed

lemma view_node [node_new]:
  assumes "ggml_view_tensor s a = Some (r, s')" "ctx_inv s" "deref s a = Some ta" "t_type ta = ty" "t_ne ta = ne"
  shows "op_node s r s' GGML_OP_NONE ty ne []"
proof -
  obtain d where "grows s r (view_desc a ta d) s'" using view_tensor_grows [OF assms(2,1)] assms(3) by auto
  then show ?thesis using assms(2,4,5) unfolding op_node_def by force
qed

lemma view_or_dup_node [node_new]:
  "view_or_dup s a inplace = Some (r, s') \<Longrightarrow> ctx_inv s \<Longrightarrow> deref s a = Some ta
    \<Longrightarrow> t_type ta = ty \<Longrightarrow> t_ne ta = ne \<Longrightarrow> op_node s r s' GGML_OP_NONE ty ne []"
  by (cases inplace) (simp_all add: view_or_dup_def view_node dup_node)

lemma new_tensor_impl_node [node_new]:
  assumes "ggml_new_tensor_impl s ty nd ne a offs = Some (r, s')" "ctx_inv s" "nat nd \<le> length ne" "deref s a = Some ta"
  shows "op_node s r s' GGML_OP_NONE ty (pad_dims (take (nat nd) ne)) []"
  using new_view_grows [OF assms(2,1,3,4)] assms(2) unfolding op_node_def by force

section \<open>Assigning to the result\<close>

lemma grows_tensor: "grows s r t s' \<Longrightarrow> tensor_wf t \<and> view_ok (st_tensors s) t"
proof -
  assume g: "grows s r t s'"
  have h: "heap_ok (st_tensors s')" "st_tensors s' r = Some t"
    using g ctx_inv_heap [of s'] by (simp_all add: grows_def extends_def)
  have vt: "view_ok (st_tensors s') t" "tensor_wf t" using h by (auto simp: heap_ok_def)
  then have "t_view_src t \<noteq> r \<or> t_view_src t = 0" using h(2) by (auto simp: view_ok_def)
  then show ?thesis using vt g by (auto simp: view_ok_def grows_def split: if_splits)
qed

text \<open>An assignment that leaves type, operation, sources and view fields alone.\<close>

lemma node_upd:
  assumes "op_node s r s' op ty ne srcs" "valid_args s srcs" "length srcs \<le> GGML_MAX_SRC" "length ne' = 4"
    and "\<And>t. t_ne t = ne \<Longrightarrow> tensor_wf t \<Longrightarrow> t_type (f t) = t_type t \<and> t_op (f t) = t_op t \<and> t_src (f t) = t_src t \<and> t_ne (f t) = ne'
        \<and> t_view_src (f t) = t_view_src t \<and> t_flags (f t) = t_flags t \<and> length (t_nb (f t)) = GGML_MAX_DIMS
        \<and> length (t_op_params (f t)) = GGML_MAX_OP_PARAMS div 4 \<and> length (t_name (f t)) < GGML_MAX_NAME"
  shows "op_node s r (upd s' r f) op ty ne' srcs"
proof -
  obtain t where t: "grows s r t s'" "t_op t = op" "t_type t = ty" "t_ne t = ne"
    "t_src t = srcs @ replicate (GGML_MAX_SRC - length srcs) 0" "t_flags t = 0" and inv: "ctx_inv s" using assms(1) by (auto simp: op_node_def)
  note wf = grows_tensor [OF t(1)]
  note f = assms(5) [OF t(4) conjunct1 [OF wf]]
  have "tensor_wf (f t)" using f wf assms(4) by (simp add: tensor_wf_def)
  moreover have "view_ok (st_tensors s) (f t)" using f wf by (simp add: view_ok_def)
  moreover have "set (t_src (f t)) \<subseteq> insert 0 (dom (st_tensors s))"
    using f t(5) assms(2) by (auto simp: valid_args_def set_replicate_conv_if)
  ultimately show ?thesis using grows_upd [OF inv t(1), of f] f t inv by (auto simp: op_node_def)
qed

lemma op_node_len: "op_node s r s' op ty ne srcs \<Longrightarrow> length ne = 4"
  using grows_tensor by (fastforce simp: op_node_def tensor_wf_def)

lemma set_params_node [node_set]:
  "op_node s r s' op ty ne srcs \<Longrightarrow> valid_args s srcs \<Longrightarrow> length srcs \<le> GGML_MAX_SRC \<Longrightarrow> length ps \<le> 16
    \<Longrightarrow> op_node s r (set_params s' r ps) op ty ne srcs"
  unfolding set_params_def
  by (rule node_upd) (auto simp: op_node_len ggml_set_op_params_def tensor_wf_def)

lemma set_param_i32_node [node_set]:
  "op_node s r s' op ty ne srcs \<Longrightarrow> valid_args s srcs \<Longrightarrow> length srcs \<le> GGML_MAX_SRC
    \<Longrightarrow> op_node s r (set_param_i32 s' r i v) op ty ne srcs"
  unfolding set_param_i32_def
  by (rule node_upd) (auto simp: op_node_len ggml_set_op_params_i32_def tensor_wf_def)

lemma set_param_f32_node [node_set]:
  "op_node s r s' op ty ne srcs \<Longrightarrow> valid_args s srcs \<Longrightarrow> length srcs \<le> GGML_MAX_SRC
    \<Longrightarrow> op_node s r (set_param_f32 s' r i v) op ty ne srcs"
  unfolding set_param_f32_def
  by (rule node_upd) (auto simp: op_node_len ggml_set_op_params_f32_def tensor_wf_def)

lemma format_name_node [node_set]:
  "op_node s r s' op ty ne srcs \<Longrightarrow> valid_args s srcs \<Longrightarrow> length srcs \<le> GGML_MAX_SRC
    \<Longrightarrow> op_node s r (ggml_format_name s' r name) op ty ne srcs"
  unfolding ggml_format_name_def
  by (rule node_upd) (auto simp: op_node_len tensor_wf_def)

lemma set_nb_node [node_set]:
  "op_node s r s' op ty ne srcs \<Longrightarrow> valid_args s srcs \<Longrightarrow> length srcs \<le> GGML_MAX_SRC \<Longrightarrow> length nb = 4
    \<Longrightarrow> op_node s r (set_nb s' r nb) op ty ne srcs"
  unfolding set_nb_def
  by (rule node_upd) (auto simp: op_node_len tensor_wf_def)

lemma set_ne_node [node_set]:
  "op_node s r s' op ty ne srcs \<Longrightarrow> valid_args s srcs \<Longrightarrow> length srcs \<le> GGML_MAX_SRC \<Longrightarrow> length ne' = 4
    \<Longrightarrow> op_node s r (set_ne s' r ne') op ty ne' srcs"
  unfolding set_ne_def
  by (rule node_upd) (auto simp: tensor_wf_def)

lemma reset_op_node:
  assumes "op_node s r s' op0 ty ne srcs0" "valid_args s srcs" "length srcs \<le> GGML_MAX_SRC" "length srcs0 \<le> length srcs"
    and "op \<noteq> GGML_OP_NONE"
  shows "op_node s r (set_op s' r op srcs) op ty ne srcs"
proof -
  obtain t where t: "grows s r t s'" "t_type t = ty" "t_ne t = ne"
    "t_src t = srcs0 @ replicate (GGML_MAX_SRC - length srcs0) 0" "t_flags t = 0" and inv: "ctx_inv s" using assms(1) by (auto simp: op_node_def)
  let ?f = "\<lambda>t. t\<lparr>t_op := op, t_src := srcs @ drop (length srcs) (t_src t)\<rparr>"
  have src: "t_src (?f t) = srcs @ replicate (GGML_MAX_SRC - length srcs) 0" using t(4) assms(4) by simp
  note wf = grows_tensor [OF t(1)]
  have "tensor_wf (?f t)" using wf assms(3,5) src by (simp add: tensor_wf_def)
  moreover have "view_ok (st_tensors s) (?f t)" using wf by (simp add: view_ok_def)
  moreover have "set (t_src (?f t)) \<subseteq> insert 0 (dom (st_tensors s))"
    unfolding src using assms(2) by (auto simp: valid_args_def set_replicate_conv_if)
  ultimately show ?thesis
    using grows_upd [OF inv t(1), of ?f] t src inv unfolding set_op_def op_node_def by (intro conjI exI [of _ "?f t"]) simp_all
qed

lemma set_op_node [node_set]:
  "op_node s r s' GGML_OP_NONE ty ne [] \<Longrightarrow> valid_args s srcs \<Longrightarrow> length srcs \<le> GGML_MAX_SRC \<Longrightarrow> op \<noteq> GGML_OP_NONE
    \<Longrightarrow> op_node s r (set_op s' r op srcs) op ty ne srcs"
  by (erule reset_op_node) simp_all

lemma none_simps:
  "deref s a = None \<Longrightarrow> ggml_dup_tensor s a = None" "deref s a = None \<Longrightarrow> ggml_view_tensor s a = None"
  "deref s a = None \<Longrightarrow> view_or_dup s a inplace = None"
  by (simp_all add: view_or_dup_def ggml_view_tensor_def ggml_dup_tensor_def)

lemma deref_len: "deref s a = Some ta \<Longrightarrow> ctx_inv s \<Longrightarrow> length (t_ne ta) = 4"
  using deref_wf by (simp add: tensor_wf_def)

lemmas node_simps = run_simps if_given_def

section \<open>Clients that only add tensors\<close>

text \<open>
  A client whose steps keep the invariant of the context and every existing descriptor. Any
  number of its steps do so too, so pointers it holds stay valid and what they point to does not
  change.
\<close>

locale growing_client =
  fixes step :: "ggml_state \<Rightarrow> ggml_state \<Rightarrow> bool"
  assumes step_extends: "ctx_inv s \<Longrightarrow> step s s' \<Longrightarrow> extends s s'"
begin

lemma run_extends:
  assumes "step\<^sup>*\<^sup>* s s'" "ctx_inv s"
  shows "extends s s'"
  using assms
proof (induction rule: rtranclp_induct)
  case (step s1 s2)
  then show ?case using step_extends [of s1 s2] extends_trans extends_inv by blast
qed (rule extends_refl)

lemma run_keeps: "step\<^sup>*\<^sup>* s s' \<Longrightarrow> ctx_inv s \<Longrightarrow> deref s p = Some t \<Longrightarrow> deref s' p = Some t"
  using run_extends extends_deref by blast

lemma run_heap: "step\<^sup>*\<^sup>* s s' \<Longrightarrow> ctx_inv s \<Longrightarrow> heap_ok (st_tensors s')"
  using run_extends extends_inv ctx_inv_heap by blast

end

end
