(* ===== verification/GGML_OpsArith.thy ===== *)
theory GGML_OpsArith
  imports GGML_OpBase
begin

text \<open>
  The builders of \<^verbatim>\<open>ggml/src/ggml.c\<close> for element-wise arithmetic, unary functions, gated units,
  reductions, repetition, normalisation, matrix products, scaling and writes into a tensor
  (\<^verbatim>\<open>ggml_dup\<close> up to \<^verbatim>\<open>ggml_set_2d_inplace\<close>, and \<^verbatim>\<open>ggml_unary\<close>). One definition per C function,
  with its assertions, the shape and type of its result and the recorded sources and parameters.
  Each builder has a lemma that says which node it adds to the context.
\<close>

section \<open>Binary operations\<close>

definition ggml_dup_impl :: "ggml_state \<Rightarrow> ptr \<Rightarrow> bool \<Rightarrow> built" where
  "ggml_dup_impl s a inplace = do {
     (result, s) \<leftarrow> view_or_dup s a inplace;
     Some (result, set_op s result GGML_OP_DUP [a]) }"

definition ggml_dup :: "ggml_state \<Rightarrow> ptr \<Rightarrow> built" where
  "ggml_dup s a = ggml_dup_impl s a False"

definition ggml_dup_inplace :: "ggml_state \<Rightarrow> ptr \<Rightarrow> built" where
  "ggml_dup_inplace s a = ggml_dup_impl s a True"

definition ggml_add_impl :: "ggml_state \<Rightarrow> ptr \<Rightarrow> ptr \<Rightarrow> bool \<Rightarrow> built" where
  "ggml_add_impl s a b inplace = do {
     ta \<leftarrow> deref s a; tb \<leftarrow> deref s b;
     ggml_assert (ggml_can_repeat tb ta);
     (result, s) \<leftarrow> view_or_dup s a inplace;
     Some (result, set_op s result GGML_OP_ADD [a, b]) }"

definition ggml_add :: "ggml_state \<Rightarrow> ptr \<Rightarrow> ptr \<Rightarrow> built" where
  "ggml_add s a b = ggml_add_impl s a b False"

definition ggml_add_inplace :: "ggml_state \<Rightarrow> ptr \<Rightarrow> ptr \<Rightarrow> built" where
  "ggml_add_inplace s a b = ggml_add_impl s a b True"

definition ggml_add_cast_impl :: "ggml_state \<Rightarrow> ptr \<Rightarrow> ptr \<Rightarrow> ggml_type \<Rightarrow> built" where
  "ggml_add_cast_impl s a b type = do {
     ta \<leftarrow> deref s a; tb \<leftarrow> deref s b;
     ggml_assert (ggml_can_repeat_rows tb ta);
     ggml_assert (ggml_is_quantized (t_type ta) \<or> t_type ta = GGML_TYPE_F16 \<or> t_type ta = GGML_TYPE_BF16);
     (result, s) \<leftarrow> ggml_new_tensor s type 4 (t_ne ta);
     Some (result, set_op s result GGML_OP_ADD [a, b]) }"

definition ggml_add_cast ::
  "ggml_state \<Rightarrow> ptr \<Rightarrow> ptr \<Rightarrow> ggml_type \<Rightarrow> built" where
  "ggml_add_cast s a b type = ggml_add_cast_impl s a b type"

definition ggml_add_id :: "ggml_state \<Rightarrow> ptr \<Rightarrow> ptr \<Rightarrow> ptr \<Rightarrow> built" where
  "ggml_add_id s a b ids = do {
     ta \<leftarrow> deref s a; tb \<leftarrow> deref s b; ti \<leftarrow> deref s ids;
     ggml_assert (t_ne ta ! 0 = t_ne tb ! 0);
     ggml_assert (t_ne ta ! 1 = t_ne ti ! 0);
     ggml_assert (t_ne ta ! 2 = t_ne ti ! 1);
     ggml_assert (t_type ti = GGML_TYPE_I32);
     (result, s) \<leftarrow> ggml_dup_tensor s a;
     Some (result, set_op s result GGML_OP_ADD_ID [a, b, ids]) }"

definition ggml_add1_impl :: "ggml_state \<Rightarrow> ptr \<Rightarrow> ptr \<Rightarrow> bool \<Rightarrow> built" where
  "ggml_add1_impl s a b inplace = do {
     ta \<leftarrow> deref s a; tb \<leftarrow> deref s b;
     ggml_assert (ggml_is_scalar tb);
     ggml_assert (ggml_is_padded_1d ta);
     (result, s) \<leftarrow> view_or_dup s a inplace;
     Some (result, set_op s result GGML_OP_ADD1 [a, b]) }"

definition ggml_add1 :: "ggml_state \<Rightarrow> ptr \<Rightarrow> ptr \<Rightarrow> built" where
  "ggml_add1 s a b = ggml_add1_impl s a b False"

definition ggml_add1_inplace :: "ggml_state \<Rightarrow> ptr \<Rightarrow> ptr \<Rightarrow> built" where
  "ggml_add1_inplace s a b = ggml_add1_impl s a b True"

text \<open>The strides and the offset are stored as 32-bit words: \<^verbatim>\<open>int32_t params[]\<close> drops the upper half.\<close>

definition ggml_acc_impl ::
  "ggml_state \<Rightarrow> ptr \<Rightarrow> ptr \<Rightarrow> size_t \<Rightarrow> size_t \<Rightarrow> size_t \<Rightarrow> size_t \<Rightarrow> bool \<Rightarrow> built" where
  "ggml_acc_impl s a b nb1 nb2 nb3 offset inplace = do {
     ta \<leftarrow> deref s a; tb \<leftarrow> deref s b;
     ggml_assert (ggml_nelements tb \<le> ggml_nelements ta);
     ggml_assert (ggml_is_contiguous ta);
     ggml_assert (t_type ta = GGML_TYPE_F32);
     ggml_assert (t_type tb = GGML_TYPE_F32);
     (result, s) \<leftarrow> view_or_dup s a inplace;
     let params = [word_of_nat nb1, word_of_nat nb2, word_of_nat nb3, word_of_nat offset, if inplace then 1 else 0];
     let s = set_params s result params;
     Some (result, set_op s result GGML_OP_ACC [a, b]) }"

definition ggml_acc ::
  "ggml_state \<Rightarrow> ptr \<Rightarrow> ptr \<Rightarrow> size_t \<Rightarrow> size_t \<Rightarrow> size_t \<Rightarrow> size_t \<Rightarrow> built" where
  "ggml_acc s a b nb1 nb2 nb3 offset = ggml_acc_impl s a b nb1 nb2 nb3 offset False"

definition ggml_acc_inplace ::
  "ggml_state \<Rightarrow> ptr \<Rightarrow> ptr \<Rightarrow> size_t \<Rightarrow> size_t \<Rightarrow> size_t \<Rightarrow> size_t \<Rightarrow> built" where
  "ggml_acc_inplace s a b nb1 nb2 nb3 offset = ggml_acc_impl s a b nb1 nb2 nb3 offset True"

definition ggml_sub_impl :: "ggml_state \<Rightarrow> ptr \<Rightarrow> ptr \<Rightarrow> bool \<Rightarrow> built" where
  "ggml_sub_impl s a b inplace = do {
     ta \<leftarrow> deref s a; tb \<leftarrow> deref s b;
     ggml_assert (ggml_can_repeat tb ta);
     (result, s) \<leftarrow> view_or_dup s a inplace;
     Some (result, set_op s result GGML_OP_SUB [a, b]) }"

definition ggml_sub :: "ggml_state \<Rightarrow> ptr \<Rightarrow> ptr \<Rightarrow> built" where
  "ggml_sub s a b = ggml_sub_impl s a b False"

definition ggml_sub_inplace :: "ggml_state \<Rightarrow> ptr \<Rightarrow> ptr \<Rightarrow> built" where
  "ggml_sub_inplace s a b = ggml_sub_impl s a b True"

definition ggml_mul_impl :: "ggml_state \<Rightarrow> ptr \<Rightarrow> ptr \<Rightarrow> bool \<Rightarrow> built" where
  "ggml_mul_impl s a b inplace = do {
     ta \<leftarrow> deref s a; tb \<leftarrow> deref s b;
     ggml_assert (ggml_can_repeat tb ta);
     (result, s) \<leftarrow> view_or_dup s a inplace;
     Some (result, set_op s result GGML_OP_MUL [a, b]) }"

definition ggml_mul :: "ggml_state \<Rightarrow> ptr \<Rightarrow> ptr \<Rightarrow> built" where
  "ggml_mul s a b = ggml_mul_impl s a b False"

definition ggml_mul_inplace :: "ggml_state \<Rightarrow> ptr \<Rightarrow> ptr \<Rightarrow> built" where
  "ggml_mul_inplace s a b = ggml_mul_impl s a b True"

definition ggml_div_impl :: "ggml_state \<Rightarrow> ptr \<Rightarrow> ptr \<Rightarrow> bool \<Rightarrow> built" where
  "ggml_div_impl s a b inplace = do {
     ta \<leftarrow> deref s a; tb \<leftarrow> deref s b;
     ggml_assert (ggml_can_repeat tb ta);
     (result, s) \<leftarrow> view_or_dup s a inplace;
     Some (result, set_op s result GGML_OP_DIV [a, b]) }"

definition ggml_div :: "ggml_state \<Rightarrow> ptr \<Rightarrow> ptr \<Rightarrow> built" where
  "ggml_div s a b = ggml_div_impl s a b False"

definition ggml_div_inplace :: "ggml_state \<Rightarrow> ptr \<Rightarrow> ptr \<Rightarrow> built" where
  "ggml_div_inplace s a b = ggml_div_impl s a b True"

section \<open>Unary operations\<close>

definition ggml_sqr_impl :: "ggml_state \<Rightarrow> ptr \<Rightarrow> bool \<Rightarrow> built" where
  "ggml_sqr_impl s a inplace = do {
     (result, s) \<leftarrow> view_or_dup s a inplace;
     Some (result, set_op s result GGML_OP_SQR [a]) }"

definition ggml_sqr :: "ggml_state \<Rightarrow> ptr \<Rightarrow> built" where
  "ggml_sqr s a = ggml_sqr_impl s a False"

definition ggml_sqr_inplace :: "ggml_state \<Rightarrow> ptr \<Rightarrow> built" where
  "ggml_sqr_inplace s a = ggml_sqr_impl s a True"

definition ggml_sqrt_impl :: "ggml_state \<Rightarrow> ptr \<Rightarrow> bool \<Rightarrow> built" where
  "ggml_sqrt_impl s a inplace = do {
     (result, s) \<leftarrow> view_or_dup s a inplace;
     Some (result, set_op s result GGML_OP_SQRT [a]) }"

definition ggml_sqrt :: "ggml_state \<Rightarrow> ptr \<Rightarrow> built" where
  "ggml_sqrt s a = ggml_sqrt_impl s a False"

definition ggml_sqrt_inplace :: "ggml_state \<Rightarrow> ptr \<Rightarrow> built" where
  "ggml_sqrt_inplace s a = ggml_sqrt_impl s a True"

definition ggml_log_impl :: "ggml_state \<Rightarrow> ptr \<Rightarrow> bool \<Rightarrow> built" where
  "ggml_log_impl s a inplace = do {
     (result, s) \<leftarrow> view_or_dup s a inplace;
     Some (result, set_op s result GGML_OP_LOG [a]) }"

definition ggml_log :: "ggml_state \<Rightarrow> ptr \<Rightarrow> built" where
  "ggml_log s a = ggml_log_impl s a False"

definition ggml_log_inplace :: "ggml_state \<Rightarrow> ptr \<Rightarrow> built" where
  "ggml_log_inplace s a = ggml_log_impl s a True"

definition ggml_unary_impl :: "ggml_state \<Rightarrow> ptr \<Rightarrow> ggml_unary_op \<Rightarrow> bool \<Rightarrow> built" where
  "ggml_unary_impl s a op inplace = do {
     ta \<leftarrow> deref s a;
     ggml_assert (ggml_is_contiguous_rows ta);
     (result, s) \<leftarrow> view_or_dup s a inplace;
     let s = set_param_i32 s result 0 (int (ggml_unary_op_code op));
     Some (result, set_op s result GGML_OP_UNARY [a]) }"

definition ggml_unary :: "ggml_state \<Rightarrow> ptr \<Rightarrow> ggml_unary_op \<Rightarrow> built" where
  "ggml_unary s a op = ggml_unary_impl s a op False"

definition ggml_unary_inplace :: "ggml_state \<Rightarrow> ptr \<Rightarrow> ggml_unary_op \<Rightarrow> built" where
  "ggml_unary_inplace s a op = ggml_unary_impl s a op True"

definition ggml_expm1 :: "ggml_state \<Rightarrow> ptr \<Rightarrow> built" where
  "ggml_expm1 s a = ggml_unary s a GGML_UNARY_OP_EXPM1"

definition ggml_expm1_inplace :: "ggml_state \<Rightarrow> ptr \<Rightarrow> built" where
  "ggml_expm1_inplace s a = ggml_unary_inplace s a GGML_UNARY_OP_EXPM1"

definition ggml_softplus :: "ggml_state \<Rightarrow> ptr \<Rightarrow> built" where
  "ggml_softplus s a = ggml_unary s a GGML_UNARY_OP_SOFTPLUS"

definition ggml_softplus_inplace :: "ggml_state \<Rightarrow> ptr \<Rightarrow> built" where
  "ggml_softplus_inplace s a = ggml_unary_inplace s a GGML_UNARY_OP_SOFTPLUS"

definition ggml_sin_impl :: "ggml_state \<Rightarrow> ptr \<Rightarrow> bool \<Rightarrow> built" where
  "ggml_sin_impl s a inplace = do {
     (result, s) \<leftarrow> view_or_dup s a inplace;
     Some (result, set_op s result GGML_OP_SIN [a]) }"

definition ggml_sin :: "ggml_state \<Rightarrow> ptr \<Rightarrow> built" where
  "ggml_sin s a = ggml_sin_impl s a False"

definition ggml_sin_inplace :: "ggml_state \<Rightarrow> ptr \<Rightarrow> built" where
  "ggml_sin_inplace s a = ggml_sin_impl s a True"

definition ggml_cos_impl :: "ggml_state \<Rightarrow> ptr \<Rightarrow> bool \<Rightarrow> built" where
  "ggml_cos_impl s a inplace = do {
     (result, s) \<leftarrow> view_or_dup s a inplace;
     Some (result, set_op s result GGML_OP_COS [a]) }"

definition ggml_cos :: "ggml_state \<Rightarrow> ptr \<Rightarrow> built" where
  "ggml_cos s a = ggml_cos_impl s a False"

definition ggml_cos_inplace :: "ggml_state \<Rightarrow> ptr \<Rightarrow> built" where
  "ggml_cos_inplace s a = ggml_cos_impl s a True"

section \<open>Reductions and repetition\<close>

definition ggml_sum :: "ggml_state \<Rightarrow> ptr \<Rightarrow> built" where
  "ggml_sum s a = do {
     ta \<leftarrow> deref s a;
     (result, s) \<leftarrow> ggml_new_tensor_1d s (t_type ta) 1;
     Some (result, set_op s result GGML_OP_SUM [a]) }"

definition ggml_sum_rows :: "ggml_state \<Rightarrow> ptr \<Rightarrow> built" where
  "ggml_sum_rows s a = do {
     ta \<leftarrow> deref s a;
     (result, s) \<leftarrow> ggml_new_tensor s (t_type ta) 4 [1, t_ne ta ! 1, t_ne ta ! 2, t_ne ta ! 3];
     Some (result, set_op s result GGML_OP_SUM_ROWS [a]) }"

definition ggml_cumsum :: "ggml_state \<Rightarrow> ptr \<Rightarrow> built" where
  "ggml_cumsum s a = do {
     ta \<leftarrow> deref s a;
     ggml_assert (t_type ta = GGML_TYPE_F32);
     (result, s) \<leftarrow> ggml_dup_tensor s a;
     Some (result, set_op s result GGML_OP_CUMSUM [a]) }"

definition ggml_mean :: "ggml_state \<Rightarrow> ptr \<Rightarrow> built" where
  "ggml_mean s a = do {
     ta \<leftarrow> deref s a;
     (result, s) \<leftarrow> ggml_new_tensor s GGML_TYPE_F32 4 [1, t_ne ta ! 1, t_ne ta ! 2, t_ne ta ! 3];
     Some (result, set_op s result GGML_OP_MEAN [a]) }"

abbreviation (input) INT32_MAX :: int where "INT32_MAX \<equiv> 2147483647"

definition ggml_argmax :: "ggml_state \<Rightarrow> ptr \<Rightarrow> built" where
  "ggml_argmax s a = do {
     ta \<leftarrow> deref s a;
     ggml_assert (ggml_is_matrix ta);
     ggml_assert (t_ne ta ! 0 \<le> INT32_MAX);
     (result, s) \<leftarrow> ggml_new_tensor_1d s GGML_TYPE_I32 (t_ne ta ! 1);
     Some (result, set_op s result GGML_OP_ARGMAX [a]) }"

definition ggml_count_equal :: "ggml_state \<Rightarrow> ptr \<Rightarrow> ptr \<Rightarrow> built" where
  "ggml_count_equal s a b = do {
     ta \<leftarrow> deref s a; tb \<leftarrow> deref s b;
     ggml_assert (ggml_are_same_shape ta tb);
     (result, s) \<leftarrow> ggml_new_tensor_1d s GGML_TYPE_I64 1;
     Some (result, set_op s result GGML_OP_COUNT_EQUAL [a, b]) }"

definition ggml_repeat :: "ggml_state \<Rightarrow> ptr \<Rightarrow> ptr \<Rightarrow> built" where
  "ggml_repeat s a b = do {
     ta \<leftarrow> deref s a; tb \<leftarrow> deref s b;
     ggml_assert (ggml_can_repeat ta tb);
     (result, s) \<leftarrow> ggml_new_tensor s (t_type ta) 4 (t_ne tb);
     Some (result, set_op s result GGML_OP_REPEAT [a]) }"

text \<open>The remainders are only taken when no extent of \<open>a\<close> is zero.\<close>

definition ggml_repeat_4d :: "ggml_state \<Rightarrow> ptr \<Rightarrow> int64_t \<Rightarrow> int64_t \<Rightarrow> int64_t \<Rightarrow> int64_t \<Rightarrow> built" where
  "ggml_repeat_4d s a ne0 ne1 ne2 ne3 = do {
     ta \<leftarrow> deref s a;
     let can_repeat = (ggml_is_empty ta \<or>
       (ne0 smod t_ne ta ! 0 = 0 \<and> ne1 smod t_ne ta ! 1 = 0 \<and> ne2 smod t_ne ta ! 2 = 0 \<and> ne3 smod t_ne ta ! 3 = 0));
     ggml_assert can_repeat;
     (result, s) \<leftarrow> ggml_new_tensor_4d s (t_type ta) ne0 ne1 ne2 ne3;
     Some (result, set_op s result GGML_OP_REPEAT [a]) }"

definition ggml_repeat_back :: "ggml_state \<Rightarrow> ptr \<Rightarrow> ptr \<Rightarrow> built" where
  "ggml_repeat_back s a b = do {
     ta \<leftarrow> deref s a; tb \<leftarrow> deref s b;
     ggml_assert (ggml_can_repeat tb ta);
     (result, s) \<leftarrow> ggml_new_tensor s (t_type ta) 4 (t_ne tb);
     Some (result, set_op s result GGML_OP_REPEAT_BACK [a]) }"

text \<open>One turn of the loop over the dimensions: the extent of dimension \<open>d\<close>, with the check that
  the shapes agree outside the concatenated dimension.\<close>

definition concat_extent :: "ggml_tensor \<Rightarrow> ggml_tensor \<Rightarrow> int \<Rightarrow> nat \<Rightarrow> int64_t option" where
  "concat_extent ta tb cdim d =
     (if int d = cdim then Some (i64 (t_ne ta ! d + t_ne tb ! d))
      else do { ggml_assert (t_ne ta ! d = t_ne tb ! d); Some (t_ne ta ! d) })"

definition ggml_concat :: "ggml_state \<Rightarrow> ptr \<Rightarrow> ptr \<Rightarrow> int \<Rightarrow> built" where
  "ggml_concat s a b cdim = do {
     ggml_assert (cdim \<ge> 0 \<and> cdim < int GGML_MAX_DIMS);
     ta \<leftarrow> deref s a; tb \<leftarrow> deref s b;
     ggml_assert (t_type ta = t_type tb);
     ne0 \<leftarrow> concat_extent ta tb cdim 0;
     ne1 \<leftarrow> concat_extent ta tb cdim 1;
     ne2 \<leftarrow> concat_extent ta tb cdim 2;
     ne3 \<leftarrow> concat_extent ta tb cdim 3;
     (result, s) \<leftarrow> ggml_new_tensor s (t_type ta) 4 [ne0, ne1, ne2, ne3];
     let s = set_param_i32 s result 0 cdim;
     Some (result, set_op s result GGML_OP_CONCAT [a, b]) }"

section \<open>Activation functions\<close>

definition ggml_abs :: "ggml_state \<Rightarrow> ptr \<Rightarrow> built" where
  "ggml_abs s a = ggml_unary s a GGML_UNARY_OP_ABS"

definition ggml_abs_inplace :: "ggml_state \<Rightarrow> ptr \<Rightarrow> built" where
  "ggml_abs_inplace s a = ggml_unary_inplace s a GGML_UNARY_OP_ABS"

definition ggml_sgn :: "ggml_state \<Rightarrow> ptr \<Rightarrow> built" where
  "ggml_sgn s a = ggml_unary s a GGML_UNARY_OP_SGN"

definition ggml_sgn_inplace :: "ggml_state \<Rightarrow> ptr \<Rightarrow> built" where
  "ggml_sgn_inplace s a = ggml_unary_inplace s a GGML_UNARY_OP_SGN"

definition ggml_neg :: "ggml_state \<Rightarrow> ptr \<Rightarrow> built" where
  "ggml_neg s a = ggml_unary s a GGML_UNARY_OP_NEG"

definition ggml_neg_inplace :: "ggml_state \<Rightarrow> ptr \<Rightarrow> built" where
  "ggml_neg_inplace s a = ggml_unary_inplace s a GGML_UNARY_OP_NEG"

definition ggml_step :: "ggml_state \<Rightarrow> ptr \<Rightarrow> built" where
  "ggml_step s a = ggml_unary s a GGML_UNARY_OP_STEP"

definition ggml_step_inplace :: "ggml_state \<Rightarrow> ptr \<Rightarrow> built" where
  "ggml_step_inplace s a = ggml_unary_inplace s a GGML_UNARY_OP_STEP"

definition ggml_tanh :: "ggml_state \<Rightarrow> ptr \<Rightarrow> built" where
  "ggml_tanh s a = ggml_unary s a GGML_UNARY_OP_TANH"

definition ggml_tanh_inplace :: "ggml_state \<Rightarrow> ptr \<Rightarrow> built" where
  "ggml_tanh_inplace s a = ggml_unary_inplace s a GGML_UNARY_OP_TANH"

definition ggml_elu :: "ggml_state \<Rightarrow> ptr \<Rightarrow> built" where
  "ggml_elu s a = ggml_unary s a GGML_UNARY_OP_ELU"

definition ggml_elu_inplace :: "ggml_state \<Rightarrow> ptr \<Rightarrow> built" where
  "ggml_elu_inplace s a = ggml_unary_inplace s a GGML_UNARY_OP_ELU"

definition ggml_relu :: "ggml_state \<Rightarrow> ptr \<Rightarrow> built" where
  "ggml_relu s a = ggml_unary s a GGML_UNARY_OP_RELU"

definition ggml_relu_inplace :: "ggml_state \<Rightarrow> ptr \<Rightarrow> built" where
  "ggml_relu_inplace s a = ggml_unary_inplace s a GGML_UNARY_OP_RELU"

definition ggml_leaky_relu :: "ggml_state \<Rightarrow> ptr \<Rightarrow> f32 \<Rightarrow> bool \<Rightarrow> built" where
  "ggml_leaky_relu s a negative_slope inplace = do {
     (result, s) \<leftarrow> view_or_dup s a inplace;
     let s = set_params s result [negative_slope];
     Some (result, set_op s result GGML_OP_LEAKY_RELU [a]) }"

definition ggml_sigmoid :: "ggml_state \<Rightarrow> ptr \<Rightarrow> built" where
  "ggml_sigmoid s a = ggml_unary s a GGML_UNARY_OP_SIGMOID"

definition ggml_sigmoid_inplace :: "ggml_state \<Rightarrow> ptr \<Rightarrow> built" where
  "ggml_sigmoid_inplace s a = ggml_unary_inplace s a GGML_UNARY_OP_SIGMOID"

definition ggml_gelu :: "ggml_state \<Rightarrow> ptr \<Rightarrow> built" where
  "ggml_gelu s a = ggml_unary s a GGML_UNARY_OP_GELU"

definition ggml_gelu_inplace :: "ggml_state \<Rightarrow> ptr \<Rightarrow> built" where
  "ggml_gelu_inplace s a = ggml_unary_inplace s a GGML_UNARY_OP_GELU"

definition ggml_gelu_erf :: "ggml_state \<Rightarrow> ptr \<Rightarrow> built" where
  "ggml_gelu_erf s a = ggml_unary s a GGML_UNARY_OP_GELU_ERF"

definition ggml_gelu_erf_inplace :: "ggml_state \<Rightarrow> ptr \<Rightarrow> built" where
  "ggml_gelu_erf_inplace s a = ggml_unary_inplace s a GGML_UNARY_OP_GELU_ERF"

definition ggml_gelu_quick :: "ggml_state \<Rightarrow> ptr \<Rightarrow> built" where
  "ggml_gelu_quick s a = ggml_unary s a GGML_UNARY_OP_GELU_QUICK"

definition ggml_gelu_quick_inplace :: "ggml_state \<Rightarrow> ptr \<Rightarrow> built" where
  "ggml_gelu_quick_inplace s a = ggml_unary_inplace s a GGML_UNARY_OP_GELU_QUICK"

definition ggml_silu :: "ggml_state \<Rightarrow> ptr \<Rightarrow> built" where
  "ggml_silu s a = ggml_unary s a GGML_UNARY_OP_SILU"

definition ggml_silu_inplace :: "ggml_state \<Rightarrow> ptr \<Rightarrow> built" where
  "ggml_silu_inplace s a = ggml_unary_inplace s a GGML_UNARY_OP_SILU"

definition ggml_compute_softplus_f32 :: "float_ops \<Rightarrow> f32 \<Rightarrow> f32" where
  "ggml_compute_softplus_f32 fl input =
     (if f32_gt_20 input then input else fl_logf fl (fl_add fl f32_1 (fl_expf fl input)))"

definition ggml_xielu :: "float_ops \<Rightarrow> ggml_state \<Rightarrow> ptr \<Rightarrow> f32 \<Rightarrow> f32 \<Rightarrow> f32 \<Rightarrow> f32 \<Rightarrow> built" where
  "ggml_xielu fl s a alpha_n alpha_p beta eps = do {
     (result, s) \<leftarrow> ggml_dup_tensor s a;
     let s = set_param_i32 s result 0 (int (ggml_unary_op_code GGML_UNARY_OP_XIELU));
     let s = set_param_f32 s result 1 (fl_add fl beta (ggml_compute_softplus_f32 fl alpha_n));
     let s = set_param_f32 s result 2 (ggml_compute_softplus_f32 fl alpha_p);
     let s = set_param_f32 s result 3 beta;
     let s = set_param_f32 s result 4 eps;
     Some (result, set_op s result GGML_OP_UNARY [a]) }"

definition ggml_silu_back :: "ggml_state \<Rightarrow> ptr \<Rightarrow> ptr \<Rightarrow> built" where
  "ggml_silu_back s a b = do {
     (result, s) \<leftarrow> ggml_dup_tensor s a;
     Some (result, set_op s result GGML_OP_SILU_BACK [a, b]) }"

definition ggml_hardswish :: "ggml_state \<Rightarrow> ptr \<Rightarrow> built" where
  "ggml_hardswish s a = ggml_unary s a GGML_UNARY_OP_HARDSWISH"

definition ggml_hardsigmoid :: "ggml_state \<Rightarrow> ptr \<Rightarrow> built" where
  "ggml_hardsigmoid s a = ggml_unary s a GGML_UNARY_OP_HARDSIGMOID"

definition ggml_exp :: "ggml_state \<Rightarrow> ptr \<Rightarrow> built" where
  "ggml_exp s a = ggml_unary s a GGML_UNARY_OP_EXP"

definition ggml_exp_inplace :: "ggml_state \<Rightarrow> ptr \<Rightarrow> built" where
  "ggml_exp_inplace s a = ggml_unary_inplace s a GGML_UNARY_OP_EXP"

definition ggml_glu_impl :: "ggml_state \<Rightarrow> ptr \<Rightarrow> ptr \<Rightarrow> ggml_glu_op \<Rightarrow> bool \<Rightarrow> built" where
  "ggml_glu_impl s a b op swapped = do {
     ta \<leftarrow> deref s a;
     ggml_assert (ggml_is_contiguous_1 ta);
     if_given s b (\<lambda>tb. do {
       ggml_assert (ggml_is_contiguous_1 tb);
       ggml_assert (ggml_are_same_shape ta tb);
       ggml_assert (t_type ta = t_type tb) });
     let ne = [t_ne ta ! 0 sdiv 2, t_ne ta ! 1, t_ne ta ! 2, t_ne ta ! 3];
     (result, s) \<leftarrow> ggml_new_tensor_impl s (t_type ta) 4 (if b \<noteq> 0 then t_ne ta else ne) 0 0;
     let s = set_param_i32 s result 0 (int (ggml_glu_op_code op));
     let s = set_param_i32 s result 1 (if swapped then 1 else 0);
     Some (result, set_op s result GGML_OP_GLU [a, b]) }"

definition ggml_floor :: "ggml_state \<Rightarrow> ptr \<Rightarrow> built" where
  "ggml_floor s a = ggml_unary s a GGML_UNARY_OP_FLOOR"

definition ggml_floor_inplace :: "ggml_state \<Rightarrow> ptr \<Rightarrow> built" where
  "ggml_floor_inplace s a = ggml_unary_inplace s a GGML_UNARY_OP_FLOOR"

definition ggml_ceil :: "ggml_state \<Rightarrow> ptr \<Rightarrow> built" where
  "ggml_ceil s a = ggml_unary s a GGML_UNARY_OP_CEIL"

definition ggml_ceil_inplace :: "ggml_state \<Rightarrow> ptr \<Rightarrow> built" where
  "ggml_ceil_inplace s a = ggml_unary_inplace s a GGML_UNARY_OP_CEIL"

definition ggml_round :: "ggml_state \<Rightarrow> ptr \<Rightarrow> built" where
  "ggml_round s a = ggml_unary s a GGML_UNARY_OP_ROUND"

definition ggml_round_inplace :: "ggml_state \<Rightarrow> ptr \<Rightarrow> built" where
  "ggml_round_inplace s a = ggml_unary_inplace s a GGML_UNARY_OP_ROUND"

definition ggml_trunc :: "ggml_state \<Rightarrow> ptr \<Rightarrow> built" where
  "ggml_trunc s a = ggml_unary s a GGML_UNARY_OP_TRUNC"

definition ggml_trunc_inplace :: "ggml_state \<Rightarrow> ptr \<Rightarrow> built" where
  "ggml_trunc_inplace s a = ggml_unary_inplace s a GGML_UNARY_OP_TRUNC"

definition ggml_glu ::
  "ggml_state \<Rightarrow> ptr \<Rightarrow> ggml_glu_op \<Rightarrow> bool \<Rightarrow> built" where
  "ggml_glu s a op swapped = ggml_glu_impl s a 0 op swapped"

definition ggml_glu_split ::
  "ggml_state \<Rightarrow> ptr \<Rightarrow> ptr \<Rightarrow> ggml_glu_op \<Rightarrow> built" where
  "ggml_glu_split s a b op = ggml_glu_impl s a b op False"

definition ggml_reglu :: "ggml_state \<Rightarrow> ptr \<Rightarrow> built" where
  "ggml_reglu s a = ggml_glu_impl s a 0 GGML_GLU_OP_REGLU False"

definition ggml_reglu_swapped :: "ggml_state \<Rightarrow> ptr \<Rightarrow> built" where
  "ggml_reglu_swapped s a = ggml_glu_impl s a 0 GGML_GLU_OP_REGLU True"

definition ggml_reglu_split :: "ggml_state \<Rightarrow> ptr \<Rightarrow> ptr \<Rightarrow> built" where
  "ggml_reglu_split s a b = ggml_glu_impl s a b GGML_GLU_OP_REGLU False"

definition ggml_geglu :: "ggml_state \<Rightarrow> ptr \<Rightarrow> built" where
  "ggml_geglu s a = ggml_glu_impl s a 0 GGML_GLU_OP_GEGLU False"

definition ggml_geglu_swapped :: "ggml_state \<Rightarrow> ptr \<Rightarrow> built" where
  "ggml_geglu_swapped s a = ggml_glu_impl s a 0 GGML_GLU_OP_GEGLU True"

definition ggml_geglu_split :: "ggml_state \<Rightarrow> ptr \<Rightarrow> ptr \<Rightarrow> built" where
  "ggml_geglu_split s a b = ggml_glu_impl s a b GGML_GLU_OP_GEGLU False"

definition ggml_swiglu :: "ggml_state \<Rightarrow> ptr \<Rightarrow> built" where
  "ggml_swiglu s a = ggml_glu_impl s a 0 GGML_GLU_OP_SWIGLU False"

definition ggml_swiglu_swapped :: "ggml_state \<Rightarrow> ptr \<Rightarrow> built" where
  "ggml_swiglu_swapped s a = ggml_glu_impl s a 0 GGML_GLU_OP_SWIGLU True"

definition ggml_swiglu_split :: "ggml_state \<Rightarrow> ptr \<Rightarrow> ptr \<Rightarrow> built" where
  "ggml_swiglu_split s a b = ggml_glu_impl s a b GGML_GLU_OP_SWIGLU False"

definition ggml_geglu_erf :: "ggml_state \<Rightarrow> ptr \<Rightarrow> built" where
  "ggml_geglu_erf s a = ggml_glu_impl s a 0 GGML_GLU_OP_GEGLU_ERF False"

definition ggml_geglu_erf_swapped :: "ggml_state \<Rightarrow> ptr \<Rightarrow> built" where
  "ggml_geglu_erf_swapped s a = ggml_glu_impl s a 0 GGML_GLU_OP_GEGLU_ERF True"

definition ggml_geglu_erf_split :: "ggml_state \<Rightarrow> ptr \<Rightarrow> ptr \<Rightarrow> built" where
  "ggml_geglu_erf_split s a b = ggml_glu_impl s a b GGML_GLU_OP_GEGLU_ERF False"

definition ggml_geglu_quick :: "ggml_state \<Rightarrow> ptr \<Rightarrow> built" where
  "ggml_geglu_quick s a = ggml_glu_impl s a 0 GGML_GLU_OP_GEGLU_QUICK False"

definition ggml_geglu_quick_swapped :: "ggml_state \<Rightarrow> ptr \<Rightarrow> built" where
  "ggml_geglu_quick_swapped s a = ggml_glu_impl s a 0 GGML_GLU_OP_GEGLU_QUICK True"

definition ggml_geglu_quick_split :: "ggml_state \<Rightarrow> ptr \<Rightarrow> ptr \<Rightarrow> built" where
  "ggml_geglu_quick_split s a b = ggml_glu_impl s a b GGML_GLU_OP_GEGLU_QUICK False"

definition ggml_swiglu_oai :: "ggml_state \<Rightarrow> ptr \<Rightarrow> ptr \<Rightarrow> f32 \<Rightarrow> f32 \<Rightarrow> built" where
  "ggml_swiglu_oai s a b alpha limit = do {
     (result, s) \<leftarrow> ggml_glu_impl s a b GGML_GLU_OP_SWIGLU_OAI False;
     let s = set_param_f32 s result 2 alpha;
     Some (result, set_param_f32 s result 3 limit) }"

section \<open>Normalisation\<close>

definition ggml_norm_impl :: "ggml_state \<Rightarrow> ptr \<Rightarrow> f32 \<Rightarrow> bool \<Rightarrow> built" where
  "ggml_norm_impl s a eps inplace = do {
     (result, s) \<leftarrow> view_or_dup s a inplace;
     let s = set_params s result [eps];
     Some (result, set_op s result GGML_OP_NORM [a]) }"

definition ggml_norm :: "ggml_state \<Rightarrow> ptr \<Rightarrow> f32 \<Rightarrow> built" where
  "ggml_norm s a eps = ggml_norm_impl s a eps False"

definition ggml_norm_inplace :: "ggml_state \<Rightarrow> ptr \<Rightarrow> f32 \<Rightarrow> built" where
  "ggml_norm_inplace s a eps = ggml_norm_impl s a eps True"

definition ggml_rms_norm_impl :: "ggml_state \<Rightarrow> ptr \<Rightarrow> f32 \<Rightarrow> bool \<Rightarrow> built" where
  "ggml_rms_norm_impl s a eps inplace = do {
     (result, s) \<leftarrow> view_or_dup s a inplace;
     let s = set_params s result [eps];
     Some (result, set_op s result GGML_OP_RMS_NORM [a]) }"

definition ggml_rms_norm :: "ggml_state \<Rightarrow> ptr \<Rightarrow> f32 \<Rightarrow> built" where
  "ggml_rms_norm s a eps = ggml_rms_norm_impl s a eps False"

definition ggml_rms_norm_inplace :: "ggml_state \<Rightarrow> ptr \<Rightarrow> f32 \<Rightarrow> built" where
  "ggml_rms_norm_inplace s a eps = ggml_rms_norm_impl s a eps True"

definition ggml_rms_norm_back :: "ggml_state \<Rightarrow> ptr \<Rightarrow> ptr \<Rightarrow> f32 \<Rightarrow> built" where
  "ggml_rms_norm_back s a b eps = do {
     (result, s) \<leftarrow> ggml_dup_tensor s a;
     let s = set_params s result [eps];
     Some (result, set_op s result GGML_OP_RMS_NORM_BACK [a, b]) }"

definition ggml_group_norm_impl :: "ggml_state \<Rightarrow> ptr \<Rightarrow> int32_t \<Rightarrow> f32 \<Rightarrow> bool \<Rightarrow> built" where
  "ggml_group_norm_impl s a n_groups eps inplace = do {
     (result, s) \<leftarrow> view_or_dup s a inplace;
     let s = set_param_i32 s result 0 n_groups;
     let s = set_param_f32 s result 1 eps;
     Some (result, set_op s result GGML_OP_GROUP_NORM [a]) }"

definition ggml_group_norm ::
  "ggml_state \<Rightarrow> ptr \<Rightarrow> int32_t \<Rightarrow> f32 \<Rightarrow> built" where
  "ggml_group_norm s a n_groups eps = ggml_group_norm_impl s a n_groups eps False"

definition ggml_group_norm_inplace ::
  "ggml_state \<Rightarrow> ptr \<Rightarrow> int32_t \<Rightarrow> f32 \<Rightarrow> built" where
  "ggml_group_norm_inplace s a n_groups eps = ggml_group_norm_impl s a n_groups eps True"

definition ggml_l2_norm_impl :: "ggml_state \<Rightarrow> ptr \<Rightarrow> f32 \<Rightarrow> bool \<Rightarrow> built" where
  "ggml_l2_norm_impl s a eps inplace = do {
     (result, s) \<leftarrow> view_or_dup s a inplace;
     let s = set_param_f32 s result 0 eps;
     Some (result, set_op s result GGML_OP_L2_NORM [a]) }"

definition ggml_l2_norm :: "ggml_state \<Rightarrow> ptr \<Rightarrow> f32 \<Rightarrow> built" where
  "ggml_l2_norm s a eps = ggml_l2_norm_impl s a eps False"

definition ggml_l2_norm_inplace :: "ggml_state \<Rightarrow> ptr \<Rightarrow> f32 \<Rightarrow> built" where
  "ggml_l2_norm_inplace s a eps = ggml_l2_norm_impl s a eps True"

section \<open>Matrix products\<close>

text \<open>The remainder by an extent of zero stops the program; \<open>&&\<close> does not take it when an earlier
  test has failed.\<close>

definition ggml_can_mul_mat :: "ggml_tensor \<Rightarrow> ggml_tensor \<Rightarrow> bool option" where
  "ggml_can_mul_mat t0 t1 =
     (if t_ne t0 ! 0 \<noteq> t_ne t1 ! 0 then Some False
      else do {
        r2 \<leftarrow> c_mod (t_ne t1 ! 2) (t_ne t0 ! 2);
        if r2 \<noteq> 0 then Some False
        else do { r3 \<leftarrow> c_mod (t_ne t1 ! 3) (t_ne t0 ! 3); Some (r3 = 0) } })"

definition ggml_mul_mat :: "ggml_state \<Rightarrow> ptr \<Rightarrow> ptr \<Rightarrow> built" where
  "ggml_mul_mat s a b = do {
     ta \<leftarrow> deref s a; tb \<leftarrow> deref s b;
     can_mul_mat \<leftarrow> ggml_can_mul_mat ta tb;
     ggml_assert can_mul_mat;
     ggml_assert (\<not> ggml_is_transposed ta);
     (result, s) \<leftarrow> ggml_new_tensor s GGML_TYPE_F32 4 [t_ne ta ! 1, t_ne tb ! 1, t_ne tb ! 2, t_ne tb ! 3];
     Some (result, set_op s result GGML_OP_MUL_MAT [a, b]) }"

definition ggml_mul_mat_set_prec :: "ggml_state \<Rightarrow> ptr \<Rightarrow> int32_t \<Rightarrow> ggml_state option" where
  "ggml_mul_mat_set_prec s a prec = do {
     ta \<leftarrow> deref s a;
     ggml_assert (t_op ta = GGML_OP_MUL_MAT);
     Some (set_param_i32 s a 0 prec) }"

definition ggml_mul_mat_set_hint :: "ggml_state \<Rightarrow> ptr \<Rightarrow> int32_t \<Rightarrow> ggml_state option" where
  "ggml_mul_mat_set_hint s a hint = do {
     ta \<leftarrow> deref s a;
     ggml_assert (t_op ta = GGML_OP_MUL_MAT);
     Some (set_param_i32 s a 1 hint) }"

definition ggml_mul_mat_id :: "ggml_state \<Rightarrow> ptr \<Rightarrow> ptr \<Rightarrow> ptr \<Rightarrow> built" where
  "ggml_mul_mat_id s experts b ids = do {
     ta \<leftarrow> deref s experts; tb \<leftarrow> deref s b; ti \<leftarrow> deref s ids;
     ggml_assert (\<not> ggml_is_transposed ta);
     ggml_assert (t_type ti = GGML_TYPE_I32);
     ggml_assert (t_ne ta ! 3 = 1);
     ggml_assert (t_ne tb ! 3 = 1);
     ggml_assert (t_ne ti ! 2 = 1 \<and> t_ne ti ! 3 = 1);
     ggml_assert (t_ne ti ! 1 = t_ne tb ! 2);
     ggml_assert (t_ne ta ! 0 = t_ne tb ! 0);
     rm \<leftarrow> c_mod (t_ne ti ! 0) (t_ne tb ! 1);
     ggml_assert (rm = 0);
     (result, s) \<leftarrow> ggml_new_tensor s GGML_TYPE_F32 4 [t_ne ta ! 1, t_ne ti ! 0, t_ne tb ! 2, 1];
     Some (result, set_op s result GGML_OP_MUL_MAT_ID [experts, b, ids]) }"

definition ggml_can_out_prod :: "ggml_tensor \<Rightarrow> ggml_tensor \<Rightarrow> bool option" where
  "ggml_can_out_prod t0 t1 =
     (if t_ne t0 ! 1 \<noteq> t_ne t1 ! 1 then Some False
      else do {
        r2 \<leftarrow> c_mod (t_ne t1 ! 2) (t_ne t0 ! 2);
        if r2 \<noteq> 0 then Some False
        else do { r3 \<leftarrow> c_mod (t_ne t1 ! 3) (t_ne t0 ! 3); Some (r3 = 0) } })"

definition ggml_out_prod :: "ggml_state \<Rightarrow> ptr \<Rightarrow> ptr \<Rightarrow> built" where
  "ggml_out_prod s a b = do {
     ta \<leftarrow> deref s a; tb \<leftarrow> deref s b;
     can_out_prod \<leftarrow> ggml_can_out_prod ta tb;
     ggml_assert can_out_prod;
     ggml_assert (\<not> ggml_is_transposed ta);
     (result, s) \<leftarrow> ggml_new_tensor s GGML_TYPE_F32 4 [t_ne ta ! 0, t_ne tb ! 0, t_ne tb ! 2, t_ne tb ! 3];
     Some (result, set_op s result GGML_OP_OUT_PROD [a, b]) }"

section \<open>Scaling and writing into a tensor\<close>

definition ggml_scale_impl :: "ggml_state \<Rightarrow> ptr \<Rightarrow> f32 \<Rightarrow> f32 \<Rightarrow> bool \<Rightarrow> built" where
  "ggml_scale_impl s a scale bias inplace = do {
     ta \<leftarrow> deref s a;
     ggml_assert (ggml_is_padded_1d ta);
     (result, s) \<leftarrow> view_or_dup s a inplace;
     let s = set_params s result [scale, bias];
     Some (result, set_op s result GGML_OP_SCALE [a]) }"

definition ggml_scale :: "ggml_state \<Rightarrow> ptr \<Rightarrow> f32 \<Rightarrow> built" where
  "ggml_scale s a scale = ggml_scale_impl s a scale 0 False"

definition ggml_scale_inplace :: "ggml_state \<Rightarrow> ptr \<Rightarrow> f32 \<Rightarrow> built" where
  "ggml_scale_inplace s a scale = ggml_scale_impl s a scale 0 True"

definition ggml_scale_bias :: "ggml_state \<Rightarrow> ptr \<Rightarrow> f32 \<Rightarrow> f32 \<Rightarrow> built" where
  "ggml_scale_bias s a scale bias = ggml_scale_impl s a scale bias False"

definition ggml_scale_bias_inplace :: "ggml_state \<Rightarrow> ptr \<Rightarrow> f32 \<Rightarrow> f32 \<Rightarrow> built" where
  "ggml_scale_bias_inplace s a scale bias = ggml_scale_impl s a scale bias True"

definition ggml_set_impl ::
  "ggml_state \<Rightarrow> ptr \<Rightarrow> ptr \<Rightarrow> size_t \<Rightarrow> size_t \<Rightarrow> size_t \<Rightarrow> size_t \<Rightarrow> bool \<Rightarrow> built" where
  "ggml_set_impl s a b nb1 nb2 nb3 offset inplace = do {
     ta \<leftarrow> deref s a; tb \<leftarrow> deref s b;
     ggml_assert (ggml_nelements ta \<ge> ggml_nelements tb);
     (result, s) \<leftarrow> view_or_dup s a inplace;
     ggml_assert (offset < 2 ^ 30);
     let params = [word_of_nat nb1, word_of_nat nb2, word_of_nat nb3, word_of_nat offset, if inplace then 1 else 0];
     let s = set_params s result params;
     Some (result, set_op s result GGML_OP_SET [a, b]) }"

definition ggml_set ::
  "ggml_state \<Rightarrow> ptr \<Rightarrow> ptr \<Rightarrow> size_t \<Rightarrow> size_t \<Rightarrow> size_t \<Rightarrow> size_t \<Rightarrow> built" where
  "ggml_set s a b nb1 nb2 nb3 offset = ggml_set_impl s a b nb1 nb2 nb3 offset False"

definition ggml_set_inplace ::
  "ggml_state \<Rightarrow> ptr \<Rightarrow> ptr \<Rightarrow> size_t \<Rightarrow> size_t \<Rightarrow> size_t \<Rightarrow> size_t \<Rightarrow> built" where
  "ggml_set_inplace s a b nb1 nb2 nb3 offset = ggml_set_impl s a b nb1 nb2 nb3 offset True"

definition ggml_set_1d :: "ggml_state \<Rightarrow> ptr \<Rightarrow> ptr \<Rightarrow> size_t \<Rightarrow> built" where
  "ggml_set_1d s a b offset = do {
     ta \<leftarrow> deref s a;
     ggml_set_impl s a b (t_nb ta ! 1) (t_nb ta ! 2) (t_nb ta ! 3) offset False }"

definition ggml_set_1d_inplace :: "ggml_state \<Rightarrow> ptr \<Rightarrow> ptr \<Rightarrow> size_t \<Rightarrow> built" where
  "ggml_set_1d_inplace s a b offset = do {
     ta \<leftarrow> deref s a;
     ggml_set_impl s a b (t_nb ta ! 1) (t_nb ta ! 2) (t_nb ta ! 3) offset True }"

definition ggml_set_2d :: "ggml_state \<Rightarrow> ptr \<Rightarrow> ptr \<Rightarrow> size_t \<Rightarrow> size_t \<Rightarrow> built" where
  "ggml_set_2d s a b nb1 offset = do {
     ta \<leftarrow> deref s a;
     ggml_set_impl s a b nb1 (t_nb ta ! 2) (t_nb ta ! 3) offset False }"

definition ggml_set_2d_inplace :: "ggml_state \<Rightarrow> ptr \<Rightarrow> ptr \<Rightarrow> size_t \<Rightarrow> size_t \<Rightarrow> built" where
  "ggml_set_2d_inplace s a b nb1 offset = do {
     ta \<leftarrow> deref s a;
     ggml_set_impl s a b nb1 (t_nb ta ! 2) (t_nb ta ! 3) offset True }"

section \<open>The nodes they add\<close>

lemma ggml_dup_impl_node:
  assumes "ggml_dup_impl s a inplace = Some (r, s')" "ctx_inv s" "deref s a = Some ta" "valid_args s [a]"
  shows "op_node s r s' GGML_OP_DUP (t_type ta) (t_ne ta) [a]"
  using assms by (auto simp: ggml_dup_impl_def node_simps deref_dom deref_len intro!: node_set intro: node_new)

lemma ggml_dup_impl_adds [node_adds]:
  "ggml_dup_impl s a inplace = Some (r, s') \<Longrightarrow> ctx_inv s \<Longrightarrow> valid_args s [a] \<Longrightarrow> adds s r s'"
  by (cases "deref s a") ((rule ggml_dup_impl_node [THEN op_node_adds], assumption+) | simp add: ggml_dup_impl_def none_simps)+

lemma ggml_add_impl_node:
  assumes "ggml_add_impl s a b inplace = Some (r, s')" "ctx_inv s" "deref s a = Some ta" "valid_args s [a, b]"
  shows "op_node s r s' GGML_OP_ADD (t_type ta) (t_ne ta) [a, b]"
  using assms by (auto simp: ggml_add_impl_def node_simps deref_dom deref_len intro!: node_set intro: node_new)

lemma ggml_add_impl_adds [node_adds]:
  "ggml_add_impl s a b inplace = Some (r, s') \<Longrightarrow> ctx_inv s \<Longrightarrow> valid_args s [a, b] \<Longrightarrow> adds s r s'"
  by (cases "deref s a") ((rule ggml_add_impl_node [THEN op_node_adds], assumption+) | simp add: ggml_add_impl_def none_simps)+

lemma ggml_add_cast_impl_node:
  assumes "ggml_add_cast_impl s a b type = Some (r, s')" "ctx_inv s" "deref s a = Some ta" "valid_args s [a, b]"
  shows "op_node s r s' GGML_OP_ADD type (t_ne ta) [a, b]"
  using assms by (auto simp: ggml_add_cast_impl_def node_simps deref_dom deref_len intro!: node_set intro: node_new)

lemma ggml_add_cast_impl_adds [node_adds]:
  "ggml_add_cast_impl s a b type = Some (r, s') \<Longrightarrow> ctx_inv s \<Longrightarrow> valid_args s [a, b] \<Longrightarrow> adds s r s'"
  by (cases "deref s a") ((rule ggml_add_cast_impl_node [THEN op_node_adds], assumption+) | simp add: ggml_add_cast_impl_def none_simps)+

lemma ggml_add_id_node:
  assumes "ggml_add_id s a b ids = Some (r, s')" "ctx_inv s" "deref s a = Some ta" "valid_args s [a, b, ids]"
  shows "op_node s r s' GGML_OP_ADD_ID (t_type ta) (t_ne ta) [a, b, ids]"
  using assms by (auto simp: ggml_add_id_def node_simps deref_dom deref_len intro!: node_set intro: node_new)

lemma ggml_add_id_adds [node_adds]:
  "ggml_add_id s a b ids = Some (r, s') \<Longrightarrow> ctx_inv s \<Longrightarrow> valid_args s [a, b, ids] \<Longrightarrow> adds s r s'"
  by (cases "deref s a") ((rule ggml_add_id_node [THEN op_node_adds], assumption+) | simp add: ggml_add_id_def none_simps)+

lemma ggml_add1_impl_node:
  assumes "ggml_add1_impl s a b inplace = Some (r, s')" "ctx_inv s" "deref s a = Some ta" "valid_args s [a, b]"
  shows "op_node s r s' GGML_OP_ADD1 (t_type ta) (t_ne ta) [a, b]"
  using assms by (auto simp: ggml_add1_impl_def node_simps deref_dom deref_len intro!: node_set intro: node_new)

lemma ggml_add1_impl_adds [node_adds]:
  "ggml_add1_impl s a b inplace = Some (r, s') \<Longrightarrow> ctx_inv s \<Longrightarrow> valid_args s [a, b] \<Longrightarrow> adds s r s'"
  by (cases "deref s a") ((rule ggml_add1_impl_node [THEN op_node_adds], assumption+) | simp add: ggml_add1_impl_def none_simps)+

lemma ggml_acc_impl_node:
  assumes "ggml_acc_impl s a b nb1 nb2 nb3 offset inplace = Some (r, s')" "ctx_inv s" "deref s a = Some ta" "valid_args s [a, b]"
  shows "op_node s r s' GGML_OP_ACC (t_type ta) (t_ne ta) [a, b]"
  using assms by (auto simp: ggml_acc_impl_def node_simps deref_dom deref_len intro!: node_set intro: node_new)

lemma ggml_acc_impl_adds [node_adds]:
  "ggml_acc_impl s a b nb1 nb2 nb3 offset inplace = Some (r, s') \<Longrightarrow> ctx_inv s \<Longrightarrow> valid_args s [a, b] \<Longrightarrow> adds s r s'"
  by (cases "deref s a") ((rule ggml_acc_impl_node [THEN op_node_adds], assumption+) | simp add: ggml_acc_impl_def none_simps)+

lemma ggml_sub_impl_node:
  assumes "ggml_sub_impl s a b inplace = Some (r, s')" "ctx_inv s" "deref s a = Some ta" "valid_args s [a, b]"
  shows "op_node s r s' GGML_OP_SUB (t_type ta) (t_ne ta) [a, b]"
  using assms by (auto simp: ggml_sub_impl_def node_simps deref_dom deref_len intro!: node_set intro: node_new)

lemma ggml_sub_impl_adds [node_adds]:
  "ggml_sub_impl s a b inplace = Some (r, s') \<Longrightarrow> ctx_inv s \<Longrightarrow> valid_args s [a, b] \<Longrightarrow> adds s r s'"
  by (cases "deref s a") ((rule ggml_sub_impl_node [THEN op_node_adds], assumption+) | simp add: ggml_sub_impl_def none_simps)+

lemma ggml_mul_impl_node:
  assumes "ggml_mul_impl s a b inplace = Some (r, s')" "ctx_inv s" "deref s a = Some ta" "valid_args s [a, b]"
  shows "op_node s r s' GGML_OP_MUL (t_type ta) (t_ne ta) [a, b]"
  using assms by (auto simp: ggml_mul_impl_def node_simps deref_dom deref_len intro!: node_set intro: node_new)

lemma ggml_mul_impl_adds [node_adds]:
  "ggml_mul_impl s a b inplace = Some (r, s') \<Longrightarrow> ctx_inv s \<Longrightarrow> valid_args s [a, b] \<Longrightarrow> adds s r s'"
  by (cases "deref s a") ((rule ggml_mul_impl_node [THEN op_node_adds], assumption+) | simp add: ggml_mul_impl_def none_simps)+

lemma ggml_div_impl_node:
  assumes "ggml_div_impl s a b inplace = Some (r, s')" "ctx_inv s" "deref s a = Some ta" "valid_args s [a, b]"
  shows "op_node s r s' GGML_OP_DIV (t_type ta) (t_ne ta) [a, b]"
  using assms by (auto simp: ggml_div_impl_def node_simps deref_dom deref_len intro!: node_set intro: node_new)

lemma ggml_div_impl_adds [node_adds]:
  "ggml_div_impl s a b inplace = Some (r, s') \<Longrightarrow> ctx_inv s \<Longrightarrow> valid_args s [a, b] \<Longrightarrow> adds s r s'"
  by (cases "deref s a") ((rule ggml_div_impl_node [THEN op_node_adds], assumption+) | simp add: ggml_div_impl_def none_simps)+

lemma ggml_sqr_impl_node:
  assumes "ggml_sqr_impl s a inplace = Some (r, s')" "ctx_inv s" "deref s a = Some ta" "valid_args s [a]"
  shows "op_node s r s' GGML_OP_SQR (t_type ta) (t_ne ta) [a]"
  using assms by (auto simp: ggml_sqr_impl_def node_simps deref_dom deref_len intro!: node_set intro: node_new)

lemma ggml_sqr_impl_adds [node_adds]:
  "ggml_sqr_impl s a inplace = Some (r, s') \<Longrightarrow> ctx_inv s \<Longrightarrow> valid_args s [a] \<Longrightarrow> adds s r s'"
  by (cases "deref s a") ((rule ggml_sqr_impl_node [THEN op_node_adds], assumption+) | simp add: ggml_sqr_impl_def none_simps)+

lemma ggml_sqrt_impl_node:
  assumes "ggml_sqrt_impl s a inplace = Some (r, s')" "ctx_inv s" "deref s a = Some ta" "valid_args s [a]"
  shows "op_node s r s' GGML_OP_SQRT (t_type ta) (t_ne ta) [a]"
  using assms by (auto simp: ggml_sqrt_impl_def node_simps deref_dom deref_len intro!: node_set intro: node_new)

lemma ggml_sqrt_impl_adds [node_adds]:
  "ggml_sqrt_impl s a inplace = Some (r, s') \<Longrightarrow> ctx_inv s \<Longrightarrow> valid_args s [a] \<Longrightarrow> adds s r s'"
  by (cases "deref s a") ((rule ggml_sqrt_impl_node [THEN op_node_adds], assumption+) | simp add: ggml_sqrt_impl_def none_simps)+

lemma ggml_log_impl_node:
  assumes "ggml_log_impl s a inplace = Some (r, s')" "ctx_inv s" "deref s a = Some ta" "valid_args s [a]"
  shows "op_node s r s' GGML_OP_LOG (t_type ta) (t_ne ta) [a]"
  using assms by (auto simp: ggml_log_impl_def node_simps deref_dom deref_len intro!: node_set intro: node_new)

lemma ggml_log_impl_adds [node_adds]:
  "ggml_log_impl s a inplace = Some (r, s') \<Longrightarrow> ctx_inv s \<Longrightarrow> valid_args s [a] \<Longrightarrow> adds s r s'"
  by (cases "deref s a") ((rule ggml_log_impl_node [THEN op_node_adds], assumption+) | simp add: ggml_log_impl_def none_simps)+

lemma ggml_unary_impl_node:
  assumes "ggml_unary_impl s a op inplace = Some (r, s')" "ctx_inv s" "deref s a = Some ta" "valid_args s [a]"
  shows "op_node s r s' GGML_OP_UNARY (t_type ta) (t_ne ta) [a]"
  using assms by (auto simp: ggml_unary_impl_def node_simps deref_dom deref_len intro!: node_set intro: node_new)

lemma ggml_unary_impl_adds [node_adds]:
  "ggml_unary_impl s a op inplace = Some (r, s') \<Longrightarrow> ctx_inv s \<Longrightarrow> valid_args s [a] \<Longrightarrow> adds s r s'"
  by (cases "deref s a") ((rule ggml_unary_impl_node [THEN op_node_adds], assumption+) | simp add: ggml_unary_impl_def none_simps)+

lemma ggml_sin_impl_node:
  assumes "ggml_sin_impl s a inplace = Some (r, s')" "ctx_inv s" "deref s a = Some ta" "valid_args s [a]"
  shows "op_node s r s' GGML_OP_SIN (t_type ta) (t_ne ta) [a]"
  using assms by (auto simp: ggml_sin_impl_def node_simps deref_dom deref_len intro!: node_set intro: node_new)

lemma ggml_sin_impl_adds [node_adds]:
  "ggml_sin_impl s a inplace = Some (r, s') \<Longrightarrow> ctx_inv s \<Longrightarrow> valid_args s [a] \<Longrightarrow> adds s r s'"
  by (cases "deref s a") ((rule ggml_sin_impl_node [THEN op_node_adds], assumption+) | simp add: ggml_sin_impl_def none_simps)+

lemma ggml_cos_impl_node:
  assumes "ggml_cos_impl s a inplace = Some (r, s')" "ctx_inv s" "deref s a = Some ta" "valid_args s [a]"
  shows "op_node s r s' GGML_OP_COS (t_type ta) (t_ne ta) [a]"
  using assms by (auto simp: ggml_cos_impl_def node_simps deref_dom deref_len intro!: node_set intro: node_new)

lemma ggml_cos_impl_adds [node_adds]:
  "ggml_cos_impl s a inplace = Some (r, s') \<Longrightarrow> ctx_inv s \<Longrightarrow> valid_args s [a] \<Longrightarrow> adds s r s'"
  by (cases "deref s a") ((rule ggml_cos_impl_node [THEN op_node_adds], assumption+) | simp add: ggml_cos_impl_def none_simps)+

lemma ggml_sum_node:
  assumes "ggml_sum s a = Some (r, s')" "ctx_inv s" "deref s a = Some ta" "valid_args s [a]"
  shows "op_node s r s' GGML_OP_SUM (t_type ta) [1, 1, 1, 1] [a]"
  using assms by (auto simp: ggml_sum_def node_simps deref_dom deref_len intro!: node_set intro: node_new)

lemma ggml_sum_adds [node_adds]:
  "ggml_sum s a = Some (r, s') \<Longrightarrow> ctx_inv s \<Longrightarrow> valid_args s [a] \<Longrightarrow> adds s r s'"
  by (cases "deref s a") ((rule ggml_sum_node [THEN op_node_adds], assumption+) | simp add: ggml_sum_def none_simps)+

lemma ggml_sum_rows_node:
  assumes "ggml_sum_rows s a = Some (r, s')" "ctx_inv s" "deref s a = Some ta" "valid_args s [a]"
  shows "op_node s r s' GGML_OP_SUM_ROWS (t_type ta) [1, t_ne ta ! 1, t_ne ta ! 2, t_ne ta ! 3] [a]"
  using assms by (auto simp: ggml_sum_rows_def node_simps deref_dom deref_len intro!: node_set intro: node_new)

lemma ggml_sum_rows_adds [node_adds]:
  "ggml_sum_rows s a = Some (r, s') \<Longrightarrow> ctx_inv s \<Longrightarrow> valid_args s [a] \<Longrightarrow> adds s r s'"
  by (cases "deref s a") ((rule ggml_sum_rows_node [THEN op_node_adds], assumption+) | simp add: ggml_sum_rows_def none_simps)+

lemma ggml_cumsum_node:
  assumes "ggml_cumsum s a = Some (r, s')" "ctx_inv s" "deref s a = Some ta" "valid_args s [a]"
  shows "op_node s r s' GGML_OP_CUMSUM (t_type ta) (t_ne ta) [a]"
  using assms by (auto simp: ggml_cumsum_def node_simps deref_dom deref_len intro!: node_set intro: node_new)

lemma ggml_cumsum_adds [node_adds]:
  "ggml_cumsum s a = Some (r, s') \<Longrightarrow> ctx_inv s \<Longrightarrow> valid_args s [a] \<Longrightarrow> adds s r s'"
  by (cases "deref s a") ((rule ggml_cumsum_node [THEN op_node_adds], assumption+) | simp add: ggml_cumsum_def none_simps)+

lemma ggml_mean_node:
  assumes "ggml_mean s a = Some (r, s')" "ctx_inv s" "deref s a = Some ta" "valid_args s [a]"
  shows "op_node s r s' GGML_OP_MEAN GGML_TYPE_F32 [1, t_ne ta ! 1, t_ne ta ! 2, t_ne ta ! 3] [a]"
  using assms by (auto simp: ggml_mean_def node_simps deref_dom deref_len intro!: node_set intro: node_new)

lemma ggml_mean_adds [node_adds]:
  "ggml_mean s a = Some (r, s') \<Longrightarrow> ctx_inv s \<Longrightarrow> valid_args s [a] \<Longrightarrow> adds s r s'"
  by (cases "deref s a") ((rule ggml_mean_node [THEN op_node_adds], assumption+) | simp add: ggml_mean_def none_simps)+

lemma ggml_argmax_node:
  assumes "ggml_argmax s a = Some (r, s')" "ctx_inv s" "deref s a = Some ta" "valid_args s [a]"
  shows "op_node s r s' GGML_OP_ARGMAX GGML_TYPE_I32 [t_ne ta ! 1, 1, 1, 1] [a]"
  using assms by (auto simp: ggml_argmax_def node_simps deref_dom deref_len intro!: node_set intro: node_new)

lemma ggml_argmax_adds [node_adds]:
  "ggml_argmax s a = Some (r, s') \<Longrightarrow> ctx_inv s \<Longrightarrow> valid_args s [a] \<Longrightarrow> adds s r s'"
  by (cases "deref s a") ((rule ggml_argmax_node [THEN op_node_adds], assumption+) | simp add: ggml_argmax_def none_simps)+

lemma ggml_count_equal_node:
  assumes "ggml_count_equal s a b = Some (r, s')" "ctx_inv s" "valid_args s [a, b]"
  shows "op_node s r s' GGML_OP_COUNT_EQUAL GGML_TYPE_I64 [1, 1, 1, 1] [a, b]"
  using assms by (auto simp: ggml_count_equal_def node_simps deref_dom deref_len intro!: node_set intro: node_new)

lemma ggml_count_equal_adds [node_adds]:
  "ggml_count_equal s a b = Some (r, s') \<Longrightarrow> ctx_inv s \<Longrightarrow> valid_args s [a, b] \<Longrightarrow> adds s r s'"
  by (rule ggml_count_equal_node [THEN op_node_adds])

lemma ggml_repeat_node:
  assumes "ggml_repeat s a b = Some (r, s')" "ctx_inv s" "deref s a = Some ta" "deref s b = Some tb" "valid_args s [a, b]"
  shows "op_node s r s' GGML_OP_REPEAT (t_type ta) (t_ne tb) [a]"
  using assms by (auto simp: ggml_repeat_def node_simps deref_dom deref_len intro!: node_set intro: node_new)

lemma ggml_repeat_adds [node_adds]:
  "ggml_repeat s a b = Some (r, s') \<Longrightarrow> ctx_inv s \<Longrightarrow> valid_args s [a, b] \<Longrightarrow> adds s r s'"
  by (cases "deref s a"; cases "deref s b") ((rule ggml_repeat_node [THEN op_node_adds], assumption+) | simp add: ggml_repeat_def none_simps)+

lemma ggml_repeat_4d_node:
  assumes "ggml_repeat_4d s a ne0 ne1 ne2 ne3 = Some (r, s')" "ctx_inv s" "deref s a = Some ta" "valid_args s [a]"
  shows "op_node s r s' GGML_OP_REPEAT (t_type ta) [ne0, ne1, ne2, ne3] [a]"
  using assms by (auto simp: ggml_repeat_4d_def node_simps deref_dom deref_len intro!: node_set intro: node_new)

lemma ggml_repeat_4d_adds [node_adds]:
  "ggml_repeat_4d s a ne0 ne1 ne2 ne3 = Some (r, s') \<Longrightarrow> ctx_inv s \<Longrightarrow> valid_args s [a] \<Longrightarrow> adds s r s'"
  by (cases "deref s a") ((rule ggml_repeat_4d_node [THEN op_node_adds], assumption+) | simp add: ggml_repeat_4d_def none_simps)+

lemma ggml_repeat_back_node:
  assumes "ggml_repeat_back s a b = Some (r, s')" "ctx_inv s" "deref s a = Some ta" "deref s b = Some tb" "valid_args s [a, b]"
  shows "op_node s r s' GGML_OP_REPEAT_BACK (t_type ta) (t_ne tb) [a]"
  using assms by (auto simp: ggml_repeat_back_def node_simps deref_dom deref_len intro!: node_set intro: node_new)

lemma ggml_repeat_back_adds [node_adds]:
  "ggml_repeat_back s a b = Some (r, s') \<Longrightarrow> ctx_inv s \<Longrightarrow> valid_args s [a, b] \<Longrightarrow> adds s r s'"
  by (cases "deref s a"; cases "deref s b") ((rule ggml_repeat_back_node [THEN op_node_adds], assumption+) | simp add: ggml_repeat_back_def none_simps)+

lemma ggml_leaky_relu_node:
  assumes "ggml_leaky_relu s a negative_slope inplace = Some (r, s')" "ctx_inv s" "deref s a = Some ta" "valid_args s [a]"
  shows "op_node s r s' GGML_OP_LEAKY_RELU (t_type ta) (t_ne ta) [a]"
  using assms by (auto simp: ggml_leaky_relu_def node_simps deref_dom deref_len intro!: node_set intro: node_new)

lemma ggml_leaky_relu_adds [node_adds]:
  "ggml_leaky_relu s a negative_slope inplace = Some (r, s') \<Longrightarrow> ctx_inv s \<Longrightarrow> valid_args s [a] \<Longrightarrow> adds s r s'"
  by (cases "deref s a") ((rule ggml_leaky_relu_node [THEN op_node_adds], assumption+) | simp add: ggml_leaky_relu_def none_simps)+

lemma ggml_xielu_node:
  assumes "ggml_xielu fl s a alpha_n alpha_p beta eps = Some (r, s')" "ctx_inv s" "deref s a = Some ta" "valid_args s [a]"
  shows "op_node s r s' GGML_OP_UNARY (t_type ta) (t_ne ta) [a]"
  using assms by (auto simp: ggml_xielu_def node_simps deref_dom deref_len intro!: node_set intro: node_new)

lemma ggml_xielu_adds [node_adds]:
  "ggml_xielu fl s a alpha_n alpha_p beta eps = Some (r, s') \<Longrightarrow> ctx_inv s \<Longrightarrow> valid_args s [a] \<Longrightarrow> adds s r s'"
  by (cases "deref s a") ((rule ggml_xielu_node [THEN op_node_adds], assumption+) | simp add: ggml_xielu_def none_simps)+

lemma ggml_silu_back_node:
  assumes "ggml_silu_back s a b = Some (r, s')" "ctx_inv s" "deref s a = Some ta" "valid_args s [a, b]"
  shows "op_node s r s' GGML_OP_SILU_BACK (t_type ta) (t_ne ta) [a, b]"
  using assms by (auto simp: ggml_silu_back_def node_simps deref_dom deref_len intro!: node_set intro: node_new)

lemma ggml_silu_back_adds [node_adds]:
  "ggml_silu_back s a b = Some (r, s') \<Longrightarrow> ctx_inv s \<Longrightarrow> valid_args s [a, b] \<Longrightarrow> adds s r s'"
  by (cases "deref s a") ((rule ggml_silu_back_node [THEN op_node_adds], assumption+) | simp add: ggml_silu_back_def none_simps)+

lemma ggml_norm_impl_node:
  assumes "ggml_norm_impl s a eps inplace = Some (r, s')" "ctx_inv s" "deref s a = Some ta" "valid_args s [a]"
  shows "op_node s r s' GGML_OP_NORM (t_type ta) (t_ne ta) [a]"
  using assms by (auto simp: ggml_norm_impl_def node_simps deref_dom deref_len intro!: node_set intro: node_new)

lemma ggml_norm_impl_adds [node_adds]:
  "ggml_norm_impl s a eps inplace = Some (r, s') \<Longrightarrow> ctx_inv s \<Longrightarrow> valid_args s [a] \<Longrightarrow> adds s r s'"
  by (cases "deref s a") ((rule ggml_norm_impl_node [THEN op_node_adds], assumption+) | simp add: ggml_norm_impl_def none_simps)+

lemma ggml_rms_norm_impl_node:
  assumes "ggml_rms_norm_impl s a eps inplace = Some (r, s')" "ctx_inv s" "deref s a = Some ta" "valid_args s [a]"
  shows "op_node s r s' GGML_OP_RMS_NORM (t_type ta) (t_ne ta) [a]"
  using assms by (auto simp: ggml_rms_norm_impl_def node_simps deref_dom deref_len intro!: node_set intro: node_new)

lemma ggml_rms_norm_impl_adds [node_adds]:
  "ggml_rms_norm_impl s a eps inplace = Some (r, s') \<Longrightarrow> ctx_inv s \<Longrightarrow> valid_args s [a] \<Longrightarrow> adds s r s'"
  by (cases "deref s a") ((rule ggml_rms_norm_impl_node [THEN op_node_adds], assumption+) | simp add: ggml_rms_norm_impl_def none_simps)+

lemma ggml_rms_norm_back_node:
  assumes "ggml_rms_norm_back s a b eps = Some (r, s')" "ctx_inv s" "deref s a = Some ta" "valid_args s [a, b]"
  shows "op_node s r s' GGML_OP_RMS_NORM_BACK (t_type ta) (t_ne ta) [a, b]"
  using assms by (auto simp: ggml_rms_norm_back_def node_simps deref_dom deref_len intro!: node_set intro: node_new)

lemma ggml_rms_norm_back_adds [node_adds]:
  "ggml_rms_norm_back s a b eps = Some (r, s') \<Longrightarrow> ctx_inv s \<Longrightarrow> valid_args s [a, b] \<Longrightarrow> adds s r s'"
  by (cases "deref s a") ((rule ggml_rms_norm_back_node [THEN op_node_adds], assumption+) | simp add: ggml_rms_norm_back_def none_simps)+

lemma ggml_group_norm_impl_node:
  assumes "ggml_group_norm_impl s a n_groups eps inplace = Some (r, s')" "ctx_inv s" "deref s a = Some ta" "valid_args s [a]"
  shows "op_node s r s' GGML_OP_GROUP_NORM (t_type ta) (t_ne ta) [a]"
  using assms by (auto simp: ggml_group_norm_impl_def node_simps deref_dom deref_len intro!: node_set intro: node_new)

lemma ggml_group_norm_impl_adds [node_adds]:
  "ggml_group_norm_impl s a n_groups eps inplace = Some (r, s') \<Longrightarrow> ctx_inv s \<Longrightarrow> valid_args s [a] \<Longrightarrow> adds s r s'"
  by (cases "deref s a") ((rule ggml_group_norm_impl_node [THEN op_node_adds], assumption+) | simp add: ggml_group_norm_impl_def none_simps)+

lemma ggml_l2_norm_impl_node:
  assumes "ggml_l2_norm_impl s a eps inplace = Some (r, s')" "ctx_inv s" "deref s a = Some ta" "valid_args s [a]"
  shows "op_node s r s' GGML_OP_L2_NORM (t_type ta) (t_ne ta) [a]"
  using assms by (auto simp: ggml_l2_norm_impl_def node_simps deref_dom deref_len intro!: node_set intro: node_new)

lemma ggml_l2_norm_impl_adds [node_adds]:
  "ggml_l2_norm_impl s a eps inplace = Some (r, s') \<Longrightarrow> ctx_inv s \<Longrightarrow> valid_args s [a] \<Longrightarrow> adds s r s'"
  by (cases "deref s a") ((rule ggml_l2_norm_impl_node [THEN op_node_adds], assumption+) | simp add: ggml_l2_norm_impl_def none_simps)+

lemma ggml_mul_mat_node:
  assumes "ggml_mul_mat s a b = Some (r, s')" "ctx_inv s" "deref s a = Some ta" "deref s b = Some tb" "valid_args s [a, b]"
  shows "op_node s r s' GGML_OP_MUL_MAT GGML_TYPE_F32 [t_ne ta ! 1, t_ne tb ! 1, t_ne tb ! 2, t_ne tb ! 3] [a, b]"
  using assms by (auto simp: ggml_mul_mat_def node_simps deref_dom deref_len intro!: node_set intro: node_new)

lemma ggml_mul_mat_adds [node_adds]:
  "ggml_mul_mat s a b = Some (r, s') \<Longrightarrow> ctx_inv s \<Longrightarrow> valid_args s [a, b] \<Longrightarrow> adds s r s'"
  by (cases "deref s a"; cases "deref s b") ((rule ggml_mul_mat_node [THEN op_node_adds], assumption+) | simp add: ggml_mul_mat_def none_simps)+

lemma ggml_mul_mat_id_node:
  assumes "ggml_mul_mat_id s experts b ids = Some (r, s')" "ctx_inv s" "deref s experts = Some ta" "deref s b = Some tb" "deref s ids = Some ti" "valid_args s [experts, b, ids]"
  shows "op_node s r s' GGML_OP_MUL_MAT_ID GGML_TYPE_F32 [t_ne ta ! 1, t_ne ti ! 0, t_ne tb ! 2, 1] [experts, b, ids]"
  using assms by (auto simp: ggml_mul_mat_id_def node_simps deref_dom deref_len intro!: node_set intro: node_new)

lemma ggml_mul_mat_id_adds [node_adds]:
  "ggml_mul_mat_id s experts b ids = Some (r, s') \<Longrightarrow> ctx_inv s \<Longrightarrow> valid_args s [experts, b, ids] \<Longrightarrow> adds s r s'"
  by (cases "deref s experts"; cases "deref s b"; cases "deref s ids") ((rule ggml_mul_mat_id_node [THEN op_node_adds], assumption+) | simp add: ggml_mul_mat_id_def none_simps)+

lemma ggml_out_prod_node:
  assumes "ggml_out_prod s a b = Some (r, s')" "ctx_inv s" "deref s a = Some ta" "deref s b = Some tb" "valid_args s [a, b]"
  shows "op_node s r s' GGML_OP_OUT_PROD GGML_TYPE_F32 [t_ne ta ! 0, t_ne tb ! 0, t_ne tb ! 2, t_ne tb ! 3] [a, b]"
  using assms by (auto simp: ggml_out_prod_def node_simps deref_dom deref_len intro!: node_set intro: node_new)

lemma ggml_out_prod_adds [node_adds]:
  "ggml_out_prod s a b = Some (r, s') \<Longrightarrow> ctx_inv s \<Longrightarrow> valid_args s [a, b] \<Longrightarrow> adds s r s'"
  by (cases "deref s a"; cases "deref s b") ((rule ggml_out_prod_node [THEN op_node_adds], assumption+) | simp add: ggml_out_prod_def none_simps)+

lemma ggml_scale_impl_node:
  assumes "ggml_scale_impl s a scale bias inplace = Some (r, s')" "ctx_inv s" "deref s a = Some ta" "valid_args s [a]"
  shows "op_node s r s' GGML_OP_SCALE (t_type ta) (t_ne ta) [a]"
  using assms by (auto simp: ggml_scale_impl_def node_simps deref_dom deref_len intro!: node_set intro: node_new)

lemma ggml_scale_impl_adds [node_adds]:
  "ggml_scale_impl s a scale bias inplace = Some (r, s') \<Longrightarrow> ctx_inv s \<Longrightarrow> valid_args s [a] \<Longrightarrow> adds s r s'"
  by (cases "deref s a") ((rule ggml_scale_impl_node [THEN op_node_adds], assumption+) | simp add: ggml_scale_impl_def none_simps)+

lemma ggml_set_impl_node:
  assumes "ggml_set_impl s a b nb1 nb2 nb3 offset inplace = Some (r, s')" "ctx_inv s" "deref s a = Some ta" "valid_args s [a, b]"
  shows "op_node s r s' GGML_OP_SET (t_type ta) (t_ne ta) [a, b]"
  using assms by (auto simp: ggml_set_impl_def node_simps deref_dom deref_len intro!: node_set intro: node_new)

lemma ggml_set_impl_adds [node_adds]:
  "ggml_set_impl s a b nb1 nb2 nb3 offset inplace = Some (r, s') \<Longrightarrow> ctx_inv s \<Longrightarrow> valid_args s [a, b] \<Longrightarrow> adds s r s'"
  by (cases "deref s a") ((rule ggml_set_impl_node [THEN op_node_adds], assumption+) | simp add: ggml_set_impl_def none_simps)+

lemma ggml_glu_impl_node:
  assumes "ggml_glu_impl s a b op swapped = Some (r, s')" "ctx_inv s" "deref s a = Some ta"
  shows "op_node s r s' GGML_OP_GLU (t_type ta)
    (if b \<noteq> 0 then t_ne ta else [t_ne ta ! 0 sdiv 2, t_ne ta ! 1, t_ne ta ! 2, t_ne ta ! 3]) [a, b]"
  using assms
  by (auto simp: ggml_glu_impl_def node_simps ggml_new_tensor_def [symmetric] deref_dom deref_len split: if_splits
      intro!: node_set intro: node_new)

lemma ggml_glu_impl_adds [node_adds]:
  "ggml_glu_impl s a b op swapped = Some (r, s') \<Longrightarrow> ctx_inv s \<Longrightarrow> adds s r s'"
  by (cases "deref s a") ((rule ggml_glu_impl_node [THEN op_node_adds], assumption+) | simp add: ggml_glu_impl_def)+

lemma ggml_swiglu_oai_node:
  assumes "ggml_swiglu_oai s a b alpha limit = Some (r, s')" "ctx_inv s" "deref s a = Some ta" "valid_args s [b]"
  shows "op_node s r s' GGML_OP_GLU (t_type ta)
    (if b \<noteq> 0 then t_ne ta else [t_ne ta ! 0 sdiv 2, t_ne ta ! 1, t_ne ta ! 2, t_ne ta ! 3]) [a, b]"
  using assms by (auto simp: ggml_swiglu_oai_def node_simps deref_dom dest: ggml_glu_impl_node intro!: node_set)

lemma ggml_swiglu_oai_adds [node_adds]:
  "ggml_swiglu_oai s a b alpha limit = Some (r, s') \<Longrightarrow> ctx_inv s \<Longrightarrow> valid_args s [b] \<Longrightarrow> adds s r s'"
  by (cases "deref s a") ((rule ggml_swiglu_oai_node [THEN op_node_adds], assumption+) | simp add: ggml_swiglu_oai_def ggml_glu_impl_def)+

text \<open>Concatenation: the extents add up in one dimension and agree in the others.\<close>

lemma concat_extent_Some:
  "concat_extent ta tb cdim d = Some n \<longleftrightarrow> (if int d = cdim then n = i64 (t_ne ta ! d + t_ne tb ! d) else t_ne ta ! d = t_ne tb ! d \<and> n = t_ne ta ! d)"
  by (auto simp: concat_extent_def)

lemma ggml_concat_node:
  assumes "ggml_concat s a b cdim = Some (r, s')" "ctx_inv s" "deref s a = Some ta" "deref s b = Some tb"
  obtains ne where "op_node s r s' GGML_OP_CONCAT (t_type ta) ne [a, b]" "t_type ta = t_type tb"
    and "ne = map (\<lambda>d. if int d = cdim then i64 (t_ne ta ! d + t_ne tb ! d) else t_ne ta ! d) [0, 1, 2, 3]"
    and "\<And>d. d < 4 \<Longrightarrow> int d \<noteq> cdim \<Longrightarrow> t_ne ta ! d = t_ne tb ! d"
proof -
  obtain n0 n1 n2 n3 s1 where c: "concat_extent ta tb cdim 0 = Some n0" "concat_extent ta tb cdim 1 = Some n1"
      "concat_extent ta tb cdim 2 = Some n2" "concat_extent ta tb cdim 3 = Some n3"
    and n: "ggml_new_tensor s (t_type ta) 4 [n0, n1, n2, n3] = Some (r, s1)" "t_type ta = t_type tb"
    and s': "s' = set_op (set_param_i32 s1 r 0 cdim) r GGML_OP_CONCAT [a, b]"
    using assms by (auto simp: ggml_concat_def node_simps)
  have node: "op_node s r s' GGML_OP_CONCAT (t_type ta) [n0, n1, n2, n3] [a, b]"
    unfolding s' using n assms by (auto simp: deref_dom intro!: node_set intro: node_new)
  have ne: "[n0, n1, n2, n3] = map (\<lambda>d. if int d = cdim then i64 (t_ne ta ! d + t_ne tb ! d) else t_ne ta ! d) [0, 1, 2, 3]"
    using c by (simp add: concat_extent_Some split: if_splits)
  have eq: "t_ne ta ! d = t_ne tb ! d" if "d < 4" "int d \<noteq> cdim" for d
  proof -
    have "d = 0 \<or> d = 1 \<or> d = 2 \<or> d = 3" using that(1) by linarith
    then show ?thesis using c that(2) by (auto simp: concat_extent_Some)
  qed
  show thesis by (rule that [OF node n(2) ne eq])
qed

lemma ggml_concat_adds [node_adds]:
  "ggml_concat s a b cdim = Some (r, s') \<Longrightarrow> ctx_inv s \<Longrightarrow> adds s r s'"
  by (cases "deref s a"; cases "deref s b")
    ((erule ggml_concat_node [where thesis = "adds s r s'"], assumption+, erule op_node_adds) | simp add: ggml_concat_def)+

end
