(* ===== verification/GGML_OpsShape.thy ===== *)
theory GGML_OpsShape
  imports GGML_OpsArith
begin

text \<open>
  The builders of \<^verbatim>\<open>ggml/src/ggml.c\<close> that copy, reshape, slice and permute tensors and that read and
  write rows (\<^verbatim>\<open>ggml_cpy\<close> up to \<^verbatim>\<open>ggml_diag_mask_zero_inplace\<close>). Reshaping, slicing, permuting and
  transposing return views: descriptors that share the data of a base tensor.
\<close>

section \<open>Copies\<close>

definition ggml_cpy_impl :: "ggml_state \<Rightarrow> ptr \<Rightarrow> ptr \<Rightarrow> built" where
  "ggml_cpy_impl s a b = do {
     ta \<leftarrow> deref s a; tb \<leftarrow> deref s b;
     ggml_assert (ggml_nelements ta = ggml_nelements tb);
     (result, s) \<leftarrow> ggml_view_tensor s b;
     let s = (if length (t_name tb) > 0
              then ggml_format_name s result (t_name tb @ '' (copy of '' @ t_name ta @ '')'')
              else ggml_format_name s result (t_name ta @ '' (copy)''));
     Some (result, set_op s result GGML_OP_CPY [a, b]) }"

definition ggml_cpy :: "ggml_state \<Rightarrow> ptr \<Rightarrow> ptr \<Rightarrow> built" where
  "ggml_cpy s a b = ggml_cpy_impl s a b"

text \<open>The result is its own second source.\<close>

definition ggml_cast :: "ggml_state \<Rightarrow> ptr \<Rightarrow> ggml_type \<Rightarrow> built" where
  "ggml_cast s a type = do {
     ta \<leftarrow> deref s a;
     (result, s) \<leftarrow> ggml_new_tensor s type 4 (t_ne ta);
     let s = ggml_format_name s result (t_name ta @ '' (copy)'');
     Some (result, set_op s result GGML_OP_CPY [a, result]) }"

definition ggml_cont_impl :: "ggml_state \<Rightarrow> ptr \<Rightarrow> built" where
  "ggml_cont_impl s a = do {
     ta \<leftarrow> deref s a;
     (result, s) \<leftarrow> ggml_dup_tensor s a;
     let s = ggml_format_name s result (t_name ta @ '' (cont)'');
     Some (result, set_op s result GGML_OP_CONT [a]) }"

definition ggml_cont :: "ggml_state \<Rightarrow> ptr \<Rightarrow> built" where
  "ggml_cont s a = ggml_cont_impl s a"

definition ggml_cont_4d :: "ggml_state \<Rightarrow> ptr \<Rightarrow> int64_t \<Rightarrow> int64_t \<Rightarrow> int64_t \<Rightarrow> int64_t \<Rightarrow> built" where
  "ggml_cont_4d s a ne0 ne1 ne2 ne3 = do {
     ta \<leftarrow> deref s a;
     ggml_assert (ggml_nelements ta = i64 (i64 (i64 (ne0 * ne1) * ne2) * ne3));
     (result, s) \<leftarrow> ggml_new_tensor_4d s (t_type ta) ne0 ne1 ne2 ne3;
     let s = ggml_format_name s result (t_name ta @ '' (cont)'');
     Some (result, set_op s result GGML_OP_CONT [a]) }"

definition ggml_cont_1d :: "ggml_state \<Rightarrow> ptr \<Rightarrow> int64_t \<Rightarrow> built" where
  "ggml_cont_1d s a ne0 = ggml_cont_4d s a ne0 1 1 1"

definition ggml_cont_2d ::
  "ggml_state \<Rightarrow> ptr \<Rightarrow> int64_t \<Rightarrow> int64_t \<Rightarrow> built" where
  "ggml_cont_2d s a ne0 ne1 = ggml_cont_4d s a ne0 ne1 1 1"

definition ggml_cont_3d ::
  "ggml_state \<Rightarrow> ptr \<Rightarrow> int64_t \<Rightarrow> int64_t \<Rightarrow> int64_t \<Rightarrow> built" where
  "ggml_cont_3d s a ne0 ne1 ne2 = ggml_cont_4d s a ne0 ne1 ne2 1"

section \<open>Reshaping\<close>

definition ggml_reshape :: "ggml_state \<Rightarrow> ptr \<Rightarrow> ptr \<Rightarrow> built" where
  "ggml_reshape s a b = do {
     ta \<leftarrow> deref s a; tb \<leftarrow> deref s b;
     ggml_assert (ggml_is_contiguous ta);
     ggml_assert (ggml_nelements ta = ggml_nelements tb);
     (result, s) \<leftarrow> ggml_new_tensor_impl s (t_type ta) 4 (t_ne tb) a 0;
     let s = ggml_format_name s result (t_name ta @ '' (reshaped)'');
     Some (result, set_op s result GGML_OP_RESHAPE [a]) }"

definition ggml_reshape_1d :: "ggml_state \<Rightarrow> ptr \<Rightarrow> int64_t \<Rightarrow> built" where
  "ggml_reshape_1d s a ne0 = do {
     ta \<leftarrow> deref s a;
     ggml_assert (ggml_is_contiguous ta);
     ggml_assert (ggml_nelements ta = ne0);
     (result, s) \<leftarrow> ggml_new_tensor_impl s (t_type ta) 1 [ne0] a 0;
     let s = ggml_format_name s result (t_name ta @ '' (reshaped)'');
     Some (result, set_op s result GGML_OP_RESHAPE [a]) }"

definition ggml_reshape_2d :: "ggml_state \<Rightarrow> ptr \<Rightarrow> int64_t \<Rightarrow> int64_t \<Rightarrow> built" where
  "ggml_reshape_2d s a ne0 ne1 = do {
     ta \<leftarrow> deref s a;
     ggml_assert (ggml_is_contiguous ta);
     ggml_assert (ggml_nelements ta = i64 (ne0 * ne1));
     (result, s) \<leftarrow> ggml_new_tensor_impl s (t_type ta) 2 [ne0, ne1] a 0;
     let s = ggml_format_name s result (t_name ta @ '' (reshaped)'');
     Some (result, set_op s result GGML_OP_RESHAPE [a]) }"

definition ggml_reshape_3d :: "ggml_state \<Rightarrow> ptr \<Rightarrow> int64_t \<Rightarrow> int64_t \<Rightarrow> int64_t \<Rightarrow> built" where
  "ggml_reshape_3d s a ne0 ne1 ne2 = do {
     ta \<leftarrow> deref s a;
     ggml_assert (ggml_is_contiguous ta);
     ggml_assert (ggml_nelements ta = i64 (i64 (ne0 * ne1) * ne2));
     (result, s) \<leftarrow> ggml_new_tensor_impl s (t_type ta) 3 [ne0, ne1, ne2] a 0;
     let s = ggml_format_name s result (t_name ta @ '' (reshaped)'');
     Some (result, set_op s result GGML_OP_RESHAPE [a]) }"

definition ggml_reshape_4d :: "ggml_state \<Rightarrow> ptr \<Rightarrow> int64_t \<Rightarrow> int64_t \<Rightarrow> int64_t \<Rightarrow> int64_t \<Rightarrow> built" where
  "ggml_reshape_4d s a ne0 ne1 ne2 ne3 = do {
     ta \<leftarrow> deref s a;
     ggml_assert (ggml_is_contiguous ta);
     ggml_assert (ggml_nelements ta = i64 (i64 (i64 (ne0 * ne1) * ne2) * ne3));
     (result, s) \<leftarrow> ggml_new_tensor_impl s (t_type ta) 4 [ne0, ne1, ne2, ne3] a 0;
     let s = ggml_format_name s result (t_name ta @ '' (reshaped)'');
     Some (result, set_op s result GGML_OP_RESHAPE [a]) }"

section \<open>Views\<close>

definition ggml_view_impl :: "ggml_state \<Rightarrow> ptr \<Rightarrow> int \<Rightarrow> int64_t list \<Rightarrow> size_t \<Rightarrow> built" where
  "ggml_view_impl s a n_dims ne offset = do {
     ta \<leftarrow> deref s a;
     (result, s) \<leftarrow> ggml_new_tensor_impl s (t_type ta) n_dims ne a offset;
     let s = ggml_format_name s result (t_name ta @ '' (view)'');
     let s = set_params s result (words_of_sz offset);
     Some (result, set_op s result GGML_OP_VIEW [a]) }"

definition ggml_view_1d :: "ggml_state \<Rightarrow> ptr \<Rightarrow> int64_t \<Rightarrow> size_t \<Rightarrow> built" where
  "ggml_view_1d s a ne0 offset = ggml_view_impl s a 1 [ne0] offset"

definition ggml_view_2d :: "ggml_state \<Rightarrow> ptr \<Rightarrow> int64_t \<Rightarrow> int64_t \<Rightarrow> size_t \<Rightarrow> size_t \<Rightarrow> built" where
  "ggml_view_2d s a ne0 ne1 nb1 offset = do {
     (result, s) \<leftarrow> ggml_view_impl s a 2 [ne0, ne1] offset;
     tr \<leftarrow> deref s result;
     let nb2 = sz_mul nb1 (sz_of_int ne1);
     Some (result, set_nb s result [t_nb tr ! 0, nb1, nb2, nb2]) }"

definition ggml_view_3d ::
  "ggml_state \<Rightarrow> ptr \<Rightarrow> int64_t \<Rightarrow> int64_t \<Rightarrow> int64_t \<Rightarrow> size_t \<Rightarrow> size_t \<Rightarrow> size_t \<Rightarrow> built" where
  "ggml_view_3d s a ne0 ne1 ne2 nb1 nb2 offset = do {
     (result, s) \<leftarrow> ggml_view_impl s a 3 [ne0, ne1, ne2] offset;
     tr \<leftarrow> deref s result;
     Some (result, set_nb s result [t_nb tr ! 0, nb1, nb2, sz_mul nb2 (sz_of_int ne2)]) }"

definition ggml_view_4d ::
  "ggml_state \<Rightarrow> ptr \<Rightarrow> int64_t \<Rightarrow> int64_t \<Rightarrow> int64_t \<Rightarrow> int64_t \<Rightarrow> size_t \<Rightarrow> size_t \<Rightarrow> size_t \<Rightarrow> size_t \<Rightarrow> built" where
  "ggml_view_4d s a ne0 ne1 ne2 ne3 nb1 nb2 nb3 offset = do {
     (result, s) \<leftarrow> ggml_view_impl s a 4 [ne0, ne1, ne2, ne3] offset;
     tr \<leftarrow> deref s result;
     Some (result, set_nb s result [t_nb tr ! 0, nb1, nb2, nb3]) }"

section \<open>Permutations\<close>

text \<open>
  \<open>scatter4 axes vs\<close> is the local array after \<^verbatim>\<open>arr[axis0] = v0; ... arr[axis3] = v3\<close>. In
  \<^verbatim>\<open>ggml_permute\<close> the local arrays have elements of type \<^verbatim>\<open>int\<close>, so extents and strides go
  through a 32-bit conversion.
\<close>

definition scatter4 :: "int list \<Rightarrow> int list \<Rightarrow> int list" where
  "scatter4 axes vs = fold (\<lambda>i arr. arr[nat (axes ! i) := vs ! i]) [0, 1, 2, 3] (replicate 4 0)"

definition ggml_permute :: "ggml_state \<Rightarrow> ptr \<Rightarrow> int \<Rightarrow> int \<Rightarrow> int \<Rightarrow> int \<Rightarrow> built" where
  "ggml_permute s a axis0 axis1 axis2 axis3 = do {
     ggml_assert (axis0 \<ge> 0 \<and> axis0 < int GGML_MAX_DIMS);
     ggml_assert (axis1 \<ge> 0 \<and> axis1 < int GGML_MAX_DIMS);
     ggml_assert (axis2 \<ge> 0 \<and> axis2 < int GGML_MAX_DIMS);
     ggml_assert (axis3 \<ge> 0 \<and> axis3 < int GGML_MAX_DIMS);
     ggml_assert (axis0 \<noteq> axis1);
     ggml_assert (axis0 \<noteq> axis2);
     ggml_assert (axis0 \<noteq> axis3);
     ggml_assert (axis1 \<noteq> axis2);
     ggml_assert (axis1 \<noteq> axis3);
     ggml_assert (axis2 \<noteq> axis3);
     ta \<leftarrow> deref s a;
     (result, s) \<leftarrow> ggml_view_tensor s a;
     let s = ggml_format_name s result (t_name ta @ '' (permuted)'');
     let axes = [axis0, axis1, axis2, axis3];
     let ne = scatter4 axes (map i32 (t_ne ta));
     let nb = scatter4 axes (map (\<lambda>n. i32 (int n)) (t_nb ta));
     let s = set_ne s result ne;
     let s = set_nb s result (map sz_of_int nb);
     let s = set_op s result GGML_OP_PERMUTE [a];
     Some (result, set_params s result (map word_of_int axes)) }"

definition ggml_transpose :: "ggml_state \<Rightarrow> ptr \<Rightarrow> built" where
  "ggml_transpose s a = do {
     ta \<leftarrow> deref s a;
     (result, s) \<leftarrow> ggml_view_tensor s a;
     let s = ggml_format_name s result (t_name ta @ '' (transposed)'');
     let s = set_ne s result [t_ne ta ! 1, t_ne ta ! 0, t_ne ta ! 2, t_ne ta ! 3];
     let s = set_nb s result [t_nb ta ! 1, t_nb ta ! 0, t_nb ta ! 2, t_nb ta ! 3];
     Some (result, set_op s result GGML_OP_TRANSPOSE [a]) }"

section \<open>Rows and diagonals\<close>

definition ggml_get_rows :: "ggml_state \<Rightarrow> ptr \<Rightarrow> ptr \<Rightarrow> built" where
  "ggml_get_rows s a b = do {
     ta \<leftarrow> deref s a; tb \<leftarrow> deref s b;
     ggml_assert (t_ne ta ! 2 = t_ne tb ! 1);
     ggml_assert (t_ne ta ! 3 = t_ne tb ! 2);
     ggml_assert (t_ne tb ! 3 = 1);
     ggml_assert (t_type tb = GGML_TYPE_I32);
     let type = (if t_type ta = GGML_TYPE_I32 then t_type ta else GGML_TYPE_F32);
     (result, s) \<leftarrow> ggml_new_tensor_4d s type (t_ne ta ! 0) (t_ne tb ! 0) (t_ne tb ! 1) (t_ne tb ! 2);
     Some (result, set_op s result GGML_OP_GET_ROWS [a, b]) }"

definition ggml_get_rows_back :: "ggml_state \<Rightarrow> ptr \<Rightarrow> ptr \<Rightarrow> ptr \<Rightarrow> built" where
  "ggml_get_rows_back s a b c = do {
     ta \<leftarrow> deref s a; tb \<leftarrow> deref s b; tc \<leftarrow> deref s c;
     ggml_assert (ggml_is_matrix ta \<and> ggml_is_vector tb \<and> t_type tb = GGML_TYPE_I32);
     ggml_assert (ggml_is_matrix tc \<and> t_ne ta ! 0 = t_ne tc ! 0);
     (result, s) \<leftarrow> ggml_new_tensor_2d s GGML_TYPE_F32 (t_ne tc ! 0) (t_ne tc ! 1);
     Some (result, set_op s result GGML_OP_GET_ROWS_BACK [a, b]) }"

definition ggml_set_rows :: "ggml_state \<Rightarrow> ptr \<Rightarrow> ptr \<Rightarrow> ptr \<Rightarrow> built" where
  "ggml_set_rows s a b c = do {
     ta \<leftarrow> deref s a; tb \<leftarrow> deref s b; tc \<leftarrow> deref s c;
     ggml_assert (t_ne ta ! 0 = t_ne tb ! 0);
     ggml_assert (t_ne ta ! 2 = t_ne tb ! 2);
     ggml_assert (t_ne ta ! 3 = t_ne tb ! 3);
     ggml_assert (t_ne tb ! 1 = t_ne tc ! 0);
     r2 \<leftarrow> c_mod (t_ne tb ! 2) (t_ne tc ! 1);
     ggml_assert (r2 = 0);
     r3 \<leftarrow> c_mod (t_ne tb ! 3) (t_ne tc ! 2);
     ggml_assert (r3 = 0);
     ggml_assert (t_ne tc ! 3 = 1);
     ggml_assert (t_type tb = GGML_TYPE_F32);
     ggml_assert (t_type tc = GGML_TYPE_I64 \<or> t_type tc = GGML_TYPE_I32);
     ggml_assert (ggml_is_contiguous_rows ta);
     ggml_assert (ggml_is_contiguous_rows tb);
     (result, s) \<leftarrow> ggml_view_tensor s a;
     Some (result, set_op s result GGML_OP_SET_ROWS [b, c, a]) }"

definition ggml_diag :: "ggml_state \<Rightarrow> ptr \<Rightarrow> built" where
  "ggml_diag s a = do {
     ta \<leftarrow> deref s a;
     ggml_assert (t_ne ta ! 1 = 1);
     (result, s) \<leftarrow> ggml_new_tensor s (t_type ta) 4 [t_ne ta ! 0, t_ne ta ! 0, t_ne ta ! 2, t_ne ta ! 3];
     Some (result, set_op s result GGML_OP_DIAG [a]) }"

definition ggml_diag_mask_inf_impl :: "ggml_state \<Rightarrow> ptr \<Rightarrow> int32_t \<Rightarrow> bool \<Rightarrow> built" where
  "ggml_diag_mask_inf_impl s a n_past inplace = do {
     (result, s) \<leftarrow> view_or_dup s a inplace;
     let s = set_params s result [word_of_int n_past];
     Some (result, set_op s result GGML_OP_DIAG_MASK_INF [a]) }"

definition ggml_diag_mask_inf :: "ggml_state \<Rightarrow> ptr \<Rightarrow> int32_t \<Rightarrow> built" where
  "ggml_diag_mask_inf s a n_past = ggml_diag_mask_inf_impl s a n_past False"

definition ggml_diag_mask_inf_inplace ::
  "ggml_state \<Rightarrow> ptr \<Rightarrow> int32_t \<Rightarrow> built" where
  "ggml_diag_mask_inf_inplace s a n_past = ggml_diag_mask_inf_impl s a n_past True"

definition ggml_diag_mask_zero_impl :: "ggml_state \<Rightarrow> ptr \<Rightarrow> int32_t \<Rightarrow> bool \<Rightarrow> built" where
  "ggml_diag_mask_zero_impl s a n_past inplace = do {
     (result, s) \<leftarrow> view_or_dup s a inplace;
     let s = set_params s result [word_of_int n_past];
     Some (result, set_op s result GGML_OP_DIAG_MASK_ZERO [a]) }"

definition ggml_diag_mask_zero :: "ggml_state \<Rightarrow> ptr \<Rightarrow> int32_t \<Rightarrow> built" where
  "ggml_diag_mask_zero s a n_past = ggml_diag_mask_zero_impl s a n_past False"

definition ggml_diag_mask_zero_inplace ::
  "ggml_state \<Rightarrow> ptr \<Rightarrow> int32_t \<Rightarrow> built" where
  "ggml_diag_mask_zero_inplace s a n_past = ggml_diag_mask_zero_impl s a n_past True"

section \<open>The nodes they add\<close>

lemma scatter4_length [simp]: "length (scatter4 axes vs) = 4"
  by (simp add: scatter4_def)

lemma words_of_sz_length [simp]: "length (words_of_sz n) = 2"
  by (simp add: words_of_sz_def)

lemma new_view_nd_node [node_new]:
  "ggml_new_tensor_impl s ty 1 [n0] a offs = Some (r, s') \<Longrightarrow> ctx_inv s \<Longrightarrow> deref s a = Some ta
    \<Longrightarrow> op_node s r s' GGML_OP_NONE ty [n0, 1, 1, 1] []"
  "ggml_new_tensor_impl s ty 2 [n0, n1] a offs = Some (r, s') \<Longrightarrow> ctx_inv s \<Longrightarrow> deref s a = Some ta
    \<Longrightarrow> op_node s r s' GGML_OP_NONE ty [n0, n1, 1, 1] []"
  "ggml_new_tensor_impl s ty 3 [n0, n1, n2] a offs = Some (r, s') \<Longrightarrow> ctx_inv s \<Longrightarrow> deref s a = Some ta
    \<Longrightarrow> op_node s r s' GGML_OP_NONE ty [n0, n1, n2, 1] []"
  "ggml_new_tensor_impl s ty 4 ne a offs = Some (r, s') \<Longrightarrow> ctx_inv s \<Longrightarrow> deref s a = Some ta \<Longrightarrow> length ne = 4
    \<Longrightarrow> op_node s r s' GGML_OP_NONE ty ne []"
  using new_tensor_impl_node [of s ty 1 "[n0]" a offs r s' ta] new_tensor_impl_node [of s ty 2 "[n0, n1]" a offs r s' ta]
    new_tensor_impl_node [of s ty 3 "[n0, n1, n2]" a offs r s' ta] new_tensor_impl_node [of s ty 4 ne a offs r s' ta]
  by (simp_all add: take_Suc_Cons numeral_eq_Suc)

lemma ggml_cpy_impl_node:
  assumes "ggml_cpy_impl s a b = Some (r, s')" "ctx_inv s" "deref s b = Some tb" "valid_args s [a, b]"
  shows "op_node s r s' GGML_OP_CPY (t_type tb) (t_ne tb) [a, b]"
  using assms by (auto simp: ggml_cpy_impl_def node_simps deref_dom deref_len intro!: node_set intro: node_new)

lemma ggml_cpy_impl_adds [node_adds]:
  "ggml_cpy_impl s a b = Some (r, s') \<Longrightarrow> ctx_inv s \<Longrightarrow> valid_args s [a, b] \<Longrightarrow> adds s r s'"
  by (cases "deref s b") ((rule ggml_cpy_impl_node [THEN op_node_adds], assumption+) | simp add: ggml_cpy_impl_def none_simps)+

lemma ggml_cont_impl_node:
  assumes "ggml_cont_impl s a = Some (r, s')" "ctx_inv s" "deref s a = Some ta" "valid_args s [a]"
  shows "op_node s r s' GGML_OP_CONT (t_type ta) (t_ne ta) [a]"
  using assms by (auto simp: ggml_cont_impl_def node_simps deref_dom deref_len intro!: node_set intro: node_new)

lemma ggml_cont_impl_adds [node_adds]:
  "ggml_cont_impl s a = Some (r, s') \<Longrightarrow> ctx_inv s \<Longrightarrow> valid_args s [a] \<Longrightarrow> adds s r s'"
  by (cases "deref s a") ((rule ggml_cont_impl_node [THEN op_node_adds], assumption+) | simp add: ggml_cont_impl_def none_simps)+

lemma ggml_cont_4d_node:
  assumes "ggml_cont_4d s a ne0 ne1 ne2 ne3 = Some (r, s')" "ctx_inv s" "deref s a = Some ta" "valid_args s [a]"
  shows "op_node s r s' GGML_OP_CONT (t_type ta) [ne0, ne1, ne2, ne3] [a]"
  using assms by (auto simp: ggml_cont_4d_def node_simps deref_dom deref_len intro!: node_set intro: node_new)

lemma ggml_cont_4d_adds [node_adds]:
  "ggml_cont_4d s a ne0 ne1 ne2 ne3 = Some (r, s') \<Longrightarrow> ctx_inv s \<Longrightarrow> valid_args s [a] \<Longrightarrow> adds s r s'"
  by (cases "deref s a") ((rule ggml_cont_4d_node [THEN op_node_adds], assumption+) | simp add: ggml_cont_4d_def none_simps)+

lemma ggml_reshape_node:
  assumes "ggml_reshape s a b = Some (r, s')" "ctx_inv s" "deref s a = Some ta" "deref s b = Some tb" "valid_args s [a, b]"
  shows "op_node s r s' GGML_OP_RESHAPE (t_type ta) (t_ne tb) [a]"
  using assms by (auto simp: ggml_reshape_def node_simps deref_dom deref_len intro!: node_set intro: node_new)

lemma ggml_reshape_adds [node_adds]:
  "ggml_reshape s a b = Some (r, s') \<Longrightarrow> ctx_inv s \<Longrightarrow> valid_args s [a, b] \<Longrightarrow> adds s r s'"
  by (cases "deref s a"; cases "deref s b") ((rule ggml_reshape_node [THEN op_node_adds], assumption+) | simp add: ggml_reshape_def none_simps)+

lemma ggml_reshape_1d_node:
  assumes "ggml_reshape_1d s a ne0 = Some (r, s')" "ctx_inv s" "deref s a = Some ta" "valid_args s [a]"
  shows "op_node s r s' GGML_OP_RESHAPE (t_type ta) [ne0, 1, 1, 1] [a]"
  using assms by (auto simp: ggml_reshape_1d_def node_simps deref_dom deref_len intro!: node_set intro: node_new)

lemma ggml_reshape_1d_adds [node_adds]:
  "ggml_reshape_1d s a ne0 = Some (r, s') \<Longrightarrow> ctx_inv s \<Longrightarrow> valid_args s [a] \<Longrightarrow> adds s r s'"
  by (cases "deref s a") ((rule ggml_reshape_1d_node [THEN op_node_adds], assumption+) | simp add: ggml_reshape_1d_def none_simps)+

lemma ggml_reshape_2d_node:
  assumes "ggml_reshape_2d s a ne0 ne1 = Some (r, s')" "ctx_inv s" "deref s a = Some ta" "valid_args s [a]"
  shows "op_node s r s' GGML_OP_RESHAPE (t_type ta) [ne0, ne1, 1, 1] [a]"
  using assms by (auto simp: ggml_reshape_2d_def node_simps deref_dom deref_len intro!: node_set intro: node_new)

lemma ggml_reshape_2d_adds [node_adds]:
  "ggml_reshape_2d s a ne0 ne1 = Some (r, s') \<Longrightarrow> ctx_inv s \<Longrightarrow> valid_args s [a] \<Longrightarrow> adds s r s'"
  by (cases "deref s a") ((rule ggml_reshape_2d_node [THEN op_node_adds], assumption+) | simp add: ggml_reshape_2d_def none_simps)+

lemma ggml_reshape_3d_node:
  assumes "ggml_reshape_3d s a ne0 ne1 ne2 = Some (r, s')" "ctx_inv s" "deref s a = Some ta" "valid_args s [a]"
  shows "op_node s r s' GGML_OP_RESHAPE (t_type ta) [ne0, ne1, ne2, 1] [a]"
  using assms by (auto simp: ggml_reshape_3d_def node_simps deref_dom deref_len intro!: node_set intro: node_new)

lemma ggml_reshape_3d_adds [node_adds]:
  "ggml_reshape_3d s a ne0 ne1 ne2 = Some (r, s') \<Longrightarrow> ctx_inv s \<Longrightarrow> valid_args s [a] \<Longrightarrow> adds s r s'"
  by (cases "deref s a") ((rule ggml_reshape_3d_node [THEN op_node_adds], assumption+) | simp add: ggml_reshape_3d_def none_simps)+

lemma ggml_reshape_4d_node:
  assumes "ggml_reshape_4d s a ne0 ne1 ne2 ne3 = Some (r, s')" "ctx_inv s" "deref s a = Some ta" "valid_args s [a]"
  shows "op_node s r s' GGML_OP_RESHAPE (t_type ta) [ne0, ne1, ne2, ne3] [a]"
  using assms by (auto simp: ggml_reshape_4d_def node_simps deref_dom deref_len intro!: node_set intro: node_new)

lemma ggml_reshape_4d_adds [node_adds]:
  "ggml_reshape_4d s a ne0 ne1 ne2 ne3 = Some (r, s') \<Longrightarrow> ctx_inv s \<Longrightarrow> valid_args s [a] \<Longrightarrow> adds s r s'"
  by (cases "deref s a") ((rule ggml_reshape_4d_node [THEN op_node_adds], assumption+) | simp add: ggml_reshape_4d_def none_simps)+

lemma ggml_transpose_node:
  assumes "ggml_transpose s a = Some (r, s')" "ctx_inv s" "deref s a = Some ta" "valid_args s [a]"
  shows "op_node s r s' GGML_OP_TRANSPOSE (t_type ta) [t_ne ta ! 1, t_ne ta ! 0, t_ne ta ! 2, t_ne ta ! 3] [a]"
  using assms by (auto simp: ggml_transpose_def node_simps deref_dom deref_len intro!: node_set intro: node_new)

lemma ggml_transpose_adds [node_adds]:
  "ggml_transpose s a = Some (r, s') \<Longrightarrow> ctx_inv s \<Longrightarrow> valid_args s [a] \<Longrightarrow> adds s r s'"
  by (cases "deref s a") ((rule ggml_transpose_node [THEN op_node_adds], assumption+) | simp add: ggml_transpose_def none_simps)+

lemma ggml_get_rows_node:
  assumes "ggml_get_rows s a b = Some (r, s')" "ctx_inv s" "deref s a = Some ta" "deref s b = Some tb" "valid_args s [a, b]"
  shows "op_node s r s' GGML_OP_GET_ROWS (if t_type ta = GGML_TYPE_I32 then t_type ta else GGML_TYPE_F32) [t_ne ta ! 0, t_ne tb ! 0, t_ne tb ! 1, t_ne tb ! 2] [a, b]"
  using assms by (auto simp: ggml_get_rows_def node_simps deref_dom deref_len intro!: node_set intro: node_new)

lemma ggml_get_rows_adds [node_adds]:
  "ggml_get_rows s a b = Some (r, s') \<Longrightarrow> ctx_inv s \<Longrightarrow> valid_args s [a, b] \<Longrightarrow> adds s r s'"
  by (cases "deref s a"; cases "deref s b") ((rule ggml_get_rows_node [THEN op_node_adds], assumption+) | simp add: ggml_get_rows_def none_simps)+

lemma ggml_get_rows_back_node:
  assumes "ggml_get_rows_back s a b c = Some (r, s')" "ctx_inv s" "deref s c = Some tc" "valid_args s [a, b, c]"
  shows "op_node s r s' GGML_OP_GET_ROWS_BACK GGML_TYPE_F32 [t_ne tc ! 0, t_ne tc ! 1, 1, 1] [a, b]"
  using assms by (auto simp: ggml_get_rows_back_def node_simps deref_dom deref_len intro!: node_set intro: node_new)

lemma ggml_get_rows_back_adds [node_adds]:
  "ggml_get_rows_back s a b c = Some (r, s') \<Longrightarrow> ctx_inv s \<Longrightarrow> valid_args s [a, b, c] \<Longrightarrow> adds s r s'"
  by (cases "deref s c") ((rule ggml_get_rows_back_node [THEN op_node_adds], assumption+) | simp add: ggml_get_rows_back_def none_simps)+

lemma ggml_set_rows_node:
  assumes "ggml_set_rows s a b c = Some (r, s')" "ctx_inv s" "deref s a = Some ta" "valid_args s [a, b, c]"
  shows "op_node s r s' GGML_OP_SET_ROWS (t_type ta) (t_ne ta) [b, c, a]"
  using assms by (auto simp: ggml_set_rows_def node_simps deref_dom deref_len intro!: node_set intro: node_new)

lemma ggml_set_rows_adds [node_adds]:
  "ggml_set_rows s a b c = Some (r, s') \<Longrightarrow> ctx_inv s \<Longrightarrow> valid_args s [a, b, c] \<Longrightarrow> adds s r s'"
  by (cases "deref s a") ((rule ggml_set_rows_node [THEN op_node_adds], assumption+) | simp add: ggml_set_rows_def none_simps)+

lemma ggml_diag_node:
  assumes "ggml_diag s a = Some (r, s')" "ctx_inv s" "deref s a = Some ta" "valid_args s [a]"
  shows "op_node s r s' GGML_OP_DIAG (t_type ta) [t_ne ta ! 0, t_ne ta ! 0, t_ne ta ! 2, t_ne ta ! 3] [a]"
  using assms by (auto simp: ggml_diag_def node_simps deref_dom deref_len intro!: node_set intro: node_new)

lemma ggml_diag_adds [node_adds]:
  "ggml_diag s a = Some (r, s') \<Longrightarrow> ctx_inv s \<Longrightarrow> valid_args s [a] \<Longrightarrow> adds s r s'"
  by (cases "deref s a") ((rule ggml_diag_node [THEN op_node_adds], assumption+) | simp add: ggml_diag_def none_simps)+

lemma ggml_diag_mask_inf_impl_node:
  assumes "ggml_diag_mask_inf_impl s a n_past inplace = Some (r, s')" "ctx_inv s" "deref s a = Some ta" "valid_args s [a]"
  shows "op_node s r s' GGML_OP_DIAG_MASK_INF (t_type ta) (t_ne ta) [a]"
  using assms by (auto simp: ggml_diag_mask_inf_impl_def node_simps deref_dom deref_len intro!: node_set intro: node_new)

lemma ggml_diag_mask_inf_impl_adds [node_adds]:
  "ggml_diag_mask_inf_impl s a n_past inplace = Some (r, s') \<Longrightarrow> ctx_inv s \<Longrightarrow> valid_args s [a] \<Longrightarrow> adds s r s'"
  by (cases "deref s a") ((rule ggml_diag_mask_inf_impl_node [THEN op_node_adds], assumption+) | simp add: ggml_diag_mask_inf_impl_def none_simps)+

lemma ggml_diag_mask_zero_impl_node:
  assumes "ggml_diag_mask_zero_impl s a n_past inplace = Some (r, s')" "ctx_inv s" "deref s a = Some ta" "valid_args s [a]"
  shows "op_node s r s' GGML_OP_DIAG_MASK_ZERO (t_type ta) (t_ne ta) [a]"
  using assms by (auto simp: ggml_diag_mask_zero_impl_def node_simps deref_dom deref_len intro!: node_set intro: node_new)

lemma ggml_diag_mask_zero_impl_adds [node_adds]:
  "ggml_diag_mask_zero_impl s a n_past inplace = Some (r, s') \<Longrightarrow> ctx_inv s \<Longrightarrow> valid_args s [a] \<Longrightarrow> adds s r s'"
  by (cases "deref s a") ((rule ggml_diag_mask_zero_impl_node [THEN op_node_adds], assumption+) | simp add: ggml_diag_mask_zero_impl_def none_simps)+

lemma ggml_permute_node:
  assumes "ggml_permute s a axis0 axis1 axis2 axis3 = Some (r, s')" "ctx_inv s" "deref s a = Some ta" "valid_args s [a]"
  shows "op_node s r s' GGML_OP_PERMUTE (t_type ta) (scatter4 [axis0, axis1, axis2, axis3] (map i32 (t_ne ta))) [a]"
  using assms by (auto simp: ggml_permute_def node_simps deref_dom deref_len intro!: node_set intro: node_new)

lemma ggml_permute_adds [node_adds]:
  "ggml_permute s a axis0 axis1 axis2 axis3 = Some (r, s') \<Longrightarrow> ctx_inv s \<Longrightarrow> valid_args s [a] \<Longrightarrow> adds s r s'"
  by (cases "deref s a") ((rule ggml_permute_node [THEN op_node_adds], assumption+) | simp add: ggml_permute_def none_simps)+

lemma ggml_view_1d_node:
  assumes "ggml_view_1d s a ne0 offset = Some (r, s')" "ctx_inv s" "deref s a = Some ta" "valid_args s [a]"
  shows "op_node s r s' GGML_OP_VIEW (t_type ta) [ne0, 1, 1, 1] [a]"
  using assms by (auto simp: ggml_view_1d_def ggml_view_impl_def node_simps deref_dom deref_len intro!: node_set intro: node_new)

lemma ggml_view_1d_adds [node_adds]:
  "ggml_view_1d s a ne0 offset = Some (r, s') \<Longrightarrow> ctx_inv s \<Longrightarrow> valid_args s [a] \<Longrightarrow> adds s r s'"
  by (cases "deref s a") ((rule ggml_view_1d_node [THEN op_node_adds], assumption+) | simp add: ggml_view_1d_def ggml_view_impl_def none_simps)+

lemma ggml_view_2d_node:
  assumes "ggml_view_2d s a ne0 ne1 nb1 offset = Some (r, s')" "ctx_inv s" "deref s a = Some ta" "valid_args s [a]"
  shows "op_node s r s' GGML_OP_VIEW (t_type ta) [ne0, ne1, 1, 1] [a]"
  using assms by (auto simp: ggml_view_2d_def ggml_view_impl_def node_simps deref_dom deref_len intro!: node_set intro: node_new)

lemma ggml_view_2d_adds [node_adds]:
  "ggml_view_2d s a ne0 ne1 nb1 offset = Some (r, s') \<Longrightarrow> ctx_inv s \<Longrightarrow> valid_args s [a] \<Longrightarrow> adds s r s'"
  by (cases "deref s a") ((rule ggml_view_2d_node [THEN op_node_adds], assumption+) | simp add: ggml_view_2d_def ggml_view_impl_def none_simps)+

lemma ggml_view_3d_node:
  assumes "ggml_view_3d s a ne0 ne1 ne2 nb1 nb2 offset = Some (r, s')" "ctx_inv s" "deref s a = Some ta" "valid_args s [a]"
  shows "op_node s r s' GGML_OP_VIEW (t_type ta) [ne0, ne1, ne2, 1] [a]"
  using assms by (auto simp: ggml_view_3d_def ggml_view_impl_def node_simps deref_dom deref_len intro!: node_set intro: node_new)

lemma ggml_view_3d_adds [node_adds]:
  "ggml_view_3d s a ne0 ne1 ne2 nb1 nb2 offset = Some (r, s') \<Longrightarrow> ctx_inv s \<Longrightarrow> valid_args s [a] \<Longrightarrow> adds s r s'"
  by (cases "deref s a") ((rule ggml_view_3d_node [THEN op_node_adds], assumption+) | simp add: ggml_view_3d_def ggml_view_impl_def none_simps)+

lemma ggml_view_4d_node:
  assumes "ggml_view_4d s a ne0 ne1 ne2 ne3 nb1 nb2 nb3 offset = Some (r, s')" "ctx_inv s" "deref s a = Some ta" "valid_args s [a]"
  shows "op_node s r s' GGML_OP_VIEW (t_type ta) [ne0, ne1, ne2, ne3] [a]"
  using assms by (auto simp: ggml_view_4d_def ggml_view_impl_def node_simps deref_dom deref_len intro!: node_set intro: node_new)

lemma ggml_view_4d_adds [node_adds]:
  "ggml_view_4d s a ne0 ne1 ne2 ne3 nb1 nb2 nb3 offset = Some (r, s') \<Longrightarrow> ctx_inv s \<Longrightarrow> valid_args s [a] \<Longrightarrow> adds s r s'"
  by (cases "deref s a") ((rule ggml_view_4d_node [THEN op_node_adds], assumption+) | simp add: ggml_view_4d_def ggml_view_impl_def none_simps)+

end
