(* ===== verification/GGML_OpsNN.thy ===== *)
theory GGML_OpsNN
  imports GGML_OpsShape GGML_Graph
begin

text \<open>
  The builders of \<^verbatim>\<open>ggml/src/ggml.c\<close> for soft-max, rotary embeddings, convolution, pooling, padding,
  sorting, attention, recurrent cells, custom operations, losses and optimiser steps
  (\<^verbatim>\<open>ggml_soft_max\<close> up to \<^verbatim>\<open>ggml_gated_delta_net\<close>). The convolutions that are built from other
  builders are composed as in the code; where C leaves the order in which two argument
  expressions are evaluated open, the left one is built first.
\<close>

section \<open>Soft-max\<close>

definition ggml_soft_max_impl :: "ggml_state \<Rightarrow> ptr \<Rightarrow> ptr \<Rightarrow> f32 \<Rightarrow> f32 \<Rightarrow> bool \<Rightarrow> built" where
  "ggml_soft_max_impl s a msk scale max_bias inplace = do {
     ta \<leftarrow> deref s a;
     ggml_assert (ggml_is_contiguous ta);
     if_given s msk (\<lambda>tm. do {
       ggml_assert (t_type tm = GGML_TYPE_F16 \<or> t_type tm = GGML_TYPE_F32);
       ggml_assert (ggml_is_contiguous tm);
       ggml_assert (t_ne tm ! 0 = t_ne ta ! 0);
       ggml_assert (t_ne tm ! 1 \<ge> t_ne ta ! 1);
       r2 \<leftarrow> c_mod (t_ne ta ! 2) (t_ne tm ! 2);
       ggml_assert (r2 = 0);
       r3 \<leftarrow> c_mod (t_ne ta ! 3) (t_ne tm ! 3);
       ggml_assert (r3 = 0) });
     ggml_assert (f32_pos max_bias \<longrightarrow> msk \<noteq> 0);
     (result, s) \<leftarrow> view_or_dup s a inplace;
     let s = set_params s result [scale, max_bias];
     Some (result, set_op s result GGML_OP_SOFT_MAX [a, msk]) }"

definition ggml_soft_max :: "ggml_state \<Rightarrow> ptr \<Rightarrow> built" where
  "ggml_soft_max s a = ggml_soft_max_impl s a 0 f32_1 0 False"

definition ggml_soft_max_inplace :: "ggml_state \<Rightarrow> ptr \<Rightarrow> built" where
  "ggml_soft_max_inplace s a = ggml_soft_max_impl s a 0 f32_1 0 True"

definition ggml_soft_max_ext ::
  "ggml_state \<Rightarrow> ptr \<Rightarrow> ptr \<Rightarrow> f32 \<Rightarrow> f32 \<Rightarrow> built" where
  "ggml_soft_max_ext s a msk scale max_bias = ggml_soft_max_impl s a msk scale max_bias False"

definition ggml_soft_max_ext_inplace ::
  "ggml_state \<Rightarrow> ptr \<Rightarrow> ptr \<Rightarrow> f32 \<Rightarrow> f32 \<Rightarrow> built" where
  "ggml_soft_max_ext_inplace s a msk scale max_bias = ggml_soft_max_impl s a msk scale max_bias True"

text \<open>\<open>set_src s p i q\<close>: \<^verbatim>\<open>p->src[i] = q\<close> on a tensor that exists already.\<close>

definition set_src :: "ggml_state \<Rightarrow> ptr \<Rightarrow> nat \<Rightarrow> ptr \<Rightarrow> ggml_state" where
  "set_src s p i q = upd s p (\<lambda>t. t\<lparr>t_src := (t_src t)[i := q]\<rparr>)"

definition ggml_soft_max_add_sinks :: "ggml_state \<Rightarrow> ptr \<Rightarrow> ptr \<Rightarrow> ggml_state option" where
  "ggml_soft_max_add_sinks s a sinks = do {
     ta \<leftarrow> deref s a;
     if sinks = 0 then Some (set_src s a 2 0)
     else do {
       ggml_assert (t_op ta = GGML_OP_SOFT_MAX);
       ggml_assert (t_src ta ! 2 = 0);
       t0 \<leftarrow> deref s (t_src ta ! 0);
       tk \<leftarrow> deref s sinks;
       ggml_assert (t_ne t0 ! 2 = t_ne tk ! 0);
       ggml_assert (t_type tk = GGML_TYPE_F32);
       Some (set_src s a 2 sinks) } }"

definition ggml_soft_max_ext_back_impl :: "ggml_state \<Rightarrow> ptr \<Rightarrow> ptr \<Rightarrow> f32 \<Rightarrow> f32 \<Rightarrow> bool \<Rightarrow> built" where
  "ggml_soft_max_ext_back_impl s a b scale max_bias inplace = do {
     (result, s) \<leftarrow> view_or_dup s a inplace;
     let s = set_op s result GGML_OP_SOFT_MAX_BACK [a, b];
     let s = set_param_f32 s result 0 scale;
     Some (result, set_param_f32 s result 1 max_bias) }"

definition ggml_soft_max_ext_back ::
  "ggml_state \<Rightarrow> ptr \<Rightarrow> ptr \<Rightarrow> f32 \<Rightarrow> f32 \<Rightarrow> built" where
  "ggml_soft_max_ext_back s a b scale max_bias = ggml_soft_max_ext_back_impl s a b scale max_bias False"

definition ggml_soft_max_ext_back_inplace ::
  "ggml_state \<Rightarrow> ptr \<Rightarrow> ptr \<Rightarrow> f32 \<Rightarrow> f32 \<Rightarrow> built" where
  "ggml_soft_max_ext_back_inplace s a b scale max_bias = ggml_soft_max_ext_back_impl s a b scale max_bias True"

section \<open>Rotary position embedding\<close>

text \<open>
  \<^verbatim>\<open>sections\<close> is \<open>None\<close> for \<^verbatim>\<open>NULL\<close> and otherwise an array of four integers.
\<close>

definition GGML_ROPE_TYPE_MROPE :: "32 word" where "GGML_ROPE_TYPE_MROPE = 8"

definition rope_params ::
  "int32_t \<Rightarrow> int32_t list option \<Rightarrow> int32_t \<Rightarrow> int32_t \<Rightarrow> f32 \<Rightarrow> f32 \<Rightarrow> f32 \<Rightarrow> f32 \<Rightarrow> f32 \<Rightarrow> f32 \<Rightarrow> 32 word list" where
  "rope_params n_dims sections mode n_ctx_orig freq_base freq_scale ext_factor attn_factor beta_fast beta_slow =
     [0, word_of_int n_dims, word_of_int mode, 0, word_of_int n_ctx_orig,
      freq_base, freq_scale, ext_factor, attn_factor, beta_fast, beta_slow] @
     (case sections of
        Some sec \<Rightarrow> if word_of_int mode AND GGML_ROPE_TYPE_MROPE \<noteq> 0 then map (\<lambda>i. word_of_int (sec ! i)) [0, 1, 2, 3] else [0, 0, 0, 0]
      | None \<Rightarrow> [0, 0, 0, 0])"

definition ggml_rope_impl ::
  "ggml_state \<Rightarrow> ptr \<Rightarrow> ptr \<Rightarrow> ptr \<Rightarrow> int32_t \<Rightarrow> int32_t list option \<Rightarrow> int32_t \<Rightarrow> int32_t \<Rightarrow> f32 \<Rightarrow> f32 \<Rightarrow> f32 \<Rightarrow> f32 \<Rightarrow> f32 \<Rightarrow> f32 \<Rightarrow> bool \<Rightarrow> built" where
  "ggml_rope_impl s a b c n_dims sections mode n_ctx_orig freq_base freq_scale ext_factor attn_factor beta_fast beta_slow inplace = do {
     ggml_assert ((word_of_int mode :: 32 word) AND 1 = 0);
     ta \<leftarrow> deref s a; tb \<leftarrow> deref s b;
     ggml_assert (ggml_is_vector tb);
     ggml_assert (t_type tb = GGML_TYPE_I32);
     let mrope_used = (word_of_int mode AND GGML_ROPE_TYPE_MROPE \<noteq> 0);
     ggml_assert (if mrope_used then i64 (t_ne ta ! 2 * 4) = t_ne tb ! 0 else t_ne ta ! 2 = t_ne tb ! 0);
     if_given s c (\<lambda>tc. do {
       ggml_assert (t_type tc = GGML_TYPE_F32);
       ggml_assert (t_ne tc ! 0 \<ge> n_dims sdiv 2) });
     (result, s) \<leftarrow> view_or_dup s a inplace;
     let s = set_params s result
       (rope_params n_dims sections mode n_ctx_orig freq_base freq_scale ext_factor attn_factor beta_fast beta_slow);
     Some (result, set_op s result GGML_OP_ROPE [a, b, c]) }"

definition ggml_rope ::
  "ggml_state \<Rightarrow> ptr \<Rightarrow> ptr \<Rightarrow> int32_t \<Rightarrow> int32_t \<Rightarrow> built" where
  "ggml_rope s a b n_dims mode = ggml_rope_impl s a b 0 n_dims None mode 0 f32_10000 f32_1 0 f32_1 0 0 False"

definition ggml_rope_multi ::
  "ggml_state \<Rightarrow> ptr \<Rightarrow> ptr \<Rightarrow> ptr \<Rightarrow> int32_t \<Rightarrow> int32_t list option \<Rightarrow> int32_t \<Rightarrow> int32_t \<Rightarrow> f32 \<Rightarrow> f32 \<Rightarrow> f32 \<Rightarrow> f32 \<Rightarrow> f32 \<Rightarrow> f32 \<Rightarrow> built" where
  "ggml_rope_multi s a b c n_dims sections mode n_ctx_orig freq_base freq_scale ext_factor attn_factor beta_fast beta_slow = ggml_rope_impl s a b c n_dims sections mode n_ctx_orig freq_base freq_scale ext_factor attn_factor beta_fast beta_slow False"

definition ggml_rope_multi_inplace ::
  "ggml_state \<Rightarrow> ptr \<Rightarrow> ptr \<Rightarrow> ptr \<Rightarrow> int32_t \<Rightarrow> int32_t list option \<Rightarrow> int32_t \<Rightarrow> int32_t \<Rightarrow> f32 \<Rightarrow> f32 \<Rightarrow> f32 \<Rightarrow> f32 \<Rightarrow> f32 \<Rightarrow> f32 \<Rightarrow> built" where
  "ggml_rope_multi_inplace s a b c n_dims sections mode n_ctx_orig freq_base freq_scale ext_factor attn_factor beta_fast beta_slow = ggml_rope_impl s a b c n_dims sections mode n_ctx_orig freq_base freq_scale ext_factor attn_factor beta_fast beta_slow True"

definition ggml_rope_inplace ::
  "ggml_state \<Rightarrow> ptr \<Rightarrow> ptr \<Rightarrow> int32_t \<Rightarrow> int32_t \<Rightarrow> built" where
  "ggml_rope_inplace s a b n_dims mode = ggml_rope_impl s a b 0 n_dims None mode 0 f32_10000 f32_1 0 f32_1 0 0 True"

definition ggml_rope_ext ::
  "ggml_state \<Rightarrow> ptr \<Rightarrow> ptr \<Rightarrow> ptr \<Rightarrow> int32_t \<Rightarrow> int32_t \<Rightarrow> int32_t \<Rightarrow> f32 \<Rightarrow> f32 \<Rightarrow> f32 \<Rightarrow> f32 \<Rightarrow> f32 \<Rightarrow> f32 \<Rightarrow> built" where
  "ggml_rope_ext s a b c n_dims mode n_ctx_orig freq_base freq_scale ext_factor attn_factor beta_fast beta_slow = ggml_rope_impl s a b c n_dims None mode n_ctx_orig freq_base freq_scale ext_factor attn_factor beta_fast beta_slow False"

definition ggml_rope_ext_inplace ::
  "ggml_state \<Rightarrow> ptr \<Rightarrow> ptr \<Rightarrow> ptr \<Rightarrow> int32_t \<Rightarrow> int32_t \<Rightarrow> int32_t \<Rightarrow> f32 \<Rightarrow> f32 \<Rightarrow> f32 \<Rightarrow> f32 \<Rightarrow> f32 \<Rightarrow> f32 \<Rightarrow> built" where
  "ggml_rope_ext_inplace s a b c n_dims mode n_ctx_orig freq_base freq_scale ext_factor attn_factor beta_fast beta_slow = ggml_rope_impl s a b c n_dims None mode n_ctx_orig freq_base freq_scale ext_factor attn_factor beta_fast beta_slow True"

definition ggml_rope_custom ::
  "ggml_state \<Rightarrow> ptr \<Rightarrow> ptr \<Rightarrow> int32_t \<Rightarrow> int32_t \<Rightarrow> int32_t \<Rightarrow> f32 \<Rightarrow> f32 \<Rightarrow> f32 \<Rightarrow> f32 \<Rightarrow> f32 \<Rightarrow> f32 \<Rightarrow> built" where
  "ggml_rope_custom s a b n_dims mode n_ctx_orig freq_base freq_scale ext_factor attn_factor beta_fast beta_slow = ggml_rope_impl s a b 0 n_dims None mode n_ctx_orig freq_base freq_scale ext_factor attn_factor beta_fast beta_slow False"

definition ggml_rope_custom_inplace ::
  "ggml_state \<Rightarrow> ptr \<Rightarrow> ptr \<Rightarrow> int32_t \<Rightarrow> int32_t \<Rightarrow> int32_t \<Rightarrow> f32 \<Rightarrow> f32 \<Rightarrow> f32 \<Rightarrow> f32 \<Rightarrow> f32 \<Rightarrow> f32 \<Rightarrow> built" where
  "ggml_rope_custom_inplace s a b n_dims mode n_ctx_orig freq_base freq_scale ext_factor attn_factor beta_fast beta_slow = ggml_rope_impl s a b 0 n_dims None mode n_ctx_orig freq_base freq_scale ext_factor attn_factor beta_fast beta_slow True"

definition f32_2 :: f32 where "f32_2 = 0x40000000"

definition f32_M_PI :: f32 where "f32_M_PI = 0x40490FDB"

definition ggml_rope_yarn_corr_dim :: "float_ops \<Rightarrow> int32_t \<Rightarrow> int32_t \<Rightarrow> f32 \<Rightarrow> f32 \<Rightarrow> f32" where
  "ggml_rope_yarn_corr_dim fl n_dims n_ctx_orig n_rot base =
     fl_div fl
       (fl_mul fl (fl_of_int fl n_dims)
          (fl_logf fl (fl_div fl (fl_of_int fl n_ctx_orig) (fl_mul fl (fl_mul fl n_rot f32_2) f32_M_PI))))
       (fl_mul fl f32_2 (fl_logf fl base))"

definition ggml_rope_yarn_corr_dims ::
  "float_ops \<Rightarrow> int32_t \<Rightarrow> int32_t \<Rightarrow> f32 \<Rightarrow> f32 \<Rightarrow> f32 \<Rightarrow> f32 \<times> f32" where
  "ggml_rope_yarn_corr_dims fl n_dims n_ctx_orig freq_base beta_fast beta_slow =
     (let start = fl_floorf fl (ggml_rope_yarn_corr_dim fl n_dims n_ctx_orig beta_fast freq_base);
          finish = fl_ceilf fl (ggml_rope_yarn_corr_dim fl n_dims n_ctx_orig beta_slow freq_base);
          last_dim = fl_of_int fl (n_dims - 1)
      in (if fl_gt fl 0 start then 0 else start, if fl_gt fl finish last_dim then last_dim else finish))"

definition set_op_only :: "ggml_state \<Rightarrow> ptr \<Rightarrow> ggml_op \<Rightarrow> ggml_state" where
  "set_op_only s r op = upd s r (\<lambda>t. t\<lparr>t_op := op\<rparr>)"

definition ggml_rope_ext_back ::
  "ggml_state \<Rightarrow> ptr \<Rightarrow> ptr \<Rightarrow> ptr \<Rightarrow> int32_t \<Rightarrow> int32_t \<Rightarrow> int32_t \<Rightarrow> f32 \<Rightarrow> f32 \<Rightarrow> f32 \<Rightarrow> f32 \<Rightarrow> f32 \<Rightarrow> f32 \<Rightarrow> built" where
  "ggml_rope_ext_back s a b c n_dims mode n_ctx_orig freq_base freq_scale ext_factor attn_factor beta_fast beta_slow = do {
     (result, s) \<leftarrow> ggml_rope_ext s a b c n_dims mode n_ctx_orig freq_base freq_scale ext_factor attn_factor beta_fast beta_slow;
     Some (result, set_op_only s result GGML_OP_ROPE_BACK) }"

definition ggml_rope_multi_back ::
  "ggml_state \<Rightarrow> ptr \<Rightarrow> ptr \<Rightarrow> ptr \<Rightarrow> int32_t \<Rightarrow> int32_t list option \<Rightarrow> int32_t \<Rightarrow> int32_t \<Rightarrow> f32 \<Rightarrow> f32 \<Rightarrow> f32 \<Rightarrow> f32 \<Rightarrow> f32 \<Rightarrow> f32 \<Rightarrow> built" where
  "ggml_rope_multi_back s a b c n_dims sections mode n_ctx_orig freq_base freq_scale ext_factor attn_factor beta_fast beta_slow = do {
     (result, s) \<leftarrow> ggml_rope_multi s a b c n_dims sections mode n_ctx_orig freq_base freq_scale ext_factor attn_factor beta_fast beta_slow;
     Some (result, set_op_only s result GGML_OP_ROPE_BACK) }"

definition ggml_clamp :: "ggml_state \<Rightarrow> ptr \<Rightarrow> f32 \<Rightarrow> f32 \<Rightarrow> built" where
  "ggml_clamp s a fmin fmax = do {
     (result, s) \<leftarrow> ggml_view_tensor s a;
     let s = set_params s result [fmin, fmax];
     Some (result, set_op s result GGML_OP_CLAMP [a]) }"

section \<open>Convolution\<close>

definition ggml_calc_conv_output_size :: "int64_t \<Rightarrow> int64_t \<Rightarrow> int32_t \<Rightarrow> int32_t \<Rightarrow> int32_t \<Rightarrow> int64_t option" where
  "ggml_calc_conv_output_size ins ks st p d = do {
     q \<leftarrow> c_div (i64 (i64 (i64 (ins + i32 (2 * p)) - i64 (d * i64 (ks - 1))) - 1)) st;
     Some (i64 (q + 1)) }"

definition ggml_im2col ::
  "ggml_state \<Rightarrow> ptr \<Rightarrow> ptr \<Rightarrow> int32_t \<Rightarrow> int32_t \<Rightarrow> int32_t \<Rightarrow> int32_t \<Rightarrow> int32_t \<Rightarrow> int32_t \<Rightarrow> bool \<Rightarrow> ggml_type \<Rightarrow> built" where
  "ggml_im2col s a b s0 s1 p0 p1 d0 d1 is_2D dst_type = do {
     ta \<leftarrow> deref s a; tb \<leftarrow> deref s b;
     ggml_assert (if is_2D then t_ne ta ! 2 = t_ne tb ! 2 else t_ne tb ! 1 = t_ne ta ! 1 \<and> t_ne tb ! 3 = 1);
     OH \<leftarrow> (if is_2D then ggml_calc_conv_output_size (t_ne tb ! 1) (t_ne ta ! 1) s1 p1 d1 else Some 0);
     OW \<leftarrow> ggml_calc_conv_output_size (t_ne tb ! 0) (t_ne ta ! 0) s0 p0 d0;
     ggml_assert (\<not> is_2D \<or> OH > 0);
     ggml_assert (OW > 0);
     let ne = [if is_2D then i64 (i64 (t_ne ta ! 2 * t_ne ta ! 1) * t_ne ta ! 0) else i64 (t_ne ta ! 1 * t_ne ta ! 0),
               OW,
               if is_2D then OH else t_ne tb ! 2,
               if is_2D then t_ne tb ! 3 else 1];
     (result, s) \<leftarrow> ggml_new_tensor s dst_type 4 ne;
     let s = set_params s result (map word_of_int [s0, s1, p0, p1, d0, d1, if is_2D then 1 else 0]);
     Some (result, set_op s result GGML_OP_IM2COL [a, b]) }"

text \<open>\<^verbatim>\<open>ne\<close> is an array of four extents.\<close>

definition ggml_im2col_back ::
  "ggml_state \<Rightarrow> ptr \<Rightarrow> ptr \<Rightarrow> int64_t list \<Rightarrow> int32_t \<Rightarrow> int32_t \<Rightarrow> int32_t \<Rightarrow> int32_t \<Rightarrow> int32_t \<Rightarrow> int32_t \<Rightarrow> bool \<Rightarrow> built" where
  "ggml_im2col_back s a b ne s0 s1 p0 p1 d0 d1 is_2D = do {
     (result, s) \<leftarrow> ggml_new_tensor s GGML_TYPE_F32 4 ne;
     let s = set_params s result (map word_of_int [s0, s1, p0, p1, d0, d1, if is_2D then 1 else 0]);
     Some (result, set_op s result GGML_OP_IM2COL_BACK [a, b]) }"

definition ggml_conv_1d :: "ggml_state \<Rightarrow> ptr \<Rightarrow> ptr \<Rightarrow> int32_t \<Rightarrow> int32_t \<Rightarrow> int32_t \<Rightarrow> built" where
  "ggml_conv_1d s a b s0 p0 d0 = do {
     ta \<leftarrow> deref s a;
     (im2col, s) \<leftarrow> ggml_im2col s a b s0 0 p0 0 d0 0 False GGML_TYPE_F16;
     ti \<leftarrow> deref s im2col;
     (x, s) \<leftarrow> ggml_reshape_2d s im2col (t_ne ti ! 0) (i64 (t_ne ti ! 2 * t_ne ti ! 1));
     (y, s) \<leftarrow> ggml_reshape_2d s a (i64 (t_ne ta ! 0 * t_ne ta ! 1)) (t_ne ta ! 2);
     (result, s) \<leftarrow> ggml_mul_mat s x y;
     ggml_reshape_3d s result (t_ne ti ! 1) (t_ne ta ! 2) (t_ne ti ! 2) }"

definition ggml_conv_1d_ph :: "ggml_state \<Rightarrow> ptr \<Rightarrow> ptr \<Rightarrow> int32_t \<Rightarrow> int32_t \<Rightarrow> built" where
  "ggml_conv_1d_ph s a b st d = do {
     ta \<leftarrow> deref s a;
     ggml_conv_1d s a b st (i32 (t_ne ta ! 0 sdiv 2)) d }"

definition ggml_conv_1d_dw :: "ggml_state \<Rightarrow> ptr \<Rightarrow> ptr \<Rightarrow> int32_t \<Rightarrow> int32_t \<Rightarrow> int32_t \<Rightarrow> built" where
  "ggml_conv_1d_dw s a b s0 p0 d0 = do {
     tb \<leftarrow> deref s b;
     (new_b, s) \<leftarrow> ggml_reshape_4d s b (t_ne tb ! 0) 1 (t_ne tb ! 1) (t_ne tb ! 2);
     (im2col, s) \<leftarrow> ggml_im2col s a new_b s0 0 p0 0 d0 0 False GGML_TYPE_F16;
     (result, s) \<leftarrow> ggml_mul_mat s im2col a;
     tr \<leftarrow> deref s result;
     ggml_reshape_3d s result (t_ne tr ! 0) (t_ne tr ! 2) 1 }"

definition ggml_conv_1d_dw_ph :: "ggml_state \<Rightarrow> ptr \<Rightarrow> ptr \<Rightarrow> int32_t \<Rightarrow> int32_t \<Rightarrow> built" where
  "ggml_conv_1d_dw_ph s a b s0 d0 = do {
     ta \<leftarrow> deref s a;
     ggml_conv_1d_dw s a b s0 (i32 (t_ne ta ! 0 sdiv 2)) d0 }"

definition ggml_calc_conv_transpose_1d_output_size ::
  "int64_t \<Rightarrow> int64_t \<Rightarrow> int32_t \<Rightarrow> int32_t \<Rightarrow> int32_t \<Rightarrow> int64_t" where
  "ggml_calc_conv_transpose_1d_output_size ins ks st p d =
     i64 (i64 (i64 (i64 (i64 (ins - 1) * st) - i32 (2 * p)) + i64 (d * i64 (ks - 1))) + 1)"

definition ggml_conv_transpose_1d :: "ggml_state \<Rightarrow> ptr \<Rightarrow> ptr \<Rightarrow> int32_t \<Rightarrow> int32_t \<Rightarrow> int32_t \<Rightarrow> built" where
  "ggml_conv_transpose_1d s a b s0 p0 d0 = do {
     ta \<leftarrow> deref s a; tb \<leftarrow> deref s b;
     ggml_assert (ggml_is_matrix tb);
     ggml_assert (t_ne ta ! 2 = t_ne tb ! 1);
     ggml_assert (t_ne ta ! 3 = 1);
     ggml_assert (p0 = 0);
     ggml_assert (d0 = 1);
     let ne = [ggml_calc_conv_transpose_1d_output_size (t_ne tb ! 0) (t_ne ta ! 0) s0 0 1, t_ne ta ! 1, t_ne tb ! 2, 1];
     (result, s) \<leftarrow> ggml_new_tensor s GGML_TYPE_F32 4 ne;
     let s = set_params s result (map word_of_int [s0, p0, d0]);
     Some (result, set_op s result GGML_OP_CONV_TRANSPOSE_1D [a, b]) }"

definition ggml_conv_2d ::
  "ggml_state \<Rightarrow> ptr \<Rightarrow> ptr \<Rightarrow> int32_t \<Rightarrow> int32_t \<Rightarrow> int32_t \<Rightarrow> int32_t \<Rightarrow> int32_t \<Rightarrow> int32_t \<Rightarrow> built" where
  "ggml_conv_2d s a b s0 s1 p0 p1 d0 d1 = do {
     ta \<leftarrow> deref s a;
     (im2col, s) \<leftarrow> ggml_im2col s a b s0 s1 p0 p1 d0 d1 True (t_type ta);
     ti \<leftarrow> deref s im2col;
     (x, s) \<leftarrow> ggml_reshape_2d s im2col (t_ne ti ! 0) (i64 (i64 (t_ne ti ! 3 * t_ne ti ! 2) * t_ne ti ! 1));
     (y, s) \<leftarrow> ggml_reshape_2d s a (i64 (i64 (t_ne ta ! 0 * t_ne ta ! 1) * t_ne ta ! 2)) (t_ne ta ! 3);
     (result, s) \<leftarrow> ggml_mul_mat s x y;
     (result, s) \<leftarrow> ggml_reshape_4d s result (t_ne ti ! 1) (t_ne ti ! 2) (t_ne ti ! 3) (t_ne ta ! 3);
     (result, s) \<leftarrow> ggml_permute s result 0 1 3 2;
     ggml_cont s result }"

definition ggml_im2col_3d ::
  "ggml_state \<Rightarrow> ptr \<Rightarrow> ptr \<Rightarrow> int64_t \<Rightarrow> int32_t \<Rightarrow> int32_t \<Rightarrow> int32_t \<Rightarrow> int32_t \<Rightarrow> int32_t \<Rightarrow> int32_t
     \<Rightarrow> int32_t \<Rightarrow> int32_t \<Rightarrow> int32_t \<Rightarrow> ggml_type \<Rightarrow> built" where
  "ggml_im2col_3d s a b IC s0 s1 s2 p0 p1 p2 d0 d1 d2 dst_type = do {
     ta \<leftarrow> deref s a; tb \<leftarrow> deref s b;
     N \<leftarrow> c_div (t_ne tb ! 3) IC;
     let ID = t_ne tb ! 2; let IH = t_ne tb ! 1; let IW = t_ne tb ! 0;
     OC \<leftarrow> c_div (t_ne ta ! 3) IC;
     let KD = t_ne ta ! 2; let KH = t_ne ta ! 1; let KW = t_ne ta ! 0;
     OD \<leftarrow> ggml_calc_conv_output_size ID KD s2 p2 d2;
     OH \<leftarrow> ggml_calc_conv_output_size IH KH s1 p1 d1;
     OW \<leftarrow> ggml_calc_conv_output_size IW KW s0 p0 d0;
     ggml_assert (OD > 0);
     ggml_assert (OH > 0);
     ggml_assert (OW > 0);
     (result, s) \<leftarrow> ggml_new_tensor s dst_type 4 [i64 (i64 (i64 (KW * KH) * KD) * IC), OW, OH, i64 (OD * N)];
     let s = set_params s result (map word_of_int [s0, s1, s2, p0, p1, p2, d0, d1, d2, IC]);
     Some (result, set_op s result GGML_OP_IM2COL_3D [a, b]) }"

definition ggml_conv_3d ::
  "ggml_state \<Rightarrow> ptr \<Rightarrow> ptr \<Rightarrow> int64_t \<Rightarrow> int32_t \<Rightarrow> int32_t \<Rightarrow> int32_t \<Rightarrow> int32_t \<Rightarrow> int32_t \<Rightarrow> int32_t
     \<Rightarrow> int32_t \<Rightarrow> int32_t \<Rightarrow> int32_t \<Rightarrow> built" where
  "ggml_conv_3d s a b IC s0 s1 s2 p0 p1 p2 d0 d1 d2 = do {
     ta \<leftarrow> deref s a; tb \<leftarrow> deref s b;
     (im2col, s) \<leftarrow> ggml_im2col_3d s a b IC s0 s1 s2 p0 p1 p2 d0 d1 d2 (t_type ta);
     OC \<leftarrow> c_div (t_ne ta ! 3) IC;
     N \<leftarrow> c_div (t_ne tb ! 3) IC;
     ti \<leftarrow> deref s im2col;
     (x, s) \<leftarrow> ggml_reshape_2d s im2col (t_ne ti ! 0) (i64 (i64 (t_ne ti ! 3 * t_ne ti ! 2) * t_ne ti ! 1));
     (y, s) \<leftarrow> ggml_reshape_2d s a (i64 (i64 (i64 (t_ne ta ! 0 * t_ne ta ! 1) * t_ne ta ! 2) * IC)) OC;
     (result, s) \<leftarrow> ggml_mul_mat s x y;
     OD \<leftarrow> c_div (t_ne ti ! 3) N;
     (result, s) \<leftarrow> ggml_reshape_4d s result (i64 (t_ne ti ! 1 * t_ne ti ! 2)) OD N OC;
     (result, s) \<leftarrow> ggml_permute s result 0 1 3 2;
     (result, s) \<leftarrow> ggml_cont s result;
     ggml_reshape_4d s result (t_ne ti ! 1) (t_ne ti ! 2) OD (i64 (OC * N)) }"

definition ggml_conv_2d_sk_p0 :: "ggml_state \<Rightarrow> ptr \<Rightarrow> ptr \<Rightarrow> built" where
  "ggml_conv_2d_sk_p0 s a b = do {
     ta \<leftarrow> deref s a;
     ggml_conv_2d s a b (i32 (t_ne ta ! 0)) (i32 (t_ne ta ! 1)) 0 0 1 1 }"

definition ggml_conv_2d_s1_ph :: "ggml_state \<Rightarrow> ptr \<Rightarrow> ptr \<Rightarrow> built" where
  "ggml_conv_2d_s1_ph s a b = do {
     ta \<leftarrow> deref s a;
     ggml_conv_2d s a b 1 1 (i32 (t_ne ta ! 0 sdiv 2)) (i32 (t_ne ta ! 1 sdiv 2)) 1 1 }"

definition ggml_conv_2d_dw ::
  "ggml_state \<Rightarrow> ptr \<Rightarrow> ptr \<Rightarrow> int32_t \<Rightarrow> int32_t \<Rightarrow> int32_t \<Rightarrow> int32_t \<Rightarrow> int32_t \<Rightarrow> int32_t \<Rightarrow> built" where
  "ggml_conv_2d_dw s a b s0 s1 p0 p1 d0 d1 = do {
     ta \<leftarrow> deref s a; tb \<leftarrow> deref s b;
     (new_a, s) \<leftarrow> ggml_reshape_4d s a (t_ne ta ! 0) (t_ne ta ! 1) 1 (i64 (t_ne ta ! 2 * t_ne ta ! 3));
     (y, s) \<leftarrow> ggml_reshape_4d s b (t_ne tb ! 0) (t_ne tb ! 1) 1 (i64 (t_ne tb ! 2 * t_ne tb ! 3));
     (im2col, s) \<leftarrow> ggml_im2col s new_a y s0 s1 p0 p1 d0 d1 True GGML_TYPE_F16;
     ti \<leftarrow> deref s im2col;
     (new_b, s) \<leftarrow> ggml_reshape_4d s im2col (t_ne ti ! 0) (i64 (t_ne ti ! 2 * t_ne ti ! 1)) (t_ne tb ! 2) (t_ne tb ! 3);
     tn \<leftarrow> deref s new_a;
     (new_a, s) \<leftarrow> ggml_reshape_4d s new_a (i64 (t_ne tn ! 0 * t_ne tn ! 1)) (t_ne tn ! 2) (t_ne tn ! 3) 1;
     (result, s) \<leftarrow> ggml_mul_mat s new_a new_b;
     ggml_reshape_4d s result (t_ne ti ! 1) (t_ne ti ! 2) (t_ne tb ! 2) (t_ne tb ! 3) }"

text \<open>The result is laid out like the input \<open>tb\<close>: with channels innermost, the strides of its first
  three dimensions are rewritten.\<close>

definition cwhn_strides :: "ggml_state \<Rightarrow> ptr \<Rightarrow> ggml_tensor \<Rightarrow> ggml_state option" where
  "cwhn_strides s result tb =
     (if ggml_is_contiguous_channels tb then do {
        tr \<leftarrow> deref s result;
        let type_size = ggml_type_size (t_type tr);
        ggml_assert (ggml_blck_size (t_type tr) = 1);
        let nb0 = sz_mul (sz_of_int (t_ne tr ! 2)) type_size;
        let nb1 = sz_mul (sz_of_int (t_ne tr ! 0)) nb0;
        Some (set_nb s result [nb0, nb1, type_size, t_nb tr ! 3]) }
      else Some s)"

definition ggml_conv_2d_dw_direct ::
  "ggml_state \<Rightarrow> ptr \<Rightarrow> ptr \<Rightarrow> int32_t \<Rightarrow> int32_t \<Rightarrow> int32_t \<Rightarrow> int32_t \<Rightarrow> int32_t \<Rightarrow> int32_t \<Rightarrow> built" where
  "ggml_conv_2d_dw_direct s a b stride0 stride1 pad0 pad1 dilation0 dilation1 = do {
     ta \<leftarrow> deref s a; tb \<leftarrow> deref s b;
     ggml_assert (t_ne ta ! 2 = 1);
     ggml_assert (t_ne ta ! 3 = t_ne tb ! 2);
     ne0 \<leftarrow> ggml_calc_conv_output_size (t_ne tb ! 0) (t_ne ta ! 0) stride0 pad0 dilation0;
     ne1 \<leftarrow> ggml_calc_conv_output_size (t_ne tb ! 1) (t_ne ta ! 1) stride1 pad1 dilation1;
     (result, s) \<leftarrow> ggml_new_tensor s (t_type tb) 4 [ne0, ne1, t_ne tb ! 2, t_ne tb ! 3];
     s \<leftarrow> cwhn_strides s result tb;
     let s = set_params s result (map word_of_int [stride0, stride1, pad0, pad1, dilation0, dilation1]);
     Some (result, set_op s result GGML_OP_CONV_2D_DW [a, b]) }"

text \<open>Consecutive calls of \<^verbatim>\<open>ggml_set_op_params_i32\<close> for the parameters \<open>i\<close>, \<open>i + 1\<close>, ...\<close>

fun set_params_i32_from :: "ggml_state \<Rightarrow> ptr \<Rightarrow> nat \<Rightarrow> int32_t list \<Rightarrow> ggml_state" where
  "set_params_i32_from s r i [] = s"
| "set_params_i32_from s r i (v # vs) = set_params_i32_from (set_param_i32 s r i v) r (i + 1) vs"

definition ggml_conv_2d_direct ::
  "ggml_state \<Rightarrow> ptr \<Rightarrow> ptr \<Rightarrow> int32_t \<Rightarrow> int32_t \<Rightarrow> int32_t \<Rightarrow> int32_t \<Rightarrow> int32_t \<Rightarrow> int32_t \<Rightarrow> built" where
  "ggml_conv_2d_direct s a b s0 s1 p0 p1 d0 d1 = do {
     ta \<leftarrow> deref s a; tb \<leftarrow> deref s b;
     ggml_assert (t_ne ta ! 2 = t_ne tb ! 2);
     ne0 \<leftarrow> ggml_calc_conv_output_size (t_ne tb ! 0) (t_ne ta ! 0) s0 p0 d0;
     ne1 \<leftarrow> ggml_calc_conv_output_size (t_ne tb ! 1) (t_ne ta ! 1) s1 p1 d1;
     (result, s) \<leftarrow> ggml_new_tensor s (t_type tb) 4 [ne0, ne1, t_ne ta ! 3, t_ne tb ! 3];
     let s = set_params_i32_from s result 0 [s0, s1, p0, p1, d0, d1];
     Some (result, set_op s result GGML_OP_CONV_2D [a, b]) }"

definition ggml_conv_3d_direct ::
  "ggml_state \<Rightarrow> ptr \<Rightarrow> ptr \<Rightarrow> int32_t \<Rightarrow> int32_t \<Rightarrow> int32_t \<Rightarrow> int32_t \<Rightarrow> int32_t \<Rightarrow> int32_t
     \<Rightarrow> int32_t \<Rightarrow> int32_t \<Rightarrow> int32_t \<Rightarrow> int32_t \<Rightarrow> int32_t \<Rightarrow> int32_t \<Rightarrow> built" where
  "ggml_conv_3d_direct s a b s0 s1 s2 p0 p1 p2 d0 d1 d2 c n oc = do {
     ta \<leftarrow> deref s a; tb \<leftarrow> deref s b;
     ggml_assert (t_ne ta ! 3 = i64 (c * oc));
     ggml_assert (t_ne tb ! 3 = i64 (c * n));
     ne0 \<leftarrow> ggml_calc_conv_output_size (t_ne tb ! 0) (t_ne ta ! 0) s0 p0 d0;
     ne1 \<leftarrow> ggml_calc_conv_output_size (t_ne tb ! 1) (t_ne ta ! 1) s1 p1 d1;
     ne2 \<leftarrow> ggml_calc_conv_output_size (t_ne tb ! 2) (t_ne ta ! 2) s2 p2 d2;
     (result, s) \<leftarrow> ggml_new_tensor s GGML_TYPE_F32 4 [ne0, ne1, ne2, i64 (oc * n)];
     let s = set_params_i32_from s result 0 [s0, s1, s2, p0, p1, p2, d0, d1, d2, c, n, oc];
     Some (result, set_op s result GGML_OP_CONV_3D [a, b]) }"

definition ggml_calc_conv_transpose_output_size :: "int64_t \<Rightarrow> int64_t \<Rightarrow> int32_t \<Rightarrow> int32_t \<Rightarrow> int64_t" where
  "ggml_calc_conv_transpose_output_size ins ks st p = i64 (i64 (i64 (i64 (ins - 1) * st) - i32 (2 * p)) + ks)"

definition ggml_conv_transpose_2d_p0 :: "ggml_state \<Rightarrow> ptr \<Rightarrow> ptr \<Rightarrow> int32_t \<Rightarrow> built" where
  "ggml_conv_transpose_2d_p0 s a b stride = do {
     ta \<leftarrow> deref s a; tb \<leftarrow> deref s b;
     ggml_assert (t_ne ta ! 3 = t_ne tb ! 2);
     let ne = [ggml_calc_conv_transpose_output_size (t_ne tb ! 0) (t_ne ta ! 0) stride 0,
               ggml_calc_conv_transpose_output_size (t_ne tb ! 1) (t_ne ta ! 1) stride 0,
               t_ne ta ! 2, t_ne tb ! 3];
     (result, s) \<leftarrow> ggml_new_tensor s GGML_TYPE_F32 4 ne;
     let s = set_param_i32 s result 0 stride;
     Some (result, set_op s result GGML_OP_CONV_TRANSPOSE_2D [a, b]) }"

section \<open>Pooling, scaling, padding\<close>

text \<open>The size of a pooled dimension is computed in \<^verbatim>\<open>float\<close>.\<close>

definition ggml_calc_pool_output_size :: "float_ops \<Rightarrow> int64_t \<Rightarrow> int32_t \<Rightarrow> int32_t \<Rightarrow> f32 \<Rightarrow> int64_t" where
  "ggml_calc_pool_output_size fl ins ks st p =
     fl_to_int fl (fl_add fl
       (fl_div fl (fl_sub fl (fl_add fl (fl_of_int fl ins) (fl_mul fl f32_2 p)) (fl_of_int fl ks)) (fl_of_int fl st))
       f32_1)"

definition ggml_pool_1d :: "float_ops \<Rightarrow> ggml_state \<Rightarrow> ptr \<Rightarrow> int32_t \<Rightarrow> int32_t \<Rightarrow> int32_t \<Rightarrow> int32_t \<Rightarrow> built" where
  "ggml_pool_1d fl s a op k0 s0 p0 = do {
     ta \<leftarrow> deref s a;
     let ne0 = ggml_calc_pool_output_size fl (t_ne ta ! 0) k0 s0 (fl_of_int fl p0);
     ggml_assert (ne0 > 0);
     (result, s) \<leftarrow> ggml_new_tensor s GGML_TYPE_F32 4 [ne0, t_ne ta ! 1, t_ne ta ! 2, t_ne ta ! 3];
     let s = set_params s result (map word_of_int [op, k0, s0, p0]);
     Some (result, set_op s result GGML_OP_POOL_1D [a]) }"

definition ggml_pool_2d ::
  "float_ops \<Rightarrow> ggml_state \<Rightarrow> ptr \<Rightarrow> int32_t \<Rightarrow> int32_t \<Rightarrow> int32_t \<Rightarrow> int32_t \<Rightarrow> int32_t \<Rightarrow> f32 \<Rightarrow> f32 \<Rightarrow> built" where
  "ggml_pool_2d fl s a op k0 k1 s0 s1 p0 p1 = do {
     ta \<leftarrow> deref s a;
     let ne0 = ggml_calc_pool_output_size fl (t_ne ta ! 0) k0 s0 p0;
     let ne1 = ggml_calc_pool_output_size fl (t_ne ta ! 1) k1 s1 p1;
     ggml_assert (ne0 > 0);
     ggml_assert (ne1 > 0);
     (result, s) \<leftarrow> ggml_new_tensor s GGML_TYPE_F32 4 [ne0, ne1, t_ne ta ! 2, t_ne ta ! 3];
     let s = set_params s result (map word_of_int [op, k0, k1, s0, s1, fl_to_int fl p0, fl_to_int fl p1]);
     Some (result, set_op s result GGML_OP_POOL_2D [a]) }"

definition ggml_pool_2d_back ::
  "float_ops \<Rightarrow> ggml_state \<Rightarrow> ptr \<Rightarrow> ptr \<Rightarrow> int32_t \<Rightarrow> int32_t \<Rightarrow> int32_t \<Rightarrow> int32_t \<Rightarrow> int32_t \<Rightarrow> f32 \<Rightarrow> f32 \<Rightarrow> built" where
  "ggml_pool_2d_back fl s a af op k0 k1 s0 s1 p0 p1 = do {
     tf \<leftarrow> deref s af;
     (result, s) \<leftarrow> ggml_new_tensor s GGML_TYPE_F32 4 (t_ne tf);
     let s = set_params s result (map word_of_int [op, k0, k1, s0, s1, fl_to_int fl p0, fl_to_int fl p1]);
     Some (result, set_op s result GGML_OP_POOL_2D_BACK [a, af]) }"

text \<open>\<^verbatim>\<open>GGML_SCALE_MODE_COUNT\<close> is 3, \<^verbatim>\<open>GGML_SCALE_MODE_BILINEAR\<close> is 1, \<^verbatim>\<open>GGML_SCALE_FLAG_ANTIALIAS\<close> is bit 9.\<close>

definition ggml_interpolate_impl ::
  "ggml_state \<Rightarrow> ptr \<Rightarrow> int64_t \<Rightarrow> int64_t \<Rightarrow> int64_t \<Rightarrow> int64_t \<Rightarrow> 32 word \<Rightarrow> built" where
  "ggml_interpolate_impl s a ne0 ne1 ne2 ne3 mode = do {
     ggml_assert (mode AND 0xFF < 3);
     ggml_assert (mode AND 0x200 = 0 \<or> mode AND 0xFF = 1);
     ta \<leftarrow> deref s a;
     ggml_assert (t_type ta = GGML_TYPE_F32);
     (result, s) \<leftarrow> ggml_new_tensor_4d s (t_type ta) ne0 ne1 ne2 ne3;
     let s = set_param_i32 s result 0 (sint mode);
     Some (result, set_op s result GGML_OP_UPSCALE [a]) }"

definition ggml_upscale :: "ggml_state \<Rightarrow> ptr \<Rightarrow> int32_t \<Rightarrow> 32 word \<Rightarrow> built" where
  "ggml_upscale s a scale_factor mode = do {
     ggml_assert (scale_factor > 1);
     ta \<leftarrow> deref s a;
     ggml_interpolate_impl s a (i64 (t_ne ta ! 0 * scale_factor)) (i64 (t_ne ta ! 1 * scale_factor)) (t_ne ta ! 2) (t_ne ta ! 3) mode }"

definition ggml_upscale_ext ::
  "ggml_state \<Rightarrow> ptr \<Rightarrow> int32_t \<Rightarrow> int32_t \<Rightarrow> int32_t \<Rightarrow> int32_t \<Rightarrow> 32 word \<Rightarrow> built" where
  "ggml_upscale_ext s a ne0 ne1 ne2 ne3 mode = ggml_interpolate_impl s a ne0 ne1 ne2 ne3 mode"

definition ggml_interpolate ::
  "ggml_state \<Rightarrow> ptr \<Rightarrow> int64_t \<Rightarrow> int64_t \<Rightarrow> int64_t \<Rightarrow> int64_t \<Rightarrow> 32 word \<Rightarrow> built" where
  "ggml_interpolate s a ne0 ne1 ne2 ne3 mode = ggml_interpolate_impl s a ne0 ne1 ne2 ne3 mode"

definition ggml_pad_ext ::
  "ggml_state \<Rightarrow> ptr \<Rightarrow> int32_t \<Rightarrow> int32_t \<Rightarrow> int32_t \<Rightarrow> int32_t \<Rightarrow> int32_t \<Rightarrow> int32_t \<Rightarrow> int32_t \<Rightarrow> int32_t \<Rightarrow> built" where
  "ggml_pad_ext s a lp0 rp0 lp1 rp1 lp2 rp2 lp3 rp3 = do {
     ta \<leftarrow> deref s a;
     (result, s) \<leftarrow> ggml_new_tensor_4d s (t_type ta)
       (i64 (i64 (t_ne ta ! 0 + lp0) + rp0))
       (i64 (i64 (t_ne ta ! 1 + lp1) + rp1))
       (i64 (i64 (t_ne ta ! 2 + lp2) + rp2))
       (i64 (i64 (t_ne ta ! 3 + lp3) + rp3));
     let s = set_params_i32_from s result 0 [lp0, rp0, lp1, rp1, lp2, rp2, lp3, rp3, 0];
     Some (result, set_op s result GGML_OP_PAD [a]) }"

definition ggml_pad_ext_circular ::
  "ggml_state \<Rightarrow> ptr \<Rightarrow> int32_t \<Rightarrow> int32_t \<Rightarrow> int32_t \<Rightarrow> int32_t \<Rightarrow> int32_t \<Rightarrow> int32_t \<Rightarrow> int32_t \<Rightarrow> int32_t \<Rightarrow> built" where
  "ggml_pad_ext_circular s a lp0 rp0 lp1 rp1 lp2 rp2 lp3 rp3 = do {
     (result, s) \<leftarrow> ggml_pad_ext s a lp0 rp0 lp1 rp1 lp2 rp2 lp3 rp3;
     Some (result, set_param_i32 s result 8 1) }"

definition ggml_pad ::
  "ggml_state \<Rightarrow> ptr \<Rightarrow> int32_t \<Rightarrow> int32_t \<Rightarrow> int32_t \<Rightarrow> int32_t \<Rightarrow> built" where
  "ggml_pad s a p0 p1 p2 p3 = ggml_pad_ext s a 0 p0 0 p1 0 p2 0 p3"

definition ggml_pad_circular ::
  "ggml_state \<Rightarrow> ptr \<Rightarrow> int32_t \<Rightarrow> int32_t \<Rightarrow> int32_t \<Rightarrow> int32_t \<Rightarrow> built" where
  "ggml_pad_circular s a p0 p1 p2 p3 = ggml_pad_ext_circular s a 0 p0 0 p1 0 p2 0 p3"

definition ggml_pad_reflect_1d :: "ggml_state \<Rightarrow> ptr \<Rightarrow> int32_t \<Rightarrow> int32_t \<Rightarrow> built" where
  "ggml_pad_reflect_1d s a p0 p1 = do {
     ggml_assert (p0 \<ge> 0);
     ggml_assert (p1 \<ge> 0);
     ta \<leftarrow> deref s a;
     ggml_assert (p0 < t_ne ta ! 0);
     ggml_assert (p1 < t_ne ta ! 0);
     ggml_assert (ggml_is_contiguous ta);
     ggml_assert (t_type ta = GGML_TYPE_F32);
     (result, s) \<leftarrow> ggml_new_tensor_4d s (t_type ta) (i64 (i64 (t_ne ta ! 0 + p0) + p1)) (t_ne ta ! 1) (t_ne ta ! 2) (t_ne ta ! 3);
     let s = set_params s result (map word_of_int [p0, p1]);
     Some (result, set_op s result GGML_OP_PAD_REFLECT_1D [a]) }"

definition ggml_roll :: "ggml_state \<Rightarrow> ptr \<Rightarrow> int32_t \<Rightarrow> int32_t \<Rightarrow> int32_t \<Rightarrow> int32_t \<Rightarrow> built" where
  "ggml_roll s a shift0 shift1 shift2 shift3 = do {
     ta \<leftarrow> deref s a;
     ggml_assert (t_nb ta ! 0 = ggml_type_size (t_type ta));
     ggml_assert (\<bar>shift0\<bar> < t_ne ta ! 0);
     ggml_assert (\<bar>shift1\<bar> < t_ne ta ! 1);
     ggml_assert (\<bar>shift2\<bar> < t_ne ta ! 2);
     ggml_assert (\<bar>shift3\<bar> < t_ne ta ! 3);
     (result, s) \<leftarrow> ggml_dup_tensor s a;
     let s = set_params_i32_from s result 0 [shift0, shift1, shift2, shift3];
     Some (result, set_op s result GGML_OP_ROLL [a]) }"

definition ggml_timestep_embedding :: "ggml_state \<Rightarrow> ptr \<Rightarrow> int32_t \<Rightarrow> int32_t \<Rightarrow> built" where
  "ggml_timestep_embedding s timesteps n_dim max_period = do {
     tt \<leftarrow> deref s timesteps;
     (result, s) \<leftarrow> ggml_new_tensor_2d s GGML_TYPE_F32 n_dim (t_ne tt ! 0);
     let s = set_params_i32_from s result 0 [n_dim, max_period];
     Some (result, set_op s result GGML_OP_TIMESTEP_EMBEDDING [timesteps]) }"

definition ggml_tri :: "ggml_state \<Rightarrow> ptr \<Rightarrow> int32_t \<Rightarrow> built" where
  "ggml_tri s a type = do {
     ta \<leftarrow> deref s a;
     ggml_assert (t_type ta = GGML_TYPE_F32);
     ggml_assert (ggml_is_contiguous ta);
     ggml_assert (t_ne ta ! 0 = t_ne ta ! 1);
     (result, s) \<leftarrow> ggml_dup_tensor s a;
     let s = set_param_i32 s result 0 type;
     Some (result, set_op s result GGML_OP_TRI [a]) }"

definition ggml_fill_impl :: "ggml_state \<Rightarrow> ptr \<Rightarrow> f32 \<Rightarrow> bool \<Rightarrow> built" where
  "ggml_fill_impl s a c inplace = do {
     ta \<leftarrow> deref s a;
     ggml_assert (t_type ta = GGML_TYPE_F32);
     ggml_assert (ggml_is_contiguous ta);
     (result, s) \<leftarrow> view_or_dup s a inplace;
     let s = set_param_f32 s result 0 c;
     Some (result, set_op s result GGML_OP_FILL [a]) }"

definition ggml_fill :: "ggml_state \<Rightarrow> ptr \<Rightarrow> f32 \<Rightarrow> built" where
  "ggml_fill s a c = ggml_fill_impl s a c False"

definition ggml_fill_inplace :: "ggml_state \<Rightarrow> ptr \<Rightarrow> f32 \<Rightarrow> built" where
  "ggml_fill_inplace s a c = ggml_fill_impl s a c True"

section \<open>Sorting\<close>

definition GGML_SORT_ORDER_DESC :: int32_t where "GGML_SORT_ORDER_DESC = 1"

definition ggml_argsort :: "ggml_state \<Rightarrow> ptr \<Rightarrow> int32_t \<Rightarrow> built" where
  "ggml_argsort s a order = do {
     ta \<leftarrow> deref s a;
     ggml_assert (t_ne ta ! 0 \<le> INT32_MAX);
     (result, s) \<leftarrow> ggml_new_tensor s GGML_TYPE_I32 4 (t_ne ta);
     let s = set_param_i32 s result 0 order;
     Some (result, set_op s result GGML_OP_ARGSORT [a]) }"

definition ggml_argsort_top_k :: "ggml_state \<Rightarrow> ptr \<Rightarrow> int32_t \<Rightarrow> built" where
  "ggml_argsort_top_k s a k = do {
     ta \<leftarrow> deref s a;
     ggml_assert (t_ne ta ! 0 \<ge> k);
     (result, s) \<leftarrow> ggml_argsort s a GGML_SORT_ORDER_DESC;
     tr \<leftarrow> deref s result;
     ggml_view_4d s result k (t_ne tr ! 1) (t_ne tr ! 2) (t_ne tr ! 3) (t_nb tr ! 1) (t_nb tr ! 2) (t_nb tr ! 3) 0 }"

definition ggml_top_k :: "ggml_state \<Rightarrow> ptr \<Rightarrow> int32_t \<Rightarrow> built" where
  "ggml_top_k s a k = do {
     ta \<leftarrow> deref s a;
     ggml_assert (t_ne ta ! 0 \<ge> k);
     (result, s) \<leftarrow> ggml_new_tensor_4d s GGML_TYPE_I32 k (t_ne ta ! 1) (t_ne ta ! 2) (t_ne ta ! 3);
     Some (result, set_op s result GGML_OP_TOP_K [a]) }"

definition ggml_arange :: "float_ops \<Rightarrow> ggml_state \<Rightarrow> f32 \<Rightarrow> f32 \<Rightarrow> f32 \<Rightarrow> built" where
  "ggml_arange fl s start stop step = do {
     ggml_assert (fl_gt fl stop start);
     let steps = fl_to_int fl (fl_ceilf fl (fl_div fl (fl_sub fl stop start) step));
     (result, s) \<leftarrow> ggml_new_tensor_1d s GGML_TYPE_F32 steps;
     let s = set_param_f32 s result 0 start;
     let s = set_param_f32 s result 1 stop;
     let s = set_param_f32 s result 2 step;
     Some (result, set_op s result GGML_OP_ARANGE []) }"

section \<open>The nodes they add\<close>

lemma rope_params_length [simp]:
  "length (rope_params n_dims sections mode n_ctx_orig freq_base freq_scale ext_factor attn_factor beta_fast beta_slow) = 15"
  by (simp add: rope_params_def split: option.split)

lemma set_params_i32_from_node [node_set]:
  "op_node s r s' op ty ne srcs \<Longrightarrow> valid_args s srcs \<Longrightarrow> length srcs \<le> GGML_MAX_SRC
    \<Longrightarrow> op_node s r (set_params_i32_from s' r i vs) op ty ne srcs"
  by (induction vs arbitrary: i s') (simp_all add: set_param_i32_node)

lemma ggml_soft_max_impl_node:
  assumes "ggml_soft_max_impl s a msk scale max_bias inplace = Some (r, s')" "ctx_inv s" "deref s a = Some ta" "valid_args s [a, msk]"
  shows "op_node s r s' GGML_OP_SOFT_MAX (t_type ta) (t_ne ta) [a, msk]"
  using assms by (auto simp: ggml_soft_max_impl_def node_simps deref_dom deref_len intro!: node_set intro: node_new)

lemma ggml_soft_max_impl_adds [node_adds]:
  "ggml_soft_max_impl s a msk scale max_bias inplace = Some (r, s') \<Longrightarrow> ctx_inv s \<Longrightarrow> valid_args s [a, msk] \<Longrightarrow> adds s r s'"
  by (cases "deref s a") ((rule ggml_soft_max_impl_node [THEN op_node_adds], assumption+) | simp add: ggml_soft_max_impl_def none_simps)+

lemma ggml_soft_max_ext_back_impl_node:
  assumes "ggml_soft_max_ext_back_impl s a b scale max_bias inplace = Some (r, s')" "ctx_inv s" "deref s a = Some ta" "valid_args s [a, b]"
  shows "op_node s r s' GGML_OP_SOFT_MAX_BACK (t_type ta) (t_ne ta) [a, b]"
  using assms by (auto simp: ggml_soft_max_ext_back_impl_def node_simps deref_dom deref_len intro!: node_set intro: node_new)

lemma ggml_soft_max_ext_back_impl_adds [node_adds]:
  "ggml_soft_max_ext_back_impl s a b scale max_bias inplace = Some (r, s') \<Longrightarrow> ctx_inv s \<Longrightarrow> valid_args s [a, b] \<Longrightarrow> adds s r s'"
  by (cases "deref s a") ((rule ggml_soft_max_ext_back_impl_node [THEN op_node_adds], assumption+) | simp add: ggml_soft_max_ext_back_impl_def none_simps)+

lemma ggml_rope_impl_node:
  assumes "ggml_rope_impl s a b c n_dims sections mode n_ctx_orig freq_base freq_scale ext_factor attn_factor beta_fast beta_slow inplace = Some (r, s')" "ctx_inv s" "deref s a = Some ta" "valid_args s [a, b, c]"
  shows "op_node s r s' GGML_OP_ROPE (t_type ta) (t_ne ta) [a, b, c]"
  using assms by (auto simp: ggml_rope_impl_def node_simps deref_dom deref_len intro!: node_set intro: node_new)

lemma ggml_rope_impl_adds [node_adds]:
  "ggml_rope_impl s a b c n_dims sections mode n_ctx_orig freq_base freq_scale ext_factor attn_factor beta_fast beta_slow inplace = Some (r, s') \<Longrightarrow> ctx_inv s \<Longrightarrow> valid_args s [a, b, c] \<Longrightarrow> adds s r s'"
  by (cases "deref s a") ((rule ggml_rope_impl_node [THEN op_node_adds], assumption+) | simp add: ggml_rope_impl_def none_simps)+

lemma ggml_clamp_node:
  assumes "ggml_clamp s a fmin fmax = Some (r, s')" "ctx_inv s" "deref s a = Some ta" "valid_args s [a]"
  shows "op_node s r s' GGML_OP_CLAMP (t_type ta) (t_ne ta) [a]"
  using assms by (auto simp: ggml_clamp_def node_simps deref_dom deref_len intro!: node_set intro: node_new)

lemma ggml_clamp_adds [node_adds]:
  "ggml_clamp s a fmin fmax = Some (r, s') \<Longrightarrow> ctx_inv s \<Longrightarrow> valid_args s [a] \<Longrightarrow> adds s r s'"
  by (cases "deref s a") ((rule ggml_clamp_node [THEN op_node_adds], assumption+) | simp add: ggml_clamp_def none_simps)+

lemma ggml_conv_transpose_1d_node:
  assumes "ggml_conv_transpose_1d s a b s0 p0 d0 = Some (r, s')" "ctx_inv s" "deref s a = Some ta" "deref s b = Some tb" "valid_args s [a, b]"
  shows "op_node s r s' GGML_OP_CONV_TRANSPOSE_1D GGML_TYPE_F32 [ggml_calc_conv_transpose_1d_output_size (t_ne tb ! 0) (t_ne ta ! 0) s0 0 1, t_ne ta ! 1, t_ne tb ! 2, 1] [a, b]"
  using assms by (auto simp: ggml_conv_transpose_1d_def node_simps deref_dom deref_len intro!: node_set intro: node_new)

lemma ggml_conv_transpose_1d_adds [node_adds]:
  "ggml_conv_transpose_1d s a b s0 p0 d0 = Some (r, s') \<Longrightarrow> ctx_inv s \<Longrightarrow> valid_args s [a, b] \<Longrightarrow> adds s r s'"
  by (cases "deref s a"; cases "deref s b") ((rule ggml_conv_transpose_1d_node [THEN op_node_adds], assumption+) | simp add: ggml_conv_transpose_1d_def none_simps)+

lemma ggml_conv_transpose_2d_p0_node:
  assumes "ggml_conv_transpose_2d_p0 s a b stride = Some (r, s')" "ctx_inv s" "deref s a = Some ta" "deref s b = Some tb" "valid_args s [a, b]"
  shows "op_node s r s' GGML_OP_CONV_TRANSPOSE_2D GGML_TYPE_F32 [ggml_calc_conv_transpose_output_size (t_ne tb ! 0) (t_ne ta ! 0) stride 0, ggml_calc_conv_transpose_output_size (t_ne tb ! 1) (t_ne ta ! 1) stride 0, t_ne ta ! 2, t_ne tb ! 3] [a, b]"
  using assms by (auto simp: ggml_conv_transpose_2d_p0_def node_simps deref_dom deref_len intro!: node_set intro: node_new)

lemma ggml_conv_transpose_2d_p0_adds [node_adds]:
  "ggml_conv_transpose_2d_p0 s a b stride = Some (r, s') \<Longrightarrow> ctx_inv s \<Longrightarrow> valid_args s [a, b] \<Longrightarrow> adds s r s'"
  by (cases "deref s a"; cases "deref s b") ((rule ggml_conv_transpose_2d_p0_node [THEN op_node_adds], assumption+) | simp add: ggml_conv_transpose_2d_p0_def none_simps)+

lemma ggml_pool_1d_node:
  assumes "ggml_pool_1d fl s a op k0 s0 p0 = Some (r, s')" "ctx_inv s" "deref s a = Some ta" "valid_args s [a]"
  shows "op_node s r s' GGML_OP_POOL_1D GGML_TYPE_F32 [ggml_calc_pool_output_size fl (t_ne ta ! 0) k0 s0 (fl_of_int fl p0), t_ne ta ! 1, t_ne ta ! 2, t_ne ta ! 3] [a]"
  using assms by (auto simp: ggml_pool_1d_def node_simps deref_dom deref_len intro!: node_set intro: node_new)

lemma ggml_pool_1d_adds [node_adds]:
  "ggml_pool_1d fl s a op k0 s0 p0 = Some (r, s') \<Longrightarrow> ctx_inv s \<Longrightarrow> valid_args s [a] \<Longrightarrow> adds s r s'"
  by (cases "deref s a") ((rule ggml_pool_1d_node [THEN op_node_adds], assumption+) | simp add: ggml_pool_1d_def none_simps)+

lemma ggml_pool_2d_node:
  assumes "ggml_pool_2d fl s a op k0 k1 s0 s1 p0 p1 = Some (r, s')" "ctx_inv s" "deref s a = Some ta" "valid_args s [a]"
  shows "op_node s r s' GGML_OP_POOL_2D GGML_TYPE_F32 [ggml_calc_pool_output_size fl (t_ne ta ! 0) k0 s0 p0, ggml_calc_pool_output_size fl (t_ne ta ! 1) k1 s1 p1, t_ne ta ! 2, t_ne ta ! 3] [a]"
  using assms by (auto simp: ggml_pool_2d_def node_simps deref_dom deref_len intro!: node_set intro: node_new)

lemma ggml_pool_2d_adds [node_adds]:
  "ggml_pool_2d fl s a op k0 k1 s0 s1 p0 p1 = Some (r, s') \<Longrightarrow> ctx_inv s \<Longrightarrow> valid_args s [a] \<Longrightarrow> adds s r s'"
  by (cases "deref s a") ((rule ggml_pool_2d_node [THEN op_node_adds], assumption+) | simp add: ggml_pool_2d_def none_simps)+

lemma ggml_pool_2d_back_node:
  assumes "ggml_pool_2d_back fl s a af op k0 k1 s0 s1 p0 p1 = Some (r, s')" "ctx_inv s" "deref s af = Some tf" "valid_args s [a, af]"
  shows "op_node s r s' GGML_OP_POOL_2D_BACK GGML_TYPE_F32 (t_ne tf) [a, af]"
  using assms by (auto simp: ggml_pool_2d_back_def node_simps deref_dom deref_len intro!: node_set intro: node_new)

lemma ggml_pool_2d_back_adds [node_adds]:
  "ggml_pool_2d_back fl s a af op k0 k1 s0 s1 p0 p1 = Some (r, s') \<Longrightarrow> ctx_inv s \<Longrightarrow> valid_args s [a, af] \<Longrightarrow> adds s r s'"
  by (cases "deref s af") ((rule ggml_pool_2d_back_node [THEN op_node_adds], assumption+) | simp add: ggml_pool_2d_back_def none_simps)+

lemma ggml_interpolate_impl_node:
  assumes "ggml_interpolate_impl s a ne0 ne1 ne2 ne3 mode = Some (r, s')" "ctx_inv s" "valid_args s [a]"
  shows "op_node s r s' GGML_OP_UPSCALE GGML_TYPE_F32 [ne0, ne1, ne2, ne3] [a]"
  using assms by (auto simp: ggml_interpolate_impl_def node_simps deref_dom deref_len intro!: node_set intro: node_new)

lemma ggml_interpolate_impl_adds [node_adds]:
  "ggml_interpolate_impl s a ne0 ne1 ne2 ne3 mode = Some (r, s') \<Longrightarrow> ctx_inv s \<Longrightarrow> valid_args s [a] \<Longrightarrow> adds s r s'"
  by (rule ggml_interpolate_impl_node [THEN op_node_adds])

lemma ggml_pad_ext_node:
  assumes "ggml_pad_ext s a lp0 rp0 lp1 rp1 lp2 rp2 lp3 rp3 = Some (r, s')" "ctx_inv s" "deref s a = Some ta" "valid_args s [a]"
  shows "op_node s r s' GGML_OP_PAD (t_type ta) [i64 (i64 (t_ne ta ! 0 + lp0) + rp0), i64 (i64 (t_ne ta ! 1 + lp1) + rp1), i64 (i64 (t_ne ta ! 2 + lp2) + rp2), i64 (i64 (t_ne ta ! 3 + lp3) + rp3)] [a]"
  using assms by (auto simp: ggml_pad_ext_def node_simps deref_dom deref_len intro!: node_set intro: node_new)

lemma ggml_pad_ext_adds [node_adds]:
  "ggml_pad_ext s a lp0 rp0 lp1 rp1 lp2 rp2 lp3 rp3 = Some (r, s') \<Longrightarrow> ctx_inv s \<Longrightarrow> valid_args s [a] \<Longrightarrow> adds s r s'"
  by (cases "deref s a") ((rule ggml_pad_ext_node [THEN op_node_adds], assumption+) | simp add: ggml_pad_ext_def none_simps)+

lemma ggml_pad_reflect_1d_node:
  assumes "ggml_pad_reflect_1d s a p0 p1 = Some (r, s')" "ctx_inv s" "deref s a = Some ta" "valid_args s [a]"
  shows "op_node s r s' GGML_OP_PAD_REFLECT_1D (t_type ta) [i64 (i64 (t_ne ta ! 0 + p0) + p1), t_ne ta ! 1, t_ne ta ! 2, t_ne ta ! 3] [a]"
  using assms by (auto simp: ggml_pad_reflect_1d_def node_simps deref_dom deref_len intro!: node_set intro: node_new)

lemma ggml_pad_reflect_1d_adds [node_adds]:
  "ggml_pad_reflect_1d s a p0 p1 = Some (r, s') \<Longrightarrow> ctx_inv s \<Longrightarrow> valid_args s [a] \<Longrightarrow> adds s r s'"
  by (cases "deref s a") ((rule ggml_pad_reflect_1d_node [THEN op_node_adds], assumption+) | simp add: ggml_pad_reflect_1d_def none_simps)+

lemma ggml_roll_node:
  assumes "ggml_roll s a shift0 shift1 shift2 shift3 = Some (r, s')" "ctx_inv s" "deref s a = Some ta" "valid_args s [a]"
  shows "op_node s r s' GGML_OP_ROLL (t_type ta) (t_ne ta) [a]"
  using assms by (auto simp: ggml_roll_def node_simps deref_dom deref_len intro!: node_set intro: node_new)

lemma ggml_roll_adds [node_adds]:
  "ggml_roll s a shift0 shift1 shift2 shift3 = Some (r, s') \<Longrightarrow> ctx_inv s \<Longrightarrow> valid_args s [a] \<Longrightarrow> adds s r s'"
  by (cases "deref s a") ((rule ggml_roll_node [THEN op_node_adds], assumption+) | simp add: ggml_roll_def none_simps)+

lemma ggml_timestep_embedding_node:
  assumes "ggml_timestep_embedding s timesteps n_dim max_period = Some (r, s')" "ctx_inv s" "deref s timesteps = Some tt" "valid_args s [timesteps]"
  shows "op_node s r s' GGML_OP_TIMESTEP_EMBEDDING GGML_TYPE_F32 [n_dim, t_ne tt ! 0, 1, 1] [timesteps]"
  using assms by (auto simp: ggml_timestep_embedding_def node_simps deref_dom deref_len intro!: node_set intro: node_new)

lemma ggml_timestep_embedding_adds [node_adds]:
  "ggml_timestep_embedding s timesteps n_dim max_period = Some (r, s') \<Longrightarrow> ctx_inv s \<Longrightarrow> valid_args s [timesteps] \<Longrightarrow> adds s r s'"
  by (cases "deref s timesteps") ((rule ggml_timestep_embedding_node [THEN op_node_adds], assumption+) | simp add: ggml_timestep_embedding_def none_simps)+

lemma ggml_tri_node:
  assumes "ggml_tri s a type = Some (r, s')" "ctx_inv s" "deref s a = Some ta" "valid_args s [a]"
  shows "op_node s r s' GGML_OP_TRI (t_type ta) (t_ne ta) [a]"
  using assms by (auto simp: ggml_tri_def node_simps deref_dom deref_len intro!: node_set intro: node_new)

lemma ggml_tri_adds [node_adds]:
  "ggml_tri s a type = Some (r, s') \<Longrightarrow> ctx_inv s \<Longrightarrow> valid_args s [a] \<Longrightarrow> adds s r s'"
  by (cases "deref s a") ((rule ggml_tri_node [THEN op_node_adds], assumption+) | simp add: ggml_tri_def none_simps)+

lemma ggml_fill_impl_node:
  assumes "ggml_fill_impl s a c inplace = Some (r, s')" "ctx_inv s" "deref s a = Some ta" "valid_args s [a]"
  shows "op_node s r s' GGML_OP_FILL (t_type ta) (t_ne ta) [a]"
  using assms by (auto simp: ggml_fill_impl_def node_simps deref_dom deref_len intro!: node_set intro: node_new)

lemma ggml_fill_impl_adds [node_adds]:
  "ggml_fill_impl s a c inplace = Some (r, s') \<Longrightarrow> ctx_inv s \<Longrightarrow> valid_args s [a] \<Longrightarrow> adds s r s'"
  by (cases "deref s a") ((rule ggml_fill_impl_node [THEN op_node_adds], assumption+) | simp add: ggml_fill_impl_def none_simps)+

lemma ggml_argsort_node:
  assumes "ggml_argsort s a order = Some (r, s')" "ctx_inv s" "deref s a = Some ta" "valid_args s [a]"
  shows "op_node s r s' GGML_OP_ARGSORT GGML_TYPE_I32 (t_ne ta) [a]"
  using assms by (auto simp: ggml_argsort_def node_simps deref_dom deref_len intro!: node_set intro: node_new)

lemma ggml_argsort_adds [node_adds]:
  "ggml_argsort s a order = Some (r, s') \<Longrightarrow> ctx_inv s \<Longrightarrow> valid_args s [a] \<Longrightarrow> adds s r s'"
  by (cases "deref s a") ((rule ggml_argsort_node [THEN op_node_adds], assumption+) | simp add: ggml_argsort_def none_simps)+

lemma ggml_top_k_node:
  assumes "ggml_top_k s a k = Some (r, s')" "ctx_inv s" "deref s a = Some ta" "valid_args s [a]"
  shows "op_node s r s' GGML_OP_TOP_K GGML_TYPE_I32 [k, t_ne ta ! 1, t_ne ta ! 2, t_ne ta ! 3] [a]"
  using assms by (auto simp: ggml_top_k_def node_simps deref_dom deref_len intro!: node_set intro: node_new)

lemma ggml_top_k_adds [node_adds]:
  "ggml_top_k s a k = Some (r, s') \<Longrightarrow> ctx_inv s \<Longrightarrow> valid_args s [a] \<Longrightarrow> adds s r s'"
  by (cases "deref s a") ((rule ggml_top_k_node [THEN op_node_adds], assumption+) | simp add: ggml_top_k_def none_simps)+

text \<open>Where a size is computed with a division that may stop the program, the shape is that of the
  successful computation.\<close>

lemma ggml_im2col_node:
  assumes "ggml_im2col s a b s0 s1 p0 p1 d0 d1 is_2D dst_type = Some (r, s')" "ctx_inv s" "deref s a = Some ta" "deref s b = Some tb"
  obtains OH OW where "ggml_calc_conv_output_size (t_ne tb ! 0) (t_ne ta ! 0) s0 p0 d0 = Some OW" "0 < OW"
    and "is_2D \<Longrightarrow> ggml_calc_conv_output_size (t_ne tb ! 1) (t_ne ta ! 1) s1 p1 d1 = Some OH \<and> 0 < OH"
    and "op_node s r s' GGML_OP_IM2COL dst_type
      [if is_2D then i64 (i64 (t_ne ta ! 2 * t_ne ta ! 1) * t_ne ta ! 0) else i64 (t_ne ta ! 1 * t_ne ta ! 0), OW,
       if is_2D then OH else t_ne tb ! 2, if is_2D then t_ne tb ! 3 else 1] [a, b]"
proof -
  obtain OH OW s1' where o: "ggml_calc_conv_output_size (t_ne tb ! 0) (t_ne ta ! 0) s0 p0 d0 = Some OW" "0 < OW"
    and h: "is_2D \<Longrightarrow> ggml_calc_conv_output_size (t_ne tb ! 1) (t_ne ta ! 1) s1 p1 d1 = Some OH \<and> 0 < OH"
    and n: "ggml_new_tensor s dst_type 4
      [if is_2D then i64 (i64 (t_ne ta ! 2 * t_ne ta ! 1) * t_ne ta ! 0) else i64 (t_ne ta ! 1 * t_ne ta ! 0), OW,
       if is_2D then OH else t_ne tb ! 2, if is_2D then t_ne tb ! 3 else 1] = Some (r, s1')"
    and s': "s' = set_op (set_params s1' r (map word_of_int [s0, s1, p0, p1, d0, d1, if is_2D then 1 else 0])) r GGML_OP_IM2COL [a, b]"
    using assms by (auto simp: ggml_im2col_def node_simps split: if_splits)
  show thesis
    by (rule that [OF o h]) (use n assms in \<open>auto simp: s' deref_dom intro!: node_set intro: node_new\<close>)
qed

lemma ggml_im2col_adds [node_adds]:
  "ggml_im2col s a b s0 s1 p0 p1 d0 d1 is_2D dst_type = Some (r, s') \<Longrightarrow> ctx_inv s \<Longrightarrow> adds s r s'"
  by (cases "deref s a"; cases "deref s b")
    ((erule ggml_im2col_node [where thesis = "adds s r s'"], assumption+, erule op_node_adds) | simp add: ggml_im2col_def)+

end
