(* ===== verification/GGML_OpsSeq.thy ===== *)
theory GGML_OpsSeq
  imports GGML_OpsNN
begin

text \<open>
  The remaining builders of \<^verbatim>\<open>ggml/src/ggml.c\<close>: attention, state-space and recurrent cells, window
  partitions and relative positions, user-defined operations, losses, optimiser steps and the
  triangular solver (\<^verbatim>\<open>ggml_flash_attn_ext\<close> up to \<^verbatim>\<open>ggml_gated_delta_net\<close>, without \<^verbatim>\<open>ggml_unary\<close>).
\<close>

section \<open>Attention\<close>

definition ggml_flash_attn_ext :: "ggml_state \<Rightarrow> ptr \<Rightarrow> ptr \<Rightarrow> ptr \<Rightarrow> ptr \<Rightarrow> f32 \<Rightarrow> f32 \<Rightarrow> f32 \<Rightarrow> built" where
  "ggml_flash_attn_ext s q k v msk scale max_bias logit_softcap = do {
     tq \<leftarrow> deref s q; tk \<leftarrow> deref s k; tv \<leftarrow> deref s v;
     can_mul_mat \<leftarrow> ggml_can_mul_mat tk tq;
     ggml_assert can_mul_mat;
     ggml_assert (t_ne tq ! 3 = t_ne tk ! 3);
     ggml_assert (t_ne tq ! 3 = t_ne tv ! 3);
     if_given s msk (\<lambda>tm. do {
       ggml_assert (t_type tm = GGML_TYPE_F16);
       ggml_assert (ggml_is_contiguous tm);
       r2 \<leftarrow> c_mod (t_ne tq ! 2) (t_ne tm ! 2);
       ggml_assert (r2 = 0);
       r3 \<leftarrow> c_mod (t_ne tq ! 3) (t_ne tm ! 3);
       ggml_assert (r3 = 0) });
     ggml_assert (f32_pos max_bias \<longrightarrow> msk \<noteq> 0);
     (result, s) \<leftarrow> ggml_new_tensor s GGML_TYPE_F32 4 [t_ne tv ! 0, t_ne tq ! 2, t_ne tq ! 1, t_ne tq ! 3];
     let s = set_params s result [scale, max_bias, logit_softcap];
     Some (result, set_op s result GGML_OP_FLASH_ATTN_EXT [q, k, v, msk]) }"

definition ggml_flash_attn_ext_set_prec :: "ggml_state \<Rightarrow> ptr \<Rightarrow> int32_t \<Rightarrow> ggml_state option" where
  "ggml_flash_attn_ext_set_prec s a prec = do {
     ta \<leftarrow> deref s a;
     ggml_assert (t_op ta = GGML_OP_FLASH_ATTN_EXT);
     Some (set_param_i32 s a 3 prec) }"

definition ggml_flash_attn_ext_get_prec :: "ggml_state \<Rightarrow> ptr \<Rightarrow> int32_t option" where
  "ggml_flash_attn_ext_get_prec s a = do {
     ta \<leftarrow> deref s a;
     ggml_assert (t_op ta = GGML_OP_FLASH_ATTN_EXT);
     Some (ggml_get_op_params_i32 ta 3) }"

definition ggml_flash_attn_ext_add_sinks :: "ggml_state \<Rightarrow> ptr \<Rightarrow> ptr \<Rightarrow> ggml_state option" where
  "ggml_flash_attn_ext_add_sinks s a sinks = do {
     ta \<leftarrow> deref s a;
     if sinks = 0 then Some (set_src s a 4 0)
     else do {
       ggml_assert (t_op ta = GGML_OP_FLASH_ATTN_EXT);
       ggml_assert (t_src ta ! 4 = 0);
       t0 \<leftarrow> deref s (t_src ta ! 0);
       tk \<leftarrow> deref s sinks;
       ggml_assert (t_ne t0 ! 2 = t_ne tk ! 0);
       ggml_assert (t_type tk = GGML_TYPE_F32);
       Some (set_src s a 4 sinks) } }"

text \<open>The first statement of \<^verbatim>\<open>ggml_flash_attn_back\<close> is an abort; what follows it is never reached.\<close>

definition ggml_flash_attn_back :: "ggml_state \<Rightarrow> ptr \<Rightarrow> ptr \<Rightarrow> ptr \<Rightarrow> ptr \<Rightarrow> bool \<Rightarrow> built" where
  "ggml_flash_attn_back s q k v d masked = None"

section \<open>State-space models\<close>

definition ggml_ssm_conv :: "ggml_state \<Rightarrow> ptr \<Rightarrow> ptr \<Rightarrow> built" where
  "ggml_ssm_conv s sx c = do {
     tx \<leftarrow> deref s sx; tc \<leftarrow> deref s c;
     ggml_assert (ggml_is_3d tx);
     ggml_assert (ggml_is_matrix tc);
     let d_conv = t_ne tc ! 0;
     let d_inner = t_ne tc ! 1;
     let n_t = i64 (i64 (t_ne tx ! 0 - d_conv) + 1);
     let n_s = t_ne tx ! 2;
     ggml_assert (t_ne tx ! 0 = i64 (i64 (d_conv - 1) + n_t));
     ggml_assert (t_ne tx ! 1 = d_inner);
     ggml_assert (n_t \<ge> 0);
     (result, s) \<leftarrow> ggml_new_tensor_3d s GGML_TYPE_F32 d_inner n_t n_s;
     Some (result, set_op s result GGML_OP_SSM_CONV [sx, c]) }"

text \<open>The assertions on the shapes of the arguments of \<^verbatim>\<open>ggml_ssm_scan\<close>.\<close>

definition ssm_scan_shapes ::
  "ggml_tensor \<Rightarrow> ggml_tensor \<Rightarrow> ggml_tensor \<Rightarrow> ggml_tensor \<Rightarrow> ggml_tensor \<Rightarrow> ggml_tensor \<Rightarrow> bool" where
  "ssm_scan_shapes ts tx tdt tA tB ti \<longleftrightarrow>
     (let d_state = t_ne ts ! 0; head_dim = t_ne tx ! 0; n_head = t_ne tx ! 1;
          n_seq_tokens = t_ne tx ! 2; n_seqs = t_ne tx ! 3
      in t_ne tdt ! 0 = n_head \<and> t_ne tdt ! 1 = n_seq_tokens \<and> t_ne tdt ! 2 = n_seqs \<and> ggml_is_3d tdt
       \<and> t_ne ts ! 1 = head_dim \<and> t_ne ts ! 2 = n_head
       \<and> t_ne tB ! 0 = d_state \<and> t_ne tB ! 2 = n_seq_tokens \<and> t_ne tB ! 3 = n_seqs
       \<and> t_ne ti ! 0 = n_seqs \<and> ggml_is_vector ti
       \<and> t_ne tA ! 1 = n_head \<and> ggml_is_matrix tA \<and> (t_ne tA ! 0 \<noteq> 1 \<longrightarrow> t_ne tA ! 0 = d_state))"

definition ggml_ssm_scan :: "ggml_state \<Rightarrow> ptr \<Rightarrow> ptr \<Rightarrow> ptr \<Rightarrow> ptr \<Rightarrow> ptr \<Rightarrow> ptr \<Rightarrow> ptr \<Rightarrow> built" where
  "ggml_ssm_scan s st x dt A B C ids = do {
     ts \<leftarrow> deref s st; tx \<leftarrow> deref s x; tdt \<leftarrow> deref s dt; tA \<leftarrow> deref s A; tB \<leftarrow> deref s B; tC \<leftarrow> deref s C; ti \<leftarrow> deref s ids;
     ggml_assert (ggml_is_contiguous ts);
     ggml_assert (ggml_is_contiguous tdt);
     ggml_assert (ggml_is_contiguous tA);
     ggml_assert (t_nb tx ! 0 = ggml_type_size (t_type tx));
     ggml_assert (t_nb tB ! 0 = ggml_type_size (t_type tB));
     ggml_assert (t_nb tC ! 0 = ggml_type_size (t_type tC));
     ggml_assert (t_nb tx ! 1 = sz_mul (sz_of_int (t_ne tx ! 0)) (t_nb tx ! 0));
     ggml_assert (t_nb tB ! 1 = sz_mul (sz_of_int (t_ne tB ! 0)) (t_nb tB ! 0));
     ggml_assert (t_nb tC ! 1 = sz_mul (sz_of_int (t_ne tC ! 0)) (t_nb tC ! 0));
     ggml_assert (ggml_are_same_shape tB tC);
     ggml_assert (t_type ti = GGML_TYPE_I32);
     ggml_assert (ssm_scan_shapes ts tx tdt tA tB ti);
     let n_state = i64 (i64 (i64 (t_ne ts ! 0 * t_ne ts ! 1) * t_ne ts ! 2) * t_ne ti ! 0);
     (result, s) \<leftarrow> ggml_new_tensor_1d s GGML_TYPE_F32 (i64 (ggml_nelements tx + n_state));
     Some (result, set_op s result GGML_OP_SSM_SCAN [st, x, dt, A, B, C, ids]) }"

section \<open>Windows and relative positions\<close>

text \<open>The number of windows of width \<open>w\<close> that cover \<open>n\<close> positions, and the padding in between.\<close>

definition win_count :: "int64_t \<Rightarrow> int32_t \<Rightarrow> int32_t option" where
  "win_count n w = do {
     r \<leftarrow> c_mod n w;
     p \<leftarrow> c_mod (i64 (w - r)) w;
     q \<leftarrow> c_div (i64 (i32 p + n)) w;
     Some (i32 q) }"

definition ggml_win_part :: "ggml_state \<Rightarrow> ptr \<Rightarrow> int32_t \<Rightarrow> built" where
  "ggml_win_part s a w = do {
     ta \<leftarrow> deref s a;
     ggml_assert (t_ne ta ! 3 = 1);
     ggml_assert (t_type ta = GGML_TYPE_F32);
     npx \<leftarrow> win_count (t_ne ta ! 1) w;
     npy \<leftarrow> win_count (t_ne ta ! 2) w;
     let np = i32 (npx * npy);
     (result, s) \<leftarrow> ggml_new_tensor s GGML_TYPE_F32 4 [t_ne ta ! 0, w, w, np];
     let s = set_params s result (map word_of_int [npx, npy, w]);
     Some (result, set_op s result GGML_OP_WIN_PART [a]) }"

definition ggml_win_unpart :: "ggml_state \<Rightarrow> ptr \<Rightarrow> int32_t \<Rightarrow> int32_t \<Rightarrow> int32_t \<Rightarrow> built" where
  "ggml_win_unpart s a w0 h0 w = do {
     ta \<leftarrow> deref s a;
     ggml_assert (t_type ta = GGML_TYPE_F32);
     (result, s) \<leftarrow> ggml_new_tensor s GGML_TYPE_F32 3 [t_ne ta ! 0, w0, h0, 1];
     let s = set_params s result [word_of_int w];
     Some (result, set_op s result GGML_OP_WIN_UNPART [a]) }"

definition ggml_get_rel_pos :: "ggml_state \<Rightarrow> ptr \<Rightarrow> int32_t \<Rightarrow> int32_t \<Rightarrow> built" where
  "ggml_get_rel_pos s a qh kh = do {
     ta \<leftarrow> deref s a;
     ggml_assert (qh = kh);
     ggml_assert (i32 (2 * max qh kh - 1) = t_ne ta ! 1);
     (result, s) \<leftarrow> ggml_new_tensor s GGML_TYPE_F16 3 [t_ne ta ! 0, kh, qh, 1];
     Some (result, set_op s result GGML_OP_GET_REL_POS [a]) }"

definition ggml_add_rel_pos_impl :: "ggml_state \<Rightarrow> ptr \<Rightarrow> ptr \<Rightarrow> ptr \<Rightarrow> bool \<Rightarrow> built" where
  "ggml_add_rel_pos_impl s a pw ph inplace = do {
     ta \<leftarrow> deref s a; tw \<leftarrow> deref s pw; th \<leftarrow> deref s ph;
     ggml_assert (ggml_are_same_shape tw th);
     ggml_assert (ggml_is_contiguous ta);
     ggml_assert (ggml_is_contiguous tw);
     ggml_assert (ggml_is_contiguous th);
     ggml_assert (t_type th = GGML_TYPE_F32);
     ggml_assert (t_type tw = GGML_TYPE_F32);
     ggml_assert (t_ne tw ! 3 = t_ne ta ! 2);
     ggml_assert (i64 (t_ne tw ! 0 * t_ne tw ! 0) = t_ne ta ! 0);
     ggml_assert (i64 (t_ne tw ! 1 * t_ne tw ! 2) = t_ne ta ! 1);
     (result, s) \<leftarrow> view_or_dup s a inplace;
     let s = set_param_i32 s result 0 (if inplace then 1 else 0);
     Some (result, set_op s result GGML_OP_ADD_REL_POS [a, pw, ph]) }"

definition ggml_add_rel_pos ::
  "ggml_state \<Rightarrow> ptr \<Rightarrow> ptr \<Rightarrow> ptr \<Rightarrow> built" where
  "ggml_add_rel_pos s a pw ph = ggml_add_rel_pos_impl s a pw ph False"

definition ggml_add_rel_pos_inplace ::
  "ggml_state \<Rightarrow> ptr \<Rightarrow> ptr \<Rightarrow> ptr \<Rightarrow> built" where
  "ggml_add_rel_pos_inplace s a pw ph = ggml_add_rel_pos_impl s a pw ph True"

section \<open>Linear attention\<close>

text \<open>\<open>has_ne t S H n\<close>: \<^verbatim>\<open>t->ne[0] == S && t->ne[1] == H && t->ne[2] == n\<close>.\<close>

definition has_ne :: "ggml_tensor \<Rightarrow> int64_t \<Rightarrow> int64_t \<Rightarrow> int64_t \<Rightarrow> bool" where
  "has_ne t n0 n1 n2 \<longleftrightarrow> t_ne t ! 0 = n0 \<and> t_ne t ! 1 = n1 \<and> t_ne t ! 2 = n2"

definition ggml_rwkv_wkv6 :: "ggml_state \<Rightarrow> ptr \<Rightarrow> ptr \<Rightarrow> ptr \<Rightarrow> ptr \<Rightarrow> ptr \<Rightarrow> ptr \<Rightarrow> built" where
  "ggml_rwkv_wkv6 s k v r tf td state = do {
     tk \<leftarrow> deref s k; tv \<leftarrow> deref s v; tr \<leftarrow> deref s r; ttf \<leftarrow> deref s tf; ttd \<leftarrow> deref s td; ts \<leftarrow> deref s state;
     ggml_assert (ggml_is_contiguous tk);
     ggml_assert (ggml_is_contiguous tv);
     ggml_assert (ggml_is_contiguous tr);
     ggml_assert (ggml_is_contiguous ttf);
     ggml_assert (ggml_is_contiguous ttd);
     ggml_assert (ggml_is_contiguous ts);
     let S = t_ne tk ! 0; let H = t_ne tk ! 1; let n_tokens = t_ne tk ! 2; let n_seqs = t_ne ts ! 1;
     ggml_assert (has_ne tv S H n_tokens);
     ggml_assert (has_ne tr S H n_tokens);
     ggml_assert (has_ne ttd S H n_tokens);
     ggml_assert (ggml_nelements ts = i64 (i64 (i64 (S * S) * H) * n_seqs));
     (result, s) \<leftarrow> ggml_new_tensor s GGML_TYPE_F32 4 [i64 (S * H), i64 (n_tokens + i64 (S * n_seqs)), 1, 1];
     Some (result, set_op s result GGML_OP_RWKV_WKV6 [k, v, r, tf, td, state]) }"

definition ggml_gated_linear_attn :: "ggml_state \<Rightarrow> ptr \<Rightarrow> ptr \<Rightarrow> ptr \<Rightarrow> ptr \<Rightarrow> ptr \<Rightarrow> f32 \<Rightarrow> built" where
  "ggml_gated_linear_attn s k v q g state scale = do {
     tk \<leftarrow> deref s k; tv \<leftarrow> deref s v; tq \<leftarrow> deref s q; tg \<leftarrow> deref s g; ts \<leftarrow> deref s state;
     ggml_assert (ggml_is_contiguous tk);
     ggml_assert (ggml_is_contiguous tv);
     ggml_assert (ggml_is_contiguous tq);
     ggml_assert (ggml_is_contiguous tg);
     ggml_assert (ggml_is_contiguous ts);
     let S = t_ne tk ! 0; let H = t_ne tk ! 1; let n_tokens = t_ne tk ! 2; let n_seqs = t_ne ts ! 1;
     ggml_assert (has_ne tv S H n_tokens);
     ggml_assert (has_ne tq S H n_tokens);
     ggml_assert (has_ne tg S H n_tokens);
     ggml_assert (ggml_nelements ts = i64 (i64 (i64 (S * S) * H) * n_seqs));
     (result, s) \<leftarrow> ggml_new_tensor s GGML_TYPE_F32 4 [i64 (S * H), i64 (n_tokens + i64 (S * n_seqs)), 1, 1];
     let s = set_param_f32 s result 0 scale;
     Some (result, set_op s result GGML_OP_GATED_LINEAR_ATTN [k, v, q, g, state]) }"

definition ggml_rwkv_wkv7 :: "ggml_state \<Rightarrow> ptr \<Rightarrow> ptr \<Rightarrow> ptr \<Rightarrow> ptr \<Rightarrow> ptr \<Rightarrow> ptr \<Rightarrow> ptr \<Rightarrow> built" where
  "ggml_rwkv_wkv7 s r w k v a b state = do {
     tr \<leftarrow> deref s r; tw \<leftarrow> deref s w; tk \<leftarrow> deref s k; tv \<leftarrow> deref s v; ta \<leftarrow> deref s a; tb \<leftarrow> deref s b; ts \<leftarrow> deref s state;
     ggml_assert (ggml_is_contiguous tr);
     ggml_assert (ggml_is_contiguous tw);
     ggml_assert (ggml_is_contiguous tk);
     ggml_assert (ggml_is_contiguous tv);
     ggml_assert (ggml_is_contiguous ta);
     ggml_assert (ggml_is_contiguous tb);
     ggml_assert (ggml_is_contiguous ts);
     let S = t_ne tk ! 0; let H = t_ne tk ! 1; let n_tokens = t_ne tk ! 2; let n_seqs = t_ne ts ! 1;
     ggml_assert (has_ne tw S H n_tokens);
     ggml_assert (has_ne tk S H n_tokens);
     ggml_assert (has_ne tv S H n_tokens);
     ggml_assert (has_ne ta S H n_tokens);
     ggml_assert (has_ne tb S H n_tokens);
     ggml_assert (ggml_nelements ts = i64 (i64 (i64 (S * S) * H) * n_seqs));
     (result, s) \<leftarrow> ggml_new_tensor s GGML_TYPE_F32 4 [i64 (S * H), i64 (n_tokens + i64 (S * n_seqs)), 1, 1];
     Some (result, set_op s result GGML_OP_RWKV_WKV7 [r, w, k, v, a, b, state]) }"

section \<open>User-defined operations\<close>

text \<open>
  The parameters are a structure of a function pointer, the number of tasks and a data pointer;
  the four bytes between the second and the third member are padding, here zero. The functions
  are kept as addresses, they are only called when a graph is computed.
\<close>

definition custom_params :: "ptr \<Rightarrow> int32_t \<Rightarrow> ptr \<Rightarrow> 32 word list" where
  "custom_params fun_ptr n_tasks userdata = words_of_sz fun_ptr @ [word_of_int n_tasks, 0] @ words_of_sz userdata"

definition ggml_map_custom1_impl :: "ggml_state \<Rightarrow> ptr \<Rightarrow> ptr \<Rightarrow> int32_t \<Rightarrow> ptr \<Rightarrow> bool \<Rightarrow> built" where
  "ggml_map_custom1_impl s a fun_ptr n_tasks userdata inplace = do {
     ggml_assert (n_tasks = - 1 \<or> n_tasks > 0);
     (result, s) \<leftarrow> view_or_dup s a inplace;
     let s = set_params s result (custom_params fun_ptr n_tasks userdata);
     Some (result, set_op s result GGML_OP_MAP_CUSTOM1 [a]) }"

definition ggml_map_custom1 ::
  "ggml_state \<Rightarrow> ptr \<Rightarrow> ptr \<Rightarrow> int32_t \<Rightarrow> ptr \<Rightarrow> built" where
  "ggml_map_custom1 s a fun_ptr n_tasks userdata = ggml_map_custom1_impl s a fun_ptr n_tasks userdata False"

definition ggml_map_custom1_inplace ::
  "ggml_state \<Rightarrow> ptr \<Rightarrow> ptr \<Rightarrow> int32_t \<Rightarrow> ptr \<Rightarrow> built" where
  "ggml_map_custom1_inplace s a fun_ptr n_tasks userdata = ggml_map_custom1_impl s a fun_ptr n_tasks userdata True"

definition ggml_map_custom2_impl :: "ggml_state \<Rightarrow> ptr \<Rightarrow> ptr \<Rightarrow> ptr \<Rightarrow> int32_t \<Rightarrow> ptr \<Rightarrow> bool \<Rightarrow> built" where
  "ggml_map_custom2_impl s a b fun_ptr n_tasks userdata inplace = do {
     ggml_assert (n_tasks = - 1 \<or> n_tasks > 0);
     (result, s) \<leftarrow> view_or_dup s a inplace;
     let s = set_params s result (custom_params fun_ptr n_tasks userdata);
     Some (result, set_op s result GGML_OP_MAP_CUSTOM2 [a, b]) }"

definition ggml_map_custom2 ::
  "ggml_state \<Rightarrow> ptr \<Rightarrow> ptr \<Rightarrow> ptr \<Rightarrow> int32_t \<Rightarrow> ptr \<Rightarrow> built" where
  "ggml_map_custom2 s a b fun_ptr n_tasks userdata = ggml_map_custom2_impl s a b fun_ptr n_tasks userdata False"

definition ggml_map_custom2_inplace ::
  "ggml_state \<Rightarrow> ptr \<Rightarrow> ptr \<Rightarrow> ptr \<Rightarrow> int32_t \<Rightarrow> ptr \<Rightarrow> built" where
  "ggml_map_custom2_inplace s a b fun_ptr n_tasks userdata = ggml_map_custom2_impl s a b fun_ptr n_tasks userdata True"

definition ggml_map_custom3_impl :: "ggml_state \<Rightarrow> ptr \<Rightarrow> ptr \<Rightarrow> ptr \<Rightarrow> ptr \<Rightarrow> int32_t \<Rightarrow> ptr \<Rightarrow> bool \<Rightarrow> built" where
  "ggml_map_custom3_impl s a b c fun_ptr n_tasks userdata inplace = do {
     ggml_assert (n_tasks = - 1 \<or> n_tasks > 0);
     (result, s) \<leftarrow> view_or_dup s a inplace;
     let s = set_params s result (custom_params fun_ptr n_tasks userdata);
     Some (result, set_op s result GGML_OP_MAP_CUSTOM3 [a, b, c]) }"

definition ggml_map_custom3 ::
  "ggml_state \<Rightarrow> ptr \<Rightarrow> ptr \<Rightarrow> ptr \<Rightarrow> ptr \<Rightarrow> int32_t \<Rightarrow> ptr \<Rightarrow> built" where
  "ggml_map_custom3 s a b c fun_ptr n_tasks userdata = ggml_map_custom3_impl s a b c fun_ptr n_tasks userdata False"

definition ggml_map_custom3_inplace ::
  "ggml_state \<Rightarrow> ptr \<Rightarrow> ptr \<Rightarrow> ptr \<Rightarrow> ptr \<Rightarrow> int32_t \<Rightarrow> ptr \<Rightarrow> built" where
  "ggml_map_custom3_inplace s a b c fun_ptr n_tasks userdata = ggml_map_custom3_impl s a b c fun_ptr n_tasks userdata True"

text \<open>\<open>args\<close> is an array of at least \<open>n_args\<close> pointers; reading behind it stops the model.\<close>

definition ggml_custom_4d ::
  "ggml_state \<Rightarrow> ggml_type \<Rightarrow> int64_t \<Rightarrow> int64_t \<Rightarrow> int64_t \<Rightarrow> int64_t \<Rightarrow> ptr list \<Rightarrow> int \<Rightarrow> ptr \<Rightarrow> int32_t \<Rightarrow> ptr \<Rightarrow> built" where
  "ggml_custom_4d s type ne0 ne1 ne2 ne3 args n_args fun_ptr n_tasks userdata = do {
     ggml_assert (n_args < int GGML_MAX_SRC);
     (result, s) \<leftarrow> ggml_new_tensor_4d s type ne0 ne1 ne2 ne3;
     let s = set_params s result (custom_params fun_ptr n_tasks userdata);
     ggml_assert (n_args \<le> int (length args));
     Some (result, set_op s result GGML_OP_CUSTOM (take (nat n_args) args)) }"

definition ggml_custom_inplace ::
  "ggml_state \<Rightarrow> ptr \<Rightarrow> ptr list \<Rightarrow> int \<Rightarrow> ptr \<Rightarrow> int32_t \<Rightarrow> ptr \<Rightarrow> built" where
  "ggml_custom_inplace s a args n_args fun_ptr n_tasks userdata = do {
     ggml_assert (n_args < int GGML_MAX_SRC - 1);
     (result, s) \<leftarrow> ggml_view_tensor s a;
     let s = set_params s result (custom_params fun_ptr n_tasks userdata);
     ggml_assert (n_args \<le> int (length args));
     Some (result, set_op s result GGML_OP_CUSTOM (a # take (nat n_args) args)) }"

section \<open>Losses, optimiser steps, solver\<close>

definition ggml_cross_entropy_loss :: "ggml_state \<Rightarrow> ptr \<Rightarrow> ptr \<Rightarrow> built" where
  "ggml_cross_entropy_loss s a b = do {
     ta \<leftarrow> deref s a; tb \<leftarrow> deref s b;
     ggml_assert (ggml_are_same_shape ta tb);
     (result, s) \<leftarrow> ggml_new_tensor_1d s (t_type ta) 1;
     Some (result, set_op s result GGML_OP_CROSS_ENTROPY_LOSS [a, b]) }"

definition ggml_cross_entropy_loss_back :: "ggml_state \<Rightarrow> ptr \<Rightarrow> ptr \<Rightarrow> ptr \<Rightarrow> built" where
  "ggml_cross_entropy_loss_back s a b c = do {
     ta \<leftarrow> deref s a; tb \<leftarrow> deref s b; tc \<leftarrow> deref s c;
     ggml_assert (ggml_is_scalar ta);
     ggml_assert (ggml_are_same_shape tb tc);
     (result, s) \<leftarrow> ggml_dup_tensor s b;
     Some (result, set_op s result GGML_OP_CROSS_ENTROPY_LOSS_BACK [a, b, c]) }"

definition ggml_opt_step_adamw :: "ggml_state \<Rightarrow> ptr \<Rightarrow> ptr \<Rightarrow> ptr \<Rightarrow> ptr \<Rightarrow> ptr \<Rightarrow> built" where
  "ggml_opt_step_adamw s a grad m v adamw_params = do {
     ta \<leftarrow> deref s a; tg \<leftarrow> deref s grad; tm \<leftarrow> deref s m; tv \<leftarrow> deref s v; tp \<leftarrow> deref s adamw_params;
     ggml_assert (has_flag ta GGML_TENSOR_FLAG_PARAM);
     ggml_assert (ggml_are_same_shape ta tg);
     ggml_assert (ggml_are_same_shape ta tm);
     ggml_assert (ggml_are_same_shape ta tv);
     ggml_assert (t_type tp = GGML_TYPE_F32);
     ggml_assert (ggml_nelements tp = 7);
     (result, s) \<leftarrow> ggml_view_tensor s a;
     Some (result, set_op s result GGML_OP_OPT_STEP_ADAMW [a, grad, m, v, adamw_params]) }"

definition ggml_opt_step_sgd :: "ggml_state \<Rightarrow> ptr \<Rightarrow> ptr \<Rightarrow> ptr \<Rightarrow> built" where
  "ggml_opt_step_sgd s a grad params = do {
     ta \<leftarrow> deref s a; tg \<leftarrow> deref s grad; tp \<leftarrow> deref s params;
     ggml_assert (has_flag ta GGML_TENSOR_FLAG_PARAM);
     ggml_assert (ggml_are_same_shape ta tg);
     ggml_assert (t_type tp = GGML_TYPE_F32);
     ggml_assert (ggml_nelements tp = 2);
     (result, s) \<leftarrow> ggml_view_tensor s a;
     Some (result, set_op s result GGML_OP_OPT_STEP_SGD [a, grad, params]) }"

definition ggml_solve_tri :: "ggml_state \<Rightarrow> ptr \<Rightarrow> ptr \<Rightarrow> bool \<Rightarrow> bool \<Rightarrow> bool \<Rightarrow> built" where
  "ggml_solve_tri s a b left lower uni = do {
     ta \<leftarrow> deref s a; tb \<leftarrow> deref s b;
     ggml_assert (t_type ta = GGML_TYPE_F32);
     ggml_assert (t_type tb = GGML_TYPE_F32);
     ggml_assert (t_ne ta ! 0 = t_ne ta ! 1);
     ggml_assert (t_ne ta ! 1 = t_ne tb ! 1);
     ggml_assert (t_ne ta ! 2 = t_ne tb ! 2);
     ggml_assert (t_ne ta ! 3 = t_ne tb ! 3);
     ggml_assert (ggml_is_contiguous ta);
     ggml_assert (ggml_is_contiguous tb);
     ggml_assert (lower \<and> left \<and> \<not> uni);
     (result, s) \<leftarrow> ggml_new_tensor_4d s GGML_TYPE_F32 (t_ne tb ! 0) (t_ne tb ! 1) (t_ne tb ! 2) (t_ne tb ! 3);
     Some (result, set_op s result GGML_OP_SOLVE_TRI [a, b]) }"

definition ggml_gated_delta_net :: "ggml_state \<Rightarrow> ptr \<Rightarrow> ptr \<Rightarrow> ptr \<Rightarrow> ptr \<Rightarrow> ptr \<Rightarrow> ptr \<Rightarrow> built" where
  "ggml_gated_delta_net s q k v g beta state = do {
     tq \<leftarrow> deref s q; tk \<leftarrow> deref s k; tv \<leftarrow> deref s v; tg \<leftarrow> deref s g; tb \<leftarrow> deref s beta; ts \<leftarrow> deref s state;
     ggml_assert (ggml_is_contiguous_rows tq);
     ggml_assert (ggml_is_contiguous_rows tk);
     ggml_assert (ggml_is_contiguous_rows tv);
     ggml_assert (ggml_is_contiguous tg);
     ggml_assert (ggml_is_contiguous tb);
     ggml_assert (ggml_is_contiguous ts);
     ggml_assert (t_type tq = GGML_TYPE_F32);
     ggml_assert (t_type tk = GGML_TYPE_F32);
     ggml_assert (t_type tv = GGML_TYPE_F32);
     ggml_assert (t_type tg = GGML_TYPE_F32);
     ggml_assert (t_type tb = GGML_TYPE_F32);
     ggml_assert (t_type ts = GGML_TYPE_F32);
     let S_v = t_ne tv ! 0; let H = t_ne tv ! 1; let n_tokens = t_ne tv ! 2; let n_seqs = t_ne tv ! 3;
     ggml_assert (t_ne tg ! 0 = 1 \<or> t_ne tg ! 0 = S_v);
     ggml_assert (t_ne tb ! 0 = 1);
     ggml_assert (t_ne ts ! 0 = i64 (i64 (S_v * S_v) * H));
     ggml_assert (t_ne ts ! 2 = n_seqs);
     ggml_assert (t_ne ts ! 3 = 1);
     let K = t_ne ts ! 1;
     let state_rows = i64 (i64 (K * S_v) * n_seqs);
     (result, s) \<leftarrow> ggml_new_tensor s GGML_TYPE_F32 4 [i64 (S_v * H), i64 (i64 (n_tokens * n_seqs) + state_rows), 1, 1];
     Some (result, set_op s result GGML_OP_GATED_DELTA_NET [q, k, v, g, beta, state]) }"

section \<open>The nodes they add\<close>

lemma custom_params_length [simp]: "length (custom_params fun_ptr n_tasks userdata) = 6"
  by (simp add: custom_params_def)

lemma new_tensor_3_node [node_new]:
  "ggml_new_tensor s ty 3 [n0, n1, n2, n3] = Some (r, s') \<Longrightarrow> ctx_inv s \<Longrightarrow> op_node s r s' GGML_OP_NONE ty [n0, n1, n2, 1] []"
  using new_tensor_node [of s ty 3 "[n0, n1, n2, n3]"] by (simp add: take_Suc_Cons numeral_eq_Suc)

lemma ggml_flash_attn_ext_node:
  assumes "ggml_flash_attn_ext s q k v msk scale max_bias logit_softcap = Some (r, s')" "ctx_inv s" "deref s q = Some tq" "deref s v = Some tv" "valid_args s [q, k, v, msk]"
  shows "op_node s r s' GGML_OP_FLASH_ATTN_EXT GGML_TYPE_F32 [t_ne tv ! 0, t_ne tq ! 2, t_ne tq ! 1, t_ne tq ! 3] [q, k, v, msk]"
  using assms by (auto simp: ggml_flash_attn_ext_def node_simps deref_dom deref_len intro!: node_set intro: node_new)

lemma ggml_flash_attn_ext_adds [node_adds]:
  "ggml_flash_attn_ext s q k v msk scale max_bias logit_softcap = Some (r, s') \<Longrightarrow> ctx_inv s \<Longrightarrow> valid_args s [q, k, v, msk] \<Longrightarrow> adds s r s'"
  by (cases "deref s q"; cases "deref s v") ((rule ggml_flash_attn_ext_node [THEN op_node_adds], assumption+) | simp add: ggml_flash_attn_ext_def none_simps)+

lemma ggml_ssm_conv_node:
  assumes "ggml_ssm_conv s sx c = Some (r, s')" "ctx_inv s" "deref s sx = Some tx" "deref s c = Some tc" "valid_args s [sx, c]"
  shows "op_node s r s' GGML_OP_SSM_CONV GGML_TYPE_F32 [t_ne tc ! 1, i64 (i64 (t_ne tx ! 0 - t_ne tc ! 0) + 1), t_ne tx ! 2, 1] [sx, c]"
  using assms by (auto simp: ggml_ssm_conv_def node_simps deref_dom deref_len intro!: node_set intro: node_new)

lemma ggml_ssm_conv_adds [node_adds]:
  "ggml_ssm_conv s sx c = Some (r, s') \<Longrightarrow> ctx_inv s \<Longrightarrow> valid_args s [sx, c] \<Longrightarrow> adds s r s'"
  by (cases "deref s sx"; cases "deref s c") ((rule ggml_ssm_conv_node [THEN op_node_adds], assumption+) | simp add: ggml_ssm_conv_def none_simps)+

lemma ggml_win_unpart_node:
  assumes "ggml_win_unpart s a w0 h0 w = Some (r, s')" "ctx_inv s" "deref s a = Some ta" "valid_args s [a]"
  shows "op_node s r s' GGML_OP_WIN_UNPART GGML_TYPE_F32 [t_ne ta ! 0, w0, h0, 1] [a]"
  using assms by (auto simp: ggml_win_unpart_def node_simps deref_dom deref_len intro!: node_set intro: node_new)

lemma ggml_win_unpart_adds [node_adds]:
  "ggml_win_unpart s a w0 h0 w = Some (r, s') \<Longrightarrow> ctx_inv s \<Longrightarrow> valid_args s [a] \<Longrightarrow> adds s r s'"
  by (cases "deref s a") ((rule ggml_win_unpart_node [THEN op_node_adds], assumption+) | simp add: ggml_win_unpart_def none_simps)+

lemma ggml_get_rel_pos_node:
  assumes "ggml_get_rel_pos s a qh kh = Some (r, s')" "ctx_inv s" "deref s a = Some ta" "valid_args s [a]"
  shows "op_node s r s' GGML_OP_GET_REL_POS GGML_TYPE_F16 [t_ne ta ! 0, kh, qh, 1] [a]"
  using assms by (auto simp: ggml_get_rel_pos_def node_simps deref_dom deref_len intro!: node_set intro: node_new)

lemma ggml_get_rel_pos_adds [node_adds]:
  "ggml_get_rel_pos s a qh kh = Some (r, s') \<Longrightarrow> ctx_inv s \<Longrightarrow> valid_args s [a] \<Longrightarrow> adds s r s'"
  by (cases "deref s a") ((rule ggml_get_rel_pos_node [THEN op_node_adds], assumption+) | simp add: ggml_get_rel_pos_def none_simps)+

lemma ggml_add_rel_pos_impl_node:
  assumes "ggml_add_rel_pos_impl s a pw ph inplace = Some (r, s')" "ctx_inv s" "deref s a = Some ta" "valid_args s [a, pw, ph]"
  shows "op_node s r s' GGML_OP_ADD_REL_POS (t_type ta) (t_ne ta) [a, pw, ph]"
  using assms by (auto simp: ggml_add_rel_pos_impl_def node_simps deref_dom deref_len intro!: node_set intro: node_new)

lemma ggml_add_rel_pos_impl_adds [node_adds]:
  "ggml_add_rel_pos_impl s a pw ph inplace = Some (r, s') \<Longrightarrow> ctx_inv s \<Longrightarrow> valid_args s [a, pw, ph] \<Longrightarrow> adds s r s'"
  by (cases "deref s a") ((rule ggml_add_rel_pos_impl_node [THEN op_node_adds], assumption+) | simp add: ggml_add_rel_pos_impl_def none_simps)+

lemma ggml_rwkv_wkv6_node:
  assumes "ggml_rwkv_wkv6 s k v r0 tf td state = Some (r, s')" "ctx_inv s" "deref s k = Some tk" "deref s state = Some ts" "valid_args s [k, v, r0, tf, td, state]"
  shows "op_node s r s' GGML_OP_RWKV_WKV6 GGML_TYPE_F32 [i64 (t_ne tk ! 0 * t_ne tk ! 1), i64 (t_ne tk ! 2 + i64 (t_ne tk ! 0 * t_ne ts ! 1)), 1, 1] [k, v, r0, tf, td, state]"
  using assms by (clarsimp simp: ggml_rwkv_wkv6_def node_simps) (intro node_set new_tensor_4_node; simp add: deref_dom)

lemma ggml_rwkv_wkv6_adds [node_adds]:
  "ggml_rwkv_wkv6 s k v r0 tf td state = Some (r, s') \<Longrightarrow> ctx_inv s \<Longrightarrow> valid_args s [k, v, r0, tf, td, state] \<Longrightarrow> adds s r s'"
  by (cases "deref s k"; cases "deref s state") ((rule ggml_rwkv_wkv6_node [THEN op_node_adds], assumption+) | simp add: ggml_rwkv_wkv6_def none_simps)+

lemma ggml_gated_linear_attn_node:
  assumes "ggml_gated_linear_attn s k v q g state scale = Some (r, s')" "ctx_inv s" "deref s k = Some tk" "deref s state = Some ts" "valid_args s [k, v, q, g, state]"
  shows "op_node s r s' GGML_OP_GATED_LINEAR_ATTN GGML_TYPE_F32 [i64 (t_ne tk ! 0 * t_ne tk ! 1), i64 (t_ne tk ! 2 + i64 (t_ne tk ! 0 * t_ne ts ! 1)), 1, 1] [k, v, q, g, state]"
  using assms by (clarsimp simp: ggml_gated_linear_attn_def node_simps) (intro node_set new_tensor_4_node; simp add: deref_dom)

lemma ggml_gated_linear_attn_adds [node_adds]:
  "ggml_gated_linear_attn s k v q g state scale = Some (r, s') \<Longrightarrow> ctx_inv s \<Longrightarrow> valid_args s [k, v, q, g, state] \<Longrightarrow> adds s r s'"
  by (cases "deref s k"; cases "deref s state") ((rule ggml_gated_linear_attn_node [THEN op_node_adds], assumption+) | simp add: ggml_gated_linear_attn_def none_simps)+

lemma ggml_rwkv_wkv7_node:
  assumes "ggml_rwkv_wkv7 s r0 w k v a b state = Some (r, s')" "ctx_inv s" "deref s k = Some tk" "deref s state = Some ts" "valid_args s [r0, w, k, v, a, b, state]"
  shows "op_node s r s' GGML_OP_RWKV_WKV7 GGML_TYPE_F32 [i64 (t_ne tk ! 0 * t_ne tk ! 1), i64 (t_ne tk ! 2 + i64 (t_ne tk ! 0 * t_ne ts ! 1)), 1, 1] [r0, w, k, v, a, b, state]"
  using assms by (clarsimp simp: ggml_rwkv_wkv7_def node_simps) (intro node_set new_tensor_4_node; simp add: deref_dom)

lemma ggml_rwkv_wkv7_adds [node_adds]:
  "ggml_rwkv_wkv7 s r0 w k v a b state = Some (r, s') \<Longrightarrow> ctx_inv s \<Longrightarrow> valid_args s [r0, w, k, v, a, b, state] \<Longrightarrow> adds s r s'"
  by (cases "deref s k"; cases "deref s state") ((rule ggml_rwkv_wkv7_node [THEN op_node_adds], assumption+) | simp add: ggml_rwkv_wkv7_def none_simps)+

lemma ggml_map_custom1_impl_node:
  assumes "ggml_map_custom1_impl s a fun_ptr n_tasks userdata inplace = Some (r, s')" "ctx_inv s" "deref s a = Some ta" "valid_args s [a]"
  shows "op_node s r s' GGML_OP_MAP_CUSTOM1 (t_type ta) (t_ne ta) [a]"
  using assms by (auto simp: ggml_map_custom1_impl_def node_simps deref_dom deref_len intro!: node_set intro: node_new)

lemma ggml_map_custom1_impl_adds [node_adds]:
  "ggml_map_custom1_impl s a fun_ptr n_tasks userdata inplace = Some (r, s') \<Longrightarrow> ctx_inv s \<Longrightarrow> valid_args s [a] \<Longrightarrow> adds s r s'"
  by (cases "deref s a") ((rule ggml_map_custom1_impl_node [THEN op_node_adds], assumption+) | simp add: ggml_map_custom1_impl_def none_simps)+

lemma ggml_map_custom2_impl_node:
  assumes "ggml_map_custom2_impl s a b fun_ptr n_tasks userdata inplace = Some (r, s')" "ctx_inv s" "deref s a = Some ta" "valid_args s [a, b]"
  shows "op_node s r s' GGML_OP_MAP_CUSTOM2 (t_type ta) (t_ne ta) [a, b]"
  using assms by (auto simp: ggml_map_custom2_impl_def node_simps deref_dom deref_len intro!: node_set intro: node_new)

lemma ggml_map_custom2_impl_adds [node_adds]:
  "ggml_map_custom2_impl s a b fun_ptr n_tasks userdata inplace = Some (r, s') \<Longrightarrow> ctx_inv s \<Longrightarrow> valid_args s [a, b] \<Longrightarrow> adds s r s'"
  by (cases "deref s a") ((rule ggml_map_custom2_impl_node [THEN op_node_adds], assumption+) | simp add: ggml_map_custom2_impl_def none_simps)+

lemma ggml_map_custom3_impl_node:
  assumes "ggml_map_custom3_impl s a b c fun_ptr n_tasks userdata inplace = Some (r, s')" "ctx_inv s" "deref s a = Some ta" "valid_args s [a, b, c]"
  shows "op_node s r s' GGML_OP_MAP_CUSTOM3 (t_type ta) (t_ne ta) [a, b, c]"
  using assms by (auto simp: ggml_map_custom3_impl_def node_simps deref_dom deref_len intro!: node_set intro: node_new)

lemma ggml_map_custom3_impl_adds [node_adds]:
  "ggml_map_custom3_impl s a b c fun_ptr n_tasks userdata inplace = Some (r, s') \<Longrightarrow> ctx_inv s \<Longrightarrow> valid_args s [a, b, c] \<Longrightarrow> adds s r s'"
  by (cases "deref s a") ((rule ggml_map_custom3_impl_node [THEN op_node_adds], assumption+) | simp add: ggml_map_custom3_impl_def none_simps)+

lemma ggml_cross_entropy_loss_node:
  assumes "ggml_cross_entropy_loss s a b = Some (r, s')" "ctx_inv s" "deref s a = Some ta" "valid_args s [a, b]"
  shows "op_node s r s' GGML_OP_CROSS_ENTROPY_LOSS (t_type ta) [1, 1, 1, 1] [a, b]"
  using assms by (auto simp: ggml_cross_entropy_loss_def node_simps deref_dom deref_len intro!: node_set intro: node_new)

lemma ggml_cross_entropy_loss_adds [node_adds]:
  "ggml_cross_entropy_loss s a b = Some (r, s') \<Longrightarrow> ctx_inv s \<Longrightarrow> valid_args s [a, b] \<Longrightarrow> adds s r s'"
  by (cases "deref s a") ((rule ggml_cross_entropy_loss_node [THEN op_node_adds], assumption+) | simp add: ggml_cross_entropy_loss_def none_simps)+

lemma ggml_cross_entropy_loss_back_node:
  assumes "ggml_cross_entropy_loss_back s a b c = Some (r, s')" "ctx_inv s" "deref s b = Some tb" "valid_args s [a, b, c]"
  shows "op_node s r s' GGML_OP_CROSS_ENTROPY_LOSS_BACK (t_type tb) (t_ne tb) [a, b, c]"
  using assms by (auto simp: ggml_cross_entropy_loss_back_def node_simps deref_dom deref_len intro!: node_set intro: node_new)

lemma ggml_cross_entropy_loss_back_adds [node_adds]:
  "ggml_cross_entropy_loss_back s a b c = Some (r, s') \<Longrightarrow> ctx_inv s \<Longrightarrow> valid_args s [a, b, c] \<Longrightarrow> adds s r s'"
  by (cases "deref s b") ((rule ggml_cross_entropy_loss_back_node [THEN op_node_adds], assumption+) | simp add: ggml_cross_entropy_loss_back_def none_simps)+

lemma ggml_opt_step_adamw_node:
  assumes "ggml_opt_step_adamw s a grad m v adamw_params = Some (r, s')" "ctx_inv s" "deref s a = Some ta" "valid_args s [a, grad, m, v, adamw_params]"
  shows "op_node s r s' GGML_OP_OPT_STEP_ADAMW (t_type ta) (t_ne ta) [a, grad, m, v, adamw_params]"
  using assms by (auto simp: ggml_opt_step_adamw_def node_simps deref_dom deref_len intro!: node_set intro: node_new)

lemma ggml_opt_step_adamw_adds [node_adds]:
  "ggml_opt_step_adamw s a grad m v adamw_params = Some (r, s') \<Longrightarrow> ctx_inv s \<Longrightarrow> valid_args s [a, grad, m, v, adamw_params] \<Longrightarrow> adds s r s'"
  by (cases "deref s a") ((rule ggml_opt_step_adamw_node [THEN op_node_adds], assumption+) | simp add: ggml_opt_step_adamw_def none_simps)+

lemma ggml_opt_step_sgd_node:
  assumes "ggml_opt_step_sgd s a grad params = Some (r, s')" "ctx_inv s" "deref s a = Some ta" "valid_args s [a, grad, params]"
  shows "op_node s r s' GGML_OP_OPT_STEP_SGD (t_type ta) (t_ne ta) [a, grad, params]"
  using assms by (auto simp: ggml_opt_step_sgd_def node_simps deref_dom deref_len intro!: node_set intro: node_new)

lemma ggml_opt_step_sgd_adds [node_adds]:
  "ggml_opt_step_sgd s a grad params = Some (r, s') \<Longrightarrow> ctx_inv s \<Longrightarrow> valid_args s [a, grad, params] \<Longrightarrow> adds s r s'"
  by (cases "deref s a") ((rule ggml_opt_step_sgd_node [THEN op_node_adds], assumption+) | simp add: ggml_opt_step_sgd_def none_simps)+

lemma ggml_solve_tri_node:
  assumes "ggml_solve_tri s a b left lower uni = Some (r, s')" "ctx_inv s" "deref s b = Some tb" "valid_args s [a, b]"
  shows "op_node s r s' GGML_OP_SOLVE_TRI GGML_TYPE_F32 [t_ne tb ! 0, t_ne tb ! 1, t_ne tb ! 2, t_ne tb ! 3] [a, b]"
  using assms by (auto simp: ggml_solve_tri_def node_simps deref_dom deref_len intro!: node_set intro: node_new)

lemma ggml_solve_tri_adds [node_adds]:
  "ggml_solve_tri s a b left lower uni = Some (r, s') \<Longrightarrow> ctx_inv s \<Longrightarrow> valid_args s [a, b] \<Longrightarrow> adds s r s'"
  by (cases "deref s b") ((rule ggml_solve_tri_node [THEN op_node_adds], assumption+) | simp add: ggml_solve_tri_def none_simps)+

lemma ggml_gated_delta_net_node:
  assumes "ggml_gated_delta_net s q k v g beta state = Some (r, s')" "ctx_inv s" "deref s v = Some tv" "deref s state = Some ts" "valid_args s [q, k, v, g, beta, state]"
  shows "op_node s r s' GGML_OP_GATED_DELTA_NET GGML_TYPE_F32 [i64 (t_ne tv ! 0 * t_ne tv ! 1), i64 (i64 (t_ne tv ! 2 * t_ne tv ! 3) + i64 (i64 (t_ne ts ! 1 * t_ne tv ! 0) * t_ne tv ! 3)), 1, 1] [q, k, v, g, beta, state]"
  using assms by (clarsimp simp: ggml_gated_delta_net_def node_simps) (intro node_set new_tensor_4_node; simp add: deref_dom)

lemma ggml_gated_delta_net_adds [node_adds]:
  "ggml_gated_delta_net s q k v g beta state = Some (r, s') \<Longrightarrow> ctx_inv s \<Longrightarrow> valid_args s [q, k, v, g, beta, state] \<Longrightarrow> adds s r s'"
  by (cases "deref s v"; cases "deref s state") ((rule ggml_gated_delta_net_node [THEN op_node_adds], assumption+) | simp add: ggml_gated_delta_net_def none_simps)+

end
