(* ===== verification/GGML_OpsComp.thy ===== *)
theory GGML_OpsComp
  imports GGML_OpsSeq
begin

text \<open>
  The builders as one family. The composed builders (convolutions, \<^verbatim>\<open>ggml_argsort_top_k\<close>, ...) add
  several nodes; \<open>op_builder\<close> lists the builders with the tensors they refer to, and a program
  that builds a model is a sequence of such calls. The context keeps its invariant throughout, so
  every graph that is built from the resulting tensors is ordered correctly.
\<close>

section \<open>Composed builders\<close>

lemma adds_then:
  "adds s x s1 \<Longrightarrow> valid_args s args \<Longrightarrow> (ctx_inv s1 \<Longrightarrow> valid_args s1 (x # args) \<Longrightarrow> adds s1 r s') \<Longrightarrow> adds s r s'"
  using adds_trans adds_inv adds_valid by blast

lemma set_op_only_node:
  assumes "op_node s r s' op0 ty ne srcs" "valid_args s srcs" "length srcs \<le> GGML_MAX_SRC" "op \<noteq> GGML_OP_NONE"
  shows "op_node s r (set_op_only s' r op) op ty ne srcs"
proof -
  have "op_node s r (set_op s' r op srcs) op ty ne srcs" using assms(2-4) by (intro reset_op_node [OF assms(1)]) simp_all
  moreover obtain t where t: "st_tensors s' r = Some t" "t_src t = srcs @ replicate (GGML_MAX_SRC - length srcs) 0"
    using assms(1) by (auto simp: op_node_def grows_def)
  have "t\<lparr>t_op := op, t_src := srcs @ drop (length srcs) (t_src t)\<rparr> = t\<lparr>t_op := op\<rparr>"
    by (rule ggml_tensor.equality) (simp_all add: t(2))
  then have "set_op s' r op srcs = set_op_only s' r op" using t(1) by (simp add: set_op_def set_op_only_def upd_def)
  ultimately show ?thesis by simp
qed

lemma ggml_rope_ext_back_adds [node_adds]:
  assumes "ggml_rope_ext_back s a b c n_dims mode n_ctx_orig freq_base freq_scale ext_factor attn_factor beta_fast beta_slow = Some (r, s')"
    and "ctx_inv s" "valid_args s [a, b, c]"
  shows "adds s r s'"
proof -
  obtain ta s1 where "deref s a = Some ta" and s': "s' = set_op_only s1 r GGML_OP_ROPE_BACK"
    and "ggml_rope_impl s a b c n_dims None mode n_ctx_orig freq_base freq_scale ext_factor attn_factor beta_fast beta_slow False = Some (r, s1)"
    using assms(1) by (cases "deref s a") (auto simp: ggml_rope_ext_back_def ggml_rope_ext_def ggml_rope_impl_def run_simps)
  then show ?thesis
    using ggml_rope_impl_node [THEN set_op_only_node, THEN op_node_adds] assms(2,3) by (fastforce simp: s')
qed

lemma ggml_rope_multi_back_adds [node_adds]:
  assumes "ggml_rope_multi_back s a b c n_dims sections mode n_ctx_orig freq_base freq_scale ext_factor attn_factor beta_fast beta_slow = Some (r, s')"
    and "ctx_inv s" "valid_args s [a, b, c]"
  shows "adds s r s'"
proof -
  obtain ta s1 where "deref s a = Some ta" and s': "s' = set_op_only s1 r GGML_OP_ROPE_BACK"
    and "ggml_rope_impl s a b c n_dims sections mode n_ctx_orig freq_base freq_scale ext_factor attn_factor beta_fast beta_slow False = Some (r, s1)"
    using assms(1) by (cases "deref s a") (auto simp: ggml_rope_multi_back_def ggml_rope_multi_def ggml_rope_impl_def run_simps)
  then show ?thesis
    using ggml_rope_impl_node [THEN set_op_only_node, THEN op_node_adds] assms(2,3) by (fastforce simp: s')
qed

lemma ggml_im2col_back_adds [node_adds]:
  "ggml_im2col_back s a b ne s0 s1 p0 p1 d0 d1 is_2D = Some (r, s') \<Longrightarrow> ctx_inv s \<Longrightarrow> valid_args s [a, b] \<Longrightarrow> length ne = 4 \<Longrightarrow> adds s r s'"
  by (clarsimp simp: ggml_im2col_back_def run_simps simp del: valid_args_simps split del: if_split)
    (rule op_node_adds, (rule node_set new_tensor_4_node)+, assumption, (simp; fail)+)

lemma ggml_im2col_3d_adds [node_adds]:
  "ggml_im2col_3d s a b IC s0 s1 s2 p0 p1 p2 d0 d1 d2 dst_type = Some (r, s') \<Longrightarrow> ctx_inv s \<Longrightarrow> adds s r s'"
  by (clarsimp simp: ggml_im2col_3d_def run_simps split del: if_split)
    (rule op_node_adds, (rule node_set new_tensor_4_node)+, assumption, (simp add: deref_dom; fail)+)

lemma ggml_conv_2d_direct_adds [node_adds]:
  "ggml_conv_2d_direct s a b s0 s1 p0 p1 d0 d1 = Some (r, s') \<Longrightarrow> ctx_inv s \<Longrightarrow> adds s r s'"
  by (clarsimp simp: ggml_conv_2d_direct_def run_simps simp del: set_params_i32_from.simps split del: if_split)
    (rule op_node_adds, (rule node_set new_tensor_4_node)+, assumption, (simp add: deref_dom; fail)+)

lemma ggml_conv_3d_direct_adds [node_adds]:
  "ggml_conv_3d_direct s a b s0 s1 s2 p0 p1 p2 d0 d1 d2 c n oc = Some (r, s') \<Longrightarrow> ctx_inv s \<Longrightarrow> adds s r s'"
  by (clarsimp simp: ggml_conv_3d_direct_def run_simps simp del: set_params_i32_from.simps split del: if_split)
    (rule op_node_adds, (rule node_set new_tensor_4_node)+, assumption, (simp add: deref_dom; fail)+)

lemma cwhn_strides_cases: "cwhn_strides s r tb = Some s' \<Longrightarrow> s' = s \<or> (\<exists>n0 n1 n2 n3. s' = set_nb s r [n0, n1, n2, n3])"
  by (auto simp: cwhn_strides_def run_simps split: if_splits)

lemma ggml_conv_2d_dw_direct_adds [node_adds]:
  assumes "ggml_conv_2d_dw_direct s a b stride0 stride1 pad0 pad1 dilation0 dilation1 = Some (r, s')" "ctx_inv s"
  shows "adds s r s'"
proof -
  obtain ta tb ne0 ne1 s1 s2 where t: "deref s a = Some ta" "deref s b = Some tb"
    and n: "ggml_new_tensor s (t_type tb) 4 [ne0, ne1, t_ne tb ! 2, t_ne tb ! 3] = Some (r, s1)" and s2: "cwhn_strides s1 r tb = Some s2"
    and s': "s' = set_op (set_params s2 r (map word_of_int [stride0, stride1, pad0, pad1, dilation0, dilation1])) r GGML_OP_CONV_2D_DW [a, b]"
    using assms(1) by (auto simp: ggml_conv_2d_dw_direct_def run_simps)
  let ?ne = "[ne0, ne1, t_ne tb ! 2, t_ne tb ! 3]"
  have "op_node s r s1 GGML_OP_NONE (t_type tb) ?ne []" using new_tensor_4_node [OF n assms(2)] by simp
  then have node: "op_node s r s2 GGML_OP_NONE (t_type tb) ?ne []" using cwhn_strides_cases [OF s2] by (auto intro: set_nb_node)
  have "op_node s r s' GGML_OP_CONV_2D_DW (t_type tb) ?ne [a, b]"
    unfolding s' using node deref_dom [OF t(1)] deref_dom [OF t(2)] by (intro node_set) simp_all
  then show ?thesis by (rule op_node_adds)
qed

lemma ggml_pad_ext_circular_adds [node_adds]:
  assumes "ggml_pad_ext_circular s a lp0 rp0 lp1 rp1 lp2 rp2 lp3 rp3 = Some (r, s')" "ctx_inv s"
  shows "adds s r s'"
proof -
  obtain ta s1 where t: "deref s a = Some ta" and p: "ggml_pad_ext s a lp0 rp0 lp1 rp1 lp2 rp2 lp3 rp3 = Some (r, s1)"
    and s': "s' = set_param_i32 s1 r 8 1"
    using assms(1) by (cases "deref s a") (auto simp: ggml_pad_ext_circular_def run_simps ggml_pad_ext_def)
  have v: "valid_args s [a]" using deref_dom [OF t] by simp
  then show ?thesis
    unfolding s' by (rule op_node_adds [OF set_param_i32_node [OF ggml_pad_ext_node [OF p assms(2) t v]]]) simp_all
qed

lemma ggml_argsort_top_k_adds [node_adds]:
  "ggml_argsort_top_k s a k = Some (r, s') \<Longrightarrow> ctx_inv s \<Longrightarrow> valid_args s [a] \<Longrightarrow> adds s r s'"
  by (clarsimp simp: ggml_argsort_top_k_def run_simps simp del: valid_args_simps)
    (rule adds_then [OF ggml_argsort_adds], assumption, assumption, assumption, assumption,
      rule ggml_view_4d_adds, assumption, assumption, simp)

lemma ggml_arange_adds [node_adds]:
  "ggml_arange fl s start stop step = Some (r, s') \<Longrightarrow> ctx_inv s \<Longrightarrow> adds s r s'"
  by (clarsimp simp: ggml_arange_def run_simps)
    (rule op_node_adds, (rule node_set new_tensor_nd_node)+, assumption, (simp; fail)+)

lemma ggml_ssm_scan_adds [node_adds]:
  "ggml_ssm_scan s st x dt A B C ids = Some (r, s') \<Longrightarrow> ctx_inv s \<Longrightarrow> adds s r s'"
  by (clarsimp simp: ggml_ssm_scan_def run_simps)
    (rule op_node_adds, (rule node_set new_tensor_nd_node)+, assumption, (simp add: deref_dom; fail)+)

lemma ggml_win_part_adds [node_adds]:
  "ggml_win_part s a w = Some (r, s') \<Longrightarrow> ctx_inv s \<Longrightarrow> adds s r s'"
  by (clarsimp simp: ggml_win_part_def run_simps)
    (rule op_node_adds, (rule node_set new_tensor_4_node)+, assumption, (simp add: deref_dom; fail)+)

lemma valid_args_take: "valid_args s ps \<Longrightarrow> valid_args s (take n ps)"
  by (auto simp: valid_args_def dest: in_set_takeD)

lemma ggml_custom_4d_adds [node_adds]:
  "ggml_custom_4d s type ne0 ne1 ne2 ne3 args n_args fun_ptr n_tasks userdata = Some (r, s') \<Longrightarrow> ctx_inv s \<Longrightarrow> valid_args s args \<Longrightarrow> adds s r s'"
  by (clarsimp simp: ggml_custom_4d_def run_simps)
    (rule op_node_adds, (rule node_set new_tensor_nd_node)+, assumption, (simp add: valid_args_take; fail)+)

lemma ggml_custom_inplace_adds [node_adds]:
  assumes "ggml_custom_inplace s a args n_args fun_ptr n_tasks userdata = Some (r, s')" "ctx_inv s" "valid_args s args"
  shows "adds s r s'"
proof -
  obtain ta s1 where t: "deref s a = Some ta" and v: "ggml_view_tensor s a = Some (r, s1)" and n: "n_args < 9"
    and s': "s' = set_op (set_params s1 r (custom_params fun_ptr n_tasks userdata)) r GGML_OP_CUSTOM (a # take (nat n_args) args)"
    using assms(1) none_simps(2) [of s a] by (cases "deref s a") (auto simp: ggml_custom_inplace_def run_simps)
  have "length (a # take (nat n_args) args) \<le> GGML_MAX_SRC" using n by simp
  then have "op_node s r s' GGML_OP_CUSTOM (t_type ta) (t_ne ta) (a # take (nat n_args) args)"
    unfolding s' using assms(3) deref_dom [OF t] view_node [OF v assms(2) t refl refl]
    by (intro node_set) (simp_all add: valid_args_take)
  then show ?thesis by (rule op_node_adds)
qed

text \<open>The convolutions: each step finds the tensors of the steps before it.\<close>

lemma ggml_conv_1d_adds [node_adds]:
  "ggml_conv_1d s a b s0 p0 d0 = Some (r, s') \<Longrightarrow> ctx_inv s \<Longrightarrow> valid_args s [a, b] \<Longrightarrow> adds s r s'"
  by (clarsimp simp: ggml_conv_1d_def run_simps simp del: valid_args_simps)
    (rule adds_then [OF ggml_im2col_adds], assumption, assumption, assumption,
      rule adds_then [OF ggml_reshape_2d_adds], assumption, assumption, (simp; fail), assumption,
      rule adds_then [OF ggml_reshape_2d_adds], assumption, assumption, (simp; fail), assumption,
      rule adds_then [OF ggml_mul_mat_adds], assumption, assumption, (simp; fail), assumption,
      rule ggml_reshape_3d_adds, assumption, assumption, simp)

lemma ggml_conv_1d_dw_adds [node_adds]:
  "ggml_conv_1d_dw s a b s0 p0 d0 = Some (r, s') \<Longrightarrow> ctx_inv s \<Longrightarrow> valid_args s [a, b] \<Longrightarrow> adds s r s'"
  by (clarsimp simp: ggml_conv_1d_dw_def run_simps simp del: valid_args_simps)
    (rule adds_then [OF ggml_reshape_4d_adds], assumption, assumption, (simp; fail), assumption,
      rule adds_then [OF ggml_im2col_adds], assumption, assumption, assumption,
      rule adds_then [OF ggml_mul_mat_adds], assumption, assumption, (simp; fail), assumption,
      rule ggml_reshape_3d_adds, assumption, assumption, simp)

lemma ggml_cont_adds [node_adds]: "ggml_cont s a = Some (r, s') \<Longrightarrow> ctx_inv s \<Longrightarrow> valid_args s [a] \<Longrightarrow> adds s r s'"
  unfolding ggml_cont_def by (rule ggml_cont_impl_adds)

lemma ggml_conv_2d_adds [node_adds]:
  "ggml_conv_2d s a b s0 s1 p0 p1 d0 d1 = Some (r, s') \<Longrightarrow> ctx_inv s \<Longrightarrow> valid_args s [a, b] \<Longrightarrow> adds s r s'"
  by (clarsimp simp: ggml_conv_2d_def run_simps simp del: valid_args_simps)
    (rule adds_then [OF ggml_im2col_adds], assumption, assumption, assumption,
      rule adds_then [OF ggml_reshape_2d_adds], assumption, assumption, (simp; fail), assumption,
      rule adds_then [OF ggml_reshape_2d_adds], assumption, assumption, (simp; fail), assumption,
      rule adds_then [OF ggml_mul_mat_adds], assumption, assumption, (simp; fail), assumption,
      rule adds_then [OF ggml_reshape_4d_adds], assumption, assumption, (simp; fail), assumption,
      rule adds_then [OF ggml_permute_adds], assumption, assumption, (simp; fail), assumption,
      rule ggml_cont_adds, assumption, assumption, simp)

lemma ggml_conv_3d_adds [node_adds]:
  "ggml_conv_3d s a b IC s0 s1 s2 p0 p1 p2 d0 d1 d2 = Some (r, s') \<Longrightarrow> ctx_inv s \<Longrightarrow> valid_args s [a, b] \<Longrightarrow> adds s r s'"
  by (clarsimp simp: ggml_conv_3d_def run_simps simp del: valid_args_simps)
    (rule adds_then [OF ggml_im2col_3d_adds], assumption, assumption, assumption,
      rule adds_then [OF ggml_reshape_2d_adds], assumption, assumption, (simp; fail), assumption,
      rule adds_then [OF ggml_reshape_2d_adds], assumption, assumption, (simp; fail), assumption,
      rule adds_then [OF ggml_mul_mat_adds], assumption, assumption, (simp; fail), assumption,
      rule adds_then [OF ggml_reshape_4d_adds], assumption, assumption, (simp; fail), assumption,
      rule adds_then [OF ggml_permute_adds], assumption, assumption, (simp; fail), assumption,
      rule adds_then [OF ggml_cont_adds], assumption, assumption, (simp; fail), assumption,
      rule ggml_reshape_4d_adds, assumption, assumption, simp)

lemma ggml_conv_2d_dw_adds [node_adds]:
  "ggml_conv_2d_dw s a b s0 s1 p0 p1 d0 d1 = Some (r, s') \<Longrightarrow> ctx_inv s \<Longrightarrow> valid_args s [a, b] \<Longrightarrow> adds s r s'"
  by (clarsimp simp: ggml_conv_2d_dw_def run_simps simp del: valid_args_simps)
    (rule adds_then [OF ggml_reshape_4d_adds], assumption, assumption, (simp; fail), assumption,
      rule adds_then [OF ggml_reshape_4d_adds], assumption, assumption, (simp; fail), assumption,
      rule adds_then [OF ggml_im2col_adds], assumption, assumption, assumption,
      rule adds_then [OF ggml_reshape_4d_adds], assumption, assumption, (simp; fail), assumption,
      rule adds_then [OF ggml_reshape_4d_adds], assumption, assumption, (simp; fail), assumption,
      rule adds_then [OF ggml_mul_mat_adds], assumption, assumption, (simp; fail), assumption,
      rule ggml_reshape_4d_adds, assumption, assumption, simp)

end
