(* ===== verification/GGML_Program.thy ===== *)
theory GGML_Program
  imports GGML_OpsComp GGML_Build GGML_Pool
begin

text \<open>
  Programs that build models: sequences of calls of the operation builders and of
  \<^verbatim>\<open>ggml_new_tensor\<close> on one context. \<open>op_call\<close> is one successful call of a builder (the inner
  function that the public names share), \<open>api_step\<close> one step of a program. Every step keeps the
  invariant of the context and only adds tensors; graphs that are built after any number of steps
  are complete and ordered.
\<close>

section \<open>Calls\<close>

text \<open>
  Three functions are left out: \<^verbatim>\<open>ggml_cast\<close>, which makes its result a source of itself
  (\<^verbatim>\<open>result->src[1] = result\<close>), so that the sources are no longer acyclic, and the two \<^verbatim>\<open>add_sinks\<close>
  functions, which change a tensor that exists. They are modelled, but the theorems about programs do
  not cover them.

  \<open>op_call args s r s'\<close>: a builder that was called in state \<open>s\<close> has returned \<open>r\<close> and left the state
  \<open>s'\<close>. \<open>args\<close> lists the tensors that have to be valid or \<^verbatim>\<open>NULL\<close>; it is empty where the builder
  reads all of them first.
\<close>

inductive op_call :: "ptr list \<Rightarrow> ggml_state \<Rightarrow> ptr \<Rightarrow> ggml_state \<Rightarrow> bool" where
  "ggml_dup_impl s a inplace = Some (r, s') \<Longrightarrow> op_call [a] s r s'"
| "ggml_add_impl s a b inplace = Some (r, s') \<Longrightarrow> op_call [a, b] s r s'"
| "ggml_add_cast_impl s a b type = Some (r, s') \<Longrightarrow> op_call [a, b] s r s'"
| "ggml_add_id s a b ids = Some (r, s') \<Longrightarrow> op_call [a, b, ids] s r s'"
| "ggml_add1_impl s a b inplace = Some (r, s') \<Longrightarrow> op_call [a, b] s r s'"
| "ggml_acc_impl s a b nb1 nb2 nb3 offset inplace = Some (r, s') \<Longrightarrow> op_call [a, b] s r s'"
| "ggml_sub_impl s a b inplace = Some (r, s') \<Longrightarrow> op_call [a, b] s r s'"
| "ggml_mul_impl s a b inplace = Some (r, s') \<Longrightarrow> op_call [a, b] s r s'"
| "ggml_div_impl s a b inplace = Some (r, s') \<Longrightarrow> op_call [a, b] s r s'"
| "ggml_sqr_impl s a inplace = Some (r, s') \<Longrightarrow> op_call [a] s r s'"
| "ggml_sqrt_impl s a inplace = Some (r, s') \<Longrightarrow> op_call [a] s r s'"
| "ggml_log_impl s a inplace = Some (r, s') \<Longrightarrow> op_call [a] s r s'"
| "ggml_unary_impl s a op inplace = Some (r, s') \<Longrightarrow> op_call [a] s r s'"
| "ggml_sin_impl s a inplace = Some (r, s') \<Longrightarrow> op_call [a] s r s'"
| "ggml_cos_impl s a inplace = Some (r, s') \<Longrightarrow> op_call [a] s r s'"
| "ggml_sum s a = Some (r, s') \<Longrightarrow> op_call [a] s r s'"
| "ggml_sum_rows s a = Some (r, s') \<Longrightarrow> op_call [a] s r s'"
| "ggml_cumsum s a = Some (r, s') \<Longrightarrow> op_call [a] s r s'"
| "ggml_mean s a = Some (r, s') \<Longrightarrow> op_call [a] s r s'"
| "ggml_argmax s a = Some (r, s') \<Longrightarrow> op_call [a] s r s'"
| "ggml_count_equal s a b = Some (r, s') \<Longrightarrow> op_call [a, b] s r s'"
| "ggml_repeat s a b = Some (r, s') \<Longrightarrow> op_call [a, b] s r s'"
| "ggml_repeat_4d s a ne0 ne1 ne2 ne3 = Some (r, s') \<Longrightarrow> op_call [a] s r s'"
| "ggml_repeat_back s a b = Some (r, s') \<Longrightarrow> op_call [a, b] s r s'"
| "ggml_leaky_relu s a negative_slope inplace = Some (r, s') \<Longrightarrow> op_call [a] s r s'"
| "ggml_xielu fl s a alpha_n alpha_p beta eps = Some (r, s') \<Longrightarrow> op_call [a] s r s'"
| "ggml_silu_back s a b = Some (r, s') \<Longrightarrow> op_call [a, b] s r s'"
| "ggml_norm_impl s a eps inplace = Some (r, s') \<Longrightarrow> op_call [a] s r s'"
| "ggml_rms_norm_impl s a eps inplace = Some (r, s') \<Longrightarrow> op_call [a] s r s'"
| "ggml_rms_norm_back s a b eps = Some (r, s') \<Longrightarrow> op_call [a, b] s r s'"
| "ggml_group_norm_impl s a n_groups eps inplace = Some (r, s') \<Longrightarrow> op_call [a] s r s'"
| "ggml_l2_norm_impl s a eps inplace = Some (r, s') \<Longrightarrow> op_call [a] s r s'"
| "ggml_mul_mat s a b = Some (r, s') \<Longrightarrow> op_call [a, b] s r s'"
| "ggml_mul_mat_id s experts b ids = Some (r, s') \<Longrightarrow> op_call [experts, b, ids] s r s'"
| "ggml_out_prod s a b = Some (r, s') \<Longrightarrow> op_call [a, b] s r s'"
| "ggml_scale_impl s a scale bias inplace = Some (r, s') \<Longrightarrow> op_call [a] s r s'"
| "ggml_set_impl s a b nb1 nb2 nb3 offset inplace = Some (r, s') \<Longrightarrow> op_call [a, b] s r s'"
| "ggml_glu_impl s a b op swapped = Some (r, s') \<Longrightarrow> op_call [] s r s'"
| "ggml_swiglu_oai s a b alpha limit = Some (r, s') \<Longrightarrow> op_call [b] s r s'"
| "ggml_concat s a b cdim = Some (r, s') \<Longrightarrow> op_call [] s r s'"
| "ggml_cpy_impl s a b = Some (r, s') \<Longrightarrow> op_call [a, b] s r s'"
| "ggml_cont_impl s a = Some (r, s') \<Longrightarrow> op_call [a] s r s'"
| "ggml_cont_4d s a ne0 ne1 ne2 ne3 = Some (r, s') \<Longrightarrow> op_call [a] s r s'"
| "ggml_reshape s a b = Some (r, s') \<Longrightarrow> op_call [a, b] s r s'"
| "ggml_reshape_1d s a ne0 = Some (r, s') \<Longrightarrow> op_call [a] s r s'"
| "ggml_reshape_2d s a ne0 ne1 = Some (r, s') \<Longrightarrow> op_call [a] s r s'"
| "ggml_reshape_3d s a ne0 ne1 ne2 = Some (r, s') \<Longrightarrow> op_call [a] s r s'"
| "ggml_reshape_4d s a ne0 ne1 ne2 ne3 = Some (r, s') \<Longrightarrow> op_call [a] s r s'"
| "ggml_transpose s a = Some (r, s') \<Longrightarrow> op_call [a] s r s'"
| "ggml_get_rows s a b = Some (r, s') \<Longrightarrow> op_call [a, b] s r s'"
| "ggml_get_rows_back s a b c = Some (r, s') \<Longrightarrow> op_call [a, b, c] s r s'"
| "ggml_set_rows s a b c = Some (r, s') \<Longrightarrow> op_call [a, b, c] s r s'"
| "ggml_diag s a = Some (r, s') \<Longrightarrow> op_call [a] s r s'"
| "ggml_diag_mask_inf_impl s a n_past inplace = Some (r, s') \<Longrightarrow> op_call [a] s r s'"
| "ggml_diag_mask_zero_impl s a n_past inplace = Some (r, s') \<Longrightarrow> op_call [a] s r s'"
| "ggml_permute s a axis0 axis1 axis2 axis3 = Some (r, s') \<Longrightarrow> op_call [a] s r s'"
| "ggml_view_1d s a ne0 offset = Some (r, s') \<Longrightarrow> op_call [a] s r s'"
| "ggml_view_2d s a ne0 ne1 nb1 offset = Some (r, s') \<Longrightarrow> op_call [a] s r s'"
| "ggml_view_3d s a ne0 ne1 ne2 nb1 nb2 offset = Some (r, s') \<Longrightarrow> op_call [a] s r s'"
| "ggml_view_4d s a ne0 ne1 ne2 ne3 nb1 nb2 nb3 offset = Some (r, s') \<Longrightarrow> op_call [a] s r s'"
| "ggml_soft_max_impl s a msk scale max_bias inplace = Some (r, s') \<Longrightarrow> op_call [a, msk] s r s'"
| "ggml_soft_max_ext_back_impl s a b scale max_bias inplace = Some (r, s') \<Longrightarrow> op_call [a, b] s r s'"
| "ggml_rope_impl s a b c n_dims sections mode n_ctx_orig freq_base freq_scale ext_factor attn_factor beta_fast beta_slow inplace = Some (r, s') \<Longrightarrow> op_call [a, b, c] s r s'"
| "ggml_clamp s a fmin fmax = Some (r, s') \<Longrightarrow> op_call [a] s r s'"
| "ggml_conv_transpose_1d s a b s0 p0 d0 = Some (r, s') \<Longrightarrow> op_call [a, b] s r s'"
| "ggml_conv_transpose_2d_p0 s a b stride = Some (r, s') \<Longrightarrow> op_call [a, b] s r s'"
| "ggml_pool_1d fl s a op k0 s0 p0 = Some (r, s') \<Longrightarrow> op_call [a] s r s'"
| "ggml_pool_2d fl s a op k0 k1 s0 s1 p0 p1 = Some (r, s') \<Longrightarrow> op_call [a] s r s'"
| "ggml_pool_2d_back fl s a af op k0 k1 s0 s1 p0 p1 = Some (r, s') \<Longrightarrow> op_call [a, af] s r s'"
| "ggml_interpolate_impl s a ne0 ne1 ne2 ne3 mode = Some (r, s') \<Longrightarrow> op_call [a] s r s'"
| "ggml_pad_ext s a lp0 rp0 lp1 rp1 lp2 rp2 lp3 rp3 = Some (r, s') \<Longrightarrow> op_call [a] s r s'"
| "ggml_pad_reflect_1d s a p0 p1 = Some (r, s') \<Longrightarrow> op_call [a] s r s'"
| "ggml_roll s a shift0 shift1 shift2 shift3 = Some (r, s') \<Longrightarrow> op_call [a] s r s'"
| "ggml_timestep_embedding s timesteps n_dim max_period = Some (r, s') \<Longrightarrow> op_call [timesteps] s r s'"
| "ggml_tri s a type = Some (r, s') \<Longrightarrow> op_call [a] s r s'"
| "ggml_fill_impl s a c inplace = Some (r, s') \<Longrightarrow> op_call [a] s r s'"
| "ggml_argsort s a order = Some (r, s') \<Longrightarrow> op_call [a] s r s'"
| "ggml_top_k s a k = Some (r, s') \<Longrightarrow> op_call [a] s r s'"
| "ggml_im2col s a b s0 s1 p0 p1 d0 d1 is_2D dst_type = Some (r, s') \<Longrightarrow> op_call [] s r s'"
| "ggml_flash_attn_ext s q k v msk scale max_bias logit_softcap = Some (r, s') \<Longrightarrow> op_call [q, k, v, msk] s r s'"
| "ggml_ssm_conv s sx c = Some (r, s') \<Longrightarrow> op_call [sx, c] s r s'"
| "ggml_win_unpart s a w0 h0 w = Some (r, s') \<Longrightarrow> op_call [a] s r s'"
| "ggml_get_rel_pos s a qh kh = Some (r, s') \<Longrightarrow> op_call [a] s r s'"
| "ggml_add_rel_pos_impl s a pw ph inplace = Some (r, s') \<Longrightarrow> op_call [a, pw, ph] s r s'"
| "ggml_rwkv_wkv6 s k v r0 tf td state = Some (r, s') \<Longrightarrow> op_call [k, v, r0, tf, td, state] s r s'"
| "ggml_gated_linear_attn s k v q g state scale = Some (r, s') \<Longrightarrow> op_call [k, v, q, g, state] s r s'"
| "ggml_rwkv_wkv7 s r0 w k v a b state = Some (r, s') \<Longrightarrow> op_call [r0, w, k, v, a, b, state] s r s'"
| "ggml_map_custom1_impl s a fun_ptr n_tasks userdata inplace = Some (r, s') \<Longrightarrow> op_call [a] s r s'"
| "ggml_map_custom2_impl s a b fun_ptr n_tasks userdata inplace = Some (r, s') \<Longrightarrow> op_call [a, b] s r s'"
| "ggml_map_custom3_impl s a b c fun_ptr n_tasks userdata inplace = Some (r, s') \<Longrightarrow> op_call [a, b, c] s r s'"
| "ggml_cross_entropy_loss s a b = Some (r, s') \<Longrightarrow> op_call [a, b] s r s'"
| "ggml_cross_entropy_loss_back s a b c = Some (r, s') \<Longrightarrow> op_call [a, b, c] s r s'"
| "ggml_opt_step_adamw s a grad m v adamw_params = Some (r, s') \<Longrightarrow> op_call [a, grad, m, v, adamw_params] s r s'"
| "ggml_opt_step_sgd s a grad params = Some (r, s') \<Longrightarrow> op_call [a, grad, params] s r s'"
| "ggml_solve_tri s a b left lower uni = Some (r, s') \<Longrightarrow> op_call [a, b] s r s'"
| "ggml_gated_delta_net s q k v g beta state = Some (r, s') \<Longrightarrow> op_call [q, k, v, g, beta, state] s r s'"
| "ggml_rope_ext_back s a b c n_dims mode n_ctx_orig freq_base freq_scale ext_factor attn_factor beta_fast beta_slow = Some (r, s') \<Longrightarrow> op_call [a, b, c] s r s'"
| "ggml_rope_multi_back s a b c n_dims sections mode n_ctx_orig freq_base freq_scale ext_factor attn_factor beta_fast beta_slow = Some (r, s') \<Longrightarrow> op_call [a, b, c] s r s'"
| "length ne = 4 \<Longrightarrow> ggml_im2col_back s a b ne s0 s1 p0 p1 d0 d1 is_2D = Some (r, s') \<Longrightarrow> op_call [a, b] s r s'"
| "ggml_im2col_3d s a b IC s0 s1 s2 p0 p1 p2 d0 d1 d2 dst_type = Some (r, s') \<Longrightarrow> op_call [] s r s'"
| "ggml_conv_2d_direct s a b s0 s1 p0 p1 d0 d1 = Some (r, s') \<Longrightarrow> op_call [] s r s'"
| "ggml_conv_3d_direct s a b s0 s1 s2 p0 p1 p2 d0 d1 d2 c n oc = Some (r, s') \<Longrightarrow> op_call [] s r s'"
| "ggml_conv_2d_dw_direct s a b stride0 stride1 pad0 pad1 dilation0 dilation1 = Some (r, s') \<Longrightarrow> op_call [] s r s'"
| "ggml_pad_ext_circular s a lp0 rp0 lp1 rp1 lp2 rp2 lp3 rp3 = Some (r, s') \<Longrightarrow> op_call [] s r s'"
| "ggml_argsort_top_k s a k = Some (r, s') \<Longrightarrow> op_call [a] s r s'"
| "ggml_arange fl s start stop step = Some (r, s') \<Longrightarrow> op_call [] s r s'"
| "ggml_ssm_scan s st x dt A B C ids = Some (r, s') \<Longrightarrow> op_call [] s r s'"
| "ggml_win_part s a w = Some (r, s') \<Longrightarrow> op_call [] s r s'"
| "ggml_custom_4d s type ne0 ne1 ne2 ne3 args n_args fun_ptr n_tasks userdata = Some (r, s') \<Longrightarrow> op_call args s r s'"
| "ggml_custom_inplace s a args n_args fun_ptr n_tasks userdata = Some (r, s') \<Longrightarrow> op_call args s r s'"
| "ggml_conv_1d s a b s0 p0 d0 = Some (r, s') \<Longrightarrow> op_call [a, b] s r s'"
| "ggml_conv_1d_dw s a b s0 p0 d0 = Some (r, s') \<Longrightarrow> op_call [a, b] s r s'"
| "ggml_cont s a = Some (r, s') \<Longrightarrow> op_call [a] s r s'"
| "ggml_conv_2d s a b s0 s1 p0 p1 d0 d1 = Some (r, s') \<Longrightarrow> op_call [a, b] s r s'"
| "ggml_conv_3d s a b IC s0 s1 s2 p0 p1 p2 d0 d1 d2 = Some (r, s') \<Longrightarrow> op_call [a, b] s r s'"
| "ggml_conv_2d_dw s a b s0 s1 p0 p1 d0 d1 = Some (r, s') \<Longrightarrow> op_call [a, b] s r s'"

lemma op_call_adds: "op_call args s r s' \<Longrightarrow> ctx_inv s \<Longrightarrow> valid_args s args \<Longrightarrow> adds s r s'"
  by (erule op_call.cases; hypsubst) (rule node_adds, assumption+)+

section \<open>Programs\<close>

inductive api_step :: "ggml_state \<Rightarrow> ggml_state \<Rightarrow> bool" where
  op: "op_call args s r s' \<Longrightarrow> valid_args s args \<Longrightarrow> api_step s s'"
| leaf: "ggml_new_tensor s ty nd ne = Some (r, s') \<Longrightarrow> nat nd \<le> length ne \<Longrightarrow> api_step s s'"

inductive_cases api_stepE: "api_step s s'"

lemma api_step_adds: "api_step s s' \<Longrightarrow> ctx_inv s \<Longrightarrow> \<exists>r. adds s r s'"
  by (elim api_stepE) (blast intro: op_call_adds op_node_adds new_tensor_node)+

interpretation prog: growing_client api_step
  using api_step_adds by unfold_locales (auto simp: adds_def)

text \<open>New tensors carry no flag, so marks for computation stay closed under sources.\<close>

lemma adds_flags_closed:
  assumes "adds s r s'" "ctx_inv s" "flags_closed {} (st_tensors s)"
  shows "flags_closed {} (st_tensors s')"
proof -
  have ex: "extends s s'" using assms(1) by (simp add: adds_def)
  have keep: "st_tensors s' p = Some t" if "st_tensors s p = Some t" for p t
    using extends_deref [OF ex] that by (simp add: deref_def)
  have "is_none (st_tensors s') q \<or> computed (st_tensors s') q"
    if c: "computed (st_tensors s') p" and q: "q \<in> set (srcs (st_tensors s') p)" for p q
  proof -
    obtain t where t: "st_tensors s' p = Some t" "has_flag t GGML_TENSOR_FLAG_COMPUTE" using c by (auto simp: computed_def)
    have "t_flags t \<noteq> 0" using t(2) by (auto simp: has_flag_def)
    then have "st_tensors s p \<noteq> None" using assms(1) t(1) unfolding adds_def by metis
    then have p: "st_tensors s p = Some t" using keep t(1) by fastforce
    then have "computed (st_tensors s) p" "q \<in> set (srcs (st_tensors s) p)"
      using t q by (auto simp: computed_def srcs_def)
    then have "is_none (st_tensors s) q \<or> computed (st_tensors s) q" using assms(3) by (auto simp: flags_closed_def)
    then show ?thesis using keep by (auto simp: is_none_def computed_def)
  qed
  then show ?thesis by (auto simp: flags_closed_def)
qed

lemma run_flags_closed:
  assumes "api_step\<^sup>*\<^sup>* s s'" "ctx_inv s" "flags_closed {} (st_tensors s)"
  shows "flags_closed {} (st_tensors s')"
  using assms(1)
proof (induction rule: rtranclp_induct)
  case base
  show ?case by (rule assms(3))
next
  case (step s1 s2)
  have "ctx_inv s1" using prog.run_extends [OF step(1) assms(2)] extends_inv by blast
  then show ?case using api_step_adds [OF step(2)] adds_flags_closed step(3) by blast
qed

text \<open>
  C6: whatever a program builds on a fresh context, the context stays sound: after \<^verbatim>\<open>ggml_init\<close> and
  any number of calls of operation builders (all of them except \<^verbatim>\<open>ggml_cast\<close> and the two
  \<^verbatim>\<open>add_sinks\<close> functions) and of \<^verbatim>\<open>ggml_new_tensor\<close>, the objects fill the pool without gaps, every
  tensor is well formed, views refer to tensors that are not views, and the sources of every
  tensor are tensors that do not depend on it. A tensor that existed before is unchanged.
\<close>

theorem ggml_programs_keep_context:
  assumes "ggml_init memalign s0 params = Some s" "heap_ok (st_tensors s0)"
    and "c_mem_buffer (st_ctx s) + c_mem_size (st_ctx s) \<le> SIZE_MAX"
    and "\<And>p. p \<in> dom (st_tensors s0) \<Longrightarrow> \<not> in_pool s p" "api_step\<^sup>*\<^sup>* s s'"
  shows "ctx_inv s' \<and> st_tensors s0 \<subseteq>\<^sub>m st_tensors s'
    \<and> c_mem_buffer (st_ctx s') = c_mem_buffer (st_ctx s) \<and> c_mem_size (st_ctx s') = c_mem_size (st_ctx s)"
  using prog.run_extends [OF assms(5) ctx_inv_init(1) [OF assms(1-4)]] ctx_inv_init(2) [OF assms(1-4)]
  by (simp add: extends_def)

text \<open>
  C7: after any such program (without \<^verbatim>\<open>ggml_cast\<close>, whose result is a source of itself, and \<^verbatim>\<open>add_sinks\<close>),
  run in a context that satisfies the invariant and whose compute flags are closed under sources,
  expanding an empty graph by any of its tensors succeeds when the graph has room for what the
  tensor depends on, and yields an evaluation order: the graph lists
  exactly the tensors that the given one depends on, each once, the operations behind all of
  their sources, and every operation is marked for computation.
\<close>

theorem ggml_programs_build_ordered_graphs:
  assumes "ctx_inv s" "flags_closed {} (st_tensors s)" "api_step\<^sup>*\<^sup>* s s'" "tensor \<in> dom (st_tensors s')"
    and "hs_inv (cg_visited g)" "hs_set (cg_visited g) = {}" "cg_nodes g = []" "cg_leafs g = []"
    and "length (cg_use_counts g) = hs_size (cg_visited g)" "has_room (st_tensors s') (reach (st_tensors s') tensor) g"
  shows "\<exists>g' T'. ggml_build_forward_expand g s' tensor = Some (g', s'\<lparr>st_tensors := T'\<rparr>)
    \<and> set (cg_nodes g' @ cg_leafs g') = reach (st_tensors s') tensor \<and> distinct (cg_nodes g' @ cg_leafs g')
    \<and> (\<forall>i < length (cg_nodes g'). set (srcs T' (cg_nodes g' ! i)) \<subseteq> set (cg_leafs g') \<union> set (take i (cg_nodes g')))
    \<and> (\<forall>q \<in> set (cg_nodes g'). is_none T' q \<or> computed T' q)"
proof -
  have h: "heap_ok (st_tensors s')" by (rule prog.run_heap [OF assms(3,1)])
  have ok: "graph_ok (st_tensors s') g" by (rule empty_graph_ok [OF assms(5-9)])
  have fin: "finished g = {}" using assms(7,8) by (simp add: finished_def)
  have fl: "flags_closed {} (st_tensors s')" by (rule run_flags_closed [OF assms(3,1,2)])
  have room: "has_room (st_tensors s') (finished g \<union> reach (st_tensors s') tensor) g" using assms(10) fin by simp
  obtain g' T' where r: "ggml_build_forward_impl g s' tensor True True = Some (g', s'\<lparr>st_tensors := T'\<rparr>)"
    "heap_touched (st_tensors s') T'" "graph_ok T' g'" "finished g' = finished g \<union> reach (st_tensors s') tensor"
    and c: "if True then \<forall>q \<in> reach (st_tensors s') tensor. is_none (st_tensors s') q \<or> computed T' q else computed T' = computed (st_tensors s')"
    by (rule build_forward_impl_correct [OF h refl ok fl assms(4) room, of True])
  have set: "set (cg_nodes g' @ cg_leafs g') = reach (st_tensors s') tensor" using r(4) fin by (simp add: finished_def)
  then have "\<forall>q \<in> set (cg_nodes g'). is_none T' q \<or> computed T' q"
    using c heap_touched_static(2) [OF r(2)] by auto
  then show ?thesis
    using r(1,3) set unfolding ggml_build_forward_expand_def graph_ok_def graph_inv_def topological_def by blast
qed

text \<open>A program of two steps: a matrix, and its square.\<close>

lemma sample_run:
  "\<exists>s1 s2. ggml_new_tensor sample_start GGML_TYPE_F32 2 [8, 3] = Some (65568, s1) \<and> ggml_sqr_impl s1 65568 False = Some (66032, s2)"
  by (simp add: ggml_sqr_impl_def view_or_dup_def ggml_dup_tensor_def deref_def ggml_new_tensor_def ggml_new_tensor_impl_def
      new_tensor_view_base_def new_tensor_view_data_def request_bytes_def ggml_row_size_def ggml_type_size_def
      ggml_blck_size_def pool_eval)

lemma sample_api_run:
  obtains s1 s2 where "ggml_new_tensor sample_start GGML_TYPE_F32 2 [8, 3] = Some (65568, s1)"
    "ggml_sqr_impl s1 65568 False = Some (66032, s2)" "api_step\<^sup>*\<^sup>* sample_start s2"
    "st_tensors s2 = [65568 \<mapsto> the (st_tensors s2 65568), 66032 \<mapsto> the (st_tensors s2 66032)]"
    "srcs (st_tensors s2) 66032 = [65568]" "srcs (st_tensors s2) 65568 = []"
proof -
  obtain s1 s2 where r: "ggml_new_tensor sample_start GGML_TYPE_F32 2 [8, 3] = Some (65568, s1)"
    "ggml_sqr_impl s1 65568 False = Some (66032, s2)" using sample_run by blast
  have n1: "op_node sample_start 65568 s1 GGML_OP_NONE GGML_TYPE_F32 [8, 3, 1, 1] []"
    using new_tensor_node [OF r(1) sample_ctx_inv] by simp
  note i1 = op_node_inv [OF n1]
  obtain t1 where t1: "deref s1 65568 = Some t1" "t_src t1 = replicate GGML_MAX_SRC 0"
    using n1 by (elim op_node_deref) simp
  have v1: "valid_args s1 [65568]" using deref_dom [OF t1(1)] by simp
  have n2: "op_node s1 66032 s2 GGML_OP_SQR (t_type t1) (t_ne t1) [65568]"
    using ggml_sqr_impl_node [OF r(2) i1 t1(1) v1] .
  obtain t2 where t2: "deref s2 66032 = Some t2" "t_src t2 = 65568 # replicate 9 0"
    using n2 by (elim op_node_deref) simp
  have T1: "st_tensors s1 = [65568 \<mapsto> t1]" using n1 t1 by (auto simp: op_node_def grows_def deref_def sample_state_def)
  have T2: "st_tensors s2 = [65568 \<mapsto> t1, 66032 \<mapsto> t2]" using n2 t2 by (auto simp: op_node_def grows_def deref_def T1)
  have "api_step sample_start s1" using api_step.leaf [OF r(1)] by simp
  moreover have "api_step s1 s2" using api_step.op [OF op_call.intros(10) [OF r(2)] v1] .
  ultimately have run: "api_step\<^sup>*\<^sup>* sample_start s2" by (meson rtranclp.simps)
  have src: "srcs (st_tensors s2) 66032 = [65568]" "srcs (st_tensors s2) 65568 = []"
    using t1(2) t2(2) by (simp_all add: srcs_def T2)
  show thesis by (rule that [OF r run _ src]) (simp add: T2)
qed

theorem ggml_programs_keep_context_witness:
  "\<exists>s1 s2. ggml_new_tensor sample_start GGML_TYPE_F32 2 [8, 3] = Some (65568, s1)
    \<and> ggml_sqr_impl s1 65568 False = Some (66032, s2) \<and> ctx_inv s2"
proof -
  obtain s1 s2 where r: "ggml_new_tensor sample_start GGML_TYPE_F32 2 [8, 3] = Some (65568, s1)"
    "ggml_sqr_impl s1 65568 False = Some (66032, s2)" "api_step\<^sup>*\<^sup>* sample_start s2" by (rule sample_api_run)
  have "ctx_inv s2"
    using ggml_programs_keep_context [OF sample_init _ _ _ r(3)]
    by (simp add: heap_ok_def ranked_def in_pool_def) (simp add: sample_ctx_def sample_state_def)
  then show ?thesis using r by blast
qed

theorem ggml_programs_build_ordered_graphs_witness:
  "\<exists>s1 s2 g' T'. ggml_new_tensor sample_start GGML_TYPE_F32 2 [8, 3] = Some (65568, s1)
    \<and> ggml_sqr_impl s1 65568 False = Some (66032, s2)
    \<and> ggml_build_forward_expand sample_graph s2 66032 = Some (g', s2\<lparr>st_tensors := T'\<rparr>)
    \<and> set (cg_nodes g' @ cg_leafs g') = {66032, 65568}"
proof -
  obtain s1 s2 where r: "ggml_new_tensor sample_start GGML_TYPE_F32 2 [8, 3] = Some (65568, s1)"
      "ggml_sqr_impl s1 65568 False = Some (66032, s2)" "api_step\<^sup>*\<^sup>* sample_start s2"
    and T: "st_tensors s2 = [65568 \<mapsto> the (st_tensors s2 65568), 66032 \<mapsto> the (st_tensors s2 66032)]"
    and src: "srcs (st_tensors s2) 66032 = [65568]" "srcs (st_tensors s2) 65568 = []" by (rule sample_api_run)
  have "reach (st_tensors s2) 65568 = {65568}" by (subst reach_unfold) (simp add: src)
  then have re: "reach (st_tensors s2) 66032 = {66032, 65568}" by (subst reach_unfold) (simp add: src)
  have "flags_closed {} (st_tensors sample_start)"
    by (simp add: flags_closed_def computed_def sample_state_def)
  moreover have "66032 \<in> dom (st_tensors s2)" by (subst T) simp
  moreover have "hs_inv (cg_visited sample_graph)" "hs_set (cg_visited sample_graph) = {}" "cg_nodes sample_graph = []"
    "cg_leafs sample_graph = []" "length (cg_use_counts sample_graph) = hs_size (cg_visited sample_graph)"
    by (simp_all add: sample_graph_def sample_hs_inv, simp add: sample_hs_def)
  moreover have "card {p \<in> {66032, 65568}. P p} \<le> 2" for P :: "ptr \<Rightarrow> bool"
    by (rule order_trans [OF card_mono [of "{66032, 65568}"]]) auto
  then have "has_room (st_tensors s2) (reach (st_tensors s2) 66032) sample_graph"
    unfolding re has_room_def by (simp add: sample_graph_def sample_hs_def)
  ultimately show ?thesis
    using ggml_programs_build_ordered_graphs [OF sample_ctx_inv _ r(3), of 66032 sample_graph] r(1,2) re by metis
qed

end
