(* ===== verification/GGML_Views.thy ===== *)
theory GGML_Views
  imports GGML_OpsComp GGML_Pool
begin

text \<open>
  What the builders that reshape, slice and permute promise about the bytes their results name, and
  where the checks of \<^verbatim>\<open>ggml.c\<close> stop short: a permutation keeps the address of every element as long
  as extents and strides fit in an \<^verbatim>\<open>int\<close>, a transposition undoes itself, a reshaped tensor names the
  same elements in the same order, a one-dimensional view stays inside its base. The bounds check
  on views does not see the strides and can wrap around, and \<^verbatim>\<open>ggml_acc\<close> narrows its offsets.
\<close>

section \<open>The descriptor of a view\<close>

definition view_base :: "ptr \<Rightarrow> ggml_tensor \<Rightarrow> ptr" where
  "view_base a ta = (if t_view_src ta = 0 then a else t_view_src ta)"

definition view_offset :: "ggml_tensor \<Rightarrow> size_t \<Rightarrow> size_t" where
  "view_offset ta offs = (if t_view_src ta = 0 then offs else sz_add offs (t_view_offs ta))"

definition view_data :: "ggml_tensor \<Rightarrow> size_t \<Rightarrow> ptr" where
  "view_data v offs = (if t_data v \<noteq> 0 then sz_add (t_data v) offs else 0)"

lemma new_view_full:
  assumes "ctx_inv s" "ggml_new_tensor_impl s ty nd ne a offs = Some (r, s')" "nat nd \<le> length ne" "deref s a = Some ta"
  obtains v where "deref s (view_base a ta) = Some v"
    and "request_bytes ty (take (nat nd) ne) = 0
      \<or> sz_add (request_bytes ty (take (nat nd) ne)) (view_offset ta offs) \<le> ggml_nbytes v"
    and "grows s r (new_tensor_desc ty (pad_dims (take (nat nd) ne)) (view_base a ta) (view_offset ta offs)
           (view_data v (view_offset ta offs))) s'"
proof -
  obtain xs e where c: "ctx_objs s xs e" using assms(1) by (auto simp: ctx_inv_def)
  obtain vs vo d where vb: "new_tensor_view_base s a offs = Some (vs, vo)"
    and vd: "new_tensor_view_data s (request_bytes ty (take (nat nd) ne)) vs vo = Some d"
    and g: "grows s r (new_tensor_desc ty (pad_dims (take (nat nd) ne)) vs vo
                (if alloc_bytes s ty (take (nat nd) ne) vs > 0 then r + GGML_TENSOR_SIZE else d)) s'"
    by (rule new_tensor_impl_eq [OF c assms(2,3)])
  have a0: "a \<noteq> 0" using deref_nonzero [OF assms(1,4)] .
  then have v: "vs = view_base a ta" "vo = view_offset ta offs" "vs \<noteq> 0"
    using vb assms(4) by (auto simp: new_tensor_view_base_def view_base_def view_offset_def split: if_splits)
  obtain w where "deref s vs = Some w" "request_bytes ty (take (nat nd) ne) = 0
      \<or> sz_add (request_bytes ty (take (nat nd) ne)) vo \<le> ggml_nbytes w" "d = view_data w vo"
    using vd v(3) by (auto simp: new_tensor_view_data_def view_data_def bind_eq_Some_conv split: if_splits)
  then show thesis using that g v by (simp add: alloc_bytes_def)
qed

lemma deref_upd: "deref (upd s p f) p = map_option f (deref s p)"
  by (cases "st_tensors s p") (simp_all add: deref_def upd_def)

lemma grows_deref: "grows s r t s' \<Longrightarrow> deref s' r = Some t"
  by (simp add: grows_def deref_def)

lemma grows_keeps: "grows s r t s' \<Longrightarrow> deref s p = Some u \<Longrightarrow> deref s' p = Some u"
  by (auto simp: grows_def deref_def)

lemmas view_upds = set_op_def set_params_def set_nb_def set_ne_def ggml_format_name_def deref_upd

text \<open>\<^verbatim>\<open>ggml_view_tensor\<close>: the same extents and strides over the same bytes.\<close>

lemma view_tensor_full:
  assumes "ctx_inv s" "ggml_view_tensor s a = Some (r, s')" "deref s a = Some ta"
  obtains v t where "deref s (view_base a ta) = Some v" "deref s' r = Some t" "extends s s'"
    "t_type t = t_type ta" "t_ne t = t_ne ta" "t_nb t = t_nb ta" "t_view_src t = view_base a ta"
    "t_view_offs t = view_offset ta 0" "t_data t = view_data v (view_offset ta 0)"
    "t_op_params t = replicate 16 0"
proof -
  obtain s1 where n: "ggml_new_tensor_impl s (t_type ta) (int GGML_MAX_DIMS) (t_ne ta) a 0 = Some (r, s1)"
    and s': "s' = upd (ggml_format_name s1 r (t_name ta @ '' (view)'')) r (\<lambda>t. t\<lparr>t_nb := t_nb ta\<rparr>)"
    using assms(2,3) by (auto simp: ggml_view_tensor_def run_simps)
  have l: "length (t_ne ta) = 4" using deref_len [OF assms(3,1)] .
  then have "nat (int GGML_MAX_DIMS) \<le> length (t_ne ta)" by simp
  then obtain v where v: "deref s (view_base a ta) = Some v"
    and g: "grows s r (new_tensor_desc (t_type ta) (t_ne ta) (view_base a ta) (view_offset ta 0)
      (view_data v (view_offset ta 0))) s1"
    using new_view_full [OF assms(1) n _ assms(3)] l by auto
  have "extends s s'" using view_tensor_grows [OF assms(1,2)] by (auto simp: grows_def)
  then show thesis
    using that [OF v _ \<open>extends s s'\<close>] grows_deref [OF g] by (simp add: s' view_upds)
qed

section \<open>Examples\<close>

lemmas run_eval = deref_def ggml_new_tensor_def ggml_new_tensor_impl_def new_tensor_view_base_def new_tensor_view_data_def
  request_bytes_def ggml_row_size_def ggml_type_size_def ggml_blck_size_def ggml_view_tensor_def upd_def
  ggml_format_name_def ggml_nbytes_def pool_eval new_tensor_nb_def sdiv_pos sz_of_int_def i64_def sz_add_def sz_mul_def

lemma sample_matrix_inv:
  assumes "ggml_new_tensor sample_start ty nd ne = Some (r, s1)" "nat nd \<le> length ne"
  shows "ctx_inv s1"
  by (rule op_node_inv [OF new_tensor_node [OF assms(1) sample_ctx_inv assms(2)]])

text \<open>An 8 x 3 matrix of floats.\<close>

lemma sample_matrix:
  assumes "ggml_new_tensor sample_start GGML_TYPE_F32 2 [8, 3] = Some (65568, s1)"
  shows "ctx_inv s1" "deref s1 65568 = Some (new_tensor_desc GGML_TYPE_F32 [8, 3, 1, 1] 0 0 65904)"
    "new_tensor_nb GGML_TYPE_F32 [8, 3, 1, 1] = [4, 32, 96, 96]"
proof -
  show "ctx_inv s1" by (rule sample_matrix_inv [OF assms]) simp
  show "deref s1 65568 = Some (new_tensor_desc GGML_TYPE_F32 [8, 3, 1, 1] 0 0 65904)"
    using assms by (simp add: run_eval) auto
  show "new_tensor_nb GGML_TYPE_F32 [8, 3, 1, 1] = [4, 32, 96, 96]"
    by (simp add: run_eval)
qed

lemma sample_views_2d:
  "\<exists>s1 s2 u t. ggml_new_tensor sample_start GGML_TYPE_F32 2 [8, 3] = Some (65568, s1)
     \<and> ggml_view_2d s1 65568 8 3 4096 0 = Some (66032, s2)
     \<and> deref s1 65568 = Some u \<and> deref s2 66032 = Some t \<and> ggml_nbytes u = 96 \<and> t_data t = t_data u \<and> ggml_nbytes t = 8224"
  by (simp add: run_eval ggml_view_2d_def ggml_view_impl_def set_params_def set_op_def set_nb_def
      ggml_set_op_params_def)

lemma sample_views_1d:
  "\<exists>s1 s2 u t. ggml_new_tensor sample_start GGML_TYPE_F32 2 [8, 3] = Some (65568, s1)
     \<and> ggml_view_1d s1 65568 8 (2 ^ 64 - 32) = Some (66032, s2)
     \<and> deref s1 65568 = Some u \<and> deref s2 66032 = Some t
     \<and> t_data u = 65568 + GGML_TENSOR_SIZE \<and> t_data t = t_data u - 32"
  by (simp add: run_eval ggml_view_1d_def ggml_view_impl_def set_params_def set_op_def
      ggml_set_op_params_def wrap64_def)

section \<open>Permutations\<close>

lemma axis_cases: "0 \<le> x \<Longrightarrow> x < int GGML_MAX_DIMS \<Longrightarrow> x = 0 \<or> x = 1 \<or> x = 2 \<or> x = (3::int)"
  by simp linarith

lemma permute_full:
  assumes "ctx_inv s" "deref s a = Some ta" "ggml_permute s a axis0 axis1 axis2 axis3 = Some (r, s')"
  obtains v t where "deref s (view_base a ta) = Some v" "deref s' r = Some t"
    "t_type t = t_type ta" "t_ne t = scatter4 [axis0, axis1, axis2, axis3] (map i32 (t_ne ta))"
    "t_nb t = map sz_of_int (scatter4 [axis0, axis1, axis2, axis3] (map (\<lambda>n. i32 (int n)) (t_nb ta)))"
    "t_view_src t = view_base a ta" "t_view_offs t = view_offset ta 0" "t_data t = view_data v (view_offset ta 0)"
    "{axis0, axis1, axis2, axis3} \<subseteq> {0, 1, 2, 3}" "distinct [axis0, axis1, axis2, axis3]"
proof -
  let ?axes = "[axis0, axis1, axis2, axis3]"
  have ok: "0 \<le> axis0 \<and> axis0 < int GGML_MAX_DIMS" "0 \<le> axis1 \<and> axis1 < int GGML_MAX_DIMS"
      "0 \<le> axis2 \<and> axis2 < int GGML_MAX_DIMS" "0 \<le> axis3 \<and> axis3 < int GGML_MAX_DIMS"
    and ne: "distinct ?axes"
    and s1: "\<exists>s1. ggml_view_tensor s a = Some (r, s1) \<and>
      s' = set_params (set_op (set_nb (set_ne (ggml_format_name s1 r (t_name ta @ '' (permuted)'')) r
        (scatter4 ?axes (map i32 (t_ne ta)))) r (map sz_of_int (scatter4 ?axes (map (\<lambda>n. i32 (int n)) (t_nb ta))))) r
        GGML_OP_PERMUTE [a]) r (map word_of_int ?axes)"
    using assms(3) unfolding ggml_permute_def Let_def assms(2)
    by (simp_all only: run_simps ggml_assert_simps split_paired_Ex prod.case option.inject prod.inject distinct.simps list.set
        simp_thms insert_iff empty_iff de_Morgan_disj) blast
  obtain s1 where v: "ggml_view_tensor s a = Some (r, s1)"
    and s': "s' = set_params (set_op (set_nb (set_ne (ggml_format_name s1 r (t_name ta @ '' (permuted)'')) r
        (scatter4 ?axes (map i32 (t_ne ta)))) r (map sz_of_int (scatter4 ?axes (map (\<lambda>n. i32 (int n)) (t_nb ta))))) r
        GGML_OP_PERMUTE [a]) r (map word_of_int ?axes)" using s1 by blast
  have ax: "{axis0, axis1, axis2, axis3} \<subseteq> {0, 1, 2, 3}"
    using ok [THEN conjunct1, THEN axis_cases] ok [THEN conjunct2] by blast
  obtain w t where w: "deref s (view_base a ta) = Some w" "deref s1 r = Some t" "t_type t = t_type ta"
    "t_view_src t = view_base a ta" "t_view_offs t = view_offset ta 0" "t_data t = view_data w (view_offset ta 0)"
    by (rule view_tensor_full [OF assms(1) v assms(2)])
  have "\<exists>u. deref s' r = Some u \<and> t_type u = t_type ta \<and> t_ne u = scatter4 ?axes (map i32 (t_ne ta))
    \<and> t_nb u = map sz_of_int (scatter4 ?axes (map (\<lambda>n. i32 (int n)) (t_nb ta)))
    \<and> t_view_src u = view_base a ta \<and> t_view_offs u = view_offset ta 0 \<and> t_data u = view_data w (view_offset ta 0)"
    by (simp add: s' view_upds w ggml_set_op_params_def)
  then show thesis using that w(1) ax ne by blast
qed

lemma list_4: "length xs = 4 \<Longrightarrow> \<exists>a b c d. xs = [a, b, c, d]"
  by (auto simp: numeral_eq_Suc length_Suc_conv)

lemma update4_nth:
  assumes "length xs = 4" "a < 4" "b < 4" "c < 4" "d < 4" "distinct [a, b, c, d]"
  shows "xs[a := w, b := x, c := y, d := z] ! a = w" "xs[a := w, b := x, c := y, d := z] ! b = x"
    "xs[a := w, b := x, c := y, d := z] ! c = y" "xs[a := w, b := x, c := y, d := z] ! d = z"
  using assms by (simp_all add: nth_list_update)

lemma scatter4_nth:
  assumes "{axis0, axis1, axis2, axis3} \<subseteq> {0, 1, 2, 3}" "distinct [axis0, axis1, axis2, axis3]" "length vs = 4"
  shows "scatter4 [axis0, axis1, axis2, axis3] vs ! nat axis0 = vs ! 0"
    "scatter4 [axis0, axis1, axis2, axis3] vs ! nat axis1 = vs ! 1"
    "scatter4 [axis0, axis1, axis2, axis3] vs ! nat axis2 = vs ! 2"
    "scatter4 [axis0, axis1, axis2, axis3] vs ! nat axis3 = vs ! 3"
proof -
  let ?axes = "[axis0, axis1, axis2, axis3]"
  have m: "nat x < 4" "0 \<le> x" if "x \<in> {0, 1, 2, 3::int}" for x using that by auto
  have n: "nat axis0 < 4" "nat axis1 < 4" "nat axis2 < 4" "nat axis3 < 4" using assms(1) m(1) by blast+
  have "0 \<le> axis0" "0 \<le> axis1" "0 \<le> axis2" "0 \<le> axis3" using assms(1) m(2) by blast+
  then have d: "distinct [nat axis0, nat axis1, nat axis2, nat axis3]" using assms(2) by (simp only: distinct.simps list.set insert_iff empty_iff eq_nat_nat_iff de_Morgan_disj simp_thms)
  have e: "scatter4 ?axes vs = (replicate 4 0)[nat axis0 := vs ! 0, nat axis1 := vs ! 1, nat axis2 := vs ! 2, nat axis3 := vs ! 3]"
    by (simp add: scatter4_def)
  show "scatter4 ?axes vs ! nat axis0 = vs ! 0" "scatter4 ?axes vs ! nat axis1 = vs ! 1"
    "scatter4 ?axes vs ! nat axis2 = vs ! 2" "scatter4 ?axes vs ! nat axis3 = vs ! 3"
    unfolding e by (rule update4_nth [OF _ n d], simp)+
qed

lemma deref_nb_len: "deref s a = Some ta \<Longrightarrow> ctx_inv s \<Longrightarrow> length (t_nb ta) = 4"
  using deref_wf by (simp add: tensor_wf_def)

lemma i32_id: "0 \<le> x \<Longrightarrow> x < 2 ^ 31 \<Longrightarrow> i32 x = x"
  by (simp add: i32_def)

lemma axes_nat:
  assumes "{axis0, axis1, axis2, axis3} \<subseteq> {0, 1, 2, 3::int}" "distinct [axis0, axis1, axis2, axis3]"
  shows "distinct [nat axis0, nat axis1, nat axis2, nat axis3]" "{nat axis0, nat axis1, nat axis2, nat axis3} = {..<4}"
proof -
  have m: "nat x < 4" "0 \<le> x" if "x \<in> {0, 1, 2, 3::int}" for x using that by auto
  have "0 \<le> axis0" "0 \<le> axis1" "0 \<le> axis2" "0 \<le> axis3" using assms(1) m(2) by blast+
  then show d: "distinct [nat axis0, nat axis1, nat axis2, nat axis3]"
    using assms(2) by (simp only: distinct.simps list.set insert_iff empty_iff eq_nat_nat_iff de_Morgan_disj simp_thms)
  have "{nat axis0, nat axis1, nat axis2, nat axis3} \<subseteq> {..<4}" using assms(1) m(1) by blast
  moreover have "card {nat axis0, nat axis1, nat axis2, nat axis3} = card {..<4::nat}"
    using distinct_card [OF d] by simp
  ultimately show "{nat axis0, nat axis1, nat axis2, nat axis3} = {..<4}" by (intro card_subset_eq) simp_all
qed

lemma elem_offset_sum: "elem_offset t (i 0) (i 1) (i 2) (i 3) = (\<Sum>k<4. i k * t_nb t ! k)"
  by (simp add: elem_offset_def numeral_eq_Suc)

lemma permuted_offset:
  assumes "distinct [n0, n1, n2, n3]" "{n0, n1, n2, n3} = {..<4}"
    and "t_nb t ! n0 = t_nb ta ! 0" "t_nb t ! n1 = t_nb ta ! 1" "t_nb t ! n2 = t_nb ta ! 2" "t_nb t ! n3 = t_nb ta ! 3"
  shows "elem_offset t (i 0) (i 1) (i 2) (i 3) = elem_offset ta (i n0) (i n1) (i n2) (i n3)"
proof -
  have "elem_offset t (i 0) (i 1) (i 2) (i 3) = (\<Sum>k \<in> {n0, n1, n2, n3}. i k * t_nb t ! k)"
    unfolding assms(2) by (rule elem_offset_sum)
  also have "\<dots> = i n0 * t_nb t ! n0 + i n1 * t_nb t ! n1 + i n2 * t_nb t ! n2 + i n3 * t_nb t ! n3"
    using assms(1) by (simp add: add.assoc)
  finally show ?thesis by (simp add: assms(3-6) elem_offset_def)
qed

text \<open>
  C16: A permutation within the range of \<^verbatim>\<open>int\<close>. When extents and strides of the source are below
  2^31, axis \<open>k\<close> of the source becomes axis \<open>axisk\<close> of the result with its extent and stride, and
  the element at an index of the result lies at the address of the element of the source at the
  permuted index. The result views the same base at the same offset.
\<close>

theorem ggml_permute_correct:
  assumes "ctx_inv s" "deref s a = Some ta" "ggml_permute s a axis0 axis1 axis2 axis3 = Some (r, s')"
    and "set (t_ne ta) \<subseteq> {0..<2 ^ 31}" "set (t_nb ta) \<subseteq> {0..<2 ^ 31}"
  shows "\<exists>v t. deref s' r = Some t \<and> deref s (view_base a ta) = Some v \<and> t_type t = t_type ta
    \<and> [t_ne t ! nat axis0, t_ne t ! nat axis1, t_ne t ! nat axis2, t_ne t ! nat axis3] = t_ne ta
    \<and> [t_nb t ! nat axis0, t_nb t ! nat axis1, t_nb t ! nat axis2, t_nb t ! nat axis3] = t_nb ta
    \<and> {nat axis0, nat axis1, nat axis2, nat axis3} = {..<4}
    \<and> (\<forall>i. elem_offset t (i 0) (i 1) (i 2) (i 3) = elem_offset ta (i (nat axis0)) (i (nat axis1)) (i (nat axis2)) (i (nat axis3)))
    \<and> t_view_src t = view_base a ta \<and> t_data t = view_data v (view_offset ta 0)"
proof -
  obtain v t where t: "deref s (view_base a ta) = Some v" "deref s' r = Some t"
      "t_type t = t_type ta" "t_ne t = scatter4 [axis0, axis1, axis2, axis3] (map i32 (t_ne ta))"
      "t_nb t = map sz_of_int (scatter4 [axis0, axis1, axis2, axis3] (map (\<lambda>n. i32 (int n)) (t_nb ta)))"
      "t_view_src t = view_base a ta" "t_view_offs t = view_offset ta 0" "t_data t = view_data v (view_offset ta 0)"
    and ax: "{axis0, axis1, axis2, axis3} \<subseteq> {0, 1, 2, 3}" "distinct [axis0, axis1, axis2, axis3]"
    by (rule permute_full [OF assms(1-3)])
  note n = axes_nat [OF ax]
  obtain e0 e1 e2 e3 b0 b1 b2 b3 where l: "t_ne ta = [e0, e1, e2, e3]" "t_nb ta = [b0, b1, b2, b3]"
    using list_4 [OF deref_len [OF assms(2,1)]] list_4 [OF deref_nb_len [OF assms(2,1)]] by blast
  have lt: "nat axis0 < 4" "nat axis1 < 4" "nat axis2 < 4" "nat axis3 < 4" using n(2) by blast+
  have ne: "[t_ne t ! nat axis0, t_ne t ! nat axis1, t_ne t ! nat axis2, t_ne t ! nat axis3] = t_ne ta"
    using assms(4) by (simp add: t(4) l scatter4_nth [OF ax] i32_id)
  have nb: "[t_nb t ! nat axis0, t_nb t ! nat axis1, t_nb t ! nat axis2, t_nb t ! nat axis3] = t_nb ta"
    using assms(5) lt by (simp add: t(5) l scatter4_nth [OF ax] i32_id sz_of_int_id)
  then have "elem_offset t (i 0) (i 1) (i 2) (i 3) = elem_offset ta (i (nat axis0)) (i (nat axis1)) (i (nat axis2)) (i (nat axis3))" for i
    using l(2) by (intro permuted_offset [OF n]) auto
  then show ?thesis using t ne nb n(2) by blast
qed

theorem ggml_permute_correct_witness:
  "\<exists>s1 s2 r t. ggml_new_tensor sample_start GGML_TYPE_F32 2 [8, 3] = Some (65568, s1)
     \<and> ggml_permute s1 65568 1 0 2 3 = Some (r, s2) \<and> deref s2 r = Some t \<and> t_ne t ! 1 = 8 \<and> t_nb t ! 0 = 32"
proof -
  obtain s1 s2 r where n: "ggml_new_tensor sample_start GGML_TYPE_F32 2 [8, 3] = Some (65568, s1)"
    and p: "ggml_permute s1 65568 1 0 2 3 = Some (r, s2)"
    by (simp add: run_eval ggml_permute_def)
  note m = sample_matrix [OF n]
  show ?thesis using ggml_permute_correct [OF m(1,2) p] n p by (auto simp: m(3))
qed

text \<open>
  C36: A permutation beyond the range of \<^verbatim>\<open>int\<close>. A stride of the source of 2^31 or more (below
  2^63) is not the stride of the result: \<^verbatim>\<open>ggml_permute\<close> keeps the strides in local variables of type
  \<^verbatim>\<open>int\<close>, which drop the high bits, and no check rejects the tensor.
\<close>

theorem ggml_permute_truncates_strides:
  assumes "ctx_inv s" "deref s a = Some ta" "ggml_permute s a axis0 axis1 axis2 axis3 = Some (r, s')"
    and "k < GGML_MAX_DIMS" "t_nb ta ! k \<in> {2 ^ 31..<2 ^ 63}"
  shows "\<exists>t. deref s' r = Some t \<and> t_nb t ! nat ([axis0, axis1, axis2, axis3] ! k) = sz_of_int (i32 (int (t_nb ta ! k)))
    \<and> t_nb t ! nat ([axis0, axis1, axis2, axis3] ! k) \<noteq> t_nb ta ! k"
proof -
  obtain v t where t: "deref s' r = Some t"
      "t_nb t = map sz_of_int (scatter4 [axis0, axis1, axis2, axis3] (map (\<lambda>n. i32 (int n)) (t_nb ta)))"
    and ax: "{axis0, axis1, axis2, axis3} \<subseteq> {0, 1, 2, 3}" "distinct [axis0, axis1, axis2, axis3]"
    by (rule permute_full [OF assms(1-3)])
  let ?axis = "[axis0, axis1, axis2, axis3] ! k"
  have k: "k = 0 \<or> k = 1 \<or> k = 2 \<or> k = 3" using assms(4) by (auto simp: numeral_eq_Suc less_Suc_eq)
  have lt: "nat axis0 < 4" "nat axis1 < 4" "nat axis2 < 4" "nat axis3 < 4" using axes_nat(2) [OF ax] by blast+
  have l: "length (t_nb ta) = 4" by (rule deref_nb_len [OF assms(2,1)])
  have e: "t_nb t ! nat ?axis = sz_of_int (i32 (int (t_nb ta ! k)))"
    using lt l k by (elim disjE) (simp_all add: t(2) scatter4_nth [OF ax])
  have "sz_of_int (i32 x) \<noteq> nat x" if "2 ^ 31 \<le> x" "x < 2 ^ 63" for x :: int
  proof -
    have b: "- (2 ^ 31) \<le> i32 x" "i32 x < 2 ^ 31" by (simp_all add: i32_def pos_mod_bound [THEN order_less_le_trans])
    show ?thesis
    proof (cases "0 \<le> i32 x")
      case True
      then show ?thesis using b that by (simp add: sz_of_int_id)
    next
      case False
      then have "(i32 x + 2 ^ 64) mod 2 ^ 64 = i32 x + 2 ^ 64" using b by (intro mod_pos_pos_trivial) simp_all
      then have "i32 x mod 2 ^ 64 = i32 x + 2 ^ 64" by simp
      then show ?thesis using b that by (simp add: sz_of_int_def)
    qed
  qed
  from this [of "int (t_nb ta ! k)"] show ?thesis using t(1) e assms(5) by auto
qed

text \<open>A tensor of 2^33 floats in a context that only describes tensors.\<close>

lemma sample_big:
  obtains s0 s1 r s2 where "ggml_init sample_memalign sample_state \<lparr>ip_mem_size = 4096, ip_mem_buffer = 0, ip_no_alloc = True\<rparr> = Some s0"
    "ggml_new_tensor s0 GGML_TYPE_F32 3 [65536, 65536, 2] = Some (65568, s1)" "ctx_inv s1"
    "deref s1 65568 = Some (new_tensor_desc GGML_TYPE_F32 [65536, 65536, 2, 1] 0 0 0)"
    "ggml_permute s1 65568 0 1 3 2 = Some (r, s2)"
proof -
  let ?s0 = "sample_state\<lparr>st_ctx := sample_ctx\<lparr>c_no_alloc := True\<rparr>\<rparr>"
  have i: "ggml_init sample_memalign sample_state \<lparr>ip_mem_size = 4096, ip_mem_buffer = 0, ip_no_alloc = True\<rparr> = Some ?s0"
    by (simp add: ggml_init_def sample_state_def sample_ctx_def ggml_aligned_malloc_def sample_memalign_def GGML_PAD_16_eval Let_def forget_pool_def)
  have inv: "ctx_inv ?s0"
    using ctx_inv_init(1) [OF i] by (simp add: heap_ok_def ranked_def in_pool_def) (simp add: sample_ctx_def sample_state_def)
  obtain s1 r s2 where r: "ggml_new_tensor ?s0 GGML_TYPE_F32 3 [65536, 65536, 2] = Some (65568, s1)"
    "deref s1 65568 = Some (new_tensor_desc GGML_TYPE_F32 [65536, 65536, 2, 1] 0 0 0)"
    "ggml_permute s1 65568 0 1 3 2 = Some (r, s2)"
    by (simp add: run_eval ggml_permute_def)
  have "ctx_inv s1" by (rule op_node_inv [OF new_tensor_node [OF r(1) inv]]) simp
  then show thesis using that i r by blast
qed

theorem ggml_permute_truncates_strides_witness:
  "\<exists>s0 s1 s2 r t. ggml_new_tensor s0 GGML_TYPE_F32 3 [65536, 65536, 2] = Some (65568, s1)
     \<and> ggml_permute s1 65568 0 1 3 2 = Some (r, s2) \<and> deref s2 r = Some t
     \<and> new_tensor_nb GGML_TYPE_F32 [65536, 65536, 2, 1] ! 2 = 2 ^ 34 \<and> t_nb t ! 3 = 0"
proof -
  obtain s0 s1 r s2 where b: "ggml_new_tensor s0 GGML_TYPE_F32 3 [65536, 65536, 2] = Some (65568, s1)" "ctx_inv s1"
    "deref s1 65568 = Some (new_tensor_desc GGML_TYPE_F32 [65536, 65536, 2, 1] 0 0 0)"
    "ggml_permute s1 65568 0 1 3 2 = Some (r, s2)" by (rule sample_big)
  have nb: "new_tensor_nb GGML_TYPE_F32 [65536, 65536, 2, 1] ! 2 = 2 ^ 34" by (simp add: run_eval)
  have "sz_of_int (i32 (2 ^ 34)) = 0" by (simp add: sz_of_int_def i32_def)
  then have "\<exists>t. deref s2 r = Some t \<and> t_nb t ! 3 = 0"
    using ggml_permute_truncates_strides [OF b(2,3,4), of 2] nb by auto
  then show ?thesis using b(1,4) nb by blast
qed

section \<open>Transposition\<close>

lemma transpose_full:
  assumes "ctx_inv s" "deref s a = Some ta" "ggml_transpose s a = Some (r, s')"
  obtains v t where "deref s (view_base a ta) = Some v" "deref s' r = Some t" "extends s s'"
    "t_type t = t_type ta" "t_ne t = [t_ne ta ! 1, t_ne ta ! 0, t_ne ta ! 2, t_ne ta ! 3]"
    "t_nb t = [t_nb ta ! 1, t_nb ta ! 0, t_nb ta ! 2, t_nb ta ! 3]"
    "t_view_src t = view_base a ta" "t_view_offs t = view_offset ta 0" "t_data t = view_data v (view_offset ta 0)"
proof -
  obtain s1 where v: "ggml_view_tensor s a = Some (r, s1)"
    and s': "s' = set_op (set_nb (set_ne (ggml_format_name s1 r (t_name ta @ '' (transposed)'')) r
        [t_ne ta ! 1, t_ne ta ! 0, t_ne ta ! 2, t_ne ta ! 3]) r
        [t_nb ta ! 1, t_nb ta ! 0, t_nb ta ! 2, t_nb ta ! 3]) r GGML_OP_TRANSPOSE [a]"
    using assms(2,3) by (auto simp: ggml_transpose_def run_simps)
  have "adds s r s'" using ggml_transpose_adds [OF assms(3,1)] deref_dom [OF assms(2)] by simp
  then have x: "extends s s'" by (simp add: adds_def)
  obtain w t where w: "deref s (view_base a ta) = Some w" "deref s1 r = Some t" "t_type t = t_type ta"
    "t_view_src t = view_base a ta" "t_view_offs t = view_offset ta 0" "t_data t = view_data w (view_offset ta 0)"
    by (rule view_tensor_full [OF assms(1) v assms(2)])
  have "\<exists>u. deref s' r = Some u \<and> t_type u = t_type ta \<and> t_ne u = [t_ne ta ! 1, t_ne ta ! 0, t_ne ta ! 2, t_ne ta ! 3]
    \<and> t_nb u = [t_nb ta ! 1, t_nb ta ! 0, t_nb ta ! 2, t_nb ta ! 3]
    \<and> t_view_src u = view_base a ta \<and> t_view_offs u = view_offset ta 0 \<and> t_data u = view_data w (view_offset ta 0)"
    by (simp add: s' view_upds w)
  then show thesis using that w(1) x by blast
qed

lemma view_base_nonzero: "ctx_inv s \<Longrightarrow> deref s a = Some ta \<Longrightarrow> view_base a ta \<noteq> 0"
  using deref_nonzero by (simp add: view_base_def)

lemma sz_add_twice: "sz_add 0 (sz_add 0 n) = sz_add 0 n"
  by (simp add: sz_add_def)

text \<open>
  Transposing twice gives the tensor back: the extents, the strides and the type of the
  source, over the same base, at the same address as the first transposition; a source that is
  not itself a view is named at its own address.
\<close>

lemma ggml_transpose_twice:
  assumes "ctx_inv s" "deref s a = Some ta" "ggml_transpose s a = Some (r, s1)" "ggml_transpose s1 r = Some (r2, s2)"
  shows "\<exists>t t2. deref s1 r = Some t \<and> deref s2 r2 = Some t2 \<and> t_type t2 = t_type ta \<and> t_ne t2 = t_ne ta
    \<and> t_nb t2 = t_nb ta \<and> t_view_src t2 = t_view_src t \<and> t_data t2 = t_data t
    \<and> elem_offset t j i1 i2 i3 = elem_offset ta i1 j i2 i3
    \<and> (t_view_src ta = 0 \<and> t_data ta \<le> SIZE_MAX \<longrightarrow> t_data t2 = t_data ta)"
proof -
  obtain v t where t: "deref s (view_base a ta) = Some v" "deref s1 r = Some t" "extends s s1"
    "t_type t = t_type ta" "t_ne t = [t_ne ta ! 1, t_ne ta ! 0, t_ne ta ! 2, t_ne ta ! 3]"
    "t_nb t = [t_nb ta ! 1, t_nb ta ! 0, t_nb ta ! 2, t_nb ta ! 3]"
    "t_view_src t = view_base a ta" "t_view_offs t = view_offset ta 0" "t_data t = view_data v (view_offset ta 0)"
    by (rule transpose_full [OF assms(1-3)])
  have i1: "ctx_inv s1" using extends_inv [OF t(3)] .
  obtain v2 t2 where t2: "deref s1 (view_base r t) = Some v2" "deref s2 r2 = Some t2"
    "t_type t2 = t_type t" "t_ne t2 = [t_ne t ! 1, t_ne t ! 0, t_ne t ! 2, t_ne t ! 3]"
    "t_nb t2 = [t_nb t ! 1, t_nb t ! 0, t_nb t ! 2, t_nb t ! 3]"
    "t_view_src t2 = view_base r t" "t_data t2 = view_data v2 (view_offset t 0)"
    by (rule transpose_full [OF i1 t(2) assms(4)])
  have b: "view_base r t = view_base a ta"
    using view_base_nonzero [OF assms(1,2)] t(7) by (simp add: view_base_def)
  then have v2: "v2 = v" using t2(1) extends_deref [OF t(3,1)] by simp
  have o2: "view_offset t 0 = sz_add 0 (view_offset ta 0)"
    using view_base_nonzero [OF assms(1,2)] t(7,8) by (simp add: view_offset_def)
  have o3: "sz_add 0 (view_offset ta 0) = view_offset ta 0"
    by (simp add: view_offset_def sz_add_twice) (simp add: sz_add_def)
  have same: "t_data t2 = t_data t" using t2(7) t(9) o2 o3 v2 by simp
  obtain e0 e1 e2 e3 b0 b1 b2 b3 where l: "t_ne ta = [e0, e1, e2, e3]" "t_nb ta = [b0, b1, b2, b3]"
    using list_4 [OF deref_len [OF assms(2,1)]] list_4 [OF deref_nb_len [OF assms(2,1)]] by blast
  have own: "t_view_src ta = 0 \<and> t_data ta \<le> SIZE_MAX \<longrightarrow> t_data t2 = t_data ta"
    using t(1,9) assms(2) same by (auto simp: view_base_def view_data_def view_offset_def sz_add_id)
  show ?thesis
    using t t2 same own b by (simp add: l elem_offset_def)
qed

section \<open>Reshaping\<close>

text \<open>The extents of a tensor multiply to its number of blocks times the block size.\<close>

lemma nelements_dims:
  assumes "dims_pos t" "t_ne t ! 0 * t_ne t ! 1 * t_ne t ! 2 * t_ne t ! 3 < 2 ^ 63"
  shows "ggml_nelements t = t_ne t ! 0 * t_ne t ! 1 * t_ne t ! 2 * t_ne t ! 3"
    "nat (t_ne t ! 0 * t_ne t ! 1 * t_ne t ! 2 * t_ne t ! 3)
       = blck_size (type_traits (t_type t)) * (dim t 0 * dim t 1 * dim t 2 * dim t 3)"
proof -
  note p = dims_posD [OF assms(1)]
  have a: "0 < x * y" "x * y < 2 ^ 63" "x < 2 ^ 63" if "x * y * z < 2 ^ 63" "0 < x" "0 < y" "0 < z" for x y z :: int
  proof -
    show "0 < x * y" using that by simp
    show "x * y < 2 ^ 63" using mult_less_imp_less [OF that(1,4)] that by simp
    then show "x < 2 ^ 63" using mult_less_imp_less [of x y] that by simp
  qed
  have "0 < t_ne t ! 0 * t_ne t ! 1" "0 < t_ne t ! 0 * t_ne t ! 1 * t_ne t ! 2" using p by simp_all
  then have "t_ne t ! 0 * t_ne t ! 1 * t_ne t ! 2 < 2 ^ 63" "t_ne t ! 0 * t_ne t ! 1 < 2 ^ 63"
    using a(2,3) [OF assms(2)] p by simp_all
  then show "ggml_nelements t = t_ne t ! 0 * t_ne t ! 1 * t_ne t ! 2 * t_ne t ! 3"
    using p assms(2) by (simp add: ggml_nelements_def i64_pos)
  show "nat (t_ne t ! 0 * t_ne t ! 1 * t_ne t ! 2 * t_ne t ! 3)
       = blck_size (type_traits (t_type t)) * (dim t 0 * dim t 1 * dim t 2 * dim t 3)"
    using p by (simp add: nat_mult_distrib dim_0(1) [OF assms(1)]) (simp add: dim_def)
qed

lemma factor_le:
  fixes a b c d n :: nat
  assumes "a * b * c * d * n \<le> k" "0 < b" "0 < c" "0 < d" shows "a * n \<le> k"
proof -
  have "1 \<le> b * c * d" using assms(2-4) by (simp add: Suc_le_eq)
  then have "a * n * 1 \<le> a * n * (b * c * d)" by (rule mult_le_mono2)
  also have "\<dots> = a * b * c * d * n" by (simp add: mult.commute mult.left_commute)
  finally show ?thesis using assms(1) by linarith
qed

text \<open>
  Two tensors of the same type with equally many elements, both contiguous by their strides, have
  the same size and hold the element of each linear index at the same offset.
\<close>

lemma reshape_layout:
  assumes "dims_pos ta" "ggml_is_contiguous ta"
    and "t_ne ta ! 0 * t_ne ta ! 1 * t_ne ta ! 2 * t_ne ta ! 3 * int (ggml_type_size (t_type ta)) < 2 ^ 63"
    and "dims_pos t" "t_type t = t_type ta" "t_nb t = new_tensor_nb (t_type t) (t_ne t)"
    and "t_ne t ! 0 * t_ne t ! 1 * t_ne t ! 2 * t_ne t ! 3 < 2 ^ 63" "ggml_nelements t = ggml_nelements ta"
  shows "ggml_is_contiguous t \<and> ggml_nbytes t = packed_size ta"
    "j < dim t 0 \<and> i1 < dim t 1 \<and> i2 < dim t 2 \<and> i3 < dim t 3 \<and> k < dim ta 0 \<and> l1 < dim ta 1 \<and> l2 < dim ta 2 \<and> l3 < dim ta 3
       \<and> linear_index t j i1 i2 i3 = linear_index ta k l1 l2 l3 \<Longrightarrow> elem_offset t j i1 i2 i3 = elem_offset ta k l1 l2 l3"
proof -
  let ?ts = "ggml_type_size (t_type ta)" and ?b = "blck_size (type_traits (t_type ta))"
  have ts: "0 < ?ts" "0 < ?b" using ggml_type_size_bounds(1) traits_pos by simp_all
  note pa = dims_posD [OF assms(1)]
  have la: "t_ne ta ! 0 * t_ne ta ! 1 * t_ne ta ! 2 * t_ne ta ! 3 < 2 ^ 63"
    using mult_less_imp_less [OF assms(3)] ts(1) pa by simp
  note ea = nelements_dims [OF assms(1) la] and et = nelements_dims [OF assms(4) assms(7)]
  have prod: "t_ne t ! 0 * t_ne t ! 1 * t_ne t ! 2 * t_ne t ! 3 = t_ne ta ! 0 * t_ne ta ! 1 * t_ne ta ! 2 * t_ne ta ! 3"
    using ea(1) et(1) assms(8) by simp
  then have "?b * (dim t 0 * dim t 1 * dim t 2 * dim t 3) = ?b * (dim ta 0 * dim ta 1 * dim ta 2 * dim ta 3)"
    using ea(2) et(2) assms(5) by metis
  then have dims: "dim t 0 * dim t 1 * dim t 2 * dim t 3 = dim ta 0 * dim ta 1 * dim ta 2 * dim ta 3" using ts(2) by simp
  then have ps: "packed_size t = packed_size ta" by (simp add: packed_size_def assms(5) mult.assoc)
  have tot: "?b * (dim ta 0 * dim ta 1 * dim ta 2 * dim ta 3) * ?ts \<le> SIZE_MAX"
  proof -
    have "nat (t_ne ta ! 0 * t_ne ta ! 1 * t_ne ta ! 2 * t_ne ta ! 3 * int ?ts) \<le> SIZE_MAX" using assms(3) by simp
    then show ?thesis unfolding ea(2) [symmetric] using pa by (simp add: nat_mult_distrib)
  qed
  have pl: "packed_size ta \<le> SIZE_MAX"
  proof -
    have "packed_size ta \<le> ?b * packed_size ta" using ts(2) by simp
    also have "\<dots> = ?b * (dim ta 0 * dim ta 1 * dim ta 2 * dim ta 3) * ?ts" by (simp add: packed_size_def)
    finally show ?thesis using tot by linarith
  qed
  have row: "nat (t_ne t ! 0) * ggml_type_size (t_type t) \<le> SIZE_MAX"
  proof -
    have "nat (t_ne t ! 0) * dim t 1 * dim t 2 * dim t 3 * ?ts \<le> SIZE_MAX"
      using tot unfolding dim_0(1) [OF assms(4)] dims [symmetric] assms(5) by (simp add: algebra_simps)
    then show ?thesis using factor_le dim_pos [OF assms(4)] assms(5) by metis
  qed
  note pk = packed_props [OF assms(4) _ assms(6) row, unfolded ps, OF pl]
  have off: "elem_offset t j i1 i2 i3 = elem_offset ta k l1 l2 l3"
    if "j < dim t 0 \<and> i1 < dim t 1 \<and> i2 < dim t 2 \<and> i3 < dim t 3 \<and> k < dim ta 0 \<and> l1 < dim ta 1 \<and> l2 < dim ta 2 \<and> l3 < dim ta 3
       \<and> linear_index t j i1 i2 i3 = linear_index ta k l1 l2 l3"
    using contiguous_offset [OF assms(4) _ pk(1), unfolded ps, OF pl] contiguous_offset [OF assms(1) pl assms(2)] that assms(5) by simp
  show "ggml_is_contiguous t \<and> ggml_nbytes t = packed_size ta" using pk by blast
  show "elem_offset t j i1 i2 i3 = elem_offset ta k l1 l2 l3"
    if "j < dim t 0 \<and> i1 < dim t 1 \<and> i2 < dim t 2 \<and> i3 < dim t 3 \<and> k < dim ta 0 \<and> l1 < dim ta 1 \<and> l2 < dim ta 2 \<and> l3 < dim ta 3
       \<and> linear_index t j i1 i2 i3 = linear_index ta k l1 l2 l3"
    using off [OF that] .
qed

text \<open>
  C17: A reshaped tensor names the same elements. For a source with positive extents whose size in
  bytes does not overflow, a successful \<^verbatim>\<open>ggml_reshape_4d\<close> to positive extents (rows of whole
  blocks, product below 2^63) returns a contiguous view of the same base at the same offset, of
  the same size in bytes, in which a block lies at the address of the block of the source with
  the same linear index.
\<close>

theorem ggml_reshape_4d_correct:
  assumes "ctx_inv s" "deref s a = Some ta" "ggml_reshape_4d s a ne0 ne1 ne2 ne3 = Some (r, s')" "dims_pos ta"
    and "t_ne ta ! 0 * t_ne ta ! 1 * t_ne ta ! 2 * t_ne ta ! 3 * int (ggml_type_size (t_type ta)) < 2 ^ 63"
    and "{ne0, ne1, ne2, ne3} \<subseteq> {1..<2 ^ 63}" "ggml_blck_size (t_type ta) dvd ne0" "ne0 * ne1 * ne2 * ne3 < 2 ^ 63"
  shows "\<exists>v t. deref s' r = Some t \<and> deref s (view_base a ta) = Some v \<and> t_type t = t_type ta \<and> t_ne t = [ne0, ne1, ne2, ne3]
    \<and> t_view_src t = view_base a ta \<and> t_data t = view_data v (view_offset ta 0)
    \<and> ggml_is_contiguous t \<and> ggml_nbytes t = packed_size ta
    \<and> (j < dim t 0 \<and> i1 < dim t 1 \<and> i2 < dim t 2 \<and> i3 < dim t 3 \<and> k < dim ta 0 \<and> l1 < dim ta 1 \<and> l2 < dim ta 2 \<and> l3 < dim ta 3
       \<and> linear_index t j i1 i2 i3 = linear_index ta k l1 l2 l3 \<longrightarrow> elem_offset t j i1 i2 i3 = elem_offset ta k l1 l2 l3)"
proof -
  obtain s1 where c: "ggml_is_contiguous ta" and n: "ggml_nelements ta = i64 (i64 (i64 (ne0 * ne1) * ne2) * ne3)"
    and w: "ggml_new_tensor_impl s (t_type ta) 4 [ne0, ne1, ne2, ne3] a 0 = Some (r, s1)"
    and s': "s' = set_op (ggml_format_name s1 r (t_name ta @ '' (reshaped)'')) r GGML_OP_RESHAPE [a]"
    using assms(2,3) by (auto simp: ggml_reshape_4d_def run_simps split: if_splits)
  obtain v where v: "deref s (view_base a ta) = Some v"
    and g: "grows s r (new_tensor_desc (t_type ta) [ne0, ne1, ne2, ne3] (view_base a ta) (view_offset ta 0)
              (view_data v (view_offset ta 0))) s1"
    using new_view_full [OF assms(1) w _ assms(2)] by auto
  have "\<exists>t. deref s' r = Some t \<and> t_type t = t_type ta \<and> t_ne t = [ne0, ne1, ne2, ne3] \<and> t_nb t = new_tensor_nb (t_type t) (t_ne t)
    \<and> t_view_src t = view_base a ta \<and> t_data t = view_data v (view_offset ta 0)"
    using grows_deref [OF g] by (simp add: s' view_upds)
  then obtain t where t: "deref s' r = Some t" "t_type t = t_type ta" "t_ne t = [ne0, ne1, ne2, ne3]"
    "t_nb t = new_tensor_nb (t_type t) (t_ne t)" "t_view_src t = view_base a ta" "t_data t = view_data v (view_offset ta 0)" by blast
  have dp: "dims_pos t" using assms(6,7) by (simp add: dims_pos_def all_less_4 t)
  have lt: "t_ne t ! 0 * t_ne t ! 1 * t_ne t ! 2 * t_ne t ! 3 < 2 ^ 63" using assms(8) by (simp add: t(3))
  have el: "ggml_nelements t = ggml_nelements ta" unfolding n by (simp add: ggml_nelements_def t(3))
  note r = reshape_layout [OF assms(4) c assms(5) dp t(2,4) lt el]
  show ?thesis using t v r by blast
qed

theorem ggml_reshape_4d_correct_witness:
  "\<exists>s1 r s2 t. ggml_new_tensor sample_start GGML_TYPE_F32 2 [8, 3] = Some (65568, s1)
     \<and> ggml_reshape_4d s1 65568 4 2 3 1 = Some (r, s2) \<and> deref s2 r = Some t
     \<and> t_ne t = [4, 2, 3, 1] \<and> ggml_is_contiguous t \<and> ggml_nbytes t = 96"
proof -
  obtain s1 s2 r where n: "ggml_new_tensor sample_start GGML_TYPE_F32 2 [8, 3] = Some (65568, s1)"
    and p: "ggml_reshape_4d s1 65568 4 2 3 1 = Some (r, s2)"
    by (simp add: run_eval ggml_reshape_4d_def ggml_nelements_def ggml_is_contiguous_def ggml_is_contiguous_0_def ggml_is_contiguous_n_def)
  note m = sample_matrix [OF n]
  let ?t = "new_tensor_desc GGML_TYPE_F32 [8, 3, 1, 1] 0 0 65904"
  have "dims_pos ?t" "packed_size ?t = 96"
    by (simp_all add: dims_pos_def all_less_4 packed_size_def dim_def ggml_blck_size_def ggml_type_size_def)
  then show ?thesis using ggml_reshape_4d_correct [OF m(1,2) p, of 0 0 0 0 0 0 0 0] n p by (auto simp: ggml_blck_size_def ggml_type_size_def)
qed

section \<open>Slices\<close>

lemma view_1d_full:
  assumes "ctx_inv s" "deref s a = Some ta" "ggml_view_1d s a ne0 offset = Some (r, s')"
  obtains v t where "deref s (view_base a ta) = Some v" "deref s' r = Some t"
    "request_bytes (t_type ta) [ne0] = 0 \<or> sz_add (request_bytes (t_type ta) [ne0]) (view_offset ta offset) \<le> ggml_nbytes v"
    "t_type t = t_type ta" "t_ne t = [ne0, 1, 1, 1]" "t_nb t = new_tensor_nb (t_type t) (t_ne t)"
    "t_view_src t = view_base a ta" "t_data t = view_data v (view_offset ta offset)"
    "t_op_params t = words_of_sz offset @ replicate 14 0"
proof -
  obtain s1 where w: "ggml_new_tensor_impl s (t_type ta) 1 [ne0] a offset = Some (r, s1)"
    and s': "s' = set_op (set_params (ggml_format_name s1 r (t_name ta @ '' (view)'')) r (words_of_sz offset)) r GGML_OP_VIEW [a]"
    using assms(2,3) by (auto simp: ggml_view_1d_def ggml_view_impl_def run_simps)
  obtain v where v: "deref s (view_base a ta) = Some v"
    and c: "request_bytes (t_type ta) [ne0] = 0 \<or> sz_add (request_bytes (t_type ta) [ne0]) (view_offset ta offset) \<le> ggml_nbytes v"
    and g: "grows s r (new_tensor_desc (t_type ta) [ne0, 1, 1, 1] (view_base a ta) (view_offset ta offset)
              (view_data v (view_offset ta offset))) s1"
    using new_view_full [OF assms(1) w _ assms(2)] by auto
  have "\<exists>t. deref s' r = Some t \<and> t_type t = t_type ta \<and> t_ne t = [ne0, 1, 1, 1] \<and> t_nb t = new_tensor_nb (t_type t) (t_ne t)
    \<and> t_view_src t = view_base a ta \<and> t_data t = view_data v (view_offset ta offset)
    \<and> t_op_params t = words_of_sz offset @ replicate 14 0"
    using grows_deref [OF g] by (simp add: s' view_upds ggml_set_op_params_def numeral_eq_Suc)
  then show thesis using that v c by blast
qed

lemma words_of_sz_roundtrip: "n \<le> SIZE_MAX \<Longrightarrow> unat (words_of_sz n ! 0) + 2 ^ 32 * unat (words_of_sz n ! 1) = n"
  by (simp add: words_of_sz_def unat_of_nat)

text \<open>
  C18: A one-dimensional view stays inside its base. For a positive number of elements that fills
  whole blocks, and when neither the size of the view nor the end of the view wraps around in
  64 bits, the bytes of the view are bytes of the base tensor, and the parameter words of the
  node hold the offset the caller gave, low word first.
\<close>

theorem ggml_view_1d_in_base:
  assumes "ctx_inv s" "deref s a = Some ta" "ggml_view_1d s a ne0 offset = Some (r, s')"
    and "ne0 \<in> {1..<2 ^ 63}" "ggml_blck_size (t_type ta) dvd ne0" "offset \<le> SIZE_MAX"
    and "nat ne0 * ggml_type_size (t_type ta) + view_offset ta offset \<le> SIZE_MAX"
    and "deref s (view_base a ta) = Some v" "t_data v \<noteq> 0" "t_data v + ggml_nbytes v \<le> SIZE_MAX"
  shows "\<exists>t. deref s' r = Some t \<and> t_ne t = [ne0, 1, 1, 1] \<and> ggml_is_contiguous t
    \<and> ggml_nbytes t = ggml_type_size (t_type ta) * (nat ne0 div nat (ggml_blck_size (t_type ta)))
    \<and> t_data t = t_data v + view_offset ta offset
    \<and> t_data t + ggml_nbytes t \<le> t_data v + ggml_nbytes v
    \<and> unat (t_op_params t ! 0) + 2 ^ 32 * unat (t_op_params t ! 1) = offset"
proof -
  obtain w t where "deref s (view_base a ta) = Some w" and t: "deref s' r = Some t"
    "t_type t = t_type ta" "t_ne t = [ne0, 1, 1, 1]" "t_nb t = new_tensor_nb (t_type t) (t_ne t)"
    "t_view_src t = view_base a ta" "t_data t = view_data w (view_offset ta offset)"
    "t_op_params t = words_of_sz offset @ replicate 14 0"
    and c: "request_bytes (t_type ta) [ne0] = 0 \<or> sz_add (request_bytes (t_type ta) [ne0]) (view_offset ta offset) \<le> ggml_nbytes w"
    by (rule view_1d_full [OF assms(1-3)])
  then have w: "w = v" using assms(8) by simp
  have dp: "dims_pos t" using assms(4,5) by (simp add: dims_pos_def all_less_4 t)
  let ?ts = "ggml_type_size (t_type ta)"
  have ps: "packed_size t = ?ts * (nat ne0 div blck_size (type_traits (t_type ta)))"
    by (simp add: packed_size_def dim_def t)
  also have "\<dots> \<le> nat ne0 * ?ts" by (simp add: mult.commute div_le_dividend)
  finally have le: "packed_size t \<le> nat ne0 * ?ts" .
  have ts: "0 < ?ts" using ggml_type_size_bounds(1) by simp
  have row: "nat (t_ne t ! 0) * ggml_type_size (t_type t) \<le> SIZE_MAX" using assms(7) by (simp add: t)
  note pk = packed_props [OF dp _ t(4) row]
  have "request_bytes (t_type t) (t_ne t) = packed_size t"
    by (rule request_bytes_packed [OF dp _ _ row]) (use le assms(7) in \<open>simp_all add: t\<close>)
  then have rb: "request_bytes (t_type ta) [ne0] = packed_size t"
    using request_bytes_pad [of "[ne0]" "t_type ta"] by (simp add: t)
  have "0 < packed_size t" using dim_pos [OF dp] ts by (simp add: packed_size_def t)
  then have fits: "packed_size t + view_offset ta offset \<le> ggml_nbytes v"
    using c le assms(7) by (simp add: rb w sz_add_id)
  then have "t_data t = t_data v + view_offset ta offset"
    using assms(9,10) by (simp add: t view_data_def w sz_add_id)
  moreover have "unat (t_op_params t ! 0) + 2 ^ 32 * unat (t_op_params t ! 1) = offset"
    using words_of_sz_roundtrip [OF assms(6)] by (simp add: t nth_append)
  ultimately show ?thesis
    using t pk fits le assms(7) ps by (simp add: ggml_blck_size_def)
qed

theorem ggml_view_1d_in_base_witness:
  "\<exists>s1 r s2 t. ggml_new_tensor sample_start GGML_TYPE_F32 2 [8, 3] = Some (65568, s1)
     \<and> ggml_view_1d s1 65568 10 16 = Some (r, s2) \<and> deref s2 r = Some t
     \<and> t_data t = 65920 \<and> ggml_nbytes t = 40 \<and> unat (t_op_params t ! 0) = 16"
proof -
  obtain s1 s2 r where n: "ggml_new_tensor sample_start GGML_TYPE_F32 2 [8, 3] = Some (65568, s1)"
    and p: "ggml_view_1d s1 65568 10 16 = Some (r, s2)"
    by (simp add: run_eval ggml_view_1d_def ggml_view_impl_def set_params_def set_op_def)
  note m = sample_matrix [OF n]
  let ?t = "new_tensor_desc GGML_TYPE_F32 [8, 3, 1, 1] 0 0 65904"
  have b: "view_base 65568 ?t = 65568" "view_offset ?t 16 = 16" by (simp_all add: view_base_def view_offset_def)
  have "ggml_nbytes ?t = 96" by (simp add: ggml_nbytes_def m(3) run_eval)
  then obtain t where t: "deref s2 r = Some t" "ggml_nbytes t = 40" "t_data t = 65920"
    "unat (t_op_params t ! 0) + 2 ^ 32 * unat (t_op_params t ! 1) = 16"
    using ggml_view_1d_in_base [OF m(1,2) p, of ?t] b m(2) by (auto simp: ggml_blck_size_def ggml_type_size_def)
  have "x = 16" if "x + 2 ^ 32 * y = 16" for x y :: nat using that by (cases y) simp_all
  then have "unat (t_op_params t ! 0) = 16" using t(4) by blast
  then show ?thesis using n p t by blast
qed

text \<open>
  C37: The bounds check on a two-dimensional view does not see its stride. Whether \<^verbatim>\<open>ggml_view_2d\<close>
  accepts its arguments does not depend on the stride of the rows, so a view that reaches past
  its base is accepted: three rows of eight floats 4096 bytes apart on a base of 96 bytes.
\<close>

theorem ggml_view_2d_ignores_stride:
  "(ggml_view_2d s a ne0 ne1 nb1 offset = None \<longleftrightarrow> ggml_view_2d s a ne0 ne1 nb1' offset = None)
   \<and> (\<exists>s1 s2 u t. ggml_new_tensor sample_start GGML_TYPE_F32 2 [8, 3] = Some (65568, s1)
        \<and> ggml_view_2d s1 65568 8 3 4096 0 = Some (66032, s2)
        \<and> deref s1 65568 = Some u \<and> deref s2 66032 = Some t \<and> ggml_nbytes u = 96 \<and> t_data t = t_data u \<and> ggml_nbytes t = 8224)"
proof -
  have "ggml_view_2d s a ne0 ne1 nb1 offset = None \<longleftrightarrow> ggml_view_2d s a ne0 ne1 nb1' offset = None"
    by (simp add: ggml_view_2d_def bind_eq_None_conv split_beta Let_def)
  then show ?thesis using sample_views_2d by blast
qed

text \<open>
  The bounds check on views adds the size and the offset in 64 bits, where the sum wraps
  around. With the offset 2^64 - 32 a view of eight floats is accepted and starts 32 bytes before
  the data of its base, inside the base's own descriptor.
\<close>

lemma ggml_view_1d_wraps_around:
  "\<exists>s1 s2 u t. ggml_new_tensor sample_start GGML_TYPE_F32 2 [8, 3] = Some (65568, s1)
     \<and> ggml_view_1d s1 65568 8 (2 ^ 64 - 32) = Some (66032, s2)
     \<and> deref s1 65568 = Some u \<and> deref s2 66032 = Some t
     \<and> t_data u = 65568 + GGML_TENSOR_SIZE \<and> t_data t = t_data u - 32"
  using sample_views_1d by blast

section \<open>Parameters of \<^verbatim>\<open>ggml_acc\<close>\<close>

text \<open>
  \<^verbatim>\<open>ggml_acc\<close> stores its offset in an \<^verbatim>\<open>int32_t\<close>: a call whose offset is larger by 2^32 bytes
  builds the very same node, and so does one whose row stride is (\<^verbatim>\<open>ggml_set\<close> at least refuses
  offsets of 2^30 or more).
\<close>

theorem ggml_acc_drops_high_bits:
  "ggml_acc s a b nb1 nb2 nb3 (offset + 2 ^ 32) = ggml_acc s a b nb1 nb2 nb3 offset
   \<and> ggml_acc s a b (nb1 + 2 ^ 32) nb2 nb3 offset = ggml_acc s a b nb1 nb2 nb3 offset"
proof -
  have "word_of_nat (n + 2 ^ 32) = (word_of_nat n :: 32 word)" for n :: nat
    by (simp add: word_eq_iff_unsigned unsigned_of_nat take_bit_eq_mod)
  then show ?thesis by (simp only: ggml_acc_def ggml_acc_impl_def)
qed

end
