(* ===== verification/GGML_Conv.thy ===== *)
theory GGML_Conv
  imports GGML_Views
begin

text \<open>
  The shapes of convolutions and window partitions: \<^verbatim>\<open>ggml_calc_conv_output_size\<close> counts the positions
  of the kernel, \<^verbatim>\<open>ggml_conv_1d\<close> (the convolution of the whisper encoder) composes five operations
  into a result of the expected shape, and \<^verbatim>\<open>ggml_win_part\<close> rounds the number of windows up.
\<close>

section \<open>Convolutions\<close>

text \<open>The positions of a kernel that covers \<open>e + 1\<close> inputs, moved by \<open>st\<close> over \<open>n\<close> inputs.\<close>

definition kernel_positions :: "int \<Rightarrow> int \<Rightarrow> int \<Rightarrow> nat set" where
  "kernel_positions n e st = {i. int i * st + e < n}"

lemma le_int_div_iff:
  fixes i x st :: int
  assumes "0 < st" shows "i \<le> x div st \<longleftrightarrow> i * st \<le> x"
proof
  assume "i \<le> x div st"
  then have "i * st \<le> x div st * st" using assms by (intro mult_right_mono) simp_all
  then show "i * st \<le> x" using div_mult_mod_eq [of x st] pos_mod_sign [OF assms, of x] by linarith
next
  assume "i * st \<le> x"
  then have "i * st div st \<le> x div st" using assms by (intro zdiv_mono1)
  then show "i \<le> x div st" using assms by simp
qed

lemma int_div_le:
  fixes x st :: int
  assumes "0 < st" "0 \<le> x" shows "x div st \<le> x"
proof -
  have "x div st * 1 \<le> x div st * st" using assms by (intro mult_left_mono) (simp_all add: pos_imp_zdiv_nonneg_iff)
  also have "\<dots> \<le> x" using le_int_div_iff [OF assms(1)] by blast
  finally show ?thesis by simp
qed

lemma kernel_positions_card:
  assumes "0 < st" "e < n"
  shows "int (card (kernel_positions n e st)) = (n - e - 1) div st + 1"
proof -
  define q where "q = (n - e - 1) div st"
  have q: "0 \<le> q" using assms by (simp add: q_def pos_imp_zdiv_nonneg_iff)
  have "int i * st + e < n \<longleftrightarrow> int i \<le> q" for i unfolding q_def
    using le_int_div_iff [OF assms(1), of "int i" "n - e - 1"] by linarith
  then have "kernel_positions n e st = {..nat q}" by (simp only: kernel_positions_def atMost_def le_nat_iff [OF q])
  then show ?thesis using q by (simp flip: q_def)
qed

text \<open>
  C24: The output size of a convolution. While nothing overflows, \<^verbatim>\<open>ggml_calc_conv_output_size\<close>
  returns the number of positions at which the dilated kernel lies inside the padded input,
  whenever it fits at all. A kernel that is too long by less than the stride has no position, but
  the division truncates towards zero and the result is 1.
\<close>

theorem ggml_calc_conv_output_size_counts:
  assumes "0 < st" "st < 2 ^ 31" "0 \<le> p" "p < 2 ^ 30" "0 < d" "0 < ks" "ks < 2 ^ 62" "d * (ks - 1) < 2 ^ 62" "0 < ins" "ins < 2 ^ 62"
  shows "(d * (ks - 1) < ins + 2 * p \<longrightarrow> ggml_calc_conv_output_size ins ks st p d
           = Some (int (card (kernel_positions (ins + 2 * p) (d * (ks - 1)) st))))
    \<and> (d * (ks - 1) \<in> {ins + 2 * p..<ins + 2 * p + st - 1} \<longrightarrow>
         ggml_calc_conv_output_size ins ks st p d = Some 1 \<and> kernel_positions (ins + 2 * p) (d * (ks - 1)) st = {})"
proof -
  define e where "e = d * (ks - 1)"
  have e: "0 \<le> e" "e < 2 ^ 62" using assms by (simp_all add: e_def)
  have i: "i32 (2 * p) = 2 * p" using assms by (intro i32_id) simp_all
  have size: "ggml_calc_conv_output_size ins ks st p d = Some (i64 (i64 ((ins + 2 * p - e - 1) sdiv st) + 1))"
  proof -
    have "i64 (ks - 1) = ks - 1" using assms(6,7) by (intro i64_id) simp_all
    then have "i64 (d * i64 (ks - 1)) = e" using e by (simp add: i64_id flip: e_def)
    moreover have "i64 (ins + 2 * p) = ins + 2 * p" using assms(3,4,9,10) by (intro i64_id) simp_all
    moreover have "i64 (ins + 2 * p - e) = ins + 2 * p - e" using assms(3,4,9,10) e by (intro i64_id) simp_all
    moreover have "i64 (ins + 2 * p - e - 1) = ins + 2 * p - e - 1" using assms(3,4,9,10) e by (intro i64_id) simp_all
    ultimately show ?thesis using assms(1) unfolding ggml_calc_conv_output_size_def c_div_def i by simp
  qed
  have fit: "(ins + 2 * p - e - 1) sdiv st = (ins + 2 * p - e - 1) div st" if "e < ins + 2 * p"
    using that assms by (simp add: sdiv_pos)
  have r: "0 \<le> (ins + 2 * p - e - 1) div st" "(ins + 2 * p - e - 1) div st < 2 ^ 62 + 2 ^ 31" if "e < ins + 2 * p"
  proof -
    show "0 \<le> (ins + 2 * p - e - 1) div st" using that assms by (simp add: pos_imp_zdiv_nonneg_iff)
    have "(ins + 2 * p - e - 1) div st \<le> ins + 2 * p - e - 1" using that assms by (intro int_div_le) simp_all
    then show "(ins + 2 * p - e - 1) div st < 2 ^ 62 + 2 ^ 31" using assms e by simp
  qed
  have short: "(ins + 2 * p - e - 1) sdiv st = 0" if "e \<in> {ins + 2 * p..<ins + 2 * p + st - 1}"
    using that assms by (simp add: signed_divide_int_def)
  have none: "kernel_positions (ins + 2 * p) e st = {}" if "ins + 2 * p \<le> e"
    using that assms by (auto simp: kernel_positions_def) (smt (verit) mult_nonneg_nonneg of_nat_0_le_iff)
  show ?thesis
    unfolding e_def [symmetric] size
    using fit r kernel_positions_card [OF assms(1), of e "ins + 2 * p"] short none by (auto simp: i64_id)
qed

text \<open>The second convolution of the whisper encoder: 3000 frames, kernel 3, stride 2, padding 1.\<close>

theorem ggml_calc_conv_output_size_counts_witness:
  "ggml_calc_conv_output_size 3000 3 2 1 1 = Some (int (card (kernel_positions 3002 2 2)))
   \<and> ggml_calc_conv_output_size 3 4 3 0 1 = Some 1 \<and> kernel_positions 3 3 3 = {}"
  using ggml_calc_conv_output_size_counts [of 2 1 1 3 3000] ggml_calc_conv_output_size_counts [of 3 0 1 4 3] by simp

text \<open>
  C20: \<^verbatim>\<open>ggml_conv_1d\<close>. When it returns, the kernel and the input have the same number of channels,
  the input is a matrix or a batch of matrices, the kernel has at least one position, and the
  result is a new \<^verbatim>\<open>F32\<close> node with one row of positions for each output channel and batch entry;
  the tensors that existed before are unchanged.
\<close>

theorem ggml_conv_1d_shape:
  assumes "ctx_inv s" "deref s a = Some ta" "deref s b = Some tb" "ggml_conv_1d s a b s0 p0 d0 = Some (r, s')"
  shows "\<exists>n t. ggml_calc_conv_output_size (t_ne tb ! 0) (t_ne ta ! 0) s0 p0 d0 = Some n \<and> 0 < n
    \<and> t_ne tb ! 1 = t_ne ta ! 1 \<and> t_ne tb ! 3 = 1
    \<and> deref s' r = Some t \<and> t_op t = GGML_OP_RESHAPE \<and> t_type t = GGML_TYPE_F32 \<and> t_ne t = [n, t_ne ta ! 2, t_ne tb ! 2, 1]
    \<and> deref s r = None \<and> extends s s'"
proof -
  have va: "valid_args s [a, b]" using deref_dom [OF assms(2)] deref_dom [OF assms(3)] by simp
  obtain im s1 ti x s2 y s3 m s4 where im: "ggml_im2col s a b s0 0 p0 0 d0 0 False GGML_TYPE_F16 = Some (im, s1)"
    and ti: "deref s1 im = Some ti" and x: "ggml_reshape_2d s1 im (t_ne ti ! 0) (i64 (t_ne ti ! 2 * t_ne ti ! 1)) = Some (x, s2)"
    and y: "ggml_reshape_2d s2 a (i64 (t_ne ta ! 0 * t_ne ta ! 1)) (t_ne ta ! 2) = Some (y, s3)"
    and m: "ggml_mul_mat s3 x y = Some (m, s4)" and r: "ggml_reshape_3d s4 m (t_ne ti ! 1) (t_ne ta ! 2) (t_ne ti ! 2) = Some (r, s')"
    using assms(2,4) by (auto simp: ggml_conv_1d_def run_simps)
  have ch: "t_ne tb ! 1 = t_ne ta ! 1" "t_ne tb ! 3 = 1"
    using im assms(2,3) by (auto simp: ggml_im2col_def run_simps split: if_splits)
  obtain n where n: "ggml_calc_conv_output_size (t_ne tb ! 0) (t_ne ta ! 0) s0 p0 d0 = Some n" "0 < n"
    and o1: "op_node s im s1 GGML_OP_IM2COL GGML_TYPE_F16 [i64 (t_ne ta ! 1 * t_ne ta ! 0), n, t_ne tb ! 2, 1] [a, b]"
    by (rule ggml_im2col_node [OF im assms(1-3)]) simp
  have nd: "t_ne ti ! 1 = n" "t_ne ti ! 2 = t_ne tb ! 2"
    by (rule op_node_deref [OF o1], use ti in simp)+
  note i1 = op_node_inv [OF o1] and a1 = extends_deref [OF op_node_extends [OF o1] assms(2)]
  have o2: "op_node s1 x s2 GGML_OP_RESHAPE (t_type ti) [t_ne ti ! 0, i64 (t_ne ti ! 2 * t_ne ti ! 1), 1, 1] [im]"
    by (rule ggml_reshape_2d_node [OF x i1 ti]) (use deref_dom [OF ti] in simp)
  note i2 = op_node_inv [OF o2] and a2 = extends_deref [OF op_node_extends [OF o2] a1]
  have o3: "op_node s2 y s3 GGML_OP_RESHAPE (t_type ta) [i64 (t_ne ta ! 0 * t_ne ta ! 1), t_ne ta ! 2, 1, 1] [a]"
    by (rule ggml_reshape_2d_node [OF y i2 a2]) (use deref_dom [OF a2] in simp)
  note i3 = op_node_inv [OF o3]
  obtain tx where tx: "deref s3 x = Some tx" by (rule op_node_deref [OF o2]) (use extends_deref [OF op_node_extends [OF o3]] in blast)
  obtain ty where ty: "deref s3 y = Some ty" by (rule op_node_deref [OF o3])
  have "valid_args s3 [x, y]" using deref_dom [OF tx] deref_dom [OF ty] by simp
  then have o4: "op_node s3 m s4 GGML_OP_MUL_MAT GGML_TYPE_F32 [t_ne tx ! 1, t_ne ty ! 1, t_ne ty ! 2, t_ne ty ! 3] [x, y]"
    by (rule ggml_mul_mat_node [OF m i3 tx ty])
  obtain tm where tm: "deref s4 m = Some tm" "t_type tm = GGML_TYPE_F32" by (rule op_node_deref [OF o4])
  have o5: "op_node s4 r s' GGML_OP_RESHAPE (t_type tm) [t_ne ti ! 1, t_ne ta ! 2, t_ne ti ! 2, 1] [m]"
    by (rule ggml_reshape_3d_node [OF r op_node_inv [OF o4] tm(1)]) (use deref_dom [OF tm(1)] in simp)
  obtain t where "deref s' r = Some t" "t_op t = GGML_OP_RESHAPE" "t_type t = GGML_TYPE_F32" "t_ne t = [n, t_ne ta ! 2, t_ne tb ! 2, 1]"
    by (rule op_node_deref [OF o5]) (simp only: nd tm(2))
  moreover have "adds s r s'" by (rule ggml_conv_1d_adds [OF assms(4,1) va])
  ultimately show ?thesis using n ch by (auto simp: adds_def deref_def)
qed

text \<open>Four output channels over two input channels of ten positions, kernel 3, stride 1, padding 1.\<close>

lemma sample_conv_1d:
  obtains s1 s2 r s3 where "ggml_new_tensor sample_start GGML_TYPE_F16 3 [3, 2, 4] = Some (65568, s1)"
    "ggml_new_tensor s1 GGML_TYPE_F32 2 [10, 2] = Some (65984, s2)" "ggml_conv_1d s2 65568 65984 1 1 1 = Some (r, s3)"
    "ggml_calc_conv_output_size 10 3 1 1 1 = Some 10"
proof -
  have size: "ggml_calc_conv_output_size 10 3 1 1 1 = Some 10"
    by (simp add: ggml_calc_conv_output_size_def c_div_def i32_def i64_def sdiv_pos)
  have m: "c_mod 1 1 = Some 0" by (simp add: c_mod_def signed_modulo_int_def)
  obtain s1 s2 r s3 where "ggml_new_tensor sample_start GGML_TYPE_F16 3 [3, 2, 4] = Some (65568, s1)"
    "ggml_new_tensor s1 GGML_TYPE_F32 2 [10, 2] = Some (65984, s2)" "ggml_conv_1d s2 65568 65984 1 1 1 = Some (r, s3)"
    by (simp add: run_eval ggml_conv_1d_def ggml_im2col_def size m set_params_def set_op_def ggml_set_op_params_def
        ggml_reshape_2d_def ggml_reshape_3d_def ggml_mul_mat_def ggml_can_mul_mat_def ggml_is_transposed_def
        ggml_nelements_def ggml_is_contiguous_def ggml_is_contiguous_0_def ggml_is_contiguous_n_def)
  then show thesis using that size by blast
qed

theorem ggml_conv_1d_shape_witness:
  "\<exists>s1 s2 r s3 t. ggml_new_tensor sample_start GGML_TYPE_F16 3 [3, 2, 4] = Some (65568, s1)
     \<and> ggml_new_tensor s1 GGML_TYPE_F32 2 [10, 2] = Some (65984, s2)
     \<and> ggml_conv_1d s2 65568 65984 1 1 1 = Some (r, s3) \<and> deref s3 r = Some t \<and> t_ne t = [10, 4, 1, 1]"
proof -
  obtain s1 s2 r s3 where n: "ggml_new_tensor sample_start GGML_TYPE_F16 3 [3, 2, 4] = Some (65568, s1)"
    "ggml_new_tensor s1 GGML_TYPE_F32 2 [10, 2] = Some (65984, s2)" and c: "ggml_conv_1d s2 65568 65984 1 1 1 = Some (r, s3)"
    and size: "ggml_calc_conv_output_size 10 3 1 1 1 = Some 10" by (rule sample_conv_1d)
  have o1: "op_node sample_start 65568 s1 GGML_OP_NONE GGML_TYPE_F16 [3, 2, 4, 1] []"
    using new_tensor_node [OF n(1) sample_ctx_inv] by simp
  have o2: "op_node s1 65984 s2 GGML_OP_NONE GGML_TYPE_F32 [10, 2, 1, 1] []"
    using new_tensor_node [OF n(2) op_node_inv [OF o1]] by simp
  obtain ta where ta: "deref s1 65568 = Some ta" "t_ne ta = [3, 2, 4, 1]" by (rule op_node_deref [OF o1])
  obtain tb where tb: "deref s2 65984 = Some tb" "t_ne tb = [10, 2, 1, 1]" by (rule op_node_deref [OF o2])
  show ?thesis
    using ggml_conv_1d_shape [OF op_node_inv [OF o2] extends_deref [OF op_node_extends [OF o2] ta(1)] tb(1) c] n c size
    by (auto simp: ta(2) tb(2))
qed

section \<open>Windows\<close>

text \<open>
  The number of windows. \<^verbatim>\<open>ggml_win_part\<close> pads an extent to the next multiple of the window size
  and divides: the result is the least number of windows that covers the extent.
\<close>

lemma win_count_covers:
  assumes "0 < w" "w < 2 ^ 31" "0 \<le> n" "n < 2 ^ 31"
  shows "\<exists>q. win_count n w = Some q \<and> n \<le> q * w \<and> (\<forall>k. n \<le> k * w \<longrightarrow> q \<le> k)"
proof -
  define x where "x = (w - n mod w) mod w"
  have sm: "a smod w = a mod w" if "0 \<le> a" for a :: int
    using that assms(1) by (cases "a = 0") (simp_all add: signed_modulo_int_def)
  have m: "0 \<le> n mod w" "n mod w < w" using assms(1) by simp_all
  have x: "0 \<le> x" "x < w" using assms(1) by (simp_all add: x_def)
  have "i64 (w - n mod w) = w - n mod w"
  proof (rule i64_id)
    show "- (2 ^ 63) \<le> w - n mod w" by (rule order_trans [of _ 0]) (use m in simp_all)
    show "w - n mod w < 2 ^ 63" by (rule le_less_trans [of _ w]) (use m assms(2) in simp_all)
  qed
  then have s1: "i64 (w - n mod w) smod w = x" using m by (simp add: sm x_def)
  have dv: "(x + n) mod w = 0" by (simp add: x_def mod_simps)
  then have q: "(x + n) div w * w = x + n" by (metis add.right_neutral div_mult_mod_eq)
  have qb: "0 \<le> (x + n) div w" "(x + n) div w \<le> x + n"
    using x assms by (simp_all add: pos_imp_zdiv_nonneg_iff int_div_le)
  have qn: "(x + n) div w \<le> n"
  proof (cases "n = 0")
    case True
    then show ?thesis using x by (simp add: x_def)
  next
    case False
    show ?thesis
    proof (rule ccontr)
      assume "\<not> (x + n) div w \<le> n"
      then have "(n + 1) * w \<le> (x + n) div w * w" using assms(1) by (intro mult_right_mono) simp_all
      then have "(n + 1) * w \<le> x + n" unfolding q .
      then have "n * w + w \<le> x + n" by (simp add: distrib_right)
      moreover have "n * 1 \<le> n * w" using assms by (intro mult_left_mono) simp_all
      ultimately show False using x by linarith
    qed
  qed
  have "win_count n w = Some (i32 (i64 (i64 (i32 x + n) sdiv w)))"
    using assms sm [of n] s1 by (simp add: win_count_def c_mod_def c_div_def)
  also have "i32 x = x" using x assms by (intro i32_id) simp_all
  also have "i64 (x + n) = x + n" using x assms by (intro i64_id) simp_all
  also have "(x + n) sdiv w = (x + n) div w" using x assms by (simp add: sdiv_pos)
  also have "i64 ((x + n) div w) = (x + n) div w" using qb x assms by (intro i64_id) simp_all
  also have "i32 ((x + n) div w) = (x + n) div w" using qb qn assms by (intro i32_id) simp_all
  finally have "win_count n w = Some ((x + n) div w)" .
  moreover have "(x + n) div w \<le> k" if "n \<le> k * w" for k
  proof (rule ccontr)
    assume "\<not> (x + n) div w \<le> k"
    then have "(k + 1) * w \<le> (x + n) div w * w" using assms(1) by (intro mult_right_mono) simp_all
      then have "(k + 1) * w \<le> x + n" unfolding q .
    then have "k * w + w \<le> x + n" by (simp add: distrib_right)
    then show False using that x by linarith
  qed
  ultimately show ?thesis using q x by auto
qed

lemma win_count_covers_witness: "\<exists>q. win_count 64 14 = Some q \<and> 64 \<le> q * 14 \<and> q \<le> 5"
proof -
  obtain q where q: "win_count 64 14 = Some q" "64 \<le> q * 14" "\<forall>k. 64 \<le> k * 14 \<longrightarrow> q \<le> k"
    using win_count_covers [of 14 64] by auto
  have "q \<le> 5" using q(3) [rule_format, of 5] by simp
  then show ?thesis using q(1,2) by blast
qed

end
