(* ===== verification/GGML_Float.thy ===== *)
theory GGML_Float
  imports GGML_OpBase
begin

text \<open>
  The conversions between number formats of \<^verbatim>\<open>ggml/src/ggml-impl.h\<close> that work on bit patterns:
  \<^verbatim>\<open>bfloat16\<close> and the exponent-only format \<^verbatim>\<open>E8M0\<close> of block scales, with the row conversions of
  \<^verbatim>\<open>ggml.c\<close>. A \<^verbatim>\<open>float\<close> is its bit pattern; \<open>f32_units\<close> gives the number it denotes.
\<close>

unbundle bit_operations_syntax

section \<open>Conversions\<close>

type_synonym bf16 = "16 word"

definition ggml_compute_bf16_to_fp32 :: "bf16 \<Rightarrow> f32" where
  "ggml_compute_bf16_to_fp32 h = push_bit 16 (ucast h)"

definition ggml_compute_fp32_to_bf16 :: "f32 \<Rightarrow> bf16" where
  "ggml_compute_fp32_to_bf16 s =
     (if s AND 0x7fffffff > 0x7f800000 then ucast (drop_bit 16 s OR 64)
      else ucast (drop_bit 16 (s + (0x7fff + (drop_bit 16 s AND 1)))))"

definition ggml_bf16_to_fp32 :: "bf16 \<Rightarrow> f32" where
  "ggml_bf16_to_fp32 x = ggml_compute_bf16_to_fp32 x"

definition ggml_fp32_to_bf16 :: "f32 \<Rightarrow> bf16" where
  "ggml_fp32_to_bf16 x = ggml_compute_fp32_to_bf16 x"

text \<open>The row conversions read \<open>n\<close> elements; the list is what they read.\<close>

fun ggml_bf16_to_fp32_row :: "bf16 list \<Rightarrow> f32 list" where
  "ggml_bf16_to_fp32_row [] = []"
| "ggml_bf16_to_fp32_row (x # xs) = ggml_compute_bf16_to_fp32 x # ggml_bf16_to_fp32_row xs"

fun ggml_fp32_to_bf16_row_ref :: "f32 list \<Rightarrow> bf16 list" where
  "ggml_fp32_to_bf16_row_ref [] = []"
| "ggml_fp32_to_bf16_row_ref (x # xs) = ggml_compute_fp32_to_bf16 x # ggml_fp32_to_bf16_row_ref xs"

definition ggml_e8m0_to_fp32 :: "8 word \<Rightarrow> f32" where
  "ggml_e8m0_to_fp32 x = (if x = 0 then 0x00400000 else push_bit 23 (ucast x))"

definition ggml_e8m0_to_fp32_half :: "8 word \<Rightarrow> f32" where
  "ggml_e8m0_to_fp32_half x = (if x < 2 then push_bit (unat x) 0x00200000 else push_bit 23 (ucast (x - 1)))"

section \<open>What the patterns denote\<close>

text \<open>
  \<open>magnitude n\<close> is the absolute value of the \<^verbatim>\<open>float\<close> whose pattern without the sign is \<open>n\<close>, in units
  of 2^(-149), the smallest positive number. The formula continues past the largest finite
  number: infinity counts as 2^128.
\<close>

definition magnitude :: "nat \<Rightarrow> int" where
  "magnitude n = (if n div 2 ^ 23 = 0 then int n else int (2 ^ 23 + n mod 2 ^ 23) * 2 ^ (n div 2 ^ 23 - 1))"

definition f32_units :: "f32 \<Rightarrow> int" where
  "f32_units x = (if unat x div 2 ^ 31 = 0 then 1 else -1) * magnitude (unat x mod 2 ^ 31)"

definition f32_is_nan :: "f32 \<Rightarrow> bool" where
  "f32_is_nan x \<longleftrightarrow> unat x mod 2 ^ 31 > 0x7f800000"

text \<open>The distance of neighbours that share the upper sixteen bits.\<close>

definition spacing :: "nat \<Rightarrow> int" where
  "spacing q = (if q div 2 ^ 7 = 0 then 1 else 2 ^ (q div 2 ^ 7 - 1))"

lemma spacing_pos: "0 < spacing q"
  by (simp add: spacing_def)

lemma magnitude_split:
  assumes "r < 2 ^ 16"
  shows "magnitude (q * 2 ^ 16 + r) = magnitude (q * 2 ^ 16) + int r * spacing q"
proof -
  have d: "(q * 2 ^ 16 + r) div 2 ^ 23 = q div 2 ^ 7"
    using assms div_mult2_eq [of "q * 2 ^ 16 + r" "2 ^ 16" "2 ^ 7"] by simp
  have m: "(q * 2 ^ 16 + r) mod 2 ^ 23 = (q mod 2 ^ 7) * 2 ^ 16 + r"
    using assms mod_mult2_eq [of "q * 2 ^ 16 + r" "2 ^ 16" "2 ^ 7"] by simp
  have d0: "q * 2 ^ 16 div 2 ^ 23 = q div 2 ^ 7" and m0: "q * 2 ^ 16 mod 2 ^ 23 = (q mod 2 ^ 7) * 2 ^ 16"
    using div_mult2_eq [of "q * 2 ^ 16" "2 ^ 16" "2 ^ 7"] mod_mult2_eq [of "q * 2 ^ 16" "2 ^ 16" "2 ^ 7"] by simp_all
  show ?thesis
    unfolding magnitude_def d m d0 m0 spacing_def by (simp add: algebra_simps)
qed

lemma magnitude_next: "magnitude (Suc q * 2 ^ 16) = magnitude (q * 2 ^ 16) + 2 ^ 16 * spacing q"
proof -
  have d0: "p * 2 ^ 16 div 2 ^ 23 = p div 2 ^ 7" and m0: "p * 2 ^ 16 mod 2 ^ 23 = (p mod 2 ^ 7) * 2 ^ 16" for p :: nat
    using div_mult2_eq [of "p * 2 ^ 16" "2 ^ 16" "2 ^ 7"] mod_mult2_eq [of "p * 2 ^ 16" "2 ^ 16" "2 ^ 7"] by simp_all
  show ?thesis
  proof (cases "Suc (q mod 2 ^ 7) = 2 ^ 7")
    case True
    then have "Suc q mod 2 ^ 7 = 0" "Suc q div 2 ^ 7 = Suc (q div 2 ^ 7)" "q mod 2 ^ 7 = 127"
      by (simp_all add: mod_Suc div_Suc)
    then show ?thesis
      unfolding magnitude_def d0 m0 spacing_def
      by (cases "q div 2 ^ 7") (use div_mult_mod_eq [of q "2 ^ 7"] in \<open>simp_all add: algebra_simps\<close>)
  next
    case False
    then have "Suc q mod 2 ^ 7 = Suc (q mod 2 ^ 7)" "Suc q div 2 ^ 7 = q div 2 ^ 7"
      by (simp_all add: mod_Suc div_Suc)
    then show ?thesis
      unfolding magnitude_def d0 m0 spacing_def by (simp add: algebra_simps)
  qed
qed

lemma magnitude_mono: "p \<le> q \<Longrightarrow> magnitude (p * 2 ^ 16) \<le> magnitude (q * 2 ^ 16)"
  by (rule lift_Suc_mono_le [of "\<lambda>q. magnitude (q * 2 ^ 16)"])
    (use spacing_pos magnitude_next in \<open>simp_all add: less_imp_le\<close>)

lemma magnitude_nonneg: "0 \<le> magnitude n"
  by (simp add: magnitude_def)

section \<open>Rounding to \<^verbatim>\<open>bfloat16\<close>\<close>

lemma unat_widen: "unat (ggml_compute_bf16_to_fp32 h) = unat h * 2 ^ 16"
proof -
  have "unat (ucast h :: f32) = unat h" by (simp add: unsigned_ucast_eq take_bit_nat_eq_self_iff order_less_le_trans [OF unsigned_less])
  moreover have "unat h < 2 ^ 16" using unsigned_less [where 'a = nat, of h] by simp
  ultimately show ?thesis
    by (simp only: ggml_compute_bf16_to_fp32_def unsigned_push_bit_eq) (simp add: push_bit_eq_mult take_bit_eq_mod)
qed

lemma unat_low_bits: "unat (x AND 0x7fffffff) = unat (x :: f32) mod 2 ^ 31"
proof -
  have "(0x7fffffff :: f32) = mask 31" by (simp add: mask_eq_exp_minus_1)
  then have "x AND 0x7fffffff = take_bit 31 x" by (simp only: take_bit_eq_mask)
  then show ?thesis by (simp only: unsigned_take_bit_eq) (simp add: take_bit_eq_mod)
qed

lemma nan_test: "x AND 0x7fffffff > 0x7f800000 \<longleftrightarrow> f32_is_nan x"
  by (simp add: word_less_nat_alt unat_low_bits f32_is_nan_def)

text \<open>The magnitude of the result: the upper half, plus one when the lower half is past the middle.\<close>

definition round_up :: "nat \<Rightarrow> nat \<Rightarrow> nat" where
  "round_up q r = (if r > 2 ^ 15 \<or> r = 2 ^ 15 \<and> odd q then 1 else 0)"

lemma div_plus:
  fixes n c k :: nat
  assumes "0 < k" shows "(n + c) div k = n div k + (n mod k + c) div k"
proof -
  have "n + c = (n mod k + c) + n div k * k" using div_mult_mod_eq [of n k] by linarith
  then show ?thesis using assms by (simp only: div_mult_self1)
qed

lemma unat_narrow:
  assumes "\<not> f32_is_nan x"
  shows "unat (ggml_compute_fp32_to_bf16 x) = unat x div 2 ^ 16 + round_up (unat x div 2 ^ 16) (unat x mod 2 ^ 16)"
proof -
  let ?q = "unat x div 2 ^ 16" and ?r = "unat x mod 2 ^ 16"
  have x: "unat x < 2 ^ 32" using unsigned_less [where 'a = nat, of x] by simp
  have nn: "unat x mod 2 ^ 31 \<le> 0x7f800000" using assms by (simp add: f32_is_nan_def)
  have le: "unat x \<le> 0xff800000"
  proof -
    have "unat x div 2 ^ 31 < 2" using x by (simp add: less_mult_imp_div_less)
    then have "unat x div 2 ^ 31 * 2 ^ 31 + unat x mod 2 ^ 31 \<le> 1 * 2 ^ 31 + 0x7f800000"
      using nn by (intro add_mono mult_right_mono) simp_all
    then show ?thesis by (simp only: div_mult_mod_eq) simp
  qed
  have b: "unat (drop_bit 16 x AND 1) = ?q mod 2"
    by (simp only: and_one_eq unat_mod unat_drop_bit_eq) (simp add: drop_bit_eq_div)
  have "unat (0x7fff + (drop_bit 16 x AND 1)) = 0x7fff + ?q mod 2"
    by (simp add: unat_word_ariths b)
  then have sum: "unat (x + (0x7fff + (drop_bit 16 x AND 1))) = unat x + (0x7fff + ?q mod 2)"
    using le by (simp add: unat_word_ariths)
  have div: "(unat x + (0x7fff + ?q mod 2)) div 2 ^ 16 = ?q + (?r + (0x7fff + ?q mod 2)) div 2 ^ 16"
    by (rule div_plus) simp
  have up: "(?r + (0x7fff + ?q mod 2)) div 2 ^ 16 = round_up ?q ?r"
  proof -
    have r: "?r < 2 ^ 16" by simp
    show ?thesis
    proof (cases "odd ?q")
      case True
      then have "?q mod 2 = 1" by (simp add: odd_iff_mod_2_eq_one)
      then show ?thesis using True r by (auto simp: round_up_def div_nat_eqI)
    next
      case False
      then have "?q mod 2 = 0" by simp
      then show ?thesis using False r by (auto simp: round_up_def div_nat_eqI)
    qed
  qed
  have small: "?q + round_up ?q ?r < 2 ^ 16"
  proof -
    have "?q \<le> 0xff80" using le by (simp add: div_le_mono [of "unat x" "0xff800000" "2 ^ 16"])
    then show ?thesis by (simp add: round_up_def)
  qed
  have "\<not> x AND 0x7fffffff > 0x7f800000" using assms nan_test by blast
  then have "unat (ggml_compute_fp32_to_bf16 x) = take_bit 16 (unat (drop_bit 16 (x + (0x7fff + (drop_bit 16 x AND 1)))))"
    by (simp only: ggml_compute_fp32_to_bf16_def if_False) (simp add: unsigned_ucast_eq)
  also have "\<dots> = (?q + round_up ?q ?r) mod 2 ^ 16"
    by (simp only: unat_drop_bit_eq sum) (simp only: drop_bit_eq_div div up take_bit_eq_mod)
  finally show ?thesis using small by simp
qed

lemma widen_parts:
  "unat (ggml_compute_bf16_to_fp32 k) div 2 ^ 31 = unat k div 2 ^ 15"
  "unat (ggml_compute_bf16_to_fp32 k) mod 2 ^ 31 = unat k mod 2 ^ 15 * 2 ^ 16"
  using div_mult_mult2 [of "2 ^ 16" "unat k" "2 ^ 15"] mod_mult_mult2 [of "unat k" "2 ^ 16" "2 ^ 15"]
  by (simp_all add: unat_widen)

lemma widen_units:
  "f32_units (ggml_compute_bf16_to_fp32 k) = (if unat k div 2 ^ 15 = 0 then 1 else -1) * magnitude (unat k mod 2 ^ 15 * 2 ^ 16)"
  by (simp only: f32_units_def widen_parts)

lemma widen_nan: "f32_is_nan (ggml_compute_bf16_to_fp32 k) \<longleftrightarrow> unat k mod 2 ^ 15 > 0x7f80"
  by (simp only: f32_is_nan_def widen_parts) simp

lemma nearest_magnitude:
  assumes "r < 2 ^ 16" "\<sigma> = 1 \<or> \<sigma> = (-1::int)"
  shows "\<bar>magnitude ((q + round_up q r) * 2 ^ 16) - magnitude (q * 2 ^ 16 + r)\<bar>
      \<le> \<bar>\<sigma> * magnitude (p * 2 ^ 16) - magnitude (q * 2 ^ 16 + r)\<bar>"
    and "\<bar>\<sigma> * magnitude (p * 2 ^ 16) - magnitude (q * 2 ^ 16 + r)\<bar>
        = \<bar>magnitude ((q + round_up q r) * 2 ^ 16) - magnitude (q * 2 ^ 16 + r)\<bar>
      \<Longrightarrow> \<sigma> * magnitude (p * 2 ^ 16) \<noteq> magnitude ((q + round_up q r) * 2 ^ 16) \<Longrightarrow> even (q + round_up q r)"
proof -
  define a u m R where "a = magnitude (q * 2 ^ 16)" and "u = spacing q" and "m = magnitude (p * 2 ^ 16)" and "R = int r"
  have u: "0 < u" by (simp add: u_def spacing_pos)
  have a: "0 \<le> a" "0 \<le> m" by (simp_all add: a_def m_def magnitude_nonneg)
  define z where "z = R * u"
  have v: "magnitude (q * 2 ^ 16 + r) = a + z" using magnitude_split [OF assms(1)] by (simp add: a_def u_def R_def z_def)
  have b: "magnitude ((q + 1) * 2 ^ 16) = a + 65536 * u" using magnitude_next [of q] by (simp add: a_def u_def)
  have z: "0 \<le> z" "z \<le> 65536 * u" using u assms(1) by (simp_all add: z_def R_def)
  have half: "z = 32768 * u \<longleftrightarrow> R = 32768" "z \<le> 32768 * u \<longleftrightarrow> R \<le> 32768" using u by (auto simp: z_def)
  have pos: "m \<le> a \<or> a + 65536 * u \<le> m"
    using magnitude_mono [of p q] magnitude_mono [of "q + 1" p] b by (cases "p \<le> q") (simp_all add: a_def m_def)
  have both: "\<bar>magnitude ((q + round_up q r) * 2 ^ 16) - (a + z)\<bar> \<le> \<bar>\<sigma> * m - (a + z)\<bar>
    \<and> (\<bar>\<sigma> * m - (a + z)\<bar> = \<bar>magnitude ((q + round_up q r) * 2 ^ 16) - (a + z)\<bar>
       \<longrightarrow> \<sigma> * m \<noteq> magnitude ((q + round_up q r) * 2 ^ 16) \<longrightarrow> even (q + round_up q r))"
  proof (cases "round_up q r = 0")
    case True
    then have "R \<le> 32768" and e: "R = 32768 \<longrightarrow> even q" by (auto simp: round_up_def R_def split: if_splits)
    then have "z \<le> 32768 * u" "z = 32768 * u \<longrightarrow> even q" using half by simp_all
    moreover have c: "magnitude ((q + round_up q r) * 2 ^ 16) = a" by (simp add: True a_def)
    ultimately show ?thesis unfolding c unfolding True using assms(2) pos a z u by auto
  next
    case False
    then have up: "round_up q r = 1" by (simp add: round_up_def split: if_splits)
    then have "R \<ge> 32768" and e: "R = 32768 \<longrightarrow> odd q" by (auto simp: round_up_def R_def split: if_splits)
    then have "z \<ge> 32768 * u" "z = 32768 * u \<longrightarrow> odd q" using half by auto
    then show ?thesis unfolding up b using assms(2) pos a z u by auto
  qed
  show "\<bar>magnitude ((q + round_up q r) * 2 ^ 16) - magnitude (q * 2 ^ 16 + r)\<bar>
      \<le> \<bar>\<sigma> * magnitude (p * 2 ^ 16) - magnitude (q * 2 ^ 16 + r)\<bar>"
    using both by (simp only: v flip: m_def)
  show "\<bar>\<sigma> * magnitude (p * 2 ^ 16) - magnitude (q * 2 ^ 16 + r)\<bar>
        = \<bar>magnitude ((q + round_up q r) * 2 ^ 16) - magnitude (q * 2 ^ 16 + r)\<bar>
      \<Longrightarrow> \<sigma> * magnitude (p * 2 ^ 16) \<noteq> magnitude ((q + round_up q r) * 2 ^ 16) \<Longrightarrow> even (q + round_up q r)"
    using both by (simp only: v flip: m_def) blast
qed

lemma pattern_parts:
  fixes n :: nat
  shows "n div 2 ^ 16 = n div 2 ^ 31 * 2 ^ 15 + n mod 2 ^ 31 div 2 ^ 16"
    "n mod 2 ^ 31 = n mod 2 ^ 31 div 2 ^ 16 * 2 ^ 16 + n mod 2 ^ 16"
proof -
  have m: "n mod 2 ^ 31 mod 2 ^ 16 = n mod 2 ^ 16" by (simp add: mod_mod_cancel)
  then show "n mod 2 ^ 31 = n mod 2 ^ 31 div 2 ^ 16 * 2 ^ 16 + n mod 2 ^ 16"
    using div_mult_mod_eq [of "n mod 2 ^ 31" "2 ^ 16"] by simp
  have "n = (n div 2 ^ 31 * 2 ^ 15) * 2 ^ 16 + n mod 2 ^ 31" using div_mult_mod_eq [of n "2 ^ 31"] by simp
  then have "n div 2 ^ 16 = ((n div 2 ^ 31 * 2 ^ 15) * 2 ^ 16 + n mod 2 ^ 31) div 2 ^ 16" by simp
  also have "\<dots> = n div 2 ^ 31 * 2 ^ 15 + n mod 2 ^ 31 div 2 ^ 16" by (rule div_mult_self3) simp
  finally show "n div 2 ^ 16 = n div 2 ^ 31 * 2 ^ 15 + n mod 2 ^ 31 div 2 ^ 16" .
qed

lemma narrow_parts:
  assumes "\<not> f32_is_nan x"
  defines "q \<equiv> unat x mod 2 ^ 31 div 2 ^ 16" and "r \<equiv> unat x mod 2 ^ 16"
  shows "unat (ggml_compute_fp32_to_bf16 x) div 2 ^ 15 = unat x div 2 ^ 31"
    "unat (ggml_compute_fp32_to_bf16 x) mod 2 ^ 15 = q + round_up q r" "q + round_up q r \<le> 0x7f80"
    "even (unat (ggml_compute_fp32_to_bf16 x)) \<longleftrightarrow> even (q + round_up q r)"
proof -
  have nn: "unat x mod 2 ^ 31 \<le> 0x7f800000" using assms(1) by (simp add: f32_is_nan_def)
  then have q: "q \<le> 0x7f80" using div_le_mono [OF nn, of "2 ^ 16"] by (simp add: q_def)
  have "q = 0x7f80 \<longrightarrow> r = 0" using nn pattern_parts(2) [of "unat x"] by (simp add: q_def r_def)
  then show le: "q + round_up q r \<le> 0x7f80" using q by (auto simp: round_up_def)
  have "round_up (unat x div 2 ^ 31 * 2 ^ 15 + q) r = round_up q r" by (simp add: round_up_def)
  then have h: "unat (ggml_compute_fp32_to_bf16 x) = unat x div 2 ^ 31 * 2 ^ 15 + (q + round_up q r)"
    unfolding unat_narrow [OF assms(1)] pattern_parts(1) [of "unat x"] by (simp add: q_def r_def)
  have "q + round_up q r < 2 ^ 15" using le by simp
  then show "unat (ggml_compute_fp32_to_bf16 x) div 2 ^ 15 = unat x div 2 ^ 31"
    "unat (ggml_compute_fp32_to_bf16 x) mod 2 ^ 15 = q + round_up q r"
    unfolding h by simp_all
  show "even (unat (ggml_compute_fp32_to_bf16 x)) \<longleftrightarrow> even (q + round_up q r)" unfolding h by simp
qed

text \<open>
  C25: \<^verbatim>\<open>ggml_fp32_to_bf16\<close> rounds to nearest. For every \<^verbatim>\<open>float\<close> that is a number, no \<^verbatim>\<open>bfloat16\<close> is
  closer than the result (infinity counts as 2^128, as in IEEE arithmetic); when another value is
  just as close the result is the even one; the sign is kept.
\<close>

theorem ggml_fp32_to_bf16_nearest:
  assumes "\<not> f32_is_nan x"
  shows "\<bar>f32_units (ggml_bf16_to_fp32 (ggml_fp32_to_bf16 x)) - f32_units x\<bar> \<le> \<bar>f32_units (ggml_bf16_to_fp32 k) - f32_units x\<bar>
    \<and> (\<bar>f32_units (ggml_bf16_to_fp32 k) - f32_units x\<bar> = \<bar>f32_units (ggml_bf16_to_fp32 (ggml_fp32_to_bf16 x)) - f32_units x\<bar>
       \<and> f32_units (ggml_bf16_to_fp32 k) \<noteq> f32_units (ggml_bf16_to_fp32 (ggml_fp32_to_bf16 x)) \<longrightarrow> even (unat (ggml_fp32_to_bf16 x)))
    \<and> unat (ggml_fp32_to_bf16 x) div 2 ^ 15 = unat x div 2 ^ 31"
proof -
  define q r where "q = unat x mod 2 ^ 31 div 2 ^ 16" and "r = unat x mod 2 ^ 16"
  define \<sigma> :: int where "\<sigma> = (if unat x div 2 ^ 31 = 0 then 1 else -1)"
  define \<tau> :: int where "\<tau> = (if unat k div 2 ^ 15 = 0 then 1 else -1)"
  note n = narrow_parts [OF assms, folded q_def r_def]
  have x: "f32_units x = \<sigma> * magnitude (q * 2 ^ 16 + r)"
    unfolding f32_units_def \<sigma>_def q_def r_def by (subst pattern_parts(2)) (rule refl)
  have h: "f32_units (ggml_compute_bf16_to_fp32 (ggml_compute_fp32_to_bf16 x)) = \<sigma> * magnitude ((q + round_up q r) * 2 ^ 16)"
    unfolding widen_units n \<sigma>_def by (rule refl)
  have k: "f32_units (ggml_compute_bf16_to_fp32 k) = \<tau> * magnitude (unat k mod 2 ^ 15 * 2 ^ 16)"
    unfolding widen_units \<tau>_def by (rule refl)
  have s: "\<sigma> = 1 \<or> \<sigma> = -1" "\<tau> = 1 \<or> \<tau> = -1" by (simp_all add: \<sigma>_def \<tau>_def)
  then have "\<sigma> * \<tau> = 1 \<or> \<sigma> * \<tau> = -1" by auto
  note near = nearest_magnitude [where r = r and q = q and p = "unat k mod 2 ^ 15", OF _ this]
  have r: "r < 2 ^ 16" by (simp add: r_def)
  have d: "\<bar>\<sigma> * y - \<sigma> * z\<bar> = \<bar>y - z\<bar>" "\<bar>\<tau> * y - \<sigma> * z\<bar> = \<bar>\<sigma> * \<tau> * y - z\<bar>"
    "\<tau> * y = \<sigma> * z \<longleftrightarrow> \<sigma> * \<tau> * y = z" for y z
    using s by auto
  show ?thesis
    unfolding ggml_bf16_to_fp32_def ggml_fp32_to_bf16_def x h k d n(4) using near(1) [OF r] near(2) [OF r] n(1) by blast
qed

text \<open>1.00390625 lies half-way between the neighbours 1 and 1.0078125 and goes to the even one.\<close>

theorem ggml_fp32_to_bf16_nearest_witness:
  "\<not> f32_is_nan 0x3f808000 \<and> ggml_fp32_to_bf16 0x3f808000 = 0x3f80
   \<and> \<bar>f32_units (ggml_bf16_to_fp32 0x3f80) - f32_units 0x3f808000\<bar> \<le> \<bar>f32_units (ggml_bf16_to_fp32 0x3f81) - f32_units 0x3f808000\<bar>"
proof -
  have n: "\<not> f32_is_nan 0x3f808000" by (simp add: f32_is_nan_def)
  have "ggml_fp32_to_bf16 0x3f808000 = 0x3f80"
    by (simp add: ggml_fp32_to_bf16_def ggml_compute_fp32_to_bf16_def)
  then show ?thesis using ggml_fp32_to_bf16_nearest [OF n, of "0x3f81"] n by simp
qed

lemma quiet_nan:
  assumes "f32_is_nan x"
  shows "f32_is_nan (ggml_compute_bf16_to_fp32 (ggml_compute_fp32_to_bf16 x))"
proof -
  define m where "m = unat x mod 2 ^ 31 div 2 ^ 16"
  have "0x7f800000 \<le> unat x mod 2 ^ 31" using assms by (simp add: f32_is_nan_def)
  from div_le_mono [OF this, of "2 ^ 16"] have m: "0x7f80 \<le> m" by (simp add: m_def)
  have low: "unat x div 2 ^ 16 mod 2 ^ 15 = m"
    using mod_mult2_eq [of "unat x" "2 ^ 16" "2 ^ 15"] pattern_parts [of "unat x"] by (simp add: m_def)
  have "int m \<le> int m OR 64" by (rule or_greater_eq) simp
  then have le: "m \<le> m OR 64" by (simp add: or_nat_def le_nat_iff)
  have "m OR 64 \<noteq> 0x7f80"
  proof
    assume "m OR 64 = 0x7f80"
    moreover have "bit (m OR 64) 6" by (simp add: bit_or_iff) (simp add: bit_iff_odd)
    moreover have "\<not> bit (0x7f80 :: nat) 6" by (simp add: bit_iff_odd)
    ultimately show False by simp
  qed
  then have gt: "0x7f80 < m OR 64" using m le by simp
  have "ggml_compute_fp32_to_bf16 x = ucast (drop_bit 16 x OR 64)"
    using assms nan_test [of x] by (simp only: ggml_compute_fp32_to_bf16_def if_True)
  then have "unat (ggml_compute_fp32_to_bf16 x) = take_bit 16 (unat (drop_bit 16 x OR 64))"
    by (simp only: unsigned_ucast_eq) simp
  also have "\<dots> = take_bit 16 (unat x div 2 ^ 16 OR 64)"
    by (simp only: unsigned_or_eq unat_drop_bit_eq) (simp add: drop_bit_eq_div)
  finally have "take_bit 15 (unat (ggml_compute_fp32_to_bf16 x)) = take_bit 15 (take_bit 16 (unat x div 2 ^ 16 OR 64))"
    by (rule arg_cong)
  then have "unat (ggml_compute_fp32_to_bf16 x) mod 2 ^ 15 = take_bit 15 (unat x div 2 ^ 16 OR 64)"
    by (simp only: take_bit_eq_mod) (simp add: mod_mod_cancel)
  also have "\<dots> = take_bit 15 (unat x div 2 ^ 16) OR take_bit 15 64" by (rule take_bit_or)
  also have "\<dots> = m OR 64" by (simp only: take_bit_eq_mod low) simp
  finally show ?thesis unfolding widen_nan using gt by simp
qed

text \<open>
  C26: \<^verbatim>\<open>bfloat16\<close> survives the way through \<^verbatim>\<open>float\<close>. Widening and rounding returns the same pattern,
  for rows too; a NaN comes back with its quiet bit set, and rounding yields a NaN exactly for a
  NaN.
\<close>

theorem ggml_bf16_roundtrip:
  "ggml_fp32_to_bf16 (ggml_bf16_to_fp32 h) = (if f32_is_nan (ggml_bf16_to_fp32 h) then h OR 64 else h)
   \<and> ggml_fp32_to_bf16_row_ref (ggml_bf16_to_fp32_row hs)
       = map (\<lambda>h. if f32_is_nan (ggml_bf16_to_fp32 h) then h OR 64 else h) hs
   \<and> f32_is_nan (ggml_bf16_to_fp32 (ggml_fp32_to_bf16 x)) = f32_is_nan x"
proof -
  have one: "ggml_fp32_to_bf16 (ggml_bf16_to_fp32 h) = (if f32_is_nan (ggml_bf16_to_fp32 h) then h OR 64 else h)" for h
  proof (cases "f32_is_nan (ggml_bf16_to_fp32 h)")
    case True
    have "ucast (drop_bit 16 (push_bit 16 (ucast h :: f32)) OR 64) = h OR 64"
      by (rule bit_word_eqI) (auto simp: bit_simps)
    then show ?thesis
      using True nan_test [of "ggml_bf16_to_fp32 h"]
      by (simp only: ggml_fp32_to_bf16_def ggml_compute_fp32_to_bf16_def if_True)
        (simp only: ggml_bf16_to_fp32_def ggml_compute_bf16_to_fp32_def)
  next
    case False
    have "unat (ggml_fp32_to_bf16 (ggml_bf16_to_fp32 h)) = unat h"
      using unat_narrow [of "ggml_bf16_to_fp32 h"] False
      by (simp add: ggml_bf16_to_fp32_def ggml_fp32_to_bf16_def unat_widen round_up_def)
    then show ?thesis using False unsigned_word_eqI [where 'a = nat] by simp
  qed
  have row: "ggml_fp32_to_bf16_row_ref (ggml_bf16_to_fp32_row hs)
       = map (\<lambda>h. if f32_is_nan (ggml_bf16_to_fp32 h) then h OR 64 else h) hs"
    using one by (induction hs) (simp_all add: ggml_bf16_to_fp32_def ggml_fp32_to_bf16_def)
  have "f32_is_nan (ggml_bf16_to_fp32 (ggml_fp32_to_bf16 x)) = f32_is_nan x"
  proof (cases "f32_is_nan x")
    case True
    then show ?thesis using quiet_nan by (simp add: ggml_bf16_to_fp32_def ggml_fp32_to_bf16_def)
  next
    case False
    show ?thesis
      using narrow_parts(2,3) [OF False] False by (simp add: ggml_bf16_to_fp32_def ggml_fp32_to_bf16_def widen_nan)
  qed
  then show ?thesis using one row by blast
qed

section \<open>Block scales\<close>

lemma power_units: "0 < e \<Longrightarrow> e < 2 ^ 8 \<Longrightarrow> unat x = e * 2 ^ 23 \<Longrightarrow> f32_units x = 2 ^ (e + 22)"
  by (cases e) (simp_all add: f32_units_def magnitude_def div_less power_add)

lemma scale_pattern: "unat (push_bit 23 (ucast (x :: 8 word)) :: f32) = unat x * 2 ^ 23"
proof -
  have "unat (ucast x :: f32) = unat x"
    by (simp add: unsigned_ucast_eq take_bit_nat_eq_self_iff order_less_le_trans [OF unsigned_less])
  moreover have "unat x < 2 ^ 8" using unsigned_less [where 'a = nat, of x] by simp
  ultimately show ?thesis
    by (simp only: unsigned_push_bit_eq) (simp add: push_bit_eq_mult take_bit_eq_mod)
qed

text \<open>
  The scale of a block. \<^verbatim>\<open>ggml_e8m0_to_fp32\<close> maps the byte \<open>x\<close> to the pattern of 2^(x - 127), the
  smallest byte included (in units of 2^(-149); the largest byte gives the pattern of infinity,
  which counts as 2^128), and \<^verbatim>\<open>ggml_e8m0_to_fp32_half\<close> gives half of it.
\<close>

theorem ggml_e8m0_to_fp32_is_power:
  "f32_units (ggml_e8m0_to_fp32 x) = 2 ^ (unat x + 22)
   \<and> 2 * f32_units (ggml_e8m0_to_fp32_half x) = f32_units (ggml_e8m0_to_fp32 x)"
proof -
  have x8: "unat y < 2 ^ 8" for y :: "8 word" using unsigned_less [where 'a = nat, of y] by simp
  have full: "f32_units (ggml_e8m0_to_fp32 x) = 2 ^ (unat x + 22)"
  proof (cases "x = 0")
    case True
    then show ?thesis by (simp add: ggml_e8m0_to_fp32_def f32_units_def magnitude_def)
  next
    case False
    then have "0 < unat x" by (simp add: unat_gt_0)
    then show ?thesis
      using power_units [OF _ x8 scale_pattern] False by (simp add: ggml_e8m0_to_fp32_def)
  qed
  have half: "f32_units (ggml_e8m0_to_fp32_half x) = 2 ^ (unat x + 21)"
  proof (cases "x < 2")
    case True
    then have "unat x = 0 \<or> unat x = 1" by (auto simp: word_less_nat_alt)
    then show ?thesis
      using True by (auto simp: ggml_e8m0_to_fp32_half_def f32_units_def magnitude_def push_bit_eq_mult)
  next
    case False
    then have ge: "2 \<le> unat x" by (simp add: word_less_nat_alt)
    then have "unat (x - 1) = unat x - 1" by (intro unat_minus_one) auto
    then show ?thesis
      using power_units [OF _ x8 scale_pattern, of "x - 1"] ge False by (simp add: ggml_e8m0_to_fp32_half_def)
  qed
  show ?thesis using full half by (simp add: power_add)
qed

end
