(* ===== verification/GGML_Galloc.thy ===== *)
theory GGML_Galloc
  imports GGML_DynAlloc GGML_Graph
begin

text \<open>
  The graph allocator of \<^verbatim>\<open>ggml/src/ggml-alloc.c\<close> (\<^verbatim>\<open>ggml_gallocr\<close>): it walks a computation graph
  in execution order, gives every tensor that has no memory yet a range of one of its buffers,
  takes a range back after the last reader of the tensor, and records the resulting plan. The
  descriptors are only read here; the allocator keeps its own counters in an array indexed by the
  slots of a pointer hash set. A backend's buffer type is a parameter: a table of the functions
  its interface has.
\<close>

section \<open>Buffer types\<close>

text \<open>
  \<^verbatim>\<open>ggml_backend_buffer_type_i\<close> as far as the allocator uses it; \<open>None\<close> is a \<^verbatim>\<open>NULL\<close> function
  pointer of an optional entry. The functions of \<^verbatim>\<open>ggml-backend.cpp\<close> that dispatch to it:
\<close>

record buffer_type =
  bt_get_alignment :: size_t
  bt_get_max_size :: "size_t option"
  bt_get_alloc_size :: "(ggml_state \<Rightarrow> ptr \<Rightarrow> size_t) option"

type_synonym backends = "ptr \<Rightarrow> buffer_type"

definition ggml_backend_buft_get_alignment :: "backends \<Rightarrow> ptr \<Rightarrow> size_t option" where
  "ggml_backend_buft_get_alignment B buft = do {
     ggml_assert (buft \<noteq> 0);
     Some (bt_get_alignment (B buft)) }"

definition ggml_backend_buft_get_max_size :: "backends \<Rightarrow> ptr \<Rightarrow> size_t option" where
  "ggml_backend_buft_get_max_size B buft = do {
     ggml_assert (buft \<noteq> 0);
     Some (case bt_get_max_size (B buft) of Some sz \<Rightarrow> sz | None \<Rightarrow> SIZE_MAX) }"

definition ggml_backend_buft_get_alloc_size :: "backends \<Rightarrow> ggml_state \<Rightarrow> ptr \<Rightarrow> ptr \<Rightarrow> size_t option" where
  "ggml_backend_buft_get_alloc_size B s buft tensor = do {
     ggml_assert (buft \<noteq> 0);
     case bt_get_alloc_size (B buft) of
       Some get_alloc_size \<Rightarrow> Some (get_alloc_size s tensor)
     | None \<Rightarrow> do { t \<leftarrow> deref s tensor; Some (ggml_nbytes t) } }"

section \<open>The allocator\<close>

definition ggml_op_can_inplace :: "ggml_op \<Rightarrow> bool" where
  "ggml_op_can_inplace op = (case op of
     GGML_OP_FILL \<Rightarrow> True | GGML_OP_SCALE \<Rightarrow> True | GGML_OP_DIAG_MASK_ZERO \<Rightarrow> True
   | GGML_OP_DIAG_MASK_INF \<Rightarrow> True | GGML_OP_ADD \<Rightarrow> True | GGML_OP_ADD_ID \<Rightarrow> True | GGML_OP_ADD1 \<Rightarrow> True
   | GGML_OP_SUB \<Rightarrow> True | GGML_OP_MUL \<Rightarrow> True | GGML_OP_DIV \<Rightarrow> True | GGML_OP_SQR \<Rightarrow> True
   | GGML_OP_SQRT \<Rightarrow> True | GGML_OP_LOG \<Rightarrow> True | GGML_OP_UNARY \<Rightarrow> True | GGML_OP_ROPE \<Rightarrow> True
   | GGML_OP_ROPE_BACK \<Rightarrow> True | GGML_OP_SILU_BACK \<Rightarrow> True | GGML_OP_RMS_NORM \<Rightarrow> True
   | GGML_OP_RMS_NORM_BACK \<Rightarrow> True | GGML_OP_SOFT_MAX \<Rightarrow> True | GGML_OP_SOFT_MAX_BACK \<Rightarrow> True
   | _ \<Rightarrow> False)"

record hash_node =
  hn_n_children :: int32_t
  hn_n_views :: int32_t
  hn_buffer_id :: int32_t
  hn_addr :: buffer_address
  hn_allocated :: bool

record tensor_alloc =
  ta_buffer_id :: int32_t
  ta_addr :: buffer_address
  ta_size_max :: size_t

record leaf_alloc =
  la_leaf :: tensor_alloc

record node_alloc =
  na_dst :: tensor_alloc
  na_src :: "tensor_alloc list"

text \<open>
  \<^verbatim>\<open>buf_tallocs\<close> is an array of pointers in which one allocator may occur several times; here it
  is a list of indices into the list of allocators. \<open>ga_node_allocs\<close> and \<open>ga_leaf_allocs\<close> are the
  whole arrays, of which the first \<open>ga_n_nodes\<close> and \<open>ga_n_leafs\<close> entries are in use.
\<close>

record ggml_gallocr =
  ga_bufts :: "ptr list"
  ga_buffers :: "ptr list"
  ga_buf_tallocs :: "nat list"
  ga_tallocs :: "ggml_dyn_tallocr list"
  ga_hash_set :: ggml_hash_set
  ga_hash_values :: "hash_node list"
  ga_node_allocs :: "node_alloc list"
  ga_n_nodes :: int32_t
  ga_leaf_allocs :: "leaf_alloc list"
  ga_n_leafs :: int32_t

definition n_buffers :: "ggml_gallocr \<Rightarrow> nat" where
  "n_buffers galloc = length (ga_bufts galloc)"

text \<open>The index of the first entry of a list that equals \<open>x\<close>, the search of \<^verbatim>\<open>ggml_gallocr_new_n\<close>.\<close>

fun first_index :: "'a \<Rightarrow> 'a list \<Rightarrow> nat option" where
  "first_index x [] = None"
| "first_index x (y # ys) = (if x = y then Some 0 else map_option Suc (first_index x ys))"

definition gallocr_add_buft :: "backends \<Rightarrow> ptr \<Rightarrow> ggml_gallocr \<Rightarrow> ggml_gallocr option" where
  "gallocr_add_buft B buft galloc =
     (case first_index buft (ga_bufts galloc) of
        Some j \<Rightarrow> Some (galloc\<lparr>ga_bufts := ga_bufts galloc @ [buft], ga_buffers := ga_buffers galloc @ [0],
                              ga_buf_tallocs := ga_buf_tallocs galloc @ [ga_buf_tallocs galloc ! j]\<rparr>)
      | None \<Rightarrow> do {
          alignment \<leftarrow> ggml_backend_buft_get_alignment B buft;
          max_sz \<leftarrow> ggml_backend_buft_get_max_size B buft;
          Some (galloc\<lparr>ga_bufts := ga_bufts galloc @ [buft], ga_buffers := ga_buffers galloc @ [0],
                       ga_buf_tallocs := ga_buf_tallocs galloc @ [length (ga_tallocs galloc)],
                       ga_tallocs := ga_tallocs galloc @ [ggml_dyn_tallocr_new alignment max_sz]\<rparr>) })"

definition ggml_gallocr_new_n :: "backends \<Rightarrow> ptr list \<Rightarrow> ggml_gallocr option" where
  "ggml_gallocr_new_n B bufts =
     foldM (gallocr_add_buft B) bufts
       \<lparr>ga_bufts = [], ga_buffers = [], ga_buf_tallocs = [], ga_tallocs = [],
        ga_hash_set = \<lparr>hs_size = 0, hs_used = [], hs_keys = []\<rparr>, ga_hash_values = [],
        ga_node_allocs = [], ga_n_nodes = 0, ga_leaf_allocs = [], ga_n_leafs = 0\<rparr>"

definition ggml_gallocr_new :: "backends \<Rightarrow> ptr \<Rightarrow> ggml_gallocr option" where
  "ggml_gallocr_new B buft = ggml_gallocr_new_n B [buft]"

section \<open>The records of tensors\<close>

text \<open>
  \<^verbatim>\<open>ggml_gallocr_hash_get\<close> returns a pointer to an entry of \<^verbatim>\<open>hash_values\<close>; here it is the index of
  the entry, which stays the same while the plan is made. A tensor without an entry gets one.
\<close>

definition ggml_gallocr_hash_get :: "ggml_gallocr \<Rightarrow> ptr \<Rightarrow> (nat \<times> ggml_gallocr) option" where
  "ggml_gallocr_hash_get galloc t = do {
     (i, hash_set) \<leftarrow> ggml_hash_find_or_insert (ga_hash_set galloc) t;
     Some (i, galloc\<lparr>ga_hash_set := hash_set\<rparr>) }"

definition hn_get :: "ggml_gallocr \<Rightarrow> nat \<Rightarrow> hash_node" where
  "hn_get galloc i = ga_hash_values galloc ! i"

definition hn_upd :: "nat \<Rightarrow> (hash_node \<Rightarrow> hash_node) \<Rightarrow> ggml_gallocr \<Rightarrow> ggml_gallocr" where
  "hn_upd i f galloc = galloc\<lparr>ga_hash_values := (ga_hash_values galloc)[i := f (ga_hash_values galloc ! i)]\<rparr>"

definition ggml_gallocr_is_own :: "ggml_gallocr \<Rightarrow> ptr \<Rightarrow> (bool \<times> ggml_gallocr) option" where
  "ggml_gallocr_is_own galloc t = do {
     (i, galloc) \<leftarrow> ggml_gallocr_hash_get galloc t;
     Some (hn_allocated (hn_get galloc i), galloc) }"

definition ggml_gallocr_is_allocated :: "ggml_gallocr \<Rightarrow> ggml_state \<Rightarrow> ptr \<Rightarrow> (bool \<times> ggml_gallocr) option" where
  "ggml_gallocr_is_allocated galloc s t = do {
     tn \<leftarrow> deref s t;
     if t_data tn \<noteq> 0 \<or> t_buffer tn \<noteq> 0 then Some (True, galloc) else ggml_gallocr_is_own galloc t }"

text \<open>The entries of the arrays \<^verbatim>\<open>bufts\<close> and \<^verbatim>\<open>buf_tallocs\<close> for a buffer number.\<close>

definition buft_at :: "ggml_gallocr \<Rightarrow> int32_t \<Rightarrow> ptr option" where
  "buft_at galloc i = (if i < 0 then None else array_get (ga_bufts galloc) (nat i))"

definition talloc_index :: "ggml_gallocr \<Rightarrow> int32_t \<Rightarrow> nat option" where
  "talloc_index galloc i = (if i < 0 then None else array_get (ga_buf_tallocs galloc) (nat i))"

definition talloc_at :: "ggml_gallocr \<Rightarrow> int32_t \<Rightarrow> (nat \<times> ggml_dyn_tallocr) option" where
  "talloc_at galloc i = do {
     k \<leftarrow> talloc_index galloc i;
     a \<leftarrow> array_get (ga_tallocs galloc) k;
     Some (k, a) }"

text \<open>\<^verbatim>\<open>ggml_backend_buft_get_alloc_size(galloc->bufts[id], tensor)\<close>\<close>

definition alloc_size_in :: "backends \<Rightarrow> ggml_state \<Rightarrow> ggml_gallocr \<Rightarrow> int32_t \<Rightarrow> ptr \<Rightarrow> size_t option" where
  "alloc_size_in B s galloc buffer_id tensor = do {
     buft \<leftarrow> buft_at galloc buffer_id;
     ggml_backend_buft_get_alloc_size B s buft tensor }"

section \<open>Giving out and taking back ranges\<close>

definition ggml_gallocr_free_extra_space ::
  "backends \<Rightarrow> ggml_state \<Rightarrow> ggml_gallocr \<Rightarrow> ptr \<Rightarrow> ptr \<Rightarrow> ggml_gallocr option" where
  "ggml_gallocr_free_extra_space B s galloc node parent = do {
     (hn, galloc) \<leftarrow> ggml_gallocr_hash_get galloc node;
     (p_hn, galloc) \<leftarrow> ggml_gallocr_hash_get galloc parent;
     parent_size \<leftarrow> alloc_size_in B s galloc (hn_buffer_id (hn_get galloc p_hn)) parent;
     node_size \<leftarrow> alloc_size_in B s galloc (hn_buffer_id (hn_get galloc hn)) node;
     ggml_assert (parent_size \<ge> node_size);
     (k, p_alloc) \<leftarrow> talloc_at galloc (hn_buffer_id (hn_get galloc p_hn));
     let parent_size = aligned_offset 0 parent_size (dt_alignment p_alloc);
     let node_size = aligned_offset 0 node_size (dt_alignment p_alloc);
     if parent_size > node_size then do {
       let p_addr = hn_addr (hn_get galloc p_hn);
       let p_addr = p_addr\<lparr>ba_offset := sz_add (ba_offset p_addr) node_size\<rparr>;
       let extra_size = sz_sub parent_size node_size;
       p_alloc \<leftarrow> ggml_dyn_tallocr_free_bytes p_alloc p_addr extra_size;
       Some (galloc\<lparr>ga_tallocs := (ga_tallocs galloc)[k := p_alloc]\<rparr>) }
     else Some galloc }"

text \<open>
  The loop over the sources that looks for a range to take over; the returned flag tells whether
  it found one, in which case the function returns.
\<close>

fun allocr_reuse_loop ::
  "backends \<Rightarrow> ggml_state \<Rightarrow> ptr \<Rightarrow> nat \<Rightarrow> ptr list \<Rightarrow> ggml_gallocr \<Rightarrow> (bool \<times> ggml_gallocr) option" where
  "allocr_reuse_loop B s node hn [] galloc = Some (False, galloc)"
| "allocr_reuse_loop B s node hn (parent # rest) galloc =
     (if parent = 0 then allocr_reuse_loop B s node hn rest galloc
      else do {
        (own, galloc) \<leftarrow> ggml_gallocr_is_own galloc parent;
        if \<not> own then allocr_reuse_loop B s node hn rest galloc
        else do {
          t \<leftarrow> deref s node;
          p \<leftarrow> deref s parent;
          out \<leftarrow> (if has_flag p GGML_TENSOR_FLAG_OUTPUT then Some True
                  else if t_view_src p \<noteq> 0 then do {
                    v \<leftarrow> deref s (t_view_src p);
                    Some (has_flag v GGML_TENSOR_FLAG_OUTPUT) }
                  else Some False);
          if out then allocr_reuse_loop B s node hn rest galloc
          else if \<not> ggml_are_same_layout t p then allocr_reuse_loop B s node hn rest galloc
          else do {
            (p_hn, galloc) \<leftarrow> ggml_gallocr_hash_get galloc parent;
            if hn_n_children (hn_get galloc p_hn) = 1 \<and> hn_n_views (hn_get galloc p_hn) = 0 then
              if ggml_impl_is_view p then do {
                let view_src = t_view_src p;
                (view_src_hn, galloc) \<leftarrow> ggml_gallocr_hash_get galloc view_src;
                v \<leftarrow> deref s view_src;
                if hn_n_views (hn_get galloc view_src_hn) = 1 \<and> hn_n_children (hn_get galloc view_src_hn) = 0
                   \<and> t_data v = t_data p then do {
                  let galloc = hn_upd hn (\<lambda>h. h\<lparr>hn_buffer_id := hn_buffer_id (hn_get galloc p_hn),
                                                hn_addr := hn_addr (hn_get galloc p_hn)\<rparr>) galloc;
                  let galloc = hn_upd p_hn (hn_allocated_update (\<lambda>_. False)) galloc;
                  let galloc = hn_upd view_src_hn (hn_allocated_update (\<lambda>_. False)) galloc;
                  galloc \<leftarrow> ggml_gallocr_free_extra_space B s galloc node view_src;
                  Some (True, galloc) }
                else allocr_reuse_loop B s node hn rest galloc }
              else do {
                let galloc = hn_upd hn (\<lambda>h. h\<lparr>hn_buffer_id := hn_buffer_id (hn_get galloc p_hn),
                                              hn_addr := hn_addr (hn_get galloc p_hn)\<rparr>) galloc;
                let galloc = hn_upd p_hn (hn_allocated_update (\<lambda>_. False)) galloc;
                galloc \<leftarrow> ggml_gallocr_free_extra_space B s galloc node parent;
                Some (True, galloc) }
            else allocr_reuse_loop B s node hn rest galloc } } })"

text \<open>Allocating a tensor from its buffer, once no source could be taken over.\<close>

definition allocr_from_buffer ::
  "backends \<Rightarrow> ggml_state \<Rightarrow> ggml_gallocr \<Rightarrow> ptr \<Rightarrow> nat \<Rightarrow> int32_t \<Rightarrow> ggml_gallocr option" where
  "allocr_from_buffer B s galloc node hn buffer_id = do {
     (k, alloc) \<leftarrow> talloc_at galloc buffer_id;
     sz \<leftarrow> alloc_size_in B s galloc buffer_id node;
     let galloc = hn_upd hn (hn_buffer_id_update (\<lambda>_. buffer_id)) galloc;
     (alloc, addr) \<leftarrow> ggml_dyn_tallocr_alloc alloc sz;
     Some (hn_upd hn (hn_addr_update (\<lambda>_. addr)) (galloc\<lparr>ga_tallocs := (ga_tallocs galloc)[k := alloc]\<rparr>)) }"

definition ggml_gallocr_allocate_node ::
  "backends \<Rightarrow> ggml_state \<Rightarrow> ggml_gallocr \<Rightarrow> ptr \<Rightarrow> int32_t \<Rightarrow> ggml_gallocr option" where
  "ggml_gallocr_allocate_node B s galloc node buffer_id = do {
     ggml_assert (buffer_id \<ge> 0);
     (hn, galloc) \<leftarrow> ggml_gallocr_hash_get galloc node;
     (allocated, galloc) \<leftarrow> ggml_gallocr_is_allocated galloc s node;
     t \<leftarrow> deref s node;
     if \<not> allocated \<and> \<not> ggml_impl_is_view t then do {
       let galloc = hn_upd hn (hn_allocated_update (\<lambda>_. True)) galloc;
       (reused, galloc) \<leftarrow> (if ggml_op_can_inplace (t_op t)
                            then allocr_reuse_loop B s node hn (t_src t) galloc
                            else Some (False, galloc));
       if reused then Some galloc
       else allocr_from_buffer B s galloc node hn buffer_id }
     else Some galloc }"

definition ggml_gallocr_free_node :: "backends \<Rightarrow> ggml_state \<Rightarrow> ggml_gallocr \<Rightarrow> ptr \<Rightarrow> ggml_gallocr option" where
  "ggml_gallocr_free_node B s galloc node = do {
     t \<leftarrow> deref s node;
     if has_flag t GGML_TENSOR_FLAG_OUTPUT then Some galloc
     else do {
       (hn, galloc) \<leftarrow> ggml_gallocr_hash_get galloc node;
       let buffer_id = hn_buffer_id (hn_get galloc hn);
       (k, alloc) \<leftarrow> talloc_at galloc buffer_id;
       sz \<leftarrow> alloc_size_in B s galloc buffer_id node;
       alloc \<leftarrow> ggml_dyn_tallocr_free_bytes alloc (hn_addr (hn_get galloc hn)) sz;
       Some (hn_upd hn (hn_allocated_update (\<lambda>_. False))
               (galloc\<lparr>ga_tallocs := (ga_tallocs galloc)[k := alloc]\<rparr>)) } }"

section \<open>Planning a graph\<close>

text \<open>A \<^verbatim>\<open>NULL\<close> array of buffer numbers stands for buffer 0 throughout.\<close>

definition get_node_buffer_id :: "int32_t list option \<Rightarrow> nat \<Rightarrow> int32_t option" where
  "get_node_buffer_id node_buffer_ids i =
     (case node_buffer_ids of Some ids \<Rightarrow> array_get ids i | None \<Rightarrow> Some 0)"

text \<open>
  The three loops of \<^verbatim>\<open>ggml_gallocr_alloc_graph_impl\<close>: one turn of the loop over the leafs, of the
  loop that counts children and views, and of the loop that allocates in execution order.
\<close>

definition allocr_leaf ::
  "backends \<Rightarrow> ggml_state \<Rightarrow> ggml_cgraph \<Rightarrow> int32_t list option \<Rightarrow> nat \<Rightarrow> ggml_gallocr \<Rightarrow> ggml_gallocr option" where
  "allocr_leaf B s graph leaf_buffer_ids i galloc = do {
     buffer_id \<leftarrow> get_node_buffer_id leaf_buffer_ids i;
     ggml_gallocr_allocate_node B s galloc (cg_leafs graph ! i) buffer_id }"

definition count_src ::
  "backends \<Rightarrow> ggml_state \<Rightarrow> int32_t list option \<Rightarrow> nat \<Rightarrow> ptr \<Rightarrow> ggml_gallocr \<Rightarrow> ggml_gallocr option" where
  "count_src B s node_buffer_ids i src galloc =
     (if src = 0 then Some galloc
      else do {
        (hn, galloc) \<leftarrow> ggml_gallocr_hash_get galloc src;
        let galloc = hn_upd hn (hn_n_children_update (\<lambda>n. n + 1)) galloc;
        t \<leftarrow> deref s src;
        if has_flag t GGML_TENSOR_FLAG_INPUT then do {
          buffer_id \<leftarrow> get_node_buffer_id node_buffer_ids i;
          ggml_gallocr_allocate_node B s galloc src buffer_id }
        else Some galloc })"

definition count_view :: "ggml_gallocr \<Rightarrow> ggml_tensor \<Rightarrow> ggml_gallocr option" where
  "count_view galloc t =
     (if ggml_impl_is_view t \<and> t_op t \<noteq> GGML_OP_NONE then do {
        (hn, galloc) \<leftarrow> ggml_gallocr_hash_get galloc (t_view_src t);
        Some (hn_upd hn (hn_n_views_update (\<lambda>n. n + 1)) galloc) }
      else Some galloc)"

definition count_node ::
  "backends \<Rightarrow> ggml_state \<Rightarrow> ggml_cgraph \<Rightarrow> int32_t list option \<Rightarrow> nat \<Rightarrow> ggml_gallocr \<Rightarrow> ggml_gallocr option" where
  "count_node B s graph node_buffer_ids i galloc = do {
     let node = cg_nodes graph ! i;
     t \<leftarrow> deref s node;
     galloc \<leftarrow> count_view galloc t;
     galloc \<leftarrow> (if has_flag t GGML_TENSOR_FLAG_INPUT then do {
                  buffer_id \<leftarrow> get_node_buffer_id node_buffer_ids i;
                  ggml_gallocr_allocate_node B s galloc node buffer_id }
                else Some galloc);
     foldM (count_src B s node_buffer_ids i) (t_src t) galloc }"

definition allocr_parent ::
  "backends \<Rightarrow> ggml_state \<Rightarrow> int32_t \<Rightarrow> ptr \<Rightarrow> ggml_gallocr \<Rightarrow> ggml_gallocr option" where
  "allocr_parent B s buffer_id parent galloc =
     (if parent = 0 then Some galloc else ggml_gallocr_allocate_node B s galloc parent buffer_id)"

definition release_parent ::
  "backends \<Rightarrow> ggml_state \<Rightarrow> ptr \<Rightarrow> ggml_gallocr \<Rightarrow> ggml_gallocr option" where
  "release_parent B s parent galloc =
     (if parent = 0 then Some galloc
      else do {
        (p_hn, galloc) \<leftarrow> ggml_gallocr_hash_get galloc parent;
        let galloc = hn_upd p_hn (hn_n_children_update (\<lambda>n. n - 1)) galloc;
        if hn_n_children (hn_get galloc p_hn) = 0 \<and> hn_n_views (hn_get galloc p_hn) = 0 then do {
          p \<leftarrow> deref s parent;
          if ggml_impl_is_view p then do {
            let view_src = t_view_src p;
            (view_src_hn, galloc) \<leftarrow> ggml_gallocr_hash_get galloc view_src;
            let galloc = hn_upd view_src_hn (hn_n_views_update (\<lambda>n. n - 1)) galloc;
            let h = hn_get galloc view_src_hn;
            if hn_n_views h = 0 \<and> hn_n_children h = 0 \<and> hn_allocated h
            then ggml_gallocr_free_node B s galloc view_src
            else Some galloc }
          else if hn_allocated (hn_get galloc p_hn) then ggml_gallocr_free_node B s galloc parent
          else Some galloc }
        else Some galloc })"

definition allocr_node ::
  "backends \<Rightarrow> ggml_state \<Rightarrow> ggml_cgraph \<Rightarrow> int32_t list option \<Rightarrow> nat \<Rightarrow> ggml_gallocr \<Rightarrow> ggml_gallocr option" where
  "allocr_node B s graph node_buffer_ids i galloc = do {
     let node = cg_nodes graph ! i;
     buffer_id \<leftarrow> get_node_buffer_id node_buffer_ids i;
     t \<leftarrow> deref s node;
     galloc \<leftarrow> foldM (allocr_parent B s buffer_id) (t_src t) galloc;
     galloc \<leftarrow> ggml_gallocr_allocate_node B s galloc node buffer_id;
     foldM (release_parent B s) (t_src t) galloc }"

definition hn_zero :: hash_node where
  "hn_zero = \<lparr>hn_n_children = 0, hn_n_views = 0, hn_buffer_id = 0,
              hn_addr = \<lparr>ba_chunk = 0, ba_offset = 0\<rparr>, hn_allocated = False\<rparr>"

definition gallocr_clear :: "ggml_gallocr \<Rightarrow> ggml_gallocr" where
  "gallocr_clear galloc =
     galloc\<lparr>ga_hash_set := ggml_hash_set_reset (ga_hash_set galloc),
            ga_hash_values := replicate (hs_size (ga_hash_set galloc)) hn_zero\<rparr>"

definition ggml_gallocr_alloc_graph_impl ::
  "backends \<Rightarrow> ggml_state \<Rightarrow> ggml_gallocr \<Rightarrow> ggml_cgraph \<Rightarrow> int32_t list option \<Rightarrow> int32_t list option
   \<Rightarrow> ggml_gallocr option" where
  "ggml_gallocr_alloc_graph_impl B s galloc graph node_buffer_ids leaf_buffer_ids = do {
     let galloc = gallocr_clear galloc;
     galloc \<leftarrow> foldM (allocr_leaf B s graph leaf_buffer_ids) [0..<length (cg_leafs graph)] galloc;
     galloc \<leftarrow> foldM (count_node B s graph node_buffer_ids) [0..<length (cg_nodes graph)] galloc;
     foldM (allocr_node B s graph node_buffer_ids) [0..<length (cg_nodes graph)] galloc }"

section \<open>Recording the plan\<close>

definition ta_none :: tensor_alloc where
  "ta_none = \<lparr>ta_buffer_id = -1, ta_addr = GGML_BUFFER_ADDRESS_INVALID, ta_size_max = 0\<rparr>"

definition record_alloc ::
  "backends \<Rightarrow> ggml_state \<Rightarrow> ptr \<Rightarrow> ggml_gallocr \<Rightarrow> (tensor_alloc \<times> ggml_gallocr) option" where
  "record_alloc B s tensor galloc = do {
     t \<leftarrow> deref s tensor;
     if t_view_src t \<noteq> 0 \<or> t_data t \<noteq> 0 then Some (ta_none, galloc)
     else do {
       (hn, galloc) \<leftarrow> ggml_gallocr_hash_get galloc tensor;
       let h = hn_get galloc hn;
       sz \<leftarrow> alloc_size_in B s galloc (hn_buffer_id h) tensor;
       Some (\<lparr>ta_buffer_id = hn_buffer_id h, ta_addr = hn_addr h, ta_size_max = sz\<rparr>, galloc) } }"

fun record_srcs ::
  "backends \<Rightarrow> ggml_state \<Rightarrow> ptr list \<Rightarrow> ggml_gallocr \<Rightarrow> (tensor_alloc list \<times> ggml_gallocr) option" where
  "record_srcs B s [] galloc = Some ([], galloc)"
| "record_srcs B s (src # rest) galloc = do {
     (ta, galloc) \<leftarrow> (if src = 0 then Some (ta_none, galloc) else record_alloc B s src galloc);
     (tas, galloc) \<leftarrow> record_srcs B s rest galloc;
     Some (ta # tas, galloc) }"

definition record_node :: "backends \<Rightarrow> ggml_state \<Rightarrow> ggml_cgraph \<Rightarrow> nat \<Rightarrow> ggml_gallocr \<Rightarrow> ggml_gallocr option" where
  "record_node B s graph i galloc = do {
     let node = cg_nodes graph ! i;
     t \<leftarrow> deref s node;
     (dst, galloc) \<leftarrow> record_alloc B s node galloc;
     (src, galloc) \<leftarrow> record_srcs B s (t_src t) galloc;
     node_allocs \<leftarrow> array_set (ga_node_allocs galloc) i \<lparr>na_dst = dst, na_src = src\<rparr>;
     Some (galloc\<lparr>ga_node_allocs := node_allocs\<rparr>) }"

text \<open>For a leaf the code looks up its entry before it tests whether it needs it.\<close>

definition record_leaf :: "backends \<Rightarrow> ggml_state \<Rightarrow> ggml_cgraph \<Rightarrow> nat \<Rightarrow> ggml_gallocr \<Rightarrow> ggml_gallocr option" where
  "record_leaf B s graph i galloc = do {
     let leaf = cg_leafs graph ! i;
     (_, galloc) \<leftarrow> ggml_gallocr_hash_get galloc leaf;
     (ta, galloc) \<leftarrow> record_alloc B s leaf galloc;
     leaf_allocs \<leftarrow> array_set (ga_leaf_allocs galloc) i \<lparr>la_leaf = ta\<rparr>;
     Some (galloc\<lparr>ga_leaf_allocs := leaf_allocs\<rparr>) }"

text \<open>Resizing the hash table and the arrays; \<^verbatim>\<open>calloc\<close> fills the arrays with zeros.\<close>

definition ta_zero :: tensor_alloc where
  "ta_zero = \<lparr>ta_buffer_id = 0, ta_addr = \<lparr>ba_chunk = 0, ba_offset = 0\<rparr>, ta_size_max = 0\<rparr>"

definition gallocr_init_hash :: "ggml_gallocr \<Rightarrow> ggml_cgraph \<Rightarrow> ggml_gallocr" where
  "gallocr_init_hash galloc graph =
     (let min_hash_size = sz_of_int (n_nodes graph + n_leafs graph);
          min_hash_size = sz_add min_hash_size (min_hash_size div 4)
      in if hs_size (ga_hash_set galloc) < min_hash_size then
           let hash_set = ggml_hash_set_new min_hash_size
           in galloc\<lparr>ga_hash_set := hash_set, ga_hash_values := replicate (hs_size hash_set) hn_zero\<rparr>
         else galloc)"

definition gallocr_init_nodes :: "ggml_gallocr \<Rightarrow> ggml_cgraph \<Rightarrow> ggml_gallocr" where
  "gallocr_init_nodes galloc graph =
     (let galloc = (if ga_n_nodes galloc < n_nodes graph
                    then galloc\<lparr>ga_node_allocs := replicate (length (cg_nodes graph))
                                  \<lparr>na_dst = ta_zero, na_src = replicate GGML_MAX_SRC ta_zero\<rparr>\<rparr>
                    else galloc)
      in galloc\<lparr>ga_n_nodes := n_nodes graph\<rparr>)"

definition gallocr_init_leafs :: "ggml_gallocr \<Rightarrow> ggml_cgraph \<Rightarrow> ggml_gallocr" where
  "gallocr_init_leafs galloc graph =
     (let galloc = (if ga_n_leafs galloc < n_leafs graph
                    then galloc\<lparr>ga_leaf_allocs := replicate (length (cg_leafs graph)) \<lparr>la_leaf = ta_zero\<rparr>\<rparr>
                    else galloc)
      in galloc\<lparr>ga_n_leafs := n_leafs graph\<rparr>)"

text \<open>\<^verbatim>\<open>ggml_gallocr_reserve_n_impl\<close> up to the point where it looks at the buffers.\<close>

definition gallocr_make_plan ::
  "backends \<Rightarrow> ggml_state \<Rightarrow> ggml_gallocr \<Rightarrow> ggml_cgraph \<Rightarrow> int32_t list option \<Rightarrow> int32_t list option
   \<Rightarrow> ggml_gallocr option" where
  "gallocr_make_plan B s galloc graph node_buffer_ids leaf_buffer_ids = do {
     let galloc = gallocr_init_hash galloc graph;
     let galloc = galloc\<lparr>ga_tallocs := map ggml_dyn_tallocr_reset (ga_tallocs galloc)\<rparr>;
     galloc \<leftarrow> ggml_gallocr_alloc_graph_impl B s galloc graph node_buffer_ids leaf_buffer_ids;
     let galloc = gallocr_init_nodes galloc graph;
     galloc \<leftarrow> foldM (record_node B s graph) [0..<length (cg_nodes graph)] galloc;
     let galloc = gallocr_init_leafs galloc graph;
     foldM (record_leaf B s graph) [0..<length (cg_leafs graph)] galloc }"

end
