(* ===== verification/GGML_GallocMem.thy ===== *)
theory GGML_GallocMem
  imports GGML_Galloc
begin

text \<open>
  The memory side of the graph allocator. The counters in the hash table behave like a map from
  tensors to records (\<open>hn_of\<close>); \<open>mem_inv\<close> says that the ranges of the tensors flagged as
  allocated are pairwise disjoint and disjoint from what the buffer allocators still have free,
  and every operation of the graph allocator is shown to preserve it.
\<close>

section \<open>The records as a map\<close>

definition ga_inv :: "ggml_gallocr \<Rightarrow> bool" where
  "ga_inv g \<longleftrightarrow> hs_inv (ga_hash_set g) \<and> length (ga_hash_values g) = hs_size (ga_hash_set g)
     \<and> (\<forall>i < hs_size (ga_hash_set g). \<not> used_slot (ga_hash_set g) i \<longrightarrow> ga_hash_values g ! i = hn_zero)"

definition has_slot :: "ggml_gallocr \<Rightarrow> ptr \<Rightarrow> nat \<Rightarrow> bool" where
  "has_slot g p i \<longleftrightarrow> member_slot (ga_hash_set g) p = Some i"

definition hn_of :: "ggml_gallocr \<Rightarrow> ptr \<Rightarrow> hash_node" where
  "hn_of g p = (case member_slot (ga_hash_set g) p of None \<Rightarrow> hn_zero | Some i \<Rightarrow> ga_hash_values g ! i)"

text \<open>What the loops over a graph never change.\<close>

definition ga_static :: "ggml_gallocr \<Rightarrow> (ptr list \<times> ptr list \<times> nat list) \<times> size_t list \<times> nat
    \<times> (node_alloc list \<times> int32_t \<times> leaf_alloc list \<times> int32_t)" where
  "ga_static g = ((ga_bufts g, ga_buffers g, ga_buf_tallocs g), map dt_alignment (ga_tallocs g),
     hs_size (ga_hash_set g), (ga_node_allocs g, ga_n_nodes g, ga_leaf_allocs g, ga_n_leafs g))"

lemma hash_get_correct:
  assumes "ga_inv g" "ggml_gallocr_hash_get g t = Some (i, g')"
  shows "ga_inv g'" "hn_of g' = hn_of g" "has_slot g' t i" "has_slot g p j \<Longrightarrow> has_slot g' p j"
    and "ga_static g' = ga_static g" "ga_tallocs g' = ga_tallocs g" "hn_get g' i = hn_of g t"
proof -
  obtain hs where hs: "ggml_hash_find_or_insert (ga_hash_set g) t = Some (i, hs)"
    and g': "g' = g\<lparr>ga_hash_set := hs\<rparr>"
    using assms(2) by (auto simp: ggml_gallocr_hash_get_def bind_eq_Some_conv)
  have inv: "hs_inv (ga_hash_set g)" using assms(1) by (simp add: ga_inv_def)
  note h = hash.add_invar [OF inv hs] hash.add_capacity [OF inv hs] hash.add_slot [OF inv hs]
    hash.add_other [OF inv hs] hash.add_elems [OF inv hs]
  have same: "hs = ga_hash_set g" if "t \<in> hs_set (ga_hash_set g)"
    using hs that hash_insert_cases(2) [OF inv, of t] by (auto split: option.splits)
  then have keep: "member_slot hs t = member_slot (ga_hash_set g) t" if "t \<in> hs_set (ga_hash_set g)"
    using that by simp
  have used: "used_slot hs j" if u: "used_slot (ga_hash_set g) j" for j
  proof (cases "hs_keys (ga_hash_set g) ! j = t")
    case True
    then show ?thesis using same u by (auto simp: hs_set_def)
  next
    case False
    then show ?thesis using u find_or_insert_Some(4) [OF inv hs, of j "hs_keys (ga_hash_set g) ! j"] by simp
  qed
  have fresh: "ga_hash_values g ! i = hn_zero" if "t \<notin> hs_set (ga_hash_set g)"
  proof -
    have sl: "slot_of (ga_hash_set g) t = Some i" using hs hash_insert_cases(2) [OF inv, of t] by (auto split: option.splits)
    have "i < hs_size (ga_hash_set g)" "\<not> used_slot (ga_hash_set g) i"
      using slot_of_Some [OF inv sl] that by (auto simp: used_slot_def)
    then show ?thesis using assms(1) by (simp add: ga_inv_def)
  qed
  have none: "member_slot (ga_hash_set g) t = None" if "t \<notin> hs_set (ga_hash_set g)"
    using that by (simp add: member_slot_def)
  show "ga_inv g'" using assms(1) h(1,2) used by (auto simp: ga_inv_def g')
  show slot: "has_slot g' t i" using h(3) by (simp add: has_slot_def g')
  show of: "hn_of g' = hn_of g"
  proof
    fix p show "hn_of g' p = hn_of g p"
    proof (cases "p = t")
      case True
      then show ?thesis using h(3) keep none fresh
        by (cases "t \<in> hs_set (ga_hash_set g)") (simp_all add: hn_of_def g')
    next
      case False
      then show ?thesis using h(4) by (simp add: hn_of_def g' split: option.split)
    qed
  qed
  show "has_slot g p j \<Longrightarrow> has_slot g' p j"
    using h(3,4) keep none by (cases "p = t"; cases "t \<in> hs_set (ga_hash_set g)") (auto simp: has_slot_def g')
  show "ga_static g' = ga_static g" "ga_tallocs g' = ga_tallocs g" using h(2) by (simp_all add: ga_static_def g')
  have "hn_get g' i = hn_of g' t" using slot by (simp add: hn_get_def hn_of_def has_slot_def)
  then show "hn_get g' i = hn_of g t" using of by simp
qed

lemma has_slot_get: "has_slot g t i \<Longrightarrow> hn_get g i = hn_of g t"
  by (simp add: hn_get_def hn_of_def has_slot_def)

lemma hn_upd_correct:
  assumes "ga_inv g" "has_slot g t i"
  shows "ga_inv (hn_upd i f g)" "hn_of (hn_upd i f g) = (hn_of g)(t := f (hn_of g t))"
    and "has_slot (hn_upd i f g) p j \<longleftrightarrow> has_slot g p j" "ga_static (hn_upd i f g) = ga_static g"
    and "ga_tallocs (hn_upd i f g) = ga_tallocs g"
proof -
  have inv: "hs_inv (ga_hash_set g)" and len: "length (ga_hash_values g) = hs_size (ga_hash_set g)"
    using assms(1) by (simp_all add: ga_inv_def)
  have m: "member_slot (ga_hash_set g) t = Some i" using assms(2) by (simp add: has_slot_def)
  then have u: "used_slot (ga_hash_set g) i" "i < hs_size (ga_hash_set g)"
    using member_slot_Some [OF inv] hash.slot_less [OF inv] by auto
  then show "ga_inv (hn_upd i f g)" using assms(1) by (auto simp: ga_inv_def hn_upd_def nth_list_update)
  show "has_slot (hn_upd i f g) p j \<longleftrightarrow> has_slot g p j" by (simp add: has_slot_def hn_upd_def)
  show "ga_static (hn_upd i f g) = ga_static g" "ga_tallocs (hn_upd i f g) = ga_tallocs g"
    by (simp_all add: ga_static_def hn_upd_def)
  show "hn_of (hn_upd i f g) = (hn_of g)(t := f (hn_of g t))"
  proof
    fix p
    show "hn_of (hn_upd i f g) p = ((hn_of g)(t := f (hn_of g t))) p"
      using m u len hash.slot_inj [OF inv, of p i t]
      by (cases "p = t") (auto simp: hn_of_def hn_upd_def nth_list_update split: option.splits)
  qed
qed

lemma ga_tallocs_upd:
  "ga_inv (g\<lparr>ga_tallocs := T\<rparr>) \<longleftrightarrow> ga_inv g" "hn_of (g\<lparr>ga_tallocs := T\<rparr>) = hn_of g"
  "has_slot (g\<lparr>ga_tallocs := T\<rparr>) p i \<longleftrightarrow> has_slot g p i" "hn_get (g\<lparr>ga_tallocs := T\<rparr>) i = hn_get g i"
  "hn_upd i f (g\<lparr>ga_tallocs := T\<rparr>) = (hn_upd i f g)\<lparr>ga_tallocs := T\<rparr>"
  by (simp_all add: ga_inv_def hn_of_def has_slot_def hn_get_def hn_upd_def fun_eq_iff split: option.split)

lemma ga_static_D:
  assumes "ga_static g' = ga_static g"
  shows "ga_bufts g' = ga_bufts g" "ga_buf_tallocs g' = ga_buf_tallocs g" "ga_buffers g' = ga_buffers g"
    and "map dt_alignment (ga_tallocs g') = map dt_alignment (ga_tallocs g)"
    and "length (ga_tallocs g') = length (ga_tallocs g)"
    and "hs_size (ga_hash_set g') = hs_size (ga_hash_set g)"
    and "alloc_size_in B s g' b p = alloc_size_in B s g b p" "talloc_index g' b = talloc_index g b"
  using assms by (auto simp: ga_static_def alloc_size_in_def buft_at_def talloc_index_def dest: map_eq_imp_length_eq)

section \<open>Live ranges\<close>

text \<open>
  \<open>own s p\<close>: the tensor is one to which the allocator gives memory, that is, neither a view nor
  placed by somebody else. \<open>cells\<close> are the (allocator, chunk, byte) triples of a range, \<open>gfree\<close>
  those that are free.
\<close>

definition own :: "ggml_state \<Rightarrow> ptr \<Rightarrow> bool" where
  "own s p \<longleftrightarrow> (\<exists>t. deref s p = Some t \<and> t_view_src t = 0 \<and> t_data t = 0 \<and> t_buffer t = 0)"

definition range_cells ::
  "backends \<Rightarrow> ggml_state \<Rightarrow> ggml_gallocr \<Rightarrow> int32_t \<Rightarrow> buffer_address \<Rightarrow> ptr \<Rightarrow> (nat \<times> nat \<times> nat) set" where
  "range_cells B s g b addr p =
     (case talloc_at g b of None \<Rightarrow> {}
      | Some (k, a) \<Rightarrow> (case alloc_size_in B s g b p of None \<Rightarrow> {} | Some n \<Rightarrow> {k} \<times> dyn_range a addr n))"

definition placed ::
  "backends \<Rightarrow> ggml_state \<Rightarrow> ggml_gallocr \<Rightarrow> int32_t \<Rightarrow> buffer_address \<Rightarrow> ptr \<Rightarrow> bool" where
  "placed B s g b addr p \<longleftrightarrow> (\<exists>k a n. talloc_at g b = Some (k, a) \<and> alloc_size_in B s g b p = Some n
     \<and> dyn_request_ok a n \<and> dyn_addr_ok a addr n)"

abbreviation live :: "ggml_gallocr \<Rightarrow> ptr \<Rightarrow> bool" where
  "live g p \<equiv> hn_allocated (hn_of g p)"

abbreviation cells :: "backends \<Rightarrow> ggml_state \<Rightarrow> ggml_gallocr \<Rightarrow> ptr \<Rightarrow> (nat \<times> nat \<times> nat) set" where
  "cells B s g p \<equiv> range_cells B s g (hn_buffer_id (hn_of g p)) (hn_addr (hn_of g p)) p"

abbreviation is_placed :: "backends \<Rightarrow> ggml_state \<Rightarrow> ggml_gallocr \<Rightarrow> ptr \<Rightarrow> bool" where
  "is_placed B s g p \<equiv> placed B s g (hn_buffer_id (hn_of g p)) (hn_addr (hn_of g p)) p"

definition gfree :: "ggml_gallocr \<Rightarrow> (nat \<times> nat \<times> nat) set" where
  "gfree g = {(k, c, x). k < length (ga_tallocs g) \<and> (c, x) \<in> dyn_avail (ga_tallocs g ! k)}"

definition sizes_ok :: "backends \<Rightarrow> ggml_state \<Rightarrow> ggml_gallocr \<Rightarrow> bool" where
  "sizes_ok B s g \<longleftrightarrow> (\<forall>p b n k a. deref s p \<noteq> None \<and> alloc_size_in B s g b p = Some n \<and> talloc_at g b = Some (k, a)
     \<longrightarrow> dyn_request_ok a n)"

definition mem_inv :: "backends \<Rightarrow> ggml_state \<Rightarrow> ggml_gallocr \<Rightarrow> bool" where
  "mem_inv B s g \<longleftrightarrow> ga_inv g \<and> sizes_ok B s g \<and> (\<forall>a \<in> set (ga_tallocs g). dyn_inv a)
     \<and> (\<forall>p. live g p \<longrightarrow> own s p \<and> is_placed B s g p \<and> cells B s g p \<inter> gfree g = {})
     \<and> (\<forall>p q. live g p \<and> live g q \<and> p \<noteq> q \<longrightarrow> cells B s g p \<inter> cells B s g q = {})"

lemma mem_invD:
  assumes "mem_inv B s g"
  shows "ga_inv g" "sizes_ok B s g" "a \<in> set (ga_tallocs g) \<Longrightarrow> dyn_inv a"
    and "live g p \<Longrightarrow> own s p" "live g p \<Longrightarrow> is_placed B s g p" "live g p \<Longrightarrow> cells B s g p \<inter> gfree g = {}"
    and "live g p \<Longrightarrow> live g q \<Longrightarrow> p \<noteq> q \<Longrightarrow> cells B s g p \<inter> cells B s g q = {}"
  using assms unfolding mem_inv_def by blast+

text \<open>Steps keep the configuration, and addresses once handed out stay valid.\<close>

definition gmono :: "ggml_gallocr \<Rightarrow> ggml_gallocr \<Rightarrow> bool" where
  "gmono g g' \<longleftrightarrow> ga_static g' = ga_static g
     \<and> (\<forall>k < length (ga_tallocs g). \<forall>b n. dyn_addr_ok (ga_tallocs g ! k) b n \<longrightarrow> dyn_addr_ok (ga_tallocs g' ! k) b n)"

lemma gmono_refl: "ga_static g' = ga_static g \<Longrightarrow> ga_tallocs g' = ga_tallocs g \<Longrightarrow> gmono g g'"
  by (simp add: gmono_def)

lemma gmono_trans: "gmono g g' \<Longrightarrow> gmono g' g'' \<Longrightarrow> gmono g g''"
  unfolding gmono_def using ga_static_D(5) by metis

lemma talloc_at_Some:
  "talloc_at g b = Some (k, a) \<longleftrightarrow> talloc_index g b = Some k \<and> k < length (ga_tallocs g) \<and> a = ga_tallocs g ! k"
  by (auto simp: talloc_at_def array_get_def bind_eq_Some_conv split: if_splits)

lemma dyn_same_alignment:
  assumes "dt_alignment a' = dt_alignment a"
  shows "dyn_range a' = dyn_range a" "dyn_request_ok a' = dyn_request_ok a" "dyn_asize a' = dyn_asize a"
  using assms by (simp_all add: dyn_range_def dyn_request_ok_def dyn_asize_def fun_eq_iff)

lemma static_talloc_at:
  assumes "ga_static g' = ga_static g" "talloc_at g b = Some (k, a)"
  shows "\<exists>a'. talloc_at g' b = Some (k, a') \<and> dt_alignment a' = dt_alignment a \<and> a' = ga_tallocs g' ! k"
proof -
  note d = ga_static_D [OF assms(1)]
  have k: "talloc_index g b = Some k" "k < length (ga_tallocs g)" "a = ga_tallocs g ! k"
    using assms(2) by (simp_all add: talloc_at_Some)
  have "map dt_alignment (ga_tallocs g') ! k = map dt_alignment (ga_tallocs g) ! k" using d(4) by simp
  then show ?thesis using k d(5,8) by (simp add: talloc_at_Some)
qed

lemma static_talloc_None: "ga_static g' = ga_static g \<Longrightarrow> talloc_at g b = None \<Longrightarrow> talloc_at g' b = None"
  by (metis not_None_eq static_talloc_at surj_pair)

lemma static_cells:
  assumes "ga_static g' = ga_static g"
  shows "range_cells B s g' = range_cells B s g"
proof (intro ext)
  fix b addr p
  show "range_cells B s g' b addr p = range_cells B s g b addr p"
  proof (cases "talloc_at g b")
    case None
    then show ?thesis using static_talloc_None [OF assms] by (simp add: range_cells_def)
  next
    case (Some x)
    obtain k a where ka: "talloc_at g b = Some (k, a)" using Some by (cases x) auto
    obtain a' where a': "talloc_at g' b = Some (k, a')" "dt_alignment a' = dt_alignment a"
      using static_talloc_at [OF assms ka] by blast
    then show ?thesis
      using ka by (simp add: range_cells_def ga_static_D(7) [OF assms] dyn_same_alignment(1) [OF a'(2)] split: option.split)
  qed
qed

lemma static_sizes_ok: "ga_static g' = ga_static g \<Longrightarrow> sizes_ok B s g \<Longrightarrow> sizes_ok B s g'"
  unfolding sizes_ok_def using static_talloc_at [of g g'] dyn_same_alignment(2) ga_static_D(7) [of g' g]
  by (metis)

lemma gmono_placed:
  assumes "gmono g g'" "placed B s g b addr p"
  shows "placed B s g' b addr p"
proof -
  have st: "ga_static g' = ga_static g" using assms(1) by (simp add: gmono_def)
  obtain k a n where p: "talloc_at g b = Some (k, a)" "alloc_size_in B s g b p = Some n"
    "dyn_request_ok a n" "dyn_addr_ok a addr n" using assms(2) by (auto simp: placed_def)
  obtain a' where a': "talloc_at g' b = Some (k, a')" "dt_alignment a' = dt_alignment a" "a' = ga_tallocs g' ! k"
    using static_talloc_at [OF st p(1)] by blast
  have "k < length (ga_tallocs g)" "a = ga_tallocs g ! k" using p(1) by (simp_all add: talloc_at_Some)
  then have "dyn_addr_ok a' addr n" using assms(1) p(4) a'(3) by (simp add: gmono_def)
  then show ?thesis
    using p a' ga_static_D(7) [OF st] dyn_same_alignment(2) [OF a'(2)] by (simp add: placed_def)
qed

section \<open>Requests, returns and takeovers\<close>

text \<open>
  How the free cells change when one of the buffer allocators does. \<open>talloc_step g g' k a a'\<close>: the
  step from \<open>g\<close> to \<open>g'\<close> replaces allocator \<open>k\<close>, which is \<open>a\<close>, by \<open>a'\<close>.
\<close>

definition talloc_step :: "ggml_gallocr \<Rightarrow> ggml_gallocr \<Rightarrow> nat \<Rightarrow> ggml_dyn_tallocr \<Rightarrow> ggml_dyn_tallocr \<Rightarrow> bool" where
  "talloc_step g g' k a a' \<longleftrightarrow> ga_inv g' \<and> ga_static g' = ga_static g \<and> k < length (ga_tallocs g)
     \<and> a = ga_tallocs g ! k \<and> ga_tallocs g' = (ga_tallocs g)[k := a'] \<and> dyn_inv a'
     \<and> (\<forall>b n. dyn_addr_ok a b n \<longrightarrow> dyn_addr_ok a' b n)"

lemma talloc_step_gmono: "talloc_step g g' k a a' \<Longrightarrow> gmono g g'"
  by (auto simp: talloc_step_def gmono_def nth_list_update)

lemma talloc_step_inv:
  assumes "talloc_step g g' k a a'" "mem_inv B s g"
  shows "ga_inv g'" "sizes_ok B s g'" "\<forall>x \<in> set (ga_tallocs g'). dyn_inv x"
  using assms static_sizes_ok [of g' g B s] set_update_subset_insert [of "ga_tallocs g" k a']
  by (auto simp: talloc_step_def mem_inv_def)

lemma gfree_step:
  assumes "talloc_step g g' k a a'"
  shows "gfree g' = {x \<in> gfree g. fst x \<noteq> k} \<union> {k} \<times> dyn_avail a'"
    and "gfree g = {x \<in> gfree g. fst x \<noteq> k} \<union> {k} \<times> dyn_avail a"
  using assms by (auto simp: talloc_step_def gfree_def nth_list_update split: if_splits)

lemma cells_talloc:
  "talloc_at g b = Some (k, a) \<Longrightarrow> alloc_size_in B s g b p = Some n \<Longrightarrow> range_cells B s g b addr p = {k} \<times> dyn_range a addr n"
  by (simp add: range_cells_def)

lemma gfree_alloc:
  assumes "talloc_step g g' k a a'" "R \<subseteq> dyn_avail a" "dyn_avail a' \<subseteq> dyn_avail a - R"
  shows "{k} \<times> R \<subseteq> gfree g" "gfree g' \<subseteq> gfree g - {k} \<times> R"
  using gfree_step [OF assms(1)] assms(2,3) by auto

lemma gfree_free:
  assumes "talloc_step g g' k a a'" "dyn_avail a' = dyn_avail a \<union> R"
  shows "gfree g' = gfree g \<union> {k} \<times> R"
  using gfree_step [OF assms(1)] assms(2) by auto

text \<open>A tensor that holds no range gets one.\<close>

lemma mem_inv_request:
  assumes "mem_inv B s g" "\<not> live g p" "own s p"
    and "talloc_at g b = Some (k, a)" "alloc_size_in B s g b p = Some n"
    and "ggml_dyn_tallocr_alloc a n = Some (a', addr)"
    and "ga_inv g'" "ga_static g' = ga_static g" "ga_tallocs g' = (ga_tallocs g)[k := a']"
    and "hn_of g' = (hn_of g)(p := h)" "hn_allocated h" "hn_buffer_id h = b" "hn_addr h = addr"
  shows "mem_inv B s g'" "gmono g g'" "is_placed B s g' p"
proof -
  note d = mem_invD [OF assms(1)]
  have k: "k < length (ga_tallocs g)" "a = ga_tallocs g ! k" using assms(4) by (simp_all add: talloc_at_Some)
  have ai: "dyn_inv a" using d(3) k by simp
  have ro: "dyn_request_ok a n"
    using d(2) assms(3-5) unfolding sizes_ok_def own_def by blast
  note c = dyn_alloc_correct [OF ai ro assms(6)]
  have st: "talloc_step g g' k a a'"
    using assms(7-9) k c(1) dyn_alloc_keeps_addr [OF ai ro assms(6)] by (simp add: talloc_step_def)
  show mono: "gmono g g'" using st by (rule talloc_step_gmono)
  note fr = gfree_alloc [OF st c(4,5)]
  have pc: "range_cells B s g b addr p = {k} \<times> dyn_range a addr n" by (rule cells_talloc [OF assms(4,5)])
  have rc: "range_cells B s g' = range_cells B s g" by (rule static_cells [OF assms(8)])
  obtain a2 where a2: "talloc_at g' b = Some (k, a2)" "dt_alignment a2 = dt_alignment a" "a2 = ga_tallocs g' ! k"
    using static_talloc_at [OF assms(8,4)] by blast
  have "a2 = a'" using a2(3) assms(9) k(1) by simp
  then have pl: "placed B s g' b addr p"
    using a2 ro c(3) assms(5) dyn_same_alignment(2) [OF a2(2)] ga_static_D(7) [OF assms(8)]
    by (simp add: placed_def)
  then show "is_placed B s g' p" using assms(10-13) by simp
  have "own s q \<and> is_placed B s g' q \<and> cells B s g' q \<inter> gfree g' = {}" if "live g' q" for q
  proof (cases "q = p")
    case True
    then show ?thesis using pl fr(2) pc rc assms(3,10-13) by auto
  next
    case False
    then have "live g q" using that assms(10) by simp
    then show ?thesis
      using False d(4,5,6) [of q] gmono_placed [OF mono] fr(2) rc assms(10) by auto
  qed
  moreover have "cells B s g' q \<inter> cells B s g' r = {}" if "live g' q" "live g' r" "q \<noteq> r" for q r
  proof -
    have new: "cells B s g x \<inter> range_cells B s g b addr p = {}" if "live g x" for x
      using d(6) [OF that] fr(1) pc by blast
    show ?thesis
    proof (cases "q = p")
      case True
      then have "live g r" using that assms(10) by simp
      then show ?thesis using new [of r] True that(3) rc assms(10,12,13) by auto
    next
      case q: False
      then have "live g q" using that assms(10) by simp
      then show ?thesis
        using new [of q] q that d(7) [of q r] rc assms(10,12,13) by (cases "r = p") auto
    qed
  qed
  ultimately show "mem_inv B s g'"
    using talloc_step_inv [OF st assms(1)] by (simp add: mem_inv_def)
qed

text \<open>A tensor gives its range back.\<close>

lemma mem_inv_return:
  assumes "mem_inv B s g" "live g p"
    and "talloc_at g (hn_buffer_id (hn_of g p)) = Some (k, a)"
    and "alloc_size_in B s g (hn_buffer_id (hn_of g p)) p = Some n"
    and "ggml_dyn_tallocr_free_bytes a (hn_addr (hn_of g p)) n = Some a'"
    and "ga_inv g'" "ga_static g' = ga_static g" "ga_tallocs g' = (ga_tallocs g)[k := a']"
    and "hn_of g' = (hn_of g)(p := h)" "\<not> hn_allocated h"
  shows "mem_inv B s g'" "gmono g g'"
proof -
  note d = mem_invD [OF assms(1)]
  have k: "k < length (ga_tallocs g)" "a = ga_tallocs g ! k" using assms(3) by (simp_all add: talloc_at_Some)
  have ai: "dyn_inv a" using d(3) k by simp
  have ok: "dyn_addr_ok a (hn_addr (hn_of g p)) n"
    using d(5) [OF assms(2)] assms(3,4) by (auto simp: placed_def)
  have pc: "cells B s g p = {k} \<times> dyn_range a (hn_addr (hn_of g p)) n" by (rule cells_talloc [OF assms(3,4)])
  have "{k} \<times> dyn_avail a \<subseteq> gfree g" using k by (auto simp: gfree_def)
  then have dis: "dyn_range a (hn_addr (hn_of g p)) n \<inter> dyn_avail a = {}" using d(6) [OF assms(2)] pc by blast
  note c = dyn_free_correct [OF ai ok dis assms(5)]
  have st: "talloc_step g g' k a a'" using assms(6-8) k c(1,4) by (simp add: talloc_step_def)
  show mono: "gmono g g'" using st by (rule talloc_step_gmono)
  have fr: "gfree g' = gfree g \<union> cells B s g p" using gfree_free [OF st c(3)] pc by simp
  have rc: "range_cells B s g' = range_cells B s g" by (rule static_cells [OF assms(7)])
  have lv: "q \<noteq> p \<and> live g q" if "live g' q" for q using that assms(9,10) by (cases "q = p") auto
  have "own s q \<and> is_placed B s g' q \<and> cells B s g' q \<inter> gfree g' = {}" if "live g' q" for q
    using lv [OF that] d(4,5,6) [of q] d(7) [of q p] assms(2,9) gmono_placed [OF mono] fr rc by auto
  moreover have "cells B s g' q \<inter> cells B s g' r = {}" if "live g' q" "live g' r" "q \<noteq> r" for q r
    using lv [OF that(1)] lv [OF that(2)] d(7) [of q r] that(3) assms(9) rc by simp
  ultimately show "mem_inv B s g'"
    using talloc_step_inv [OF st assms(1)] by (simp add: mem_inv_def)
qed

text \<open>Rounding up to the alignment.\<close>

lemma dyn_asize_le:
  assumes "dyn_inv a" "dyn_request_ok a n" "n \<le> m" "dt_alignment a dvd m"
  shows "dyn_asize a n \<le> m"
proof (rule ccontr)
  assume "\<not> dyn_asize a n \<le> m"
  then have lt: "m < dyn_asize a n" by simp
  note p = dyn_asize_props [OF assms(1,2)]
  have "dt_alignment a dvd dyn_asize a n - m" using p(3) assms(4) by (rule dvd_diff_nat)
  then have "dt_alignment a \<le> dyn_asize a n - m" using lt by (intro dvd_imp_le) simp_all
  then show False using p(4) assms(3) lt by linarith
qed

lemma dyn_asize_multiple:
  assumes "dt_alignment a dvd m" "m \<le> SIZE_MAX" "dt_alignment a \<le> SIZE_MAX"
  shows "dyn_asize a m = m"
proof -
  have "sz_add 0 m mod dt_alignment a = 0" using assms(1,2) by (simp add: sz_add_id)
  moreover have "sz_sub (dt_alignment a) 0 = dt_alignment a" using assms(3) by (simp add: sz_sub_id)
  ultimately show ?thesis using assms(2) by (simp add: dyn_asize_def aligned_offset_def sz_add_id)
qed

lemma dyn_tail_free:
  assumes "dyn_inv a" "dyn_request_ok a m" "dyn_request_ok a n" "n \<le> m" "dyn_addr_ok a addr m"
    and "dyn_range a addr m \<inter> dyn_avail a = {}" "dyn_asize a n < dyn_asize a m"
    and "ggml_dyn_tallocr_free_bytes a (addr\<lparr>ba_offset := sz_add (ba_offset addr) (dyn_asize a n)\<rparr>)
           (sz_sub (dyn_asize a m) (dyn_asize a n)) = Some a'"
  shows "dyn_inv a'" "dt_alignment a' = dt_alignment a"
    and "dyn_avail a' = dyn_avail a \<union> (dyn_range a addr m - dyn_range a addr n)"
    and "dyn_addr_ok a b k \<Longrightarrow> dyn_addr_ok a' b k"
proof -
  let ?m = "dyn_asize a m" and ?n = "dyn_asize a n" and ?o = "ba_offset addr"
  let ?addr = "addr\<lparr>ba_offset := ?o + ?n\<rparr>" and ?x = "?m - ?n"
  note pm = dyn_asize_props [OF assms(1,2)] and pn = dyn_asize_props [OF assms(1,3)]
  have bound: "?o + ?m \<le> HALF_MAX" "dt_alignment a dvd ?o" using assms(5) by (simp_all add: dyn_addr_ok_def)
  have dv: "dt_alignment a dvd ?x" "dt_alignment a dvd ?o + ?n" using pm(3) pn(3) bound(2) by (simp_all add: dvd_diff_nat)
  have so: "sz_add ?o ?n = ?o + ?n" "sz_sub ?m ?n = ?x"
    using bound(1) pm(2) assms(7) by (simp_all add: size_simps)
  have ax: "dyn_asize a ?x = ?x"
    using dv(1) pm(2) assms(2) by (intro dyn_asize_multiple) (simp_all add: dyn_request_ok_def)
  have rx: "dyn_range a ?addr ?x = dyn_range a addr m - dyn_range a addr n"
    using assms(7) by (auto simp: dyn_range_def ax)
  have ok: "dyn_addr_ok a ?addr ?x"
    using assms(5,7) dv(2) by (simp add: dyn_addr_ok_def ax)
  have dis: "dyn_range a ?addr ?x \<inter> dyn_avail a = {}" using assms(6) rx by blast
  have fr: "ggml_dyn_tallocr_free_bytes a ?addr ?x = Some a'" using assms(8) so by simp
  note c = dyn_free_correct [OF assms(1) ok dis fr]
  show "dyn_inv a'" "dt_alignment a' = dt_alignment a"
    "dyn_avail a' = dyn_avail a \<union> (dyn_range a addr m - dyn_range a addr n)"
    "dyn_addr_ok a b k \<Longrightarrow> dyn_addr_ok a' b k" using c rx by simp_all
qed

text \<open>The free-space step after a takeover: the new tensor keeps the front of the range.\<close>

lemma free_extra_space_cases:
  assumes "ga_inv g" "ggml_gallocr_free_extra_space B s g node parent = Some g'"
  obtains m n k a where "alloc_size_in B s g (hn_buffer_id (hn_of g parent)) parent = Some m"
    "alloc_size_in B s g (hn_buffer_id (hn_of g node)) node = Some n" "n \<le> m"
    "talloc_at g (hn_buffer_id (hn_of g parent)) = Some (k, a)"
    "ga_inv g'" "hn_of g' = hn_of g" "ga_static g' = ga_static g \<or> dyn_asize a n < dyn_asize a m"
    "\<not> dyn_asize a n < dyn_asize a m \<Longrightarrow> ga_tallocs g' = ga_tallocs g"
    "dyn_asize a n < dyn_asize a m \<Longrightarrow> \<exists>a'. ggml_dyn_tallocr_free_bytes a
       ((hn_addr (hn_of g parent))\<lparr>ba_offset := sz_add (ba_offset (hn_addr (hn_of g parent))) (dyn_asize a n)\<rparr>)
       (sz_sub (dyn_asize a m) (dyn_asize a n)) = Some a' \<and> ga_tallocs g' = (ga_tallocs g)[k := a']
       \<and> (dt_alignment a' = dt_alignment a \<longrightarrow> ga_static g' = ga_static g)"
proof -
  obtain i g1 where i: "ggml_gallocr_hash_get g node = Some (i, g1)"
    using assms(2) by (auto simp: ggml_gallocr_free_extra_space_def bind_eq_Some_conv)
  note h1 = hash_get_correct [OF assms(1) i]
  obtain j g2 where j: "ggml_gallocr_hash_get g1 parent = Some (j, g2)"
    using assms(2) by (auto simp: ggml_gallocr_free_extra_space_def bind_eq_Some_conv i)
  note h2 = hash_get_correct [OF h1(1) j]
  have st: "ga_static g2 = ga_static g" "ga_tallocs g2 = ga_tallocs g" "hn_of g2 = hn_of g"
    using h1 h2 by simp_all
  note d = ga_static_D [OF st(1)]
  have hn: "hn_get g2 i = hn_of g node" "hn_get g2 j = hn_of g parent"
    using has_slot_get [of g2 node i] h2(4) [OF h1(3)] h2(7) h1(2) st(3) by simp_all
  have ta: "talloc_at g2 b = talloc_at g b" for b by (simp add: talloc_at_def d(8) st(2))
  obtain m n k a where mn: "alloc_size_in B s g (hn_buffer_id (hn_of g parent)) parent = Some m"
    "alloc_size_in B s g (hn_buffer_id (hn_of g node)) node = Some n" "n \<le> m"
    and ka: "talloc_at g (hn_buffer_id (hn_of g parent)) = Some (k, a)"
    and r: "(if dyn_asize a n < dyn_asize a m then do {
       a' \<leftarrow> ggml_dyn_tallocr_free_bytes a
         ((hn_addr (hn_of g parent))\<lparr>ba_offset := sz_add (ba_offset (hn_addr (hn_of g parent))) (dyn_asize a n)\<rparr>)
         (sz_sub (dyn_asize a m) (dyn_asize a n));
       Some (g2\<lparr>ga_tallocs := (ga_tallocs g2)[k := a']\<rparr>) } else Some g2) = Some g'"
    using assms(2)
    by (auto simp: ggml_gallocr_free_extra_space_def bind_eq_Some_conv i j hn d(7) ta Let_def dyn_asize_def
        simp del: if_split split: if_splits)
  have kk: "k < length (ga_tallocs g)" "a = ga_tallocs g ! k" using ka by (simp_all add: talloc_at_Some)
  show thesis
  proof (cases "dyn_asize a n < dyn_asize a m")
    case False
    then have "g' = g2" using r by simp
    then show thesis using that [OF mn ka] h2(1) st False by simp
  next
    case True
    then obtain a' where a': "ggml_dyn_tallocr_free_bytes a
         ((hn_addr (hn_of g parent))\<lparr>ba_offset := sz_add (ba_offset (hn_addr (hn_of g parent))) (dyn_asize a n)\<rparr>)
         (sz_sub (dyn_asize a m) (dyn_asize a n)) = Some a'" "g' = g2\<lparr>ga_tallocs := (ga_tallocs g2)[k := a']\<rparr>"
      using r by (auto simp: bind_eq_Some_conv)
    have "ga_static g' = ga_static g" if "dt_alignment a' = dt_alignment a"
      using that st kk by (simp add: a'(2) ga_static_def map_update list_update_same_conv)
    then show thesis using that [OF mn ka] h2(1) st True a' by (simp add: ga_tallocs_upd)
  qed
qed

text \<open>
  Tensor \<open>q\<close> takes over the range of \<open>p\<close>; \<open>g1\<close> is the state in which only the records have
  been changed.
\<close>

lemma mem_inv_takeover:
  assumes "mem_inv B s g" "live g p" "\<not> live g q" "own s q"
    and "ga_inv g1" "ga_static g1 = ga_static g" "ga_tallocs g1 = ga_tallocs g"
    and "hn_of g1 = (hn_of g)(p := hp, q := hq)" "hn_allocated hq" "\<not> hn_allocated hp"
    and "hn_buffer_id hq = hn_buffer_id (hn_of g p)" "hn_addr hq = hn_addr (hn_of g p)"
    and "hn_buffer_id hp = hn_buffer_id (hn_of g p)" "hn_addr hp = hn_addr (hn_of g p)"
    and "ggml_gallocr_free_extra_space B s g1 q p = Some g'"
  shows "mem_inv B s g'" "gmono g g'" "hn_of g' = (hn_of g)(p := hp, q := hq)" "is_placed B s g' q"
proof -
  let ?b = "hn_buffer_id (hn_of g p)" and ?addr = "hn_addr (hn_of g p)"
  have pq: "p \<noteq> q" using assms(2,3) by blast
  note d = mem_invD [OF assms(1)] and d1 = ga_static_D [OF assms(6)]
  have ta: "talloc_at g1 b = talloc_at g b" for b by (simp add: talloc_at_def d1(8) assms(7))
  have hnp: "hn_buffer_id (hn_of g1 p) = ?b" "hn_addr (hn_of g1 p) = ?addr" "hn_buffer_id (hn_of g1 q) = ?b"
    using assms(8,11-14) pq by simp_all
  from free_extra_space_cases [OF assms(5,15)] obtain m n k a where
    mn: "alloc_size_in B s g ?b p = Some m" "alloc_size_in B s g ?b q = Some n" "n \<le> m"
    and ka: "talloc_at g ?b = Some (k, a)" and inv': "ga_inv g'" and hn': "hn_of g' = hn_of g1"
    and st0: "ga_static g' = ga_static g \<or> dyn_asize a n < dyn_asize a m"
    and same: "\<not> dyn_asize a n < dyn_asize a m \<Longrightarrow> ga_tallocs g' = ga_tallocs g"
    and tail: "dyn_asize a n < dyn_asize a m \<Longrightarrow> \<exists>a'. ggml_dyn_tallocr_free_bytes a
       (?addr\<lparr>ba_offset := sz_add (ba_offset ?addr) (dyn_asize a n)\<rparr>)
       (sz_sub (dyn_asize a m) (dyn_asize a n)) = Some a' \<and> ga_tallocs g' = (ga_tallocs g)[k := a']
       \<and> (dt_alignment a' = dt_alignment a \<longrightarrow> ga_static g' = ga_static g)"
    unfolding hnp d1(7) ta assms(6,7) by metis
  show hno: "hn_of g' = (hn_of g)(p := hp, q := hq)" using hn' assms(8) by simp
  have k: "k < length (ga_tallocs g)" "a = ga_tallocs g ! k" using ka by (simp_all add: talloc_at_Some)
  have ai: "dyn_inv a" using d(3) k by simp
  have okm: "dyn_request_ok a m" "dyn_addr_ok a ?addr m" using d(5) [OF assms(2)] ka mn(1) by (auto simp: placed_def)
  have okn: "dyn_request_ok a n" using d(2) assms(4) mn(2) ka unfolding sizes_ok_def own_def by blast
  note pm = dyn_asize_props [OF ai okm(1)] and pn = dyn_asize_props [OF ai okn]
  have anm: "dyn_asize a n \<le> dyn_asize a m"
    using pm(1) mn(3) by (intro dyn_asize_le [OF ai okn _ pm(3)]) simp
  have pc: "cells B s g p = {k} \<times> dyn_range a ?addr m" by (rule cells_talloc [OF ka mn(1)])
  have qc: "range_cells B s g ?b ?addr q = {k} \<times> dyn_range a ?addr n" by (rule cells_talloc [OF ka mn(2)])
  have sub: "range_cells B s g ?b ?addr q \<subseteq> cells B s g p"
    unfolding pc qc using anm by (auto simp: dyn_range_def)
  have "{k} \<times> dyn_avail a \<subseteq> gfree g" using k by (auto simp: gfree_def)
  then have dis: "dyn_range a ?addr m \<inter> dyn_avail a = {}" using d(6) [OF assms(2)] pc by blast
  have step: "ga_static g' = ga_static g \<and> gmono g g' \<and> sizes_ok B s g' \<and> (\<forall>x \<in> set (ga_tallocs g'). dyn_inv x)
      \<and> gfree g' = gfree g \<union> (cells B s g p - range_cells B s g ?b ?addr q)"
  proof (cases "dyn_asize a n < dyn_asize a m")
    case False
    then have eq: "dyn_range a ?addr n = dyn_range a ?addr m" using anm by (simp add: dyn_range_def)
    show ?thesis
      using st0 same [OF False] False d(2,3) gmono_refl [of g' g] static_sizes_ok [of g' g B s]
      by (auto simp: pc qc eq gfree_def)
  next
    case True
    obtain a' where a': "ggml_dyn_tallocr_free_bytes a
       (?addr\<lparr>ba_offset := sz_add (ba_offset ?addr) (dyn_asize a n)\<rparr>)
       (sz_sub (dyn_asize a m) (dyn_asize a n)) = Some a'" "ga_tallocs g' = (ga_tallocs g)[k := a']"
      "dt_alignment a' = dt_alignment a \<longrightarrow> ga_static g' = ga_static g" using tail [OF True] by blast
    note c = dyn_tail_free [OF ai okm(1) okn mn(3) okm(2) dis True a'(1)]
    have st: "talloc_step g g' k a a'" using inv' a'(2,3) c(1,2,4) k by (simp add: talloc_step_def)
    have "gfree g' = gfree g \<union> (cells B s g p - range_cells B s g ?b ?addr q)"
      using gfree_free [OF st c(3)] by (auto simp: pc qc)
    then show ?thesis
      using talloc_step_gmono [OF st] talloc_step_inv [OF st assms(1)] a'(3) c(2) by blast
  qed
  then have mono: "gmono g g'" and st: "ga_static g' = ga_static g"
    and fr: "gfree g' = gfree g \<union> (cells B s g p - range_cells B s g ?b ?addr q)" by blast+
  show "gmono g g'" by (rule mono)
  have rc: "range_cells B s g' = range_cells B s g" by (rule static_cells [OF st])
  have cq: "cells B s g' q = range_cells B s g ?b ?addr q" using rc hno assms(11,12) by simp
  have okan: "dyn_addr_ok a ?addr n" using okm(2) anm by (auto simp: dyn_addr_ok_def)
  have plg: "placed B s g ?b ?addr q" using ka mn(2) okn okan by (simp add: placed_def)
  then show plq: "is_placed B s g' q" using gmono_placed [OF mono plg] hno assms(11,12) by simp
  have lv: "r = q \<or> (r \<noteq> p \<and> r \<noteq> q \<and> live g r \<and> cells B s g' r = cells B s g r)" if "live g' r" for r
    using that hno assms(9,10) pq rc by (cases "r = q"; cases "r = p") auto
  have old: "cells B s g r \<inter> cells B s g p = {}" if "live g r" "r \<noteq> p" for r
    using d(7) [OF that(1) assms(2) that(2)] .
  have "own s r \<and> is_placed B s g' r \<and> cells B s g' r \<inter> gfree g' = {}" if r: "live g' r" for r
    using lv [OF r]
  proof
    assume "r = q"
    then show ?thesis using plq assms(4) cq fr sub d(6) [OF assms(2)] by blast
  next
    assume l: "r \<noteq> p \<and> r \<noteq> q \<and> live g r \<and> cells B s g' r = cells B s g r"
    then have "is_placed B s g' r" using d(5) [of r] gmono_placed [OF mono] hno by simp
    then show ?thesis using l d(4,6) [of r] old [of r] fr by blast
  qed
  moreover have "cells B s g' r \<inter> cells B s g' t = {}" if "live g' r" "live g' t" "r \<noteq> t" for r t
    using lv [OF that(1)] lv [OF that(2)] that(3) d(7) [of r t] old [of r] old [of t] cq sub by blast
  ultimately show "mem_inv B s g'" using step inv' by (simp add: mem_inv_def)
qed

section \<open>Allocating a tensor\<close>

text \<open>Looking a tensor up changes none of the records.\<close>

definition same_recs :: "ggml_gallocr \<Rightarrow> ggml_gallocr \<Rightarrow> bool" where
  "same_recs g g' \<longleftrightarrow> ga_inv g' \<and> hn_of g' = hn_of g \<and> ga_static g' = ga_static g \<and> ga_tallocs g' = ga_tallocs g
     \<and> (\<forall>p j. has_slot g p j \<longrightarrow> has_slot g' p j)"

lemma same_recs_refl: "ga_inv g \<Longrightarrow> same_recs g g"
  by (simp add: same_recs_def)

lemma same_recs_trans: "same_recs g g' \<Longrightarrow> same_recs g' g'' \<Longrightarrow> same_recs g g''"
  by (simp add: same_recs_def)

lemma hash_get_same:
  "ga_inv g \<Longrightarrow> ggml_gallocr_hash_get g t = Some (i, g') \<Longrightarrow> same_recs g g' \<and> has_slot g' t i \<and> hn_get g' i = hn_of g t"
  using hash_get_correct [of g t i g'] by (auto simp: same_recs_def)

lemma is_own_same:
  assumes "ga_inv g" "ggml_gallocr_is_own g t = Some (b, g')"
  shows "same_recs g g' \<and> b = live g t"
  using assms hash_get_same [OF assms(1)] by (auto simp: ggml_gallocr_is_own_def bind_eq_Some_conv)

lemma is_allocated_same:
  assumes "ga_inv g" "ggml_gallocr_is_allocated g s t = Some (b, g')"
  shows "same_recs g g' \<and> (\<exists>tn. deref s t = Some tn \<and> b = (t_data tn \<noteq> 0 \<or> t_buffer tn \<noteq> 0 \<or> live g t))"
  using assms is_own_same [OF assms(1)] same_recs_refl [OF assms(1)]
  by (auto simp: ggml_gallocr_is_allocated_def bind_eq_Some_conv split: if_splits)

lemma same_recs_mem_inv:
  assumes "same_recs g g'" "mem_inv B s g"
  shows "mem_inv B s g'" "gmono g g'"
proof -
  have e: "ga_inv g'" "hn_of g' = hn_of g" "ga_static g' = ga_static g" "ga_tallocs g' = ga_tallocs g"
    using assms(1) by (simp_all add: same_recs_def)
  show m: "gmono g g'" using gmono_refl [OF e(3,4)] .
  show "mem_inv B s g'"
    using assms(2) e static_sizes_ok [OF e(3)] gmono_placed [OF m] static_cells [OF e(3), of B s]
    unfolding mem_inv_def gfree_def by simp
qed

text \<open>The condition under which a source is taken over, as the source's record shows it.\<close>

definition reusable :: "ggml_state \<Rightarrow> ggml_gallocr \<Rightarrow> ptr \<Rightarrow> ptr \<Rightarrow> bool" where
  "reusable s g node p \<longleftrightarrow> p \<noteq> 0 \<and> live g p \<and> hn_n_children (hn_of g p) = 1 \<and> hn_n_views (hn_of g p) = 0
     \<and> (\<exists>t pt. deref s node = Some t \<and> deref s p = Some pt \<and> p \<in> set (t_src t) \<and> ggml_op_can_inplace (t_op t)
          \<and> \<not> has_flag pt GGML_TENSOR_FLAG_OUTPUT \<and> ggml_are_same_layout t pt)"

lemma reuse_loop_cases:
  assumes "ga_inv g" "has_slot g node hn" "allocr_reuse_loop B s node hn srcs g = Some (b, g')"
    and "\<forall>p. live g p \<and> p \<noteq> node \<longrightarrow> own s p" "node \<notin> set srcs"
    and "deref s node = Some t" "set srcs \<subseteq> set (t_src t)" "ggml_op_can_inplace (t_op t)"
  shows "(\<not> b \<and> same_recs g g')
    \<or> (b \<and> (\<exists>p g1. p \<in> set srcs \<and> reusable s g node p
         \<and> ga_inv g1 \<and> ga_static g1 = ga_static g \<and> ga_tallocs g1 = ga_tallocs g
         \<and> hn_of g1 = (hn_of g)(p := (hn_of g p)\<lparr>hn_allocated := False\<rparr>,
              node := (hn_of g node)\<lparr>hn_buffer_id := hn_buffer_id (hn_of g p), hn_addr := hn_addr (hn_of g p)\<rparr>)
         \<and> ggml_gallocr_free_extra_space B s g1 node p = Some g'))" (is "?R g b g' srcs")
  using assms(1-5,7)
proof (induction srcs arbitrary: g)
  case Nil
  then show ?case by (simp add: same_recs_refl)
next
  case (Cons p rest)
  have next_case: "?R g b g' (p # rest)"
    if sr: "same_recs g g1" and run: "allocr_reuse_loop B s node hn rest g1 = Some (b, g')" for g1
  proof -
    have e: "ga_inv g1" "has_slot g1 node hn" "hn_of g1 = hn_of g" "ga_static g1 = ga_static g" "ga_tallocs g1 = ga_tallocs g"
      using sr Cons.prems(2) by (simp_all add: same_recs_def)
    have "?R g1 b g' rest" using Cons.IH [OF e(1,2) run] Cons.prems(4-6) e(3) by simp
    then show ?thesis
      using e sr same_recs_trans [OF sr] unfolding reusable_def by (elim disjE) (simp, metis list.set_intros(2))
  qed
  show ?case
  proof (cases "p = 0")
    case True
    then show ?thesis using next_case [OF same_recs_refl [OF Cons.prems(1)]] Cons.prems(3) by simp
  next
    case nz: False
    obtain ow g1 where ow: "ggml_gallocr_is_own g p = Some (ow, g1)"
      using Cons.prems(3) nz by (auto simp: bind_eq_Some_conv)
    note o = is_own_same [OF Cons.prems(1) ow]
    show ?thesis
    proof (cases "live g p")
      case False
      then show ?thesis using next_case [of g1] o Cons.prems(3) nz ow by simp
    next
      case lv: True
      have pn: "p \<noteq> node" using Cons.prems(5) by auto
      obtain pt where pt: "deref s p = Some pt" "t_view_src pt = 0"
        using Cons.prems(4) lv pn by (auto simp: own_def)
      show ?thesis
      proof (cases "has_flag pt GGML_TENSOR_FLAG_OUTPUT \<or> \<not> ggml_are_same_layout t pt")
        case True
        then have "allocr_reuse_loop B s node hn rest g1 = Some (b, g')"
          using Cons.prems(3) nz ow o lv pt assms(6) by (auto split: if_splits)
        then show ?thesis using next_case [of g1] o by simp
      next
        case ok: False
        obtain ph g2 where ph: "ggml_gallocr_hash_get g1 p = Some (ph, g2)"
          using Cons.prems(3) nz ow o lv pt ok assms(6) by (auto simp: bind_eq_Some_conv)
        have i1: "ga_inv g1" using o by (simp add: same_recs_def)
        note h = hash_get_same [OF i1 ph]
        have sr: "same_recs g g2" using same_recs_trans o h by blast
        have e: "ga_inv g2" "has_slot g2 node hn" "has_slot g2 p ph" "hn_get g2 ph = hn_of g p" "hn_of g2 = hn_of g"
          using sr h o Cons.prems(2) by (simp_all add: same_recs_def)
        show ?thesis
        proof (cases "hn_n_children (hn_of g p) = 1 \<and> hn_n_views (hn_of g p) = 0")
          case False
          then have "allocr_reuse_loop B s node hn rest g2 = Some (b, g')"
            using Cons.prems(3) nz ow o lv pt ok assms(6) ph e(4) by (auto split: if_splits)
          then show ?thesis using next_case [OF sr] by simp
        next
          case cnt: True
          let ?g3 = "hn_upd hn (\<lambda>h. h\<lparr>hn_buffer_id := hn_buffer_id (hn_of g p), hn_addr := hn_addr (hn_of g p)\<rparr>) g2"
          let ?g4 = "hn_upd ph (hn_allocated_update (\<lambda>_. False)) ?g3"
          have run: "ggml_gallocr_free_extra_space B s ?g4 node p = Some g'" "b"
            using Cons.prems(3) nz ow o lv pt ok assms(6) ph e(4) cnt
            by (auto simp: ggml_impl_is_view_def bind_eq_Some_conv Let_def)
          note u3 = hn_upd_correct [OF e(1,2), of "\<lambda>h. h\<lparr>hn_buffer_id := hn_buffer_id (hn_of g p), hn_addr := hn_addr (hn_of g p)\<rparr>"]
          have s3: "has_slot ?g3 p ph" using u3(3) e(3) by simp
          note u4 = hn_upd_correct [OF u3(1) s3, of "hn_allocated_update (\<lambda>_. False)"]
          have "hn_of ?g4 = (hn_of g)(p := (hn_of g p)\<lparr>hn_allocated := False\<rparr>,
              node := (hn_of g node)\<lparr>hn_buffer_id := hn_buffer_id (hn_of g p), hn_addr := hn_addr (hn_of g p)\<rparr>)"
            using u4(2) u3(2) e(5) pn by (auto simp: fun_eq_iff)
          moreover have "ga_static ?g4 = ga_static g" "ga_tallocs ?g4 = ga_tallocs g"
            using u4(4,5) u3(4,5) sr by (simp_all add: same_recs_def)
          moreover have "reusable s g node p"
            using nz lv cnt pt ok assms(6,8) Cons.prems(6) by (simp add: reusable_def)
          ultimately show ?thesis
            using run u4(1) by (intro disjI2 conjI exI [of _ p] exI [of _ ?g4]) (simp_all add: fun_upd_def)
        qed
      qed
    qed
  qed
qed

text \<open>
  The three outcomes of \<^verbatim>\<open>ggml_gallocr_allocate_node\<close>. \<open>recs_eq\<close> compares the records of all
  tensors but those in a set.
\<close>

definition keeps_counts :: "ggml_gallocr \<Rightarrow> ggml_gallocr \<Rightarrow> bool" where
  "keeps_counts g g' \<longleftrightarrow> (\<forall>q. hn_n_children (hn_of g' q) = hn_n_children (hn_of g q)
     \<and> hn_n_views (hn_of g' q) = hn_n_views (hn_of g q))"

definition keeps_place :: "ggml_gallocr \<Rightarrow> ggml_gallocr \<Rightarrow> ptr \<Rightarrow> bool" where
  "keeps_place g g' q \<longleftrightarrow> hn_buffer_id (hn_of g' q) = hn_buffer_id (hn_of g q) \<and> hn_addr (hn_of g' q) = hn_addr (hn_of g q)"

lemma allocate_node_cases:
  assumes "mem_inv B s g" "ggml_gallocr_allocate_node B s g node bid = Some g'"
    and "\<forall>t. deref s node = Some t \<longrightarrow> node \<notin> set (t_src t)"
  shows "mem_inv B s g'" "gmono g g'" "keeps_counts g g'"
    and "own s node \<Longrightarrow> live g' node" "own s node \<Longrightarrow> \<not> live g node \<Longrightarrow> is_placed B s g' node"
    and "\<And>q. q \<noteq> node \<or> live g node \<or> \<not> own s node \<Longrightarrow> keeps_place g g' q"
    and "\<exists>X. (\<forall>q. q \<noteq> node \<longrightarrow> live g' q = (live g q \<and> q \<notin> X))
       \<and> (X = {} \<or> (\<exists>p. X = {p} \<and> p \<noteq> node \<and> own s node \<and> \<not> live g node \<and> reusable s g node p
             \<and> hn_buffer_id (hn_of g' node) = hn_buffer_id (hn_of g p) \<and> hn_addr (hn_of g' node) = hn_addr (hn_of g p)))"
proof -
  note d = mem_invD [OF assms(1)]
  obtain i g1 where i: "ggml_gallocr_hash_get g node = Some (i, g1)"
    using assms(2) by (auto simp: ggml_gallocr_allocate_node_def bind_eq_Some_conv split: if_splits)
  note h1 = hash_get_same [OF d(1) i]
  have i1: "ga_inv g1" using h1 by (simp add: same_recs_def)
  obtain al g2 where al: "ggml_gallocr_is_allocated g1 s node = Some (al, g2)"
    using assms(2) i by (auto simp: ggml_gallocr_allocate_node_def bind_eq_Some_conv split: if_splits)
  note h2 = is_allocated_same [OF i1 al]
  have sr: "same_recs g g2" using same_recs_trans h1 h2 by blast
  have e: "ga_inv g2" "hn_of g2 = hn_of g" "has_slot g2 node i" "ga_static g2 = ga_static g" "ga_tallocs g2 = ga_tallocs g"
    using sr h1 h2 by (simp_all add: same_recs_def)
  obtain t where t: "deref s node = Some t" "al = (t_data t \<noteq> 0 \<or> t_buffer t \<noteq> 0 \<or> live g node)"
    using h2 h1 by (auto simp: same_recs_def)
  have need: "\<not> al \<and> \<not> ggml_impl_is_view t \<longleftrightarrow> own s node \<and> \<not> live g node"
    using t by (auto simp: own_def ggml_impl_is_view_def)
  have "mem_inv B s g' \<and> gmono g g' \<and> keeps_counts g g'
    \<and> (own s node \<longrightarrow> live g' node) \<and> (own s node \<longrightarrow> \<not> live g node \<longrightarrow> is_placed B s g' node)
    \<and> (\<forall>q. q \<noteq> node \<or> live g node \<or> \<not> own s node \<longrightarrow> keeps_place g g' q)
    \<and> (\<exists>X. (\<forall>q. q \<noteq> node \<longrightarrow> live g' q = (live g q \<and> q \<notin> X))
       \<and> (X = {} \<or> (\<exists>p. X = {p} \<and> p \<noteq> node \<and> own s node \<and> \<not> live g node \<and> reusable s g node p
             \<and> hn_buffer_id (hn_of g' node) = hn_buffer_id (hn_of g p) \<and> hn_addr (hn_of g' node) = hn_addr (hn_of g p))))"
  proof (cases "own s node \<and> \<not> live g node")
    case False
    then have "g' = g2" using assms(2) i al t need by (auto simp: ggml_gallocr_allocate_node_def split: if_splits)
    then show ?thesis
      using same_recs_mem_inv [OF sr assms(1)] e(2) False
      by (intro conjI exI [of _ "{}"]) (auto simp: keeps_counts_def keeps_place_def)
  next
    case True
    let ?g3 = "hn_upd i (hn_allocated_update (\<lambda>_. True)) g2"
    have ns: "node \<notin> set (t_src t)" using assms(3) t by blast
    obtain b g4 where b: "(if ggml_op_can_inplace (t_op t) then allocr_reuse_loop B s node i (t_src t) ?g3
                            else Some (False, ?g3)) = Some (b, g4)"
      and fin: "(if b then Some g4 else allocr_from_buffer B s g4 node i bid) = Some g'"
      using assms(2) i al t need True
      by (auto simp: ggml_gallocr_allocate_node_def Let_def bind_eq_Some_conv split: if_splits)
    note u = hn_upd_correct [OF e(1,3), of "hn_allocated_update (\<lambda>_. True)"]
    have hn3: "hn_of ?g3 = (hn_of g)(node := (hn_of g node)\<lparr>hn_allocated := True\<rparr>)" using u(2) e(2) by simp
    have sl: "has_slot ?g3 node i" using u(3) e(3) by simp
    have ow: "\<forall>p. live ?g3 p \<and> p \<noteq> node \<longrightarrow> own s p" using d(4) hn3 by simp
    have cases: "(\<not> b \<and> same_recs ?g3 g4)
    \<or> (b \<and> (\<exists>p g1. p \<in> set (t_src t) \<and> reusable s ?g3 node p
         \<and> ga_inv g1 \<and> ga_static g1 = ga_static ?g3 \<and> ga_tallocs g1 = ga_tallocs ?g3
         \<and> hn_of g1 = (hn_of ?g3)(p := (hn_of ?g3 p)\<lparr>hn_allocated := False\<rparr>,
              node := (hn_of ?g3 node)\<lparr>hn_buffer_id := hn_buffer_id (hn_of ?g3 p), hn_addr := hn_addr (hn_of ?g3 p)\<rparr>)
         \<and> ggml_gallocr_free_extra_space B s g1 node p = Some g4))"
    proof (cases "ggml_op_can_inplace (t_op t)")
      case True
      then show ?thesis using reuse_loop_cases [OF u(1) sl _ ow ns t(1) order_refl True] b by simp
    next
      case False
      then show ?thesis using b same_recs_refl [OF u(1)] by simp
    qed
    show ?thesis
    proof (cases b)
      case True
      then obtain p g5 where p: "p \<in> set (t_src t)" "reusable s ?g3 node p"
        and g5: "ga_inv g5" "ga_static g5 = ga_static ?g3" "ga_tallocs g5 = ga_tallocs ?g3"
          "hn_of g5 = (hn_of ?g3)(p := (hn_of ?g3 p)\<lparr>hn_allocated := False\<rparr>,
              node := (hn_of ?g3 node)\<lparr>hn_buffer_id := hn_buffer_id (hn_of ?g3 p), hn_addr := hn_addr (hn_of ?g3 p)\<rparr>)"
        and fr: "ggml_gallocr_free_extra_space B s g5 node p = Some g4"
        using cases by blast
      have g4: "g4 = g'" using fin True by simp
      have pn: "p \<noteq> node" using p(1) ns by auto
      have re: "reusable s g node p" using p(2) hn3 pn by (simp add: reusable_def)
      let ?hp = "(hn_of g p)\<lparr>hn_allocated := False\<rparr>"
      let ?hq = "(hn_of g node)\<lparr>hn_allocated := True, hn_buffer_id := hn_buffer_id (hn_of g p), hn_addr := hn_addr (hn_of g p)\<rparr>"
      have h5: "hn_of g5 = (hn_of g)(p := ?hp, node := ?hq)" using g5(4) hn3 pn by (auto simp: fun_eq_iff)
      have st5: "ga_static g5 = ga_static g" "ga_tallocs g5 = ga_tallocs g" using g5(2,3) u(4,5) e(4,5) by simp_all
      have on: "own s node" "\<not> live g node" using \<open>own s node \<and> \<not> live g node\<close> by simp_all
      have lp: "live g p" using re by (simp add: reusable_def)
      note k = mem_inv_takeover [OF assms(1) lp on(2,1) g5(1) st5 h5, of g', folded g4, OF _ _ _ _ _ _ fr, simplified]
      show ?thesis
        using k on re pn g4
        by (intro conjI exI [of _ "{p}"]) (auto simp: keeps_counts_def keeps_place_def)
    next
      case False
      then have sr4: "same_recs ?g3 g4" using cases by blast
      have e4: "ga_inv g4" "hn_of g4 = hn_of ?g3" "ga_static g4 = ga_static g" "ga_tallocs g4 = ga_tallocs g" "has_slot g4 node i"
        using sr4 sl u e(4,5) by (simp_all add: same_recs_def)
      note d4 = ga_static_D [OF e4(3)]
      have ta: "talloc_at g4 b = talloc_at g b" for b by (simp add: talloc_at_def d4(8) e4(4))
      obtain k a n a' addr where ka: "talloc_at g bid = Some (k, a)" "alloc_size_in B s g bid node = Some n"
        and al: "ggml_dyn_tallocr_alloc a n = Some (a', addr)"
        and g': "g' = hn_upd i (hn_addr_update (\<lambda>_. addr))
             ((hn_upd i (hn_buffer_id_update (\<lambda>_. bid)) g4)\<lparr>ga_tallocs := (ga_tallocs g4)[k := a']\<rparr>)"
        using fin False
        by (auto simp: allocr_from_buffer_def bind_eq_Some_conv Let_def ta d4(7) hn_upd_def)
      let ?g5 = "hn_upd i (hn_buffer_id_update (\<lambda>_. bid)) g4"
      note u5 = hn_upd_correct [OF e4(1,5), of "hn_buffer_id_update (\<lambda>_. bid)"]
      have s5: "has_slot ?g5 node i" using u5(3) e4(5) by simp
      let ?g6 = "hn_upd i (hn_addr_update (\<lambda>_. addr)) ?g5"
      note u6 = hn_upd_correct [OF u5(1) s5, of "hn_addr_update (\<lambda>_. addr)"]
      have g'6: "g' = ?g6\<lparr>ga_tallocs := (ga_tallocs g)[k := a']\<rparr>" unfolding g' ga_tallocs_upd(5) e4(4) ..
      have on: "own s node" "\<not> live g node" using \<open>own s node \<and> \<not> live g node\<close> by simp_all
      have kk: "k < length (ga_tallocs g)" "a = ga_tallocs g ! k" using ka(1) by (simp_all add: talloc_at_Some)
      have ro: "dyn_request_ok a n" using d(2) on(1) ka unfolding sizes_ok_def own_def by blast
      have al': "dt_alignment a' = dt_alignment a"
        using dyn_alloc_correct(2) [OF d(3) ro al] kk by simp
      have inv: "ga_inv g'" unfolding g'6 ga_tallocs_upd using u6(1) .
      let ?h = "(hn_of g node)\<lparr>hn_allocated := True, hn_buffer_id := bid, hn_addr := addr\<rparr>"
      have hn': "hn_of g' = (hn_of g)(node := ?h)"
        unfolding g'6 ga_tallocs_upd u6(2) u5(2) e4(2) hn3 by (simp add: fun_eq_iff)
      have st: "ga_static g' = ga_static g"
        using u6(4) u5(4) e4(3,4) kk al' by (simp add: g'6 ga_static_def map_update list_update_same_conv)
      have tt: "ga_tallocs g' = (ga_tallocs g)[k := a']" by (simp add: g'6)
      note k = mem_inv_request [OF assms(1) on(2,1) ka al inv st tt hn', simplified]
      show ?thesis
        using k on hn' by (intro conjI exI [of _ "{}"]) (auto simp: keeps_counts_def keeps_place_def)
    qed
  qed
  then show "mem_inv B s g'" "gmono g g'" "keeps_counts g g'"
    "own s node \<Longrightarrow> live g' node" "own s node \<Longrightarrow> \<not> live g node \<Longrightarrow> is_placed B s g' node"
    "\<And>q. q \<noteq> node \<or> live g node \<or> \<not> own s node \<Longrightarrow> keeps_place g g' q"
    "\<exists>X. (\<forall>q. q \<noteq> node \<longrightarrow> live g' q = (live g q \<and> q \<notin> X))
       \<and> (X = {} \<or> (\<exists>p. X = {p} \<and> p \<noteq> node \<and> own s node \<and> \<not> live g node \<and> reusable s g node p
             \<and> hn_buffer_id (hn_of g' node) = hn_buffer_id (hn_of g p) \<and> hn_addr (hn_of g' node) = hn_addr (hn_of g p)))"
    by (blast+)
qed

end
