(* ===== verification/GGML_GallocPlan.thy ===== *)
theory GGML_GallocPlan
  imports GGML_GallocMem GGML_Build
begin

text \<open>
  The planning loops of the graph allocator. The counters of a tensor are tied to the reads that
  are still to come (\<open>cnt_inv\<close>), a tensor that is still needed is still flagged (\<open>live_inv\<close>), and
  so the range given to a node never overlaps a tensor that a later node reads, unless the node
  takes over the range of a source of which it is the last reader.
\<close>

section \<open>Reads to come\<close>

abbreviation srcs_of :: "ggml_state \<Rightarrow> ptr \<Rightarrow> ptr list" where
  "srcs_of s \<equiv> srcs (st_tensors s)"

lemma srcs_of_eq: "srcs_of s n = (case deref s n of None \<Rightarrow> [] | Some t \<Rightarrow> filter (\<lambda>p. p \<noteq> 0) (t_src t))"
  by (simp add: srcs_def deref_def)

definition reads :: "ggml_state \<Rightarrow> ptr list \<Rightarrow> ptr list" where
  "reads s ns = concat (map (srcs_of s) ns)"

text \<open>\<open>cview s v p\<close>: \<open>v\<close> is an operation whose result is a view of \<open>p\<close>.\<close>

definition cview :: "ggml_state \<Rightarrow> ptr \<Rightarrow> ptr \<Rightarrow> bool" where
  "cview s v p \<longleftrightarrow> (\<exists>t. deref s v = Some t \<and> t_view_src t = p \<and> p \<noteq> 0 \<and> t_op t \<noteq> GGML_OP_NONE)"

definition out :: "ggml_state \<Rightarrow> ptr \<Rightarrow> bool" where
  "out s p \<longleftrightarrow> (\<exists>t. deref s p = Some t \<and> has_flag t GGML_TENSOR_FLAG_OUTPUT)"

text \<open>The views of \<open>p\<close> among the nodes that nobody reads or that are still to be read.\<close>

definition open_views :: "ggml_state \<Rightarrow> ptr list \<Rightarrow> ptr list \<Rightarrow> ptr \<Rightarrow> ptr set" where
  "open_views s N R p = {v \<in> set N. cview s v p \<and> (v \<notin> set (reads s N) \<or> v \<in> set R)}"

definition needed :: "ggml_state \<Rightarrow> ptr list \<Rightarrow> ptr list \<Rightarrow> ptr \<Rightarrow> bool" where
  "needed s N R p \<longleftrightarrow> p \<in> set R \<or> open_views s N R p \<noteq> {} \<or> out s p"

definition cnt_inv :: "ggml_state \<Rightarrow> ptr list \<Rightarrow> ptr list \<Rightarrow> ggml_gallocr \<Rightarrow> bool" where
  "cnt_inv s N R g \<longleftrightarrow> (\<forall>p. hn_n_children (hn_of g p) = int (count_list R p)
     \<and> hn_n_views (hn_of g p) = int (card (open_views s N R p)))"

definition live_inv :: "ggml_state \<Rightarrow> ptr list \<Rightarrow> ptr set \<Rightarrow> ptr list \<Rightarrow> ptr set \<Rightarrow> ggml_gallocr \<Rightarrow> bool" where
  "live_inv s N Bn R X g \<longleftrightarrow> (\<forall>p. live g p \<longrightarrow> p \<in> Bn) \<and> (\<forall>p \<in> Bn - X. own s p \<and> needed s N R p \<longrightarrow> live g p)"

text \<open>
  What the graph allocator needs of a graph: its size fits an \<^verbatim>\<open>int\<close>, the nodes are distinct and none of them is a leaf,
  the sources of a node are leafs or earlier nodes, a source that is a view is the result of an
  operation in the graph, and explicit inputs are leafs.
\<close>

definition plan_graph :: "ggml_state \<Rightarrow> ptr list \<Rightarrow> ptr list \<Rightarrow> bool" where
  "plan_graph s L N \<longleftrightarrow> length N + length L < 2 ^ 31 \<and> distinct N \<and> set L \<inter> set N = {}
     \<and> topological (st_tensors s) N (set L)
     \<and> (\<forall>v \<in> set (reads s N). \<forall>t. deref s v = Some t \<and> t_view_src t \<noteq> 0 \<longrightarrow> v \<in> set N \<and> t_op t \<noteq> GGML_OP_NONE)
     \<and> (\<forall>n \<in> set N. \<forall>t. deref s n = Some t \<longrightarrow> \<not> has_flag t GGML_TENSOR_FLAG_INPUT)"

lemmas plan_graph_defs = plan_graph_def topological_def

lemma reads_simps [simp]: "reads s [] = []" "reads s (n # ns) = srcs_of s n @ reads s ns"
  "reads s (ms @ ns) = reads s ms @ reads s ns"
  by (simp_all add: reads_def)

lemma finite_open_views [simp]: "finite (open_views s N R p)"
  by (simp add: open_views_def)

lemma open_views_mono: "set R' \<subseteq> set R \<Longrightarrow> open_views s N R' p \<subseteq> open_views s N R p"
  by (auto simp: open_views_def)

lemma needed_mono: "set R' \<subseteq> set R \<Longrightarrow> needed s N R' p \<Longrightarrow> needed s N R p"
  using open_views_mono [of R' R s N p] by (auto simp: needed_def)

lemma cnt_inv_needed:
  assumes "cnt_inv s N R g"
  shows "hn_n_children (hn_of g p) = 0 \<longleftrightarrow> p \<notin> set R" "hn_n_views (hn_of g p) = 0 \<longleftrightarrow> open_views s N R p = {}"
  using assms by (simp_all add: cnt_inv_def count_list_0_iff)

lemma no_self_src:
  assumes "heap_ok (st_tensors s)" "deref s n = Some t" "n \<noteq> 0"
  shows "n \<notin> set (t_src t)"
  using assms unfolding heap_ok_def ranked_def deref_def by (metis less_irrefl)

lemma heap_ok_nonzero: "heap_ok (st_tensors s) \<Longrightarrow> deref s n = Some t \<Longrightarrow> n \<noteq> 0"
  by (cases "n = 0") (auto simp: heap_ok_def deref_def)

lemma heap_ok_view:
  assumes "heap_ok (st_tensors s)" "cview s v p" shows "\<not> cview s p q"
  using assms unfolding heap_ok_def cview_def deref_def view_ok_def by (metis option.inject)

section \<open>Steps that only change counters\<close>

lemma mem_inv_counts:
  assumes "mem_inv B s g" "ga_inv g'" "ga_static g' = ga_static g" "ga_tallocs g' = ga_tallocs g"
    and "\<And>q. live g' q = live g q" "\<And>q. keeps_place g g' q"
  shows "mem_inv B s g'" "gmono g g'"
proof -
  show m: "gmono g g'" using gmono_refl [OF assms(3,4)] .
  have "cells B s g' q = cells B s g q" "is_placed B s g q \<Longrightarrow> is_placed B s g' q" for q
    using assms(6) [of q] static_cells [OF assms(3), of B s] gmono_placed [OF m] by (simp_all add: keeps_place_def)
  moreover have "gfree g' = gfree g" by (simp add: gfree_def assms(4))
  ultimately show "mem_inv B s g'"
    using assms(1,2,4,5) static_sizes_ok [OF assms(3)] unfolding mem_inv_def by simp
qed

lemma keeps_place_trans: "keeps_place g g' q \<Longrightarrow> keeps_place g' g'' q \<Longrightarrow> keeps_place g g'' q"
  by (simp add: keeps_place_def)

section \<open>Taking ranges back\<close>

lemma free_node_cases:
  assumes "mem_inv B s g" "live g p" "ggml_gallocr_free_node B s g p = Some g'"
  shows "mem_inv B s g'" "gmono g g'" "keeps_counts g g'" "keeps_place g g' q"
    and "live g' q \<longleftrightarrow> live g q \<and> (q = p \<longrightarrow> out s p)"
proof -
  note d = mem_invD [OF assms(1)]
  obtain t where t: "deref s p = Some t" using assms(3) by (auto simp: ggml_gallocr_free_node_def bind_eq_Some_conv)
  have "mem_inv B s g' \<and> gmono g g' \<and> keeps_counts g g' \<and> keeps_place g g' q
    \<and> (live g' q \<longleftrightarrow> live g q \<and> (q = p \<longrightarrow> out s p))"
  proof (cases "has_flag t GGML_TENSOR_FLAG_OUTPUT")
    case True
    then have "g' = g" using assms(3) t by (simp add: ggml_gallocr_free_node_def)
    then show ?thesis using assms(1) gmono_refl [of g g] True t by (auto simp: keeps_counts_def keeps_place_def out_def)
  next
    case False
    obtain i g1 where i: "ggml_gallocr_hash_get g p = Some (i, g1)"
      using assms(3) t False by (auto simp: ggml_gallocr_free_node_def bind_eq_Some_conv)
    note h = hash_get_same [OF d(1) i]
    have e: "ga_inv g1" "hn_of g1 = hn_of g" "ga_static g1 = ga_static g" "ga_tallocs g1 = ga_tallocs g" "has_slot g1 p i"
      using h by (simp_all add: same_recs_def)
    note d1 = ga_static_D [OF e(3)]
    have ta: "talloc_at g1 b = talloc_at g b" for b by (simp add: talloc_at_def d1(8) e(4))
    obtain k a n a' where ka: "talloc_at g (hn_buffer_id (hn_of g p)) = Some (k, a)"
      "alloc_size_in B s g (hn_buffer_id (hn_of g p)) p = Some n"
      and fr: "ggml_dyn_tallocr_free_bytes a (hn_addr (hn_of g p)) n = Some a'"
      and g': "g' = hn_upd i (hn_allocated_update (\<lambda>_. False)) (g1\<lparr>ga_tallocs := (ga_tallocs g)[k := a']\<rparr>)"
      using assms(3) t False h
      by (auto simp: ggml_gallocr_free_node_def bind_eq_Some_conv i Let_def ta d1(7) e(4))
    note u = hn_upd_correct [OF e(1,5), of "hn_allocated_update (\<lambda>_. False)"]
    have g'2: "g' = (hn_upd i (hn_allocated_update (\<lambda>_. False)) g1)\<lparr>ga_tallocs := (ga_tallocs g)[k := a']\<rparr>"
      unfolding g' ga_tallocs_upd(5) ..
    have kk: "k < length (ga_tallocs g)" "a = ga_tallocs g ! k" using ka(1) by (simp_all add: talloc_at_Some)
    have al: "dt_alignment a' = dt_alignment a"
      using fr by (auto simp: elim: dyn_free_unfold)
    have inv: "ga_inv g'" unfolding g'2 ga_tallocs_upd using u(1) .
    have hn': "hn_of g' = (hn_of g)(p := (hn_of g p)\<lparr>hn_allocated := False\<rparr>)"
      unfolding g'2 ga_tallocs_upd u(2) e(2) ..
    have st: "ga_static g' = ga_static g"
      using u(4) e(3,4) kk al by (simp add: g'2 ga_static_def map_update list_update_same_conv)
    have tt: "ga_tallocs g' = (ga_tallocs g)[k := a']" by (simp add: g'2)
    note k = mem_inv_return [OF assms(1,2) ka fr inv st tt hn', simplified]
    show ?thesis using k hn' t False by (auto simp: keeps_counts_def keeps_place_def out_def)
  qed
  then show "mem_inv B s g'" "gmono g g'" "keeps_counts g g'" "keeps_place g g' q"
    "live g' q \<longleftrightarrow> live g q \<and> (q = p \<longrightarrow> out s p)" by blast+
qed

text \<open>
  One turn of the loop that updates the parents, at the level of the records: the counters lose
  one read and, when that was the last read of a view, one view of its base; a tensor that is
  taken back has neither reads nor views left and is no output.
\<close>

definition retires :: "ggml_state \<Rightarrow> ggml_gallocr \<Rightarrow> ptr \<Rightarrow> ptr \<Rightarrow> bool" where
  "retires s g p b \<longleftrightarrow> hn_n_children (hn_of g p) = 1 \<and> hn_n_views (hn_of g p) = 0
     \<and> (\<exists>t. deref s p = Some t \<and> t_view_src t = b \<and> b \<noteq> 0)"

lemma release_parent_cases:
  assumes "mem_inv B s g" "release_parent B s p g = Some g'" "p \<noteq> 0" "heap_ok (st_tensors s)"
  shows "mem_inv B s g'" "gmono g g'" "keeps_place g g' q"
    and "hn_n_children (hn_of g' q) = hn_n_children (hn_of g q) - of_bool (q = p)"
    and "hn_n_views (hn_of g' q) = hn_n_views (hn_of g q) - of_bool (retires s g p q)"
    and "live g' q \<Longrightarrow> live g q"
    and "live g q \<Longrightarrow> \<not> live g' q \<Longrightarrow>
      hn_n_children (hn_of g' q) = 0 \<and> hn_n_views (hn_of g' q) = 0 \<and> \<not> out s q"
proof -
  note d = mem_invD [OF assms(1)]
  obtain i g1 where i: "ggml_gallocr_hash_get g p = Some (i, g1)"
    using assms(2,3) by (auto simp: release_parent_def bind_eq_Some_conv)
  note h = hash_get_same [OF d(1) i]
  have e: "ga_inv g1" "hn_of g1 = hn_of g" "ga_static g1 = ga_static g" "ga_tallocs g1 = ga_tallocs g" "has_slot g1 p i"
    using h by (simp_all add: same_recs_def)
  let ?g2 = "hn_upd i (hn_n_children_update (\<lambda>n. n - 1)) g1"
  note u = hn_upd_correct [OF e(1,5), of "hn_n_children_update (\<lambda>n. n - 1)"]
  have h2: "hn_of ?g2 = (hn_of g)(p := (hn_of g p)\<lparr>hn_n_children := hn_n_children (hn_of g p) - 1\<rparr>)"
    using u(2) e(2) by (simp add: fun_eq_iff)
  have sl2: "has_slot ?g2 p i" using u(3) e(5) by simp
  have hg2: "hn_get ?g2 i = hn_of ?g2 p" by (rule has_slot_get [OF sl2])
  have kp2: "keeps_place g ?g2 q" and lv2: "live ?g2 q = live g q" for q
    using h2 by (simp_all add: keeps_place_def)
  have st2: "ga_static ?g2 = ga_static g" "ga_tallocs ?g2 = ga_tallocs g" using u(4,5) e(3,4) by simp_all
  note m2 = mem_inv_counts [OF assms(1) u(1) st2 lv2 kp2]
  let ?last = "hn_n_children (hn_of g p) = 1 \<and> hn_n_views (hn_of g p) = 0"
  have last_iff: "hn_n_children (hn_get ?g2 i) = 0 \<and> hn_n_views (hn_get ?g2 i) = 0 \<longleftrightarrow> ?last"
    unfolding hg2 h2 by simp
  have run: "(if ?last then do {
          pt \<leftarrow> deref s p;
          if ggml_impl_is_view pt then do {
            (view_src_hn, galloc) \<leftarrow> ggml_gallocr_hash_get ?g2 (t_view_src pt);
            let galloc = hn_upd view_src_hn (hn_n_views_update (\<lambda>n. n - 1)) galloc;
            let h = hn_get galloc view_src_hn;
            if hn_n_views h = 0 \<and> hn_n_children h = 0 \<and> hn_allocated h
            then ggml_gallocr_free_node B s galloc (t_view_src pt)
            else Some galloc }
          else if hn_allocated (hn_get ?g2 i) then ggml_gallocr_free_node B s ?g2 p
          else Some ?g2 }
        else Some ?g2) = Some g'"
    using assms(2,3) unfolding last_iff [symmetric] by (simp add: release_parent_def i Let_def cong: if_cong split del: if_split)
  have "mem_inv B s g' \<and> gmono g g' \<and> (\<forall>q. keeps_place g g' q
    \<and> hn_n_children (hn_of g' q) = hn_n_children (hn_of g q) - of_bool (q = p)
    \<and> hn_n_views (hn_of g' q) = hn_n_views (hn_of g q) - of_bool (retires s g p q)
    \<and> (live g' q \<longrightarrow> live g q)
    \<and> (live g q \<and> \<not> live g' q \<longrightarrow>
      hn_n_children (hn_of g' q) = 0 \<and> hn_n_views (hn_of g' q) = 0 \<and> \<not> out s q))"
  proof (cases ?last)
    case False
    have "g' = ?g2" using run unfolding if_not_P [OF False] by simp
    then show ?thesis using m2 kp2 lv2 h2 False by (auto simp: retires_def)
  next
    case True
    note run = run [unfolded if_P [OF True]]
    obtain pt where pt: "deref s p = Some pt" using run by (auto simp: bind_eq_Some_conv)
    show ?thesis
    proof (cases "ggml_impl_is_view pt")
      case nv: False
      then have nr: "\<not> retires s g p q" for q using pt by (auto simp: retires_def ggml_impl_is_view_def)
      have hz: "hn_n_children (hn_of ?g2 p) = 0" "hn_n_views (hn_of ?g2 p) = 0" using h2 True by simp_all
      show ?thesis
      proof (cases "live ?g2 p")
        case False
        then have "g' = ?g2" using run True pt nv hg2 by simp
        then show ?thesis using m2 kp2 lv2 h2 nr by auto
      next
        case lp: True
        then have fr: "ggml_gallocr_free_node B s ?g2 p = Some g'" using run True pt nv hg2 by simp
        note f = free_node_cases [OF m2(1) lp fr]
        have kc: "hn_n_children (hn_of g' q) = hn_n_children (hn_of ?g2 q)"
          "hn_n_views (hn_of g' q) = hn_n_views (hn_of ?g2 q)" for q using f(3) by (simp_all add: keeps_counts_def)
        have cq: "hn_n_children (hn_of ?g2 q) = hn_n_children (hn_of g q) - of_bool (q = p)"
          "hn_n_views (hn_of ?g2 q) = hn_n_views (hn_of g q)" for q using h2 by simp_all
        have lq: "live g' q \<longleftrightarrow> live g q \<and> (q = p \<longrightarrow> out s p)" for q using f(5) [of q] lv2 [of q] by simp
        show ?thesis
          using f(1) gmono_trans [OF m2(2) f(2)] keeps_place_trans [OF kp2 f(4)] hz by (simp add: kc cq nr lq) blast
      qed
    next
      case vw: True
      let ?b = "t_view_src pt"
      have rt: "retires s g p q \<longleftrightarrow> q = ?b" for q
        using pt vw True by (auto simp: retires_def ggml_impl_is_view_def)
      obtain j g3 where j: "ggml_gallocr_hash_get ?g2 ?b = Some (j, g3)"
        using run True pt vw by (auto simp: bind_eq_Some_conv)
      note h3 = hash_get_same [OF u(1) j]
      have e3: "ga_inv g3" "hn_of g3 = hn_of ?g2" "ga_static g3 = ga_static g" "ga_tallocs g3 = ga_tallocs g" "has_slot g3 ?b j"
        using h3 st2 by (simp_all add: same_recs_def)
      let ?g4 = "hn_upd j (hn_n_views_update (\<lambda>n. n - 1)) g3"
      note u4 = hn_upd_correct [OF e3(1,5), of "hn_n_views_update (\<lambda>n. n - 1)"]
      have h4: "hn_of ?g4 = (hn_of ?g2)(?b := (hn_of ?g2 ?b)\<lparr>hn_n_views := hn_n_views (hn_of ?g2 ?b) - 1\<rparr>)"
        using u4(2) e3(2) by (simp add: fun_eq_iff)
      have sl4: "has_slot ?g4 ?b j" using u4(3) e3(5) by simp
      have hg4: "hn_get ?g4 j = hn_of ?g4 ?b" by (rule has_slot_get [OF sl4])
      have kp4: "keeps_place g ?g4 q" and lv4: "live ?g4 q = live g q" for q
        using h4 kp2 [of q] lv2 [of q] by ((cases "q = ?b"; simp add: keeps_place_def)+)
      have st4: "ga_static ?g4 = ga_static g" "ga_tallocs ?g4 = ga_tallocs g" using u4(4,5) e3(3,4) by simp_all
      note m4 = mem_inv_counts [OF assms(1) u4(1) st4 lv4 kp4]
      have cnt: "hn_n_children (hn_of ?g4 q) = hn_n_children (hn_of g q) - of_bool (q = p)"
        "hn_n_views (hn_of ?g4 q) = hn_n_views (hn_of g q) - of_bool (retires s g p q)" for q
        using h4 h2 rt by auto
      let ?c = "hn_n_views (hn_of ?g4 ?b) = 0 \<and> hn_n_children (hn_of ?g4 ?b) = 0 \<and> live ?g4 ?b"
      show ?thesis
      proof (cases ?c)
        case False
        then have "g' = ?g4" using run True pt vw j hg4 by (simp add: Let_def split: if_splits)
        then show ?thesis using m4 kp4 lv4 cnt by auto
      next
        case c: True
        then have fr: "ggml_gallocr_free_node B s ?g4 ?b = Some g'" using run True pt vw j hg4 by (simp add: Let_def)
        have lb: "live ?g4 ?b" using c by simp
        note f = free_node_cases [OF m4(1) lb fr]
        have "keeps_counts ?g4 g'" by (rule f(3))
        then have "hn_n_children (hn_of g' q) = hn_n_children (hn_of ?g4 q)"
          "hn_n_views (hn_of g' q) = hn_n_views (hn_of ?g4 q)" for q by (simp_all add: keeps_counts_def)
        then show ?thesis
          using f(1) gmono_trans [OF m4(2) f(2)] keeps_place_trans [OF kp4 f(4)] f(5) cnt lv4 c by auto
      qed
    qed
  qed
  then show "mem_inv B s g'" "gmono g g'" "keeps_place g g' q"
    "hn_n_children (hn_of g' q) = hn_n_children (hn_of g q) - of_bool (q = p)"
    "hn_n_views (hn_of g' q) = hn_n_views (hn_of g q) - of_bool (retires s g p q)"
    "live g' q \<Longrightarrow> live g q"
    "live g q \<Longrightarrow> \<not> live g' q \<Longrightarrow>
      hn_n_children (hn_of g' q) = 0 \<and> hn_n_views (hn_of g' q) = 0 \<and> \<not> out s q"
    by blast+
qed

section \<open>The parents of a node\<close>

text \<open>A source that is a view counts as a view of its base until its last read.\<close>

lemma open_views_read:
  assumes "heap_ok (st_tensors s)" "plan_graph s L N" "p \<in> set (reads s N)"
  shows "card (open_views s N (p # R) q) = card (open_views s N R q) + of_bool (p \<notin> set R \<and> cview s p q)"
proof (cases "p \<notin> set R \<and> cview s p q")
  case True
  then have "p \<in> set N" using assms(2,3) by (auto simp: plan_graph_defs cview_def)
  then have "open_views s N (p # R) q = insert p (open_views s N R q)" "p \<notin> open_views s N R q"
    using True assms(3) by (auto simp: open_views_def)
  then show ?thesis using True by simp
next
  case False
  then have "open_views s N (p # R) q = open_views s N R q" by (auto simp: open_views_def)
  then show ?thesis using False by simp
qed

lemma retires_iff:
  assumes "heap_ok (st_tensors s)" "plan_graph s L N" "p \<in> set (reads s N)" "cnt_inv s N (p # R) g"
  shows "retires s g p q \<longleftrightarrow> p \<notin> set R \<and> cview s p q"
proof -
  have ch: "hn_n_children (hn_of g p) = 1 \<longleftrightarrow> p \<notin> set R"
    using assms(4) by (simp add: cnt_inv_def count_list_0_iff)
  have cv: "cview s p q \<longleftrightarrow> (\<exists>t. deref s p = Some t \<and> t_view_src t = q \<and> q \<noteq> 0)"
    using assms(2,3) by (auto simp: plan_graph_defs cview_def)
  have "open_views s N (p # R) p = {}" if "cview s p q"
    using heap_ok_view [OF assms(1)] that by (auto simp: open_views_def)
  then have "cview s p q \<Longrightarrow> hn_n_views (hn_of g p) = 0" using cnt_inv_needed(2) [OF assms(4)] by simp
  then show ?thesis using ch cv by (auto simp: retires_def)
qed

lemma release_step:
  assumes "heap_ok (st_tensors s)" "plan_graph s L N" "p \<in> set (reads s N)" "p \<noteq> 0"
    and "mem_inv B s g" "cnt_inv s N (p # R) g" "live_inv s N Bn (p # R) X g"
    and "release_parent B s p g = Some g'"
  shows "mem_inv B s g'" "gmono g g'" "keeps_place g g' q" "cnt_inv s N R g'" "live_inv s N Bn R X g'"
proof -
  note r = release_parent_cases [OF assms(5,8,4,1)]
  show "mem_inv B s g'" "gmono g g'" "keeps_place g g' q" by (rule r)+
  have c: "hn_n_children (hn_of g q) = int (count_list (p # R) q)"
    "hn_n_views (hn_of g q) = int (card (open_views s N (p # R) q))" for q
    using assms(6) unfolding cnt_inv_def by blast+
  have "hn_n_children (hn_of g' q) = int (count_list R q)" for q
    unfolding r(4) [of q] c by simp
  moreover have "hn_n_views (hn_of g' q) = int (card (open_views s N R q))" for q
    unfolding r(5) [of q] c open_views_read [OF assms(1-3), of R q] retires_iff [OF assms(1-3,6), of q] by simp
  ultimately show cnt: "cnt_inv s N R g'" by (simp add: cnt_inv_def)
  have "live g' q" if "q \<in> Bn - X" "own s q" "needed s N R q" for q
  proof (rule ccontr)
    assume "\<not> live g' q"
    moreover have "live g q"
      using assms(7) that needed_mono [of R "p # R" s N q] by (auto simp: live_inv_def)
    ultimately have "hn_n_children (hn_of g' q) = 0 \<and> hn_n_views (hn_of g' q) = 0 \<and> \<not> out s q"
      by (intro r(7))
    then show False using that(3) unfolding cnt_inv_needed [OF cnt] needed_def by blast
  qed
  moreover have "p \<in> Bn" if "live g' p" for p using assms(7) r(6) [OF that] unfolding live_inv_def by blast
  ultimately show "live_inv s N Bn R X g'" unfolding live_inv_def by blast
qed

lemma release_loop:
  assumes "heap_ok (st_tensors s)" "plan_graph s L N" "set (filter (\<lambda>p. p \<noteq> 0) ps) \<subseteq> set (reads s N)"
    and "mem_inv B s g" "cnt_inv s N (filter (\<lambda>p. p \<noteq> 0) ps @ R) g" "live_inv s N Bn (filter (\<lambda>p. p \<noteq> 0) ps @ R) X g"
    and "foldM (release_parent B s) ps g = Some g'"
  shows "mem_inv B s g' \<and> gmono g g' \<and> (\<forall>q. keeps_place g g' q) \<and> cnt_inv s N R g' \<and> live_inv s N Bn R X g'"
  using assms(3-)
proof (induction ps arbitrary: g)
  case Nil
  then show ?case by (simp add: gmono_refl keeps_place_def)
next
  case (Cons p ps)
  show ?case
  proof (cases "p = 0")
    case True
    then show ?thesis using Cons by (simp add: release_parent_def)
  next
    case False
    then obtain g1 where g1: "release_parent B s p g = Some g1" and rest: "foldM (release_parent B s) ps g1 = Some g'"
      using Cons.prems(5) by (auto simp: bind_eq_Some_conv)
    have p: "p \<in> set (reads s N)" using Cons.prems(1) False by simp
    have c: "cnt_inv s N (p # filter (\<lambda>p. p \<noteq> 0) ps @ R) g" "live_inv s N Bn (p # filter (\<lambda>p. p \<noteq> 0) ps @ R) X g"
      using Cons.prems(3,4) False by simp_all
    note r = release_step [OF assms(1,2) p False Cons.prems(2) c g1]
    have "mem_inv B s g' \<and> gmono g1 g' \<and> (\<forall>q. keeps_place g1 g' q) \<and> cnt_inv s N R g' \<and> live_inv s N Bn R X g'"
      using Cons.IH [OF _ r(1,4,5) rest] Cons.prems(1) False by simp
    then show ?thesis using gmono_trans [OF r(2)] keeps_place_trans [OF r(3)] by blast
  qed
qed

text \<open>A tensor that has its range already, or needs none, is left alone.\<close>

definition same_obs :: "ggml_gallocr \<Rightarrow> ggml_gallocr \<Rightarrow> bool" where
  "same_obs g g' \<longleftrightarrow> keeps_counts g g' \<and> (\<forall>q. keeps_place g g' q \<and> live g' q = live g q)"

lemma same_obs_trans: "same_obs g g' \<Longrightarrow> same_obs g' g'' \<Longrightarrow> same_obs g g''"
  by (simp add: same_obs_def keeps_counts_def keeps_place_def)

lemma same_obs_inv:
  assumes "same_obs g g'"
  shows "cnt_inv s N R g' = cnt_inv s N R g" "live_inv s N Bn R X g' = live_inv s N Bn R X g"
  using assms by (simp_all add: same_obs_def cnt_inv_def live_inv_def keeps_counts_def)

lemma allocate_noop:
  assumes "heap_ok (st_tensors s)" "mem_inv B s g" "ggml_gallocr_allocate_node B s g p bid = Some g'"
    and "own s p \<Longrightarrow> live g p"
  shows "mem_inv B s g'" "gmono g g'" "same_obs g g'"
proof -
  have ns: "\<forall>t. deref s p = Some t \<longrightarrow> p \<notin> set (t_src t)"
    using no_self_src [OF assms(1)] heap_ok_nonzero [OF assms(1)] by blast
  note a = allocate_node_cases [OF assms(2,3) ns]
  show m: "mem_inv B s g'" and "gmono g g'" by (rule a)+
  have k: "keeps_place g g' q" for q using a(6) assms(4) by blast
  obtain X where X: "\<forall>q. q \<noteq> p \<longrightarrow> live g' q = (live g q \<and> q \<notin> X)" and "X = {}"
    using a(7) assms(4) by blast
  have "live g' q = live g q" for q
  proof (cases "q = p")
    case True
    then show ?thesis using a(4) assms(4) mem_invD(4) [OF m] mem_invD(4) [OF assms(2)] by blast
  next
    case False
    then show ?thesis using X \<open>X = {}\<close> by simp
  qed
  then show "same_obs g g'" using a(3) k by (simp add: same_obs_def)
qed

lemma parents_loop:
  assumes "heap_ok (st_tensors s)" "mem_inv B s g" "foldM (allocr_parent B s bid) ps g = Some g'"
    and "\<forall>p \<in> set ps. p \<noteq> 0 \<longrightarrow> own s p \<longrightarrow> live g p"
  shows "mem_inv B s g' \<and> gmono g g' \<and> same_obs g g'"
  using assms(2-)
proof (induction ps arbitrary: g)
  case Nil
  then show ?case by (simp add: gmono_refl same_obs_def keeps_counts_def keeps_place_def)
next
  case (Cons p ps)
  show ?case
  proof (cases "p = 0")
    case True
    then show ?thesis using Cons by (simp add: allocr_parent_def)
  next
    case False
    obtain g1 where "allocr_parent B s bid p g = Some g1" and rest: "foldM (allocr_parent B s bid) ps g1 = Some g'"
      using Cons.prems(2) by (auto simp: bind_eq_Some_conv)
    then have g1: "ggml_gallocr_allocate_node B s g p bid = Some g1" using False by (simp add: allocr_parent_def)
    have "own s p \<Longrightarrow> live g p" using Cons.prems(3) False by simp
    note a = allocate_noop [OF assms(1) Cons.prems(1) g1 this]
    have "mem_inv B s g' \<and> gmono g1 g' \<and> same_obs g1 g'"
      using Cons.IH [OF a(1) rest] Cons.prems(3) a(3) by (simp add: same_obs_def)
    then show ?thesis using gmono_trans [OF a(2)] same_obs_trans [OF a(3)] by blast
  qed
qed

section \<open>One node\<close>

definition inplace_of :: "ggml_state \<Rightarrow> ggml_gallocr \<Rightarrow> ptr \<Rightarrow> ptr \<Rightarrow> bool" where
  "inplace_of s g n q \<longleftrightarrow> (\<exists>t tq. deref s n = Some t \<and> deref s q = Some tq \<and> q \<in> set (t_src t)
     \<and> ggml_op_can_inplace (t_op t) \<and> ggml_are_same_layout t tq)
     \<and> hn_buffer_id (hn_of g n) = hn_buffer_id (hn_of g q) \<and> hn_addr (hn_of g n) = hn_addr (hn_of g q)"

lemma srcs_of_reads: "n \<in> set N \<Longrightarrow> set (srcs_of s n) \<subseteq> set (reads s N)"
  by (auto simp: reads_def)

lemma reusable_not_needed:
  assumes "reusable s g n p" "cnt_inv s N (srcs_of s n @ R) g"
  shows "\<not> needed s N R p" "p \<in> set (srcs_of s n)"
proof -
  show src: "p \<in> set (srcs_of s n)" using assms(1) by (auto simp: reusable_def srcs_of_eq)
  then have c0: "0 < count_list (srcs_of s n) p" using count_list_0_iff [of "srcs_of s n" p] by simp
  have "count_list (srcs_of s n @ R) p = 1" "open_views s N (srcs_of s n @ R) p = {}"
    using assms by (auto simp: reusable_def cnt_inv_def)
  then have "count_list R p = 0" and "open_views s N (srcs_of s n @ R) p = {}" using c0 by simp_all
  then show "\<not> needed s N R p"
    using assms(1) open_views_mono [of R "srcs_of s n @ R" s N p]
    by (auto simp: needed_def count_list_0_iff reusable_def out_def)
qed

lemma allocr_node_step:
  assumes hp: "heap_ok (st_tensors s)" and pg: "plan_graph s L N" and i: "i < length N" "cg_nodes graph = N"
    and m: "mem_inv B s g" and cnt: "cnt_inv s N (reads s (drop i N)) g"
    and lv: "live_inv s N (set L \<union> set (take i N)) (reads s (drop i N)) {} g"
    and run: "allocr_node B s graph ids i g = Some g'"
  shows "mem_inv B s g'" "gmono g g'" "cnt_inv s N (reads s (drop (Suc i) N)) g'"
    and "live_inv s N (set L \<union> set (take (Suc i) N)) (reads s (drop (Suc i) N)) {} g'"
    and "q \<in> set L \<union> set (take i N) \<Longrightarrow> keeps_place g g' q"
    and "own s (N ! i) \<Longrightarrow> is_placed B s g' (N ! i)"
    and "q \<in> set L \<union> set (take i N) \<Longrightarrow> own s q \<Longrightarrow> own s (N ! i) \<Longrightarrow> needed s N (reads s (drop i N)) q
      \<Longrightarrow> cells B s g' (N ! i) \<inter> cells B s g' q = {}
        \<or> inplace_of s g' (N ! i) q \<and> \<not> needed s N (reads s (drop (Suc i) N)) q"
proof -
  let ?n = "N ! i" and ?Bn = "set L \<union> set (take i N)" and ?R = "reads s (drop (Suc i) N)"
  obtain bid t g1 g2 where t: "deref s ?n = Some t"
    and p: "foldM (allocr_parent B s bid) (t_src t) g = Some g1"
    and a: "ggml_gallocr_allocate_node B s g1 ?n bid = Some g2"
    and r: "foldM (release_parent B s) (t_src t) g2 = Some g'"
    using run i(2) by (auto simp: allocr_node_def bind_eq_Some_conv Let_def)
  have S: "srcs_of s ?n = filter (\<lambda>p. p \<noteq> 0) (t_src t)" using t by (simp add: srcs_of_eq)
  have rd: "reads s (drop i N) = srcs_of s ?n @ ?R" using i(1) by (simp flip: Cons_nth_drop_Suc)
  have nN: "?n \<in> set N" using i(1) by simp
  have "?n \<notin> set (take i N)"
    using pg i(1) by (auto simp: plan_graph_defs in_set_conv_nth nth_eq_iff_index_eq)
  then have nB: "?n \<notin> ?Bn" using pg nN unfolding plan_graph_defs by blast
  have SB: "set (srcs_of s ?n) \<subseteq> ?Bn" using pg i(1) by (simp add: plan_graph_defs)
  have plive: "live g q" if "q \<in> ?Bn" "own s q" "needed s N (reads s (drop i N)) q" for q
    using lv that by (simp add: live_inv_def)
  have "live g q" if "q \<in> set (t_src t)" "q \<noteq> 0" "own s q" for q
    using plive [of q] that SB S rd by (auto simp: needed_def)
  then have "mem_inv B s g1 \<and> gmono g g1 \<and> same_obs g g1" using parents_loop [OF hp m p] by blast
  then have m1: "mem_inv B s g1" and gm1: "gmono g g1" and ob1: "same_obs g g1" by blast+
  have cnt1: "cnt_inv s N (srcs_of s ?n @ ?R) g1" and lv1: "live_inv s N ?Bn (srcs_of s ?n @ ?R) {} g1"
    using cnt lv rd same_obs_inv [OF ob1] by simp_all
  have ns: "\<forall>t. deref s ?n = Some t \<longrightarrow> ?n \<notin> set (t_src t)"
    using no_self_src [OF hp] heap_ok_nonzero [OF hp] by blast
  note al = allocate_node_cases [OF m1 a ns]
  obtain X where X: "\<forall>q. q \<noteq> ?n \<longrightarrow> live g2 q = (live g1 q \<and> q \<notin> X)"
    and X': "X = {} \<or> (\<exists>p. X = {p} \<and> p \<noteq> ?n \<and> own s ?n \<and> \<not> live g1 ?n \<and> reusable s g1 ?n p
             \<and> hn_buffer_id (hn_of g2 ?n) = hn_buffer_id (hn_of g1 p) \<and> hn_addr (hn_of g2 ?n) = hn_addr (hn_of g1 p))"
    using al(7) by blast
  have nX: "?n \<notin> X" using X' by auto
  have dead: "\<not> live g1 ?n" using lv1 nB by (auto simp: live_inv_def)
  have kp2: "keeps_place g1 g2 q" if "q \<noteq> ?n" for q using al(6) that by blast
  have cnt2: "cnt_inv s N (srcs_of s ?n @ ?R) g2" using cnt1 al(3) by (simp add: cnt_inv_def keeps_counts_def)
  have lv2: "live_inv s N (insert ?n ?Bn) (srcs_of s ?n @ ?R) X g2"
    unfolding live_inv_def
  proof (intro conjI allI ballI impI)
    fix q assume "live g2 q"
    then show "q \<in> insert ?n ?Bn" using X lv1 by (auto simp: live_inv_def)
  next
    fix q assume "q \<in> insert ?n ?Bn - X" "own s q \<and> needed s N (srcs_of s ?n @ ?R) q"
    then show "live g2 q" using X lv1 al(4) by (cases "q = ?n") (auto simp: live_inv_def)
  qed
  have Ssub: "set (filter (\<lambda>p. p \<noteq> 0) (t_src t)) \<subseteq> set (reads s N)"
    using srcs_of_reads [OF nN, of s] S by simp
  have rel: "mem_inv B s g' \<and> gmono g2 g' \<and> (\<forall>q. keeps_place g2 g' q) \<and> cnt_inv s N ?R g'
      \<and> live_inv s N (insert ?n ?Bn) ?R X g'"
    using release_loop [OF hp pg Ssub al(1) _ _ r, of ?R "insert ?n ?Bn" X] cnt2 lv2 S by simp
  have nd: "\<not> needed s N ?R q" if "q \<in> X" for q
    using X' that reusable_not_needed(1) [OF _ cnt1] by blast
  show "mem_inv B s g'" "cnt_inv s N ?R g'" using rel by blast+
  show gm: "gmono g g'" using gm1 al(2) rel gmono_trans by blast
  have "set L \<union> set (take (Suc i) N) = insert ?n ?Bn" using i(1) by (simp add: take_Suc_conv_app_nth)
  then show "live_inv s N (set L \<union> set (take (Suc i) N)) ?R {} g'"
    using rel nd by (auto simp: live_inv_def)
  have kp: "keeps_place g g' q" if "q \<noteq> ?n" for q
    using ob1 kp2 [OF that] rel keeps_place_trans unfolding same_obs_def by blast
  then show "q \<in> ?Bn \<Longrightarrow> keeps_place g g' q" using nB by metis
  have kn: "keeps_place g2 g' ?n" using rel by blast
  show "is_placed B s g' ?n" if "own s ?n"
    using gmono_placed [OF _ al(5) [OF that dead]] rel kn by (simp add: keeps_place_def)
  show "cells B s g' ?n \<inter> cells B s g' q = {} \<or> inplace_of s g' ?n q \<and> \<not> needed s N ?R q"
    if q: "q \<in> ?Bn" "own s q" "own s ?n" "needed s N (reads s (drop i N)) q"
  proof (cases "q \<in> X")
    case True
    then have re: "reusable s g1 ?n q" "hn_buffer_id (hn_of g2 ?n) = hn_buffer_id (hn_of g1 q)"
      "hn_addr (hn_of g2 ?n) = hn_addr (hn_of g1 q)" and qn: "q \<noteq> ?n" using X' by auto
    have "inplace_of s g' ?n q"
      using re kn kp2 [OF qn] rel unfolding inplace_of_def reusable_def keeps_place_def by metis
    then show ?thesis using nd [OF True] by blast
  next
    case False
    have qn: "q \<noteq> ?n" using q(1) nB by blast
    have "live g1 q" using lv1 q rd by (simp add: live_inv_def)
    then have "live g2 q" "live g2 ?n" using X qn False al(4) q(3) by simp_all
    then have "cells B s g2 ?n \<inter> cells B s g2 q = {}" using mem_invD(7) [OF al(1)] qn by blast
    moreover have "range_cells B s g' = range_cells B s g2"
      using rel by (intro static_cells) (simp add: gmono_def)
    moreover have "keeps_place g2 g' q" using rel by blast
    ultimately show ?thesis using kn by (simp add: keeps_place_def)
  qed
qed

section \<open>The whole graph\<close>

lemma foldM_append: "foldM f (xs @ ys) s = Option.bind (foldM f xs s) (foldM f ys)"
proof (induction xs arbitrary: s)
  case Nil
  then show ?case by simp
next
  case (Cons x xs)
  then show ?case by (cases "f x s") simp_all
qed

text \<open>
  \<open>pair_ok\<close> is the promise for node \<open>m\<close>: its range overlaps none of the earlier tensors that are
  still needed at its step, unless it took over the range of one that is not needed afterwards.
\<close>

definition pair_ok :: "backends \<Rightarrow> ggml_state \<Rightarrow> ptr list \<Rightarrow> ptr list \<Rightarrow> ggml_gallocr \<Rightarrow> nat \<Rightarrow> bool" where
  "pair_ok B s L N g m \<longleftrightarrow> (\<forall>q \<in> set L \<union> set (take m N). own s q \<longrightarrow> own s (N ! m) \<longrightarrow> needed s N (reads s (drop m N)) q
     \<longrightarrow> cells B s g (N ! m) \<inter> cells B s g q = {}
       \<or> inplace_of s g (N ! m) q \<and> \<not> needed s N (reads s (drop (Suc m) N)) q)"

lemma pair_ok_keeps:
  assumes "pair_ok B s L N g m" "ga_static g' = ga_static g" "\<forall>q \<in> insert (N ! m) (set L \<union> set (take m N)). keeps_place g g' q"
  shows "pair_ok B s L N g' m"
proof -
  have "cells B s g' q = cells B s g q" "inplace_of s g' (N ! m) q = inplace_of s g (N ! m) q"
    if "q \<in> insert (N ! m) (set L \<union> set (take m N))" for q
  proof -
    have "keeps_place g g' q" "keeps_place g g' (N ! m)" using assms(3) that by blast+
    then show "cells B s g' q = cells B s g q" "inplace_of s g' (N ! m) q = inplace_of s g (N ! m) q"
      using static_cells [OF assms(2), of B s] by (simp_all add: keeps_place_def inplace_of_def)
  qed
  then show ?thesis using assms(1) unfolding pair_ok_def by simp
qed

definition plan_inv :: "backends \<Rightarrow> ggml_state \<Rightarrow> ptr list \<Rightarrow> ptr list \<Rightarrow> nat \<Rightarrow> ggml_gallocr \<Rightarrow> bool" where
  "plan_inv B s L N i g \<longleftrightarrow> mem_inv B s g \<and> cnt_inv s N (reads s (drop i N)) g
     \<and> live_inv s N (set L \<union> set (take i N)) (reads s (drop i N)) {} g
     \<and> (\<forall>q \<in> set L \<union> set (take i N). own s q \<longrightarrow> is_placed B s g q)
     \<and> (\<forall>m < i. pair_ok B s L N g m)"

lemma plan_inv_step:
  assumes "heap_ok (st_tensors s)" "plan_graph s L N" "i < length N" "cg_nodes graph = N"
    and "plan_inv B s L N i g" "allocr_node B s graph ids i g = Some g'"
  shows "plan_inv B s L N (Suc i) g'" "gmono g g'" "\<And>q. q \<in> set L \<union> set (take i N) \<Longrightarrow> keeps_place g g' q"
proof -
  let ?Bn = "set L \<union> set (take i N)"
  have p: "mem_inv B s g" "cnt_inv s N (reads s (drop i N)) g" "live_inv s N ?Bn (reads s (drop i N)) {} g"
    "\<forall>q \<in> ?Bn. own s q \<longrightarrow> is_placed B s g q" "\<forall>m < i. pair_ok B s L N g m"
    using assms(5) by (simp_all add: plan_inv_def)
  note a = allocr_node_step [OF assms(1-4) p(1-3) assms(6)]
  show gm: "gmono g g'" by (rule a(2))
  show kp: "\<And>q. q \<in> ?Bn \<Longrightarrow> keeps_place g g' q" by (rule a(5))
  have st: "ga_static g' = ga_static g" using gm by (simp add: gmono_def)
  have tk: "take (Suc i) N = take i N @ [N ! i]" using assms(3) by (simp add: take_Suc_conv_app_nth)
  have "is_placed B s g' q" if "q \<in> ?Bn" "own s q" for q
    using gmono_placed [OF gm] p(4) that kp [OF that(1)] by (simp add: keeps_place_def)
  then have placed: "\<forall>q \<in> set L \<union> set (take (Suc i) N). own s q \<longrightarrow> is_placed B s g' q"
    using a(6) tk by auto
  have "pair_ok B s L N g' m" if "m < Suc i" for m
  proof (cases "m = i")
    case True
    then show ?thesis using a(7) by (simp add: pair_ok_def)
  next
    case False
    then have lt: "m < i" using that by simp
    then have "take i N ! m \<in> set (take i N)" using assms(3) by (intro nth_mem) simp
    moreover have "set (take m N) \<subseteq> set (take i N)" using lt by (simp add: set_take_subset_set_take)
    ultimately have "\<forall>q \<in> insert (N ! m) (set L \<union> set (take m N)). keeps_place g g' q" using kp lt by auto
    then show ?thesis using pair_ok_keeps [OF _ st] p(5) lt by blast
  qed
  then show "plan_inv B s L N (Suc i) g'" using a(1,3,4) placed by (simp add: plan_inv_def)
qed

lemma plan_inv_loop:
  assumes "heap_ok (st_tensors s)" "plan_graph s L N" "cg_nodes graph = N"
    and "plan_inv B s L N 0 g" "k \<le> length N" "foldM (allocr_node B s graph ids) [0..<k] g = Some g'"
  shows "plan_inv B s L N k g' \<and> gmono g g' \<and> (\<forall>q \<in> set L. keeps_place g g' q)"
  using assms(5,6)
proof (induction k arbitrary: g')
  case 0
  then show ?case using assms(4) by (simp add: gmono_refl keeps_place_def)
next
  case (Suc k)
  obtain g1 where g1: "foldM (allocr_node B s graph ids) [0..<k] g = Some g1"
    and st: "allocr_node B s graph ids k g1 = Some g'"
    using Suc.prems(2) by (auto simp: foldM_append bind_eq_Some_conv)
  have ih: "plan_inv B s L N k g1 \<and> gmono g g1 \<and> (\<forall>q \<in> set L. keeps_place g g1 q)"
    using Suc.IH [OF _ g1] Suc.prems(1) by simp
  note p = plan_inv_step [OF assms(1,2) _ assms(3) _ st]
  show ?case using p ih Suc.prems(1) gmono_trans keeps_place_trans by (metis Suc_le_lessD UnI1)
qed

section \<open>The leafs, and counting\<close>

text \<open>Between the calls of the planner nothing is held: the tables are cleared first.\<close>

definition gallocr_ok :: "backends \<Rightarrow> ggml_state \<Rightarrow> ggml_gallocr \<Rightarrow> bool" where
  "gallocr_ok B s g \<longleftrightarrow> hs_inv (ga_hash_set g) \<and> (\<forall>a \<in> set (ga_tallocs g). dyn_inv a) \<and> sizes_ok B s g"

lemma gallocr_clear_inv:
  assumes "gallocr_ok B s g"
  shows "mem_inv B s (gallocr_clear g)" "hn_of (gallocr_clear g) = (\<lambda>_. hn_zero)"
    and "ga_static (gallocr_clear g) = ga_static g" "ga_tallocs (gallocr_clear g) = ga_tallocs g"
proof -
  have inv: "hs_inv (ga_hash_set g)" using assms by (simp add: gallocr_ok_def)
  note r = hash_set_reset_inv [OF inv]
  show of: "hn_of (gallocr_clear g) = (\<lambda>_. hn_zero)"
    using r by (simp add: hn_of_def gallocr_clear_def member_slot_def fun_eq_iff)
  show st: "ga_static (gallocr_clear g) = ga_static g" "ga_tallocs (gallocr_clear g) = ga_tallocs g"
    using r(3) by (simp_all add: gallocr_clear_def ga_static_def)
  have "ga_inv (gallocr_clear g)" using r by (simp add: ga_inv_def gallocr_clear_def)
  then show "mem_inv B s (gallocr_clear g)"
    using assms static_sizes_ok [OF st(1)] of st(2) by (simp add: mem_inv_def gallocr_ok_def hn_zero_def)
qed

definition leafs_live :: "ggml_state \<Rightarrow> ptr set \<Rightarrow> ggml_gallocr \<Rightarrow> bool" where
  "leafs_live s L g \<longleftrightarrow> (\<forall>p. live g p \<longleftrightarrow> p \<in> L \<and> own s p)"

lemma leaf_loop:
  assumes "heap_ok (st_tensors s)" "mem_inv B s g0" "hn_of g0 = (\<lambda>_. hn_zero)" "k \<le> length (cg_leafs graph)"
    and "foldM (allocr_leaf B s graph ids) [0..<k] g0 = Some g"
  shows "mem_inv B s g \<and> gmono g0 g \<and> keeps_counts g0 g \<and> leafs_live s (set (take k (cg_leafs graph))) g"
  using assms(4,5)
proof (induction k arbitrary: g)
  case 0
  then show ?case using assms(2,3) by (simp add: gmono_refl keeps_counts_def leafs_live_def hn_zero_def)
next
  case (Suc k)
  let ?l = "cg_leafs graph ! k"
  obtain g1 where g1: "foldM (allocr_leaf B s graph ids) [0..<k] g0 = Some g1"
    and st: "allocr_leaf B s graph ids k g1 = Some g"
    using Suc.prems(2) by (auto simp: foldM_append bind_eq_Some_conv)
  obtain bid where a: "ggml_gallocr_allocate_node B s g1 ?l bid = Some g"
    using st by (auto simp: allocr_leaf_def bind_eq_Some_conv)
  have ih: "mem_inv B s g1" "gmono g0 g1" "keeps_counts g0 g1" "leafs_live s (set (take k (cg_leafs graph))) g1"
    using Suc.IH [OF _ g1] Suc.prems(1) by simp_all
  have ns: "\<forall>t. deref s ?l = Some t \<longrightarrow> ?l \<notin> set (t_src t)"
    using no_self_src [OF assms(1)] heap_ok_nonzero [OF assms(1)] by blast
  note c = allocate_node_cases [OF ih(1) a ns]
  have "\<not> reusable s g1 ?l p" for p
    using ih(3) assms(3) by (simp add: reusable_def keeps_counts_def hn_zero_def)
  then have lv: "q \<noteq> ?l \<Longrightarrow> live g q = live g1 q" for q using c(7) by blast
  have ln: "live g ?l \<longleftrightarrow> own s ?l" using c(4) mem_invD(4) [OF c(1)] by blast
  have "take (Suc k) (cg_leafs graph) = take k (cg_leafs graph) @ [?l]"
    using Suc.prems(1) by (simp add: take_Suc_conv_app_nth)
  then have "leafs_live s (set (take (Suc k) (cg_leafs graph))) g"
    using ih(4) lv ln unfolding leafs_live_def by (auto; metis)
  moreover have "keeps_counts g0 g" using ih(3) c(3) by (simp add: keeps_counts_def)
  ultimately show ?case using c(1) gmono_trans [OF ih(2) c(2)] by blast
qed

text \<open>Counting adds one child per source and one view per viewing node; nothing else changes.\<close>

definition counted :: "ggml_gallocr \<Rightarrow> ggml_gallocr \<Rightarrow> (ptr \<Rightarrow> nat) \<Rightarrow> (ptr \<Rightarrow> nat) \<Rightarrow> bool" where
  "counted g g' c v \<longleftrightarrow> (\<forall>q. keeps_place g g' q \<and> live g' q = live g q
     \<and> hn_n_children (hn_of g' q) = hn_n_children (hn_of g q) + int (c q)
     \<and> hn_n_views (hn_of g' q) = hn_n_views (hn_of g q) + int (v q))"

lemma counted_trans:
  "counted g g' c v \<Longrightarrow> counted g' g'' c' v' \<Longrightarrow> counted g g'' (\<lambda>q. c q + c' q) (\<lambda>q. v q + v' q)"
  by (simp add: counted_def keeps_place_def)

lemma counted_refl: "counted g g (\<lambda>_. 0) (\<lambda>_. 0)"
  by (simp add: counted_def keeps_place_def)

lemma same_obs_counted: "same_obs g g' \<longleftrightarrow> counted g g' (\<lambda>_. 0) (\<lambda>_. 0)"
  by (auto simp: same_obs_def counted_def keeps_counts_def)

lemma hash_bump:
  assumes "mem_inv B s g" "ggml_gallocr_hash_get g p = Some (i, g1)" "g' = hn_upd i f g1"
    and "\<And>h. hn_allocated (f h) = hn_allocated h \<and> hn_buffer_id (f h) = hn_buffer_id h \<and> hn_addr (f h) = hn_addr h"
  shows "mem_inv B s g'" "gmono g g'" "hn_of g' = (hn_of g)(p := f (hn_of g p))"
proof -
  note h = hash_get_same [OF mem_invD(1) [OF assms(1)] assms(2)]
  have e: "ga_inv g1" "hn_of g1 = hn_of g" "ga_static g1 = ga_static g" "ga_tallocs g1 = ga_tallocs g" "has_slot g1 p i"
    using h by (simp_all add: same_recs_def)
  note u = hn_upd_correct [OF e(1,5), of f, folded assms(3)]
  show hn: "hn_of g' = (hn_of g)(p := f (hn_of g p))" using u(2) e(2) by simp
  have "live g' q = live g q" "keeps_place g g' q" for q
    using hn assms(4) by (simp_all add: keeps_place_def)
  then show "mem_inv B s g'" "gmono g g'"
    using mem_inv_counts [OF assms(1) u(1)] u(4,5) e(3,4) by simp_all
qed

lemma count_src_step:
  assumes "heap_ok (st_tensors s)" "mem_inv B s g" "count_src B s ids i p g = Some g'"
    and "p \<noteq> 0 \<Longrightarrow> \<forall>t. deref s p = Some t \<and> has_flag t GGML_TENSOR_FLAG_INPUT \<and> own s p \<longrightarrow> live g p"
  shows "mem_inv B s g' \<and> gmono g g' \<and> counted g g' (\<lambda>q. of_bool (p \<noteq> 0 \<and> q = p)) (\<lambda>_. 0)"
proof (cases "p = 0")
  case True
  then show ?thesis using assms(2,3) counted_refl by (simp add: count_src_def gmono_refl)
next
  case False
  obtain j g1 t where j: "ggml_gallocr_hash_get g p = Some (j, g1)" and t: "deref s p = Some t"
    and r: "(if has_flag t GGML_TENSOR_FLAG_INPUT then do {
          buffer_id \<leftarrow> get_node_buffer_id ids i;
          ggml_gallocr_allocate_node B s (hn_upd j (hn_n_children_update (\<lambda>n. n + 1)) g1) p buffer_id }
        else Some (hn_upd j (hn_n_children_update (\<lambda>n. n + 1)) g1)) = Some g'"
    using assms(3) False by (auto simp: count_src_def bind_eq_Some_conv Let_def)
  let ?g2 = "hn_upd j (hn_n_children_update (\<lambda>n. n + 1)) g1"
  have b: "mem_inv B s ?g2" "gmono g ?g2"
    "hn_of ?g2 = (hn_of g)(p := hn_n_children_update (\<lambda>n. n + 1) (hn_of g p))"
    using hash_bump [OF assms(2) j refl, of "hn_n_children_update (\<lambda>n. n + 1)"] by simp_all
  have c: "counted g ?g2 (\<lambda>q. of_bool (p \<noteq> 0 \<and> q = p)) (\<lambda>_. 0)"
    using b(3) False by (simp add: counted_def keeps_place_def)
  show ?thesis
  proof (cases "has_flag t GGML_TENSOR_FLAG_INPUT")
    case True
    then obtain bid where a: "ggml_gallocr_allocate_node B s ?g2 p bid = Some g'"
      using r by (auto simp: bind_eq_Some_conv)
    have "live ?g2 p" if "own s p" using assms(4) [OF False] t True that b(3) by simp
    note n = allocate_noop [OF assms(1) b(1) a this]
    have "counted ?g2 g' (\<lambda>_. 0) (\<lambda>_. 0)" using n(3) same_obs_counted by blast
    then show ?thesis using n(1) gmono_trans [OF b(2) n(2)] counted_trans [OF c, of g'] by fastforce
  next
    case False
    then show ?thesis using r b c by simp
  qed
qed

lemma count_srcs_loop:
  assumes "heap_ok (st_tensors s)" "mem_inv B s g" "foldM (count_src B s ids i) ps g = Some g'"
    and "\<forall>p \<in> set ps. p \<noteq> 0 \<longrightarrow> (\<forall>t. deref s p = Some t \<and> has_flag t GGML_TENSOR_FLAG_INPUT \<and> own s p \<longrightarrow> live g p)"
  shows "mem_inv B s g' \<and> gmono g g' \<and> counted g g' (count_list (filter (\<lambda>p. p \<noteq> 0) ps)) (\<lambda>_. 0)"
  using assms(2-)
proof (induction ps arbitrary: g)
  case Nil
  then show ?case using counted_refl by (simp add: gmono_refl)
next
  case (Cons p ps)
  obtain g1 where g1: "count_src B s ids i p g = Some g1" and rest: "foldM (count_src B s ids i) ps g1 = Some g'"
    using Cons.prems(2) by (auto simp: bind_eq_Some_conv)
  have a: "mem_inv B s g1" "gmono g g1" "counted g g1 (\<lambda>q. of_bool (p \<noteq> 0 \<and> q = p)) (\<lambda>_. 0)"
    using count_src_step [OF assms(1) Cons.prems(1) g1] Cons.prems(3) by simp_all
  have "mem_inv B s g' \<and> gmono g1 g' \<and> counted g1 g' (count_list (filter (\<lambda>p. p \<noteq> 0) ps)) (\<lambda>_. 0)"
    using Cons.IH [OF a(1) rest] Cons.prems(3) a(3) by (simp add: counted_def)
  moreover have "count_list (filter (\<lambda>p. p \<noteq> 0) (p # ps))
      = (\<lambda>q. of_bool (p \<noteq> 0 \<and> q = p) + count_list (filter (\<lambda>p. p \<noteq> 0) ps) q)"
    by (auto simp: fun_eq_iff)
  ultimately show ?case using gmono_trans [OF a(2)] counted_trans [OF a(3)] by fastforce
qed

lemma count_node_step:
  assumes "heap_ok (st_tensors s)" "plan_graph s L N" "mem_inv B s g" "leafs_live s (set L) g"
    and "i < length N" "cg_nodes graph = N" "count_node B s graph ids i g = Some g'"
  shows "mem_inv B s g' \<and> gmono g g' \<and> counted g g' (count_list (srcs_of s (N ! i))) (\<lambda>q. of_bool (cview s (N ! i) q))"
proof -
  let ?n = "N ! i"
  have nN: "?n \<in> set N" using assms(5) by simp
  obtain t where t: "deref s ?n = Some t" using assms(6,7) by (auto simp: count_node_def bind_eq_Some_conv Let_def)
  then have "\<not> has_flag t GGML_TENSOR_FLAG_INPUT" using assms(2) nN by (auto simp: plan_graph_defs)
  then obtain g1 where v: "count_view g t = Some g1" and r: "foldM (count_src B s ids i) (t_src t) g1 = Some g'"
    using assms(6,7) t by (auto simp: count_node_def bind_eq_Some_conv Let_def)
  have 1: "mem_inv B s g1 \<and> gmono g g1 \<and> counted g g1 (\<lambda>_. 0) (\<lambda>q. of_bool (cview s ?n q))"
  proof (cases "ggml_impl_is_view t \<and> t_op t \<noteq> GGML_OP_NONE")
    case False
    then have "g1 = g" "\<not> cview s ?n q" for q using v t by (auto simp: count_view_def cview_def ggml_impl_is_view_def)
    then show ?thesis using assms(3) counted_refl by (simp add: gmono_refl)
  next
    case True
    then obtain j g3 where j: "ggml_gallocr_hash_get g (t_view_src t) = Some (j, g3)"
      and g1: "g1 = hn_upd j (hn_n_views_update (\<lambda>n. n + 1)) g3"
      using v by (auto simp: count_view_def bind_eq_Some_conv)
    have b: "mem_inv B s g1" "gmono g g1"
      "hn_of g1 = (hn_of g)(t_view_src t := hn_n_views_update (\<lambda>n. n + 1) (hn_of g (t_view_src t)))"
      using hash_bump [OF assms(3) j g1] by simp_all
    have "cview s ?n q \<longleftrightarrow> q = t_view_src t" for q using True t by (auto simp: cview_def ggml_impl_is_view_def)
    then show ?thesis using b by (auto simp: counted_def keeps_place_def)
  qed
  have lv: "live g1 p" if "p \<in> set (t_src t)" "p \<noteq> 0" "deref s p = Some u" "has_flag u GGML_TENSOR_FLAG_INPUT" "own s p" for p u
  proof -
    have "p \<in> set (srcs_of s ?n)" using that t by (simp add: srcs_of_eq)
    then have "p \<in> set L \<union> set N" using assms(2,5) unfolding plan_graph_defs by (meson UnE UnI1 UnI2 in_set_takeD subsetD)
    then have "p \<in> set L" using assms(2) that(3,4) unfolding plan_graph_defs by blast
    then have "live g p" using assms(4) that(5) by (simp add: leafs_live_def)
    then show ?thesis using 1 by (simp add: counted_def)
  qed
  have m1: "mem_inv B s g1" using 1 by blast
  have "mem_inv B s g' \<and> gmono g1 g' \<and> counted g1 g' (count_list (filter (\<lambda>p. p \<noteq> 0) (t_src t))) (\<lambda>_. 0)"
    using count_srcs_loop [OF assms(1) m1 r] lv by blast
  moreover have "srcs_of s ?n = filter (\<lambda>p. p \<noteq> 0) (t_src t)" using t by (simp add: srcs_of_eq)
  ultimately show ?thesis using 1 gmono_trans counted_trans [of g g1] by fastforce
qed

lemma card_take_Suc:
  assumes "distinct N" "k < length N"
  shows "card {v \<in> set (take (Suc k) N). P v} = card {v \<in> set (take k N). P v} + of_bool (P (N ! k))"
proof -
  have t: "take (Suc k) N = take k N @ [N ! k]" using assms(2) by (simp add: take_Suc_conv_app_nth)
  have "N ! k \<notin> set (take k N)" using assms by (auto simp: in_set_conv_nth nth_eq_iff_index_eq)
  moreover have "{v \<in> set (take (Suc k) N). P v} = {v \<in> set (take k N). P v} \<union> (if P (N ! k) then {N ! k} else {})"
    using t by auto
  ultimately show ?thesis by simp
qed

lemma count_loop:
  assumes "heap_ok (st_tensors s)" "plan_graph s L N" "mem_inv B s g" "leafs_live s (set L) g"
    and "cg_nodes graph = N" "k \<le> length N" "foldM (count_node B s graph ids) [0..<k] g = Some g'"
  shows "mem_inv B s g' \<and> gmono g g'
    \<and> counted g g' (count_list (reads s (take k N))) (\<lambda>q. card {v \<in> set (take k N). cview s v q})"
  using assms(6,7)
proof (induction k arbitrary: g')
  case 0
  have "count_list [] = (\<lambda>_. 0 :: nat)" by (simp add: fun_eq_iff)
  then show ?case using 0 assms(3) counted_refl by (simp add: gmono_refl)
next
  case (Suc k)
  obtain g1 where g1: "foldM (count_node B s graph ids) [0..<k] g = Some g1"
    and st: "count_node B s graph ids k g1 = Some g'"
    using Suc.prems(2) by (auto simp: foldM_append bind_eq_Some_conv)
  have ih: "mem_inv B s g1" "gmono g g1"
    "counted g g1 (count_list (reads s (take k N))) (\<lambda>q. card {v \<in> set (take k N). cview s v q})"
    using Suc.IH [OF _ g1] Suc.prems(1) by simp_all
  have ll: "leafs_live s (set L) g1" using ih(3) assms(4) by (simp add: leafs_live_def counted_def)
  have k: "k < length N" using Suc.prems(1) by simp
  have s: "mem_inv B s g' \<and> gmono g1 g' \<and> counted g1 g' (count_list (srcs_of s (N ! k))) (\<lambda>q. of_bool (cview s (N ! k) q))"
    by (rule count_node_step [OF assms(1,2) ih(1) ll k assms(5) st])
  have "distinct N" using assms(2) by (simp add: plan_graph_defs)
  then have "(\<lambda>q. card {v \<in> set (take (Suc k) N). cview s v q})
      = (\<lambda>q. card {v \<in> set (take k N). cview s v q} + of_bool (cview s (N ! k) q))"
    using card_take_Suc [OF _ k] by (simp add: fun_eq_iff)
  moreover have "count_list (reads s (take (Suc k) N))
      = (\<lambda>q. count_list (reads s (take k N)) q + count_list (srcs_of s (N ! k)) q)"
    using k by (simp add: take_Suc_conv_app_nth fun_eq_iff)
  ultimately show ?case
    using s gmono_trans [OF ih(2)] counted_trans [OF ih(3)] by simp
qed

section \<open>The plan\<close>

lemma alloc_graph_impl_plan:
  assumes "heap_ok (st_tensors s)" "plan_graph s (cg_leafs graph) (cg_nodes graph)" "gallocr_ok B s g"
    and "ggml_gallocr_alloc_graph_impl B s g graph nids lids = Some g'"
  shows "plan_inv B s (cg_leafs graph) (cg_nodes graph) (length (cg_nodes graph)) g'" "gmono g g'"
    and "\<And>p q. p \<in> set (cg_leafs graph) \<Longrightarrow> q \<in> set (cg_leafs graph) \<Longrightarrow> p \<noteq> q \<Longrightarrow> own s p \<Longrightarrow> own s q
      \<Longrightarrow> cells B s g' p \<inter> cells B s g' q = {}"
proof -
  let ?L = "cg_leafs graph" and ?N = "cg_nodes graph"
  note c = gallocr_clear_inv [OF assms(3)]
  obtain g1 g2 where g1: "foldM (allocr_leaf B s graph lids) [0..<length ?L] (gallocr_clear g) = Some g1"
    and g2: "foldM (count_node B s graph nids) [0..<length ?N] g1 = Some g2"
    and g3: "foldM (allocr_node B s graph nids) [0..<length ?N] g2 = Some g'"
    using assms(4) by (auto simp: ggml_gallocr_alloc_graph_impl_def bind_eq_Some_conv Let_def)
  have l: "mem_inv B s g1" "gmono (gallocr_clear g) g1" "keeps_counts (gallocr_clear g) g1" "leafs_live s (set ?L) g1"
    using leaf_loop [OF assms(1) c(1,2) order_refl g1] by simp_all
  have k: "mem_inv B s g2" "gmono g1 g2" "counted g1 g2 (count_list (reads s ?N)) (\<lambda>q. card {v \<in> set ?N. cview s v q})"
    using count_loop [OF assms(1,2) l(1,4) refl order_refl g2] by simp_all
  have z: "hn_n_children (hn_of g1 q) = 0" "hn_n_views (hn_of g1 q) = 0" for q
    using l(3) c(2) by (simp_all add: keeps_counts_def hn_zero_def)
  have ov: "open_views s ?N (reads s ?N) q = {v \<in> set ?N. cview s v q}" for q by (auto simp: open_views_def)
  have cnt: "cnt_inv s ?N (reads s ?N) g2" using k(3) z by (simp add: cnt_inv_def counted_def ov)
  have lv: "live g2 q \<longleftrightarrow> q \<in> set ?L \<and> own s q" for q using k(3) l(4) by (simp add: counted_def leafs_live_def)
  have "is_placed B s g2 q" if "q \<in> set ?L" "own s q" for q using mem_invD(5) [OF k(1)] lv that by simp
  then have p0: "plan_inv B s ?L ?N 0 g2" using k(1) cnt lv by (simp add: plan_inv_def live_inv_def)
  have f: "plan_inv B s ?L ?N (length ?N) g' \<and> gmono g2 g' \<and> (\<forall>q \<in> set ?L. keeps_place g2 g' q)"
    by (rule plan_inv_loop [OF assms(1,2) refl p0 order_refl g3])
  then show "plan_inv B s ?L ?N (length ?N) g'" by blast
  show "gmono g g'"
    using gmono_refl [OF c(3,4)] l(2) k(2) f gmono_trans by blast
  show "cells B s g' p \<inter> cells B s g' q = {}"
    if "p \<in> set ?L" "q \<in> set ?L" "p \<noteq> q" "own s p" "own s q" for p q
  proof -
    have st: "ga_static g' = ga_static g2" using f by (simp add: gmono_def)
    have "cells B s g2 p \<inter> cells B s g2 q = {}" using mem_invD(7) [OF k(1)] lv that by simp
    moreover have "keeps_place g2 g' p" "keeps_place g2 g' q" using f that by blast+
    ultimately show ?thesis using static_cells [OF st, of B s] by (simp add: keeps_place_def)
  qed
qed

end
