(* ===== verification/GGML_GallocSafe.thy ===== *)
theory GGML_GallocSafe
  imports GGML_GallocPlan
begin

text \<open>
  The recorded plan. \<open>gallocr_make_plan\<close> is the part of \<^verbatim>\<open>ggml_gallocr_reserve_n_impl\<close> that fills
  \<^verbatim>\<open>node_allocs\<close> and \<^verbatim>\<open>leaf_allocs\<close>; the properties here are about these entries, from which
  \<^verbatim>\<open>ggml_gallocr_alloc_graph\<close> later takes the address of every tensor.
\<close>

section \<open>Allocators between plans\<close>

definition gallocr_valid :: "ggml_gallocr \<Rightarrow> bool" where
  "gallocr_valid g \<longleftrightarrow> (hs_size (ga_hash_set g) = 0 \<or> hs_inv (ga_hash_set g)) \<and> (\<forall>a \<in> set (ga_tallocs g). dyn_inv a)"

lemma foldM_inv:
  assumes "\<And>x s s'. x \<in> set xs \<Longrightarrow> P s \<Longrightarrow> f x s = Some s' \<Longrightarrow> P s'" "P s" "foldM f xs s = Some s'"
  shows "P s'"
  using assms
proof (induction xs arbitrary: s)
  case Nil
  then show ?case by simp
next
  case (Cons x xs)
  then obtain s1 where "f x s = Some s1" "foldM f xs s1 = Some s'" by (auto simp: bind_eq_Some_conv)
  then show ?case using Cons by (metis list.set_intros)
qed

lemma gallocr_new_valid:
  assumes "ggml_gallocr_new_n B bufts = Some g" "\<forall>buft \<in> set bufts. is_pow2 (bt_get_alignment (B buft))"
  shows "gallocr_valid g"
proof (rule foldM_inv [OF _ _ assms(1) [unfolded ggml_gallocr_new_n_def]])
  fix b g g' assume "b \<in> set bufts" "gallocr_valid g" "gallocr_add_buft B b g = Some g'"
  then show "gallocr_valid g'"
    using assms(2) dyn_new_inv
    by (auto simp: gallocr_add_buft_def gallocr_valid_def bind_eq_Some_conv
        ggml_backend_buft_get_alignment_def split: option.splits if_splits)
qed (simp add: gallocr_valid_def)

section \<open>The recorded entries\<close>

definition same_core :: "ggml_gallocr \<Rightarrow> ggml_gallocr \<Rightarrow> bool" where
  "same_core g g' \<longleftrightarrow> ga_inv g' \<and> hn_of g' = hn_of g \<and> ga_bufts g' = ga_bufts g \<and> ga_buffers g' = ga_buffers g
     \<and> ga_buf_tallocs g' = ga_buf_tallocs g \<and> ga_tallocs g' = ga_tallocs g"

lemma same_core_trans: "same_core g g' \<Longrightarrow> same_core g' g'' \<Longrightarrow> same_core g g''"
  by (simp add: same_core_def)

lemma same_recs_core: "same_recs g g' \<Longrightarrow> same_core g g'"
  by (auto simp: same_recs_def same_core_def ga_static_def)

lemma same_core_D:
  assumes "same_core g g'"
  shows "talloc_at g' = talloc_at g" "alloc_size_in B s g' = alloc_size_in B s g"
    and "range_cells B s g' = range_cells B s g" "placed B s g' = placed B s g" "hn_of g' = hn_of g" "ga_inv g'"
proof -
  show t: "talloc_at g' = talloc_at g"
    using assms by (simp add: same_core_def talloc_at_def talloc_index_def fun_eq_iff)
  show a: "alloc_size_in B s g' = alloc_size_in B s g"
    using assms by (simp add: same_core_def alloc_size_in_def buft_at_def fun_eq_iff)
  show "range_cells B s g' = range_cells B s g" "placed B s g' = placed B s g"
    by (intro ext; simp add: range_cells_def placed_def t a cong: option.case_cong)+
  show "hn_of g' = hn_of g" "ga_inv g'" using assms by (simp_all add: same_core_def)
qed

lemma core_upd:
  assumes "ga_inv g"
  shows "same_core g (g\<lparr>ga_node_allocs := x\<rparr>)" "same_core g (g\<lparr>ga_leaf_allocs := y\<rparr>)"
    and "same_core g (g\<lparr>ga_n_nodes := n\<rparr>)" "same_core g (g\<lparr>ga_n_leafs := m\<rparr>)"
    and "same_core g (g\<lparr>ga_node_allocs := x, ga_n_nodes := n\<rparr>)" "same_core g (g\<lparr>ga_leaf_allocs := y, ga_n_leafs := m\<rparr>)"
  using assms by (simp_all add: same_core_def ga_inv_def hn_of_def fun_eq_iff split: option.split)

text \<open>What an entry of the plan says about a tensor.\<close>

definition records :: "backends \<Rightarrow> ggml_state \<Rightarrow> ggml_gallocr \<Rightarrow> ptr \<Rightarrow> tensor_alloc \<Rightarrow> bool" where
  "records B s g p ta \<longleftrightarrow> (\<exists>t. deref s p = Some t
     \<and> (if t_view_src t \<noteq> 0 \<or> t_data t \<noteq> 0 then ta = ta_none
        else alloc_size_in B s g (hn_buffer_id (hn_of g p)) p = Some (ta_size_max ta)
          \<and> ta_buffer_id ta = hn_buffer_id (hn_of g p) \<and> ta_addr ta = hn_addr (hn_of g p)))"

lemma records_core: "same_core g g' \<Longrightarrow> records B s g' p ta = records B s g p ta"
  by (simp add: records_def same_core_D)

lemma record_alloc_cases:
  assumes "ga_inv g" "record_alloc B s p g = Some (ta, g')"
  shows "same_recs g g'" "records B s g p ta"
proof -
  obtain t where t: "deref s p = Some t" using assms(2) by (auto simp: record_alloc_def bind_eq_Some_conv)
  have "same_recs g g' \<and> records B s g p ta"
  proof (cases "t_view_src t \<noteq> 0 \<or> t_data t \<noteq> 0")
    case True
    then have "g' = g" "ta = ta_none" using assms(2) t by (auto simp: record_alloc_def split: if_splits)
    then show ?thesis using t True same_recs_refl [OF assms(1)] by (simp add: records_def)
  next
    case False
    then obtain i g1 n where i: "ggml_gallocr_hash_get g p = Some (i, g1)"
      and n: "alloc_size_in B s g1 (hn_buffer_id (hn_get g1 i)) p = Some n"
      and r: "ta = \<lparr>ta_buffer_id = hn_buffer_id (hn_get g1 i), ta_addr = hn_addr (hn_get g1 i), ta_size_max = n\<rparr>" "g' = g1"
      using assms(2) t by (auto simp: record_alloc_def bind_eq_Some_conv Let_def)
    note h = hash_get_same [OF assms(1) i]
    have "ga_static g1 = ga_static g" using h by (simp add: same_recs_def)
    then show ?thesis using t False h n r ga_static_D(7) [of g1 g] by (simp add: records_def)
  qed
  then show "same_recs g g'" "records B s g p ta" by blast+
qed

lemma record_srcs_cases:
  assumes "ga_inv g" "record_srcs B s ps g = Some (tas, g')"
  shows "same_recs g g' \<and> length tas = length ps
    \<and> (\<forall>j < length ps. ps ! j \<noteq> 0 \<longrightarrow> records B s g (ps ! j) (tas ! j))"
  using assms
proof (induction ps arbitrary: g tas)
  case Nil
  then show ?case using same_recs_refl by simp
next
  case (Cons p ps)
  obtain ta g1 tas' where 1: "(if p = 0 then Some (ta_none, g) else record_alloc B s p g) = Some (ta, g1)"
    and 2: "record_srcs B s ps g1 = Some (tas', g')" and tas: "tas = ta # tas'"
    using Cons.prems(2) by (auto simp: bind_eq_Some_conv)
  have s1: "same_recs g g1 \<and> (p \<noteq> 0 \<longrightarrow> records B s g p ta)"
    using 1 record_alloc_cases [OF Cons.prems(1)] same_recs_refl [OF Cons.prems(1)] by (cases "p = 0") auto
  then have "ga_inv g1" by (simp add: same_recs_def)
  then have ih: "same_recs g1 g'" "length tas' = length ps"
    "\<And>j. j < length ps \<Longrightarrow> ps ! j \<noteq> 0 \<Longrightarrow> records B s g1 (ps ! j) (tas' ! j)" using Cons.IH [OF _ 2] by blast+
  have c: "records B s g1 q = records B s g q" for q using records_core [OF same_recs_core] s1 by blast
  have "records B s g ((p # ps) ! j) (tas ! j)" if "j < length (p # ps)" "(p # ps) ! j \<noteq> 0" for j
    using that s1 ih(3) c by (cases j) (simp_all add: tas)
  then show ?case using s1 ih(1,2) same_recs_trans tas by auto
qed

definition node_recorded :: "backends \<Rightarrow> ggml_state \<Rightarrow> ggml_gallocr \<Rightarrow> ptr \<Rightarrow> node_alloc \<Rightarrow> bool" where
  "node_recorded B s g n na \<longleftrightarrow> records B s g n (na_dst na) \<and> (\<exists>t. deref s n = Some t \<and> length (na_src na) = length (t_src t)
     \<and> (\<forall>j < length (t_src t). t_src t ! j \<noteq> 0 \<longrightarrow> records B s g (t_src t ! j) (na_src na ! j)))"

lemma node_recorded_core: "same_core g g' \<Longrightarrow> node_recorded B s g' n na = node_recorded B s g n na"
  by (simp add: node_recorded_def records_core)

lemma record_node_cases:
  assumes "ga_inv g" "record_node B s graph i g = Some g'"
  shows "same_core g g'" "ga_leaf_allocs g' = ga_leaf_allocs g" "ga_n_nodes g' = ga_n_nodes g" "ga_n_leafs g' = ga_n_leafs g"
    and "\<exists>na. i < length (ga_node_allocs g) \<and> ga_node_allocs g' = (ga_node_allocs g)[i := na]
      \<and> node_recorded B s g (cg_nodes graph ! i) na"
proof -
  let ?n = "cg_nodes graph ! i"
  obtain t dst g1 src g2 where t: "deref s ?n = Some t" and d: "record_alloc B s ?n g = Some (dst, g1)"
    and r: "record_srcs B s (t_src t) g1 = Some (src, g2)" and i: "i < length (ga_node_allocs g2)"
    and g': "g' = g2\<lparr>ga_node_allocs := (ga_node_allocs g2)[i := \<lparr>na_dst = dst, na_src = src\<rparr>]\<rparr>"
    using assms(2) by (auto simp: record_node_def bind_eq_Some_conv Let_def array_set_def split: if_splits)
  note a = record_alloc_cases [OF assms(1) d]
  have i1: "ga_inv g1" using a(1) by (simp add: same_recs_def)
  note b = record_srcs_cases [OF i1 r]
  have s2: "same_recs g g2" using a(1) b same_recs_trans by blast
  then have st: "ga_node_allocs g2 = ga_node_allocs g" "ga_leaf_allocs g2 = ga_leaf_allocs g" "ga_n_nodes g2 = ga_n_nodes g"
    "ga_n_leafs g2 = ga_n_leafs g" by (auto simp: same_recs_def ga_static_def)
  have c: "same_core g2 g'" using s2 core_upd by (simp add: same_recs_def g')
  show "same_core g g'" using same_core_trans [OF same_recs_core [OF s2] c] .
  show "ga_leaf_allocs g' = ga_leaf_allocs g" "ga_n_nodes g' = ga_n_nodes g" "ga_n_leafs g' = ga_n_leafs g"
    using st by (simp_all add: g')
  have "node_recorded B s g ?n \<lparr>na_dst = dst, na_src = src\<rparr>"
    using a(2) b t records_core [OF same_recs_core [OF a(1)]] by (simp add: node_recorded_def)
  then show "\<exists>na. i < length (ga_node_allocs g) \<and> ga_node_allocs g' = (ga_node_allocs g)[i := na]
      \<and> node_recorded B s g ?n na" using i st by (auto simp: g')
qed

lemma record_nodes_loop:
  assumes "ga_inv g" "foldM (record_node B s graph) [0..<k] g = Some g'"
  shows "same_core g g' \<and> ga_leaf_allocs g' = ga_leaf_allocs g \<and> ga_n_nodes g' = ga_n_nodes g \<and> ga_n_leafs g' = ga_n_leafs g
    \<and> length (ga_node_allocs g') = length (ga_node_allocs g)
    \<and> (\<forall>m < k. m < length (ga_node_allocs g) \<and> node_recorded B s g (cg_nodes graph ! m) (ga_node_allocs g' ! m))"
  using assms(2)
proof (induction k arbitrary: g')
  case 0
  then show ?case using assms(1) by (simp add: same_core_def)
next
  case (Suc k)
  obtain g1 where g1: "foldM (record_node B s graph) [0..<k] g = Some g1" and st: "record_node B s graph k g1 = Some g'"
    using Suc.prems by (auto simp: foldM_append bind_eq_Some_conv)
  note ih = Suc.IH [OF g1]
  have c1: "same_core g g1" using ih by blast
  note r = record_node_cases [OF same_core_D(6) [OF c1] st]
  obtain na where na: "k < length (ga_node_allocs g1)" "ga_node_allocs g' = (ga_node_allocs g1)[k := na]"
    "node_recorded B s g (cg_nodes graph ! k) na" using r(5) node_recorded_core [OF c1] by blast
  then show ?case
    using ih r(2-4) same_core_trans [OF c1 r(1)] by (auto simp: nth_list_update less_Suc_eq)
qed

lemma record_leaf_cases:
  assumes "ga_inv g" "record_leaf B s graph i g = Some g'"
  shows "same_core g g'" "ga_node_allocs g' = ga_node_allocs g" "ga_n_nodes g' = ga_n_nodes g" "ga_n_leafs g' = ga_n_leafs g"
    and "\<exists>ta. i < length (ga_leaf_allocs g) \<and> ga_leaf_allocs g' = (ga_leaf_allocs g)[i := \<lparr>la_leaf = ta\<rparr>]
      \<and> records B s g (cg_leafs graph ! i) ta"
proof -
  let ?l = "cg_leafs graph ! i"
  obtain j g1 ta g2 where j: "ggml_gallocr_hash_get g ?l = Some (j, g1)" and d: "record_alloc B s ?l g1 = Some (ta, g2)"
    and i: "i < length (ga_leaf_allocs g2)"
    and g': "g' = g2\<lparr>ga_leaf_allocs := (ga_leaf_allocs g2)[i := \<lparr>la_leaf = ta\<rparr>]\<rparr>"
    using assms(2) by (auto simp: record_leaf_def bind_eq_Some_conv Let_def array_set_def split: if_splits)
  have s1: "same_recs g g1" using hash_get_same [OF assms(1) j] by blast
  then have "ga_inv g1" by (simp add: same_recs_def)
  note a = record_alloc_cases [OF this d]
  have s2: "same_recs g g2" using s1 a(1) same_recs_trans by blast
  then have st: "ga_node_allocs g2 = ga_node_allocs g" "ga_leaf_allocs g2 = ga_leaf_allocs g" "ga_n_nodes g2 = ga_n_nodes g"
    "ga_n_leafs g2 = ga_n_leafs g" by (auto simp: same_recs_def ga_static_def)
  have c: "same_core g2 g'" using s2 core_upd by (simp add: same_recs_def g')
  show "same_core g g'" using same_core_trans [OF same_recs_core [OF s2] c] .
  show "ga_node_allocs g' = ga_node_allocs g" "ga_n_nodes g' = ga_n_nodes g" "ga_n_leafs g' = ga_n_leafs g"
    using st by (simp_all add: g')
  show "\<exists>ta. i < length (ga_leaf_allocs g) \<and> ga_leaf_allocs g' = (ga_leaf_allocs g)[i := \<lparr>la_leaf = ta\<rparr>]
      \<and> records B s g ?l ta"
    using a(2) records_core [OF same_recs_core [OF s1]] i st by (auto simp: g')
qed

lemma record_leafs_loop:
  assumes "ga_inv g" "foldM (record_leaf B s graph) [0..<k] g = Some g'"
  shows "same_core g g' \<and> ga_node_allocs g' = ga_node_allocs g \<and> ga_n_nodes g' = ga_n_nodes g \<and> ga_n_leafs g' = ga_n_leafs g
    \<and> length (ga_leaf_allocs g') = length (ga_leaf_allocs g)
    \<and> (\<forall>m < k. m < length (ga_leaf_allocs g) \<and> records B s g (cg_leafs graph ! m) (la_leaf (ga_leaf_allocs g' ! m)))"
  using assms(2)
proof (induction k arbitrary: g')
  case 0
  then show ?case using assms(1) by (simp add: same_core_def)
next
  case (Suc k)
  obtain g1 where g1: "foldM (record_leaf B s graph) [0..<k] g = Some g1" and st: "record_leaf B s graph k g1 = Some g'"
    using Suc.prems by (auto simp: foldM_append bind_eq_Some_conv)
  note ih = Suc.IH [OF g1]
  have c1: "same_core g g1" using ih by blast
  note r = record_leaf_cases [OF same_core_D(6) [OF c1] st]
  obtain ta where ta: "k < length (ga_leaf_allocs g1)" "ga_leaf_allocs g' = (ga_leaf_allocs g1)[k := \<lparr>la_leaf = ta\<rparr>]"
    "records B s g (cg_leafs graph ! k) ta" using r(5) records_core [OF c1] by blast
  then show ?case
    using ih r(2-4) same_core_trans [OF c1 r(1)] by (auto simp: nth_list_update less_Suc_eq)
qed

section \<open>Making a plan\<close>

lemma sizes_ok_cong:
  assumes "ga_bufts g' = ga_bufts g" "ga_buf_tallocs g' = ga_buf_tallocs g"
    and "map dt_alignment (ga_tallocs g') = map dt_alignment (ga_tallocs g)" "sizes_ok B s g"
  shows "sizes_ok B s g'"
proof -
  let ?h = "g\<lparr>ga_tallocs := ga_tallocs g'\<rparr>"
  have "ga_static ?h = ga_static g" using assms(3) by (simp add: ga_static_def)
  then have "sizes_ok B s ?h" using assms(4) by (rule static_sizes_ok)
  moreover have "talloc_at g' = talloc_at ?h" "alloc_size_in B s g' = alloc_size_in B s ?h"
    using assms(1,2) by (simp_all add: talloc_at_def talloc_index_def alloc_size_in_def buft_at_def fun_eq_iff)
  ultimately show ?thesis by (simp add: sizes_ok_def)
qed

lemma init_hash_inv:
  assumes "hs_size (ga_hash_set g) = 0 \<or> hs_inv (ga_hash_set g)" "0 < length (cg_nodes graph) + length (cg_leafs graph)"
    and "length (cg_nodes graph) + length (cg_leafs graph) < 2 ^ 31"
  shows "hs_inv (ga_hash_set (gallocr_init_hash g graph))"
    and "ga_bufts (gallocr_init_hash g graph) = ga_bufts g" "ga_buf_tallocs (gallocr_init_hash g graph) = ga_buf_tallocs g"
    and "ga_tallocs (gallocr_init_hash g graph) = ga_tallocs g" "ga_buffers (gallocr_init_hash g graph) = ga_buffers g"
    and "length (cg_nodes graph) + length (cg_leafs graph) \<le> hs_size (ga_hash_set (gallocr_init_hash g graph))"
proof -
  let ?n = "length (cg_nodes graph) + length (cg_leafs graph)"
  have n: "sz_of_int (n_nodes graph + n_leafs graph) = ?n"
    using assms(3) by (simp add: n_nodes_def n_leafs_def sz_of_int_id nat_add_distrib)
  have m: "sz_add ?n (?n div 4) = ?n + ?n div 4" "?n + ?n div 4 \<le> 2 ^ 63" using assms(3) by (auto simp: sz_add_id)
  note h = hash_set_new_inv [OF m(2)] and r = ggml_hash_size_range [of "?n + ?n div 4"]
  show "hs_inv (ga_hash_set (gallocr_init_hash g graph))"
    using assms(1,2) h m by (auto simp: gallocr_init_hash_def Let_def n)
  show "?n \<le> hs_size (ga_hash_set (gallocr_init_hash g graph))"
    using h(3) m r(2) by (auto simp: gallocr_init_hash_def Let_def n)
  show "ga_bufts (gallocr_init_hash g graph) = ga_bufts g" "ga_buf_tallocs (gallocr_init_hash g graph) = ga_buf_tallocs g"
    "ga_tallocs (gallocr_init_hash g graph) = ga_tallocs g" "ga_buffers (gallocr_init_hash g graph) = ga_buffers g"
    by (simp_all add: gallocr_init_hash_def Let_def)
qed

lemma make_plan_correct:
  assumes "heap_ok (st_tensors s)" "plan_graph s (cg_leafs graph) (cg_nodes graph)" "gallocr_valid g" "sizes_ok B s g"
    and "cg_nodes graph \<noteq> []" "gallocr_make_plan B s g graph nids lids = Some g'"
  obtains g1 where "plan_inv B s (cg_leafs graph) (cg_nodes graph) (length (cg_nodes graph)) g1" "same_core g1 g'"
    "\<And>p q. p \<in> set (cg_leafs graph) \<Longrightarrow> q \<in> set (cg_leafs graph) \<Longrightarrow> p \<noteq> q \<Longrightarrow> own s p \<Longrightarrow> own s q
      \<Longrightarrow> cells B s g1 p \<inter> cells B s g1 q = {}"
    "\<And>m. m < length (cg_nodes graph) \<Longrightarrow> m < length (ga_node_allocs g')
      \<and> node_recorded B s g1 (cg_nodes graph ! m) (ga_node_allocs g' ! m)"
    "\<And>m. m < length (cg_leafs graph) \<Longrightarrow> m < length (ga_leaf_allocs g')
      \<and> records B s g1 (cg_leafs graph ! m) (la_leaf (ga_leaf_allocs g' ! m))"
    "ga_n_nodes g' = n_nodes graph" "ga_n_leafs g' = n_leafs graph" "gallocr_valid g'"
    "ga_bufts g' = ga_bufts g" "ga_buffers g' = ga_buffers g" "ga_buf_tallocs g' = ga_buf_tallocs g"
    "map dt_alignment (ga_tallocs g') = map dt_alignment (ga_tallocs g)"
proof -
  let ?L = "cg_leafs graph" and ?N = "cg_nodes graph"
  let ?g0 = "gallocr_init_hash g graph"
  let ?g1 = "?g0\<lparr>ga_tallocs := map ggml_dyn_tallocr_reset (ga_tallocs ?g0)\<rparr>"
  obtain g2 g3 where p: "ggml_gallocr_alloc_graph_impl B s ?g1 graph nids lids = Some g2"
    and rn: "foldM (record_node B s graph) [0..<length ?N] (gallocr_init_nodes g2 graph) = Some g3"
    and rl: "foldM (record_leaf B s graph) [0..<length ?L] (gallocr_init_leafs g3 graph) = Some g'"
    using assms(6) by (auto simp: gallocr_make_plan_def bind_eq_Some_conv Let_def)
  have sz: "0 < length ?N + length ?L" "length ?N + length ?L < 2 ^ 31"
    using assms(2,5) by (simp_all add: plan_graph_defs)
  have v: "hs_size (ga_hash_set g) = 0 \<or> hs_inv (ga_hash_set g)" "\<forall>a \<in> set (ga_tallocs g). dyn_inv a"
    using assms(3) by (simp_all add: gallocr_valid_def)
  note ih = init_hash_inv [OF v(1) sz]
  have al: "map dt_alignment (ga_tallocs ?g1) = map dt_alignment (ga_tallocs g)"
    using ih(4) by (simp add: ggml_dyn_tallocr_reset_def)
  have "sizes_ok B s ?g1" using ih(2,3) al assms(4) by (intro sizes_ok_cong [of ?g1 g]) simp_all
  then have ok: "gallocr_ok B s ?g1"
    using ih(1,4) v(2) by (auto simp: gallocr_ok_def ggml_dyn_tallocr_reset_def dyn_inv_def)
  note a = alloc_graph_impl_plan [OF assms(1,2) ok p]
  have i2: "ga_inv g2" using a(1) by (simp add: plan_inv_def mem_inv_def)
  let ?g2 = "gallocr_init_nodes g2 graph" and ?g3 = "gallocr_init_leafs g3 graph"
  have c2: "same_core g2 ?g2"
    using core_upd [OF i2] by (simp add: gallocr_init_nodes_def Let_def)
  have n2: "ga_n_nodes ?g2 = n_nodes graph" by (simp add: gallocr_init_nodes_def Let_def)
  note n = record_nodes_loop [OF same_core_D(6) [OF c2] rn]
  have c23: "same_core g2 g3" using same_core_trans [OF c2] n by blast
  have i3: "ga_inv g3" using c23 by (simp add: same_core_def)
  have c3: "same_core g3 ?g3"
    using core_upd [OF i3] by (simp add: gallocr_init_leafs_def Let_def)
  have l3: "ga_n_leafs ?g3 = n_leafs graph" "ga_n_nodes ?g3 = ga_n_nodes g3" "ga_node_allocs ?g3 = ga_node_allocs g3"
    by (simp_all add: gallocr_init_leafs_def Let_def)
  note l = record_leafs_loop [OF same_core_D(6) [OF c3] rl]
  have c23': "same_core g2 ?g3" by (rule same_core_trans [OF c23 c3])
  have c: "same_core g2 g'" using same_core_trans [OF c23'] l by blast
  have st: "ga_bufts g2 = ga_bufts ?g1" "ga_buffers g2 = ga_buffers ?g1" "ga_buf_tallocs g2 = ga_buf_tallocs ?g1"
    "map dt_alignment (ga_tallocs g2) = map dt_alignment (ga_tallocs ?g1)"
    using a(2) by (simp_all add: gmono_def ga_static_def)
  show thesis
  proof (rule that [OF a(1) c a(3)])
    show "m < length (ga_node_allocs g') \<and> node_recorded B s g2 (?N ! m) (ga_node_allocs g' ! m)" if "m < length ?N" for m
      using n l l3(3) that node_recorded_core [OF c2] by metis
    show "m < length (ga_leaf_allocs g') \<and> records B s g2 (?L ! m) (la_leaf (ga_leaf_allocs g' ! m))" if "m < length ?L" for m
      using l that records_core [OF c23'] by metis
    show "ga_n_nodes g' = n_nodes graph" "ga_n_leafs g' = n_leafs graph" using n2 n l l3 by simp_all
    show "gallocr_valid g'"
      using a(1) c by (auto simp: gallocr_valid_def plan_inv_def mem_inv_def same_core_def ga_inv_def)
    show "ga_bufts g' = ga_bufts g" "ga_buffers g' = ga_buffers g" "ga_buf_tallocs g' = ga_buf_tallocs g"
      "map dt_alignment (ga_tallocs g') = map dt_alignment (ga_tallocs g)"
      using c st ih al by (simp_all add: same_core_def)
  qed
qed

section \<open>Properties of a plan\<close>

text \<open>
  \<open>touches s n q\<close>: executing node \<open>n\<close> touches the memory of \<open>q\<close>, because \<open>q\<close> is a source, the base
  of a source, or the base of \<open>n\<close> itself.
\<close>

definition touches :: "ggml_state \<Rightarrow> ptr \<Rightarrow> ptr \<Rightarrow> bool" where
  "touches s n q \<longleftrightarrow> (\<exists>v \<in> set (srcs_of s n). v = q \<or> (\<exists>t. deref s v = Some t \<and> t_view_src t = q \<and> q \<noteq> 0)) \<or> cview s n q"

lemma reads_mem: "v \<in> set (reads s (drop m N)) \<longleftrightarrow> (\<exists>k. m \<le> k \<and> k < length N \<and> v \<in> set (srcs_of s (N ! k)))"
proof
  assume "v \<in> set (reads s (drop m N))"
  then obtain n where n: "n \<in> set (drop m N)" "v \<in> set (srcs_of s n)" by (auto simp: reads_def)
  then obtain i where "i < length (drop m N)" "n = drop m N ! i" by (metis in_set_conv_nth)
  then show "\<exists>k. m \<le> k \<and> k < length N \<and> v \<in> set (srcs_of s (N ! k))"
    using n(2) by (intro exI [of _ "m + i"]) simp
next
  assume "\<exists>k. m \<le> k \<and> k < length N \<and> v \<in> set (srcs_of s (N ! k))"
  then obtain k where k: "m \<le> k" "k < length N" "v \<in> set (srcs_of s (N ! k))" by blast
  have "drop m N ! (k - m) = N ! k" "k - m < length (drop m N)" using k by simp_all
  then have "N ! k \<in> set (drop m N)" by (metis nth_mem)
  then show "v \<in> set (reads s (drop m N))" using k(3) by (auto simp: reads_def)
qed

lemma touches_needed:
  assumes "plan_graph s L N" "m \<le> k" "k < length N" "touches s (N ! k) q"
  shows "needed s N (reads s (drop m N)) q"
proof -
  have all: "v \<in> set (reads s N) \<longleftrightarrow> (\<exists>k. k < length N \<and> v \<in> set (srcs_of s (N ! k)))" for v
    using reads_mem [of v s 0 N] by simp
  consider (direct) "q \<in> set (srcs_of s (N ! k))"
    | (view) v t where "v \<in> set (srcs_of s (N ! k))" "deref s v = Some t" "t_view_src t = q" "q \<noteq> 0"
    | (own) "cview s (N ! k) q"
    using assms(4) by (auto simp: touches_def)
  then show ?thesis
  proof cases
    case direct
    then show ?thesis using assms(2,3) by (auto simp: needed_def reads_mem)
  next
    case view
    then have r: "v \<in> set (reads s (drop m N))" "v \<in> set (reads s N)" using assms(2,3) by (auto simp: reads_mem all)
    then have "v \<in> set N \<and> cview s v q" using assms(1) view unfolding plan_graph_defs cview_def by blast
    then show ?thesis using r by (auto simp: needed_def open_views_def)
  next
    case own
    have "N ! k \<in> set (reads s (drop m N))" if rd: "N ! k \<in> set (reads s N)"
    proof -
      obtain j where j: "j < length N" "N ! k \<in> set (srcs_of s (N ! j))" using rd all by blast
      have d: "distinct N" "set L \<inter> set N = {}" "set (srcs_of s (N ! j)) \<subseteq> set L \<union> set (take j N)"
        using assms(1) j(1) by (simp_all add: plan_graph_defs)
      have "N ! k \<in> set N" using assms(3) by simp
      then have "N ! k \<in> set (take j N)" using d j(2) by blast
      then obtain i where "i < j" "N ! i = N ! k" using j(1) by (auto simp: in_set_conv_nth)
      then have "k < j" using d(1) assms(3) j(1) by (simp add: nth_eq_iff_index_eq)
      then show ?thesis using j assms(2) unfolding reads_mem by (intro exI [of _ j]) simp
    qed
    then show ?thesis using own assms(3) by (auto simp: needed_def open_views_def)
  qed
qed

definition ta_cells :: "ggml_gallocr \<Rightarrow> tensor_alloc \<Rightarrow> (nat \<times> nat \<times> nat) set" where
  "ta_cells g ta = (case talloc_at g (ta_buffer_id ta) of None \<Rightarrow> {}
     | Some (k, a) \<Rightarrow> {k} \<times> dyn_range a (ta_addr ta) (ta_size_max ta))"

lemma records_cells:
  assumes "records B s g p ta" "own s p"
  shows "ta_cells g ta = cells B s g p" "ta_buffer_id ta = hn_buffer_id (hn_of g p)" "ta_addr ta = hn_addr (hn_of g p)"
    and "alloc_size_in B s g (ta_buffer_id ta) p = Some (ta_size_max ta)"
  using assms by (auto simp: records_def own_def ta_cells_def range_cells_def split: option.split)

text \<open>The entry of a tensor of the graph.\<close>

definition plan_entry :: "ggml_gallocr \<Rightarrow> ggml_cgraph \<Rightarrow> ptr \<Rightarrow> tensor_alloc \<Rightarrow> bool" where
  "plan_entry g graph q ta \<longleftrightarrow> (\<exists>j < length (cg_nodes graph). q = cg_nodes graph ! j \<and> ta = na_dst (ga_node_allocs g ! j))
     \<or> (\<exists>j < length (cg_leafs graph). q = cg_leafs graph ! j \<and> ta = la_leaf (ga_leaf_allocs g ! j))"

lemma ta_cells_core: "same_core g g' \<Longrightarrow> ta_cells g' ta = ta_cells g ta"
  using same_core_D(1) [of g g'] by (simp add: ta_cells_def)

text \<open>
  The facts behind the two properties of a plan, on the allocator \<open>g\<close> at the end of the walk over
  the graph, from which the entries are recorded.
\<close>

lemma entries_apart:
  assumes "plan_graph s L N" "plan_inv B s L N (length N) g" "m < length N" "q \<in> set L \<union> set (take m N)"
    and "own s (N ! m)" "own s q" "records B s g (N ! m) dst" "records B s g q ta"
  shows "(out s q \<or> (\<exists>k. m < k \<and> k < length N \<and> touches s (N ! k) q) \<longrightarrow> ta_cells g dst \<inter> ta_cells g ta = {})
    \<and> (touches s (N ! m) q \<longrightarrow> ta_cells g dst \<inter> ta_cells g ta = {}
        \<or> ta_buffer_id dst = ta_buffer_id ta \<and> ta_addr dst = ta_addr ta
          \<and> (\<exists>t tq. deref s (N ! m) = Some t \<and> deref s q = Some tq \<and> q \<in> set (t_src t)
               \<and> ggml_op_can_inplace (t_op t) \<and> ggml_are_same_layout t tq)
          \<and> \<not> out s q \<and> \<not> (\<exists>k. m < k \<and> k < length N \<and> touches s (N ! k) q))"
proof -
  note d = records_cells [OF assms(7,5)] and e = records_cells [OF assms(8,6)]
  have later: "needed s N (reads s (drop (Suc m) N)) q"
    if "out s q \<or> (\<exists>k. m < k \<and> k < length N \<and> touches s (N ! k) q)"
    using that
  proof
    assume "out s q"
    then show ?thesis by (simp add: needed_def)
  next
    assume "\<exists>k. m < k \<and> k < length N \<and> touches s (N ! k) q"
    then show ?thesis using touches_needed [OF assms(1), of "Suc m"] by (meson Suc_leI)
  qed
  have sub: "set (reads s (drop (Suc m) N)) \<subseteq> set (reads s (drop m N))"
    using assms(3) by (simp flip: Cons_nth_drop_Suc)
  have ok: "ta_cells g dst \<inter> ta_cells g ta = {}
      \<or> inplace_of s g (N ! m) q \<and> \<not> needed s N (reads s (drop (Suc m) N)) q"
    if "needed s N (reads s (drop m N)) q"
    using assms(2-6) that d(1) e(1) by (simp add: plan_inv_def pair_ok_def)
  have now: "needed s N (reads s (drop m N)) q" if "touches s (N ! m) q"
    using touches_needed [OF assms(1) order_refl assms(3) that] .
  show ?thesis
    using ok later needed_mono [OF sub, of s N q] now d(2,3) e(2,3) by (auto simp: inplace_of_def)
qed

lemma entry_in_bounds:
  assumes "plan_inv B s L N (length N) g" "p \<in> set L \<union> set N" "own s p" "records B s g p ta"
  shows "\<exists>k a. talloc_at g (ta_buffer_id ta) = Some (k, a) \<and> alloc_size_in B s g (ta_buffer_id ta) p = Some (ta_size_max ta)
    \<and> 0 \<le> ba_chunk (ta_addr ta) \<and> nat (ba_chunk (ta_addr ta)) < length (dt_chunks a)
    \<and> dt_alignment a dvd ba_offset (ta_addr ta) \<and> ta_size_max ta \<le> dyn_asize a (ta_size_max ta)
    \<and> ba_offset (ta_addr ta) + ta_size_max ta \<le> ggml_dyn_tallocr_max_size a (nat (ba_chunk (ta_addr ta)))"
proof -
  note e = records_cells [OF assms(4,3)]
  have "is_placed B s g p" using assms(1-3) by (simp add: plan_inv_def)
  then obtain k a where ka: "talloc_at g (ta_buffer_id ta) = Some (k, a)"
    and ok: "dyn_request_ok a (ta_size_max ta)" "dyn_addr_ok a (ta_addr ta) (ta_size_max ta)"
    using e(2-4) by (auto simp: placed_def)
  have "a \<in> set (ga_tallocs g)" using ka by (auto simp: talloc_at_Some)
  then have "dyn_inv a" using assms(1) by (simp add: plan_inv_def mem_inv_def)
  then show ?thesis
    using ka ok dyn_asize_props(1) [OF _ ok(1)] e(4)
    by (auto simp: dyn_addr_ok_def ggml_dyn_tallocr_max_size_def)
qed

lemma plan_entries:
  assumes "heap_ok (st_tensors s)" "plan_graph s (cg_leafs graph) (cg_nodes graph)" "gallocr_valid g" "sizes_ok B s g"
    and "cg_nodes graph \<noteq> []" "gallocr_make_plan B s g graph nids lids = Some g'"
  obtains g1 where "plan_inv B s (cg_leafs graph) (cg_nodes graph) (length (cg_nodes graph)) g1" "same_core g1 g'"
    "\<And>p ta. plan_entry g' graph p ta \<Longrightarrow> records B s g1 p ta \<and> p \<in> set (cg_leafs graph) \<union> set (cg_nodes graph)"
    "\<And>m. m < length (cg_nodes graph) \<Longrightarrow> plan_entry g' graph (cg_nodes graph ! m) (na_dst (ga_node_allocs g' ! m))"
proof -
  let ?L = "cg_leafs graph" and ?N = "cg_nodes graph"
  obtain g1 where pl: "plan_inv B s ?L ?N (length ?N) g1" and c: "same_core g1 g'"
    and nr: "\<And>m. m < length ?N \<Longrightarrow> m < length (ga_node_allocs g') \<and> node_recorded B s g1 (?N ! m) (ga_node_allocs g' ! m)"
    and lr: "\<And>m. m < length ?L \<Longrightarrow> m < length (ga_leaf_allocs g') \<and> records B s g1 (?L ! m) (la_leaf (ga_leaf_allocs g' ! m))"
    using make_plan_correct [OF assms] by metis
  have "records B s g1 p ta \<and> p \<in> set ?L \<union> set ?N" if "plan_entry g' graph p ta" for p ta
    using that nr lr by (auto simp: plan_entry_def node_recorded_def)
  then show thesis using that [OF pl c] by (auto simp: plan_entry_def)
qed

text \<open>
  C3: a plan keeps live tensors apart, for a graph in evaluation order in which every view that is read
  is a node with an operation and no node is flagged as an input (\<open>plan_graph\<close>), with acyclic
  descriptors and sizes below half the address space. Let node \<open>m\<close> of the graph and an earlier tensor \<open>q\<close> (a leaf
  or an earlier node) both get their memory from the allocator. If \<open>q\<close> is used by a later node
  (directly, through a view, or as the base of the node), or is an output, the planned range of
  node \<open>m\<close> is disjoint from that of \<open>q\<close>. If node \<open>m\<close> itself touches \<open>q\<close>, the ranges are disjoint too,
  unless the operation may run in place, \<open>q\<close> is one of its sources with the same layout, both
  start at the same address and nothing touches \<open>q\<close> afterwards.
\<close>

theorem gallocr_plan_safe:
  assumes "heap_ok (st_tensors s)" "plan_graph s (cg_leafs graph) (cg_nodes graph)"
    and "gallocr_valid g" "sizes_ok B s g"
    and "gallocr_make_plan B s g graph nids lids = Some g'"
    and "m < length (cg_nodes graph)" "q \<in> set (cg_leafs graph) \<union> set (take m (cg_nodes graph))"
    and "own s (cg_nodes graph ! m)" "own s q" "plan_entry g' graph q ta"
  shows "(out s q \<or> (\<exists>k. m < k \<and> k < length (cg_nodes graph) \<and> touches s (cg_nodes graph ! k) q)
      \<longrightarrow> ta_cells g' (na_dst (ga_node_allocs g' ! m)) \<inter> ta_cells g' ta = {})
    \<and> (touches s (cg_nodes graph ! m) q
      \<longrightarrow> ta_cells g' (na_dst (ga_node_allocs g' ! m)) \<inter> ta_cells g' ta = {}
        \<or> ta_buffer_id (na_dst (ga_node_allocs g' ! m)) = ta_buffer_id ta
          \<and> ta_addr (na_dst (ga_node_allocs g' ! m)) = ta_addr ta
          \<and> (\<exists>t tq. deref s (cg_nodes graph ! m) = Some t \<and> deref s q = Some tq \<and> q \<in> set (t_src t)
               \<and> ggml_op_can_inplace (t_op t) \<and> ggml_are_same_layout t tq)
          \<and> \<not> out s q \<and> \<not> (\<exists>k. m < k \<and> k < length (cg_nodes graph) \<and> touches s (cg_nodes graph ! k) q))"
proof -
  let ?L = "cg_leafs graph" and ?N = "cg_nodes graph"
  have ne: "?N \<noteq> []" using assms(6) by auto
  obtain g1 where pl: "plan_inv B s ?L ?N (length ?N) g1" and c: "same_core g1 g'"
    and r: "\<And>p ta. plan_entry g' graph p ta \<Longrightarrow> records B s g1 p ta \<and> p \<in> set ?L \<union> set ?N"
    and e: "\<And>m. m < length ?N \<Longrightarrow> plan_entry g' graph (?N ! m) (na_dst (ga_node_allocs g' ! m))"
    using plan_entries [OF assms(1-4) ne assms(5)] by metis
  show ?thesis
    unfolding ta_cells_core [OF c]
    by (rule entries_apart [OF assms(2) pl assms(6-9)]) (use r e assms(6,10) in blast)+
qed

text \<open>
  Every tensor of the graph that gets its memory from the allocator has an entry with an
  aligned address in an existing chunk, and its whole size fits below the size that the chunk's
  buffer will have.
\<close>

theorem gallocr_plan_in_bounds:
  assumes "heap_ok (st_tensors s)" "plan_graph s (cg_leafs graph) (cg_nodes graph)"
    and "gallocr_valid g" "sizes_ok B s g" "cg_nodes graph \<noteq> []"
    and "gallocr_make_plan B s g graph nids lids = Some g'"
    and "own s p" "plan_entry g' graph p ta"
  shows "\<exists>k a. talloc_at g' (ta_buffer_id ta) = Some (k, a) \<and> alloc_size_in B s g' (ta_buffer_id ta) p = Some (ta_size_max ta)
    \<and> 0 \<le> ba_chunk (ta_addr ta) \<and> nat (ba_chunk (ta_addr ta)) < length (dt_chunks a)
    \<and> dt_alignment a dvd ba_offset (ta_addr ta)
    \<and> ba_offset (ta_addr ta) + ta_size_max ta \<le> ggml_dyn_tallocr_max_size a (nat (ba_chunk (ta_addr ta)))"
proof -
  obtain g1 where pl: "plan_inv B s (cg_leafs graph) (cg_nodes graph) (length (cg_nodes graph)) g1" and c: "same_core g1 g'"
    and r: "\<And>p ta. plan_entry g' graph p ta \<Longrightarrow> records B s g1 p ta \<and> p \<in> set (cg_leafs graph) \<union> set (cg_nodes graph)"
    using plan_entries [OF assms(1-6)] by metis
  show ?thesis
    using entry_in_bounds [OF pl _ assms(7)] r [OF assms(8)] same_core_D(1,2) [OF c] by metis
qed

section \<open>A concrete plan\<close>

text \<open>
  A leaf of four floats at address 16, its square at 32 and the sum of the two at 48, on a buffer
  type with alignment 32. The sum takes over the range of the leaf.
\<close>

definition plan_tensor :: "ggml_op \<Rightarrow> ptr list \<Rightarrow> ggml_tensor" where
  "plan_tensor op src = \<lparr>t_type = GGML_TYPE_F32, t_buffer = 0, t_ne = [4, 1, 1, 1], t_nb = [4, 16, 16, 16],
     t_op = op, t_op_params = replicate 16 0, t_flags = 0, t_src = src, t_view_src = 0,
     t_view_offs = 0, t_data = 0, t_name = ''t'', t_extra = 0\<rparr>"

definition plan_heap :: "ptr \<rightharpoonup> ggml_tensor" where
  "plan_heap = [16 \<mapsto> plan_tensor GGML_OP_NONE [0, 0, 0, 0, 0, 0, 0, 0, 0, 0],
     32 \<mapsto> plan_tensor GGML_OP_SQR [16, 0, 0, 0, 0, 0, 0, 0, 0, 0],
     48 \<mapsto> plan_tensor GGML_OP_ADD [16, 32, 0, 0, 0, 0, 0, 0, 0, 0]]"

definition plan_state :: ggml_state where
  "plan_state = sample_graph_state\<lparr>st_tensors := plan_heap\<rparr>"

definition plan_backends :: backends where
  "plan_backends = (\<lambda>_. \<lparr>bt_get_alignment = 32, bt_get_max_size = None, bt_get_alloc_size = None\<rparr>)"

definition plan_cgraph :: ggml_cgraph where
  "plan_cgraph = sample_graph\<lparr>cg_leafs := [16], cg_nodes := [32, 48]\<rparr>"

lemma plan_nbytes [simp]: "ggml_nbytes (plan_tensor op src) = 16"
  by (simp add: plan_tensor_def ggml_nbytes_def size_simps ggml_blck_size_def ggml_type_size_def)

lemma plan_tensor_simps [simp]:
  "t_op (plan_tensor op src) = op" "t_src (plan_tensor op src) = src" "t_data (plan_tensor op src) = 0"
  "t_buffer (plan_tensor op src) = 0" "t_view_src (plan_tensor op src) = 0" "has_flag (plan_tensor op src) f = False"
  "ggml_impl_is_view (plan_tensor op src) = False" "ggml_are_same_layout (plan_tensor op src) (plan_tensor op' src') = True"
  by (simp_all add: plan_tensor_def has_flag_def ggml_impl_is_view_def ggml_are_same_layout_def)

lemma plan_deref [simp]: "deref plan_state 16 = Some (plan_tensor GGML_OP_NONE [0, 0, 0, 0, 0, 0, 0, 0, 0, 0])"
  "deref plan_state 32 = Some (plan_tensor GGML_OP_SQR [16, 0, 0, 0, 0, 0, 0, 0, 0, 0])"
  "deref plan_state 48 = Some (plan_tensor GGML_OP_ADD [16, 32, 0, 0, 0, 0, 0, 0, 0, 0])"
  by (simp_all add: deref_def plan_state_def plan_heap_def)

abbreviation hs3 :: "32 word \<Rightarrow> ptr list \<Rightarrow> ggml_hash_set" where
  "hs3 u ks \<equiv> \<lparr>hs_size = 3, hs_used = [u], hs_keys = ks\<rparr>"

lemma hash_table_3:
  "ggml_hash_set_new 3 = hs3 0 [0, 0, 0]"
  "ggml_hash_set_reset (hs3 u ks) = hs3 0 ks"
  by (simp_all add: ggml_hash_set_new_def ggml_hash_set_reset_def ggml_bitset_size_def drop_bit_5 size_simps
    ggml_hash_size_def hash_size_search.simps hash_primes_def Let_def numeral_3_eq_3)

lemma hash_step_3:
  "ggml_hash_find_or_insert (hs3 0 [0, 0, 0]) 16 = Some (1, hs3 2 [0, 16, 0])"
  "ggml_hash_find_or_insert (hs3 2 [0, 16, 0]) 16 = Some (1, hs3 2 [0, 16, 0])"
  "ggml_hash_find_or_insert (hs3 2 [0, 16, 0]) 32 = Some (2, hs3 6 [0, 16, 32])"
  "ggml_hash_find_or_insert (hs3 6 [0, 16, 32]) 16 = Some (1, hs3 6 [0, 16, 32])"
  "ggml_hash_find_or_insert (hs3 6 [0, 16, 32]) 32 = Some (2, hs3 6 [0, 16, 32])"
  "ggml_hash_find_or_insert (hs3 6 [0, 16, 32]) 48 = Some (0, hs3 7 [48, 16, 32])"
  "ggml_hash_find_or_insert (hs3 7 [48, 16, 32]) 16 = Some (1, hs3 7 [48, 16, 32])"
  "ggml_hash_find_or_insert (hs3 7 [48, 16, 32]) 32 = Some (2, hs3 7 [48, 16, 32])"
  "ggml_hash_find_or_insert (hs3 7 [48, 16, 32]) 48 = Some (0, hs3 7 [48, 16, 32])"
  by (simp_all add: ggml_hash_find_or_insert_def ggml_hash_def ggml_bitset_get_def ggml_bitset_set_def drop_bit_5 and_31
    hash_insert_loop.simps Let_def)

definition plan_gallocr :: ggml_gallocr where
  "plan_gallocr = \<lparr>ga_bufts = [8], ga_buffers = [0], ga_buf_tallocs = [0], ga_tallocs = [ggml_dyn_tallocr_new 32 SIZE_MAX],
     ga_hash_set = \<lparr>hs_size = 0, hs_used = [], hs_keys = []\<rparr>, ga_hash_values = [],
     ga_node_allocs = [], ga_n_nodes = 0, ga_leaf_allocs = [], ga_n_leafs = 0\<rparr>"

lemma plan_new: "ggml_gallocr_new plan_backends 8 = Some plan_gallocr"
  by (simp add: ggml_gallocr_new_def ggml_gallocr_new_n_def gallocr_add_buft_def plan_backends_def plan_gallocr_def
    ggml_backend_buft_get_alignment_def ggml_backend_buft_get_max_size_def)

lemma plan_alloc_size: "ggml_backend_buft_get_alloc_size plan_backends plan_state 8 16 = Some 16"
  "ggml_backend_buft_get_alloc_size plan_backends plan_state 8 32 = Some 16"
  "ggml_backend_buft_get_alloc_size plan_backends plan_state 8 48 = Some 16"
  by (simp_all add: ggml_backend_buft_get_alloc_size_def plan_backends_def)

lemmas plan_eval = ggml_gallocr_hash_get_def hn_get_def hn_upd_def ggml_gallocr_is_own_def ggml_gallocr_is_allocated_def
  buft_at_def talloc_index_def talloc_at_def alloc_size_in_def array_get_def array_set_def plan_alloc_size hash_step_3 hash_table_3
  ggml_gallocr_allocate_node_def allocr_from_buffer_def ggml_gallocr_free_node_def ggml_gallocr_free_extra_space_def
  get_node_buffer_id_def hn_zero_def

abbreviation at_offset :: "size_t \<Rightarrow> tensor_alloc" where
  "at_offset n \<equiv> \<lparr>ta_buffer_id = 0, ta_addr = \<lparr>ba_chunk = 0, ba_offset = n\<rparr>, ta_size_max = 16\<rparr>"

lemmas plan_run_eval = gallocr_make_plan_def ggml_gallocr_alloc_graph_impl_def plan_eval dyn_eval allocr_leaf_def
  gallocr_clear_def gallocr_init_hash_def n_nodes_def n_leafs_def ggml_op_can_inplace_def count_node_def count_src_def
  count_view_def allocr_node_def allocr_parent_def release_parent_def gallocr_init_nodes_def gallocr_init_leafs_def
  record_node_def record_leaf_def record_alloc_def

lemma plan_run: "\<exists>g. gallocr_make_plan plan_backends plan_state plan_gallocr plan_cgraph None None = Some g
   \<and> map na_dst (ga_node_allocs g) = [at_offset 32, at_offset 0] \<and> ga_leaf_allocs g = [\<lparr>la_leaf = at_offset 0\<rparr>]
   \<and> ga_buf_tallocs g = [0] \<and> map dt_alignment (ga_tallocs g) = [32]"
  by (simp add: plan_run_eval plan_cgraph_def plan_gallocr_def)

lemma plan_heap_ok: "heap_ok (st_tensors plan_state)"
proof -
  have "heap_ok Map.empty" by (simp add: heap_ok_def ranked_def)
  then have "heap_ok [16 \<mapsto> plan_tensor GGML_OP_NONE [0, 0, 0, 0, 0, 0, 0, 0, 0, 0]]"
    by (rule heap_ok_extend) (simp_all add: plan_tensor_def view_ok_def tensor_wf_def)
  then have "heap_ok ([16 \<mapsto> plan_tensor GGML_OP_NONE [0, 0, 0, 0, 0, 0, 0, 0, 0, 0]]
      (32 \<mapsto> plan_tensor GGML_OP_SQR [16, 0, 0, 0, 0, 0, 0, 0, 0, 0]))"
    by (rule heap_ok_extend) (simp_all add: plan_tensor_def view_ok_def tensor_wf_def)
  then have "heap_ok ([16 \<mapsto> plan_tensor GGML_OP_NONE [0, 0, 0, 0, 0, 0, 0, 0, 0, 0]]
      (32 \<mapsto> plan_tensor GGML_OP_SQR [16, 0, 0, 0, 0, 0, 0, 0, 0, 0],
       48 \<mapsto> plan_tensor GGML_OP_ADD [16, 32, 0, 0, 0, 0, 0, 0, 0, 0]))"
    by (rule heap_ok_extend) (simp_all add: plan_tensor_def view_ok_def tensor_wf_def)
  then show ?thesis by (simp add: plan_state_def plan_heap_def)
qed

lemma plan_srcs: "srcs_of plan_state 32 = [16]" "srcs_of plan_state 48 = [16, 32]"
  by (simp_all add: srcs_of_eq)

lemma plan_deref_cases: "deref plan_state p = Some t \<Longrightarrow> p \<in> {16, 32, 48}"
  by (auto simp: deref_def plan_state_def plan_heap_def split: if_splits)

lemma plan_hyps: "plan_graph plan_state (cg_leafs plan_cgraph) (cg_nodes plan_cgraph)" "gallocr_valid plan_gallocr"
  "sizes_ok plan_backends plan_state plan_gallocr"
proof -
  have "topological (st_tensors plan_state) [32, 48] {16}"
    by (auto simp: topological_def plan_srcs less_Suc_eq numeral_2_eq_2)
  then show "plan_graph plan_state (cg_leafs plan_cgraph) (cg_nodes plan_cgraph)"
    by (auto simp: plan_graph_def plan_cgraph_def plan_srcs)
  show "gallocr_valid plan_gallocr"
    by (simp add: gallocr_valid_def plan_gallocr_def dyn_new_inv is_pow2_def)
  show "sizes_ok plan_backends plan_state plan_gallocr"
    using plan_deref_cases
    by (fastforce simp: sizes_ok_def alloc_size_in_def buft_at_def array_get_def plan_gallocr_def talloc_at_def
        talloc_index_def dyn_request_ok_def plan_alloc_size split: if_splits)
qed

theorem gallocr_plan_safe_witness:
  "\<exists>g. gallocr_make_plan plan_backends plan_state plan_gallocr plan_cgraph None None = Some g
    \<and> touches plan_state 48 16
    \<and> ta_cells g (na_dst (ga_node_allocs g ! 0)) \<inter> ta_cells g (la_leaf (ga_leaf_allocs g ! 0)) = {}"
proof -
  obtain g where g: "gallocr_make_plan plan_backends plan_state plan_gallocr plan_cgraph None None = Some g"
    using plan_run by blast
  have e: "plan_entry g plan_cgraph 16 (la_leaf (ga_leaf_allocs g ! 0))" by (simp add: plan_entry_def plan_cgraph_def)
  have o: "own plan_state 32" "own plan_state 16" by (simp_all add: own_def)
  have t: "touches plan_state 48 16" by (simp add: touches_def plan_srcs)
  show ?thesis
    using gallocr_plan_safe [OF plan_heap_ok plan_hyps g, of 0 16, OF _ _ _ o(2) e] g o t
    by (auto simp: plan_cgraph_def)
qed

theorem gallocr_plan_in_bounds_witness:
  "\<exists>g k a. gallocr_make_plan plan_backends plan_state plan_gallocr plan_cgraph None None = Some g
    \<and> talloc_at g 0 = Some (k, a) \<and> 32 + 16 \<le> ggml_dyn_tallocr_max_size a 0"
proof -
  obtain g where g: "gallocr_make_plan plan_backends plan_state plan_gallocr plan_cgraph None None = Some g"
    and d: "map na_dst (ga_node_allocs g) = [at_offset 32, at_offset 0]" using plan_run by auto
  have "length (ga_node_allocs g) = 2" using arg_cong [OF d, of length] by simp
  then have "na_dst (ga_node_allocs g ! 0) = at_offset 32" using arg_cong [OF d, of "\<lambda>xs. xs ! 0"] by simp
  then have e: "plan_entry g plan_cgraph 32 (at_offset 32)"
    by (auto simp: plan_entry_def plan_cgraph_def intro!: exI [of _ "0::nat"])
  have o: "own plan_state 32" by (simp add: own_def)
  show ?thesis
    using gallocr_plan_in_bounds [OF plan_heap_ok plan_hyps _ g o e] g by (auto simp: plan_cgraph_def)
qed

section \<open>A view that is not counted\<close>

text \<open>
  The loop that counts views skips nodes whose operation is \<^verbatim>\<open>GGML_OP_NONE\<close>, and leafs, but the loop
  that updates the parents takes one view off the base of every view that was read for the last
  time. So reading a tensor made by \<^verbatim>\<open>ggml_view_tensor\<close> takes back the range of its base while
  another view of the base is still to be read: here 32 and 64 are views of 48, 80 reads the first,
  112 reads the second, and 96, computed in between, is given the range of 48.
\<close>

definition over_heap :: "ptr \<rightharpoonup> ggml_tensor" where
  "over_heap = [16 \<mapsto> plan_tensor GGML_OP_NONE [0, 0, 0, 0, 0, 0, 0, 0, 0, 0],
     32 \<mapsto> (plan_tensor GGML_OP_NONE [0, 0, 0, 0, 0, 0, 0, 0, 0, 0])\<lparr>t_view_src := 48\<rparr>,
     48 \<mapsto> plan_tensor GGML_OP_SQR [16, 0, 0, 0, 0, 0, 0, 0, 0, 0],
     64 \<mapsto> (plan_tensor GGML_OP_VIEW [48, 0, 0, 0, 0, 0, 0, 0, 0, 0])\<lparr>t_view_src := 48\<rparr>,
     80 \<mapsto> plan_tensor GGML_OP_CONT [32, 0, 0, 0, 0, 0, 0, 0, 0, 0],
     96 \<mapsto> plan_tensor GGML_OP_CONT [80, 0, 0, 0, 0, 0, 0, 0, 0, 0],
     112 \<mapsto> plan_tensor GGML_OP_ADD [64, 96, 0, 0, 0, 0, 0, 0, 0, 0]]"

definition over_state :: ggml_state where
  "over_state = sample_graph_state\<lparr>st_tensors := over_heap\<rparr>"

definition over_cgraph :: ggml_cgraph where
  "over_cgraph = sample_graph\<lparr>cg_leafs := [16, 32], cg_nodes := [48, 64, 80, 96, 112]\<rparr>"

lemma over_deref [simp]: "deref over_state 16 = Some (plan_tensor GGML_OP_NONE [0, 0, 0, 0, 0, 0, 0, 0, 0, 0])"
  "deref over_state 32 = Some ((plan_tensor GGML_OP_NONE [0, 0, 0, 0, 0, 0, 0, 0, 0, 0])\<lparr>t_view_src := 48\<rparr>)"
  "deref over_state 48 = Some (plan_tensor GGML_OP_SQR [16, 0, 0, 0, 0, 0, 0, 0, 0, 0])"
  "deref over_state 64 = Some ((plan_tensor GGML_OP_VIEW [48, 0, 0, 0, 0, 0, 0, 0, 0, 0])\<lparr>t_view_src := 48\<rparr>)"
  "deref over_state 80 = Some (plan_tensor GGML_OP_CONT [32, 0, 0, 0, 0, 0, 0, 0, 0, 0])"
  "deref over_state 96 = Some (plan_tensor GGML_OP_CONT [80, 0, 0, 0, 0, 0, 0, 0, 0, 0])"
  "deref over_state 112 = Some (plan_tensor GGML_OP_ADD [64, 96, 0, 0, 0, 0, 0, 0, 0, 0])"
  by (simp_all add: deref_def over_state_def over_heap_def)

lemma over_alloc_size: "p \<in> {16, 48, 80, 96, 112} \<Longrightarrow> ggml_backend_buft_get_alloc_size plan_backends over_state 8 p = Some 16"
  by (auto simp: ggml_backend_buft_get_alloc_size_def plan_backends_def)

lemma over_view [simp]:
  "ggml_impl_is_view (plan_tensor op src\<lparr>t_view_src := 48\<rparr>)" "has_flag (plan_tensor op src\<lparr>t_view_src := 48\<rparr>) f = False"
  by (simp_all add: plan_tensor_def has_flag_def ggml_impl_is_view_def)

lemma over_run: "\<exists>g. gallocr_make_plan plan_backends over_state plan_gallocr over_cgraph None None = Some g
   \<and> map na_dst (ga_node_allocs g) = [at_offset 0, ta_none, at_offset 32, at_offset 0, at_offset 0]
   \<and> ga_buf_tallocs g = [0] \<and> map dt_alignment (ga_tallocs g) = [32]"
  by (simp add: plan_run_eval plan_gallocr_def over_cgraph_def over_alloc_size ggml_hash_set_new_def
    ggml_hash_set_reset_def ggml_bitset_size_def drop_bit_5 ggml_hash_size_def hash_size_search.simps hash_primes_def
    ggml_hash_find_or_insert_def ggml_hash_def ggml_bitset_get_def ggml_bitset_set_def and_31 hash_insert_loop.simps)

lemma over_srcs: "srcs_of over_state 48 = [16]" "srcs_of over_state 64 = [48]" "srcs_of over_state 80 = [32]"
  "srcs_of over_state 96 = [80]" "srcs_of over_state 112 = [64, 96]"
proof -
  have "t_src (plan_tensor op src\<lparr>t_view_src := v\<rparr>) = src" for op src v by (simp add: plan_tensor_def)
  then show "srcs_of over_state 48 = [16]" "srcs_of over_state 64 = [48]" "srcs_of over_state 80 = [32]"
    "srcs_of over_state 96 = [80]" "srcs_of over_state 112 = [64, 96]" by (simp_all add: srcs_of_eq)
qed

text \<open>
  C39: without the condition that views which are read are operations of the graph the plan is not
  safe. In a graph with distinct nodes in execution order, node 96 (fourth) is given the range of
  node 48 (first), although node 112 (fifth) reads a view of 48 after 96 has been computed.
\<close>

theorem gallocr_uncounted_view_overlaps:
  "\<exists>g. gallocr_make_plan plan_backends over_state plan_gallocr over_cgraph None None = Some g
    \<and> distinct (cg_nodes over_cgraph @ cg_leafs over_cgraph)
    \<and> topological (st_tensors over_state) (cg_nodes over_cgraph) (set (cg_leafs over_cgraph))
    \<and> cg_nodes over_cgraph ! 0 = 48 \<and> cg_nodes over_cgraph ! 3 = 96 \<and> cg_nodes over_cgraph ! 4 = 112
    \<and> touches over_state 112 48
    \<and> ta_cells g (na_dst (ga_node_allocs g ! 0)) = ta_cells g (na_dst (ga_node_allocs g ! 3))
    \<and> ta_cells g (na_dst (ga_node_allocs g ! 0)) \<noteq> {}"
proof -
  obtain g where g: "gallocr_make_plan plan_backends over_state plan_gallocr over_cgraph None None = Some g"
    and d: "map na_dst (ga_node_allocs g) = [at_offset 0, ta_none, at_offset 32, at_offset 0, at_offset 0]"
    and t: "ga_buf_tallocs g = [0]" "map dt_alignment (ga_tallocs g) = [32]" using over_run by auto
  have len: "length (ga_node_allocs g) = 5" "length (ga_tallocs g) = 1"
    using arg_cong [OF d, of length] arg_cong [OF t(2), of length] by simp_all
  have n: "na_dst (ga_node_allocs g ! 0) = at_offset 0" "na_dst (ga_node_allocs g ! 3) = at_offset 0"
    using len arg_cong [OF d, of "\<lambda>xs. xs ! 0"] arg_cong [OF d, of "\<lambda>xs. xs ! 3"] by simp_all
  have "dt_alignment (ga_tallocs g ! 0) = 32" using t(2) by (cases "ga_tallocs g") auto
  then have "dyn_asize (ga_tallocs g ! 0) 16 = 32" by (simp add: dyn_asize_def aligned_offset_def size_simps Let_def)
  then have "ta_cells g (at_offset 0) \<noteq> {}"
    using t len by (simp add: ta_cells_def talloc_at_def talloc_index_def array_get_def dyn_range_def)
  moreover have "touches over_state 112 48"
    unfolding touches_def by (rule disjI1) (simp add: over_srcs)
  moreover have "topological (st_tensors over_state) (cg_nodes over_cgraph) (set (cg_leafs over_cgraph))"
    unfolding topological_def
  proof (intro allI impI)
    fix i assume "i < length (cg_nodes over_cgraph)"
    then have "i = 0 \<or> i = 1 \<or> i = 2 \<or> i = 3 \<or> i = 4" by (auto simp: over_cgraph_def)
    then show "set (srcs_of over_state (cg_nodes over_cgraph ! i))
        \<subseteq> set (cg_leafs over_cgraph) \<union> set (take i (cg_nodes over_cgraph))"
      by (elim disjE) (simp_all add: over_cgraph_def over_srcs)
  qed
  ultimately show ?thesis using g n by (simp add: over_cgraph_def)
qed

end
