(* ===== verification/GGML_GallocRun.thy ===== *)
theory GGML_GallocRun
  imports GGML_GallocSafe
begin

text \<open>
  Buffers: the second half of \<^verbatim>\<open>ggml_gallocr_reserve_n_impl\<close>, which makes the buffers large enough
  for a plan, and \<^verbatim>\<open>ggml_gallocr_alloc_graph\<close>, which places the tensors of a graph. A virtual
  buffer (\<^verbatim>\<open>struct vbuffer\<close>) is an array of sixteen backend buffers. The allocation functions of a
  backend, \<^verbatim>\<open>calloc\<close> and \<^verbatim>\<open>new\<close> are parameters; \<open>backend_store\<close> is the memory that holds the
  buffer objects.
\<close>

section \<open>Backend buffers\<close>

datatype ggml_backend_buffer_usage =
  GGML_BACKEND_BUFFER_USAGE_ANY | GGML_BACKEND_BUFFER_USAGE_WEIGHTS | GGML_BACKEND_BUFFER_USAGE_COMPUTE

text \<open>
  \<open>bb_get_base\<close> and \<open>bb_init_tensor\<close> are the optional functions of the buffer's interface: the
  base address, and an update of the tensor that is placed in the buffer, which succeeds or not
  (\<open>bb_init_ok\<close>; the graph allocator ignores the status). A buffer of a \<^verbatim>\<open>meta\<close> backend is told apart
  by its interface. \<open>bb_buffers\<close> is the context of a multi-buffer: the buffers it consists of.
\<close>

record ggml_backend_buffer =
  bb_buft :: ptr
  bb_get_base :: "ptr option"
  bb_init_tensor :: "(ggml_tensor \<Rightarrow> ggml_tensor) option"
  bb_is_meta :: bool
  bb_size :: size_t
  bb_usage :: ggml_backend_buffer_usage
  bb_init_ok :: "ggml_tensor \<Rightarrow> bool"
  bb_buffers :: "ptr list"

record backend_store =
  bs_buffers :: "ptr \<rightharpoonup> ggml_backend_buffer"
  bs_vbuffers :: "ptr \<rightharpoonup> ptr list"

record backend_env =
  be_bufts :: backends
  be_new :: "backend_store \<Rightarrow> ptr"
  be_calloc :: "backend_store \<Rightarrow> ptr"
  be_alloc_buffer :: "backend_store \<Rightarrow> ptr \<Rightarrow> size_t \<Rightarrow> (ptr \<times> ggml_backend_buffer) option"

definition bb_deref :: "backend_store \<Rightarrow> ptr \<Rightarrow> ggml_backend_buffer option" where
  "bb_deref st buffer = bs_buffers st buffer"

definition ggml_backend_buffer_init :: "backend_env \<Rightarrow> backend_store \<Rightarrow> ptr \<Rightarrow> size_t \<Rightarrow> ptr \<times> backend_store" where
  "ggml_backend_buffer_init E st buft sz =
     (let buffer = be_new E st
      in (buffer, st\<lparr>bs_buffers := (bs_buffers st)(buffer \<mapsto>
            \<lparr>bb_buft = buft, bb_get_base = None, bb_init_tensor = None, bb_is_meta = False, bb_size = sz,
             bb_usage = GGML_BACKEND_BUFFER_USAGE_ANY, bb_init_ok = \<lambda>_. True, bb_buffers = []\<rparr>)\<rparr>))"

definition ggml_backend_buft_alloc_buffer ::
  "backend_env \<Rightarrow> backend_store \<Rightarrow> ptr \<Rightarrow> size_t \<Rightarrow> (ptr \<times> backend_store) option" where
  "ggml_backend_buft_alloc_buffer E st buft sz = do {
     ggml_assert (buft \<noteq> 0);
     if sz = 0 then Some (ggml_backend_buffer_init E st buft 0)
     else case be_alloc_buffer E st buft sz of
       None \<Rightarrow> Some (0, st)
     | Some (buffer, b) \<Rightarrow> Some (buffer, st\<lparr>bs_buffers := (bs_buffers st)(buffer \<mapsto> b)\<rparr>) }"

text \<open>
  The function reads \<^verbatim>\<open>buffer->iface\<close> before it deletes the buffer: a buffer that was freed already has
  no result. What the backend's own \<^verbatim>\<open>free_buffer\<close> releases is not part of the store; that function of a
  multi-buffer, which frees its parts, is \<open>ggml_backend_multi_buffer_free_buffer\<close> of \<open>GGML_CtxAlloc\<close>.
\<close>

definition ggml_backend_buffer_free :: "backend_store \<Rightarrow> ptr \<Rightarrow> backend_store option" where
  "ggml_backend_buffer_free st buffer =
     (if buffer = 0 then Some st
      else do {
        b \<leftarrow> bb_deref st buffer;
        Some (st\<lparr>bs_buffers := (bs_buffers st)(buffer := None)\<rparr>) })"

definition ggml_backend_buffer_get_size :: "backend_store \<Rightarrow> ptr \<Rightarrow> size_t option" where
  "ggml_backend_buffer_get_size st buffer = do {
     ggml_assert (buffer \<noteq> 0);
     b \<leftarrow> bb_deref st buffer;
     Some (bb_size b) }"

definition ggml_backend_buffer_get_base :: "backend_store \<Rightarrow> ptr \<Rightarrow> ptr option" where
  "ggml_backend_buffer_get_base st buffer = do {
     ggml_assert (buffer \<noteq> 0);
     b \<leftarrow> bb_deref st buffer;
     if \<not> bb_is_meta b \<and> bb_size b = 0 then Some 0
     else case bb_get_base b of
       None \<Rightarrow> Some 0
     | Some base \<Rightarrow> do { ggml_assert (base \<noteq> 0); Some base } }"

definition ggml_backend_buffer_set_usage ::
  "backend_store \<Rightarrow> ptr \<Rightarrow> ggml_backend_buffer_usage \<Rightarrow> backend_store option" where
  "ggml_backend_buffer_set_usage st buffer usage = do {
     ggml_assert (buffer \<noteq> 0);
     b \<leftarrow> bb_deref st buffer;
     Some (st\<lparr>bs_buffers := (bs_buffers st)(buffer \<mapsto> b\<lparr>bb_usage := usage\<rparr>)\<rparr>) }"

definition ggml_backend_buffer_init_tensor :: "backend_store \<Rightarrow> ptr \<Rightarrow> ggml_state \<Rightarrow> ptr \<Rightarrow> ggml_state option" where
  "ggml_backend_buffer_init_tensor st buffer s tensor = do {
     ggml_assert (buffer \<noteq> 0);
     b \<leftarrow> bb_deref st buffer;
     Some (case bb_init_tensor b of None \<Rightarrow> s | Some f \<Rightarrow> upd s tensor f) }"

definition ggml_backend_view_init :: "backend_store \<Rightarrow> ggml_state \<Rightarrow> ptr \<Rightarrow> ggml_state option" where
  "ggml_backend_view_init st s tensor = do {
     t \<leftarrow> deref s tensor;
     ggml_assert (t_buffer t = 0);
     ggml_assert (t_view_src t \<noteq> 0);
     v \<leftarrow> deref s (t_view_src t);
     ggml_assert (t_buffer v \<noteq> 0);
     ggml_assert (t_data v \<noteq> 0);
     let s = upd s tensor (\<lambda>t. t\<lparr>t_buffer := t_buffer v, t_data := sz_add (t_data v) (t_view_offs t)\<rparr>);
     ggml_backend_buffer_init_tensor st (t_buffer v) s tensor }"

definition ggml_backend_tensor_alloc ::
  "backend_env \<Rightarrow> backend_store \<Rightarrow> ggml_state \<Rightarrow> ptr \<Rightarrow> ptr \<Rightarrow> ptr \<Rightarrow> ggml_state option" where
  "ggml_backend_tensor_alloc E st s buffer tensor addr = do {
     t \<leftarrow> deref s tensor;
     ggml_assert (t_buffer t = 0);
     ggml_assert (t_data t = 0);
     ggml_assert (t_view_src t = 0);
     base \<leftarrow> ggml_backend_buffer_get_base st buffer;
     ggml_assert (addr \<ge> base);
     b \<leftarrow> bb_deref st buffer;
     n \<leftarrow> ggml_backend_buft_get_alloc_size (be_bufts E) s (bb_buft b) tensor;
     ggml_assert (bb_is_meta b \<or> sz_add addr n \<le> sz_add base (bb_size b));
     let s = upd s tensor (\<lambda>t. t\<lparr>t_buffer := buffer, t_data := addr\<rparr>);
     ggml_backend_buffer_init_tensor st buffer s tensor }"

section \<open>Virtual buffers\<close>

definition vb_deref :: "backend_store \<Rightarrow> ptr \<Rightarrow> ptr list option" where
  "vb_deref st buf = bs_vbuffers st buf"

definition ggml_vbuffer_free :: "backend_store \<Rightarrow> ptr \<Rightarrow> backend_store option" where
  "ggml_vbuffer_free st buf =
     (if buf = 0 then Some st
      else do {
        chunks \<leftarrow> vb_deref st buf;
        st \<leftarrow> foldM (\<lambda>chunk st. ggml_backend_buffer_free st chunk) chunks st;
        Some (st\<lparr>bs_vbuffers := (bs_vbuffers st)(buf := None)\<rparr>) })"

definition ggml_vbuffer_chunk_size :: "backend_store \<Rightarrow> ptr \<Rightarrow> nat \<Rightarrow> size_t option" where
  "ggml_vbuffer_chunk_size st buf chunk = do {
     chunks \<leftarrow> vb_deref st buf;
     c \<leftarrow> array_get chunks chunk;
     if c \<noteq> 0 then ggml_backend_buffer_get_size st c else Some 0 }"

fun vbuffer_size_loop :: "backend_store \<Rightarrow> ptr list \<Rightarrow> size_t \<Rightarrow> size_t option" where
  "vbuffer_size_loop st [] sz = Some sz"
| "vbuffer_size_loop st (c # cs) sz =
     (if c = 0 then Some sz
      else do { n \<leftarrow> ggml_backend_buffer_get_size st c; vbuffer_size_loop st cs (sz_add sz n) })"

definition ggml_vbuffer_size :: "backend_store \<Rightarrow> ptr \<Rightarrow> size_t option" where
  "ggml_vbuffer_size st buf = do { chunks \<leftarrow> vb_deref st buf; vbuffer_size_loop st chunks 0 }"

text \<open>
  The loop of \<^verbatim>\<open>ggml_vbuffer_alloc\<close>: \<open>sizes\<close> are the sizes of the chunks still to allocate, \<open>n\<close> the
  next chunk. A chunk that cannot be allocated makes the function free everything and return
  \<^verbatim>\<open>NULL\<close>.
\<close>

fun vbuffer_alloc_loop ::
  "backend_env \<Rightarrow> ptr \<Rightarrow> ggml_backend_buffer_usage \<Rightarrow> ptr \<Rightarrow> size_t list \<Rightarrow> nat \<Rightarrow> backend_store \<Rightarrow> (ptr \<times> backend_store) option" where
  "vbuffer_alloc_loop E buft usage buf [] n st = Some (buf, st)"
| "vbuffer_alloc_loop E buft usage buf (chunk_size # sizes) n st = do {
     (c, st) \<leftarrow> ggml_backend_buft_alloc_buffer E st buft chunk_size;
     chunks \<leftarrow> vb_deref st buf;
     chunks \<leftarrow> array_set chunks n c;
     let st = st\<lparr>bs_vbuffers := (bs_vbuffers st)(buf \<mapsto> chunks)\<rparr>;
     if c = 0 then do {
       st \<leftarrow> ggml_vbuffer_free st buf;
       Some (0, st) }
     else do {
       st \<leftarrow> ggml_backend_buffer_set_usage st c usage;
       vbuffer_alloc_loop E buft usage buf sizes (Suc n) st } }"

definition ggml_vbuffer_alloc ::
  "backend_env \<Rightarrow> backend_store \<Rightarrow> ptr \<Rightarrow> ggml_dyn_tallocr \<Rightarrow> ggml_backend_buffer_usage \<Rightarrow> (ptr \<times> backend_store) option" where
  "ggml_vbuffer_alloc E st buft talloc usage =
     (let buf = be_calloc E st
      in if buf = 0 then Some (0, st)
         else vbuffer_alloc_loop E buft usage buf (map max_size (dt_chunks talloc)) 0
                (st\<lparr>bs_vbuffers := (bs_vbuffers st)(buf \<mapsto> replicate GGML_VBUFFER_MAX_CHUNKS 0)\<rparr>))"

definition ggml_vbuffer_tensor_alloc ::
  "backend_env \<Rightarrow> backend_store \<Rightarrow> ggml_state \<Rightarrow> ptr \<Rightarrow> ptr \<Rightarrow> buffer_address \<Rightarrow> ggml_state option" where
  "ggml_vbuffer_tensor_alloc E st s buf tensor buf_addr = do {
     chunks \<leftarrow> vb_deref st buf;
     ggml_assert (0 \<le> ba_chunk buf_addr);
     c \<leftarrow> array_get chunks (nat (ba_chunk buf_addr));
     base \<leftarrow> ggml_backend_buffer_get_base st c;
     ggml_backend_tensor_alloc E st s c tensor (sz_add base (ba_offset buf_addr)) }"

section \<open>Reserving the buffers\<close>

text \<open>
  The loop over the chunks that decides whether the buffer has to be allocated anew; its second
  result, the sum of the chunk sizes, is only logged.
\<close>

fun realloc_loop :: "backend_store \<Rightarrow> ptr \<Rightarrow> ggml_dyn_tallocr \<Rightarrow> nat list \<Rightarrow> bool \<Rightarrow> bool option" where
  "realloc_loop st buf talloc [] realloc = Some realloc"
| "realloc_loop st buf talloc (c # cs) realloc = do {
     cur_chunk_size \<leftarrow> (if buf \<noteq> 0 then ggml_vbuffer_chunk_size st buf c else Some 0);
     let new_chunk_size = ggml_dyn_tallocr_max_size talloc c;
     realloc_loop st buf talloc cs (if new_chunk_size > cur_chunk_size then True else realloc) }"

text \<open>One turn of the loop over the buffers; \<open>False\<close> is the \<^verbatim>\<open>return false\<close> of the function.\<close>

definition reserve_buffer ::
  "backend_env \<Rightarrow> bool \<Rightarrow> nat \<Rightarrow> ggml_gallocr \<times> backend_store \<Rightarrow> (bool \<times> ggml_gallocr \<times> backend_store) option" where
  "reserve_buffer E no_alloc i gst = do {
     let (galloc, st) = gst;
     k \<leftarrow> array_get (ga_buf_tallocs galloc) i;
     talloc \<leftarrow> array_get (ga_tallocs galloc) k;
     let galloc = (case first_index k (take i (ga_buf_tallocs galloc)) of
                     Some j \<Rightarrow> galloc\<lparr>ga_buffers := (ga_buffers galloc)[i := ga_buffers galloc ! j]\<rparr>
                   | None \<Rightarrow> galloc);
     let buf = ga_buffers galloc ! i;
     realloc \<leftarrow> realloc_loop st buf talloc [0..<length (dt_chunks talloc)] (buf = 0);
     if realloc then do {
       st \<leftarrow> ggml_vbuffer_free st buf;
       if no_alloc then Some (True, galloc\<lparr>ga_buffers := (ga_buffers galloc)[i := 0]\<rparr>, st)
       else do {
         buft \<leftarrow> array_get (ga_bufts galloc) i;
         (buf, st) \<leftarrow> ggml_vbuffer_alloc E st buft talloc GGML_BACKEND_BUFFER_USAGE_COMPUTE;
         Some (buf \<noteq> 0, galloc\<lparr>ga_buffers := (ga_buffers galloc)[i := buf]\<rparr>, st) } }
     else Some (True, galloc, st) }"

fun reserve_loop ::
  "backend_env \<Rightarrow> bool \<Rightarrow> nat list \<Rightarrow> ggml_gallocr \<times> backend_store \<Rightarrow> (bool \<times> ggml_gallocr \<times> backend_store) option" where
  "reserve_loop E no_alloc [] gst = Some (True, gst)"
| "reserve_loop E no_alloc (i # is) gst = do {
     (ok, gst) \<leftarrow> reserve_buffer E no_alloc i gst;
     if ok then reserve_loop E no_alloc is gst else Some (False, gst) }"

definition ggml_gallocr_reserve_n_impl ::
  "backend_env \<Rightarrow> ggml_state \<Rightarrow> backend_store \<Rightarrow> ggml_gallocr \<Rightarrow> ggml_cgraph \<Rightarrow> int32_t list option \<Rightarrow> int32_t list option
   \<Rightarrow> bool \<Rightarrow> (bool \<times> ggml_gallocr \<times> backend_store) option" where
  "ggml_gallocr_reserve_n_impl E s st galloc graph node_buffer_ids leaf_buffer_ids no_alloc = do {
     galloc \<leftarrow> gallocr_make_plan (be_bufts E) s galloc graph node_buffer_ids leaf_buffer_ids;
     reserve_loop E no_alloc [0..<n_buffers galloc] (galloc, st) }"

definition chunk_total :: "ggml_dyn_tallocr \<Rightarrow> size_t" where
  "chunk_total talloc = fold (\<lambda>chunk n. sz_add n (max_size chunk)) (dt_chunks talloc) 0"

definition ggml_gallocr_reserve_n_size ::
  "backend_env \<Rightarrow> ggml_state \<Rightarrow> backend_store \<Rightarrow> ggml_gallocr \<Rightarrow> ggml_cgraph \<Rightarrow> int32_t list option \<Rightarrow> int32_t list option
   \<Rightarrow> (size_t list \<times> ggml_gallocr \<times> backend_store) option" where
  "ggml_gallocr_reserve_n_size E s st galloc graph node_buffer_ids leaf_buffer_ids = do {
     (ok, galloc, st) \<leftarrow> ggml_gallocr_reserve_n_impl E s st galloc graph node_buffer_ids leaf_buffer_ids True;
     ggml_assert ok;
     Some (map (\<lambda>k. chunk_total (ga_tallocs galloc ! k)) (ga_buf_tallocs galloc), galloc, st) }"

definition ggml_gallocr_reserve_n ::
  "backend_env \<Rightarrow> ggml_state \<Rightarrow> backend_store \<Rightarrow> ggml_gallocr \<Rightarrow> ggml_cgraph \<Rightarrow> int32_t list option \<Rightarrow> int32_t list option
   \<Rightarrow> (bool \<times> ggml_gallocr \<times> backend_store) option" where
  "ggml_gallocr_reserve_n E s st galloc graph node_buffer_ids leaf_buffer_ids =
     ggml_gallocr_reserve_n_impl E s st galloc graph node_buffer_ids leaf_buffer_ids False"

definition ggml_gallocr_reserve ::
  "backend_env \<Rightarrow> ggml_state \<Rightarrow> backend_store \<Rightarrow> ggml_gallocr \<Rightarrow> ggml_cgraph \<Rightarrow> (bool \<times> ggml_gallocr \<times> backend_store) option" where
  "ggml_gallocr_reserve E s st galloc graph = ggml_gallocr_reserve_n E s st galloc graph None None"

section \<open>Placing the tensors of a graph\<close>

definition ggml_gallocr_init_tensor ::
  "backend_env \<Rightarrow> backend_store \<Rightarrow> ggml_gallocr \<Rightarrow> ptr \<Rightarrow> tensor_alloc \<Rightarrow> ggml_state \<Rightarrow> ggml_state option" where
  "ggml_gallocr_init_tensor E st galloc tensor ta s = do {
     t \<leftarrow> deref s tensor;
     if t_view_src t \<noteq> 0 then
       if t_buffer t = 0 then do {
         v \<leftarrow> deref s (t_view_src t);
         if t_buffer v = 0 then Some s else ggml_backend_view_init st s tensor }
       else Some s
     else if t_data t = 0 then do {
       ggml_assert (0 \<le> ta_buffer_id ta);
       buf \<leftarrow> array_get (ga_buffers galloc) (nat (ta_buffer_id ta));
       ggml_vbuffer_tensor_alloc E st s buf tensor (ta_addr ta) }
     else Some s }"

definition ggml_gallocr_node_needs_realloc ::
  "backend_env \<Rightarrow> ggml_state \<Rightarrow> ggml_gallocr \<Rightarrow> ptr \<Rightarrow> tensor_alloc \<Rightarrow> bool option" where
  "ggml_gallocr_node_needs_realloc E s galloc node talloc = do {
     t \<leftarrow> deref s node;
     if t_data t = 0 \<and> t_view_src t = 0 then
       if ta_buffer_id talloc < 0 then Some False
       else do {
         node_size \<leftarrow> alloc_size_in (be_bufts E) s galloc (ta_buffer_id talloc) node;
         Some (ta_size_max talloc \<ge> node_size) }
     else Some (ta_size_max talloc \<ge> 0) }"

text \<open>The search for a tensor whose entry no longer fits; \<open>True\<close> ends it with \<^verbatim>\<open>return true\<close>.\<close>

fun srcs_need_realloc ::
  "backend_env \<Rightarrow> ggml_state \<Rightarrow> ggml_gallocr \<Rightarrow> (ptr \<times> tensor_alloc) list \<Rightarrow> bool option" where
  "srcs_need_realloc E s galloc [] = Some False"
| "srcs_need_realloc E s galloc ((src, ta) # rest) =
     (if src = 0 then srcs_need_realloc E s galloc rest
      else do {
        ok \<leftarrow> ggml_gallocr_node_needs_realloc E s galloc src ta;
        if \<not> ok then Some True else srcs_need_realloc E s galloc rest })"

fun nodes_need_realloc ::
  "backend_env \<Rightarrow> ggml_state \<Rightarrow> ggml_gallocr \<Rightarrow> (ptr \<times> node_alloc) list \<Rightarrow> bool option" where
  "nodes_need_realloc E s galloc [] = Some False"
| "nodes_need_realloc E s galloc ((node, na) # rest) = do {
     ok \<leftarrow> ggml_gallocr_node_needs_realloc E s galloc node (na_dst na);
     if \<not> ok then Some True
     else do {
       t \<leftarrow> deref s node;
       again \<leftarrow> srcs_need_realloc E s galloc (zip (t_src t) (na_src na));
       if again then Some True else nodes_need_realloc E s galloc rest } }"

definition ggml_gallocr_needs_realloc ::
  "backend_env \<Rightarrow> ggml_state \<Rightarrow> ggml_gallocr \<Rightarrow> ggml_cgraph \<Rightarrow> bool option" where
  "ggml_gallocr_needs_realloc E s galloc graph =
     (if ga_n_nodes galloc \<noteq> n_nodes graph then Some True
      else if ga_n_leafs galloc \<noteq> n_leafs graph then Some True
      else nodes_need_realloc E s galloc (zip (cg_nodes graph) (ga_node_allocs galloc)))"

definition init_leaf ::
  "backend_env \<Rightarrow> backend_store \<Rightarrow> ggml_gallocr \<Rightarrow> ggml_cgraph \<Rightarrow> nat \<Rightarrow> ggml_state \<Rightarrow> ggml_state option" where
  "init_leaf E st galloc graph i s = do {
     la \<leftarrow> array_get (ga_leaf_allocs galloc) i;
     ggml_gallocr_init_tensor E st galloc (cg_leafs graph ! i) (la_leaf la) s }"

definition init_node ::
  "backend_env \<Rightarrow> backend_store \<Rightarrow> ggml_gallocr \<Rightarrow> ggml_cgraph \<Rightarrow> nat \<Rightarrow> ggml_state \<Rightarrow> ggml_state option" where
  "init_node E st galloc graph i s = do {
     na \<leftarrow> array_get (ga_node_allocs galloc) i;
     t \<leftarrow> deref s (cg_nodes graph ! i);
     s \<leftarrow> foldM (\<lambda>(src, ta) s. if src = 0 then Some s else ggml_gallocr_init_tensor E st galloc src ta s)
            (zip (t_src t) (na_src na)) s;
     ggml_gallocr_init_tensor E st galloc (cg_nodes graph ! i) (na_dst na) s }"

text \<open>
  The step in between, \<^verbatim>\<open>ggml_vbuffer_reset\<close> of every buffer, calls the backends' \<^verbatim>\<open>reset\<close> functions
  and changes nothing that is modelled here.
\<close>

definition gallocr_place ::
  "backend_env \<Rightarrow> backend_store \<Rightarrow> ggml_gallocr \<Rightarrow> ggml_cgraph \<Rightarrow> ggml_state \<Rightarrow> ggml_state option" where
  "gallocr_place E st galloc graph s = do {
     s \<leftarrow> foldM (init_leaf E st galloc graph) [0..<length (cg_leafs graph)] s;
     foldM (init_node E st galloc graph) [0..<length (cg_nodes graph)] s }"

definition ggml_gallocr_alloc_graph ::
  "backend_env \<Rightarrow> ggml_state \<Rightarrow> backend_store \<Rightarrow> ggml_gallocr \<Rightarrow> ggml_cgraph
   \<Rightarrow> (bool \<times> ggml_state \<times> ggml_gallocr \<times> backend_store) option" where
  "ggml_gallocr_alloc_graph E s st galloc graph = do {
     again \<leftarrow> ggml_gallocr_needs_realloc E s galloc graph;
     (ok, galloc, st) \<leftarrow> (if again then
         if n_buffers galloc = 1 then ggml_gallocr_reserve E s st galloc graph
         else Some (False, galloc, st)
       else Some (True, galloc, st));
     if ok then do {
       s \<leftarrow> gallocr_place E st galloc graph s;
       Some (True, s, galloc, st) }
     else Some (False, s, galloc, st) }"

definition ggml_gallocr_get_buffer_size :: "backend_store \<Rightarrow> ggml_gallocr \<Rightarrow> int32_t \<Rightarrow> size_t option" where
  "ggml_gallocr_get_buffer_size st galloc buffer_id = do {
     ggml_assert (buffer_id \<ge> 0 \<and> buffer_id < int (n_buffers galloc));
     let buf = ga_buffers galloc ! nat buffer_id;
     if buf = 0 then Some 0
     else if buf \<in> set (take (nat buffer_id) (ga_buffers galloc)) then Some 0
     else ggml_vbuffer_size st buf }"

section \<open>Freeing the allocator\<close>

text \<open>
  A buffer that occurs at an earlier position is not freed again. Freeing a virtual buffer or a chunk
  that does not exist any more has no result. The rest of the function releases the allocator's own arrays.
\<close>

definition ggml_gallocr_free :: "backend_store \<Rightarrow> ggml_gallocr \<Rightarrow> backend_store option" where
  "ggml_gallocr_free st galloc =
     foldM (\<lambda>i st. if ga_buffers galloc ! i \<in> set (take i (ga_buffers galloc)) then Some st
                   else ggml_vbuffer_free st (ga_buffers galloc ! i)) [0..<n_buffers galloc] st"

end
