(* ===== verification/GGML_GallocPlace.thy ===== *)
theory GGML_GallocPlace
  imports GGML_GallocRun
begin

text \<open>
  What a successful reservation guarantees and what \<^verbatim>\<open>ggml_gallocr_alloc_graph\<close> then does. The
  assumptions on a backend (\<open>backend_ok\<close>) are the documented ones: a new object lies at an address
  that is not in use, a buffer is at least as large as requested, has a base address if it is not
  empty, and the initialisation of a tensor only touches the tensor's \<^verbatim>\<open>extra\<close> field.
\<close>

section \<open>Assumptions on a backend\<close>

definition good_buffer :: "ptr \<Rightarrow> ggml_backend_buffer \<Rightarrow> bool" where
  "good_buffer buft b \<longleftrightarrow> bb_buft b = buft \<and> \<not> bb_is_meta b
     \<and> (0 < bb_size b \<longrightarrow> (\<exists>base. bb_get_base b = Some base \<and> 0 < base \<and> base + bb_size b \<le> SIZE_MAX))
     \<and> (\<forall>f t. bb_init_tensor b = Some f \<longrightarrow> f t = t\<lparr>t_extra := t_extra (f t)\<rparr>)"

definition finite_store :: "backend_store \<Rightarrow> bool" where
  "finite_store st \<longleftrightarrow> finite (dom (bs_buffers st)) \<and> finite (dom (bs_vbuffers st))"

definition backend_ok :: "backend_env \<Rightarrow> bool" where
  "backend_ok E \<longleftrightarrow> (\<forall>st. finite_store st \<longrightarrow>
     be_new E st \<noteq> 0 \<and> bb_deref st (be_new E st) = None
     \<and> (be_calloc E st \<noteq> 0 \<longrightarrow> vb_deref st (be_calloc E st) = None)
     \<and> (\<forall>buft sz p b. be_alloc_buffer E st buft sz = Some (p, b) \<longrightarrow>
          p \<noteq> 0 \<and> bb_deref st p = None \<and> sz \<le> bb_size b \<and> good_buffer buft b))"

lemma store_simps [simp]:
  "bb_deref (st\<lparr>bs_buffers := B\<rparr>) p = B p" "vb_deref (st\<lparr>bs_buffers := B\<rparr>) p = vb_deref st p"
  "bb_deref (st\<lparr>bs_vbuffers := V\<rparr>) p = bb_deref st p" "vb_deref (st\<lparr>bs_vbuffers := V\<rparr>) p = V p"
  "bs_buffers st p = bb_deref st p" "bs_vbuffers st p = vb_deref st p"
  by (simp_all add: bb_deref_def vb_deref_def)

lemma finite_store_upd [simp]:
  "finite_store st \<Longrightarrow> finite_store (st\<lparr>bs_buffers := (bs_buffers st)(p := x)\<rparr>)"
  "finite_store st \<Longrightarrow> finite_store (st\<lparr>bs_vbuffers := (bs_vbuffers st)(p := y)\<rparr>)"
  by (simp_all add: finite_store_def dom_fun_upd)

lemma good_usage [simp]: "good_buffer buft (b\<lparr>bb_usage := u\<rparr>) = good_buffer buft b"
  by (simp add: good_buffer_def)

section \<open>Allocating and freeing virtual buffers\<close>

lemma alloc_buffer_cases:
  assumes "backend_ok E" "finite_store st" "ggml_backend_buft_alloc_buffer E st buft sz = Some (c, st')" "c \<noteq> 0"
  obtains b where "bb_deref st c = None" "st' = st\<lparr>bs_buffers := (bs_buffers st)(c \<mapsto> b)\<rparr>" "sz \<le> bb_size b" "good_buffer buft b"
proof (cases "sz = 0")
  case True
  then show thesis
    using that assms by (auto simp: ggml_backend_buft_alloc_buffer_def ggml_backend_buffer_init_def Let_def
        backend_ok_def good_buffer_def split: if_splits)
next
  case False
  then obtain b where b: "be_alloc_buffer E st buft sz = Some (c, b)" "st' = st\<lparr>bs_buffers := (bs_buffers st)(c \<mapsto> b)\<rparr>"
    using assms(3,4) by (auto simp: ggml_backend_buft_alloc_buffer_def split: if_splits option.splits)
  have "bb_deref st c = None \<and> sz \<le> bb_size b \<and> good_buffer buft b"
    using assms(1,2) b(1) unfolding backend_ok_def by blast
  then show thesis using that [of b] b(2) by blast
qed

text \<open>
  \<open>keeps st st'\<close>: the objects of \<open>st\<close> are unchanged in \<open>st'\<close>. \<open>filled\<close> describes a virtual buffer
  whose first \<open>n\<close> chunks have been allocated since \<open>st0\<close>.
\<close>

definition keeps :: "backend_store \<Rightarrow> backend_store \<Rightarrow> bool" where
  "keeps st st' \<longleftrightarrow> (\<forall>q. bb_deref st q \<noteq> None \<longrightarrow> bb_deref st' q = bb_deref st q)
     \<and> (\<forall>v. vb_deref st v \<noteq> None \<longrightarrow> vb_deref st' v = vb_deref st v)"

definition apart :: "ptr list \<Rightarrow> bool" where
  "apart chunks \<longleftrightarrow> (\<forall>i < length chunks. \<forall>j < length chunks. chunks ! i \<noteq> 0 \<and> chunks ! i = chunks ! j \<longrightarrow> i = j)"

lemma apart_update:
  assumes "apart chunks" "c \<notin> set chunks"
  shows "apart (chunks[i := c])"
  unfolding apart_def
proof (intro allI impI)
  fix k l
  assume kl: "k < length (chunks[i := c])" "l < length (chunks[i := c])"
    and e: "chunks[i := c] ! k \<noteq> 0 \<and> chunks[i := c] ! k = chunks[i := c] ! l"
  have "chunks ! j \<noteq> c" if "j < length chunks" for j using assms(2) that by auto
  then show "k = l" using kl e assms(1) unfolding apart_def by (cases "k = i"; cases "l = i"; simp; metis)
qed

definition filled :: "backend_store \<Rightarrow> ptr \<Rightarrow> size_t list \<Rightarrow> ptr \<Rightarrow> backend_store \<Rightarrow> bool" where
  "filled st0 buft sizes buf st \<longleftrightarrow> finite_store st \<and> keeps st0 st \<and> vb_deref st0 buf = None
     \<and> (\<exists>chunks. vb_deref st buf = Some chunks \<and> length chunks = GGML_VBUFFER_MAX_CHUNKS \<and> apart chunks
         \<and> (\<forall>c < length chunks. c < length sizes \<longrightarrow> chunks ! c \<noteq> 0 \<and> bb_deref st0 (chunks ! c) = None
              \<and> (\<exists>b. bb_deref st (chunks ! c) = Some b \<and> sizes ! c \<le> bb_size b \<and> good_buffer buft b))
         \<and> (\<forall>c < length chunks. length sizes \<le> c \<longrightarrow> chunks ! c = 0))"

lemma filled_step:
  assumes "backend_ok E" "filled st0 buft sizes buf st" "length sizes < GGML_VBUFFER_MAX_CHUNKS"
    and "ggml_backend_buft_alloc_buffer E st buft sz = Some (c, st1)" "c \<noteq> 0"
    and "vb_deref st1 buf = Some chunks"
    and "ggml_backend_buffer_set_usage
           (st1\<lparr>bs_vbuffers := (bs_vbuffers st1)(buf \<mapsto> chunks[length sizes := c])\<rparr>) c usage = Some st'"
  shows "filled st0 buft (sizes @ [sz]) buf st'"
proof -
  have fin: "finite_store st" and k: "keeps st0 st" and nb: "vb_deref st0 buf = None"
    using assms(2) by (auto simp: filled_def)
  obtain b where b: "bb_deref st c = None" "st1 = st\<lparr>bs_buffers := (bs_buffers st)(c \<mapsto> b)\<rparr>" "sz \<le> bb_size b" "good_buffer buft b"
    using alloc_buffer_cases [OF assms(1) fin assms(4,5)] by blast
  have ch: "vb_deref st buf = Some chunks" using assms(6) b(2) by simp
  then have l: "length chunks = GGML_VBUFFER_MAX_CHUNKS"
    and old: "\<forall>i < length chunks. i < length sizes \<longrightarrow> chunks ! i \<noteq> 0 \<and> bb_deref st0 (chunks ! i) = None
              \<and> (\<exists>b. bb_deref st (chunks ! i) = Some b \<and> sizes ! i \<le> bb_size b \<and> good_buffer buft b)"
    and rest: "\<forall>i < length chunks. length sizes \<le> i \<longrightarrow> chunks ! i = 0" and ap: "apart chunks"
    using assms(2) by (auto simp: filled_def)
  have st': "bb_deref st' = (bb_deref st)(c \<mapsto> b\<lparr>bb_usage := usage\<rparr>)"
    "vb_deref st' = (vb_deref st)(buf \<mapsto> chunks[length sizes := c])" "finite_store st'"
    using assms(5,7) b(2) fin
    by (auto simp: ggml_backend_buffer_set_usage_def bind_eq_Some_conv fun_eq_iff finite_store_def dom_fun_upd)
  have c0: "bb_deref st0 c = None" using k b(1) by (auto simp: keeps_def)
  have ne: "chunks ! i \<noteq> c" if "i < length chunks" for i
    using old [rule_format, of i] b(1) that rest assms(5) by (cases "i < length sizes") auto
  then have "c \<notin> set chunks" by (metis in_set_conv_nth)
  with ap have "apart (chunks[length sizes := c])" by (rule apart_update)
  moreover have "keeps st0 st'"
    using k b(1) nb st'(1,2) c0 by (auto simp: keeps_def)
  ultimately show ?thesis
    using st' nb old rest l b(3,4) c0 assms(3,5) ne unfolding filled_def
    by (auto simp: nth_list_update nth_append less_Suc_eq)
qed

lemma vbuffer_alloc_loop_filled:
  assumes "backend_ok E" "filled st0 buft done buf st" "length done + length sizes \<le> GGML_VBUFFER_MAX_CHUNKS"
    and "vbuffer_alloc_loop E buft usage buf sizes (length done) st = Some (buf', st')" "buf' \<noteq> 0"
  shows "buf' = buf \<and> filled st0 buft (done @ sizes) buf st'"
  using assms(2-4)
proof (induction sizes arbitrary: "done" st)
  case Nil
  then show ?case using assms(5) by simp
next
  case (Cons sz sizes)
  obtain c st1 chunks where a: "ggml_backend_buft_alloc_buffer E st buft sz = Some (c, st1)"
    and v: "vb_deref st1 buf = Some chunks" and len: "length done < length chunks"
    and r: "(if c = 0 then do {
       st \<leftarrow> ggml_vbuffer_free (st1\<lparr>bs_vbuffers := (bs_vbuffers st1)(buf \<mapsto> chunks[length done := c])\<rparr>) buf;
       Some (0, st) }
     else do {
       st \<leftarrow> ggml_backend_buffer_set_usage (st1\<lparr>bs_vbuffers := (bs_vbuffers st1)(buf \<mapsto> chunks[length done := c])\<rparr>) c usage;
       vbuffer_alloc_loop E buft usage buf sizes (Suc (length done)) st }) = Some (buf', st')"
    using Cons.prems(3) by (auto simp: bind_eq_Some_conv array_set_def Let_def simp del: if_split split: if_splits)
  show ?case
  proof (cases "c = 0")
    case True
    then show ?thesis using r assms(5) by (auto simp: bind_eq_Some_conv)
  next
    case False
    then obtain st2 where u: "ggml_backend_buffer_set_usage
        (st1\<lparr>bs_vbuffers := (bs_vbuffers st1)(buf \<mapsto> chunks[length done := c])\<rparr>) c usage = Some st2"
      and l: "vbuffer_alloc_loop E buft usage buf sizes (length (done @ [sz])) st2 = Some (buf', st')"
      using r by (auto simp: bind_eq_Some_conv)
    have "length done < GGML_VBUFFER_MAX_CHUNKS" using Cons.prems(2) by simp
    note f = filled_step [OF assms(1) Cons.prems(1) this a False v u]
    show ?thesis using Cons.IH [OF f _ l] Cons.prems(2) by simp
  qed
qed

lemma vbuffer_alloc_filled:
  assumes "backend_ok E" "finite_store st" "length (dt_chunks talloc) \<le> GGML_VBUFFER_MAX_CHUNKS"
    and "ggml_vbuffer_alloc E st buft talloc usage = Some (buf, st')" "buf \<noteq> 0"
  shows "filled st buft (map max_size (dt_chunks talloc)) buf st'"
proof -
  let ?buf = "be_calloc E st"
  let ?st = "st\<lparr>bs_vbuffers := (bs_vbuffers st)(?buf \<mapsto> replicate GGML_VBUFFER_MAX_CHUNKS 0)\<rparr>"
  have nz: "?buf \<noteq> 0" and r: "vbuffer_alloc_loop E buft usage ?buf (map max_size (dt_chunks talloc)) (length ([] :: size_t list)) ?st = Some (buf, st')"
    using assms(4,5) by (auto simp: ggml_vbuffer_alloc_def Let_def split: if_splits)
  have fresh: "vb_deref st ?buf = None" using assms(1,2) nz by (simp add: backend_ok_def)
  have "filled st buft [] ?buf ?st"
    using fresh assms(2) by (auto simp: filled_def keeps_def apart_def)
  from vbuffer_alloc_loop_filled [OF assms(1) this _ r assms(5)] show ?thesis using assms(3) by simp
qed

section \<open>The buffers of an allocator\<close>

definition chunk_set :: "backend_store \<Rightarrow> ptr \<Rightarrow> ptr set" where
  "chunk_set st buf = (case vb_deref st buf of None \<Rightarrow> {} | Some chunks \<Rightarrow> set chunks - {0})"

definition buf_wf :: "backend_store \<Rightarrow> ptr \<Rightarrow> ptr \<Rightarrow> bool" where
  "buf_wf st buft buf \<longleftrightarrow> (\<exists>chunks. vb_deref st buf = Some chunks \<and> length chunks = GGML_VBUFFER_MAX_CHUNKS \<and> apart chunks
     \<and> (\<forall>c \<in> set chunks. c \<noteq> 0 \<longrightarrow> (\<exists>b. bb_deref st c = Some b \<and> good_buffer buft b)))"

text \<open>The buffer is large enough for what the allocator handed out.\<close>

definition buf_ready :: "backend_store \<Rightarrow> ptr \<Rightarrow> ggml_dyn_tallocr \<Rightarrow> ptr \<Rightarrow> bool" where
  "buf_ready st buft talloc buf \<longleftrightarrow> buf \<noteq> 0 \<and> buf_wf st buft buf
     \<and> (\<forall>chunks. vb_deref st buf = Some chunks \<longrightarrow> (\<forall>c < length chunks. c < length (dt_chunks talloc) \<and> 0 < max_size (dt_chunks talloc ! c) \<longrightarrow>
          chunks ! c \<noteq> 0 \<and> (\<forall>b. bb_deref st (chunks ! c) = Some b \<longrightarrow> max_size (dt_chunks talloc ! c) \<le> bb_size b)))"

text \<open>The configuration made by \<^verbatim>\<open>ggml_gallocr_new_n\<close>: equal allocators belong to equal types.\<close>

definition ga_config :: "ggml_gallocr \<Rightarrow> bool" where
  "ga_config g \<longleftrightarrow> length (ga_buf_tallocs g) = n_buffers g \<and> length (ga_buffers g) = n_buffers g
     \<and> (\<forall>k \<in> set (ga_buf_tallocs g). k < length (ga_tallocs g))
     \<and> (\<forall>i < n_buffers g. \<forall>j < n_buffers g. ga_buf_tallocs g ! i = ga_buf_tallocs g ! j \<longrightarrow> ga_bufts g ! i = ga_bufts g ! j)"

text \<open>The first position at which the allocator of position \<open>i\<close> occurs.\<close>

definition home_of :: "ggml_gallocr \<Rightarrow> nat \<Rightarrow> nat" where
  "home_of g i = (LEAST j. ga_buf_tallocs g ! j = ga_buf_tallocs g ! i)"

definition homes :: "ggml_gallocr \<Rightarrow> nat set" where
  "homes g = {i. i < n_buffers g \<and> home_of g i = i}"

lemma home_of_props:
  assumes "i < n_buffers g"
  shows "home_of g i \<le> i" "ga_buf_tallocs g ! home_of g i = ga_buf_tallocs g ! i" "home_of g i \<in> homes g"
proof -
  show le: "home_of g i \<le> i" unfolding home_of_def by (rule Least_le) simp
  show eq: "ga_buf_tallocs g ! home_of g i = ga_buf_tallocs g ! i"
    unfolding home_of_def by (rule LeastI [of _ i]) simp
  have "home_of g (home_of g i) = home_of g i" using eq by (simp add: home_of_def)
  then show "home_of g i \<in> homes g" using le assms by (simp add: homes_def)
qed

lemma first_index_None: "first_index x xs = None \<longleftrightarrow> x \<notin> set xs"
  by (induction xs) auto

lemma first_index_Some: "first_index x xs = Some j \<longleftrightarrow> j < length xs \<and> xs ! j = x \<and> (\<forall>i < j. xs ! i \<noteq> x)"
proof (induction xs arbitrary: j)
  case Nil
  then show ?case by simp
next
  case (Cons y ys)
  show ?case
  proof (cases j)
    case 0
    then show ?thesis by (auto split: option.splits)
  next
    case (Suc k)
    have "(\<forall>i < Suc k. (y # ys) ! i \<noteq> x) \<longleftrightarrow> x \<noteq> y \<and> (\<forall>i < k. ys ! i \<noteq> x)" by (auto simp: nth_Cons less_Suc_eq_0_disj)
    then show ?thesis using Suc Cons.IH [of k] by auto
  qed
qed

lemma first_index_home:
  assumes "ga_config g" "i < n_buffers g"
  shows "first_index (ga_buf_tallocs g ! i) (take i (ga_buf_tallocs g)) = (if i \<in> homes g then None else Some (home_of g i))"
proof -
  note h = home_of_props [OF assms(2)]
  have len: "length (ga_buf_tallocs g) = n_buffers g" using assms(1) by (simp add: ga_config_def)
  have least: "ga_buf_tallocs g ! k \<noteq> ga_buf_tallocs g ! i" if "k < home_of g i" for k
    using not_less_Least [of k "\<lambda>j. ga_buf_tallocs g ! j = ga_buf_tallocs g ! i"] that by (simp add: home_of_def)
  show ?thesis
  proof (cases "home_of g i = i")
    case True
    then show ?thesis
      using least len assms(2) by (auto simp: first_index_None homes_def in_set_conv_nth)
  next
    case False
    then have "home_of g i < i" using h(1) by simp
    then show ?thesis using False h(2) least len assms(2) by (simp add: first_index_Some homes_def)
  qed
qed

lemma nth_snoc_cases: "i < length (xs @ [x]) \<Longrightarrow> (xs @ [x]) ! i = (if i < length xs then xs ! i else x)"
  by (auto simp: nth_append)

text \<open>Equal types have equal allocators and the other way round.\<close>

definition assigned :: "ptr list \<Rightarrow> nat list \<Rightarrow> bool" where
  "assigned bufts ks \<longleftrightarrow> length ks = length bufts
     \<and> (\<forall>i < length bufts. \<forall>j < length bufts. bufts ! i = bufts ! j \<longleftrightarrow> ks ! i = ks ! j)"

lemma assigned_old:
  assumes "assigned bufts ks" "j < length bufts"
  shows "assigned (bufts @ [bufts ! j]) (ks @ [ks ! j])"
  using assms unfolding assigned_def by (auto simp: nth_append less_Suc_eq)

lemma assigned_new:
  assumes "assigned bufts ks" "b \<notin> set bufts" "k \<notin> set ks"
  shows "assigned (bufts @ [b]) (ks @ [k])"
proof -
  have len: "length ks = length bufts" using assms(1) by (simp add: assigned_def)
  have "bufts ! i \<noteq> b" "ks ! i \<noteq> k" if "i < length bufts" for i
    using assms(2,3) that len by (auto simp: in_set_conv_nth)
  then show ?thesis using assms(1) unfolding assigned_def by (auto simp: nth_append less_Suc_eq)
qed

definition ga_fresh :: "ptr list \<Rightarrow> ggml_gallocr \<Rightarrow> bool" where
  "ga_fresh bufts g \<longleftrightarrow> ga_bufts g = bufts \<and> ga_buffers g = replicate (length bufts) 0
     \<and> assigned bufts (ga_buf_tallocs g) \<and> (\<forall>k \<in> set (ga_buf_tallocs g). k < length (ga_tallocs g))"

lemma add_buft_fresh:
  assumes "ga_fresh bs g" "gallocr_add_buft B b g = Some g'"
  shows "ga_fresh (bs @ [b]) g'"
proof -
  have f: "ga_bufts g = bs" "ga_buffers g = replicate (length bs) 0" "assigned bs (ga_buf_tallocs g)"
    and lt: "\<forall>k \<in> set (ga_buf_tallocs g). k < length (ga_tallocs g)"
    using assms(1) by (simp_all add: ga_fresh_def)
  have len: "length (ga_buf_tallocs g) = length bs" using f(3) by (simp add: assigned_def)
  show ?thesis
  proof (cases "first_index b bs")
    case None
    then have "b \<notin> set bs" by (simp add: first_index_None)
    moreover have "length (ga_tallocs g) \<notin> set (ga_buf_tallocs g)" using lt by auto
    ultimately have "assigned (bs @ [b]) (ga_buf_tallocs g @ [length (ga_tallocs g)])" by (rule assigned_new [OF f(3)])
    then show ?thesis
      using assms(2) None f lt by (auto simp: gallocr_add_buft_def bind_eq_Some_conv ga_fresh_def replicate_append_same less_Suc_eq)
  next
    case (Some j)
    then have j: "j < length bs" "bs ! j = b" by (simp_all add: first_index_Some)
    have a: "assigned (bs @ [b]) (ga_buf_tallocs g @ [ga_buf_tallocs g ! j])" using assigned_old [OF f(3) j(1)] j(2) by simp
    have "ga_buf_tallocs g ! j \<in> set (ga_buf_tallocs g)" using j(1) len by simp
    then show ?thesis
      using assms(2) Some f lt a by (auto simp: gallocr_add_buft_def ga_fresh_def replicate_append_same)
  qed
qed

lemma ggml_gallocr_new_n_fresh:
  assumes "ggml_gallocr_new_n B bufts = Some g"
  shows "ga_fresh bufts g"
proof -
  have "ga_fresh (bs @ xs) g'" if "ga_fresh bs g0" "foldM (gallocr_add_buft B) xs g0 = Some g'" for bs xs g0 g'
    using that
  proof (induction xs arbitrary: bs g0)
    case Nil
    then show ?case by simp
  next
    case (Cons x xs)
    then obtain g1 where "gallocr_add_buft B x g0 = Some g1" "foldM (gallocr_add_buft B) xs g1 = Some g'"
      by (auto simp: bind_eq_Some_conv)
    then show ?case using Cons.IH [OF add_buft_fresh [OF Cons.prems(1)]] by simp
  qed
  from this [of "[]", OF _ assms [unfolded ggml_gallocr_new_n_def]] show ?thesis
    by (simp add: ga_fresh_def assigned_def)
qed

lemma ga_config_new:
  assumes "ggml_gallocr_new_n B bufts = Some g"
  shows "ga_config g" "\<forall>i < n_buffers g. ga_buffers g ! i = 0"
  using ggml_gallocr_new_n_fresh [OF assms] by (auto simp: ga_fresh_def ga_config_def assigned_def n_buffers_def)

section \<open>Freeing and allocating beside other buffers\<close>

definition same_buf :: "backend_store \<Rightarrow> backend_store \<Rightarrow> ptr \<Rightarrow> bool" where
  "same_buf st st' p \<longleftrightarrow> vb_deref st' p = vb_deref st p \<and> (\<forall>q \<in> chunk_set st p. bb_deref st' q = bb_deref st q)"

lemma same_buf_D:
  assumes "same_buf st st' p"
  shows "chunk_set st' p = chunk_set st p" "buf_wf st' buft p = buf_wf st buft p" "buf_ready st' buft a p = buf_ready st buft a p"
proof -
  have v: "vb_deref st' p = vb_deref st p" using assms by (simp add: same_buf_def)
  have b: "bb_deref st' c = bb_deref st c" if "vb_deref st p = Some chunks" "c \<in> set chunks" "c \<noteq> 0" for chunks c
    using assms that by (auto simp: same_buf_def chunk_set_def)
  show "chunk_set st' p = chunk_set st p" using v by (simp add: chunk_set_def)
  show w: "buf_wf st' buft p = buf_wf st buft p"
  proof (cases "vb_deref st p")
    case None
    then show ?thesis using v by (simp add: buf_wf_def)
  next
    case (Some chunks)
    have "(\<forall>c \<in> set chunks. c \<noteq> 0 \<longrightarrow> (\<exists>b. bb_deref st' c = Some b \<and> good_buffer buft b))
        = (\<forall>c \<in> set chunks. c \<noteq> 0 \<longrightarrow> (\<exists>b. bb_deref st c = Some b \<and> good_buffer buft b))"
      by (rule ball_cong) (simp_all add: b [OF Some])
    then show ?thesis using v Some by (simp add: buf_wf_def)
  qed
  show "buf_ready st' buft a p = buf_ready st buft a p"
  proof (cases "vb_deref st p")
    case None
    then show ?thesis using v w by (simp add: buf_ready_def)
  next
    case (Some chunks)
    have "(chunks ! i \<noteq> 0 \<and> (\<forall>b. bb_deref st' (chunks ! i) = Some b \<longrightarrow> n \<le> bb_size b))
        = (chunks ! i \<noteq> 0 \<and> (\<forall>b. bb_deref st (chunks ! i) = Some b \<longrightarrow> n \<le> bb_size b))"
      if "i < length chunks" for i n
      using b [OF Some, of "chunks ! i"] that by auto
    then show ?thesis using v w Some by (simp add: buf_ready_def cong: conj_cong imp_cong)
  qed
qed

lemma buffer_free_effect:
  assumes "ggml_backend_buffer_free st c = Some st'"
  shows "bb_deref st' = (\<lambda>q. if q = c \<and> c \<noteq> 0 then None else bb_deref st q)" "vb_deref st' = vb_deref st"
    "finite_store st \<Longrightarrow> finite_store st'"
  using assms by (auto simp: ggml_backend_buffer_free_def bind_eq_Some_conv fun_eq_iff finite_store_def dom_fun_upd split: if_splits)

lemma buffer_free_foldM:
  assumes "foldM (\<lambda>c st. ggml_backend_buffer_free st c) cs st = Some st'"
  shows "bb_deref st' = (\<lambda>q. if q \<in> set cs - {0} then None else bb_deref st q) \<and> vb_deref st' = vb_deref st
    \<and> (finite_store st \<longrightarrow> finite_store st')"
  using assms
proof (induction cs arbitrary: st)
  case Nil
  then show ?case by simp
next
  case (Cons c cs)
  then obtain st1 where 1: "ggml_backend_buffer_free st c = Some st1"
    and 2: "foldM (\<lambda>c st. ggml_backend_buffer_free st c) cs st1 = Some st'"
    by (auto simp: bind_eq_Some_conv)
  show ?case using Cons.IH [OF 2] buffer_free_effect [OF 1] by (auto simp: fun_eq_iff)
qed

text \<open>Freeing a list of buffers has a result exactly when each is there and none occurs twice.\<close>

lemma buffer_free_foldM_iff:
  "(\<exists>st'. foldM (\<lambda>c st. ggml_backend_buffer_free st c) cs st = Some st')
   \<longleftrightarrow> distinct (filter ((\<noteq>) 0) cs) \<and> (\<forall>c \<in> set cs. c \<noteq> 0 \<longrightarrow> bb_deref st c \<noteq> None)"
proof (induction cs arbitrary: st)
  case Nil
  then show ?case by simp
next
  case (Cons c cs)
  show ?case
  proof (cases "c = 0 \<or> bb_deref st c = None")
    case True
    then show ?thesis using Cons.IH [of st] by (auto simp: ggml_backend_buffer_free_def)
  next
    case False
    then obtain st1 where 1: "ggml_backend_buffer_free st c = Some st1" by (auto simp: ggml_backend_buffer_free_def)
    show ?thesis
      using False Cons.IH [of st1] 1 by (auto simp: buffer_free_effect(1) [OF 1])
  qed
qed

lemma apart_distinct: "apart cs \<longleftrightarrow> distinct (filter ((\<noteq>) 0) cs)"
proof (induction cs)
  case Nil
  then show ?case by (simp add: apart_def)
next
  case (Cons c cs)
  have "apart (c # cs) \<longleftrightarrow> apart cs \<and> (c \<noteq> 0 \<longrightarrow> c \<notin> set cs)"
    unfolding apart_def by (auto simp: All_less_Suc2 in_set_conv_nth nth_Cons split: nat.splits)
  then show ?case using Cons.IH by auto
qed

lemma vbuffer_free_effect:
  assumes "finite_store st" "ggml_vbuffer_free st p = Some st'"
  shows "bb_deref st' = (\<lambda>q. if p \<noteq> 0 \<and> q \<in> chunk_set st p then None else bb_deref st q)"
    "vb_deref st' = (if p = 0 then vb_deref st else (vb_deref st)(p := None))" "finite_store st'"
  using assms by (auto simp: ggml_vbuffer_free_def bind_eq_Some_conv chunk_set_def fun_eq_iff
      dest!: buffer_free_foldM split: if_splits)

text \<open>
  The buffers of an allocator, as the function \<open>buf\<close> on the positions \<open>H\<close>: each is well-formed, and
  no two share chunks. \<open>foreign\<close> are the buffers of somebody else.
\<close>

definition bufs_sep :: "backend_store \<Rightarrow> nat set \<Rightarrow> (nat \<Rightarrow> ptr) \<Rightarrow> (nat \<Rightarrow> ptr) \<Rightarrow> bool" where
  "bufs_sep st H buft buf \<longleftrightarrow> finite_store st \<and> (\<forall>h \<in> H. buf h \<noteq> 0 \<longrightarrow> buf_wf st (buft h) (buf h))
     \<and> (\<forall>h \<in> H. \<forall>h' \<in> H. h \<noteq> h' \<and> buf h \<noteq> 0 \<and> buf h' \<noteq> 0
          \<longrightarrow> buf h \<noteq> buf h' \<and> chunk_set st (buf h) \<inter> chunk_set st (buf h') = {})"

definition foreign :: "backend_store \<Rightarrow> nat set \<Rightarrow> (nat \<Rightarrow> ptr) \<Rightarrow> ptr \<Rightarrow> bool" where
  "foreign st H buf q \<longleftrightarrow> bb_deref st q \<noteq> None \<and> (\<forall>h \<in> H. buf h \<noteq> 0 \<longrightarrow> q \<notin> chunk_set st (buf h))"

lemma bufs_sepD:
  assumes "bufs_sep st H buft buf"
  shows "finite_store st" "h \<in> H \<Longrightarrow> buf h \<noteq> 0 \<Longrightarrow> buf_wf st (buft h) (buf h)"
    "h \<in> H \<Longrightarrow> h' \<in> H \<Longrightarrow> h \<noteq> h' \<Longrightarrow> buf h \<noteq> 0 \<Longrightarrow> buf h' \<noteq> 0 \<Longrightarrow> buf h \<noteq> buf h'"
    "h \<in> H \<Longrightarrow> h' \<in> H \<Longrightarrow> h \<noteq> h' \<Longrightarrow> buf h \<noteq> 0 \<Longrightarrow> buf h' \<noteq> 0 \<Longrightarrow> chunk_set st (buf h) \<inter> chunk_set st (buf h') = {}"
  using assms unfolding bufs_sep_def by blast+

lemma bufs_sep_step:
  assumes "bufs_sep st H buft buf" "finite_store st'"
    and "\<And>h'. h' \<in> H \<Longrightarrow> h' \<noteq> h \<Longrightarrow> buf h' \<noteq> 0 \<Longrightarrow> same_buf st st' (buf h')"
    and "p \<noteq> 0 \<Longrightarrow> buf_wf st' (buft h) p"
    and "\<And>h'. p \<noteq> 0 \<Longrightarrow> h' \<in> H \<Longrightarrow> h' \<noteq> h \<Longrightarrow> buf h' \<noteq> 0 \<Longrightarrow> buf h' \<noteq> p \<and> chunk_set st (buf h') \<inter> chunk_set st' p = {}"
  shows "bufs_sep st' H buft (buf(h := p))"
  unfolding bufs_sep_def
proof (intro conjI ballI impI)
  show "finite_store st'" by (rule assms(2))
next
  fix a assume a: "a \<in> H" "(buf(h := p)) a \<noteq> 0"
  show "buf_wf st' (buft a) ((buf(h := p)) a)"
  proof (cases "a = h")
    case True
    then show ?thesis using a assms(4) by simp
  next
    case False
    then show ?thesis using a assms(3) [of a] bufs_sepD(2) [OF assms(1)] by (simp add: same_buf_D)
  qed
next
  fix a b assume ab: "a \<in> H" "b \<in> H" "a \<noteq> b \<and> (buf(h := p)) a \<noteq> 0 \<and> (buf(h := p)) b \<noteq> 0"
  have "(buf(h := p)) a \<noteq> (buf(h := p)) b \<and> chunk_set st' ((buf(h := p)) a) \<inter> chunk_set st' ((buf(h := p)) b) = {}"
  proof -
    consider (l) "a = h" "b \<noteq> h" | (r) "a \<noteq> h" "b = h" | (n) "a \<noteq> h" "b \<noteq> h" using ab(3) by blast
    then show ?thesis
    proof cases
      case l
      then show ?thesis using ab assms(3) [of b] assms(5) [of b] by (auto simp: same_buf_D)
    next
      case r
      then show ?thesis using ab assms(3) [of a] assms(5) [of a] by (auto simp: same_buf_D)
    next
      case n
      then show ?thesis using ab assms(3) [of a] assms(3) [of b] bufs_sepD(3,4) [OF assms(1), of a b]
        by (simp add: same_buf_D)
    qed
  qed
  then show "(buf(h := p)) a \<noteq> (buf(h := p)) b" "chunk_set st' ((buf(h := p)) a) \<inter> chunk_set st' ((buf(h := p)) b) = {}"
    by blast+
qed

lemma free_beside:
  assumes "bufs_sep st H buft buf" "h \<in> H" "ggml_vbuffer_free st (buf h) = Some st'"
  shows "bufs_sep st' H buft (buf(h := 0))"
    and "h' \<in> H \<Longrightarrow> h' \<noteq> h \<Longrightarrow> buf h' \<noteq> 0 \<Longrightarrow> same_buf st st' (buf h')"
    and "foreign st H buf q \<Longrightarrow> foreign st' H (buf(h := 0)) q \<and> bb_deref st' q = bb_deref st q"
proof -
  note e = vbuffer_free_effect [OF bufs_sepD(1) [OF assms(1)] assms(3)]
  show same: "same_buf st st' (buf h')" if "h' \<in> H" "h' \<noteq> h" "buf h' \<noteq> 0" for h'
    unfolding same_buf_def e using bufs_sepD(3,4) [OF assms(1) that(1) assms(2) that(2,3)] by auto
  show "bufs_sep st' H buft (buf(h := 0))"
    by (rule bufs_sep_step [OF assms(1) e(3) same]) auto
  show "foreign st' H (buf(h := 0)) q \<and> bb_deref st' q = bb_deref st q" if f: "foreign st H buf q"
  proof -
    have eq: "bb_deref st' q = bb_deref st q" using f assms(2) unfolding foreign_def e by auto
    moreover have "q \<notin> chunk_set st' (buf h')" if "h' \<in> H" "h' \<noteq> h" "buf h' \<noteq> 0" for h'
      using same [OF that] f that by (simp add: same_buf_D foreign_def)
    ultimately show ?thesis using f by (simp add: foreign_def)
  qed
qed

lemma alloc_beside:
  assumes "bufs_sep st H buft buf" "filled st (buft h) sizes p st'" "p \<noteq> 0"
  shows "bufs_sep st' H buft (buf(h := p))"
    and "h' \<in> H \<Longrightarrow> h' \<noteq> h \<Longrightarrow> buf h' \<noteq> 0 \<Longrightarrow> same_buf st st' (buf h')"
    and "foreign st H buf q \<Longrightarrow> foreign st' H (buf(h := p)) q \<and> bb_deref st' q = bb_deref st q"
proof -
  have fin: "finite_store st'" and k: "keeps st st'" and np: "vb_deref st p = None"
    using assms(2) by (simp_all add: filled_def)
  obtain chunks where c: "vb_deref st' p = Some chunks" "length chunks = GGML_VBUFFER_MAX_CHUNKS" "apart chunks"
    and c1: "\<And>i. i < length chunks \<Longrightarrow> i < length sizes \<Longrightarrow> bb_deref st (chunks ! i) = None
       \<and> (\<exists>b. bb_deref st' (chunks ! i) = Some b \<and> good_buffer (buft h) b)"
    and c2: "\<And>i. i < length chunks \<Longrightarrow> length sizes \<le> i \<Longrightarrow> chunks ! i = 0"
    using assms(2) unfolding filled_def by blast
  have new: "bb_deref st x = None \<and> (\<exists>b. bb_deref st' x = Some b \<and> good_buffer (buft h) b)" if "x \<in> set chunks" "x \<noteq> 0" for x
  proof -
    obtain i where i: "i < length chunks" "x = chunks ! i" using \<open>x \<in> set chunks\<close> by (metis in_set_conv_nth)
    then have "i < length sizes" using c2 [of i] that(2) by (metis not_le)
    then show ?thesis using c1 [of i] i by simp
  qed
  have wf: "buf_wf st' (buft h) p" using c new by (auto simp: buf_wf_def)
  have cs: "bb_deref st x = None" if "x \<in> chunk_set st' p" for x using that c(1) new by (auto simp: chunk_set_def)
  have old: "\<exists>chunks. vb_deref st (buf h') = Some chunks" "\<forall>x \<in> chunk_set st (buf h'). bb_deref st x \<noteq> None"
    if "h' \<in> H" "buf h' \<noteq> 0" for h'
    using bufs_sepD(2) [OF assms(1) that] by (fastforce simp: buf_wf_def chunk_set_def)+
  show same: "same_buf st st' (buf h')" if "h' \<in> H" "h' \<noteq> h" "buf h' \<noteq> 0" for h'
    using k old [OF that(1,3)] by (auto simp: same_buf_def keeps_def)
  have beside: "buf h' \<noteq> p \<and> chunk_set st (buf h') \<inter> chunk_set st' p = {}" if "h' \<in> H" "buf h' \<noteq> 0" for h'
    using old [OF that] np cs by auto
  show "bufs_sep st' H buft (buf(h := p))"
    by (rule bufs_sep_step [OF assms(1) fin same wf]) (use beside in blast)+
  show "foreign st' H (buf(h := p)) q \<and> bb_deref st' q = bb_deref st q" if f: "foreign st H buf q"
  proof -
    have eq: "bb_deref st' q = bb_deref st q" using f k by (auto simp: foreign_def keeps_def)
    moreover have "q \<notin> chunk_set st' (buf h')" if "h' \<in> H" "h' \<noteq> h" "buf h' \<noteq> 0" for h'
      using same [OF that] f that by (simp add: same_buf_D foreign_def)
    moreover have "q \<notin> chunk_set st' p" using cs f by (auto simp: foreign_def)
    ultimately show ?thesis using f by (auto simp: foreign_def)
  qed
qed

section \<open>Reserving\<close>

lemma chunk_size_eq:
  assumes "vb_deref st buf = Some chunks" "c < length chunks"
  shows "ggml_vbuffer_chunk_size st buf c = (if chunks ! c \<noteq> 0 then map_option bb_size (bb_deref st (chunks ! c)) else Some 0)"
  using assms by (simp add: ggml_vbuffer_chunk_size_def array_get_def ggml_backend_buffer_get_size_def map_conv_bind_option comp_def)

lemma realloc_loop_False:
  assumes "realloc_loop st buf a cs r = Some False"
  shows "\<not> r \<and> (\<forall>c \<in> set cs. \<exists>n. (if buf \<noteq> 0 then ggml_vbuffer_chunk_size st buf c else Some 0) = Some n
    \<and> ggml_dyn_tallocr_max_size a c \<le> n)"
  using assms
proof (induction cs arbitrary: r)
  case Nil
  then show ?case by simp
next
  case (Cons c cs)
  then obtain n where n: "(if buf \<noteq> 0 then ggml_vbuffer_chunk_size st buf c else Some 0) = Some n"
    "realloc_loop st buf a cs (if n < ggml_dyn_tallocr_max_size a c then True else r) = Some False"
    by (auto simp: bind_eq_Some_conv Let_def simp del: if_split)
  show ?case using Cons.IH [OF n(2)] n(1) by (auto split: if_splits)
qed

lemma realloc_loop_ready:
  assumes "buf_ready st buft a buf" "\<forall>c \<in> set cs. c < length (dt_chunks a) \<and> c < GGML_VBUFFER_MAX_CHUNKS"
    and "realloc_loop st buf a cs False = Some r"
  shows "\<not> r"
  using assms(2,3)
proof (induction cs)
  case Nil
  then show ?case by simp
next
  case (Cons c cs)
  obtain chunks where ch: "vb_deref st buf = Some chunks" "length chunks = GGML_VBUFFER_MAX_CHUNKS"
    using assms(1) by (auto simp: buf_ready_def buf_wf_def)
  have nz: "buf \<noteq> 0" and c: "c < length (dt_chunks a)" "c < length chunks" using assms(1) Cons.prems ch by (auto simp: buf_ready_def)
  obtain n where n: "ggml_vbuffer_chunk_size st buf c = Some n"
    and r: "realloc_loop st buf a cs (if n < ggml_dyn_tallocr_max_size a c then True else False) = Some r"
    using Cons.prems(2) nz by (auto simp: bind_eq_Some_conv Let_def simp del: if_split)
  have "max_size (dt_chunks a ! c) \<le> n"
  proof (cases "max_size (dt_chunks a ! c) = 0")
    case False
    then have "chunks ! c \<noteq> 0" "\<forall>b. bb_deref st (chunks ! c) = Some b \<longrightarrow> max_size (dt_chunks a ! c) \<le> bb_size b"
      using assms(1) ch c by (simp_all add: buf_ready_def)
    then show ?thesis
      using n chunk_size_eq [OF ch(1) c(2)] by auto
  qed simp
  then show ?case using Cons.IH Cons.prems(1) r c by (auto simp: ggml_dyn_tallocr_max_size_def)
qed

lemma realloc_False_ready:
  assumes "buf \<noteq> 0" "buf_wf st buft buf" "realloc_loop st buf a [0..<length (dt_chunks a)] r = Some False"
  shows "buf_ready st buft a buf"
  unfolding buf_ready_def
proof (intro conjI allI impI)
  fix chunks c
  assume ch: "vb_deref st buf = Some chunks" and c: "c < length chunks" "c < length (dt_chunks a) \<and> 0 < max_size (dt_chunks a ! c)"
  have "c \<in> set [0..<length (dt_chunks a)]" using c by simp
  then obtain n where n: "ggml_vbuffer_chunk_size st buf c = Some n" "max_size (dt_chunks a ! c) \<le> n"
    using realloc_loop_False [OF assms(3)] assms(1) c by (fastforce simp: ggml_dyn_tallocr_max_size_def)
  then show "chunks ! c \<noteq> 0" using chunk_size_eq [OF ch c(1)] c by (auto split: if_splits)
  then show "max_size (dt_chunks a ! c) \<le> bb_size b" if "bb_deref st (chunks ! c) = Some b" for b
    using n chunk_size_eq [OF ch c(1)] that by (auto split: if_splits)
qed (use assms in auto)

lemma filled_ready:
  assumes "filled st0 buft (map max_size (dt_chunks a)) buf st" "buf \<noteq> 0"
  shows "buf_ready st buft a buf"
proof -
  let ?P = "\<lambda>i c. c \<noteq> 0 \<and> (\<exists>b. bb_deref st c = Some b \<and> max_size (dt_chunks a ! i) \<le> bb_size b \<and> good_buffer buft b)"
  obtain chunks where c: "vb_deref st buf = Some chunks" "length chunks = GGML_VBUFFER_MAX_CHUNKS" "apart chunks"
    and m: "\<And>i. i < length chunks \<Longrightarrow> i < length (dt_chunks a) \<Longrightarrow> chunks ! i \<noteq> 0
       \<and> (\<exists>b. bb_deref st (chunks ! i) = Some b \<and> map max_size (dt_chunks a) ! i \<le> bb_size b \<and> good_buffer buft b)"
    and c2: "\<And>i. i < length chunks \<Longrightarrow> length (dt_chunks a) \<le> i \<Longrightarrow> chunks ! i = 0"
    using assms(1) unfolding filled_def length_map by blast
  have c1: "?P i (chunks ! i)" if "i < length chunks" "i < length (dt_chunks a)" for i using m [OF that] that(2) by simp
  have "\<exists>b. bb_deref st x = Some b \<and> good_buffer buft b" if "x \<in> set chunks" "x \<noteq> 0" for x
    using that c1 c2 by (metis in_set_conv_nth not_le)
  then have "buf_wf st buft buf" using c by (auto simp: buf_wf_def)
  moreover have "chunks ! i \<noteq> 0 \<and> (\<forall>b. bb_deref st (chunks ! i) = Some b \<longrightarrow> max_size (dt_chunks a ! i) \<le> bb_size b)"
    if "i < length chunks" "i < length (dt_chunks a)" for i using c1 [OF that] by auto
  ultimately show ?thesis using assms(2) c(1) by (simp add: buf_ready_def)
qed

text \<open>The buffers of an allocator and the store that holds them.\<close>

abbreviation (input) own_bufs :: "ggml_gallocr \<Rightarrow> nat \<Rightarrow> ptr" where
  "own_bufs g \<equiv> (!) (ga_buffers g)"

definition galloc_store_ok :: "ggml_gallocr \<Rightarrow> backend_store \<Rightarrow> bool" where
  "galloc_store_ok g st \<longleftrightarrow> ga_config g \<and> bufs_sep st (homes g) ((!) (ga_bufts g)) (own_bufs g)"

abbreviation (input) talloc_of :: "ggml_gallocr \<Rightarrow> nat \<Rightarrow> ggml_dyn_tallocr" where
  "talloc_of g i \<equiv> ga_tallocs g ! (ga_buf_tallocs g ! i)"

definition not_ours :: "ggml_gallocr \<Rightarrow> backend_store \<Rightarrow> ptr \<Rightarrow> bool" where
  "not_ours g st q \<longleftrightarrow> foreign st (homes g) (own_bufs g) q"

definition reserve_inv :: "ggml_gallocr \<Rightarrow> backend_store \<Rightarrow> nat \<Rightarrow> ggml_gallocr \<times> backend_store \<Rightarrow> bool" where
  "reserve_inv g0 st0 i gst \<longleftrightarrow> (\<exists>g st. gst = (g, st) \<and> g = g0\<lparr>ga_buffers := ga_buffers g\<rparr> \<and> galloc_store_ok g st
     \<and> (\<forall>h \<in> homes g. h < i \<longrightarrow> buf_ready st (ga_bufts g ! h) (talloc_of g h) (ga_buffers g ! h))
     \<and> (\<forall>j < n_buffers g. j < i \<longrightarrow> ga_buffers g ! j = ga_buffers g ! home_of g j)
     \<and> (\<forall>q. not_ours g0 st0 q \<longrightarrow> not_ours g st q \<and> bb_deref st q = bb_deref st0 q))"

lemma buffers_upd [simp]:
  "n_buffers (g\<lparr>ga_buffers := bs\<rparr>) = n_buffers g" "homes (g\<lparr>ga_buffers := bs\<rparr>) = homes g"
  "home_of (g\<lparr>ga_buffers := bs\<rparr>) i = home_of g i"
  by (simp_all add: n_buffers_def homes_def home_of_def)

lemma ga_config_upd:
  assumes "ga_config g" "length bs = length (ga_buffers g)"
  shows "ga_config (g\<lparr>ga_buffers := bs\<rparr>)"
proof -
  let ?g = "g\<lparr>ga_buffers := bs\<rparr>"
  have eq: "ga_buf_tallocs ?g = ga_buf_tallocs g" "ga_tallocs ?g = ga_tallocs g" "ga_bufts ?g = ga_bufts g" "ga_buffers ?g = bs"
    by simp_all
  show ?thesis using assms(1) unfolding ga_config_def buffers_upd eq assms(2) .
qed

lemma nth_upd_fun:
  assumes "i < length xs"
  shows "(!) (xs[i := x]) = ((!) xs)(i := x)"
proof
  fix j
  show "xs[i := x] ! j = (((!) xs)(i := x)) j" using assms by (cases "j = i") simp_all
qed

text \<open>The step at the first position of an allocator.\<close>

lemma reserve_home:
  assumes "backend_ok E" "galloc_store_ok g st" "h \<in> homes g" "length (dt_chunks (talloc_of g h)) \<le> GGML_VBUFFER_MAX_CHUNKS"
    and "reserve_buffer E False h (g, st) = Some (True, g', st')"
  obtains p where "g' = g\<lparr>ga_buffers := (ga_buffers g)[h := p]\<rparr>" "galloc_store_ok g' st'"
    "buf_ready st' (ga_bufts g ! h) (talloc_of g h) p"
    "\<And>h'. h' \<in> homes g \<Longrightarrow> h' \<noteq> h \<Longrightarrow> ga_buffers g ! h' \<noteq> 0 \<Longrightarrow> same_buf st st' (ga_buffers g ! h')"
    "\<And>q. not_ours g st q \<Longrightarrow> not_ours g' st' q \<and> bb_deref st' q = bb_deref st q"
proof -
  let ?H = "homes g" and ?T = "(!) (ga_bufts g)" and ?B = "own_bufs g" and ?a = "talloc_of g h"
  have cfg: "ga_config g" and sep: "bufs_sep st ?H ?T ?B" using assms(2) by (simp_all add: galloc_store_ok_def)
  have h: "h < n_buffers g" "h < length (ga_buffers g)" "h < length (ga_buf_tallocs g)" "h < length (ga_bufts g)"
    using assms(3) cfg by (auto simp: homes_def ga_config_def n_buffers_def)
  have k: "ga_buf_tallocs g ! h < length (ga_tallocs g)" using cfg h(3) by (simp add: ga_config_def)
  have first: "first_index (ga_buf_tallocs g ! h) (take h (ga_buf_tallocs g)) = None"
    using first_index_home [OF cfg h(1)] assms(3) by simp
  obtain r where r: "realloc_loop st (ga_buffers g ! h) ?a [0..<length (dt_chunks ?a)] (ga_buffers g ! h = 0) = Some r"
    and run: "(if r then do {
       st \<leftarrow> ggml_vbuffer_free st (ga_buffers g ! h);
       (buf, st) \<leftarrow> ggml_vbuffer_alloc E st (ga_bufts g ! h) ?a GGML_BACKEND_BUFFER_USAGE_COMPUTE;
       Some (buf \<noteq> 0, g\<lparr>ga_buffers := (ga_buffers g)[h := buf]\<rparr>, st) }
     else Some (True, g, st)) = Some (True, g', st')"
    using assms(5) h k first
    by (auto simp: reserve_buffer_def array_get_def bind_eq_Some_conv Let_def simp del: if_split cong: if_cong)
  have upd: "galloc_store_ok (g\<lparr>ga_buffers := (ga_buffers g)[h := p]\<rparr>) st1 = bufs_sep st1 ?H ?T (?B(h := p))"
    "not_ours (g\<lparr>ga_buffers := (ga_buffers g)[h := p]\<rparr>) st1 = foreign st1 ?H (?B(h := p))" for p st1
    using ga_config_upd [OF cfg] h(2) by (simp_all add: galloc_store_ok_def not_ours_def nth_upd_fun fun_eq_iff)
  show thesis
  proof (cases r)
    case False
    then have eq: "g' = g" "st' = st" using run by simp_all
    have rF: "realloc_loop st (ga_buffers g ! h) ?a [0..<length (dt_chunks ?a)] (ga_buffers g ! h = 0) = Some False"
      using r False by simp
    have nz: "ga_buffers g ! h \<noteq> 0" using realloc_loop_False [OF rF] by simp
    have ready: "buf_ready st' (ga_bufts g ! h) ?a (ga_buffers g ! h)"
      using realloc_False_ready [OF nz bufs_sepD(2) [OF sep assms(3) nz] rF] eq by simp
    show thesis by (rule that [of "ga_buffers g ! h"]) (use eq assms(2) ready in \<open>simp_all add: same_buf_def\<close>)
  next
    case True
    then obtain st1 p where f: "ggml_vbuffer_free st (ga_buffers g ! h) = Some st1"
      and a: "ggml_vbuffer_alloc E st1 (ga_bufts g ! h) ?a GGML_BACKEND_BUFFER_USAGE_COMPUTE = Some (p, st')" "p \<noteq> 0"
      and g': "g' = g\<lparr>ga_buffers := (ga_buffers g)[h := p]\<rparr>"
      using run by (auto simp: bind_eq_Some_conv)
    note fr = free_beside [OF sep assms(3) f]
    have fl: "filled st1 (?T h) (map max_size (dt_chunks ?a)) p st'"
      using vbuffer_alloc_filled [OF assms(1) bufs_sepD(1) [OF fr(1)] assms(4) a] .
    note al = alloc_beside [OF fr(1) fl a(2)]
    show thesis
    proof (rule that [OF g'])
      show "galloc_store_ok g' st'" using al(1) upd(1) g' by simp
      show "buf_ready st' (ga_bufts g ! h) ?a p" by (rule filled_ready [OF fl a(2)])
      show "same_buf st st' (ga_buffers g ! h')" if "h' \<in> ?H" "h' \<noteq> h" "ga_buffers g ! h' \<noteq> 0" for h'
        using fr(2) [OF that] al(2) [of h'] that by (auto simp: same_buf_def chunk_set_def)
      show "not_ours g' st' q \<and> bb_deref st' q = bb_deref st q" if "not_ours g st q" for q
        using fr(3) [of q] al(3) [of q] that g' upd(2) by (simp add: not_ours_def)
    qed
  qed
qed

text \<open>At a later position of an allocator the buffer made at the first one is reused.\<close>

lemma reserve_alias:
  assumes "ga_config g" "i < n_buffers g" "i \<notin> homes g"
    and "buf_ready st (ga_bufts g ! home_of g i) (talloc_of g (home_of g i)) (ga_buffers g ! home_of g i)"
    and "length (dt_chunks (talloc_of g i)) \<le> GGML_VBUFFER_MAX_CHUNKS"
    and "reserve_buffer E False i (g, st) = Some (ok, g', st')"
  shows "ok \<and> g' = g\<lparr>ga_buffers := (ga_buffers g)[i := ga_buffers g ! home_of g i]\<rparr> \<and> st' = st"
proof -
  let ?a = "talloc_of g i" and ?buf = "ga_buffers g ! home_of g i"
  have i: "i < length (ga_buffers g)" "i < length (ga_buf_tallocs g)"
    using assms(1,2) by (simp_all add: ga_config_def)
  have k: "ga_buf_tallocs g ! i < length (ga_tallocs g)" using assms(1) i(2) by (simp add: ga_config_def)
  have first: "first_index (ga_buf_tallocs g ! i) (take i (ga_buf_tallocs g)) = Some (home_of g i)"
    using first_index_home [OF assms(1,2)] assms(3) by simp
  have ready: "buf_ready st (ga_bufts g ! home_of g i) ?a ?buf"
    using assms(4) home_of_props(2) [OF assms(2)] by simp
  then have nz: "?buf \<noteq> 0" by (simp add: buf_ready_def)
  obtain r where r: "realloc_loop st ?buf ?a [0..<length (dt_chunks ?a)] False = Some r"
    and run: "(if r then do {
       st \<leftarrow> ggml_vbuffer_free st ?buf;
       buft \<leftarrow> array_get (ga_bufts g) i;
       (buf, st) \<leftarrow> ggml_vbuffer_alloc E st buft ?a GGML_BACKEND_BUFFER_USAGE_COMPUTE;
       Some (buf \<noteq> 0, g\<lparr>ga_buffers := (ga_buffers g)[i := buf]\<rparr>, st) }
     else Some (True, g\<lparr>ga_buffers := (ga_buffers g)[i := ?buf]\<rparr>, st)) = Some (ok, g', st')"
    using assms(6) i k first nz
    by (auto simp: reserve_buffer_def array_get_def bind_eq_Some_conv Let_def simp del: if_split cong: if_cong)
  have "\<not> r" by (rule realloc_loop_ready [OF ready _ r]) (use assms(5) in auto)
  then show ?thesis using run by simp
qed

lemma reserve_invI:
  assumes "g = g0\<lparr>ga_buffers := ga_buffers g\<rparr>" "galloc_store_ok g st"
    and "\<And>h. h \<in> homes g \<Longrightarrow> h < i \<Longrightarrow> buf_ready st (ga_bufts g ! h) (talloc_of g h) (ga_buffers g ! h)"
    and "\<And>j. j < n_buffers g \<Longrightarrow> j < i \<Longrightarrow> ga_buffers g ! j = ga_buffers g ! home_of g j"
    and "\<And>q. not_ours g0 st0 q \<Longrightarrow> not_ours g st q \<and> bb_deref st q = bb_deref st0 q"
  shows "reserve_inv g0 st0 i (g, st)"
  unfolding reserve_inv_def using assms by blast

lemma reserve_inv_step:
  assumes "backend_ok E" "reserve_inv g0 st0 i (g, st)" "i < n_buffers g"
    and "\<forall>a \<in> set (ga_tallocs g). length (dt_chunks a) \<le> GGML_VBUFFER_MAX_CHUNKS"
    and "reserve_buffer E False i (g, st) = Some (True, g', st')"
  shows "reserve_inv g0 st0 (Suc i) (g', st')"
proof -
  have eq: "g = g0\<lparr>ga_buffers := ga_buffers g\<rparr>" and ok: "galloc_store_ok g st"
    and ready: "\<forall>h \<in> homes g. h < i \<longrightarrow> buf_ready st (ga_bufts g ! h) (talloc_of g h) (ga_buffers g ! h)"
    and al_eq: "\<forall>j < n_buffers g. j < i \<longrightarrow> ga_buffers g ! j = ga_buffers g ! home_of g j"
    and far: "\<forall>q. not_ours g0 st0 q \<longrightarrow> not_ours g st q \<and> bb_deref st q = bb_deref st0 q"
    using assms(2) by (simp_all add: reserve_inv_def)
  have cfg: "ga_config g" using ok by (simp add: galloc_store_ok_def)
  have len: "length (ga_buffers g) = n_buffers g" "i < length (ga_buf_tallocs g)"
    using cfg assms(3) by (simp_all add: ga_config_def)
  have few: "length (dt_chunks (talloc_of g i)) \<le> GGML_VBUFFER_MAX_CHUNKS"
    using assms(4) cfg len(2) by (simp add: ga_config_def)
  note hp = home_of_props [OF assms(3)]
  have heq: "home_of g i = i" if "i \<in> homes g" using that by (simp add: homes_def)
  show ?thesis
  proof (cases "i \<in> homes g")
    case True
    obtain p where g': "g' = g\<lparr>ga_buffers := (ga_buffers g)[i := p]\<rparr>" and ok': "galloc_store_ok g' st'"
      and new: "buf_ready st' (ga_bufts g ! i) (talloc_of g i) p"
      and same: "\<And>h'. h' \<in> homes g \<Longrightarrow> h' \<noteq> i \<Longrightarrow> ga_buffers g ! h' \<noteq> 0 \<Longrightarrow> same_buf st st' (ga_buffers g ! h')"
      and far': "\<And>q. not_ours g st q \<Longrightarrow> not_ours g' st' q \<and> bb_deref st' q = bb_deref st q"
      using reserve_home [OF assms(1) ok True few assms(5)] by blast
    have unch: "ga_bufts g' = ga_bufts g" "ga_tallocs g' = ga_tallocs g" "ga_buf_tallocs g' = ga_buf_tallocs g"
      "homes g' = homes g" "n_buffers g' = n_buffers g" "home_of g' = home_of g"
      by (simp_all add: g' fun_eq_iff)
    show ?thesis
    proof (rule reserve_invI)
      show "g' = g0\<lparr>ga_buffers := ga_buffers g'\<rparr>" by (subst g', subst eq) (simp add: g')
      show "galloc_store_ok g' st'" by (rule ok')
      show "buf_ready st' (ga_bufts g' ! h) (talloc_of g' h) (ga_buffers g' ! h)" if "h \<in> homes g'" "h < Suc i" for h
      proof (cases "h = i")
        case True
        then show ?thesis using new g' len assms(3) by simp
      next
        case False
        then have r: "buf_ready st (ga_bufts g ! h) (talloc_of g h) (ga_buffers g ! h)" using ready that by (simp add: unch)
        then have nz: "ga_buffers g ! h \<noteq> 0" by (simp add: buf_ready_def)
        have "same_buf st st' (ga_buffers g ! h)" using same [OF _ False nz] that(1) by (simp add: unch)
        from same_buf_D(3) [OF this] r show ?thesis using False g' by simp
      qed
      show "ga_buffers g' ! j = ga_buffers g' ! home_of g' j" if "j < n_buffers g'" "j < Suc i" for j
      proof (cases "j = i")
        case True
        then show ?thesis using heq [OF \<open>i \<in> homes g\<close>] by (simp add: unch)
      next
        case False
        then have "home_of g j < i" using home_of_props(1) [of j g] that by (simp add: unch)
        then show ?thesis using False g' al_eq that by (simp add: unch)
      qed
      show "not_ours g' st' q \<and> bb_deref st' q = bb_deref st0 q" if "not_ours g0 st0 q" for q
        using far that far' by metis
    qed
  next
    case False
    let ?p = "ga_buffers g ! home_of g i"
    have lt: "home_of g i < i" using False hp by (cases "home_of g i = i") auto
    have g': "g' = g\<lparr>ga_buffers := (ga_buffers g)[i := ?p]\<rparr>" "st' = st"
      using reserve_alias [OF cfg assms(3) False _ few assms(5)] ready hp(3) lt by simp_all
    have keep_home: "ga_buffers g' ! h = ga_buffers g ! h" if "h \<in> homes g" for h
      using that False g'(1) by (cases "h = i") simp_all
    have upd: "galloc_store_ok g' st" "not_ours g' st = not_ours g st"
    proof -
      have "bufs_sep st (homes g) ((!) (ga_bufts g)) ((!) (ga_buffers g'))"
        using ok keep_home unfolding galloc_store_ok_def bufs_sep_def by metis
      then show "galloc_store_ok g' st" using ga_config_upd [OF cfg] g' by (simp add: galloc_store_ok_def)
      show "not_ours g' st = not_ours g st" using keep_home g' by (auto simp: not_ours_def foreign_def fun_eq_iff)
    qed
    have unch: "ga_bufts g' = ga_bufts g" "ga_tallocs g' = ga_tallocs g" "ga_buf_tallocs g' = ga_buf_tallocs g"
      "homes g' = homes g" "n_buffers g' = n_buffers g" "home_of g' = home_of g"
      by (simp_all add: g' fun_eq_iff)
    show ?thesis
    proof (rule reserve_invI)
      show "g' = g0\<lparr>ga_buffers := ga_buffers g'\<rparr>" by (subst g'(1), subst eq) (simp add: g')
      show "galloc_store_ok g' st'" using upd(1) g'(2) by simp
      show "buf_ready st' (ga_bufts g' ! h) (talloc_of g' h) (ga_buffers g' ! h)" if "h \<in> homes g'" "h < Suc i" for h
        using ready that False keep_home [of h] g'(2) by (cases "h = i") (simp_all add: unch)
      show "ga_buffers g' ! j = ga_buffers g' ! home_of g' j" if "j < n_buffers g'" "j < Suc i" for j
        using al_eq that g' lt len assms(3) home_of_props [of j g] keep_home by (cases "j = i") (simp_all add: unch)
      show "not_ours g' st' q \<and> bb_deref st' q = bb_deref st0 q" if "not_ours g0 st0 q" for q
        using far that upd(2) g'(2) by simp
    qed
  qed
qed

lemma reserve_buffer_recs:
  assumes "reserve_buffer E n i (g, st) = Some (ok, g', st')"
  shows "g' = g\<lparr>ga_buffers := ga_buffers g'\<rparr>"
  using assms by (auto simp: reserve_buffer_def bind_eq_Some_conv Let_def split: option.splits if_splits)

lemma reserve_loop_inv:
  assumes "backend_ok E" "reserve_inv g0 st0 i (g, st)" "i \<le> n_buffers g"
    and "\<forall>a \<in> set (ga_tallocs g). length (dt_chunks a) \<le> GGML_VBUFFER_MAX_CHUNKS"
    and "reserve_loop E False [i..<n_buffers g] (g, st) = Some (True, g', st')"
  shows "reserve_inv g0 st0 (n_buffers g) (g', st')"
  using assms(2-5)
proof (induction "n_buffers g - i" arbitrary: i g st)
  case 0
  then show ?case by simp
next
  case (Suc n)
  then have i: "i < n_buffers g" by simp
  obtain g1 st1 where r: "reserve_buffer E False i (g, st) = Some (True, g1, st1)"
    and l: "reserve_loop E False [Suc i..<n_buffers g] (g1, st1) = Some (True, g', st')"
    using Suc.prems(4) i by (auto simp: upt_rec [of i] bind_eq_Some_conv split: if_splits)
  have g1: "g1 = g\<lparr>ga_buffers := ga_buffers g1\<rparr>" using reserve_buffer_recs [OF r] .
  have n1: "n_buffers g1 = n_buffers g" "ga_tallocs g1 = ga_tallocs g" by (subst g1, simp)+
  note step = reserve_inv_step [OF assms(1) Suc.prems(1) i Suc.prems(3) r]
  have "reserve_inv g0 st0 (n_buffers g1) (g', st')"
    by (rule Suc.hyps(1) [of g1 "Suc i" st1]) (use Suc.hyps(2) Suc.prems(3) n1 i step l in simp_all)
  then show ?case using n1 by simp
qed

text \<open>After a successful reservation every buffer is ready.\<close>

lemma reserve_n_ready:
  assumes "backend_ok E" "galloc_store_ok g st" "gallocr_valid g" "heap_ok (st_tensors s)"
    and "plan_graph s (cg_leafs graph) (cg_nodes graph)" "sizes_ok (be_bufts E) s g" "cg_nodes graph \<noteq> []"
    and "ggml_gallocr_reserve_n E s st g graph nids lids = Some (True, g', st')"
  obtains g1 where "gallocr_make_plan (be_bufts E) s g graph nids lids = Some g1" "g' = g1\<lparr>ga_buffers := ga_buffers g'\<rparr>"
    "galloc_store_ok g' st'"
    "\<And>i. i < n_buffers g' \<Longrightarrow> buf_ready st' (ga_bufts g' ! i) (talloc_of g' i) (ga_buffers g' ! i)"
    "\<And>i. i < n_buffers g' \<Longrightarrow> ga_buffers g' ! i = ga_buffers g' ! home_of g' i"
    "\<And>q. not_ours g st q \<Longrightarrow> not_ours g' st' q \<and> bb_deref st' q = bb_deref st q"
proof -
  obtain g1 where p: "gallocr_make_plan (be_bufts E) s g graph nids lids = Some g1"
    and l: "reserve_loop E False [0..<n_buffers g1] (g1, st) = Some (True, g', st')"
    using assms(8) by (auto simp: ggml_gallocr_reserve_n_def ggml_gallocr_reserve_n_impl_def bind_eq_Some_conv)
  obtain "gallocr_valid g1" and f: "ga_bufts g1 = ga_bufts g" "ga_buffers g1 = ga_buffers g" "ga_buf_tallocs g1 = ga_buf_tallocs g"
      "map dt_alignment (ga_tallocs g1) = map dt_alignment (ga_tallocs g)"
    by (rule make_plan_correct [OF assms(4,5,3,6,7) p])
  then have few: "\<forall>a \<in> set (ga_tallocs g1). length (dt_chunks a) \<le> GGML_VBUFFER_MAX_CHUNKS"
    by (simp add: gallocr_valid_def dyn_inv_def)
  have len: "length (ga_tallocs g1) = length (ga_tallocs g)" using arg_cong [OF f(4), of length] by simp
  have same: "n_buffers g1 = n_buffers g" "home_of g1 = home_of g" "homes g1 = homes g"
    using f by (simp_all add: n_buffers_def home_of_def homes_def fun_eq_iff)
  have cfg: "ga_config g1" using assms(2) unfolding galloc_store_ok_def ga_config_def f same len by blast
  have ok1: "galloc_store_ok g1 st" using assms(2) cfg unfolding galloc_store_ok_def f same by blast
  have "not_ours g1 st = not_ours g st" by (simp add: not_ours_def f same fun_eq_iff)
  then have "reserve_inv g1 st 0 (g1, st)" using ok1 by (simp add: reserve_inv_def)
  from reserve_loop_inv [OF assms(1) this _ few l]
  have inv: "reserve_inv g1 st (n_buffers g1) (g', st')" by simp
  then have eq: "g' = g1\<lparr>ga_buffers := ga_buffers g'\<rparr>" and ok: "galloc_store_ok g' st'"
    and ready: "\<forall>h \<in> homes g'. h < n_buffers g1 \<longrightarrow> buf_ready st' (ga_bufts g' ! h) (talloc_of g' h) (ga_buffers g' ! h)"
    and al: "\<forall>j < n_buffers g'. j < n_buffers g1 \<longrightarrow> ga_buffers g' ! j = ga_buffers g' ! home_of g' j"
    and far: "\<forall>q. not_ours g1 st q \<longrightarrow> not_ours g' st' q \<and> bb_deref st' q = bb_deref st q"
    unfolding reserve_inv_def by blast+
  have n: "n_buffers g' = n_buffers g1" by (subst eq) simp
  have "buf_ready st' (ga_bufts g' ! i) (talloc_of g' i) (ga_buffers g' ! i)" if i: "i < n_buffers g'" for i
  proof -
    note h = home_of_props [OF i]
    have "ga_config g'" using ok by (simp add: galloc_store_ok_def)
    then have "ga_bufts g' ! home_of g' i = ga_bufts g' ! i" using h i unfolding ga_config_def by (meson le_less_trans)
    moreover have "home_of g' i < n_buffers g1" using h(1) i n by simp
    ultimately show ?thesis using ready h al i n by metis
  qed
  moreover have "ga_buffers g' ! i = ga_buffers g' ! home_of g' i" if "i < n_buffers g'" for i using al that n by simp
  moreover have "not_ours g' st' q \<and> bb_deref st' q = bb_deref st q" if "not_ours g st q" for q
    using far that \<open>not_ours g1 st = not_ours g st\<close> by simp
  ultimately show thesis using that [OF p eq ok] by blast
qed

end
