(* ===== verification/GGML_GallocAlloc.thy ===== *)
theory GGML_GallocAlloc
  imports GGML_GallocPlace
begin

text \<open>
  \<^verbatim>\<open>ggml_gallocr_alloc_graph\<close> after a successful reservation: every tensor of the graph that has no
  memory gets the bytes that the plan foresees, inside a buffer that is large enough, views are
  placed relative to their bases, and what the plan keeps apart stays apart in memory.
\<close>

section \<open>What placing a tensor changes\<close>

text \<open>Only these fields of a descriptor change; sizes must not depend on them.\<close>

definition strip :: "ggml_tensor \<Rightarrow> ggml_tensor" where
  "strip t = t\<lparr>t_buffer := 0, t_data := 0, t_extra := 0\<rparr>"

definition same_layout :: "ggml_state \<Rightarrow> ggml_state \<Rightarrow> bool" where
  "same_layout s s' \<longleftrightarrow> (\<forall>p. map_option strip (deref s' p) = map_option strip (deref s p))"

definition sizes_stable :: "backends \<Rightarrow> bool" where
  "sizes_stable B \<longleftrightarrow> (\<forall>buft f s s' p. bt_get_alloc_size (B buft) = Some f \<and> same_layout s s' \<longrightarrow> f s' p = f s p)"

lemma strip_D:
  assumes "strip t' = strip t"
  shows "t_type t' = t_type t" "t_ne t' = t_ne t" "t_nb t' = t_nb t" "t_src t' = t_src t"
    "t_view_src t' = t_view_src t" "t_view_offs t' = t_view_offs t"
proof -
  show "t_type t' = t_type t" using arg_cong [OF assms, of t_type] by (simp add: strip_def)
  show "t_ne t' = t_ne t" using arg_cong [OF assms, of t_ne] by (simp add: strip_def)
  show "t_nb t' = t_nb t" using arg_cong [OF assms, of t_nb] by (simp add: strip_def)
  show "t_src t' = t_src t" using arg_cong [OF assms, of t_src] by (simp add: strip_def)
  show "t_view_src t' = t_view_src t" using arg_cong [OF assms, of t_view_src] by (simp add: strip_def)
  show "t_view_offs t' = t_view_offs t" using arg_cong [OF assms, of t_view_offs] by (simp add: strip_def)
qed

lemma nbytes_strip:
  assumes "strip t' = strip t"
  shows "ggml_nbytes t' = ggml_nbytes t"
proof -
  note d = strip_D [OF assms]
  have "nbytes_loop t' is n = nbytes_loop t is n" for "is" n
    by (induction "is" arbitrary: n) (simp_all add: d)
  then show ?thesis by (simp add: ggml_nbytes_def d Let_def)
qed

lemma same_layoutD:
  assumes "same_layout s s'"
  shows "deref s p = Some t \<Longrightarrow> \<exists>t'. deref s' p = Some t' \<and> strip t' = strip t"
    "deref s' p = Some t' \<Longrightarrow> \<exists>t. deref s p = Some t \<and> strip t' = strip t"
proof -
  have e: "map_option strip (deref s' p) = map_option strip (deref s p)" using assms by (simp add: same_layout_def)
  show "\<exists>t'. deref s' p = Some t' \<and> strip t' = strip t" if "deref s p = Some t" using e that by auto
  show "\<exists>t. deref s p = Some t \<and> strip t' = strip t" if "deref s' p = Some t'"
    using e that by (cases "deref s p") auto
qed

lemma same_layout_refl [simp]: "same_layout s s"
  by (simp add: same_layout_def)

lemma same_layout_upd:
  assumes "same_layout s s'" "\<And>t. strip (f t) = strip t"
  shows "same_layout s (upd s' p f)"
proof -
  have "map_option strip (deref (upd s' p f) q) = map_option strip (deref s' q)" for q
    using assms(2) by (cases "st_tensors s' p") (simp_all add: upd_def deref_def)
  then show ?thesis using assms(1) by (simp add: same_layout_def)
qed

lemma alloc_size_stable:
  assumes "sizes_stable B" "same_layout s s'"
  shows "ggml_backend_buft_get_alloc_size B s' buft p = ggml_backend_buft_get_alloc_size B s buft p"
proof (cases "bt_get_alloc_size (B buft)")
  case None
  have "map_option ggml_nbytes (deref s' p) = map_option ggml_nbytes (deref s p)"
  proof (cases "deref s p")
    case None
    then have "deref s' p = None" using same_layoutD(2) [OF assms(2), of p] by (cases "deref s' p") auto
    then show ?thesis using None by simp
  next
    case (Some t)
    obtain t' where "deref s' p = Some t'" "strip t' = strip t" using same_layoutD(1) [OF assms(2) Some] by blast
    then show ?thesis using Some nbytes_strip [of t' t] by simp
  qed
  then show ?thesis using None by (simp add: ggml_backend_buft_get_alloc_size_def map_conv_bind_option comp_def)
next
  case (Some f)
  then have "f s' p = f s p" using assms(2) by (intro assms(1) [unfolded sizes_stable_def, rule_format, of buft] conjI)
  then show ?thesis using Some by (simp add: ggml_backend_buft_get_alloc_size_def)
qed

section \<open>The bytes of an entry\<close>

text \<open>\<open>slot st g ta c base\<close>: the entry \<open>ta\<close> lies in the backend buffer \<open>c\<close> with the base address \<open>base\<close>.\<close>

definition slot :: "backend_store \<Rightarrow> ggml_gallocr \<Rightarrow> tensor_alloc \<Rightarrow> ptr \<Rightarrow> ptr \<Rightarrow> bool" where
  "slot st g ta c base \<longleftrightarrow> 0 \<le> ta_buffer_id ta \<and> nat (ta_buffer_id ta) < length (ga_buffers g) \<and> 0 \<le> ba_chunk (ta_addr ta)
     \<and> ga_buffers g ! nat (ta_buffer_id ta) \<noteq> 0 \<and> (\<exists>chunks b. vb_deref st (ga_buffers g ! nat (ta_buffer_id ta)) = Some chunks
          \<and> nat (ba_chunk (ta_addr ta)) < length chunks \<and> c = chunks ! nat (ba_chunk (ta_addr ta)) \<and> c \<noteq> 0
          \<and> bb_deref st c = Some b \<and> good_buffer (ga_bufts g ! nat (ta_buffer_id ta)) b \<and> bb_get_base b = Some base
          \<and> 0 < base \<and> ba_offset (ta_addr ta) + ta_size_max ta \<le> bb_size b \<and> base + bb_size b \<le> SIZE_MAX)"

lemma slot_unique: "slot st g ta c base \<Longrightarrow> slot st g ta c' base' \<Longrightarrow> c' = c \<and> base' = base"
  by (auto simp: slot_def)

lemma slot_from_ready:
  assumes "buf_ready st (ga_bufts g ! i) a (ga_buffers g ! i)" "i < length (ga_buffers g)"
    and "ta_buffer_id ta = int i" "0 \<le> ba_chunk (ta_addr ta)" "nat (ba_chunk (ta_addr ta)) < length (dt_chunks a)"
    and "length (dt_chunks a) \<le> GGML_VBUFFER_MAX_CHUNKS" "0 < ta_size_max ta"
    and "ba_offset (ta_addr ta) + ta_size_max ta \<le> ggml_dyn_tallocr_max_size a (nat (ba_chunk (ta_addr ta)))"
  shows "\<exists>c base. slot st g ta c base"
proof -
  let ?k = "nat (ba_chunk (ta_addr ta))"
  obtain chunks where ch: "vb_deref st (ga_buffers g ! i) = Some chunks" "length chunks = GGML_VBUFFER_MAX_CHUNKS"
    and wf: "\<forall>c \<in> set chunks. c \<noteq> 0 \<longrightarrow> (\<exists>b. bb_deref st c = Some b \<and> good_buffer (ga_bufts g ! i) b)"
    using assms(1) by (auto simp: buf_ready_def buf_wf_def)
  have k: "?k < length chunks" using assms(5,6) ch(2) by simp
  have m: "ba_offset (ta_addr ta) + ta_size_max ta \<le> max_size (dt_chunks a ! ?k)"
    using assms(5,8) by (simp add: ggml_dyn_tallocr_max_size_def)
  then have "0 < max_size (dt_chunks a ! ?k)" using assms(7) by simp
  then have nz: "chunks ! ?k \<noteq> 0" and big: "\<And>b. bb_deref st (chunks ! ?k) = Some b \<Longrightarrow> max_size (dt_chunks a ! ?k) \<le> bb_size b"
    using assms(1,5) ch(1) k by (simp_all add: buf_ready_def)
  then obtain b where b: "bb_deref st (chunks ! ?k) = Some b" "good_buffer (ga_bufts g ! i) b"
    using wf k by (meson nth_mem)
  have sz: "ba_offset (ta_addr ta) + ta_size_max ta \<le> bb_size b" using big [OF b(1)] m by simp
  then have "0 < bb_size b" using assms(7) by simp
  then obtain base where "bb_get_base b = Some base" "0 < base" "base + bb_size b \<le> SIZE_MAX"
    using b(2) by (auto simp: good_buffer_def)
  moreover have "ga_buffers g ! i \<noteq> 0" using assms(1) by (simp add: buf_ready_def)
  ultimately show ?thesis using assms(2-4) ch(1) k nz b sz by (auto simp: slot_def)
qed

definition at_slot :: "backend_store \<Rightarrow> ggml_gallocr \<Rightarrow> tensor_alloc \<Rightarrow> ggml_tensor \<Rightarrow> bool" where
  "at_slot st g ta t \<longleftrightarrow> (\<exists>c base. slot st g ta c base \<and> t_buffer t = c \<and> t_data t = base + ba_offset (ta_addr ta))"

lemma at_slot_nonzero: "at_slot st g ta t \<Longrightarrow> t_buffer t \<noteq> 0 \<and> t_data t \<noteq> 0"
  by (auto simp: at_slot_def slot_def)

text \<open>The initialisation of a tensor by its buffer only sets \<open>t_extra\<close>.\<close>

definition harmless :: "ggml_backend_buffer \<Rightarrow> bool" where
  "harmless b \<longleftrightarrow> (\<forall>f t. bb_init_tensor b = Some f \<longrightarrow> f t = t\<lparr>t_extra := t_extra (f t)\<rparr>)"

lemma good_harmless: "good_buffer buft b \<Longrightarrow> harmless b"
  by (simp add: good_buffer_def harmless_def)

lemma init_harmless:
  assumes "bb_deref st c = Some b" "harmless b" "c \<noteq> 0"
  shows "\<exists>x. ggml_backend_buffer_init_tensor st c (upd s p f) p = Some (upd s p (\<lambda>t. (f t)\<lparr>t_extra := x t\<rparr>))"
proof (cases "bb_init_tensor b")
  case None
  have "upd s p f = upd s p (\<lambda>t. (f t)\<lparr>t_extra := t_extra (f t)\<rparr>)" by simp
  then show ?thesis using assms None
    by (intro exI [of _ "\<lambda>t. t_extra (f t)"]) (simp add: ggml_backend_buffer_init_tensor_def)
next
  case (Some h)
  have "h (f t) = (f t)\<lparr>t_extra := t_extra (h (f t))\<rparr>" for t
    using assms(2) Some unfolding harmless_def by blast
  then have "upd (upd s p f) p h = upd s p (\<lambda>t. (f t)\<lparr>t_extra := t_extra (h (f t))\<rparr>)"
    unfolding upd_upd by (intro arg_cong [of _ _ "upd s p"]) (rule ext, metis)
  then show ?thesis using assms Some by (auto simp: ggml_backend_buffer_init_tensor_def)
qed

lemma tensor_alloc_slot:
  assumes "slot st g ta c base" "deref s p = Some t" "t_buffer t = 0" "t_data t = 0" "t_view_src t = 0" "0 < ta_size_max ta"
    and "ggml_backend_buft_get_alloc_size (be_bufts E) s (ga_bufts g ! nat (ta_buffer_id ta)) p = Some (ta_size_max ta)"
  shows "\<exists>x. ggml_vbuffer_tensor_alloc E st s (ga_buffers g ! nat (ta_buffer_id ta)) p (ta_addr ta)
    = Some (upd s p (\<lambda>t. t\<lparr>t_buffer := c, t_data := base + ba_offset (ta_addr ta), t_extra := x t\<rparr>))"
proof -
  obtain chunks b where v: "vb_deref st (ga_buffers g ! nat (ta_buffer_id ta)) = Some chunks"
      "nat (ba_chunk (ta_addr ta)) < length chunks" "c = chunks ! nat (ba_chunk (ta_addr ta))" "c \<noteq> 0"
    and b: "bb_deref st c = Some b" "good_buffer (ga_bufts g ! nat (ta_buffer_id ta)) b" "bb_get_base b = Some base" "0 < base"
      "ba_offset (ta_addr ta) + ta_size_max ta \<le> bb_size b" "base + bb_size b \<le> SIZE_MAX"
    and ch: "0 \<le> ba_chunk (ta_addr ta)"
    using assms(1) by (auto simp: slot_def)
  have sum: "sz_add base (ba_offset (ta_addr ta)) = base + ba_offset (ta_addr ta)"
    using b(5,6) by (intro sz_add_id) simp
  have sum2: "sz_add (base + ba_offset (ta_addr ta)) (ta_size_max ta) = base + ba_offset (ta_addr ta) + ta_size_max ta"
    "sz_add base (bb_size b) = base + bb_size b"
    using b(5,6) by (intro sz_add_id, simp)+
  have base: "ggml_backend_buffer_get_base st c = Some base"
    using b(1-5) v(4) assms(6) by (simp add: ggml_backend_buffer_get_base_def good_buffer_def)
  have t0: "bb_buft b = ga_bufts g ! nat (ta_buffer_id ta)" using b(2) by (simp add: good_buffer_def)
  obtain x where x: "ggml_backend_buffer_init_tensor st c (upd s p (\<lambda>t. t\<lparr>t_buffer := c, t_data := base + ba_offset (ta_addr ta)\<rparr>)) p
      = Some (upd s p (\<lambda>t. (t\<lparr>t_buffer := c, t_data := base + ba_offset (ta_addr ta)\<rparr>)\<lparr>t_extra := x t\<rparr>))"
    using init_harmless [OF b(1) good_harmless [OF b(2)] v(4)] by blast
  have "ggml_backend_tensor_alloc E st s c p (base + ba_offset (ta_addr ta))
      = Some (upd s p (\<lambda>t. (t\<lparr>t_buffer := c, t_data := base + ba_offset (ta_addr ta)\<rparr>)\<lparr>t_extra := x t\<rparr>))"
    using assms(2-5,7) base b(1,5) t0 sum2 x by (simp add: ggml_backend_tensor_alloc_def Let_def)
  then show ?thesis
    using v(1,2,3) ch base sum by (auto simp: ggml_vbuffer_tensor_alloc_def array_get_def)
qed

section \<open>The tensors of a graph\<close>

text \<open>
  Memory that others have placed tensors in: such a tensor has an address, and its buffer exists and
  does not belong to the allocator.
\<close>

definition others_ok :: "ggml_gallocr \<Rightarrow> backend_store \<Rightarrow> ggml_state \<Rightarrow> bool" where
  "others_ok g st s \<longleftrightarrow> (\<forall>p t. deref s p = Some t \<and> t_view_src t = 0 \<and> t_buffer t \<noteq> 0 \<longrightarrow>
     t_data t \<noteq> 0 \<and> not_ours g st (t_buffer t) \<and> (\<forall>b. bb_deref st (t_buffer t) = Some b \<longrightarrow> harmless b))"

text \<open>
  While tensors are placed: \<open>D\<close> are the tensors of the allocator that have been placed, by their
  entries \<open>ent\<close>, and \<open>V\<close> are views that have been placed; \<open>s0\<close> is the state at the beginning.
\<close>

definition view_placed :: "ggml_state \<Rightarrow> ggml_tensor \<Rightarrow> bool" where
  "view_placed s t \<longleftrightarrow> (\<exists>v. deref s (t_view_src t) = Some v \<and> t_buffer v \<noteq> 0
     \<and> t_buffer t = t_buffer v \<and> t_data t = sz_add (t_data v) (t_view_offs t))"

definition place_ok ::
  "backend_store \<Rightarrow> ggml_gallocr \<Rightarrow> (ptr \<Rightarrow> tensor_alloc) \<Rightarrow> ggml_state \<Rightarrow> ptr set \<Rightarrow> ptr set \<Rightarrow> ptr \<Rightarrow> ggml_tensor
   \<Rightarrow> ggml_state \<Rightarrow> ggml_tensor \<Rightarrow> bool" where
  "place_ok st g ent s0 D V p t0 s t \<longleftrightarrow>
     (own s0 p \<longrightarrow> (if p \<in> D then at_slot st g (ent p) t else t_buffer t = 0 \<and> t_data t = 0))
     \<and> (\<not> own s0 p \<and> (t_view_src t0 = 0 \<or> t_buffer t0 \<noteq> 0) \<longrightarrow> t_buffer t = t_buffer t0 \<and> t_data t = t_data t0)
     \<and> (t_view_src t0 \<noteq> 0 \<and> t_buffer t0 = 0 \<longrightarrow> (t_buffer t = 0 \<and> p \<notin> V) \<or> view_placed s t)"

definition place_inv ::
  "backend_store \<Rightarrow> ggml_gallocr \<Rightarrow> (ptr \<Rightarrow> tensor_alloc) \<Rightarrow> ggml_state \<Rightarrow> ptr set \<Rightarrow> ptr set \<Rightarrow> ggml_state \<Rightarrow> bool" where
  "place_inv st g ent s0 D V s \<longleftrightarrow> same_layout s0 s
     \<and> (\<forall>p t0 t. deref s0 p = Some t0 \<and> deref s p = Some t \<longrightarrow> place_ok st g ent s0 D V p t0 s t)"

lemma own_iff: "deref s p = Some t \<Longrightarrow> own s p \<longleftrightarrow> t_view_src t = 0 \<and> t_data t = 0 \<and> t_buffer t = 0"
  by (simp add: own_def)

lemma deref_upd_other: "q \<noteq> p \<Longrightarrow> deref (upd s p f) q = deref s q"
  by (simp add: deref_def upd_def)

lemma deref_upd_same: "deref (upd s p f) p = map_option f (deref s p)"
  by (cases "st_tensors s p") (simp_all add: deref_def upd_def)

lemma heap_ok_view_src:
  assumes "heap_ok T" "T q = Some u" "t_view_src u \<noteq> 0"
  shows "\<exists>w. T (t_view_src u) = Some w \<and> t_view_src w = 0"
proof -
  have "view_ok T u" using assms(1,2) by (auto simp: heap_ok_def)
  then show ?thesis using assms(3) by (simp add: view_ok_def)
qed

text \<open>Placing a tensor of the allocator.\<close>

lemma place_own:
  assumes "place_inv st g ent s0 D V s" "heap_ok (st_tensors s0)" "deref s0 p = Some t0" "own s0 p" "p \<notin> D"
    and "slot st g (ent p) c base"
    and "s' = upd s p (\<lambda>t. t\<lparr>t_buffer := c, t_data := base + ba_offset (ta_addr (ent p)), t_extra := x t\<rparr>)"
  shows "place_inv st g ent s0 (insert p D) V s'"
proof -
  have lay: "same_layout s0 s" and ok: "\<And>q u0 u. deref s0 q = Some u0 \<Longrightarrow> deref s q = Some u \<Longrightarrow> place_ok st g ent s0 D V q u0 s u"
    using assms(1) unfolding place_inv_def by blast+
  have vs: "t_view_src t0 = 0" using assms(3,4) by (simp add: own_iff)
  obtain t where t: "deref s p = Some t" using same_layoutD(1) [OF lay assms(3)] by blast
  have z: "t_buffer t = 0" using ok [OF assms(3) t] assms(4,5) by (simp add: place_ok_def)
  have "same_layout s0 s'"
    unfolding assms(7) by (rule same_layout_upd [OF lay]) (simp add: strip_def)
  moreover have "place_ok st g ent s0 (insert p D) V q u0 s' u" if q: "deref s0 q = Some u0" "deref s' q = Some u" for q u0 u
  proof (cases "q = p")
    case True
    then have "u = t\<lparr>t_buffer := c, t_data := base + ba_offset (ta_addr (ent p)), t_extra := x t\<rparr>"
      using q(2) t by (simp add: assms(7) deref_upd_same)
    moreover have "u0 = t0" using q(1) assms(3) True by simp
    ultimately show ?thesis using True assms(4,6) vs by (auto simp: place_ok_def at_slot_def)
  next
    case False
    then have u: "deref s q = Some u" using q(2) by (simp add: assms(7) deref_upd_other)
    have "view_placed s' u" if vp: "view_placed s u"
    proof -
      obtain v where v: "deref s (t_view_src u) = Some v" "t_buffer v \<noteq> 0"
          "t_buffer u = t_buffer v" "t_data u = sz_add (t_data v) (t_view_offs u)"
        using vp unfolding view_placed_def by blast
      then have "t_view_src u \<noteq> p" using t z by auto
      then show ?thesis using v by (auto simp: view_placed_def assms(7) deref_upd_other)
    qed
    then show ?thesis using ok [OF q(1) u] False by (auto simp: place_ok_def)
  qed
  ultimately show ?thesis unfolding place_inv_def by blast
qed

text \<open>Placing a view.\<close>

lemma place_view:
  assumes "place_inv st g ent s0 D V s" "heap_ok (st_tensors s0)" "deref s0 p = Some t0" "t_view_src t0 \<noteq> 0" "t_buffer t0 = 0"
    and "deref s (t_view_src t0) = Some v" "t_buffer v \<noteq> 0"
    and "s' = upd s p (\<lambda>t. t\<lparr>t_buffer := t_buffer v, t_data := sz_add (t_data v) (t_view_offs t), t_extra := x t\<rparr>)"
  shows "place_inv st g ent s0 (insert p D) (insert p V) s'"
proof -
  have lay: "same_layout s0 s" and ok: "\<And>q u0 u. deref s0 q = Some u0 \<Longrightarrow> deref s q = Some u \<Longrightarrow> place_ok st g ent s0 D V q u0 s u"
    using assms(1) unfolding place_inv_def by blast+
  have base: "\<exists>w. deref s0 (t_view_src u) = Some w \<and> t_view_src w = 0" if "deref s0 q = Some u" "t_view_src u \<noteq> 0" for q u
    using heap_ok_view_src [OF assms(2)] that by (simp add: deref_def)
  have ne: "t_view_src u \<noteq> p" if "deref s0 q = Some u" "t_view_src u \<noteq> 0" for q u
    using base [OF that] assms(3,4) by auto
  have nown: "\<not> own s0 p" using assms(3,4) by (simp add: own_iff)
  obtain t where t: "deref s p = Some t" "strip t = strip t0" using same_layoutD(1) [OF lay assms(3)] by blast
  have "same_layout s0 s'"
    unfolding assms(8) by (rule same_layout_upd [OF lay]) (simp add: strip_def)
  moreover have "place_ok st g ent s0 (insert p D) (insert p V) q u0 s' u" if q: "deref s0 q = Some u0" "deref s' q = Some u" for q u0 u
  proof (cases "q = p")
    case True
    then have u: "u = t\<lparr>t_buffer := t_buffer v, t_data := sz_add (t_data v) (t_view_offs t), t_extra := x t\<rparr>"
      using q(2) t by (simp add: assms(8) deref_upd_same)
    have "deref s' (t_view_src t) = Some v"
      using assms(6) ne [OF assms(3,4)] strip_D(5) [OF t(2)] by (simp add: assms(8) deref_upd_other)
    then have "view_placed s' u" using u assms(7) by (simp add: view_placed_def)
    then show ?thesis using True nown q(1) assms(3,4,5) by (simp add: place_ok_def)
  next
    case False
    then have u: "deref s q = Some u" using q(2) by (simp add: assms(8) deref_upd_other)
    have "strip u = strip u0" using same_layoutD(2) [OF lay u] q(1) by auto
    then have sv: "t_view_src u = t_view_src u0" by (rule strip_D(5))
    have "view_placed s' u" if "view_placed s u" "t_view_src u0 \<noteq> 0"
    proof -
      have "deref s' (t_view_src u) = deref s (t_view_src u)"
        using ne [OF q(1) that(2)] sv by (simp add: assms(8) deref_upd_other)
      then show ?thesis using that(1) by (simp add: view_placed_def)
    qed
    then show ?thesis using ok [OF q(1) u] False by (auto simp: place_ok_def)
  qed
  ultimately show ?thesis unfolding place_inv_def by blast
qed

text \<open>What the proof needs to know of the tensor \<open>p\<close> and its entry.\<close>

definition entry_fits ::
  "backend_env \<Rightarrow> backend_store \<Rightarrow> ggml_gallocr \<Rightarrow> (ptr \<Rightarrow> tensor_alloc) \<Rightarrow> ggml_state \<Rightarrow> ptr \<Rightarrow> tensor_alloc \<Rightarrow> bool" where
  "entry_fits E st g ent s p ta \<longleftrightarrow> own s p \<longrightarrow> ta = ent p \<and> 0 < ta_size_max ta \<and> (\<exists>c base. slot st g ta c base)
     \<and> ggml_backend_buft_get_alloc_size (be_bufts E) s (ga_bufts g ! nat (ta_buffer_id ta)) p = Some (ta_size_max ta)"

lemma place_ok_own:
  assumes "place_ok st g ent s0 D V p t0 s t" "own s0 p" "p \<in> D"
  shows "at_slot st g (ent p) t" "t_buffer t \<noteq> 0" "t_data t \<noteq> 0"
  using assms at_slot_nonzero [of st g "ent p" t] by (simp_all add: place_ok_def)

lemma place_ok_new:
  assumes "place_ok st g ent s0 D V p t0 s t" "own s0 p" "p \<notin> D"
  shows "t_buffer t = 0" "t_data t = 0"
  using assms by (simp_all add: place_ok_def)

lemma place_inv_mono:
  assumes "place_inv st g ent s0 D V s" "\<not> own s0 p \<or> p \<in> D"
  shows "place_inv st g ent s0 (insert p D) V s"
proof -
  have "place_ok st g ent s0 (insert p D) V q u0 s u = place_ok st g ent s0 D V q u0 s u" for q u0 u
    using assms(2) by (auto simp: place_ok_def)
  then show ?thesis using assms(1) by (simp add: place_inv_def)
qed

lemma place_inv_view:
  assumes "place_inv st g ent s0 D V s" "deref s0 p = Some t0" "deref s p = Some t" "t_buffer t \<noteq> 0"
  shows "place_inv st g ent s0 D (insert p V) s"
proof -
  have "place_ok st g ent s0 D (insert p V) q u0 s u" if "deref s0 q = Some u0" "deref s q = Some u" for q u0 u
  proof -
    have "place_ok st g ent s0 D V q u0 s u" using assms(1) that unfolding place_inv_def by blast
    then show ?thesis using that(2) assms(3,4) by (cases "q = p") (simp_all add: place_ok_def)
  qed
  then show ?thesis using assms(1) by (simp add: place_inv_def)
qed

text \<open>
  One call of \<^verbatim>\<open>ggml_gallocr_init_tensor\<close>: it succeeds; a tensor of the allocator is placed
  afterwards, and so is a view whose base has been placed.
\<close>

lemma init_tensor_step:
  assumes "place_inv st g ent s0 D V s" "heap_ok (st_tensors s0)" "others_ok g st s0" "sizes_stable (be_bufts E)"
    and "deref s0 p = Some t0" "entry_fits E st g ent s0 p ta"
  obtains s' D' V' where "ggml_gallocr_init_tensor E st g p ta s = Some s'" "place_inv st g ent s0 D' V' s'"
    "insert p D \<subseteq> D'" "V \<subseteq> V'"
    "t_view_src t0 \<noteq> 0 \<Longrightarrow> t_buffer t0 = 0 \<Longrightarrow> own s0 (t_view_src t0) \<Longrightarrow> t_view_src t0 \<in> D \<Longrightarrow> p \<in> V'"
proof -
  have lay: "same_layout s0 s" and ok: "\<And>q u0 u. deref s0 q = Some u0 \<Longrightarrow> deref s q = Some u \<Longrightarrow> place_ok st g ent s0 D V q u0 s u"
    using assms(1) unfolding place_inv_def by blast+
  obtain t where t: "deref s p = Some t" "strip t = strip t0" using same_layoutD(1) [OF lay assms(5)] by blast
  have vs: "t_view_src t = t_view_src t0" using strip_D(5) [OF t(2)] .
  have pok: "place_ok st g ent s0 D V p t0 s t" using ok [OF assms(5) t(1)] .
  show thesis
  proof (cases "t_view_src t0 = 0")
    case False
    then have nown: "\<not> own s0 p" using assms(5) by (simp add: own_iff)
    obtain v0 where v0: "deref s0 (t_view_src t0) = Some v0" "t_view_src v0 = 0"
      using heap_ok_view_src [OF assms(2), of p t0] assms(5) False by (auto simp: deref_def)
    obtain v where v: "deref s (t_view_src t0) = Some v" "strip v = strip v0" using same_layoutD(1) [OF lay v0(1)] by blast
    have vok: "place_ok st g ent s0 D V (t_view_src t0) v0 s v" using ok [OF v0(1) v(1)] .
    show thesis
    proof (cases "t_buffer t = 0")
      case True
      show thesis
      proof (cases "t_buffer v = 0")
        case True
        have "\<not> (own s0 (t_view_src t0) \<and> t_view_src t0 \<in> D)"
          using place_ok_own(2) [OF vok] True by blast
        moreover have "ggml_gallocr_init_tensor E st g p ta s = Some s"
          using t(1) vs False \<open>t_buffer t = 0\<close> v(1) True by (simp add: ggml_gallocr_init_tensor_def)
        ultimately show thesis using that place_inv_mono [OF assms(1), of p] nown by blast
      next
        case nz: False
        have b: "t_data v \<noteq> 0 \<and> (\<exists>b. bb_deref st (t_buffer v) = Some b \<and> harmless b)"
        proof (cases "own s0 (t_view_src t0)")
          case True
          then have "at_slot st g (ent (t_view_src t0)) v"
            using place_ok_own(1) [OF vok] place_ok_new(1) [OF vok] nz by blast
          then show ?thesis using good_harmless by (auto simp: at_slot_def slot_def)
        next
          case False
          then have eq: "t_buffer v = t_buffer v0" "t_data v = t_data v0" using vok v0(2) by (simp_all add: place_ok_def)
          then have "t_data v0 \<noteq> 0 \<and> not_ours g st (t_buffer v0) \<and> (\<forall>b. bb_deref st (t_buffer v0) = Some b \<longrightarrow> harmless b)"
            using assms(3) v0 nz unfolding others_ok_def by metis
          then show ?thesis using eq by (auto simp: not_ours_def foreign_def)
        qed
        then obtain b where bd: "bb_deref st (t_buffer v) = Some b" "harmless b" by blast
        obtain x where x: "ggml_backend_buffer_init_tensor st (t_buffer v)
            (upd s p (\<lambda>t. t\<lparr>t_buffer := t_buffer v, t_data := sz_add (t_data v) (t_view_offs t)\<rparr>)) p
          = Some (upd s p (\<lambda>t. (t\<lparr>t_buffer := t_buffer v, t_data := sz_add (t_data v) (t_view_offs t)\<rparr>)\<lparr>t_extra := x t\<rparr>))"
          using init_harmless [OF bd nz] by blast
        have run: "ggml_gallocr_init_tensor E st g p ta s
          = Some (upd s p (\<lambda>t. t\<lparr>t_buffer := t_buffer v, t_data := sz_add (t_data v) (t_view_offs t), t_extra := x t\<rparr>))"
          using t(1) vs False \<open>t_buffer t = 0\<close> v(1) nz b x
          by (simp add: ggml_gallocr_init_tensor_def ggml_backend_view_init_def Let_def)
        have "t_buffer t0 = 0"
        proof (rule ccontr)
          assume "t_buffer t0 \<noteq> 0"
          then show False using pok \<open>t_buffer t = 0\<close> False nown by (simp add: place_ok_def)
        qed
        from place_view [OF assms(1,2,5) False this v(1) nz refl]
        show thesis using that [OF run] by blast
      qed
    next
      case nz: False
      have run: "ggml_gallocr_init_tensor E st g p ta s = Some s"
        using t(1) vs False nz by (simp add: ggml_gallocr_init_tensor_def)
      have "place_inv st g ent s0 (insert p D) (insert p V) s"
        using place_inv_view [OF place_inv_mono [OF assms(1)] assms(5) t(1) nz] nown by blast
      then show thesis using that [OF run] by blast
    qed
  next
    case base: True
    show thesis
    proof (cases "own s0 p \<and> p \<notin> D")
      case True
      then have z: "t_buffer t = 0" "t_data t = 0" using place_ok_new [OF pok] by blast+
      obtain c b where s: "ta = ent p" "0 < ta_size_max ta" "slot st g ta c b"
        and n: "ggml_backend_buft_get_alloc_size (be_bufts E) s0 (ga_bufts g ! nat (ta_buffer_id ta)) p = Some (ta_size_max ta)"
        using assms(6) True by (auto simp: entry_fits_def)
      have n': "ggml_backend_buft_get_alloc_size (be_bufts E) s (ga_bufts g ! nat (ta_buffer_id ta)) p = Some (ta_size_max ta)"
        using n alloc_size_stable [OF assms(4) lay] by simp
      obtain x where x: "ggml_vbuffer_tensor_alloc E st s (ga_buffers g ! nat (ta_buffer_id ta)) p (ta_addr ta)
          = Some (upd s p (\<lambda>t. t\<lparr>t_buffer := c, t_data := b + ba_offset (ta_addr ta), t_extra := x t\<rparr>))"
        using tensor_alloc_slot [OF s(3) t(1) z _ s(2) n'] vs base by auto
      have "0 \<le> ta_buffer_id ta" "nat (ta_buffer_id ta) < length (ga_buffers g)" using s(3) by (simp_all add: slot_def)
      then have run: "ggml_gallocr_init_tensor E st g p ta s
          = Some (upd s p (\<lambda>t. t\<lparr>t_buffer := c, t_data := b + ba_offset (ta_addr ta), t_extra := x t\<rparr>))"
        using t(1) vs base z x by (simp add: ggml_gallocr_init_tensor_def array_get_def)
      have "slot st g (ent p) c b" using s(1,3) by simp
      from place_own [OF assms(1,2,5) _ _ this, of _ x] True s(1)
      show thesis using that [OF run] base by blast
    next
      case False
      have "t_data t \<noteq> 0"
      proof (cases "own s0 p")
        case True
        then show ?thesis using place_ok_own(3) [OF pok] False by blast
      next
        case nown: False
        have "t_data t0 \<noteq> 0" using nown assms(3,5) base by (auto simp: own_iff others_ok_def)
        then show ?thesis using pok base nown by (simp add: place_ok_def)
      qed
      then have run: "ggml_gallocr_init_tensor E st g p ta s = Some s"
        using t(1) vs base by (simp add: ggml_gallocr_init_tensor_def)
      show thesis using that [OF run place_inv_mono [OF assms(1)]] False base by blast
    qed
  qed
qed

section \<open>Placing a whole graph\<close>

lemma foldM_total:
  assumes "\<And>x s. x \<in> set xs \<Longrightarrow> P s \<Longrightarrow> \<exists>s'. f x s = Some s' \<and> P s'" "P s"
  shows "\<exists>s'. foldM f xs s = Some s' \<and> P s'"
  using assms
proof (induction xs arbitrary: s)
  case Nil
  then show ?case by simp
next
  case (Cons x xs)
  obtain s1 where "f x s = Some s1" "P s1" using Cons.prems(1) [of x s] Cons.prems(2) by auto
  then show ?case using Cons.IH [of s1] Cons.prems(1) by auto
qed

lemma foldM_upt_total:
  assumes "\<And>i s. i < n \<Longrightarrow> P i s \<Longrightarrow> \<exists>s'. f i s = Some s' \<and> P (Suc i) s'" "P 0 s"
  shows "\<exists>s'. foldM f [0..<n] s = Some s' \<and> P n s'"
  using assms
proof (induction n)
  case 0
  then show ?case by simp
next
  case (Suc n)
  then obtain s1 where "foldM f [0..<n] s = Some s1" "P n s1" by (metis less_SucI)
  moreover obtain s2 where "f n s1 = Some s2" "P (Suc n) s2" using Suc.prems(1) [of n s1] calculation(2) by blast
  ultimately show ?case by (auto simp: foldM_append)
qed

definition reach ::
  "backend_store \<Rightarrow> ggml_gallocr \<Rightarrow> (ptr \<Rightarrow> tensor_alloc) \<Rightarrow> ggml_state \<Rightarrow> ptr set \<Rightarrow> ptr set \<Rightarrow> ggml_state \<Rightarrow> bool" where
  "reach st g ent s0 D V s \<longleftrightarrow> (\<exists>D' V'. place_inv st g ent s0 D' V' s \<and> D \<subseteq> D' \<and> V \<subseteq> V')"

lemma reach_mono: "reach st g ent s0 D V s \<Longrightarrow> D' \<subseteq> D \<Longrightarrow> V' \<subseteq> V \<Longrightarrow> reach st g ent s0 D' V' s"
  unfolding reach_def by blast

lemma reach_step:
  assumes "reach st g ent s0 D V s" "heap_ok (st_tensors s0)" "others_ok g st s0" "sizes_stable (be_bufts E)"
    and "deref s0 p = Some t0" "entry_fits E st g ent s0 p ta"
  shows "\<exists>s'. ggml_gallocr_init_tensor E st g p ta s = Some s' \<and> reach st g ent s0 (insert p D) V s'
    \<and> (t_view_src t0 \<noteq> 0 \<and> t_buffer t0 = 0 \<and> own s0 (t_view_src t0) \<and> t_view_src t0 \<in> D \<longrightarrow> reach st g ent s0 (insert p D) (insert p V) s')"
proof -
  obtain D1 V1 where i: "place_inv st g ent s0 D1 V1 s" "D \<subseteq> D1" "V \<subseteq> V1" using assms(1) by (auto simp: reach_def)
  obtain s' D' V' where r: "ggml_gallocr_init_tensor E st g p ta s = Some s'" "place_inv st g ent s0 D' V' s'"
    "insert p D1 \<subseteq> D'" "V1 \<subseteq> V'"
    and v: "t_view_src t0 \<noteq> 0 \<Longrightarrow> t_buffer t0 = 0 \<Longrightarrow> own s0 (t_view_src t0) \<Longrightarrow> t_view_src t0 \<in> D1 \<Longrightarrow> p \<in> V'"
    using init_tensor_step [OF i(1) assms(2-6)] by blast
  have sub: "insert p D \<subseteq> D'" "V \<subseteq> V'" using r(3,4) i(2,3) by blast+
  then have "reach st g ent s0 (insert p D) V s'" using r(2) by (auto simp: reach_def)
  moreover have "reach st g ent s0 (insert p D) (insert p V) s'"
    if "t_view_src t0 \<noteq> 0 \<and> t_buffer t0 = 0 \<and> own s0 (t_view_src t0) \<and> t_view_src t0 \<in> D"
  proof -
    have "t_view_src t0 \<in> D1" using that i(2) by blast
    then have "p \<in> V'" using that by (intro v) simp_all
    then have "insert p V \<subseteq> V'" using sub(2) by blast
    then show ?thesis using sub(1) r(2) unfolding reach_def by blast
  qed
  ultimately show ?thesis using r(1) by blast
qed

text \<open>The views among the first \<open>m\<close> nodes whose base is a tensor of the allocator listed before them.\<close>

definition views_after :: "ggml_state \<Rightarrow> ptr list \<Rightarrow> ptr list \<Rightarrow> nat \<Rightarrow> ptr set" where
  "views_after s L N m = {p. \<exists>i < m. i < length N \<and> p = N ! i \<and> (\<exists>t. deref s p = Some t \<and> t_view_src t \<noteq> 0 \<and> t_buffer t = 0
     \<and> own s (t_view_src t) \<and> t_view_src t \<in> set L \<union> set (take i N))}"

definition node_fits ::
  "backend_env \<Rightarrow> backend_store \<Rightarrow> ggml_gallocr \<Rightarrow> (ptr \<Rightarrow> tensor_alloc) \<Rightarrow> ggml_state \<Rightarrow> ptr \<Rightarrow> node_alloc \<Rightarrow> bool" where
  "node_fits E st g ent s p na \<longleftrightarrow> entry_fits E st g ent s p (na_dst na) \<and> (\<exists>t. deref s p = Some t
     \<and> (\<forall>(src, ta) \<in> set (zip (t_src t) (na_src na)). src \<noteq> 0 \<longrightarrow> deref s src \<noteq> None \<and> entry_fits E st g ent s src ta))"

lemma init_node_reach:
  assumes "reach st g ent s0 D V s" "heap_ok (st_tensors s0)" "others_ok g st s0" "sizes_stable (be_bufts E)"
    and "i < length (cg_nodes graph)" "i < length (ga_node_allocs g)"
    and "node_fits E st g ent s0 (cg_nodes graph ! i) (ga_node_allocs g ! i)"
    and "D = set (cg_leafs graph) \<union> set (take i (cg_nodes graph))" "V = views_after s0 (cg_leafs graph) (cg_nodes graph) i"
  shows "\<exists>s'. init_node E st g graph i s = Some s' \<and> reach st g ent s0 (set (cg_leafs graph) \<union> set (take (Suc i) (cg_nodes graph)))
    (views_after s0 (cg_leafs graph) (cg_nodes graph) (Suc i)) s'"
proof -
  let ?n = "cg_nodes graph ! i" and ?na = "ga_node_allocs g ! i"
  obtain t0 where t0: "deref s0 ?n = Some t0" and dst: "entry_fits E st g ent s0 ?n (na_dst ?na)"
    and src: "\<And>q ta. (q, ta) \<in> set (zip (t_src t0) (na_src ?na)) \<Longrightarrow> q \<noteq> 0 \<Longrightarrow> deref s0 q \<noteq> None \<and> entry_fits E st g ent s0 q ta"
    using assms(7) unfolding node_fits_def by blast
  obtain t where t: "deref s ?n = Some t" "strip t = strip t0"
    using assms(1) t0 same_layoutD(1) [of s0 s ?n t0] by (auto simp: reach_def place_inv_def)
  have st: "t_src t = t_src t0" using strip_D(4) [OF t(2)] .
  let ?f = "\<lambda>(src, ta) s. if src = 0 then Some s else ggml_gallocr_init_tensor E st g src ta s"
  have "\<exists>s'. foldM ?f (zip (t_src t0) (na_src ?na)) s = Some s' \<and> reach st g ent s0 D V s'"
  proof (rule foldM_total)
    fix x s1 assume x: "x \<in> set (zip (t_src t0) (na_src ?na))" and r: "reach st g ent s0 D V s1"
    obtain q ta where q: "x = (q, ta)" by (cases x)
    show "\<exists>s'. ?f x s1 = Some s' \<and> reach st g ent s0 D V s'"
    proof (cases "q = 0")
      case True
      then show ?thesis using r q by simp
    next
      case False
      then obtain tq where tq: "deref s0 q = Some tq" "entry_fits E st g ent s0 q ta" using src x q by blast
      obtain s' where "ggml_gallocr_init_tensor E st g q ta s1 = Some s'" "reach st g ent s0 (insert q D) V s'"
        using reach_step [OF r assms(2-4) tq] by blast
      then show ?thesis using False q reach_mono [of st g ent s0 "insert q D" V s' D V] by auto
    qed
  qed (rule assms(1))
  then obtain s1 where s1: "foldM ?f (zip (t_src t0) (na_src ?na)) s = Some s1" "reach st g ent s0 D V s1" by blast
  obtain s2 where s2: "ggml_gallocr_init_tensor E st g ?n (na_dst ?na) s1 = Some s2" "reach st g ent s0 (insert ?n D) V s2"
    and v: "t_view_src t0 \<noteq> 0 \<and> t_buffer t0 = 0 \<and> own s0 (t_view_src t0) \<and> t_view_src t0 \<in> D
      \<Longrightarrow> reach st g ent s0 (insert ?n D) (insert ?n V) s2"
    using reach_step [OF s1(2) assms(2-4) t0 dst] by blast
  have run: "init_node E st g graph i s = Some s2"
    using assms(6) t(1) s1(1) s2(1) by (simp add: init_node_def array_get_def st)
  have D: "insert ?n D = set (cg_leafs graph) \<union> set (take (Suc i) (cg_nodes graph))"
    using assms(5,8) by (simp add: take_Suc_conv_app_nth)
  have V: "views_after s0 (cg_leafs graph) (cg_nodes graph) (Suc i)
      \<subseteq> (if t_view_src t0 \<noteq> 0 \<and> t_buffer t0 = 0 \<and> own s0 (t_view_src t0) \<and> t_view_src t0 \<in> D then insert ?n V else V)"
    using t0 assms(8,9) by (auto simp: views_after_def less_Suc_eq)
  have "reach st g ent s0 (insert ?n D) (views_after s0 (cg_leafs graph) (cg_nodes graph) (Suc i)) s2"
  proof (cases "t_view_src t0 \<noteq> 0 \<and> t_buffer t0 = 0 \<and> own s0 (t_view_src t0) \<and> t_view_src t0 \<in> D")
    case True
    then show ?thesis using reach_mono [OF v [OF True] order_refl] V by simp
  next
    case False
    then show ?thesis using reach_mono [OF s2(2) order_refl] V by auto
  qed
  then show ?thesis using run D by auto
qed

lemma place_reach:
  assumes "heap_ok (st_tensors s)" "others_ok g st s" "sizes_stable (be_bufts E)"
    and "\<And>i. i < length (cg_leafs graph) \<Longrightarrow> i < length (ga_leaf_allocs g) \<and> deref s (cg_leafs graph ! i) \<noteq> None
      \<and> entry_fits E st g ent s (cg_leafs graph ! i) (la_leaf (ga_leaf_allocs g ! i))"
    and "\<And>i. i < length (cg_nodes graph) \<Longrightarrow> i < length (ga_node_allocs g)
      \<and> node_fits E st g ent s (cg_nodes graph ! i) (ga_node_allocs g ! i)"
  shows "\<exists>s'. gallocr_place E st g graph s = Some s' \<and> reach st g ent s (set (cg_leafs graph) \<union> set (cg_nodes graph))
    (views_after s (cg_leafs graph) (cg_nodes graph) (length (cg_nodes graph))) s'"
proof -
  let ?L = "cg_leafs graph" and ?N = "cg_nodes graph"
  have "place_inv st g ent s {} {} s" by (auto simp: place_inv_def place_ok_def own_def)
  then have "reach st g ent s (set (take 0 ?L)) {} s" by (auto simp: reach_def)
  moreover have "\<exists>s2. init_leaf E st g graph i s1 = Some s2 \<and> reach st g ent s (set (take (Suc i) ?L)) {} s2"
    if i: "i < length ?L" and r: "reach st g ent s (set (take i ?L)) {} s1" for i s1
  proof -
    obtain t where "deref s (?L ! i) = Some t" "entry_fits E st g ent s (?L ! i) (la_leaf (ga_leaf_allocs g ! i))"
      using assms(4) [OF i] by blast
    from reach_step [OF r assms(1-3) this]
    show ?thesis using assms(4) [OF i] i by (auto simp: init_leaf_def array_get_def take_Suc_conv_app_nth)
  qed
  ultimately obtain s1 where s1: "foldM (init_leaf E st g graph) [0..<length ?L] s = Some s1" "reach st g ent s (set (take (length ?L) ?L)) {} s1"
    using foldM_upt_total [of "length ?L" "\<lambda>i. reach st g ent s (set (take i ?L)) {}"] by blast
  have "reach st g ent s (set ?L \<union> set (take 0 ?N)) (views_after s ?L ?N 0) s1" using s1(2) by (simp add: views_after_def)
  moreover have "\<exists>s3. init_node E st g graph i s2 = Some s3 \<and> reach st g ent s (set ?L \<union> set (take (Suc i) ?N)) (views_after s ?L ?N (Suc i)) s3"
    if "i < length ?N" "reach st g ent s (set ?L \<union> set (take i ?N)) (views_after s ?L ?N i) s2" for i s2
    using init_node_reach [OF that(2) assms(1-3) that(1) _ _ refl refl] assms(5) [OF that(1)] by blast
  ultimately obtain s2 where "foldM (init_node E st g graph) [0..<length ?N] s1 = Some s2"
      "reach st g ent s (set ?L \<union> set (take (length ?N) ?N)) (views_after s ?L ?N (length ?N)) s2"
    using foldM_upt_total [of "length ?N" "\<lambda>i. reach st g ent s (set ?L \<union> set (take i ?N)) (views_after s ?L ?N i)"] by blast
  then show ?thesis using s1(1) by (simp add: gallocr_place_def)
qed

section \<open>Reserving and allocating\<close>

text \<open>
  The situation in which an application reserves memory for a graph. The backend hands out fresh
  buffers that are large enough (\<open>backend_ok\<close>), its sizes do not depend on where tensors lie
  (\<open>sizes_stable\<close>), and padded sizes stay below half the address space (\<open>sizes_ok\<close>). The allocator is in
  a consistent state (\<open>galloc_store_ok\<close>, \<open>gallocr_valid\<close>). Tensors with memory of others lie in buffers that
  exist and are not the allocator's (\<open>others_ok\<close>). The descriptors are well formed and acyclic
  (\<open>heap_ok\<close>). The graph has a node and no empty tensors, its nodes are in evaluation order, every view
  that is read is a node with an operation, and no node is flagged as an input (\<open>plan_graph\<close>).
\<close>

definition no_empty_tensor :: "backends \<Rightarrow> ggml_state \<Rightarrow> ggml_cgraph \<Rightarrow> bool" where
  "no_empty_tensor B s graph \<longleftrightarrow> (\<forall>p \<in> set (cg_leafs graph) \<union> set (cg_nodes graph). \<forall>buft.
     own s p \<longrightarrow> ggml_backend_buft_get_alloc_size B s buft p \<noteq> Some 0)"

definition alloc_setting :: "backend_env \<Rightarrow> ggml_state \<Rightarrow> backend_store \<Rightarrow> ggml_gallocr \<Rightarrow> ggml_cgraph \<Rightarrow> bool" where
  "alloc_setting E s st g graph \<longleftrightarrow> backend_ok E \<and> sizes_stable (be_bufts E) \<and> galloc_store_ok g st \<and> gallocr_valid g
     \<and> sizes_ok (be_bufts E) s g \<and> others_ok g st s \<and> heap_ok (st_tensors s)
     \<and> plan_graph s (cg_leafs graph) (cg_nodes graph) \<and> cg_nodes graph \<noteq> [] \<and> no_empty_tensor (be_bufts E) s graph"

text \<open>The entry of a tensor as the records of the plan determine it.\<close>

definition ent_of :: "backends \<Rightarrow> ggml_state \<Rightarrow> ggml_gallocr \<Rightarrow> ptr \<Rightarrow> tensor_alloc" where
  "ent_of B s g p = \<lparr>ta_buffer_id = hn_buffer_id (hn_of g p), ta_addr = hn_addr (hn_of g p),
     ta_size_max = the (alloc_size_in B s g (hn_buffer_id (hn_of g p)) p)\<rparr>"

lemma records_ent:
  assumes "records B s g p ta" "own s p"
  shows "ta = ent_of B s g p"
  using records_cells(2-4) [OF assms] by (simp add: ent_of_def)

lemma buffers_upd_core:
  assumes "g' = g\<lparr>ga_buffers := bs\<rparr>"
  shows "ga_tallocs g' = ga_tallocs g" "ga_bufts g' = ga_bufts g" "ga_buf_tallocs g' = ga_buf_tallocs g"
    "ga_node_allocs g' = ga_node_allocs g" "ga_leaf_allocs g' = ga_leaf_allocs g" "ga_n_nodes g' = ga_n_nodes g"
    "ga_n_leafs g' = ga_n_leafs g" "talloc_at g' = talloc_at g" "alloc_size_in B s g' = alloc_size_in B s g"
    "ta_cells g' ta = ta_cells g ta" "plan_entry g' graph p ta = plan_entry g graph p ta"
  using assms by (simp_all add: talloc_at_def talloc_index_def alloc_size_in_def buft_at_def ta_cells_def plan_entry_def fun_eq_iff)

text \<open>What a successful reservation gives, for the proofs below: \<open>g2\<close> is the allocator after planning.\<close>

lemma reserved_graph:
  assumes "alloc_setting E s st g graph" "ggml_gallocr_reserve_n E s st g graph nids lids = Some (True, g', st')"
  obtains g2 where "plan_inv (be_bufts E) s (cg_leafs graph) (cg_nodes graph) (length (cg_nodes graph)) g2"
    "talloc_at g' = talloc_at g2" "\<And>ta. ta_cells g' ta = ta_cells g2 ta"
    "\<And>b p. alloc_size_in (be_bufts E) s g' b p = alloc_size_in (be_bufts E) s g2 b p"
    "\<And>m. m < length (cg_nodes graph) \<Longrightarrow> m < length (ga_node_allocs g') \<and> node_recorded (be_bufts E) s g2 (cg_nodes graph ! m) (ga_node_allocs g' ! m)"
    "\<And>m. m < length (cg_leafs graph) \<Longrightarrow> m < length (ga_leaf_allocs g') \<and> records (be_bufts E) s g2 (cg_leafs graph ! m) (la_leaf (ga_leaf_allocs g' ! m))"
    "ga_n_nodes g' = GGML_Graph.n_nodes graph" "ga_n_leafs g' = GGML_Graph.n_leafs graph"
    "galloc_store_ok g' st'" "others_ok g' st' s"
    "\<And>i. i < n_buffers g' \<Longrightarrow> ga_buffers g' ! i = ga_buffers g' ! home_of g' i"
    "\<And>p ta. p \<in> set (cg_leafs graph) \<union> set (cg_nodes graph) \<Longrightarrow> records (be_bufts E) s g2 p ta
       \<Longrightarrow> entry_fits E st' g' (ent_of (be_bufts E) s g2) s p ta"
proof -
  let ?B = "be_bufts E" and ?L = "cg_leafs graph" and ?N = "cg_nodes graph"
  have h: "backend_ok E" "galloc_store_ok g st" "gallocr_valid g" "sizes_ok ?B s g" "heap_ok (st_tensors s)"
      "plan_graph s ?L ?N" "?N \<noteq> []" and oth: "others_ok g st s" and ne: "no_empty_tensor ?B s graph"
    using assms(1) by (simp_all add: alloc_setting_def)
  obtain g1 where p: "gallocr_make_plan ?B s g graph nids lids = Some g1" and g': "g' = g1\<lparr>ga_buffers := ga_buffers g'\<rparr>"
    and ok: "galloc_store_ok g' st'"
    and ready: "\<And>i. i < n_buffers g' \<Longrightarrow> buf_ready st' (ga_bufts g' ! i) (talloc_of g' i) (ga_buffers g' ! i)"
    and al: "\<And>i. i < n_buffers g' \<Longrightarrow> ga_buffers g' ! i = ga_buffers g' ! home_of g' i"
    and far: "\<And>q. not_ours g st q \<Longrightarrow> not_ours g' st' q \<and> bb_deref st' q = bb_deref st q"
    by (rule reserve_n_ready [OF h(1,2,3,5,6,4,7) assms(2)]) blast
  obtain g2 where pl: "plan_inv ?B s ?L ?N (length ?N) g2" and c: "same_core g2 g1"
    and nr: "\<And>m. m < length ?N \<Longrightarrow> m < length (ga_node_allocs g1) \<and> node_recorded ?B s g2 (?N ! m) (ga_node_allocs g1 ! m)"
    and lr: "\<And>m. m < length ?L \<Longrightarrow> m < length (ga_leaf_allocs g1) \<and> records ?B s g2 (?L ! m) (la_leaf (ga_leaf_allocs g1 ! m))"
    and n: "ga_n_nodes g1 = GGML_Graph.n_nodes graph" "ga_n_leafs g1 = GGML_Graph.n_leafs graph" and v: "gallocr_valid g1"
    using make_plan_correct [OF h(5,6,3,4,7) p] by metis
  note u = buffers_upd_core [OF g']
  have ta: "talloc_at g' = talloc_at g2" using u(8) same_core_D(1) [OF c] by simp
  have asz: "alloc_size_in ?B s g' b q = alloc_size_in ?B s g2 b q" for b q
    using u(9) [of ?B s] same_core_D(2) [OF c] by simp
  have oth': "others_ok g' st' s"
    unfolding others_ok_def
  proof (intro allI impI)
    fix q t assume q: "deref s q = Some t \<and> t_view_src t = 0 \<and> t_buffer t \<noteq> 0"
    then have "t_data t \<noteq> 0 \<and> not_ours g st (t_buffer t) \<and> (\<forall>b. bb_deref st (t_buffer t) = Some b \<longrightarrow> harmless b)"
      using oth unfolding others_ok_def by blast
    then show "t_data t \<noteq> 0 \<and> not_ours g' st' (t_buffer t) \<and> (\<forall>b. bb_deref st' (t_buffer t) = Some b \<longrightarrow> harmless b)"
      using far by simp
  qed
  have fits: "entry_fits E st' g' (ent_of ?B s g2) s q ta" if q: "q \<in> set ?L \<union> set ?N" "records ?B s g2 q ta" for q ta
    unfolding entry_fits_def
  proof (intro impI)
    assume ow: "own s q"
    obtain k a where b: "talloc_at g2 (ta_buffer_id ta) = Some (k, a)" "alloc_size_in ?B s g2 (ta_buffer_id ta) q = Some (ta_size_max ta)"
        "0 \<le> ba_chunk (ta_addr ta)" "nat (ba_chunk (ta_addr ta)) < length (dt_chunks a)"
        "ba_offset (ta_addr ta) + ta_size_max ta \<le> ggml_dyn_tallocr_max_size a (nat (ba_chunk (ta_addr ta)))"
      using entry_in_bounds [OF pl q(1) ow q(2)] by blast
    let ?i = "nat (ta_buffer_id ta)"
    have i: "0 \<le> ta_buffer_id ta" "?i < length (ga_buf_tallocs g')" "a = talloc_of g' ?i" "a \<in> set (ga_tallocs g')"
    proof -
      have "talloc_at g' (ta_buffer_id ta) = Some (k, a)" using b(1) ta by simp
      then show "0 \<le> ta_buffer_id ta" "?i < length (ga_buf_tallocs g')" "a = talloc_of g' ?i" "a \<in> set (ga_tallocs g')"
        by (auto simp: talloc_at_Some talloc_index_def array_get_def split: if_splits)
    qed
    have len: "length (ga_buf_tallocs g') = n_buffers g'" "length (ga_buffers g') = n_buffers g'"
      using ok by (simp_all add: galloc_store_ok_def ga_config_def)
    have few: "length (dt_chunks a) \<le> GGML_VBUFFER_MAX_CHUNKS"
      using v i(4) u(1) by (simp add: gallocr_valid_def dyn_inv_def)
    have sz: "ggml_backend_buft_get_alloc_size ?B s (ga_bufts g' ! ?i) q = Some (ta_size_max ta)"
    proof -
      have "alloc_size_in ?B s g' (ta_buffer_id ta) q = Some (ta_size_max ta)" using b(2) asz by simp
      then show ?thesis using i(1) by (auto simp: alloc_size_in_def buft_at_def array_get_def split: if_splits)
    qed
    then have pos: "0 < ta_size_max ta" using ne q(1) ow unfolding no_empty_tensor_def by (metis gr0I)
    have "\<exists>c base. slot st' g' ta c base"
      using slot_from_ready [of st' g' ?i a ta] ready [of ?i] i len b(3,4,5) few pos by simp
    then show "ta = ent_of ?B s g2 q \<and> 0 < ta_size_max ta \<and> (\<exists>c base. slot st' g' ta c base)
        \<and> ggml_backend_buft_get_alloc_size ?B s (ga_bufts g' ! ?i) q = Some (ta_size_max ta)"
      using records_ent [OF q(2) ow] pos sz by blast
  qed
  have cells: "ta_cells g' ta = ta_cells g2 ta" for ta using u(10) ta_cells_core [OF c] by simp
  have rn: "m < length (ga_node_allocs g') \<and> node_recorded ?B s g2 (?N ! m) (ga_node_allocs g' ! m)" if "m < length ?N" for m
    using nr [OF that] u(4) by simp
  have rl: "m < length (ga_leaf_allocs g') \<and> records ?B s g2 (?L ! m) (la_leaf (ga_leaf_allocs g' ! m))" if "m < length ?L" for m
    using lr [OF that] u(5) by simp
  have n': "ga_n_nodes g' = GGML_Graph.n_nodes graph" "ga_n_leafs g' = GGML_Graph.n_leafs graph" using n u(6,7) by simp_all
  show thesis by (rule that [OF pl ta cells asz rn rl n' ok oth' al fits])
qed

text \<open>After a reservation for the same graph nothing has to be reserved again.\<close>

lemma entry_still_fits:
  assumes "others_ok g' st' s" "records B s g2 p ta" "B = be_bufts E" "talloc_at g' (ta_buffer_id ta) \<noteq> None \<or> \<not> own s p"
    and "\<And>b. alloc_size_in B s g' b p = alloc_size_in B s g2 b p"
  shows "ggml_gallocr_node_needs_realloc E s g' p ta = Some True"
proof -
  obtain t where t: "deref s p = Some t" using assms(2) by (auto simp: records_def)
  show ?thesis
  proof (cases "own s p")
    case True
    have "0 \<le> ta_buffer_id ta" using assms(4) True by (auto simp: talloc_at_def talloc_index_def split: if_splits)
    moreover have "alloc_size_in B s g' (ta_buffer_id ta) p = Some (ta_size_max ta)"
      using records_cells(4) [OF assms(2) True] assms(5) by simp
    ultimately show ?thesis using t assms(3) by (simp add: ggml_gallocr_node_needs_realloc_def)
  next
    case False
    then have "\<not> (t_data t = 0 \<and> t_view_src t = 0)" using t assms(1) by (auto simp: own_iff others_ok_def)
    then show ?thesis using t by (auto simp: ggml_gallocr_node_needs_realloc_def)
  qed
qed

lemma srcs_still_fit:
  assumes "\<And>q ta. (q, ta) \<in> set xs \<Longrightarrow> q \<noteq> 0 \<Longrightarrow> ggml_gallocr_node_needs_realloc E s g q ta = Some True"
  shows "srcs_need_realloc E s g xs = Some False"
  using assms
proof (induction xs)
  case Nil
  then show ?case by simp
next
  case (Cons x xs)
  then have IH: "srcs_need_realloc E s g xs = Some False" by simp
  obtain q ta where x: "x = (q, ta)" by (cases x)
  show ?case using IH Cons.prems [of q ta] x by (cases "q = 0") simp_all
qed

lemma nodes_still_fit:
  assumes "\<And>n na. (n, na) \<in> set xs \<Longrightarrow> ggml_gallocr_node_needs_realloc E s g n (na_dst na) = Some True
      \<and> (\<exists>t. deref s n = Some t \<and> srcs_need_realloc E s g (zip (t_src t) (na_src na)) = Some False)"
  shows "nodes_need_realloc E s g xs = Some False"
  using assms
proof (induction xs)
  case Nil
  then show ?case by simp
next
  case (Cons x xs)
  then have IH: "nodes_need_realloc E s g xs = Some False" by simp
  obtain n na where x: "x = (n, na)" by (cases x)
  obtain t where "deref s n = Some t" "srcs_need_realloc E s g (zip (t_src t) (na_src na)) = Some False"
      "ggml_gallocr_node_needs_realloc E s g n (na_dst na) = Some True"
    using Cons.prems [of n na] x by auto
  then show ?case using IH x by simp
qed

lemma set_zip_nth: "(x, y) \<in> set (zip xs ys) \<longleftrightarrow> (\<exists>i < length xs. i < length ys \<and> x = xs ! i \<and> y = ys ! i)"
  by (auto simp: set_zip)

text \<open>The result of allocating a graph, from which the properties follow.\<close>

lemma alloc_graph_result:
  assumes "alloc_setting E s st g graph" "ggml_gallocr_reserve_n E s st g graph nids lids = Some (True, g', st')"
  obtains s' g2 D V where "ggml_gallocr_alloc_graph E s st' g' graph = Some (True, s', g', st')"
    "plan_inv (be_bufts E) s (cg_leafs graph) (cg_nodes graph) (length (cg_nodes graph)) g2"
    "talloc_at g' = talloc_at g2" "\<And>ta. ta_cells g' ta = ta_cells g2 ta" "galloc_store_ok g' st'"
    "\<And>i. i < n_buffers g' \<Longrightarrow> ga_buffers g' ! i = ga_buffers g' ! home_of g' i"
    "\<And>p ta. plan_entry g' graph p ta \<Longrightarrow> p \<in> set (cg_leafs graph) \<union> set (cg_nodes graph) \<and> records (be_bufts E) s g2 p ta
       \<and> entry_fits E st' g' (ent_of (be_bufts E) s g2) s p ta"
    "place_inv st' g' (ent_of (be_bufts E) s g2) s D V s'" "set (cg_leafs graph) \<union> set (cg_nodes graph) \<subseteq> D"
    "views_after s (cg_leafs graph) (cg_nodes graph) (length (cg_nodes graph)) \<subseteq> V"
proof -
  let ?B = "be_bufts E" and ?L = "cg_leafs graph" and ?N = "cg_nodes graph"
  obtain g2 where pl: "plan_inv ?B s ?L ?N (length ?N) g2" and ta: "talloc_at g' = talloc_at g2"
    and cells: "\<And>ta. ta_cells g' ta = ta_cells g2 ta"
    and asz: "\<And>b p. alloc_size_in ?B s g' b p = alloc_size_in ?B s g2 b p"
    and nr: "\<And>m. m < length ?N \<Longrightarrow> m < length (ga_node_allocs g') \<and> node_recorded ?B s g2 (?N ! m) (ga_node_allocs g' ! m)"
    and lr: "\<And>m. m < length ?L \<Longrightarrow> m < length (ga_leaf_allocs g') \<and> records ?B s g2 (?L ! m) (la_leaf (ga_leaf_allocs g' ! m))"
    and n: "ga_n_nodes g' = GGML_Graph.n_nodes graph" "ga_n_leafs g' = GGML_Graph.n_leafs graph"
    and ok: "galloc_store_ok g' st'" and oth: "others_ok g' st' s"
    and al: "\<And>i. i < n_buffers g' \<Longrightarrow> ga_buffers g' ! i = ga_buffers g' ! home_of g' i"
    and fits: "\<And>p ta. p \<in> set ?L \<union> set ?N \<Longrightarrow> records ?B s g2 p ta \<Longrightarrow> entry_fits E st' g' (ent_of ?B s g2) s p ta"
    by (rule reserved_graph [OF assms]) blast
  have hp: "heap_ok (st_tensors s)" and pg: "plan_graph s ?L ?N" and ss: "sizes_stable ?B"
    using assms(1) by (simp_all add: alloc_setting_def)
  have srcs: "t_src t ! j \<in> set ?L \<union> set ?N \<and> records ?B s g2 (t_src t ! j) (na_src (ga_node_allocs g' ! m) ! j)"
    if m: "m < length ?N" "deref s (?N ! m) = Some t" "j < length (t_src t)" "t_src t ! j \<noteq> 0" for m t j
  proof -
    have "set (srcs (st_tensors s) (?N ! m)) \<subseteq> set ?L \<union> set (take m ?N)" using pg m(1) by (simp add: plan_graph_defs)
    moreover have "t_src t ! j \<in> set (srcs (st_tensors s) (?N ! m))"
      using m(2-4) by (auto simp: srcs_def deref_def)
    ultimately have "t_src t ! j \<in> set ?L \<union> set ?N" using set_take_subset by fast
    then show ?thesis using nr [OF m(1)] m(2-4) by (auto simp: node_recorded_def)
  qed
  have placed: "talloc_at g' (ta_buffer_id ta) \<noteq> None \<or> \<not> own s p" if p: "p \<in> set ?L \<union> set ?N" "records ?B s g2 p ta" for p ta
    using entry_in_bounds [OF pl p(1) _ p(2)] ta by fastforce
  have still: "ggml_gallocr_node_needs_realloc E s g' p ta = Some True" if p: "p \<in> set ?L \<union> set ?N" "records ?B s g2 p ta" for p ta
    using entry_still_fits [OF oth p(2) refl placed [OF p] asz] .
  have nodes: "nodes_need_realloc E s g' (zip ?N (ga_node_allocs g')) = Some False"
  proof (rule nodes_still_fit)
    fix x na assume "(x, na) \<in> set (zip ?N (ga_node_allocs g'))"
    then obtain m where m: "m < length ?N" "x = ?N ! m" "na = ga_node_allocs g' ! m" by (auto simp: set_zip_nth)
    then obtain t where t: "deref s x = Some t" and r: "records ?B s g2 x (na_dst na)"
      using nr [OF m(1)] by (auto simp: node_recorded_def)
    have "srcs_need_realloc E s g' (zip (t_src t) (na_src na)) = Some False"
    proof (rule srcs_still_fit)
      fix q ta assume "(q, ta) \<in> set (zip (t_src t) (na_src na))" "q \<noteq> 0"
      then obtain j where "j < length (t_src t)" "q = t_src t ! j" "ta = na_src na ! j" by (auto simp: set_zip_nth)
      then show "ggml_gallocr_node_needs_realloc E s g' q ta = Some True"
        using still srcs [OF m(1), of t j] t m \<open>q \<noteq> 0\<close> by simp
    qed
    then show "ggml_gallocr_node_needs_realloc E s g' x (na_dst na) = Some True
      \<and> (\<exists>t. deref s x = Some t \<and> srcs_need_realloc E s g' (zip (t_src t) (na_src na)) = Some False)"
      using still [OF _ r] m t by auto
  qed
  have "\<exists>s'. gallocr_place E st' g' graph s = Some s' \<and> reach st' g' (ent_of ?B s g2) s (set ?L \<union> set ?N) (views_after s ?L ?N (length ?N)) s'"
  proof (rule place_reach [OF hp oth ss])
    fix i assume i: "i < length ?L"
    show "i < length (ga_leaf_allocs g') \<and> deref s (?L ! i) \<noteq> None
        \<and> entry_fits E st' g' (ent_of ?B s g2) s (?L ! i) (la_leaf (ga_leaf_allocs g' ! i))"
      using lr [OF i] fits [of "?L ! i"] i by (auto simp: records_def)
  next
    fix i assume i: "i < length ?N"
    obtain t where t: "deref s (?N ! i) = Some t" using nr [OF i] by (auto simp: node_recorded_def)
    have src: "deref s q \<noteq> None \<and> entry_fits E st' g' (ent_of ?B s g2) s q ta"
      if z: "(q, ta) \<in> set (zip (t_src t) (na_src (ga_node_allocs g' ! i)))" "q \<noteq> 0" for q ta
    proof -
      obtain j where j: "j < length (t_src t)" "q = t_src t ! j" "ta = na_src (ga_node_allocs g' ! i) ! j"
        using z(1) by (auto simp: set_zip_nth)
      then show ?thesis using srcs [OF i t j(1)] z(2) fits [of q ta] by (auto simp: records_def)
    qed
    have "entry_fits E st' g' (ent_of ?B s g2) s (?N ! i) (na_dst (ga_node_allocs g' ! i))"
      using nr [OF i] fits i by (simp add: node_recorded_def)
    then show "i < length (ga_node_allocs g') \<and> node_fits E st' g' (ent_of ?B s g2) s (?N ! i) (ga_node_allocs g' ! i)"
      using nr [OF i] t src by (auto simp: node_fits_def)
  qed
  then obtain s' D V where pl': "gallocr_place E st' g' graph s = Some s'" and pi: "place_inv st' g' (ent_of ?B s g2) s D V s'"
    and D: "set ?L \<union> set ?N \<subseteq> D" "views_after s ?L ?N (length ?N) \<subseteq> V"
    by (auto simp: reach_def)
  have run: "ggml_gallocr_alloc_graph E s st' g' graph = Some (True, s', g', st')"
    using n nodes pl' by (simp add: ggml_gallocr_alloc_graph_def ggml_gallocr_needs_realloc_def)
  have ent: "p \<in> set ?L \<union> set ?N \<and> records ?B s g2 p ta \<and> entry_fits E st' g' (ent_of ?B s g2) s p ta"
    if "plan_entry g' graph p ta" for p ta
    using that nr lr fits by (auto simp: plan_entry_def node_recorded_def)
  show thesis by (rule that [OF run pl ta cells ok al ent pi D])
qed

text \<open>
  C4: after a successful reservation, allocating the same graph succeeds without another
  reservation, under the conditions of \<open>alloc_setting\<close> (see there). Every tensor of the graph that had no
  memory starts at the address of its entry, in a backend buffer that contains its whole size; every
  view among the nodes that had no buffer, and whose base the allocator owns and the graph lists
  before it (\<open>views_after\<close>), is placed relative to its base; the memory that other tensors had stays as
  it was. Nothing is said of other views.
\<close>

theorem ggml_gallocr_alloc_graph_places:
  assumes "alloc_setting E s st g graph" "ggml_gallocr_reserve_n E s st g graph nids lids = Some (True, g', st')"
  shows "\<exists>s'. ggml_gallocr_alloc_graph E s st' g' graph = Some (True, s', g', st') \<and> same_layout s s'
    \<and> (\<forall>p ta t. own s p \<and> plan_entry g' graph p ta \<and> deref s' p = Some t \<longrightarrow> at_slot st' g' ta t)
    \<and> (\<forall>p t. p \<in> views_after s (cg_leafs graph) (cg_nodes graph) (length (cg_nodes graph)) \<and> deref s' p = Some t \<longrightarrow> view_placed s' t)
    \<and> (\<forall>p t t'. deref s p = Some t \<and> deref s' p = Some t' \<and> t_view_src t = 0 \<and> \<not> own s p
         \<longrightarrow> t_buffer t' = t_buffer t \<and> t_data t' = t_data t)"
proof -
  obtain s' g2 D V where run: "ggml_gallocr_alloc_graph E s st' g' graph = Some (True, s', g', st')"
    and ent: "\<And>p ta. plan_entry g' graph p ta \<Longrightarrow> p \<in> set (cg_leafs graph) \<union> set (cg_nodes graph)
        \<and> records (be_bufts E) s g2 p ta \<and> entry_fits E st' g' (ent_of (be_bufts E) s g2) s p ta"
    and pi: "place_inv st' g' (ent_of (be_bufts E) s g2) s D V s'" and D: "set (cg_leafs graph) \<union> set (cg_nodes graph) \<subseteq> D"
    and V: "views_after s (cg_leafs graph) (cg_nodes graph) (length (cg_nodes graph)) \<subseteq> V"
    by (rule alloc_graph_result [OF assms]) blast
  have lay: "same_layout s s'" using pi by (simp add: place_inv_def)
  have ok: "place_ok st' g' (ent_of (be_bufts E) s g2) s D V p t s' t'" if "deref s p = Some t" "deref s' p = Some t'" for p t t'
    using pi that unfolding place_inv_def by blast
  have "at_slot st' g' ta t" if p: "own s p" "plan_entry g' graph p ta" "deref s' p = Some t" for p ta t
  proof -
    obtain t0 where t0: "deref s p = Some t0" using p(1) by (auto simp: own_def)
    have "ta = ent_of (be_bufts E) s g2 p" "p \<in> D" using ent [OF p(2)] p(1) D by (auto simp: entry_fits_def)
    then show ?thesis using place_ok_own(1) [OF ok [OF t0 p(3)] p(1)] by simp
  qed
  moreover have "view_placed s' t" if p: "p \<in> views_after s (cg_leafs graph) (cg_nodes graph) (length (cg_nodes graph))" "deref s' p = Some t" for p t
  proof -
    obtain t0 where t0: "deref s p = Some t0" "t_view_src t0 \<noteq> 0" "t_buffer t0 = 0" using p(1) by (auto simp: views_after_def)
    have "p \<in> V" using V p(1) by blast
    then show ?thesis using ok [OF t0(1) p(2)] t0(2,3) by (simp add: place_ok_def)
  qed
  moreover have "t_buffer t' = t_buffer t \<and> t_data t' = t_data t"
    if "deref s p = Some t" "deref s' p = Some t'" "t_view_src t = 0" "\<not> own s p" for p t t'
    using ok [OF that(1,2)] that(3,4) by (simp add: place_ok_def)
  ultimately show ?thesis using run lay by blast
qed

section \<open>Live tensors do not overlap in memory\<close>

text \<open>The bytes of a placed tensor, of the size that its buffer's type asks for.\<close>

definition tensor_bytes :: "backend_env \<Rightarrow> backend_store \<Rightarrow> ggml_state \<Rightarrow> ptr \<Rightarrow> ggml_tensor \<Rightarrow> nat set" where
  "tensor_bytes E st s p t = (case bb_deref st (t_buffer t) of None \<Rightarrow> {}
     | Some b \<Rightarrow> (case ggml_backend_buft_get_alloc_size (be_bufts E) s (bb_buft b) p of None \<Rightarrow> {}
         | Some n \<Rightarrow> {t_data t ..< t_data t + n}))"

definition memory_apart :: "backend_env \<Rightarrow> backend_store \<Rightarrow> ggml_state \<Rightarrow> ptr \<Rightarrow> ggml_tensor \<Rightarrow> ptr \<Rightarrow> ggml_tensor \<Rightarrow> bool" where
  "memory_apart E st s p t q u \<longleftrightarrow> t_buffer t \<noteq> t_buffer u \<or> tensor_bytes E st s p t \<inter> tensor_bytes E st s q u = {}"

lemma slot_same_addr:
  assumes "slot st g ta c base" "slot st g ta' c' base'" "ta_buffer_id ta' = ta_buffer_id ta" "ta_addr ta' = ta_addr ta"
  shows "c' = c \<and> base' = base"
  using assms by (auto simp: slot_def)

lemma slot_bytes:
  assumes "slot st g ta c base" "t_buffer t = c" "t_data t = base + ba_offset (ta_addr ta)"
    and "ggml_backend_buft_get_alloc_size (be_bufts E) s (ga_bufts g ! nat (ta_buffer_id ta)) p = Some (ta_size_max ta)"
  shows "tensor_bytes E st s p t = {base + ba_offset (ta_addr ta) ..< base + ba_offset (ta_addr ta) + ta_size_max ta}"
  using assms by (auto simp: slot_def tensor_bytes_def good_buffer_def)

text \<open>Two entries in the same backend buffer belong to the same allocator and the same chunk.\<close>

lemma slot_same_buffer:
  assumes "galloc_store_ok g st" "\<And>i. i < n_buffers g \<Longrightarrow> ga_buffers g ! i = ga_buffers g ! home_of g i"
    and "slot st g ta c base" "slot st g ta' c base'"
  shows "ga_buf_tallocs g ! nat (ta_buffer_id ta) = ga_buf_tallocs g ! nat (ta_buffer_id ta')"
    "nat (ba_chunk (ta_addr ta)) = nat (ba_chunk (ta_addr ta'))" "base = base'"
proof -
  let ?i = "nat (ta_buffer_id ta)" and ?j = "nat (ta_buffer_id ta')"
  have cfg: "length (ga_buffers g) = n_buffers g" and sep: "bufs_sep st (homes g) ((!) (ga_bufts g)) ((!) (ga_buffers g))"
    using assms(1) by (simp_all add: galloc_store_ok_def ga_config_def)
  have i: "?i < n_buffers g" "?j < n_buffers g" using assms(3,4) cfg by (simp_all add: slot_def)
  note hi = home_of_props [OF i(1)] and hj = home_of_props [OF i(2)]
  obtain chunks where c1: "vb_deref st (ga_buffers g ! ?i) = Some chunks" "c = chunks ! nat (ba_chunk (ta_addr ta))"
      "nat (ba_chunk (ta_addr ta)) < length chunks" "c \<noteq> 0"
    using assms(3) by (auto simp: slot_def)
  obtain chunks' where c2: "vb_deref st (ga_buffers g ! ?j) = Some chunks'" "c = chunks' ! nat (ba_chunk (ta_addr ta'))"
      "nat (ba_chunk (ta_addr ta')) < length chunks'"
    using assms(4) by (auto simp: slot_def)
  have nz: "ga_buffers g ! home_of g ?i \<noteq> 0" "ga_buffers g ! home_of g ?j \<noteq> 0"
    using assms(2) [OF i(1)] assms(2) [OF i(2)] assms(3,4) by (simp_all add: slot_def)
  have "c \<in> set chunks" using nth_mem [OF c1(3)] unfolding c1(2) [symmetric] .
  moreover have "c \<in> set chunks'" using nth_mem [OF c2(3)] unfolding c2(2) [symmetric] .
  ultimately have mem: "c \<in> chunk_set st (ga_buffers g ! home_of g ?i)" "c \<in> chunk_set st (ga_buffers g ! home_of g ?j)"
    using c1(1,4) c2(1) assms(2) [OF i(1)] assms(2) [OF i(2)] by (simp_all add: chunk_set_def)
  have same: "home_of g ?i = home_of g ?j"
    using bufs_sepD(4) [OF sep hi(3) hj(3) _ nz] mem by blast
  show "ga_buf_tallocs g ! ?i = ga_buf_tallocs g ! ?j" using hi(2) hj(2) same by simp
  have ch: "chunks' = chunks" using c1(1) c2(1) assms(2) [OF i(1)] assms(2) [OF i(2)] same by simp
  have "apart chunks" using bufs_sepD(2) [OF sep hi(3) nz(1)] c1(1) assms(2) [OF i(1)] by (auto simp: buf_wf_def)
  then show "nat (ba_chunk (ta_addr ta)) = nat (ba_chunk (ta_addr ta'))"
    using c1(2-4) c2(2,3) unfolding ch apart_def by metis
  show "base = base'" using assms(3,4) by (auto simp: slot_def)
qed

lemma slots_apart:
  assumes "galloc_store_ok g st" "\<And>i. i < n_buffers g \<Longrightarrow> ga_buffers g ! i = ga_buffers g ! home_of g i"
    and "slot st g ta c base" "slot st g ta' c base'" "ta_cells g ta \<inter> ta_cells g ta' = {}"
    and "talloc_at g (ta_buffer_id ta) = Some (k, a)" "talloc_at g (ta_buffer_id ta') = Some (k', a')"
    and "ta_size_max ta \<le> dyn_asize a (ta_size_max ta)" "ta_size_max ta' \<le> dyn_asize a' (ta_size_max ta')"
  shows "{base + ba_offset (ta_addr ta) ..< base + ba_offset (ta_addr ta) + ta_size_max ta}
    \<inter> {base' + ba_offset (ta_addr ta') ..< base' + ba_offset (ta_addr ta') + ta_size_max ta'} = {}"
proof -
  note e = slot_same_buffer [OF assms(1-4)]
  have k: "k = ga_buf_tallocs g ! nat (ta_buffer_id ta)" "a = ga_tallocs g ! k"
    using assms(6) by (auto simp: talloc_at_Some talloc_index_def array_get_def split: if_splits)
  have k': "k' = ga_buf_tallocs g ! nat (ta_buffer_id ta')" "a' = ga_tallocs g ! k'"
    using assms(7) by (auto simp: talloc_at_Some talloc_index_def array_get_def split: if_splits)
  have kk: "k' = k" "a' = a" using k k' e(1) by simp_all
  let ?A = "{ba_offset (ta_addr ta) ..< ba_offset (ta_addr ta) + dyn_asize a (ta_size_max ta)}"
  let ?A' = "{ba_offset (ta_addr ta') ..< ba_offset (ta_addr ta') + dyn_asize a' (ta_size_max ta')}"
  have "ta_cells g ta = {k} \<times> ({nat (ba_chunk (ta_addr ta))} \<times> ?A)" by (simp add: ta_cells_def dyn_range_def assms(6))
  moreover have "ta_cells g ta' = {k} \<times> ({nat (ba_chunk (ta_addr ta))} \<times> ?A')"
    by (simp add: ta_cells_def dyn_range_def assms(7) kk e(2))
  ultimately have "?A \<inter> ?A' = {}" using assms(5) by blast
  moreover have "{base + x ..< base + x + n} \<inter> {base + y ..< base + y + n'} = {}"
    if "{x ..< x + m} \<inter> {y ..< y + m'} = {}" "n \<le> m" "n' \<le> m'" for x y n n' m m' :: nat
  proof -
    have False if z: "z \<in> {base + x ..< base + x + n}" "z \<in> {base + y ..< base + y + n'}" for z
    proof -
      have "z - base \<in> {x ..< x + m} \<inter> {y ..< y + m'}" using z \<open>n \<le> m\<close> \<open>n' \<le> m'\<close> by auto
      then show False using \<open>{x ..< x + m} \<inter> {y ..< y + m'} = {}\<close> by blast
    qed
    then show ?thesis by blast
  qed
  ultimately show ?thesis using assms(8,9) e(3) by blast
qed

text \<open>A placed tensor of the graph: its bytes are those of its entry.\<close>

lemma placed_entry:
  assumes "plan_inv (be_bufts E) s L N (length N) g2" "place_inv st g ent s D V s'" "L' = set L \<union> set N" "L' \<subseteq> D"
    and "talloc_at g = talloc_at g2" "p \<in> L'" "records (be_bufts E) s g2 p tp" "entry_fits E st g ent s p tp"
    and "own s p" "deref s' p = Some x"
  shows "\<exists>c base k a. slot st g tp c base \<and> t_buffer x = c \<and> t_data x = base + ba_offset (ta_addr tp)
      \<and> tensor_bytes E st s p x = {base + ba_offset (ta_addr tp) ..< base + ba_offset (ta_addr tp) + ta_size_max tp}
      \<and> talloc_at g (ta_buffer_id tp) = Some (k, a) \<and> ta_size_max tp \<le> dyn_asize a (ta_size_max tp)"
proof -
  obtain p0 where p0: "deref s p = Some p0" using assms(9) by (auto simp: own_def)
  have ok: "place_ok st g ent s D V p p0 s' x" using assms(2,10) p0 unfolding place_inv_def by blast
  have e: "tp = ent p" "ggml_backend_buft_get_alloc_size (be_bufts E) s (ga_bufts g ! nat (ta_buffer_id tp)) p = Some (ta_size_max tp)"
    using assms(8,9) by (auto simp: entry_fits_def)
  have "p \<in> D" using assms(4,6) by blast
  then obtain c base where sl: "slot st g tp c base" "t_buffer x = c" "t_data x = base + ba_offset (ta_addr tp)"
    using place_ok_own(1) [OF ok assms(9)] e(1) by (auto simp: at_slot_def)
  have "p \<in> set L \<union> set N" using assms(3,6) by simp
  then obtain k a where "talloc_at g2 (ta_buffer_id tp) = Some (k, a)" "ta_size_max tp \<le> dyn_asize a (ta_size_max tp)"
    using entry_in_bounds [OF assms(1) _ assms(9,7)] by blast
  then show ?thesis using sl slot_bytes [OF sl e(2)] assms(5) by auto
qed

text \<open>
  C2: no live tensor is overwritten, under the conditions of \<open>alloc_setting\<close>: among them that every view
  that is read is a node with an operation, which \<open>gallocr_uncounted_view_overlaps\<close> shows to be
  necessary. Take the memory after reserving and allocating a graph, a node
  \<open>m\<close> of the graph and a tensor \<open>q\<close> that is a leaf or an earlier node. If \<open>q\<close> is an output or is used
  by a later node, the bytes of node \<open>m\<close>, where its result is written, are apart from those of \<open>q\<close>.
  If node \<open>m\<close> itself uses \<open>q\<close>, they are apart too, unless the operation runs in place: then \<open>q\<close> is a
  source with the same layout that nothing uses later, and both tensors start at the same address.
\<close>

theorem ggml_gallocr_alloc_graph_no_overlap:
  assumes "alloc_setting E s st g graph" "ggml_gallocr_reserve_n E s st g graph nids lids = Some (True, g', st')"
    and "ggml_gallocr_alloc_graph E s st' g' graph = Some (ok, s', g'', st'')"
    and "m < length (cg_nodes graph)" "n = cg_nodes graph ! m" "q \<in> set (cg_leafs graph) \<union> set (take m (cg_nodes graph))"
    and "own s n" "own s q" "deref s' n = Some t" "deref s' q = Some u"
  shows "(out s q \<or> (\<exists>k. m < k \<and> k < length (cg_nodes graph) \<and> touches s (cg_nodes graph ! k) q)
      \<longrightarrow> memory_apart E st'' s n t q u)
    \<and> (touches s n q \<longrightarrow> memory_apart E st'' s n t q u
        \<or> t_buffer t = t_buffer u \<and> t_data t = t_data u
          \<and> (\<exists>tn tq. deref s n = Some tn \<and> deref s q = Some tq \<and> q \<in> set (t_src tn)
               \<and> ggml_op_can_inplace (t_op tn) \<and> ggml_are_same_layout tn tq)
          \<and> \<not> out s q \<and> \<not> (\<exists>k. m < k \<and> k < length (cg_nodes graph) \<and> touches s (cg_nodes graph ! k) q))"
proof -
  let ?B = "be_bufts E" and ?L = "cg_leafs graph" and ?N = "cg_nodes graph"
  obtain s1 g2 D V where run: "ggml_gallocr_alloc_graph E s st' g' graph = Some (True, s1, g', st')"
    and pl: "plan_inv ?B s ?L ?N (length ?N) g2"
    and ta: "talloc_at g' = talloc_at g2" and cells: "\<And>ta. ta_cells g' ta = ta_cells g2 ta" and sok: "galloc_store_ok g' st'"
    and al: "\<And>i. i < n_buffers g' \<Longrightarrow> ga_buffers g' ! i = ga_buffers g' ! home_of g' i"
    and ent: "\<And>p ta. plan_entry g' graph p ta \<Longrightarrow> p \<in> set ?L \<union> set ?N \<and> records ?B s g2 p ta \<and> entry_fits E st' g' (ent_of ?B s g2) s p ta"
    and pi: "place_inv st' g' (ent_of ?B s g2) s D V s1" and D: "set ?L \<union> set ?N \<subseteq> D"
    by (rule alloc_graph_result [OF assms(1,2)]) blast
  have eq: "s' = s1" "g'' = g'" "st'' = st'" using run assms(3) by simp_all
  have pg: "plan_graph s ?L ?N" using assms(1) by (simp add: alloc_setting_def)
  have entry: "\<exists>ta. plan_entry g' graph p ta" if "p \<in> set ?L \<union> set ?N" for p
    using that by (auto simp: plan_entry_def in_set_conv_nth)
  have n: "n \<in> set ?L \<union> set ?N" and q: "q \<in> set ?L \<union> set ?N" using assms(4-6) set_take_subset by (auto dest: in_set_takeD)
  obtain tn tq where tn: "plan_entry g' graph n tn" and tq: "plan_entry g' graph q tq" using entry [OF n] entry [OF q] by blast
  obtain c base k a where N: "records ?B s g2 n tn" "slot st' g' tn c base" "t_buffer t = c" "t_data t = base + ba_offset (ta_addr tn)"
      "tensor_bytes E st' s n t = {base + ba_offset (ta_addr tn) ..< base + ba_offset (ta_addr tn) + ta_size_max tn}"
      "talloc_at g' (ta_buffer_id tn) = Some (k, a)" "ta_size_max tn \<le> dyn_asize a (ta_size_max tn)"
    using placed_entry [OF pl pi refl D ta] ent [OF tn] assms(7,9) eq(1) by blast
  obtain c' base' k' a' where Q: "records ?B s g2 q tq" "slot st' g' tq c' base'" "t_buffer u = c'" "t_data u = base' + ba_offset (ta_addr tq)"
      "tensor_bytes E st' s q u = {base' + ba_offset (ta_addr tq) ..< base' + ba_offset (ta_addr tq) + ta_size_max tq}"
      "talloc_at g' (ta_buffer_id tq) = Some (k', a')" "ta_size_max tq \<le> dyn_asize a' (ta_size_max tq)"
    using placed_entry [OF pl pi refl D ta] ent [OF tq] assms(8,10) eq(1) by blast
  have far: "memory_apart E st'' s n t q u" if "ta_cells g2 tn \<inter> ta_cells g2 tq = {}"
  proof (cases "c = c'")
    case True
    have "ta_cells g' tn \<inter> ta_cells g' tq = {}" using that cells by simp
    from slots_apart [OF sok al N(2) Q(2) [folded True] this N(6) Q(6) N(7) Q(7)]
    show ?thesis using N(5) Q(5) eq(3) by (simp add: memory_apart_def)
  next
    case False
    then show ?thesis using N(3) Q(3) by (simp add: memory_apart_def)
  qed
  have near: "t_buffer t = t_buffer u \<and> t_data t = t_data u" if "ta_buffer_id tn = ta_buffer_id tq" "ta_addr tn = ta_addr tq"
    using slot_same_addr [OF Q(2) N(2) that] N(3,4) Q(3,4) that(2) by simp
  have "own s (?N ! m)" using assms(5,7) by simp
  from entries_apart [OF pg pl assms(4,6) this assms(8) N(1) [unfolded assms(5)] Q(1)] assms(5)
  show ?thesis using far near by blast
qed

end
