(* ===== verification/GGML_GallocLive.thy ===== *)
theory GGML_GallocLive
  imports GGML_GallocAlloc
begin

text \<open>
  When the backend can allocate, reserving succeeds, and so does allocating the graph afterwards; with
  a concrete backend on which the theorems are instantiated.
\<close>

section \<open>Reserving succeeds\<close>

text \<open>A backend that serves every request of at most half the address space.\<close>

definition never_fails :: "backend_env \<Rightarrow> bool" where
  "never_fails E \<longleftrightarrow> (\<forall>st. be_calloc E st \<noteq> 0)
     \<and> (\<forall>st buft sz. sz \<le> 9223372036854775807 \<longrightarrow> be_alloc_buffer E st buft sz \<noteq> None)"

lemma alloc_buffer_succeeds:
  assumes "backend_ok E" "never_fails E" "finite_store st" "buft \<noteq> 0" "sz \<le> 9223372036854775807"
  shows "\<exists>c st'. ggml_backend_buft_alloc_buffer E st buft sz = Some (c, st') \<and> c \<noteq> 0"
proof (cases "sz = 0")
  case True
  have "be_new E st \<noteq> 0" using assms(1,3) by (simp add: backend_ok_def)
  then show ?thesis using assms(4) True
    by (simp add: ggml_backend_buft_alloc_buffer_def ggml_backend_buffer_init_def Let_def)
next
  case False
  obtain p b where b: "be_alloc_buffer E st buft sz = Some (p, b)" using assms(2,5) unfolding never_fails_def by fastforce
  then have "p \<noteq> 0" using assms(1,3) unfolding backend_ok_def by blast
  then show ?thesis using assms(4) False b by (simp add: ggml_backend_buft_alloc_buffer_def)
qed

lemma vbuffer_alloc_loop_succeeds:
  assumes "backend_ok E" "never_fails E" "buft \<noteq> 0" "\<forall>sz \<in> set sizes. sz \<le> 9223372036854775807"
    and "filled st0 buft done buf st" "length done + length sizes \<le> GGML_VBUFFER_MAX_CHUNKS"
  shows "\<exists>st'. vbuffer_alloc_loop E buft usage buf sizes (length done) st = Some (buf, st')"
  using assms(4-6)
proof (induction sizes arbitrary: "done" st)
  case Nil
  then show ?case by simp
next
  case (Cons sz sizes)
  have fin: "finite_store st" using Cons.prems(2) by (simp add: filled_def)
  obtain c st1 where a: "ggml_backend_buft_alloc_buffer E st buft sz = Some (c, st1)" "c \<noteq> 0"
    using alloc_buffer_succeeds [OF assms(1,2) fin assms(3), of sz] Cons.prems(1) by auto
  obtain b where b: "st1 = st\<lparr>bs_buffers := (bs_buffers st)(c \<mapsto> b)\<rparr>"
    using alloc_buffer_cases [OF assms(1) fin a] by blast
  obtain chunks where ch: "vb_deref st1 buf = Some chunks" "length chunks = GGML_VBUFFER_MAX_CHUNKS"
    using Cons.prems(2) b by (auto simp: filled_def)
  have lt: "length done < GGML_VBUFFER_MAX_CHUNKS" using Cons.prems(3) by simp
  let ?st = "st1\<lparr>bs_vbuffers := (bs_vbuffers st1)(buf \<mapsto> chunks[length done := c])\<rparr>"
  obtain st2 where u: "ggml_backend_buffer_set_usage ?st c usage = Some st2"
    using a(2) b by (simp add: ggml_backend_buffer_set_usage_def)
  note f = filled_step [OF assms(1) Cons.prems(2) lt a ch(1) u]
  obtain st' where "vbuffer_alloc_loop E buft usage buf sizes (length (done @ [sz])) st2 = Some (buf, st')"
    using Cons.IH [OF _ f] Cons.prems(1,3) by auto
  then show ?case using a ch u lt by (simp add: array_set_def Let_def)
qed

lemma vbuffer_alloc_succeeds:
  assumes "backend_ok E" "never_fails E" "finite_store st" "buft \<noteq> 0" "length (dt_chunks a) \<le> GGML_VBUFFER_MAX_CHUNKS"
    and "\<forall>ch \<in> set (dt_chunks a). max_size ch \<le> 9223372036854775807"
  shows "\<exists>buf st'. ggml_vbuffer_alloc E st buft a usage = Some (buf, st') \<and> buf \<noteq> 0"
proof -
  let ?buf = "be_calloc E st"
  let ?st = "st\<lparr>bs_vbuffers := (bs_vbuffers st)(?buf \<mapsto> replicate GGML_VBUFFER_MAX_CHUNKS 0)\<rparr>"
  have nz: "?buf \<noteq> 0" using assms(2) by (simp add: never_fails_def)
  have "filled st buft [] ?buf ?st"
    using assms(1,3) nz by (auto simp: filled_def keeps_def apart_def backend_ok_def)
  from vbuffer_alloc_loop_succeeds [OF assms(1,2,4) _ this, of "map max_size (dt_chunks a)" usage]
  show ?thesis using assms(5,6) nz by (auto simp: ggml_vbuffer_alloc_def Let_def)
qed

lemma realloc_loop_total:
  assumes "buf \<noteq> 0 \<Longrightarrow> buf_wf st buft buf" "\<forall>c \<in> set cs. c < GGML_VBUFFER_MAX_CHUNKS"
  shows "\<exists>r'. realloc_loop st buf a cs r = Some r'"
  using assms(2)
proof (induction cs arbitrary: r)
  case Nil
  then show ?case by simp
next
  case (Cons c cs)
  have "\<exists>n. (if buf \<noteq> 0 then ggml_vbuffer_chunk_size st buf c else Some 0) = Some n"
  proof (cases "buf = 0")
    case False
    then obtain chunks where ch: "vb_deref st buf = Some chunks" "length chunks = GGML_VBUFFER_MAX_CHUNKS"
      and b: "\<forall>c \<in> set chunks. c \<noteq> 0 \<longrightarrow> (\<exists>b. bb_deref st c = Some b \<and> good_buffer buft b)"
      using assms(1) by (auto simp: buf_wf_def)
    have "c < length chunks" using Cons.prems ch(2) by simp
    moreover have "chunks ! c \<noteq> 0 \<Longrightarrow> \<exists>x. bb_deref st (chunks ! c) = Some x" using b calculation nth_mem by blast
    ultimately show ?thesis using chunk_size_eq [OF ch(1)] False by (cases "chunks ! c = 0") auto
  qed simp
  then obtain n where "(if buf \<noteq> 0 then ggml_vbuffer_chunk_size st buf c else Some 0) = Some n" by blast
  moreover obtain r' where "realloc_loop st buf a cs (if ggml_dyn_tallocr_max_size a c > n then True else r) = Some r'"
    using Cons.IH Cons.prems by (metis list.set_intros(2))
  ultimately show ?case by (simp del: if_split add: Let_def cong: if_cong)
qed

lemma vbuffer_free_total: "buf \<noteq> 0 \<Longrightarrow> buf_wf st buft buf \<Longrightarrow> \<exists>st'. ggml_vbuffer_free st buf = Some st'"
proof -
  assume "buf \<noteq> 0" "buf_wf st buft buf"
  then obtain chunks where c: "vb_deref st buf = Some chunks" "apart chunks"
    "\<forall>c \<in> set chunks. c \<noteq> 0 \<longrightarrow> (\<exists>b. bb_deref st c = Some b \<and> good_buffer buft b)"
    by (auto simp: buf_wf_def)
  have "\<exists>st'. foldM (\<lambda>c st. ggml_backend_buffer_free st c) chunks st = Some st'"
    unfolding buffer_free_foldM_iff using c(2,3) apart_distinct by auto
  then show "\<exists>st'. ggml_vbuffer_free st buf = Some st'" using c(1) by (auto simp: ggml_vbuffer_free_def)
qed

lemma reserve_buffer_succeeds:
  assumes "backend_ok E" "never_fails E" "galloc_store_ok g st" "i < n_buffers g" "0 \<notin> set (ga_bufts g)"
    and "\<forall>h \<in> homes g. h < i \<longrightarrow> buf_ready st (ga_bufts g ! h) (talloc_of g h) (ga_buffers g ! h)"
    and "length (dt_chunks (talloc_of g i)) \<le> GGML_VBUFFER_MAX_CHUNKS"
    and "\<forall>ch \<in> set (dt_chunks (talloc_of g i)). max_size ch \<le> 9223372036854775807"
  shows "\<exists>g' st'. reserve_buffer E False i (g, st) = Some (True, g', st')"
proof -
  let ?a = "talloc_of g i"
  have cfg: "ga_config g" and sep: "bufs_sep st (homes g) ((!) (ga_bufts g)) ((!) (ga_buffers g))"
    using assms(3) by (simp_all add: galloc_store_ok_def)
  have i: "i < length (ga_buffers g)" "i < length (ga_buf_tallocs g)" "i < length (ga_bufts g)"
    using cfg assms(4) by (simp_all add: ga_config_def n_buffers_def)
  have k: "ga_buf_tallocs g ! i < length (ga_tallocs g)" using cfg i(2) by (simp add: ga_config_def)
  have bt: "ga_bufts g ! i \<noteq> 0" using assms(5) i(3) by (metis nth_mem)
  have small: "\<forall>c \<in> set [0..<length (dt_chunks ?a)]. c < GGML_VBUFFER_MAX_CHUNKS" using assms(7) by auto
  show ?thesis
  proof (cases "i \<in> homes g")
    case True
    let ?buf = "ga_buffers g ! i"
    have first: "first_index (ga_buf_tallocs g ! i) (take i (ga_buf_tallocs g)) = None"
      using first_index_home [OF cfg assms(4)] True by simp
    have wf: "buf_wf st (ga_bufts g ! i) ?buf" if "?buf \<noteq> 0" using bufs_sepD(2) [OF sep True that] .
    obtain r where r: "realloc_loop st ?buf ?a [0..<length (dt_chunks ?a)] (?buf = 0) = Some r"
      using realloc_loop_total [OF wf small] by blast
    obtain st1 where f: "ggml_vbuffer_free st ?buf = Some st1"
      using vbuffer_free_total [OF _ wf] by (cases "?buf = 0") (auto simp: ggml_vbuffer_free_def)
    have "finite_store st1" using vbuffer_free_effect(3) [OF bufs_sepD(1) [OF sep] f] .
    from vbuffer_alloc_succeeds [OF assms(1,2) this bt assms(7,8)]
    obtain p st2 where p: "ggml_vbuffer_alloc E st1 (ga_bufts g ! i) ?a GGML_BACKEND_BUFFER_USAGE_COMPUTE = Some (p, st2)" "p \<noteq> 0"
      by blast
    show ?thesis using i k first r f p
      by (cases r) (simp_all add: reserve_buffer_def array_get_def Let_def del: if_split cong: if_cong)
  next
    case False
    let ?buf = "ga_buffers g ! home_of g i"
    note h = home_of_props [OF assms(4)]
    have lt: "home_of g i < i" using False h by (cases "home_of g i = i") auto
    have first: "first_index (ga_buf_tallocs g ! i) (take i (ga_buf_tallocs g)) = Some (home_of g i)"
      using first_index_home [OF cfg assms(4)] False by simp
    have ready: "buf_ready st (ga_bufts g ! home_of g i) ?a ?buf"
      using assms(6) [rule_format, OF h(3) lt] h(2) by simp
    then have nz: "?buf \<noteq> 0" and wf: "buf_wf st (ga_bufts g ! home_of g i) ?buf" by (simp_all add: buf_ready_def)
    obtain r where r: "realloc_loop st ?buf ?a [0..<length (dt_chunks ?a)] False = Some r"
      using realloc_loop_total [OF wf small] by blast
    have "\<not> r" by (rule realloc_loop_ready [OF ready _ r]) (use assms(7) in auto)
    then show ?thesis using i k first r nz
      by (simp add: reserve_buffer_def array_get_def Let_def del: if_split cong: if_cong)
  qed
qed

lemma reserve_loop_succeeds:
  assumes "backend_ok E" "never_fails E" "0 \<notin> set (ga_bufts g0)" "reserve_inv g0 st0 i (g, st)" "i \<le> n_buffers g"
    and "\<forall>a \<in> set (ga_tallocs g0). dyn_inv a"
  shows "\<exists>g' st'. reserve_loop E False [i..<n_buffers g] (g, st) = Some (True, g', st')"
  using assms(4,5)
proof (induction "n_buffers g - i" arbitrary: i g st)
  case 0
  then show ?case by simp
next
  case (Suc n)
  then have i: "i < n_buffers g" by simp
  have eq: "g = g0\<lparr>ga_buffers := ga_buffers g\<rparr>" and ok: "galloc_store_ok g st"
    and ready: "\<forall>h \<in> homes g. h < i \<longrightarrow> buf_ready st (ga_bufts g ! h) (talloc_of g h) (ga_buffers g ! h)"
    using Suc.prems(1) by (simp_all add: reserve_inv_def)
  note u = buffers_upd_core [OF eq]
  have dyn: "\<forall>a \<in> set (ga_tallocs g). dyn_inv a" using assms(6) u(1) by simp
  then have few: "\<forall>a \<in> set (ga_tallocs g). length (dt_chunks a) \<le> GGML_VBUFFER_MAX_CHUNKS" by (simp add: dyn_inv_def)
  have "ga_buf_tallocs g ! i < length (ga_tallocs g)" using ok i by (auto simp: galloc_store_ok_def ga_config_def)
  then have "dyn_inv (talloc_of g i)" using dyn by simp
  then have a: "length (dt_chunks (talloc_of g i)) \<le> GGML_VBUFFER_MAX_CHUNKS"
      "\<forall>ch \<in> set (dt_chunks (talloc_of g i)). max_size ch \<le> 9223372036854775807"
    by (simp_all add: dyn_inv_def)
  have "0 \<notin> set (ga_bufts g)" using assms(3) u(2) by simp
  from reserve_buffer_succeeds [OF assms(1,2) ok i this ready a]
  obtain g1 st1 where r: "reserve_buffer E False i (g, st) = Some (True, g1, st1)" by blast
  have "g1 = g\<lparr>ga_buffers := ga_buffers g1\<rparr>" using reserve_buffer_recs [OF r] .
  then have n1: "n_buffers g1 = n_buffers g" by (metis buffers_upd(1))
  note step = reserve_inv_step [OF assms(1) Suc.prems(1) i few r]
  have "n = n_buffers g1 - Suc i" "Suc i \<le> n_buffers g1" using Suc.hyps(2) n1 i by simp_all
  from Suc.hyps(1) [OF this(1) step this(2)]
  obtain g' st' where "reserve_loop E False [Suc i..<n_buffers g1] (g1, st1) = Some (True, g', st')" by blast
  then show ?case using r i n1 by (simp add: upt_rec [of i])
qed

lemma reserve_n_succeeds:
  assumes "alloc_setting E s st g graph" "never_fails E" "0 \<notin> set (ga_bufts g)"
    and "gallocr_make_plan (be_bufts E) s g graph nids lids = Some g1"
  shows "\<exists>g' st'. ggml_gallocr_reserve_n E s st g graph nids lids = Some (True, g', st')"
proof -
  let ?B = "be_bufts E"
  have h: "backend_ok E" "galloc_store_ok g st" "gallocr_valid g" "sizes_ok ?B s g" "heap_ok (st_tensors s)"
      "plan_graph s (cg_leafs graph) (cg_nodes graph)" "cg_nodes graph \<noteq> []"
    using assms(1) by (simp_all add: alloc_setting_def)
  obtain f: "ga_bufts g1 = ga_bufts g" "ga_buffers g1 = ga_buffers g" "ga_buf_tallocs g1 = ga_buf_tallocs g"
      "map dt_alignment (ga_tallocs g1) = map dt_alignment (ga_tallocs g)" and v: "gallocr_valid g1"
    using make_plan_correct [OF h(5,6,3,4,7) assms(4)] by metis
  have len: "length (ga_tallocs g1) = length (ga_tallocs g)" using arg_cong [OF f(4), of length] by simp
  have same: "n_buffers g1 = n_buffers g" "home_of g1 = home_of g" "homes g1 = homes g"
    using f by (simp_all add: n_buffers_def home_of_def homes_def fun_eq_iff)
  have cfg: "ga_config g1" using h(2) unfolding galloc_store_ok_def ga_config_def f same len by blast
  have "galloc_store_ok g1 st" using h(2) cfg unfolding galloc_store_ok_def f same by blast
  then have inv: "reserve_inv g1 st 0 (g1, st)" by (simp add: reserve_inv_def)
  have "0 \<notin> set (ga_bufts g1)" using assms(3) f(1) by simp
  from reserve_loop_succeeds [OF h(1) assms(2) this inv] v
  obtain g' st' where "reserve_loop E False [0..<n_buffers g1] (g1, st) = Some (True, g', st')"
    by (auto simp: gallocr_valid_def)
  then show ?thesis using assms(4) by (simp add: ggml_gallocr_reserve_n_def ggml_gallocr_reserve_n_impl_def)
qed

text \<open>
  C5: under the conditions of \<open>alloc_setting\<close> (no empty tensors among them), when planning the graph has a
  result and the backend serves every request of up to half the address space, reserving the buffers succeeds,
  and so does allocating the graph afterwards: none of the assertions on the way fails, whatever
  buffers the allocator had before.
\<close>

theorem ggml_gallocr_reserve_alloc_succeeds:
  assumes "alloc_setting E s st g graph" "never_fails E" "0 \<notin> set (ga_bufts g)"
    and "gallocr_make_plan (be_bufts E) s g graph nids lids = Some g1"
  shows "\<exists>g' st' s'. ggml_gallocr_reserve_n E s st g graph nids lids = Some (True, g', st')
    \<and> ggml_gallocr_alloc_graph E s st' g' graph = Some (True, s', g', st')"
proof -
  obtain g' st' where r: "ggml_gallocr_reserve_n E s st g graph nids lids = Some (True, g', st')"
    using reserve_n_succeeds [OF assms] by blast
  obtain s' where "ggml_gallocr_alloc_graph E s st' g' graph = Some (True, s', g', st')"
    by (rule alloc_graph_result [OF assms(1) r])
  then show ?thesis using r by blast
qed

section \<open>A concrete backend\<close>

text \<open>Objects lie behind all others; every buffer of the backend has the base address 4096.\<close>

definition fresh_object :: "backend_store \<Rightarrow> ptr" where
  "fresh_object st = Suc (Max (insert 0 (dom (bs_buffers st) \<union> dom (bs_vbuffers st))))"

definition demo_buffer :: "ptr \<Rightarrow> size_t \<Rightarrow> ggml_backend_buffer" where
  "demo_buffer buft sz = \<lparr>bb_buft = buft, bb_get_base = Some 4096, bb_init_tensor = None, bb_is_meta = False,
     bb_size = sz, bb_usage = GGML_BACKEND_BUFFER_USAGE_ANY, bb_init_ok = \<lambda>_. True, bb_buffers = []\<rparr>"

definition demo_env :: backend_env where
  "demo_env = \<lparr>be_bufts = plan_backends, be_new = fresh_object, be_calloc = fresh_object,
     be_alloc_buffer = \<lambda>st buft sz. if sz \<le> 9223372036854775807 then Some (fresh_object st, demo_buffer buft sz) else None\<rparr>"

definition empty_store :: backend_store where
  "empty_store = \<lparr>bs_buffers = Map.empty, bs_vbuffers = Map.empty\<rparr>"

lemma fresh_object:
  assumes "finite_store st"
  shows "bb_deref st (fresh_object st) = None" "vb_deref st (fresh_object st) = None"
proof -
  let ?D = "insert 0 (dom (bs_buffers st) \<union> dom (bs_vbuffers st))"
  have fin: "finite ?D" using assms by (simp add: finite_store_def)
  have n: "fresh_object st \<notin> ?D"
  proof
    assume "fresh_object st \<in> ?D"
    from Max_ge [OF fin this] show False unfolding fresh_object_def by linarith
  qed
  show "bb_deref st (fresh_object st) = None" using n unfolding bb_deref_def by blast
  show "vb_deref st (fresh_object st) = None" using n unfolding vb_deref_def by blast
qed

lemma demo_backend: "backend_ok demo_env" "never_fails demo_env" "sizes_stable (be_bufts demo_env)" "be_bufts demo_env = plan_backends"
proof -
  have d: "be_new demo_env st = fresh_object st" "be_calloc demo_env st = fresh_object st"
    "be_alloc_buffer demo_env st buft sz
      = (if sz \<le> 9223372036854775807 then Some (fresh_object st, demo_buffer buft sz) else None)" for st buft sz
    by (simp_all add: demo_env_def)
  have nz: "fresh_object st \<noteq> 0" for st by (simp add: fresh_object_def)
  have good: "good_buffer buft (demo_buffer buft sz) \<and> sz \<le> bb_size (demo_buffer buft sz)" if "sz \<le> 9223372036854775807" for buft sz
    using that by (simp add: good_buffer_def demo_buffer_def)
  show "backend_ok demo_env"
    unfolding backend_ok_def d
  proof (intro allI impI conjI)
    fix st buft sz p b assume st: "finite_store st"
      and "(if sz \<le> 9223372036854775807 then Some (fresh_object st, demo_buffer buft sz) else None) = Some (p, b)"
    then have e: "sz \<le> 9223372036854775807" "p = fresh_object st" "b = demo_buffer buft sz" by (simp_all split: if_splits)
    show "p \<noteq> 0" "bb_deref st p = None" "sz \<le> bb_size b" "good_buffer buft b"
      using nz fresh_object(1) [OF st] good [OF e(1)] e(2,3) by blast+
  qed (use nz fresh_object in blast)+
  show "never_fails demo_env" by (simp add: never_fails_def demo_env_def fresh_object_def)
  show "sizes_stable (be_bufts demo_env)" by (simp add: sizes_stable_def demo_env_def plan_backends_def)
  show "be_bufts demo_env = plan_backends" by (simp add: demo_env_def)
qed

lemma new_store_ok:
  assumes "ggml_gallocr_new_n B bufts = Some g" "finite_store st"
  shows "galloc_store_ok g st" "\<And>i. i < n_buffers g \<Longrightarrow> ga_buffers g ! i = ga_buffers g ! home_of g i"
proof -
  note c = ga_config_new [OF assms(1)]
  have z: "ga_buffers g ! h = 0" if "h \<in> homes g" for h using c(2) that by (simp add: homes_def)
  then have "bufs_sep st (homes g) ((!) (ga_bufts g)) ((!) (ga_buffers g))"
    using assms(2) by (auto simp: bufs_sep_def)
  then show "galloc_store_ok g st" using c(1) by (simp add: galloc_store_ok_def)
  show "ga_buffers g ! i = ga_buffers g ! home_of g i" if "i < n_buffers g" for i
    using c(2) that home_of_props(1) [OF that] by simp
qed

lemma demo_setting: "alloc_setting demo_env plan_state empty_store plan_gallocr plan_cgraph"
proof -
  have fin: "finite_store empty_store" by (simp add: finite_store_def empty_store_def)
  have new: "ggml_gallocr_new_n plan_backends [8] = Some plan_gallocr" using plan_new by (simp add: ggml_gallocr_new_def)
  have o: "others_ok plan_gallocr empty_store plan_state"
    using plan_deref_cases by (fastforce simp: others_ok_def)
  have e: "no_empty_tensor plan_backends plan_state plan_cgraph"
    by (auto simp: no_empty_tensor_def plan_cgraph_def ggml_backend_buft_get_alloc_size_def plan_backends_def ggml_assert_def)
  show ?thesis
    unfolding alloc_setting_def demo_backend(4)
    using demo_backend(1,3) new_store_ok(1) [OF new fin] plan_hyps plan_heap_ok o e
    by (simp add: demo_backend(4)) (simp add: plan_cgraph_def)
qed

lemma demo_reserve:
  obtains g st where "ggml_gallocr_reserve_n demo_env plan_state empty_store plan_gallocr plan_cgraph None None = Some (True, g, st)"
proof -
  obtain gp where "gallocr_make_plan plan_backends plan_state plan_gallocr plan_cgraph None None = Some gp"
    using plan_run by blast
  then show thesis
    using reserve_n_succeeds [OF demo_setting demo_backend(2), of None None gp] that
    by (auto simp: demo_backend(4) plan_gallocr_def)
qed

theorem ggml_gallocr_reserve_alloc_succeeds_witness:
  "\<exists>g st s. ggml_gallocr_reserve_n demo_env plan_state empty_store plan_gallocr plan_cgraph None None = Some (True, g, st)
     \<and> ggml_gallocr_alloc_graph demo_env plan_state st g plan_cgraph = Some (True, s, g, st)"
proof -
  obtain gp where "gallocr_make_plan plan_backends plan_state plan_gallocr plan_cgraph None None = Some gp"
    using plan_run by blast
  then show ?thesis
    using ggml_gallocr_reserve_alloc_succeeds [OF demo_setting demo_backend(2), of None None gp]
    by (simp add: demo_backend(4) plan_gallocr_def)
qed

theorem ggml_gallocr_alloc_graph_places_witness:
  "\<exists>g st s t ta. ggml_gallocr_reserve_n demo_env plan_state empty_store plan_gallocr plan_cgraph None None = Some (True, g, st)
     \<and> ggml_gallocr_alloc_graph demo_env plan_state st g plan_cgraph = Some (True, s, g, st)
     \<and> plan_entry g plan_cgraph 32 ta \<and> deref s 32 = Some t \<and> at_slot st g ta t"
proof -
  obtain g st where r: "ggml_gallocr_reserve_n demo_env plan_state empty_store plan_gallocr plan_cgraph None None = Some (True, g, st)"
    by (rule demo_reserve)
  obtain s where s: "ggml_gallocr_alloc_graph demo_env plan_state st g plan_cgraph = Some (True, s, g, st)"
    and lay: "same_layout plan_state s"
    and p: "\<forall>p ta t. own plan_state p \<and> plan_entry g plan_cgraph p ta \<and> deref s p = Some t \<longrightarrow> at_slot st g ta t"
    using ggml_gallocr_alloc_graph_places [OF demo_setting r] by blast
  have e: "plan_entry g plan_cgraph 32 (na_dst (ga_node_allocs g ! 0))" by (auto simp: plan_entry_def plan_cgraph_def)
  obtain t where t: "deref s 32 = Some t" using same_layoutD(1) [OF lay plan_deref(2)] by blast
  have "own plan_state 32" by (simp add: own_def)
  then show ?thesis using r s e t p by blast
qed

theorem ggml_gallocr_alloc_graph_no_overlap_witness:
  "\<exists>g st s t u. ggml_gallocr_reserve_n demo_env plan_state empty_store plan_gallocr plan_cgraph None None = Some (True, g, st)
     \<and> ggml_gallocr_alloc_graph demo_env plan_state st g plan_cgraph = Some (True, s, g, st)
     \<and> deref s 32 = Some t \<and> deref s 16 = Some u \<and> touches plan_state 48 16 \<and> memory_apart demo_env st plan_state 32 t 16 u"
proof -
  obtain g st where r: "ggml_gallocr_reserve_n demo_env plan_state empty_store plan_gallocr plan_cgraph None None = Some (True, g, st)"
    by (rule demo_reserve)
  obtain s where s: "ggml_gallocr_alloc_graph demo_env plan_state st g plan_cgraph = Some (True, s, g, st)"
    and lay: "same_layout plan_state s"
  proof -
    obtain s g2 D V where "ggml_gallocr_alloc_graph demo_env plan_state st g plan_cgraph = Some (True, s, g, st)"
        "place_inv st g (ent_of (be_bufts demo_env) plan_state g2) plan_state D V s"
      by (rule alloc_graph_result [OF demo_setting r]) blast
    then show thesis using that by (simp add: place_inv_def)
  qed
  obtain t where t: "deref s 32 = Some t" using same_layoutD(1) [OF lay plan_deref(2)] by blast
  obtain u where u: "deref s 16 = Some u" using same_layoutD(1) [OF lay plan_deref(1)] by blast
  have o: "own plan_state 32" "own plan_state 16" by (simp_all add: own_def)
  have touch: "touches plan_state 48 16" by (simp add: touches_def plan_srcs)
  have k: "0 < length (cg_nodes plan_cgraph)" "32 = cg_nodes plan_cgraph ! 0"
    "16 \<in> set (cg_leafs plan_cgraph) \<union> set (take 0 (cg_nodes plan_cgraph))"
    and later: "\<exists>k. 0 < k \<and> k < length (cg_nodes plan_cgraph) \<and> touches plan_state (cg_nodes plan_cgraph ! k) 16"
    using touch by (auto simp: plan_cgraph_def intro!: exI [of _ 1])
  have "memory_apart demo_env st plan_state 32 t 16 u"
    using ggml_gallocr_alloc_graph_no_overlap [OF demo_setting r s k o t u] later by blast
  then show ?thesis using r s t u touch by blast
qed

end
