(* ===== verification/GGML_GallocFree.thy ===== *)
theory GGML_GallocFree
  imports GGML_GallocLive
begin

text \<open>
  Freeing a graph allocator: every buffer goes back to the backend once, as long as the positions
  that share an allocator hold the same buffer. A reservation that fails breaks this.
\<close>

section \<open>Freeing\<close>

definition buffers_shared :: "ggml_gallocr \<Rightarrow> bool" where
  "buffers_shared g \<longleftrightarrow> (\<forall>i < n_buffers g. ga_buffers g ! i = ga_buffers g ! home_of g i)"

definition left_from :: "ggml_gallocr \<Rightarrow> nat \<Rightarrow> nat \<Rightarrow> ptr" where
  "left_from g i h = (if h < i then 0 else ga_buffers g ! h)"

definition free_inv :: "ggml_gallocr \<Rightarrow> backend_store \<Rightarrow> nat \<Rightarrow> backend_store \<Rightarrow> bool" where
  "free_inv g st0 i st \<longleftrightarrow> bufs_sep st (homes g) ((!) (ga_bufts g)) (left_from g i)
     \<and> (\<forall>h \<in> homes g. i \<le> h \<and> ga_buffers g ! h \<noteq> 0 \<longrightarrow> same_buf st0 st (ga_buffers g ! h))
     \<and> (\<forall>h \<in> homes g. h < i \<and> ga_buffers g ! h \<noteq> 0 \<longrightarrow> vb_deref st (ga_buffers g ! h) = None
          \<and> (\<forall>c \<in> chunk_set st0 (ga_buffers g ! h). bb_deref st c = None))
     \<and> (\<forall>q. not_ours g st0 q \<longrightarrow> foreign st (homes g) (left_from g i) q \<and> bb_deref st q = bb_deref st0 q)"

lemma left_from_Suc: "left_from g (Suc i) = (left_from g i)(i := 0)"
  by (auto simp: left_from_def fun_eq_iff)

lemma bufs_cong:
  assumes "\<And>h. h \<in> H \<Longrightarrow> buf' h = buf h"
  shows "bufs_sep st H buft buf' = bufs_sep st H buft buf" "foreign st H buf' q = foreign st H buf q"
  by (simp_all add: bufs_sep_def foreign_def assms cong: ball_cong)

lemma free_inv_skip:
  assumes "free_inv g st0 i st" "i \<notin> homes g \<or> ga_buffers g ! i = 0"
  shows "free_inv g st0 (Suc i) st"
proof -
  have eq: "left_from g (Suc i) h = left_from g i h" if "h \<in> homes g" for h
    using that assms(2) by (auto simp: left_from_def less_Suc_eq)
  have c: "bufs_sep st (homes g) buft (left_from g (Suc i)) = bufs_sep st (homes g) buft (left_from g i)"
    "foreign st (homes g) (left_from g (Suc i)) q = foreign st (homes g) (left_from g i) q" for buft q
    by (rule bufs_cong, erule eq)+
  show ?thesis
    using assms unfolding free_inv_def c by (auto simp: less_Suc_eq Suc_le_eq)
qed

lemma free_inv_step:
  assumes "free_inv g st0 i st" "i \<in> homes g" "ga_buffers g ! i \<noteq> 0"
  shows "\<exists>st'. ggml_vbuffer_free st (ga_buffers g ! i) = Some st' \<and> free_inv g st0 (Suc i) st'"
proof -
  let ?H = "homes g" and ?b = "left_from g i" and ?p = "ga_buffers g ! i"
  have sep: "bufs_sep st ?H ((!) (ga_bufts g)) ?b"
    and same: "\<And>h. h \<in> ?H \<Longrightarrow> i \<le> h \<Longrightarrow> ga_buffers g ! h \<noteq> 0 \<Longrightarrow> same_buf st0 st (ga_buffers g ! h)"
    and freed: "\<And>h. h \<in> ?H \<Longrightarrow> h < i \<Longrightarrow> ga_buffers g ! h \<noteq> 0 \<Longrightarrow> vb_deref st (ga_buffers g ! h) = None
          \<and> (\<forall>c \<in> chunk_set st0 (ga_buffers g ! h). bb_deref st c = None)"
    and far: "\<And>q. not_ours g st0 q \<Longrightarrow> foreign st ?H ?b q \<and> bb_deref st q = bb_deref st0 q"
    using assms(1) unfolding free_inv_def by blast+
  have b: "?b i = ?p" by (simp add: left_from_def)
  have "buf_wf st (ga_bufts g ! i) ?p" using bufs_sepD(2) [OF sep assms(2)] b assms(3) by simp
  then obtain st' where f: "ggml_vbuffer_free st ?p = Some st'" using vbuffer_free_total assms(3) by blast
  then have f': "ggml_vbuffer_free st (?b i) = Some st'" using b by simp
  note fr = free_beside [OF sep assms(2) f'] and e = vbuffer_free_effect [OF bufs_sepD(1) [OF sep] f]
  have mine: "chunk_set st ?p = chunk_set st0 ?p" using same_buf_D(1) [OF same [OF assms(2) order_refl assms(3)]] .
  have s1: "bufs_sep st' ?H ((!) (ga_bufts g)) (left_from g (Suc i))" using fr(1) left_from_Suc by simp
  have s2: "same_buf st0 st' (ga_buffers g ! h)" if "h \<in> ?H" "Suc i \<le> h" "ga_buffers g ! h \<noteq> 0" for h
  proof -
    have "?b h = ga_buffers g ! h" "h \<noteq> i" using that(2) by (simp_all add: left_from_def)
    then have "same_buf st st' (ga_buffers g ! h)" using fr(2) [of h] that by simp
    moreover have "same_buf st0 st (ga_buffers g ! h)" using same that by simp
    ultimately show ?thesis by (simp add: same_buf_def chunk_set_def)
  qed
  have s3: "vb_deref st' (ga_buffers g ! h) = None \<and> (\<forall>c \<in> chunk_set st0 (ga_buffers g ! h). bb_deref st' c = None)"
    if "h \<in> ?H" "h < Suc i" "ga_buffers g ! h \<noteq> 0" for h
  proof (cases "h = i")
    case True
    then show ?thesis using e(1,2) assms(3) mine by simp
  next
    case False
    then show ?thesis using freed [of h] that e(1,2) by simp
  qed
  have s4: "foreign st' ?H (left_from g (Suc i)) q \<and> bb_deref st' q = bb_deref st0 q" if "not_ours g st0 q" for q
    using far [OF that] fr(3) [of q] left_from_Suc by simp
  have "free_inv g st0 (Suc i) st'" unfolding free_inv_def using s1 s2 s3 s4 by blast
  then show ?thesis using f by blast
qed

lemma home_in_take:
  assumes "galloc_store_ok g st" "buffers_shared g" "i < n_buffers g" "ga_buffers g ! i \<noteq> 0"
  shows "ga_buffers g ! i \<in> set (take i (ga_buffers g)) \<longleftrightarrow> i \<notin> homes g"
proof -
  have len: "length (ga_buffers g) = n_buffers g" and sep: "bufs_sep st (homes g) ((!) (ga_bufts g)) ((!) (ga_buffers g))"
    using assms(1) by (simp_all add: galloc_store_ok_def ga_config_def)
  note h = home_of_props [OF assms(3)]
  have sh: "ga_buffers g ! j = ga_buffers g ! home_of g j" if "j < n_buffers g" for j
    using assms(2) that by (simp add: buffers_shared_def)
  show ?thesis
  proof
    assume "ga_buffers g ! i \<in> set (take i (ga_buffers g))"
    then obtain j where j: "j < i" "ga_buffers g ! j = ga_buffers g ! i" using len assms(3) by (auto simp: in_set_conv_nth)
    show "i \<notin> homes g"
    proof
      assume i: "i \<in> homes g"
      have jn: "j < n_buffers g" using j(1) assms(3) by simp
      note hj = home_of_props [OF jn]
      have "home_of g j \<noteq> i" "ga_buffers g ! home_of g j = ga_buffers g ! i" using hj(1) j sh [OF jn] by simp_all
      then show False using bufs_sepD(3) [OF sep hj(3) i] assms(4) by simp
    qed
  next
    assume "i \<notin> homes g"
    then have lt: "home_of g i < i" using h by (cases "home_of g i = i") auto
    then have "take i (ga_buffers g) ! home_of g i = ga_buffers g ! i" using sh [OF assms(3)] by simp
    then show "ga_buffers g ! i \<in> set (take i (ga_buffers g))" using lt len assms(3) by (metis length_take min.strict_order_iff nth_mem less_imp_le min.absorb2)
  qed
qed

text \<open>
  C13: freeing an allocator whose buffers are well-formed (\<open>galloc_store_ok\<close>) and whose positions with
  one allocator hold one buffer (\<open>buffers_shared\<close>) succeeds: every virtual buffer and every chunk is
  freed exactly once (freeing one that is not there, or not there any more, has no result in the
  model), and the buffers of others stay as they are.
\<close>

theorem ggml_gallocr_free_releases:
  assumes "galloc_store_ok g st" "buffers_shared g"
  shows "\<exists>st'. ggml_gallocr_free st g = Some st'
    \<and> (\<forall>i < n_buffers g. ga_buffers g ! i \<noteq> 0 \<longrightarrow> vb_deref st' (ga_buffers g ! i) = None
         \<and> (\<forall>c \<in> chunk_set st (ga_buffers g ! i). bb_deref st' c = None))
    \<and> (\<forall>q. not_ours g st q \<longrightarrow> bb_deref st' q = bb_deref st q)"
proof -
  let ?f = "\<lambda>i st. if ga_buffers g ! i \<in> set (take i (ga_buffers g)) then Some st else ggml_vbuffer_free st (ga_buffers g ! i)"
  have "left_from g 0 = (!) (ga_buffers g)" by (simp add: left_from_def fun_eq_iff)
  then have "free_inv g st 0 st" using assms(1) by (auto simp: free_inv_def galloc_store_ok_def same_buf_def not_ours_def)
  moreover have "\<exists>s2. ?f i s1 = Some s2 \<and> free_inv g st (Suc i) s2" if i: "i < n_buffers g" and p: "free_inv g st i s1" for i s1
  proof (cases "ga_buffers g ! i = 0")
    case True
    then show ?thesis using free_inv_skip [OF p] by (simp add: ggml_vbuffer_free_def)
  next
    case False
    note t = home_in_take [OF assms i False]
    show ?thesis
    proof (cases "i \<in> homes g")
      case True
      then show ?thesis using t free_inv_step [OF p True False] by simp
    next
      case nh: False
      then show ?thesis using t free_inv_skip [OF p] by simp
    qed
  qed
  ultimately obtain st' where st': "foldM ?f [0..<n_buffers g] st = Some st'" "free_inv g st (n_buffers g) st'"
    using foldM_upt_total [of "n_buffers g" "free_inv g st" ?f] by blast
  have "vb_deref st' (ga_buffers g ! i) = None \<and> (\<forall>c \<in> chunk_set st (ga_buffers g ! i). bb_deref st' c = None)"
    if i: "i < n_buffers g" "ga_buffers g ! i \<noteq> 0" for i
  proof -
    note h = home_of_props [OF i(1)]
    have "ga_buffers g ! i = ga_buffers g ! home_of g i" using assms(2) i(1) by (simp add: buffers_shared_def)
    then show ?thesis using st'(2) h i unfolding free_inv_def by (metis le_less_trans)
  qed
  moreover have "bb_deref st' q = bb_deref st q" if "not_ours g st q" for q
    using st'(2) that unfolding free_inv_def by blast
  ultimately show ?thesis using st'(1) unfolding ggml_gallocr_free_def by blast
qed

theorem ggml_gallocr_free_releases_witness:
  "\<exists>g st st'. ggml_gallocr_reserve_n demo_env plan_state empty_store plan_gallocr plan_cgraph None None = Some (True, g, st)
     \<and> ggml_gallocr_free st g = Some st' \<and> vb_deref st' (ga_buffers g ! 0) = None"
proof -
  obtain g st where r: "ggml_gallocr_reserve_n demo_env plan_state empty_store plan_gallocr plan_cgraph None None = Some (True, g, st)"
    by (rule demo_reserve)
  have ok: "galloc_store_ok g st" "buffers_shared g" and n: "n_buffers g = 1" and nz: "ga_buffers g ! 0 \<noteq> 0"
  proof -
    obtain g1 where p: "gallocr_make_plan plan_backends plan_state plan_gallocr plan_cgraph None None = Some g1"
      and g1: "g = g1\<lparr>ga_buffers := ga_buffers g\<rparr>" and "galloc_store_ok g st"
      and ready: "\<And>i. i < n_buffers g \<Longrightarrow> buf_ready st (ga_bufts g ! i) (talloc_of g i) (ga_buffers g ! i)"
      and "\<And>i. i < n_buffers g \<Longrightarrow> ga_buffers g ! i = ga_buffers g ! home_of g i"
      using demo_setting r unfolding alloc_setting_def
      by (elim conjE reserve_n_ready [of demo_env plan_gallocr empty_store plan_state plan_cgraph None None g st])
        (simp_all add: demo_backend(4))
    then show "galloc_store_ok g st" "buffers_shared g" by (simp_all add: buffers_shared_def)
    have "ga_bufts g1 = ga_bufts plan_gallocr"
      using make_plan_correct [OF plan_heap_ok plan_hyps _ p] by (metis (no_types, lifting) demo_setting alloc_setting_def)
    then show n: "n_buffers g = 1" using g1 by (metis buffers_upd(1) n_buffers_def plan_gallocr_def ggml_gallocr.select_convs(1) length_Cons list.size(3) One_nat_def)
    show "ga_buffers g ! 0 \<noteq> 0" using ready [of 0] n by (simp add: buf_ready_def)
  qed
  obtain st' where "ggml_gallocr_free st g = Some st'"
      "\<forall>i < n_buffers g. ga_buffers g ! i \<noteq> 0 \<longrightarrow> vb_deref st' (ga_buffers g ! i) = None
         \<and> (\<forall>c \<in> chunk_set st (ga_buffers g ! i). bb_deref st' c = None)"
    using ggml_gallocr_free_releases [OF ok] by blast
  then show ?thesis using r n nz by auto
qed

section \<open>A reservation that fails\<close>

lemma vbuffer_free_vb:
  assumes "ggml_vbuffer_free st buf = Some st'" "buf \<noteq> 0"
  shows "vb_deref st' = (vb_deref st)(buf := None)"
  using assms by (auto simp: ggml_vbuffer_free_def bind_eq_Some_conv fun_eq_iff dest!: buffer_free_foldM)

lemma replicate_null: "(replicate n (0 :: ptr))[i := 0] = replicate n 0"
  by (cases "i < n") (auto intro!: nth_equalityI simp: nth_list_update)

lemma buffer_free_nulls: "foldM (\<lambda>c st. ggml_backend_buffer_free st c) (replicate n 0) st = Some st"
  by (induction n) (simp_all add: ggml_backend_buffer_free_def)

lemma alloc_buffer_vb: "ggml_backend_buft_alloc_buffer E st buft sz = Some (c, st') \<Longrightarrow> vb_deref st' = vb_deref st"
  by (auto simp: ggml_backend_buft_alloc_buffer_def ggml_backend_buffer_init_def Let_def fun_eq_iff split: if_splits option.splits)

lemma set_usage_vb: "ggml_backend_buffer_set_usage st c u = Some st' \<Longrightarrow> vb_deref st' = vb_deref st"
  by (auto simp: ggml_backend_buffer_set_usage_def bind_eq_Some_conv fun_eq_iff split: if_splits)

lemma vbuffer_alloc_loop_fails:
  assumes "vbuffer_alloc_loop E buft usage buf sizes n st = Some (0, st')" "buf \<noteq> 0"
  shows "vb_deref st' = (vb_deref st)(buf := None)"
  using assms(1)
proof (induction sizes arbitrary: n st)
  case Nil
  then show ?case using assms(2) by simp
next
  case (Cons sz sizes)
  obtain c st1 chunks where a: "ggml_backend_buft_alloc_buffer E st buft sz = Some (c, st1)"
    and r: "(if c = 0 then do {
       st \<leftarrow> ggml_vbuffer_free (st1\<lparr>bs_vbuffers := (bs_vbuffers st1)(buf \<mapsto> chunks)\<rparr>) buf;
       Some (0, st) }
     else do {
       st \<leftarrow> ggml_backend_buffer_set_usage (st1\<lparr>bs_vbuffers := (bs_vbuffers st1)(buf \<mapsto> chunks)\<rparr>) c usage;
       vbuffer_alloc_loop E buft usage buf sizes (Suc n) st }) = Some (0, st')"
    using Cons.prems by (auto simp: bind_eq_Some_conv Let_def simp del: if_split)
  let ?st = "st1\<lparr>bs_vbuffers := (bs_vbuffers st1)(buf \<mapsto> chunks)\<rparr>"
  have v: "vb_deref ?st = (vb_deref st)(buf \<mapsto> chunks)" using alloc_buffer_vb [OF a] by (auto simp: fun_eq_iff)
  show ?case
  proof (cases "c = 0")
    case True
    then have "ggml_vbuffer_free ?st buf = Some st'" using r by (auto simp: bind_eq_Some_conv)
    then show ?thesis using vbuffer_free_vb [OF _ assms(2)] v by simp
  next
    case False
    then obtain st2 where "ggml_backend_buffer_set_usage ?st c usage = Some st2"
        "vbuffer_alloc_loop E buft usage buf sizes (Suc n) st2 = Some (0, st')"
      using r by (auto simp: bind_eq_Some_conv)
    then show ?thesis using Cons.IH set_usage_vb v by fastforce
  qed
qed

lemma vbuffer_alloc_fails:
  assumes "ggml_vbuffer_alloc E st buft a usage = Some (0, st')" "vb_deref st p = None"
  shows "vb_deref st' p = None"
proof (cases "be_calloc E st = 0")
  case True
  then show ?thesis using assms by (simp add: ggml_vbuffer_alloc_def)
next
  case False
  then have "vbuffer_alloc_loop E buft usage (be_calloc E st) (map max_size (dt_chunks a)) 0
      (st\<lparr>bs_vbuffers := (bs_vbuffers st)(be_calloc E st \<mapsto> replicate GGML_VBUFFER_MAX_CHUNKS 0)\<rparr>) = Some (0, st')"
    using assms(1) by (simp add: ggml_vbuffer_alloc_def Let_def)
  from vbuffer_alloc_loop_fails [OF this False] show ?thesis using assms(2) by simp
qed

lemma failed_reserve_state:
  assumes "alloc_setting E s st g graph" "n_buffers g = 2" "ga_buf_tallocs g = [k, k]" "ga_buffers g = [p, p]" "p \<noteq> 0"
    and "ggml_gallocr_reserve_n E s st g graph nids lids = Some (False, g', st')"
  shows "ga_buffers g' = [0, p]" "n_buffers g' = 2" "vb_deref st' p = None"
proof -
  let ?B = "be_bufts E"
  have h: "backend_ok E" "galloc_store_ok g st" "gallocr_valid g" "sizes_ok ?B s g" "heap_ok (st_tensors s)"
      "plan_graph s (cg_leafs graph) (cg_nodes graph)" "cg_nodes graph \<noteq> []"
    using assms(1) by (simp_all add: alloc_setting_def)
  obtain g1 where p: "gallocr_make_plan ?B s g graph nids lids = Some g1"
    and l: "reserve_loop E False [0..<n_buffers g1] (g1, st) = Some (False, g', st')"
    using assms(6) by (auto simp: ggml_gallocr_reserve_n_def ggml_gallocr_reserve_n_impl_def bind_eq_Some_conv)
  obtain f: "ga_bufts g1 = ga_bufts g" "ga_buffers g1 = ga_buffers g" "ga_buf_tallocs g1 = ga_buf_tallocs g"
      "map dt_alignment (ga_tallocs g1) = map dt_alignment (ga_tallocs g)" and v: "gallocr_valid g1"
    using make_plan_correct [OF h(5,6,3,4,7) p] by metis
  have len: "length (ga_tallocs g1) = length (ga_tallocs g)" using arg_cong [OF f(4), of length] by simp
  have same: "n_buffers g1 = n_buffers g" "home_of g1 = home_of g" "homes g1 = homes g"
    using f by (simp_all add: n_buffers_def home_of_def homes_def fun_eq_iff)
  have cfg: "ga_config g1" using h(2) unfolding galloc_store_ok_def ga_config_def f same len by blast
  have ok1: "galloc_store_ok g1 st" using h(2) cfg unfolding galloc_store_ok_def f same by blast
  then have inv: "reserve_inv g1 st 0 (g1, st)" by (simp add: reserve_inv_def)
  have k: "k < length (ga_tallocs g1)" using cfg assms(3) f(3) by (simp add: ga_config_def)
  have few: "\<forall>a \<in> set (ga_tallocs g1). length (dt_chunks a) \<le> GGML_VBUFFER_MAX_CHUNKS"
    using v by (simp add: gallocr_valid_def dyn_inv_def)
  have n: "n_buffers g1 = 2" using same assms(2) by simp
  have h1: "home_of g1 1 = 0" "1 \<notin> homes g1"
    using assms(3) f(3) by (auto simp: home_of_def homes_def intro!: Least_equality)
  have lst: "[0..<n_buffers g1] = [0, 1]" using n by (simp add: numeral_2_eq_2)
  obtain ok0 ga sta where r0: "reserve_buffer E False 0 (g1, st) = Some (ok0, ga, sta)"
    and r1: "(if ok0 then reserve_loop E False [1] (ga, sta) else Some (False, ga, sta)) = Some (False, g', st')"
    using l [unfolded lst reserve_loop.simps(2) [of E False 0 "[1]"]]
    by (auto simp: bind_eq_Some_conv simp del: reserve_loop.simps if_split)
  have "\<not> ok0"
  proof
    assume ok: ok0
    have i: "reserve_inv g1 st 1 (ga, sta)" using reserve_inv_step [OF h(1) inv _ few, of ga sta] r0 ok n by simp
    then have eq: "ga = g1\<lparr>ga_buffers := ga_buffers ga\<rparr>" and oka: "galloc_store_ok ga sta"
      and ready: "\<forall>h \<in> homes ga. h < 1 \<longrightarrow> buf_ready sta (ga_bufts ga ! h) (talloc_of ga h) (ga_buffers ga ! h)"
      by (simp_all add: reserve_inv_def)
    note u = buffers_upd_core [OF eq]
    have hs: "homes ga = homes g1" "home_of ga = home_of g1" "n_buffers ga = 2"
      using n by (subst eq, simp add: fun_eq_iff)+
    have z: "0 \<in> homes ga" using home_of_props(3) [of 1 ga] hs h1(1) by simp
    have cfga: "ga_config ga" using oka by (simp add: galloc_store_ok_def)
    obtain ok2 where r2: "reserve_buffer E False 1 (ga, sta) = Some (ok2, g', st')" "\<not> ok2"
      using r1 ok by (auto simp: bind_eq_Some_conv split: if_splits)
    have "buf_ready sta (ga_bufts ga ! home_of ga 1) (talloc_of ga (home_of ga 1)) (ga_buffers ga ! home_of ga 1)"
      using ready z hs h1(1) by simp
    moreover have "length (dt_chunks (talloc_of ga 1)) \<le> GGML_VBUFFER_MAX_CHUNKS"
      using few u(1,3) f(3) assms(3) k by simp
    ultimately show False
      using reserve_alias [OF cfga _ _ _ _ r2(1)] hs h1(2) r2(2) by simp
  qed
  then have g': "g' = ga" "st' = sta" using r1 by simp_all
  let ?a = "ga_tallocs g1 ! k"
  obtain r where rl: "realloc_loop st p ?a [0..<length (dt_chunks ?a)] False = Some r"
    and run: "(if r then do {
       st \<leftarrow> ggml_vbuffer_free st p;
       buft \<leftarrow> array_get (ga_bufts g1) 0;
       (buf, st) \<leftarrow> ggml_vbuffer_alloc E st buft ?a GGML_BACKEND_BUFFER_USAGE_COMPUTE;
       Some (buf \<noteq> 0, g1\<lparr>ga_buffers := [buf, p]\<rparr>, st) }
     else Some (True, g1, st)) = Some (False, ga, sta)"
    using r0 \<open>\<not> ok0\<close> k assms(3-5) f
    by (auto simp: reserve_buffer_def array_get_def bind_eq_Some_conv Let_def simp del: if_split cong: if_cong)
  then have r by (cases r) simp_all
  then obtain st1 buft where fr: "ggml_vbuffer_free st p = Some st1"
    and al: "ggml_vbuffer_alloc E st1 buft ?a GGML_BACKEND_BUFFER_USAGE_COMPUTE = Some (0, sta)"
    and ga: "ga = g1\<lparr>ga_buffers := [0, p]\<rparr>"
    using run by (auto simp: bind_eq_Some_conv)
  have "vb_deref st1 p = None" using vbuffer_free_vb [OF fr assms(5)] by simp
  from vbuffer_alloc_fails [OF al this] have none: "vb_deref st' p = None" using g'(2) by simp
  then show "vb_deref st' p = None" .
  show "ga_buffers g' = [0, p]" "n_buffers g' = 2" using ga g'(1) n by simp_all
qed

text \<open>
  C40: an allocator for two equal buffer types is left broken by a reservation that fails. The old
  buffer, which both positions held, is freed and the first position cleared, but the second keeps
  the pointer: freeing the allocator then frees the buffer a second time, and asking for the size of
  the second buffer reads it after it was freed.
\<close>

theorem ggml_gallocr_failed_reserve_dangles:
  assumes "alloc_setting E s st g graph" "n_buffers g = 2" "ga_buf_tallocs g = [k, k]" "ga_buffers g = [p, p]" "p \<noteq> 0"
    and "ggml_gallocr_reserve_n E s st g graph nids lids = Some (False, g', st')"
  shows "ga_buffers g' = [0, p] \<and> vb_deref st' p = None \<and> ggml_gallocr_free st' g' = None
    \<and> ggml_gallocr_get_buffer_size st' g' 1 = None"
proof -
  note f = failed_reserve_state [OF assms]
  have "ggml_gallocr_free st' g' = None"
    using f assms(5) by (simp add: ggml_gallocr_free_def numeral_2_eq_2 ggml_vbuffer_free_def)
  moreover have "ggml_gallocr_get_buffer_size st' g' 1 = None"
    using f assms(5) by (simp add: ggml_gallocr_get_buffer_size_def ggml_vbuffer_size_def)
  ultimately show ?thesis using f by blast
qed

text \<open>
  Two equal buffer types, one empty buffer (as an earlier reservation for empty tensors leaves it),
  and a backend that is out of memory.
\<close>

definition twice_gallocr :: ggml_gallocr where
  "twice_gallocr = plan_gallocr\<lparr>ga_bufts := [8, 8], ga_buffers := [100, 100], ga_buf_tallocs := [0, 0]\<rparr>"

definition twice_store :: backend_store where
  "twice_store = \<lparr>bs_buffers = [200 \<mapsto> demo_buffer 8 0], bs_vbuffers = [100 \<mapsto> 200 # replicate 15 0]\<rparr>"

definition full_env :: backend_env where
  "full_env = demo_env\<lparr>be_alloc_buffer := \<lambda>st buft sz. None\<rparr>"

lemma twice_plan: "\<exists>g ch. gallocr_make_plan plan_backends plan_state twice_gallocr plan_cgraph None None = Some g
   \<and> ga_bufts g = [8, 8] \<and> ga_buffers g = [100, 100] \<and> ga_buf_tallocs g = [0, 0]
   \<and> (\<exists>a. ga_tallocs g = [a] \<and> dt_chunks a = [ch]) \<and> 0 < max_size ch"
  by (simp add: plan_run_eval plan_cgraph_def plan_gallocr_def twice_gallocr_def)

lemma full_alloc:
  assumes "dt_chunks a = [ch]" "0 < max_size ch"
  shows "\<exists>st'. ggml_vbuffer_alloc full_env st 8 a usage = Some (0, st')"
proof -
  have e: "be_calloc full_env st \<noteq> 0" "be_alloc_buffer full_env st' buft sz = None" for st st' buft sz
    by (simp_all add: full_env_def demo_env_def fresh_object_def)
  have "ggml_backend_buft_alloc_buffer full_env st' 8 (max_size ch) = Some (0, st')" for st'
    using assms(2) e(2) by (simp add: ggml_backend_buft_alloc_buffer_def)
  then show ?thesis
    using assms(1) e(1) by (simp add: ggml_vbuffer_alloc_def Let_def array_set_def ggml_vbuffer_free_def buffer_free_nulls
        replicate_null)
qed

lemma twice_reserve:
  "\<exists>g st. ggml_gallocr_reserve_n full_env plan_state twice_store twice_gallocr plan_cgraph None None = Some (False, g, st)"
proof -
  obtain g ch a where p: "gallocr_make_plan plan_backends plan_state twice_gallocr plan_cgraph None None = Some g"
    and f: "ga_bufts g = [8, 8]" "ga_buffers g = [100, 100]" "ga_buf_tallocs g = [0, 0]"
    and a: "ga_tallocs g = [a]" "dt_chunks a = [ch]" "0 < max_size ch"
    using twice_plan by blast
  have e: "be_bufts full_env = plan_backends" "be_calloc full_env st = fresh_object st" "be_alloc_buffer full_env st buft sz = None"
    for st buft sz by (simp_all add: full_env_def demo_env_def)
  have vb: "vb_deref twice_store 100 = Some (200 # replicate 15 0)" by (simp add: vb_deref_def twice_store_def)
  have "ggml_vbuffer_chunk_size twice_store 100 0 = Some 0"
    using chunk_size_eq [OF vb, of 0] by (simp add: bb_deref_def twice_store_def demo_buffer_def)
  then have rl: "realloc_loop twice_store 100 a [0..<length (dt_chunks a)] False = Some True"
    using a by (simp add: ggml_dyn_tallocr_max_size_def)
  obtain st1 where fr: "ggml_vbuffer_free twice_store 100 = Some st1" 
  proof -
    have "\<exists>st1. ggml_backend_buffer_free twice_store 200 = Some st1"
      by (simp add: ggml_backend_buffer_free_def bb_deref_def twice_store_def)
    then show thesis using vb that by (auto simp: ggml_vbuffer_free_def buffer_free_nulls)
  qed
  obtain st2 where al: "ggml_vbuffer_alloc full_env st1 8 a GGML_BACKEND_BUFFER_USAGE_COMPUTE = Some (0, st2)"
    using full_alloc a by blast
  have "\<exists>g' st'. reserve_buffer full_env False 0 (g, twice_store) = Some (False, g', st')"
    using f a(1) rl fr al
    by (simp add: reserve_buffer_def array_get_def Let_def del: realloc_loop.simps upt_conv_Nil cong: if_cong)
  then obtain g' st' where r: "reserve_buffer full_env False 0 (g, twice_store) = Some (False, g', st')" by blast
  have "[0..<n_buffers g] = [0, 1]" using f(1) by (simp add: n_buffers_def)
  then have "reserve_loop full_env False [0..<n_buffers g] (g, twice_store) = Some (False, g', st')" using r by simp
  then show ?thesis using p e(1) by (simp add: ggml_gallocr_reserve_n_def ggml_gallocr_reserve_n_impl_def)
qed

lemma twice_setting: "alloc_setting full_env plan_state twice_store twice_gallocr plan_cgraph"
proof -
  have ok: "backend_ok full_env"
    using demo_backend(1) by (simp add: backend_ok_def full_env_def)
  have cfg: "ga_config twice_gallocr"
    by (auto simp: ga_config_def n_buffers_def twice_gallocr_def plan_gallocr_def less_Suc_eq)
  have hs: "homes twice_gallocr = {0}"
    by (auto simp: homes_def n_buffers_def home_of_def twice_gallocr_def less_Suc_eq intro!: Least_equality)
  have "good_buffer 8 (demo_buffer 8 0)" by (simp add: good_buffer_def demo_buffer_def)
  then have "buf_wf twice_store 8 100"
    by (auto simp: buf_wf_def twice_store_def vb_deref_def bb_deref_def apart_def nth_Cons split: nat.splits)
  then have "galloc_store_ok twice_gallocr twice_store"
    using cfg by (simp add: galloc_store_ok_def bufs_sep_def hs)
      (simp add: twice_gallocr_def twice_store_def finite_store_def)
  moreover have "gallocr_valid twice_gallocr" using plan_hyps(2) by (simp add: gallocr_valid_def twice_gallocr_def)
  moreover have "sizes_ok plan_backends plan_state twice_gallocr"
    using plan_deref_cases
    by (fastforce simp: sizes_ok_def alloc_size_in_def buft_at_def array_get_def twice_gallocr_def plan_gallocr_def talloc_at_def
        talloc_index_def dyn_request_ok_def plan_alloc_size nth_Cons split: if_splits nat.splits)
  moreover have "others_ok twice_gallocr twice_store plan_state"
    using plan_deref_cases by (fastforce simp: others_ok_def)
  moreover have "sizes_stable (be_bufts full_env)" "be_bufts full_env = plan_backends"
    using demo_backend(3,4) by (simp_all add: full_env_def)
  ultimately show ?thesis
    using demo_setting ok unfolding alloc_setting_def by (simp add: demo_backend(4))
qed

theorem ggml_gallocr_failed_reserve_dangles_witness:
  "\<exists>g st. ggml_gallocr_reserve_n full_env plan_state twice_store twice_gallocr plan_cgraph None None = Some (False, g, st)
     \<and> ga_buffers g = [0, 100] \<and> ggml_gallocr_free st g = None"
proof -
  obtain g st where r: "ggml_gallocr_reserve_n full_env plan_state twice_store twice_gallocr plan_cgraph None None = Some (False, g, st)"
    using twice_reserve by blast
  have "n_buffers twice_gallocr = 2" "ga_buf_tallocs twice_gallocr = [0, 0]" "ga_buffers twice_gallocr = [100, 100]" "(100 :: ptr) \<noteq> 0"
    by (simp_all add: n_buffers_def twice_gallocr_def)
  from ggml_gallocr_failed_reserve_dangles [OF twice_setting this r] show ?thesis using r by blast
qed

section \<open>Buffers without a base\<close>

text \<open>
  An allocator that hands out only empty ranges gets a dummy buffer of size 0, which has no base. A
  tensor placed there has a buffer but still no address, so the next node that reads it places it
  again, and the assertion that it has no buffer yet fails.
\<close>

lemma init_tensor_empty_buffer:
  assumes "deref s p = Some t" "t_buffer t = 0" "t_data t = 0" "t_view_src t = 0"
    and "ga_buffers g = [v]" "vb_deref st v = Some (c # cs)" "c \<noteq> 0" "bb_deref st c = Some b"
    and "bb_size b = 0" "bb_init_tensor b = None" "\<not> bb_is_meta b"
    and "ggml_backend_buft_get_alloc_size (be_bufts E) s (bb_buft b) p = Some 0"
  shows "\<exists>s'. ggml_gallocr_init_tensor E st g p \<lparr>ta_buffer_id = 0, ta_addr = \<lparr>ba_chunk = 0, ba_offset = 0\<rparr>, ta_size_max = 0\<rparr> s = Some s'
    \<and> ggml_gallocr_init_tensor E st g p \<lparr>ta_buffer_id = 0, ta_addr = \<lparr>ba_chunk = 0, ba_offset = 0\<rparr>, ta_size_max = 0\<rparr> s' = None"
proof -
  let ?ta = "\<lparr>ta_buffer_id = 0, ta_addr = \<lparr>ba_chunk = 0, ba_offset = 0\<rparr>, ta_size_max = 0\<rparr>"
  let ?s = "upd s p (\<lambda>t. t\<lparr>t_buffer := c, t_data := 0\<rparr>)"
  have base: "ggml_backend_buffer_get_base st c = Some 0"
    using assms(7,8,9,11) by (simp add: ggml_backend_buffer_get_base_def)
  have z: "sz_add 0 0 = 0" by (simp add: sz_add_def)
  have first: "ggml_gallocr_init_tensor E st g p ?ta s = Some ?s"
    using assms base
    by (simp add: ggml_gallocr_init_tensor_def array_get_def ggml_vbuffer_tensor_alloc_def ggml_backend_tensor_alloc_def
        ggml_backend_buffer_init_tensor_def z Let_def)
  have d: "deref ?s p = Some (t\<lparr>t_buffer := c, t_data := 0\<rparr>)" using assms(1) by (simp add: deref_upd_same)
  have "ggml_gallocr_init_tensor E st g p ?ta ?s = None"
    using assms(4-7) base
    by (simp add: ggml_gallocr_init_tensor_def array_get_def ggml_vbuffer_tensor_alloc_def ggml_backend_tensor_alloc_def z d)
  with first show ?thesis by blast
qed

end
