(* ===== verification/GGML_CtxAlloc.thy ===== *)
theory GGML_CtxAlloc
  imports GGML_GallocRun GGML_Pool
begin

text \<open>
  Memory for all tensors of a context, the rest of \<^verbatim>\<open>ggml/src/ggml-alloc.c\<close>: the linear allocator
  \<^verbatim>\<open>ggml_tallocr\<close>, which hands out the bytes of one buffer from the start to the end, and
  \<^verbatim>\<open>ggml_backend_alloc_ctx_tensors_from_buft\<close>, which splits the tensors of a context into ranges
  that fit into a buffer and places each range with an allocator of its own. The multi-buffer of
  \<^verbatim>\<open>ggml-backend.cpp\<close>, which stands for several buffers, is modelled as far as it is used here.
\<close>

section \<open>The linear allocator\<close>

definition ggml_backend_buffer_get_alignment :: "backend_env \<Rightarrow> backend_store \<Rightarrow> ptr \<Rightarrow> size_t option" where
  "ggml_backend_buffer_get_alignment E st buffer = do {
     ggml_assert (buffer \<noteq> 0);
     b \<leftarrow> bb_deref st buffer;
     ggml_backend_buft_get_alignment (be_bufts E) (bb_buft b) }"

definition ggml_backend_buffer_get_alloc_size ::
  "backend_env \<Rightarrow> backend_store \<Rightarrow> ggml_state \<Rightarrow> ptr \<Rightarrow> ptr \<Rightarrow> size_t option" where
  "ggml_backend_buffer_get_alloc_size E st s buffer tensor = do {
     ggml_assert (buffer \<noteq> 0);
     b \<leftarrow> bb_deref st buffer;
     ggml_backend_buft_get_alloc_size (be_bufts E) s (bb_buft b) tensor }"

record ggml_tallocr =
  tl_buffer :: ptr
  tl_base :: ptr
  tl_alignment :: size_t
  tl_offset :: size_t

text \<open>An alignment of zero would be a division by zero.\<close>

definition ggml_tallocr_new :: "backend_env \<Rightarrow> backend_store \<Rightarrow> ptr \<Rightarrow> ggml_tallocr option" where
  "ggml_tallocr_new E st buffer = do {
     base \<leftarrow> ggml_backend_buffer_get_base st buffer;
     align \<leftarrow> ggml_backend_buffer_get_alignment E st buffer;
     ggml_assert (align \<noteq> 0);
     Some \<lparr>tl_buffer = buffer, tl_base = base, tl_alignment = align, tl_offset = aligned_offset base 0 align\<rparr> }"

text \<open>
  The status of \<^verbatim>\<open>init_tensor\<close>, which \<^verbatim>\<open>ggml_backend_tensor_alloc\<close> and \<^verbatim>\<open>ggml_backend_view_init\<close> return:
  \<open>t\<close> is the descriptor as the function gets it.
\<close>

definition init_tensor_status :: "backend_store \<Rightarrow> ptr \<Rightarrow> ggml_tensor \<Rightarrow> bool option" where
  "init_tensor_status st buffer t = do {
     b \<leftarrow> bb_deref st buffer;
     Some (bb_init_tensor b = None \<or> bb_init_ok b t) }"

definition tensor_alloc_status ::
  "backend_env \<Rightarrow> backend_store \<Rightarrow> ggml_state \<Rightarrow> ptr \<Rightarrow> ptr \<Rightarrow> ptr \<Rightarrow> (bool \<times> ggml_state) option" where
  "tensor_alloc_status E st s buffer tensor addr = do {
     t \<leftarrow> deref s tensor;
     s \<leftarrow> ggml_backend_tensor_alloc E st s buffer tensor addr;
     ok \<leftarrow> init_tensor_status st buffer (t\<lparr>t_buffer := buffer, t_data := addr\<rparr>);
     Some (ok, s) }"

definition view_init_status :: "backend_store \<Rightarrow> ggml_state \<Rightarrow> ptr \<Rightarrow> (bool \<times> ggml_state) option" where
  "view_init_status st s tensor = do {
     t \<leftarrow> deref s tensor;
     v \<leftarrow> deref s (t_view_src t);
     s \<leftarrow> ggml_backend_view_init st s tensor;
     ok \<leftarrow> init_tensor_status st (t_buffer v) (t\<lparr>t_buffer := t_buffer v, t_data := sz_add (t_data v) (t_view_offs t)\<rparr>);
     Some (ok, s) }"

definition ggml_tallocr_alloc ::
  "backend_env \<Rightarrow> backend_store \<Rightarrow> ggml_tallocr \<Rightarrow> ptr \<Rightarrow> ggml_state \<Rightarrow> (bool \<times> ggml_tallocr \<times> ggml_state) option" where
  "ggml_tallocr_alloc E st talloc tensor s = do {
     sz \<leftarrow> ggml_backend_buffer_get_alloc_size E st s (tl_buffer talloc) tensor;
     let sz = GGML_PAD sz (tl_alignment talloc);
     n \<leftarrow> ggml_backend_buffer_get_size st (tl_buffer talloc);
     ggml_assert (sz_add (tl_offset talloc) sz \<le> n);
     base \<leftarrow> ggml_backend_buffer_get_base st (tl_buffer talloc);
     let addr = sz_add base (tl_offset talloc);
     let talloc = talloc\<lparr>tl_offset := sz_add (tl_offset talloc) sz\<rparr>;
     (ok, s) \<leftarrow> tensor_alloc_status E st s (tl_buffer talloc) tensor addr;
     Some (ok, talloc, s) }"

section \<open>Placing a range of tensors\<close>

definition alloc_range_tensor ::
  "backend_env \<Rightarrow> backend_store \<Rightarrow> ggml_tallocr \<Rightarrow> ptr \<Rightarrow> ggml_state \<Rightarrow> (bool \<times> ggml_tallocr \<times> ggml_state) option" where
  "alloc_range_tensor E st talloc tensor s = do {
     t \<leftarrow> deref s tensor;
     if t_data t = 0 \<and> t_view_src t = 0 then ggml_tallocr_alloc E st talloc tensor s
     else if t_view_src t \<noteq> 0 \<and> t_buffer t = 0 then do {
       (ok, s) \<leftarrow> view_init_status st s tensor;
       Some (ok, talloc, s) }
     else Some (True, talloc, s) }"

partial_function (option) alloc_range_loop ::
  "backend_env \<Rightarrow> backend_store \<Rightarrow> ptr \<Rightarrow> ptr \<Rightarrow> ggml_tallocr \<Rightarrow> ggml_state \<Rightarrow> (bool \<times> ggml_state) option" where
  "alloc_range_loop E st stop t talloc s =
     (if t = stop then Some (True, s)
      else do {
        (ok, talloc, s) \<leftarrow> alloc_range_tensor E st talloc t s;
        if \<not> ok then Some (False, s)
        else do {
          t \<leftarrow> ggml_get_next_tensor s t;
          alloc_range_loop E st stop t talloc s } })"

definition free_buffers :: "backend_store \<Rightarrow> ptr list \<Rightarrow> backend_store option" where
  "free_buffers st buffers = foldM (\<lambda>b st. ggml_backend_buffer_free st b) buffers st"

text \<open>
  The tensors from \<open>first\<close> up to \<open>stop\<close> (\<^verbatim>\<open>last\<close>) get a new buffer, which is appended to \<open>buffers\<close>. On failure
  all buffers are freed.
\<close>

definition alloc_tensor_range ::
  "backend_env \<Rightarrow> ptr \<Rightarrow> ptr \<Rightarrow> ptr \<Rightarrow> size_t \<Rightarrow> ptr list \<Rightarrow> backend_store \<Rightarrow> ggml_state
   \<Rightarrow> (bool \<times> ptr list \<times> backend_store \<times> ggml_state) option" where
  "alloc_tensor_range E first stop buft sz buffers st s = do {
     (buffer, st) \<leftarrow> ggml_backend_buft_alloc_buffer E st buft sz;
     if buffer = 0 then do {
       st \<leftarrow> free_buffers st buffers;
       Some (False, [], st, s) }
     else do {
       let buffers = buffers @ [buffer];
       talloc \<leftarrow> ggml_tallocr_new E st buffer;
       (ok, s) \<leftarrow> alloc_range_loop E st stop first talloc s;
       if \<not> ok then do {
         st \<leftarrow> free_buffers st buffers;
         Some (False, [], st, s) }
       else Some (True, buffers, st, s) } }"

section \<open>The tensors of a context\<close>

text \<open>The variables of \<^verbatim>\<open>ggml_backend_alloc_ctx_tensors_from_buft_impl\<close> that its loop changes.\<close>

record ctx_alloc =
  ca_first :: ptr
  ca_cur_buf_size :: size_t
  ca_nbytes_total :: size_t
  ca_buffers :: "ptr list"
  ca_store :: backend_store
  ca_state :: ggml_state

definition ctx_tensor_size :: "backend_env \<Rightarrow> ptr \<Rightarrow> size_t \<Rightarrow> ggml_state \<Rightarrow> ptr \<Rightarrow> size_t option" where
  "ctx_tensor_size E buft alignment s tensor = do {
     t \<leftarrow> deref s tensor;
     if t_data t = 0 \<and> t_view_src t = 0 then do {
       n \<leftarrow> ggml_backend_buft_get_alloc_size (be_bufts E) s buft tensor;
       Some (GGML_PAD n alignment) }
     else Some 0 }"

text \<open>The call \<^verbatim>\<open>no_alloc || alloc_tensor_range(ctx, first, last, ...)\<close>, with the size of the range.\<close>

definition ctx_alloc_range :: "backend_env \<Rightarrow> ptr \<Rightarrow> bool \<Rightarrow> ptr \<Rightarrow> ctx_alloc \<Rightarrow> (bool \<times> ctx_alloc) option" where
  "ctx_alloc_range E buft no_alloc stop c =
     (if no_alloc then Some (True, c)
      else do {
        (ok, buffers, st, s) \<leftarrow>
          alloc_tensor_range E (ca_first c) stop buft (ca_cur_buf_size c) (ca_buffers c) (ca_store c) (ca_state c);
        Some (ok, c\<lparr>ca_buffers := buffers, ca_store := st, ca_state := s\<rparr>) })"

partial_function (option) ctx_alloc_loop ::
  "backend_env \<Rightarrow> ptr \<Rightarrow> size_t \<Rightarrow> size_t \<Rightarrow> bool \<Rightarrow> ptr \<Rightarrow> ctx_alloc \<Rightarrow> (bool \<times> ctx_alloc) option" where
  "ctx_alloc_loop E buft alignment max_sz no_alloc t c =
     (if t = 0 then Some (True, c)
      else do {
        this_size \<leftarrow> ctx_tensor_size E buft alignment (ca_state c) t;
        (ok, c) \<leftarrow> (if ca_cur_buf_size c > 0 \<and> sz_add (ca_cur_buf_size c) this_size > max_sz then do {
            (ok, c) \<leftarrow> ctx_alloc_range E buft no_alloc t c;
            Some (ok, if ok then c\<lparr>ca_first := t, ca_nbytes_total := sz_add (ca_nbytes_total c) (ca_cur_buf_size c),
                                  ca_cur_buf_size := this_size\<rparr> else c) }
          else Some (True, c\<lparr>ca_cur_buf_size := sz_add (ca_cur_buf_size c) this_size\<rparr>));
        if \<not> ok then Some (False, c)
        else do {
          t \<leftarrow> ggml_get_next_tensor (ca_state c) t;
          ctx_alloc_loop E buft alignment max_sz no_alloc t c } })"

fun buffer_sizes :: "backend_store \<Rightarrow> ptr list \<Rightarrow> size_t \<Rightarrow> size_t option" where
  "buffer_sizes st [] acc = Some acc"
| "buffer_sizes st (b # bs) acc = do {
     n \<leftarrow> ggml_backend_buffer_get_size st b;
     buffer_sizes st bs (sz_add acc n) }"

definition ggml_backend_multi_buffer_alloc_buffer :: "backend_env \<Rightarrow> backend_store \<Rightarrow> ptr list \<Rightarrow> (ptr \<times> backend_store) option" where
  "ggml_backend_multi_buffer_alloc_buffer E st buffers = do {
     total_size \<leftarrow> buffer_sizes st buffers 0;
     b0 \<leftarrow> bb_deref st (buffers ! 0);
     let (buffer, st) = ggml_backend_buffer_init E st (bb_buft b0) total_size;
     b \<leftarrow> bb_deref st buffer;
     Some (buffer, st\<lparr>bs_buffers := (bs_buffers st)(buffer \<mapsto> b\<lparr>bb_buffers := buffers\<rparr>)\<rparr>) }"

text \<open>\<^verbatim>\<open>ggml_backend_buffer_free\<close> of a multi-buffer frees its parts first.\<close>

definition ggml_backend_multi_buffer_free_buffer :: "backend_store \<Rightarrow> ptr \<Rightarrow> backend_store option" where
  "ggml_backend_multi_buffer_free_buffer st buffer = do {
     ggml_assert (buffer \<noteq> 0);
     b \<leftarrow> bb_deref st buffer;
     free_buffers st (bb_buffers b) }"

text \<open>The results are the buffer (or \<^verbatim>\<open>NULL\<close>), \<^verbatim>\<open>nbytes_total\<close>, and the state of the backend and the tensors.\<close>

definition ggml_backend_alloc_ctx_tensors_from_buft_impl ::
  "backend_env \<Rightarrow> backend_store \<Rightarrow> ggml_state \<Rightarrow> ptr \<Rightarrow> bool \<Rightarrow> (ptr \<times> size_t \<times> backend_store \<times> ggml_state) option" where
  "ggml_backend_alloc_ctx_tensors_from_buft_impl E st s buft no_alloc = do {
     ggml_assert (ggml_get_no_alloc s);
     alignment \<leftarrow> ggml_backend_buft_get_alignment (be_bufts E) buft;
     max_sz \<leftarrow> ggml_backend_buft_get_max_size (be_bufts E) buft;
     first \<leftarrow> ggml_get_first_tensor s;
     (ok, c) \<leftarrow> ctx_alloc_loop E buft alignment max_sz no_alloc first
       \<lparr>ca_first = first, ca_cur_buf_size = 0, ca_nbytes_total = 0, ca_buffers = [], ca_store = st, ca_state = s\<rparr>;
     if \<not> ok then Some (0, ca_nbytes_total c, ca_store c, ca_state c)
     else do {
       (ok, c) \<leftarrow> (if ca_cur_buf_size c > 0
         then ctx_alloc_range E buft no_alloc 0 (c\<lparr>ca_nbytes_total := sz_add (ca_nbytes_total c) (ca_cur_buf_size c)\<rparr>)
         else Some (True, c));
       if \<not> ok \<or> no_alloc \<or> ca_buffers c = [] then Some (0, ca_nbytes_total c, ca_store c, ca_state c)
       else if length (ca_buffers c) = 1 then Some (ca_buffers c ! 0, ca_nbytes_total c, ca_store c, ca_state c)
       else do {
         (buffer, st) \<leftarrow> ggml_backend_multi_buffer_alloc_buffer E (ca_store c) (ca_buffers c);
         Some (buffer, ca_nbytes_total c, st, ca_state c) } } }"

definition ggml_backend_alloc_ctx_tensors_from_buft_size ::
  "backend_env \<Rightarrow> backend_store \<Rightarrow> ggml_state \<Rightarrow> ptr \<Rightarrow> size_t option" where
  "ggml_backend_alloc_ctx_tensors_from_buft_size E st s buft = do {
     (buf, nbytes_total, st, s) \<leftarrow> ggml_backend_alloc_ctx_tensors_from_buft_impl E st s buft True;
     ggml_assert (buf = 0);
     Some nbytes_total }"

text \<open>Buffer types of a \<^verbatim>\<open>meta\<close> backend have an allocation function of their own, a parameter here.\<close>

definition ggml_backend_alloc_ctx_tensors_from_buft ::
  "backend_env \<Rightarrow> (ptr \<Rightarrow> bool) \<Rightarrow> (backend_store \<Rightarrow> ggml_state \<Rightarrow> ptr \<Rightarrow> (ptr \<times> backend_store \<times> ggml_state) option)
   \<Rightarrow> backend_store \<Rightarrow> ggml_state \<Rightarrow> ptr \<Rightarrow> (ptr \<times> backend_store \<times> ggml_state) option" where
  "ggml_backend_alloc_ctx_tensors_from_buft E is_meta meta_alloc st s buft =
     (if is_meta buft then meta_alloc st s buft
      else do {
        (buf, _, st, s) \<leftarrow> ggml_backend_alloc_ctx_tensors_from_buft_impl E st s buft False;
        Some (buf, st, s) })"

end
