(* ===== verification/GGML_CtxAllocOk.thy ===== *)
theory GGML_CtxAllocOk
  imports GGML_CtxAlloc GGML_GallocAlloc
begin

text \<open>
  Every tensor of a context gets memory of its own. \<open>wants_mem\<close> are the tensors without memory that
  are no views, \<open>mem_need\<close> the padded size of a tensor that wants memory. \<open>ctx_placed\<close> is the
  invariant of the loops: what has been placed lies inside the new buffers, apart from everything
  else that has been placed, and views lie inside their bases. The theorems follow from it: the
  placement is right, it fails only when a buffer or a tensor cannot be initialised, and then
  everything is given back.
\<close>

section \<open>The list of tensors\<close>

definition hd0 :: "ptr list \<Rightarrow> ptr" where
  "hd0 ps = (case ps of [] \<Rightarrow> 0 | p # _ \<Rightarrow> p)"

lemma hd0_simps [simp]: "hd0 [] = 0" "hd0 (p # ps) = p"
  by (simp_all add: hd0_def)

definition ctx_tensors :: "ggml_state \<Rightarrow> ptr set" where
  "ctx_tensors s = {p \<in> dom (st_tensors s). in_pool s p}"

text \<open>Steps that change only where tensors lie.\<close>

definition ctx_same :: "ggml_state \<Rightarrow> ggml_state \<Rightarrow> bool" where
  "ctx_same s s' \<longleftrightarrow> st_ctx s' = st_ctx s \<and> st_objects s' = st_objects s \<and> same_layout s s'"

lemma ctx_same_refl [simp]: "ctx_same s s"
  by (simp add: ctx_same_def)

lemma ctx_same_trans: "ctx_same s s' \<Longrightarrow> ctx_same s' s'' \<Longrightarrow> ctx_same s s''"
  by (simp add: ctx_same_def same_layout_def)

lemma ctx_same_upd: "(\<And>t. strip (f t) = strip t) \<Longrightarrow> ctx_same s (upd s p f)"
  using same_layout_upd [OF same_layout_refl, of f s p] by (simp add: ctx_same_def upd_def)

lemma strip_more:
  assumes "strip t' = strip t"
  shows "t_op t' = t_op t" "t_op_params t' = t_op_params t" "t_name t' = t_name t" "tensor_wf t' = tensor_wf t"
proof -
  show f: "t_op t' = t_op t" "t_op_params t' = t_op_params t" "t_name t' = t_name t"
    using arg_cong [OF assms, of t_op] arg_cong [OF assms, of t_op_params] arg_cong [OF assms, of t_name]
    by (simp_all add: strip_def)
  then show "tensor_wf t' = tensor_wf t" using strip_D [OF assms] by (simp add: tensor_wf_def)
qed

lemma same_layout_heap_ok:
  assumes "same_layout s s'" "heap_ok (st_tensors s)"
  shows "heap_ok (st_tensors s')" "dom (st_tensors s') = dom (st_tensors s)"
proof -
  have e: "map_option strip (st_tensors s' p) = map_option strip (st_tensors s p)" for p
    using assms(1) by (simp add: same_layout_def deref_def)
  show d: "dom (st_tensors s') = dom (st_tensors s)"
  proof (rule set_eqI)
    fix p show "p \<in> dom (st_tensors s') \<longleftrightarrow> p \<in> dom (st_tensors s)"
      using e [of p] by (cases "st_tensors s' p"; cases "st_tensors s p") (auto simp: dom_def)
  qed
  note D = same_layoutD(2) [OF assms(1), unfolded deref_def] and D1 = same_layoutD(1) [OF assms(1), unfolded deref_def]
  obtain rank where r: "ranked rank (st_tensors s)" using assms(2) by (auto simp: heap_ok_def)
  have "st_tensors s' 0 = None" using d assms(2) by (metis domIff heap_ok_def)
  moreover have "tensor_wf t' \<and> view_ok (st_tensors s') t'" if t': "st_tensors s' p = Some t'" for p t'
  proof -
    obtain t where t: "st_tensors s p = Some t" "strip t' = strip t" using D [OF t'] by blast
    then have wf: "tensor_wf t" "view_ok (st_tensors s) t" using assms(2) by (auto simp: heap_ok_def)
    have "view_ok (st_tensors s') t'"
    proof (cases "t_view_src t = 0")
      case True
      then show ?thesis using strip_D(5) [OF t(2)] by (simp add: view_ok_def)
    next
      case False
      then obtain v where v: "st_tensors s (t_view_src t) = Some v" "t_view_src v = 0" using wf(2) by (auto simp: view_ok_def)
      obtain v' where "st_tensors s' (t_view_src t) = Some v'" "strip v' = strip v" using D1 [OF v(1)] by blast
      then show ?thesis using v(2) strip_D(5) [OF t(2)] strip_D(5) [of v' v] by (simp add: view_ok_def)
    qed
    then show ?thesis using wf(1) strip_more(4) [OF t(2)] by simp
  qed
  moreover have "ranked rank (st_tensors s')"
  proof -
    have "q \<in> dom (st_tensors s) \<and> rank q < rank p" if q: "st_tensors s' p = Some t'" "q \<in> set (t_src t')" "q \<noteq> 0" for p t' q
    proof -
      obtain t where t: "st_tensors s p = Some t" "strip t' = strip t" using D [OF q(1)] by blast
      have "q \<in> set (t_src t)" using q(2) strip_D(4) [OF t(2)] by simp
      then show ?thesis using r t(1) q(3) unfolding ranked_def by blast
    qed
    then show ?thesis unfolding ranked_def d by blast
  qed
  ultimately show "heap_ok (st_tensors s')" by (auto simp: heap_ok_def)
qed

lemma ctx_same_objs:
  assumes "ctx_objs s xs e" "ctx_same s s'"
  shows "ctx_objs s' xs e" "pool_tensors s' xs = pool_tensors s xs" "ctx_tensors s' = ctx_tensors s"
proof -
  have h: "heap_ok (st_tensors s)" using assms(1) by (simp add: ctx_objs_def)
  note l = same_layout_heap_ok [OF _ h, of s']
  have same: "st_ctx s' = st_ctx s" "st_objects s' = st_objects s" "same_layout s s'" using assms(2) by (simp_all add: ctx_same_def)
  show "pool_tensors s' xs = pool_tensors s xs" using same by (simp add: pool_tensors_def is_tensor_obj_def [abs_def])
  then show "ctx_objs s' xs e"
    using assms(1) l [OF same(3)] same by (simp add: ctx_objs_def pool_objs_def in_pool_def)
  show "ctx_tensors s' = ctx_tensors s" using l(2) [OF same(3)] same by (simp add: ctx_tensors_def in_pool_def)
qed

lemma pool_tensors_facts:
  assumes "ctx_objs s xs e"
  shows "distinct (pool_tensors s xs)" "set (pool_tensors s xs) = ctx_tensors s" "p \<in> set (pool_tensors s xs) \<Longrightarrow> p \<noteq> 0"
proof -
  have po: "pool_objs s xs e" using assms by (simp add: ctx_objs_def)
  show "distinct (pool_tensors s xs)"
    using obj_chain_distinct [of "st_objects s"] po by (auto simp: pool_tensors_def distinct_map pool_objs_def inj_on_def)
  show "set (pool_tensors s xs) = ctx_tensors s" using assms by (simp add: ctx_objs_def ctx_tensors_def)
  show "p \<in> set (pool_tensors s xs) \<Longrightarrow> p \<noteq> 0" using pool_tensors_ge [of p s xs] by auto
qed

lemma next_hd0:
  assumes "ctx_objs s xs e" "pool_tensors s xs = qs @ p # ps"
  shows "ggml_get_next_tensor s p = Some (hd0 ps)"
  using next_tensor_eq [OF assms] by (simp add: hd0_def)

lemma first_hd0: "ctx_objs s xs e \<Longrightarrow> ggml_get_first_tensor s = Some (hd0 (pool_tensors s xs))"
  using first_tensor_eq by (simp add: hd0_def)

text \<open>The loop over a range as a recursion over the list of its tensors.\<close>

fun range_run ::
  "backend_env \<Rightarrow> backend_store \<Rightarrow> ptr list \<Rightarrow> ggml_tallocr \<Rightarrow> ggml_state \<Rightarrow> (bool \<times> ggml_state) option" where
  "range_run E st [] talloc s = Some (True, s)"
| "range_run E st (p # ps) talloc s = do {
     (ok, talloc, s) \<leftarrow> alloc_range_tensor E st talloc p s;
     if \<not> ok then Some (False, s) else range_run E st ps talloc s }"

lemma range_loop_run:
  assumes "ctx_objs s xs e" "pool_tensors s xs = qs @ ps @ rs"
    and "\<And>s t p ok t' s'. alloc_range_tensor E st t p s = Some (ok, t', s') \<Longrightarrow> ctx_same s s'"
  shows "alloc_range_loop E st (hd0 rs) (hd0 (ps @ rs)) talloc s = range_run E st ps talloc s"
  using assms(1,2)
proof (induction ps arbitrary: qs talloc s)
  case Nil
  then show ?case by (simp add: alloc_range_loop.simps)
next
  case (Cons p ps)
  note f = pool_tensors_facts [OF Cons.prems(1)]
  have "p \<noteq> hd0 rs"
  proof (cases rs)
    case Nil
    then show ?thesis using f(3) [of p] Cons.prems(2) by simp
  next
    case (Cons r rs')
    then show ?thesis using f(1) Cons.prems(2) by auto
  qed
  moreover have "(do { t \<leftarrow> ggml_get_next_tensor s' p; alloc_range_loop E st (hd0 rs) t ta s' }) = range_run E st ps ta s'"
    if "alloc_range_tensor E st talloc p s = Some (ok, ta, s')" for ok ta s'
  proof -
    have c: "ctx_objs s' xs e" "pool_tensors s' xs = pool_tensors s xs"
      using ctx_same_objs [OF Cons.prems(1) assms(3) [OF that]] by simp_all
    have "ggml_get_next_tensor s' p = Some (hd0 (ps @ rs))" using next_hd0 [OF c(1), of qs p "ps @ rs"] c(2) Cons.prems(2) by simp
    then show ?thesis using Cons.IH [of s' "qs @ [p]" ta] c Cons.prems(2) by simp
  qed
  ultimately show ?case
    by (simp add: alloc_range_loop.simps [of E st "hd0 rs" p]) (cases "alloc_range_tensor E st talloc p s"; auto)
qed

section \<open>One tensor\<close>

definition wants_mem :: "ggml_tensor \<Rightarrow> bool" where
  "wants_mem t \<longleftrightarrow> t_data t = 0 \<and> t_view_src t = 0"

definition wants_view :: "ggml_tensor \<Rightarrow> bool" where
  "wants_view t \<longleftrightarrow> t_view_src t \<noteq> 0 \<and> t_buffer t = 0"

definition tensor_size :: "backend_env \<Rightarrow> ptr \<Rightarrow> ggml_state \<Rightarrow> ptr \<Rightarrow> nat" where
  "tensor_size E buft s p = the (ggml_backend_buft_get_alloc_size (be_bufts E) s buft p)"

definition mem_need :: "backend_env \<Rightarrow> ptr \<Rightarrow> size_t \<Rightarrow> ggml_state \<Rightarrow> ptr \<Rightarrow> nat" where
  "mem_need E buft a s p = (case deref s p of None \<Rightarrow> 0
     | Some t \<Rightarrow> if wants_mem t then GGML_PAD (tensor_size E buft s p) a else 0)"

definition store_good :: "backend_store \<Rightarrow> bool" where
  "store_good st \<longleftrightarrow> (\<forall>q b. bb_deref st q = Some b \<longrightarrow> (\<exists>buft. good_buffer buft b))"

lemma alloc_size_Some:
  assumes "buft \<noteq> 0" "deref s p = Some t"
  shows "ggml_backend_buft_get_alloc_size (be_bufts E) s buft p = Some (tensor_size E buft s p)"
  using assms by (auto simp: ggml_backend_buft_get_alloc_size_def tensor_size_def split: option.splits)

lemma ctx_tensor_size_eq:
  assumes "buft \<noteq> 0" "p \<in> dom (st_tensors s)"
  shows "ctx_tensor_size E buft a s p = Some (mem_need E buft a s p)"
proof -
  obtain t where "deref s p = Some t" using assms(2) by (auto simp: deref_def)
  then show ?thesis using alloc_size_Some [OF assms(1)] by (simp add: ctx_tensor_size_def mem_need_def wants_mem_def)
qed

lemma good_init_strip: "good_buffer buft b \<Longrightarrow> bb_init_tensor b = Some f \<Longrightarrow> f t = t\<lparr>t_extra := t_extra (f t)\<rparr>"
  by (auto simp: good_buffer_def)

text \<open>What a step does to the descriptor \<open>t\<close> of the tensor \<open>p\<close>, and to no other.\<close>

definition only_at :: "ptr \<Rightarrow> ggml_tensor \<Rightarrow> ggml_state \<Rightarrow> ggml_state \<Rightarrow> bool" where
  "only_at p t' s s' \<longleftrightarrow> s' = s\<lparr>st_tensors := (st_tensors s)(p \<mapsto> t')\<rparr>"

lemma only_at_deref: "only_at p t' s s' \<Longrightarrow> deref s' q = (if q = p then Some t' else deref s q)"
  by (simp add: only_at_def deref_def)

lemma only_at_same: "only_at p t' s s' \<Longrightarrow> deref s p = Some t \<Longrightarrow> strip t' = strip t \<Longrightarrow> ctx_same s s'"
  by (auto simp: only_at_def ctx_same_def same_layout_def deref_def)

lemma ctx_init_tensor_step:
  assumes "ggml_backend_buffer_init_tensor st B s p = Some s'" "bb_deref st B = Some b" "good_buffer buft b" "deref s p = Some t"
  shows "\<exists>x. only_at p (t\<lparr>t_extra := x\<rparr>) s s'"
proof -
  have t: "st_tensors s p = Some t" using assms(4) by (simp add: deref_def)
  show ?thesis
  proof (cases "bb_init_tensor b")
    case None
    then have "s' = s" using assms(1,2) by (simp add: ggml_backend_buffer_init_tensor_def split: if_splits)
    then have "only_at p (t\<lparr>t_extra := t_extra t\<rparr>) s s'" using t by (simp add: only_at_def fun_upd_idem)
    then show ?thesis by blast
  next
    case (Some f)
    then have "s' = upd s p f" using assms(1,2) by (simp add: ggml_backend_buffer_init_tensor_def split: if_splits)
    then have "only_at p (t\<lparr>t_extra := t_extra (f t)\<rparr>) s s'"
      using t good_init_strip [OF assms(3) Some, of t] by (simp add: only_at_def upd_def)
    then show ?thesis by blast
  qed
qed

lemma upd_only_at: "deref s p = Some t \<Longrightarrow> only_at p (f t) s (upd s p f)"
  by (simp add: only_at_def upd_def deref_def)

lemma only_at_trans: "only_at p t s s' \<Longrightarrow> only_at p t' s' s'' \<Longrightarrow> only_at p t' s s''"
  by (simp add: only_at_def)

lemma tensor_alloc_step:
  assumes "tensor_alloc_status E st s B p addr = Some (ok, s')" "bb_deref st B = Some b" "good_buffer buft b" "deref s p = Some t"
  shows "\<exists>x. only_at p (t\<lparr>t_buffer := B, t_data := addr, t_extra := x\<rparr>) s s'" "ok \<longleftrightarrow> bb_init_tensor b = None \<or> bb_init_ok b (t\<lparr>t_buffer := B, t_data := addr\<rparr>)"
proof -
  let ?f = "\<lambda>t. t\<lparr>t_buffer := B, t_data := addr\<rparr>"
  have i: "ggml_backend_buffer_init_tensor st B (upd s p ?f) p = Some s'"
    using assms by (auto simp: tensor_alloc_status_def ggml_backend_tensor_alloc_def Let_def bind_eq_Some_conv split: if_splits)
  note u = upd_only_at [OF assms(4), of ?f]
  have "deref (upd s p ?f) p = Some (?f t)" using only_at_deref [OF u] by simp
  then obtain x where "only_at p ((?f t)\<lparr>t_extra := x\<rparr>) (upd s p ?f) s'" using ctx_init_tensor_step [OF i assms(2,3)] by blast
  then have "only_at p ((?f t)\<lparr>t_extra := x\<rparr>) s s'" by (rule only_at_trans [OF u])
  then show "\<exists>x. only_at p (t\<lparr>t_buffer := B, t_data := addr, t_extra := x\<rparr>) s s'" by auto
  show "ok \<longleftrightarrow> bb_init_tensor b = None \<or> bb_init_ok b (t\<lparr>t_buffer := B, t_data := addr\<rparr>)"
    using assms(1,2,4) by (auto simp: tensor_alloc_status_def init_tensor_status_def bind_eq_Some_conv)
qed

lemma view_init_step:
  assumes "view_init_status st s p = Some (ok, s')" "store_good st" "deref s p = Some t"
  obtains v x b where "deref s (t_view_src t) = Some v" "t_buffer v \<noteq> 0" "t_data v \<noteq> 0" "t_buffer t = 0" "t_view_src t \<noteq> 0"
    "bb_deref st (t_buffer v) = Some b"
    "only_at p (t\<lparr>t_buffer := t_buffer v, t_data := sz_add (t_data v) (t_view_offs t), t_extra := x\<rparr>) s s'"
    "ok \<longleftrightarrow> bb_init_tensor b = None \<or> bb_init_ok b (t\<lparr>t_buffer := t_buffer v, t_data := sz_add (t_data v) (t_view_offs t)\<rparr>)"
proof -
  obtain v where v: "deref s (t_view_src t) = Some v" "t_buffer v \<noteq> 0" "t_data v \<noteq> 0" "t_buffer t = 0" "t_view_src t \<noteq> 0"
    and i: "ggml_backend_buffer_init_tensor st (t_buffer v)
      (upd s p (\<lambda>t. t\<lparr>t_buffer := t_buffer v, t_data := sz_add (t_data v) (t_view_offs t)\<rparr>)) p = Some s'"
    and st: "init_tensor_status st (t_buffer v) (t\<lparr>t_buffer := t_buffer v, t_data := sz_add (t_data v) (t_view_offs t)\<rparr>) = Some ok"
    using assms(1,3) by (auto simp: view_init_status_def ggml_backend_view_init_def Let_def bind_eq_Some_conv split: if_splits)
  let ?f = "\<lambda>t. t\<lparr>t_buffer := t_buffer v, t_data := sz_add (t_data v) (t_view_offs t)\<rparr>"
  obtain b where b: "bb_deref st (t_buffer v) = Some b" using st by (auto simp: init_tensor_status_def bind_eq_Some_conv)
  obtain buft where g: "good_buffer buft b" using assms(2) b by (auto simp: store_good_def)
  note u = upd_only_at [OF assms(3), of ?f]
  have "deref (upd s p ?f) p = Some (?f t)" using only_at_deref [OF u] by simp
  then obtain x where "only_at p ((?f t)\<lparr>t_extra := x\<rparr>) (upd s p ?f) s'" using ctx_init_tensor_step [OF i b g] by blast
  then have "only_at p ((?f t)\<lparr>t_extra := x\<rparr>) s s'" by (rule only_at_trans [OF u])
  then show thesis using that [OF v b, of x] st b by (auto simp: init_tensor_status_def)
qed

text \<open>\<open>lin_ok\<close>: the linear allocator \<open>ta\<close> serves the buffer \<open>b\<close> at the address \<open>tl_buffer ta\<close>.\<close>

definition lin_ok :: "backend_store \<Rightarrow> ptr \<Rightarrow> size_t \<Rightarrow> ggml_backend_buffer \<Rightarrow> ggml_tallocr \<Rightarrow> bool" where
  "lin_ok st buft a b ta \<longleftrightarrow> tl_buffer ta \<noteq> 0 \<and> tl_alignment ta = a \<and> bb_deref st (tl_buffer ta) = Some b
     \<and> good_buffer buft b \<and> 0 < bb_size b \<and> bb_get_base b = Some (tl_base ta) \<and> 0 < tl_base ta
     \<and> tl_base ta + bb_size b \<le> SIZE_MAX \<and> a dvd tl_base ta \<and> a dvd tl_offset ta \<and> tl_offset ta \<le> bb_size b"

definition pad_ok :: "backend_env \<Rightarrow> ptr \<Rightarrow> size_t \<Rightarrow> ggml_state \<Rightarrow> bool" where
  "pad_ok E buft a s \<longleftrightarrow> (\<exists>k < 64. a = 2 ^ k) \<and> (\<forall>p \<in> ctx_tensors s. tensor_size E buft s p + a \<le> 2 ^ 64)"

lemma pad_okD:
  assumes "pad_ok E buft a s" "p \<in> ctx_tensors s"
  shows "tensor_size E buft s p \<le> GGML_PAD (tensor_size E buft s p) a" "a dvd GGML_PAD (tensor_size E buft s p) a"
proof -
  obtain k where k: "a = 2 ^ k" "k < 64" using assms(1) by (auto simp: pad_ok_def)
  have "tensor_size E buft s p + a \<le> 2 ^ 64" using assms by (auto simp: pad_ok_def)
  then show "tensor_size E buft s p \<le> GGML_PAD (tensor_size E buft s p) a" "a dvd GGML_PAD (tensor_size E buft s p) a"
    using GGML_PAD_bounds(1,3) [OF k] by blast+
qed

lemma good_not_meta: "good_buffer buft b \<Longrightarrow> \<not> bb_is_meta b \<and> bb_buft b = buft"
  by (simp add: good_buffer_def)

lemma range_tensor_cases:
  assumes "alloc_range_tensor E st ta p s = Some (ok, ta', s')" "store_good st" "deref s p = Some t" "lin_ok st buft a b ta"
    and "buft \<noteq> 0" "tl_offset ta + mem_need E buft a s p \<le> bb_size b"
  obtains (mem) x where "wants_mem t" "only_at p (t\<lparr>t_buffer := tl_buffer ta, t_data := tl_base ta + tl_offset ta, t_extra := x\<rparr>) s s'"
      "ta' = ta\<lparr>tl_offset := tl_offset ta + mem_need E buft a s p\<rparr>"
  | (view) v x where "\<not> wants_mem t" "wants_view t" "deref s (t_view_src t) = Some v" "t_buffer v \<noteq> 0" "t_data v \<noteq> 0"
      "only_at p (t\<lparr>t_buffer := t_buffer v, t_data := sz_add (t_data v) (t_view_offs t), t_extra := x\<rparr>) s s'" "ta' = ta"
  | (none) "\<not> wants_mem t" "\<not> wants_view t" "s' = s" "ta' = ta" ok
proof (cases "wants_mem t")
  case True
  note l = assms(4) [unfolded lin_ok_def]
  have need: "mem_need E buft a s p = GGML_PAD (tensor_size E buft s p) a" using True assms(3) by (simp add: mem_need_def)
  have sz: "ggml_backend_buffer_get_alloc_size E st s (tl_buffer ta) p = Some (tensor_size E buft s p)"
    using l alloc_size_Some [OF assms(5,3)] good_not_meta by (auto simp: ggml_backend_buffer_get_alloc_size_def)
  have n: "ggml_backend_buffer_get_size st (tl_buffer ta) = Some (bb_size b)" using l by (simp add: ggml_backend_buffer_get_size_def)
  have base: "ggml_backend_buffer_get_base st (tl_buffer ta) = Some (tl_base ta)"
    using l by (auto simp: ggml_backend_buffer_get_base_def good_buffer_def)
  have add: "sz_add (tl_offset ta) (mem_need E buft a s p) = tl_offset ta + mem_need E buft a s p"
    "sz_add (tl_base ta) (tl_offset ta) = tl_base ta + tl_offset ta" using assms(6) l by (simp_all add: sz_add_id)
  have run: "ggml_tallocr_alloc E st ta p s = Some (ok, ta', s')" using assms(1,3) True by (simp add: alloc_range_tensor_def wants_mem_def)
  then have ta': "ta' = ta\<lparr>tl_offset := tl_offset ta + mem_need E buft a s p\<rparr>"
    and st: "tensor_alloc_status E st s (tl_buffer ta) p (tl_base ta + tl_offset ta) = Some (ok, s')"
    using sz n base add l need by (auto simp: ggml_tallocr_alloc_def Let_def bind_eq_Some_conv split: if_splits)
  have "bb_deref st (tl_buffer ta) = Some b" "good_buffer buft b" using l by simp_all
  then show thesis using mem [OF True _ ta'] tensor_alloc_step(1) [OF st _ _ assms(3)] by blast
next
  case False
  show thesis
  proof (cases "wants_view t")
    case True
    have run: "view_init_status st s p = Some (ok, s')" "ta' = ta"
      using assms(1,3) False True by (auto simp: alloc_range_tensor_def wants_mem_def wants_view_def bind_eq_Some_conv)
    show thesis by (rule view_init_step [OF run(1) assms(2,3)]) (rule view [OF False True _ _ _ _ run(2)])
  next
    case nv: False
    have "\<not> (t_data t = 0 \<and> t_view_src t = 0)" "\<not> (t_view_src t \<noteq> 0 \<and> t_buffer t = 0)"
      using False nv by (simp_all add: wants_mem_def wants_view_def)
    then show thesis using none [OF False nv] assms(1,3) unfolding alloc_range_tensor_def by (simp split: if_splits)
  qed
qed

section \<open>The invariant\<close>

definition tensor_placed ::
  "backend_env \<Rightarrow> ptr \<Rightarrow> size_t \<Rightarrow> ggml_state \<Rightarrow> ptr list \<Rightarrow> backend_store \<Rightarrow> ggml_state \<Rightarrow> ptr \<Rightarrow> ggml_tensor \<Rightarrow> ggml_tensor \<Rightarrow> bool" where
  "tensor_placed E buft a s0 bufs st s p t t' \<longleftrightarrow> strip t' = strip t \<and>
     (if wants_mem t then \<exists>b base. t_buffer t' \<in> set bufs \<and> bb_deref st (t_buffer t') = Some b \<and> good_buffer buft b
          \<and> bb_get_base b = Some base \<and> 0 < base \<and> base \<le> t_data t' \<and> t_data t' + tensor_size E buft s0 p \<le> base + bb_size b
          \<and> base + bb_size b \<le> SIZE_MAX \<and> a dvd t_data t'
      else if wants_view t then \<exists>v'. deref s (t_view_src t) = Some v' \<and> t_view_src v' = 0 \<and> t_data v' \<noteq> 0
          \<and> t_buffer v' \<noteq> 0 \<and> t_buffer t' = t_buffer v' \<and> t_data t' = sz_add (t_data v') (t_view_offs t)
      else t' = t)"

definition mem_apart :: "backend_env \<Rightarrow> ptr \<Rightarrow> ggml_state \<Rightarrow> ggml_state \<Rightarrow> ptr \<Rightarrow> ptr \<Rightarrow> bool" where
  "mem_apart E buft s0 s p q \<longleftrightarrow> (\<forall>t u t' u'. deref s0 p = Some t \<and> deref s0 q = Some u \<and> wants_mem t \<and> wants_mem u
     \<and> deref s p = Some t' \<and> deref s q = Some u' \<and> t_buffer t' = t_buffer u'
     \<longrightarrow> t_data t' + tensor_size E buft s0 p \<le> t_data u' \<or> t_data u' + tensor_size E buft s0 q \<le> t_data t')"

definition ctx_placed ::
  "backend_env \<Rightarrow> ptr \<Rightarrow> size_t \<Rightarrow> ggml_state \<Rightarrow> ptr list \<Rightarrow> backend_store \<Rightarrow> ptr set \<Rightarrow> ggml_state \<Rightarrow> bool" where
  "ctx_placed E buft a s0 bufs st Q s \<longleftrightarrow> ctx_same s0 s \<and> (\<forall>p. p \<notin> Q \<longrightarrow> deref s p = deref s0 p)
     \<and> (\<forall>p \<in> Q. \<forall>t. deref s0 p = Some t \<longrightarrow> (\<exists>t'. deref s p = Some t' \<and> tensor_placed E buft a s0 bufs st s p t t'))
     \<and> (\<forall>p \<in> Q. \<forall>q \<in> Q. p \<noteq> q \<longrightarrow> mem_apart E buft s0 s p q)"

text \<open>What has been placed in the buffer of \<open>ta\<close> lies below its offset.\<close>

definition lin_below :: "backend_env \<Rightarrow> ptr \<Rightarrow> ggml_state \<Rightarrow> ptr set \<Rightarrow> ggml_tallocr \<Rightarrow> ggml_state \<Rightarrow> bool" where
  "lin_below E buft s0 Q ta s \<longleftrightarrow> (\<forall>q \<in> Q. \<forall>u u'. deref s0 q = Some u \<and> wants_mem u \<and> deref s q = Some u' \<and> t_buffer u' = tl_buffer ta
     \<longrightarrow> t_data u' + tensor_size E buft s0 q \<le> tl_base ta + tl_offset ta)"

lemma placed_insert:
  assumes "ctx_placed E buft a s0 bufs st Q s" "only_at p t' s s'" "p \<notin> Q" "deref s0 p = Some t"
    and "tensor_placed E buft a s0 bufs st s' p t t'" "\<forall>q \<in> Q. mem_apart E buft s0 s' p q"
  shows "ctx_placed E buft a s0 bufs st (insert p Q) s'"
proof -
  have same: "ctx_same s0 s" and out: "\<And>q. q \<notin> Q \<Longrightarrow> deref s q = deref s0 q"
    and pl: "\<And>q u. q \<in> Q \<Longrightarrow> deref s0 q = Some u \<Longrightarrow> \<exists>u'. deref s q = Some u' \<and> tensor_placed E buft a s0 bufs st s q u u'"
    and ap: "\<And>q r. q \<in> Q \<Longrightarrow> r \<in> Q \<Longrightarrow> q \<noteq> r \<Longrightarrow> mem_apart E buft s0 s q r"
    using assms(1) unfolding ctx_placed_def by blast+
  have sp: "deref s p = Some t" using out [OF assms(3)] assms(4) by simp
  note d = only_at_deref [OF assms(2)]
  have str: "strip t' = strip t" using assms(5) by (simp add: tensor_placed_def)
  have "ctx_same s0 s'" by (rule ctx_same_trans [OF same only_at_same [OF assms(2) sp str]])
  moreover have "deref s' q = deref s0 q" if "q \<notin> insert p Q" for q using that out d by simp
  moreover have "\<exists>u'. deref s' q = Some u' \<and> tensor_placed E buft a s0 bufs st s' q u u'"
    if q: "q \<in> insert p Q" "deref s0 q = Some u" for q u
  proof (cases "q = p")
    case True
    then show ?thesis using assms(4,5) q(2) d by simp
  next
    case False
    then obtain u' where u': "deref s q = Some u'" "tensor_placed E buft a s0 bufs st s q u u'" using pl q by blast
    have "deref s' r = Some v" if "deref s r = Some v" "t_view_src v = 0" "t_data v \<noteq> 0" for r v
    proof (cases "r = p")
      case True
      then have "v = t" "\<not> wants_mem t" "\<not> wants_view t" using that sp by (auto simp: wants_mem_def wants_view_def)
      then show ?thesis using assms(5) True d by (simp add: tensor_placed_def)
    next
      case False
      then show ?thesis using that d by simp
    qed
    then have "tensor_placed E buft a s0 bufs st s' q u u'" using u'(2) unfolding tensor_placed_def by (auto split: if_splits)
    then show ?thesis using u'(1) False d by simp
  qed
  moreover have "mem_apart E buft s0 s' q r" if "q \<in> insert p Q" "r \<in> insert p Q" "q \<noteq> r" for q r
  proof -
    have sym: "mem_apart E buft s0 s' r q" if "mem_apart E buft s0 s' q r" for q r
      unfolding mem_apart_def using that [unfolded mem_apart_def, rule_format] by (metis (no_types))
    show ?thesis
    proof (cases "q = p \<or> r = p")
      case True
      then show ?thesis using that assms(6) sym by blast
    next
      case False
      then show ?thesis using that ap [of q r] d by (simp add: mem_apart_def)
    qed
  qed
  ultimately show ?thesis unfolding ctx_placed_def by blast
qed

lemma mem_need_stable:
  assumes "sizes_stable (be_bufts E)" "ctx_same s0 s" "deref s p = deref s0 p"
  shows "mem_need E buft a s p = mem_need E buft a s0 p"
proof -
  have "tensor_size E buft s p = tensor_size E buft s0 p"
    using alloc_size_stable [OF assms(1), of s0 s buft p] assms(2) by (simp add: tensor_size_def ctx_same_def)
  then show ?thesis using assms(3) by (simp add: mem_need_def split: option.split)
qed

lemma placed_step:
  assumes "ctx_placed E buft a s0 bufs st Q s" "lin_below E buft s0 Q ta s" "lin_ok st buft a b ta" "tl_buffer ta \<in> set bufs"
    and "p \<notin> Q" "p \<in> ctx_tensors s0" "heap_ok (st_tensors s0)" "sizes_stable (be_bufts E)" "pad_ok E buft a s0" "store_good st"
    and "buft \<noteq> 0" "tl_offset ta + mem_need E buft a s0 p \<le> bb_size b" "alloc_range_tensor E st ta p s = Some (ok, ta', s')"
  shows "ctx_placed E buft a s0 bufs st (insert p Q) s' \<and> lin_below E buft s0 (insert p Q) ta' s' \<and> lin_ok st buft a b ta'
    \<and> ta' = ta\<lparr>tl_offset := tl_offset ta + mem_need E buft a s0 p\<rparr>"
proof -
  have same: "ctx_same s0 s" and out: "\<And>q. q \<notin> Q \<Longrightarrow> deref s q = deref s0 q"
    using assms(1) unfolding ctx_placed_def by blast+
  obtain t where t0: "deref s0 p = Some t" using assms(6) by (auto simp: ctx_tensors_def deref_def)
  then have t: "deref s p = Some t" using out [OF assms(5)] by simp
  have need: "mem_need E buft a s p = mem_need E buft a s0 p" using mem_need_stable [OF assms(8) same] t t0 by simp
  note l = assms(3) [unfolded lin_ok_def]
  have lin': "lin_ok st buft a b (ta\<lparr>tl_offset := tl_offset ta + mem_need E buft a s0 p\<rparr>)"
    using assms(3,12) pad_okD(2) [OF assms(9,6)] t0 by (simp add: lin_ok_def mem_need_def)
  note nd = assms(12) [folded need]
  from assms(13,10) t assms(3,11) nd show ?thesis
  proof (cases rule: range_tensor_cases)
    case (mem x)
    let ?t' = "t\<lparr>t_buffer := tl_buffer ta, t_data := tl_base ta + tl_offset ta, t_extra := x\<rparr>"
    have sz: "tensor_size E buft s0 p \<le> mem_need E buft a s0 p" using pad_okD(1) [OF assms(9,6)] t0 mem(1) by (simp add: mem_need_def)
    note d = only_at_deref [OF mem(2)]
    have below: "lin_below E buft s0 Q ta s'" using assms(2,5) d by (auto simp: lin_below_def)
    have "tensor_placed E buft a s0 bufs st s' p t ?t'"
      using mem(1) l assms(4,12) sz by (auto simp: tensor_placed_def strip_def)
    moreover have "\<forall>q \<in> Q. mem_apart E buft s0 s' p q"
      using below d by (auto simp: mem_apart_def lin_below_def)
    ultimately have "ctx_placed E buft a s0 bufs st (insert p Q) s'" by (rule placed_insert [OF assms(1) mem(2) assms(5) t0])
    moreover have "lin_below E buft s0 (insert p Q) ta' s'"
      using below d sz by (fastforce simp: lin_below_def mem(3) need)
    ultimately show ?thesis using lin' mem(3) need by simp
  next
    case (view v x)
    let ?t' = "t\<lparr>t_buffer := t_buffer v, t_data := sz_add (t_data v) (t_view_offs t), t_extra := x\<rparr>"
    have n0: "mem_need E buft a s0 p = 0" using view(1) t0 by (simp add: mem_need_def)
    note d = only_at_deref [OF view(6)]
    obtain v0 where v0: "deref s0 (t_view_src t) = Some v0" "t_view_src v0 = 0"
      using assms(7) t0 view(2) by (fastforce simp: heap_ok_def view_ok_def deref_def wants_view_def)
    have vs: "t_view_src v = 0"
    proof -
      have "same_layout s0 s" using same by (simp add: ctx_same_def)
      then obtain v1 where "deref s0 (t_view_src t) = Some v1" "strip v = strip v1" using same_layoutD(2) view(3) by blast
      then show ?thesis using v0 strip_D(5) [of v v1] by simp
    qed
    have "t_view_src t \<noteq> p" using vs view(2,3) t by (auto simp: wants_view_def)
    then have "tensor_placed E buft a s0 bufs st s' p t ?t'"
      using view(1-5) vs d by (auto simp: tensor_placed_def strip_def)
    moreover have "\<forall>q \<in> Q. mem_apart E buft s0 s' p q" using view(1) t0 by (simp add: mem_apart_def)
    ultimately have "ctx_placed E buft a s0 bufs st (insert p Q) s'" by (rule placed_insert [OF assms(1) view(6) assms(5) t0])
    moreover have "lin_below E buft s0 (insert p Q) ta' s'"
      using assms(2,5) d view(1) t0 by (auto simp: lin_below_def view(7))
    ultimately show ?thesis using assms(3) view(7) n0 by simp
  next
    case none
    have n0: "mem_need E buft a s0 p = 0" using none(1) t0 by (simp add: mem_need_def)
    have o: "only_at p t s s'" using t none(3) by (simp add: only_at_def deref_def fun_upd_idem)
    have "tensor_placed E buft a s0 bufs st s' p t t" using none(1,2) by (simp add: tensor_placed_def)
    moreover have "\<forall>q \<in> Q. mem_apart E buft s0 s' p q" using none(1) t0 by (simp add: mem_apart_def)
    ultimately have "ctx_placed E buft a s0 bufs st (insert p Q) s'" by (rule placed_insert [OF assms(1) o assms(5) t0])
    moreover have "lin_below E buft s0 (insert p Q) ta' s'"
      using assms(2) none(1,3,4) t0 by (auto simp: lin_below_def)
    ultimately show ?thesis using assms(3) none(4) n0 by simp
  qed
qed

lemma range_tensor_same:
  assumes "alloc_range_tensor E st ta p s = Some (ok, ta', s')" "store_good st"
  shows "ctx_same s s'"
proof -
  obtain t where t: "deref s p = Some t" using assms(1) by (auto simp: alloc_range_tensor_def bind_eq_Some_conv)
  consider "wants_mem t" | "\<not> wants_mem t" "wants_view t" | "s' = s"
    using assms(1) t by (auto simp: alloc_range_tensor_def wants_mem_def wants_view_def bind_eq_Some_conv split: if_splits)
  then show ?thesis
  proof cases
    case 1
    then obtain B addr where a: "tensor_alloc_status E st s B p addr = Some (ok, s')"
      using assms(1) t by (auto simp: alloc_range_tensor_def wants_mem_def ggml_tallocr_alloc_def Let_def bind_eq_Some_conv split: if_splits)
    then obtain b where b: "bb_deref st B = Some b" by (auto simp: tensor_alloc_status_def init_tensor_status_def bind_eq_Some_conv)
    then obtain buft where "good_buffer buft b" using assms(2) by (auto simp: store_good_def)
    then obtain x where "only_at p (t\<lparr>t_buffer := B, t_data := addr, t_extra := x\<rparr>) s s'" using tensor_alloc_step(1) [OF a b _ t] by blast
    then show ?thesis by (rule only_at_same [OF _ t]) (simp add: strip_def)
  next
    case 2
    then have "view_init_status st s p = Some (ok, s')"
      using assms(1) t by (auto simp: alloc_range_tensor_def wants_mem_def wants_view_def bind_eq_Some_conv)
    then show ?thesis
      by (rule view_init_step [OF _ assms(2) t]) (erule only_at_same [OF _ t], simp add: strip_def)
  qed simp
qed

section \<open>One range\<close>

text \<open>
  The assumptions: the backend is as documented, its buffers are no multi-buffers and have aligned
  base addresses, and the padded sizes add up to a number that fits \<^verbatim>\<open>size_t\<close>.
\<close>

definition ctx_setting :: "backend_env \<Rightarrow> ptr \<Rightarrow> size_t \<Rightarrow> ggml_state \<Rightarrow> bool" where
  "ctx_setting E buft a s \<longleftrightarrow> backend_ok E \<and> sizes_stable (be_bufts E) \<and> buft \<noteq> 0 \<and> ctx_inv s \<and> pad_ok E buft a s
     \<and> (\<Sum>p \<in> ctx_tensors s. mem_need E buft a s p) \<le> SIZE_MAX
     \<and> (\<forall>st sz p b. be_alloc_buffer E st buft sz = Some (p, b) \<longrightarrow>
          bb_buffers b = [] \<and> (\<forall>base. bb_get_base b = Some base \<longrightarrow> a dvd base))"

definition needs :: "backend_env \<Rightarrow> ptr \<Rightarrow> size_t \<Rightarrow> ggml_state \<Rightarrow> ptr list \<Rightarrow> nat" where
  "needs E buft a s ps = sum_list (map (mem_need E buft a s) ps)"

lemma needs_simps [simp]:
  "needs E buft a s [] = 0" "needs E buft a s (p # ps) = mem_need E buft a s p + needs E buft a s ps"
  "needs E buft a s (ps @ qs) = needs E buft a s ps + needs E buft a s qs"
  by (simp_all add: needs_def)

lemma ctx_settingD:
  assumes "ctx_setting E buft a s" "ctx_objs s xs e"
  shows "heap_ok (st_tensors s)" "needs E buft a s (pool_tensors s xs) \<le> SIZE_MAX"
proof -
  show "heap_ok (st_tensors s)" using assms(2) by (simp add: ctx_objs_def)
  note f = pool_tensors_facts [OF assms(2)]
  have "needs E buft a s (pool_tensors s xs) = (\<Sum>p \<in> ctx_tensors s. mem_need E buft a s p)"
    using sum_list_distinct_conv_sum_set [OF f(1), of "mem_need E buft a s"] f(2) by (simp add: needs_def)
  then show "needs E buft a s (pool_tensors s xs) \<le> SIZE_MAX" using assms(1) by (simp add: ctx_setting_def)
qed

lemma range_run_placed:
  assumes "ctx_setting E buft a s0" "heap_ok (st_tensors s0)" "store_good st" "tl_buffer ta \<in> set bufs" "lin_ok st buft a b ta"
    and "ctx_placed E buft a s0 bufs st Q s" "lin_below E buft s0 Q ta s" "distinct ps" "set ps \<inter> Q = {}" "set ps \<subseteq> ctx_tensors s0"
    and "tl_offset ta + needs E buft a s0 ps \<le> bb_size b" "range_run E st ps ta s = Some (ok, s')"
  shows "ok \<Longrightarrow> ctx_placed E buft a s0 bufs st (Q \<union> set ps) s'"
  using assms(4-)
proof (induction ps arbitrary: Q ta s)
  case Nil
  then show ?case by simp
next
  case (Cons p ps)
  obtain ta' s1 where r: "alloc_range_tensor E st ta p s = Some (True, ta', s1)" "range_run E st ps ta' s1 = Some (ok, s')"
    using Cons.prems(1,10) by (auto simp: bind_eq_Some_conv split: if_splits)
  have fit: "tl_offset ta + mem_need E buft a s0 p \<le> bb_size b" using Cons.prems(9) by simp
  have set: "sizes_stable (be_bufts E)" "pad_ok E buft a s0" "buft \<noteq> 0" using assms(1) by (simp_all add: ctx_setting_def)
  have pq: "p \<notin> Q" "p \<in> ctx_tensors s0" using Cons.prems(7,8) by auto
  note st = placed_step [OF Cons.prems(4,5,3,2) pq assms(2) set(1,2) assms(3) set(3) fit r(1)]
  have "ctx_placed E buft a s0 bufs st (insert p Q \<union> set ps) s'"
    by (rule Cons.IH [OF Cons.prems(1), of ta']) (use st r(2) Cons.prems in auto)
  then show ?case by simp
qed

text \<open>\<open>news\<close>: the buffers that have been allocated since \<open>st0\<close>.\<close>

definition news :: "ptr \<Rightarrow> backend_store \<Rightarrow> ptr list \<Rightarrow> backend_store \<Rightarrow> bool" where
  "news buft st0 bufs st \<longleftrightarrow> distinct bufs \<and> bs_vbuffers st = bs_vbuffers st0
     \<and> (\<forall>q. q \<notin> set bufs \<longrightarrow> bb_deref st q = bb_deref st0 q)
     \<and> (\<forall>q \<in> set bufs. q \<noteq> 0 \<and> bb_deref st0 q = None
          \<and> (\<exists>b. bb_deref st q = Some b \<and> good_buffer buft b \<and> bb_buffers b = []))"

lemma buffer_free_vbuffers:
  "foldM (\<lambda>b st. ggml_backend_buffer_free st b) bufs st = Some st' \<Longrightarrow> bs_vbuffers st' = bs_vbuffers st"
  by (induction bufs arbitrary: st) (fastforce simp: ggml_backend_buffer_free_def bind_eq_Some_conv split: if_splits)+

lemma free_news:
  assumes "news buft st0 bufs st" shows "free_buffers st bufs = Some st0"
proof -
  have "distinct (filter ((\<noteq>) 0) bufs) \<and> (\<forall>c \<in> set bufs. c \<noteq> 0 \<longrightarrow> bb_deref st c \<noteq> None)"
    using assms by (auto simp: news_def)
  then obtain st' where f: "foldM (\<lambda>b st. ggml_backend_buffer_free st b) bufs st = Some st'"
    unfolding buffer_free_foldM_iff [symmetric] by blast
  have "bb_deref st' = bb_deref st0"
    using conjunct1 [OF buffer_free_foldM [OF f]] assms by (auto simp: news_def fun_eq_iff)
  then have "bs_buffers st' = bs_buffers st0" unfolding bb_deref_def fun_eq_iff by blast
  moreover have "bs_vbuffers st' = bs_vbuffers st0" using assms buffer_free_vbuffers [OF f] by (simp add: news_def)
  ultimately have "st' = st0" by (cases st'; cases st0) simp
  then show ?thesis using f by (simp add: free_buffers_def)
qed

lemma news_add:
  assumes "news buft st0 bufs st" "bb_deref st B = None" "B \<noteq> 0" "good_buffer buft b" "bb_buffers b = []"
  shows "news buft st0 (bufs @ [B]) (st\<lparr>bs_buffers := (bs_buffers st)(B \<mapsto> b)\<rparr>)"
proof -
  have "B \<notin> set bufs" using assms(1,2) by (auto simp: news_def)
  moreover from this have "bb_deref st0 B = None" using assms(1,2) by (auto simp: news_def)
  ultimately show ?thesis using assms by (auto simp: news_def)
qed

lemma tensor_placed_mono:
  assumes "tensor_placed E buft a s0 bufs st s p t t'" "\<And>q b. bb_deref st q = Some b \<Longrightarrow> bb_deref st' q = Some b" "set bufs \<subseteq> set bufs'"
  shows "tensor_placed E buft a s0 bufs' st' s p t t'"
  using assms unfolding tensor_placed_def by (auto split: if_splits)

lemma ctx_placed_mono:
  assumes "ctx_placed E buft a s0 bufs st Q s" "\<And>q b. bb_deref st q = Some b \<Longrightarrow> bb_deref st' q = Some b" "set bufs \<subseteq> set bufs'"
  shows "ctx_placed E buft a s0 bufs' st' Q s"
  using assms(1) tensor_placed_mono [OF _ assms(2,3)] unfolding ctx_placed_def by blast

text \<open>A new buffer is empty.\<close>

lemma fresh_below:
  assumes "ctx_placed E buft a s0 bufs st Q s" "bb_deref st (tl_buffer ta) = None"
  shows "lin_below E buft s0 Q ta s"
proof -
  have "t_buffer u' \<noteq> tl_buffer ta" if q: "q \<in> Q" "deref s0 q = Some u" "wants_mem u" "deref s q = Some u'" for q u u'
  proof -
    obtain u2 where "deref s q = Some u2" "tensor_placed E buft a s0 bufs st s q u u2"
      using assms(1) q(1,2) unfolding ctx_placed_def by blast
    then have "\<exists>x. bb_deref st (t_buffer u') = Some x" using q(3,4) by (auto simp: tensor_placed_def)
    then show ?thesis using assms(2) by auto
  qed
  then show ?thesis unfolding lin_below_def by blast
qed

text \<open>The state between two ranges: the tensors \<open>Q\<close> have been placed in the buffers \<open>bufs\<close>.\<close>

definition ctx_done ::
  "backend_env \<Rightarrow> ptr \<Rightarrow> size_t \<Rightarrow> backend_store \<Rightarrow> ggml_state \<Rightarrow> ptr set \<Rightarrow> ptr list \<Rightarrow> backend_store \<Rightarrow> ggml_state \<Rightarrow> bool" where
  "ctx_done E buft a st0 s0 Q bufs st s \<longleftrightarrow> ctx_placed E buft a s0 bufs st Q s \<and> finite_store st \<and> store_good st \<and> news buft st0 bufs st"

lemma ctx_done_init:
  assumes "finite_store st" "store_good st" shows "ctx_done E buft a st s {} [] st s"
  using assms by (simp add: ctx_done_def ctx_placed_def news_def)

lemma aligned_offset_0: "0 < a \<Longrightarrow> a \<le> SIZE_MAX \<Longrightarrow> a dvd base \<Longrightarrow> base \<le> SIZE_MAX \<Longrightarrow> aligned_offset base 0 a = 0"
  by (simp add: aligned_offset_def sz_add_id sz_sub_id)

lemma new_lin_ok:
  assumes "ctx_setting E buft a s0" "bt_get_alignment (be_bufts E buft) = a" "finite_store st"
    and "ggml_backend_buft_alloc_buffer E st buft sz = Some (B, st1)" "B \<noteq> 0" "0 < sz" "ggml_tallocr_new E st1 B = Some ta"
  obtains b where "bb_deref st B = None" "st1 = st\<lparr>bs_buffers := (bs_buffers st)(B \<mapsto> b)\<rparr>" "sz \<le> bb_size b"
    "lin_ok st1 buft a b ta" "tl_buffer ta = B" "tl_offset ta = 0" "bb_buffers b = []"
proof -
  have E: "backend_ok E" "buft \<noteq> 0" using assms(1) by (simp_all add: ctx_setting_def)
  obtain b where b: "be_alloc_buffer E st buft sz = Some (B, b)" "st1 = st\<lparr>bs_buffers := (bs_buffers st)(B \<mapsto> b)\<rparr>"
    using assms(4-6) by (auto simp: ggml_backend_buft_alloc_buffer_def split: if_splits option.splits)
  have g: "bb_deref st B = None" "sz \<le> bb_size b" "good_buffer buft b" using E(1) assms(3) b(1) unfolding backend_ok_def by blast+
  have "0 < bb_size b" using g(2) assms(6) by simp
  then obtain base where base: "bb_get_base b = Some base" "0 < base" "base + bb_size b \<le> SIZE_MAX"
    using g(3) by (auto simp: good_buffer_def)
  have al: "a dvd base" "bb_buffers b = []" using assms(1) b(1) base(1) unfolding ctx_setting_def by blast+
  obtain k where k: "a = 2 ^ k" "k < 64" using assms(1) by (auto simp: ctx_setting_def pad_ok_def)
  have "(2::nat) ^ k \<le> 2 ^ 63" using k(2) by (intro power_increasing) auto
  then have a: "0 < a" "a \<le> SIZE_MAX" using k(1) by simp_all
  have d: "bb_deref st1 B = Some b" using b(2) by simp
  have bb: "bb_buft b = buft" "\<not> bb_is_meta b" using g(3) by (simp_all add: good_buffer_def)
  have "ggml_backend_buffer_get_base st1 B = Some base"
    using assms(5) d bb \<open>0 < bb_size b\<close> base by (simp add: ggml_backend_buffer_get_base_def)
  moreover have "ggml_backend_buffer_get_alignment E st1 B = Some a"
    using assms(2,5) d bb E(2) by (simp add: ggml_backend_buffer_get_alignment_def ggml_backend_buft_get_alignment_def)
  moreover have "aligned_offset base 0 a = 0" using aligned_offset_0 [OF a al(1)] base(3) by simp
  ultimately have ta: "ta = \<lparr>tl_buffer = B, tl_base = base, tl_alignment = a, tl_offset = 0\<rparr>"
    using assms(7) a by (simp add: ggml_tallocr_new_def)
  show thesis
    by (rule that [OF g(1) b(2) g(2)])
      (use ta d g(3) base al assms(5) \<open>0 < bb_size b\<close> in \<open>auto simp: lin_ok_def\<close>)
qed

lemma alloc_range_done:
  assumes "ctx_setting E buft a s0" "bt_get_alignment (be_bufts E buft) = a" "ctx_objs s0 xs e"
    and "pool_tensors s0 xs = qs @ ps @ rs" "ctx_done E buft a st0 s0 (set qs) bufs st s"
    and "0 < needs E buft a s0 ps" "alloc_tensor_range E (hd0 (ps @ rs)) (hd0 rs) buft (needs E buft a s0 ps) bufs st s = Some (ok, bufs', st', s')"
  shows "if ok then ctx_done E buft a st0 s0 (set (qs @ ps)) bufs' st' s' \<and> bufs' \<noteq> []
      else st' = st0"
proof -
  let ?sz = "needs E buft a s0 ps"
  have pl: "ctx_placed E buft a s0 bufs st (set qs) s" and fin: "finite_store st" and sg: "store_good st" and nw: "news buft st0 bufs st"
    using assms(5) by (simp_all add: ctx_done_def)
  obtain B st1 where al: "ggml_backend_buft_alloc_buffer E st buft ?sz = Some (B, st1)"
    and rest: "(if B = 0 then do { st \<leftarrow> free_buffers st1 bufs; Some (False, [], st, s) }
     else do {
       let buffers = bufs @ [B];
       talloc \<leftarrow> ggml_tallocr_new E st1 B;
       (ok, s) \<leftarrow> alloc_range_loop E st1 (hd0 rs) (hd0 (ps @ rs)) talloc s;
       if \<not> ok then do { st \<leftarrow> free_buffers st1 buffers; Some (False, [], st, s) }
       else Some (True, buffers, st1, s) }) = Some (ok, bufs', st', s')"
    using assms(7) by (auto simp: alloc_tensor_range_def bind_eq_Some_conv)
  show ?thesis
  proof (cases "B = 0")
    case True
    have "be_alloc_buffer E st buft ?sz \<noteq> Some (0, b)" for b
      using assms(1) fin unfolding ctx_setting_def backend_ok_def by blast
    then have "st1 = st"
      using al True assms(6) by (auto simp: ggml_backend_buft_alloc_buffer_def split: if_splits option.splits)
    then show ?thesis using rest True free_news [OF nw] by auto
  next
    case False
    obtain ta where ta: "ggml_tallocr_new E st1 B = Some ta"
      and rest': "(do { (ok, s) \<leftarrow> alloc_range_loop E st1 (hd0 rs) (hd0 (ps @ rs)) ta s;
         if \<not> ok then do { st \<leftarrow> free_buffers st1 (bufs @ [B]); Some (False, [], st, s) } else Some (True, bufs @ [B], st1, s) }) = Some (ok, bufs', st', s')"
      using rest False by (auto simp: Let_def bind_eq_Some_conv)
    obtain b where b: "bb_deref st B = None" "st1 = st\<lparr>bs_buffers := (bs_buffers st)(B \<mapsto> b)\<rparr>" "?sz \<le> bb_size b"
      "lin_ok st1 buft a b ta" "tl_buffer ta = B" "tl_offset ta = 0" "bb_buffers b = []"
      by (rule new_lin_ok [OF assms(1,2) fin al False assms(6) ta])
    have gb: "good_buffer buft b" using b(4) by (simp add: lin_ok_def)
    have sg1: "store_good st1" using sg gb by (auto simp: store_good_def b(2))
    have nw1: "news buft st0 (bufs @ [B]) st1" unfolding b(2) by (rule news_add [OF nw b(1) False gb b(7)])
    have c: "ctx_objs s xs e" "pool_tensors s xs = qs @ ps @ rs"
      using ctx_same_objs [OF assms(3), of s] pl assms(4) by (auto simp: ctx_placed_def)
    obtain s1 where run: "range_run E st1 ps ta s = Some (ok, s1)" and res: "s' = s1"
        "bufs' = (if ok then bufs @ [B] else [])" "if ok then st' = st1 else free_buffers st1 (bufs @ [B]) = Some st'"
      using rest' range_loop_run [OF c range_tensor_same [OF _ sg1]]
      by (auto simp: bind_eq_Some_conv split: if_splits)
    have mono: "bb_deref st1 q = Some x" if "bb_deref st q = Some x" for q x using that b(1) by (auto simp: b(2))
    have pl1: "ctx_placed E buft a s0 (bufs @ [B]) st1 (set qs) s" by (rule ctx_placed_mono [OF pl mono]) auto
    have lb: "lin_below E buft s0 (set qs) ta s" by (rule fresh_below [OF pl]) (simp add: b(1,5))
    note f = pool_tensors_facts [OF assms(3)]
    have ps: "distinct ps" "set ps \<inter> set qs = {}" "set ps \<subseteq> ctx_tensors s0" using f(1) f(2) [symmetric] unfolding assms(4) by auto
    have B: "tl_buffer ta \<in> set (bufs @ [B])" using b(5) by simp
    have fit: "tl_offset ta + ?sz \<le> bb_size b" using b(3,6) by simp
    note p = range_run_placed [OF assms(1) ctx_settingD(1) [OF assms(1,3)] sg1 B b(4) pl1 lb ps fit run]
    show ?thesis
      using p res nw1 sg1 fin b(2) free_news [OF nw1] by (auto simp: ctx_done_def Un_commute)
  qed
qed

section \<open>The loop over the context\<close>

text \<open>
  \<open>qs\<close> are the tensors of the ranges that are done, \<open>cs\<close> those of the current range, which starts at
  \<^verbatim>\<open>first\<close>, and \<open>ps\<close> the rest. If every tensor fits into a buffer of the maximal size, a range is
  only closed when a tensor that needs memory opens the next one.
\<close>

definition loop_inv ::
  "backend_env \<Rightarrow> ptr \<Rightarrow> size_t \<Rightarrow> backend_store \<Rightarrow> ggml_state \<Rightarrow> nat \<Rightarrow> bool \<Rightarrow> ptr list \<Rightarrow> ptr list \<Rightarrow> ptr list \<Rightarrow> ctx_alloc \<Rightarrow> bool" where
  "loop_inv E buft a st0 s0 mx no_alloc qs cs ps c \<longleftrightarrow> ca_first c = hd0 (cs @ ps)
     \<and> ca_cur_buf_size c = needs E buft a s0 cs \<and> ca_nbytes_total c = needs E buft a s0 qs
     \<and> (if no_alloc then ca_state c = s0 \<and> ca_store c = st0 \<and> ca_buffers c = []
        else ctx_done E buft a st0 s0 (set qs) (ca_buffers c) (ca_store c) (ca_state c)
          \<and> (qs = [] \<longleftrightarrow> ca_buffers c = []))
     \<and> ((\<forall>p \<in> ctx_tensors s0. mem_need E buft a s0 p \<le> mx) \<longrightarrow>
          needs E buft a s0 cs \<le> mx \<and> (qs = [] \<or> 0 < needs E buft a s0 cs))"

lemma loop_inv_state:
  assumes "loop_inv E buft a st0 s0 mx no_alloc qs cs ps c" "ctx_objs s0 xs e" "pool_tensors s0 xs = qs @ cs @ ps"
  shows "ctx_same s0 (ca_state c)" "ctx_objs (ca_state c) xs e" "pool_tensors (ca_state c) xs = qs @ cs @ ps"
    "p \<in> set (cs @ ps) \<Longrightarrow> deref (ca_state c) p = deref s0 p"
proof -
  show same: "ctx_same s0 (ca_state c)" using assms(1) by (auto simp: loop_inv_def ctx_done_def ctx_placed_def split: if_splits)
  show "ctx_objs (ca_state c) xs e" "pool_tensors (ca_state c) xs = qs @ cs @ ps"
    using ctx_same_objs [OF assms(2) same] assms(3) by simp_all
  have "distinct (qs @ cs @ ps)" using pool_tensors_facts(1) [OF assms(2)] assms(3) by simp
  then have "p \<notin> set qs" if "p \<in> set (cs @ ps)" using that by auto
  then show "p \<in> set (cs @ ps) \<Longrightarrow> deref (ca_state c) p = deref s0 p"
    using assms(1) unfolding loop_inv_def ctx_done_def ctx_placed_def by (auto split: if_splits)
qed

text \<open>A range is placed, or everything is given back.\<close>

lemma ctx_range_done:
  assumes "ctx_setting E buft a s0" "bt_get_alignment (be_bufts E buft) = a" "ctx_objs s0 xs e"
    and "pool_tensors s0 xs = qs @ cs @ ps" "loop_inv E buft a st0 s0 mx no_alloc qs cs ps c" "0 < needs E buft a s0 cs"
    and "ctx_alloc_range E buft no_alloc (hd0 ps) (c\<lparr>ca_nbytes_total := n\<rparr>) = Some (ok, c')"
  shows "if ok then c' = (if no_alloc then c\<lparr>ca_nbytes_total := n\<rparr> else c\<lparr>ca_nbytes_total := n,
            ca_buffers := ca_buffers c', ca_store := ca_store c', ca_state := ca_state c'\<rparr>)
         \<and> (no_alloc \<or> ctx_done E buft a st0 s0 (set (qs @ cs)) (ca_buffers c') (ca_store c') (ca_state c') \<and> ca_buffers c' \<noteq> [])
      else \<not> no_alloc \<and> ca_store c' = st0"
proof (cases no_alloc)
  case True
  then show ?thesis using assms(7) by (auto simp: ctx_alloc_range_def)
next
  case False
  have i: "ca_first c = hd0 (cs @ ps)" "ca_cur_buf_size c = needs E buft a s0 cs"
    "ctx_done E buft a st0 s0 (set qs) (ca_buffers c) (ca_store c) (ca_state c)"
    using assms(5) False by (simp_all add: loop_inv_def)
  obtain bufs st s where r: "alloc_tensor_range E (hd0 (cs @ ps)) (hd0 ps) buft (needs E buft a s0 cs) (ca_buffers c) (ca_store c) (ca_state c)
      = Some (ok, bufs, st, s)" and c': "c' = c\<lparr>ca_nbytes_total := n, ca_buffers := bufs, ca_store := st, ca_state := s\<rparr>"
    using assms(7) False i by (auto simp: ctx_alloc_range_def bind_eq_Some_conv)
  show ?thesis using alloc_range_done [OF assms(1-4) i(3) assms(6) r] False by (auto simp: c')
qed

lemma needs_prefix:
  assumes "ctx_setting E buft a s0" "ctx_objs s0 xs e" "pool_tensors s0 xs = qs @ cs @ ps"
  shows "needs E buft a s0 qs + needs E buft a s0 cs \<le> SIZE_MAX" "needs E buft a s0 cs + needs E buft a s0 ps \<le> SIZE_MAX"
  using ctx_settingD(2) [OF assms(1,2)] assms(3) by simp_all

text \<open>One turn of the loop, for the tensor \<open>p\<close>.\<close>

lemma ctx_turn:
  assumes "ctx_setting E buft a s0" "bt_get_alignment (be_bufts E buft) = a" "ctx_objs s0 xs e"
    and "pool_tensors s0 xs = qs @ cs @ p # ps" "loop_inv E buft a st0 s0 mx no_alloc qs cs (p # ps) c"
  defines "c1 \<equiv> c\<lparr>ca_cur_buf_size := needs E buft a s0 (cs @ [p])\<rparr>"
    and "c2 \<equiv> \<lambda>c'. c'\<lparr>ca_first := p, ca_nbytes_total := sz_add (ca_nbytes_total c') (ca_cur_buf_size c'), ca_cur_buf_size := mem_need E buft a s0 p\<rparr>"
  shows "\<not> (needs E buft a s0 cs > 0 \<and> needs E buft a s0 (cs @ [p]) > mx) \<Longrightarrow>
      ctx_alloc_loop E buft a mx no_alloc p c = ctx_alloc_loop E buft a mx no_alloc (hd0 ps) c1"
    "\<not> (needs E buft a s0 cs > 0 \<and> needs E buft a s0 (cs @ [p]) > mx) \<Longrightarrow> loop_inv E buft a st0 s0 mx no_alloc qs (cs @ [p]) ps c1"
    "needs E buft a s0 cs > 0 \<and> needs E buft a s0 (cs @ [p]) > mx \<Longrightarrow> ctx_alloc_range E buft no_alloc p c = Some (True, c') \<Longrightarrow>
      ctx_alloc_loop E buft a mx no_alloc p c = ctx_alloc_loop E buft a mx no_alloc (hd0 ps) (c2 c')"
    "needs E buft a s0 cs > 0 \<and> needs E buft a s0 (cs @ [p]) > mx \<Longrightarrow> ctx_alloc_range E buft no_alloc p c = Some (True, c') \<Longrightarrow>
      loop_inv E buft a st0 s0 mx no_alloc (qs @ cs) [p] ps (c2 c')"
    "needs E buft a s0 cs > 0 \<and> needs E buft a s0 (cs @ [p]) > mx \<Longrightarrow> ctx_alloc_range E buft no_alloc p c = None \<Longrightarrow>
      ctx_alloc_loop E buft a mx no_alloc p c = None"
    "needs E buft a s0 cs > 0 \<and> needs E buft a s0 (cs @ [p]) > mx \<Longrightarrow> ctx_alloc_range E buft no_alloc p c = Some (False, c') \<Longrightarrow>
      ctx_alloc_loop E buft a mx no_alloc p c = Some (False, c') \<and> \<not> no_alloc \<and> ca_store c' = st0"
proof -
  note st = loop_inv_state [OF assms(5) assms(3,4)]
  note f = pool_tensors_facts [OF assms(3)]
  have pd: "p \<in> ctx_tensors s0" "p \<noteq> 0" using f(2,3) assms(4) by auto
  have ss: "sizes_stable (be_bufts E)" "buft \<noteq> 0" using assms(1) by (simp_all add: ctx_setting_def)
  have dp: "deref (ca_state c) p = deref s0 p" using st(4) by simp
  then have "p \<in> dom (st_tensors (ca_state c))" using pd(1) by (auto simp: ctx_tensors_def deref_def)
  then have sz: "ctx_tensor_size E buft a (ca_state c) p = Some (mem_need E buft a s0 p)"
    using ctx_tensor_size_eq [OF ss(2)] mem_need_stable [OF ss(1) st(1) dp] by simp
  have cur: "ca_cur_buf_size c = needs E buft a s0 cs" "ca_nbytes_total c = needs E buft a s0 qs" "ca_first c = hd0 (cs @ p # ps)"
    using assms(5) by (simp_all add: loop_inv_def)
  have add: "sz_add (needs E buft a s0 cs) (mem_need E buft a s0 p) = needs E buft a s0 (cs @ [p])"
    "sz_add (needs E buft a s0 qs) (needs E buft a s0 cs) = needs E buft a s0 (qs @ cs)"
    using needs_prefix [OF assms(1,3,4)] by (simp_all add: sz_add_id)
  have nxt: "ggml_get_next_tensor (ca_state x) p = Some (hd0 ps)" if "ctx_same s0 (ca_state x)" for x
    using ctx_same_objs [OF assms(3) that] next_hd0 [of "ca_state x" xs e "qs @ cs" p ps] assms(4) by simp
  note loop = ctx_alloc_loop.simps [of E buft a mx no_alloc p c]
  have same1: "ctx_same s0 (ca_state c1)" using st(1) by (simp add: c1_def)
  {
    assume n: "\<not> (needs E buft a s0 cs > 0 \<and> needs E buft a s0 (cs @ [p]) > mx)"
    show "loop_inv E buft a st0 s0 mx no_alloc qs (cs @ [p]) ps c1" using assms(5) n pd(1) by (auto simp: loop_inv_def c1_def)
    show "ctx_alloc_loop E buft a mx no_alloc p c = ctx_alloc_loop E buft a mx no_alloc (hd0 ps) c1"
      using loop pd(2) sz cur add n nxt [OF same1] by (auto simp: c1_def)
  }
  assume y: "needs E buft a s0 cs > 0 \<and> needs E buft a s0 (cs @ [p]) > mx"
  then have pos: "0 < needs E buft a s0 cs" by simp
  have body: "ctx_alloc_loop E buft a mx no_alloc p c = (do {
      (ok, c') \<leftarrow> ctx_alloc_range E buft no_alloc p c;
      if \<not> ok then Some (False, c')
      else do { t \<leftarrow> ggml_get_next_tensor (ca_state c') p; ctx_alloc_loop E buft a mx no_alloc t (c2 c') } })"
    using loop pd(2) sz cur add y by (cases "ctx_alloc_range E buft no_alloc p c") (auto simp: c2_def)
  have r: "ctx_alloc_range E buft no_alloc (hd0 (p # ps)) (c\<lparr>ca_nbytes_total := ca_nbytes_total c\<rparr>) = ctx_alloc_range E buft no_alloc p c"
    by simp
  note rd = ctx_range_done [OF assms(1-5) pos]
  show "ctx_alloc_range E buft no_alloc p c = None \<Longrightarrow> ctx_alloc_loop E buft a mx no_alloc p c = None" using body by simp
  show "ctx_alloc_loop E buft a mx no_alloc p c = Some (False, c') \<and> \<not> no_alloc \<and> ca_store c' = st0"
    if "ctx_alloc_range E buft no_alloc p c = Some (False, c')"
    using rd [of "ca_nbytes_total c" False c'] r that body by simp
  assume x: "ctx_alloc_range E buft no_alloc p c = Some (True, c')"
  note d = rd [of "ca_nbytes_total c" True c', unfolded r, OF x]
  have cc: "ca_nbytes_total c' = needs E buft a s0 qs" "ca_cur_buf_size c' = needs E buft a s0 cs" "no_alloc \<Longrightarrow> c' = c"
    using d cur by (auto split: if_splits) (metis ctx_alloc.select_convs ctx_alloc.surjective ctx_alloc.update_convs)+
  show i2: "loop_inv E buft a st0 s0 mx no_alloc (qs @ cs) [p] ps (c2 c')"
    using d assms(5) cc add y pd(1) by (auto simp: loop_inv_def c2_def)
  have "ctx_same s0 (ca_state (c2 c'))" using loop_inv_state(1) [OF i2 assms(3)] assms(4) by simp
  then show "ctx_alloc_loop E buft a mx no_alloc p c = ctx_alloc_loop E buft a mx no_alloc (hd0 ps) (c2 c')"
    using body x nxt [of "c2 c'"] by (simp add: c2_def)
qed

lemma ctx_loop_done:
  assumes "ctx_setting E buft a s0" "bt_get_alignment (be_bufts E buft) = a" "ctx_objs s0 xs e"
    and "pool_tensors s0 xs = qs @ cs @ ps" "loop_inv E buft a st0 s0 mx no_alloc qs cs ps c"
    and "ctx_alloc_loop E buft a mx no_alloc (hd0 ps) c = Some (ok, c')"
  shows "if ok then \<exists>qs' cs'. pool_tensors s0 xs = qs' @ cs' \<and> loop_inv E buft a st0 s0 mx no_alloc qs' cs' [] c'
      else \<not> no_alloc \<and> ca_store c' = st0"
  using assms(4-)
proof (induction ps arbitrary: qs cs c)
  case Nil
  then have "ok" "c' = c" by (simp_all add: ctx_alloc_loop.simps)
  then show ?case using Nil.prems(1,2) by auto
next
  case (Cons p ps)
  note T = ctx_turn [OF assms(1-3) Cons.prems(1,2)]
  have run: "ctx_alloc_loop E buft a mx no_alloc p c = Some (ok, c')" using Cons.prems(3) by simp
  show ?case
  proof (cases "needs E buft a s0 cs > 0 \<and> needs E buft a s0 (cs @ [p]) > mx")
    case False
    show ?thesis using Cons.IH [OF _ T(2) [OF False]] T(1) [OF False] run Cons.prems(1) by simp
  next
    case True
    show ?thesis
    proof (cases "ctx_alloc_range E buft no_alloc p c")
      case None
      then show ?thesis using T(5) [OF True None] run by simp
    next
      case (Some r)
      obtain ok1 c1 where r: "r = (ok1, c1)" by (cases r)
      show ?thesis
      proof (cases ok1)
        case False
        then have "ctx_alloc_range E buft no_alloc p c = Some (False, c1)" using Some r by simp
        from T(6) [OF True this] show ?thesis using run by simp
      next
        case ok: True
        then have x: "ctx_alloc_range E buft no_alloc p c = Some (True, c1)" using Some r by simp
        show ?thesis using Cons.IH [OF _ T(4) [OF True x]] T(3) [OF True x] run Cons.prems(1) by simp
      qed
    qed
  qed
qed

section \<open>The result\<close>

text \<open>The buffers that a result stands for.\<close>

definition buffer_parts :: "backend_store \<Rightarrow> ptr \<Rightarrow> ptr list" where
  "buffer_parts st buf = (case bb_deref st buf of None \<Rightarrow> [] | Some b \<Rightarrow> if bb_buffers b = [] then [buf] else bb_buffers b)"

definition buft_max :: "backend_env \<Rightarrow> ptr \<Rightarrow> nat" where
  "buft_max E buft = (case bt_get_max_size (be_bufts E buft) of Some n \<Rightarrow> n | None \<Rightarrow> SIZE_MAX)"

abbreviation buft_align :: "backend_env \<Rightarrow> ptr \<Rightarrow> nat" where
  "buft_align E buft \<equiv> bt_get_alignment (be_bufts E buft)"

definition total_need :: "backend_env \<Rightarrow> ptr \<Rightarrow> ggml_state \<Rightarrow> nat" where
  "total_need E buft s = (\<Sum>p \<in> ctx_tensors s. mem_need E buft (buft_align E buft) s p)"

definition fits_buffers :: "backend_env \<Rightarrow> ptr \<Rightarrow> ggml_state \<Rightarrow> bool" where
  "fits_buffers E buft s \<longleftrightarrow> (\<forall>p \<in> ctx_tensors s. mem_need E buft (buft_align E buft) s p \<le> buft_max E buft)"

lemma needs_total:
  assumes "ctx_objs s xs e"
  shows "needs E buft (buft_align E buft) s (pool_tensors s xs) = total_need E buft s"
  using sum_list_distinct_conv_sum_set [OF pool_tensors_facts(1) [OF assms], of "mem_need E buft (buft_align E buft) s"]
    pool_tensors_facts(2) [OF assms] by (simp add: needs_def total_need_def)

lemma multi_buffer_result:
  assumes "ggml_backend_multi_buffer_alloc_buffer E st bufs = Some (buf, st')" "backend_ok E" "finite_store st"
  shows "buf \<noteq> 0" "bb_deref st q = Some b \<Longrightarrow> bb_deref st' q = Some b" "bufs \<noteq> [] \<Longrightarrow> buffer_parts st' buf = bufs"
proof -
  obtain n b0 where "buffer_sizes st bufs 0 = Some n" "bb_deref st (bufs ! 0) = Some b0"
    using assms(1) by (auto simp: ggml_backend_multi_buffer_alloc_buffer_def bind_eq_Some_conv)
  then have "buf = be_new E st" "st' = st\<lparr>bs_buffers := (bs_buffers st)(be_new E st \<mapsto>
      \<lparr>bb_buft = bb_buft b0, bb_get_base = None, bb_init_tensor = None, bb_is_meta = False, bb_size = n,
       bb_usage = GGML_BACKEND_BUFFER_USAGE_ANY, bb_init_ok = \<lambda>_. True, bb_buffers = bufs\<rparr>)\<rparr>"
    using assms(1) by (auto simp: ggml_backend_multi_buffer_alloc_buffer_def ggml_backend_buffer_init_def Let_def)
  moreover have "be_new E st \<noteq> 0" "bb_deref st (be_new E st) = None" using assms(2,3) unfolding backend_ok_def by blast+
  ultimately show "buf \<noteq> 0" "bb_deref st q = Some b \<Longrightarrow> bb_deref st' q = Some b" "bufs \<noteq> [] \<Longrightarrow> buffer_parts st' buf = bufs"
    by (auto simp: buffer_parts_def)
qed

lemma finish_parts:
  assumes "ctx_done E buft a st s Q bufs st1 s1" "backend_ok E" "bufs \<noteq> []"
    and "(if length bufs = 1 then Some (bufs ! 0, n, st1, s1)
       else do { (buffer, st) \<leftarrow> ggml_backend_multi_buffer_alloc_buffer E st1 bufs; Some (buffer, n, st, s1) }) = Some (buf, n', st', s')"
  shows "buf \<noteq> 0 \<and> n' = n \<and> ctx_placed E buft a s (buffer_parts st' buf) st' Q s' \<and> (\<forall>q \<in> set (buffer_parts st' buf). bb_deref st q = None)"
proof -
  have d: "ctx_placed E buft a s bufs st1 Q s1" "finite_store st1" "news buft st bufs st1" using assms(1) by (simp_all add: ctx_done_def)
  show ?thesis
  proof (cases "length bufs = 1")
    case True
    then obtain B where B: "bufs = [B]" by (cases bufs) auto
    obtain b where "bb_deref st1 B = Some b" "bb_buffers b = []" "B \<noteq> 0" "bb_deref st B = None" using d(3) by (auto simp: news_def B)
    moreover from this have "buffer_parts st1 B = bufs" by (simp add: buffer_parts_def B)
    ultimately show ?thesis using assms(4) d(1) by (auto simp: B)
  next
    case False
    then have m: "ggml_backend_multi_buffer_alloc_buffer E st1 bufs = Some (buf, st')" "s' = s1" "n' = n"
      using assms(4) by (auto simp: bind_eq_Some_conv)
    note r = multi_buffer_result [OF m(1) assms(2) d(2)]
    have "ctx_placed E buft a s bufs st' Q s1" by (rule ctx_placed_mono [OF d(1) r(2)]) auto
    then show ?thesis using r(1,3) assms(3) m d(3) by (auto simp: news_def)
  qed
qed

lemma ctx_placed_nothing:
  assumes "ctx_placed E buft a s bufs st {} s'" shows "s' = s"
proof -
  have "st_tensors s' p = st_tensors s p" for p using assms by (simp add: ctx_placed_def deref_def)
  then have "st_tensors s' = st_tensors s" by blast
  then show ?thesis using assms by (cases s'; cases s) (simp add: ctx_placed_def ctx_same_def)
qed

text \<open>How the function proceeds once the loop has ended.\<close>

lemma impl_result:
  assumes "ctx_setting E buft a s" "a = buft_align E buft" "finite_store st" "store_good st"
    and "ggml_backend_alloc_ctx_tensors_from_buft_impl E st s buft no_alloc = Some (buf, n, st', s')"
  shows "no_alloc \<Longrightarrow> buf = 0 \<and> n = total_need E buft s \<and> st' = st \<and> s' = s"
    "\<not> no_alloc \<Longrightarrow> buf = 0 \<Longrightarrow> st' = st"
    "\<not> no_alloc \<Longrightarrow> buf \<noteq> 0 \<Longrightarrow> fits_buffers E buft s \<Longrightarrow> ctx_placed E buft a s (buffer_parts st' buf) st' (ctx_tensors s) s'
       \<and> (\<forall>q \<in> set (buffer_parts st' buf). bb_deref st q = None)"
proof -
  let ?mx = "buft_max E buft"
  obtain xs e where ctx: "ctx_objs s xs e" using assms(1) by (auto simp: ctx_setting_def ctx_inv_def)
  let ?ts = "pool_tensors s xs"
  have E: "backend_ok E" "buft \<noteq> 0" using assms(1) by (simp_all add: ctx_setting_def)
  define c0 where "c0 = \<lparr>ca_first = hd0 ?ts, ca_cur_buf_size = 0, ca_nbytes_total = 0, ca_buffers = [], ca_store = st, ca_state = s\<rparr>"
  let ?rest = "\<lambda>ok c. (if \<not> ok then Some (0, ca_nbytes_total c, ca_store c, ca_state c)
     else do {
       (ok, c) \<leftarrow> (if ca_cur_buf_size c > 0
         then ctx_alloc_range E buft no_alloc 0 (c\<lparr>ca_nbytes_total := sz_add (ca_nbytes_total c) (ca_cur_buf_size c)\<rparr>)
         else Some (True, c));
       if \<not> ok \<or> no_alloc \<or> ca_buffers c = [] then Some (0, ca_nbytes_total c, ca_store c, ca_state c)
       else if length (ca_buffers c) = 1 then Some (ca_buffers c ! 0, ca_nbytes_total c, ca_store c, ca_state c)
       else do {
         (buffer, st) \<leftarrow> ggml_backend_multi_buffer_alloc_buffer E (ca_store c) (ca_buffers c);
         Some (buffer, ca_nbytes_total c, st, ca_state c) } })"
  have "ggml_get_no_alloc s" using assms(5)
    by (cases "ggml_get_no_alloc s") (simp_all add: ggml_backend_alloc_ctx_tensors_from_buft_impl_def)
  then have "Option.bind (ctx_alloc_loop E buft a ?mx no_alloc (hd0 ?ts) c0) (\<lambda>(ok, c). ?rest ok c) = Some (buf, n, st', s')"
    using assms(5) unfolding ggml_backend_alloc_ctx_tensors_from_buft_impl_def ggml_backend_buft_get_alignment_def
      ggml_backend_buft_get_max_size_def buft_max_def c0_def first_hd0 [OF ctx] assms(2) by (simp only: ggml_assert_def E(2) simp_thms not_False_eq_True if_True bind.bind_lunit)
  then obtain y where y: "ctx_alloc_loop E buft a ?mx no_alloc (hd0 ?ts) c0 = Some y" "(case y of (ok, c) \<Rightarrow> ?rest ok c) = Some (buf, n, st', s')"
    unfolding bind_eq_Some_conv by blast
  obtain ok c where "y = (ok, c)" by (cases y)
  then have loop: "ctx_alloc_loop E buft a ?mx no_alloc (hd0 ?ts) c0 = Some (ok, c)" and rest: "?rest ok c = Some (buf, n, st', s')"
    using y unfolding \<open>y = (ok, c)\<close> prod.case by blast+
  have i0: "loop_inv E buft a st s ?mx no_alloc [] [] ?ts c0"
    using ctx_done_init [OF assms(3,4)] by (simp add: loop_inv_def c0_def)
  note L = ctx_loop_done [OF assms(1) assms(2) [symmetric] ctx _ i0 loop, simplified]
  have "(no_alloc \<longrightarrow> buf = 0 \<and> n = total_need E buft s \<and> st' = st \<and> s' = s) \<and> (\<not> no_alloc \<and> buf = 0 \<longrightarrow> st' = st)
     \<and> (\<not> no_alloc \<and> buf \<noteq> 0 \<and> fits_buffers E buft s \<longrightarrow> ctx_placed E buft a s (buffer_parts st' buf) st' (ctx_tensors s) s'
       \<and> (\<forall>q \<in> set (buffer_parts st' buf). bb_deref st q = None))"
  proof (cases ok)
    case False
    then show ?thesis using L rest by auto
  next
    case True
    then obtain qs cs where ts: "?ts = qs @ cs" and i: "loop_inv E buft a st s ?mx no_alloc qs cs [] c" using L by auto
    have cur: "ca_cur_buf_size c = needs E buft a s cs" "ca_nbytes_total c = needs E buft a s qs" using i by (simp_all add: loop_inv_def)
    have add: "sz_add (ca_nbytes_total c) (ca_cur_buf_size c) = total_need E buft s"
      using needs_prefix(1) [OF assms(1) ctx, of qs cs "[]"] needs_total [OF ctx, of E buft] ts cur assms(2) by (simp add: sz_add_id)
    have all: "set (qs @ cs) = ctx_tensors s" using pool_tensors_facts(2) [OF ctx] ts by simp
    show ?thesis
    proof (cases "needs E buft a s cs > 0")
      case True
      let ?fin = "\<lambda>ok c. (if \<not> ok \<or> no_alloc \<or> ca_buffers c = [] then Some (0, ca_nbytes_total c, ca_store c, ca_state c)
          else if length (ca_buffers c) = 1 then Some (ca_buffers c ! 0, ca_nbytes_total c, ca_store c, ca_state c)
          else do { (buffer, st) \<leftarrow> ggml_backend_multi_buffer_alloc_buffer E (ca_store c) (ca_buffers c);
                 Some (buffer, ca_nbytes_total c, st, ca_state c) })"
      have "(0 < ca_cur_buf_size c) = True" "ok = True" using True cur(1) \<open>ok\<close> by simp_all
      then have "Option.bind (ctx_alloc_range E buft no_alloc 0 (c\<lparr>ca_nbytes_total := total_need E buft s\<rparr>)) (\<lambda>(ok, c). ?fin ok c)
          = Some (buf, n, st', s')"
        using rest by (simp only: if_True not_True_eq_False if_False add)
      then obtain z where z: "ctx_alloc_range E buft no_alloc 0 (c\<lparr>ca_nbytes_total := total_need E buft s\<rparr>) = Some z"
        "(case z of (ok, c) \<Rightarrow> ?fin ok c) = Some (buf, n, st', s')" unfolding bind_eq_Some_conv by blast
      obtain ok' c' where zz: "z = (ok', c')" by (cases z)
      have r: "ctx_alloc_range E buft no_alloc (hd0 []) (c\<lparr>ca_nbytes_total := total_need E buft s\<rparr>) = Some (ok', c')"
        unfolding hd0_simps by (rule z(1) [unfolded zz])
      have fin: "?fin ok' c' = Some (buf, n, st', s')" by (rule z(2) [unfolded zz prod.case])
      note d = ctx_range_done [OF assms(1) assms(2) [symmetric] ctx _ i True r, simplified ts, simplified]
      show ?thesis
      proof (cases no_alloc)
        case True
        then show ?thesis using d fin i by (auto simp: loop_inv_def split: if_splits)
      next
        case na: False
        show ?thesis
        proof (cases ok')
          case False
          then show ?thesis using d fin na by auto
        next
          case True
          then have dn: "ctx_done E buft a st s (ctx_tensors s) (ca_buffers c') (ca_store c') (ca_state c')" "ca_buffers c' \<noteq> []"
            using d na all by auto
          have e: "(if length (ca_buffers c') = 1 then Some (ca_buffers c' ! 0, ca_nbytes_total c', ca_store c', ca_state c')
            else do { (buffer, st) \<leftarrow> ggml_backend_multi_buffer_alloc_buffer E (ca_store c') (ca_buffers c');
                 Some (buffer, ca_nbytes_total c', st, ca_state c') }) = Some (buf, n, st', s')"
            using fin True na dn(2) by simp
          show ?thesis using finish_parts [OF dn(1) E(1) dn(2) e] na by blast
        qed
      qed
    next
      case False
      then have z: "needs E buft a s cs = 0" by simp
      then have tn: "total_need E buft s = needs E buft a s qs" using needs_total [OF ctx, of E buft] ts assms(2) by simp
      have fin: "(if no_alloc \<or> ca_buffers c = [] then Some (0, ca_nbytes_total c, ca_store c, ca_state c)
          else if length (ca_buffers c) = 1 then Some (ca_buffers c ! 0, ca_nbytes_total c, ca_store c, ca_state c)
          else do { (buffer, st) \<leftarrow> ggml_backend_multi_buffer_alloc_buffer E (ca_store c) (ca_buffers c);
                 Some (buffer, ca_nbytes_total c, st, ca_state c) }) = Some (buf, n, st', s')"
        using rest \<open>ok\<close> z cur(1) by simp
      show ?thesis
      proof (cases no_alloc)
        case True
        then show ?thesis using fin i cur tn by (auto simp: loop_inv_def)
      next
        case na: False
        have dn: "ctx_done E buft a st s (set qs) (ca_buffers c) (ca_store c) (ca_state c)" using i na by (simp add: loop_inv_def)
        show ?thesis
        proof (cases "ca_buffers c = []")
          case True
          then have "ca_store c = st" using dn free_news [of buft st "[]" "ca_store c"] by (simp add: ctx_done_def free_buffers_def)
          then show ?thesis using fin True na by auto
        next
          case False
          then have "qs \<noteq> []" using i na by (simp add: loop_inv_def)
          then have nf: "\<not> fits_buffers E buft s" using i z assms(2) by (auto simp: loop_inv_def fits_buffers_def)
          have e: "(if length (ca_buffers c) = 1 then Some (ca_buffers c ! 0, ca_nbytes_total c, ca_store c, ca_state c)
            else do { (buffer, st) \<leftarrow> ggml_backend_multi_buffer_alloc_buffer E (ca_store c) (ca_buffers c);
                 Some (buffer, ca_nbytes_total c, st, ca_state c) }) = Some (buf, n, st', s')"
            using fin False na by simp
          show ?thesis using finish_parts [OF dn E(1) False e] na nf by blast
        qed
      qed
    qed
  qed
  then show "no_alloc \<Longrightarrow> buf = 0 \<and> n = total_need E buft s \<and> st' = st \<and> s' = s"
    "\<not> no_alloc \<Longrightarrow> buf = 0 \<Longrightarrow> st' = st"
    "\<not> no_alloc \<Longrightarrow> buf \<noteq> 0 \<Longrightarrow> fits_buffers E buft s \<Longrightarrow> ctx_placed E buft a s (buffer_parts st' buf) st' (ctx_tensors s) s'
       \<and> (\<forall>q \<in> set (buffer_parts st' buf). bb_deref st q = None)" by blast+
qed

end
