(* ===== verification/GGML_CtxAllocLive.thy ===== *)
theory GGML_CtxAllocLive
  imports GGML_CtxAllocOk GGML_GallocLive
begin

text \<open>
  Allocating the tensors of a context succeeds when the backend can provide the buffers. A view is
  ready when its base is placed already or comes earlier in the context, as it does when the view
  was created after its base.
\<close>

section \<open>What success needs\<close>

definition init_ok :: "ggml_backend_buffer \<Rightarrow> bool" where
  "init_ok b \<longleftrightarrow> (\<forall>t. bb_init_tensor b = None \<or> bb_init_ok b t)"

definition tensor_ready :: "backend_store \<Rightarrow> ggml_state \<Rightarrow> ptr \<Rightarrow> ggml_tensor \<Rightarrow> bool" where
  "tensor_ready st s p t \<longleftrightarrow> (wants_mem t \<longrightarrow> t_buffer t = 0) \<and> (wants_view t \<longrightarrow> (\<exists>v. deref s (t_view_src t) = Some v
     \<and> (wants_mem v \<and> t_view_src t \<in> ctx_tensors s \<and> t_view_src t < p
        \<or> t_buffer v \<noteq> 0 \<and> t_data v \<noteq> 0 \<and> bb_deref st (t_buffer v) \<noteq> None)))"

definition ctx_ready :: "backend_env \<Rightarrow> ptr \<Rightarrow> backend_store \<Rightarrow> ggml_state \<Rightarrow> bool" where
  "ctx_ready E buft st s \<longleftrightarrow> ggml_get_no_alloc s
     \<and> (\<forall>p \<in> ctx_tensors s. \<forall>t. deref s p = Some t \<longrightarrow> tensor_ready st s p t)
     \<and> (\<forall>q b. bb_deref st q = Some b \<longrightarrow> init_ok b)
     \<and> (\<forall>st sz. finite_store st \<and> sz \<le> total_need E buft s \<longrightarrow> (\<exists>p b. be_alloc_buffer E st buft sz = Some (p, b)))
     \<and> (\<forall>st sz p b. be_alloc_buffer E st buft sz = Some (p, b) \<longrightarrow> init_ok b)"

definition all_init :: "backend_store \<Rightarrow> bool" where
  "all_init st \<longleftrightarrow> (\<forall>q b. bb_deref st q = Some b \<longrightarrow> init_ok b)"

lemma earlier_done:
  assumes "ctx_objs s xs e" "pool_tensors s xs = qs @ p # ps" "w \<in> ctx_tensors s" "w < p"
  shows "w \<in> set qs"
proof -
  have "\<forall>x \<in> set (p # ps). p \<le> x" using pool_tensors_sorted [OF assms(1)] assms(2) by (auto simp: sorted_append)
  then have "w \<notin> set (p # ps)" using assms(4) by fastforce
  then show ?thesis using assms(2,3) pool_tensors_facts(2) [OF assms(1)] by auto
qed

section \<open>One tensor\<close>

lemma range_tensor_returns:
  assumes "ctx_placed E buft a s0 bufs st Q s" "lin_ok st buft a b ta" "p \<notin> Q" "p \<in> ctx_tensors s0" "heap_ok (st_tensors s0)"
    and "ctx_setting E buft a s0" "tl_offset ta + mem_need E buft a s0 p \<le> bb_size b" "all_init st"
    and "deref s0 p = Some t" "tensor_ready st0 s0 p t" "\<And>q b. bb_deref st0 q = Some b \<Longrightarrow> bb_deref st q = Some b"
    and "\<And>w. w \<in> ctx_tensors s0 \<Longrightarrow> w < p \<Longrightarrow> w \<in> Q" "0 \<notin> set bufs"
  shows "\<exists>ta' s'. alloc_range_tensor E st ta p s = Some (True, ta', s')"
proof -
  have out: "\<And>q. q \<notin> Q \<Longrightarrow> deref s q = deref s0 q" and same: "ctx_same s0 s"
    and pl: "\<And>q u. q \<in> Q \<Longrightarrow> deref s0 q = Some u \<Longrightarrow> \<exists>u'. deref s q = Some u' \<and> tensor_placed E buft a s0 bufs st s q u u'"
    using assms(1) unfolding ctx_placed_def by blast+
  have t: "deref s p = Some t" using out [OF assms(3)] assms(9) by simp
  have bt: "buft \<noteq> 0" "sizes_stable (be_bufts E)" "pad_ok E buft a s0" using assms(6) by (simp_all add: ctx_setting_def)
  note l = assms(2) [unfolded lin_ok_def]
  show ?thesis
  proof (cases "wants_mem t")
    case True
    let ?B = "tl_buffer ta" and ?addr = "tl_base ta + tl_offset ta" and ?n = "tensor_size E buft s p"
    have need: "mem_need E buft a s0 p = GGML_PAD ?n a"
      using mem_need_stable [OF bt(2) same, of p buft a] t assms(9) True by (simp add: mem_need_def)
    have "tensor_size E buft s0 p = ?n"
      using alloc_size_stable [OF bt(2), of s0 s buft p] same by (simp add: tensor_size_def ctx_same_def)
    then have n: "?n \<le> GGML_PAD ?n a" using pad_okD(1) [OF bt(3) assms(4)] by simp
    have bb: "bb_buft b = buft" "\<not> bb_is_meta b" using l by (auto simp: good_buffer_def)
    have sz: "ggml_backend_buffer_get_alloc_size E st s ?B p = Some ?n" "ggml_backend_buft_get_alloc_size (be_bufts E) s buft p = Some ?n"
      using l alloc_size_Some [OF bt(1) t] bb by (simp_all add: ggml_backend_buffer_get_alloc_size_def)
    have gs: "ggml_backend_buffer_get_size st ?B = Some (bb_size b)" "ggml_backend_buffer_get_base st ?B = Some (tl_base ta)"
      using l bb by (simp_all add: ggml_backend_buffer_get_size_def ggml_backend_buffer_get_base_def)
    have fit: "tl_offset ta + GGML_PAD ?n a \<le> bb_size b" using assms(7) need by simp
    have add: "sz_add (tl_offset ta) (GGML_PAD ?n a) = tl_offset ta + GGML_PAD ?n a" "sz_add (tl_base ta) (tl_offset ta) = ?addr"
      "sz_add ?addr ?n = ?addr + ?n" "sz_add (tl_base ta) (bb_size b) = tl_base ta + bb_size b"
      using fit n l by (simp_all add: sz_add_id)
    have own: "t_buffer t = 0" "t_data t = 0" "t_view_src t = 0" using True assms(10) by (simp_all add: tensor_ready_def wants_mem_def)
    have ib: "bb_init_tensor b = None \<or> bb_init_ok b u" for u using assms(8) l by (auto simp: all_init_def init_ok_def)
    then have "\<exists>s'. tensor_alloc_status E st s ?B p ?addr = Some (True, s')"
      using own l bb gs sz add fit n t
      by (simp add: tensor_alloc_status_def ggml_backend_tensor_alloc_def ggml_backend_buffer_init_tensor_def init_tensor_status_def Let_def)
    then show ?thesis
      using sz gs add fit l own t True by (auto simp: alloc_range_tensor_def ggml_tallocr_alloc_def Let_def wants_mem_def)
  next
    case nm: False
    show ?thesis
    proof (cases "wants_view t")
      case True
      obtain v where v: "deref s0 (t_view_src t) = Some v"
        "wants_mem v \<and> t_view_src t \<in> ctx_tensors s0 \<and> t_view_src t < p
          \<or> t_buffer v \<noteq> 0 \<and> t_data v \<noteq> 0 \<and> bb_deref st0 (t_buffer v) \<noteq> None"
        using True assms(10) by (auto simp: tensor_ready_def)
      have "t_view_src v = 0" using assms(5,9) v(1) True by (fastforce simp: heap_ok_def view_ok_def deref_def wants_view_def)
      have "\<exists>v'. deref s (t_view_src t) = Some v' \<and> t_buffer v' \<noteq> 0 \<and> t_data v' \<noteq> 0 \<and> (\<exists>b. bb_deref st (t_buffer v') = Some b)"
      proof (cases "wants_mem v")
        case True
        then have "t_view_src t \<in> Q" using v(2) assms(12) by (auto simp: wants_mem_def)
        then obtain v' where v': "deref s (t_view_src t) = Some v'" "tensor_placed E buft a s0 bufs st s (t_view_src t) v v'"
          using pl v(1) by blast
        then have "t_data v' \<noteq> 0" "\<exists>b. bb_deref st (t_buffer v') = Some b" using True by (auto simp: tensor_placed_def)
        moreover have "t_buffer v' \<in> set bufs" using v'(2) True by (simp add: tensor_placed_def)
        then have "t_buffer v' \<noteq> 0" using assms(13) by metis
        ultimately show ?thesis using v'(1) by blast
      next
        case False
        have "\<not> wants_view v" using \<open>t_view_src v = 0\<close> by (simp add: wants_view_def)
        then have "deref s (t_view_src t) = Some v"
          using pl [OF _ v(1)] out [of "t_view_src t"] v(1) False by (cases "t_view_src t \<in> Q") (auto simp: tensor_placed_def)
        then show ?thesis using v(2) False assms(11) by auto
      qed
      then obtain v' b' where v': "deref s (t_view_src t) = Some v'" "t_buffer v' \<noteq> 0" "t_data v' \<noteq> 0" "bb_deref st (t_buffer v') = Some b'" by blast
      have ib: "bb_init_tensor b' = None \<or> bb_init_ok b' u" for u using assms(8) v'(4) by (auto simp: all_init_def init_ok_def)
      then have "\<exists>s'. view_init_status st s p = Some (True, s')"
        using v' t True
        by (simp add: view_init_status_def ggml_backend_view_init_def ggml_backend_buffer_init_tensor_def init_tensor_status_def
            Let_def wants_view_def)
      then show ?thesis using t True nm by (auto simp: alloc_range_tensor_def wants_mem_def wants_view_def)
    next
      case False
      then show ?thesis using t nm by (auto simp: alloc_range_tensor_def wants_mem_def wants_view_def)
    qed
  qed
qed

section \<open>Ranges\<close>

lemma range_run_returns:
  assumes "ctx_setting E buft a s0" "ctx_objs s0 xs e" "ctx_ready E buft st0 s0" "pool_tensors s0 xs = qs @ ps @ rs"
    and "store_good st" "all_init st" "\<And>q b. bb_deref st0 q = Some b \<Longrightarrow> bb_deref st q = Some b" "0 \<notin> set bufs"
    and "tl_buffer ta \<in> set bufs" "lin_ok st buft a b ta" "ctx_placed E buft a s0 bufs st (set qs) s"
    and "lin_below E buft s0 (set qs) ta s" "tl_offset ta + needs E buft a s0 ps \<le> bb_size b"
  shows "\<exists>s'. range_run E st ps ta s = Some (True, s')"
  using assms(4,9-)
proof (induction ps arbitrary: qs ta s)
  case Nil
  then show ?case by simp
next
  case (Cons p ps)
  note f = pool_tensors_facts [OF assms(2)]
  have pq: "p \<notin> set qs" "p \<in> ctx_tensors s0" using f(1) f(2) [symmetric] Cons.prems(1) by auto
  obtain t where t: "deref s0 p = Some t" using pq(2) by (auto simp: ctx_tensors_def deref_def)
  have rd: "tensor_ready st0 s0 p t" using assms(3) pq(2) t by (simp add: ctx_ready_def)
  have h: "heap_ok (st_tensors s0)" by (rule ctx_settingD(1) [OF assms(1,2)])
  have fit: "tl_offset ta + mem_need E buft a s0 p \<le> bb_size b" using Cons.prems(6) by simp
  have early: "w \<in> set qs" if "w \<in> ctx_tensors s0" "w < p" for w
    using earlier_done [OF assms(2) _ that, of qs "ps @ rs"] Cons.prems(1) by simp
  obtain ta' s1 where r: "alloc_range_tensor E st ta p s = Some (True, ta', s1)"
    using range_tensor_returns [OF Cons.prems(4,3) pq h assms(1) fit assms(6) t rd assms(7) early assms(8)] by blast
  have set: "sizes_stable (be_bufts E)" "pad_ok E buft a s0" "buft \<noteq> 0" using assms(1) by (simp_all add: ctx_setting_def)
  note st = placed_step [OF Cons.prems(4,5,3,2) pq h set(1,2) assms(5) set(3) fit r]
  have "\<exists>s'. range_run E st ps ta' s1 = Some (True, s')"
    by (rule Cons.IH [of "qs @ [p]"]) (use st Cons.prems in auto)
  then show ?case using r by simp
qed

lemma alloc_range_returns:
  assumes "ctx_setting E buft a s0" "bt_get_alignment (be_bufts E buft) = a" "ctx_objs s0 xs e" "ctx_ready E buft st0 s0"
    and "pool_tensors s0 xs = qs @ ps @ rs" "ctx_done E buft a st0 s0 (set qs) bufs st s" "all_init st"
    and "0 < needs E buft a s0 ps"
  shows "\<exists>bufs' st' s'. alloc_tensor_range E (hd0 (ps @ rs)) (hd0 rs) buft (needs E buft a s0 ps) bufs st s = Some (True, bufs', st', s')
    \<and> all_init st'"
proof -
  let ?sz = "needs E buft a s0 ps"
  have pl: "ctx_placed E buft a s0 bufs st (set qs) s" and fin: "finite_store st" and sg: "store_good st" and nw: "news buft st0 bufs st"
    using assms(6) by (simp_all add: ctx_done_def)
  have E: "backend_ok E" "buft \<noteq> 0" using assms(1) by (simp_all add: ctx_setting_def)
  have "?sz \<le> total_need E buft s0" using needs_total [OF assms(3), of E buft] assms(2,5) by simp
  then obtain B b where be: "be_alloc_buffer E st buft ?sz = Some (B, b)" using assms(4) fin unfolding ctx_ready_def by blast
  define st1 where "st1 = st\<lparr>bs_buffers := (bs_buffers st)(B \<mapsto> b)\<rparr>"
  have g: "B \<noteq> 0" "bb_deref st B = None" "?sz \<le> bb_size b" "good_buffer buft b"
    using E(1) fin be unfolding backend_ok_def by blast+
  have ib: "init_ok b" using assms(4) be by (auto simp: ctx_ready_def)
  have al: "ggml_backend_buft_alloc_buffer E st buft ?sz = Some (B, st1)"
    using be assms(8) E(2) by (simp add: ggml_backend_buft_alloc_buffer_def st1_def)
  have d: "bb_deref st1 B = Some b" by (simp add: st1_def)
  have bb: "bb_buft b = buft" "\<not> bb_is_meta b" "0 < bb_size b" using g(3,4) assms(8) by (simp_all add: good_buffer_def)
  then obtain base where base: "bb_get_base b = Some base" "0 < base" using g(4) by (auto simp: good_buffer_def)
  obtain k where k: "a = 2 ^ k" using assms(1) by (auto simp: ctx_setting_def pad_ok_def)
  obtain ta where ta: "ggml_tallocr_new E st1 B = Some ta"
    using d bb base g(1) E(2) assms(2) k
    by (simp add: ggml_tallocr_new_def ggml_backend_buffer_get_base_def ggml_backend_buffer_get_alignment_def ggml_backend_buft_get_alignment_def)
  obtain b' where b': "bb_deref st B = None" "st1 = st\<lparr>bs_buffers := (bs_buffers st)(B \<mapsto> b')\<rparr>" "?sz \<le> bb_size b'"
      "lin_ok st1 buft a b' ta" "tl_buffer ta = B" "tl_offset ta = 0" "bb_buffers b' = []"
    by (rule new_lin_ok [OF assms(1,2) fin al g(1) assms(8) ta])
  have sg1: "store_good st1" using sg g(4) by (auto simp: store_good_def st1_def)
  have ai1: "all_init st1" using assms(7) ib by (auto simp: all_init_def st1_def)
  have keep: "bb_deref st1 q = Some x" if "bb_deref st0 q = Some x" for q x
  proof -
    have "q \<notin> set bufs" using that nw unfolding news_def by (metis option.distinct(1))
    then have "bb_deref st q = Some x" using that nw by (simp add: news_def)
    then show ?thesis using g(2) by (auto simp: st1_def)
  qed
  have mono: "bb_deref st1 q = Some x" if "bb_deref st q = Some x" for q x using that g(2) by (auto simp: st1_def)
  have pl1: "ctx_placed E buft a s0 (bufs @ [B]) st1 (set qs) s" by (rule ctx_placed_mono [OF pl mono]) auto
  have lb: "lin_below E buft s0 (set qs) ta s" by (rule fresh_below [OF pl]) (simp add: b'(1,5))
  have B: "tl_buffer ta \<in> set (bufs @ [B])" using b'(5) by simp
  have nz: "0 \<notin> set (bufs @ [B])" using nw g(1) by (auto simp: news_def)
  have fit: "tl_offset ta + ?sz \<le> bb_size b'" using b'(3,6) by simp
  obtain s' where run: "range_run E st1 ps ta s = Some (True, s')"
    using range_run_returns [OF assms(1,3,4,5) sg1 ai1 keep nz B b'(4) pl1 lb fit] by blast
  have c: "ctx_objs s xs e" "pool_tensors s xs = qs @ ps @ rs"
    using ctx_same_objs [OF assms(3), of s] pl assms(5) by (auto simp: ctx_placed_def)
  have "alloc_range_loop E st1 (hd0 rs) (hd0 (ps @ rs)) ta s = Some (True, s')"
    using range_loop_run [OF c range_tensor_same [OF _ sg1]] run by simp
  then show ?thesis using al ta g(1) ai1 by (simp add: alloc_tensor_range_def Let_def)
qed

section \<open>The whole context\<close>

lemma ctx_range_returns:
  assumes "ctx_setting E buft a s0" "bt_get_alignment (be_bufts E buft) = a" "ctx_objs s0 xs e" "ctx_ready E buft st0 s0"
    and "pool_tensors s0 xs = qs @ cs @ ps" "loop_inv E buft a st0 s0 mx False qs cs ps c" "all_init (ca_store c)"
    and "0 < needs E buft a s0 cs"
  shows "\<exists>c'. ctx_alloc_range E buft False (hd0 ps) (c\<lparr>ca_nbytes_total := n\<rparr>) = Some (True, c') \<and> all_init (ca_store c')"
proof -
  have i: "ca_first c = hd0 (cs @ ps)" "ca_cur_buf_size c = needs E buft a s0 cs"
    "ctx_done E buft a st0 s0 (set qs) (ca_buffers c) (ca_store c) (ca_state c)"
    using assms(6) by (simp_all add: loop_inv_def)
  show ?thesis
    using alloc_range_returns [OF assms(1-5) i(3) assms(7,8)] i(1,2) by (auto simp: ctx_alloc_range_def)
qed

lemma ctx_loop_returns:
  assumes "ctx_setting E buft a s0" "bt_get_alignment (be_bufts E buft) = a" "ctx_objs s0 xs e" "ctx_ready E buft st0 s0"
    and "pool_tensors s0 xs = qs @ cs @ ps" "loop_inv E buft a st0 s0 mx False qs cs ps c" "all_init (ca_store c)"
  shows "\<exists>c'. ctx_alloc_loop E buft a mx False (hd0 ps) c = Some (True, c') \<and> all_init (ca_store c')"
  using assms(5-)
proof (induction ps arbitrary: qs cs c)
  case Nil
  then show ?case by (simp add: ctx_alloc_loop.simps)
next
  case (Cons p ps)
  note T = ctx_turn [OF assms(1-3) Cons.prems(1,2)]
  show ?case
  proof (cases "needs E buft a s0 cs > 0 \<and> needs E buft a s0 (cs @ [p]) > mx")
    case False
    show ?thesis using Cons.IH [OF _ T(2) [OF False]] T(1) [OF False] Cons.prems(1,3) by simp
  next
    case True
    then have pos: "0 < needs E buft a s0 cs" by simp
    obtain c1 where c1: "ctx_alloc_range E buft False (hd0 (p # ps)) (c\<lparr>ca_nbytes_total := ca_nbytes_total c\<rparr>) = Some (True, c1)"
        "all_init (ca_store c1)"
      using ctx_range_returns [OF assms(1-4) Cons.prems pos] by blast
    have r: "ctx_alloc_range E buft False p c = Some (True, c1)" using c1(1) by simp
    show ?thesis using Cons.IH [OF _ T(4) [OF True r]] T(3) [OF True r] c1(2) Cons.prems(1) by simp
  qed
qed

lemma buffer_sizes_Some:
  "\<forall>B \<in> set bufs. B \<noteq> 0 \<and> (\<exists>b. bb_deref st B = Some b) \<Longrightarrow> \<exists>n. buffer_sizes st bufs acc = Some n"
proof (induction bufs arbitrary: acc)
  case (Cons B bufs)
  then obtain b where "B \<noteq> 0" "bb_deref st B = Some b" by auto
  then show ?case using Cons by (simp add: ggml_backend_buffer_get_size_def)
qed simp

lemma finish_returns:
  assumes "news buft st bufs st1" "bufs \<noteq> []"
  shows "\<exists>r. (if length bufs = 1 then Some (bufs ! 0, n, st1, s1)
       else do { (buffer, st) \<leftarrow> ggml_backend_multi_buffer_alloc_buffer E st1 bufs; Some (buffer, n, st, s1) }) = Some r"
proof -
  have all: "\<forall>B \<in> set bufs. B \<noteq> 0 \<and> (\<exists>b. bb_deref st1 B = Some b)" using assms(1) by (auto simp: news_def)
  then obtain m b0 where "buffer_sizes st1 bufs 0 = Some m" "bb_deref st1 (bufs ! 0) = Some b0"
    using buffer_sizes_Some [of bufs st1 0] assms(2) by fastforce
  then show ?thesis by (simp add: ggml_backend_multi_buffer_alloc_buffer_def ggml_backend_buffer_init_def Let_def)
qed

lemma ctx_alloc_returns:
  assumes "ctx_setting E buft a s" "a = buft_align E buft" "finite_store st" "store_good st" "ctx_ready E buft st s"
    and "fits_buffers E buft s" "0 < total_need E buft s"
  shows "\<exists>buf n st' s'. ggml_backend_alloc_ctx_tensors_from_buft_impl E st s buft False = Some (buf, n, st', s') \<and> buf \<noteq> 0"
proof -
  let ?mx = "buft_max E buft"
  obtain xs e where ctx: "ctx_objs s xs e" using assms(1) by (auto simp: ctx_setting_def ctx_inv_def)
  let ?ts = "pool_tensors s xs"
  have E: "backend_ok E" "buft \<noteq> 0" using assms(1) by (simp_all add: ctx_setting_def)
  define c0 where "c0 = \<lparr>ca_first = hd0 ?ts, ca_cur_buf_size = 0, ca_nbytes_total = 0, ca_buffers = [], ca_store = st, ca_state = s\<rparr>"
  have i0: "loop_inv E buft a st s ?mx False [] [] ?ts c0"
    using ctx_done_init [OF assms(3,4)] by (simp add: loop_inv_def c0_def)
  have ai: "all_init (ca_store c0)" using assms(5) by (simp add: ctx_ready_def all_init_def c0_def)
  obtain c where loop: "ctx_alloc_loop E buft a ?mx False (hd0 ?ts) c0 = Some (True, c)" and aic: "all_init (ca_store c)"
    using ctx_loop_returns [OF assms(1) assms(2) [symmetric] ctx assms(5) _ i0 ai] by auto
  obtain qs cs where ts: "?ts = qs @ cs" and i: "loop_inv E buft a st s ?mx False qs cs [] c"
    using ctx_loop_done [OF assms(1) assms(2) [symmetric] ctx _ i0 loop] by auto
  have cur: "ca_cur_buf_size c = needs E buft a s cs" "ca_nbytes_total c = needs E buft a s qs" using i by (simp_all add: loop_inv_def)
  have tot: "total_need E buft s = needs E buft a s qs + needs E buft a s cs"
    using needs_total [OF ctx, of E buft] ts assms(2) by simp
  have pos: "0 < needs E buft a s cs"
    using i assms(6,7) tot unfolding loop_inv_def fits_buffers_def assms(2) by auto
  let ?c1 = "c\<lparr>ca_nbytes_total := sz_add (ca_nbytes_total c) (ca_cur_buf_size c)\<rparr>"
  have ts': "?ts = qs @ cs @ []" using ts by simp
  obtain c' where r: "ctx_alloc_range E buft False (hd0 []) ?c1 = Some (True, c')"
    using ctx_range_returns [OF assms(1) assms(2) [symmetric] ctx assms(5) ts' i aic pos] by blast
  have dn: "ctx_done E buft a st s (set (qs @ cs)) (ca_buffers c') (ca_store c') (ca_state c')" "ca_buffers c' \<noteq> []"
    using ctx_range_done [OF assms(1) assms(2) [symmetric] ctx ts' i pos r] by auto
  have nw: "news buft st (ca_buffers c') (ca_store c')" using dn(1) by (simp add: ctx_done_def)
  obtain buf n st' s' where fin: "(if length (ca_buffers c') = 1 then Some (ca_buffers c' ! 0, ca_nbytes_total c', ca_store c', ca_state c')
       else do { (buffer, st) \<leftarrow> ggml_backend_multi_buffer_alloc_buffer E (ca_store c') (ca_buffers c');
              Some (buffer, ca_nbytes_total c', st, ca_state c') }) = Some (buf, n, st', s')"
    using finish_returns [OF nw dn(2), of "ca_nbytes_total c'" "ca_state c'" E] by (metis prod_cases4)
  have "buf \<noteq> 0" using finish_parts [OF dn(1) E(1) dn(2) fin] by blast
  moreover have "ggml_backend_alloc_ctx_tensors_from_buft_impl E st s buft False = Some (buf, n, st', s')"
  proof -
    have na: "ggml_get_no_alloc s" using assms(5) by (simp add: ctx_ready_def)
    have cp: "0 < ca_cur_buf_size c" using pos cur(1) by simp
    have rr: "ctx_alloc_range E buft False 0 ?c1 = Some (True, c')" using r by simp
    have al: "ggml_backend_buft_get_alignment (be_bufts E) buft = Some a" "ggml_backend_buft_get_max_size (be_bufts E) buft = Some ?mx"
      using E(2) assms(2) by (simp_all add: ggml_backend_buft_get_alignment_def ggml_backend_buft_get_max_size_def buft_max_def)
    show ?thesis
      unfolding ggml_backend_alloc_ctx_tensors_from_buft_impl_def al first_hd0 [OF ctx] bind.bind_lunit c0_def [symmetric]
      using na loop cp rr dn(2) fin by simp
  qed
  ultimately show ?thesis by blast
qed

text \<open>The computation of the size, which allocates nothing, always returns.\<close>

lemma ctx_size_loop_returns:
  assumes "ctx_setting E buft a s0" "bt_get_alignment (be_bufts E buft) = a" "ctx_objs s0 xs e"
    and "pool_tensors s0 xs = qs @ cs @ ps" "loop_inv E buft a st0 s0 mx True qs cs ps c"
  shows "\<exists>c'. ctx_alloc_loop E buft a mx True (hd0 ps) c = Some (True, c')"
  using assms(4-)
proof (induction ps arbitrary: qs cs c)
  case Nil
  then show ?case by (simp add: ctx_alloc_loop.simps)
next
  case (Cons p ps)
  note T = ctx_turn [OF assms(1-3) Cons.prems(1,2)]
  show ?case
  proof (cases "needs E buft a s0 cs > 0 \<and> needs E buft a s0 (cs @ [p]) > mx")
    case False
    show ?thesis using Cons.IH [OF _ T(2) [OF False]] T(1) [OF False] Cons.prems(1) by simp
  next
    case True
    have r: "ctx_alloc_range E buft True p c = Some (True, c)" by (simp add: ctx_alloc_range_def)
    show ?thesis using Cons.IH [OF _ T(4) [OF True r]] T(3) [OF True r] Cons.prems(1) by simp
  qed
qed

lemma ctx_size_returns:
  assumes "ctx_setting E buft a s" "a = buft_align E buft" "finite_store st" "store_good st" "ggml_get_no_alloc s"
  shows "ggml_backend_alloc_ctx_tensors_from_buft_size E st s buft = Some (total_need E buft s)"
proof -
  let ?mx = "buft_max E buft"
  obtain xs e where ctx: "ctx_objs s xs e" using assms(1) by (auto simp: ctx_setting_def ctx_inv_def)
  let ?ts = "pool_tensors s xs"
  have E: "buft \<noteq> 0" using assms(1) by (simp_all add: ctx_setting_def)
  define c0 where "c0 = \<lparr>ca_first = hd0 ?ts, ca_cur_buf_size = 0, ca_nbytes_total = 0, ca_buffers = [], ca_store = st, ca_state = s\<rparr>"
  have i0: "loop_inv E buft a st s ?mx True [] [] ?ts c0" by (simp add: loop_inv_def c0_def)
  obtain c where loop: "ctx_alloc_loop E buft a ?mx True (hd0 ?ts) c0 = Some (True, c)"
    using ctx_size_loop_returns [OF assms(1) assms(2) [symmetric] ctx _ i0] by auto
  have al: "ggml_backend_buft_get_alignment (be_bufts E) buft = Some a" "ggml_backend_buft_get_max_size (be_bufts E) buft = Some ?mx"
    using E assms(2) by (simp_all add: ggml_backend_buft_get_alignment_def ggml_backend_buft_get_max_size_def buft_max_def)
  have "\<exists>r. ggml_backend_alloc_ctx_tensors_from_buft_impl E st s buft True = Some r"
    unfolding ggml_backend_alloc_ctx_tensors_from_buft_impl_def al first_hd0 [OF ctx] bind.bind_lunit c0_def [symmetric]
    using assms(5) loop by (cases "0 < ca_cur_buf_size c") (simp_all add: ctx_alloc_range_def)
  then obtain n st' s' buf where r: "ggml_backend_alloc_ctx_tensors_from_buft_impl E st s buft True = Some (buf, n, st', s')"
    by (metis prod_cases4)
  then show ?thesis
    using impl_result(1) [OF assms(1-4) r] by (simp add: ggml_backend_alloc_ctx_tensors_from_buft_size_def)
qed

section \<open>A concrete context\<close>

text \<open>Two tensors of 8 and 5 floats and a view of the first, in a context without data.\<close>

definition ctx_demo_start :: ggml_state where
  "ctx_demo_start = sample_state\<lparr>st_ctx := sample_ctx\<lparr>c_no_alloc := True\<rparr>\<rparr>"

definition ctx_demo_run :: "ggml_state option" where
  "ctx_demo_run = do {
     (a, s) \<leftarrow> ggml_new_tensor ctx_demo_start GGML_TYPE_F32 1 [8];
     (b, s) \<leftarrow> ggml_new_tensor s GGML_TYPE_F32 1 [5];
     (v, s) \<leftarrow> ggml_view_tensor s a;
     Some s }"

lemma ctx_demo_start_inv: "ctx_inv ctx_demo_start"
proof -
  have i: "ggml_init sample_memalign sample_state \<lparr>ip_mem_size = 4096, ip_mem_buffer = 0, ip_no_alloc = True\<rparr> = Some ctx_demo_start"
    by (simp add: ggml_init_def sample_state_def sample_ctx_def ctx_demo_start_def ggml_aligned_malloc_def sample_memalign_def
        GGML_PAD_16_eval forget_pool_def)
  show ?thesis
    using ctx_inv_init(1) [OF i]
    by (simp add: heap_ok_def ranked_def in_pool_def) (simp add: sample_ctx_def sample_state_def ctx_demo_start_def)
qed

abbreviation ctx_demo_tensor :: "int64_t \<Rightarrow> ggml_tensor" where
  "ctx_demo_tensor n \<equiv> new_tensor_desc GGML_TYPE_F32 [n, 1, 1, 1] 0 0 0"

lemma ctx_demo_nbytes: "0 < n \<Longrightarrow> n \<le> 8 \<Longrightarrow> ggml_nbytes (ctx_demo_tensor n) = nat (4 * n)"
  by (simp add: ggml_nbytes_def size_simps ggml_blck_size_def ggml_type_size_def new_tensor_nb_def Let_def)

lemma ctx_demo_inv:
  assumes "ctx_demo_run = Some s" shows "ctx_inv s"
proof -
  obtain a s1 b s2 v where 1: "ggml_new_tensor ctx_demo_start GGML_TYPE_F32 1 [8] = Some (a, s1)"
    and 2: "ggml_new_tensor s1 GGML_TYPE_F32 1 [5] = Some (b, s2)" and 3: "ggml_view_tensor s2 a = Some (v, s)"
    using assms by (auto simp: ctx_demo_run_def bind_eq_Some_conv)
  have "ctx_inv s1" using new_tensor_grows [OF ctx_demo_start_inv 1] by (auto intro: extends_inv grows_extends)
  then have "ctx_inv s2" using new_tensor_grows [OF _ 2] by (auto intro: extends_inv grows_extends)
  then show ?thesis using view_tensor_grows [OF _ 3] by (auto intro: extends_inv grows_extends)
qed

abbreviation ctx_demo_view :: ggml_tensor where
  "ctx_demo_view \<equiv> (new_tensor_desc GGML_TYPE_F32 [8, 1, 1, 1] 65568 0 0)
     \<lparr>t_name := '' (view)'', t_nb := new_tensor_nb GGML_TYPE_F32 [8, 1, 1, 1]\<rparr>"

lemma ctx_demo:
  obtains s where "ctx_demo_run = Some s" "ctx_inv s" "ggml_get_no_alloc s"
    "st_tensors s = [65568 \<mapsto> ctx_demo_tensor 8, 65936 \<mapsto> ctx_demo_tensor 5, 66304 \<mapsto> ctx_demo_view]"
    "ctx_tensors s = {65568, 65936, 66304}"
proof -
  have "\<exists>s. ctx_demo_run = Some s \<and> st_tensors s = [65568 \<mapsto> ctx_demo_tensor 8, 65936 \<mapsto> ctx_demo_tensor 5, 66304 \<mapsto> ctx_demo_view]
     \<and> st_ctx s = \<lparr>c_mem_size = 4096, c_mem_buffer = 65536, c_mem_buffer_owned = True,
          c_no_alloc = True, c_n_objects = 3, c_objects_begin = 65536, c_objects_end = 66272\<rparr>"
    using ctx_demo_nbytes [of 8]
    by (simp add: ctx_demo_run_def ctx_demo_start_def ggml_new_tensor_def ggml_new_tensor_impl_def new_tensor_view_base_def
        new_tensor_view_data_def request_bytes_def ggml_row_size_def ggml_type_size_def ggml_blck_size_def pool_eval
        ggml_view_tensor_def deref_def ggml_format_name_def upd_def)
  then obtain s where r: "ctx_demo_run = Some s" and c: "c_mem_size (st_ctx s) = 4096" "c_mem_buffer (st_ctx s) = 65536" "c_no_alloc (st_ctx s)"
    and t: "st_tensors s = [65568 \<mapsto> ctx_demo_tensor 8, 65936 \<mapsto> ctx_demo_tensor 5, 66304 \<mapsto> ctx_demo_view]"
    by auto
  show thesis
    by (rule that [OF r ctx_demo_inv [OF r] _ t]) (use c t(1) in \<open>auto simp: ctx_tensors_def in_pool_def ggml_get_no_alloc_def\<close>)
qed

text \<open>The backend gives out at most 32 bytes at a time, so each tensor needs a buffer of its own.\<close>

definition ctx_env :: backend_env where
  "ctx_env = demo_env\<lparr>be_bufts := \<lambda>_. \<lparr>bt_get_alignment = 32, bt_get_max_size = Some 32, bt_get_alloc_size = None\<rparr>\<rparr>"

lemma ctx_demo_sizes:
  assumes "st_tensors s = [65568 \<mapsto> ctx_demo_tensor 8, 65936 \<mapsto> ctx_demo_tensor 5, 66304 \<mapsto> ctx_demo_view]"
  shows "tensor_size ctx_env 8 s 65568 = 32" "tensor_size ctx_env 8 s 65936 = 20" "tensor_size ctx_env 8 s 66304 = 32"
    "mem_need ctx_env 8 32 s 65568 = 32" "mem_need ctx_env 8 32 s 65936 = 32" "mem_need ctx_env 8 32 s 66304 = 0"
proof -
  have d: "deref s 65568 = Some (ctx_demo_tensor 8)" "deref s 65936 = Some (ctx_demo_tensor 5)" "deref s 66304 = Some ctx_demo_view"
    using assms by (simp_all add: deref_def)
  have "ggml_nbytes ctx_demo_view = 32"
    by (simp add: ggml_nbytes_def size_simps ggml_blck_size_def ggml_type_size_def new_tensor_nb_def Let_def)
  then show sz: "tensor_size ctx_env 8 s 65568 = 32" "tensor_size ctx_env 8 s 65936 = 20" "tensor_size ctx_env 8 s 66304 = 32"
    using ctx_demo_nbytes [of 8] ctx_demo_nbytes [of 5] d
    by (simp_all add: tensor_size_def ggml_backend_buft_get_alloc_size_def ctx_env_def)
  have "GGML_PAD 32 32 = 32" "GGML_PAD 20 32 = 32" using GGML_PAD_eq [of 32 5 32] GGML_PAD_eq [of 32 5 20] by simp_all
  then show "mem_need ctx_env 8 32 s 65568 = 32" "mem_need ctx_env 8 32 s 65936 = 32" "mem_need ctx_env 8 32 s 66304 = 0"
    using d sz by (simp_all add: mem_need_def wants_mem_def)
qed

lemma ctx_demo_backend: "backend_ok ctx_env" "sizes_stable (be_bufts ctx_env)" "buft_align ctx_env 8 = 32" "buft_max ctx_env 8 = 32"
  using demo_backend(1) by (simp_all add: ctx_env_def backend_ok_def sizes_stable_def buft_max_def)

lemma ctx_demo_setting:
  assumes "ctx_inv s" "st_tensors s = [65568 \<mapsto> ctx_demo_tensor 8, 65936 \<mapsto> ctx_demo_tensor 5, 66304 \<mapsto> ctx_demo_view]"
    and "ctx_tensors s = {65568, 65936, 66304}"
  shows "ctx_setting ctx_env 8 (buft_align ctx_env 8) s" "fits_buffers ctx_env 8 s" "total_need ctx_env 8 s = 64"
proof -
  note z = ctx_demo_sizes [OF assms(2)]
  have "(32 :: nat) = 2 ^ 5" by simp
  then have "\<exists>k < 64. (32 :: nat) = 2 ^ k" by (intro exI [of _ 5]) simp
  then have "pad_ok ctx_env 8 32 s" using z assms(3) by (simp add: pad_ok_def)
  then show "ctx_setting ctx_env 8 (buft_align ctx_env 8) s"
    using ctx_demo_backend assms(1,3) z
    by (simp add: ctx_setting_def ctx_demo_backend(3)) (simp add: ctx_env_def demo_env_def demo_buffer_def split: if_splits)
  show "fits_buffers ctx_env 8 s" "total_need ctx_env 8 s = 64"
    using z assms(3) by (simp_all add: fits_buffers_def total_need_def ctx_demo_backend)
qed

lemma empty_store_ok: "finite_store empty_store" "store_good empty_store"
  by (simp_all add: finite_store_def store_good_def empty_store_def bb_deref_def)

lemma ctx_demo_ready:
  assumes "ggml_get_no_alloc s" "st_tensors s = [65568 \<mapsto> ctx_demo_tensor 8, 65936 \<mapsto> ctx_demo_tensor 5, 66304 \<mapsto> ctx_demo_view]"
    and "ctx_tensors s = {65568, 65936, 66304}" "total_need ctx_env 8 s = 64"
  shows "ctx_ready ctx_env 8 empty_store s"
proof -
  have d: "deref s 65568 = Some (ctx_demo_tensor 8)" "deref s 65936 = Some (ctx_demo_tensor 5)" "deref s 66304 = Some ctx_demo_view"
    using assms by (simp_all add: deref_def)
  have "tensor_ready empty_store s p t" if "p \<in> ctx_tensors s" "deref s p = Some t" for p t
    using that d assms(3) by (auto simp: tensor_ready_def wants_mem_def wants_view_def)
  then show ?thesis
    using assms(1,4) by (auto simp: ctx_ready_def init_ok_def empty_store_def bb_deref_def ctx_env_def demo_env_def demo_buffer_def
      split: if_splits)
qed

section \<open>Properties\<close>

text \<open>
  C19: \<^verbatim>\<open>ggml_backend_alloc_ctx_tensors_from_buft\<close> in a context that satisfies the invariant, for a backend
  that satisfies \<open>ctx_setting\<close> (the alignment is a power of two, the padded sizes add up to less than
  \<open>2 ^ 64\<close>, a buffer is fresh, large enough and starts at a multiple of the alignment) and a buffer type
  that is not a \<^verbatim>\<open>meta\<close> one. When it returns \<^verbatim>\<open>NULL\<close>, every buffer it had allocated has been freed, once.
  When it returns a buffer, and every padded tensor fits into the largest buffer of the type
  (\<open>fits_buffers\<close>), all parts of that buffer are new; every tensor of the context without data lies
  within one of them, aligned; no two of these share a byte of a buffer; every view without a buffer
  has the buffer of its base and the address of the base plus its offset; and nothing else changes.
\<close>

theorem ggml_alloc_ctx_tensors_places:
  assumes "ctx_setting E buft (buft_align E buft) s" "finite_store st" "store_good st" "\<not> is_meta buft"
    and "ggml_backend_alloc_ctx_tensors_from_buft E is_meta meta_alloc st s buft = Some (buf, st', s')"
  shows "(buf = 0 \<longrightarrow> st' = st)
    \<and> (buf \<noteq> 0 \<and> fits_buffers E buft s \<longrightarrow>
        (\<forall>q \<in> set (buffer_parts st' buf). bb_deref st q = None)
        \<and> (\<forall>p. p \<notin> ctx_tensors s \<longrightarrow> deref s' p = deref s p)
        \<and> (\<forall>p t. p \<in> ctx_tensors s \<and> deref s p = Some t \<longrightarrow>
             (\<exists>t'. deref s' p = Some t' \<and> tensor_placed E buft (buft_align E buft) s (buffer_parts st' buf) st' s' p t t'))
        \<and> (\<forall>p q. p \<in> ctx_tensors s \<and> q \<in> ctx_tensors s \<and> p \<noteq> q \<longrightarrow> mem_apart E buft s s' p q))"
proof -
  obtain n where r: "ggml_backend_alloc_ctx_tensors_from_buft_impl E st s buft False = Some (buf, n, st', s')"
    using assms(4,5) by (auto simp: ggml_backend_alloc_ctx_tensors_from_buft_def bind_eq_Some_conv)
  note R = impl_result [OF assms(1) refl assms(2,3) r, simplified]
  show ?thesis using R unfolding ctx_placed_def by blast
qed

lemma ctx_demo_returns:
  obtains s buf st' s' where "ctx_demo_run = Some s" "ctx_setting ctx_env 8 (buft_align ctx_env 8) s" "fits_buffers ctx_env 8 s"
    "st_tensors s = [65568 \<mapsto> ctx_demo_tensor 8, 65936 \<mapsto> ctx_demo_tensor 5, 66304 \<mapsto> ctx_demo_view]"
    "ctx_tensors s = {65568, 65936, 66304}" "ctx_ready ctx_env 8 empty_store s" "total_need ctx_env 8 s = 64"
    "ggml_backend_alloc_ctx_tensors_from_buft ctx_env (\<lambda>_. False) (\<lambda>_ _ _. None) empty_store s 8 = Some (buf, st', s')" "buf \<noteq> 0"
proof -
  obtain s where s: "ctx_demo_run = Some s" "ctx_inv s" "ggml_get_no_alloc s"
    "st_tensors s = [65568 \<mapsto> ctx_demo_tensor 8, 65936 \<mapsto> ctx_demo_tensor 5, 66304 \<mapsto> ctx_demo_view]"
    "ctx_tensors s = {65568, 65936, 66304}" by (rule ctx_demo)
  note c = ctx_demo_setting [OF s(2,4,5)]
  have pos: "0 < total_need ctx_env 8 s" using c(3) by simp
  note rd = ctx_demo_ready [OF s(3,4,5) c(3)]
  obtain buf n st' s' where "ggml_backend_alloc_ctx_tensors_from_buft_impl ctx_env empty_store s 8 False = Some (buf, n, st', s')" "buf \<noteq> 0"
    using ctx_alloc_returns [OF c(1) refl empty_store_ok rd c(2) pos] by blast
  then show thesis
    using that [OF s(1) c(1,2) s(4,5) rd c(3)] by (simp add: ggml_backend_alloc_ctx_tensors_from_buft_def)
qed

theorem ggml_alloc_ctx_tensors_places_witness:
  "\<exists>s buf st' s' t u v. ctx_demo_run = Some s
     \<and> ggml_backend_alloc_ctx_tensors_from_buft ctx_env (\<lambda>_. False) (\<lambda>_ _ _. None) empty_store s 8 = Some (buf, st', s') \<and> buf \<noteq> 0
     \<and> deref s' 65568 = Some t \<and> deref s' 65936 = Some u \<and> deref s' 66304 = Some v
     \<and> t_data t \<noteq> 0 \<and> 32 dvd t_data t \<and> t_data u \<noteq> 0 \<and> 32 dvd t_data u
     \<and> t_buffer t \<in> set (buffer_parts st' buf) \<and> t_buffer u \<in> set (buffer_parts st' buf)"
proof -
  obtain s buf st' s' where s: "ctx_demo_run = Some s" "ctx_setting ctx_env 8 (buft_align ctx_env 8) s" "fits_buffers ctx_env 8 s"
    "st_tensors s = [65568 \<mapsto> ctx_demo_tensor 8, 65936 \<mapsto> ctx_demo_tensor 5, 66304 \<mapsto> ctx_demo_view]"
    "ctx_tensors s = {65568, 65936, 66304}"
    and r: "ggml_backend_alloc_ctx_tensors_from_buft ctx_env (\<lambda>_. False) (\<lambda>_ _ _. None) empty_store s 8 = Some (buf, st', s')" "buf \<noteq> 0"
    by (rule ctx_demo_returns)
  have d: "deref s 65568 = Some (ctx_demo_tensor 8)" "deref s 65936 = Some (ctx_demo_tensor 5)" "deref s 66304 = Some ctx_demo_view"
    using s(4) by (simp_all add: deref_def)
  have w: "wants_mem (ctx_demo_tensor 8)" "wants_mem (ctx_demo_tensor 5)" by (simp_all add: wants_mem_def)
  have a: "buft_align ctx_env 8 = 32" by (rule ctx_demo_backend)
  have P: "\<exists>t'. deref s' p = Some t' \<and> tensor_placed ctx_env 8 32 s (buffer_parts st' buf) st' s' p t t'"
    if "p \<in> ctx_tensors s" "deref s p = Some t" for p t
    using ggml_alloc_ctx_tensors_places [OF s(2) empty_store_ok _ r(1)] r(2) s(3) that by (simp add: a)
  obtain t where t: "deref s' 65568 = Some t" "tensor_placed ctx_env 8 32 s (buffer_parts st' buf) st' s' 65568 (ctx_demo_tensor 8) t"
    using P [OF _ d(1)] s(5) by auto
  obtain u where u: "deref s' 65936 = Some u" "tensor_placed ctx_env 8 32 s (buffer_parts st' buf) st' s' 65936 (ctx_demo_tensor 5) u"
    using P [OF _ d(2)] s(5) by auto
  obtain v where v: "deref s' 66304 = Some v" using P [OF _ d(3)] s(5) by auto
  show ?thesis using s(1) r t u v w by (auto simp: tensor_placed_def)
qed

text \<open>
  C38: under the same conditions, when moreover every tensor fits (\<open>fits_buffers\<close>), some tensor needs
  memory, the context does not allocate and its tensors are ready (\<open>ctx_ready\<close>: a tensor without data
  has no buffer, a view without a buffer has a base that is allocated or that was created before it
  in the same context), and the backend provides every buffer up to the total size and initialises
  every tensor: \<^verbatim>\<open>ggml_backend_alloc_ctx_tensors_from_buft_size\<close> returns the sum of the padded sizes, and
  the allocation returns a buffer; no assertion fails on the way.
\<close>

theorem ggml_alloc_ctx_tensors_succeeds:
  assumes "ctx_setting E buft (buft_align E buft) s" "finite_store st" "store_good st" "\<not> is_meta buft"
    and "ctx_ready E buft st s" "fits_buffers E buft s" "0 < total_need E buft s"
  shows "ggml_backend_alloc_ctx_tensors_from_buft_size E st s buft = Some (total_need E buft s)
    \<and> (\<exists>buf st' s'. ggml_backend_alloc_ctx_tensors_from_buft E is_meta meta_alloc st s buft = Some (buf, st', s') \<and> buf \<noteq> 0)"
proof -
  obtain buf n st' s' where "ggml_backend_alloc_ctx_tensors_from_buft_impl E st s buft False = Some (buf, n, st', s')" "buf \<noteq> 0"
    using ctx_alloc_returns [OF assms(1) refl assms(2,3,5,6,7)] by blast
  moreover have "ggml_get_no_alloc s" using assms(5) by (simp add: ctx_ready_def)
  ultimately show ?thesis
    using ctx_size_returns [OF assms(1) refl assms(2,3)] assms(4) by (simp add: ggml_backend_alloc_ctx_tensors_from_buft_def)
qed

theorem ggml_alloc_ctx_tensors_succeeds_witness:
  "\<exists>s buf st' s'. ctx_demo_run = Some s \<and> ggml_backend_alloc_ctx_tensors_from_buft_size ctx_env empty_store s 8 = Some 64
     \<and> ggml_backend_alloc_ctx_tensors_from_buft ctx_env (\<lambda>_. False) (\<lambda>_ _ _. None) empty_store s 8 = Some (buf, st', s') \<and> buf \<noteq> 0"
proof -
  obtain s where s: "ctx_demo_run = Some s" "ctx_setting ctx_env 8 (buft_align ctx_env 8) s" "fits_buffers ctx_env 8 s"
    and rd: "ctx_ready ctx_env 8 empty_store s" and n: "total_need ctx_env 8 s = 64" by (rule ctx_demo_returns)
  show ?thesis
    using ggml_alloc_ctx_tensors_succeeds [OF s(2) empty_store_ok _ rd s(3), of "\<lambda>_. False" "\<lambda>_ _ _. None"] s(1) n by auto
qed

end
