(* ===== verification/GGML_Backward.thy ===== *)
theory GGML_Backward
  imports GGML_OpsComp GGML_Graph
begin

text \<open>
  The backward pass of a graph, from \<^verbatim>\<open>ggml/src/ggml.c\<close>: \<^verbatim>\<open>ggml_compute_backward\<close> adds to the graph
  the operations that compute the gradients of the sources of one node from the gradient of the
  node, \<^verbatim>\<open>ggml_build_backward_expand\<close> does so for every node, last to first. The case of an
  operation in the switch of \<^verbatim>\<open>ggml_compute_backward\<close> is a definition of its own; the local
  variables that the cases share are the record \<open>backward_locals\<close>.
\<close>

section \<open>The gradient of one tensor\<close>

type_synonym graph_state = "ggml_cgraph \<times> ggml_state"

text \<open>\<^verbatim>\<open>cgraph->grads[i]\<close>, \<^verbatim>\<open>cgraph->grad_accs[i]\<close>, \<^verbatim>\<open>cgraph->visited_hash_set.keys[i]\<close>\<close>

definition grad_at :: "ggml_cgraph \<Rightarrow> size_t \<Rightarrow> ptr option" where
  "grad_at g i = do { grads \<leftarrow> cg_grads g; array_get grads i }"

definition grad_acc_at :: "ggml_cgraph \<Rightarrow> size_t \<Rightarrow> ptr option" where
  "grad_acc_at g i = do { accs \<leftarrow> cg_grad_accs g; array_get accs i }"

definition key_at :: "ggml_cgraph \<Rightarrow> size_t \<Rightarrow> ptr option" where
  "key_at g i = array_get (hs_keys (cg_visited g)) i"

definition set_grad :: "ggml_cgraph \<Rightarrow> size_t \<Rightarrow> ptr \<Rightarrow> ggml_cgraph option" where
  "set_grad g i p = do {
     grads \<leftarrow> cg_grads g;
     grads \<leftarrow> array_set grads i p;
     Some (g\<lparr>cg_grads := Some grads\<rparr>) }"

text \<open>The common end of the four functions: the gradient is stored, named and added to the graph.\<close>

definition record_grad :: "graph_state \<Rightarrow> size_t \<Rightarrow> ptr \<Rightarrow> ptr \<Rightarrow> graph_state option" where
  "record_grad gs isrc src p = do {
     let (g, s) = gs;
     g \<leftarrow> set_grad g isrc p;
     ts \<leftarrow> deref s src;
     _ \<leftarrow> deref s p;
     let s = ggml_format_name s p (''grad for '' @ t_name ts);
     ggml_build_forward_expand g s p }"

definition ggml_add_or_set :: "graph_state \<Rightarrow> size_t \<Rightarrow> ptr \<Rightarrow> graph_state option" where
  "ggml_add_or_set gs isrc tensor = do {
     let (g, s) = gs;
     src \<leftarrow> key_at g isrc;
     ggml_assert (src \<noteq> 0);
     grad \<leftarrow> grad_at g isrc;
     (p, s) \<leftarrow> (if grad \<noteq> 0 then do {
         acc \<leftarrow> grad_acc_at g isrc;
         ggml_add_impl s grad tensor (acc \<noteq> 0) }
       else Some (tensor, s));
     record_grad (g, s) isrc src p }"

definition ggml_acc_or_set ::
  "graph_state \<Rightarrow> size_t \<Rightarrow> ptr \<Rightarrow> size_t \<Rightarrow> size_t \<Rightarrow> size_t \<Rightarrow> size_t \<Rightarrow> graph_state option" where
  "ggml_acc_or_set gs isrc tensor nb1 nb2 nb3 offset = do {
     let (g, s) = gs;
     src \<leftarrow> key_at g isrc;
     ggml_assert (src \<noteq> 0);
     grad \<leftarrow> grad_at g isrc;
     (p, s) \<leftarrow> (if grad \<noteq> 0 then do {
         acc \<leftarrow> grad_acc_at g isrc;
         ggml_acc_impl s grad tensor nb1 nb2 nb3 offset (acc \<noteq> 0) }
       else do {
         (a_zero, s) \<leftarrow> ggml_scale s src 0;
         ggml_acc_impl s a_zero tensor nb1 nb2 nb3 offset False });
     record_grad (g, s) isrc src p }"

definition ggml_add1_or_set :: "graph_state \<Rightarrow> size_t \<Rightarrow> ptr \<Rightarrow> graph_state option" where
  "ggml_add1_or_set gs isrc tensor = do {
     let (g, s) = gs;
     src \<leftarrow> key_at g isrc;
     ggml_assert (src \<noteq> 0);
     grad \<leftarrow> grad_at g isrc;
     (p, s) \<leftarrow> (if grad \<noteq> 0 then do {
         acc \<leftarrow> grad_acc_at g isrc;
         ggml_add1_impl s grad tensor (acc \<noteq> 0) }
       else ggml_repeat s tensor src);
     record_grad (g, s) isrc src p }"

definition ggml_sub_or_set :: "graph_state \<Rightarrow> size_t \<Rightarrow> ptr \<Rightarrow> graph_state option" where
  "ggml_sub_or_set gs isrc tensor = do {
     let (g, s) = gs;
     src \<leftarrow> key_at g isrc;
     ggml_assert (src \<noteq> 0);
     grad \<leftarrow> grad_at g isrc;
     (p, s) \<leftarrow> (if grad \<noteq> 0 then do {
         acc \<leftarrow> grad_acc_at g isrc;
         ggml_sub_impl s grad tensor (acc \<noteq> 0) }
       else ggml_neg s tensor);
     record_grad (g, s) isrc src p }"

section \<open>The cases of the backward pass\<close>

record backward_locals =
  bw_tensor :: ptr
  bw_grad :: ptr
  bw_src0 :: ptr
  bw_src1 :: ptr
  bw_src2 :: ptr
  bw_isrc0 :: size_t
  bw_isrc1 :: size_t
  bw_isrc2 :: size_t
  src0_needs_grads :: bool
  src1_needs_grads :: bool
  src2_needs_grads :: bool

text \<open>A statement \<^verbatim>\<open>if (b) { ... }\<close> whose body changes the graph and the context.\<close>

definition when_needed :: "bool \<Rightarrow> (graph_state \<Rightarrow> graph_state option) \<Rightarrow> graph_state \<Rightarrow> graph_state option" where
  "when_needed b body gs = (if b then body gs else Some gs)"

definition backward_dup :: "backward_locals \<Rightarrow> graph_state \<Rightarrow> graph_state option" where
  "backward_dup e = when_needed (src0_needs_grads e) (\<lambda>gs. ggml_add_or_set gs (bw_isrc0 e) (bw_grad e))"

text \<open>The gradient of a source that was repeated along the way: \<^verbatim>\<open>tmp\<close> is summed over the repetitions.\<close>

definition reduce_to_src :: "ggml_state \<Rightarrow> backward_locals \<Rightarrow> ptr \<Rightarrow> built" where
  "reduce_to_src s e tmp = do {
     t0 \<leftarrow> deref s (bw_src0 e);
     t1 \<leftarrow> deref s (bw_src1 e);
     if \<not> ggml_are_same_shape t0 t1 then ggml_repeat_back s tmp (bw_src1 e) else Some (tmp, s) }"

definition backward_add :: "backward_locals \<Rightarrow> graph_state \<Rightarrow> graph_state option" where
  "backward_add e gs = do {
     gs \<leftarrow> when_needed (src0_needs_grads e) (\<lambda>gs. ggml_add_or_set gs (bw_isrc0 e) (bw_grad e)) gs;
     when_needed (src1_needs_grads e) (\<lambda>(g, s). do {
       (tmp, s) \<leftarrow> reduce_to_src s e (bw_grad e);
       ggml_add_or_set (g, s) (bw_isrc1 e) tmp }) gs }"

definition backward_add1 :: "backward_locals \<Rightarrow> graph_state \<Rightarrow> graph_state option" where
  "backward_add1 e gs = do {
     gs \<leftarrow> when_needed (src0_needs_grads e) (\<lambda>gs. ggml_add_or_set gs (bw_isrc0 e) (bw_grad e)) gs;
     when_needed (src1_needs_grads e) (\<lambda>(g, s). do {
       (m, s) \<leftarrow> ggml_mean s (bw_grad e);
       ggml_add_or_set (g, s) (bw_isrc1 e) m }) gs }"

text \<open>An \<^verbatim>\<open>int32_t\<close> parameter of the tensor, converted to \<^verbatim>\<open>size_t\<close>.\<close>

definition param_sz :: "ggml_tensor \<Rightarrow> nat \<Rightarrow> size_t" where
  "param_sz t i = sz_of_int (ggml_get_op_params_i32 t i)"

text \<open>The part of the gradient that lies where the operation wrote its second source.\<close>

definition grad_window :: "ggml_state \<Rightarrow> backward_locals \<Rightarrow> built" where
  "grad_window s e = do {
     t \<leftarrow> deref s (bw_tensor e);
     t1 \<leftarrow> deref s (bw_src1 e);
     ggml_view_4d s (bw_grad e) (t_ne t1 ! 0) (t_ne t1 ! 1) (t_ne t1 ! 2) (t_ne t1 ! 3)
       (param_sz t 0) (param_sz t 1) (param_sz t 2) (param_sz t 3) }"

definition window_to_src1 :: "backward_locals \<Rightarrow> ptr \<Rightarrow> graph_state \<Rightarrow> graph_state option" where
  "window_to_src1 e tensor_grad_view gs = do {
     let (g, s) = gs;
     (c, s) \<leftarrow> ggml_cont s tensor_grad_view;
     (r, s) \<leftarrow> ggml_reshape s c (bw_src1 e);
     ggml_add_or_set (g, s) (bw_isrc1 e) r }"

definition backward_acc :: "backward_locals \<Rightarrow> graph_state \<Rightarrow> graph_state option" where
  "backward_acc e gs = do {
     gs \<leftarrow> when_needed (src0_needs_grads e) (\<lambda>gs. ggml_add_or_set gs (bw_isrc0 e) (bw_grad e)) gs;
     when_needed (src1_needs_grads e) (\<lambda>(g, s). do {
       (v, s) \<leftarrow> grad_window s e;
       window_to_src1 e v (g, s) }) gs }"

definition backward_sub :: "backward_locals \<Rightarrow> graph_state \<Rightarrow> graph_state option" where
  "backward_sub e gs = do {
     gs \<leftarrow> when_needed (src0_needs_grads e) (\<lambda>gs. ggml_add_or_set gs (bw_isrc0 e) (bw_grad e)) gs;
     when_needed (src1_needs_grads e) (\<lambda>gs. ggml_sub_or_set gs (bw_isrc1 e) (bw_grad e)) gs }"

definition backward_mul :: "backward_locals \<Rightarrow> graph_state \<Rightarrow> graph_state option" where
  "backward_mul e gs = do {
     gs \<leftarrow> when_needed (src0_needs_grads e) (\<lambda>(g, s). do {
       (p, s) \<leftarrow> ggml_mul s (bw_grad e) (bw_src1 e);
       ggml_add_or_set (g, s) (bw_isrc0 e) p }) gs;
     when_needed (src1_needs_grads e) (\<lambda>(g, s). do {
       (tmp, s) \<leftarrow> ggml_mul s (bw_src0 e) (bw_grad e);
       (tmp, s) \<leftarrow> reduce_to_src s e tmp;
       ggml_add_or_set (g, s) (bw_isrc1 e) tmp }) gs }"

definition backward_div :: "backward_locals \<Rightarrow> graph_state \<Rightarrow> graph_state option" where
  "backward_div e gs = do {
     gs \<leftarrow> when_needed (src0_needs_grads e) (\<lambda>(g, s). do {
       (p, s) \<leftarrow> ggml_div s (bw_grad e) (bw_src1 e);
       ggml_add_or_set (g, s) (bw_isrc0 e) p }) gs;
     when_needed (src1_needs_grads e) (\<lambda>(g, s). do {
       (q, s) \<leftarrow> ggml_div s (bw_tensor e) (bw_src1 e);
       (p, s) \<leftarrow> ggml_mul s (bw_grad e) q;
       ggml_sub_or_set (g, s) (bw_isrc1 e) p }) gs }"

definition f32_0_5 :: f32 where "f32_0_5 = 0x3F000000"

definition backward_sqr :: "backward_locals \<Rightarrow> graph_state \<Rightarrow> graph_state option" where
  "backward_sqr e = when_needed (src0_needs_grads e) (\<lambda>(g, s). do {
     (m, s) \<leftarrow> ggml_mul s (bw_src0 e) (bw_grad e);
     (p, s) \<leftarrow> ggml_scale s m f32_2;
     ggml_add_or_set (g, s) (bw_isrc0 e) p })"

definition backward_sqrt :: "backward_locals \<Rightarrow> graph_state \<Rightarrow> graph_state option" where
  "backward_sqrt e = when_needed (src0_needs_grads e) (\<lambda>(g, s). do {
     (d, s) \<leftarrow> ggml_div s (bw_grad e) (bw_tensor e);
     (p, s) \<leftarrow> ggml_scale s d f32_0_5;
     ggml_add_or_set (g, s) (bw_isrc0 e) p })"

definition backward_log :: "backward_locals \<Rightarrow> graph_state \<Rightarrow> graph_state option" where
  "backward_log e = when_needed (src0_needs_grads e) (\<lambda>(g, s). do {
     (p, s) \<leftarrow> ggml_div s (bw_grad e) (bw_src0 e);
     ggml_add_or_set (g, s) (bw_isrc0 e) p })"

definition backward_sin :: "backward_locals \<Rightarrow> graph_state \<Rightarrow> graph_state option" where
  "backward_sin e = when_needed (src0_needs_grads e) (\<lambda>(g, s). do {
     (c, s) \<leftarrow> ggml_cos s (bw_src0 e);
     (p, s) \<leftarrow> ggml_mul s (bw_grad e) c;
     ggml_add_or_set (g, s) (bw_isrc0 e) p })"

definition backward_cos :: "backward_locals \<Rightarrow> graph_state \<Rightarrow> graph_state option" where
  "backward_cos e = when_needed (src0_needs_grads e) (\<lambda>(g, s). do {
     (c, s) \<leftarrow> ggml_sin s (bw_src0 e);
     (p, s) \<leftarrow> ggml_mul s (bw_grad e) c;
     ggml_sub_or_set (g, s) (bw_isrc0 e) p })"

definition backward_sum :: "backward_locals \<Rightarrow> graph_state \<Rightarrow> graph_state option" where
  "backward_sum e = when_needed (src0_needs_grads e) (\<lambda>gs. ggml_add1_or_set gs (bw_isrc0 e) (bw_grad e))"

text \<open>\<^verbatim>\<open>GGML_OP_SUM_ROWS\<close> and \<^verbatim>\<open>GGML_OP_REPEAT_BACK\<close>, and \<^verbatim>\<open>GGML_OP_REPEAT\<close>\<close>

definition backward_sum_rows :: "backward_locals \<Rightarrow> graph_state \<Rightarrow> graph_state option" where
  "backward_sum_rows e = when_needed (src0_needs_grads e) (\<lambda>(g, s). do {
     (p, s) \<leftarrow> ggml_repeat s (bw_grad e) (bw_src0 e);
     ggml_add_or_set (g, s) (bw_isrc0 e) p })"

definition backward_repeat :: "backward_locals \<Rightarrow> graph_state \<Rightarrow> graph_state option" where
  "backward_repeat e = when_needed (src0_needs_grads e) (\<lambda>(g, s). do {
     (p, s) \<leftarrow> ggml_repeat_back s (bw_grad e) (bw_src0 e);
     ggml_add_or_set (g, s) (bw_isrc0 e) p })"

definition backward_mean :: "float_ops \<Rightarrow> backward_locals \<Rightarrow> graph_state \<Rightarrow> graph_state option" where
  "backward_mean fl e = when_needed (src0_needs_grads e) (\<lambda>(g, s). do {
     t0 \<leftarrow> deref s (bw_src0 e);
     (p, s) \<leftarrow> ggml_scale_impl s (bw_grad e) (fl_div fl f32_1 (fl_of_int fl (t_ne t0 ! 0))) 0 False;
     ggml_add1_or_set (g, s) (bw_isrc0 e) p })"

definition backward_rms_norm :: "backward_locals \<Rightarrow> graph_state \<Rightarrow> graph_state option" where
  "backward_rms_norm e = when_needed (src0_needs_grads e) (\<lambda>(g, s). do {
     t \<leftarrow> deref s (bw_tensor e);
     (p, s) \<leftarrow> ggml_rms_norm_back s (bw_grad e) (bw_src0 e) (ggml_get_op_params_f32 t 0);
     ggml_add_or_set (g, s) (bw_isrc0 e) p })"

text \<open>
  The gradient of a matrix product for its first factor: the product of the second factor with the
  gradient, summed over the matrices that share one matrix of the first factor.
\<close>

definition mul_mat_grad0 :: "ggml_state \<Rightarrow> backward_locals \<Rightarrow> built" where
  "mul_mat_grad0 s e = do {
     tg \<leftarrow> deref s (bw_grad e);
     t0 \<leftarrow> deref s (bw_src0 e);
     t1 \<leftarrow> deref s (bw_src1 e);
     ggml_assert (t_ne tg ! 2 = t_ne t1 ! 2);
     ggml_assert (t_ne tg ! 3 = t_ne t1 ! 3);
     (tmp, s) \<leftarrow> ggml_out_prod s (bw_src1 e) (bw_grad e);
     tt \<leftarrow> deref s tmp;
     if \<not> ggml_are_same_shape tt t0 then do {
       ggml_assert (t_ne tt ! 0 = t_ne t0 ! 0);
       ggml_assert (t_ne tt ! 1 = t_ne t0 ! 1);
       ggml_assert (t_ne tt ! 3 = 1);
       nr2 \<leftarrow> c_div (t_ne tt ! 2) (t_ne t0 ! 2);
       let nb2 = sz_mul (t_nb tt ! 2) (sz_of_int nr2);
       let nb3 = t_nb tt ! 2;
       (tmp, s) \<leftarrow> ggml_view_4d s tmp (t_ne t0 ! 0) (t_ne t0 ! 1) (t_ne t0 ! 2) nr2 (t_nb tt ! 1) nb2 nb3 0;
       ggml_repeat_back s tmp (bw_src0 e) }
     else Some (tmp, s) }"

definition backward_mul_mat :: "backward_locals \<Rightarrow> graph_state \<Rightarrow> graph_state option" where
  "backward_mul_mat e gs = do {
     gs \<leftarrow> when_needed (src0_needs_grads e) (\<lambda>(g, s). do {
       (tmp, s) \<leftarrow> mul_mat_grad0 s e;
       ggml_add_or_set (g, s) (bw_isrc0 e) tmp }) gs;
     when_needed (src1_needs_grads e) (\<lambda>(g, s). do {
       (t, s) \<leftarrow> ggml_transpose s (bw_grad e);
       (p, s) \<leftarrow> ggml_out_prod s (bw_src0 e) t;
       ggml_add_or_set (g, s) (bw_isrc1 e) p }) gs }"

definition backward_scale :: "backward_locals \<Rightarrow> graph_state \<Rightarrow> graph_state option" where
  "backward_scale e = when_needed (src0_needs_grads e) (\<lambda>(g, s). do {
     t \<leftarrow> deref s (bw_tensor e);
     (p, s) \<leftarrow> ggml_scale_impl s (bw_grad e) (ggml_get_op_params_f32 t 0) 0 False;
     ggml_add_or_set (g, s) (bw_isrc0 e) p })"

text \<open>The type of a gradient that is already there.\<close>

definition grad_has_type :: "graph_state \<Rightarrow> size_t \<Rightarrow> ggml_type \<Rightarrow> bool option" where
  "grad_has_type gs i ty = do {
     let (g, s) = gs;
     p \<leftarrow> grad_at g i;
     if p = 0 then Some True else do { t \<leftarrow> deref s p; Some (t_type t = ty) } }"

definition set_checks :: "backward_locals \<Rightarrow> graph_state \<Rightarrow> unit option" where
  "set_checks e gs = do {
     let (g, s) = gs;
     t \<leftarrow> deref s (bw_tensor e);
     tg \<leftarrow> deref s (bw_grad e);
     t0 \<leftarrow> deref s (bw_src0 e);
     ggml_assert (t_type t0 = t_type t);
     ok \<leftarrow> grad_has_type gs (bw_isrc0 e) (t_type tg);
     ggml_assert ok;
     p \<leftarrow> grad_at g (bw_isrc1 e);
     ok \<leftarrow> (if p = 0 \<or> \<not> src1_needs_grads e then Some True else grad_has_type gs (bw_isrc1 e) (t_type tg));
     ggml_assert ok }"

definition backward_set :: "backward_locals \<Rightarrow> graph_state \<Rightarrow> graph_state option" where
  "backward_set e gs = do {
     t \<leftarrow> deref (snd gs) (bw_tensor e);
     (v, gs) \<leftarrow> (if src0_needs_grads e \<or> src1_needs_grads e then do {
         _ \<leftarrow> set_checks e gs;
         (v, s) \<leftarrow> grad_window (snd gs) e;
         Some (v, (fst gs, s)) }
       else Some (0, gs));
     gs \<leftarrow> when_needed (src0_needs_grads e) (\<lambda>(g, s). do {
       (tmp, s) \<leftarrow> ggml_neg s v;
       (p, s) \<leftarrow> ggml_acc_impl s (bw_grad e) tmp (param_sz t 0) (param_sz t 1) (param_sz t 2) (param_sz t 3) False;
       ggml_add_or_set (g, s) (bw_isrc0 e) p }) gs;
     when_needed (src1_needs_grads e) (window_to_src1 e v) gs }"

definition backward_cpy :: "backward_locals \<Rightarrow> graph_state \<Rightarrow> graph_state option" where
  "backward_cpy e = when_needed (src0_needs_grads e) (\<lambda>(g, s). do {
     (p, s) \<leftarrow> ggml_reshape s (bw_grad e) (bw_src0 e);
     ggml_add_or_set (g, s) (bw_isrc0 e) p })"

definition grad_is_contiguous :: "graph_state \<Rightarrow> size_t \<Rightarrow> bool option" where
  "grad_is_contiguous gs i = do {
     let (g, s) = gs;
     p \<leftarrow> grad_at g i;
     if p = 0 then Some True else do { t \<leftarrow> deref s p; Some (ggml_is_contiguous t) } }"

definition backward_cont :: "backward_locals \<Rightarrow> graph_state \<Rightarrow> graph_state option" where
  "backward_cont e = when_needed (src0_needs_grads e) (\<lambda>(g, s). do {
     ok \<leftarrow> grad_is_contiguous (g, s) (bw_isrc0 e);
     ggml_assert ok;
     tg \<leftarrow> deref s (bw_grad e);
     ggml_assert (ggml_is_contiguous tg);
     t \<leftarrow> deref s (bw_tensor e);
     t0 \<leftarrow> deref s (bw_src0 e);
     ggml_assert (ggml_nelements t = ggml_nelements t0);
     (p, s) \<leftarrow> (if ggml_are_same_shape t t0 then Some (bw_grad e, s) else ggml_reshape s (bw_grad e) (bw_src0 e));
     ggml_add_or_set (g, s) (bw_isrc0 e) p })"

definition backward_reshape :: "backward_locals \<Rightarrow> graph_state \<Rightarrow> graph_state option" where
  "backward_reshape e = when_needed (src0_needs_grads e) (\<lambda>(g, s). do {
     tg \<leftarrow> deref s (bw_grad e);
     (grad_cont, s) \<leftarrow> (if ggml_is_contiguous tg then Some (bw_grad e, s) else ggml_cont s (bw_grad e));
     (p, s) \<leftarrow> ggml_reshape s grad_cont (bw_src0 e);
     ggml_add_or_set (g, s) (bw_isrc0 e) p })"

text \<open>Where the view lies in the gradient of its source: \<^verbatim>\<open>nb1\<close>, \<^verbatim>\<open>nb2\<close>, \<^verbatim>\<open>nb3\<close> and the offset.\<close>

definition rescale_sz :: "size_t \<Rightarrow> size_t \<Rightarrow> size_t \<Rightarrow> size_t option" where
  "rescale_sz n0 ng x =
     (if n0 = 0 then None else do { ggml_assert (x mod n0 = 0); Some (sz_mul (x div n0) ng) })"

definition view_window :: "backward_locals \<Rightarrow> graph_state \<Rightarrow> (size_t \<times> size_t \<times> size_t \<times> size_t) option" where
  "view_window e gs = do {
     let (g, s) = gs;
     t \<leftarrow> deref s (bw_tensor e);
     let offset = unat (t_op_params t ! 0) + unat (t_op_params t ! 1) * 2 ^ 32;
     let (nb1, nb2, nb3) = (t_nb t ! 1, t_nb t ! 2, t_nb t ! 3);
     t0 \<leftarrow> deref s (bw_src0 e);
     p \<leftarrow> grad_at g (bw_isrc0 e);
     if p = 0 then Some (nb1, nb2, nb3, offset)
     else do {
       tp \<leftarrow> deref s p;
       if t_type t0 = t_type tp then Some (nb1, nb2, nb3, offset)
       else do {
         let ng = ggml_element_size tp;
         let n0 = ggml_element_size t0;
         offset \<leftarrow> rescale_sz n0 ng offset;
         nb1 \<leftarrow> rescale_sz n0 ng nb1;
         nb2 \<leftarrow> rescale_sz n0 ng nb2;
         nb3 \<leftarrow> rescale_sz n0 ng nb3;
         Some (nb1, nb2, nb3, offset) } } }"

definition backward_view :: "backward_locals \<Rightarrow> graph_state \<Rightarrow> graph_state option" where
  "backward_view e = when_needed (src0_needs_grads e) (\<lambda>gs. do {
     (nb1, nb2, nb3, offset) \<leftarrow> view_window e gs;
     ggml_acc_or_set gs (bw_isrc0 e) (bw_grad e) nb1 nb2 nb3 offset })"

text \<open>The inverse of the permutation \<open>axes\<close>; \<^verbatim>\<open>axes[i] & 0x3\<close> is the remainder modulo 4.\<close>

definition backward_axes :: "ggml_tensor \<Rightarrow> int list" where
  "backward_axes t = scatter4 (map (\<lambda>i. ggml_get_op_params_i32 t i mod 4) [0..<4]) [0, 1, 2, 3]"

definition backward_permute :: "backward_locals \<Rightarrow> graph_state \<Rightarrow> graph_state option" where
  "backward_permute e = when_needed (src0_needs_grads e) (\<lambda>(g, s). do {
     t \<leftarrow> deref s (bw_tensor e);
     let axb = backward_axes t;
     (p, s) \<leftarrow> ggml_permute s (bw_grad e) (axb ! 0) (axb ! 1) (axb ! 2) (axb ! 3);
     ggml_add_or_set (g, s) (bw_isrc0 e) p })"

definition backward_transpose :: "backward_locals \<Rightarrow> graph_state \<Rightarrow> graph_state option" where
  "backward_transpose e = when_needed (src0_needs_grads e) (\<lambda>(g, s). do {
     (p, s) \<leftarrow> ggml_transpose s (bw_grad e);
     ggml_add_or_set (g, s) (bw_isrc0 e) p })"

definition backward_get_rows :: "backward_locals \<Rightarrow> graph_state \<Rightarrow> graph_state option" where
  "backward_get_rows e = when_needed (src0_needs_grads e) (\<lambda>(g, s). do {
     (p, s) \<leftarrow> ggml_get_rows_back s (bw_grad e) (bw_src1 e) (bw_src0 e);
     ggml_add_or_set (g, s) (bw_isrc0 e) p })"

text \<open>\<^verbatim>\<open>GGML_OP_DIAG_MASK_INF\<close> and \<^verbatim>\<open>GGML_OP_DIAG_MASK_ZERO\<close>\<close>

definition backward_diag_mask :: "backward_locals \<Rightarrow> graph_state \<Rightarrow> graph_state option" where
  "backward_diag_mask e = when_needed (src0_needs_grads e) (\<lambda>(g, s). do {
     t \<leftarrow> deref s (bw_tensor e);
     (p, s) \<leftarrow> ggml_diag_mask_zero_impl s (bw_grad e) (ggml_get_op_params_i32 t 0) False;
     ggml_add_or_set (g, s) (bw_isrc0 e) p })"

definition backward_soft_max :: "backward_locals \<Rightarrow> graph_state \<Rightarrow> graph_state option" where
  "backward_soft_max e gs = do {
     gs \<leftarrow> when_needed (src0_needs_grads e) (\<lambda>(g, s). do {
       t \<leftarrow> deref s (bw_tensor e);
       (p, s) \<leftarrow> ggml_soft_max_ext_back s (bw_grad e) (bw_tensor e) (ggml_get_op_params_f32 t 0) (ggml_get_op_params_f32 t 1);
       ggml_add_or_set (g, s) (bw_isrc0 e) p }) gs;
     ggml_assert (bw_src1 e = 0 \<or> \<not> src1_needs_grads e);
     Some gs }"

definition rope_grad :: "ggml_state \<Rightarrow> backward_locals \<Rightarrow> built" where
  "rope_grad s e = do {
     t \<leftarrow> deref s (bw_tensor e);
     let i = ggml_get_op_params_i32 t;
     let f = ggml_get_op_params_f32 t;
     tg \<leftarrow> deref s (bw_grad e);
     t1 \<leftarrow> deref s (bw_src1 e);
     if t_ne tg ! 2 = t_ne t1 ! 0
     then ggml_rope_ext_back s (bw_grad e) (bw_src1 e) (bw_src2 e) (i 1) (i 2) (i 4) (f 5) (f 6) (f 7) (f 8) (f 9) (f 10)
     else ggml_rope_multi_back s (bw_grad e) (bw_src1 e) (bw_src2 e) (i 1) (Some [i 11, i 12, i 13, i 14])
            (i 2) (i 4) (f 5) (f 6) (f 7) (f 8) (f 9) (f 10) }"

definition backward_rope :: "backward_locals \<Rightarrow> graph_state \<Rightarrow> graph_state option" where
  "backward_rope e gs = do {
     gs \<leftarrow> when_needed (src0_needs_grads e) (\<lambda>(g, s). do {
       (p, s) \<leftarrow> rope_grad s e;
       ggml_add_or_set (g, s) (bw_isrc0 e) p }) gs;
     ggml_assert (bw_src2 e = 0 \<or> \<not> src2_needs_grads e);
     Some gs }"

definition backward_im2col :: "backward_locals \<Rightarrow> graph_state \<Rightarrow> graph_state option" where
  "backward_im2col e = when_needed (src1_needs_grads e) (\<lambda>(g, s). do {
     t \<leftarrow> deref s (bw_tensor e);
     let i = ggml_get_op_params_i32 t;
     t1 \<leftarrow> deref s (bw_src1 e);
     (p, s) \<leftarrow> ggml_im2col_back s (bw_grad e) (bw_src0 e) (t_ne t1) (i 0) (i 1) (i 2) (i 3) (i 4) (i 5) (i 6 = 1);
     ggml_add_or_set (g, s) (bw_isrc1 e) p })"

text \<open>The paddings are passed as \<^verbatim>\<open>float\<close>.\<close>

definition backward_pool_2d :: "float_ops \<Rightarrow> backward_locals \<Rightarrow> graph_state \<Rightarrow> graph_state option" where
  "backward_pool_2d fl e = when_needed (src0_needs_grads e) (\<lambda>(g, s). do {
     t \<leftarrow> deref s (bw_tensor e);
     let i = ggml_get_op_params_i32 t;
     (p, s) \<leftarrow> ggml_pool_2d_back fl s (bw_grad e) (bw_src0 e) (i 0) (i 1) (i 2) (i 3) (i 4)
                 (fl_of_int fl (i 5)) (fl_of_int fl (i 6));
     ggml_add_or_set (g, s) (bw_isrc0 e) p })"

text \<open>The unary operations whose gradient is added to that of the source.\<close>

definition mul_of :: "(ggml_state \<Rightarrow> ptr \<Rightarrow> built) \<Rightarrow> ggml_state \<Rightarrow> ptr \<Rightarrow> ptr \<Rightarrow> bool \<Rightarrow> built" where
  "mul_of f s src0 grad grad_first = do {
     (d, s) \<leftarrow> f s src0;
     if grad_first then ggml_mul s grad d else ggml_mul s d grad }"

definition unary_grad :: "ggml_unary_op \<Rightarrow> ggml_state \<Rightarrow> backward_locals \<Rightarrow> built" where
  "unary_grad uop s e = (case uop of
     GGML_UNARY_OP_ABS \<Rightarrow> mul_of ggml_sgn s (bw_src0 e) (bw_grad e) False
   | GGML_UNARY_OP_RELU \<Rightarrow> mul_of ggml_step s (bw_src0 e) (bw_grad e) False
   | GGML_UNARY_OP_SILU \<Rightarrow> ggml_silu_back s (bw_grad e) (bw_src0 e)
   | GGML_UNARY_OP_EXP \<Rightarrow> ggml_mul s (bw_tensor e) (bw_grad e)
   | GGML_UNARY_OP_EXPM1 \<Rightarrow> mul_of ggml_exp s (bw_src0 e) (bw_grad e) True
   | GGML_UNARY_OP_SOFTPLUS \<Rightarrow> mul_of ggml_sigmoid s (bw_src0 e) (bw_grad e) True
   | _ \<Rightarrow> None)"

definition backward_unary :: "backward_locals \<Rightarrow> graph_state \<Rightarrow> graph_state option" where
  "backward_unary e gs = do {
     t \<leftarrow> deref (snd gs) (bw_tensor e);
     uop \<leftarrow> ggml_get_unary_op t;
     if uop = GGML_UNARY_OP_SGN \<or> uop = GGML_UNARY_OP_STEP then Some gs
     else if uop = GGML_UNARY_OP_NEG
     then when_needed (src0_needs_grads e) (\<lambda>gs. ggml_sub_or_set gs (bw_isrc0 e) (bw_grad e)) gs
     else if uop \<in> {GGML_UNARY_OP_ABS, GGML_UNARY_OP_RELU, GGML_UNARY_OP_SILU, GGML_UNARY_OP_EXP,
                     GGML_UNARY_OP_EXPM1, GGML_UNARY_OP_SOFTPLUS}
     then when_needed (src0_needs_grads e) (\<lambda>(g, s). do {
       (p, s) \<leftarrow> unary_grad uop s e;
       ggml_add_or_set (g, s) (bw_isrc0 e) p }) gs
     else None }"

definition backward_cross_entropy_loss :: "backward_locals \<Rightarrow> graph_state \<Rightarrow> graph_state option" where
  "backward_cross_entropy_loss e gs = do {
     gs \<leftarrow> when_needed (src0_needs_grads e) (\<lambda>(g, s). do {
       (p, s) \<leftarrow> ggml_cross_entropy_loss_back s (bw_grad e) (bw_src0 e) (bw_src1 e);
       ggml_add_or_set (g, s) (bw_isrc0 e) p }) gs;
     ggml_assert (\<not> src1_needs_grads e);
     Some gs }"

definition backward_glu :: "backward_locals \<Rightarrow> graph_state \<Rightarrow> graph_state option" where
  "backward_glu e gs = do {
     t \<leftarrow> deref (snd gs) (bw_tensor e);
     op \<leftarrow> ggml_get_glu_op t;
     ggml_assert (op = GGML_GLU_OP_SWIGLU);
     gs \<leftarrow> when_needed (src0_needs_grads e) (\<lambda>(g, s). do {
       ggml_assert (bw_src1 e \<noteq> 0);
       (m, s) \<leftarrow> ggml_mul s (bw_grad e) (bw_src1 e);
       (p, s) \<leftarrow> ggml_silu_back s m (bw_src0 e);
       ggml_add_or_set (g, s) (bw_isrc0 e) p }) gs;
     when_needed (src1_needs_grads e) (\<lambda>(g, s). do {
       (u, s) \<leftarrow> ggml_silu s (bw_src0 e);
       (p, s) \<leftarrow> ggml_mul s u (bw_grad e);
       ggml_add_or_set (g, s) (bw_isrc1 e) p }) gs }"

section \<open>The backward pass\<close>

text \<open>The switch of \<^verbatim>\<open>ggml_compute_backward\<close>; the operations that are not listed stop the program.\<close>

fun backward_op :: "float_ops \<Rightarrow> ggml_op \<Rightarrow> backward_locals \<Rightarrow> graph_state \<Rightarrow> graph_state option" where
  "backward_op fl GGML_OP_DUP e gs = backward_dup e gs"
| "backward_op fl GGML_OP_ADD e gs = backward_add e gs"
| "backward_op fl GGML_OP_ADD1 e gs = backward_add1 e gs"
| "backward_op fl GGML_OP_ACC e gs = backward_acc e gs"
| "backward_op fl GGML_OP_SUB e gs = backward_sub e gs"
| "backward_op fl GGML_OP_MUL e gs = backward_mul e gs"
| "backward_op fl GGML_OP_DIV e gs = backward_div e gs"
| "backward_op fl GGML_OP_SQR e gs = backward_sqr e gs"
| "backward_op fl GGML_OP_SQRT e gs = backward_sqrt e gs"
| "backward_op fl GGML_OP_LOG e gs = backward_log e gs"
| "backward_op fl GGML_OP_SIN e gs = backward_sin e gs"
| "backward_op fl GGML_OP_COS e gs = backward_cos e gs"
| "backward_op fl GGML_OP_SUM e gs = backward_sum e gs"
| "backward_op fl GGML_OP_SUM_ROWS e gs = backward_sum_rows e gs"
| "backward_op fl GGML_OP_MEAN e gs = backward_mean fl e gs"
| "backward_op fl GGML_OP_REPEAT e gs = backward_repeat e gs"
| "backward_op fl GGML_OP_REPEAT_BACK e gs = backward_sum_rows e gs"
| "backward_op fl GGML_OP_RMS_NORM e gs = backward_rms_norm e gs"
| "backward_op fl GGML_OP_MUL_MAT e gs = backward_mul_mat e gs"
| "backward_op fl GGML_OP_SCALE e gs = backward_scale e gs"
| "backward_op fl GGML_OP_SET e gs = backward_set e gs"
| "backward_op fl GGML_OP_CPY e gs = backward_cpy e gs"
| "backward_op fl GGML_OP_CONT e gs = backward_cont e gs"
| "backward_op fl GGML_OP_RESHAPE e gs = backward_reshape e gs"
| "backward_op fl GGML_OP_VIEW e gs = backward_view e gs"
| "backward_op fl GGML_OP_PERMUTE e gs = backward_permute e gs"
| "backward_op fl GGML_OP_TRANSPOSE e gs = backward_transpose e gs"
| "backward_op fl GGML_OP_GET_ROWS e gs = backward_get_rows e gs"
| "backward_op fl GGML_OP_DIAG_MASK_INF e gs = backward_diag_mask e gs"
| "backward_op fl GGML_OP_DIAG_MASK_ZERO e gs = backward_diag_mask e gs"
| "backward_op fl GGML_OP_SOFT_MAX e gs = backward_soft_max e gs"
| "backward_op fl GGML_OP_ROPE e gs = backward_rope e gs"
| "backward_op fl GGML_OP_IM2COL e gs = backward_im2col e gs"
| "backward_op fl GGML_OP_POOL_2D e gs = backward_pool_2d fl e gs"
| "backward_op fl GGML_OP_WIN_PART e gs = backward_unary e gs"
| "backward_op fl GGML_OP_WIN_UNPART e gs = backward_unary e gs"
| "backward_op fl GGML_OP_UNARY e gs = backward_unary e gs"
| "backward_op fl GGML_OP_CROSS_ENTROPY_LOSS e gs = backward_cross_entropy_loss e gs"
| "backward_op fl GGML_OP_GLU e gs = backward_glu e gs"
| "backward_op fl GGML_OP_NONE e gs = Some gs"
| "backward_op fl _ e gs = None"

text \<open>A source, its slot in the hash set, and whether it needs a gradient.\<close>

definition backward_src :: "ggml_cgraph \<Rightarrow> bool list \<Rightarrow> ptr \<Rightarrow> (size_t \<times> bool) option" where
  "backward_src g grads_needed src = (
     if src = 0 then Some (GGML_HASHSET_FULL, False)
     else do {
       isrc \<leftarrow> ggml_hash_find (cg_visited g) src;
       if isrc \<noteq> GGML_HASHSET_FULL \<and> ggml_bitset_get (hs_used (cg_visited g)) isrc then do {
         needed \<leftarrow> array_get grads_needed isrc;
         Some (isrc, needed) }
       else Some (isrc, False) })"

text \<open>The assertions at the end: the gradient of a source has the shape of the source.\<close>

definition check_grad :: "graph_state \<Rightarrow> bool \<Rightarrow> ptr \<Rightarrow> size_t \<Rightarrow> unit option" where
  "check_grad gs needed src isrc = (
     if \<not> needed then Some ()
     else do {
       let (g, s) = gs;
       t \<leftarrow> deref s src;
       p \<leftarrow> grad_at g isrc;
       tp \<leftarrow> deref s p;
       ggml_assert (ggml_are_same_shape t tp) })"

definition ggml_compute_backward :: "float_ops \<Rightarrow> int \<Rightarrow> bool list \<Rightarrow> graph_state \<Rightarrow> graph_state option" where
  "ggml_compute_backward fl i grads_needed gs = do {
     let (g, s) = gs;
     tensor \<leftarrow> node_at g i;
     grad \<leftarrow> ggml_graph_get_grad g tensor;
     if grad = 0 then Some gs
     else do {
       t \<leftarrow> deref s tensor;
       let (src0, src1, src2) = (t_src t ! 0, t_src t ! 1, t_src t ! 2);
       (isrc0, need0) \<leftarrow> backward_src g grads_needed src0;
       (isrc1, need1) \<leftarrow> backward_src g grads_needed src1;
       (isrc2, need2) \<leftarrow> backward_src g grads_needed src2;
       gs \<leftarrow> backward_op fl (t_op t)
         \<lparr>bw_tensor = tensor, bw_grad = grad, bw_src0 = src0, bw_src1 = src1, bw_src2 = src2,
          bw_isrc0 = isrc0, bw_isrc1 = isrc1, bw_isrc2 = isrc2,
          src0_needs_grads = need0, src1_needs_grads = need1, src2_needs_grads = need2\<rparr> gs;
       _ \<leftarrow> check_grad gs need0 src0 isrc0;
       _ \<leftarrow> check_grad gs need1 src1 isrc1;
       _ \<leftarrow> check_grad gs need2 src2 isrc2;
       Some gs } }"

text \<open>The sources whose gradients have no effect on the gradients of the result.\<close>

definition ignored_src :: "ggml_tensor \<Rightarrow> nat \<Rightarrow> bool option" where
  "ignored_src t j =
     (if t_op t = GGML_OP_IM2COL \<or> t_op t = GGML_OP_IM2COL_BACK then Some (j = 0)
      else if t_op t = GGML_OP_UNARY then do {
        uop \<leftarrow> ggml_get_unary_op t;
        Some (j = 0 \<and> (uop = GGML_UNARY_OP_SGN \<or> uop = GGML_UNARY_OP_STEP)) }
      else if t_op t = GGML_OP_CPY \<or> t_op t = GGML_OP_GET_ROWS \<or> t_op t = GGML_OP_GET_ROWS_BACK \<or> t_op t = GGML_OP_ROPE
      then Some (j = 1)
      else Some False)"

fun any_src_needed :: "graph_state \<Rightarrow> bool list \<Rightarrow> ggml_tensor \<Rightarrow> nat list \<Rightarrow> bool option" where
  "any_src_needed gs grads_needed t [] = Some False"
| "any_src_needed gs grads_needed t (j # js) = do {
     let (g, s) = gs;
     ignored \<leftarrow> ignored_src t j;
     if t_src t ! j = 0 \<or> ignored then any_src_needed gs grads_needed t js
     else do {
       isrc \<leftarrow> ggml_hash_find (cg_visited g) (t_src t ! j);
       needed \<leftarrow> array_get grads_needed isrc;
       if \<not> needed then any_src_needed gs grads_needed t js
       else do {
         tj \<leftarrow> deref s (t_src t ! j);
         ggml_assert (t_type tj = GGML_TYPE_F32 \<or> t_type tj = GGML_TYPE_F16);
         Some True } } }"

definition set_grad_acc :: "ggml_cgraph \<Rightarrow> size_t \<Rightarrow> ptr \<Rightarrow> ggml_cgraph option" where
  "set_grad_acc g i p = do {
     accs \<leftarrow> cg_grad_accs g;
     accs \<leftarrow> array_set accs i p;
     set_grad (g\<lparr>cg_grad_accs := Some accs\<rparr>) i p }"

text \<open>
  The body of the first loop of \<^verbatim>\<open>ggml_build_backward_expand\<close>, for node \<open>i\<close>. The state holds the
  graph, the context and \<^verbatim>\<open>grads_needed\<close>.
\<close>

definition mark_grad_node :: "ptr list option \<Rightarrow> nat \<Rightarrow> graph_state \<times> bool list \<Rightarrow> (graph_state \<times> bool list) option" where
  "mark_grad_node grad_accs i = (\<lambda>((g, s), grads_needed). do {
     node \<leftarrow> array_get (cg_nodes g) i;
     t \<leftarrow> deref s node;
     if t_type t = GGML_TYPE_I32 then Some ((g, s), grads_needed)
     else do {
       by_src \<leftarrow> any_src_needed (g, s) grads_needed t [0..<GGML_MAX_SRC];
       if \<not> (has_flag t GGML_TENSOR_FLAG_PARAM \<or> has_flag t GGML_TENSOR_FLAG_LOSS \<or> by_src)
       then Some ((g, s), grads_needed)
       else do {
         ggml_assert (t_view_src t = 0 \<or> t_op t = GGML_OP_CPY \<or> t_op t = GGML_OP_VIEW \<or> t_op t = GGML_OP_RESHAPE
           \<or> t_op t = GGML_OP_PERMUTE \<or> t_op t = GGML_OP_TRANSPOSE);
         ihash \<leftarrow> ggml_hash_find (cg_visited g) node;
         ggml_assert (ihash \<noteq> GGML_HASHSET_FULL);
         ggml_assert (ggml_bitset_get (hs_used (cg_visited g)) ihash);
         given \<leftarrow> (case grad_accs of None \<Rightarrow> Some 0 | Some accs \<Rightarrow> array_get accs i);
         (g, s) \<leftarrow> (if given \<noteq> 0 then do { g \<leftarrow> set_grad_acc g ihash given; Some (g, s) }
                    else if has_flag t GGML_TENSOR_FLAG_LOSS then do {
                      (acc, s) \<leftarrow> ggml_new_tensor s GGML_TYPE_F32 4 (t_ne t);
                      g \<leftarrow> set_grad_acc g ihash acc;
                      Some (g, s) }
                    else Some (g, s));
         grads_needed \<leftarrow> array_set grads_needed ihash True;
         Some ((g, s), grads_needed) } } })"

fun any_node_flag :: "ggml_state \<Rightarrow> 32 word \<Rightarrow> ptr list \<Rightarrow> bool option" where
  "any_node_flag s flag [] = Some False"
| "any_node_flag s flag (node # nodes) = do {
     t \<leftarrow> deref s node;
     rest \<leftarrow> any_node_flag s flag nodes;
     Some (has_flag t flag \<or> rest) }"

text \<open>\<open>grad_accs\<close> is the optional array of gradient accumulators, one entry for each node.\<close>

definition ggml_build_backward_expand ::
  "float_ops \<Rightarrow> graph_state \<Rightarrow> ptr list option \<Rightarrow> graph_state option" where
  "ggml_build_backward_expand fl gs grad_accs = do {
     let (g, s) = gs;
     ggml_assert (n_nodes g > 0);
     ggml_assert (cg_grads g \<noteq> None);
     ggml_assert (cg_grad_accs g \<noteq> None);
     let n_nodes_f = length (cg_nodes g);
     let zeros = replicate (hs_size (cg_visited g)) (0 :: ptr);
     let g = g\<lparr>cg_grads := Some zeros, cg_grad_accs := Some zeros\<rparr>;
     any_params \<leftarrow> any_node_flag s GGML_TENSOR_FLAG_PARAM (cg_nodes g);
     any_loss \<leftarrow> any_node_flag s GGML_TENSOR_FLAG_LOSS (cg_nodes g);
     ggml_assert any_params;
     ggml_assert any_loss;
     ((g, s), grads_needed) \<leftarrow> foldM (mark_grad_node grad_accs) [0..<n_nodes_f]
       ((g, s), replicate (hs_size (cg_visited g)) False);
     foldM (\<lambda>i. ggml_compute_backward fl (int i) grads_needed) (rev [0..<n_nodes_f]) (g, s) }"

end
