(* ===== verification/GGML_BuildRoom.thy ===== *)
theory GGML_BuildRoom
  imports GGML_Build
begin

text \<open>
  Building a graph without a promise of room: \<^verbatim>\<open>ggml_visit_parents_graph\<close> checks the room as it goes, so
  a run that returns has had room for everything the tensor depends on. With
  \<open>ggml_build_forward_expand_correct\<close> this says exactly when \<^verbatim>\<open>ggml_build_forward_expand\<close> returns.
\<close>

section \<open>What a returned visit has done\<close>

text \<open>
  \<open>sized T0 g\<close>: the lists of the graph hold visited tensors, each once, sorted into nodes and leafs,
  and fit into the arrays. \<open>walked\<close> relates the graph before and after a step: new tensors have been
  listed together with their sources.
\<close>

definition sized :: "(ptr \<rightharpoonup> ggml_tensor) \<Rightarrow> ggml_cgraph \<Rightarrow> bool" where
  "sized T0 g \<longleftrightarrow> hs_inv (cg_visited g) \<and> length (cg_use_counts g) = hs_size (cg_visited g)
     \<and> finished g \<subseteq> seen g \<and> distinct (cg_nodes g @ cg_leafs g)
     \<and> n_nodes g \<le> cg_size g \<and> n_leafs g \<le> cg_size g
     \<and> (\<forall>p \<in> set (cg_nodes g). \<not> is_leaf T0 p) \<and> (\<forall>p \<in> set (cg_leafs g). is_leaf T0 p)"

definition walked :: "(ptr \<rightharpoonup> ggml_tensor) \<Rightarrow> ggml_cgraph \<times> ggml_state \<Rightarrow> ggml_cgraph \<times> ggml_state \<Rightarrow> bool" where
  "walked T0 = (\<lambda>(g, s) (g', s'). heap_touched T0 (st_tensors s') \<and> sized T0 g'
     \<and> cg_size g' = cg_size g \<and> hs_size (cg_visited g') = hs_size (cg_visited g)
     \<and> seen g \<subseteq> seen g' \<and> (\<forall>q \<in> seen g' - seen g. set (srcs T0 q) \<subseteq> seen g')
     \<and> finished g' = finished g \<union> (seen g' - seen g))"

lemma walkedD:
  assumes "walked T0 (g, s) (g', s')"
  shows "heap_touched T0 (st_tensors s')" "sized T0 g'" "cg_size g' = cg_size g"
    "hs_size (cg_visited g') = hs_size (cg_visited g)" "seen g \<subseteq> seen g'"
    "q \<in> seen g' \<Longrightarrow> q \<notin> seen g \<Longrightarrow> set (srcs T0 q) \<subseteq> seen g'"
    "finished g' = finished g \<union> (seen g' - seen g)"
  using assms by (auto simp: walked_def)

lemma walked_refl: "sized T0 g \<Longrightarrow> heap_touched T0 (st_tensors s) \<Longrightarrow> walked T0 (g, s) (g, s)"
  by (simp add: walked_def)

lemma walked_trans:
  assumes "walked T0 (g, s) (g1, s1)" "walked T0 (g1, s1) (g2, s2)"
  shows "walked T0 (g, s) (g2, s2)"
proof -
  note a = walkedD [OF assms(1)] and b = walkedD [OF assms(2)]
  have "set (srcs T0 q) \<subseteq> seen g2" if "q \<in> seen g2" "q \<notin> seen g" for q
    using a(6) [of q] b(5) b(6) [of q] that by (cases "q \<in> seen g1") auto
  moreover have "finished g2 = finished g \<union> (seen g2 - seen g)" unfolding a(7) b(7) using a(5) b(5) by auto
  ultimately show ?thesis using a b by (auto simp: walked_def)
qed

text \<open>A loop of steps that each visit one tensor.\<close>

lemma foldM_walked:
  assumes step: "\<And>x g s g' s'. x \<in> set xs \<Longrightarrow> f x (g, s) = Some (g', s') \<Longrightarrow> sized T0 g \<Longrightarrow> heap_touched T0 (st_tensors s)
      \<Longrightarrow> walked T0 (g, s) (g', s') \<and> (x = 0 \<or> x \<in> seen g' \<or> skip x)"
    and "foldM f xs (g, s) = Some (g', s')" "sized T0 g" "heap_touched T0 (st_tensors s)"
  shows "walked T0 (g, s) (g', s') \<and> (\<forall>x \<in> set xs. x = 0 \<or> x \<in> seen g' \<or> skip x)"
  using assms
proof (induction xs arbitrary: g s)
  case Nil
  then show ?case by (simp add: walked_refl)
next
  case (Cons x xs)
  obtain g1 s1 where 1: "f x (g, s) = Some (g1, s1)" "foldM f xs (g1, s1) = Some (g', s')"
    using Cons.prems(2) by (auto simp: Option.bind_eq_Some_conv)
  have w: "walked T0 (g, s) (g1, s1)" "x = 0 \<or> x \<in> seen g1 \<or> skip x"
    using Cons.prems(1) [OF _ 1(1) Cons.prems(3,4)] by simp_all
  have "walked T0 (g1, s1) (g', s') \<and> (\<forall>x \<in> set xs. x = 0 \<or> x \<in> seen g' \<or> skip x)"
    by (rule Cons.IH [OF Cons.prems(1) 1(2) walkedD(2) [OF w(1)] walkedD(1) [OF w(1)]]) simp_all
  then show ?case using walked_trans [OF w(1)] w(2) walkedD(5) [of T0 g1 s1 g' s'] by auto
qed

section \<open>The steps of a visit\<close>

text \<open>A search that ends at a free slot shows that the key is new and where it goes.\<close>

lemma find_free:
  assumes "hs_inv hs" "ggml_hash_find hs key = Some i" "i \<noteq> GGML_HASHSET_FULL" "\<not> ggml_bitset_get (hs_used hs) i"
  shows "key \<notin> hs_set hs"
    "ggml_hash_find_or_insert hs key = Some (i, hs\<lparr>hs_used := ggml_bitset_set (hs_used hs) i, hs_keys := (hs_keys hs)[i := key]\<rparr>)"
proof -
  have s: "slot_of hs key = Some i"
    using assms(2,3) by (cases "slot_of hs key") (simp_all add: ggml_hash_find_eq [OF assms(1)])
  show n: "key \<notin> hs_set hs" using slot_of_Some(3) [OF assms(1) s] assms(4) by blast
  show "ggml_hash_find_or_insert hs key = Some (i, hs\<lparr>hs_used := ggml_bitset_set (hs_used hs) i, hs_keys := (hs_keys hs)[i := key]\<rparr>)"
    using s n by (simp add: hash_insert_cases(2) [OF assms(1)])
qed

lemma find_used:
  assumes "hs_inv hs" "ggml_hash_find hs key = Some i" "i \<noteq> GGML_HASHSET_FULL" "ggml_bitset_get (hs_used hs) i"
  shows "key \<in> hs_set hs"
proof -
  have s: "slot_of hs key = Some i"
    using assms(2,3) by (cases "slot_of hs key") (simp_all add: ggml_hash_find_eq [OF assms(1)])
  show ?thesis using slot_of_Some(2) [OF assms(1) s] assms(4) by blast
qed

lemma mark_sized:
  assumes "sized T0 g" "ggml_hash_find (cg_visited g) node = Some pos" "pos \<noteq> GGML_HASHSET_FULL"
    "\<not> ggml_bitset_get (hs_used (cg_visited g)) pos"
  shows "node \<notin> seen g" "seen (mark_visited g pos node) = insert node (seen g)" "sized T0 (mark_visited g pos node)"
    "hs_size (cg_visited (mark_visited g pos node)) = hs_size (cg_visited g)"
proof -
  have hi: "hs_inv (cg_visited g)" using assms(1) by (simp add: sized_def)
  let ?g = "mark_visited g pos node"
  show "node \<notin> seen g" by (rule find_free(1) [OF hi assms(2-4)])
  have ins: "ggml_hash_find_or_insert (cg_visited g) node = Some (pos, cg_visited ?g)"
    using find_free(2) [OF hi assms(2-4)] by (simp add: mark_visited_def)
  show seen: "seen ?g = insert node (seen g)" by (rule hash.add_elems [OF hi ins])
  show sz: "hs_size (cg_visited ?g) = hs_size (cg_visited g)" by (rule hash.add_capacity [OF hi ins])
  have "hs_inv (cg_visited ?g)" by (rule hash.add_invar [OF hi ins])
  moreover have "length (cg_use_counts ?g) = length (cg_use_counts g)" "cg_nodes ?g = cg_nodes g" "cg_leafs ?g = cg_leafs g"
    "cg_size ?g = cg_size g" by (simp_all add: mark_visited_def)
  ultimately show "sized T0 ?g" using assms(1) seen sz by (auto simp: sized_def finished_def n_nodes_def n_leafs_def)
qed

lemma add_sized:
  assumes "add_visited g s node = Some (g', s')" "sized T0 g" "heap_touched T0 (st_tensors s)" "node \<in> seen g" "node \<notin> finished g"
  shows "heap_touched T0 (st_tensors s')" "sized T0 g'" "finished g' = insert node (finished g)"
    "cg_visited g' = cg_visited g" "cg_size g' = cg_size g"
proof -
  obtain t where t: "st_tensors s node = Some t" using assms(1) by (auto simp: add_visited_def deref_def Option.bind_eq_Some_conv)
  have leaf: "t_op t = GGML_OP_NONE \<and> \<not> has_flag t GGML_TENSOR_FLAG_PARAM \<longleftrightarrow> is_leaf T0 node"
    unfolding heap_touched_static(3) [OF assms(3), symmetric] using t by (auto simp: is_leaf_def)
  define str where "str = (if is_leaf T0 node then ''leaf_'' @ decimal (length (cg_leafs g)) else ''node_'' @ decimal (length (cg_nodes g)))"
  have str: "str \<noteq> ''''" by (simp add: str_def)
  have s': "s' = (if length (t_name t) = 0 then ggml_format_name s node str else s)"
    and g': "g' = (if is_leaf T0 node then g\<lparr>cg_leafs := cg_leafs g @ [node]\<rparr> else g\<lparr>cg_nodes := cg_nodes g @ [node]\<rparr>)"
    and room: "if is_leaf T0 node then n_leafs g < cg_size g else n_nodes g < cg_size g"
    using assms(1) t leaf by (auto simp: add_visited_def deref_def str_def Option.bind_eq_Some_conv split: if_splits)
  have "heap_touched (st_tensors s) (st_tensors s')" using format_touched(1) [OF t _ str] by (simp add: s')
  then show "heap_touched T0 (st_tensors s')" using heap_touched_trans [OF assms(3)] by blast
  show "sized T0 g'" "finished g' = insert node (finished g)" "cg_visited g' = cg_visited g" "cg_size g' = cg_size g"
    using assms(2,4,5) room by (auto simp: g' sized_def finished_def n_nodes_def n_leafs_def split: if_splits)
qed

section \<open>A returned visit\<close>

definition walk_ok :: "(ptr \<rightharpoonup> ggml_tensor) \<Rightarrow> ptr \<Rightarrow> bool" where
  "walk_ok T0 node \<longleftrightarrow> (\<forall>g s c pos g' s'. ggml_visit_parents_graph g s node c = Some (pos, g', s') \<longrightarrow> sized T0 g
     \<longrightarrow> heap_touched T0 (st_tensors s) \<longrightarrow> walked T0 (g, s) (g', s') \<and> node \<in> seen g')"

lemma walk_okD:
  "walk_ok T0 node \<Longrightarrow> ggml_visit_parents_graph g s node c = Some (pos, g', s') \<Longrightarrow> sized T0 g
    \<Longrightarrow> heap_touched T0 (st_tensors s) \<Longrightarrow> walked T0 (g, s) (g', s') \<and> node \<in> seen g'"
  by (auto simp: walk_ok_def)

lemma revisit_src_walked:
  assumes "x \<noteq> 0 \<Longrightarrow> walk_ok T0 x" "revisit_src x (g, s) = Some (g', s')" "sized T0 g" "heap_touched T0 (st_tensors s)"
  shows "walked T0 (g, s) (g', s') \<and> (x = 0 \<or> x \<in> seen g' \<or> True)"
  using assms walk_okD [of T0 x g s True _ g' s'] walked_refl [OF assms(3,4)]
  by (cases "x = 0") (auto simp: revisit_src_def Option.bind_eq_Some_conv split: if_splits)

lemma visit_src_walked:
  assumes "x \<noteq> 0 \<Longrightarrow> walk_ok T0 x" "visit_src c x (g, s) = Some (g', s')" "sized T0 g" "heap_touched T0 (st_tensors s)"
  shows "walked T0 (g, s) (g', s') \<and> (x = 0 \<or> x \<in> seen g' \<or> False)"
proof (cases "x = 0")
  case True
  then show ?thesis using assms(2) walked_refl [OF assms(3,4)] by (simp add: visit_src_def)
next
  case False
  then obtain p g1 n where v: "ggml_visit_parents_graph g s x c = Some (p, g1, s')"
      and g': "g' = g1\<lparr>cg_use_counts := (cg_use_counts g1)[p := n + 1]\<rparr>"
    using assms(2) by (auto simp: visit_src_def Option.bind_eq_Some_conv)
  have w: "walked T0 (g, s) (g1, s') \<and> x \<in> seen g1" by (rule walk_okD [OF assms(1) [OF False] v assms(3,4)])
  have "sized T0 g' \<longleftrightarrow> sized T0 g1" "seen g' = seen g1" "finished g' = finished g1" "cg_size g' = cg_size g1" "cg_visited g' = cg_visited g1"
    by (simp_all add: g' sized_def finished_def n_nodes_def n_leafs_def)
  then show ?thesis using w by (simp add: walked_def)
qed

lemma walk_srcs:
  assumes "heap_ok T0" "heap_touched T0 (st_tensors s)" "st_tensors s node = Some t" "\<And>x. x \<in> set (srcs T0 node) \<Longrightarrow> walk_ok T0 x"
  shows "x \<in> set (t_src t) \<Longrightarrow> x \<noteq> 0 \<Longrightarrow> walk_ok T0 x" "length (t_src t) = GGML_MAX_SRC"
proof -
  show "x \<in> set (t_src t) \<Longrightarrow> x \<noteq> 0 \<Longrightarrow> walk_ok T0 x" using srcs_touched [OF assms(2,3)] assms(4) [of x] by auto
  show "length (t_src t) = GGML_MAX_SRC"
    using heap_touched_ok [OF assms(2,1)] assms(3) by (auto simp: heap_ok_def tensor_wf_def)
qed

lemma visit_walked:
  assumes "heap_ok T0" "\<And>x. x \<in> set (srcs T0 node) \<Longrightarrow> walk_ok T0 x"
    and "ggml_visit_parents_graph g s node c = Some (pos, g', s')" "sized T0 g" "heap_touched T0 (st_tensors s)"
  shows "walked T0 (g, s) (g', s') \<and> node \<in> seen g'"
proof -
  obtain t where t: "st_tensors s node = Some t" using assms(3) by (auto simp: visit_unfold deref_def Option.bind_eq_Some_conv)
  note ws = walk_srcs [OF assms(1,5) t assms(2)]
  define s1 where "s1 = (if t_op t \<noteq> GGML_OP_NONE \<and> c then upd s node (set_flag GGML_TENSOR_FLAG_COMPUTE) else s)"
  have ht: "heap_touched T0 (st_tensors s1)" using heap_touched_trans [OF assms(5) flag_step(1) [OF t, of c]] by (simp add: s1_def)
  have hi: "hs_inv (cg_visited g)" using assms(4) by (simp add: sized_def)
  have pos: "ggml_hash_find (cg_visited g) node = Some pos" "pos \<noteq> GGML_HASHSET_FULL"
    and run: "(if ggml_bitset_get (hs_used (cg_visited g)) pos
       then (if c then foldM revisit_src (t_src t) (g, s1) else Some (g, s1))
       else do { (g, s) \<leftarrow> foldM (visit_src c) (visit_srcs (cg_order (mark_visited g pos node)) t) (mark_visited g pos node, s1);
                 add_visited g s node }) = Some (g', s')"
    using assms(3) t unfolding visit_unfold [of g s node c] s1_def [symmetric]
    by (auto simp: deref_def Option.bind_eq_Some_conv s1_def Let_def split: if_splits)
  show ?thesis
  proof (cases "ggml_bitset_get (hs_used (cg_visited g)) pos")
    case True
    have w: "walked T0 (g, s1) (g', s')"
    proof (cases c)
      case True
      then have "foldM revisit_src (t_src t) (g, s1) = Some (g', s')" using run \<open>ggml_bitset_get _ _\<close> by simp
      then show ?thesis using foldM_walked [OF revisit_src_walked [OF ws(1)] _ assms(4) ht] by blast
    qed (use run \<open>ggml_bitset_get _ _\<close> walked_refl [OF assms(4) ht] in simp)
    then have "walked T0 (g, s) (g', s')" by (simp add: walked_def)
    then show ?thesis using find_used [OF hi pos True] walkedD(5) by blast
  next
    case False
    define g1 where "g1 = mark_visited g pos node"
    note m = mark_sized [OF assms(4) pos False, folded g1_def]
    obtain g2 s2 where 2: "foldM (visit_src c) (visit_srcs (cg_order g1) t) (g1, s1) = Some (g2, s2)"
      and 3: "add_visited g2 s2 node = Some (g', s')"
      using run False by (auto simp: g1_def Option.bind_eq_Some_conv)
    have el: "set (visit_srcs (cg_order g1) t) = set (t_src t)" by (rule visit_srcs_uses(1) [OF ws(2)])
    have w: "walked T0 (g1, s1) (g2, s2) \<and> (\<forall>x \<in> set (visit_srcs (cg_order g1) t). x = 0 \<or> x \<in> seen g2 \<or> False)"
      by (rule foldM_walked [OF visit_src_walked [OF ws(1)] 2 m(3) ht]) (simp_all add: el)
    note a = walkedD [OF conjunct1 [OF w]]
    have f1: "finished g1 = finished g" "cg_size g1 = cg_size g" by (simp_all add: g1_def mark_visited_def finished_def)
    have "node \<notin> finished g" using assms(4) m(1) by (auto simp: sized_def)
    then have nf: "node \<notin> finished g2" "node \<in> seen g2" unfolding a(7) using a(5) m(2) f1 by auto
    note b = add_sized [OF 3 a(2,1) nf(2,1)]
    have src: "set (srcs T0 node) \<subseteq> seen g2" using w srcs_touched [OF assms(5) t] el by auto
    have "walked T0 (g, s) (g', s')"
      unfolding walked_def prod.case
    proof (intro conjI ballI)
      fix q assume "q \<in> seen g' - seen g"
      then show "set (srcs T0 q) \<subseteq> seen g'" using src a(6) [of q] m(2) unfolding b(4) by (cases "q = node") auto
    next
      have "seen g2 - seen g = insert node (seen g2 - seen g1)" using m(1,2) a(5) by auto
      then show "finished g' = finished g \<union> (seen g' - seen g)" unfolding b(3,4) a(7) f1(1) by auto
    qed (use a b m f1 in auto)
    then show ?thesis using nf(2) b(4) by simp
  qed
qed

lemma visit_walk_ok:
  assumes "heap_ok T0" shows "walk_ok T0 node"
proof -
  obtain rank :: "ptr \<Rightarrow> nat" where rank: "\<forall>p. \<forall>q \<in> set (srcs T0 p). rank q < rank p" using heap_ok_rank [OF assms] by blast
  show ?thesis
  proof (induction "rank node" arbitrary: node rule: less_induct)
    case less
    have "walk_ok T0 x" if "x \<in> set (srcs T0 node)" for x using less.hyps rank that by blast
    then show ?case using visit_walked [OF assms, of node] by (subst walk_ok_def) blast
  qed
qed

section \<open>When a graph can be built\<close>

lemma graph_ok_sized:
  "graph_ok T g \<Longrightarrow> n_nodes g \<le> cg_size g \<Longrightarrow> n_leafs g \<le> cg_size g \<Longrightarrow> sized T g"
  by (auto simp: graph_ok_def graph_inv_def sized_def)

text \<open>Whatever is visited when the walk ends fits, and contains all that the tensor depends on.\<close>

lemma walked_room:
  assumes "heap_ok T" "graph_ok T g" "walked T (g, s) (g', s')" "tensor \<in> seen g'"
  shows "has_room T (finished g \<union> reach T tensor) g"
proof -
  note w = walkedD [OF assms(3)]
  have gi: "graph_inv {} T g" and sf: "seen g = finished g" using assms(2) graph_ok_seen by (auto simp: graph_ok_def)
  have "set (srcs T q) \<subseteq> seen g'" if q: "q \<in> seen g'" for q
  proof (cases "q \<in> seen g")
    case True
    then have "q \<in> set (cg_nodes g) \<or> q \<in> set (cg_leafs g)" unfolding sf finished_def by blast
    then show ?thesis
    proof
      assume "q \<in> set (cg_nodes g)"
      then obtain i where "i < length (cg_nodes g)" "q = cg_nodes g ! i" by (auto simp: in_set_conv_nth)
      then have "set (srcs T q) \<subseteq> set (cg_leafs g) \<union> set (take i (cg_nodes g))"
        using gi by (auto simp: graph_inv_def topological_def)
      also have "\<dots> \<subseteq> seen g" unfolding sf finished_def using set_take_subset by fastforce
      finally show ?thesis using w(5) by blast
    next
      assume "q \<in> set (cg_leafs g)"
      then have "is_none T q" using gi by (auto simp: graph_inv_def is_leaf_def is_none_def)
      then show ?thesis using heap_ok_srcs(2) [OF assms(1)] by simp
    qed
  next
    case False
    then show ?thesis using w(6) [OF q] by blast
  qed
  then have "reach T tensor \<subseteq> seen g'" using reach_closed [of tensor "seen g'" T "{}"] assms(4) by auto
  then have V: "finished g \<union> reach T tensor \<subseteq> seen g'" using w(5) sf by blast
  have sz: "hs_inv (cg_visited g')" "distinct (cg_nodes g' @ cg_leafs g')" "n_nodes g' \<le> cg_size g'" "n_leafs g' \<le> cg_size g'"
    "\<forall>p \<in> set (cg_nodes g'). \<not> is_leaf T p" "\<forall>p \<in> set (cg_leafs g'). is_leaf T p" using w(2) by (simp_all add: sized_def)
  have fin: "finite (seen g')" "card (seen g') \<le> hs_size (cg_visited g')" using hs_set_card [OF sz(1)] by simp_all
  have all: "seen g' = set (cg_nodes g') \<union> set (cg_leafs g')" using w(5,7) sf by (auto simp: finished_def)
  have "{p \<in> finished g \<union> reach T tensor. is_leaf T p} \<subseteq> set (cg_leafs g')"
    "{p \<in> finished g \<union> reach T tensor. \<not> is_leaf T p} \<subseteq> set (cg_nodes g')" using V all sz(5,6) by auto
  then have "card {p \<in> finished g \<union> reach T tensor. is_leaf T p} \<le> length (cg_leafs g')"
    "card {p \<in> finished g \<union> reach T tensor. \<not> is_leaf T p} \<le> length (cg_nodes g')"
    using card_mono [OF finite_set] card_length order_trans by blast+
  then show ?thesis
    using V fin card_mono [OF fin(1) V] finite_subset [OF V fin(1)] sz(3,4) w(3,4)
    by (auto simp: has_room_def n_nodes_def n_leafs_def)
qed

text \<open>
  For a complete graph that is not over-full, \<^verbatim>\<open>ggml_build_forward_expand\<close> returns exactly when the
  hash set and the two arrays have room for what is listed already and all that the tensor depends
  on; otherwise an assertion stops the program. A return is then as in
  \<open>ggml_build_forward_expand_correct\<close>.
\<close>

theorem ggml_build_forward_expand_returns_iff:
  assumes "heap_ok (st_tensors s)" "graph_ok (st_tensors s) g" "flags_closed {} (st_tensors s)" "tensor \<in> dom (st_tensors s)"
    and "n_nodes g \<le> cg_size g" "n_leafs g \<le> cg_size g"
  shows "ggml_build_forward_expand g s tensor \<noteq> None \<longleftrightarrow> has_room (st_tensors s) (finished g \<union> reach (st_tensors s) tensor) g"
proof
  assume "ggml_build_forward_expand g s tensor \<noteq> None"
  then obtain g' s' pos where v: "ggml_visit_parents_graph g s tensor True = Some (pos, g', s')"
    by (auto simp: ggml_build_forward_expand_def ggml_build_forward_impl_def Option.bind_eq_Some_conv)
  have "walked (st_tensors s) (g, s) (g', s') \<and> tensor \<in> seen g'"
    by (rule walk_okD [OF visit_walk_ok [OF assms(1)] v graph_ok_sized [OF assms(2,5,6)]]) simp
  then show "has_room (st_tensors s) (finished g \<union> reach (st_tensors s) tensor) g"
    using walked_room [OF assms(1,2)] by blast
next
  assume "has_room (st_tensors s) (finished g \<union> reach (st_tensors s) tensor) g"
  then obtain g' T' where "ggml_build_forward_impl g s tensor True True = Some (g', s\<lparr>st_tensors := T'\<rparr>)"
    by (rule build_forward_impl_correct [OF assms(1) refl assms(2-4)])
  then show "ggml_build_forward_expand g s tensor \<noteq> None" by (simp add: ggml_build_forward_expand_def)
qed

end
