(* ===== verification/GGML_BackwardStep.thy ===== *)
theory GGML_BackwardStep
  imports GGML_Backward GGML_BuildRoom GGML_Program
begin

text \<open>
  One step of the backward pass: creating tensors, storing a gradient and adding it to the graph.
  \<open>bw_inv\<close> is the invariant of the graph and the context, \<open>bw_step D\<close> the contract of a step that
  stores gradients in the slots \<open>D\<close> only: tensors only gain names and the compute flag, nodes and
  leafs are only appended, and slots keep their keys.
\<close>

section \<open>What may change in a tensor\<close>

definition marked :: "ggml_tensor \<Rightarrow> ggml_tensor \<Rightarrow> bool" where
  "marked t t' \<longleftrightarrow> t' = t\<lparr>t_flags := t_flags t', t_name := t_name t'\<rparr>
     \<and> (t_flags t' = t_flags t \<or> t_flags t' = t_flags t OR GGML_TENSOR_FLAG_COMPUTE)"

definition heap_marked :: "(ptr \<rightharpoonup> ggml_tensor) \<Rightarrow> (ptr \<rightharpoonup> ggml_tensor) \<Rightarrow> bool" where
  "heap_marked T T' \<longleftrightarrow> (\<forall>p t. T p = Some t \<longrightarrow> (\<exists>t'. T' p = Some t' \<and> marked t t'))"

lemma marked_trans: "marked t u \<Longrightarrow> marked u v \<Longrightarrow> marked t v"
proof -
  assume tu: "marked t u" and uv: "marked u v"
  have "v = u\<lparr>t_flags := t_flags v, t_name := t_name v\<rparr>" using uv by (simp add: marked_def)
  also have "\<dots> = (t\<lparr>t_flags := t_flags u, t_name := t_name u\<rparr>)\<lparr>t_flags := t_flags v, t_name := t_name v\<rparr>"
    using tu unfolding marked_def by metis
  finally have "v = t\<lparr>t_flags := t_flags v, t_name := t_name v\<rparr>" by simp
  moreover have "(w OR 16) OR 16 = w OR (16 :: 32 word)" for w by (simp add: or.assoc)
  ultimately show "marked t v" using tu uv unfolding marked_def by auto
qed

lemma marked_refl [simp]: "marked t t" by (simp add: marked_def)

lemma marked_fields:
  assumes "marked t t'"
  shows "t_type t' = t_type t" "t_ne t' = t_ne t" "t_op t' = t_op t" "t_op_params t' = t_op_params t" "t_src t' = t_src t"
    "has_flag t' GGML_TENSOR_FLAG_PARAM = has_flag t GGML_TENSOR_FLAG_PARAM"
    "has_flag t' GGML_TENSOR_FLAG_LOSS = has_flag t GGML_TENSOR_FLAG_LOSS"
proof -
  have eq: "t' = t\<lparr>t_flags := t_flags t', t_name := t_name t'\<rparr>" using assms by (simp add: marked_def)
  show "t_type t' = t_type t" "t_ne t' = t_ne t" "t_op t' = t_op t" "t_op_params t' = t_op_params t" "t_src t' = t_src t"
    by (subst eq, simp)+
  have "(w OR 16) AND 4 = w AND (4 :: 32 word)" "(w OR 16) AND 8 = w AND (8 :: 32 word)" for w
    by (simp_all add: bit.conj_disj_distrib2)
  then show "has_flag t' GGML_TENSOR_FLAG_PARAM = has_flag t GGML_TENSOR_FLAG_PARAM"
    "has_flag t' GGML_TENSOR_FLAG_LOSS = has_flag t GGML_TENSOR_FLAG_LOSS"
    using assms by (auto simp: marked_def has_flag_def)
qed

lemma heap_marked_refl [simp]: "heap_marked T T" by (simp add: heap_marked_def)

lemma heap_marked_trans: "heap_marked T U \<Longrightarrow> heap_marked U V \<Longrightarrow> heap_marked T V"
  unfolding heap_marked_def using marked_trans by metis

lemma heap_markedD:
  assumes "heap_marked T T'" "T p = Some t" obtains t' where "T' p = Some t'" "marked t t'"
  using assms by (auto simp: heap_marked_def)

lemma heap_marked_dom: "heap_marked T T' \<Longrightarrow> dom T \<subseteq> dom T'" by (fastforce simp: heap_marked_def)

lemma touched_marked: "heap_touched T T' \<Longrightarrow> heap_marked T T'"
  unfolding heap_marked_def
proof (intro allI impI)
  fix p t assume "heap_touched T T'" and t: "T p = Some t"
  then obtain t' where "T' p = Some t'" "touched t t'" using t by (cases rule: heap_touched_cases [of T T' p]) auto
  then show "\<exists>t'. T' p = Some t' \<and> marked t t'" unfolding touched_def marked_def by blast
qed

lemma extends_marked: "extends s s' \<Longrightarrow> heap_marked (st_tensors s) (st_tensors s')"
  unfolding heap_marked_def using extends_deref by (force simp: deref_def)

section \<open>Changes that keep a graph complete\<close>

lemma graph_ok_mono:
  assumes "graph_ok T g" "dom T \<subseteq> dom T'"
    and "\<And>q. q \<in> finished g \<Longrightarrow> srcs T' q = srcs T q \<and> is_leaf T' q = is_leaf T q \<and> (named T q \<longrightarrow> named T' q)"
  shows "graph_ok T' g"
proof -
  have nodes: "q \<in> finished g" if "q \<in> set (cg_nodes g) \<union> set (cg_leafs g)" for q using that by (simp add: finished_def)
  have "topological T' (cg_nodes g) (set (cg_leafs g)) = topological T (cg_nodes g) (set (cg_leafs g))"
    using assms(3) nodes by (auto simp: topological_def)
  moreover have gi: "graph_inv {} T g" using assms(1) by (simp add: graph_ok_def)
  have "seen g \<subseteq> dom T'" using gi assms(2) unfolding graph_inv_def by (meson subset_trans)
  moreover have "(\<forall>p \<in> set (cg_nodes g). \<not> is_leaf T' p) \<and> (\<forall>p \<in> set (cg_leafs g). is_leaf T' p) \<and> (\<forall>p \<in> finished g. named T' p)"
    using gi assms(3) nodes unfolding graph_inv_def by simp
  ultimately have "graph_inv {} T' g" using gi unfolding graph_inv_def by simp
  moreover have "(\<Sum>q \<in> finished g. int (count_list (srcs T' q) p)) = (\<Sum>q \<in> finished g. int (count_list (srcs T q) p))" for p
    by (rule sum.cong) (simp_all add: assms(3))
  ultimately show ?thesis using assms(1) by (simp add: graph_ok_def)
qed

lemma graph_ok_dom: "graph_ok T g \<Longrightarrow> finished g \<subseteq> dom T"
proof -
  assume a: "graph_ok T g"
  then have "seen g \<subseteq> dom T" unfolding graph_ok_def graph_inv_def by blast
  then show ?thesis using graph_ok_seen [OF a] by simp
qed

lemma graph_ok_extends:
  assumes "graph_ok (st_tensors s) g" "extends s s'" shows "graph_ok (st_tensors s') g"
proof (rule graph_ok_mono [OF assms(1)])
  show "dom (st_tensors s) \<subseteq> dom (st_tensors s')" by (rule heap_marked_dom [OF extends_marked [OF assms(2)]])
  fix q assume "q \<in> finished g"
  then have "q \<in> dom (st_tensors s)" using graph_ok_dom [OF assms(1)] by blast
  then have "st_tensors s' q = st_tensors s q" using assms(2) by (auto simp: extends_def map_le_def)
  then show "srcs (st_tensors s') q = srcs (st_tensors s) q \<and> is_leaf (st_tensors s') q = is_leaf (st_tensors s) q
    \<and> (named (st_tensors s) q \<longrightarrow> named (st_tensors s') q)"
    by (simp add: srcs_def is_leaf_def named_def)
qed

text \<open>Gradient arrays do not matter for the invariant of the graph.\<close>

lemma graph_ok_arrays [simp]:
  "graph_ok T (g\<lparr>cg_grads := a\<rparr>) \<longleftrightarrow> graph_ok T g" "graph_ok T (g\<lparr>cg_grad_accs := a\<rparr>) \<longleftrightarrow> graph_ok T g"
  by (simp_all add: graph_ok_def graph_inv_def finished_def uses_def)

lemma ctx_inv_tensors:
  assumes "ctx_inv s" "heap_ok T'" "dom T' = dom (st_tensors s)"
  shows "ctx_inv (s\<lparr>st_tensors := T'\<rparr>)"
proof -
  obtain xs e where "ctx_objs s xs e" using assms(1) by (auto simp: ctx_inv_def)
  then have "ctx_objs (s\<lparr>st_tensors := T'\<rparr>) xs e"
    using assms(2,3) by (simp add: ctx_objs_def pool_objs_def pool_tensors_def is_tensor_obj_def [abs_def] in_pool_def)
  then show ?thesis by (auto simp: ctx_inv_def)
qed

text \<open>Giving a tensor a new name.\<close>

lemma rename_props:
  fixes s p str
  defines "s' \<equiv> ggml_format_name s p str"
  assumes "str \<noteq> ''''"
  shows "srcs (st_tensors s') = srcs (st_tensors s)" "is_leaf (st_tensors s') = is_leaf (st_tensors s)"
    "is_none (st_tensors s') = is_none (st_tensors s)" "computed (st_tensors s') = computed (st_tensors s)"
    "dom (st_tensors s') = dom (st_tensors s)" "named (st_tensors s) q \<Longrightarrow> named (st_tensors s') q"
    "heap_marked (st_tensors s) (st_tensors s')" "s' = s\<lparr>st_tensors := st_tensors s'\<rparr>"
proof -
  have T: "st_tensors s' = (st_tensors s)(p := map_option (\<lambda>t. t\<lparr>t_name := take (GGML_MAX_NAME - 1) str\<rparr>) (st_tensors s p))"
    by (simp add: s'_def ggml_format_name_def upd_def)
  show "srcs (st_tensors s') = srcs (st_tensors s)" "is_leaf (st_tensors s') = is_leaf (st_tensors s)"
    "is_none (st_tensors s') = is_none (st_tensors s)" "computed (st_tensors s') = computed (st_tensors s)"
    by (auto simp: T fun_eq_iff srcs_def is_leaf_def is_none_def computed_def has_flag_def split: option.splits)
  show "dom (st_tensors s') = dom (st_tensors s)" by (auto simp: T)
  show "named (st_tensors s) q \<Longrightarrow> named (st_tensors s') q" using assms(2) by (auto simp: T named_def)
  show "heap_marked (st_tensors s) (st_tensors s')" by (auto simp: T heap_marked_def marked_def)
  show "s' = s\<lparr>st_tensors := st_tensors s'\<rparr>" by (simp add: s'_def ggml_format_name_def upd_def)
qed

lemma rename_heap_ok: "heap_ok (st_tensors s) \<Longrightarrow> heap_ok (st_tensors (ggml_format_name s p str))"
proof -
  assume h: "heap_ok (st_tensors s)"
  define T' where "T' = st_tensors (ggml_format_name s p str)"
  have T: "T' = (st_tensors s)(p := map_option (\<lambda>t. t\<lparr>t_name := take (GGML_MAX_NAME - 1) str\<rparr>) (st_tensors s p))"
    by (simp add: T'_def ggml_format_name_def upd_def)
  obtain rank where r: "ranked rank (st_tensors s)" using h by (auto simp: heap_ok_def)
  have old: "\<exists>t. st_tensors s q = Some t \<and> t_src t' = t_src t \<and> t_view_src t' = t_view_src t \<and> (tensor_wf t \<longrightarrow> tensor_wf t')"
    if "T' q = Some t'" for q t'
    using that unfolding T by (cases "q = p") (auto simp: tensor_wf_def)
  have new: "\<exists>t'. T' q = Some t' \<and> t_view_src t' = t_view_src t" if "st_tensors s q = Some t" for q t
    using that unfolding T by (cases "q = p") auto
  have view: "view_ok T' t'" if "view_ok (st_tensors s) t" "t_view_src t' = t_view_src t" for t t'
    using that new unfolding view_ok_def by metis
  have d: "dom T' = dom (st_tensors s)" unfolding T by auto
  have "ranked rank T'" using r old unfolding ranked_def d by metis
  moreover have "tensor_wf t' \<and> view_ok T' t'" if "T' q = Some t'" for q t'
    using old [OF that] view h unfolding heap_ok_def by blast
  moreover have "T' 0 = None" using h by (simp add: T heap_ok_def)
  ultimately show "heap_ok (st_tensors (ggml_format_name s p str))" unfolding T'_def [symmetric] heap_ok_def by blast
qed

section \<open>The invariant and the contract of a step\<close>

definition grad_arrays :: "(ptr \<rightharpoonup> ggml_tensor) \<Rightarrow> ggml_cgraph \<Rightarrow> bool" where
  "grad_arrays T g \<longleftrightarrow> (\<exists>grads accs. cg_grads g = Some grads \<and> cg_grad_accs g = Some accs
     \<and> length grads = hs_size (cg_visited g) \<and> length accs = hs_size (cg_visited g)
     \<and> set grads \<subseteq> insert 0 (dom T) \<and> set accs \<subseteq> insert 0 (dom T))"

lemma grad_arrays_mono: "grad_arrays T g \<Longrightarrow> dom T \<subseteq> dom T' \<Longrightarrow> grad_arrays T' g"
  unfolding grad_arrays_def by (meson insert_mono subset_trans)

definition bw_inv :: "graph_state \<Rightarrow> bool" where
  "bw_inv = (\<lambda>(g, s). ctx_inv s \<and> graph_ok (st_tensors s) g \<and> flags_closed {} (st_tensors s)
     \<and> n_nodes g \<le> cg_size g \<and> n_leafs g \<le> cg_size g \<and> grad_arrays (st_tensors s) g)"

definition bw_step :: "nat set \<Rightarrow> graph_state \<Rightarrow> graph_state \<Rightarrow> bool" where
  "bw_step D = (\<lambda>(g, s) (g', s'). bw_inv (g', s') \<and> heap_marked (st_tensors s) (st_tensors s')
     \<and> (\<exists>ns. cg_nodes g' = cg_nodes g @ ns) \<and> (\<exists>ls. cg_leafs g' = cg_leafs g @ ls)
     \<and> hs_size (cg_visited g') = hs_size (cg_visited g) \<and> cg_grad_accs g' = cg_grad_accs g
     \<and> (\<forall>p \<in> seen g. member_slot (cg_visited g') p = member_slot (cg_visited g) p)
     \<and> (\<forall>i. i \<notin> D \<longrightarrow> grad_at g' i = grad_at g i)
     \<and> (\<forall>i q. grad_at g' i = Some q \<longrightarrow> grad_at g i = Some q \<or> q \<noteq> 0 \<and> q \<in> finished g'))"

lemma bw_stepD:
  assumes "bw_step D (g, s) (g', s')"
  shows "bw_inv (g', s')" "heap_marked (st_tensors s) (st_tensors s')" "\<exists>ns. cg_nodes g' = cg_nodes g @ ns"
    "\<exists>ls. cg_leafs g' = cg_leafs g @ ls" "hs_size (cg_visited g') = hs_size (cg_visited g)" "cg_grad_accs g' = cg_grad_accs g"
    "p \<in> seen g \<Longrightarrow> member_slot (cg_visited g') p = member_slot (cg_visited g) p"
    "i \<notin> D \<Longrightarrow> grad_at g' i = grad_at g i"
    "grad_at g' i = Some q \<Longrightarrow> grad_at g i = Some q \<or> q \<noteq> 0 \<and> q \<in> finished g'"
  using assms by (auto simp: bw_step_def)

lemma bw_step_finished: "bw_step D (g, s) (g', s') \<Longrightarrow> finished g \<subseteq> finished g'"
  using bw_stepD(3,4) [of D g s g' s'] by (auto simp: finished_def)

lemma bw_inv_seen: "bw_inv (g, s) \<Longrightarrow> seen g = finished g"
  using graph_ok_seen by (auto simp: bw_inv_def)

lemma bw_step_trans:
  assumes "bw_step D (g, s) (g1, s1)" "bw_step E (g1, s1) (g2, s2)" "bw_inv (g, s)"
  shows "bw_step (D \<union> E) (g, s) (g2, s2)"
proof -
  note a = bw_stepD [OF assms(1)] and b = bw_stepD [OF assms(2)]
  have "seen g \<subseteq> seen g1" using bw_step_finished [OF assms(1)] bw_inv_seen assms(3) a(1) by blast
  then have m: "\<forall>p \<in> seen g. member_slot (cg_visited g2) p = member_slot (cg_visited g) p" using a(7) b(7) by auto
  have q: "grad_at g i = Some q \<or> q \<noteq> 0 \<and> q \<in> finished g2" if "grad_at g2 i = Some q" for i q
    using b(9) [OF that] a(9) [of i q] bw_step_finished [OF assms(2)] by auto
  obtain ns ns' ls ls' where "cg_nodes g1 = cg_nodes g @ ns" "cg_nodes g2 = cg_nodes g1 @ ns'"
    "cg_leafs g1 = cg_leafs g @ ls" "cg_leafs g2 = cg_leafs g1 @ ls'" using a(3,4) b(3,4) by blast
  then have n: "\<exists>ns. cg_nodes g2 = cg_nodes g @ ns" "\<exists>ls. cg_leafs g2 = cg_leafs g @ ls" by auto
  have d: "\<forall>i. i \<notin> D \<union> E \<longrightarrow> grad_at g2 i = grad_at g i" using a(8) b(8) by simp
  have q': "\<forall>i q. grad_at g2 i = Some q \<longrightarrow> grad_at g i = Some q \<or> q \<noteq> 0 \<and> q \<in> finished g2" using q by blast
  show ?thesis
    using n d q' m a(5,6) b(1,5,6) heap_marked_trans [OF a(2) b(2)] unfolding bw_step_def prod.case by simp
qed

lemma bw_step_refl: "bw_inv (g, s) \<Longrightarrow> bw_step {} (g, s) (g, s)"
  by (simp add: bw_step_def)

lemma bw_step_mono: "bw_step D gs gs' \<Longrightarrow> D \<subseteq> E \<Longrightarrow> bw_step E gs gs'"
  unfolding bw_step_def by blast

section \<open>The three kinds of steps\<close>

lemma bw_inv_ctx: "bw_inv (g, s) \<Longrightarrow> ctx_inv s" "bw_inv (g, s) \<Longrightarrow> heap_ok (st_tensors s)"
  by (auto simp: bw_inv_def ctx_inv_def ctx_objs_def)

lemma adds_step:
  assumes "adds s r s'" "bw_inv (g, s)" shows "bw_step {} (g, s) (g, s')"
proof -
  have ex: "extends s s'" using assms(1) by (simp add: adds_def)
  have d: "dom (st_tensors s) \<subseteq> dom (st_tensors s')" by (rule heap_marked_dom [OF extends_marked [OF ex]])
  have "bw_inv (g, s')"
    using assms(2) extends_inv [OF ex] graph_ok_extends [OF _ ex] adds_flags_closed [OF assms(1)] grad_arrays_mono [OF _ d]
    by (simp add: bw_inv_def)
  then show ?thesis using extends_marked [OF ex] by (simp add: bw_step_def)
qed

text \<open>A graph that is built further, from what is known when \<^verbatim>\<open>ggml_build_forward_expand\<close> returns.\<close>

lemma build_returned:
  assumes "heap_ok T" "T = st_tensors s" "graph_ok T g" "flags_closed {} T" "tensor \<in> dom T"
    and "n_nodes g \<le> cg_size g" "n_leafs g \<le> cg_size g" "ggml_build_forward_expand g s tensor = Some (g', s')"
  obtains T' ns ls u v where "s' = s\<lparr>st_tensors := T'\<rparr>" "heap_touched T T'" "graph_ok T' g'" "flags_closed {} T'"
    "g' = g\<lparr>cg_nodes := cg_nodes g @ ns, cg_leafs := cg_leafs g @ ls, cg_use_counts := u, cg_visited := v\<rparr>"
    "hs_size v = hs_size (cg_visited g)" "\<forall>p \<in> seen g. member_slot v p = member_slot (cg_visited g) p"
    "n_nodes g' \<le> cg_size g'" "n_leafs g' \<le> cg_size g'" "tensor \<in> finished g'"
proof -
  obtain pos where run: "ggml_visit_parents_graph g s tensor True = Some (pos, g', s')"
    using assms(8) by (auto simp: ggml_build_forward_expand_def ggml_build_forward_impl_def Option.bind_eq_Some_conv split: if_splits)
  have w: "walked T (g, s) (g', s') \<and> tensor \<in> seen g'"
    by (rule walk_okD [OF visit_walk_ok [OF assms(1)] run graph_ok_sized [OF assms(3,6,7)]]) (simp add: assms(2))
  have room: "has_room T (finished g \<union> reach T tensor) g" using walked_room [OF assms(1,3)] w by blast
  obtain T' where T': "ggml_build_forward_impl g s tensor True True = Some (g', s\<lparr>st_tensors := T'\<rparr>)"
    "heap_touched T T'" "graph_ok T' g'" "flags_closed {} T'" "s' = s\<lparr>st_tensors := T'\<rparr>"
    using build_forward_impl_correct [OF assms(1-5) room, of True "\<exists>T'. ggml_build_forward_impl g s tensor True True = Some (g', s\<lparr>st_tensors := T'\<rparr>)
      \<and> heap_touched T T' \<and> graph_ok T' g' \<and> flags_closed {} T' \<and> s' = s\<lparr>st_tensors := T'\<rparr>"] assms(8)
    by (auto simp: ggml_build_forward_expand_def)
  have rd: "ready {} {} (finished g \<union> reach T tensor) T g s"
    using assms(1-4) room graph_ok_seen [OF assms(3)] by (auto simp: ready_def room_def has_room_def graph_ok_def)
  have "visit_ok {} {} True T tensor g s" using visit_correct [OF assms(1) rd assms(5)] by simp
  then have v: "visits {} {} True T {tensor} (\<lambda>_. 0) (g, s) (g', s')" using run unfolding visit_ok_def by auto
  obtain ns ls u v where fr: "g' = g\<lparr>cg_nodes := cg_nodes g @ ns, cg_leafs := cg_leafs g @ ls, cg_use_counts := u, cg_visited := v\<rparr>"
    "hs_size v = hs_size (cg_visited g)" using visits_graph(1) [OF v] by blast
  have "\<forall>p \<in> seen g. member_slot v p = member_slot (cg_visited g) p" using visits_graph(3) [OF v] fr(1) by simp
  moreover have "n_nodes g' \<le> cg_size g'" "n_leafs g' \<le> cg_size g'" using w by (auto simp: walked_def sized_def)
  moreover have "tensor \<in> finished g'" using w graph_ok_seen [OF T'(3)] by blast
  ultimately show thesis using that [OF T'(5,2-4) fr] by blast
qed

lemma record_grad_step:
  assumes "record_grad (g, s) i src p = Some (g', s')" "bw_inv (g, s)"
  shows "bw_step {i} (g, s) (g', s')"
proof -
  obtain g1 ts tp where 1: "set_grad g i p = Some g1" "deref s src = Some ts" "deref s p = Some tp"
    and b: "ggml_build_forward_expand g1 (ggml_format_name s p (''grad for '' @ t_name ts)) p = Some (g', s')"
    using assms(1) by (auto simp: record_grad_def Option.bind_eq_Some_conv)
  define s1 where "s1 = ggml_format_name s p (''grad for '' @ t_name ts)"
  have str: "''grad for '' @ t_name ts \<noteq> ''''" by simp
  note rn = rename_props [where s = s and p = p and str = "''grad for '' @ t_name ts", OF str, folded s1_def]
  have inv: "ctx_inv s" "graph_ok (st_tensors s) g" "flags_closed {} (st_tensors s)" "n_nodes g \<le> cg_size g" "n_leafs g \<le> cg_size g"
    "grad_arrays (st_tensors s) g" using assms(2) by (simp_all add: bw_inv_def)
  obtain grads where gr: "cg_grads g = Some grads" "i < length grads" "g1 = g\<lparr>cg_grads := Some (grads[i := p])\<rparr>"
    using 1(1) by (auto simp: set_grad_def array_set_def Option.bind_eq_Some_conv split: if_splits)
  have pd: "p \<in> dom (st_tensors s)" using 1(3) by (auto simp: deref_def)
  have h1: "heap_ok (st_tensors s1)" using rename_heap_ok [OF bw_inv_ctx(2) [OF assms(2)]] by (simp add: s1_def)
  have ok1: "graph_ok (st_tensors s1) g1"
    unfolding gr(3) graph_ok_arrays by (rule graph_ok_mono [OF inv(2)]) (auto simp: rn(1,2,5) intro: rn(6))
  have fc1: "flags_closed {} (st_tensors s1)" using inv(3) by (simp add: flags_closed_def rn(1-4))
  have sz1: "n_nodes g1 \<le> cg_size g1" "n_leafs g1 \<le> cg_size g1" using inv(4,5) by (simp_all add: gr(3) n_nodes_def n_leafs_def)
  have pd1: "p \<in> dom (st_tensors s1)" using pd by (simp add: rn(5))
  obtain T' ns ls u v where r: "s' = s1\<lparr>st_tensors := T'\<rparr>" "heap_touched (st_tensors s1) T'" "graph_ok T' g'" "flags_closed {} T'"
    and fr: "g' = g1\<lparr>cg_nodes := cg_nodes g1 @ ns, cg_leafs := cg_leafs g1 @ ls, cg_use_counts := u, cg_visited := v\<rparr>"
    "hs_size v = hs_size (cg_visited g1)" "\<forall>p \<in> seen g1. member_slot v p = member_slot (cg_visited g1) p"
    and sz: "n_nodes g' \<le> cg_size g'" "n_leafs g' \<le> cg_size g'" and pf: "p \<in> finished g'"
    by (rule build_returned [OF h1 refl ok1 fc1 pd1 sz1 b [folded s1_def]])
  have dT: "dom T' = dom (st_tensors s)" using heap_touched_static(4) [OF r(2)] rn(5) by simp
  have s': "s' = s\<lparr>st_tensors := T'\<rparr>" by (subst r(1), subst rn(8)) simp
  have ci: "ctx_inv s'" unfolding s' by (rule ctx_inv_tensors [OF inv(1) heap_touched_ok [OF r(2) h1] dT])
  have hm: "heap_marked (st_tensors s) T'" using heap_marked_trans [OF rn(7) touched_marked [OF r(2)]] .
  have "st_tensors s 0 = None" using bw_inv_ctx(2) [OF assms(2)] by (simp add: heap_ok_def)
  then have p0: "p \<noteq> 0" using pd by (cases "p = 0") auto
  obtain accs where ac: "cg_grad_accs g = Some accs" "length grads = hs_size (cg_visited g)" "length accs = hs_size (cg_visited g)"
    "set grads \<subseteq> insert 0 (dom (st_tensors s))" "set accs \<subseteq> insert 0 (dom (st_tensors s))"
    using inv(6) gr(1) by (auto simp: grad_arrays_def)
  have "set (grads[i := p]) \<subseteq> insert 0 (dom T')" using set_update_subset_insert [of grads i p] ac(4) pd dT by blast
  then have ga: "grad_arrays T' g'"
    using ac fr(2) dT by (simp add: grad_arrays_def fr(1) gr(3))
  have gat: "grad_at g' j = (if j = i then Some p else grad_at g j)" for j
    using gr fr(1) by (simp add: grad_at_def array_get_def)
  have "bw_inv (g', s')" using ci r(3,4) sz ga by (simp add: bw_inv_def s')
  then show ?thesis
    using hm fr(3) p0 pf unfolding bw_step_def prod.case gat by (simp add: s' fr(1,2) gr(3))
qed

end
