(* ===== verification/GGML_BackwardSafe.thy ===== *)
theory GGML_BackwardSafe
  imports GGML_BackwardStep
begin

text \<open>
  Every case of the backward pass is a sequence of the steps of \<open>GGML_BackwardStep\<close>. \<open>builds\<close> and \<open>safe\<close>
  say so for a part of the code that creates tensors and for one that stores gradients; their rules
  follow the structure of the code, \<open>A\<close> being the tensors that the code may use.
\<close>

section \<open>Code that creates tensors\<close>

definition builds :: "ptr set \<Rightarrow> ggml_state \<Rightarrow> built \<Rightarrow> bool" where
  "builds A s m \<longleftrightarrow> (ctx_inv s \<longrightarrow> A \<subseteq> insert 0 (dom (st_tensors s)) \<longrightarrow>
     (\<forall>r s'. m = Some (r, s') \<longrightarrow> (s' = s \<or> (\<exists>q. adds s q s')) \<and> r \<in> insert 0 (dom (st_tensors s'))))"

lemma builds_call:
  assumes "\<And>r s'. m = Some (r, s') \<Longrightarrow> ctx_inv s \<Longrightarrow> valid_args s ps \<Longrightarrow> adds s r s'" "set ps \<subseteq> A"
  shows "builds A s m"
  unfolding builds_def
proof (intro impI allI)
  fix r s' assume a: "ctx_inv s" "A \<subseteq> insert 0 (dom (st_tensors s))" "m = Some (r, s')"
  have "valid_args s ps" using a(2) assms(2) unfolding valid_args_def by (rule order_trans [rotated])
  then have "adds s r s'" using assms(1) a by blast
  then show "(s' = s \<or> (\<exists>q. adds s q s')) \<and> r \<in> insert 0 (dom (st_tensors s'))" by (auto simp: adds_def)
qed

lemma adds_dom: "adds s q s' \<Longrightarrow> dom (st_tensors s) \<subseteq> dom (st_tensors s')"
  unfolding adds_def using heap_marked_dom extends_marked by blast

lemma builds_bind:
  assumes "builds A s m" "\<And>r s'. builds (insert r A) s' (k r s')"
  shows "builds A s (Option.bind m (\<lambda>(r, s'). k r s'))"
  unfolding builds_def
proof (intro impI allI)
  fix r' s'' assume a: "ctx_inv s" "A \<subseteq> insert 0 (dom (st_tensors s))" "Option.bind m (\<lambda>(r, s'). k r s') = Some (r', s'')"
  obtain r s' where m: "m = Some (r, s')" "k r s' = Some (r', s'')" using a(3) by (auto simp: Option.bind_eq_Some_conv)
  have 1: "s' = s \<or> (\<exists>q. adds s q s')" "r \<in> insert 0 (dom (st_tensors s'))"
    using assms(1) a(1,2) m(1) unfolding builds_def by auto
  have inv: "ctx_inv s'" using 1(1) a(1) adds_inv by auto
  have "dom (st_tensors s) \<subseteq> dom (st_tensors s')" using 1(1) adds_dom by blast
  then have "insert r A \<subseteq> insert 0 (dom (st_tensors s'))" using a(2) 1(2) by blast
  then have 2: "s'' = s' \<or> (\<exists>q. adds s' q s'')" "r' \<in> insert 0 (dom (st_tensors s''))"
    using assms(2) [of r s'] inv m(2) unfolding builds_def by auto
  then show "(s'' = s \<or> (\<exists>q. adds s q s'')) \<and> r' \<in> insert 0 (dom (st_tensors s''))" using 1(1) adds_trans by blast
qed

lemma builds_opt: "(\<And>x. builds A s (k x)) \<Longrightarrow> builds A s (Option.bind m k)"
  unfolding builds_def by (cases m) auto

lemma builds_Some: "r \<in> A \<Longrightarrow> builds A s (Some (r, s))"
  unfolding builds_def by auto

lemma builds_None: "builds A s None"
  by (simp add: builds_def)

lemma builds_if: "(b \<Longrightarrow> builds A s m) \<Longrightarrow> (\<not> b \<Longrightarrow> builds A s n) \<Longrightarrow> builds A s (if b then m else n)"
  by simp

named_theorems build_rules "code that creates tensors"

lemmas [build_rules] = builds_bind builds_Some builds_None builds_if

lemma builds_ops1 [build_rules]:
  assumes "a \<in> A"
  shows "builds A s (ggml_mean s a)" "builds A s (ggml_scale_impl s a x y inplace)"
    "builds A s (ggml_sin s a)" "builds A s (ggml_cos s a)" "builds A s (ggml_neg s a)" "builds A s (ggml_sgn s a)"
    "builds A s (ggml_step s a)" "builds A s (ggml_exp s a)" "builds A s (ggml_sigmoid s a)" "builds A s (ggml_silu s a)"
    "builds A s (ggml_cont s a)" "builds A s (ggml_transpose s a)" "builds A s (ggml_permute s a i0 i1 i2 i3)"
    "builds A s (ggml_diag_mask_zero_impl s a n inplace)" "builds A s (ggml_view_4d s a n0 n1 n2 n3 b1 b2 b3 offs)"
  using assms
  by (auto intro!: builds_call [where ps = "[a]"] intro: node_adds
      simp: ggml_sin_def ggml_cos_def ggml_neg_def ggml_sgn_def ggml_step_def ggml_exp_def ggml_sigmoid_def
        ggml_silu_def ggml_unary_def)

lemma builds_ops2 [build_rules]:
  assumes "a \<in> A" "b \<in> A"
  shows "builds A s (ggml_mul s a b)" "builds A s (ggml_div s a b)"
    "builds A s (ggml_repeat_back s a b)" "builds A s (ggml_reshape s a b)" "builds A s (ggml_out_prod s a b)"
    "builds A s (ggml_silu_back s a b)" "builds A s (ggml_rms_norm_back s a b eps)"
    "builds A s (ggml_soft_max_ext_back s a b x y)" "builds A s (ggml_add_impl s a b inplace)"
    "builds A s (ggml_sub_impl s a b inplace)" "builds A s (ggml_add1_impl s a b inplace)"
    "builds A s (ggml_acc_impl s a b nb1 nb2 nb3 offset inplace)"
    "builds A s (ggml_pool_2d_back fl s a b op k0 k1 s0 s1 p0 p1)"
  using assms
  by (auto intro!: builds_call [where ps = "[a, b]"] intro: node_adds
      simp: ggml_mul_def ggml_div_def ggml_soft_max_ext_back_def)

lemma builds_ops3 [build_rules]:
  assumes "a \<in> A" "b \<in> A" "c \<in> A"
  shows "builds A s (ggml_get_rows_back s a b c)" "builds A s (ggml_cross_entropy_loss_back s a b c)"
    "builds A s (ggml_rope_ext_back s a b c n_dims mode n_ctx_orig x1 x2 x3 x4 x5 x6)"
    "builds A s (ggml_rope_multi_back s a b c n_dims sections mode n_ctx_orig x1 x2 x3 x4 x5 x6)"
  using assms by (auto intro!: builds_call [where ps = "[a, b, c]"] intro: node_adds)

lemma builds_im2col_back [build_rules]:
  "a \<in> A \<Longrightarrow> b \<in> A \<Longrightarrow> length ne = GGML_MAX_DIMS \<Longrightarrow> builds A s (ggml_im2col_back s a b ne s0 s1 p0 p1 d0 d1 is_2D)"
  by (auto intro!: builds_call [where ps = "[a, b]"] intro: node_adds)

section \<open>Code that stores gradients\<close>

definition locals_of :: "backward_locals \<Rightarrow> ptr set" where
  "locals_of e = {bw_tensor e, bw_grad e, bw_src0 e, bw_src1 e, bw_src2 e}"

definition grad_slots :: "backward_locals \<Rightarrow> nat set" where
  "grad_slots e = {i. src0_needs_grads e \<and> i = bw_isrc0 e \<or> src1_needs_grads e \<and> i = bw_isrc1 e
     \<or> src2_needs_grads e \<and> i = bw_isrc2 e}"

definition safe :: "backward_locals \<Rightarrow> ptr set \<Rightarrow> graph_state \<Rightarrow> graph_state option \<Rightarrow> bool" where
  "safe e A gs m \<longleftrightarrow> (bw_inv gs \<longrightarrow> A \<union> locals_of e \<subseteq> insert 0 (dom (st_tensors (snd gs))) \<longrightarrow>
     (\<forall>gs'. m = Some gs' \<longrightarrow> bw_step (grad_slots e) gs gs'))"

named_theorems safe_rules "code that stores gradients"

lemma safe_opt: "(\<And>x. safe e A gs (k x)) \<Longrightarrow> safe e A gs (Option.bind m k)"
  unfolding safe_def by (cases m) auto

lemma safe_deref [safe_rules]:
  "(\<And>t. tensor_wf t \<Longrightarrow> safe e A (g, s) (k t)) \<Longrightarrow> safe e A (g, s) (Option.bind (deref s p) k)"
proof (cases "deref s p")
  case (Some t)
  assume k: "\<And>t. tensor_wf t \<Longrightarrow> safe e A (g, s) (k t)"
  have "tensor_wf t" if "bw_inv (g, s)" using bw_inv_ctx(2) [OF that] Some by (auto simp: heap_ok_def deref_def)
  then show ?thesis using k [of t] unfolding safe_def Some by (metis Option.bind.bind_lunit)
qed (simp add: safe_def)

lemma safe_Some [safe_rules]: "safe e A gs (Some gs)"
  unfolding safe_def using bw_step_mono [OF bw_step_refl, of "fst gs" "snd gs" "grad_slots e"] by simp

lemma safe_None [safe_rules]: "safe e A gs None"
  by (simp add: safe_def)

lemma safe_if [safe_rules]:
  "(b \<Longrightarrow> safe e A gs m) \<Longrightarrow> (\<not> b \<Longrightarrow> safe e A gs n) \<Longrightarrow> safe e A gs (if b then m else n)"
  by simp

lemma safe_prod: "(\<And>a b. safe e A gs (f a b)) \<Longrightarrow> safe e A gs (case x of (a, b) \<Rightarrow> f a b)"
  by (cases x) simp

lemma safe_when [safe_rules]: "(b \<Longrightarrow> safe e A gs (body gs)) \<Longrightarrow> safe e A gs (when_needed b body gs)"
  unfolding when_needed_def by (simp add: safe_Some)

lemma step_dom: "bw_step D (g, s) (g', s') \<Longrightarrow> dom (st_tensors s) \<subseteq> dom (st_tensors s')"
  using bw_stepD(2) heap_marked_dom by blast

lemma safe_bind [safe_rules]:
  assumes "safe e A gs m" "\<And>g' s'. safe e A (g', s') (k (g', s'))"
  shows "safe e A gs (Option.bind m k)"
  unfolding safe_def
proof (intro impI allI)
  fix gs'' assume a: "bw_inv gs" "A \<union> locals_of e \<subseteq> insert 0 (dom (st_tensors (snd gs)))" "Option.bind m k = Some gs''"
  obtain gs' where m: "m = Some gs'" "k gs' = Some gs''" using a(3) by (auto simp: Option.bind_eq_Some_conv)
  obtain g s g' s' g'' s'' where e: "gs = (g, s)" "gs' = (g', s')" "gs'' = (g'', s'')" by (metis surj_pair)
  have 1: "bw_step (grad_slots e) (g, s) (g', s')" using assms(1) a(1,2) m(1) unfolding safe_def e by blast
  have "A \<union> locals_of e \<subseteq> insert 0 (dom (st_tensors s'))" using step_dom [OF 1] a(2) unfolding e snd_conv by blast
  then have "bw_step (grad_slots e) (g', s') (g'', s'')"
    using assms(2) [of g' s'] bw_stepD(1) [OF 1] m(2) unfolding safe_def e snd_conv by blast
  then show "bw_step (grad_slots e) gs gs''" using bw_step_trans [OF 1, of "grad_slots e"] a(1) unfolding e Un_absorb by blast
qed

lemma safe_build [safe_rules]:
  assumes "builds (A \<union> locals_of e) s m" "\<And>r s'. safe e (insert r A) (g, s') (k r s')"
  shows "safe e A (g, s) (Option.bind m (\<lambda>(r, s'). k r s'))"
  unfolding safe_def snd_conv
proof (intro impI allI)
  fix gs' assume a: "bw_inv (g, s)" "A \<union> locals_of e \<subseteq> insert 0 (dom (st_tensors s))" "Option.bind m (\<lambda>(r, s'). k r s') = Some gs'"
  obtain r s' where m: "m = Some (r, s')" "k r s' = Some gs'" using a(3) by (auto simp: Option.bind_eq_Some_conv)
  have 1: "s' = s \<or> (\<exists>q. adds s q s')" "r \<in> insert 0 (dom (st_tensors s'))"
    using assms(1) bw_inv_ctx(1) [OF a(1)] a(2) m(1) unfolding builds_def by auto
  have st: "bw_step {} (g, s) (g, s')" using 1(1) bw_step_refl [OF a(1)] adds_step [OF _ a(1)] by blast
  have "insert r A \<union> locals_of e \<subseteq> insert 0 (dom (st_tensors s'))" using step_dom [OF st] a(2) 1(2) by blast
  then have "bw_step (grad_slots e) (g, s') gs'"
    using assms(2) [of r s'] bw_stepD(1) [OF st] m(2) unfolding safe_def snd_conv by blast
  then show "bw_step (grad_slots e) (g, s) gs'"
    using bw_step_trans [OF st _ a(1)] by (cases gs') auto
qed

lemma safe_record:
  assumes "i \<in> grad_slots e" shows "safe e A (g, s) (record_grad (g, s) i src p)"
  unfolding safe_def using record_grad_step [of g s i src p] bw_step_mono [of "{i}" _ _ "grad_slots e"] assms by auto

text \<open>The four functions that store a gradient; the gradient that is there is a tensor or \<^verbatim>\<open>NULL\<close>.\<close>

lemma safe_grad_at:
  assumes "\<And>p. safe e (insert p A) (g, s) (k p)" shows "safe e A (g, s) (Option.bind (grad_at g i) k)"
  unfolding safe_def
proof (intro impI allI)
  fix gs' assume a: "bw_inv (g, s)" "A \<union> locals_of e \<subseteq> insert 0 (dom (st_tensors (snd (g, s))))" "Option.bind (grad_at g i) k = Some gs'"
  obtain p where p: "grad_at g i = Some p" "k p = Some gs'" using a(3) by (auto simp: Option.bind_eq_Some_conv)
  obtain grads where gr: "cg_grads g = Some grads" "set grads \<subseteq> insert 0 (dom (st_tensors s))"
    using a(1) unfolding bw_inv_def grad_arrays_def by blast
  then have "p \<in> set grads" using p(1) by (auto simp: grad_at_def array_get_def split: if_splits)
  then have "p \<in> insert 0 (dom (st_tensors s))" using gr(2) by blast
  then show "bw_step (grad_slots e) (g, s) gs'" using assms [of p] a(1,2) p(2) unfolding safe_def by auto
qed

lemma builds_any [build_rules]:
  "builds A s (ggml_scale s a x)" "a \<in> A \<Longrightarrow> builds A s (ggml_repeat s a b)"
proof -
  have "adds s r s'" if "ggml_scale s a x = Some (r, s')" "ctx_inv s" for r s'
  proof -
    have "valid_args s [a]" using that(1) by (auto simp: ggml_scale_def ggml_scale_impl_def deref_def Option.bind_eq_Some_conv)
    with that show ?thesis unfolding ggml_scale_def by (rule ggml_scale_impl_adds)
  qed
  then show "builds A s (ggml_scale s a x)" by (intro builds_call [where ps = "[]"]) auto
  have "adds s r s'" if "ggml_repeat s a b = Some (r, s')" "ctx_inv s" "valid_args s [a]" for r s'
  proof -
    have "valid_args s [a, b]" using that(1,3) by (auto simp: ggml_repeat_def deref_def Option.bind_eq_Some_conv)
    with that(1,2) show ?thesis by (rule ggml_repeat_adds)
  qed
  then show "builds A s (ggml_repeat s a b)" if "a \<in> A" by (intro builds_call [where ps = "[a]"]) (auto simp: that)
qed

lemma safe_or_set:
  assumes "i \<in> grad_slots e" "t \<in> A \<union> locals_of e"
  shows "safe e A (g, s) (ggml_add_or_set (g, s) i t)" "safe e A (g, s) (ggml_acc_or_set (g, s) i t nb1 nb2 nb3 offset)"
    "safe e A (g, s) (ggml_add1_or_set (g, s) i t)" "safe e A (g, s) (ggml_sub_or_set (g, s) i t)"
  unfolding ggml_add_or_set_def ggml_acc_or_set_def ggml_add1_or_set_def ggml_sub_or_set_def Let_def prod.case
  by (rule safe_opt [where m = "key_at g i"] safe_opt [where m = "ggml_assert x" for x] safe_grad_at safe_build safe_record assms(1)
      | rule build_rules | rule builds_opt | simp add: assms(2) [simplified])+

lemma safe_stores [safe_rules]:
  assumes "t \<in> A \<union> locals_of e"
  shows "src0_needs_grads e \<Longrightarrow> safe e A (g, s) (ggml_add_or_set (g, s) (bw_isrc0 e) t)"
    "src1_needs_grads e \<Longrightarrow> safe e A (g, s) (ggml_add_or_set (g, s) (bw_isrc1 e) t)"
    "src0_needs_grads e \<Longrightarrow> safe e A (g, s) (ggml_acc_or_set (g, s) (bw_isrc0 e) t nb1 nb2 nb3 offset)"
    "src0_needs_grads e \<Longrightarrow> safe e A (g, s) (ggml_add1_or_set (g, s) (bw_isrc0 e) t)"
    "src0_needs_grads e \<Longrightarrow> safe e A (g, s) (ggml_sub_or_set (g, s) (bw_isrc0 e) t)"
    "src1_needs_grads e \<Longrightarrow> safe e A (g, s) (ggml_sub_or_set (g, s) (bw_isrc1 e) t)"
  using assms by (auto intro!: safe_or_set simp: grad_slots_def)

section \<open>The cases\<close>

text \<open>The parts that create a gradient.\<close>

lemma locals_in [simp]:
  "bw_tensor e \<in> locals_of e" "bw_grad e \<in> locals_of e" "bw_src0 e \<in> locals_of e" "bw_src1 e \<in> locals_of e"
  "bw_src2 e \<in> locals_of e"
  by (simp_all add: locals_of_def)

lemma builds_parts [build_rules]:
  "tmp \<in> A \<Longrightarrow> locals_of e \<subseteq> A \<Longrightarrow> builds A s (reduce_to_src s e tmp)"
  "locals_of e \<subseteq> A \<Longrightarrow> builds A s (grad_window s e)"
  "locals_of e \<subseteq> A \<Longrightarrow> builds A s (rope_grad s e)"
  "locals_of e \<subseteq> A \<Longrightarrow> builds A s (unary_grad uop s e)"
  "locals_of e \<subseteq> A \<Longrightarrow> builds A s (mul_mat_grad0 s e)"
proof -
  have l: "bw_tensor e \<in> A" "bw_grad e \<in> A" "bw_src0 e \<in> A" "bw_src1 e \<in> A" "bw_src2 e \<in> A" if "locals_of e \<subseteq> A"
    using that by (auto simp: locals_of_def)
  show "builds A s (reduce_to_src s e tmp)" if "tmp \<in> A" "locals_of e \<subseteq> A"
    unfolding reduce_to_src_def by (rule build_rules builds_opt that(1) l [OF that(2)])+
  show "builds A s (grad_window s e)" if "locals_of e \<subseteq> A"
    unfolding grad_window_def by (rule build_rules builds_opt l [OF that])+
  show "builds A s (rope_grad s e)" if "locals_of e \<subseteq> A"
    unfolding rope_grad_def Let_def by (rule build_rules builds_opt l [OF that])+
  have "builds A s (mul_of f s (bw_src0 e) (bw_grad e) b)"
    if "locals_of e \<subseteq> A" "builds A s (f s (bw_src0 e))" for f b
    unfolding mul_of_def by (rule build_rules that(2) insertI1 insertI2 l [OF that(1)])+
  then show "builds A s (unary_grad uop s e)" if "locals_of e \<subseteq> A"
    unfolding unary_grad_def by (cases uop) (simp_all add: that l [OF that] build_rules)
  show "builds A s (mul_mat_grad0 s e)" if "locals_of e \<subseteq> A"
    unfolding mul_mat_grad0_def Let_def by (rule build_rules insertI1 insertI2 l [OF that] | rule builds_opt)+
qed

text \<open>The first group of operations, up to the matrix product.\<close>

lemma safe_cases1 [safe_rules]:
  "safe e A (g, s) (backward_dup e (g, s))" "safe e A (g, s) (backward_add e (g, s))" "safe e A (g, s) (backward_add1 e (g, s))"
  "safe e A (g, s) (backward_sub e (g, s))" "safe e A (g, s) (backward_mul e (g, s))" "safe e A (g, s) (backward_div e (g, s))"
  "safe e A (g, s) (backward_sqr e (g, s))" "safe e A (g, s) (backward_sqrt e (g, s))" "safe e A (g, s) (backward_log e (g, s))"
  "safe e A (g, s) (backward_sin e (g, s))" "safe e A (g, s) (backward_cos e (g, s))" "safe e A (g, s) (backward_sum e (g, s))"
  "safe e A (g, s) (backward_sum_rows e (g, s))" "safe e A (g, s) (backward_repeat e (g, s))"
  "safe e A (g, s) (backward_mean fl e (g, s))" "safe e A (g, s) (backward_rms_norm e (g, s))"
  "safe e A (g, s) (backward_mul_mat e (g, s))"
  unfolding backward_dup_def backward_add_def backward_add1_def backward_sub_def backward_mul_def backward_div_def backward_sqr_def
    backward_sqrt_def backward_log_def backward_sin_def backward_cos_def backward_sum_def backward_sum_rows_def backward_repeat_def
    backward_mean_def backward_rms_norm_def backward_mul_mat_def
  by (rule safe_rules | rule safe_opt | rule build_rules | rule subset_insertI2 | simp)+

lemma safe_window: "v \<in> A \<union> locals_of e \<Longrightarrow> src1_needs_grads e \<Longrightarrow> safe e A (g, s) (window_to_src1 e v (g, s))"
  unfolding window_to_src1_def Let_def prod.case
  by (rule safe_rules | rule build_rules | simp)+

lemma safe_set: "safe e A (g, s) (backward_set e (g, s))"
proof -
  have rest: "safe e A (g, s) (do {
     gs \<leftarrow> when_needed (src0_needs_grads e) (\<lambda>(g, s). do {
       (tmp, s) \<leftarrow> ggml_neg s v;
       (p, s) \<leftarrow> ggml_acc_impl s (bw_grad e) tmp n1 n2 n3 n4 False;
       ggml_add_or_set (g, s) (bw_isrc0 e) p }) (g, s);
     when_needed (src1_needs_grads e) (window_to_src1 e v) gs })" if "v \<in> A" for v n1 n2 n3 n4 g s A
    by (rule safe_rules safe_window | rule build_rules | simp add: that)+
  show ?thesis
  proof (cases "src0_needs_grads e \<or> src1_needs_grads e")
    case True
    then have "backward_set e (g, s) = do {
       t \<leftarrow> deref s (bw_tensor e);
       _ \<leftarrow> set_checks e (g, s);
       (v, s) \<leftarrow> grad_window s e;
       gs \<leftarrow> when_needed (src0_needs_grads e) (\<lambda>(g, s). do {
         (tmp, s) \<leftarrow> ggml_neg s v;
         (p, s) \<leftarrow> ggml_acc_impl s (bw_grad e) tmp (param_sz t 0) (param_sz t 1) (param_sz t 2) (param_sz t 3) False;
         ggml_add_or_set (g, s) (bw_isrc0 e) p }) (g, s);
       when_needed (src1_needs_grads e) (window_to_src1 e v) gs }"
      by (simp add: backward_set_def case_prod_unfold)
    then show ?thesis by (simp only:) (rule safe_opt safe_build builds_parts(2) rest insertI1 Un_upper2)+
  next
    case False
    then show ?thesis
      unfolding backward_set_def by (rule_tac safe_opt) (simp add: when_needed_def safe_Some)
  qed
qed

text \<open>The second group.\<close>

lemma safe_cases2 [safe_rules]:
  "safe e A (g, s) (backward_acc e (g, s))"
  "safe e A (g, s) (backward_scale e (g, s))" "safe e A (g, s) (backward_cpy e (g, s))" "safe e A (g, s) (backward_cont e (g, s))"
  "safe e A (g, s) (backward_reshape e (g, s))" "safe e A (g, s) (backward_view e (g, s))"
  "safe e A (g, s) (backward_permute e (g, s))" "safe e A (g, s) (backward_transpose e (g, s))"
  "safe e A (g, s) (backward_get_rows e (g, s))" "safe e A (g, s) (backward_diag_mask e (g, s))"
  "safe e A (g, s) (backward_soft_max e (g, s))" "safe e A (g, s) (backward_rope e (g, s))"
  "safe e A (g, s) (backward_im2col e (g, s))" "safe e A (g, s) (backward_pool_2d fl e (g, s))"
  "safe e A (g, s) (backward_unary e (g, s))" "safe e A (g, s) (backward_cross_entropy_loss e (g, s))"
  "safe e A (g, s) (backward_glu e (g, s))"
  unfolding backward_acc_def backward_scale_def backward_cpy_def backward_cont_def backward_reshape_def backward_view_def
    backward_permute_def backward_transpose_def backward_get_rows_def backward_diag_mask_def backward_soft_max_def
    backward_rope_def backward_im2col_def backward_pool_2d_def backward_unary_def backward_cross_entropy_loss_def backward_glu_def Let_def
  by (rule safe_rules safe_window | rule safe_opt | rule build_rules | rule subset_insertI2 | rule conjI impI | simp add: tensor_wf_def | rule safe_prod)+

lemma safe_op: "safe e A (g, s) (backward_op fl op e (g, s))"
  by (cases op) (simp_all add: safe_rules safe_set)

end
