(* ===== verification/GGML_BackwardOk.thy ===== *)
theory GGML_BackwardOk
  imports GGML_BackwardSafe
begin

text \<open>
  The backward pass as a whole. A tensor needs a gradient if it is a parameter or the loss, or if
  its operation passes a gradient on to a source that needs one (\<open>needs_grad\<close>). The theorems state
  that \<^verbatim>\<open>ggml_build_backward_expand\<close>, when it returns, has kept the graph complete and ordered, that
  only tensors that need one have got a gradient, of their own shape, and that no gradient is
  missing along the way from the loss to the parameters.
\<close>

section \<open>Gradients by tensor\<close>

lemma find_member:
  assumes "hs_inv hs"
  obtains i where "ggml_hash_find hs key = Some i"
    "if i \<noteq> GGML_HASHSET_FULL \<and> ggml_bitset_get (hs_used hs) i then member_slot hs key = Some i else member_slot hs key = None"
proof (cases "slot_of hs key")
  case None
  then have "ggml_hash_find hs key = Some GGML_HASHSET_FULL" "member_slot hs key = None"
    by (simp_all add: ggml_hash_find_eq [OF assms] member_slot_def)
  then show thesis using that by simp
next
  case (Some i)
  note s = slot_of_Some [OF assms Some]
  have "i \<noteq> GGML_HASHSET_FULL" using hs_invD(7) [OF assms s(1)] .
  then show thesis using that [of i] s(2,3) Some by (simp add: ggml_hash_find_eq [OF assms] member_slot_def)
qed

lemma seen_slot:
  assumes "hs_inv hs" "p \<in> hs_set hs" obtains i where "member_slot hs p = Some i"
  using hash_find_member [OF assms] that by blast

definition grad_of :: "ggml_cgraph \<Rightarrow> ptr \<Rightarrow> ptr" where
  "grad_of g p = (case member_slot (cg_visited g) p of None \<Rightarrow> 0 | Some i \<Rightarrow> the (grad_at g i))"

lemma bw_inv_hash: "bw_inv (g, s) \<Longrightarrow> hs_inv (cg_visited g)"
  by (auto simp: bw_inv_def graph_ok_def graph_inv_def)

lemma bw_inv_grads:
  assumes "bw_inv (g, s)" obtains grads where "cg_grads g = Some grads" "length grads = hs_size (cg_visited g)"
  using assms by (auto simp: bw_inv_def grad_arrays_def)

lemma bw_inv_grad_at:
  assumes "bw_inv (g, s)" "member_slot (cg_visited g) p = Some i"
  shows "grad_at g i = Some (grad_of g p)"
proof -
  obtain grads where g: "cg_grads g = Some grads" "length grads = hs_size (cg_visited g)" by (rule bw_inv_grads [OF assms(1)])
  have "i < hs_size (cg_visited g)" using hash.slot_less [OF bw_inv_hash [OF assms(1)] assms(2)] .
  then show ?thesis using g assms(2) by (simp add: grad_of_def grad_at_def array_get_def)
qed

lemma get_grad_eq:
  assumes "bw_inv (g, s)" shows "ggml_graph_get_grad g p = Some (grad_of g p)"
proof -
  obtain grads where g: "cg_grads g = Some grads" "length grads = hs_size (cg_visited g)" by (rule bw_inv_grads [OF assms])
  obtain i where i: "ggml_hash_find (cg_visited g) p = Some i"
    "if i \<noteq> GGML_HASHSET_FULL \<and> ggml_bitset_get (hs_used (cg_visited g)) i
     then member_slot (cg_visited g) p = Some i else member_slot (cg_visited g) p = None"
    by (rule find_member [OF bw_inv_hash [OF assms]])
  then show ?thesis
    using bw_inv_grad_at [OF assms, of p i] g(1)
    by (auto simp: ggml_graph_get_grad_def slot_entry_def grad_of_def grad_at_def split: if_splits)
qed

lemma backward_src_eq:
  assumes "bw_inv (g, s)" "length needed = hs_size (cg_visited g)"
    and "backward_src g needed src = Some (i, b)"
  shows "b \<longleftrightarrow> src \<noteq> 0 \<and> (\<exists>j. member_slot (cg_visited g) src = Some j \<and> needed ! j)"
    "b \<Longrightarrow> member_slot (cg_visited g) src = Some i"
proof -
  obtain j where j: "ggml_hash_find (cg_visited g) src = Some j"
    "if j \<noteq> GGML_HASHSET_FULL \<and> ggml_bitset_get (hs_used (cg_visited g)) j
     then member_slot (cg_visited g) src = Some j else member_slot (cg_visited g) src = None"
    by (rule find_member [OF bw_inv_hash [OF assms(1)]])
  show "b \<longleftrightarrow> src \<noteq> 0 \<and> (\<exists>j. member_slot (cg_visited g) src = Some j \<and> needed ! j)"
    "b \<Longrightarrow> member_slot (cg_visited g) src = Some i"
    using assms(3) j by (auto simp: backward_src_def array_get_def split: if_splits)
qed

section \<open>The invariant of the gradients\<close>

text \<open>
  \<open>needed\<close> is the array \<^verbatim>\<open>grads_needed\<close>. Every recorded gradient belongs to a visited tensor that needs
  one and has its shape; gradients outside \<open>D\<close>, where the shapes have not been checked yet.
\<close>

definition wants :: "ggml_cgraph \<Rightarrow> bool list \<Rightarrow> ptr \<Rightarrow> bool" where
  "wants g needed p \<longleftrightarrow> (\<exists>i. member_slot (cg_visited g) p = Some i \<and> needed ! i)"

definition grad_fits :: "graph_state \<Rightarrow> bool list \<Rightarrow> nat \<Rightarrow> ptr \<Rightarrow> bool" where
  "grad_fits = (\<lambda>(g, s) needed i q. needed ! i \<and> (\<exists>p tp tq. member_slot (cg_visited g) p = Some i
     \<and> st_tensors s p = Some tp \<and> st_tensors s q = Some tq \<and> ggml_are_same_shape tp tq))"

definition grads_fit :: "graph_state \<Rightarrow> bool list \<Rightarrow> nat set \<Rightarrow> bool" where
  "grads_fit = (\<lambda>(g, s) needed D. \<forall>i q. grad_at g i = Some q \<and> q \<noteq> 0 \<and> i \<notin> D \<longrightarrow> grad_fits (g, s) needed i q)"

lemma slot_seen: "member_slot hs p = Some i \<Longrightarrow> p \<in> hs_set hs"
  by (auto simp: member_slot_def split: if_splits)

lemma grad_fits_step:
  assumes "bw_step D (g, s) (g', s')" "grad_fits (g, s) needed i q" shows "grad_fits (g', s') needed i q"
proof -
  obtain p tp tq where f: "needed ! i" "member_slot (cg_visited g) p = Some i" "st_tensors s p = Some tp" "st_tensors s q = Some tq"
    "ggml_are_same_shape tp tq" using assms(2) by (auto simp: grad_fits_def)
  note st = bw_stepD [OF assms(1)]
  obtain tp' tq' where t: "st_tensors s' p = Some tp'" "marked tp tp'" "st_tensors s' q = Some tq'" "marked tq tq'"
    using heap_markedD [OF st(2) f(3)] heap_markedD [OF st(2) f(4)] by metis
  have "ggml_are_same_shape tp' tq'" using f(5) marked_fields(2) [OF t(2)] marked_fields(2) [OF t(4)] by (simp add: ggml_are_same_shape_def)
  moreover have "member_slot (cg_visited g') p = Some i" using st(7) [OF slot_seen [OF f(2)]] f(2) by simp
  ultimately show ?thesis using f(1) t(1,3) by (auto simp: grad_fits_def)
qed

lemma grads_fit_step:
  assumes "bw_step D (g, s) (g', s')" "grads_fit (g, s) needed {}" shows "grads_fit (g', s') needed D"
  using bw_stepD(8) [OF assms(1)] assms(2) grad_fits_step [OF assms(1)] unfolding grads_fit_def by auto

lemma wants_step:
  assumes "bw_step D (g, s) (g', s')" "p \<in> seen g" shows "wants g' needed p = wants g needed p"
  using bw_stepD(7) [OF assms] by (simp add: wants_def)

lemma grad_of_step:
  assumes "bw_step D (g, s) (g', s')" "bw_inv (g, s)" "p \<in> seen g"
  shows "grad_of g p \<noteq> 0 \<Longrightarrow> grad_of g' p \<noteq> 0" "\<forall>i. member_slot (cg_visited g) p = Some i \<longrightarrow> i \<notin> D \<Longrightarrow> grad_of g' p = grad_of g p"
proof -
  obtain i where i: "member_slot (cg_visited g) p = Some i"
    using hash_find_member [OF bw_inv_hash [OF assms(2)] assms(3)] by blast
  have i': "member_slot (cg_visited g') p = Some i" using bw_stepD(7) [OF assms(1,3)] i by simp
  have a: "grad_at g i = Some (grad_of g p)" "grad_at g' i = Some (grad_of g' p)"
    using bw_inv_grad_at [OF assms(2) i] bw_inv_grad_at [OF bw_stepD(1) [OF assms(1)] i'] by simp_all
  show "grad_of g p \<noteq> 0 \<Longrightarrow> grad_of g' p \<noteq> 0" using bw_stepD(9) [OF assms(1) a(2)] a(1) by auto
  show "\<forall>i. member_slot (cg_visited g) p = Some i \<longrightarrow> i \<notin> D \<Longrightarrow> grad_of g' p = grad_of g p"
    using bw_stepD(8) [OF assms(1), of i] a i by auto
qed

section \<open>One node\<close>

text \<open>
  What \<^verbatim>\<open>ggml_compute_backward\<close> does for a node: gradients are stored for the sources that want
  one, and afterwards each of these has one, if the node has.
\<close>

lemma check_grad_fits:
  assumes "check_grad (g, s) b src i = Some ()" "b" "member_slot (cg_visited g) src = Some i" "needed ! i" "bw_inv (g, s)"
  shows "grad_of g src \<noteq> 0" "grad_at g i = Some q \<Longrightarrow> grad_fits (g, s) needed i q"
proof -
  obtain t p tp where c: "deref s src = Some t" "grad_at g i = Some p" "deref s p = Some tp" "ggml_are_same_shape t tp"
    using assms(1,2) by (auto simp: check_grad_def Option.bind_eq_Some_conv split: if_splits)
  have "st_tensors s 0 = None" using bw_inv_ctx(2) [OF assms(5)] by (simp add: heap_ok_def)
  then have "p \<noteq> 0" using c(3) by (cases "p = 0") (auto simp: deref_def)
  then show "grad_of g src \<noteq> 0" using bw_inv_grad_at [OF assms(5,3)] c(2) by simp
  show "grad_at g i = Some q \<Longrightarrow> grad_fits (g, s) needed i q" using c assms(3,4) by (auto simp: grad_fits_def deref_def)
qed

lemma node_srcs:
  assumes "bw_inv (g, s)" "st_tensors s p = Some t" "k < 10"
  shows "t_src t ! k \<in> insert 0 (dom (st_tensors s))"
proof -
  have h: "heap_ok (st_tensors s)" using bw_inv_ctx(2) [OF assms(1)] .
  then obtain rank where "ranked rank (st_tensors s)" by (auto simp: heap_ok_def)
  then have "set (t_src t) \<subseteq> insert 0 (dom (st_tensors s))" using assms(2) by (auto simp: ranked_def)
  moreover have "t_src t ! k \<in> set (t_src t)" using h assms(2,3) by (auto simp: heap_ok_def tensor_wf_def)
  ultimately show ?thesis by blast
qed

lemma grad_of_dom:
  assumes "bw_inv (g, s)" shows "grad_of g p \<in> insert 0 (dom (st_tensors s))"
proof (cases "member_slot (cg_visited g) p")
  case (Some i)
  obtain grads where "cg_grads g = Some grads" "set grads \<subseteq> insert 0 (dom (st_tensors s))"
    using assms by (auto simp: bw_inv_def grad_arrays_def)
  have "i < length grads" "grads ! i = grad_of g p"
    using bw_inv_grad_at [OF assms Some] \<open>cg_grads g = Some grads\<close> by (auto simp: grad_at_def array_get_def split: if_splits)
  then have "grad_of g p \<in> set grads" using nth_mem by metis
  then show ?thesis using \<open>set grads \<subseteq> _\<close> by blast
qed (simp add: grad_of_def)

lemma src_passed:
  assumes "backward_src g needed src = Some (i, b)" "check_grad (g', s') b src i = Some ()" "bw_step D (g, s) (g', s')"
    and "bw_inv (g, s)" "length needed = hs_size (cg_visited g)"
  shows "src \<noteq> 0 \<Longrightarrow> wants g needed src \<Longrightarrow> grad_of g' src \<noteq> 0"
    "b \<Longrightarrow> grad_at g' i = Some q \<Longrightarrow> grad_fits (g', s') needed i q"
proof -
  note b = backward_src_eq [OF assms(4,5,1)]
  have "grad_of g' src \<noteq> 0 \<and> (grad_at g' i = Some q \<longrightarrow> grad_fits (g', s') needed i q)" if b'[simp]: "b"
  proof -
    have m: "member_slot (cg_visited g) src = Some i" using b(2) by simp
    have "member_slot (cg_visited g') src = Some i" using bw_stepD(7) [OF assms(3) slot_seen [OF m]] m by simp
    moreover have "needed ! i" using b(1) m by simp
    ultimately show ?thesis using check_grad_fits [OF assms(2) b' _ _ bw_stepD(1) [OF assms(3)]] by blast
  qed
  then show "src \<noteq> 0 \<Longrightarrow> wants g needed src \<Longrightarrow> grad_of g' src \<noteq> 0"
    "b \<Longrightarrow> grad_at g' i = Some q \<Longrightarrow> grad_fits (g', s') needed i q"
    using b(1) by (auto simp: wants_def)
qed

definition src_slots :: "ggml_cgraph \<Rightarrow> ggml_tensor \<Rightarrow> nat set" where
  "src_slots g t = {j. \<exists>k < 3. member_slot (cg_visited g) (t_src t ! k) = Some j}"

lemma compute_backward_run:
  assumes "ggml_compute_backward fl (int i) needed (g, s) = Some (g', s')" "bw_inv (g, s)" "i < length (cg_nodes g)"
    "st_tensors s (cg_nodes g ! i) = Some t" "grad_of g (cg_nodes g ! i) \<noteq> 0"
  obtains i0 b0 i1 b1 i2 b2 e where "backward_src g needed (t_src t ! 0) = Some (i0, b0)"
    "backward_src g needed (t_src t ! 1) = Some (i1, b1)" "backward_src g needed (t_src t ! 2) = Some (i2, b2)"
    "grad_slots e = {j. b0 \<and> j = i0 \<or> b1 \<and> j = i1 \<or> b2 \<and> j = i2}" "bw_step (grad_slots e) (g, s) (g', s')"
    "check_grad (g', s') b0 (t_src t ! 0) i0 = Some ()" "check_grad (g', s') b1 (t_src t ! 1) i1 = Some ()"
    "check_grad (g', s') b2 (t_src t ! 2) i2 = Some ()"
proof -
  let ?p = "cg_nodes g ! i"
  have node: "node_at g (int i) = Some ?p" using assms(3) by (simp add: node_at_def array_get_def)
  obtain i0 b0 i1 b1 i2 b2 e where r: "backward_src g needed (t_src t ! 0) = Some (i0, b0)"
      "backward_src g needed (t_src t ! 1) = Some (i1, b1)" "backward_src g needed (t_src t ! 2) = Some (i2, b2)"
    and e: "e = \<lparr>bw_tensor = ?p, bw_grad = grad_of g ?p, bw_src0 = t_src t ! 0, bw_src1 = t_src t ! 1, bw_src2 = t_src t ! 2,
        bw_isrc0 = i0, bw_isrc1 = i1, bw_isrc2 = i2, src0_needs_grads = b0, src1_needs_grads = b1, src2_needs_grads = b2\<rparr>"
    and run: "backward_op fl (t_op t) e (g, s) = Some (g', s')"
    and chk: "check_grad (g', s') b0 (t_src t ! 0) i0 = Some ()" "check_grad (g', s') b1 (t_src t ! 1) i1 = Some ()"
      "check_grad (g', s') b2 (t_src t ! 2) i2 = Some ()"
    using assms(1,4,5) node get_grad_eq [OF assms(2), of ?p]
    by (auto simp: ggml_compute_backward_def deref_def Option.bind_eq_Some_conv)
  have "locals_of e \<subseteq> insert 0 (dom (st_tensors s))"
    using node_srcs [OF assms(2,4), of 0] node_srcs [OF assms(2,4), of 1] node_srcs [OF assms(2,4), of 2]
      grad_of_dom [OF assms(2), of ?p] assms(4) by (auto simp: locals_of_def e)
  then have st: "bw_step (grad_slots e) (g, s) (g', s')"
    using safe_op [of e "{}" g s fl "t_op t"] run assms(2) by (simp add: safe_def)
  have "grad_slots e = {j. b0 \<and> j = i0 \<or> b1 \<and> j = i1 \<or> b2 \<and> j = i2}" by (simp add: grad_slots_def e)
  then show thesis using that [OF r _ st chk] by blast
qed

lemma compute_backward_node:
  assumes "ggml_compute_backward fl (int i) needed (g, s) = Some (g', s')" "bw_inv (g, s)" "grads_fit (g, s) needed {}"
    and "length needed = hs_size (cg_visited g)" "i < length (cg_nodes g)" "st_tensors s (cg_nodes g ! i) = Some t"
  shows "bw_step (src_slots g t) (g, s) (g', s')" "grads_fit (g', s') needed {}"
    "grad_of g (cg_nodes g ! i) \<noteq> 0 \<Longrightarrow> k < 3 \<Longrightarrow> t_src t ! k \<noteq> 0 \<Longrightarrow> wants g needed (t_src t ! k)
      \<Longrightarrow> grad_of g' (t_src t ! k) \<noteq> 0"
proof -
  let ?p = "cg_nodes g ! i"
  have "bw_step (src_slots g t) (g, s) (g', s') \<and> grads_fit (g', s') needed {} \<and> (grad_of g ?p \<noteq> 0 \<longrightarrow>
    (\<forall>k < 3. t_src t ! k \<noteq> 0 \<and> wants g needed (t_src t ! k) \<longrightarrow> grad_of g' (t_src t ! k) \<noteq> 0))"
  proof (cases "grad_of g ?p = 0")
    case True
    then have "g' = g" "s' = s"
      using assms(1,5) get_grad_eq [OF assms(2), of ?p] by (simp_all add: ggml_compute_backward_def node_at_def array_get_def)
    then show ?thesis using True assms(3) bw_step_mono [OF bw_step_refl [OF assms(2)]] by simp
  next
    case False
    obtain i0 b0 i1 b1 i2 b2 e where src: "backward_src g needed (t_src t ! 0) = Some (i0, b0)"
        "backward_src g needed (t_src t ! 1) = Some (i1, b1)" "backward_src g needed (t_src t ! 2) = Some (i2, b2)"
      and sl: "grad_slots e = {j. b0 \<and> j = i0 \<or> b1 \<and> j = i1 \<or> b2 \<and> j = i2}" and st: "bw_step (grad_slots e) (g, s) (g', s')"
      and chk: "check_grad (g', s') b0 (t_src t ! 0) i0 = Some ()" "check_grad (g', s') b1 (t_src t ! 1) i1 = Some ()"
        "check_grad (g', s') b2 (t_src t ! 2) i2 = Some ()"
      by (rule compute_backward_run [OF assms(1,2,5,6) False])
    note b = backward_src_eq(2) [OF assms(2,4) src(1)] backward_src_eq(2) [OF assms(2,4) src(2)] backward_src_eq(2) [OF assms(2,4) src(3)]
    have D: "grad_slots e \<subseteq> src_slots g t"
      using b unfolding sl src_slots_def by (auto intro: exI [of _ 0] exI [of _ "1::nat"] exI [of _ "2::nat"])
    note f0 = src_passed [OF src(1) chk(1) st assms(2,4)] and f1 = src_passed [OF src(2) chk(2) st assms(2,4)]
      and f2 = src_passed [OF src(3) chk(3) st assms(2,4)]
    have "grad_fits (g', s') needed j q" if q: "grad_at g' j = Some q" "q \<noteq> 0" for j q
    proof (cases "j \<in> grad_slots e")
      case True
      then show ?thesis using q(1) f0(2) f1(2) f2(2) unfolding sl by auto
    next
      case False
      then show ?thesis using grads_fit_step [OF st assms(3)] q unfolding grads_fit_def by auto
    qed
    then have "grads_fit (g', s') needed {}" by (simp add: grads_fit_def)
    moreover have "grad_of g' (t_src t ! k) \<noteq> 0" if "k < 3" "t_src t ! k \<noteq> 0" "wants g needed (t_src t ! k)" for k
    proof -
      have "k = 0 \<or> k = 1 \<or> k = 2" using that(1) by auto
      then show ?thesis using that(2,3) f0(1) f1(1) f2(1) by auto
    qed
    ultimately show ?thesis using bw_step_mono [OF st D] by blast
  qed
  then show "bw_step (src_slots g t) (g, s) (g', s')" "grads_fit (g', s') needed {}"
    "grad_of g (cg_nodes g ! i) \<noteq> 0 \<Longrightarrow> k < 3 \<Longrightarrow> t_src t ! k \<noteq> 0 \<Longrightarrow> wants g needed (t_src t ! k)
      \<Longrightarrow> grad_of g' (t_src t ! k) \<noteq> 0" by blast+
qed

section \<open>Which tensors need a gradient\<close>

text \<open>\<open>N\<close> are the nodes of the graph; a source passes its need on unless it is ignored.\<close>

inductive needs_grad :: "(ptr \<rightharpoonup> ggml_tensor) \<Rightarrow> ptr set \<Rightarrow> ptr \<Rightarrow> bool" for T N where
  own: "p \<in> N \<Longrightarrow> T p = Some t \<Longrightarrow> t_type t \<noteq> GGML_TYPE_I32
    \<Longrightarrow> has_flag t GGML_TENSOR_FLAG_PARAM \<or> has_flag t GGML_TENSOR_FLAG_LOSS \<Longrightarrow> needs_grad T N p"
| src: "p \<in> N \<Longrightarrow> T p = Some t \<Longrightarrow> t_type t \<noteq> GGML_TYPE_I32 \<Longrightarrow> j < GGML_MAX_SRC \<Longrightarrow> t_src t ! j \<noteq> 0
    \<Longrightarrow> ignored_src t j = Some False \<Longrightarrow> needs_grad T N (t_src t ! j) \<Longrightarrow> needs_grad T N p"

inductive_cases needs_gradE: "needs_grad T N p"

lemma needs_grad_iff:
  "needs_grad T N p \<longleftrightarrow> p \<in> N \<and> (\<exists>t. T p = Some t \<and> t_type t \<noteq> GGML_TYPE_I32
     \<and> (has_flag t GGML_TENSOR_FLAG_PARAM \<or> has_flag t GGML_TENSOR_FLAG_LOSS
        \<or> (\<exists>j < GGML_MAX_SRC. t_src t ! j \<noteq> 0 \<and> ignored_src t j = Some False \<and> needs_grad T N (t_src t ! j))))"
    (is "_ \<longleftrightarrow> ?R")
proof
  assume "needs_grad T N p"
  then show ?R by (cases rule: needs_grad.cases) blast+
next
  assume ?R
  then show "needs_grad T N p" using needs_grad.intros [of p N T] by blast
qed

lemma any_src_needed_eq:
  assumes "hs_inv (cg_visited g)" "\<And>j. j \<in> set js \<Longrightarrow> t_src t ! j \<noteq> 0 \<Longrightarrow> t_src t ! j \<in> seen g"
    and "any_src_needed (g, s) needed t js = Some b"
  shows "b \<longleftrightarrow> (\<exists>j \<in> set js. t_src t ! j \<noteq> 0 \<and> ignored_src t j = Some False \<and> wants g needed (t_src t ! j))"
  using assms(2,3)
proof (induction js)
  case (Cons j js)
  obtain ig where ig: "ignored_src t j = Some ig" using Cons.prems(2) by (auto simp: Option.bind_eq_Some_conv)
  show ?case
  proof (cases "t_src t ! j = 0 \<or> ig")
    case True
    then have "any_src_needed (g, s) needed t js = Some b" using Cons.prems(2) ig by simp
    then show ?thesis using Cons.IH [OF Cons.prems(1)] True ig by auto
  next
    case False
    then obtain i where i: "ggml_hash_find (cg_visited g) (t_src t ! j) = Some i" "member_slot (cg_visited g) (t_src t ! j) = Some i"
      using hash_find_member [OF assms(1) Cons.prems(1) [of j]] by auto
    then have w: "wants g needed (t_src t ! j) \<longleftrightarrow> needed ! i" by (simp add: wants_def)
    show ?thesis
    proof (cases "needed ! i")
      case True
      then have "b" using Cons.prems(2) False ig i(1) by (auto simp: array_get_def Option.bind_eq_Some_conv split: if_splits)
      then show ?thesis using True False ig w by auto
    next
      case nn: False
      then have "any_src_needed (g, s) needed t js = Some b"
        using Cons.prems(2) False ig i(1) by (auto simp: array_get_def split: if_splits)
      then show ?thesis using Cons.IH [OF Cons.prems(1)] nn w by auto
    qed
  qed
qed simp

section \<open>The marks of the first loop\<close>

text \<open>
  The state after \<open>i\<close> nodes, from the graph \<open>g0\<close> with empty gradients: new tensors are accumulators,
  marked are the nodes among the first \<open>i\<close> that need a gradient, every loss has one.
\<close>

definition marking :: "ggml_cgraph \<Rightarrow> ggml_state \<Rightarrow> nat \<Rightarrow> graph_state \<Rightarrow> bool list \<Rightarrow> bool" where
  "marking g0 s0 i = (\<lambda>(g, s) needed. bw_inv (g, s) \<and> extends s0 s
     \<and> (\<exists>a. g = g0\<lparr>cg_grads := a, cg_grad_accs := a\<rparr>) \<and> length needed = hs_size (cg_visited g0)
     \<and> (\<forall>p j. member_slot (cg_visited g0) p = Some j \<longrightarrow>
          (needed ! j \<longleftrightarrow> p \<in> set (take i (cg_nodes g0)) \<and> needs_grad (st_tensors s0) (set (cg_nodes g0)) p))
     \<and> (\<forall>j < length needed. needed ! j \<longrightarrow> (\<exists>p. member_slot (cg_visited g0) p = Some j))
     \<and> grads_fit (g, s) needed {}
     \<and> (\<forall>p \<in> set (take i (cg_nodes g0)). \<forall>t. st_tensors s0 p = Some t \<and> t_type t \<noteq> GGML_TYPE_I32
          \<and> has_flag t GGML_TENSOR_FLAG_LOSS \<longrightarrow> grad_of g p \<noteq> 0))"

text \<open>The accumulators a caller passes: tensors with the shapes of the nodes, or \<^verbatim>\<open>NULL\<close>.\<close>

definition accs_ok :: "ggml_cgraph \<Rightarrow> ggml_state \<Rightarrow> ptr list option \<Rightarrow> bool" where
  "accs_ok g s accs \<longleftrightarrow> (\<forall>xs i. accs = Some xs \<and> i < length (cg_nodes g) \<and> i < length xs \<and> xs ! i \<noteq> 0 \<longrightarrow>
     (\<exists>t ta. st_tensors s (cg_nodes g ! i) = Some t \<and> st_tensors s (xs ! i) = Some ta \<and> ggml_are_same_shape t ta))"

text \<open>A tensor is among the first \<open>i + 1\<close> nodes.\<close>

lemma take_Suc_mem: "i < length xs \<Longrightarrow> p \<in> set (take (Suc i) xs) \<longleftrightarrow> p = xs ! i \<or> p \<in> set (take i xs)"
  by (auto simp: take_Suc_conv_app_nth)

text \<open>Storing an accumulator in the slot of a node.\<close>

lemma set_grad_acc_step:
  assumes "set_grad_acc g j a = Some g'" "g = g0\<lparr>cg_grads := x, cg_grad_accs := x\<rparr>"
  obtains b where "g' = g0\<lparr>cg_grads := Some (b[j := a]), cg_grad_accs := Some (b[j := a])\<rparr>" "x = Some b" "j < length b"
  using assms by (auto simp: set_grad_acc_def set_grad_def array_set_def Option.bind_eq_Some_conv split: if_splits)

lemma bw_inv_acc:
  assumes "bw_inv (g0\<lparr>cg_grads := Some b, cg_grad_accs := Some b\<rparr>, s)" "a \<in> dom (st_tensors s)"
  shows "bw_inv (g0\<lparr>cg_grads := Some (b[j := a]), cg_grad_accs := Some (b[j := a])\<rparr>, s)"
proof -
  have "set (b[j := a]) \<subseteq> insert 0 (dom (st_tensors s))"
    using assms set_update_subset_insert [of b j a] unfolding bw_inv_def grad_arrays_def by auto
  then show ?thesis using assms(1) by (simp add: bw_inv_def grad_arrays_def n_nodes_def n_leafs_def)
qed

text \<open>What one turn decides, and what it stores.\<close>

lemma mark_cases:
  assumes "mark_grad_node accs i ((g, s), needed) = Some ((g', s'), needed')" "bw_inv (g, s)" "i < length (cg_nodes g)"
    and "st_tensors s (cg_nodes g ! i) = Some t" "\<And>j. j < GGML_MAX_SRC \<Longrightarrow> t_src t ! j \<noteq> 0 \<Longrightarrow> t_src t ! j \<in> seen g"
  shows "if t_type t \<noteq> GGML_TYPE_I32 \<and> (has_flag t GGML_TENSOR_FLAG_PARAM \<or> has_flag t GGML_TENSOR_FLAG_LOSS
       \<or> (\<exists>j < GGML_MAX_SRC. t_src t ! j \<noteq> 0 \<and> ignored_src t j = Some False \<and> wants g needed (t_src t ! j)))
     then \<exists>k. member_slot (cg_visited g) (cg_nodes g ! i) = Some k \<and> needed' = needed[k := True]
       \<and> (g' = g \<and> s' = s \<and> \<not> has_flag t GGML_TENSOR_FLAG_LOSS
          \<or> (\<exists>a. set_grad_acc g k a = Some g' \<and> (s' = s \<and> a \<noteq> 0 \<and> (\<exists>xs. accs = Some xs \<and> i < length xs \<and> xs ! i = a)
               \<or> ggml_new_tensor s GGML_TYPE_F32 4 (t_ne t) = Some (a, s'))))
     else g' = g \<and> s' = s \<and> needed' = needed"
proof (cases "t_type t = GGML_TYPE_I32")
  case True
  then show ?thesis using assms(1,3,4) by (simp add: mark_grad_node_def array_get_def deref_def)
next
  case False
  let ?own = "has_flag t GGML_TENSOR_FLAG_PARAM \<or> has_flag t GGML_TENSOR_FLAG_LOSS"
  let ?src = "\<exists>j < GGML_MAX_SRC. t_src t ! j \<noteq> 0 \<and> ignored_src t j = Some False \<and> wants g needed (t_src t ! j)"
  obtain b where b: "any_src_needed (g, s) needed t [0..<GGML_MAX_SRC] = Some b"
    using assms(1,3,4) False by (auto simp: mark_grad_node_def array_get_def deref_def Option.bind_eq_Some_conv)
  have bq: "b \<longleftrightarrow> ?src"
    using any_src_needed_eq [OF bw_inv_hash [OF assms(2)] _ b] assms(5) by auto
  show ?thesis
  proof (cases "?own \<or> b")
    case no: False
    then have "g' = g \<and> s' = s \<and> needed' = needed"
      using assms(1,3,4) False b by (auto simp: mark_grad_node_def array_get_def deref_def)
    moreover have "\<not> (?own \<or> ?src)" using no bq by blast
    ultimately show ?thesis by (simp only: de_Morgan_disj if_False simp_thms)
  next
    case yes: True
    obtain k given where k: "ggml_hash_find (cg_visited g) (cg_nodes g ! i) = Some k" "k \<noteq> GGML_HASHSET_FULL"
        "ggml_bitset_get (hs_used (cg_visited g)) k" "needed' = needed[k := True]"
      and gv: "(case accs of None \<Rightarrow> Some 0 | Some xs \<Rightarrow> array_get xs i) = Some given"
      and run: "(if given \<noteq> 0 then do { g \<leftarrow> set_grad_acc g k given; Some (g, s) }
         else if has_flag t GGML_TENSOR_FLAG_LOSS then do {
           (acc, s) \<leftarrow> ggml_new_tensor s GGML_TYPE_F32 4 (t_ne t);
           g \<leftarrow> set_grad_acc g k acc;
           Some (g, s) }
         else Some (g, s)) = Some (g', s')"
      using assms(1,3,4) False b yes
      by (auto simp: mark_grad_node_def array_get_def array_set_def deref_def Option.bind_eq_Some_conv split: if_splits)
    have "member_slot (cg_visited g) (cg_nodes g ! i) = Some k"
      using find_member [OF bw_inv_hash [OF assms(2)], of "cg_nodes g ! i"] k(1-3) by (metis option.inject)
    moreover have "g' = g \<and> s' = s \<and> \<not> has_flag t GGML_TENSOR_FLAG_LOSS
        \<or> (\<exists>a. set_grad_acc g k a = Some g' \<and> (s' = s \<and> a \<noteq> 0 \<and> (\<exists>xs. accs = Some xs \<and> i < length xs \<and> xs ! i = a)
             \<or> ggml_new_tensor s GGML_TYPE_F32 4 (t_ne t) = Some (a, s')))"
      using run gv by (cases "given = 0"; cases accs) (auto simp: array_get_def Option.bind_eq_Some_conv split: if_splits)
    ultimately show ?thesis using yes bq False k(4) by auto
  qed
qed

lemma marking_need:
  assumes "marking g0 s0 i (g, s) needed" "graph_ok (st_tensors s0) g0" "heap_ok (st_tensors s0)" "i < length (cg_nodes g0)"
    and "st_tensors s0 (cg_nodes g0 ! i) = Some t"
  shows "j < GGML_MAX_SRC \<Longrightarrow> t_src t ! j \<noteq> 0 \<Longrightarrow> t_src t ! j \<in> seen g0"
    "t_type t \<noteq> GGML_TYPE_I32 \<and> (has_flag t GGML_TENSOR_FLAG_PARAM \<or> has_flag t GGML_TENSOR_FLAG_LOSS
       \<or> (\<exists>j < GGML_MAX_SRC. t_src t ! j \<noteq> 0 \<and> ignored_src t j = Some False \<and> wants g needed (t_src t ! j)))
     \<longleftrightarrow> needs_grad (st_tensors s0) (set (cg_nodes g0)) (cg_nodes g0 ! i)"
proof -
  let ?T = "st_tensors s0" and ?N = "set (cg_nodes g0)"
  have gi: "graph_inv {} ?T g0" using assms(2) by (simp add: graph_ok_def)
  have dist: "distinct (cg_nodes g0 @ cg_leafs g0)" using gi by (simp add: graph_inv_def)
  have len: "length (t_src t) = GGML_MAX_SRC" using assms(3,5) by (auto simp: heap_ok_def tensor_wf_def)
  have src: "t_src t ! j \<in> set (cg_leafs g0) \<union> set (take i (cg_nodes g0))" if "j < GGML_MAX_SRC" "t_src t ! j \<noteq> 0" for j
  proof -
    have "t_src t ! j \<in> set (srcs ?T (cg_nodes g0 ! i))" using that len assms(5) by (auto simp: set_srcs)
    then show ?thesis using gi assms(4) unfolding graph_inv_def topological_def by blast
  qed
  show "j < GGML_MAX_SRC \<Longrightarrow> t_src t ! j \<noteq> 0 \<Longrightarrow> t_src t ! j \<in> seen g0"
    using src [of j] graph_ok_seen [OF assms(2)] set_take_subset [of i "cg_nodes g0"] by (auto simp: finished_def)
  have "wants g needed (t_src t ! j) \<longleftrightarrow> needs_grad ?T ?N (t_src t ! j)" if j: "j < GGML_MAX_SRC" "t_src t ! j \<noteq> 0" for j
  proof -
    have v: "cg_visited g = cg_visited g0" using assms(1) by (auto simp: marking_def)
    have "t_src t ! j \<in> seen g0" using src [OF j] graph_ok_seen [OF assms(2)] set_take_subset [of i "cg_nodes g0"] by (auto simp: finished_def)
    moreover have hi: "hs_inv (cg_visited g0)" using gi by (simp add: graph_inv_def)
    ultimately obtain k where k: "member_slot (cg_visited g0) (t_src t ! j) = Some k" using seen_slot by blast
    have "needed ! k \<longleftrightarrow> t_src t ! j \<in> set (take i (cg_nodes g0)) \<and> needs_grad ?T ?N (t_src t ! j)"
      using assms(1) k by (auto simp: marking_def)
    moreover have "t_src t ! j \<in> set (take i (cg_nodes g0))" if "needs_grad ?T ?N (t_src t ! j)"
      using that src [OF j] dist by (auto elim: needs_grad.cases)
    ultimately show ?thesis using k by (auto simp: wants_def v)
  qed
  then show "t_type t \<noteq> GGML_TYPE_I32 \<and> (has_flag t GGML_TENSOR_FLAG_PARAM \<or> has_flag t GGML_TENSOR_FLAG_LOSS
       \<or> (\<exists>j < GGML_MAX_SRC. t_src t ! j \<noteq> 0 \<and> ignored_src t j = Some False \<and> wants g needed (t_src t ! j)))
     \<longleftrightarrow> needs_grad ?T ?N (cg_nodes g0 ! i)"
    unfolding needs_grad_iff [of ?T ?N "cg_nodes g0 ! i"] using assms(4,5) by auto
qed

text \<open>The accumulator that a turn stores is a tensor of the shape of the node.\<close>

lemma acc_fits:
  assumes "bw_inv (g, s)" "extends s0 s" "accs_ok g0 s0 accs" "i < length (cg_nodes g0)"
    and "st_tensors s0 (cg_nodes g0 ! i) = Some t"
    and "s' = s \<and> a \<noteq> 0 \<and> (\<exists>xs. accs = Some xs \<and> i < length xs \<and> xs ! i = a)
      \<or> ggml_new_tensor s GGML_TYPE_F32 4 (t_ne t) = Some (a, s')"
  shows "a \<noteq> 0" "bw_inv (g, s')" "extends s s'" "\<exists>ta. st_tensors s' a = Some ta \<and> ggml_are_same_shape t ta"
    "st_tensors s' (cg_nodes g0 ! i) = Some t"
proof -
  have t: "st_tensors s (cg_nodes g0 ! i) = Some t" using extends_deref [OF assms(2)] assms(5) by (simp add: deref_def)
  have "a \<noteq> 0 \<and> bw_inv (g, s') \<and> extends s s' \<and> (\<exists>ta. st_tensors s' a = Some ta \<and> ggml_are_same_shape t ta)"
    using assms(6)
  proof
    assume u: "s' = s \<and> a \<noteq> 0 \<and> (\<exists>xs. accs = Some xs \<and> i < length xs \<and> xs ! i = a)"
    then obtain t' ta where "st_tensors s0 (cg_nodes g0 ! i) = Some t'" "st_tensors s0 a = Some ta" "ggml_are_same_shape t' ta"
      using assms(3,4) unfolding accs_ok_def by blast
    moreover have "st_tensors s a = Some ta" using extends_deref [OF assms(2)] calculation(2) by (simp add: deref_def)
    ultimately show ?thesis using u assms(1,5) extends_refl [OF bw_inv_ctx(1) [OF assms(1)]] by auto
  next
    assume n: "ggml_new_tensor s GGML_TYPE_F32 4 (t_ne t) = Some (a, s')"
    have "length (t_ne t) = 4" using t bw_inv_ctx(2) [OF assms(1)] by (auto simp: heap_ok_def tensor_wf_def)
    then have nd: "op_node s a s' GGML_OP_NONE GGML_TYPE_F32 (t_ne t) []"
      using new_tensor_4_node [OF n bw_inv_ctx(1) [OF assms(1)]] by simp
    obtain ta where ta: "st_tensors s' a = Some ta" "t_ne ta = t_ne t" using nd by (auto simp: op_node_def grows_def)
    have inv: "bw_inv (g, s')" using bw_stepD(1) [OF adds_step [OF op_node_adds [OF nd] assms(1)]] .
    have "a \<noteq> 0" using nd by (auto simp: op_node_def grows_def)
    then show ?thesis using ta inv op_node_extends [OF nd] by (auto simp: ggml_are_same_shape_def)
  qed
  then show "a \<noteq> 0" "bw_inv (g, s')" "extends s s'" "\<exists>ta. st_tensors s' a = Some ta \<and> ggml_are_same_shape t ta" by auto
  then show "st_tensors s' (cg_nodes g0 ! i) = Some t" using extends_deref t by (auto simp: deref_def)
qed

lemma grads_fit_marked:
  assumes "grads_fit (g, s) needed {}" "extends s s'" "\<And>j. needed ! j \<Longrightarrow> needed' ! j"
    and "cg_visited g' = cg_visited g" "\<And>j. j \<noteq> k \<Longrightarrow> grad_at g' j = grad_at g j"
    and "\<And>q. grad_at g' k = Some q \<Longrightarrow> q \<noteq> 0 \<Longrightarrow> grad_fits (g', s') needed' k q"
  shows "grads_fit (g', s') needed' {}"
  unfolding grads_fit_def prod.case
proof (intro allI impI)
  fix j q assume a: "grad_at g' j = Some q \<and> q \<noteq> 0 \<and> j \<notin> {}"
  show "grad_fits (g', s') needed' j q"
  proof (cases "j = k")
    case False
    then have "grad_fits (g, s) needed j q" using assms(1) a assms(5) by (simp add: grads_fit_def)
    then obtain p tp tq where f: "needed ! j" "member_slot (cg_visited g) p = Some j" "st_tensors s p = Some tp" "st_tensors s q = Some tq"
      "ggml_are_same_shape tp tq" by (auto simp: grad_fits_def)
    have "st_tensors s' p = Some tp" "st_tensors s' q = Some tq" using extends_deref [OF assms(2)] f(3,4) by (simp_all add: deref_def)
    then show ?thesis using f(1,2,5) assms(3,4) by (auto simp: grad_fits_def)
  qed (use assms(6) a in simp)
qed

text \<open>A node that needs no gradient leaves everything as it is.\<close>

lemma marking_skip:
  assumes "marking g0 s0 i (g, s) needed" "graph_ok (st_tensors s0) g0" "i < length (cg_nodes g0)"
    and "\<not> needs_grad (st_tensors s0) (set (cg_nodes g0)) (cg_nodes g0 ! i)"
  shows "marking g0 s0 (Suc i) (g, s) needed"
proof -
  have "needed ! j \<longleftrightarrow> p \<in> set (take (Suc i) (cg_nodes g0)) \<and> needs_grad (st_tensors s0) (set (cg_nodes g0)) p"
    if "member_slot (cg_visited g0) p = Some j" for p j
    using assms(1,4) that unfolding take_Suc_mem [OF assms(3)] marking_def by auto
  moreover have "grad_of g p \<noteq> 0" if "p \<in> set (take (Suc i) (cg_nodes g0))" "st_tensors s0 p = Some t" "t_type t \<noteq> GGML_TYPE_I32"
    "has_flag t GGML_TENSOR_FLAG_LOSS" for p t
  proof (cases "p = cg_nodes g0 ! i")
    case True
    then show ?thesis using needs_grad.own [of p "set (cg_nodes g0)" "st_tensors s0" t] that assms(3,4) by auto
  next
    case False
    then show ?thesis using assms(1) that unfolding take_Suc_mem [OF assms(3)] marking_def by auto
  qed
  ultimately show ?thesis using assms(1) unfolding marking_def by auto
qed

text \<open>A node that needs one is marked; an accumulator may be stored for it.\<close>

lemma marking_mark:
  assumes "marking g0 s0 i (g, s) needed" "graph_ok (st_tensors s0) g0" "i < length (cg_nodes g0)"
    and "needs_grad (st_tensors s0) (set (cg_nodes g0)) (cg_nodes g0 ! i)" "member_slot (cg_visited g0) (cg_nodes g0 ! i) = Some k"
    and "st_tensors s0 (cg_nodes g0 ! i) = Some t"
    and "bw_inv (g', s')" "extends s s'" "g' = g0\<lparr>cg_grads := b, cg_grad_accs := b\<rparr>" "\<And>j. j \<noteq> k \<Longrightarrow> grad_at g' j = grad_at g j"
    and "\<And>q. grad_at g' k = Some q \<Longrightarrow> q \<noteq> 0 \<Longrightarrow> grad_fits (g', s') (needed[k := True]) k q"
    and "has_flag t GGML_TENSOR_FLAG_LOSS \<Longrightarrow> grad_of g' (cg_nodes g0 ! i) \<noteq> 0"
  shows "marking g0 s0 (Suc i) (g', s') (needed[k := True])"
proof -
  have m: "bw_inv (g, s)" "extends s0 s" "cg_visited g = cg_visited g0" "length needed = hs_size (cg_visited g0)"
    "grads_fit (g, s) needed {}" using assms(1) by (auto simp: marking_def)
  have hi: "hs_inv (cg_visited g0)" using assms(2) by (auto simp: graph_ok_def graph_inv_def)
  have v': "cg_visited g' = cg_visited g0" by (simp add: assms(9))
  have kl: "k < length needed" using hash.slot_less [OF hi assms(5)] m(4) by simp
  have "needed[k := True] ! j \<longleftrightarrow> p \<in> set (take (Suc i) (cg_nodes g0)) \<and> needs_grad (st_tensors s0) (set (cg_nodes g0)) p"
    if p: "member_slot (cg_visited g0) p = Some j" for p j
  proof (cases "p = cg_nodes g0 ! i")
    case True
    then show ?thesis using p assms(3-5) kl by (simp add: take_Suc_mem)
  next
    case False
    then have "j \<noteq> k" using hash.slot_inj [OF hi assms(5)] p by blast
    then show ?thesis using assms(1) p False unfolding take_Suc_mem [OF assms(3)] marking_def by auto
  qed
  moreover have "grads_fit (g', s') (needed[k := True]) {}"
  proof (rule grads_fit_marked [OF m(5) assms(8)])
    show "needed ! j \<Longrightarrow> needed[k := True] ! j" for j using kl by (cases "j = k") simp_all
  qed (use assms(10,11) m(3) v' in auto)
  moreover have "grad_of g' p \<noteq> 0" if "p \<in> set (take (Suc i) (cg_nodes g0))" "st_tensors s0 p = Some t'" "t_type t' \<noteq> GGML_TYPE_I32"
    "has_flag t' GGML_TENSOR_FLAG_LOSS" for p t'
  proof (cases "p = cg_nodes g0 ! i")
    case True
    then show ?thesis using that assms(6,12) by simp
  next
    case False
    then have old: "grad_of g p \<noteq> 0" using assms(1) that unfolding take_Suc_mem [OF assms(3)] marking_def by auto
    then obtain j where j: "member_slot (cg_visited g0) p = Some j" using m(3) by (auto simp: grad_of_def split: option.splits)
    then have "j \<noteq> k" using hash.slot_inj [OF hi assms(5)] False by blast
    then show ?thesis using old j assms(10) m(3) v' by (simp add: grad_of_def)
  qed
  moreover have "\<exists>p. member_slot (cg_visited g0) p = Some j" if "j < length needed" "needed[k := True] ! j" for j
    using that assms(1,5) by (cases "j = k") (auto simp: marking_def)
  ultimately show ?thesis
    using assms(7,9) extends_trans [OF m(2) assms(8)] m(4) unfolding marking_def by auto
qed

lemma marking_step:
  assumes "mark_grad_node accs i ((g, s), needed) = Some ((g', s'), needed')" "marking g0 s0 i (g, s) needed"
    and "graph_ok (st_tensors s0) g0" "heap_ok (st_tensors s0)" "i < length (cg_nodes g0)" "accs_ok g0 s0 accs"
  shows "marking g0 s0 (Suc i) (g', s') needed'"
proof -
  have m: "bw_inv (g, s)" "extends s0 s" using assms(2) by (auto simp: marking_def)
  obtain x where x: "g = g0\<lparr>cg_grads := x, cg_grad_accs := x\<rparr>" using assms(2) by (auto simp: marking_def)
  have "cg_nodes g0 ! i \<in> finished g0" using assms(5) by (simp add: finished_def)
  then have "cg_nodes g0 ! i \<in> dom (st_tensors s0)" using graph_ok_dom [OF assms(3)] by blast
  then obtain t where t: "st_tensors s0 (cg_nodes g0 ! i) = Some t" by blast
  then have ts: "st_tensors s (cg_nodes g ! i) = Some t" using extends_deref [OF m(2)] by (simp add: deref_def x)
  note nd = marking_need [OF assms(2-5) t]
  have v: "cg_visited g = cg_visited g0" "cg_nodes g = cg_nodes g0" by (simp_all add: x)
  have sr: "t_src t ! j \<in> seen g" if "j < GGML_MAX_SRC" "t_src t ! j \<noteq> 0" for j using nd(1) [OF that] by (simp add: v)
  have il: "i < length (cg_nodes g)" using assms(5) by (simp add: v)
  note cases = mark_cases [OF assms(1) m(1) il ts sr, unfolded nd(2) v]
  show ?thesis
  proof (cases "needs_grad (st_tensors s0) (set (cg_nodes g0)) (cg_nodes g0 ! i)")
    case False
    then have "g' = g" "s' = s" "needed' = needed" using cases by simp_all
    then show ?thesis using marking_skip [OF assms(2,3,5) False] by simp
  next
    case need: True
    then obtain k where k: "member_slot (cg_visited g0) (cg_nodes g0 ! i) = Some k" "needed' = needed[k := True]"
      and alt: "g' = g \<and> s' = s \<and> \<not> has_flag t GGML_TENSOR_FLAG_LOSS
        \<or> (\<exists>a. set_grad_acc g k a = Some g' \<and> (s' = s \<and> a \<noteq> 0 \<and> (\<exists>xs. accs = Some xs \<and> i < length xs \<and> xs ! i = a)
             \<or> ggml_new_tensor s GGML_TYPE_F32 4 (t_ne t) = Some (a, s')))"
      using cases by (auto simp only: if_True)
    note mark = marking_mark [OF assms(2,3,5) need k(1) t, folded k(2)]
    have kl: "k < length needed"
      using hash.slot_less [OF bw_inv_hash [OF m(1)], of _ k] k(1) assms(2) by (auto simp: marking_def)
    show ?thesis
      using alt
    proof
      assume a: "g' = g \<and> s' = s \<and> \<not> has_flag t GGML_TENSOR_FLAG_LOSS"
      have "grad_fits (g, s) needed' k q" if "grad_at g k = Some q" "q \<noteq> 0" for q
        using assms(2) that kl by (auto simp: marking_def grads_fit_def grad_fits_def k(2))
      then show ?thesis using mark [of g s x] m extends_refl [OF bw_inv_ctx(1) [OF m(1)]] x a by simp
    next
      assume "\<exists>a. set_grad_acc g k a = Some g' \<and> (s' = s \<and> a \<noteq> 0 \<and> (\<exists>xs. accs = Some xs \<and> i < length xs \<and> xs ! i = a)
          \<or> ggml_new_tensor s GGML_TYPE_F32 4 (t_ne t) = Some (a, s'))"
      then obtain a where st: "set_grad_acc g k a = Some g'"
        and al: "s' = s \<and> a \<noteq> 0 \<and> (\<exists>xs. accs = Some xs \<and> i < length xs \<and> xs ! i = a)
          \<or> ggml_new_tensor s GGML_TYPE_F32 4 (t_ne t) = Some (a, s')" by blast
      note ac = acc_fits [OF m assms(6,5) t al]
      obtain b where b: "g' = g0\<lparr>cg_grads := Some (b[k := a]), cg_grad_accs := Some (b[k := a])\<rparr>" "x = Some b" "k < length b"
        by (rule set_grad_acc_step [OF st x])
      have inv: "bw_inv (g', s')" unfolding b(1) by (rule bw_inv_acc) (use ac(2,4) in \<open>auto simp: x b(2)\<close>)
      have at: "grad_at g' j = (if j = k then Some a else grad_at g j)" for j
        using b by (simp add: grad_at_def array_get_def x)
      have "grad_fits (g', s') needed' k a" using ac(4,5) k kl by (auto simp: grad_fits_def b(1))
      moreover have "grad_of g' (cg_nodes g0 ! i) \<noteq> 0" using ac(1) k(1) at by (simp add: grad_of_def b(1)) 
      ultimately show ?thesis using mark [of g' s' "Some (b[k := a])"] inv ac(3) b(1) at by auto
    qed
  qed
qed

lemma marking_loop:
  assumes "foldM (mark_grad_node accs) [i..<n] (gs, needed) = Some (gs', needed')" "marking g0 s0 i gs needed"
    and "graph_ok (st_tensors s0) g0" "heap_ok (st_tensors s0)" "accs_ok g0 s0 accs" "n = length (cg_nodes g0)" "i \<le> n"
  shows "marking g0 s0 n gs' needed'"
  using assms(1,2,7)
proof (induction "n - i" arbitrary: i gs needed)
  case 0
  then show ?case by simp
next
  case (Suc d)
  then have il: "i < n" "d = n - Suc i" by simp_all
  obtain gs1 needed1 where 1: "mark_grad_node accs i (gs, needed) = Some (gs1, needed1)"
    "foldM (mark_grad_node accs) [Suc i..<n] (gs1, needed1) = Some (gs', needed')"
    using Suc.prems(1) il(1) by (auto simp: upt_conv_Cons Option.bind_eq_Some_conv)
  obtain g s g1 s1 where e: "gs = (g, s)" "gs1 = (g1, s1)" by (metis surj_pair)
  have "marking g0 s0 (Suc i) (g1, s1) needed1"
    using marking_step [OF 1(1) [unfolded e] Suc.prems(2) [unfolded e] assms(3,4) _ assms(5)] il(1) assms(6) by simp
  then show ?case using Suc.hyps(1) [OF il(2) 1(2)] il(1) e by simp
qed

section \<open>The second loop\<close>

text \<open>
  The state after the nodes from \<open>m\<close> on: each of them has passed its gradient on. Later turns do not
  give these nodes a gradient, since they store gradients of sources of earlier nodes only.
\<close>

definition swept :: "ggml_cgraph \<Rightarrow> ggml_state \<Rightarrow> bool list \<Rightarrow> nat \<Rightarrow> graph_state \<Rightarrow> bool" where
  "swept g1 s1 needed m = (\<lambda>(g, s). bw_step UNIV (g1, s1) (g, s) \<and> grads_fit (g, s) needed {}
     \<and> (\<forall>i t k. m \<le> i \<and> i < length (cg_nodes g1) \<and> st_tensors s1 (cg_nodes g1 ! i) = Some t \<and> k < 3 \<and> t_src t ! k \<noteq> 0
          \<and> wants g1 needed (t_src t ! k) \<and> grad_of g (cg_nodes g1 ! i) \<noteq> 0 \<longrightarrow> grad_of g (t_src t ! k) \<noteq> 0))"

lemma heap_null_free: "heap_ok T \<Longrightarrow> p \<in> dom T \<Longrightarrow> p \<noteq> 0"
  by (cases "p = 0") (auto simp: heap_ok_def)

lemma later_slot:
  assumes "bw_inv (g1, s1)" "m \<le> i" "i < length (cg_nodes g1)" "st_tensors s1 (cg_nodes g1 ! m) = Some t"
    and "bw_step D (g1, s1) (g, s)" "t_src t' = t_src t" "member_slot (cg_visited g) (cg_nodes g1 ! i) = Some j"
  shows "j \<notin> src_slots g t'"
proof
  assume "j \<in> src_slots g t'"
  then obtain k where k: "k < 3" "member_slot (cg_visited g) (t_src t ! k) = Some j" by (auto simp: src_slots_def assms(6))
  have hi: "hs_inv (cg_visited g)" using bw_inv_hash [OF bw_stepD(1) [OF assms(5)]] .
  have eq: "t_src t ! k = cg_nodes g1 ! i" using hash.slot_inj [OF hi assms(7) k(2)] by simp
  have gi: "graph_inv {} (st_tensors s1) g1" and h: "heap_ok (st_tensors s1)"
    using assms(1) bw_inv_ctx(2) by (auto simp: bw_inv_def graph_ok_def)
  have "cg_nodes g1 ! i \<in> dom (st_tensors s1)"
    using gi nth_mem [OF assms(3)] unfolding graph_inv_def finished_def by blast
  then have "t_src t ! k \<noteq> 0" using heap_null_free [OF h] eq by simp
  then have "t_src t ! k \<in> set (srcs (st_tensors s1) (cg_nodes g1 ! m))"
    using k(1) assms(4) h by (auto simp: set_srcs heap_ok_def tensor_wf_def)
  moreover have "m < length (cg_nodes g1)" using assms(2,3) by simp
  then have "set (srcs (st_tensors s1) (cg_nodes g1 ! m)) \<subseteq> set (cg_leafs g1) \<union> set (take m (cg_nodes g1))"
    using gi unfolding graph_inv_def topological_def by blast
  ultimately have "cg_nodes g1 ! i \<in> set (cg_leafs g1) \<union> set (take m (cg_nodes g1))" using eq by auto
  moreover have d: "distinct (cg_nodes g1)" "set (cg_nodes g1) \<inter> set (cg_leafs g1) = {}" using gi by (simp_all add: graph_inv_def)
  then have "cg_nodes g1 ! i \<notin> set (take m (cg_nodes g1))"
    using assms(2,3) by (auto simp: in_set_conv_nth nth_eq_iff_index_eq)
  ultimately show False using d(2) nth_mem [OF assms(3)] by blast
qed

lemma node_src_seen:
  assumes "bw_inv (g, s)" "i < length (cg_nodes g)" "st_tensors s (cg_nodes g ! i) = Some t" "k < GGML_MAX_SRC" "t_src t ! k \<noteq> 0"
  shows "t_src t ! k \<in> seen g"
proof -
  have gi: "graph_inv {} (st_tensors s) g" and h: "heap_ok (st_tensors s)"
    using assms(1) bw_inv_ctx(2) by (auto simp: bw_inv_def graph_ok_def)
  have "t_src t ! k \<in> set (srcs (st_tensors s) (cg_nodes g ! i))"
    using assms(3-5) h by (auto simp: set_srcs heap_ok_def tensor_wf_def)
  then have "t_src t ! k \<in> set (cg_leafs g) \<union> set (take i (cg_nodes g))"
    using gi assms(2) unfolding graph_inv_def topological_def by auto
  then show ?thesis using bw_inv_seen [OF assms(1)] set_take_subset [of i "cg_nodes g"] by (auto simp: finished_def)
qed

lemma sweep_step:
  assumes "ggml_compute_backward fl (int m) needed (g, s) = Some (g', s')" "swept g1 s1 needed (Suc m) (g, s)" "bw_inv (g1, s1)"
    and "m < length (cg_nodes g1)" "length needed = hs_size (cg_visited g1)"
  shows "swept g1 s1 needed m (g', s')"
proof -
  have st: "bw_step UNIV (g1, s1) (g, s)" and fit: "grads_fit (g, s) needed {}" using assms(2) by (auto simp: swept_def)
  note inv = bw_stepD(1) [OF st]
  obtain ns where ns: "cg_nodes g = cg_nodes g1 @ ns" using bw_stepD(3) [OF st] by blast
  have node: "cg_nodes g ! i = cg_nodes g1 ! i" if "i < length (cg_nodes g1)" for i using that by (simp add: ns nth_append)
  have fin: "cg_nodes g1 ! i \<in> finished g1" if "i < length (cg_nodes g1)" for i using that by (simp add: finished_def)
  have "cg_nodes g1 ! m \<in> dom (st_tensors s1)" using graph_ok_dom fin [OF assms(4)] assms(3) by (auto simp: bw_inv_def)
  then obtain t where t: "st_tensors s1 (cg_nodes g1 ! m) = Some t" by blast
  then obtain t' where t': "st_tensors s (cg_nodes g1 ! m) = Some t'" "marked t t'" using heap_markedD [OF bw_stepD(2) [OF st]] by blast
  note sr = marked_fields(5) [OF t'(2)]
  have ml: "m < length (cg_nodes g)" using assms(4) by (simp add: ns)
  have len: "length needed = hs_size (cg_visited g)" using bw_stepD(5) [OF st] assms(5) by simp
  note c = compute_backward_node [OF assms(1) inv fit len ml, unfolded node [OF assms(4)], OF t'(1)]
  have seen: "p \<in> seen g" if "p \<in> seen g1" for p
    using that bw_step_finished [OF st] bw_inv_seen [OF inv] bw_inv_seen [OF assms(3)] by auto
  have w: "wants g needed p = wants g1 needed p" if "p \<in> seen g1" for p using wants_step [OF st that] .
  have "grad_of g' (t_src u ! k) \<noteq> 0" if i: "m \<le> i" "i < length (cg_nodes g1)" "st_tensors s1 (cg_nodes g1 ! i) = Some u"
    and k: "k < 3" "t_src u ! k \<noteq> 0" "wants g1 needed (t_src u ! k)" "grad_of g' (cg_nodes g1 ! i) \<noteq> 0" for i u k
  proof -
    have us: "t_src u ! k \<in> seen g1" using node_src_seen [OF assms(3) i(2,3) _ k(2)] k(1) by simp
    have "cg_nodes g1 ! i \<in> seen g1" using fin [OF i(2)] bw_inv_seen [OF assms(3)] by simp
    then have "grad_of g' (cg_nodes g1 ! i) = grad_of g (cg_nodes g1 ! i)"
      using later_slot [OF assms(3) i(1,2) t st sr] by (intro grad_of_step(2) [OF c(1) inv seen]) blast+
    then have old: "grad_of g (cg_nodes g1 ! i) \<noteq> 0" using k(4) by simp
    show ?thesis
    proof (cases "i = m")
      case True
      then have "u = t" using i(3) t by simp
      then show ?thesis using c(3) [of k] old k True sr w [OF us] by simp
    next
      case False
      then have "Suc m \<le> i" using i(1) by simp
      then have "grad_of g (t_src u ! k) \<noteq> 0" using assms(2) i(2,3) k(1-3) old unfolding swept_def by blast
      then show ?thesis using grad_of_step(1) [OF c(1) inv seen [OF us]] by blast
    qed
  qed
  moreover have "bw_step UNIV (g1, s1) (g', s')" using bw_step_trans [OF st c(1) assms(3)] by simp
  ultimately show ?thesis using c(2) unfolding swept_def by blast
qed

lemma sweep_loop:
  assumes "foldM (\<lambda>i. ggml_compute_backward fl (int i) needed) (rev [0..<m]) gs = Some gs'" "swept g1 s1 needed m gs"
    and "bw_inv (g1, s1)" "m \<le> length (cg_nodes g1)" "length needed = hs_size (cg_visited g1)"
  shows "swept g1 s1 needed 0 gs'"
  using assms(1,2,4)
proof (induction m arbitrary: gs)
  case (Suc m)
  obtain gs2 where 1: "ggml_compute_backward fl (int m) needed gs = Some gs2"
    "foldM (\<lambda>i. ggml_compute_backward fl (int i) needed) (rev [0..<m]) gs2 = Some gs'"
    using Suc.prems(1) by (auto simp: Option.bind_eq_Some_conv)
  obtain g s g2 s2 where e: "gs = (g, s)" "gs2 = (g2, s2)" by (metis surj_pair)
  have "swept g1 s1 needed m (g2, s2)"
    using sweep_step [OF 1(1) [unfolded e] Suc.prems(2) [unfolded e] assms(3) _ assms(5)] Suc.prems(3) by simp
  then show ?case using Suc.IH [OF 1(2)] Suc.prems(3) e by simp
qed simp

section \<open>The gradients of a graph\<close>

lemma get_grad_acc_eq:
  assumes "bw_inv (g, s)" "member_slot (cg_visited g) p = Some i"
  shows "ggml_graph_get_grad_acc g p = grad_acc_at g i"
proof -
  obtain accs where a: "cg_grad_accs g = Some accs" using assms(1) by (auto simp: bw_inv_def grad_arrays_def)
  obtain j where "ggml_hash_find (cg_visited g) p = Some j"
    "if j \<noteq> GGML_HASHSET_FULL \<and> ggml_bitset_get (hs_used (cg_visited g)) j
     then member_slot (cg_visited g) p = Some j else member_slot (cg_visited g) p = None"
    by (rule find_member [OF bw_inv_hash [OF assms(1)]])
  then show ?thesis
    using a assms(2) by (auto simp: ggml_graph_get_grad_acc_def slot_entry_def grad_acc_at_def split: if_splits)
qed

text \<open>What the two loops establish, from a graph \<open>g0\<close> with cleared gradients.\<close>

definition backward_done :: "ggml_cgraph \<Rightarrow> ggml_state \<Rightarrow> graph_state \<Rightarrow> bool" where
  "backward_done g0 s0 = (\<lambda>(g, s). bw_inv (g, s) \<and> heap_marked (st_tensors s0) (st_tensors s)
     \<and> (\<exists>ns. cg_nodes g = cg_nodes g0 @ ns) \<and> (\<exists>ls. cg_leafs g = cg_leafs g0 @ ls)
     \<and> (\<exists>g1 s1 needed. marking g0 s0 (length (cg_nodes g0)) (g1, s1) needed \<and> swept g1 s1 needed 0 (g, s)))"

lemma backward_expand_done:
  assumes "ctx_inv s" "graph_ok (st_tensors s) g" "flags_closed {} (st_tensors s)" "n_nodes g \<le> cg_size g" "n_leafs g \<le> cg_size g"
    and "accs_ok g s accs" "ggml_build_backward_expand fl (g, s) accs = Some (g', s')"
  shows "backward_done g s (g', s')"
proof -
  let ?z = "replicate (hs_size (cg_visited g)) (0 :: ptr)" and ?n = "length (cg_nodes g)"
  define g0 where "g0 = g\<lparr>cg_grads := Some ?z, cg_grad_accs := Some ?z\<rparr>"
  obtain gs1 needed where r: "foldM (mark_grad_node accs) [0..<?n] ((g0, s), replicate (hs_size (cg_visited g)) False) = Some (gs1, needed)"
    "foldM (\<lambda>i. ggml_compute_backward fl (int i) needed) (rev [0..<?n]) gs1 = Some (g', s')"
    using assms(7) by (auto simp: ggml_build_backward_expand_def g0_def Let_def Option.bind_eq_Some_conv split: if_splits)
  have hi: "hs_inv (cg_visited g)" using assms(2) by (auto simp: graph_ok_def graph_inv_def)
  have inv0: "bw_inv (g0, s)"
    using assms(1-5) by (simp add: bw_inv_def grad_arrays_def g0_def n_nodes_def n_leafs_def set_replicate_conv_if)
  have z: "grad_at g0 i = Some q \<Longrightarrow> q = 0" for i q by (auto simp: grad_at_def array_get_def g0_def split: if_splits)
  have "marking g s 0 (g0, s) (replicate (hs_size (cg_visited g)) False)"
    unfolding marking_def prod.case
  proof (intro conjI)
    show "\<exists>a. g0 = g\<lparr>cg_grads := a, cg_grad_accs := a\<rparr>" unfolding g0_def by blast
    show "\<forall>p j. member_slot (cg_visited g) p = Some j \<longrightarrow> (replicate (hs_size (cg_visited g)) False ! j
        \<longleftrightarrow> p \<in> set (take 0 (cg_nodes g)) \<and> needs_grad (st_tensors s) (set (cg_nodes g)) p)"
      using hash.slot_less [OF hi] by simp
    show "grads_fit (g0, s) (replicate (hs_size (cg_visited g)) False) {}" using z by (auto simp: grads_fit_def)
  qed (use inv0 extends_refl [OF assms(1)] in simp_all)
  from marking_loop [OF r(1) this assms(2) bw_inv_ctx(2) [OF inv0] assms(6) refl]
  have m: "marking g s ?n gs1 needed" by simp
  obtain g1 s1 where gs1: "gs1 = (g1, s1)" by (cases gs1)
  have inv1: "bw_inv (g1, s1)" and ex: "extends s s1" and fit: "grads_fit (g1, s1) needed {}"
    and len: "length needed = hs_size (cg_visited g)" using m by (auto simp: marking_def gs1)
  have eq: "cg_nodes g1 = cg_nodes g" "cg_leafs g1 = cg_leafs g" "cg_visited g1 = cg_visited g" using m by (auto simp: marking_def gs1)
  have "swept g1 s1 needed ?n (g1, s1)"
    unfolding swept_def prod.case using bw_step_mono [OF bw_step_refl [OF inv1], of UNIV] fit eq by auto
  from sweep_loop [OF r(2) [unfolded gs1] this inv1] have sw: "swept g1 s1 needed 0 (g', s')" using eq len by simp
  then have st: "bw_step UNIV (g1, s1) (g', s')" by (simp add: swept_def)
  have "heap_marked (st_tensors s) (st_tensors s')" using heap_marked_trans [OF extends_marked [OF ex] bw_stepD(2) [OF st]] .
  then show ?thesis using bw_stepD(1,3,4) [OF st] m sw unfolding backward_done_def gs1 eq by blast
qed

text \<open>The needs of the first loop seen from the end of the second.\<close>

lemma done_grads:
  assumes "backward_done g s (g', s')"
  shows "\<exists>q. ggml_graph_get_grad g' p = Some q \<and> (q \<noteq> 0 \<longrightarrow> needs_grad (st_tensors s) (set (cg_nodes g)) p
       \<and> (\<exists>tp tq. st_tensors s' p = Some tp \<and> st_tensors s' q = Some tq \<and> ggml_are_same_shape tp tq)
       \<and> (q \<in> finished g' \<or> ggml_graph_get_grad_acc g' p = Some q))"
proof -
  obtain g1 s1 needed where m: "marking g s (length (cg_nodes g)) (g1, s1) needed" and sw: "swept g1 s1 needed 0 (g', s')"
    using assms by (auto simp: backward_done_def)
  have st: "bw_step UNIV (g1, s1) (g', s')" and fit: "grads_fit (g', s') needed {}" using sw by (auto simp: swept_def)
  note inv = bw_stepD(1) [OF st]
  obtain a where g1: "g1 = g\<lparr>cg_grads := a, cg_grad_accs := a\<rparr>" and len: "length needed = hs_size (cg_visited g)"
    using m by (auto simp: marking_def)
  have "needs_grad (st_tensors s) (set (cg_nodes g)) p
      \<and> (\<exists>tp tq. st_tensors s' p = Some tp \<and> st_tensors s' q = Some tq \<and> ggml_are_same_shape tp tq)
      \<and> (q \<in> finished g' \<or> ggml_graph_get_grad_acc g' p = Some q)" if q: "grad_of g' p = q" "q \<noteq> 0" for q
  proof -
    obtain i where i: "member_slot (cg_visited g') p = Some i" using q by (auto simp: grad_of_def split: option.splits)
    have hi: "hs_inv (cg_visited g')" using bw_inv_hash [OF inv] .
    have at: "grad_at g' i = Some q" using bw_inv_grad_at [OF inv i] q(1) by simp
    have "grad_fits (g', s') needed i q" using fit at q(2) by (simp add: grads_fit_def)
    then obtain p' tp tq where f: "needed ! i" "member_slot (cg_visited g') p' = Some i" "st_tensors s' p' = Some tp"
      "st_tensors s' q = Some tq" "ggml_are_same_shape tp tq" unfolding grad_fits_def prod.case by blast
    have "p' = p" using hash.slot_inj [OF hi f(2) i] .
    moreover have "i < length needed" using hash.slot_less [OF hi i] bw_stepD(5) [OF st] len by (simp add: g1)
    then obtain p1 where p1: "member_slot (cg_visited g) p1 = Some i" using m f(1) by (auto simp: marking_def)
    then have "member_slot (cg_visited g') p1 = Some i" using bw_stepD(7) [OF st, of p1] slot_seen [OF p1] by (simp add: g1)
    then have "p1 = p" using hash.slot_inj [OF hi _ i] by blast
    then have "needs_grad (st_tensors s) (set (cg_nodes g)) p" using m f(1) p1 by (auto simp: marking_def)
    moreover have "q \<in> finished g' \<or> ggml_graph_get_grad_acc g' p = Some q"
    proof (rule disjCI)
      assume "ggml_graph_get_grad_acc g' p \<noteq> Some q"
      then have "grad_acc_at g' i \<noteq> Some q" using get_grad_acc_eq [OF inv i] by simp
      then have "grad_at g1 i \<noteq> Some q" using bw_stepD(6) [OF st] by (simp add: grad_acc_at_def grad_at_def g1)
      then show "q \<in> finished g'" using bw_stepD(9) [OF st at] by blast
    qed
    ultimately show ?thesis using f(3-5) by blast
  qed
  then show ?thesis using get_grad_eq [OF inv, of p] by blast
qed

text \<open>
  C11: \<^verbatim>\<open>ggml_build_backward_expand\<close> only adds to a graph: when it returns, the context invariant holds
  and the graph is complete and ordered again, nodes and leafs have kept their positions, and the
  tensors that were there differ at most in their names and compute flags.
\<close>

theorem ggml_build_backward_expand_extends:
  assumes "ctx_inv s" "graph_ok (st_tensors s) g" "flags_closed {} (st_tensors s)" "n_nodes g \<le> cg_size g" "n_leafs g \<le> cg_size g"
    and "accs_ok g s accs" "ggml_build_backward_expand fl (g, s) accs = Some (g', s')"
  shows "ctx_inv s' \<and> graph_ok (st_tensors s') g' \<and> heap_marked (st_tensors s) (st_tensors s')
    \<and> (\<exists>ns. cg_nodes g' = cg_nodes g @ ns) \<and> (\<exists>ls. cg_leafs g' = cg_leafs g @ ls)"
  using backward_expand_done [OF assms] by (auto simp: backward_done_def bw_inv_def)

text \<open>
  C9: the gradients \<^verbatim>\<open>ggml_build_backward_expand\<close> leaves behind are sound: \<^verbatim>\<open>ggml_graph_get_grad\<close> returns
  for every tensor \<^verbatim>\<open>NULL\<close> or a tensor of the same shape, which is part of the graph or the
  accumulator of the tensor, and it returns \<^verbatim>\<open>NULL\<close> for tensors that need no gradient.
\<close>

theorem ggml_build_backward_expand_sound:
  assumes "ctx_inv s" "graph_ok (st_tensors s) g" "flags_closed {} (st_tensors s)" "n_nodes g \<le> cg_size g" "n_leafs g \<le> cg_size g"
    and "accs_ok g s accs" "ggml_build_backward_expand fl (g, s) accs = Some (g', s')"
  shows "\<exists>q. ggml_graph_get_grad g' p = Some q \<and> (q \<noteq> 0 \<longrightarrow> needs_grad (st_tensors s) (set (cg_nodes g)) p
       \<and> (\<exists>tp tq. st_tensors s' p = Some tp \<and> st_tensors s' q = Some tq \<and> ggml_are_same_shape tp tq)
       \<and> (q \<in> finished g' \<or> ggml_graph_get_grad_acc g' p = Some q))"
  by (rule done_grads [OF backward_expand_done [OF assms]])

text \<open>One step from a node to a source that needs a gradient; only the first three sources count.\<close>

definition grad_edge :: "(ptr \<rightharpoonup> ggml_tensor) \<Rightarrow> ptr set \<Rightarrow> ptr \<Rightarrow> ptr \<Rightarrow> bool" where
  "grad_edge T N p r \<longleftrightarrow> p \<in> N \<and> (\<exists>t k. T p = Some t \<and> k < 3 \<and> t_src t ! k = r \<and> r \<noteq> 0) \<and> needs_grad T N r"

text \<open>
  C10: no gradient is missing: when \<^verbatim>\<open>ggml_build_backward_expand\<close> returns, every tensor that is reached
  from a loss through sources that need a gradient has one, in particular every parameter reached.
\<close>

theorem ggml_build_backward_expand_complete:
  assumes "ctx_inv s" "graph_ok (st_tensors s) g" "flags_closed {} (st_tensors s)" "n_nodes g \<le> cg_size g" "n_leafs g \<le> cg_size g"
    and "accs_ok g s accs" "ggml_build_backward_expand fl (g, s) accs = Some (g', s')"
    and "loss \<in> set (cg_nodes g)" "st_tensors s loss = Some t" "t_type t \<noteq> GGML_TYPE_I32" "has_flag t GGML_TENSOR_FLAG_LOSS"
    and "(grad_edge (st_tensors s) (set (cg_nodes g)))\<^sup>*\<^sup>* loss r"
  shows "\<exists>q. ggml_graph_get_grad g' r = Some q \<and> q \<noteq> 0"
proof -
  obtain g1 s1 needed where m: "marking g s (length (cg_nodes g)) (g1, s1) needed" and sw: "swept g1 s1 needed 0 (g', s')"
    using backward_expand_done [OF assms(1-7)] by (auto simp: backward_done_def)
  have st: "bw_step UNIV (g1, s1) (g', s')" using sw by (auto simp: swept_def)
  have inv1: "bw_inv (g1, s1)" and ex: "extends s s1" using m by (auto simp: marking_def)
  obtain a where g1: "g1 = g\<lparr>cg_grads := a, cg_grad_accs := a\<rparr>" using m by (auto simp: marking_def)
  have seen: "p \<in> seen g1" if "p \<in> set (cg_nodes g)" for p using that bw_inv_seen [OF inv1] by (simp add: g1 finished_def)
  have "grad_of g' r \<noteq> 0" using assms(12)
  proof (induction rule: rtranclp_induct)
    case base
    have "grad_of g1 loss \<noteq> 0" using m assms(8-11) by (auto simp: marking_def)
    then show ?case using grad_of_step(1) [OF st inv1 seen [OF assms(8)]] by blast
  next
    case (step y z)
    obtain u k where u: "y \<in> set (cg_nodes g)" "st_tensors s y = Some u" "k < 3" "t_src u ! k = z" "z \<noteq> 0"
      and nz: "needs_grad (st_tensors s) (set (cg_nodes g)) z" using step.hyps(2) by (auto simp: grad_edge_def)
    obtain i where i: "i < length (cg_nodes g)" "cg_nodes g ! i = y" using u(1) by (auto simp: in_set_conv_nth)
    have "st_tensors s1 y = Some u" using extends_deref [OF ex] u(2) by (simp add: deref_def)
    moreover have zn: "z \<in> set (cg_nodes g)" using nz by (auto elim: needs_grad.cases)
    obtain j where j: "member_slot (cg_visited g1) z = Some j" by (rule seen_slot [OF bw_inv_hash [OF inv1] seen [OF zn]])
    then have "needed ! j" using m nz zn by (auto simp: marking_def)
    then have "wants g1 needed z" using j by (auto simp: wants_def)
    ultimately show ?case using sw i u(3-5) step.IH unfolding swept_def by (auto simp: g1)
  qed
  then show ?thesis using get_grad_eq [OF bw_stepD(1) [OF st], of r] by simp
qed

section \<open>An instance\<close>

text \<open>The loss is a copy of a parameter, and a third tensor is given as the accumulator of the
  gradient of the loss; all lie outside the memory of an empty context.\<close>

definition grad_param :: ggml_tensor where
  "grad_param = \<lparr>t_type = GGML_TYPE_F32, t_buffer = 0, t_ne = [1, 1, 1, 1], t_nb = [4, 4, 4, 4], t_op = GGML_OP_NONE,
     t_op_params = replicate 16 0, t_flags = GGML_TENSOR_FLAG_PARAM, t_src = replicate 10 0, t_view_src = 0, t_view_offs = 0,
     t_data = 4096, t_name = ''w'', t_extra = 0\<rparr>"

definition grad_loss :: ggml_tensor where
  "grad_loss = grad_param\<lparr>t_op := GGML_OP_DUP, t_flags := GGML_TENSOR_FLAG_LOSS OR GGML_TENSOR_FLAG_COMPUTE,
     t_src := 16 # replicate 9 0, t_data := 4112, t_name := ''loss''\<rparr>"

definition grad_sink :: ggml_tensor where
  "grad_sink = grad_param\<lparr>t_flags := 0, t_data := 4128, t_name := ''acc''\<rparr>"

definition grad_state :: ggml_state where
  "grad_state = sample_start\<lparr>st_tensors := [16 \<mapsto> grad_param, 32 \<mapsto> grad_loss, 48 \<mapsto> grad_sink]\<rparr>"

definition grad_graph :: ggml_cgraph where
  "grad_graph = \<lparr>cg_size = 4, cg_nodes = [16, 32], cg_grads = Some (replicate 5 0), cg_grad_accs = Some (replicate 5 0),
     cg_leafs = [], cg_use_counts = [0, 1, 0, 0, 0],
     cg_visited = \<lparr>hs_size = 5, hs_used = [6], hs_keys = [0, 16, 32, 0, 0]\<rparr>,
     cg_order = GGML_CGRAPH_EVAL_ORDER_LEFT_TO_RIGHT, cg_uid = 0, cg_arrays = []\<rparr>"


lemmas grad_defs = grad_graph_def grad_state_def grad_param_def grad_loss_def grad_sink_def

lemma grad_find:
  "ggml_hash_find (cg_visited grad_graph) 16 = Some 1" "ggml_hash_find (cg_visited grad_graph) 32 = Some 2"
  "ggml_hash_find (cg_visited grad_graph) 48 = Some 3"
  by (simp_all add: grad_graph_def ggml_hash_find_def ggml_hash_def hash_find_loop.simps ggml_bitset_get_def drop_bit_eq_div)

lemma grad_used:
  "ggml_bitset_get (hs_used (cg_visited grad_graph)) 1" "ggml_bitset_get (hs_used (cg_visited grad_graph)) 2"
  "\<not> ggml_bitset_get (hs_used (cg_visited grad_graph)) 3"
  by (simp_all add: grad_graph_def ggml_bitset_get_def drop_bit_eq_div)

lemma grad_slots_used: "used_slot (cg_visited grad_graph) i \<longleftrightarrow> i = 1 \<or> i = 2"
proof -
  have "i < 5 \<Longrightarrow> i = 0 \<or> i = 1 \<or> i = 2 \<or> i = 3 \<or> i = 4" by auto
  then show ?thesis by (auto simp: used_slot_def grad_graph_def ggml_bitset_get_def drop_bit_eq_div)
qed

lemma grad_hash: "hs_inv (cg_visited grad_graph)" "seen grad_graph = {16, 32}"
  "member_slot (cg_visited grad_graph) p = (if p = 16 then Some 1 else if p = 32 then Some 2 else None)"
proof -
  let ?h = "cg_visited grad_graph"
  have keys: "hs_keys ?h ! 1 = 16" "hs_keys ?h ! 2 = 32" "hs_size ?h = 5" by (simp_all add: grad_graph_def)
  have "home ?h 16 = 1" "home ?h 32 = 2" "probe ?h 1 0 = 1" "probe ?h 2 0 = 2"
    by (simp_all add: home_def probe_def keys ggml_hash_def drop_bit_eq_div)
  then have "\<exists>k < 5. i = probe ?h (home ?h (hs_keys ?h ! i)) k \<and> (\<forall>j < k. used_slot ?h (probe ?h (home ?h (hs_keys ?h ! i)) j))"
    if "i = 1 \<or> i = 2" for i using that keys by (intro exI [of _ 0]) auto
  then show inv: "hs_inv ?h"
    unfolding hs_inv_def keys(3) grad_slots_used using keys
    by (auto simp: grad_graph_def ggml_bitset_size_def drop_bit_5 sz_add_def wrap64_def)
  show el: "seen grad_graph = {16, 32}" using keys by (auto simp: hs_set_def grad_slots_used)
  have "member_slot ?h 16 = Some 1" "member_slot ?h 32 = Some 2"
    using keys by (simp_all add: member_slot_Some [OF inv] grad_slots_used)
  then show "member_slot ?h p = (if p = 16 then Some 1 else if p = 32 then Some 2 else None)"
    using el by (auto simp: member_slot_def)
qed

lemma grad_srcs: "srcs (st_tensors grad_state) 16 = []" "srcs (st_tensors grad_state) 32 = [16]" "srcs (st_tensors grad_state) 48 = []"
  by (simp_all add: srcs_def grad_defs)

lemma grad_heap: "heap_ok (st_tensors grad_state)"
proof -
  have "heap_ok Map.empty" by (simp add: heap_ok_def ranked_def)
  then have "heap_ok [16 \<mapsto> grad_param]"
    by (rule heap_ok_extend) (simp_all add: grad_param_def tensor_wf_def view_ok_def)
  then have "heap_ok ([16 \<mapsto> grad_param](32 \<mapsto> grad_loss))"
    by (rule heap_ok_extend) (simp_all add: grad_param_def grad_loss_def tensor_wf_def view_ok_def)
  then have "heap_ok ([16 \<mapsto> grad_param, 32 \<mapsto> grad_loss](48 \<mapsto> grad_sink))"
    by (rule heap_ok_extend) (simp_all add: grad_param_def grad_sink_def tensor_wf_def view_ok_def)
  then show ?thesis by (simp add: grad_state_def)
qed

lemma grad_ctx_inv: "ctx_inv grad_state"
proof -
  obtain xs e where x: "ctx_objs sample_start xs e" using sample_ctx_inv by (auto simp: ctx_inv_def)
  have ctx: "st_ctx grad_state = st_ctx sample_start" "st_objects grad_state = st_objects sample_start"
    by (simp_all add: grad_state_def)
  have "in_pool grad_state p \<longleftrightarrow> in_pool sample_start p" for p by (simp add: in_pool_def grad_state_def)
  then have "\<not> in_pool grad_state 16" "\<not> in_pool grad_state 32" "\<not> in_pool grad_state 48"
    by (simp_all add: in_pool_def sample_ctx_def)
  moreover have "dom (st_tensors grad_state) = {16, 32, 48}" by (auto simp: grad_state_def)
  ultimately have out: "{p \<in> dom (st_tensors grad_state). in_pool grad_state p} = {}" by auto
  have "set (pool_tensors sample_start xs) = {}" using x by (simp add: ctx_objs_def sample_state_def)
  moreover have "pool_tensors grad_state xs = pool_tensors sample_start xs"
    by (simp add: pool_tensors_def is_tensor_obj_def [abs_def] ctx)
  moreover have "pool_objs grad_state xs e" using x by (simp add: ctx_objs_def pool_objs_def ctx)
  ultimately have "ctx_objs grad_state xs e" using x grad_heap out by (simp add: ctx_objs_def ctx)
  then show ?thesis by (auto simp: ctx_inv_def)
qed

lemma grad_facts: "graph_ok (st_tensors grad_state) grad_graph" "flags_closed {} (st_tensors grad_state)"
proof -
  have "uses grad_graph p = (if p = 16 then 1 else 0)" for p
    using grad_hash(3) [of p] by (simp add: uses_def hash.count_def) (simp add: grad_graph_def)
  moreover have fin: "finished grad_graph = {16, 32}" by (simp add: finished_def grad_graph_def)
  moreover have "graph_inv {} (st_tensors grad_state) grad_graph"
  proof -
    have nodes: "cg_nodes grad_graph = [16, 32]" "cg_leafs grad_graph = []" "length (cg_use_counts grad_graph) = 5"
      "hs_size (cg_visited grad_graph) = 5" by (simp_all add: grad_graph_def)
    have "\<not> is_leaf (st_tensors grad_state) 16" "\<not> is_leaf (st_tensors grad_state) 32"
      "named (st_tensors grad_state) 16" "named (st_tensors grad_state) 32"
      by (simp_all add: grad_defs is_leaf_def named_def has_flag_def)
    moreover have "topological (st_tensors grad_state) [16, 32] {}"
      using grad_srcs by (simp add: topological_def less_Suc_eq)
    moreover have "{16, 32} \<subseteq> dom (st_tensors grad_state)" by (auto simp: grad_state_def)
    ultimately show ?thesis using grad_hash(1,2) fin by (simp add: graph_inv_def nodes)
  qed
  ultimately show "graph_ok (st_tensors grad_state) grad_graph" by (simp add: graph_ok_def grad_srcs)
  show "flags_closed {} (st_tensors grad_state)"
    by (auto simp: flags_closed_def computed_def is_none_def srcs_def grad_defs has_flag_def split: if_splits)
qed

text \<open>The run: both nodes are marked, then the gradient of the copy becomes the gradient of the parameter.\<close>

definition grad_accs :: "ptr list" where "grad_accs = [0, 48]"

lemma grad_deref: "deref grad_state 16 = Some grad_param" "deref grad_state 32 = Some grad_loss"
  "deref grad_state 48 = Some grad_sink"
  by (simp_all add: deref_def grad_state_def)

definition grad_marked :: ggml_cgraph where
  "grad_marked = grad_graph\<lparr>cg_grads := Some [0, 0, 48, 0, 0], cg_grad_accs := Some [0, 0, 48, 0, 0]\<rparr>"

lemma grad_slots: "hs_used (cg_visited grad_graph) = [6]" "hs_size (cg_visited grad_graph) = 5"
  "cg_nodes grad_graph = [16, 32]" "cg_size grad_graph = 4"
  by (simp_all add: grad_graph_def)

lemma grad_mark:
  "mark_grad_node (Some grad_accs) 0
     ((grad_graph\<lparr>cg_grads := Some [0, 0, 0, 0, 0], cg_grad_accs := Some [0, 0, 0, 0, 0]\<rparr>, grad_state),
      [False, False, False, False, False])
   = Some ((grad_graph\<lparr>cg_grads := Some [0, 0, 0, 0, 0], cg_grad_accs := Some [0, 0, 0, 0, 0]\<rparr>, grad_state),
      [False, True, False, False, False])"
  "mark_grad_node (Some grad_accs) 1
     ((grad_graph\<lparr>cg_grads := Some [0, 0, 0, 0, 0], cg_grad_accs := Some [0, 0, 0, 0, 0]\<rparr>, grad_state),
      [False, True, False, False, False])
   = Some ((grad_marked, grad_state), [False, True, True, False, False])"
  using grad_find grad_used
  by (simp_all add: mark_grad_node_def array_get_def array_set_def grad_slots grad_deref grad_accs_def grad_marked_def
      set_grad_acc_def set_grad_def upt_rec has_flag_def ignored_src_def grad_param_def grad_loss_def
      ggml_bitset_get_def)

definition grad_named :: ggml_state where
  "grad_named = ggml_format_name grad_state 48 ''grad for w''"

definition grad_done :: ggml_cgraph where
  "grad_done = grad_marked\<lparr>cg_grads := Some [0, 48, 48, 0, 0], cg_leafs := [48],
     cg_visited := \<lparr>hs_size = 5, hs_used = [14], hs_keys = [0, 16, 32, 48, 0]\<rparr>\<rparr>"

lemma grad_find_done: "ggml_hash_find (cg_visited grad_done) 16 = Some 1" "ggml_bitset_get (hs_used (cg_visited grad_done)) 1"
  by (simp_all add: grad_done_def ggml_hash_find_def ggml_hash_def hash_find_loop.simps ggml_bitset_get_def drop_bit_eq_div)

lemma grad_expand:
  "ggml_build_forward_expand (grad_marked\<lparr>cg_grads := Some [0, 48, 48, 0, 0]\<rparr>) grad_named 48 = Some (grad_done, grad_named)"
proof -
  have "deref grad_named 48 = Some (grad_sink\<lparr>t_name := ''grad for w''\<rparr>)"
    by (simp add: grad_named_def ggml_format_name_def upd_def deref_def grad_state_def)
  moreover have "cg_visited grad_marked = cg_visited grad_graph" by (simp add: grad_marked_def)
  ultimately show ?thesis
    using grad_find grad_used
    by (simp add: ggml_build_forward_expand_def ggml_build_forward_impl_def ggml_visit_parents_graph.simps [of _ _ 48]
        mark_visited_def visit_srcs_def visit_order_def upt_rec grad_sink_def grad_param_def add_visited_def has_flag_def)
      (simp add: grad_marked_def grad_graph_def grad_done_def ggml_bitset_set_def ggml_bitset_get_def Let_def n_nodes_def n_leafs_def)
qed

lemma grad_back:
  "ggml_compute_backward fl 1 [False, True, True, False, False] (grad_marked, grad_state) = Some (grad_done, grad_named)"
  "ggml_compute_backward fl 0 [False, True, True, False, False] (grad_done, grad_named) = Some (grad_done, grad_named)"
proof -
  have get: "ggml_graph_get_grad grad_marked 32 = Some 48" "ggml_graph_get_grad grad_done 16 = Some 48"
    using grad_find grad_used grad_find_done
    by (simp_all add: ggml_graph_get_grad_def slot_entry_def grad_marked_def array_get_def) (simp_all add: grad_done_def grad_marked_def array_get_def)
  have src: "backward_src grad_marked [False, True, True, False, False] 16 = Some (1, True)"
    using grad_find grad_used by (simp add: backward_src_def grad_marked_def array_get_def)
  have add: "ggml_add_or_set (grad_marked, grad_state) 1 48 = Some (grad_done, grad_named)"
    using grad_expand grad_deref
    by (simp add: ggml_add_or_set_def key_at_def grad_at_def record_grad_def set_grad_def array_get_def array_set_def
        grad_named_def grad_param_def) (simp add: grad_marked_def grad_graph_def)
  have node: "node_at grad_marked 1 = Some 32" "node_at grad_done 0 = Some 16"
    by (simp_all add: node_at_def array_get_def grad_marked_def grad_graph_def grad_done_def)
  have named: "deref grad_named 16 = Some grad_param" "deref grad_named 48 = Some (grad_sink\<lparr>t_name := ''grad for w''\<rparr>)"
    by (simp_all add: grad_named_def ggml_format_name_def upd_def deref_def grad_state_def)
  have "grad_at grad_done 1 = Some 48" by (simp add: grad_at_def grad_done_def array_get_def)
  then have fits: "check_grad (grad_done, grad_named) True 16 1 = Some ()"
    using named by (simp add: check_grad_def grad_sink_def grad_param_def ggml_are_same_shape_def)
  have srcs: "t_op grad_loss = GGML_OP_DUP" "t_src grad_loss ! 0 = 16" "t_src grad_loss ! 1 = 0" "t_src grad_loss ! 2 = 0"
    "t_op grad_param = GGML_OP_NONE" "t_src grad_param ! i = 0" if "i < 3" for i
    using that by (simp_all add: grad_loss_def grad_param_def)
  note srcs' = srcs(1-5) [of 0, simplified] srcs(6) [of 0, simplified] srcs(6) [of 1, simplified] srcs(6) [of 2, simplified]
  show "ggml_compute_backward fl 1 [False, True, True, False, False] (grad_marked, grad_state) = Some (grad_done, grad_named)"
    using get(1) src add grad_deref(2) node(1) fits srcs'
    by (simp add: ggml_compute_backward_def backward_dup_def when_needed_def check_grad_def [of _ False]
        backward_src_def [of _ _ 0])
  show "ggml_compute_backward fl 0 [False, True, True, False, False] (grad_done, grad_named) = Some (grad_done, grad_named)"
    using get(2) node(2) named srcs'
    by (simp add: ggml_compute_backward_def check_grad_def [of _ False] backward_src_def [of _ _ 0])
qed

lemma replicate_5: "replicate 5 x = [x, x, x, x, x]"
  by (simp add: numeral_eq_Suc)

lemma grad_zeros: "replicate (hs_size (cg_visited grad_graph)) x = [x, x, x, x, x]"
  by (simp add: grad_graph_def numeral_eq_Suc)

lemma grad_run: "ggml_build_backward_expand fl (grad_graph, grad_state) (Some grad_accs) = Some (grad_done, grad_named)"
proof -
  have flags: "any_node_flag grad_state GGML_TENSOR_FLAG_PARAM [16, 32] = Some True"
    "any_node_flag grad_state GGML_TENSOR_FLAG_LOSS [16, 32] = Some True"
    using grad_deref by (simp_all add: has_flag_def grad_param_def grad_loss_def)
  have idx: "[0..<length (cg_nodes grad_graph)] = [0, 1]" "rev [0..<length (cg_nodes grad_graph)] = [1, 0]"
    by (simp_all add: grad_graph_def upt_rec)
  have pre: "n_nodes grad_graph > 0" "cg_grads grad_graph \<noteq> None" "cg_grad_accs grad_graph \<noteq> None"
    by (simp_all add: grad_graph_def n_nodes_def)
  show ?thesis
    unfolding ggml_build_backward_expand_def Let_def prod.case idx grad_zeros
    using pre flags grad_mark grad_back
    by (simp add: grad_slots replicate_5 del: any_node_flag.simps)
qed

lemma grad_accs_ok: "accs_ok grad_graph grad_state (Some grad_accs)"
  by (auto simp: accs_ok_def grad_accs_def grad_defs less_Suc_eq nth_Cons' ggml_are_same_shape_def)

lemma grad_sizes: "n_nodes grad_graph \<le> cg_size grad_graph" "n_leafs grad_graph \<le> cg_size grad_graph"
  by (simp_all add: grad_graph_def n_nodes_def n_leafs_def)

lemma grad_needs: "needs_grad (st_tensors grad_state) (set (cg_nodes grad_graph)) 16"
  by (rule needs_grad.own [where t = grad_param]) (simp_all add: grad_defs has_flag_def)

theorem ggml_build_backward_expand_extends_witness:
  "ctx_inv grad_named \<and> graph_ok (st_tensors grad_named) grad_done \<and> heap_marked (st_tensors grad_state) (st_tensors grad_named)"
  using ggml_build_backward_expand_extends [OF grad_ctx_inv grad_facts grad_sizes grad_accs_ok grad_run] by blast

theorem ggml_build_backward_expand_sound_witness:
  "\<exists>q. ggml_graph_get_grad grad_done 16 = Some q
     \<and> (q \<noteq> 0 \<longrightarrow> needs_grad (st_tensors grad_state) (set (cg_nodes grad_graph)) 16
       \<and> (q \<in> finished grad_done \<or> ggml_graph_get_grad_acc grad_done 16 = Some q))"
  using ggml_build_backward_expand_sound [OF grad_ctx_inv grad_facts grad_sizes grad_accs_ok grad_run, of 16] by blast

theorem ggml_build_backward_expand_complete_witness:
  "\<exists>q. ggml_graph_get_grad grad_done 16 = Some q \<and> q \<noteq> 0"
  by (rule ggml_build_backward_expand_complete [OF grad_ctx_inv grad_facts grad_sizes grad_accs_ok grad_run,
        where loss = 32 and t = grad_loss])
    (use grad_needs in \<open>auto simp: grad_edge_def grad_defs has_flag_def intro!: r_into_rtranclp exI [of _ 0]\<close>)

end
