(* ===== verification/Spec2Isabelle.thy ===== *)
theory Spec2Isabelle
  imports GGML_DynAlloc_Order GGML_GraphMem GGML_Fuse GGML_Program GGML_Conv GGML_Float GGML_GallocFree GGML_CtxAllocLive GGML_BackwardOk
begin

text \<open>
  Verification library for the tensor core of \<^verbatim>\<open>ggml\<close>, the C library on which \<^verbatim>\<open>whisper.cpp\<close> runs:
  \<^verbatim>\<open>ggml/src/ggml.c\<close>, \<^verbatim>\<open>ggml/src/ggml-alloc.c\<close>, the inline functions of \<^verbatim>\<open>ggml/src/ggml-impl.h\<close>, and of
  \<^verbatim>\<open>ggml/src/ggml-backend.cpp\<close> the functions on buffers that the allocators call. This theory imports
  all others; it holds this overview.

  \<^bold>\<open>The program.\<close> An application creates a context, a memory pool in which descriptors of tensors and
  of graphs are placed one behind the other. It calls operation builders; each checks its arguments
  and adds a descriptor that names its sources and parameters, and nothing is computed.
  \<^verbatim>\<open>ggml_build_forward_expand\<close> visits the sources of a result and lists them in evaluation order in a
  graph, whose hash set also counts the uses of every tensor; for training,
  \<^verbatim>\<open>ggml_build_backward_expand\<close> appends the operations that compute gradients. The graph allocator then
  plans the lifetimes of the intermediate results, with one dynamic allocator per buffer type, makes
  backend buffers of the planned sizes and gives each tensor its address. Weights get their memory
  for a whole context at once. Backends ask the fusion tests, which read the use counts, whether
  consecutive operations may be computed together. What the operations compute lies in the backends
  and is not modelled.

  \<^bold>\<open>Theories and sources.\<close>
  \<^item> \<open>GGML_Prelude\<close>: C integers, \<^verbatim>\<open>size_t\<close> arithmetic with its wrap-around (\<open>sz_add\<close>, \<open>sz_mul\<close>, \<open>GGML_PAD\<close>),
    assertions, array accesses and the lemmas that the components share.
  \<^item> \<open>GGML_Types\<close>, \<open>GGML_Op\<close>, \<open>GGML_Tensor\<close>: element types with their table of traits, operators, and the
    record \<open>ggml_tensor\<close> with the functions that only read a descriptor. \<open>GGML_Layout\<close>: what extents and
    strides mean (\<^verbatim>\<open>ggml_nbytes\<close> bounds the elements; contiguous tensors do not alias). \<open>GGML_Float\<close>: the
    bit-level conversions of bfloat16 and E8M0.
  \<^item> \<open>GGML_Context\<close>: \<^verbatim>\<open>struct ggml_context\<close>, \<^verbatim>\<open>ggml_new_object\<close>, \<^verbatim>\<open>ggml_new_tensor_impl\<close> and the iteration, on
    the state \<open>ggml_state\<close>: the context, its object headers by address, and all descriptors by address.
    \<open>GGML_Heap\<close>: the invariant \<open>ctx_inv\<close> (the objects form a gapless chain inside the pool; the tensors in
    the pool are those of the chain; descriptors are well formed, views refer to tensors that are not
    views, sources are acyclic) and \<open>grows\<close>, the step that adds one tensor. \<open>GGML_Pool\<close>: the pool as an
    allocator, new tensors, iteration in creation order.
  \<^item> \<open>GGML_Hash\<close>: bit sets and the pointer hash set of \<^verbatim>\<open>ggml-impl.h\<close>. \<open>GGML_Graph\<close>: \<^verbatim>\<open>struct ggml_cgraph\<close>, its
    layout, \<^verbatim>\<open>ggml_visit_parents_graph\<close>, copies, views, fusion tests. \<open>GGML_Build\<close>, \<open>GGML_BuildRoom\<close>: the
    visit lists what it reaches, in order, with the right counts and flags. \<open>GGML_GraphMem\<close>: graph
    objects in memory and graph copies. \<open>GGML_Fuse\<close>: what the fusion tests decide.
  \<^item> \<open>GGML_OpBase\<close>, \<open>GGML_OpsArith\<close>, \<open>GGML_OpsShape\<close>, \<open>GGML_OpsNN\<close>, \<open>GGML_OpsSeq\<close>: the operation builders, in the
    order of \<^verbatim>\<open>ggml.c\<close>; each theory shows that its builders only add a well-formed node. \<open>GGML_OpsComp\<close>:
    composed builders. \<open>GGML_Program\<close>: sequences of builder calls. \<open>GGML_Views\<close>, \<open>GGML_Conv\<close>: views,
    permutations, reshapes, convolution shapes.
  \<^item> \<open>GGML_Backward\<close>: \<^verbatim>\<open>ggml_build_backward_expand\<close> and \<^verbatim>\<open>ggml_compute_backward\<close> with every case of its switch.
    \<open>GGML_BackwardStep\<close>, \<open>GGML_BackwardSafe\<close>, \<open>GGML_BackwardOk\<close>: each case keeps the invariants of context and
    graph; what has a gradient afterwards, where it is, and that it has the shape of its tensor.
  \<^item> \<open>GGML_DynAlloc\<close>: \<^verbatim>\<open>ggml_dyn_tallocr\<close>, free lists in up to sixteen chunks. \<open>GGML_DynAlloc_Order\<close>: which block
    the search takes, when it fails, sorted and merged free lists.
  \<^item> \<open>GGML_Galloc\<close>: the planning half of \<^verbatim>\<open>ggml_gallocr\<close>. \<open>GGML_GallocMem\<close>: entries of live tensors are
    disjoint; \<open>GGML_GallocPlan\<close>: the counters are the reads still to come; \<open>GGML_GallocSafe\<close>: the recorded
    plan keeps live tensors apart. \<open>GGML_GallocRun\<close>: buffers, reserving and placing. \<open>GGML_GallocPlace\<close>,
    \<open>GGML_GallocAlloc\<close>: the memory implements the plan. \<open>GGML_GallocLive\<close>: success. \<open>GGML_GallocFree\<close>: freeing,
    and what a failed reservation leaves.
  \<^item> \<open>GGML_CtxAlloc\<close>, \<open>GGML_CtxAllocOk\<close>, \<open>GGML_CtxAllocLive\<close>: \<^verbatim>\<open>ggml_tallocr\<close> and
    \<^verbatim>\<open>ggml_backend_alloc_ctx_tensors_from_buft\<close>: every tensor of a context gets memory of its own.

  \<^bold>\<open>Interfaces.\<close> \<open>range_allocator\<close> (theory \<open>GGML_Alloc_Spec\<close>) is the contract between an allocator of address
  ranges and its client: what is handed out comes out of the available cells, what is returned becomes
  available, an invariant holds. The client's theorem, that ranges in use never overlap, is proved
  once and holds for the dynamic allocator (\<open>dyn_alloc\<close>, and \<open>dyn_order\<close> with the stronger invariant of
  sorted free lists) and for the pool of a context (\<open>pool\<close>). \<open>pointer_table\<close> (theory \<open>GGML_Hash\<close>) is the
  contract of the hash set as graphs and the graph allocator use it: a key keeps its slot (\<open>hash\<close>).
  \<open>growing_client\<close> (theory \<open>GGML_OpBase\<close>) is the contract of a step that only adds tensors to a context;
  \<open>prog\<close> instantiates it with the calls of all builders. Each locale is interpreted on the model itself.

  \<^bold>\<open>Conventions.\<close> The target is LP64 with \<^verbatim>\<open>GGML_MEM_ALIGN\<close> 16 and 64-bit pointers, compiled with \<^verbatim>\<open>NDEBUG\<close>.
  \<^verbatim>\<open>size_t\<close> is a natural number with the wrap-around at \<open>2 ^ 64\<close> written out; the other integers are ints
  with their conversions; floats are their 32-bit words. An abort, a failed \<^verbatim>\<open>GGML_ASSERT\<close>, an access
  outside of an array and a read of an object that does not exist or was freed are \<open>None\<close>; a theorem
  that an operation succeeds therefore shows that none of these happens. Error returns of the code
  are values: \<^verbatim>\<open>NULL\<close> is 0, \<^verbatim>\<open>false\<close> is \<open>False\<close>. Loops without an evident bound (probing, walking object
  lists, visiting sources, looping over the tensors of a context) are partial functions into \<open>option\<close>:
  no fuel is involved, and not returning is \<open>None\<close> as well. That they return is part of the theorems on
  them, by the invariants (a finite chain of objects, acyclic sources, a free slot or a full turn).

  \<^bold>\<open>Parameters.\<close> Backends are arguments: a table of buffer types (alignment, maximal size, size of a
  tensor) and a record \<open>backend_env\<close> of the functions that create buffers. What the theorems rely on is
  named: \<open>backend_ok\<close> (a new buffer is fresh, not smaller than asked for and does not wrap around),
  \<open>sizes_stable\<close> (the size of a tensor does not depend on where tensors lie), \<open>never_fails\<close>. The conditions
  under which the graph allocator is correct are collected in \<open>alloc_setting\<close> and \<open>plan_graph\<close>; the most
  important one is that every view that is read is a node of the graph with an operation. The theorem
  \<open>gallocr_uncounted_view_overlaps\<close> shows a graph outside of it whose plan overwrites a live tensor.
  Arithmetic on floats (\<open>float_ops\<close>) is an argument of the builders and the backward pass that need it.
  Each property with hypotheses comes with a concrete instance.

  \<^bold>\<open>Limits.\<close> \<^verbatim>\<open>ggml_cast\<close> makes its result a source of itself, so that a graph with such a node has no
  acyclic sources: it falls outside of \<open>ctx_inv\<close>, and with it outside of the theorems on programs, graphs
  and planning. It and the two \<^verbatim>\<open>add_sinks\<close> functions, which change an existing tensor, are modelled but
  are no steps of \<open>api_step\<close>. Descriptors are values of a map: overlapping descriptors cannot be expressed,
  and neither can the contents of tensor data. The functions are sequential; \<^verbatim>\<open>ggml_init\<close>'s lock is not
  modelled. The uninitialised keys and counts of a new graph are 0, and \<^verbatim>\<open>ggml_graph_cpy\<close> does not tell a
  write outside of an array from a failed assertion. What a backend frees in its \<^verbatim>\<open>free_buffer\<close> hook is
  not part of the store of buffers.

  \<^bold>\<open>Not modelled.\<close> The numeric kernels, thread pool and quantisation (\<^verbatim>\<open>ggml-cpu\<close>, \<^verbatim>\<open>ggml-quants.c\<close>), fp16
  and UE4M3 conversions (floating-point arithmetic); the device backends; the backend scheduler,
  registry and meta backend, \<^verbatim>\<open>gguf.cpp\<close> and \<^verbatim>\<open>ggml-opt.cpp\<close> (C++); \<^verbatim>\<open>ggml_graph_reset\<close>, printing and dot
  export; logging, timing, files and aligned allocation (system calls); \<^verbatim>\<open>whisper.cpp\<close> and the other
  models, bindings and examples.
\<close>

end
